(* ===== verification/JsPrelude.thy ===== *)
theory JsPrelude
  imports Complex_Main
begin

text \<open>
  Shared vocabulary of the development: the JavaScript values and library calls that the
  sources under src/theia-extensions use, with the lemmas every component needs about them.

  \<^item> Strings are \<open>char list\<close>s holding the UTF-8 bytes of the JavaScript string. The code
    only concatenates, compares, searches, trims and lower-cases strings, and those agree
    with the UTF-16 originals on this representation (trimming and lower-casing are the
    ASCII part of the library functions).
  \<^item> Canvas coordinates and sizes are finite numbers, modelled exactly as rationals
    (\<open>jsnum\<close>); counts and indices are \<open>nat\<close> or, where the code clamps them, \<open>int\<close>.
  \<^item> A \<open>Map\<close> that the code iterates is an association list in insertion order (\<open>jsmap\<close>).
  \<^item> A thrown exception is the left side of a sum.
\<close>

named_theorems js_simps \<open>evaluation rules of the modelled library calls\<close>

type_synonym jsnum = rat

subsection \<open>Exceptions\<close>

text \<open>Sequencing of calls that may throw: the first exception wins.\<close>

definition bindE :: "'e + 'a \<Rightarrow> ('a \<Rightarrow> 'e + 'b) \<Rightarrow> 'e + 'b" where
  "bindE m f = (case m of Inl e \<Rightarrow> Inl e | Inr a \<Rightarrow> f a)"

lemma bindE_simps [simp]: "bindE (Inl e) f = Inl e" "bindE (Inr a) f = f a"
  by (simp_all add: bindE_def)

lemma bindE_InrE:
  assumes "bindE m f = Inr b"
  obtains a where "m = Inr a" and "f a = Inr b"
  using assms by (cases m) auto

text \<open>A message shown to the user by the message service.\<close>

datatype notice = NInfo string | NWarn string | NError string

subsection \<open>Numbers\<close>

text \<open>\<open>Math.round\<close>: the closest integer, ties towards plus infinity.\<close>

definition js_round :: "jsnum \<Rightarrow> int" where
  "js_round r = \<lfloor>r + 1/2\<rfloor>"

lemma js_round_of_int [simp]: "js_round (of_int k) = k"
  by (simp add: js_round_def floor_eq_iff)

lemma js_round_bounds: "r - 1/2 < of_int (js_round r)" "of_int (js_round r) \<le> r + 1/2"
proof -
  have "r + 1/2 < of_int \<lfloor>r + 1/2\<rfloor> + 1" using floor_correct [of "r + 1/2"] by simp
  then show "r - 1/2 < of_int (js_round r)" by (simp add: js_round_def)
  show "of_int (js_round r) \<le> r + 1/2" by (simp add: js_round_def)
qed

text \<open>\<open>Math.min(Math.max(i, 0), n)\<close>, as the insertion slots are clamped.\<close>

definition clamp_index :: "int \<Rightarrow> nat \<Rightarrow> nat" where
  "clamp_index i n = nat (min (max i 0) (int n))"

lemma clamp_index_le [simp]: "clamp_index i n \<le> n"
  by (simp add: clamp_index_def)

lemma clamp_index_nat [simp]: "k \<le> n \<Longrightarrow> clamp_index (int k) n = k"
  by (simp add: clamp_index_def)

subsection \<open>Strings\<close>

text \<open>Decimal text of a natural number, as in a template literal.\<close>

fun nat_to_dec :: "nat \<Rightarrow> string" where
  "nat_to_dec n =
     (if n < 10 then [char_of (48 + n)] else nat_to_dec (n div 10) @ [char_of (48 + n mod 10)])"

declare nat_to_dec.simps [simp del]

definition digit_char :: "char \<Rightarrow> bool" where
  "digit_char c \<longleftrightarrow> 48 \<le> (of_char c :: nat) \<and> (of_char c :: nat) \<le> 57"

lemma digit_char_char_of [simp]: "d < 10 \<Longrightarrow> digit_char (char_of (48 + d :: nat))"
  by (simp add: digit_char_def)

lemma digit_char_no_dash: "digit_char c \<Longrightarrow> c \<noteq> CHR ''-''"
  by (auto simp: digit_char_def)

lemma nat_to_dec_digits: "c \<in> set (nat_to_dec n) \<Longrightarrow> digit_char c"
proof (induction n rule: nat_to_dec.induct)
  case (1 n)
  then show ?case by (subst (asm) (2) nat_to_dec.simps) (auto split: if_splits)
qed

lemma nat_to_dec_no_dash [simp]: "CHR ''-'' \<notin> set (nat_to_dec n)"
  using nat_to_dec_digits digit_char_no_dash by blast

lemma nat_to_dec_not_Nil [simp]: "nat_to_dec n \<noteq> []"
  by (subst nat_to_dec.simps) simp

text \<open>Reading the digits back: \<open>Number(...)\<close> on a run of digits.\<close>

definition digits_value :: "string \<Rightarrow> nat" where
  "digits_value s = foldl (\<lambda>v c. v * 10 + (of_char c - 48)) 0 s"

lemma digits_value_dec [simp]: "digits_value (nat_to_dec n) = n"
proof (induction n rule: nat_to_dec.induct)
  case (1 n)
  show ?case
  proof (cases "n < 10")
    case True
    then show ?thesis by (subst nat_to_dec.simps) (simp add: digits_value_def)
  next
    case False
    then have "digits_value (nat_to_dec (n div 10)) = n div 10" by (rule 1)
    then have "foldl (\<lambda>v c. v * 10 + (of_char c - 48)) 0 (nat_to_dec (n div 10)) = n div 10"
      by (simp add: digits_value_def)
    with False show ?thesis
      by (subst nat_to_dec.simps) (simp add: digits_value_def)
  qed
qed

lemma nat_to_dec_inject [simp]: "nat_to_dec m = nat_to_dec n \<longleftrightarrow> m = n"
  by (metis digits_value_dec)

text \<open>\<open>String(n).padStart(3, '0')\<close>.\<close>

definition padStart3 :: "string \<Rightarrow> string" where
  "padStart3 s = replicate (3 - length s) (CHR ''0'') @ s"

text \<open>\<open>hay.startsWith(p)\<close> and \<open>hay.includes(needle)\<close>.\<close>

fun starts_with :: "string \<Rightarrow> string \<Rightarrow> bool" where
  "starts_with [] hay = True"
| "starts_with (c # p) [] = False"
| "starts_with (c # p) (h # hay) = (c = h \<and> starts_with p hay)"

fun str_includes :: "string \<Rightarrow> string \<Rightarrow> bool" where
  "str_includes [] needle = (needle = [])"
| "str_includes (h # hay) needle = (starts_with needle (h # hay) \<or> str_includes hay needle)"

lemma starts_with_append [simp]: "starts_with p (p @ s)"
  by (induction p) auto

lemma starts_with_iff: "starts_with p s \<longleftrightarrow> (\<exists>t. s = p @ t)"
  by (induction p s rule: starts_with.induct) auto

lemma str_includes_iff: "str_includes hay needle \<longleftrightarrow> (\<exists>a b. hay = a @ needle @ b)"
proof (induction hay)
  case Nil
  then show ?case by simp
next
  case (Cons h hay)
  have "(\<exists>a b. h # hay = a @ needle @ b)
      \<longleftrightarrow> (\<exists>b. h # hay = needle @ b) \<or> (\<exists>a b. hay = a @ needle @ b)"
    (is "?L = (?A \<or> ?B)")
  proof
    assume ?L
    then obtain a b where ab: "h # hay = a @ needle @ b" by blast
    then show "?A \<or> ?B"
    proof (cases a)
      case Nil
      with ab have ?A by auto
      then show ?thesis ..
    next
      case (Cons a0 a')
      with ab have "hay = a' @ needle @ b" by simp
      then show ?thesis by blast
    qed
  next
    assume "?A \<or> ?B"
    then show ?L
    proof
      assume ?A
      then obtain b where "h # hay = [] @ needle @ b" by auto
      then show ?L by blast
    next
      assume ?B
      then obtain a b where "h # hay = (h # a) @ needle @ b" by auto
      then show ?L by blast
    qed
  qed
  then show ?case by (simp add: Cons.IH starts_with_iff)
qed

lemma str_includes_infix [intro]: "str_includes (a @ needle @ b) needle"
  by (auto simp: str_includes_iff)

text \<open>\<open>s.endsWith(suffix)\<close>\<close>

definition ends_with :: "string \<Rightarrow> string \<Rightarrow> bool" where
  "ends_with suffix s \<longleftrightarrow> starts_with (rev suffix) (rev s)"

lemma ends_with_iff: "ends_with suffix s \<longleftrightarrow> (\<exists>t. s = t @ suffix)"
  unfolding ends_with_def starts_with_iff by (metis rev_append rev_rev_ident)

text \<open>White space as \<open>String.prototype.trim\<close> and \<open>/\s/\<close> see it, ASCII part.\<close>

definition js_space :: "char \<Rightarrow> bool" where
  "js_space c \<longleftrightarrow> c \<in> {CHR '' '', CHR 0x09, CHR 0x0A, CHR 0x0B, CHR 0x0C, CHR 0x0D}"

definition trim :: "string \<Rightarrow> string" where
  "trim s = rev (dropWhile js_space (rev (dropWhile js_space s)))"

lemma dropWhile_Nil_all: "dropWhile P xs = [] \<longleftrightarrow> (\<forall>x \<in> set xs. P x)"
  by (induction xs) auto

lemma trim_no_space [simp]: "\<forall>c \<in> set s. \<not> js_space c \<Longrightarrow> trim s = s"
proof -
  assume s: "\<forall>c \<in> set s. \<not> js_space c"
  then have "dropWhile js_space s = s" by (cases s) auto
  moreover from s have "dropWhile js_space (rev s) = rev s" by (cases "rev s") auto
  ultimately show "trim s = s" by (simp add: trim_def)
qed

lemma set_trim_subset: "set (trim s) \<subseteq> set s"
  unfolding trim_def by (metis set_rev set_dropWhileD subsetI)

text \<open>\<open>toLowerCase\<close> and \<open>toUpperCase\<close> on ASCII letters; other bytes are unchanged.\<close>

definition lower_char :: "char \<Rightarrow> char" where
  "lower_char c = (let n = of_char c :: nat in if 65 \<le> n \<and> n \<le> 90 then char_of (n + 32) else c)"

definition toLowerCase :: "string \<Rightarrow> string" where
  "toLowerCase s = map lower_char s"

definition upper_char :: "char \<Rightarrow> char" where
  "upper_char c = (let n = of_char c :: nat in if 97 \<le> n \<and> n \<le> 122 then char_of (n - 32) else c)"

definition toUpperCase :: "string \<Rightarrow> string" where
  "toUpperCase s = map upper_char s"

text \<open>\<open>xs.join(sep)\<close>.\<close>

fun join_with :: "string \<Rightarrow> string list \<Rightarrow> string" where
  "join_with sep [] = []"
| "join_with sep [x] = x"
| "join_with sep (x # y # xs) = x @ sep @ join_with sep (y # xs)"

definition newline :: string where
  "newline = [CHR 0x0A]"

text \<open>The double quote and the em dash (UTF-8) of the message templates.\<close>

definition dq :: string where
  "dq = [CHR 0x22]"

definition em_dash :: string where
  "em_dash = [CHR 0xE2, CHR 0x80, CHR 0x94]"

definition right_arrow :: string where
  "right_arrow = [CHR 0xE2, CHR 0x86, CHR 0x92]"

subsection \<open>Arrays\<close>

lemma concat_if: "concat (map (\<lambda>x. if P x then [f x] else []) xs) = map f (filter P xs)"
  by (induction xs) auto

text \<open>\<open>xs.findIndex(p)\<close> and \<open>xs.indexOf(x)\<close>; the library's \<open>-1\<close> is \<open>None\<close>.\<close>

fun findIndex :: "('a \<Rightarrow> bool) \<Rightarrow> 'a list \<Rightarrow> nat option" where
  "findIndex p [] = None"
| "findIndex p (x # xs) = (if p x then Some 0 else map_option Suc (findIndex p xs))"

definition indexOf :: "'a list \<Rightarrow> 'a \<Rightarrow> nat option" where
  "indexOf xs x = findIndex (\<lambda>y. y = x) xs"

lemma findIndex_None: "findIndex p xs = None \<longleftrightarrow> (\<forall>x \<in> set xs. \<not> p x)"
  by (induction xs) auto

lemma findIndex_SomeD:
  "findIndex p xs = Some i \<Longrightarrow> i < length xs \<and> p (xs ! i) \<and> (\<forall>j < i. \<not> p (xs ! j))"
proof (induction xs arbitrary: i)
  case (Cons x xs)
  show ?case
  proof (cases "p x")
    case False
    with Cons.prems obtain k where k: "findIndex p xs = Some k" and i: "i = Suc k"
      by auto
    with Cons.IH [OF k] False show ?thesis
      by (auto simp: less_Suc_eq_0_disj)
  qed (use Cons.prems in auto)
qed simp

lemma findIndex_Some_ex: "x \<in> set xs \<Longrightarrow> p x \<Longrightarrow> \<exists>i. findIndex p xs = Some i"
  using findIndex_None [of p xs] by (cases "findIndex p xs") auto

lemma indexOf_SomeD: "indexOf xs x = Some i \<Longrightarrow> i < length xs \<and> xs ! i = x"
  unfolding indexOf_def by (auto dest: findIndex_SomeD)

lemma indexOf_None [simp]: "indexOf xs x = None \<longleftrightarrow> x \<notin> set xs"
  by (auto simp: indexOf_def findIndex_None)

lemma indexOf_Some_ex: "x \<in> set xs \<Longrightarrow> \<exists>i. indexOf xs x = Some i"
  using indexOf_None [of xs x] by (cases "indexOf xs x") auto

lemma indexOf_nth_distinct: "distinct xs \<Longrightarrow> i < length xs \<Longrightarrow> indexOf xs (xs ! i) = Some i"
  by (metis indexOf_SomeD indexOf_Some_ex nth_eq_iff_index_eq nth_mem)

text \<open>\<open>xs.splice(i, 0, ...ys)\<close> and \<open>xs.splice(i, 1)\<close> for \<open>i\<close> in range.\<close>

definition splice_insert :: "nat \<Rightarrow> 'a list \<Rightarrow> 'a list \<Rightarrow> 'a list" where
  "splice_insert i ys xs = take i xs @ ys @ drop i xs"

definition splice_remove :: "nat \<Rightarrow> 'a list \<Rightarrow> 'a list" where
  "splice_remove i xs = take i xs @ drop (Suc i) xs"

lemma set_splice_insert [simp]: "set (splice_insert i ys xs) = set ys \<union> set xs"
proof -
  have "set xs = set (take i xs) \<union> set (drop i xs)"
    by (metis append_take_drop_id set_append)
  then show ?thesis by (auto simp: splice_insert_def)
qed

lemma length_splice_insert [simp]: "length (splice_insert i ys xs) = length ys + length xs"
  by (simp add: splice_insert_def)

lemma set_take_drop: "set xs = set (take i xs) \<union> set (drop i xs)"
  by (metis append_take_drop_id set_append)

lemma distinct_split:
  "distinct xs \<longleftrightarrow>
    distinct (take i xs) \<and> distinct (drop i xs) \<and> set (take i xs) \<inter> set (drop i xs) = {}"
  by (metis append_take_drop_id distinct_append)

lemma distinct_splice_insert [simp]:
  "distinct (splice_insert i ys xs) \<longleftrightarrow> distinct ys \<and> distinct xs \<and> set ys \<inter> set xs = {}"
  unfolding splice_insert_def distinct_append set_append
    set_take_drop [of xs i] distinct_split [of xs i]
  by (simp only: Int_Un_distrib Un_empty) (simp only: Int_commute conj_ac)

lemma set_splice_remove_subset: "set (splice_remove i xs) \<subseteq> set xs"
  by (auto simp: splice_remove_def dest: in_set_takeD in_set_dropD)

lemma distinct_splice_remove: "distinct xs \<Longrightarrow> distinct (splice_remove i xs)"
proof -
  assume d: "distinct xs"
  then have "set (take i xs) \<inter> set (drop (Suc i) xs) = {}"
    by (rule set_take_disj_set_drop_if_distinct) simp
  with d show ?thesis by (simp add: splice_remove_def)
qed

lemma splice_remove_nth: "i < length xs \<Longrightarrow> xs = take i xs @ xs ! i # drop (Suc i) xs"
  by (rule id_take_nth_drop)

lemma set_splice_remove:
  "distinct xs \<Longrightarrow> i < length xs \<Longrightarrow> set (splice_remove i xs) = set xs - {xs ! i}"
proof -
  assume d: "distinct xs" and i: "i < length xs"
  have xs: "xs = take i xs @ xs ! i # drop (Suc i) xs" using i by (rule id_take_nth_drop)
  with d have "distinct (take i xs @ xs ! i # drop (Suc i) xs)" by simp
  then have "xs ! i \<notin> set (take i xs)" "xs ! i \<notin> set (drop (Suc i) xs)" by auto
  moreover from xs have "set xs = set (take i xs) \<union> {xs ! i} \<union> set (drop (Suc i) xs)"
    by (metis Un_insert_right list.simps(15) set_append sup_bot.right_neutral Un_insert_left)
  ultimately show ?thesis by (auto simp: splice_remove_def)
qed

text \<open>\<open>xs.map((x, i) => f(x, i))\<close>.\<close>

definition map_index :: "(nat \<Rightarrow> 'a \<Rightarrow> 'b) \<Rightarrow> 'a list \<Rightarrow> 'b list" where
  "map_index f xs = map (\<lambda>(i, x). f i x) (enumerate 0 xs)"

lemma length_map_index [simp]: "length (map_index f xs) = length xs"
  by (simp add: map_index_def)

lemma nth_map_index [simp]: "i < length xs \<Longrightarrow> map_index f xs ! i = f i (xs ! i)"
  by (simp add: map_index_def nth_enumerate_eq)

lemma map_map_index: "map f (map_index h xs) = map_index (\<lambda>i x. f (h i x)) xs"
  by (simp add: map_index_def case_prod_beta)

lemma map_index_const [simp]: "map_index (\<lambda>i. h) xs = map h xs"
  by (rule nth_equalityI) simp_all

subsection \<open>Insertion-ordered maps\<close>

type_synonym ('k, 'v) jsmap = "('k \<times> 'v) list"

text \<open>\<open>m.set(k, v)\<close> keeps the place of a key that is already there.\<close>

fun js_set :: "'k \<Rightarrow> 'v \<Rightarrow> ('k, 'v) jsmap \<Rightarrow> ('k, 'v) jsmap" where
  "js_set k v [] = [(k, v)]"
| "js_set k v ((k', v') # m) = (if k' = k then (k, v) # m else (k', v') # js_set k v m)"

lemma map_of_js_set [simp]: "map_of (js_set k v m) = (map_of m)(k \<mapsto> v)"
  by (induction m) auto

text \<open>A \<open>Set\<close> filled in iteration order.\<close>

definition js_add :: "'a \<Rightarrow> 'a list \<Rightarrow> 'a list" where
  "js_add x xs = (if x \<in> set xs then xs else xs @ [x])"

lemma set_js_add [simp]: "set (js_add x xs) = insert x (set xs)"
  by (auto simp: js_add_def)

lemma distinct_js_add [simp]: "distinct (js_add x xs) = distinct xs"
  by (auto simp: js_add_def)

text \<open>The keys of a map are filled the same way.\<close>

lemma keys_js_set [simp]: "map fst (js_set k v m) = js_add k (map fst m)"
  by (induction k v m rule: js_set.induct) (auto simp: js_add_def)

lemma distinct_js_set: "distinct (map fst m) \<Longrightarrow> distinct (map fst (js_set k v m))"
  by simp

subsection \<open>Lists: facts the components share\<close>

lemma find_SomeD: "List.find p xs = Some x \<Longrightarrow> x \<in> set xs \<and> p x"
  by (induction xs) (auto split: if_splits)

lemma find_NoneD: "List.find p xs = None \<longleftrightarrow> (\<forall>x \<in> set xs. \<not> p x)"
  by (induction xs) auto

lemma set_list_update_subset: "set (xs[i := y]) \<subseteq> insert y (set xs)"
  by (rule set_update_subset_insert)

lemma distinct_map_list_update_same:
  "i < length xs \<Longrightarrow> f y = f (xs ! i) \<Longrightarrow> map f (xs[i := y]) = map f xs"
  by (metis list_update_id map_update)

text \<open>
  Replacing one block of a distinct concatenation by a block that uses only the old
  block's elements and fresh ones keeps the concatenation distinct.
\<close>

lemma distinct_concat_update:
  assumes d: "distinct (concat xss)" and i: "i < length xss" and ys: "distinct ys"
    and sub: "set ys \<inter> set (concat xss) \<subseteq> set (xss ! i)"
  shows "distinct (concat (xss[i := ys]))"
proof -
  define A where "A = concat (take i xss)"
  define B where "B = concat (drop (Suc i) xss)"
  have upd: "concat (xss[i := ys]) = A @ ys @ B"
    using i by (simp add: upd_conv_take_nth_drop A_def B_def)
  have "xss = take i xss @ xss ! i # drop (Suc i) xss"
    using i by (rule id_take_nth_drop)
  then have cat: "concat xss = A @ xss ! i @ B"
    unfolding A_def B_def by (metis concat.simps(2) concat_append)
  from d have dd: "distinct A" "distinct B" "set A \<inter> set B = {}"
      "set A \<inter> set (xss ! i) = {}" "set B \<inter> set (xss ! i) = {}"
    unfolding cat by auto
  from sub have "set ys \<inter> set A \<subseteq> set (xss ! i)" "set ys \<inter> set B \<subseteq> set (xss ! i)"
    unfolding cat by auto
  with dd have "set ys \<inter> set A = {}" "set ys \<inter> set B = {}" by blast+
  with dd ys show ?thesis unfolding upd by auto
qed

lemma set_concat_update_subset:
  "i < length xss \<Longrightarrow> set (concat (xss[i := ys])) \<subseteq> set (concat xss) \<union> set ys"
  using set_update_subset_insert [of xss i ys] by auto

subsection \<open>Text cut at a character\<close>

text \<open>\<open>s.split(c)\<close> and its inverse.\<close>

fun split_on :: "char \<Rightarrow> string \<Rightarrow> string list" where
  "split_on c [] = [[]]"
| "split_on c (x # xs) = (if x = c then [] # split_on c xs
     else case split_on c xs of [] \<Rightarrow> [[x]] | w # ws \<Rightarrow> (x # w) # ws)"

lemma split_on_not_Nil [simp]: "split_on c s \<noteq> []"
  by (induction s) (auto split: list.split)

lemma split_on_plain: "c \<notin> set s \<Longrightarrow> split_on c s = [s]"
  by (induction s) auto

lemma split_on_sep: "c \<notin> set a \<Longrightarrow> split_on c (a @ c # b) = a # split_on c b"
  by (induction a) auto

lemma split_on_join: "ls \<noteq> [] \<Longrightarrow> (\<And>l. l \<in> set ls \<Longrightarrow> c \<notin> set l) \<Longrightarrow> split_on c (join_with [c] ls) = ls"
proof (induction ls)
  case (Cons l ls)
  then show ?case by (cases ls) (simp_all add: split_on_plain split_on_sep)
qed simp

end
