(* ===== verification/LdModel.thy ===== *)
theory LdModel
  imports JsPrelude
begin

text \<open>
  The graph model of the ladder-diagram editor
  (theia-extensions/weftik-ld-editor/src/model: nodes.ts, edges.ts, grid.ts and model.ts):
  node, edge, rung and branch types, the grid constants, the id generator and the factory
  functions. The id generator's module variable is an explicit state that every factory
  threads; the random suffix of an id is read from a stream in that state.
\<close>

subsection \<open>Nodes (nodes.ts)\<close>

record point =
  px :: jsnum
  py :: jsnum

record dimension =
  dwidth :: jsnum
  dheight :: jsnum

record pin =
  pin_name :: string
  pin_dataType :: string
  pin_position :: point

datatype contact_type = NO | NC | CT_P | CT_N

datatype comparison_operator = OpEQ | OpGT | OpLT | OpGE | OpLE

datatype coil_type = Normal | Negated | CoilSet | CoilReset
  | NoCoilType \<comment> \<open>the value undefined, which the canvas passes when it places with the Power Rail tool\<close>

datatype rail_side = LeftRail | RightRail

text \<open>
  The fields each node interface adds to \<open>BaseNode\<close>; the constructor is the \<open>type\<close>
  discriminator.
\<close>

datatype node_data =
    Contact contact_type string "string option"
  | Comparison comparison_operator string string
  | Coil coil_type string "string option"
  | PowerRail rail_side
  | FbBox string "pin list" "pin list"

record ld_node =
  nid :: string
  ndata :: node_data
  npos :: point
  ndim :: dimension
  ncss :: "string list option"

fun type_of_data :: "node_data \<Rightarrow> string" where
  "type_of_data (Contact t v c) = ''node:contact''"
| "type_of_data (Comparison op a b) = ''node:comparison''"
| "type_of_data (Coil t v c) = ''node:coil''"
| "type_of_data (PowerRail s) = ''node:powerrail''"
| "type_of_data (FbBox f i out) = ''node:fb''"

definition node_type :: "ld_node \<Rightarrow> string" where
  "node_type n = type_of_data (ndata n)"

fun is_contact :: "node_data \<Rightarrow> bool" where
  "is_contact (Contact t v c) = True"
| "is_contact _ = False"

fun is_coil :: "node_data \<Rightarrow> bool" where
  "is_coil (Coil t v c) = True"
| "is_coil _ = False"

fun is_comparison :: "node_data \<Rightarrow> bool" where
  "is_comparison (Comparison op a b) = True"
| "is_comparison _ = False"

fun is_powerrail :: "node_data \<Rightarrow> bool" where
  "is_powerrail (PowerRail s) = True"
| "is_powerrail _ = False"

fun is_fb :: "node_data \<Rightarrow> bool" where
  "is_fb (FbBox f i out) = True"
| "is_fb _ = False"

lemma type_of_data_eq [simp]:
  "type_of_data d = ''node:contact'' \<longleftrightarrow> is_contact d"
  "type_of_data d = ''node:coil'' \<longleftrightarrow> is_coil d"
  "type_of_data d = ''node:comparison'' \<longleftrightarrow> is_comparison d"
  "type_of_data d = ''node:powerrail'' \<longleftrightarrow> is_powerrail d"
  "type_of_data d = ''node:fb'' \<longleftrightarrow> is_fb d"
  by (cases d; simp)+

lemma kind_disjoint:
  "is_contact d \<Longrightarrow> \<not> is_coil d" "is_contact d \<Longrightarrow> \<not> is_powerrail d"
  "is_coil d \<Longrightarrow> \<not> is_powerrail d" "is_contact d \<Longrightarrow> \<not> is_fb d"
  "is_coil d \<Longrightarrow> \<not> is_contact d" "is_powerrail d \<Longrightarrow> \<not> is_contact d"
  by (cases d; simp)+

subsection \<open>Edges (edges.ts)\<close>

datatype edge_data =
    Wire "point list option" "string option" "string option"
      \<comment> \<open>routing points, source pin, target pin\<close>
  | Power

record ld_edge =
  eid :: string
  edata :: edge_data
  sourceId :: string
  targetId :: string
  ecss :: "string list option"

subsection \<open>Grid constants (grid.ts)\<close>

definition LD_GRID :: jsnum where "LD_GRID = 40"
definition CONTACT_SIZE :: jsnum where "CONTACT_SIZE = 36"
definition RUNG_HEIGHT :: jsnum where "RUNG_HEIGHT = 80"
definition RUNG_GROUP_HEIGHT :: jsnum where "RUNG_GROUP_HEIGHT = RUNG_HEIGHT - 4"
definition RAIL_WIDTH :: jsnum where "RAIL_WIDTH = 4"
definition FB_WIDTH :: jsnum where "FB_WIDTH = 140"
definition COMPARISON_WIDTH :: jsnum where "COMPARISON_WIDTH = 80"
definition COIL_X_OFFSET :: jsnum where "COIL_X_OFFSET = 600"
definition RAIL_X_RIGHT :: jsnum where
  "RAIL_X_RIGHT = COIL_X_OFFSET + CONTACT_SIZE + RAIL_WIDTH"
definition RUNG_GROUP_WIDTH :: jsnum where "RUNG_GROUP_WIDTH = RAIL_X_RIGHT + RAIL_WIDTH"
definition BRANCH_FIRST_Y :: jsnum where "BRANCH_FIRST_Y = 120"
definition ELEMENT_Y :: jsnum where "ELEMENT_Y = LD_GRID"

lemmas grid_defs = LD_GRID_def CONTACT_SIZE_def RUNG_HEIGHT_def RUNG_GROUP_HEIGHT_def
  RAIL_WIDTH_def FB_WIDTH_def COMPARISON_WIDTH_def COIL_X_OFFSET_def RAIL_X_RIGHT_def
  RUNG_GROUP_WIDTH_def BRANCH_FIRST_Y_def ELEMENT_Y_def

subsection \<open>Rungs, branches and the graph (model.ts)\<close>

record branch =
  bid :: string
  brungId :: string
  anchorId :: string
  members :: "string list"
  bx :: jsnum

record rung =
  rid :: string
  rungNumber :: nat
  rcomment :: "string option"
  rtitle :: "string option"
  elementIds :: "string list"
  branches :: "branch list option"

record ld_graph =
  gid :: string
  nodes :: "ld_node list"
  edges :: "ld_edge list"
  rungs :: "rung list"

text \<open>\<open>rung.branches ?? []\<close>\<close>

definition rung_branches :: "rung \<Rightarrow> branch list" where
  "rung_branches r = (case branches r of None \<Rightarrow> [] | Some bs \<Rightarrow> bs)"

lemma rung_branches_Some [simp]: "branches r = Some bs \<Longrightarrow> rung_branches r = bs"
  by (simp add: rung_branches_def)

lemma rung_branches_update [simp]:
  "rung_branches (r\<lparr>branches := Some bs\<rparr>) = bs"
  "rung_branches (r\<lparr>elementIds := es\<rparr>) = rung_branches r"
  "rung_branches (r\<lparr>rungNumber := k\<rparr>) = rung_branches r"
  "rung_branches (r\<lparr>rtitle := t\<rparr>) = rung_branches r"
  "rung_branches (r\<lparr>rcomment := t\<rparr>) = rung_branches r"
  by (simp_all add: rung_branches_def)

subsection \<open>Ids\<close>

text \<open>
  \<open>nextId\<close> is the module's counter; \<open>rnd\<close> gives the random suffix the \<open>k\<close>-th call draws
  (\<open>Math.random().toString(36).slice(2, 7)\<close>).
\<close>

record idgen =
  nextId :: nat
  rnd :: "nat \<Rightarrow> string"

definition mk_id :: "string \<Rightarrow> nat \<Rightarrow> string \<Rightarrow> string" where
  "mk_id prefix k r = prefix @ ''-'' @ nat_to_dec k @ ''-'' @ r"

definition generateId :: "string \<Rightarrow> idgen \<Rightarrow> string \<times> idgen" where
  "generateId prefix s =
     (let k = Suc (nextId s) in (mk_id prefix k (rnd s k), s\<lparr>nextId := k\<rparr>))"

lemma split_at_dash:
  assumes "CHR ''-'' \<notin> set a" "CHR ''-'' \<notin> set b" "a @ CHR ''-'' # x = b @ CHR ''-'' # y"
  shows "a = b \<and> x = y"
proof -
  have "takeWhile (\<lambda>c. c \<noteq> CHR ''-'') (a @ CHR ''-'' # x) = a"
    using assms(1) by (subst takeWhile_append2) auto
  moreover have "takeWhile (\<lambda>c. c \<noteq> CHR ''-'') (b @ CHR ''-'' # y) = b"
    using assms(2) by (subst takeWhile_append2) auto
  ultimately show ?thesis using assms(3) by auto
qed

lemma mk_id_eqD:
  assumes "CHR ''-'' \<notin> set p" "CHR ''-'' \<notin> set q" "mk_id p k r = mk_id q k' r'"
  shows "p = q \<and> k = k'"
proof -
  from assms have "p = q \<and> nat_to_dec k @ ''-'' @ r = nat_to_dec k' @ ''-'' @ r'"
    unfolding mk_id_def by (intro split_at_dash) auto
  then have "p = q \<and> nat_to_dec k = nat_to_dec k'"
    using split_at_dash [of "nat_to_dec k" "nat_to_dec k'" r r'] by simp
  then show ?thesis by simp
qed

text \<open>
  No id the generator is still going to hand out is in \<open>X\<close>: what the random suffix is
  there for when a hand-written file is loaded.
\<close>

definition fresh_for :: "idgen \<Rightarrow> string set \<Rightarrow> bool" where
  "fresh_for s X \<longleftrightarrow>
     (\<forall>p k. CHR ''-'' \<notin> set p \<longrightarrow> nextId s < k \<longrightarrow> mk_id p k (rnd s k) \<notin> X)"

lemma fresh_for_subset: "fresh_for s X \<Longrightarrow> Y \<subseteq> X \<Longrightarrow> fresh_for s Y"
  by (auto simp: fresh_for_def)

lemma fresh_for_empty [simp]: "fresh_for s {}"
  by (simp add: fresh_for_def)

lemma fresh_for_Un [simp]: "fresh_for s (X \<union> Y) \<longleftrightarrow> fresh_for s X \<and> fresh_for s Y"
  by (auto simp: fresh_for_def)

lemma fresh_for_generate:
  assumes "generateId p s = (i, s')" "CHR ''-'' \<notin> set p" "fresh_for s X"
  shows "i \<notin> X" and "fresh_for s' (insert i X)"
proof -
  from assms(1) have i: "i = mk_id p (Suc (nextId s)) (rnd s (Suc (nextId s)))"
    and s': "s' = s\<lparr>nextId := Suc (nextId s)\<rparr>"
    by (auto simp: generateId_def Let_def)
  from assms(2,3) i show "i \<notin> X" by (simp add: fresh_for_def)
  show "fresh_for s' (insert i X)"
    unfolding fresh_for_def
  proof (intro allI impI)
    fix q k assume q: "CHR ''-'' \<notin> set q" and k: "nextId s' < k"
    with assms(3) s' have "mk_id q k (rnd s k) \<notin> X" by (simp add: fresh_for_def)
    moreover have "mk_id q k (rnd s k) \<noteq> i"
      using mk_id_eqD [OF q assms(2)] k s' i by fastforce
    ultimately show "mk_id q k (rnd s' k) \<notin> insert i X" using s' by simp
  qed
qed

subsection \<open>Factories (model.ts)\<close>

definition origin :: point where
  "origin = \<lparr>px = 0, py = 0\<rparr>"

definition opt_or :: "'a option \<Rightarrow> 'a \<Rightarrow> 'a" where
  "opt_or x d = (case x of None \<Rightarrow> d | Some a \<Rightarrow> a)"

lemma opt_or_simps [simp]: "opt_or None d = d" "opt_or (Some a) d = a"
  by (simp_all add: opt_or_def)

definition createContact ::
  "contact_type \<Rightarrow> string \<Rightarrow> point option \<Rightarrow> idgen \<Rightarrow> ld_node \<times> idgen" where
  "createContact t v pos s =
     (let (i, s') = generateId ''contact'' s in
      (\<lparr>nid = i, ndata = Contact t v None, npos = opt_or pos origin,
        ndim = \<lparr>dwidth = 36, dheight = 36\<rparr>, ncss = None\<rparr>, s'))"

definition createComparison ::
  "comparison_operator \<Rightarrow> string \<Rightarrow> string \<Rightarrow> point option \<Rightarrow> idgen \<Rightarrow> ld_node \<times> idgen" where
  "createComparison op a b pos s =
     (let (i, s') = generateId ''cmp'' s in
      (\<lparr>nid = i, ndata = Comparison op a b, npos = opt_or pos origin,
        ndim = \<lparr>dwidth = 80, dheight = 40\<rparr>, ncss = None\<rparr>, s'))"

definition createCoil ::
  "coil_type \<Rightarrow> string \<Rightarrow> point option \<Rightarrow> idgen \<Rightarrow> ld_node \<times> idgen" where
  "createCoil t v pos s =
     (let (i, s') = generateId ''coil'' s in
      (\<lparr>nid = i, ndata = Coil t v None, npos = opt_or pos origin,
        ndim = \<lparr>dwidth = 36, dheight = 36\<rparr>, ncss = None\<rparr>, s'))"

definition createPowerRail ::
  "rail_side \<Rightarrow> point option \<Rightarrow> jsnum option \<Rightarrow> idgen \<Rightarrow> ld_node \<times> idgen" where
  "createPowerRail side pos h s =
     (let (i, s') = generateId ''powerrail'' s in
      (\<lparr>nid = i, ndata = PowerRail side, npos = opt_or pos origin,
        ndim = \<lparr>dwidth = 4, dheight = opt_or h 600\<rparr>, ncss = None\<rparr>, s'))"

definition createFb ::
  "string \<Rightarrow> pin list \<Rightarrow> pin list \<Rightarrow> point option \<Rightarrow> idgen \<Rightarrow> ld_node \<times> idgen" where
  "createFb f ins outs pos s =
     (let (i, s') = generateId ''fb'' s in
      (\<lparr>nid = i, ndata = FbBox f ins outs, npos = opt_or pos origin,
        ndim = \<lparr>dwidth = 120, dheight = 80\<rparr>, ncss = None\<rparr>, s'))"

definition createWire ::
  "string \<Rightarrow> string \<Rightarrow> point list option \<Rightarrow> idgen \<Rightarrow> ld_edge \<times> idgen" where
  "createWire src tgt pts s =
     (let (i, s') = generateId ''wire'' s in
      (\<lparr>eid = i, edata = Wire pts None None, sourceId = src, targetId = tgt, ecss = None\<rparr>, s'))"

definition createPowerConnection :: "string \<Rightarrow> string \<Rightarrow> idgen \<Rightarrow> ld_edge \<times> idgen" where
  "createPowerConnection src tgt s =
     (let (i, s') = generateId ''power'' s in
      (\<lparr>eid = i, edata = Power, sourceId = src, targetId = tgt, ecss = None\<rparr>, s'))"

definition createRung ::
  "nat \<Rightarrow> string list \<Rightarrow> string option \<Rightarrow> idgen \<Rightarrow> rung \<times> idgen" where
  "createRung k els c s =
     (let (i, s') = generateId ''rung'' s in
      (\<lparr>rid = i, rungNumber = k, rcomment = c, rtitle = None, elementIds = els,
        branches = None\<rparr>, s'))"

definition createBranch :: "string \<Rightarrow> string \<Rightarrow> jsnum \<Rightarrow> idgen \<Rightarrow> branch \<times> idgen" where
  "createBranch r a x s =
     (let (i, s') = generateId ''branch'' s in
      (\<lparr>bid = i, brungId = r, anchorId = a, members = [], bx = x\<rparr>, s'))"

definition createLdGraph :: "string option \<Rightarrow> idgen \<Rightarrow> ld_graph \<times> idgen" where
  "createLdGraph i s =
     (let (i', s') = (case i of Some j \<Rightarrow> (j, s) | None \<Rightarrow> generateId ''ldgraph'' s) in
      (\<lparr>gid = i', nodes = [], edges = [], rungs = []\<rparr>, s'))"

lemmas factory_defs = createContact_def createComparison_def createCoil_def createPowerRail_def
  createFb_def createWire_def createPowerConnection_def createRung_def createBranch_def

end
