(* ===== verification/Json.thy ===== *)
theory Json
  imports JsPrelude "HOL-Library.Monad_Syntax"
begin

text \<open>
  JSON values as \<open>JSON.stringify\<close> and \<open>JSON.parse\<close> exchange them. A JSON text is
  represented by the value it denotes: the two library functions are inverse to each other
  on these values, and stringifying drops the fields that are \<open>undefined\<close> (an absent
  optional field of the model). Encoders and decoders are built from the combinators here.
\<close>

datatype json =
    JNull
  | JBool bool
  | JNum jsnum
  | JStr string
  | JArr "json list"
  | JObj "(string \<times> json) list"

text \<open>Property read on a parsed value; \<open>None\<close> is \<open>undefined\<close>.\<close>

fun jfield :: "string \<Rightarrow> json \<Rightarrow> json option" where
  "jfield k (JObj m) = map_of m k"
| "jfield k _ = None"

fun is_JStr :: "json \<Rightarrow> bool" where
  "is_JStr (JStr s) = True" | "is_JStr _ = False"

fun is_JArr :: "json \<Rightarrow> bool" where
  "is_JArr (JArr xs) = True" | "is_JArr _ = False"

text \<open>\<open>typeof v === 'object' && v !== null\<close>: objects and arrays.\<close>

fun is_object :: "json \<Rightarrow> bool" where
  "is_object (JObj m) = True" | "is_object (JArr xs) = True" | "is_object _ = False"

text \<open>Truthiness, as \<open>v || d\<close> tests it.\<close>

fun truthy :: "json \<Rightarrow> bool" where
  "truthy JNull = False"
| "truthy (JBool b) = b"
| "truthy (JNum r) = (r \<noteq> 0)"
| "truthy (JStr s) = (s \<noteq> [])"
| "truthy (JArr xs) = True"
| "truthy (JObj m) = True"

text \<open>Reading a property: \<open>undefined\<close> is \<open>None\<close>, reading one of \<open>null\<close> throws.\<close>

definition get_prop :: "json \<Rightarrow> string \<Rightarrow> string + json option" where
  "get_prop v name = (case v of
     JNull \<Rightarrow> Inl ''Cannot read properties of null''
   | JObj m \<Rightarrow> Inr (map_of m name)
   | _ \<Rightarrow> Inr None)"

text \<open>\<open>x ?? d\<close>\<close>

definition nullish_or :: "json option \<Rightarrow> json \<Rightarrow> json" where
  "nullish_or x d = (case x of None \<Rightarrow> d | Some v \<Rightarrow> if v = JNull then d else v)"

subsection \<open>Combinators\<close>

definition enc_opt :: "string \<Rightarrow> ('a \<Rightarrow> json) \<Rightarrow> 'a option \<Rightarrow> (string \<times> json) list" where
  "enc_opt k f x = (case x of None \<Rightarrow> [] | Some a \<Rightarrow> [(k, f a)])"

definition enc_list :: "('a \<Rightarrow> json) \<Rightarrow> 'a list \<Rightarrow> json" where
  "enc_list f xs = JArr (map f xs)"

fun dec_str :: "json \<Rightarrow> string option" where
  "dec_str (JStr s) = Some s" | "dec_str _ = None"

fun dec_num :: "json \<Rightarrow> jsnum option" where
  "dec_num (JNum r) = Some r" | "dec_num _ = None"

definition enc_nat :: "nat \<Rightarrow> json" where
  "enc_nat n = JNum (of_nat n)"

fun dec_nat :: "json \<Rightarrow> nat option" where
  "dec_nat (JNum r) = (if r = of_nat (nat \<lfloor>r\<rfloor>) then Some (nat \<lfloor>r\<rfloor>) else None)"
| "dec_nat _ = None"

fun dec_all :: "('a \<Rightarrow> 'b option) \<Rightarrow> 'a list \<Rightarrow> 'b list option" where
  "dec_all d [] = Some []"
| "dec_all d (x # xs) = do { y \<leftarrow> d x; ys \<leftarrow> dec_all d xs; Some (y # ys) }"

fun dec_list :: "(json \<Rightarrow> 'a option) \<Rightarrow> json \<Rightarrow> 'a list option" where
  "dec_list d (JArr xs) = dec_all d xs" | "dec_list d _ = None"

definition dec_field :: "string \<Rightarrow> (json \<Rightarrow> 'a option) \<Rightarrow> json \<Rightarrow> 'a option" where
  "dec_field k d j = Option.bind (jfield k j) d"

definition dec_opt :: "string \<Rightarrow> (json \<Rightarrow> 'a option) \<Rightarrow> json \<Rightarrow> 'a option option" where
  "dec_opt k d j = (case jfield k j of None \<Rightarrow> Some None | Some v \<Rightarrow> map_option Some (d v))"

text \<open>A field is read back from the object that was written.\<close>

named_theorems codec \<open>decoder after encoder\<close>

lemma jfield_JObj_Cons [codec]:
  "jfield k (JObj ((k', v) # m)) = (if k' = k then Some v else jfield k (JObj m))"
  by simp

lemma enc_opt_simps [simp]: "enc_opt k f None = []" "enc_opt k f (Some a) = [(k, f a)]"
  by (simp_all add: enc_opt_def)

lemma dec_all_enc: "(\<And>x. x \<in> set xs \<Longrightarrow> d (f x) = Some x) \<Longrightarrow> dec_all d (map f xs) = Some xs"
  by (induction xs) auto

lemma dec_list_enc: "(\<And>x. d (f x) = Some x) \<Longrightarrow> dec_list d (enc_list f xs) = Some xs"
  by (simp add: enc_list_def dec_all_enc)

lemma dec_nat_enc [codec]: "dec_nat (enc_nat n) = Some n"
  by (simp add: enc_nat_def)

lemma dec_strs_enc [codec]: "dec_list dec_str (enc_list JStr xs) = Some xs"
  by (rule dec_list_enc) simp

end
