(* ===== verification/LdJson.thy ===== *)
theory LdJson
  imports LdModel Json
begin

text \<open>
  Serialization of ladder graphs (model/serialization.ts, \<open>toJSON\<close>, \<open>fromJSON\<close>,
  \<open>isLdGraph\<close>, \<open>roundTrip\<close>) and the handler's \<open>cloneGraph\<close>
  (backend/ld-operation-handler.ts), which goes through the same JSON text. \<open>ld_view\<close> is the
  typed reading of a parsed value that the TypeScript annotation \<open>value is LdGraph\<close> grants
  without looking further than the four top fields.
\<close>

subsection \<open>Encoders\<close>

definition enc_point :: "point \<Rightarrow> json" where
  "enc_point p = JObj [(''x'', JNum (px p)), (''y'', JNum (py p))]"

definition enc_dim :: "dimension \<Rightarrow> json" where
  "enc_dim d = JObj [(''width'', JNum (dwidth d)), (''height'', JNum (dheight d))]"

definition enc_pin :: "pin \<Rightarrow> json" where
  "enc_pin p = JObj [(''name'', JStr (pin_name p)), (''dataType'', JStr (pin_dataType p)),
     (''position'', enc_point (pin_position p))]"

fun contact_type_str :: "contact_type \<Rightarrow> string" where
  "contact_type_str NO = ''NO''" | "contact_type_str NC = ''NC''"
| "contact_type_str CT_P = ''P''" | "contact_type_str CT_N = ''N''"

fun comparison_str :: "comparison_operator \<Rightarrow> string" where
  "comparison_str OpEQ = ''EQ''" | "comparison_str OpGT = ''GT''"
| "comparison_str OpLT = ''LT''" | "comparison_str OpGE = ''GE''"
| "comparison_str OpLE = ''LE''"

fun coil_type_str :: "coil_type \<Rightarrow> string" where
  "coil_type_str Normal = ''Normal''" | "coil_type_str Negated = ''Negated''"
| "coil_type_str CoilSet = ''Set''" | "coil_type_str CoilReset = ''Reset''"
| "coil_type_str NoCoilType = ''undefined''"

text \<open>\<open>JSON.stringify\<close> leaves a property out whose value is undefined.\<close>

definition known_coil :: "coil_type \<Rightarrow> coil_type option" where
  "known_coil t = (if t = NoCoilType then None else Some t)"

fun rail_side_str :: "rail_side \<Rightarrow> string" where
  "rail_side_str LeftRail = ''Left''" | "rail_side_str RightRail = ''Right''"

fun data_fields :: "node_data \<Rightarrow> (string \<times> json) list" where
  "data_fields (Contact t v c) =
     [(''contactType'', JStr (contact_type_str t)), (''variableName'', JStr v)]
     @ enc_opt ''comment'' JStr c"
| "data_fields (Comparison op a b) =
     [(''operator'', JStr (comparison_str op)), (''operandA'', JStr a), (''operandB'', JStr b)]"
| "data_fields (Coil t v c) =
     enc_opt ''coilType'' (\<lambda>t. JStr (coil_type_str t)) (known_coil t) @ [(''variableName'', JStr v)]
     @ enc_opt ''comment'' JStr c"
| "data_fields (PowerRail s) = [(''side'', JStr (rail_side_str s))]"
| "data_fields (FbBox f ins outs) =
     [(''fbType'', JStr f), (''inputPins'', enc_list enc_pin ins),
      (''outputPins'', enc_list enc_pin outs)]"

definition enc_node :: "ld_node \<Rightarrow> json" where
  "enc_node n = JObj ([(''id'', JStr (nid n)), (''type'', JStr (node_type n)),
     (''position'', enc_point (npos n)), (''size'', enc_dim (ndim n))]
     @ enc_opt ''cssClasses'' (enc_list JStr) (ncss n) @ data_fields (ndata n))"

fun edge_type_str :: "edge_data \<Rightarrow> string" where
  "edge_type_str (Wire r sp tp) = ''edge:wire''" | "edge_type_str Power = ''edge:power''"

fun edge_fields :: "edge_data \<Rightarrow> (string \<times> json) list" where
  "edge_fields (Wire r sp tp) = enc_opt ''routingPoints'' (enc_list enc_point) r
     @ enc_opt ''sourcePin'' JStr sp @ enc_opt ''targetPin'' JStr tp"
| "edge_fields Power = []"

definition enc_edge :: "ld_edge \<Rightarrow> json" where
  "enc_edge e = JObj ([(''id'', JStr (eid e)), (''type'', JStr (edge_type_str (edata e))),
     (''sourceId'', JStr (sourceId e)), (''targetId'', JStr (targetId e))]
     @ enc_opt ''cssClasses'' (enc_list JStr) (ecss e) @ edge_fields (edata e))"

definition enc_branch :: "branch \<Rightarrow> json" where
  "enc_branch b = JObj [(''id'', JStr (bid b)), (''rungId'', JStr (brungId b)),
     (''anchorId'', JStr (anchorId b)), (''elementIds'', enc_list JStr (members b)),
     (''x'', JNum (bx b))]"

definition enc_rung :: "rung \<Rightarrow> json" where
  "enc_rung r = JObj ([(''id'', JStr (rid r)), (''rungNumber'', enc_nat (rungNumber r))]
     @ enc_opt ''comment'' JStr (rcomment r) @ enc_opt ''title'' JStr (rtitle r)
     @ [(''elementIds'', enc_list JStr (elementIds r))]
     @ enc_opt ''branches'' (enc_list enc_branch) (branches r))"

definition ld_toJSON :: "ld_graph \<Rightarrow> json" where
  "ld_toJSON g = JObj [(''id'', JStr (gid g)), (''nodes'', enc_list enc_node (nodes g)),
     (''edges'', enc_list enc_edge (edges g)), (''rungs'', enc_list enc_rung (rungs g))]"

subsection \<open>The typed view of a parsed value\<close>

definition dec_point :: "json \<Rightarrow> point option" where
  "dec_point j = do { x \<leftarrow> dec_field ''x'' dec_num j; y \<leftarrow> dec_field ''y'' dec_num j;
     Some \<lparr>px = x, py = y\<rparr> }"

definition dec_dim :: "json \<Rightarrow> dimension option" where
  "dec_dim j = do { w \<leftarrow> dec_field ''width'' dec_num j; h \<leftarrow> dec_field ''height'' dec_num j;
     Some \<lparr>dwidth = w, dheight = h\<rparr> }"

definition dec_pin :: "json \<Rightarrow> pin option" where
  "dec_pin j = do { n \<leftarrow> dec_field ''name'' dec_str j; t \<leftarrow> dec_field ''dataType'' dec_str j;
     p \<leftarrow> dec_field ''position'' dec_point j;
     Some \<lparr>pin_name = n, pin_dataType = t, pin_position = p\<rparr> }"

definition dec_enum :: "('a \<times> string) list \<Rightarrow> json \<Rightarrow> 'a option" where
  "dec_enum tab j = (case j of JStr s \<Rightarrow> map_option fst (List.find (\<lambda>(a, t). t = s) tab) | _ \<Rightarrow> None)"

definition contact_types :: "(contact_type \<times> string) list" where
  "contact_types = [(NO, ''NO''), (NC, ''NC''), (CT_P, ''P''), (CT_N, ''N'')]"

definition comparison_ops :: "(comparison_operator \<times> string) list" where
  "comparison_ops = [(OpEQ, ''EQ''), (OpGT, ''GT''), (OpLT, ''LT''), (OpGE, ''GE''), (OpLE, ''LE'')]"

definition coil_types :: "(coil_type \<times> string) list" where
  "coil_types =
     [(Normal, ''Normal''), (Negated, ''Negated''), (CoilSet, ''Set''), (CoilReset, ''Reset'')]"

definition rail_sides :: "(rail_side \<times> string) list" where
  "rail_sides = [(LeftRail, ''Left''), (RightRail, ''Right'')]"

definition dec_data :: "string \<Rightarrow> json \<Rightarrow> node_data option" where
  "dec_data t j =
     (if t = ''node:contact'' then
        do { ct \<leftarrow> dec_field ''contactType'' (dec_enum contact_types) j;
             v \<leftarrow> dec_field ''variableName'' dec_str j;
             c \<leftarrow> dec_opt ''comment'' dec_str j; Some (Contact ct v c) }
      else if t = ''node:comparison'' then
        do { op \<leftarrow> dec_field ''operator'' (dec_enum comparison_ops) j;
             a \<leftarrow> dec_field ''operandA'' dec_str j; b \<leftarrow> dec_field ''operandB'' dec_str j;
             Some (Comparison op a b) }
      else if t = ''node:coil'' then
        do { ct \<leftarrow> dec_opt ''coilType'' (dec_enum coil_types) j;
             v \<leftarrow> dec_field ''variableName'' dec_str j;
             c \<leftarrow> dec_opt ''comment'' dec_str j; Some (Coil (opt_or ct NoCoilType) v c) }
      else if t = ''node:powerrail'' then
        map_option PowerRail (dec_field ''side'' (dec_enum rail_sides) j)
      else if t = ''node:fb'' then
        do { f \<leftarrow> dec_field ''fbType'' dec_str j;
             i \<leftarrow> dec_field ''inputPins'' (dec_list dec_pin) j;
             out \<leftarrow> dec_field ''outputPins'' (dec_list dec_pin) j; Some (FbBox f i out) }
      else None)"

definition dec_node :: "json \<Rightarrow> ld_node option" where
  "dec_node j = do { i \<leftarrow> dec_field ''id'' dec_str j; t \<leftarrow> dec_field ''type'' dec_str j;
     p \<leftarrow> dec_field ''position'' dec_point j; d \<leftarrow> dec_field ''size'' dec_dim j;
     c \<leftarrow> dec_opt ''cssClasses'' (dec_list dec_str) j; x \<leftarrow> dec_data t j;
     Some \<lparr>nid = i, ndata = x, npos = p, ndim = d, ncss = c\<rparr> }"

definition dec_edge_data :: "string \<Rightarrow> json \<Rightarrow> edge_data option" where
  "dec_edge_data t j =
     (if t = ''edge:wire'' then
        do { r \<leftarrow> dec_opt ''routingPoints'' (dec_list dec_point) j;
             sp \<leftarrow> dec_opt ''sourcePin'' dec_str j; tp \<leftarrow> dec_opt ''targetPin'' dec_str j;
             Some (Wire r sp tp) }
      else if t = ''edge:power'' then Some Power else None)"

definition dec_edge :: "json \<Rightarrow> ld_edge option" where
  "dec_edge j = do { i \<leftarrow> dec_field ''id'' dec_str j; t \<leftarrow> dec_field ''type'' dec_str j;
     a \<leftarrow> dec_field ''sourceId'' dec_str j; b \<leftarrow> dec_field ''targetId'' dec_str j;
     c \<leftarrow> dec_opt ''cssClasses'' (dec_list dec_str) j; x \<leftarrow> dec_edge_data t j;
     Some \<lparr>eid = i, edata = x, sourceId = a, targetId = b, ecss = c\<rparr> }"

definition dec_branch :: "json \<Rightarrow> branch option" where
  "dec_branch j = do { i \<leftarrow> dec_field ''id'' dec_str j; r \<leftarrow> dec_field ''rungId'' dec_str j;
     a \<leftarrow> dec_field ''anchorId'' dec_str j;
     m \<leftarrow> dec_field ''elementIds'' (dec_list dec_str) j; x \<leftarrow> dec_field ''x'' dec_num j;
     Some \<lparr>bid = i, brungId = r, anchorId = a, members = m, bx = x\<rparr> }"

definition dec_rung :: "json \<Rightarrow> rung option" where
  "dec_rung j = do { i \<leftarrow> dec_field ''id'' dec_str j; k \<leftarrow> dec_field ''rungNumber'' dec_nat j;
     c \<leftarrow> dec_opt ''comment'' dec_str j; t \<leftarrow> dec_opt ''title'' dec_str j;
     e \<leftarrow> dec_field ''elementIds'' (dec_list dec_str) j;
     b \<leftarrow> dec_opt ''branches'' (dec_list dec_branch) j;
     Some \<lparr>rid = i, rungNumber = k, rcomment = c, rtitle = t, elementIds = e, branches = b\<rparr> }"

definition ld_view :: "json \<Rightarrow> ld_graph option" where
  "ld_view j = do { i \<leftarrow> dec_field ''id'' dec_str j;
     ns \<leftarrow> dec_field ''nodes'' (dec_list dec_node) j;
     es \<leftarrow> dec_field ''edges'' (dec_list dec_edge) j;
     rs \<leftarrow> dec_field ''rungs'' (dec_list dec_rung) j;
     Some \<lparr>gid = i, nodes = ns, edges = es, rungs = rs\<rparr> }"

subsection \<open>\<open>fromJSON\<close>, \<open>cloneGraph\<close>, \<open>roundTrip\<close>\<close>

definition has_field :: "(json \<Rightarrow> bool) \<Rightarrow> string \<Rightarrow> json \<Rightarrow> bool" where
  "has_field p k j = (case jfield k j of None \<Rightarrow> False | Some v \<Rightarrow> p v)"

definition isLdGraph :: "json \<Rightarrow> bool" where
  "isLdGraph j \<longleftrightarrow> is_object j \<and> has_field is_JStr ''id'' j \<and> has_field is_JArr ''nodes'' j
     \<and> has_field is_JArr ''edges'' j \<and> has_field is_JArr ''rungs'' j"

definition ld_fromJSON :: "json \<Rightarrow> string + json" where
  "ld_fromJSON j =
     (if \<not> isLdGraph j then Inl ''Invalid LdGraph: missing required fields (id, nodes, edges, rungs)''
      else Inr j)"

definition cloneGraph :: "ld_graph \<Rightarrow> ld_graph" where
  "cloneGraph g = (case ld_view (ld_toJSON g) of Some g' \<Rightarrow> g' | None \<Rightarrow> g)"

definition ld_roundTrip :: "ld_graph \<Rightarrow> string + bool" where
  "ld_roundTrip g = bindE (ld_fromJSON (ld_toJSON g)) (\<lambda>j. Inr
     (case ld_view j of None \<Rightarrow> False | Some r \<Rightarrow>
        length (nodes r) = length (nodes g) \<and> length (edges r) = length (edges g)
        \<and> length (rungs r) = length (rungs g) \<and> gid r = gid g))"

subsection \<open>Round trips\<close>

lemma dec_point_enc [codec]: "dec_point (enc_point p) = Some p"
  by (simp add: dec_point_def enc_point_def dec_field_def)

lemma dec_dim_enc [codec]: "dec_dim (enc_dim p) = Some p"
  by (simp add: dec_dim_def enc_dim_def dec_field_def)

lemma dec_pin_enc [codec]: "dec_pin (enc_pin p) = Some p"
  by (simp add: dec_pin_def enc_pin_def dec_field_def dec_point_enc)

lemma dec_contact_type [codec]: "dec_enum contact_types (JStr (contact_type_str t)) = Some t"
  by (cases t) (simp_all add: dec_enum_def contact_types_def)

lemma dec_comparison [codec]: "dec_enum comparison_ops (JStr (comparison_str t)) = Some t"
  by (cases t) (simp_all add: dec_enum_def comparison_ops_def)

lemma dec_coil_type [codec]: "t \<noteq> NoCoilType \<Longrightarrow> dec_enum coil_types (JStr (coil_type_str t)) = Some t"
  by (cases t) (simp_all add: dec_enum_def coil_types_def)

lemma dec_rail_side [codec]: "dec_enum rail_sides (JStr (rail_side_str t)) = Some t"
  by (cases t) (simp_all add: dec_enum_def rail_sides_def)

lemma dec_pins_enc [codec]: "dec_list dec_pin (enc_list enc_pin ps) = Some ps"
  by (rule dec_list_enc) (rule dec_pin_enc)

lemma dec_points_enc [codec]: "dec_list dec_point (enc_list enc_point ps) = Some ps"
  by (rule dec_list_enc) (rule dec_point_enc)

lemma dec_node_enc [codec]: "dec_node (enc_node n) = Some n"
proof (cases n)
  case (fields i d p s c)
  then show ?thesis
  proof (cases d)
    case (Contact t v co)
    with fields show ?thesis
      by (cases c; cases co; simp add: dec_node_def enc_node_def node_type_def dec_field_def
          dec_opt_def dec_data_def codec)
  next
    case (Coil t v co)
    with fields show ?thesis
      by (cases c; cases co; cases "t = NoCoilType"; simp add: dec_node_def enc_node_def node_type_def dec_field_def
          dec_opt_def dec_data_def known_coil_def codec)
  qed (cases c; simp add: dec_node_def enc_node_def node_type_def dec_field_def dec_opt_def
      dec_data_def codec)+
qed

lemma dec_edge_enc [codec]: "dec_edge (enc_edge e) = Some e"
proof (cases e)
  case (fields i d a b c)
  then show ?thesis
  proof (cases d)
    case (Wire r sp tp)
    with fields show ?thesis
      by (cases c; cases r; cases sp; cases tp; simp add: dec_edge_def enc_edge_def
          dec_field_def dec_opt_def dec_edge_data_def codec)
  qed (cases c; simp add: dec_edge_def enc_edge_def dec_field_def dec_opt_def
      dec_edge_data_def codec)
qed

lemma dec_branch_enc [codec]: "dec_branch (enc_branch b) = Some b"
  by (simp add: dec_branch_def enc_branch_def dec_field_def codec)

lemma dec_branches_enc [codec]: "dec_list dec_branch (enc_list enc_branch bs) = Some bs"
  by (rule dec_list_enc) (rule dec_branch_enc)

lemma dec_rung_enc [codec]: "dec_rung (enc_rung r) = Some r"
proof (cases r)
  case (fields i k c t e b)
  then show ?thesis
    by (cases c; cases t; cases b; simp add: dec_rung_def enc_rung_def dec_field_def
        dec_opt_def codec)
qed

lemma dec_parts_enc [codec]:
  "dec_list dec_node (enc_list enc_node ns) = Some ns"
  "dec_list dec_edge (enc_list enc_edge es) = Some es"
  "dec_list dec_rung (enc_list enc_rung rs) = Some rs"
  by (rule dec_list_enc, rule codec)+

lemma ld_view_toJSON [codec]: "ld_view (ld_toJSON g) = Some g"
  by (simp add: ld_view_def ld_toJSON_def dec_field_def codec)

lemma isLdGraph_toJSON: "isLdGraph (ld_toJSON g)"
  by (simp add: isLdGraph_def ld_toJSON_def has_field_def enc_list_def)

lemma ld_fromJSON_toJSON [simp]: "ld_fromJSON (ld_toJSON g) = Inr (ld_toJSON g)"
  by (simp add: ld_fromJSON_def isLdGraph_toJSON)

lemma cloneGraph_eq [simp]: "cloneGraph g = g"
  by (simp add: cloneGraph_def ld_view_toJSON)

end
