(* ===== verification/LdSerialization.thy ===== *)
theory LdSerialization
  imports LdJson
begin

text \<open>
  Structural validation of ladder graphs (model/serialization.ts, \<open>validateGraph\<close>,
  \<open>isValid\<close>): the error and warning texts in the order the code pushes them, and what an
  empty error list says about the graph.
\<close>

record validation_result =
  valid :: bool
  errors :: "string list"
  warnings :: "string list"

definition quoted :: "string \<Rightarrow> string" where
  "quoted s = dq @ s @ dq"

definition node_ids :: "ld_graph \<Rightarrow> string list" where
  "node_ids g = map nid (nodes g)"

text \<open>\<open>rungNodeIds\<close>: everything a rung lists, series elements and branch members.\<close>

definition rung_refs :: "rung \<Rightarrow> string list" where
  "rung_refs r = elementIds r @ concat (map members (rung_branches r))"

definition rung_node_ids :: "ld_graph \<Rightarrow> string list" where
  "rung_node_ids g = concat (map rung_refs (rungs g))"

definition orphan_msg :: "ld_node \<Rightarrow> string" where
  "orphan_msg n = ''Orphan node: '' @ quoted (nid n) @ '' (type: '' @ node_type n
     @ '') is not referenced by any rung''"

definition empty_rung_msg :: "rung \<Rightarrow> string" where
  "empty_rung_msg r = ''Empty rung: '' @ quoted (rid r) @ '' (rung '' @ nat_to_dec (rungNumber r)
     @ '') has no elements''"

definition dangling_source_msg :: "ld_edge \<Rightarrow> string" where
  "dangling_source_msg e = ''Dangling edge source: '' @ quoted (eid e)
     @ '' references non-existent source node '' @ quoted (sourceId e)"

definition dangling_target_msg :: "ld_edge \<Rightarrow> string" where
  "dangling_target_msg e = ''Dangling edge target: '' @ quoted (eid e)
     @ '' references non-existent target node '' @ quoted (targetId e)"

definition bad_element_msg :: "rung \<Rightarrow> string \<Rightarrow> string" where
  "bad_element_msg r i = ''Invalid rung reference: rung '' @ quoted (rid r) @ '' (rung ''
     @ nat_to_dec (rungNumber r) @ '') references non-existent node '' @ quoted i"

definition bad_anchor_msg :: "branch \<Rightarrow> string" where
  "bad_anchor_msg b = ''Branch '' @ quoted (bid b) @ '': anchor '' @ quoted (anchorId b)
     @ '' does not exist''"

definition bad_member_msg :: "branch \<Rightarrow> string \<Rightarrow> string" where
  "bad_member_msg b m = ''Branch '' @ quoted (bid b) @ '': member '' @ quoted m
     @ '' does not exist''"

text \<open>The five passes of \<open>validateGraph\<close>.\<close>

definition orphan_errors :: "ld_graph \<Rightarrow> string list" where
  "orphan_errors g = map orphan_msg (filter (\<lambda>n. nid n \<notin> set (rung_node_ids g)) (nodes g))"

definition empty_rung_warnings :: "ld_graph \<Rightarrow> string list" where
  "empty_rung_warnings g = map empty_rung_msg (filter (\<lambda>r. elementIds r = []) (rungs g))"

definition edge_errors :: "ld_graph \<Rightarrow> string list" where
  "edge_errors g = concat (map (\<lambda>e.
     (if sourceId e \<notin> set (node_ids g) then [dangling_source_msg e] else [])
     @ (if targetId e \<notin> set (node_ids g) then [dangling_target_msg e] else [])) (edges g))"

definition element_errors :: "ld_graph \<Rightarrow> string list" where
  "element_errors g = concat (map (\<lambda>r.
     map (bad_element_msg r) (filter (\<lambda>i. i \<notin> set (node_ids g)) (elementIds r))) (rungs g))"

definition branch_errors :: "ld_graph \<Rightarrow> string list" where
  "branch_errors g = concat (map (\<lambda>r. concat (map (\<lambda>b.
     (if anchorId b \<notin> set (node_ids g) then [bad_anchor_msg b] else [])
     @ map (bad_member_msg b) (filter (\<lambda>m. m \<notin> set (node_ids g)) (members b)))
     (rung_branches r))) (rungs g))"

definition validateGraph :: "ld_graph \<Rightarrow> validation_result" where
  "validateGraph g =
     (let errs = orphan_errors g @ edge_errors g @ element_errors g @ branch_errors g in
      \<lparr>valid = (errs = []), errors = errs, warnings = empty_rung_warnings g\<rparr>)"

definition isValid :: "ld_graph \<Rightarrow> bool" where
  "isValid g = valid (validateGraph g)"

subsection \<open>What the passes decide\<close>

definition edges_resolve :: "ld_graph \<Rightarrow> bool" where
  "edges_resolve g \<longleftrightarrow>
     (\<forall>e \<in> set (edges g). sourceId e \<in> set (node_ids g) \<and> targetId e \<in> set (node_ids g))"

definition elements_resolve :: "ld_graph \<Rightarrow> bool" where
  "elements_resolve g \<longleftrightarrow> (\<forall>r \<in> set (rungs g). set (elementIds r) \<subseteq> set (node_ids g))"

definition branches_resolve :: "ld_graph \<Rightarrow> bool" where
  "branches_resolve g \<longleftrightarrow> (\<forall>r \<in> set (rungs g). \<forall>b \<in> set (rung_branches r).
     anchorId b \<in> set (node_ids g) \<and> set (members b) \<subseteq> set (node_ids g))"

definition no_orphans :: "ld_graph \<Rightarrow> bool" where
  "no_orphans g \<longleftrightarrow> (\<forall>n \<in> set (nodes g). nid n \<in> set (rung_node_ids g))"

lemma orphan_errors_Nil: "orphan_errors g = [] \<longleftrightarrow> no_orphans g"
  by (auto simp: orphan_errors_def no_orphans_def filter_empty_conv)

lemma edge_errors_Nil: "edge_errors g = [] \<longleftrightarrow> edges_resolve g"
  by (auto simp: edge_errors_def edges_resolve_def split: if_splits)

lemma element_errors_Nil: "element_errors g = [] \<longleftrightarrow> elements_resolve g"
  by (auto simp: element_errors_def elements_resolve_def filter_empty_conv)

lemma branch_errors_Nil: "branch_errors g = [] \<longleftrightarrow> branches_resolve g"
  by (auto simp: branch_errors_def branches_resolve_def filter_empty_conv split: if_splits)

lemma isValid_iff:
  "isValid g \<longleftrightarrow> no_orphans g \<and> edges_resolve g \<and> elements_resolve g \<and> branches_resolve g"
  by (simp add: isValid_def validateGraph_def Let_def orphan_errors_Nil edge_errors_Nil
      element_errors_Nil branch_errors_Nil)

end
