(* ===== verification/LdLayout.thy ===== *)
theory LdLayout
  imports LdSerialization
begin

text \<open>
  Topology layout (model/layout.ts): element positions derived from the order of a rung's
  \<open>elementIds\<close>, the height of a rung, and the stacking of rungs into the diagram. The
  lemmas say when derived positions cannot overlap and that everything a rung lays out
  lies inside the rung's own vertical band.
\<close>

definition SERIES_GAP :: jsnum where "SERIES_GAP = LD_GRID"

definition effectiveWidth :: "ld_node option \<Rightarrow> jsnum" where
  "effectiveWidth n = (case n of None \<Rightarrow> CONTACT_SIZE + 4 | Some k \<Rightarrow>
     (case ndata k of
        Comparison op a b \<Rightarrow> COMPARISON_WIDTH + 4
      | FbBox f i out \<Rightarrow> FB_WIDTH + SERIES_GAP
      | Coil t v c \<Rightarrow> 0
      | _ \<Rightarrow> CONTACT_SIZE + 4))"

definition nodeMap :: "ld_graph \<Rightarrow> string \<Rightarrow> ld_node option" where
  "nodeMap g = foldl (\<lambda>m n. m(nid n \<mapsto> n)) Map.empty (nodes g)"

text \<open>The state of the series loop: positions, series columns, cursor.\<close>

record layout_state =
  lpos :: "(string, point) jsmap"
  lser :: "(string, jsnum) jsmap"
  lcur :: jsnum

definition series_step :: "(string \<Rightarrow> ld_node option) \<Rightarrow> layout_state \<Rightarrow> string \<Rightarrow> layout_state" where
  "series_step m st i =
     (case m i of
        Some n \<Rightarrow> if is_coil (ndata n)
          then st\<lparr>lpos := js_set i \<lparr>px = COIL_X_OFFSET, py = ELEMENT_Y\<rparr> (lpos st)\<rparr>
          else \<lparr>lpos = js_set i \<lparr>px = lcur st, py = ELEMENT_Y\<rparr> (lpos st),
                lser = js_set i (lcur st) (lser st), lcur = lcur st + effectiveWidth (Some n)\<rparr>
      | None \<Rightarrow> \<lparr>lpos = js_set i \<lparr>px = lcur st, py = ELEMENT_Y\<rparr> (lpos st),
                lser = js_set i (lcur st) (lser st), lcur = lcur st + effectiveWidth None\<rparr>)"

definition layout_series :: "ld_graph \<Rightarrow> rung \<Rightarrow> layout_state" where
  "layout_series g r =
     foldl (series_step (nodeMap g)) \<lparr>lpos = [], lser = [], lcur = LD_GRID\<rparr> (elementIds r)"

definition anchor_x :: "(string, jsnum) jsmap \<Rightarrow> (string, point) jsmap \<Rightarrow> string \<Rightarrow> jsnum" where
  "anchor_x ser pos a = (case map_of ser a of Some x \<Rightarrow> x
     | None \<Rightarrow> (case map_of pos a of Some p \<Rightarrow> px p | None \<Rightarrow> LD_GRID))"

definition place_members ::
  "jsnum \<Rightarrow> string list \<Rightarrow> (string, point) jsmap \<Rightarrow> (string, point) jsmap" where
  "place_members x ms pos = foldl (\<lambda>p (k, m).
     js_set m \<lparr>px = x, py = BRANCH_FIRST_Y + of_nat k * LD_GRID\<rparr> p) pos (enumerate 0 ms)"

definition layoutRung :: "rung \<Rightarrow> ld_graph \<Rightarrow> (string, point) jsmap" where
  "layoutRung r g =
     (let st = layout_series g r in
      foldl (\<lambda>p b. place_members (anchor_x (lser st) p (anchorId b)) (members b) p)
        (lpos st) (rung_branches r))"

text \<open>\<open>Math.max(0, ...branches.map((b) => b.elementIds.length))\<close>\<close>

definition branch_depth :: "rung \<Rightarrow> nat" where
  "branch_depth r = foldr max (map (length \<circ> members) (rung_branches r)) 0"

definition rungHeight :: "rung \<Rightarrow> jsnum" where
  "rungHeight r =
     (if branch_depth r = 0
      then (if rung_branches r \<noteq> [] then BRANCH_FIRST_Y + 36 else 76)
      else BRANCH_FIRST_Y + of_nat (branch_depth r) * LD_GRID + 36)"

record layout_output =
  out_positions :: "(string, point) jsmap"
  rungTops :: "(string, jsnum) jsmap"
  rungHeights :: "(string, jsnum) jsmap"
  rail_left :: point
  rail_right :: point
  rail_height :: jsnum
  totalHeight :: jsnum

definition shift_into :: "jsnum \<Rightarrow> (string, point) jsmap \<Rightarrow> (string, point) jsmap \<Rightarrow> (string, point) jsmap" where
  "shift_into t rp pos = foldl (\<lambda>m (i, p). js_set i \<lparr>px = px p, py = t + py p\<rparr> m) pos rp"

fun layout_rungs :: "ld_graph \<Rightarrow> rung list \<Rightarrow> layout_output \<Rightarrow> jsnum \<Rightarrow> layout_output \<times> jsnum" where
  "layout_rungs g [] acc t = (acc, t)"
| "layout_rungs g (r # rs) acc t =
     (let h = rungHeight r in
      layout_rungs g rs
        (acc\<lparr>rungTops := js_set (rid r) t (rungTops acc),
             rungHeights := js_set (rid r) h (rungHeights acc),
             out_positions := shift_into t (layoutRung r g) (out_positions acc)\<rparr>)
        (t + (h + 4)))"

definition layoutGraph :: "ld_graph \<Rightarrow> layout_output" where
  "layoutGraph g =
     (let (acc, t) = layout_rungs g (rungs g)
        \<lparr>out_positions = [], rungTops = [], rungHeights = [], rail_left = origin,
         rail_right = \<lparr>px = RAIL_X_RIGHT, py = 0\<rparr>, rail_height = 0, totalHeight = 0\<rparr> 0 in
      acc\<lparr>rail_height := t, totalHeight := t\<rparr>)"

subsection \<open>The series row\<close>

lemma nodeMap_eq_find:
  assumes "distinct (node_ids g)"
  shows "nodeMap g i = List.find (\<lambda>n. nid n = i) (nodes g)"
proof -
  have "distinct (map nid ns) \<Longrightarrow> (\<forall>n \<in> set ns. m (nid n) = None) \<Longrightarrow>
      foldl (\<lambda>m n. m(nid n \<mapsto> n)) m ns i
        = (case List.find (\<lambda>n. nid n = i) ns of None \<Rightarrow> m i | Some n \<Rightarrow> Some n)" for m and ns :: "ld_node list"
  proof (induction ns arbitrary: m)
    case (Cons n ns)
    have others: "\<forall>k \<in> set ns. nid k \<noteq> nid n" using Cons.prems(1) by (fastforce simp: image_iff)
    then have nn: "List.find (\<lambda>k. nid k = nid n) ns = None" by (simp only: find_NoneD)
    have "foldl (\<lambda>m n. m(nid n \<mapsto> n)) (m(nid n \<mapsto> n)) ns i
        = (case List.find (\<lambda>n. nid n = i) ns of None \<Rightarrow> (m(nid n \<mapsto> n)) i | Some n \<Rightarrow> Some n)"
      using Cons.prems others by (intro Cons.IH) auto
    then have "foldl (\<lambda>m n. m(nid n \<mapsto> n)) m (n # ns) i
        = (case List.find (\<lambda>n. nid n = i) ns of None \<Rightarrow> (m(nid n \<mapsto> n)) i | Some n \<Rightarrow> Some n)"
      by (simp only: foldl_Cons)
    also have "\<dots> = (case List.find (\<lambda>n. nid n = i) (n # ns) of None \<Rightarrow> m i | Some n \<Rightarrow> Some n)"
      using nn by (cases "nid n = i") (auto split: option.split)
    finally show ?case .
  qed simp
  from this [of "nodes g" Map.empty] assms show ?thesis
    by (simp add: nodeMap_def node_ids_def split: option.split)
qed

text \<open>The width the cursor adds for element \<open>i\<close>, and the column of element \<open>k\<close>.\<close>

definition elem_width :: "(string \<Rightarrow> ld_node option) \<Rightarrow> string \<Rightarrow> jsnum" where
  "elem_width m i = effectiveWidth (m i)"

lemma elem_width_nonneg [simp]: "0 \<le> elem_width m i"
  by (simp add: elem_width_def effectiveWidth_def grid_defs SERIES_GAP_def split: option.split node_data.split)

definition coil_at :: "(string \<Rightarrow> ld_node option) \<Rightarrow> string \<Rightarrow> bool" where
  "coil_at m i \<longleftrightarrow> (\<exists>n. m i = Some n \<and> is_coil (ndata n))"

lemma elem_width_coil: "coil_at m i \<Longrightarrow> elem_width m i = 0"
  by (auto simp: coil_at_def elem_width_def effectiveWidth_def split: node_data.split)

lemma series_step_simp:
  "series_step m st i =
     (if coil_at m i then st\<lparr>lpos := js_set i \<lparr>px = COIL_X_OFFSET, py = ELEMENT_Y\<rparr> (lpos st)\<rparr>
      else \<lparr>lpos = js_set i \<lparr>px = lcur st, py = ELEMENT_Y\<rparr> (lpos st),
             lser = js_set i (lcur st) (lser st), lcur = lcur st + elem_width m i\<rparr>)"
  by (cases "m i") (simp_all add: series_step_def coil_at_def elem_width_def)

lemma lcur_series_step [simp]: "lcur (series_step m st i) = lcur st + elem_width m i"
  by (simp add: series_step_simp elem_width_coil)

lemma lcur_foldl: "lcur (foldl (series_step m) st is) = lcur st + sum_list (map (elem_width m) is)"
  by (induction "is" arbitrary: st) auto

lemma series_untouched:
  "i \<notin> set is \<Longrightarrow> map_of (lpos (foldl (series_step m) st is)) i = map_of (lpos st) i
     \<and> map_of (lser (foldl (series_step m) st is)) i = map_of (lser st) i"
  by (induction "is" arbitrary: st) (auto simp: series_step_simp)

definition column :: "(string \<Rightarrow> ld_node option) \<Rightarrow> string list \<Rightarrow> nat \<Rightarrow> jsnum" where
  "column m is k = (if coil_at m (is ! k) then COIL_X_OFFSET
     else LD_GRID + sum_list (map (elem_width m) (take k is)))"

lemma series_columns:
  assumes "distinct is" "k < length is" "lcur st = LD_GRID"
  shows "map_of (lpos (foldl (series_step m) st is)) (is ! k)
       = Some \<lparr>px = column m is k, py = ELEMENT_Y\<rparr>"
    and "\<not> coil_at m (is ! k) \<Longrightarrow>
       map_of (lser (foldl (series_step m) st is)) (is ! k) = Some (column m is k)"
proof -
  have split: "is = take k is @ is ! k # drop (Suc k) is"
    using assms(2) by (rule id_take_nth_drop)
  let ?s = "foldl (series_step m) st (take k is)"
  have fold: "foldl (series_step m) st is
      = foldl (series_step m) (series_step m ?s (is ! k)) (drop (Suc k) is)"
    by (subst (1) split) simp
  have later: "is ! k \<notin> set (drop (Suc k) is)"
    using assms(1) split by (metis distinct.simps(2) distinct_append)
  have cur: "lcur ?s = LD_GRID + sum_list (map (elem_width m) (take k is))"
    using assms(3) by (simp add: lcur_foldl)
  show "map_of (lpos (foldl (series_step m) st is)) (is ! k)
       = Some \<lparr>px = column m is k, py = ELEMENT_Y\<rparr>"
    unfolding fold using series_untouched [OF later, of m] cur
    by (simp add: series_step_simp column_def)
  show "\<not> coil_at m (is ! k) \<Longrightarrow>
       map_of (lser (foldl (series_step m) st is)) (is ! k) = Some (column m is k)"
    unfolding fold using series_untouched [OF later, of m] cur
    by (simp add: series_step_simp column_def)
qed

text \<open>Columns of non-coil elements leave at least the earlier element's footprint between them.\<close>

lemma column_separation:
  assumes "j < k" "k < length is" "\<not> coil_at m (is ! j)" "\<not> coil_at m (is ! k)"
  shows "column m is j + elem_width m (is ! j) \<le> column m is k"
proof -
  have k: "k = j + Suc (k - Suc j)" using assms(1) by simp
  have "drop j is = is ! j # drop (Suc j) is"
    using assms(1,2) by (simp add: Cons_nth_drop_Suc)
  then have "take k is = take j is @ is ! j # take (k - Suc j) (drop (Suc j) is)"
    by (subst k, subst take_add) simp
  then have "sum_list (map (elem_width m) (take k is))
      = sum_list (map (elem_width m) (take j is)) + elem_width m (is ! j)
        + sum_list (map (elem_width m) (take (k - Suc j) (drop (Suc j) is)))"
    by simp
  moreover have "0 \<le> sum_list (map (elem_width m) (take (k - Suc j) (drop (Suc j) is)))"
    by (rule sum_list_nonneg) auto
  ultimately show ?thesis using assms(3,4) by (simp add: column_def)
qed

lemma keys_series_step: "set (map fst (lpos (series_step m st i))) = insert i (set (map fst (lpos st)))"
  by (simp add: series_step_simp del: set_map)

lemma keys_layout_series:
  "set (map fst (lpos (foldl (series_step m) st is))) = set is \<union> set (map fst (lpos st))"
  by (induction "is" arbitrary: st) (auto simp: keys_series_step simp del: set_map)

lemma distinct_keys_series:
  "distinct (map fst (lpos st)) \<Longrightarrow> distinct (map fst (lpos (foldl (series_step m) st is)))"
  by (induction "is" arbitrary: st) (simp_all add: series_step_simp)

subsection \<open>Branch members\<close>

lemma place_members_Cons_from:
  "foldl (\<lambda>p (k, m). js_set m (f k) p) pos (enumerate n (a # ms))
     = foldl (\<lambda>p (k, m). js_set m (f k) p) (js_set a (f n) pos) (enumerate (Suc n) ms)"
  by simp

lemma foldl_enum_untouched:
  "i \<notin> set ms \<Longrightarrow> map_of (foldl (\<lambda>p (k, m). js_set m (f k) p) pos (enumerate n ms)) i = map_of pos i"
  by (induction ms arbitrary: n pos) auto

lemma foldl_enum_nth:
  "distinct ms \<Longrightarrow> k < length ms \<Longrightarrow>
     map_of (foldl (\<lambda>p (k, m). js_set m (f k) p) pos (enumerate n ms)) (ms ! k) = Some (f (n + k))"
proof (induction ms arbitrary: n k pos)
  case (Cons a ms)
  show ?case
  proof (cases k)
    case 0
    with Cons.prems show ?thesis by (simp add: foldl_enum_untouched)
  next
    case (Suc j)
    with Cons.prems Cons.IH [of j "js_set a (f n) pos" "Suc n"] show ?thesis by simp
  qed
qed simp

lemma foldl_enum_keys:
  "set (map fst (foldl (\<lambda>p (k, m). js_set m (f k) p) pos (enumerate n ms)))
     = set ms \<union> set (map fst pos)"
  by (induction ms arbitrary: n pos) (auto simp del: set_map)

lemma foldl_enum_distinct:
  "distinct (map fst pos) \<Longrightarrow>
     distinct (map fst (foldl (\<lambda>p (k, m). js_set m (f k) p) pos (enumerate n ms)))"
  by (induction ms arbitrary: n pos) auto

definition member_point :: "jsnum \<Rightarrow> nat \<Rightarrow> point" where
  "member_point x k = \<lparr>px = x, py = BRANCH_FIRST_Y + of_nat k * LD_GRID\<rparr>"

lemma place_members_eq:
  "place_members x ms pos
     = foldl (\<lambda>p (k, m). js_set m (member_point x k) p) pos (enumerate 0 ms)"
  by (simp add: place_members_def member_point_def)

lemma place_members_facts:
  "i \<notin> set ms \<Longrightarrow> map_of (place_members x ms pos) i = map_of pos i"
  "distinct ms \<Longrightarrow> k < length ms \<Longrightarrow>
     map_of (place_members x ms pos) (ms ! k) = Some (member_point x k)"
  "set (map fst (place_members x ms pos)) = set ms \<union> set (map fst pos)"
  "distinct (map fst pos) \<Longrightarrow> distinct (map fst (place_members x ms pos))"
  unfolding place_members_eq
  using foldl_enum_untouched [of i ms "member_point x" pos 0]
    foldl_enum_nth [of ms k "member_point x" pos 0]
    foldl_enum_keys [of "member_point x" pos 0 ms]
    foldl_enum_distinct [of pos "member_point x" 0 ms]
  by simp_all

definition place_branches ::
  "(string, jsnum) jsmap \<Rightarrow> branch list \<Rightarrow> (string, point) jsmap \<Rightarrow> (string, point) jsmap" where
  "place_branches ser bs pos =
     foldl (\<lambda>p b. place_members (anchor_x ser p (anchorId b)) (members b) p) pos bs"

lemma place_branches_Cons [simp]:
  "place_branches ser [] pos = pos"
  "place_branches ser (b # bs) pos = place_branches ser bs
     (place_members (anchor_x ser pos (anchorId b)) (members b) pos)"
  by (simp_all add: place_branches_def)

lemma layoutRung_eq:
  "layoutRung r g = place_branches (lser (layout_series g r)) (rung_branches r)
     (lpos (layout_series g r))"
  by (simp add: layoutRung_def place_branches_def Let_def)

lemma place_branches_untouched:
  "i \<notin> set (concat (map members bs)) \<Longrightarrow> map_of (place_branches ser bs pos) i = map_of pos i"
  by (induction bs arbitrary: pos) (auto simp: place_members_facts(1))

lemma place_branches_keys:
  "set (map fst (place_branches ser bs pos)) = set (concat (map members bs)) \<union> set (map fst pos)"
  by (induction bs arbitrary: pos) (auto simp: place_members_facts(3) simp del: set_map)

lemma place_branches_distinct:
  "distinct (map fst pos) \<Longrightarrow> distinct (map fst (place_branches ser bs pos))"
  by (induction bs arbitrary: pos) (auto intro: place_members_facts(4))

lemma place_branches_member:
  assumes "b \<in> set bs" "k < length (members b)" "distinct (concat (map members bs))"
    and "map_of ser (anchorId b) = Some x"
  shows "map_of (place_branches ser bs pos) (members b ! k) = Some (member_point x k)"
  using assms(1,3)
proof (induction bs arbitrary: pos)
  case (Cons c bs)
  show ?case
  proof (cases "b = c")
    case True
    with Cons.prems assms(2) have "members b ! k \<notin> set (concat (map members bs))"
      by (metis concat.simps(2) disjoint_iff distinct_append list.simps(9) nth_mem)
    moreover have "distinct (members b)" using Cons.prems True by simp
    ultimately show ?thesis
      using True assms(2,4) by (simp add: place_branches_untouched place_members_facts(2) anchor_x_def)
  next
    case False
    with Cons.prems show ?thesis by (simp add: Cons.IH)
  qed
qed simp

subsection \<open>One rung\<close>

lemma layoutRung_series:
  assumes "distinct (rung_refs r)" "k < length (elementIds r)"
  shows "map_of (layoutRung r g) (elementIds r ! k)
     = Some \<lparr>px = column (nodeMap g) (elementIds r) k, py = ELEMENT_Y\<rparr>"
proof -
  from assms have "elementIds r ! k \<notin> set (concat (map members (rung_branches r)))"
    unfolding rung_refs_def by (meson disjoint_iff distinct_append nth_mem)
  with assms show ?thesis
    by (simp add: layoutRung_eq place_branches_untouched layout_series_def series_columns(1) rung_refs_def)
qed

lemma layoutRung_member:
  assumes "distinct (rung_refs r)" "b \<in> set (rung_branches r)" "j < length (members b)"
    and "k < length (elementIds r)" "anchorId b = elementIds r ! k"
    and "\<not> coil_at (nodeMap g) (anchorId b)"
  shows "map_of (layoutRung r g) (members b ! j)
     = Some (member_point (column (nodeMap g) (elementIds r) k) j)"
  unfolding layoutRung_eq
  by (rule place_branches_member)
     (use assms in \<open>simp_all add: layout_series_def series_columns(2) rung_refs_def\<close>)

lemma layoutRung_keys: "set (map fst (layoutRung r g)) = set (rung_refs r)"
  unfolding layoutRung_eq place_branches_keys
  by (auto simp: layout_series_def keys_layout_series rung_refs_def simp del: set_map)

lemma layoutRung_distinct: "distinct (map fst (layoutRung r g))"
  unfolding layoutRung_eq
  by (rule place_branches_distinct) (simp add: layout_series_def distinct_keys_series)

lemma branch_depth_ge: "b \<in> set (rung_branches r) \<Longrightarrow> length (members b) \<le> branch_depth r"
proof -
  have "n \<in> set ns \<Longrightarrow> n \<le> foldr max ns 0" for n :: nat and ns
    by (induction ns) auto
  then show "b \<in> set (rung_branches r) \<Longrightarrow> length (members b) \<le> branch_depth r"
    by (simp add: branch_depth_def)
qed

lemma rungHeight_ge: "76 \<le> rungHeight r"
  by (simp add: rungHeight_def grid_defs)

lemma rungHeight_member:
  assumes "b \<in> set (rung_branches r)" "j < length (members b)"
  shows "py (member_point x j) + 36 + LD_GRID \<le> rungHeight r"
proof -
  have "j + 1 \<le> branch_depth r" using branch_depth_ge [OF assms(1)] assms(2) by simp
  then have "of_nat j + 1 \<le> (of_nat (branch_depth r) :: rat)"
    by (metis of_nat_1 of_nat_add of_nat_le_iff)
  moreover have "branch_depth r \<noteq> 0" using \<open>j + 1 \<le> branch_depth r\<close> by simp
  ultimately show ?thesis by (simp add: rungHeight_def member_point_def grid_defs)
qed

subsection \<open>The whole diagram\<close>

definition rung_top :: "rung list \<Rightarrow> nat \<Rightarrow> jsnum" where
  "rung_top rs k = sum_list (map (\<lambda>r. rungHeight r + 4) (take k rs))"

lemma rung_top_mono:
  assumes "j < k" "k < length rs"
  shows "rung_top rs j + rungHeight (rs ! j) + 4 \<le> rung_top rs k"
proof -
  have k: "k = j + Suc (k - Suc j)" using assms(1) by simp
  have "drop j rs = rs ! j # drop (Suc j) rs" using assms by (simp add: Cons_nth_drop_Suc)
  then have "take k rs = take j rs @ rs ! j # take (k - Suc j) (drop (Suc j) rs)"
    by (subst k, subst take_add) simp
  moreover have "0 \<le> sum_list (map (\<lambda>r. rungHeight r + 4) (take (k - Suc j) (drop (Suc j) rs)))"
  proof (rule sum_list_nonneg)
    fix h assume "h \<in> set (map (\<lambda>r. rungHeight r + 4) (take (k - Suc j) (drop (Suc j) rs)))"
    then obtain r where "h = rungHeight r + 4" by auto
    with rungHeight_ge [of r] show "0 \<le> h" by simp
  qed
  ultimately show ?thesis by (simp add: rung_top_def)
qed

lemma map_of_shift_into:
  "distinct (map fst rp) \<Longrightarrow> map_of (shift_into t rp pos) i = (case map_of rp i of
     Some p \<Rightarrow> Some \<lparr>px = px p, py = t + py p\<rparr> | None \<Rightarrow> map_of pos i)"
proof (induction rp arbitrary: pos)
  case (Cons a rp)
  obtain j p where a: "a = (j, p)" by (cases a)
  with Cons.prems have "map_of rp j = None" by (force simp: map_of_eq_None_iff)
  moreover have "shift_into t (a # rp) pos = shift_into t rp (js_set j \<lparr>px = px p, py = t + py p\<rparr> pos)"
    using a by (simp add: shift_into_def)
  ultimately show ?case using Cons a by (auto split: option.split)
qed (simp add: shift_into_def)

lemma layout_rungs_height:
  "snd (layout_rungs g rs acc t) = t + rung_top rs (length rs)"
  by (induction rs arbitrary: acc t) (auto simp: rung_top_def Let_def)

lemma layout_rungs_untouched:
  "i \<notin> set (concat (map rung_refs rs)) \<Longrightarrow>
     map_of (out_positions (fst (layout_rungs g rs acc t))) i = map_of (out_positions acc) i"
  "i \<notin> set (map rid rs) \<Longrightarrow>
     map_of (rungTops (fst (layout_rungs g rs acc t))) i = map_of (rungTops acc) i"
proof (induction rs arbitrary: acc t)
  case (Cons r rs)
  {
    case 1
    then have "map_of (layoutRung r g) i = None"
      using layoutRung_keys [of r g] by (simp add: map_of_eq_None_iff)
    with 1 Cons.IH(1) show ?case by (simp add: Let_def map_of_shift_into layoutRung_distinct)
  next
    case 2
    with Cons.IH(2) show ?case by (simp add: Let_def)
  }
qed simp_all

lemma layout_rungs_nth:
  assumes "distinct (concat (map rung_refs rs))" "distinct (map rid rs)" "k < length rs"
    and "map_of (layoutRung (rs ! k) g) i = Some p"
  shows "map_of (out_positions (fst (layout_rungs g rs acc t))) i
       = Some \<lparr>px = px p, py = t + rung_top rs k + py p\<rparr>"
    and "map_of (rungTops (fst (layout_rungs g rs acc t))) (rid (rs ! k)) = Some (t + rung_top rs k)"
  using assms
proof (induction rs arbitrary: k acc t)
  case (Cons r rs)
  {
    case 1
    show ?case
    proof (cases k)
      case 0
      with 1 have "i \<in> set (rung_refs r)"
        using layoutRung_keys [of r g] by (metis map_of_SomeD nth_Cons_0 set_map fst_conv imageI)
      with 1 have "i \<notin> set (concat (map rung_refs rs))" by auto
      with 0 1 show ?thesis
        by (simp add: Let_def layout_rungs_untouched map_of_shift_into layoutRung_distinct rung_top_def)
    next
      case (Suc j)
      with 1 Cons.IH(1) [of j] show ?thesis by (simp add: Let_def rung_top_def algebra_simps)
    qed
  next
    case 2
    show ?case
    proof (cases k)
      case 0
      with 2 show ?thesis by (simp add: Let_def layout_rungs_untouched rung_top_def)
    next
      case (Suc j)
      with 2 Cons.IH(2) [of j] show ?thesis by (simp add: Let_def rung_top_def algebra_simps)
    qed
  }
qed simp_all

lemma layoutGraph_simps:
  "out_positions (layoutGraph g) = out_positions (fst (layout_rungs g (rungs g)
     \<lparr>out_positions = [], rungTops = [], rungHeights = [], rail_left = origin,
      rail_right = \<lparr>px = RAIL_X_RIGHT, py = 0\<rparr>, rail_height = 0, totalHeight = 0\<rparr> 0))"
  "rungTops (layoutGraph g) = rungTops (fst (layout_rungs g (rungs g)
     \<lparr>out_positions = [], rungTops = [], rungHeights = [], rail_left = origin,
      rail_right = \<lparr>px = RAIL_X_RIGHT, py = 0\<rparr>, rail_height = 0, totalHeight = 0\<rparr> 0))"
  "totalHeight (layoutGraph g) = rung_top (rungs g) (length (rungs g))"
  by (simp_all add: layoutGraph_def Let_def split_def layout_rungs_height)

end
