(* ===== verification/LdCatalog.thy ===== *)
theory LdCatalog
  imports LdModel
begin

text \<open>
  The function-block catalog of the ladder editor (model/fb-catalog.ts): the table of
  known block types, pin resolution with the implicit EN/ENO pins, and block heights.
\<close>

record fb_def =
  fb_type :: string
  fb_label :: string
  fb_inputs :: "(string \<times> string) list"
  fb_outputs :: "(string \<times> string) list"

definition FB_TYPES :: "string list" where
  "FB_TYPES = [''TON'', ''TOF'', ''TP'', ''CTU'', ''CTD'', ''EQ'', ''GT'', ''LT'', ''GE'', ''LE'',
     ''NE'', ''ADD'', ''SUB'', ''MUL'', ''DIV'', ''MOD'']"

definition PIN_ROW :: jsnum where "PIN_ROW = 30"

definition mk_def :: "string \<Rightarrow> (string \<times> string) list \<Rightarrow> (string \<times> string) list \<Rightarrow> fb_def" where
  "mk_def t i out = \<lparr>fb_type = t, fb_label = t, fb_inputs = i, fb_outputs = out\<rparr>"

definition FB_DEFINITIONS :: "fb_def list" where
  "FB_DEFINITIONS =
    [mk_def ''TON'' [(''IN'', ''BOOL''), (''PT'', ''TIME'')] [(''Q'', ''BOOL''), (''ET'', ''TIME'')],
     mk_def ''TOF'' [(''IN'', ''BOOL''), (''PT'', ''TIME'')] [(''Q'', ''BOOL''), (''ET'', ''TIME'')],
     mk_def ''TP'' [(''IN'', ''BOOL''), (''PT'', ''TIME'')] [(''Q'', ''BOOL''), (''ET'', ''TIME'')],
     mk_def ''CTU'' [(''CU'', ''BOOL''), (''R'', ''BOOL''), (''PV'', ''INT'')]
       [(''Q'', ''BOOL''), (''CV'', ''INT'')],
     mk_def ''CTD'' [(''CD'', ''BOOL''), (''LD'', ''BOOL''), (''PV'', ''INT'')]
       [(''Q'', ''BOOL''), (''CV'', ''INT'')],
     mk_def ''EQ'' [(''IN1'', ''ANY''), (''IN2'', ''ANY'')] [(''Q'', ''BOOL'')],
     mk_def ''GT'' [(''IN1'', ''ANY''), (''IN2'', ''ANY'')] [(''Q'', ''BOOL'')],
     mk_def ''LT'' [(''IN1'', ''ANY''), (''IN2'', ''ANY'')] [(''Q'', ''BOOL'')],
     mk_def ''GE'' [(''IN1'', ''ANY''), (''IN2'', ''ANY'')] [(''Q'', ''BOOL'')],
     mk_def ''LE'' [(''IN1'', ''ANY''), (''IN2'', ''ANY'')] [(''Q'', ''BOOL'')],
     mk_def ''NE'' [(''IN1'', ''ANY''), (''IN2'', ''ANY'')] [(''Q'', ''BOOL'')],
     mk_def ''ADD'' [(''IN1'', ''ANY_NUM''), (''IN2'', ''ANY_NUM''), (''IN3'', ''ANY_NUM'')]
       [(''OUT'', ''ANY_NUM'')],
     mk_def ''SUB'' [(''IN1'', ''ANY_NUM''), (''IN2'', ''ANY_NUM'')] [(''OUT'', ''ANY_NUM'')],
     mk_def ''MUL'' [(''IN1'', ''ANY_NUM''), (''IN2'', ''ANY_NUM'')] [(''OUT'', ''ANY_NUM'')],
     mk_def ''DIV'' [(''IN1'', ''ANY_NUM''), (''IN2'', ''ANY_NUM'')] [(''OUT'', ''ANY_NUM'')],
     mk_def ''MOD'' [(''IN1'', ''ANY_NUM''), (''IN2'', ''ANY_NUM'')] [(''OUT'', ''ANY_NUM'')]]"

definition isFbType :: "string \<Rightarrow> bool" where
  "isFbType v \<longleftrightarrow> v \<in> set FB_TYPES"

text \<open>
  Pins of one side: the implicit pin on row 0, then the catalog's pins on rows
  \<open>1, 2, \<dots>\<close>, all in column \<open>x\<close>.
\<close>

definition side_pins :: "string \<Rightarrow> jsnum \<Rightarrow> (string \<times> string) list \<Rightarrow> pin list" where
  "side_pins en x ps =
     \<lparr>pin_name = en, pin_dataType = ''BOOL'', pin_position = \<lparr>px = x, py = 0\<rparr>\<rparr>
     # map_index (\<lambda>i (n, t). \<lparr>pin_name = n, pin_dataType = t,
         pin_position = \<lparr>px = x, py = of_nat (i + 1) * PIN_ROW\<rparr>\<rparr>) ps"

definition getFbPins :: "string \<Rightarrow> (pin list \<times> pin list) option" where
  "getFbPins t = (case List.find (\<lambda>d. fb_type d = t) FB_DEFINITIONS of
     None \<Rightarrow> None
   | Some d \<Rightarrow> Some (side_pins ''EN'' 0 (fb_inputs d), side_pins ''ENO'' FB_WIDTH (fb_outputs d)))"

definition getFbHeight :: "string \<Rightarrow> jsnum" where
  "getFbHeight t = (case getFbPins t of
     None \<Rightarrow> 80
   | Some (i, out) \<Rightarrow> of_nat (max (length i) (length out)) * PIN_ROW + 10)"

definition fbPaletteEntries :: "(string \<times> string) list" where
  "fbPaletteEntries = map (\<lambda>d. (fb_type d, fb_label d)) FB_DEFINITIONS"

subsection \<open>Lemmas\<close>

lemma catalog_types: "map fb_type FB_DEFINITIONS = FB_TYPES"
  by (simp add: FB_DEFINITIONS_def FB_TYPES_def mk_def_def)

lemma getFbPins_known: "isFbType t \<longleftrightarrow> getFbPins t \<noteq> None"
proof -
  have "getFbPins t = None \<longleftrightarrow> List.find (\<lambda>d. fb_type d = t) FB_DEFINITIONS = None"
    by (simp add: getFbPins_def split: option.split)
  also have "\<dots> \<longleftrightarrow> (\<forall>d \<in> set FB_DEFINITIONS. fb_type d \<noteq> t)"
    by (rule find_NoneD)
  also have "\<dots> \<longleftrightarrow> t \<notin> set (map fb_type FB_DEFINITIONS)" by auto
  finally show ?thesis by (simp add: catalog_types isFbType_def)
qed

lemma side_pins_row:
  assumes "k < length (side_pins en x ps)"
  shows "pin_position (side_pins en x ps ! k) = \<lparr>px = x, py = of_nat k * PIN_ROW\<rparr>"
proof (cases k)
  case 0
  then show ?thesis by (simp add: side_pins_def)
next
  case (Suc j)
  with assms have "j < length ps" by (simp add: side_pins_def)
  with Suc show ?thesis by (simp add: side_pins_def split: prod.split)
qed

text \<open>Every pin row of a known block lies inside the block's height, with 40 px below it.\<close>

lemma getFbHeight_fits:
  assumes "getFbPins t = Some (ins, outs)" "p \<in> set ins \<union> set outs"
  shows "0 \<le> py (pin_position p) \<and> py (pin_position p) + 40 \<le> getFbHeight t"
proof -
  from assms(1) obtain d :: fb_def where
    i: "ins = side_pins ''EN'' 0 (fb_inputs d)" and o: "outs = side_pins ''ENO'' FB_WIDTH (fb_outputs d)"
    unfolding getFbPins_def by (cases "List.find (\<lambda>d. fb_type d = t) FB_DEFINITIONS") auto
  have row: "\<exists>k. k < max (length ins) (length outs) \<and> py (pin_position p) = of_nat k * PIN_ROW"
    using assms(2) unfolding Un_iff
  proof
    assume "p \<in> set ins"
    then obtain k where "k < length ins" "p = ins ! k" by (auto simp: in_set_conv_nth)
    then show ?thesis unfolding i using side_pins_row by (metis less_max_iff_disj point.select_convs(2))
  next
    assume "p \<in> set outs"
    then obtain k where "k < length outs" "p = outs ! k" by (auto simp: in_set_conv_nth)
    then show ?thesis unfolding o using side_pins_row by (metis less_max_iff_disj point.select_convs(2))
  qed
  then obtain k where k: "k < max (length ins) (length outs)"
    and y: "py (pin_position p) = of_nat k * PIN_ROW" by blast
  from k have "(of_nat k + 1 :: rat) \<le> of_nat (max (length ins) (length outs))"
    by (metis Suc_leI of_nat_Suc of_nat_le_iff add.commute)
  with y assms(1) show ?thesis by (simp add: getFbHeight_def PIN_ROW_def)
qed

end
