(* ===== verification/LdHandler.thy ===== *)
theory LdHandler
  imports LdLayout LdCatalog
begin

text \<open>
  The operation handler of the ladder editor (backend/ld-operation-handler.ts): lookups,
  wire rebuilding, and one definition per editing operation. Each operation takes the graph,
  its parameters and the id generator, and returns the exception or the new graph together
  with the advanced generator. \<open>next = cloneGraph(graph)\<close> and the in-place updates of
  \<open>next\<close> are the updates of a graph value that is passed along.
\<close>

datatype ld_error = ValidationError string

type_synonym ld_result = "(ld_error + ld_graph) \<times> idgen"
type_synonym wiring = "ld_graph \<times> idgen"

definition throw :: "string \<Rightarrow> idgen \<Rightarrow> ld_result" where
  "throw msg s = (Inl (ValidationError msg), s)"

definition ok :: "wiring \<Rightarrow> ld_result" where
  "ok st = (Inr (fst st), snd st)"

definition withE :: "ld_error + 'a \<Rightarrow> ('a \<Rightarrow> ld_result) \<Rightarrow> idgen \<Rightarrow> ld_result" where
  "withE m f s = (case m of Inl e \<Rightarrow> (Inl e, s) | Inr a \<Rightarrow> f a)"

lemma result_simps [simp]:
  "throw msg s = (Inr g, s') \<longleftrightarrow> False"
  "ok st = (Inr g, s') \<longleftrightarrow> st = (g, s')"
  "withE (Inl e) f s = (Inl e, s)" "withE (Inr a) f s = f a"
  by (auto simp: throw_def ok_def withE_def)

subsection \<open>Lookups\<close>

definition findRung :: "ld_graph \<Rightarrow> string \<Rightarrow> ld_error + rung" where
  "findRung g i = (case List.find (\<lambda>r. rid r = i) (rungs g) of
     Some r \<Rightarrow> Inr r | None \<Rightarrow> Inl (ValidationError (''Rung not found: '' @ i)))"

definition findNode :: "ld_graph \<Rightarrow> string \<Rightarrow> ld_node option" where
  "findNode g i = List.find (\<lambda>n. nid n = i) (nodes g)"

definition findEdge :: "ld_graph \<Rightarrow> string \<Rightarrow> ld_edge option" where
  "findEdge g i = List.find (\<lambda>e. eid e = i) (edges g)"

fun first_coil :: "ld_graph \<Rightarrow> string list \<Rightarrow> ld_node option" where
  "first_coil g [] = None"
| "first_coil g (i # is) = (case findNode g i of
     Some n \<Rightarrow> if is_coil (ndata n) then Some n else first_coil g is
   | None \<Rightarrow> first_coil g is)"

definition findCoilOnRung :: "ld_graph \<Rightarrow> rung \<Rightarrow> ld_node option" where
  "findCoilOnRung g r = first_coil g (elementIds r)"

definition findLeftRailOnRung :: "ld_graph \<Rightarrow> rung \<Rightarrow> ld_node option" where
  "findLeftRailOnRung g r = List.find (\<lambda>n. ndata n = PowerRail LeftRail) (nodes g)"

definition findRightRailOnRung :: "ld_graph \<Rightarrow> rung \<Rightarrow> ld_node option" where
  "findRightRailOnRung g r = List.find (\<lambda>n. ndata n = PowerRail RightRail) (nodes g)"

fun find_branch_in :: "rung list \<Rightarrow> string \<Rightarrow> (rung \<times> branch) option" where
  "find_branch_in [] i = None"
| "find_branch_in (r # rs) i = (case List.find (\<lambda>b. bid b = i) (rung_branches r) of
     Some b \<Rightarrow> Some (r, b) | None \<Rightarrow> find_branch_in rs i)"

definition findBranch :: "ld_graph \<Rightarrow> string \<Rightarrow> ld_error + rung \<times> branch" where
  "findBranch g i = (case find_branch_in (rungs g) i of
     Some rb \<Rightarrow> Inr rb | None \<Rightarrow> Inl (ValidationError (''Branch not found: '' @ i)))"

definition seriesSuccessor :: "rung \<Rightarrow> string \<Rightarrow> string option" where
  "seriesSuccessor r a = (case indexOf (elementIds r) a of
     None \<Rightarrow> None
   | Some k \<Rightarrow> if k + 1 \<ge> length (elementIds r) then None else Some (elementIds r ! (k + 1)))"

text \<open>\<open>next.rungs[next.rungs.findIndex((r) => r.id === i)] = r'\<close>, for a rung that is there.\<close>

definition set_rung :: "string \<Rightarrow> rung \<Rightarrow> ld_graph \<Rightarrow> ld_graph" where
  "set_rung i r' g = (case findIndex (\<lambda>r. rid r = i) (rungs g) of
     Some k \<Rightarrow> g\<lparr>rungs := (rungs g)[k := r']\<rparr> | None \<Rightarrow> g)"

definition set_node :: "string \<Rightarrow> (ld_node \<Rightarrow> ld_node) \<Rightarrow> ld_graph \<Rightarrow> ld_graph" where
  "set_node i f g = (case findIndex (\<lambda>n. nid n = i) (nodes g) of
     Some k \<Rightarrow> g\<lparr>nodes := (nodes g)[k := f (nodes g ! k)]\<rparr> | None \<Rightarrow> g)"

definition push_node :: "ld_node \<Rightarrow> ld_graph \<Rightarrow> ld_graph" where
  "push_node n g = g\<lparr>nodes := nodes g @ [n]\<rparr>"

text \<open>A string used as a condition: present and not empty.\<close>

definition truthy_id :: "string option \<Rightarrow> bool" where
  "truthy_id x = (case x of None \<Rightarrow> False | Some s \<Rightarrow> s \<noteq> [])"

subsection \<open>Wires\<close>

definition push_wire :: "string \<Rightarrow> string \<Rightarrow> string option \<Rightarrow> string option \<Rightarrow> wiring \<Rightarrow> wiring" where
  "push_wire a b sp tp st =
     (let (w, s') = createWire a b None (snd st) in
      ((fst st)\<lparr>edges := edges (fst st) @ [w\<lparr>edata := Wire None sp tp\<rparr>]\<rparr>, s'))"

definition filter_edges :: "(ld_edge \<Rightarrow> bool) \<Rightarrow> wiring \<Rightarrow> wiring" where
  "filter_edges p st = ((fst st)\<lparr>edges := filter p (edges (fst st))\<rparr>, snd st)"

text \<open>\<open>rewireRungBranches\<close>: drop the old branch edges, then build every branch again.\<close>

definition keeps_branch_edge :: "rung \<Rightarrow> ld_edge \<Rightarrow> bool" where
  "keeps_branch_edge r e \<longleftrightarrow>
     sourceId e \<notin> set (concat (map members (rung_branches r)))
     \<and> targetId e \<notin> set (concat (map members (rung_branches r)))
     \<and> \<not> (\<exists>b \<in> set (rung_branches r). truthy_id (seriesSuccessor r (anchorId b))
          \<and> sourceId e = anchorId b \<and> Some (targetId e) = seriesSuccessor r (anchorId b))"

fun bus_wires :: "string list \<Rightarrow> wiring \<Rightarrow> wiring" where
  "bus_wires (m # m' # ms) st =
     bus_wires (m' # ms) (push_wire m m' (Some ''bus-out'') (Some ''bus-in'') st)"
| "bus_wires ms st = st"

definition wire_branch :: "rung \<Rightarrow> branch \<Rightarrow> wiring \<Rightarrow> wiring" where
  "wire_branch r b st =
     (let succ = seriesSuccessor r (anchorId b) in
      if members b = [] then
        (if truthy_id succ then push_wire (anchorId b) (the succ) None None st else st)
      else
        (let st1 = push_wire (anchorId b) (hd (members b)) None None st;
             st2 = bus_wires (members b) st1;
             target = (case succ of Some t \<Rightarrow> Some t
                | None \<Rightarrow> map_option nid (findRightRailOnRung (fst st) r))
         in if truthy_id target then push_wire (last (members b)) (the target) None None st2
            else st2))"

definition rewireRungBranches :: "rung \<Rightarrow> wiring \<Rightarrow> wiring" where
  "rewireRungBranches r st =
     (if rung_branches r = [] then st
      else foldl (\<lambda>st b. wire_branch r b st) (filter_edges (keeps_branch_edge r) st)
             (rung_branches r))"

text \<open>\<open>rewireRungSeries\<close>: rebuild the main row from the left rail, then the branches.\<close>

fun series_chain :: "string option \<Rightarrow> string list \<Rightarrow> wiring \<Rightarrow> wiring" where
  "series_chain prev [] st = st"
| "series_chain prev (i # is) st = series_chain (Some i) is
     (if truthy_id prev \<and> i \<noteq> the prev then push_wire (the prev) i None None st else st)"

definition rewireRungSeries :: "rung \<Rightarrow> wiring \<Rightarrow> wiring" where
  "rewireRungSeries r st =
     (let g = fst st; els = elementIds r;
          st1 = filter_edges (\<lambda>e. sourceId e \<notin> set els \<and> targetId e \<notin> set els) st;
          st2 = series_chain (map_option nid (findLeftRailOnRung g r)) els st1
      in if els = [] \<or> last els = [] then st2
         else
           (let target = (case findCoilOnRung g r of Some c \<Rightarrow> Some (nid c)
                  | None \<Rightarrow> map_option nid (findRightRailOnRung g r));
                st3 = (if truthy_id target \<and> the target \<noteq> last els
                       then push_wire (last els) (the target) None None st2 else st2)
            in rewireRungBranches r st3))"

subsection \<open>Adding elements\<close>

definition snapToGrid :: "point \<Rightarrow> point" where
  "snapToGrid p = \<lparr>px = of_int (js_round (px p / LD_GRID)) * LD_GRID,
                   py = of_int (js_round (py p / LD_GRID)) * LD_GRID\<rparr>"

text \<open>The slot of a new element: \<open>insertIndex\<close> wins, then the legacy position order.\<close>

definition insert_slot :: "ld_graph \<Rightarrow> string list \<Rightarrow> int option \<Rightarrow> point option \<Rightarrow> nat" where
  "insert_slot g els idx pos = (case idx of
     Some k \<Rightarrow> clamp_index k (length els)
   | None \<Rightarrow> (case pos of
       None \<Rightarrow> length els
     | Some p \<Rightarrow> (case findIndex (\<lambda>i. case findNode g i of None \<Rightarrow> False
            | Some n \<Rightarrow> px (npos n) > px (snapToGrid p)) els of
          Some k \<Rightarrow> k | None \<Rightarrow> length els)))"

definition count_nodes :: "(node_data \<Rightarrow> bool) \<Rightarrow> ld_graph \<Rightarrow> nat" where
  "count_nodes p g = length (filter (\<lambda>n. p (ndata n)) (nodes g))"

record add_contact_params =
  ac_position :: "point option"
  ac_insertIndex :: "int option"
  ac_type :: contact_type
  ac_rungId :: string

text \<open>The two checks that a new contact lands left of the rung's coil.\<close>

definition contact_right_of_coil :: "ld_graph \<Rightarrow> rung \<Rightarrow> add_contact_params \<Rightarrow> bool" where
  "contact_right_of_coil g r p = (case findCoilOnRung g r of
     None \<Rightarrow> False
   | Some c \<Rightarrow> (case ac_insertIndex p of
       Some k \<Rightarrow> (case indexOf (elementIds r) (nid c) of
          None \<Rightarrow> False | Some ci \<Rightarrow> k > int ci)
     | None \<Rightarrow> (case ac_position p of
          None \<Rightarrow> False | Some q \<Rightarrow> px (snapToGrid q) \<ge> px (npos c))))"

definition addContact :: "ld_graph \<Rightarrow> add_contact_params \<Rightarrow> idgen \<Rightarrow> ld_result" where
  "addContact g p s = withE (findRung g (ac_rungId p)) (\<lambda>r.
     if contact_right_of_coil g r p then throw ''Contact must be left of the coil'' s
     else
       (let coilNode = findCoilOnRung g r;
            (contact, s1) = createContact (ac_type p)
               (''IN'' @ nat_to_dec (count_nodes is_contact g)) None s;
            g1 = push_node contact (cloneGraph g);
            k = insert_slot g (elementIds r) (ac_insertIndex p) (ac_position p);
            els = splice_insert k [nid contact] (elementIds r);
            r1 = r\<lparr>elementIds := els\<rparr>;
            g2 = set_rung (rid r) r1 g1;
            prevId = (if k > 0 then Some (els ! (k - 1))
                      else map_option nid (findLeftRailOnRung g2 r1));
            st3 = (if truthy_id prevId
                   then push_wire (the prevId) (nid contact) None None (g2, s1) else (g2, s1));
            coilId = map_option nid coilNode;
            nextTarget = (if truthy_id coilId then coilId
                          else map_option nid (findRightRailOnRung (fst st3) r1));
            st4 = (if k = length els - 1 \<and> truthy_id nextTarget
                   then push_wire (nid contact) (the nextTarget) None None st3 else st3)
        in ok (rewireRungBranches r1 st4))) s"

definition contacts_on :: "ld_graph \<Rightarrow> rung \<Rightarrow> string list" where
  "contacts_on g r = filter (\<lambda>i. case findNode g i of None \<Rightarrow> False
     | Some n \<Rightarrow> is_contact (ndata n)) (elementIds r)"

definition addCoil :: "ld_graph \<Rightarrow> coil_type \<Rightarrow> string \<Rightarrow> idgen \<Rightarrow> ld_result" where
  "addCoil g t rungId s = withE (findRung g rungId) (\<lambda>r.
     if contacts_on g r = [] then throw ''Add at least one contact before adding a coil'' s
     else
       (let (coil, s1) = createCoil t (''OUT'' @ nat_to_dec (count_nodes is_coil g)) None s;
            g1 = push_node coil (cloneGraph g);
            r1 = r\<lparr>elementIds := elementIds r @ [nid coil]\<rparr>;
            g2 = set_rung (rid r) r1 g1;
            lastContactId = last (contacts_on g r);
            st3 = (if lastContactId \<noteq> [] then push_wire lastContactId (nid coil) None None (g2, s1)
                   else (g2, s1));
            st4 = rewireRungBranches r1 st3
        in ok (case findRightRailOnRung (fst st4) r1 of
                 None \<Rightarrow> st4
               | Some rail \<Rightarrow> push_wire (nid coil) (nid rail) None None st4))) s"

record add_fb_params =
  af_position :: "point option"
  af_insertIndex :: "int option"
  af_fbType :: string
  af_rungId :: string

definition addFb :: "ld_graph \<Rightarrow> add_fb_params \<Rightarrow> idgen \<Rightarrow> ld_result" where
  "addFb g p s = withE (findRung g (af_rungId p)) (\<lambda>r.
     case getFbPins (af_fbType p) of
       None \<Rightarrow> throw (''Unknown FB type: '' @ af_fbType p) s
     | Some (ins, outs) \<Rightarrow>
       (let (fb0, s1) = createFb (af_fbType p) ins outs None s;
            fb = fb0\<lparr>ndim := \<lparr>dwidth = FB_WIDTH, dheight = getFbHeight (af_fbType p)\<rparr>\<rparr>;
            g1 = push_node fb (cloneGraph g);
            k = insert_slot g (elementIds r) (af_insertIndex p) (af_position p);
            els = splice_insert k [nid fb] (elementIds r);
            r1 = r\<lparr>elementIds := els\<rparr>;
            g2 = set_rung (rid r) r1 g1;
            prevId = (if k > 0 then Some (els ! (k - 1))
                      else map_option nid (findLeftRailOnRung g2 r1));
            st3 = (if truthy_id prevId
                   then push_wire (the prevId) (nid fb) None (Some ''EN'') (g2, s1) else (g2, s1));
            succId = (if k + 1 < length els then Some (els ! (k + 1))
                      else case findCoilOnRung (fst st3) r1 of Some c \<Rightarrow> Some (nid c)
                        | None \<Rightarrow> map_option nid (findRightRailOnRung (fst st3) r1));
            st4 = (if truthy_id succId
                   then push_wire (nid fb) (the succId) (Some ''ENO'') None st3 else st3)
        in ok (rewireRungBranches r1 st4))) s"

subsection \<open>Deleting and moving elements\<close>

text \<open>Branches hanging off \<open>i\<close>, and the nodes that go with \<open>i\<close>.\<close>

definition anchored_branches :: "ld_graph \<Rightarrow> string \<Rightarrow> branch list" where
  "anchored_branches g i =
     filter (\<lambda>b. anchorId b = i) (concat (map rung_branches (rungs g)))"

definition drop_node_ids :: "ld_graph \<Rightarrow> string \<Rightarrow> string list" where
  "drop_node_ids g i = i # concat (map members (anchored_branches g i))"

definition drop_branch_ids :: "ld_graph \<Rightarrow> string \<Rightarrow> string list" where
  "drop_branch_ids g i = map bid (anchored_branches g i)"

text \<open>The surviving members of a pruned branch are stacked again from the first row.\<close>

definition restack :: "jsnum \<Rightarrow> string list \<Rightarrow> ld_graph \<Rightarrow> ld_graph" where
  "restack x ms g = foldl (\<lambda>g (k, m).
     set_node m (\<lambda>n. n\<lparr>npos := \<lparr>px = x, py = BRANCH_FIRST_Y + of_nat k * LD_GRID\<rparr>\<rparr>) g)
     g (enumerate 0 ms)"

fun prune_branches :: "string \<Rightarrow> branch list \<Rightarrow> ld_graph \<Rightarrow> branch list \<times> bool \<times> ld_graph" where
  "prune_branches i [] g = ([], False, g)"
| "prune_branches i (b # bs) g =
     (if i \<notin> set (members b)
      then (case prune_branches i bs g of (bs', ch, g') \<Rightarrow> (b # bs', ch, g'))
      else
        (let ms = filter (\<lambda>m. m \<noteq> i) (members b) in
         case prune_branches i bs (restack (bx b) ms g) of
           (bs', ch, g') \<Rightarrow> (b\<lparr>members := ms\<rparr> # bs', True, g')))"

definition prune_rung :: "string \<Rightarrow> string list \<Rightarrow> string list \<Rightarrow> rung \<Rightarrow> wiring \<Rightarrow> rung \<times> wiring" where
  "prune_rung i dropN dropB r st =
     (let els = filter (\<lambda>x. x \<notin> set dropN) (elementIds r);
          bs0 = filter (\<lambda>b. bid b \<notin> set dropB) (rung_branches r);
          (bs1, ch, g1) = prune_branches i bs0 (fst st);
          nonEmpty = filter (\<lambda>b. members b \<noteq> []) bs1;
          changed = (length els \<noteq> length (elementIds r) \<or> ch \<or> length nonEmpty \<noteq> length bs1)
      in if \<not> changed then (r, (g1, snd st))
         else (let r' = r\<lparr>elementIds := els, branches := Some nonEmpty\<rparr>
               in (r', rewireRungBranches r' (g1, snd st))))"

fun prune_rungs :: "string \<Rightarrow> string list \<Rightarrow> string list \<Rightarrow> rung list \<Rightarrow> wiring \<Rightarrow> rung list \<times> wiring" where
  "prune_rungs i dropN dropB [] st = ([], st)"
| "prune_rungs i dropN dropB (r # rs) st =
     (let (r', st1) = prune_rung i dropN dropB r st;
          (rs', st2) = prune_rungs i dropN dropB rs st1
      in (r' # rs', st2))"

definition deleteElement :: "ld_graph \<Rightarrow> string \<Rightarrow> idgen \<Rightarrow> ld_result" where
  "deleteElement g i s =
     (if findNode g i = None \<and> findEdge g i = None then throw (''Element not found: '' @ i) s
      else
        (let g0 = cloneGraph g in
         if findNode g i \<noteq> None then
           (let dropN = drop_node_ids g0 i; dropB = drop_branch_ids g0 i;
                g1 = g0\<lparr>edges := filter (\<lambda>e. sourceId e \<notin> set dropN \<and> targetId e \<notin> set dropN) (edges g0),
                        nodes := filter (\<lambda>n. nid n \<notin> set dropN) (nodes g0)\<rparr>;
                (rs, st) = prune_rungs i dropN dropB (rungs g1) (g1, s)
            in ok ((fst st)\<lparr>rungs := rs\<rparr>, snd st))
         else ok (g0\<lparr>edges := filter (\<lambda>e. eid e \<noteq> i) (edges g0)\<rparr>, s)))"

definition reorderElement :: "ld_graph \<Rightarrow> string \<Rightarrow> int \<Rightarrow> idgen \<Rightarrow> ld_result" where
  "reorderElement g i insertIndex s =
     (case List.find (\<lambda>r. i \<in> set (elementIds r)) (rungs g) of
        None \<Rightarrow> throw (''Element not on any rung: '' @ i) s
      | Some r \<Rightarrow>
        (if findNode g i = None then throw (''Element not found: '' @ i) s
         else if map_option nid (findCoilOnRung g r) = Some i then
           throw (''A coil cannot be reordered '' @ em_dash @ '' it is pinned to the coil zone'') s
         else
           (case indexOf (elementIds r) i of
              None \<Rightarrow> ok (g, s)
            | Some from \<Rightarrow>
              (let els0 = splice_remove from (elementIds r);
                   to0 = clamp_index insertIndex (length els0);
                   to1 = (if from < to0 then to0 - 1 else to0);
                   r1 = r\<lparr>elementIds := splice_insert to1 [i] els0\<rparr>;
                   g1 = set_rung (rid r) r1 (cloneGraph g)
               in ok (rewireRungBranches r1 (rewireRungSeries r1 (g1, s)))))))"

subsection \<open>Wires by hand\<close>

definition connectWire ::
  "ld_graph \<Rightarrow> string \<Rightarrow> string \<Rightarrow> point list option \<Rightarrow> idgen \<Rightarrow> ld_result" where
  "connectWire g a b pts s =
     (case findNode g a of
        None \<Rightarrow> throw (''Source node not found: '' @ a) s
      | Some src \<Rightarrow>
        (case findNode g b of
           None \<Rightarrow> throw (''Target node not found: '' @ b) s
         | Some tgt \<Rightarrow>
           (if is_powerrail (ndata src) \<and> is_powerrail (ndata tgt)
            then throw ''Short circuit: power rails cannot connect directly'' s
            else if is_coil (ndata src) then throw ''Cannot connect from a coil output'' s
            else if List.find (\<lambda>e. sourceId e = a \<and> targetId e = b) (edges g) \<noteq> None then ok (g, s)
            else
              (let (w, s1) = createWire a b pts s; g1 = cloneGraph g
               in ok (g1\<lparr>edges := edges g1 @ [w]\<rparr>, s1)))))"

definition disconnectWire :: "ld_graph \<Rightarrow> string \<Rightarrow> idgen \<Rightarrow> ld_result" where
  "disconnectWire g i s =
     (if findEdge g i = None then throw (''Wire not found: '' @ i) s
      else (let g1 = cloneGraph g
            in ok (g1\<lparr>edges := filter (\<lambda>e. eid e \<noteq> i) (edges g1)\<rparr>, s)))"

subsection \<open>Properties of elements and rungs\<close>

fun set_coil_type :: "coil_type \<Rightarrow> node_data \<Rightarrow> node_data" where
  "set_coil_type t (Coil t' v c) = Coil t v c" | "set_coil_type t d = d"

fun set_contact_type :: "contact_type \<Rightarrow> node_data \<Rightarrow> node_data" where
  "set_contact_type t (Contact t' v c) = Contact t v c" | "set_contact_type t d = d"

fun set_comment :: "string option \<Rightarrow> node_data \<Rightarrow> node_data" where
  "set_comment k (Contact t v c) = Contact t v k"
| "set_comment k (Coil t v c) = Coil t v k"
| "set_comment k d = d"

fun set_variable :: "string \<Rightarrow> node_data \<Rightarrow> node_data" where
  "set_variable w (Contact t v c) = Contact t w c"
| "set_variable w (Coil t v c) = Coil t w c"
| "set_variable w d = d"

definition update_data :: "(node_data \<Rightarrow> node_data) \<Rightarrow> ld_node \<Rightarrow> ld_node" where
  "update_data f n = n\<lparr>ndata := f (ndata n)\<rparr>"

definition changeCoilType :: "ld_graph \<Rightarrow> string \<Rightarrow> coil_type \<Rightarrow> idgen \<Rightarrow> ld_result" where
  "changeCoilType g i t s =
     (case map_option ndata (findNode g i) of
        Some (Coil t' v c) \<Rightarrow> if t' = t then ok (g, s)
          else ok (set_node i (update_data (set_coil_type t)) (cloneGraph g), s)
      | _ \<Rightarrow> throw (''Not a coil: '' @ i) s)"

definition changeContactType :: "ld_graph \<Rightarrow> string \<Rightarrow> contact_type \<Rightarrow> idgen \<Rightarrow> ld_result" where
  "changeContactType g i t s =
     (case map_option ndata (findNode g i) of
        Some (Contact t' v c) \<Rightarrow> if t' = t then ok (g, s)
          else ok (set_node i (update_data (set_contact_type t)) (cloneGraph g), s)
      | _ \<Rightarrow> throw (''Not a contact: '' @ i) s)"

text \<open>\<open>old === t || (!old && t === '')\<close>, and the stored form of a trimmed text.\<close>

definition same_text :: "string option \<Rightarrow> string \<Rightarrow> bool" where
  "same_text old t \<longleftrightarrow> old = Some t \<or> (\<not> truthy_id old \<and> t = [])"

definition stored_text :: "string \<Rightarrow> string option" where
  "stored_text t = (if t = [] then None else Some t)"

definition setRungTitle :: "ld_graph \<Rightarrow> string \<Rightarrow> string \<Rightarrow> idgen \<Rightarrow> ld_result" where
  "setRungTitle g rungId txt s = withE (findRung g rungId) (\<lambda>r.
     let t = trim txt in
     if same_text (rtitle r) t then ok (g, s)
     else ok (set_rung (rid r) (r\<lparr>rtitle := stored_text t\<rparr>) (cloneGraph g), s)) s"

definition setRungComment :: "ld_graph \<Rightarrow> string \<Rightarrow> string \<Rightarrow> idgen \<Rightarrow> ld_result" where
  "setRungComment g rungId txt s = withE (findRung g rungId) (\<lambda>r.
     let t = trim txt in
     if same_text (rcomment r) t then ok (g, s)
     else ok (set_rung (rid r) (r\<lparr>rcomment := stored_text t\<rparr>) (cloneGraph g), s)) s"

definition setElementComment :: "ld_graph \<Rightarrow> string \<Rightarrow> string \<Rightarrow> idgen \<Rightarrow> ld_result" where
  "setElementComment g i txt s =
     (let err = throw (''Not a contact or coil: '' @ i) s; t = trim txt;
          upd = (\<lambda>c. if same_text c t then ok (g, s)
             else ok (set_node i (update_data (set_comment (stored_text t))) (cloneGraph g), s))
      in case map_option ndata (findNode g i) of
           Some (Contact ct v c) \<Rightarrow> upd c
         | Some (Coil ct v c) \<Rightarrow> upd c
         | _ \<Rightarrow> err)"

definition rename_to :: "ld_graph \<Rightarrow> string \<Rightarrow> string \<Rightarrow> string \<Rightarrow> idgen \<Rightarrow> ld_result" where
  "rename_to g i current name s =
     (if name = [] then throw ''Variable name cannot be empty'' s
      else if \<exists>c \<in> set name. js_space c then throw ''Variable name cannot contain whitespace'' s
      else if name = current then ok (g, s)
      else ok (set_node i (update_data (set_variable name)) (cloneGraph g), s))"

definition renameVariable :: "ld_graph \<Rightarrow> string \<Rightarrow> string \<Rightarrow> idgen \<Rightarrow> ld_result" where
  "renameVariable g i txt s =
     (case map_option ndata (findNode g i) of
        Some (Contact t v c) \<Rightarrow> rename_to g i v (trim txt) s
      | Some (Coil t v c) \<Rightarrow> rename_to g i v (trim txt) s
      | _ \<Rightarrow> throw (''Not a contact or coil: '' @ i) s)"

subsection \<open>Rungs and rails\<close>

definition addRung :: "ld_graph \<Rightarrow> idgen \<Rightarrow> ld_result" where
  "addRung g s =
     (let g0 = cloneGraph g; k = length (rungs g0) + 1;
          (r, s1) = createRung k [] (if k = 1 then Some ''Main'' else None) s;
          g1 = g0\<lparr>rungs := rungs g0 @ [r]\<rparr>
      in if k = 1 then
           (let h = of_nat (length (rungs g1) + 1) * LD_GRID;
                (left, s2) = createPowerRail LeftRail (Some origin) (Some h) s1;
                (right, s3) = createPowerRail RightRail
                   (Some \<lparr>px = COIL_X_OFFSET + CONTACT_SIZE + RAIL_WIDTH, py = 0\<rparr>) (Some h) s2
            in ok (push_node right (push_node left g1), s3))
         else ok (g1, s1))"

definition renumber :: "rung list \<Rightarrow> rung list" where
  "renumber rs = map_index (\<lambda>k r. r\<lparr>rungNumber := k + 1\<rparr>) rs"

definition deleteRung :: "ld_graph \<Rightarrow> string \<Rightarrow> idgen \<Rightarrow> ld_result" where
  "deleteRung g rungId s =
     (case findIndex (\<lambda>r. rid r = rungId) (rungs g) of
        None \<Rightarrow> throw (''Rung not found: '' @ rungId) s
      | Some k \<Rightarrow>
        (if length (rungs g) \<le> 1 then throw ''Cannot delete the last rung'' s
         else
           (let els = elementIds (rungs g ! k); g0 = cloneGraph g
            in ok (g0\<lparr>nodes := filter (\<lambda>n. nid n \<notin> set els) (nodes g0),
                      edges := filter (\<lambda>e. sourceId e \<notin> set els \<and> targetId e \<notin> set els) (edges g0),
                      rungs := renumber (splice_remove k (rungs g0))\<rparr>, s))))"

definition moveRung :: "ld_graph \<Rightarrow> string \<Rightarrow> int \<Rightarrow> idgen \<Rightarrow> ld_result" where
  "moveRung g rungId newIndex s =
     (case findIndex (\<lambda>r. rid r = rungId) (rungs g) of
        None \<Rightarrow> throw (''Rung not found: '' @ rungId) s
      | Some k \<Rightarrow>
        (let to = clamp_index newIndex (length (rungs g) - 1) in
         if k = to then ok (g, s)
         else
           (let g0 = cloneGraph g
            in ok (g0\<lparr>rungs := renumber (splice_insert to [rungs g0 ! k] (splice_remove k (rungs g0)))\<rparr>, s))))"

definition addPowerRail :: "ld_graph \<Rightarrow> rail_side \<Rightarrow> idgen \<Rightarrow> ld_result" where
  "addPowerRail g side s =
     (if List.find (\<lambda>n. ndata n = PowerRail side) (nodes g) \<noteq> None then ok (g, s)
      else
        (let x = (if side = LeftRail then 0 else COIL_X_OFFSET + CONTACT_SIZE + RAIL_WIDTH);
             (rail, s1) = createPowerRail side (Some \<lparr>px = x, py = 0\<rparr>) None s
         in ok (push_node rail (cloneGraph g), s1)))"

subsection \<open>Parallel branches\<close>

definition openBranch :: "ld_graph \<Rightarrow> string \<Rightarrow> string \<Rightarrow> idgen \<Rightarrow> ld_result" where
  "openBranch g rungId a s = withE (findRung g rungId) (\<lambda>r.
     if \<not> (case findNode g a of None \<Rightarrow> False | Some n \<Rightarrow> is_contact (ndata n))
     then throw ''Branch anchor must be a contact'' s
     else if a \<notin> set (elementIds r) then throw ''Anchor is not on this rung'' s
     else if \<exists>b \<in> set (rung_branches r). anchorId b = a
     then throw ''A branch already exists at this contact'' s
     else
       (let x = (case map_of (layoutRung r g) a of Some p \<Rightarrow> px p | None \<Rightarrow> 40);
            (b, s1) = createBranch (rid r) a x s
        in ok (set_rung (rid r) (r\<lparr>branches := Some (rung_branches r @ [b])\<rparr>) (cloneGraph g), s1))) s"

definition addBranchContact :: "ld_graph \<Rightarrow> string \<Rightarrow> contact_type option \<Rightarrow> idgen \<Rightarrow> ld_result" where
  "addBranchContact g branchId ct s = withE (findBranch g branchId) (\<lambda>(r0, b).
     withE (findRung g (brungId b)) (\<lambda>r.
       let x = (case map_of (layoutRung r g) (anchorId b) of Some p \<Rightarrow> px p | None \<Rightarrow> bx b);
           (contact, s1) = createContact (opt_or ct NO)
              (''IN'' @ nat_to_dec (count_nodes is_contact g))
              (Some \<lparr>px = x, py = BRANCH_FIRST_Y + of_nat (length (members b)) * LD_GRID\<rparr>) s;
           g1 = push_node contact (cloneGraph g);
           bs = map (\<lambda>c. if bid c = bid b then c\<lparr>members := members c @ [nid contact]\<rparr> else c)
                  (rung_branches r);
           r1 = r\<lparr>branches := Some bs\<rparr>;
           g2 = set_rung (rid r) r1 g1
       in ok (rewireRungBranches r1 (g2, s1))) s) s"

definition closeBranch :: "ld_graph \<Rightarrow> string \<Rightarrow> idgen \<Rightarrow> ld_result" where
  "closeBranch g branchId s = withE (findBranch g branchId) (\<lambda>(r, b).
     if members b = [] then throw ''Cannot close an empty branch - add at least one contact'' s
     else ok (g, s)) s"

definition deleteBranch :: "ld_graph \<Rightarrow> string \<Rightarrow> idgen \<Rightarrow> ld_result" where
  "deleteBranch g branchId s = withE (findBranch g branchId) (\<lambda>(r, b).
     let ms = members b; g0 = cloneGraph g;
         g1 = g0\<lparr>nodes := filter (\<lambda>n. nid n \<notin> set ms) (nodes g0),
                 edges := filter (\<lambda>e. sourceId e \<notin> set ms \<and> targetId e \<notin> set ms) (edges g0)\<rparr>;
         r1 = r\<lparr>branches := Some (filter (\<lambda>c. bid c \<noteq> bid b) (rung_branches r))\<rparr>;
         g2 = set_rung (rid r) r1 g1;
         st3 = rewireRungBranches r1 (g2, s);
         succ = seriesSuccessor r1 (anchorId b)
     in ok (if truthy_id succ \<and>
               \<not> (\<exists>e \<in> set (edges (fst st3)). sourceId e = anchorId b \<and> Some (targetId e) = succ)
            then push_wire (anchorId b) (the succ) None None st3 else st3)) s"

subsection \<open>Paste and replace\<close>

definition paste_copy :: "ld_node \<Rightarrow> idgen \<Rightarrow> ld_node \<times> idgen" where
  "paste_copy src s =
     (let (i, s1) = generateId ''paste'' s in
      case ndata src of
        Contact t v c \<Rightarrow> (let (n, s2) = createContact t v None s1 in (n\<lparr>nid := i\<rparr>, s2))
      | Coil t v c \<Rightarrow> (let (n, s2) = createCoil t v None s1 in (n\<lparr>nid := i\<rparr>, s2))
      | FbBox f ins outs \<Rightarrow>
          (let (n, s2) = createFb f ins outs None s1 in (n\<lparr>nid := i, ndim := ndim src\<rparr>, s2))
      | _ \<Rightarrow> (src, s1))"

fun paste_copies :: "ld_node list \<Rightarrow> idgen \<Rightarrow> ld_node list \<times> idgen" where
  "paste_copies [] s = ([], s)"
| "paste_copies (n # ns) s =
     (let (n', s1) = paste_copy n s; (ns', s2) = paste_copies ns s1 in (n' # ns', s2))"

definition paste_sources :: "ld_graph \<Rightarrow> string list \<Rightarrow> ld_node list" where
  "paste_sources g ids = filter (\<lambda>n. \<not> is_powerrail (ndata n)) (List.map_filter (findNode g) ids)"

definition pasteElements :: "ld_graph \<Rightarrow> string list \<Rightarrow> string \<Rightarrow> int \<Rightarrow> idgen \<Rightarrow> ld_result" where
  "pasteElements g ids rungId insertIndex s = withE (findRung g rungId) (\<lambda>r.
     let sources = paste_sources g ids in
     if sources = [] then throw ''Nothing to paste'' s
     else
       (let g0 = cloneGraph g;
            (pasted, s1) = paste_copies sources s;
            g1 = g0\<lparr>nodes := nodes g0 @ pasted\<rparr>;
            k = clamp_index insertIndex (length (elementIds r));
            r1 = r\<lparr>elementIds := splice_insert k (map nid pasted) (elementIds r)\<rparr>;
            g2 = set_rung (rid r) r1 g1
        in ok (rewireRungSeries r1 (g2, s1)))) s"

definition replaceElement :: "ld_graph \<Rightarrow> string \<Rightarrow> ld_node \<Rightarrow> idgen \<Rightarrow> ld_result" where
  "replaceElement g i replacement s =
     (case findNode g i of
        None \<Rightarrow> throw (''Element not found: '' @ i) s
      | Some target \<Rightarrow>
        (if node_type replacement \<noteq> node_type target
         then throw (''Replacement type mismatch: '' @ node_type replacement @ '' != ''
                     @ node_type target) s
         else ok (set_node i
                (\<lambda>_. replacement\<lparr>nid := i, npos := npos target\<rparr>) (cloneGraph g), s)))"

end
