(* ===== verification/LdInvariant.thy ===== *)
theory LdInvariant
  imports LdHandler
begin

text \<open>
  The well-formedness invariant of ladder graphs and its preservation by every operation of
  the handler. \<open>ld_inv\<close> relates a graph to the id generator: ids are unique, every reference
  (edge end, series element, branch anchor and member) resolves, no element is listed twice,
  branches hang off elements of their own rung, and the generator's future ids are unused.
\<close>

subsection \<open>The invariant\<close>

definition branch_ids :: "ld_graph \<Rightarrow> string list" where
  "branch_ids g = concat (map (\<lambda>r. map bid (rung_branches r)) (rungs g))"

definition all_ids :: "ld_graph \<Rightarrow> string set" where
  "all_ids g = set (node_ids g) \<union> eid ` set (edges g) \<union> rid ` set (rungs g) \<union> set (branch_ids g)"

definition anchors_ok :: "rung \<Rightarrow> bool" where
  "anchors_ok r \<longleftrightarrow>
     (\<forall>b \<in> set (rung_branches r). anchorId b \<in> set (elementIds r) \<and> brungId b = rid r)"

definition topo_wf :: "ld_graph \<Rightarrow> bool" where
  "topo_wf g \<longleftrightarrow> distinct (node_ids g) \<and> distinct (map rid (rungs g))
     \<and> distinct (rung_node_ids g) \<and> set (rung_node_ids g) \<subseteq> set (node_ids g)
     \<and> distinct (branch_ids g) \<and> (\<forall>r \<in> set (rungs g). anchors_ok r)"

definition edges_wf :: "ld_graph \<Rightarrow> bool" where
  "edges_wf g \<longleftrightarrow> edges_resolve g \<and> distinct (map eid (edges g))"

definition ld_inv :: "wiring \<Rightarrow> bool" where
  "ld_inv st \<longleftrightarrow> topo_wf (fst st) \<and> edges_wf (fst st) \<and> fresh_for (snd st) (all_ids (fst st))"

text \<open>Every node that is not a power rail is listed by a rung.\<close>

definition owned :: "ld_graph \<Rightarrow> bool" where
  "owned g \<longleftrightarrow> (\<forall>n \<in> set (nodes g). is_powerrail (ndata n) \<or> nid n \<in> set (rung_node_ids g))"

lemma ld_invD:
  assumes "ld_inv (g, s)"
  shows "distinct (node_ids g)" "distinct (map rid (rungs g))" "distinct (rung_node_ids g)"
    "set (rung_node_ids g) \<subseteq> set (node_ids g)" "distinct (branch_ids g)"
    "r \<in> set (rungs g) \<Longrightarrow> anchors_ok r" "edges_resolve g" "distinct (map eid (edges g))"
    "fresh_for s (all_ids g)"
  using assms by (auto simp: ld_inv_def topo_wf_def edges_wf_def)

lemma node_ids_edges [simp]: "node_ids (g\<lparr>edges := es\<rparr>) = node_ids g"
  "rung_node_ids (g\<lparr>edges := es\<rparr>) = rung_node_ids g"
  "branch_ids (g\<lparr>edges := es\<rparr>) = branch_ids g"
  by (simp_all add: node_ids_def rung_node_ids_def branch_ids_def)

lemma topo_wf_edges [simp]: "topo_wf (g\<lparr>edges := es\<rparr>) = topo_wf g"
  by (simp add: topo_wf_def)

lemma owned_edges [simp]: "owned (g\<lparr>edges := es\<rparr>) = owned g"
  by (simp add: owned_def)

lemma rung_refs_in: "r \<in> set (rungs g) \<Longrightarrow> set (rung_refs r) \<subseteq> set (rung_node_ids g)"
  by (auto simp: rung_node_ids_def)

lemma elementIds_in_refs: "set (elementIds r) \<subseteq> set (rung_refs r)"
  by (auto simp: rung_refs_def)

lemma members_in_refs: "b \<in> set (rung_branches r) \<Longrightarrow> set (members b) \<subseteq> set (rung_refs r)"
  by (auto simp: rung_refs_def)

lemma rung_refs_distinct: "r \<in> set (rungs g) \<Longrightarrow> distinct (rung_node_ids g) \<Longrightarrow> distinct (rung_refs r)"
  by (auto simp: rung_node_ids_def distinct_concat_iff)

subsection \<open>Rewiring only replaces edges\<close>

text \<open>
  \<open>rewires X st st'\<close>: from \<open>st\<close> to \<open>st'\<close> only edges and node positions change, every edge is
  an old one or joins two ids of \<open>X\<close>, and edge ids stay unique and the generator ahead of them.
\<close>

definition node_key :: "ld_node \<Rightarrow> string \<times> node_data" where
  "node_key n = (nid n, ndata n)"

definition rewires :: "string set \<Rightarrow> wiring \<Rightarrow> wiring \<Rightarrow> bool" where
  "rewires X st st' \<longleftrightarrow> (\<exists>ns es. fst st' = (fst st)\<lparr>nodes := ns, edges := es\<rparr>
     \<and> map node_key ns = map node_key (nodes (fst st))
     \<and> (\<forall>e \<in> set es. e \<in> set (edges (fst st)) \<or> (sourceId e \<in> X \<and> targetId e \<in> X))
     \<and> (\<forall>Y. fresh_for (snd st) (Y \<union> eid ` set (edges (fst st)))
          \<longrightarrow> distinct (map eid (edges (fst st)))
          \<longrightarrow> distinct (map eid es) \<and> fresh_for (snd st') (Y \<union> eid ` set es)))"

lemma rewiresI:
  assumes "fst st' = (fst st)\<lparr>nodes := ns, edges := es\<rparr>"
    and "map node_key ns = map node_key (nodes (fst st))"
    and "\<And>e. e \<in> set es \<Longrightarrow> e \<in> set (edges (fst st)) \<or> (sourceId e \<in> X \<and> targetId e \<in> X)"
    and "\<And>Y. fresh_for (snd st) (Y \<union> eid ` set (edges (fst st))) \<Longrightarrow>
       distinct (map eid (edges (fst st))) \<Longrightarrow>
       distinct (map eid es) \<and> fresh_for (snd st') (Y \<union> eid ` set es)"
  shows "rewires X st st'"
  unfolding rewires_def using assms by blast

lemma rewiresE:
  assumes "rewires X st st'"
  obtains ns es where "fst st' = (fst st)\<lparr>nodes := ns, edges := es\<rparr>"
    and "map node_key ns = map node_key (nodes (fst st))"
    and "\<forall>e \<in> set es. e \<in> set (edges (fst st)) \<or> (sourceId e \<in> X \<and> targetId e \<in> X)"
    and "\<forall>Y. fresh_for (snd st) (Y \<union> eid ` set (edges (fst st)))
          \<longrightarrow> distinct (map eid (edges (fst st)))
          \<longrightarrow> distinct (map eid es) \<and> fresh_for (snd st') (Y \<union> eid ` set es)"
  using assms unfolding rewires_def by (elim exE conjE) (rule that)

lemma rewires_refl [simp, intro]: "rewires X st st"
  by (rule rewiresI [where ns = "nodes (fst st)" and es = "edges (fst st)"]) auto

lemma rewires_trans [trans]:
  assumes "rewires X st st'" "rewires X st' st''"
  shows "rewires X st st''"
proof -
  from assms(1) obtain ns es where 1: "fst st' = (fst st)\<lparr>nodes := ns, edges := es\<rparr>"
    "map node_key ns = map node_key (nodes (fst st))"
    "\<forall>e \<in> set es. e \<in> set (edges (fst st)) \<or> (sourceId e \<in> X \<and> targetId e \<in> X)"
    "\<forall>Y. fresh_for (snd st) (Y \<union> eid ` set (edges (fst st)))
          \<longrightarrow> distinct (map eid (edges (fst st)))
          \<longrightarrow> distinct (map eid es) \<and> fresh_for (snd st') (Y \<union> eid ` set es)"
    by (rule rewiresE)
  then have same: "edges (fst st') = es" "nodes (fst st') = ns" by simp_all
  from assms(2) obtain ns' es' where 2: "fst st'' = (fst st')\<lparr>nodes := ns', edges := es'\<rparr>"
    "map node_key ns' = map node_key (nodes (fst st'))"
    "\<forall>e \<in> set es'. e \<in> set (edges (fst st')) \<or> (sourceId e \<in> X \<and> targetId e \<in> X)"
    "\<forall>Y. fresh_for (snd st') (Y \<union> eid ` set (edges (fst st')))
          \<longrightarrow> distinct (map eid (edges (fst st')))
          \<longrightarrow> distinct (map eid es') \<and> fresh_for (snd st'') (Y \<union> eid ` set es')"
    by (rule rewiresE)
  note 2 = 2 [unfolded same]
  show ?thesis
  proof (rule rewiresI [where ns = ns' and es = es'])
    show "fst st'' = (fst st)\<lparr>nodes := ns', edges := es'\<rparr>" using 1(1) 2(1) by simp
    show "map node_key ns' = map node_key (nodes (fst st))" using 1(2) 2(2) by simp
  qed (use 1(3,4) 2(3,4) in blast)+
qed

lemma rewires_mono: "rewires X st st' \<Longrightarrow> X \<subseteq> Y \<Longrightarrow> rewires Y st st'"
  unfolding rewires_def by blast

lemma rewires_filter [intro]: "rewires X st (filter_edges p st)"
  by (rule rewiresI [where ns = "nodes (fst st)" and es = "filter p (edges (fst st))"])
    (auto simp: filter_edges_def distinct_map_filter intro: fresh_for_subset)

lemma rewires_push:
  assumes "a \<in> X" "b \<in> X"
  shows "rewires X st (push_wire a b sp tp st)"
proof -
  obtain i s' where gen: "generateId ''wire'' (snd st) = (i, s')" by (cases "generateId ''wire'' (snd st)")
  let ?w = "\<lparr>eid = i, edata = Wire None sp tp, sourceId = a, targetId = b, ecss = None\<rparr>"
  have push: "push_wire a b sp tp st = ((fst st)\<lparr>edges := edges (fst st) @ [?w]\<rparr>, s')"
    by (simp add: push_wire_def createWire_def gen Let_def)
  have "distinct (map eid (edges (fst st) @ [?w])) \<and> fresh_for s' (Y \<union> eid ` set (edges (fst st) @ [?w]))"
    if Y: "fresh_for (snd st) (Y \<union> eid ` set (edges (fst st)))"
      and d: "distinct (map eid (edges (fst st)))" for Y
  proof -
    have "i \<notin> Y \<union> eid ` set (edges (fst st))"
      and "fresh_for s' (insert i (Y \<union> eid ` set (edges (fst st))))"
      using fresh_for_generate [OF gen _ Y] by auto
    with d show ?thesis by (auto intro: fresh_for_subset)
  qed
  with assms show ?thesis
    unfolding push
    by (intro rewiresI [where ns = "nodes (fst st)" and es = "edges (fst st) @ [?w]"]) auto
qed

lemma node_key_same:
  assumes "map node_key ns = map node_key ns'"
  shows "map nid ns = map nid ns'"
    and "nid ` {n \<in> set ns. is_powerrail (ndata n)} = nid ` {n \<in> set ns'. is_powerrail (ndata n)}"
proof -
  show "map nid ns = map nid ns'"
    using arg_cong [OF assms, of "map fst"] by (simp add: node_key_def comp_def)
  have keys: "node_key ` set ns = node_key ` set ns'"
    using arg_cong [OF assms, of set] by simp
  have "nid ` {n \<in> set xs. is_powerrail (ndata n)}
      = fst ` {k \<in> node_key ` set xs. is_powerrail (snd k)}" for xs
    by (force simp: node_key_def image_iff)
  then show "nid ` {n \<in> set ns. is_powerrail (ndata n)} = nid ` {n \<in> set ns'. is_powerrail (ndata n)}"
    by (simp only: keys)
qed

text \<open>A rewiring among existing nodes keeps the invariant.\<close>

lemma rewires_same:
  assumes "rewires X st st'"
  shows "node_ids (fst st') = node_ids (fst st)" "rungs (fst st') = rungs (fst st)"
    "gid (fst st') = gid (fst st)"
    "nid ` {n \<in> set (nodes (fst st')). is_powerrail (ndata n)}
      = nid ` {n \<in> set (nodes (fst st)). is_powerrail (ndata n)}"
proof -
  from assms obtain ns es where 1: "fst st' = (fst st)\<lparr>nodes := ns, edges := es\<rparr>"
    "map node_key ns = map node_key (nodes (fst st))"
    by (rule rewiresE)
  show "node_ids (fst st') = node_ids (fst st)" "rungs (fst st') = rungs (fst st)"
    "gid (fst st') = gid (fst st)"
    "nid ` {n \<in> set (nodes (fst st')). is_powerrail (ndata n)}
      = nid ` {n \<in> set (nodes (fst st)). is_powerrail (ndata n)}"
    using 1(1) node_key_same [OF 1(2)] by (simp_all add: node_ids_def)
qed

lemma rewires_inv:
  assumes "rewires X st st'" "ld_inv st" "X \<subseteq> set (node_ids (fst st))"
  shows "ld_inv st'"
proof -
  from assms(1) obtain ns es where es: "fst st' = (fst st)\<lparr>nodes := ns, edges := es\<rparr>"
    "map node_key ns = map node_key (nodes (fst st))"
    "\<forall>e \<in> set es. e \<in> set (edges (fst st)) \<or> (sourceId e \<in> X \<and> targetId e \<in> X)"
    "\<forall>Y. fresh_for (snd st) (Y \<union> eid ` set (edges (fst st)))
          \<longrightarrow> distinct (map eid (edges (fst st)))
          \<longrightarrow> distinct (map eid es) \<and> fresh_for (snd st') (Y \<union> eid ` set es)"
    by (rule rewiresE)
  note ids = rewires_same(1,2) [OF assms(1)]
  then have refs: "rung_node_ids (fst st') = rung_node_ids (fst st)"
      "branch_ids (fst st') = branch_ids (fst st)"
    by (simp_all add: rung_node_ids_def branch_ids_def)
  let ?Y = "set (node_ids (fst st)) \<union> rid ` set (rungs (fst st)) \<union> set (branch_ids (fst st))"
  have "fresh_for (snd st) (?Y \<union> eid ` set (edges (fst st)))"
    using assms(2) by (auto simp: ld_inv_def all_ids_def)
  with spec [OF es(4), of ?Y] assms(2) have new: "distinct (map eid es)" "fresh_for (snd st') (?Y \<union> eid ` set es)"
    by (auto simp: ld_inv_def edges_wf_def)
  have edges': "edges (fst st') = es" using es(1) by simp
  have "topo_wf (fst st')" using assms(2) by (simp add: ld_inv_def topo_wf_def ids refs)
  moreover have "edges_wf (fst st')"
    using assms(2,3) es(3) new(1)
    by (auto simp: ld_inv_def edges_wf_def edges_resolve_def ids edges' subset_iff)
  moreover have "fresh_for (snd st') (all_ids (fst st'))"
    using new(2) by (simp add: all_ids_def ids refs edges')
  ultimately show ?thesis by (simp add: ld_inv_def)
qed

lemma owned_alt: "owned g \<longleftrightarrow>
    set (node_ids g) \<subseteq> nid ` {n \<in> set (nodes g). is_powerrail (ndata n)} \<union> set (rung_node_ids g)"
  if "distinct (node_ids g)"
  using that unfolding owned_def node_ids_def distinct_map by (auto dest: inj_onD)

lemma rewires_owned:
  assumes "rewires X st st'" "distinct (node_ids (fst st))"
  shows "owned (fst st') = owned (fst st)"
proof -
  note same = rewires_same [OF assms(1)]
  have "rung_node_ids (fst st') = rung_node_ids (fst st)" by (simp add: rung_node_ids_def same)
  with same assms(2) show ?thesis by (simp add: owned_alt)
qed

lemma rewires_rungs:
  assumes "rewires X (g, s) (g', s')"
  shows "rewires X (g\<lparr>rungs := rs\<rparr>, s) (g'\<lparr>rungs := rs\<rparr>, s')"
proof -
  from assms obtain ns es where 1: "g' = g\<lparr>nodes := ns, edges := es\<rparr>"
    "map node_key ns = map node_key (nodes g)"
    "\<forall>e \<in> set es. e \<in> set (edges g) \<or> (sourceId e \<in> X \<and> targetId e \<in> X)"
    "\<forall>Y. fresh_for s (Y \<union> eid ` set (edges g)) \<longrightarrow> distinct (map eid (edges g))
          \<longrightarrow> distinct (map eid es) \<and> fresh_for s' (Y \<union> eid ` set es)"
    by (elim rewiresE) (simp only: fst_conv snd_conv)
  show ?thesis
    by (rule rewiresI [where ns = ns and es = es]) (use 1 in \<open>simp_all, blast?\<close>)
qed

text \<open>The ids a rung's wires can touch: its elements and members and the two rails.\<close>

definition rail_ids :: "ld_graph \<Rightarrow> string set" where
  "rail_ids g = nid ` {n \<in> set (nodes g). is_powerrail (ndata n)}"

definition wire_ends :: "ld_graph \<Rightarrow> rung \<Rightarrow> string set" where
  "wire_ends g r = set (rung_refs r) \<union> rail_ids g"

lemma rail_ids_edges [simp]: "rail_ids (g\<lparr>edges := es\<rparr>) = rail_ids g"
  "wire_ends (g\<lparr>edges := es\<rparr>) r = wire_ends g r"
  by (simp_all add: rail_ids_def wire_ends_def)

lemma rewires_ends: "rewires X st st' \<Longrightarrow> rail_ids (fst st') = rail_ids (fst st)"
  "rewires X st st' \<Longrightarrow> wire_ends (fst st') r = wire_ends (fst st) r"
  using rewires_same(4) [of X st st'] by (simp_all add: rail_ids_def wire_ends_def)

lemma rewires_foldl:
  "(\<And>b st. b \<in> set bs \<Longrightarrow> rail_ids (fst st) = R \<Longrightarrow> rewires X st (f st b)) \<Longrightarrow>
     rail_ids (fst st) = R \<Longrightarrow> rewires X st (foldl f st bs)"
proof (induction bs arbitrary: st)
  case (Cons b bs)
  have one: "rewires X st (f st b)" using Cons.prems by simp
  then have "rail_ids (fst (f st b)) = R" using Cons.prems(2) rewires_ends(1) by simp
  then have "rewires X (f st b) (foldl f (f st b) bs)"
    using Cons.prems(1) by (intro Cons.IH) auto
  with one show ?case by (simp add: rewires_trans)
qed simp

lemma rail_ids_in_nodes: "rail_ids g \<subseteq> set (node_ids g)"
  by (auto simp: rail_ids_def node_ids_def)

lemma findRail_in:
  "findRightRailOnRung g r = Some n \<Longrightarrow> nid n \<in> rail_ids g"
  "findLeftRailOnRung g r = Some n \<Longrightarrow> nid n \<in> rail_ids g"
  by (auto simp: findRightRailOnRung_def findLeftRailOnRung_def rail_ids_def dest!: find_SomeD)

lemma findNode_SomeD: "findNode g i = Some n \<Longrightarrow> n \<in> set (nodes g) \<and> nid n = i"
  by (auto simp: findNode_def dest: find_SomeD)

lemma findNode_None: "findNode g i = None \<longleftrightarrow> i \<notin> set (node_ids g)"
  by (auto simp: findNode_def node_ids_def find_NoneD)

lemma findNode_in: "findNode g i \<noteq> None \<Longrightarrow> i \<in> set (node_ids g)"
  by (simp add: findNode_None)

lemma first_coil_in: "first_coil g is = Some n \<Longrightarrow> nid n \<in> set is \<and> is_coil (ndata n)"
  by (induction g "is" rule: first_coil.induct) (auto split: option.splits if_splits dest: findNode_SomeD)

lemma findCoil_in: "findCoilOnRung g r = Some n \<Longrightarrow> nid n \<in> set (elementIds r)"
  by (auto simp: findCoilOnRung_def dest: first_coil_in)

lemma seriesSuccessor_in: "seriesSuccessor r a = Some t \<Longrightarrow> t \<in> set (elementIds r)"
  by (auto simp: seriesSuccessor_def split: option.splits if_splits)

lemma rewires_bus: "set ms \<subseteq> X \<Longrightarrow> rewires X st (bus_wires ms st)"
proof (induction ms st rule: bus_wires.induct)
  case (1 m m' ms st)
  then show ?case by (auto intro: rewires_trans [OF rewires_push])
qed auto

lemma wire_branch_rewires:
  assumes "set (members b) \<union> {anchorId b} \<subseteq> X" "set (elementIds r) \<subseteq> X"
    and "rail_ids (fst st) \<subseteq> X"
  shows "rewires X st (wire_branch r b st)"
proof -
  have succ: "t \<in> X" if "seriesSuccessor r (anchorId b) = Some t" for t
    using that assms(2) seriesSuccessor_in by blast
  have rail: "nid n \<in> X" if "findRightRailOnRung (fst st) r = Some n" for n
    using that assms(3) findRail_in by blast
  show ?thesis
  proof (cases "members b")
    case Nil
    then show ?thesis
      using assms(1) succ by (auto simp: wire_branch_def Let_def truthy_id_def intro!: rewires_push split: option.splits)
  next
    case (Cons m ms)
    let ?st1 = "push_wire (anchorId b) m None None st"
    have 1: "rewires X st ?st1" using assms(1) Cons by (intro rewires_push) auto
    have 2: "rewires X ?st1 (bus_wires (members b) ?st1)" using assms(1) by (intro rewires_bus) auto
    have last: "last (members b) \<in> X" using assms(1) Cons last_in_set [of "members b"] by auto
    have "rewires X (bus_wires (members b) ?st1) (wire_branch r b st)"
      using Cons last succ rail
      by (auto simp: wire_branch_def Let_def truthy_id_def intro!: rewires_push split: option.splits)
    with 1 2 show ?thesis by (blast intro: rewires_trans)
  qed
qed

lemma rewireRungBranches_rewires:
  assumes "anchors_ok r" "wire_ends (fst st) r \<subseteq> X"
  shows "rewires X st (rewireRungBranches r st)"
proof -
  have "rewires X (filter_edges p st) (foldl (\<lambda>st b. wire_branch r b st) (filter_edges p st) (rung_branches r))" for p
  proof (rule rewires_foldl [where R = "rail_ids (fst st)"])
    fix b and st' :: wiring
    assume "b \<in> set (rung_branches r)" "rail_ids (fst st') = rail_ids (fst st)"
    with assms show "rewires X st' (wire_branch r b st')"
      using members_in_refs [of b r] elementIds_in_refs [of r]
      by (intro wire_branch_rewires) (auto simp: anchors_ok_def wire_ends_def)
  qed (simp add: filter_edges_def)
  then show ?thesis
    unfolding rewireRungBranches_def by (auto intro: rewires_trans)
qed

lemma series_chain_rewires:
  "set is \<subseteq> X \<Longrightarrow> (\<And>p. prev = Some p \<Longrightarrow> p \<in> X) \<Longrightarrow> rewires X st (series_chain prev is st)"
proof (induction "is" arbitrary: prev st)
  case (Cons i "is")
  let ?st = "if truthy_id prev \<and> i \<noteq> the prev then push_wire (the prev) i None None st else st"
  have "rewires X st ?st"
    using Cons.prems by (auto simp: truthy_id_def intro!: rewires_push split: option.splits)
  moreover have "rewires X ?st (series_chain (Some i) is ?st)"
    using Cons.prems by (intro Cons.IH) auto
  ultimately show ?case unfolding series_chain.simps by (rule rewires_trans)
qed auto

lemma rewireRungSeries_rewires:
  assumes "anchors_ok r" "wire_ends (fst st) r \<subseteq> X"
  shows "rewires X st (rewireRungSeries r st)"
proof -
  let ?els = "elementIds r"
  define st1 where "st1 = filter_edges (\<lambda>e. sourceId e \<notin> set ?els \<and> targetId e \<notin> set ?els) st"
  define st2 where "st2 = series_chain (map_option nid (findLeftRailOnRung (fst st) r)) ?els st1"
  have els: "set ?els \<subseteq> X" using assms(2) elementIds_in_refs [of r] by (auto simp: wire_ends_def)
  have 1: "rewires X st st1" unfolding st1_def by auto
  have 2: "rewires X st1 st2" unfolding st2_def
    by (rule series_chain_rewires) (use els assms(2) findRail_in(2) in \<open>auto simp: wire_ends_def\<close>)
  note 12 = rewires_trans [OF 1 2]
  show ?thesis
  proof (cases "?els = [] \<or> last ?els = []")
    case True
    with 12 show ?thesis
      unfolding rewireRungSeries_def Let_def st1_def [symmetric] st2_def [symmetric] by simp
  next
    case False
    define target where "target = (case findCoilOnRung (fst st) r of Some c \<Rightarrow> Some (nid c)
                  | None \<Rightarrow> map_option nid (findRightRailOnRung (fst st) r))"
    define st3 where "st3 = (if truthy_id target \<and> the target \<noteq> last ?els
                       then push_wire (last ?els) (the target) None None st2 else st2)"
    have tin: "t \<in> X" if "target = Some t" for t
      using that els assms(2) findCoil_in [of "fst st" r] findRail_in(1) [of "fst st" r]
      by (auto simp: target_def wire_ends_def split: option.splits)
    have "last ?els \<in> X" using False els by (meson last_in_set subsetD)
    then have 3: "rewires X st2 st3" unfolding st3_def
      using tin by (auto simp: truthy_id_def intro!: rewires_push split: option.splits)
    from rewires_ends(2) [OF rewires_trans [OF 12 3]] assms(2)
    have "wire_ends (fst st3) r \<subseteq> X" by simp
    with assms(1) have "rewires X st3 (rewireRungBranches r st3)"
      by (rule rewireRungBranches_rewires)
    with 12 3 have "rewires X st (rewireRungBranches r st3)" by (blast intro: rewires_trans)
    with False show ?thesis
      unfolding rewireRungSeries_def Let_def st1_def [symmetric] st2_def [symmetric]
        target_def [symmetric] st3_def [symmetric] by simp
  qed
qed

lemma wire_ends_ok:
  "ld_inv st \<Longrightarrow> r \<in> set (rungs (fst st)) \<Longrightarrow> wire_ends (fst st) r \<subseteq> set (node_ids (fst st))"
  using rail_ids_in_nodes [of "fst st"] rung_refs_in [of r "fst st"]
  by (auto simp: wire_ends_def ld_inv_def topo_wf_def)

lemma anchors_okD: "ld_inv st \<Longrightarrow> r \<in> set (rungs (fst st)) \<Longrightarrow> anchors_ok r"
  by (auto simp: ld_inv_def topo_wf_def)

lemma rewireRungBranches_inv:
  "ld_inv st \<Longrightarrow> r \<in> set (rungs (fst st)) \<Longrightarrow> ld_inv (rewireRungBranches r st)"
  by (meson anchors_okD rewireRungBranches_rewires rewires_inv subset_refl wire_ends_ok)

lemma rewireRungSeries_inv:
  "ld_inv st \<Longrightarrow> r \<in> set (rungs (fst st)) \<Longrightarrow> ld_inv (rewireRungSeries r st)"
  by (meson anchors_okD rewireRungSeries_rewires rewires_inv subset_refl wire_ends_ok)

lemma push_wire_inv:
  "ld_inv st \<Longrightarrow> a \<in> set (node_ids (fst st)) \<Longrightarrow> b \<in> set (node_ids (fst st)) \<Longrightarrow>
     ld_inv (push_wire a b sp tp st)"
  by (meson rewires_inv rewires_push subset_refl)

lemma filter_edges_inv: "ld_inv st \<Longrightarrow> ld_inv (filter_edges p st)"
  by (meson empty_subsetI rewires_filter rewires_inv)

lemma push_wire_same [simp]:
  "nodes (fst (push_wire a b sp tp st)) = nodes (fst st)"
  "rungs (fst (push_wire a b sp tp st)) = rungs (fst st)"
  "node_ids (fst (push_wire a b sp tp st)) = node_ids (fst st)"
  by (simp_all add: push_wire_def Let_def split_def node_ids_def)

end
