(* ===== verification/LdOps.thy ===== *)
theory LdOps
  imports LdInvariant "HOL-Library.Multiset"
begin

text \<open>
  Every operation of the handler keeps the graph invariant, and all but one keep every
  element listed by some rung (\<open>owned\<close>). The first part collects what the update helpers
  do to the invariant; the second has one lemma per operation.
\<close>

lemma mset_splice_insert [simp]: "mset (splice_insert k ys xs) = mset ys + mset xs"
proof -
  have "mset xs = mset (take k xs) + mset (drop k xs)" by (metis append_take_drop_id mset_append)
  then show ?thesis by (simp add: splice_insert_def ac_simps)
qed

lemma mset_splice_remove: "k < length xs \<Longrightarrow> mset (splice_remove k xs) = mset xs - {#xs ! k#}"
proof -
  assume "k < length xs"
  then have "mset xs = mset (take k xs @ xs ! k # drop (Suc k) xs)" by (metis id_take_nth_drop)
  then show ?thesis by (simp add: splice_remove_def)
qed

subsection \<open>Updating one rung\<close>

lemma set_rung_at:
  assumes "distinct (map rid (rungs g))" "r \<in> set (rungs g)"
  obtains k where "k < length (rungs g)" "rungs g ! k = r"
    and "\<And>r'. set_rung (rid r) r' g = g\<lparr>rungs := (rungs g)[k := r']\<rparr>"
proof -
  obtain k where k: "findIndex (\<lambda>x. rid x = rid r) (rungs g) = Some k"
    using findIndex_Some_ex [of r "rungs g" "\<lambda>x. rid x = rid r"] assms(2) by auto
  then have k': "k < length (rungs g)" "rid (rungs g ! k) = rid r"
    by (auto dest: findIndex_SomeD)
  with assms have "rungs g ! k = r"
    by (metis distinct_map inj_onD nth_mem)
  with k k' that show thesis by (simp add: set_rung_def)
qed

lemma rung_node_ids_update:
  "k < length (rungs g) \<Longrightarrow>
     rung_node_ids (g\<lparr>rungs := (rungs g)[k := r']\<rparr>) = concat ((map rung_refs (rungs g))[k := rung_refs r'])"
  by (simp add: rung_node_ids_def map_update)

lemma branch_ids_update:
  "k < length (rungs g) \<Longrightarrow>
     branch_ids (g\<lparr>rungs := (rungs g)[k := r']\<rparr>)
       = concat ((map (\<lambda>r. map bid (rung_branches r)) (rungs g))[k := map bid (rung_branches r')])"
  by (simp add: branch_ids_def map_update)

lemma set_concat_update_superset:
  "i < length xss \<Longrightarrow> set (xss ! i) \<subseteq> set ys \<Longrightarrow> set (concat xss) \<union> set ys = set (concat (xss[i := ys]))"
proof -
  assume i: "i < length xss" and sub: "set (xss ! i) \<subseteq> set ys"
  define A where "A = concat (take i xss)"
  define B where "B = concat (drop (Suc i) xss)"
  have "concat (xss[i := ys]) = A @ ys @ B"
    using i by (simp add: upd_conv_take_nth_drop A_def B_def)
  moreover have "xss = take i xss @ xss ! i # drop (Suc i) xss" using i by (rule id_take_nth_drop)
  then have "concat xss = A @ xss ! i @ B"
    unfolding A_def B_def by (metis concat.simps(2) concat_append)
  ultimately show ?thesis using sub by auto
qed

text \<open>Replacing a rung by one with the same id whose new references are unused nodes.\<close>

lemma set_rung_inv:
  assumes inv: "ld_inv (g, s)" and r: "r \<in> set (rungs g)" and rid: "rid r' = rid r"
    and d: "distinct (rung_refs r')" and sub: "set (rung_refs r') \<subseteq> set (node_ids g)"
    and new: "set (rung_refs r') \<inter> set (rung_node_ids g) \<subseteq> set (rung_refs r)"
    and anch: "anchors_ok r'"
    and bd: "distinct (map bid (rung_branches r'))"
    and bnew: "bid ` set (rung_branches r') \<inter> set (branch_ids g) \<subseteq> bid ` set (rung_branches r)"
    and bfresh: "fresh_for s (bid ` set (rung_branches r'))"
  shows "ld_inv (set_rung (rid r) r' g, s)" "r' \<in> set (rungs (set_rung (rid r) r' g))"
proof -
  note I = ld_invD [OF inv]
  obtain k where k: "k < length (rungs g)" "rungs g ! k = r"
    and upd: "set_rung (rid r) r' g = g\<lparr>rungs := (rungs g)[k := r']\<rparr>"
    using set_rung_at [OF I(2) r] by metis
  let ?g = "g\<lparr>rungs := (rungs g)[k := r']\<rparr>"
  have rids: "map rid (rungs ?g) = map rid (rungs g)"
    using k rid by (simp add: distinct_map_list_update_same)
  have d1: "distinct (rung_node_ids ?g)"
    unfolding rung_node_ids_update [OF k(1)]
    by (rule distinct_concat_update) (use I k d new in \<open>simp_all add: rung_node_ids_def\<close>)
  have s1: "set (rung_node_ids ?g) \<subseteq> set (node_ids g)"
    unfolding rung_node_ids_update [OF k(1)]
    using set_concat_update_subset [of k "map rung_refs (rungs g)" "rung_refs r'"] I(4) sub k(1)
    by (auto simp: rung_node_ids_def)
  have d2: "distinct (branch_ids ?g)"
    unfolding branch_ids_update [OF k(1)]
    by (rule distinct_concat_update) (use I k bd bnew in \<open>simp_all add: branch_ids_def\<close>)
  have s2: "set (branch_ids ?g) \<subseteq> set (branch_ids g) \<union> bid ` set (rung_branches r')"
    unfolding branch_ids_update [OF k(1)]
    using set_concat_update_subset [of k "map (\<lambda>r. map bid (rung_branches r)) (rungs g)"
        "map bid (rung_branches r')"] k(1)
    by (auto simp: branch_ids_def)
  have a: "anchors_ok q" if "q \<in> set (rungs ?g)" for q
    using that I(6) anch set_list_update_subset [of "rungs g" k r'] by auto
  have nid: "node_ids ?g = node_ids g" by (simp add: node_ids_def)
  have rset: "rid ` set (rungs ?g) = rid ` set (rungs g)"
    using arg_cong [OF rids, of set] by simp
  have "fresh_for s (all_ids ?g)"
  proof (rule fresh_for_subset)
    show "fresh_for s (all_ids g \<union> bid ` set (rung_branches r'))" using I(9) bfresh by simp
    show "all_ids ?g \<subseteq> all_ids g \<union> bid ` set (rung_branches r')"
      using s2 rset by (auto simp: all_ids_def nid simp del: set_map)
  qed
  moreover have "edges_wf ?g" using I(7,8) by (simp add: edges_wf_def edges_resolve_def nid)
  moreover have "topo_wf ?g" using I d1 s1 d2 a rids unfolding topo_wf_def nid by metis
  ultimately show "ld_inv (set_rung (rid r) r' g, s)" by (simp add: ld_inv_def upd)
  show "r' \<in> set (rungs (set_rung (rid r) r' g))" using k by (simp add: upd set_update_memI)
qed

lemma set_rung_owned:
  assumes inv: "ld_inv (g, s)" and r: "r \<in> set (rungs g)"
    and sup: "set (rung_refs r) \<subseteq> set (rung_refs r')"
  shows "set (rung_node_ids (set_rung (rid r) r' g)) = set (rung_node_ids g) \<union> set (rung_refs r')"
proof -
  obtain k where k: "k < length (rungs g)" "rungs g ! k = r"
    and upd: "set_rung (rid r) r' g = g\<lparr>rungs := (rungs g)[k := r']\<rparr>"
    using set_rung_at [OF ld_invD(2) [OF inv] r] by metis
  show ?thesis
    unfolding upd rung_node_ids_update [OF k(1)]
    using set_concat_update_superset [of k "map rung_refs (rungs g)" "rung_refs r'"] k sup
    by (simp add: rung_node_ids_def)
qed

lemma set_rung_same [simp]:
  "node_ids (set_rung i r g) = node_ids g" "nodes (set_rung i r g) = nodes g"
  "edges (set_rung i r g) = edges g" "rail_ids (set_rung i r g) = rail_ids g"
  by (auto simp: set_rung_def node_ids_def rail_ids_def split: option.split)

subsection \<open>Adding nodes\<close>

lemma push_node_same [simp]:
  "rungs (push_node n g) = rungs g" "edges (push_node n g) = edges g"
  "node_ids (push_node n g) = node_ids g @ [nid n]"
  "rung_node_ids (push_node n g) = rung_node_ids g" "branch_ids (push_node n g) = branch_ids g"
  by (simp_all add: push_node_def node_ids_def rung_node_ids_def branch_ids_def)

lemma push_node_inv:
  assumes inv: "ld_inv (g, s)" and gen: "generateId p s = (i, s')" and p: "CHR ''-'' \<notin> set p"
    and n: "nid n = i"
  shows "ld_inv (push_node n g, s')" "i \<notin> all_ids g"
proof -
  note I = ld_invD [OF inv]
  note F = fresh_for_generate [OF gen p I(9)]
  show i: "i \<notin> all_ids g" by (rule F)
  then have "i \<notin> set (node_ids g)" by (simp add: all_ids_def)
  with I n have "topo_wf (push_node n g)" by (auto simp: topo_wf_def)
  moreover from I n have "edges_wf (push_node n g)"
    by (auto simp: edges_wf_def edges_resolve_def)
  moreover have "all_ids (push_node n g) = insert i (all_ids g)"
    using n by (auto simp: all_ids_def)
  ultimately show "ld_inv (push_node n g, s')" using F(2) by (simp add: ld_inv_def)
qed

lemma fresh_not_listed: "ld_inv (g, s) \<Longrightarrow> i \<notin> all_ids g \<Longrightarrow> i \<notin> set (rung_node_ids g)"
  by (auto simp: all_ids_def dest: ld_invD(4))

text \<open>Inserting unused nodes into the series of a rung.\<close>

lemma refs_insert:
  "set (rung_refs (r\<lparr>elementIds := splice_insert k new (elementIds r)\<rparr>)) = set new \<union> set (rung_refs r)"
  by (auto simp: rung_refs_def)

lemma refs_insert_distinct:
  "distinct (rung_refs r) \<Longrightarrow> distinct new \<Longrightarrow> set new \<inter> set (rung_refs r) = {} \<Longrightarrow>
     distinct (rung_refs (r\<lparr>elementIds := splice_insert k new (elementIds r)\<rparr>))"
  by (auto simp: rung_refs_def)

lemma insert_series_inv:
  assumes inv: "ld_inv (g, s)" and r: "r \<in> set (rungs g)"
    and new: "distinct new" "set new \<subseteq> set (node_ids g)" "set new \<inter> set (rung_node_ids g) = {}"
    and r': "r' = r\<lparr>elementIds := splice_insert k new (elementIds r)\<rparr>"
  shows "ld_inv (set_rung (rid r) r' g, s)" "r' \<in> set (rungs (set_rung (rid r) r' g))"
    and "set (rung_node_ids (set_rung (rid r) r' g)) = set new \<union> set (rung_node_ids g)"
proof -
  note I = ld_invD [OF inv]
  have refs: "set (rung_refs r') = set new \<union> set (rung_refs r)" by (simp add: r' refs_insert)
  have dist: "distinct (rung_refs r')" unfolding r'
    using rung_refs_distinct [OF r I(3)] new rung_refs_in [OF r] by (intro refs_insert_distinct) auto
  have sub: "set (rung_refs r') \<subseteq> set (node_ids g)"
    using refs new(2) rung_refs_in [OF r] I(4) by auto
  have anch: "anchors_ok r'" using I(6) [OF r] by (auto simp: anchors_ok_def r')
  have bids: "distinct (map bid (rung_branches r))" "fresh_for s (bid ` set (rung_branches r))"
    using I(5,9) r by (auto simp: branch_ids_def distinct_concat_iff all_ids_def intro: fresh_for_subset)
  show "ld_inv (set_rung (rid r) r' g, s)" "r' \<in> set (rungs (set_rung (rid r) r' g))"
    by (rule set_rung_inv [OF inv r]; use dist sub refs new(3) anch bids in \<open>auto simp: r'\<close>)+
  show "set (rung_node_ids (set_rung (rid r) r' g)) = set new \<union> set (rung_node_ids g)"
    using set_rung_owned [OF inv r, of r'] refs rung_refs_in [OF r] by auto
qed

text \<open>The common beginning of \<open>addContact\<close>, \<open>addCoil\<close> and \<open>addFb\<close>.\<close>

lemma new_element_inv:
  assumes inv: "ld_inv (g, s)" and r: "r \<in> set (rungs g)"
    and gen: "generateId p s = (nid n, s')" and p: "CHR ''-'' \<notin> set p"
    and r': "r' = r\<lparr>elementIds := splice_insert k [nid n] (elementIds r)\<rparr>"
    and g': "g' = set_rung (rid r) r' (push_node n g)"
  shows "ld_inv (g', s')" "r' \<in> set (rungs g')" "owned g \<Longrightarrow> owned g'"
    and "nid n \<in> set (node_ids g')"
proof -
  have P: "ld_inv (push_node n g, s')" "nid n \<notin> all_ids g" by (rule push_node_inv [OF inv gen p refl])+
  have new: "distinct [nid n]" "set [nid n] \<subseteq> set (node_ids (push_node n g))"
    "set [nid n] \<inter> set (rung_node_ids (push_node n g)) = {}"
    using fresh_not_listed [OF inv P(2)] by simp_all
  have r0: "r \<in> set (rungs (push_node n g))" using r by simp
  note S = insert_series_inv [OF P(1) r0 new r', folded g']
  from S(1,2) show "ld_inv (g', s')" "r' \<in> set (rungs g')" by simp_all
  show "nid n \<in> set (node_ids g')" by (simp add: g')
  show "owned g'" if "owned g"
  proof -
    have ids: "set (rung_node_ids g') = insert (nid n) (set (rung_node_ids g))" using S(3) by simp
    have "nodes g' = nodes g @ [n]" by (simp add: g' push_node_def)
    with that ids show ?thesis by (auto simp: owned_def)
  qed
qed

subsection \<open>Shrinking a graph\<close>

text \<open>
  Dropping the nodes of \<open>D\<close> with their edges, when the remaining rungs refer to none of
  them.
\<close>

definition restrict_nodes :: "string set \<Rightarrow> rung list \<Rightarrow> ld_graph \<Rightarrow> ld_graph" where
  "restrict_nodes D rs g = g\<lparr>nodes := filter (\<lambda>n. nid n \<notin> D) (nodes g),
     edges := filter (\<lambda>e. sourceId e \<notin> D \<and> targetId e \<notin> D) (edges g), rungs := rs\<rparr>"

lemma node_ids_restrict: "set (node_ids (restrict_nodes D rs g)) = set (node_ids g) - D"
  by (auto simp: restrict_nodes_def node_ids_def)

lemma restrict_inv:
  assumes inv: "ld_inv (g, s)"
    and rids: "distinct (map rid rs)" "rid ` set rs \<subseteq> rid ` set (rungs g)"
    and refs: "distinct (concat (map rung_refs rs))"
      "set (concat (map rung_refs rs)) \<subseteq> set (rung_node_ids g) - D"
    and bids: "distinct (concat (map (\<lambda>r. map bid (rung_branches r)) rs))"
      "set (concat (map (\<lambda>r. map bid (rung_branches r)) rs)) \<subseteq> set (branch_ids g)"
    and anch: "\<And>r. r \<in> set rs \<Longrightarrow> anchors_ok r"
  shows "ld_inv (restrict_nodes D rs g, s)"
proof -
  note I = ld_invD [OF inv]
  let ?g = "restrict_nodes D rs g"
  note N = node_ids_restrict [of D rs g]
  have "topo_wf ?g"
    unfolding topo_wf_def N
  proof (intro conjI)
    show "distinct (node_ids ?g)" using I(1) by (simp add: restrict_nodes_def node_ids_def distinct_map_filter)
    show "set (rung_node_ids ?g) \<subseteq> set (node_ids g) - D"
      using refs(2) I(4) by (auto simp: restrict_nodes_def rung_node_ids_def)
  qed (use rids refs bids anch in \<open>auto simp: restrict_nodes_def rung_node_ids_def branch_ids_def\<close>)
  moreover have "edges_wf ?g"
    using I(7,8) unfolding edges_wf_def edges_resolve_def N
    by (auto simp: restrict_nodes_def distinct_map_filter)
  moreover have "all_ids ?g \<subseteq> all_ids g"
  proof -
    have "eid ` set (edges ?g) \<subseteq> eid ` set (edges g)" "rid ` set (rungs ?g) \<subseteq> rid ` set (rungs g)"
      "set (branch_ids ?g) \<subseteq> set (branch_ids g)"
      using rids(2) bids(2) by (auto simp: restrict_nodes_def branch_ids_def)
    then show ?thesis using N unfolding all_ids_def by blast
  qed
  then have "fresh_for s (all_ids ?g)" using I(9) fresh_for_subset by blast
  ultimately show ?thesis by (simp add: ld_inv_def)
qed

lemma restrict_owned:
  assumes "owned g" "set (concat (map rung_refs rs)) = set (rung_node_ids g) - D"
  shows "owned (restrict_nodes D rs g)"
  unfolding owned_def
proof
  fix n assume "n \<in> set (nodes (restrict_nodes D rs g))"
  then have n: "n \<in> set (nodes g)" "nid n \<notin> D" by (simp_all add: restrict_nodes_def)
  have "rung_node_ids (restrict_nodes D rs g) = concat (map rung_refs rs)"
    by (simp add: restrict_nodes_def rung_node_ids_def)
  moreover have "is_powerrail (ndata n) \<or> nid n \<in> set (rung_node_ids g) - D"
    using n assms(1) by (auto simp: owned_def)
  ultimately show "is_powerrail (ndata n) \<or> nid n \<in> set (rung_node_ids (restrict_nodes D rs g))"
    by (simp only: assms(2))
qed

subsection \<open>Updating one node\<close>

lemma set_node_at:
  assumes "findNode g i = Some n"
  obtains k where "k < length (nodes g)" "nodes g ! k = n" "nid n = i"
    and "set_node i f g = g\<lparr>nodes := (nodes g)[k := f n]\<rparr>"
proof -
  have "n \<in> set (nodes g)" "nid n = i" using findNode_SomeD [OF assms] by auto
  then obtain k where k: "findIndex (\<lambda>x. nid x = i) (nodes g) = Some k"
    using findIndex_Some_ex [of n "nodes g" "\<lambda>x. nid x = i"] by auto
  have "findIndex p xs = Some k \<Longrightarrow> List.find p xs = Some y \<Longrightarrow> xs ! k = y" for p and xs :: "ld_node list" and y
    by (induction xs arbitrary: k) (auto split: if_splits)
  from this [OF k] assms have "nodes g ! k = n" by (simp add: findNode_def)
  with k \<open>nid n = i\<close> that show thesis by (auto simp: set_node_def dest: findIndex_SomeD)
qed

lemma set_node_inv:
  assumes inv: "ld_inv (g, s)" and f: "findNode g i = Some n" "nid (f n) = i"
  shows "ld_inv (set_node i f g, s)"
    and "is_powerrail (ndata (f n)) = is_powerrail (ndata n) \<Longrightarrow> owned g \<Longrightarrow> owned (set_node i f g)"
proof -
  note I = ld_invD [OF inv]
  obtain k where k: "k < length (nodes g)" "nodes g ! k = n" "nid n = i"
    and upd: "set_node i f g = g\<lparr>nodes := (nodes g)[k := f n]\<rparr>"
    using set_node_at [OF f(1)] by metis
  let ?g = "g\<lparr>nodes := (nodes g)[k := f n]\<rparr>"
  have ids: "node_ids ?g = node_ids g" "rung_node_ids ?g = rung_node_ids g" "branch_ids ?g = branch_ids g"
    using k f(2) by (simp_all add: node_ids_def rung_node_ids_def branch_ids_def distinct_map_list_update_same)
  from inv show "ld_inv (set_node i f g, s)"
    by (simp add: upd ld_inv_def topo_wf_def edges_wf_def edges_resolve_def all_ids_def ids)
  show "owned (set_node i f g)" if "is_powerrail (ndata (f n)) = is_powerrail (ndata n)" "owned g"
    unfolding owned_def upd ids
  proof
    fix m assume "m \<in> set (nodes ?g)"
    then consider "m \<in> set (nodes g)" | "m = f n"
      using set_list_update_subset [of "nodes g" k "f n"] by auto
    then show "is_powerrail (ndata m) \<or> nid m \<in> set (rung_node_ids g)"
    proof cases
      case 2
      have "n \<in> set (nodes g)" using k by (metis nth_mem)
      with 2 that f(2) k(3) show ?thesis by (auto simp: owned_def)
    qed (use that in \<open>auto simp: owned_def\<close>)
  qed
qed

end
