(* ===== verification/LdPreserve.thy ===== *)
theory LdPreserve
  imports LdOps
begin

text \<open>
  One preservation lemma per operation of the ladder handler: when the operation returns a
  graph, the graph satisfies the invariant with the advanced generator, and every element is
  still listed by a rung when that was so before.
\<close>

definition keeps :: "ld_graph \<Rightarrow> ld_result \<Rightarrow> bool" where
  "keeps g res \<longleftrightarrow> (\<forall>g' s'. res = (Inr g', s') \<longrightarrow> ld_inv (g', s') \<and> (owned g \<longrightarrow> owned g'))"

lemma keeps_throw [simp]: "keeps g (throw msg s)" "keeps g (Inl e, s)"
  by (simp_all add: keeps_def)

lemma keeps_ok: "ld_inv st \<Longrightarrow> (owned g \<Longrightarrow> owned (fst st)) \<Longrightarrow> keeps g (ok st)"
  by (cases st) (auto simp: keeps_def)

lemma keeps_same: "ld_inv (g, s) \<Longrightarrow> keeps g (ok (g, s))"
  by (rule keeps_ok) simp_all

lemma keeps_withE:
  "(\<And>a. m = Inr a \<Longrightarrow> keeps g (f a)) \<Longrightarrow> keeps g (withE m f s)"
  by (cases m) simp_all

lemma keeps_rewired:
  assumes "ld_inv st" "owned g \<Longrightarrow> owned (fst st)" "rewires X st st'" "X \<subseteq> set (node_ids (fst st))"
  shows "keeps g (ok st')"
proof (rule keeps_ok)
  show "ld_inv st'" using assms(3,1,4) by (rule rewires_inv)
  have "distinct (node_ids (fst st))" using assms(1) by (simp add: ld_inv_def topo_wf_def)
  then show "owned g \<Longrightarrow> owned (fst st')" using rewires_owned [OF assms(3)] assms(2) by simp
qed

lemma findRung_in: "findRung g i = Inr r \<Longrightarrow> r \<in> set (rungs g) \<and> rid r = i"
  by (auto simp: findRung_def split: option.splits dest: find_SomeD)

lemma find_branch_in_SomeD:
  "find_branch_in rs i = Some (r, b) \<Longrightarrow> r \<in> set rs \<and> b \<in> set (rung_branches r) \<and> bid b = i"
  by (induction rs) (auto split: option.splits dest: find_SomeD)

lemma findBranch_in:
  "findBranch g i = Inr (r, b) \<Longrightarrow> r \<in> set (rungs g) \<and> b \<in> set (rung_branches r) \<and> bid b = i"
  by (auto simp: findBranch_def split: option.splits dest: find_branch_in_SomeD)

lemma insert_slot_le: "insert_slot g els idx pos \<le> length els"
  by (auto simp: insert_slot_def split: option.split dest: findIndex_SomeD)

lemma rewires_push_to:
  assumes "a \<in> X" "\<And>x. t = Some x \<Longrightarrow> x \<in> X"
  shows "rewires X st (if truthy_id t then push_wire a (the t) sp tp st else st)"
  using assms by (auto simp: truthy_id_def intro!: rewires_push split: option.splits)

lemma rewires_push_from:
  assumes "b \<in> X" "\<And>x. t = Some x \<Longrightarrow> x \<in> X"
  shows "rewires X st (if truthy_id t then push_wire (the t) b sp tp st else st)"
  using assms by (auto simp: truthy_id_def intro!: rewires_push split: option.splits)

lemma rewires_if: "(P \<Longrightarrow> rewires X st st') \<Longrightarrow> rewires X st (if P then st' else st)"
  by simp

lemma rewires_branches_after:
  assumes inv: "ld_inv st0" and r: "r \<in> set (rungs (fst st0))"
    and st: "rewires (set (node_ids (fst st0))) st0 st"
  shows "rewires (set (node_ids (fst st0))) st0 (rewireRungBranches r st)"
proof (rule rewires_trans [OF st], rule rewireRungBranches_rewires)
  show "anchors_ok r" using inv r by (rule anchors_okD)
  show "wire_ends (fst st) r \<subseteq> set (node_ids (fst st0))"
    using wire_ends_ok [OF inv r] rewires_ends(2) [OF st] by simp
qed

lemma rail_in_nodes:
  "findRightRailOnRung g r = Some n \<Longrightarrow> nid n \<in> set (node_ids g)"
  "findLeftRailOnRung g r = Some n \<Longrightarrow> nid n \<in> set (node_ids g)"
  using findRail_in rail_ids_in_nodes by blast+

lemma series_in_nodes:
  "ld_inv (g, s) \<Longrightarrow> r \<in> set (rungs g) \<Longrightarrow> i \<in> set (elementIds r) \<Longrightarrow> i \<in> set (node_ids g)"
  using rung_refs_in elementIds_in_refs ld_invD(4) by blast

lemma first_coil_node: "first_coil g is = Some n \<Longrightarrow> n \<in> set (nodes g)"
  by (induction "is") (auto split: option.splits if_splits dest: findNode_SomeD)

lemma coil_in_nodes: "findCoilOnRung g r = Some n \<Longrightarrow> nid n \<in> set (node_ids g)"
  by (auto simp: findCoilOnRung_def node_ids_def dest: first_coil_node)

lemma keeps_let: "(\<And>x. x = e \<Longrightarrow> keeps g (f x)) \<Longrightarrow> keeps g (let x = e in f x)"
  by simp

lemma keeps_pair: "(\<And>a b. p = (a, b) \<Longrightarrow> keeps g (f a b)) \<Longrightarrow> keeps g (case p of (a, b) \<Rightarrow> f a b)"
  by (cases p) simp

lemma keeps_if: "(P \<Longrightarrow> keeps g x) \<Longrightarrow> (\<not> P \<Longrightarrow> keeps g y) \<Longrightarrow> keeps g (if P then x else y)"
  by simp

lemmas keeps_steps = keeps_withE keeps_let keeps_pair keeps_if

subsection \<open>Adding elements\<close>

lemma prev_in_nodes:
  assumes "ld_inv (g, s)" "r \<in> set (rungs g)" "k \<le> length (elementIds r)" "x = (if k > 0
      then Some (elementIds r ! (k - 1)) else map_option nid (findLeftRailOnRung g r))" "x = Some i"
  shows "i \<in> set (node_ids g)"
proof (cases "k > 0")
  case True
  then have "i \<in> set (elementIds r)" using assms(3-5) by (auto intro!: nth_mem)
  with assms(1,2) show ?thesis by (rule series_in_nodes)
next
  case False
  with assms(4,5) show ?thesis
    using rail_in_nodes(2) [of g r] by (cases "findLeftRailOnRung g r") auto
qed

text \<open>The wires of a new series element: one from its predecessor, one to a given target.\<close>

lemma wired_element_keeps:
  assumes inv: "ld_inv (g2, s1)" and r1: "r1 \<in> set (rungs g2)" and own: "owned g \<Longrightarrow> owned g2"
    and n: "i \<in> set (node_ids g2)" and k: "k \<le> length (elementIds r1)"
    and prev: "prevId = (if k > 0 then Some (elementIds r1 ! (k - 1))
                      else map_option nid (findLeftRailOnRung g2 r1))"
    and st3: "st3 = (if truthy_id prevId then push_wire (the prevId) i a b (g2, s1) else (g2, s1))"
    and target: "\<And>t. target = Some t \<Longrightarrow> t \<in> set (node_ids (fst st3))"
    and st4: "st4 = (if P \<and> truthy_id target then push_wire i (the target) c d st3 else st3)"
  shows "keeps g (ok (rewireRungBranches r1 st4))"
proof -
  let ?X = "set (node_ids g2)"
  have 3: "rewires ?X (g2, s1) st3" unfolding st3
    by (rule rewires_push_from) (use n prev_in_nodes [OF inv r1 k prev] in blast)+
  then have "node_ids (fst st3) = node_ids g2" using rewires_same(1) by fastforce
  then have "rewires ?X st3 (if truthy_id target then push_wire i (the target) c d st3 else st3)"
    using n target by (intro rewires_push_to) auto
  then have "rewires ?X st3 st4" unfolding st4 by auto
  with 3 have 4: "rewires ?X (g2, s1) st4" by (rule rewires_trans)
  have "rewires ?X (g2, s1) (rewireRungBranches r1 st4)"
    using rewires_branches_after [OF inv, unfolded fst_conv, OF r1 4] .
  then show ?thesis by (intro keeps_rewired [OF inv, where X = ?X]) (use own in simp_all)
qed

lemma addContact_keeps: "keeps g (addContact g p s)" if inv: "ld_inv (g, s)"
  unfolding addContact_def cloneGraph_eq
proof (intro keeps_steps keeps_throw)
  fix r coilNode x contact s1 g1 k els r1 g2 prevId st3 coilId nextTarget st4
  assume fr: "findRung g (ac_rungId p) = Inr r" and cn: "coilNode = findCoilOnRung g r"
    and x: "x = createContact (ac_type p) (''IN'' @ nat_to_dec (count_nodes is_contact g)) None s"
      "x = (contact, s1)"
    and eqs: "g1 = push_node contact g"
      "k = insert_slot g (elementIds r) (ac_insertIndex p) (ac_position p)"
      "els = splice_insert k [nid contact] (elementIds r)"
      "r1 = r\<lparr>elementIds := els\<rparr>" "g2 = set_rung (rid r) r1 g1"
      "prevId = (if 0 < k then Some (els ! (k - 1)) else map_option nid (findLeftRailOnRung g2 r1))"
      "st3 = (if truthy_id prevId
                   then push_wire (the prevId) (nid contact) None None (g2, s1) else (g2, s1))"
      "coilId = map_option nid coilNode"
      "nextTarget = (if truthy_id coilId then coilId
                          else map_option nid (findRightRailOnRung (fst st3) r1))"
      "st4 = (if k = length els - 1 \<and> truthy_id nextTarget
                   then push_wire (nid contact) (the nextTarget) None None st3 else st3)"
  have r: "r \<in> set (rungs g)" using fr by (simp add: findRung_in)
  have gen: "generateId ''contact'' s = (nid contact, s1)"
    using x by (auto simp: createContact_def split: prod.splits)
  have r1: "r1 = r\<lparr>elementIds := splice_insert k [nid contact] (elementIds r)\<rparr>" using eqs by simp
  have g2: "g2 = set_rung (rid r) r1 (push_node contact g)" using eqs by simp
  note E = new_element_inv [OF inv r gen _ r1 g2, simplified]
  have k: "k \<le> length (elementIds r1)"
    using insert_slot_le [of g "elementIds r"] by (simp add: r1 eqs(2) le_SucI)
  have els: "elementIds r1 = els" by (simp add: eqs)
  have target: "t \<in> set (node_ids (fst st3))" if "nextTarget = Some t" for t
  proof (cases "truthy_id coilId")
    case True
    with that cn obtain c where "findCoilOnRung g r = Some c" "t = nid c" by (auto simp: eqs(8,9))
    then show ?thesis using coil_in_nodes [of g r c] by (auto simp: eqs(7) g2)
  next
    case False
    with that obtain q where "findRightRailOnRung (fst st3) r1 = Some q" "t = nid q"
      by (auto simp: eqs(9))
    then show ?thesis using rail_in_nodes(1) by simp
  qed
  show "keeps g (ok (rewireRungBranches r1 st4))"
    by (rule wired_element_keeps [OF E(1,2,3,4) k eqs(6) [folded els] eqs(7) target eqs(10)])
qed

lemma addFb_keeps: "keeps g (addFb g p s)" if inv: "ld_inv (g, s)"
proof (cases "getFbPins (af_fbType p)")
  case None
  then show ?thesis unfolding addFb_def by (intro keeps_withE) simp
next
  case (Some io)
  show ?thesis
    unfolding addFb_def cloneGraph_eq Some option.case
  proof (intro keeps_steps)
    fix r ins outs x fb0 s1 fb g1 k els r1 g2 prevId st3 succId st4
    assume fr: "findRung g (af_rungId p) = Inr r"
      and x: "x = createFb (af_fbType p) ins outs None s" "x = (fb0, s1)"
      and fb: "fb = fb0\<lparr>ndim := \<lparr>dwidth = FB_WIDTH, dheight = getFbHeight (af_fbType p)\<rparr>\<rparr>"
      and eqs: "g1 = push_node fb g"
      "k = insert_slot g (elementIds r) (af_insertIndex p) (af_position p)"
      "els = splice_insert k [nid fb] (elementIds r)"
      "r1 = r\<lparr>elementIds := els\<rparr>" "g2 = set_rung (rid r) r1 g1"
      "prevId = (if 0 < k then Some (els ! (k - 1)) else map_option nid (findLeftRailOnRung g2 r1))"
      "st3 = (if truthy_id prevId
                   then push_wire (the prevId) (nid fb) None (Some ''EN'') (g2, s1) else (g2, s1))"
      "succId = (if k + 1 < length els then Some (els ! (k + 1))
                      else case findCoilOnRung (fst st3) r1 of None \<Rightarrow> map_option nid (findRightRailOnRung (fst st3) r1)
                        | Some c \<Rightarrow> Some (nid c))"
      "st4 = (if truthy_id succId
                   then push_wire (nid fb) (the succId) (Some ''ENO'') None st3 else st3)"
    have r: "r \<in> set (rungs g)" using fr by (simp add: findRung_in)
    have gen: "generateId ''fb'' s = (nid fb, s1)"
      using x fb by (auto simp: createFb_def split: prod.splits)
    have r1: "r1 = r\<lparr>elementIds := splice_insert k [nid fb] (elementIds r)\<rparr>" using eqs by simp
    have g2: "g2 = set_rung (rid r) r1 (push_node fb g)" using eqs by simp
    note E = new_element_inv [OF inv r gen _ r1 g2, simplified]
    have els: "elementIds r1 = els" by (simp add: eqs)
    have k: "k \<le> length (elementIds r1)"
      using insert_slot_le [of g "elementIds r"] by (simp add: r1 eqs(2) le_SucI)
    have ids: "node_ids (fst st3) = node_ids g2" by (simp add: eqs(7))
    have target: "t \<in> set (node_ids (fst st3))" if "succId = Some t" for t
    proof (cases "k + 1 < length els")
      case True
      with that have "t \<in> set (elementIds r1)" by (auto simp: eqs(8) els)
      then show ?thesis using series_in_nodes [OF E(1,2)] ids by simp
    next
      case False
      with that show ?thesis
        using coil_in_nodes [of "fst st3" r1] rail_in_nodes(1) [of "fst st3" r1]
        by (auto simp: eqs(8) split: option.splits)
    qed
    show "keeps g (ok (rewireRungBranches r1 st4))"
      by (rule wired_element_keeps [OF E(1,2,3,4) k eqs(6) [folded els] eqs(7) target, where P = True
            and c = "Some ''ENO''" and d = None])
        (simp_all add: eqs(9))
  qed
qed

lemma addCoil_keeps: "keeps g (addCoil g t rungId s)" if inv: "ld_inv (g, s)"
  unfolding addCoil_def cloneGraph_eq
proof (intro keeps_steps keeps_throw)
  fix r x coil s1 g1 r1 g2 lastContactId st3 st4
  assume fr: "findRung g rungId = Inr r" and some: "contacts_on g r \<noteq> []"
    and x: "x = createCoil t (''OUT'' @ nat_to_dec (count_nodes is_coil g)) None s" "x = (coil, s1)"
    and eqs: "g1 = push_node coil g" "r1 = r\<lparr>elementIds := elementIds r @ [nid coil]\<rparr>"
      "g2 = set_rung (rid r) r1 g1" "lastContactId = last (contacts_on g r)"
      "st3 = (if lastContactId \<noteq> [] then push_wire lastContactId (nid coil) None None (g2, s1) else (g2, s1))"
      "st4 = rewireRungBranches r1 st3"
  have r: "r \<in> set (rungs g)" using fr by (simp add: findRung_in)
  have gen: "generateId ''coil'' s = (nid coil, s1)"
    using x by (auto simp: createCoil_def split: prod.splits)
  have r1: "r1 = r\<lparr>elementIds := splice_insert (length (elementIds r)) [nid coil] (elementIds r)\<rparr>"
    by (simp add: eqs(2) splice_insert_def)
  have g2: "g2 = set_rung (rid r) r1 (push_node coil g)" using eqs by simp
  note E = new_element_inv [OF inv r gen _ r1 g2, simplified]
  let ?X = "set (node_ids g2)"
  have "last (contacts_on g r) \<in> set (contacts_on g r)" using some by (rule last_in_set)
  then have "findNode g lastContactId \<noteq> None"
    by (auto simp: contacts_on_def eqs(4) split: option.splits)
  then have "lastContactId \<in> ?X" by (simp add: findNode_None g2)
  then have 3: "rewires ?X (g2, s1) st3" unfolding eqs(5) using E(4) by (auto intro: rewires_push)
  have 4: "rewires ?X (g2, s1) st4" unfolding eqs(6)
    using rewires_branches_after [OF E(1), unfolded fst_conv, OF E(2) 3] .
  define st5 where "st5 = (case findRightRailOnRung (fst st4) r1 of
       None \<Rightarrow> st4 | Some rail \<Rightarrow> push_wire (nid coil) (nid rail) None None st4)"
  have "rewires ?X st4 st5"
    unfolding st5_def using E(4) rail_in_nodes(1) [of "fst st4" r1] rewires_same(1) [OF 4]
    by (auto intro!: rewires_push split: option.split)
  with 4 have "rewires ?X (g2, s1) st5" by (rule rewires_trans)
  then show "keeps g (ok (case findRightRailOnRung (fst st4) r1 of
       None \<Rightarrow> st4 | Some rail \<Rightarrow> push_wire (nid coil) (nid rail) None None st4))"
    unfolding st5_def [symmetric]
    by (intro keeps_rewired [OF E(1), where X = ?X]) (use E(3) in simp_all)
qed

subsection \<open>Wires by hand\<close>

lemma push_edge_rewires:
  assumes gen: "generateId ''wire'' s = (eid w, s')" and ends: "sourceId w \<in> X" "targetId w \<in> X"
  shows "rewires X (g, s) (g\<lparr>edges := edges g @ [w]\<rparr>, s')"
proof (rule rewiresI [where ns = "nodes g" and es = "edges g @ [w]"])
  fix Y assume Y: "fresh_for (snd (g, s)) (Y \<union> eid ` set (edges (fst (g, s))))"
    and d: "distinct (map eid (edges (fst (g, s))))"
  then have "eid w \<notin> Y \<union> eid ` set (edges g)"
    and "fresh_for s' (insert (eid w) (Y \<union> eid ` set (edges g)))"
    using fresh_for_generate [OF gen _, of "Y \<union> eid ` set (edges g)"] by auto
  with d show "distinct (map eid (edges g @ [w]))
      \<and> fresh_for (snd (g\<lparr>edges := edges g @ [w]\<rparr>, s')) (Y \<union> eid ` set (edges g @ [w]))"
    by (auto intro: fresh_for_subset)
qed (use ends in auto)

lemma connectWire_keeps: "keeps g (connectWire g a b pts s)" if inv: "ld_inv (g, s)"
proof (cases "findNode g a = None \<or> findNode g b = None")
  case True
  then show ?thesis by (auto simp: connectWire_def split: option.split)
next
  case False
  then obtain src tgt where n: "findNode g a = Some src" "findNode g b = Some tgt" by auto
  then have ends: "a \<in> set (node_ids g)" "b \<in> set (node_ids g)"
    using findNode_in [of g a] findNode_in [of g b] by simp_all
  obtain w s1 where w: "createWire a b pts s = (w, s1)" by (cases "createWire a b pts s")
  then have gen: "generateId ''wire'' s = (eid w, s1)" "sourceId w = a" "targetId w = b"
    by (auto simp: createWire_def split: prod.splits)
  have "rewires (set (node_ids g)) (g, s) (g\<lparr>edges := edges g @ [w]\<rparr>, s1)"
    using ends by (intro push_edge_rewires) (simp_all add: gen)
  then have "keeps g (ok (g\<lparr>edges := edges g @ [w]\<rparr>, s1))"
    by (intro keeps_rewired [OF inv, where X = "set (node_ids g)"]) simp_all
  then show ?thesis
    using keeps_same [OF inv] by (simp add: connectWire_def n w Let_def)
qed

lemma disconnectWire_keeps: "keeps g (disconnectWire g i s)" if inv: "ld_inv (g, s)"
proof -
  have "keeps g (ok (filter_edges (\<lambda>e. eid e \<noteq> i) (g, s)))"
    by (intro keeps_rewired [OF inv, where X = "{}"] rewires_filter) simp_all
  then show ?thesis by (simp add: disconnectWire_def Let_def filter_edges_def)
qed

subsection \<open>Properties of elements and rungs\<close>

lemma set_node_keeps:
  assumes inv: "ld_inv (g, s)" and "findNode g i = Some n" "nid (f n) = i"
    and "is_powerrail (ndata (f n)) = is_powerrail (ndata n)"
  shows "keeps g (ok (set_node i f g, s))"
  by (rule keeps_ok) (use set_node_inv [OF assms(1,2), of f] assms(3,4) in simp_all)

lemma set_data_rail [simp]:
  "is_powerrail (set_coil_type t d) = is_powerrail d"
  "is_powerrail (set_contact_type u d) = is_powerrail d"
  "is_powerrail (set_comment c d) = is_powerrail d"
  "is_powerrail (set_variable v d) = is_powerrail d"
  by (cases d; simp)+

lemma update_data_simps [simp]:
  "nid (update_data f n) = nid n" "ndata (update_data f n) = f (ndata n)"
  by (simp_all add: update_data_def)

lemma update_keeps:
  assumes "ld_inv (g, s)" "map_option ndata (findNode g i) = Some d"
    and "\<And>d. is_powerrail (f d) = is_powerrail d"
  shows "keeps g (ok (set_node i (update_data f) g, s))"
proof -
  from assms(2) obtain n where n: "findNode g i = Some n" by auto
  then have "nid (update_data f n) = i" by (simp add: findNode_SomeD)
  with assms(1) n show ?thesis by (rule set_node_keeps) (simp add: assms(3))
qed

lemma changeCoilType_keeps: "ld_inv (g, s) \<Longrightarrow> keeps g (changeCoilType g i t s)"
  by (auto simp: changeCoilType_def intro: keeps_same update_keeps split: option.split node_data.split)

lemma changeContactType_keeps: "ld_inv (g, s) \<Longrightarrow> keeps g (changeContactType g i t s)"
  by (auto simp: changeContactType_def intro: keeps_same update_keeps split: option.split node_data.split)

lemma setElementComment_keeps: "ld_inv (g, s) \<Longrightarrow> keeps g (setElementComment g i txt s)"
  by (auto simp: setElementComment_def Let_def intro: keeps_same update_keeps
      split: option.split node_data.split)

lemma renameVariable_keeps: "ld_inv (g, s) \<Longrightarrow> keeps g (renameVariable g i txt s)"
  by (auto simp: renameVariable_def rename_to_def intro: keeps_same update_keeps
      split: option.split node_data.split)

text \<open>Replacing a rung by one with the same branches and the same elements in any order.\<close>

lemma permuted_rung_inv:
  assumes inv: "ld_inv (g, s)" and r: "r \<in> set (rungs g)"
    and r': "rid r' = rid r" "mset (elementIds r') = mset (elementIds r)"
      "rung_branches r' = rung_branches r"
  shows "ld_inv (set_rung (rid r) r' g, s)" "r' \<in> set (rungs (set_rung (rid r) r' g))"
    and "owned g \<Longrightarrow> owned (set_rung (rid r) r' g)"
proof -
  note I = ld_invD [OF inv]
  have "mset (rung_refs r') = mset (rung_refs r)" using r' by (simp add: rung_refs_def)
  then have refs: "distinct (rung_refs r')" "set (rung_refs r') = set (rung_refs r)"
    using rung_refs_distinct [OF r I(3)] by (metis mset_eq_imp_distinct_iff, metis mset_eq_setD)
  have anch: "anchors_ok r'"
    using I(6) [OF r] r'(1,3) mset_eq_setD [OF r'(2)] by (simp add: anchors_ok_def)
  have bids: "distinct (map bid (rung_branches r'))" "fresh_for s (bid ` set (rung_branches r'))"
    using I(5,9) r r'(3)
    by (auto simp: branch_ids_def distinct_concat_iff all_ids_def intro: fresh_for_subset)
  have sub: "set (rung_refs r') \<subseteq> set (node_ids g)" using rung_refs_in [OF r] I(4) refs(2) by auto
  show "ld_inv (set_rung (rid r) r' g, s)" "r' \<in> set (rungs (set_rung (rid r) r' g))"
    using r'(1,3) refs(1) sub anch bids by (intro set_rung_inv [OF inv r]; simp add: refs(2))+
  show "owned (set_rung (rid r) r' g)" if "owned g"
    using that set_rung_owned [OF inv r, of r'] rung_refs_in [OF r] refs(2) by (auto simp: owned_def)
qed

lemma label_rung_keeps:
  assumes "ld_inv (g, s)" "r \<in> set (rungs g)"
    and "rid r' = rid r" "elementIds r' = elementIds r" "branches r' = branches r"
  shows "keeps g (ok (set_rung (rid r) r' g, s))"
  using permuted_rung_inv [OF assms(1-3)] assms(4,5) by (intro keeps_ok) (simp_all add: rung_branches_def)

lemma setRungTitle_keeps: "keeps g (setRungTitle g i txt s)" if "ld_inv (g, s)"
  unfolding setRungTitle_def cloneGraph_eq
  by (intro keeps_steps keeps_same label_rung_keeps that) (auto dest: findRung_in)

lemma setRungComment_keeps: "keeps g (setRungComment g i txt s)" if "ld_inv (g, s)"
  unfolding setRungComment_def cloneGraph_eq
  by (intro keeps_steps keeps_same label_rung_keeps that) (auto dest: findRung_in)

lemma replaceElement_keeps: "keeps g (replaceElement g i m s)" if inv: "ld_inv (g, s)"
proof (cases "findNode g i")
  case (Some n)
  have "is_powerrail (ndata m) = is_powerrail (ndata n)" if "node_type m = node_type n"
    using that by (cases "ndata m"; cases "ndata n") (auto simp: node_type_def)
  then have "node_type m = node_type n \<Longrightarrow>
      keeps g (ok (set_node i (\<lambda>_. m\<lparr>nid := i, npos := npos n\<rparr>) g, s))"
    by (intro set_node_keeps [OF inv Some]) simp_all
  then show ?thesis by (simp add: replaceElement_def Some)
qed (simp add: replaceElement_def)

subsection \<open>Reordering\<close>

lemma reorderElement_keeps: "keeps g (reorderElement g i idx s)" if inv: "ld_inv (g, s)"
proof (cases "List.find (\<lambda>r. i \<in> set (elementIds r)) (rungs g)")
  case (Some r)
  then have r: "r \<in> set (rungs g)" "i \<in> set (elementIds r)" by (auto dest: find_SomeD)
  then obtain k0 where k0: "indexOf (elementIds r) i = Some k0" using indexOf_Some_ex by metis
  then have at: "k0 < length (elementIds r)" "elementIds r ! k0 = i" by (auto dest: indexOf_SomeD)
  let ?els0 = "splice_remove k0 (elementIds r)"
  have moved: "keeps g (ok (rewireRungBranches r1 (rewireRungSeries r1 (set_rung (rid r) r1 g, s))))"
    if r1: "r1 = r\<lparr>elementIds := splice_insert k [i] ?els0\<rparr>" for k r1
  proof -
    have "mset (splice_insert k [i] ?els0) = mset (elementIds r)"
      using at r(2) by (simp add: mset_splice_remove)
    then have P: "mset (elementIds r1) = mset (elementIds r)" by (simp add: r1)
    note new = permuted_rung_inv [OF inv r(1) _ P, unfolded r1, simplified, folded r1]
    let ?X = "set (node_ids (set_rung (rid r) r1 g))"
    have "rewires ?X (set_rung (rid r) r1 g, s) (rewireRungSeries r1 (set_rung (rid r) r1 g, s))"
      using wire_ends_ok [OF new(1)] anchors_okD [OF new(1)] new(2)
      by (intro rewireRungSeries_rewires) simp_all
    note rewires_branches_after [OF new(1), unfolded fst_conv, OF new(2) this]
    then show ?thesis by (intro keeps_rewired [OF new(1), where X = ?X]) (use new(3) in simp_all)
  qed
  then show ?thesis
    unfolding reorderElement_def Some option.case k0 cloneGraph_eq
    by (intro keeps_steps keeps_throw) simp
qed (simp add: reorderElement_def)

subsection \<open>Deleting\<close>

lemma concat_blocks:
  assumes "list_all2 (\<lambda>x y. set y \<subseteq> set x \<and> (distinct x \<longrightarrow> distinct y)) xss yss"
  shows "set (concat yss) \<subseteq> set (concat xss)" "distinct (concat xss) \<Longrightarrow> distinct (concat yss)"
  using assms by (induction rule: list_all2_induct) auto

text \<open>The rungs after nodes were taken out: the references lose them, branches may go.\<close>

definition pruned :: "string set \<Rightarrow> rung \<Rightarrow> rung \<Rightarrow> bool" where
  "pruned D r r' \<longleftrightarrow> rid r' = rid r \<and> rung_refs r' = filter (\<lambda>x. x \<notin> D) (rung_refs r)
     \<and> (\<exists>Q. map bid (rung_branches r') = map bid (filter Q (rung_branches r))) \<and> anchors_ok r'"

lemma prune_inv:
  assumes inv: "ld_inv (g, s)" and p: "list_all2 (pruned D) (rungs g) rs"
  shows "ld_inv (restrict_nodes D rs g, s)" "owned g \<Longrightarrow> owned (restrict_nodes D rs g)"
proof -
  note I = ld_invD [OF inv]
  have rids: "map rid rs = map rid (rungs g)"
    using p by (induction rule: list_all2_induct) (auto simp: pruned_def)
  then have rids': "rid ` set rs \<subseteq> rid ` set (rungs g)" by (metis order_refl set_map)
  have refs: "concat (map rung_refs rs) = filter (\<lambda>x. x \<notin> D) (rung_node_ids g)"
    unfolding rung_node_ids_def using p by (induction rule: list_all2_induct) (auto simp: pruned_def)
  have "list_all2 (\<lambda>x y. set y \<subseteq> set x \<and> (distinct x \<longrightarrow> distinct y))
      (map (\<lambda>r. map bid (rung_branches r)) (rungs g)) (map (\<lambda>r. map bid (rung_branches r)) rs)"
    unfolding list_all2_map1 list_all2_map2 using p
  proof (rule list_all2_mono)
    fix r r' assume "pruned D r r'"
    then obtain Q where "map bid (rung_branches r') = map bid (filter Q (rung_branches r))"
      by (auto simp: pruned_def)
    then show "set (map bid (rung_branches r')) \<subseteq> set (map bid (rung_branches r))
        \<and> (distinct (map bid (rung_branches r)) \<longrightarrow> distinct (map bid (rung_branches r')))"
      by (simp only: set_map) (auto intro: distinct_map_filter)
  qed
  note B = concat_blocks [OF this, folded branch_ids_def]
  have "anchors_ok r" if "r \<in> set rs" for r
    using p that by (induction rule: list_all2_induct) (auto simp: pruned_def)
  then show "ld_inv (restrict_nodes D rs g, s)"
    using I(2,3,5) B rids' by (intro restrict_inv [OF inv]) (auto simp: rids refs)
  show "owned g \<Longrightarrow> owned (restrict_nodes D rs g)"
    by (rule restrict_owned) (auto simp: refs)
qed

lemma map_renumber: "(\<And>r k. f (r\<lparr>rungNumber := k\<rparr>) = f r) \<Longrightarrow> map f (renumber rs) = map f rs"
  by (rule nth_equalityI) (simp_all add: renumber_def)

lemma renumber_maps [simp]:
  "map rid (renumber rs) = map rid rs" "map rung_refs (renumber rs) = map rung_refs rs"
  "map (\<lambda>r. map bid (rung_branches r)) (renumber rs) = map (\<lambda>r. map bid (rung_branches r)) rs"
  by (rule map_renumber; simp add: rung_refs_def)+

lemma renumber_anchors:
  assumes "\<And>r. r \<in> set rs \<Longrightarrow> anchors_ok r" "r \<in> set (renumber rs)"
  shows "anchors_ok r"
proof -
  from assms(2) obtain k where "k < length rs" "r = (rs ! k)\<lparr>rungNumber := k + 1\<rparr>"
    by (auto simp: in_set_conv_nth renumber_def)
  then show ?thesis using assms(1) [of "rs ! k"] by (simp add: anchors_ok_def)
qed

lemma set_renumber_rid: "rid ` set (renumber rs) = rid ` set rs"
  by (metis renumber_maps(1) set_map)

lemma renumber_restrict:
  assumes inv: "ld_inv (g, s)" and sub: "set rs \<subseteq> set (rungs g)" and d: "distinct (map rid rs)"
    and refs: "distinct (concat (map rung_refs rs))"
      "set (concat (map rung_refs rs)) \<inter> D = {}"
    and bids: "distinct (concat (map (\<lambda>r. map bid (rung_branches r)) rs))"
  shows "ld_inv (restrict_nodes D (renumber rs) g, s)"
proof (rule restrict_inv [OF inv])
  show "distinct (map rid (renumber rs))" "distinct (concat (map rung_refs (renumber rs)))"
    using d refs(1) by simp_all
  show "rid ` set (renumber rs) \<subseteq> rid ` set (rungs g)" using sub by (auto simp: set_renumber_rid)
  show "set (concat (map rung_refs (renumber rs))) \<subseteq> set (rung_node_ids g) - D"
    using sub refs(2) by (auto simp: rung_node_ids_def)
  show "distinct (concat (map (\<lambda>r. map bid (rung_branches r)) (renumber rs)))"
    using bids by (simp only: renumber_maps)
  show "set (concat (map (\<lambda>r. map bid (rung_branches r)) (renumber rs))) \<subseteq> set (branch_ids g)"
    using sub unfolding renumber_maps by (auto simp: branch_ids_def)
  show "\<And>r. r \<in> set (renumber rs) \<Longrightarrow> anchors_ok r"
    using ld_invD(6) [OF inv] sub by (auto intro: renumber_anchors)
qed

lemma distinct_concat_mset:
  "mset xss = mset yss \<Longrightarrow> distinct (concat xss) = distinct (concat yss)"
  by (rule mset_eq_imp_distinct_iff) (simp add: mset_concat sum_mset_sum_list [symmetric])

lemma restrict_empty: "restrict_nodes {} rs g = g\<lparr>rungs := rs\<rparr>"
  by (simp add: restrict_nodes_def)

lemma moveRung_keeps: "keeps g (moveRung g i k s)" if inv: "ld_inv (g, s)"
proof (cases "findIndex (\<lambda>r. rid r = i) (rungs g)")
  case (Some j)
  note I = ld_invD [OF inv]
  have j: "j < length (rungs g)" using Some by (auto dest: findIndex_SomeD)
  define rs where "rs = splice_insert (clamp_index k (length (rungs g) - 1)) [rungs g ! j]
      (splice_remove j (rungs g))"
  have ms: "mset rs = mset (rungs g)" using j by (simp add: rs_def mset_splice_remove)
  have F: "mset (map f rs) = mset (map f (rungs g))" for f :: "rung \<Rightarrow> 'b" using ms by simp
  have "ld_inv (restrict_nodes {} (renumber rs) g, s)"
  proof (rule renumber_restrict [OF inv])
    show "set rs \<subseteq> set (rungs g)" using mset_eq_setD [OF ms] by simp
    show "distinct (map rid rs)" using I(2) mset_eq_imp_distinct_iff [OF F] by blast
    show "distinct (concat (map rung_refs rs))"
      using I(3) distinct_concat_mset [OF F] unfolding rung_node_ids_def by blast
    show "distinct (concat (map (\<lambda>r. map bid (rung_branches r)) rs))"
      using I(5) distinct_concat_mset [OF F] unfolding branch_ids_def by blast
  qed simp
  moreover have "set (rung_node_ids (g\<lparr>rungs := renumber rs\<rparr>)) = set (rung_node_ids g)"
    using mset_eq_setD [OF ms] by (simp add: rung_node_ids_def)
  ultimately have "keeps g (ok (g\<lparr>rungs := renumber rs\<rparr>, s))"
    by (intro keeps_ok) (auto simp: restrict_empty owned_def)
  then show ?thesis
    unfolding moveRung_def Some option.case cloneGraph_eq
    by (intro keeps_steps keeps_same inv) (simp add: rs_def)
qed (simp add: moveRung_def)

lemma deleteRung_inv:
  assumes inv: "ld_inv (g, s)" and del: "deleteRung g i s = (Inr g', s')"
  shows "ld_inv (g', s')"
proof (cases "findIndex (\<lambda>r. rid r = i) (rungs g)")
  case (Some k)
  note I = ld_invD [OF inv]
  have k: "k < length (rungs g)" using Some by (auto dest: findIndex_SomeD)
  let ?rs = "splice_remove k (rungs g)" and ?els = "elementIds (rungs g ! k)"
  have split: "rungs g = take k (rungs g) @ rungs g ! k # drop (Suc k) (rungs g)"
    using k by (rule id_take_nth_drop)
  have F: "concat (map f (rungs g)) = concat (map f (take k (rungs g))) @ f (rungs g ! k)
      @ concat (map f (drop (Suc k) (rungs g)))" for f :: "rung \<Rightarrow> 'b list"
    by (subst split) simp
  have R: "concat (map f ?rs) = concat (map f (take k (rungs g))) @ concat (map f (drop (Suc k) (rungs g)))"
    for f :: "rung \<Rightarrow> 'b list"
    by (simp add: splice_remove_def)
  have disj: "distinct (concat (map f (rungs g))) \<Longrightarrow>
      distinct (concat (map f ?rs)) \<and> set (concat (map f ?rs)) \<inter> set (f (rungs g ! k)) = {}"
    for f :: "rung \<Rightarrow> 'b list"
    unfolding F [of f] R [of f] by auto
  have "ld_inv (restrict_nodes (set ?els) (renumber ?rs) g, s)"
  proof (rule renumber_restrict [OF inv])
    show "set ?rs \<subseteq> set (rungs g)" by (rule set_splice_remove_subset)
    show "distinct (map rid ?rs)"
      using disj [of "\<lambda>r. [rid r]"] I(2) by simp
    show "distinct (concat (map rung_refs ?rs))" "set (concat (map rung_refs ?rs)) \<inter> set ?els = {}"
      using disj [of rung_refs] I(3) elementIds_in_refs [of "rungs g ! k"]
      unfolding rung_node_ids_def by blast+
    show "distinct (concat (map (\<lambda>r. map bid (rung_branches r)) ?rs))"
      using disj [of "\<lambda>r. map bid (rung_branches r)"] I(5) unfolding branch_ids_def by blast
  qed
  moreover have "g' = restrict_nodes (set ?els) (renumber ?rs) g" "s' = s"
    using del Some by (auto simp: deleteRung_def restrict_nodes_def Let_def split: if_splits)
  ultimately show ?thesis by simp
qed (use del in \<open>simp add: deleteRung_def\<close>)

text \<open>A rung without branch members takes nothing but its own elements away.\<close>

lemma deleteRung_owned:
  assumes inv: "ld_inv (g, s)" and own: "owned g" and del: "deleteRung g i s = (Inr g', s')"
    and plain: "\<And>r. r \<in> set (rungs g) \<Longrightarrow> rid r = i \<Longrightarrow> rung_refs r = elementIds r"
  shows "owned g'"
proof (cases "findIndex (\<lambda>r. rid r = i) (rungs g)")
  case (Some k)
  have k: "k < length (rungs g)" "rid (rungs g ! k) = i" using Some by (auto dest: findIndex_SomeD)
  let ?rs = "splice_remove k (rungs g)" and ?els = "elementIds (rungs g ! k)"
  have els: "rung_refs (rungs g ! k) = ?els" using k plain by simp
  have "rungs g = take k (rungs g) @ rungs g ! k # drop (Suc k) (rungs g)"
    using k(1) by (rule id_take_nth_drop)
  then have "concat (map rung_refs (rungs g)) = concat (map rung_refs (take k (rungs g))) @ ?els
      @ concat (map rung_refs (drop (Suc k) (rungs g)))"
    by (metis concat.simps(2) concat_append els list.simps(9) map_append)
  with ld_invD(3) [OF inv] have "set (concat (map rung_refs ?rs)) = set (rung_node_ids g) - set ?els"
    unfolding rung_node_ids_def splice_remove_def by auto
  then have "owned (restrict_nodes (set ?els) (renumber ?rs) g)"
    by (intro restrict_owned own) simp
  then show ?thesis
    using del Some by (auto simp: deleteRung_def restrict_nodes_def Let_def split: if_splits)
qed (use del in \<open>simp add: deleteRung_def\<close>)

text \<open>Taking the nodes of a branch out prunes the rungs.\<close>

lemma rung_refs_filter:
  assumes "\<And>b. b \<in> set (rung_branches r) \<Longrightarrow> filter (\<lambda>x. x \<notin> D) (members b) = f b"
  shows "filter (\<lambda>x. x \<notin> D) (rung_refs r) =
    filter (\<lambda>x. x \<notin> D) (elementIds r) @ concat (map f (rung_branches r))"
proof -
  have "filter (\<lambda>x. x \<notin> D) (concat (map members bs)) = concat (map (\<lambda>b. filter (\<lambda>x. x \<notin> D) (members b)) bs)"
    for bs :: "branch list" by (induction bs) auto
  moreover have "map (\<lambda>b. filter (\<lambda>x. x \<notin> D) (members b)) (rung_branches r) = map f (rung_branches r)"
    using assms by (intro map_cong refl) simp
  ultimately show ?thesis by (simp only: rung_refs_def filter_append)
qed

lemma pruned_self:
  assumes "anchors_ok r" "set (rung_refs r) \<inter> D = {}"
  shows "pruned D r r"
proof -
  have "filter (\<lambda>x. x \<notin> D) (rung_refs r) = rung_refs r"
    using assms(2) by (intro filter_True) auto
  moreover have "map bid (rung_branches r) = map bid (filter (\<lambda>_. True) (rung_branches r))" by simp
  ultimately show ?thesis using assms(1) unfolding pruned_def by metis
qed

lemma distinct_concat_same:
  assumes "distinct (concat (map f xs))" "x \<in> set xs" "y \<in> set xs" "a \<in> set (f x)" "a \<in> set (f y)"
  shows "x = y"
  using assms by (induction xs) auto

lemma rungs_share:
  assumes "ld_inv (g, s)" "r \<in> set (rungs g)" "r' \<in> set (rungs g)"
    "x \<in> set (rung_refs r)" "x \<in> set (rung_refs r')"
  shows "r = r'"
  using distinct_concat_same [OF _ assms(2-5)] ld_invD(3) [OF assms(1)] by (simp add: rung_node_ids_def)

lemma branches_share:
  assumes "ld_inv (g, s)" "r \<in> set (rungs g)" "b \<in> set (rung_branches r)" "b' \<in> set (rung_branches r)"
    and "x \<in> set (members b)" "x \<in> set (members b')"
  shows "b = b'"
  using distinct_concat_same [OF _ assms(3-6)] rung_refs_distinct [OF assms(2) ld_invD(3) [OF assms(1)]]
  by (simp add: rung_refs_def)

lemma branch_ids_share:
  assumes "ld_inv (g, s)" "r \<in> set (rungs g)" "r' \<in> set (rungs g)"
    and "b \<in> set (rung_branches r)" "b' \<in> set (rung_branches r')" "bid b = bid b'"
  shows "r = r' \<and> b = b'"
proof
  note d = ld_invD(5) [OF assms(1), unfolded branch_ids_def]
  show r: "r = r'"
  proof (rule distinct_concat_same [OF d assms(2,3), of "bid b"])
    show "bid b \<in> set (map bid (rung_branches r))" using assms(4) by simp
    show "bid b \<in> set (map bid (rung_branches r'))" unfolding assms(6) using assms(5) by simp
  qed
  have "distinct (map bid (rung_branches r))" using d assms(2) by (auto simp: distinct_concat_iff)
  then show "b = b'" using assms(4-6) r by (auto simp: distinct_map dest: inj_onD)
qed

lemma series_not_member:
  assumes "ld_inv (g, s)" "r \<in> set (rungs g)" "x \<in> set (elementIds r)" "b \<in> set (rung_branches r)"
  shows "x \<notin> set (members b)"
  using rung_refs_distinct [OF assms(2) ld_invD(3) [OF assms(1)]] assms(3,4)
  by (auto simp: rung_refs_def)

lemma deleteBranch_keeps: "keeps g (deleteBranch g i s)" if inv: "ld_inv (g, s)"
  unfolding deleteBranch_def
proof (intro keeps_steps)
  fix a r b ms g0 g1 r1 g2 st3 succ
  assume fb: "findBranch g i = Inr a" "a = (r, b)"
    and eqs: "ms = members b" "g0 = cloneGraph g"
      "g1 = g0\<lparr>nodes := filter (\<lambda>n. nid n \<notin> set ms) (nodes g0),
           edges := filter (\<lambda>e. sourceId e \<notin> set ms \<and> targetId e \<notin> set ms) (edges g0)\<rparr>"
      "r1 = r\<lparr>branches := Some (filter (\<lambda>c. bid c \<noteq> bid b) (rung_branches r))\<rparr>"
      "g2 = set_rung (rid r) r1 g1" "st3 = rewireRungBranches r1 (g2, s)"
      "succ = seriesSuccessor r1 (anchorId b)"
  have rb: "r \<in> set (rungs g)" "b \<in> set (rung_branches r)" using fb findBranch_in by blast+
  note I = ld_invD [OF inv]
  let ?D = "set (members b)"
  have rg: "rungs g1 = rungs g" by (simp add: eqs(2,3))
  have "distinct (map rid (rungs g1))" "r \<in> set (rungs g1)" using I(2) rb by (simp_all add: rg)
  then obtain k where k: "k < length (rungs g)" "rungs g ! k = r"
    and upd: "\<And>r1. set_rung (rid r) r1 g1 = g1\<lparr>rungs := (rungs g)[k := r1]\<rparr>"
    by (rule set_rung_at) (unfold rg, rule that)
  have g2: "g2 = restrict_nodes ?D ((rungs g)[k := r1]) g"
    by (simp add: eqs(5) upd) (simp add: eqs(1-3) restrict_nodes_def)
  have bs1: "rung_branches r1 = filter (\<lambda>c. bid c \<noteq> bid b) (rung_branches r)" by (simp add: eqs(4))
  have f: "filter (\<lambda>x. x \<notin> ?D) (members c) = (if bid c \<noteq> bid b then members c else [])"
    if c: "c \<in> set (rung_branches r)" for c
  proof (cases "bid c = bid b")
    case True
    then have "c = b" using branch_ids_share [OF inv rb(1) rb(1) c rb(2)] by simp
    then show ?thesis by simp
  next
    case False
    then have "set (members c) \<inter> ?D = {}" using branches_share [OF inv rb(1) c rb(2)] by auto
    with False show ?thesis by (simp add: filter_id_conv disjoint_iff)
  qed
  have "concat (map (\<lambda>c. if bid c \<noteq> bid b then members c else []) cs)
      = concat (map members (filter (\<lambda>c. bid c \<noteq> bid b) cs))" for cs :: "branch list"
    by (induction cs) auto
  moreover have "filter (\<lambda>x. x \<notin> ?D) (elementIds r) = elementIds r"
    using series_not_member [OF inv rb(1) _ rb(2)] by (auto simp: filter_id_conv)
  ultimately have refs: "rung_refs r1 = filter (\<lambda>x. x \<notin> ?D) (rung_refs r)"
    using rung_refs_filter [of r ?D, OF f] by (simp add: rung_refs_def bs1) (simp add: eqs(4))
  have anch: "anchors_ok r1" using I(6) [OF rb(1)] by (auto simp: anchors_ok_def bs1 eqs(4))
  have p1: "pruned ?D r r1" unfolding pruned_def
    using refs anch bs1 by (auto simp: eqs(4))
  have all: "list_all2 (pruned ?D) (rungs g) ((rungs g)[k := r1])"
    unfolding list_all2_conv_all_nth
  proof (intro conjI allI impI)
    fix j assume j: "j < length (rungs g)"
    show "pruned ?D (rungs g ! j) ((rungs g)[k := r1] ! j)"
    proof (cases "j = k")
      case False
      have ne: "rungs g ! j \<noteq> r"
        using I(2) j k False by (metis distinct_map nth_eq_iff_index_eq)
      have "set (rung_refs (rungs g ! j)) \<inter> ?D = {}"
        using rungs_share [OF inv _ rb(1), of "rungs g ! j"] members_in_refs [OF rb(2)] j ne
        by (meson disjoint_iff nth_mem subsetD)
      then show ?thesis using I(6) [of "rungs g ! j"] j False by (auto intro: pruned_self)
    qed (use p1 k in simp)
  qed simp
  note P = prune_inv [OF inv all, folded g2]
  have r1: "r1 \<in> set (rungs g2)" using k by (simp add: g2 restrict_nodes_def set_update_memI)
  let ?X = "set (node_ids g2)"
  have 3: "rewires ?X (g2, s) st3" unfolding eqs(6)
    using rewires_branches_after [OF P(1), unfolded fst_conv, OF r1] by simp
  have "anchorId b \<in> set (elementIds r1)"
    using I(6) [OF rb(1)] rb(2) by (simp add: anchors_ok_def eqs(4))
  then have "anchorId b \<in> ?X" using series_in_nodes [OF P(1) r1] by blast
  moreover have "\<And>t. succ = Some t \<Longrightarrow> t \<in> ?X"
    by (auto intro!: series_in_nodes [OF P(1) r1] seriesSuccessor_in simp: eqs(7))
  ultimately have "rewires ?X st3 (if truthy_id succ then push_wire (anchorId b) (the succ) None None st3 else st3)"
    by (intro rewires_push_to)
  then have "rewires ?X st3 (if truthy_id succ \<and>
               \<not> (\<exists>e \<in> set (edges (fst st3)). sourceId e = anchorId b \<and> Some (targetId e) = succ)
            then push_wire (anchorId b) (the succ) None None st3 else st3)"
    by (auto split: if_splits)
  with 3 have "rewires ?X (g2, s) (if truthy_id succ \<and>
               \<not> (\<exists>e \<in> set (edges (fst st3)). sourceId e = anchorId b \<and> Some (targetId e) = succ)
            then push_wire (anchorId b) (the succ) None None st3 else st3)"
    by (rule rewires_trans)
  then show "keeps g (ok (if truthy_id succ \<and>
               \<not> (\<exists>e \<in> set (edges (fst st3)). sourceId e = anchorId b \<and> Some (targetId e) = succ)
            then push_wire (anchorId b) (the succ) None None st3 else st3))"
    by (rule keeps_rewired [OF P(1) _ , rotated]) (use P(2) in simp_all)
qed

subsection \<open>Deleting an element\<close>

lemma set_node_rewires:
  assumes "\<And>n. node_key (f n) = node_key n"
  shows "rewires {} (g, s) (set_node i f g, s)"
proof (cases "findIndex (\<lambda>n. nid n = i) (nodes g)")
  case (Some k)
  then have k: "k < length (nodes g)" by (auto dest: findIndex_SomeD)
  have "map node_key ((nodes g)[k := f (nodes g ! k)]) = map node_key (nodes g)"
    using k assms by (simp add: map_update list_update_same_conv)
  with Some show ?thesis
    by (intro rewiresI [where ns = "(nodes g)[k := f (nodes g ! k)]" and es = "edges g"])
      (auto simp: set_node_def)
qed (simp add: set_node_def)

lemma restack_rewires: "rewires {} (g, s) (restack x ms g, s)"
proof -
  have "rewires {} (g, s) (foldl (\<lambda>g (k, m).
     set_node m (\<lambda>n. n\<lparr>npos := \<lparr>px = x, py = BRANCH_FIRST_Y + of_nat k * LD_GRID\<rparr>\<rparr>) g) g kms, s)" for kms
  proof (induction kms arbitrary: g)
    case (Cons km kms)
    obtain k m where km: "km = (k, m)" by (cases km)
    let ?g = "set_node m (\<lambda>n. n\<lparr>npos := \<lparr>px = x, py = BRANCH_FIRST_Y + of_nat k * LD_GRID\<rparr>\<rparr>) g"
    have "rewires {} (g, s) (?g, s)" by (rule set_node_rewires) (simp add: node_key_def)
    from rewires_trans [OF this Cons.IH [of ?g]] show ?case by (simp add: km)
  qed simp
  then show ?thesis by (simp add: restack_def)
qed

definition drop_member :: "string \<Rightarrow> branch \<Rightarrow> branch" where
  "drop_member i b = b\<lparr>members := filter (\<lambda>m. m \<noteq> i) (members b)\<rparr>"

lemma drop_member_simps [simp]: "bid (drop_member i b) = bid b" "brungId (drop_member i b) = brungId b"
  "anchorId (drop_member i b) = anchorId b"
  "members (drop_member i b) = filter (\<lambda>m. m \<noteq> i) (members b)"
  by (simp_all add: drop_member_def)

lemma drop_member_id: "i \<notin> set (members b) \<Longrightarrow> drop_member i b = b"
proof -
  assume "i \<notin> set (members b)"
  then have "filter (\<lambda>m. m \<noteq> i) (members b) = members b" by (auto simp: filter_id_conv)
  then show ?thesis by (simp add: drop_member_def)
qed

lemma prune_branches_spec:
  "prune_branches i bs g = (bs', ch, g') \<Longrightarrow>
     bs' = map (drop_member i) bs \<and> ch = (\<exists>b \<in> set bs. i \<in> set (members b))
     \<and> rewires {} (g, s) (g', s)"
proof (induction i bs g arbitrary: bs' ch g' rule: prune_branches.induct)
  case (2 i b bs g)
  show ?case
  proof (cases "i \<in> set (members b)")
    case True
    let ?g = "restack (bx b) (filter (\<lambda>m. m \<noteq> i) (members b)) g"
    obtain bs1 ch1 g1 where r: "prune_branches i bs ?g = (bs1, ch1, g1)" by (rule prod_cases3)
    note IH = "2.IH"(2) [OF _ refl r]
    have "rewires {} (g, s) (g1, s)"
      using rewires_trans [OF restack_rewires [of g s "bx b"]] IH True by blast
    with "2.prems" True r IH show ?thesis by (auto simp: Let_def drop_member_def)
  next
    case False
    obtain bs1 ch1 g1 where r: "prune_branches i bs g = (bs1, ch1, g1)" by (rule prod_cases3)
    from "2.prems" False r "2.IH"(1) [OF False r] show ?thesis by (auto simp: drop_member_id)
  qed
qed auto

text \<open>What is dropped with \<open>i\<close>, seen from one rung.\<close>

lemma in_drop_branch_ids:
  assumes inv: "ld_inv (g, s)" and r: "r \<in> set (rungs g)" "b \<in> set (rung_branches r)"
  shows "bid b \<in> set (drop_branch_ids g i) \<longleftrightarrow> anchorId b = i"
proof
  assume "bid b \<in> set (drop_branch_ids g i)"
  then obtain r' b' where "r' \<in> set (rungs g)" "b' \<in> set (rung_branches r')" "anchorId b' = i" "bid b = bid b'"
    by (auto simp: drop_branch_ids_def anchored_branches_def)
  then show "anchorId b = i" using branch_ids_share [OF inv r(1) _ r(2)] by blast
qed (use r in \<open>auto simp: drop_branch_ids_def anchored_branches_def\<close>)

lemma in_drop_node_ids:
  "x \<in> set (drop_node_ids g i) \<longleftrightarrow>
     x = i \<or> (\<exists>r \<in> set (rungs g). \<exists>b \<in> set (rung_branches r). anchorId b = i \<and> x \<in> set (members b))"
  by (auto simp: drop_node_ids_def anchored_branches_def)

lemma dropped_members:
  assumes inv: "ld_inv (g, s)" and r: "r \<in> set (rungs g)" "b \<in> set (rung_branches r)"
  shows "filter (\<lambda>x. x \<notin> set (drop_node_ids g i)) (members b)
    = (if anchorId b = i then [] else filter (\<lambda>x. x \<noteq> i) (members b))"
proof (cases "anchorId b = i")
  case True
  then have "x \<in> set (members b) \<Longrightarrow> x \<in> set (drop_node_ids g i)" for x
    using r by (auto simp: in_drop_node_ids)
  with True show ?thesis by (simp add: filter_empty_conv)
next
  case False
  have "x \<in> set (drop_node_ids g i) \<longleftrightarrow> x = i" if x: "x \<in> set (members b)" for x
  proof
    assume "x \<in> set (drop_node_ids g i)"
    then consider "x = i" | r' b' where "r' \<in> set (rungs g)" "b' \<in> set (rung_branches r')"
        "anchorId b' = i" "x \<in> set (members b')"
      by (auto simp: in_drop_node_ids)
    then show "x = i"
    proof cases
      case 2
      then have "r = r'" using rungs_share [OF inv r(1) 2(1)] x r(2) members_in_refs by blast
      with 2 have "b = b'" using branches_share [OF inv r] x by blast
      with 2 False show ?thesis by simp
    qed
  qed (simp add: in_drop_node_ids)
  with False show ?thesis by (auto cong: filter_cong)
qed

lemma anchor_survives:
  assumes inv: "ld_inv (g, s)" and r: "r \<in> set (rungs g)" "b \<in> set (rung_branches r)" "anchorId b \<noteq> i"
  shows "anchorId b \<notin> set (drop_node_ids g i)"
proof
  assume "anchorId b \<in> set (drop_node_ids g i)"
  then obtain r' b' where b': "r' \<in> set (rungs g)" "b' \<in> set (rung_branches r')" "anchorId b \<in> set (members b')"
    using r(3) by (auto simp: in_drop_node_ids)
  have a: "anchorId b \<in> set (elementIds r)" using ld_invD(6) [OF inv r(1)] r(2) by (simp add: anchors_ok_def)
  then have "r = r'" using rungs_share [OF inv r(1) b'(1)] elementIds_in_refs members_in_refs [OF b'(2)] b'(3) by blast
  with b' series_not_member [OF inv r(1) a] show False by blast
qed

text \<open>The rung that \<open>prune_rung\<close> puts in place of \<open>r\<close> when something changed.\<close>

definition pruned_rung :: "ld_graph \<Rightarrow> string \<Rightarrow> rung \<Rightarrow> rung" where
  "pruned_rung g i r = r\<lparr>elementIds := filter (\<lambda>x. x \<notin> set (drop_node_ids g i)) (elementIds r),
     branches := Some (filter (\<lambda>b. members b \<noteq> []) (map (drop_member i)
       (filter (\<lambda>b. bid b \<notin> set (drop_branch_ids g i)) (rung_branches r))))\<rparr>"

lemma pruned_rung_branches:
  assumes inv: "ld_inv (g, s)" and r: "r \<in> set (rungs g)"
  shows "rung_branches (pruned_rung g i r) = map (drop_member i)
    (filter (\<lambda>b. anchorId b \<noteq> i \<and> filter (\<lambda>m. m \<noteq> i) (members b) \<noteq> []) (rung_branches r))"
proof -
  have "filter (\<lambda>b. bid b \<notin> set (drop_branch_ids g i)) (rung_branches r)
      = filter (\<lambda>b. anchorId b \<noteq> i) (rung_branches r)"
    using in_drop_branch_ids [OF inv r] by (auto cong: filter_cong)
  then show ?thesis by (simp add: pruned_rung_def filter_map comp_def conj_commute)
qed

lemma pruned_rung_pruned:
  assumes inv: "ld_inv (g, s)" and r: "r \<in> set (rungs g)"
  shows "pruned (set (drop_node_ids g i)) r (pruned_rung g i r)"
proof -
  let ?D = "set (drop_node_ids g i)" and ?r = "pruned_rung g i r"
  let ?Q = "\<lambda>b. anchorId b \<noteq> i \<and> filter (\<lambda>m. m \<noteq> i) (members b) \<noteq> []"
  note bs = pruned_rung_branches [OF inv r, of i]
  have "concat (map (\<lambda>b. if anchorId b = i then [] else filter (\<lambda>x. x \<noteq> i) (members b)) cs)
      = concat (map members (map (drop_member i) (filter ?Q cs)))" for cs :: "branch list"
    by (induction cs) auto
  then have refs: "rung_refs ?r = filter (\<lambda>x. x \<notin> ?D) (rung_refs r)"
    using rung_refs_filter [of r ?D, OF dropped_members [OF inv r]]
    by (simp only: rung_refs_def bs) (simp add: pruned_rung_def)
  have "anchors_ok ?r"
    unfolding anchors_ok_def
  proof
    fix b assume "b \<in> set (rung_branches ?r)"
    then obtain c where c: "c \<in> set (rung_branches r)" "anchorId c \<noteq> i" "b = drop_member i c"
      by (auto simp: bs)
    with anchor_survives [OF inv r c(1,2)] ld_invD(6) [OF inv r]
    show "anchorId b \<in> set (elementIds ?r) \<and> brungId b = rid ?r"
      by (simp add: anchors_ok_def pruned_rung_def)
  qed
  moreover have "map bid (rung_branches ?r) = map bid (filter ?Q (rung_branches r))"
    by (simp add: bs)
  then have "\<exists>Q. map bid (rung_branches ?r) = map bid (filter Q (rung_branches r))"
    by (rule exI [of _ ?Q])
  moreover have "rid ?r = rid r" by (simp add: pruned_rung_def)
  ultimately show ?thesis using refs unfolding pruned_def by blast
qed

lemma filter_length_id: "length (filter P xs) = length xs \<Longrightarrow> filter P xs = xs"
  by (metis filter_id_conv length_filter_less less_irrefl)

lemma prune_rung_spec:
  assumes inv: "ld_inv (g, s)" and r: "r \<in> set (rungs g)"
    and st: "node_ids (fst st) = filter (\<lambda>x. x \<notin> set (drop_node_ids g i)) (node_ids g)"
    and run: "prune_rung i (drop_node_ids g i) (drop_branch_ids g i) r st = (r', st')"
  shows "pruned (set (drop_node_ids g i)) r r' \<and> rewires (set (node_ids (fst st))) st st'"
proof -
  let ?D = "set (drop_node_ids g i)" and ?X = "set (node_ids (fst st))"
  let ?bs0 = "filter (\<lambda>b. bid b \<notin> set (drop_branch_ids g i)) (rung_branches r)"
  let ?els = "filter (\<lambda>x. x \<notin> ?D) (elementIds r)"
  obtain bs1 ch g1 where p: "prune_branches i ?bs0 (fst st) = (bs1, ch, g1)" by (rule prod_cases3)
  from prune_branches_spec [OF this, of "snd st"]
  have bs1: "bs1 = map (drop_member i) ?bs0" and ch: "ch = (\<exists>b \<in> set ?bs0. i \<in> set (members b))"
    and g1: "rewires {} st (g1, snd st)" by simp_all
  let ?ne = "filter (\<lambda>b. members b \<noteq> []) bs1"
  let ?r = "pruned_rung g i r"
  note P = pruned_rung_pruned [OF inv r, of i]
  have r': "?r = r\<lparr>elementIds := ?els, branches := Some ?ne\<rparr>" by (simp only: pruned_rung_def bs1)
  have g1': "rewires ?X st (g1, snd st)" using g1 by (rule rewires_mono) simp
  show ?thesis
  proof (cases "length ?els \<noteq> length (elementIds r) \<or> ch \<or> length ?ne \<noteq> length bs1")
    case True
    then have "(?r, rewireRungBranches ?r (g1, snd st)) = (r', st')"
      using run unfolding prune_rung_def Let_def p prod.case r'
      by (simp only: if_False simp_thms)
    then have eq: "r' = ?r" "st' = rewireRungBranches ?r (g1, snd st)" by blast+
    have "set (rung_refs ?r) \<subseteq> ?X"
      using P rung_refs_in [OF r] ld_invD(4) [OF inv] by (auto simp: pruned_def st)
    then have "wire_ends (fst (g1, snd st)) ?r \<subseteq> ?X"
      using rail_ids_in_nodes [of g1] rewires_same(1) [OF g1'] by (simp add: wire_ends_def)
    then have "rewires ?X (g1, snd st) st'"
      unfolding eq(2) using P by (intro rewireRungBranches_rewires) (simp_all add: pruned_def)
    with g1' P show ?thesis unfolding eq(1) by (blast intro: rewires_trans)
  next
    case False
    then have eq: "r' = r" "st' = (g1, snd st)"
      using run unfolding prune_rung_def Let_def p prod.case by simp_all
    from False have els: "?els = elementIds r" and ne: "?ne = bs1" and nch: "\<not> ch"
      using filter_length_id by blast+
    have "bid b \<notin> set (drop_branch_ids g i)" if b: "b \<in> set (rung_branches r)" for b
    proof
      assume "bid b \<in> set (drop_branch_ids g i)"
      then have "anchorId b = i" using in_drop_branch_ids [OF inv r b] by simp
      then have "i \<in> set ?els" using ld_invD(6) [OF inv r] b els by (auto simp: anchors_ok_def)
      then show False by (simp add: in_drop_node_ids)
    qed
    then have bs0: "?bs0 = rung_branches r" by (simp add: filter_id_conv)
    have "map (drop_member i) (rung_branches r) = rung_branches r"
      using nch bs0 by (intro map_idI drop_member_id) (simp add: ch)
    then have "rung_branches ?r = rung_branches r" using bs0 ne by (simp add: r' bs1)
    moreover have "elementIds ?r = elementIds r" "rid ?r = rid r" using els by (simp_all add: r')
    ultimately have "pruned ?D r r" using P by (simp add: pruned_def rung_refs_def anchors_ok_def)
    with g1' show ?thesis by (simp add: eq)
  qed
qed

lemma prune_rungs_spec:
  assumes inv: "ld_inv (g, s)"
  shows "set rs \<subseteq> set (rungs g) \<Longrightarrow>
    node_ids (fst st) = filter (\<lambda>x. x \<notin> set (drop_node_ids g i)) (node_ids g) \<Longrightarrow>
    prune_rungs i (drop_node_ids g i) (drop_branch_ids g i) rs st = (rs', st') \<Longrightarrow>
    list_all2 (pruned (set (drop_node_ids g i))) rs rs' \<and> rewires (set (node_ids (fst st))) st st'"
proof (induction rs arbitrary: st rs' st')
  case (Cons r rs)
  obtain r1 st1 where one: "prune_rung i (drop_node_ids g i) (drop_branch_ids g i) r st = (r1, st1)"
    by (rule prod.exhaust)
  obtain rs2 st2 where more: "prune_rungs i (drop_node_ids g i) (drop_branch_ids g i) rs st1 = (rs2, st2)"
    by (rule prod.exhaust)
  have 1: "pruned (set (drop_node_ids g i)) r r1" "rewires (set (node_ids (fst st))) st st1"
    using prune_rung_spec [OF inv _ Cons.prems(2) one] Cons.prems(1) by auto
  note ids = rewires_same(1) [OF 1(2)]
  have 2: "list_all2 (pruned (set (drop_node_ids g i))) rs rs2"
    "rewires (set (node_ids (fst st1))) st1 st2"
    using Cons.IH [OF _ _ more] Cons.prems(1,2) ids by auto
  from 1 2 Cons.prems(3) show ?case
    by (auto simp: one more ids intro: rewires_trans)
qed simp

lemma deleteElement_keeps: "keeps g (deleteElement g i s)" if inv: "ld_inv (g, s)"
proof (cases "findNode g i = None")
  case True
  have "keeps g (ok (filter_edges (\<lambda>e. eid e \<noteq> i) (g, s)))"
    by (intro keeps_rewired [OF inv, where X = "{}"] rewires_filter) simp_all
  with True show ?thesis by (simp add: deleteElement_def Let_def filter_edges_def)
next
  case False
  let ?D = "set (drop_node_ids g i)"
  let ?g1 = "restrict_nodes ?D (rungs g) g"
  obtain rs st where run: "prune_rungs i (drop_node_ids g i) (drop_branch_ids g i) (rungs g) (?g1, s) = (rs, st)"
    by (rule prod.exhaust)
  have ids: "node_ids ?g1 = filter (\<lambda>x. x \<notin> ?D) (node_ids g)"
    by (simp add: restrict_nodes_def node_ids_def filter_map comp_def)
  have 1: "list_all2 (pruned ?D) (rungs g) rs" "rewires (set (node_ids ?g1)) (?g1, s) st"
    using prune_rungs_spec [OF inv _ _ run] ids by simp_all
  note P = prune_inv [OF inv 1(1)]
  have g2: "?g1\<lparr>rungs := rs\<rparr> = restrict_nodes ?D rs g" by (simp add: restrict_nodes_def)
  have "rewires (set (node_ids ?g1)) (restrict_nodes ?D rs g, s) ((fst st)\<lparr>rungs := rs\<rparr>, snd st)"
    using rewires_rungs [of _ ?g1 s "fst st" "snd st" rs] 1(2) by (simp add: g2)
  then have "keeps g (ok ((fst st)\<lparr>rungs := rs\<rparr>, snd st))"
    by (rule keeps_rewired [OF P(1) _, rotated]) (use P(2) in \<open>simp_all add: node_ids_restrict\<close>)
  moreover have "g\<lparr>edges := filter (\<lambda>e. sourceId e \<notin> ?D \<and> targetId e \<notin> ?D) (edges g),
      nodes := filter (\<lambda>n. nid n \<notin> ?D) (nodes g)\<rparr> = ?g1"
    by (simp add: restrict_nodes_def)
  moreover have "rungs ?g1 = rungs g" by (simp add: restrict_nodes_def)
  ultimately show ?thesis
    using False run by (simp add: deleteElement_def Let_def)
qed

subsection \<open>Rungs, rails and branches\<close>

lemma generate_inv:
  assumes "ld_inv (g, s)" "generateId p s = (i, s')" "CHR ''-'' \<notin> set p"
  shows "ld_inv (g, s')" "i \<notin> all_ids g" "fresh_for s' (insert i (all_ids g))"
proof -
  note F = fresh_for_generate [OF assms(2,3) ld_invD(9) [OF assms(1)]]
  show "i \<notin> all_ids g" "fresh_for s' (insert i (all_ids g))" by (rule F)+
  then have "fresh_for s' (all_ids g)" by (blast intro: fresh_for_subset)
  with assms(1) show "ld_inv (g, s')" by (simp add: ld_inv_def)
qed

lemma push_rung_inv:
  assumes inv: "ld_inv (g, s)" and r: "createRung k [] c s = (r, s')"
  shows "ld_inv (g\<lparr>rungs := rungs g @ [r]\<rparr>, s')" "owned (g\<lparr>rungs := rungs g @ [r]\<rparr>) = owned g"
proof -
  let ?g = "g\<lparr>rungs := rungs g @ [r]\<rparr>"
  from r have gen: "generateId ''rung'' s = (rid r, s')" and e: "elementIds r = []" "branches r = None"
    by (auto simp: createRung_def split: prod.splits)
  note I = ld_invD [OF inv]
  note F = generate_inv [OF inv gen, simplified]
  have bs: "rung_branches r = []" using e by (simp add: rung_branches_def)
  have ids: "node_ids ?g = node_ids g" "rung_node_ids ?g = rung_node_ids g" "branch_ids ?g = branch_ids g"
    using e by (simp_all add: node_ids_def rung_node_ids_def branch_ids_def rung_refs_def bs)
  have "rid r \<notin> rid ` set (rungs g)" using F(2) by (auto simp: all_ids_def)
  then have "topo_wf ?g" using I by (auto simp: topo_wf_def ids anchors_ok_def bs)
  moreover have "all_ids ?g = insert (rid r) (all_ids g)" by (auto simp: all_ids_def ids)
  ultimately show "ld_inv (?g, s')"
    using I F(3) by (simp add: ld_inv_def edges_wf_def edges_resolve_def ids)
  show "owned ?g = owned g" by (simp add: owned_def ids)
qed

lemma push_rail_inv:
  assumes inv: "ld_inv (g, s)" and n: "createPowerRail side p h s = (n, s')"
  shows "ld_inv (push_node n g, s')" "owned g \<Longrightarrow> owned (push_node n g)"
proof -
  from n have gen: "generateId ''powerrail'' s = (nid n, s')" and d: "ndata n = PowerRail side"
    by (auto simp: createPowerRail_def split: prod.splits)
  show "ld_inv (push_node n g, s')" by (rule push_node_inv [OF inv gen]) simp_all
  show "owned g \<Longrightarrow> owned (push_node n g)" by (auto simp: owned_def push_node_def rung_node_ids_def d)
qed

lemma addRung_keeps: "keeps g (addRung g s)" if inv: "ld_inv (g, s)"
  unfolding addRung_def cloneGraph_eq
proof (intro keeps_steps)
  fix g0 k x r s1 g1
  assume g0: "g0 = g" and "x = createRung k [] (if k = 1 then Some ''Main'' else None) s" "x = (r, s1)"
    and g1: "g1 = g0\<lparr>rungs := rungs g0 @ [r]\<rparr>"
  then have r: "createRung k [] (if k = 1 then Some ''Main'' else None) s = (r, s1)" by simp
  note R = push_rung_inv [OF inv r, folded g1 [unfolded g0]]
  show "keeps g (ok (g1, s1))" using R by (intro keeps_ok) simp_all
  fix h y left s2 z right s3
  assume y: "y = createPowerRail LeftRail (Some origin) (Some h) s1" "y = (left, s2)"
    and z: "z = createPowerRail RightRail (Some \<lparr>px = COIL_X_OFFSET + CONTACT_SIZE + RAIL_WIDTH, py = 0\<rparr>)
      (Some h) s2" "z = (right, s3)"
  note L = push_rail_inv [OF R(1) trans [OF y(1) [symmetric] y(2)]]
  note T = push_rail_inv [OF L(1) trans [OF z(1) [symmetric] z(2)]]
  show "keeps g (ok (push_node right (push_node left g1), s3))"
    using T L R by (intro keeps_ok) simp_all
qed

lemma addPowerRail_keeps: "keeps g (addPowerRail g side s)" if inv: "ld_inv (g, s)"
  unfolding addPowerRail_def cloneGraph_eq
proof (intro keeps_steps keeps_same inv)
  fix x p rail s1
  assume p: "p = createPowerRail side (Some \<lparr>px = x, py = 0\<rparr>) None s" "p = (rail, s1)"
  note P = push_rail_inv [OF inv trans [OF p(1) [symmetric] p(2)]]
  show "keeps g (ok (push_node rail g, s1))" using P by (intro keeps_ok) simp_all
qed

lemma openBranch_keeps: "keeps g (openBranch g rungId a s)" if inv: "ld_inv (g, s)"
  unfolding openBranch_def cloneGraph_eq
proof (intro keeps_steps keeps_throw)
  fix r x p b s1
  assume "findRung g rungId = Inr r" and a: "\<not> a \<notin> set (elementIds r)"
    and p: "p = createBranch (rid r) a x s" "p = (b, s1)"
  then have r: "r \<in> set (rungs g)" by (simp add: findRung_in)
  let ?r = "r\<lparr>branches := Some (rung_branches r @ [b])\<rparr>"
  from p have gen: "generateId ''branch'' s = (bid b, s1)"
    and b: "members b = []" "anchorId b = a" "brungId b = rid r"
    by (auto simp: createBranch_def split: prod.splits)
  note F = generate_inv [OF inv gen, simplified]
  note I = ld_invD [OF F(1)]
  have refs: "rung_refs ?r = rung_refs r" by (simp add: rung_refs_def b)
  have new: "bid b \<notin> set (branch_ids g)" using F(2) by (simp add: all_ids_def)
  have old: "bid ` set (rung_branches r) \<subseteq> set (branch_ids g)" using r by (auto simp: branch_ids_def)
  have "bid b \<notin> bid ` set (rung_branches r)" using new old by blast
  moreover have "distinct (map bid (rung_branches r))"
    using I(5) r by (auto simp: branch_ids_def distinct_concat_iff)
  ultimately have d: "distinct (map bid (rung_branches ?r))" by simp
  have "anchors_ok ?r" using I(6) [OF r] a b by (auto simp: anchors_ok_def)
  moreover have "bid ` set (rung_branches ?r) \<subseteq> insert (bid b) (all_ids g)"
    using old by (auto simp: all_ids_def)
  then have "fresh_for s1 (bid ` set (rung_branches ?r))" using F(3) fresh_for_subset by blast
  ultimately have "ld_inv (set_rung (rid r) ?r g, s1)"
    using rung_refs_distinct [OF r I(3)] rung_refs_in [OF r] I(4) d new
    by (intro set_rung_inv(1) [OF F(1) r]) (auto simp: refs)
  moreover have "set (rung_node_ids (set_rung (rid r) ?r g)) = set (rung_node_ids g)"
    using set_rung_owned [OF inv r, of ?r] rung_refs_in [OF r] by (auto simp: refs)
  ultimately show "keeps g (ok (set_rung (rid r) ?r g, s1))"
    by (intro keeps_ok) (auto simp: owned_def)
qed

lemma closeBranch_keeps: "keeps g (closeBranch g i s)" if "ld_inv (g, s)"
  unfolding closeBranch_def by (intro keeps_steps keeps_throw keeps_same that)

lemma addBranchContact_keeps: "keeps g (addBranchContact g i ct s)" if inv: "ld_inv (g, s)"
  unfolding addBranchContact_def cloneGraph_eq
proof (intro keeps_steps)
  fix q r0 b r x p n s1 g1 bs r1 g2
  assume fb: "findBranch g i = Inr q" "q = (r0, b)" and fr: "findRung g (brungId b) = Inr r"
    and p: "p = createContact (opt_or ct NO) (''IN'' @ nat_to_dec (count_nodes is_contact g))
      (Some \<lparr>px = x, py = BRANCH_FIRST_Y + of_nat (length (members b)) * LD_GRID\<rparr>) s" "p = (n, s1)"
    and eqs: "g1 = push_node n g" "bs = map (\<lambda>c. if bid c = bid b then c\<lparr>members := members c @ [nid n]\<rparr> else c)
        (rung_branches r)" "r1 = r\<lparr>branches := Some bs\<rparr>" "g2 = set_rung (rid r) r1 g1"
  have r0: "r0 \<in> set (rungs g)" "b \<in> set (rung_branches r0)" using fb findBranch_in by blast+
  have r: "r \<in> set (rungs g)" "rid r = brungId b" using fr findRung_in by blast+
  have "brungId b = rid r0" using ld_invD(6) [OF inv r0(1)] r0(2) by (simp add: anchors_ok_def)
  then have same: "r = r0"
    using ld_invD(2) [OF inv] r r0(1) by (simp add: distinct_map inj_on_def)
  from p have gen: "generateId ''contact'' s = (nid n, s1)"
    by (auto simp: createContact_def split: prod.splits)
  note P = push_node_inv [OF inv gen _ refl, folded eqs(1), simplified]
  have rg: "r \<in> set (rungs g1)" using r by (simp add: eqs)
  note I = ld_invD [OF P(1)]
  have fresh: "nid n \<notin> set (rung_node_ids g1)" using fresh_not_listed [OF inv P(2)] by (simp add: eqs)
  have b: "b \<in> set (rung_branches r)" using r0 same by simp
  have bd: "distinct (map bid (rung_branches r))"
    using I(5) rg by (auto simp: branch_ids_def distinct_concat_iff)
  obtain xs ys where xy: "rung_branches r = xs @ b # ys" using split_list [OF b] by blast
  then have "bid b \<notin> bid ` set xs" "bid b \<notin> bid ` set ys" using bd by auto
  then have "map (\<lambda>c. if bid c = bid b then c\<lparr>members := members c @ [nid n]\<rparr> else c) zs = zs"
    if "zs = xs \<or> zs = ys" for zs
    using that by (intro map_idI) (auto simp: image_iff)
  then have bs: "bs = xs @ b\<lparr>members := members b @ [nid n]\<rparr> # ys" by (simp add: eqs(2) xy)
  have bs1: "rung_branches r1 = bs" by (simp add: eqs(3))
  have ms: "mset (rung_refs r1) = add_mset (nid n) (mset (rung_refs r))"
    by (simp add: rung_refs_def bs1 bs xy) (simp add: eqs(3))
  have refs: "set (rung_refs r1) = insert (nid n) (set (rung_refs r))"
    using arg_cong [OF ms, of set_mset] by simp
  have "distinct (nid n # rung_refs r)"
    using rung_refs_distinct [OF rg I(3)] rung_refs_in [OF rg] fresh by auto
  then have dist: "distinct (rung_refs r1)" using mset_eq_imp_distinct_iff [of "rung_refs r1" "nid n # rung_refs r"] ms
    by simp
  have ids: "map bid bs = map bid (rung_branches r)" by (simp add: bs xy)
  then have bset: "bid ` set (rung_branches r1) = bid ` set (rung_branches r)"
    unfolding bs1 by (metis set_map)
  have anch: "anchors_ok r1" using I(6) [OF rg] by (auto simp: anchors_ok_def bs1 bs xy) (simp_all add: eqs(3))
  have bfresh: "fresh_for s1 (bid ` set (rung_branches r))"
    using I(9) rg by (auto simp: branch_ids_def all_ids_def intro: fresh_for_subset)
  have sub: "set (rung_refs r1) \<subseteq> set (node_ids g1)"
    using refs rung_refs_in [OF rg] I(4) by (auto simp: eqs(1))
  have new: "set (rung_refs r1) \<inter> set (rung_node_ids g1) \<subseteq> set (rung_refs r)" using refs fresh by auto
  have S: "ld_inv (g2, s1)" "r1 \<in> set (rungs g2)" unfolding eqs(4)
    by (rule set_rung_inv [OF P(1) rg]; use dist sub new anch bd ids bset bfresh in \<open>simp add: bs1 eqs(3)\<close>)+
  have own: "owned g2" if "owned g"
  proof -
    have "set (rung_node_ids g2) = set (rung_node_ids g) \<union> set (rung_refs r1)"
      unfolding eqs(4) using set_rung_owned [OF P(1) rg, of r1] refs by (auto simp: eqs(1))
    moreover have "nodes g2 = nodes g @ [n]" by (simp add: eqs(4,1) push_node_def)
    ultimately show ?thesis using that refs by (auto simp: owned_def)
  qed
  have "rewires (set (node_ids g2)) (g2, s1) (rewireRungBranches r1 (g2, s1))"
    using rewires_branches_after [OF S(1), unfolded fst_conv, OF S(2)] by simp
  then show "keeps g (ok (rewireRungBranches r1 (g2, s1)))"
    by (rule keeps_rewired [OF S(1), rotated]) (use own in simp_all)
qed

subsection \<open>Paste\<close>

text \<open>
  Copies of contacts, coils and function blocks get new ids. A comparison node is returned
  as it is, so the operation keeps the invariant only for sources without comparisons.
\<close>

fun is_comparison_data :: "node_data \<Rightarrow> bool" where
  "is_comparison_data (Comparison op a b) = True"
| "is_comparison_data d = False"

lemma paste_copy_fresh:
  assumes c: "paste_copy n s = (n', s')" and f: "fresh_for s X"
    and n: "\<not> is_powerrail (ndata n)" "\<not> is_comparison_data (ndata n)"
  shows "nid n' \<notin> X" "fresh_for s' (insert (nid n') X)"
proof -
  obtain i s1 where g: "generateId ''paste'' s = (i, s1)" by (rule prod.exhaust)
  note F = fresh_for_generate [OF g _ f, simplified]
  obtain p j where p: "CHR ''-'' \<notin> set p" "generateId p s1 = (j, s')" and i: "nid n' = i"
  proof (cases "ndata n")
    case (Contact t v k)
    with c g that [of "''contact''"] show thesis
      by (auto simp: paste_copy_def createContact_def Let_def split: prod.splits)
  next
    case (Coil t v k)
    with c g that [of "''coil''"] show thesis
      by (auto simp: paste_copy_def createCoil_def Let_def split: prod.splits)
  next
    case (FbBox t v k)
    with c g that [of "''fb''"] show thesis
      by (auto simp: paste_copy_def createFb_def Let_def split: prod.splits)
  qed (use n in auto)
  show "nid n' \<notin> X" using F(1) i by simp
  have "fresh_for s' (insert j (insert i X))" using fresh_for_generate(2) [OF p(2,1) F(2)] .
  then show "fresh_for s' (insert (nid n') X)" unfolding i by (rule fresh_for_subset) auto
qed

lemma paste_copies_fresh:
  "paste_copies ns s = (ns', s') \<Longrightarrow> fresh_for s X \<Longrightarrow>
    (\<And>n. n \<in> set ns \<Longrightarrow> \<not> is_powerrail (ndata n) \<and> \<not> is_comparison_data (ndata n)) \<Longrightarrow>
    set (map nid ns') \<inter> X = {} \<and> distinct (map nid ns') \<and> fresh_for s' (nid ` set ns' \<union> X)"
proof (induction ns arbitrary: s ns' X)
  case (Cons n ns)
  obtain m s1 where m: "paste_copy n s = (m, s1)" by (rule prod.exhaust)
  obtain ms s2 where ms: "paste_copies ns s1 = (ms, s2)" by (rule prod.exhaust)
  have eq: "ns' = m # ms" "s' = s2" using Cons.prems(1) m ms by (simp_all add: Let_def)
  have one: "nid m \<notin> X" "fresh_for s1 (insert (nid m) X)"
    using paste_copy_fresh [OF m Cons.prems(2)] Cons.prems(3) [of n] by simp_all
  from Cons.IH [OF ms [folded eq(2)] one(2)] Cons.prems(3)
  have "set (map nid ms) \<inter> insert (nid m) X = {}" "distinct (map nid ms)"
      "fresh_for s' (nid ` set ms \<union> insert (nid m) X)"
    by simp_all
  with one(1) show ?case unfolding eq(1) by (auto intro: fresh_for_subset)
qed simp

lemma push_nodes_inv:
  assumes inv: "ld_inv (g, s)" and d: "distinct (map nid ns)" "set (map nid ns) \<inter> all_ids g = {}"
    and f: "fresh_for s' (nid ` set ns \<union> all_ids g)"
  shows "ld_inv (g\<lparr>nodes := nodes g @ ns\<rparr>, s')"
proof -
  let ?g = "g\<lparr>nodes := nodes g @ ns\<rparr>"
  note I = ld_invD [OF inv]
  have ids: "node_ids ?g = node_ids g @ map nid ns" "rung_node_ids ?g = rung_node_ids g"
    "branch_ids ?g = branch_ids g"
    by (simp_all add: node_ids_def rung_node_ids_def branch_ids_def)
  have "set (node_ids g) \<inter> set (map nid ns) = {}" using d(2) by (auto simp: all_ids_def)
  then have "topo_wf ?g" using I d(1) unfolding topo_wf_def ids by auto
  moreover have "edges_wf ?g" using I(7,8) by (auto simp: edges_wf_def edges_resolve_def ids)
  moreover have "all_ids ?g = nid ` set ns \<union> all_ids g" by (auto simp: all_ids_def ids)
  ultimately show ?thesis using f by (simp add: ld_inv_def)
qed

lemma pasteElements_keeps: "keeps g (pasteElements g ids rungId idx s)"
  if inv: "ld_inv (g, s)" and ok: "\<And>n. n \<in> set (paste_sources g ids) \<Longrightarrow> \<not> is_comparison_data (ndata n)"
  unfolding pasteElements_def cloneGraph_eq
proof (intro keeps_steps keeps_throw)
  fix r sources g0 p pasted s1 g1 k r1 g2
  assume fr: "findRung g rungId = Inr r" and src: "sources = paste_sources g ids"
    and p: "p = paste_copies sources s" "p = (pasted, s1)"
    and eqs: "g0 = g" "g1 = g0\<lparr>nodes := nodes g0 @ pasted\<rparr>" "k = clamp_index idx (length (elementIds r))"
      "r1 = r\<lparr>elementIds := splice_insert k (map nid pasted) (elementIds r)\<rparr>" "g2 = set_rung (rid r) r1 g1"
  have r: "r \<in> set (rungs g)" using fr by (simp add: findRung_in)
  have good: "\<not> is_powerrail (ndata n) \<and> \<not> is_comparison_data (ndata n)" if "n \<in> set sources" for n
    using that ok by (auto simp: src paste_sources_def)
  note C = paste_copies_fresh [OF trans [OF p(1) [symmetric] p(2)] ld_invD(9) [OF inv] good]
  have G: "ld_inv (g1, s1)"
    using push_nodes_inv [OF inv, of pasted s1] C by (simp add: eqs(1,2))
  have ids: "rung_node_ids g1 = rung_node_ids g" "node_ids g1 = node_ids g @ map nid pasted"
    by (simp_all add: eqs(1,2) rung_node_ids_def node_ids_def)
  have r': "r \<in> set (rungs g1)" using r by (simp add: eqs(1,2))
  have new: "distinct (map nid pasted)" "set (map nid pasted) \<subseteq> set (node_ids g1)"
    "set (map nid pasted) \<inter> set (rung_node_ids g1) = {}"
    using C fresh_not_listed [OF inv] by (auto simp: ids)
  note S = insert_series_inv [OF G r' new eqs(4), folded eqs(5)]
  have own: "owned g2" if "owned g"
    using that S(3) ids(1) by (auto simp: owned_def eqs(5,2,1))
  have "rewires (set (node_ids g2)) (g2, s1) (rewireRungSeries r1 (g2, s1))"
    using wire_ends_ok [OF S(1)] anchors_okD [OF S(1)] S(2)
    by (intro rewireRungSeries_rewires) simp_all
  then show "keeps g (ok (rewireRungSeries r1 (g2, s1)))"
    by (rule keeps_rewired [OF S(1), rotated]) (use own in simp_all)
qed

end
