(* ===== verification/EditMachine.thy ===== *)
theory EditMachine
  imports JsPrelude
begin

text \<open>
  An editor as a state machine: an operation takes the document and the id generator and
  throws or returns the next document. The interface \<open>edit_machine\<close> is what the handler of an
  editor promises: an allowed operation keeps the invariant, and a throwing one draws no ids.
  The ladder and the function block editor both provide it.
\<close>

subsection \<open>Runs of an editor\<close>

text \<open>The UI's \<open>tryApply\<close>: a thrown operation leaves the document as it was.\<close>

definition attempt ::
  "('op \<Rightarrow> 'g \<Rightarrow> 's \<Rightarrow> ('e + 'g) \<times> 's) \<Rightarrow> 'op \<Rightarrow> 'g \<times> 's \<Rightarrow> 'g \<times> 's" where
  "attempt exec op st = (case exec op (fst st) (snd st) of
     (Inl e, s') \<Rightarrow> (fst st, s') | (Inr g', s') \<Rightarrow> (g', s'))"

text \<open>One edit: the operation was allowed and returned.\<close>

inductive edit_step ::
  "('op \<Rightarrow> 'g \<Rightarrow> 's \<Rightarrow> ('e + 'g) \<times> 's) \<Rightarrow> ('op \<Rightarrow> 'g \<Rightarrow> bool) \<Rightarrow> 'g \<times> 's \<Rightarrow> 'g \<times> 's \<Rightarrow> bool"
  for exec allowed where
  edit_stepI: "allowed op g \<Longrightarrow> exec op g s = (Inr g', s') \<Longrightarrow> edit_step exec allowed (g, s) (g', s')"

inductive edited ::
  "('op \<Rightarrow> 'g \<Rightarrow> 's \<Rightarrow> ('e + 'g) \<times> 's) \<Rightarrow> ('op \<Rightarrow> 'g \<Rightarrow> bool) \<Rightarrow> 'g \<times> 's \<Rightarrow> 'g \<times> 's \<Rightarrow> bool"
  for exec allowed st0 where
  edited_refl: "edited exec allowed st0 st0"
| edited_step: "edited exec allowed st0 st \<Longrightarrow> edit_step exec allowed st st' \<Longrightarrow> edited exec allowed st0 st'"

inductive_cases edit_stepE: "edit_step exec allowed st st'"

inductive_simps edit_step_pair: "edit_step exec allowed (g, s) (g', s')"

text \<open>A script of attempts, each allowed when its turn comes.\<close>

fun run_script ::
  "('op \<Rightarrow> 'g \<Rightarrow> 's \<Rightarrow> ('e + 'g) \<times> 's) \<Rightarrow> 'op list \<Rightarrow> 'g \<times> 's \<Rightarrow> 'g \<times> 's" where
  "run_script exec [] st = st"
| "run_script exec (op # ops) st = run_script exec ops (attempt exec op st)"

fun script_allowed ::
  "('op \<Rightarrow> 'g \<Rightarrow> 's \<Rightarrow> ('e + 'g) \<times> 's) \<Rightarrow> ('op \<Rightarrow> 'g \<Rightarrow> bool) \<Rightarrow> 'op list \<Rightarrow> 'g \<times> 's \<Rightarrow> bool" where
  "script_allowed exec allowed [] st = True"
| "script_allowed exec allowed (op # ops) st =
     (allowed op (fst st) \<and> script_allowed exec allowed ops (attempt exec op st))"

subsection \<open>The interface\<close>

locale edit_machine =
  fixes exec :: "'op \<Rightarrow> 'g \<Rightarrow> 's \<Rightarrow> ('e + 'g) \<times> 's"
    and allowed :: "'op \<Rightarrow> 'g \<Rightarrow> bool"
    and good :: "'g \<times> 's \<Rightarrow> bool"
  assumes exec_good: "good (g, s) \<Longrightarrow> allowed op g \<Longrightarrow> exec op g s = (Inr g', s') \<Longrightarrow> good (g', s')"
    and exec_throw: "exec op g s = (Inl e, s') \<Longrightarrow> s' = s"
begin

lemma step_good: "edit_step exec allowed st st' \<Longrightarrow> good st \<Longrightarrow> good st'"
  by (auto elim!: edit_stepE intro: exec_good)

lemma edited_good: "edited exec allowed st0 st \<Longrightarrow> good st0 \<Longrightarrow> good st"
  by (induction rule: edited.induct) (auto intro: step_good)

lemma attempt_cases:
  assumes "allowed op (fst st)"
  shows "attempt exec op st = st \<or> edit_step exec allowed st (attempt exec op st)"
proof (cases "exec op (fst st) (snd st)")
  case (Pair r s')
  show ?thesis
  proof (cases r)
    case (Inl e)
    with Pair exec_throw have "s' = snd st" by blast
    with Inl Pair show ?thesis by (simp add: attempt_def)
  next
    case (Inr g')
    with Pair assms have "edit_step exec allowed (fst st, snd st) (g', s')"
      by (intro edit_stepI) simp_all
    with Inr Pair show ?thesis by (simp add: attempt_def)
  qed
qed

lemma script_edited:
  assumes "edited exec allowed st0 st" "script_allowed exec allowed ops st"
  shows "edited exec allowed st0 (run_script exec ops st)"
  using assms
proof (induction ops arbitrary: st)
  case (Cons op ops)
  then have "edited exec allowed st0 (attempt exec op st)"
    using attempt_cases [of op st] by (auto intro: edited_step)
  with Cons show ?case by simp
qed simp

lemma script_good: "good st \<Longrightarrow> script_allowed exec allowed ops st \<Longrightarrow> good (run_script exec ops st)"
  by (rule edited_good [OF script_edited [OF edited_refl]])

end

end
