(* ===== verification/LdMachine.thy ===== *)
theory LdMachine
  imports LdPreserve EditMachine
begin

text \<open>
  The ladder handler as one machine: a datatype with the handler's operations, their
  dispatch, the exception behaviour all of them share, and the interpretation of the
  \<open>edit_machine\<close> interface by them.
\<close>

datatype ld_op =
    AddContact add_contact_params
  | AddCoil coil_type string
  | AddFb add_fb_params
  | DeleteElement string
  | ReorderElement string int
  | ConnectWire string string "point list option"
  | DisconnectWire string
  | ChangeCoilType string coil_type
  | ChangeContactType string contact_type
  | SetRungTitle string string
  | SetRungComment string string
  | SetElementComment string string
  | RenameVariable string string
  | AddRung
  | DeleteRung string
  | MoveRung string int
  | AddPowerRail rail_side
  | OpenBranch string string
  | AddBranchContact string "contact_type option"
  | CloseBranch string
  | DeleteBranch string
  | PasteElements "string list" string int
  | ReplaceElement string ld_node

fun run_op :: "ld_op \<Rightarrow> ld_graph \<Rightarrow> idgen \<Rightarrow> ld_result" where
  "run_op (AddContact p) g s = addContact g p s"
| "run_op (AddCoil t r) g s = addCoil g t r s"
| "run_op (AddFb p) g s = addFb g p s"
| "run_op (DeleteElement i) g s = deleteElement g i s"
| "run_op (ReorderElement i k) g s = reorderElement g i k s"
| "run_op (ConnectWire a b pts) g s = connectWire g a b pts s"
| "run_op (DisconnectWire i) g s = disconnectWire g i s"
| "run_op (ChangeCoilType i t) g s = changeCoilType g i t s"
| "run_op (ChangeContactType i t) g s = changeContactType g i t s"
| "run_op (SetRungTitle r x) g s = setRungTitle g r x s"
| "run_op (SetRungComment r x) g s = setRungComment g r x s"
| "run_op (SetElementComment i x) g s = setElementComment g i x s"
| "run_op (RenameVariable i x) g s = renameVariable g i x s"
| "run_op AddRung g s = addRung g s"
| "run_op (DeleteRung r) g s = deleteRung g r s"
| "run_op (MoveRung r k) g s = moveRung g r k s"
| "run_op (AddPowerRail side) g s = addPowerRail g side s"
| "run_op (OpenBranch r a) g s = openBranch g r a s"
| "run_op (AddBranchContact b t) g s = addBranchContact g b t s"
| "run_op (CloseBranch b) g s = closeBranch g b s"
| "run_op (DeleteBranch b) g s = deleteBranch g b s"
| "run_op (PasteElements ids r k) g s = pasteElements g ids r k s"
| "run_op (ReplaceElement i n) g s = replaceElement g i n s"

subsection \<open>A throwing operation draws no ids\<close>

definition quiet :: "idgen \<Rightarrow> ld_result \<Rightarrow> bool" where
  "quiet s res \<longleftrightarrow> (\<forall>e s'. res = (Inl e, s') \<longrightarrow> s' = s)"

lemma quiet_results [simp]: "quiet s (throw msg s)" "quiet s (ok st)" "quiet s (Inl e, s)"
  by (simp_all add: quiet_def throw_def ok_def)

lemma quiet_withE: "(\<And>a. m = Inr a \<Longrightarrow> quiet s (f a)) \<Longrightarrow> quiet s (withE m f s)"
  by (cases m) simp_all

lemma quiet_let: "(\<And>x. quiet s (f x)) \<Longrightarrow> quiet s (let x = e in f x)"
  by simp

lemma quiet_pair: "(\<And>a b. quiet s (f a b)) \<Longrightarrow> quiet s (case p of (a, b) \<Rightarrow> f a b)"
  by (cases p) simp

lemma quiet_if: "quiet s x \<Longrightarrow> quiet s y \<Longrightarrow> quiet s (if P then x else y)"
  by simp

lemma quiet_option: "quiet s x \<Longrightarrow> (\<And>a. quiet s (f a)) \<Longrightarrow> quiet s (case m of None \<Rightarrow> x | Some a \<Rightarrow> f a)"
  by (cases m) simp_all

lemma quiet_data:
  "(\<And>a b c. quiet s (f1 a b c)) \<Longrightarrow> (\<And>a b c. quiet s (f2 a b c)) \<Longrightarrow> (\<And>a b c. quiet s (f3 a b c)) \<Longrightarrow>
   (\<And>a. quiet s (f4 a)) \<Longrightarrow> (\<And>a b c. quiet s (f5 a b c)) \<Longrightarrow>
   quiet s (case d of Contact a b c \<Rightarrow> f1 a b c | Comparison a b c \<Rightarrow> f2 a b c | Coil a b c \<Rightarrow> f3 a b c
     | PowerRail a \<Rightarrow> f4 a | FbBox a b c \<Rightarrow> f5 a b c)"
  by (cases d) simp_all

lemmas quiet_steps = quiet_withE quiet_let quiet_pair quiet_if quiet_option quiet_data quiet_results

lemmas op_defs = addContact_def addCoil_def addFb_def deleteElement_def reorderElement_def
  connectWire_def disconnectWire_def changeCoilType_def changeContactType_def setRungTitle_def
  setRungComment_def renameVariable_def rename_to_def addRung_def
  deleteRung_def moveRung_def addPowerRail_def openBranch_def addBranchContact_def
  closeBranch_def deleteBranch_def pasteElements_def replaceElement_def

lemma setElementComment_quiet: "quiet s (setElementComment g i x s)"
  unfolding setElementComment_def Let_def by (intro quiet_steps)

lemma run_op_quiet: "quiet s (run_op op g s)"
proof (cases op)
  case (SetElementComment i x)
  then show ?thesis by (simp add: setElementComment_quiet)
qed (simp only: run_op.simps op_defs; intro quiet_steps)+

lemma run_op_throw: "run_op op g s = (Inl e, s') \<Longrightarrow> s' = s"
  using run_op_quiet [of s op g] by (simp add: quiet_def)

subsection \<open>Preservation by every operation\<close>

text \<open>
  The operations that may leave the invariant: pasting a comparison duplicates its id, and
  deleting a rung with branch members leaves the members without a rung.
\<close>

definition paste_safe :: "ld_op \<Rightarrow> ld_graph \<Rightarrow> bool" where
  "paste_safe op g = (case op of
     PasteElements ids r k \<Rightarrow> \<not> (\<exists>n \<in> set (paste_sources g ids). is_comparison_data (ndata n))
   | _ \<Rightarrow> True)"

definition plain_rung :: "ld_graph \<Rightarrow> string \<Rightarrow> bool" where
  "plain_rung g i \<longleftrightarrow> (\<forall>r \<in> set (rungs g). rid r = i \<longrightarrow> (\<forall>b \<in> set (rung_branches r). members b = []))"

definition edit_safe :: "ld_op \<Rightarrow> ld_graph \<Rightarrow> bool" where
  "edit_safe op g \<longleftrightarrow> paste_safe op g \<and> (case op of DeleteRung i \<Rightarrow> plain_rung g i | _ \<Rightarrow> True)"

lemmas keeps_ops = addContact_keeps addCoil_keeps addFb_keeps deleteElement_keeps
  reorderElement_keeps connectWire_keeps disconnectWire_keeps changeCoilType_keeps
  changeContactType_keeps setRungTitle_keeps setRungComment_keeps setElementComment_keeps
  renameVariable_keeps addRung_keeps moveRung_keeps addPowerRail_keeps openBranch_keeps
  addBranchContact_keeps closeBranch_keeps deleteBranch_keeps replaceElement_keeps

lemma run_op_keeps:
  assumes "ld_inv (g, s)" "paste_safe op g" "\<And>i. op \<noteq> DeleteRung i"
  shows "keeps g (run_op op g s)"
proof (cases op)
  case (PasteElements ids r k)
  then show ?thesis using assms by (auto simp: paste_safe_def intro: pasteElements_keeps)
qed (use assms in \<open>simp_all add: keeps_ops\<close>)

lemma run_op_inv:
  assumes "ld_inv (g, s)" "paste_safe op g" "run_op op g s = (Inr g', s')"
  shows "ld_inv (g', s')"
proof (cases "\<exists>i. op = DeleteRung i")
  case True
  then show ?thesis using assms deleteRung_inv by auto
next
  case False
  then have "keeps g (run_op op g s)" using assms by (intro run_op_keeps) auto
  with assms(3) show ?thesis by (simp add: keeps_def)
qed

lemma run_op_owned:
  assumes "ld_inv (g, s)" "owned g" "edit_safe op g" "run_op op g s = (Inr g', s')"
  shows "owned g'"
proof (cases "\<exists>i. op = DeleteRung i")
  case True
  then obtain i where i: "op = DeleteRung i" ..
  with assms(3) have "rung_refs r = elementIds r" if "r \<in> set (rungs g)" "rid r = i" for r
    using that by (auto simp: edit_safe_def plain_rung_def rung_refs_def)
  with assms i show ?thesis using deleteRung_owned by auto
next
  case False
  then have "keeps g (run_op op g s)" using assms by (intro run_op_keeps) (auto simp: edit_safe_def)
  with assms(2,4) show ?thesis by (simp add: keeps_def)
qed

definition ld_good :: "wiring \<Rightarrow> bool" where
  "ld_good st \<longleftrightarrow> ld_inv st \<and> owned (fst st)"

interpretation ld_wf: edit_machine run_op paste_safe ld_inv
  by unfold_locales (auto intro: run_op_inv run_op_throw)

interpretation ld_ed: edit_machine run_op edit_safe ld_good
proof unfold_locales
  fix g s op g' s'
  assume good: "ld_good (g, s)" and safe: "edit_safe op g" and run: "run_op op g s = (Inr g', s')"
  then have "ld_inv (g', s')" by (auto simp: ld_good_def edit_safe_def intro: run_op_inv)
  moreover have "owned g'" using good safe run by (auto simp: ld_good_def intro: run_op_owned)
  ultimately show "ld_good (g', s')" by (simp add: ld_good_def)
qed (rule run_op_throw)

text \<open>A new document satisfies the invariant.\<close>

lemma createLdGraph_good:
  assumes "createLdGraph i s = (g, s')"
  shows "ld_good (g, s')"
proof -
  from assms have "nodes g = []" "edges g = []" "rungs g = []"
    by (auto simp: createLdGraph_def split: prod.splits option.splits)
  then show ?thesis
    by (simp add: ld_good_def ld_inv_def topo_wf_def edges_wf_def edges_resolve_def owned_def
        node_ids_def rung_node_ids_def branch_ids_def all_ids_def)
qed

end
