(* ===== verification/LdCompile.thy ===== *)
theory LdCompile
  imports LdMachine
begin

text \<open>
  Validation and compilation of a ladder graph (backend/ld-operation-handler.ts: \<open>validate\<close>,
  \<open>compile\<close>, \<open>graphToLdText\<close>, \<open>parseCompileOutput\<close>). The native compiler (\<open>compileFn\<close>) and
  \<open>JSON.parse\<close> on its output are parameters: a compiler takes the text and throws a message or
  returns a text; \<open>parse\<close> gives the value a text denotes, \<open>None\<close> when it is not JSON.
\<close>

subsection \<open>The rules of a rung\<close>

definition rung_nodes :: "ld_graph \<Rightarrow> rung \<Rightarrow> ld_node list" where
  "rung_nodes g r = List.map_filter (findNode g) (elementIds r)"

definition rung_prefix :: "rung \<Rightarrow> string" where
  "rung_prefix r = ''Rung '' @ nat_to_dec (rungNumber r) @ '': ''"

definition multi_coil_msg :: "rung \<Rightarrow> nat \<Rightarrow> string" where
  "multi_coil_msg r k = rung_prefix r @ ''multiple coils ('' @ nat_to_dec k @ '') '' @ em_dash
     @ '' only one allowed''"

definition coil_right_msg :: "rung \<Rightarrow> string" where
  "coil_right_msg r = rung_prefix r @ ''coil must be to the right of all contacts''"

definition no_contacts_msg :: "rung \<Rightarrow> string" where
  "no_contacts_msg r = rung_prefix r @ ''has a coil but no contacts''"

definition rung_coils :: "ld_graph \<Rightarrow> rung \<Rightarrow> ld_node list" where
  "rung_coils g r = filter (\<lambda>n. is_coil (ndata n)) (rung_nodes g r)"

text \<open>Some element after the first coil is there and is not a coil.\<close>

definition after_coil :: "ld_graph \<Rightarrow> rung \<Rightarrow> bool" where
  "after_coil g r =
     (case findIndex (\<lambda>i. \<exists>c \<in> set (rung_coils g r). nid c = i) (elementIds r) of
        None \<Rightarrow> False
      | Some k \<Rightarrow> (\<exists>i \<in> set (drop (k + 1) (elementIds r)).
          case findNode g i of None \<Rightarrow> False | Some n \<Rightarrow> \<not> is_coil (ndata n)))"

definition no_condition :: "ld_graph \<Rightarrow> rung \<Rightarrow> bool" where
  "no_condition g r \<longleftrightarrow> filter (\<lambda>n. is_contact (ndata n)) (rung_nodes g r) = []
     \<and> filter (\<lambda>n. is_fb (ndata n)) (rung_nodes g r) = []"

definition rung_rule_errors :: "ld_graph \<Rightarrow> rung \<Rightarrow> string list" where
  "rung_rule_errors g r =
     (let coils = rung_coils g r in
      (if length coils > 1 then [multi_coil_msg r (length coils)] else [])
      @ (if coils \<noteq> [] \<and> after_coil g r then [coil_right_msg r] else [])
      @ (if coils \<noteq> [] \<and> no_condition g r then [no_contacts_msg r] else []))"

definition validate :: "ld_graph \<Rightarrow> validation_result" where
  "validate g =
     (let structural = validateGraph g;
          filtered = filter (\<lambda>e. \<not> str_includes e ''node:powerrail'') (errors structural);
          allErrors = filtered @ concat (map (rung_rule_errors g) (rungs g))
      in \<lparr>valid = (allErrors = []), errors = allErrors, warnings = warnings structural\<rparr>)"

subsection \<open>Ladder text\<close>

fun mapCoilTypeToLdToken :: "coil_type \<Rightarrow> string" where
  "mapCoilTypeToLdToken Normal = ''OUT''"
| "mapCoilTypeToLdToken CoilSet = ''SET''"
| "mapCoilTypeToLdToken CoilReset = ''RESET''"
| "mapCoilTypeToLdToken Negated = ''OUT''"
| "mapCoilTypeToLdToken NoCoilType = ''undefined''"

definition element_lines :: "ld_graph \<Rightarrow> ld_node \<Rightarrow> string list" where
  "element_lines g n = (case ndata n of
     Contact t v c \<Rightarrow> [''  '' @ contact_type_str t @ '' '' @ v]
   | Coil t v c \<Rightarrow> [''  '' @ mapCoilTypeToLdToken t @ '' '' @ v]
   | _ \<Rightarrow> [])"

definition member_lines :: "ld_graph \<Rightarrow> string \<Rightarrow> string list" where
  "member_lines g m = (case nodeMap g m of None \<Rightarrow> []
     | Some n \<Rightarrow> (case ndata n of
         Contact t v c \<Rightarrow> [''  | '' @ contact_type_str t @ '' '' @ v] | _ \<Rightarrow> []))"

definition rung_lines :: "rung \<Rightarrow> ld_graph \<Rightarrow> string list" where
  "rung_lines r g = ''NETWORK'' # concat (map (\<lambda>i. case nodeMap g i of None \<Rightarrow> []
     | Some n \<Rightarrow> element_lines g n
         @ concat (map (\<lambda>b. if anchorId b \<noteq> i then [] else concat (map (member_lines g) (members b)))
             (rung_branches r))) (elementIds r))"

definition rungToLdText :: "rung \<Rightarrow> ld_graph \<Rightarrow> string" where
  "rungToLdText r g = join_with newline (rung_lines r g)"

definition graphToLdText :: "ld_graph \<Rightarrow> string" where
  "graphToLdText g =
     (if rungs g = [] then ''NETWORK'' @ newline
      else join_with (newline @ newline) (map (\<lambda>r. rungToLdText r g) (rungs g)))"

subsection \<open>Compiler output\<close>

text \<open>A diagnostic's fields are the parsed values, whatever type the compiler gave them.\<close>

record diagnostic =
  dseverity :: json
  dline :: "json option"
  dmessage :: json
  dcode :: json

record compile_result =
  success :: bool
  programJson :: string
  diagnostics :: "diagnostic list"

definition simple_diag :: "string \<Rightarrow> string \<Rightarrow> diagnostic" where
  "simple_diag msg code = \<lparr>dseverity = JStr ''error'', dline = None, dmessage = JStr msg, dcode = JStr code\<rparr>"

definition failed :: "diagnostic list \<Rightarrow> compile_result" where
  "failed ds = \<lparr>success = False, programJson = [], diagnostics = ds\<rparr>"

text \<open>\<open>String(v)\<close> on a parsed value; \<open>num\<close> is the decimal text of a number.\<close>

fun js_String :: "(jsnum \<Rightarrow> string) \<Rightarrow> json \<Rightarrow> string" where
  "js_String num JNull = ''null''"
| "js_String num (JBool b) = (if b then ''true'' else ''false'')"
| "js_String num (JNum r) = num r"
| "js_String num (JStr s) = s"
| "js_String num (JArr xs) = join_with '',''
     (map (\<lambda>x. case x of JNull \<Rightarrow> [] | _ \<Rightarrow> js_String num x) xs)"
| "js_String num (JObj m) = ''[object Object]''"

definition field_or :: "string \<Rightarrow> json \<Rightarrow> json \<Rightarrow> json" where
  "field_or k d v = (case jfield k v of None \<Rightarrow> d | Some x \<Rightarrow> if truthy x then x else d)"

definition diag_of :: "(jsnum \<Rightarrow> string) \<Rightarrow> nat \<Rightarrow> json \<Rightarrow> diagnostic" where
  "diag_of num i d = \<lparr>dseverity = field_or ''severity'' (JStr ''error'') d, dline = jfield ''line'' d,
     dmessage = field_or ''message'' (JStr (js_String num d)) d,
     dcode = field_or ''code'' (JStr (''E'' @ padStart3 (nat_to_dec i))) d\<rparr>"

text \<open>Reading a property of \<open>null\<close> throws; the \<open>catch\<close> turns that into the raw text.\<close>

definition parseCompileOutput ::
  "(string \<Rightarrow> json option) \<Rightarrow> (jsnum \<Rightarrow> string) \<Rightarrow> string \<Rightarrow> compile_result" where
  "parseCompileOutput parse num raw = (case parse raw of
     None \<Rightarrow> failed [simple_diag raw ''E998'']
   | Some (JArr ds) \<Rightarrow> if JNull \<in> set ds then failed [simple_diag raw ''E998'']
       else failed (map_index (diag_of num) ds)
   | Some (JObj m) \<Rightarrow> if map_of m ''instructions'' \<noteq> None
       then \<lparr>success = True, programJson = raw, diagnostics = []\<rparr>
       else failed [simple_diag ''Unknown compile output format'' ''E999'']
   | Some _ \<Rightarrow> failed [simple_diag ''Unknown compile output format'' ''E999''])"

definition compile ::
  "(string \<Rightarrow> string + string) \<Rightarrow> (string \<Rightarrow> json option) \<Rightarrow> (jsnum \<Rightarrow> string) \<Rightarrow> ld_graph \<Rightarrow> compile_result"
where
  "compile compileFn parse num g =
     (let v = validate g in
      if \<not> valid v then
        failed (map_index (\<lambda>i msg. simple_diag msg (''V'' @ padStart3 (nat_to_dec (i + 1)))) (errors v))
      else (case compileFn (graphToLdText g) of
          Inr raw \<Rightarrow> parseCompileOutput parse num raw
        | Inl msg \<Rightarrow> failed [simple_diag msg ''E999'']))"

subsection \<open>What the rules decide\<close>

lemma valid_iff_no_errors: "valid (validate g) \<longleftrightarrow> errors (validate g) = []"
  by (simp add: validate_def Let_def)

text \<open>The structural part finds nothing in a graph the editor made, the rails apart.\<close>

lemma orphan_msg_rail: "is_powerrail (ndata n) \<Longrightarrow> str_includes (orphan_msg n) ''node:powerrail''"
proof -
  assume "is_powerrail (ndata n)"
  then have "node_type n = ''node:powerrail''" by (cases "ndata n") (simp_all add: node_type_def)
  then have "orphan_msg n = (''Orphan node: '' @ quoted (nid n) @ '' (type: '') @ ''node:powerrail''
      @ '') is not referenced by any rung''"
    by (simp add: orphan_msg_def)
  then show ?thesis by (simp only: str_includes_infix)
qed

lemma good_structural:
  assumes "ld_inv (g, s)" "owned g"
  shows "edge_errors g = []" "element_errors g = []" "branch_errors g = []"
    and "filter (\<lambda>e. \<not> str_includes e ''node:powerrail'') (orphan_errors g) = []"
proof -
  note I = ld_invD [OF assms(1)]
  show "edge_errors g = []" using I(7) by (simp add: edge_errors_Nil)
  have refs: "set (rung_refs r) \<subseteq> set (node_ids g)" if "r \<in> set (rungs g)" for r
    using that rung_refs_in I(4) by blast
  show "element_errors g = []"
    using refs elementIds_in_refs by (fastforce simp: element_errors_Nil elements_resolve_def)
  show "branch_errors g = []"
    unfolding branch_errors_Nil branches_resolve_def
  proof (intro ballI)
    fix r b assume r: "r \<in> set (rungs g)" and b: "b \<in> set (rung_branches r)"
    then have "anchorId b \<in> set (elementIds r)" using I(6) by (simp add: anchors_ok_def)
    then show "anchorId b \<in> set (node_ids g) \<and> set (members b) \<subseteq> set (node_ids g)"
      using refs [OF r] elementIds_in_refs [of r] members_in_refs [OF b] by blast
  qed
  show "filter (\<lambda>e. \<not> str_includes e ''node:powerrail'') (orphan_errors g) = []"
    using assms(2) by (auto simp: orphan_errors_def owned_def filter_empty_conv orphan_msg_rail)
qed

lemma good_validate_errors:
  assumes "ld_inv (g, s)" "owned g"
  shows "errors (validate g) = concat (map (rung_rule_errors g) (rungs g))"
  using good_structural [OF assms] by (simp add: validate_def Let_def validateGraph_def)

text \<open>The rules of one rung, on the kinds of its elements.\<close>

definition elem_kind :: "ld_graph \<Rightarrow> (node_data \<Rightarrow> bool) \<Rightarrow> string \<Rightarrow> bool" where
  "elem_kind g p i = (case findNode g i of None \<Rightarrow> False | Some n \<Rightarrow> p (ndata n))"

definition well_ordered :: "ld_graph \<Rightarrow> rung \<Rightarrow> bool" where
  "well_ordered g r \<longleftrightarrow> (\<exists>front coils. elementIds r = front @ coils
     \<and> (\<forall>i \<in> set front. \<not> elem_kind g is_coil i)
     \<and> (coils = [] \<or> (\<exists>c. coils = [c] \<and> elem_kind g is_coil c
          \<and> (\<exists>i \<in> set front. elem_kind g is_contact i \<or> elem_kind g is_fb i))))"

lemma map_filter_eq: "List.map_filter f xs = map (the \<circ> f) (filter (\<lambda>x. f x \<noteq> None) xs)"
  by (simp add: map_filter_def comp_def)

lemma rung_nodes_filter:
  "filter (\<lambda>n. p (ndata n)) (rung_nodes g r)
     = map (the \<circ> findNode g) (filter (elem_kind g p) (elementIds r))"
proof -
  have "filter (\<lambda>n. p (ndata n)) (map (the \<circ> findNode g) (filter (\<lambda>i. findNode g i \<noteq> None) es))
      = map (the \<circ> findNode g) (filter (elem_kind g p) es)" for es
    by (induction es) (auto simp: elem_kind_def)
  then show ?thesis by (simp add: rung_nodes_def map_filter_eq)
qed

lemma rung_coils_eq: "rung_coils g r = map (the \<circ> findNode g) (filter (elem_kind g is_coil) (elementIds r))"
  by (simp add: rung_coils_def rung_nodes_filter)

lemma coil_id_iff:
  assumes "i \<in> set (elementIds r)"
  shows "(\<exists>c \<in> set (rung_coils g r). nid c = i) \<longleftrightarrow> elem_kind g is_coil i"
proof
  assume "elem_kind g is_coil i"
  with assms have "the (findNode g i) \<in> set (rung_coils g r)" by (auto simp: rung_coils_eq)
  moreover have "nid (the (findNode g i)) = i"
    using \<open>elem_kind g is_coil i\<close> findNode_SomeD by (fastforce simp: elem_kind_def split: option.splits)
  ultimately show "\<exists>c \<in> set (rung_coils g r). nid c = i" by blast
next
  assume "\<exists>c \<in> set (rung_coils g r). nid c = i"
  then obtain j where j: "elem_kind g is_coil j" "nid (the (findNode g j)) = i"
    by (auto simp: rung_coils_eq)
  then have "j = i" using findNode_SomeD by (fastforce simp: elem_kind_def split: option.splits)
  with j show "elem_kind g is_coil i" by simp
qed

lemma findIndex_split:
  "(\<forall>x \<in> set xs. \<not> p x) \<Longrightarrow> p y \<Longrightarrow> findIndex p (xs @ y # ys) = Some (length xs)"
  by (induction xs) auto

lemma no_condition_iff:
  "no_condition g r \<longleftrightarrow> \<not> (\<exists>i \<in> set (elementIds r). elem_kind g is_contact i \<or> elem_kind g is_fb i)"
  by (auto simp: no_condition_def rung_nodes_filter filter_empty_conv)

lemma not_both_kinds: "elem_kind g is_coil c \<Longrightarrow> \<not> elem_kind g is_contact c \<and> \<not> elem_kind g is_fb c"
  by (auto simp: elem_kind_def split: option.splits elim: is_coil.elims)

lemma after_coil_split:
  assumes "elementIds r = front @ c # rest" "\<forall>i \<in> set front. \<not> elem_kind g is_coil i" "elem_kind g is_coil c"
  shows "after_coil g r \<longleftrightarrow> (\<exists>i \<in> set rest. findNode g i \<noteq> None \<and> \<not> elem_kind g is_coil i)"
proof -
  have "findIndex (\<lambda>i. \<exists>c \<in> set (rung_coils g r). nid c = i) (front @ c # rest) = Some (length front)"
    using assms coil_id_iff [of _ r g] by (intro findIndex_split) auto
  then show ?thesis
    unfolding after_coil_def assms(1) by (auto simp: elem_kind_def split: option.splits)
qed

lemma rung_rules_iff:
  assumes res: "\<And>i. i \<in> set (elementIds r) \<Longrightarrow> findNode g i \<noteq> None"
  shows "rung_rule_errors g r = [] \<longleftrightarrow> well_ordered g r"
proof (cases "filter (elem_kind g is_coil) (elementIds r)")
  case Nil
  then have none: "\<forall>i \<in> set (elementIds r). \<not> elem_kind g is_coil i" by (simp add: filter_empty_conv)
  have "rung_rule_errors g r = []" by (simp add: rung_rule_errors_def Let_def rung_coils_eq Nil)
  moreover have "well_ordered g r"
    unfolding well_ordered_def by (rule exI [of _ "elementIds r"], rule exI [of _ "[]"]) (simp add: none)
  ultimately show ?thesis by simp
next
  case (Cons c cs)
  from Cons obtain front rest where els: "elementIds r = front @ c # rest"
    and front: "\<forall>i \<in> set front. \<not> elem_kind g is_coil i" and c: "elem_kind g is_coil c"
    and cs: "cs = filter (elem_kind g is_coil) rest"
    unfolding filter_eq_Cons_iff by blast
  have "after_coil g r \<longleftrightarrow> (\<exists>i \<in> set rest. \<not> elem_kind g is_coil i)"
    unfolding after_coil_split [OF els front c] using res els by auto
  then have "rung_rule_errors g r = [] \<longleftrightarrow> rest = []
      \<and> (\<exists>i \<in> set (elementIds r). elem_kind g is_contact i \<or> elem_kind g is_fb i)"
    by (cases cs; cases rest) (auto simp: rung_rule_errors_def Let_def rung_coils_eq Cons no_condition_iff cs
        filter_empty_conv split: if_splits)
  moreover have "well_ordered g r \<longleftrightarrow> rest = []
      \<and> (\<exists>i \<in> set (elementIds r). elem_kind g is_contact i \<or> elem_kind g is_fb i)"
  proof
    assume "well_ordered g r"
    then obtain f cl where w: "elementIds r = f @ cl" "\<forall>i \<in> set f. \<not> elem_kind g is_coil i"
      "cl = [] \<or> (\<exists>c. cl = [c] \<and> elem_kind g is_coil c
          \<and> (\<exists>i \<in> set f. elem_kind g is_contact i \<or> elem_kind g is_fb i))"
      unfolding well_ordered_def by blast
    have "c \<in> set (f @ cl)" unfolding w(1) [symmetric] els by simp
    then have "cl \<noteq> []" using w(2) c by auto
    with w(3) obtain d where d: "cl = [d]" "elem_kind g is_coil d"
      "\<exists>i \<in> set f. elem_kind g is_contact i \<or> elem_kind g is_fb i" by blast
    have "f @ [d] = front @ c # rest" using w(1) d(1) els by simp
    then have "rest = []"
    proof (cases rest rule: rev_cases)
      case (snoc rs x)
      with \<open>f @ [d] = front @ c # rest\<close> have "f = front @ c # rs" by simp
      with w(2) c show ?thesis by simp
    qed simp
    with d w(1) show "rest = [] \<and> (\<exists>i \<in> set (elementIds r). elem_kind g is_contact i \<or> elem_kind g is_fb i)"
      by auto
  next
    assume R: "rest = [] \<and> (\<exists>i \<in> set (elementIds r). elem_kind g is_contact i \<or> elem_kind g is_fb i)"
    then have "\<exists>i \<in> set front. elem_kind g is_contact i \<or> elem_kind g is_fb i"
      using els not_both_kinds [OF c] by auto
    with R els front c show "well_ordered g r"
      unfolding well_ordered_def by (intro exI [of _ front] exI [of _ "[c]"]) auto
  qed
  ultimately show ?thesis by simp
qed

lemma good_validate_iff:
  assumes "ld_inv (g, s)" "owned g"
  shows "valid (validate g) \<longleftrightarrow> (\<forall>r \<in> set (rungs g). well_ordered g r)"
proof -
  have res: "findNode g i \<noteq> None" if "r \<in> set (rungs g)" "i \<in> set (elementIds r)" for r i
    using series_in_nodes [OF assms(1) that] by (simp add: findNode_None)
  show ?thesis
    unfolding valid_iff_no_errors good_validate_errors [OF assms]
    using rung_rules_iff [OF res] by auto
qed

subsection \<open>Compilation\<close>

lemma compile_success:
  "success (compile compileFn parse num g) \<longleftrightarrow> valid (validate g)
     \<and> (\<exists>raw m. compileFn (graphToLdText g) = Inr raw \<and> parse raw = Some (JObj m)
          \<and> map_of m ''instructions'' \<noteq> None)"
  by (auto simp: compile_def Let_def failed_def parseCompileOutput_def split: sum.split option.split json.split)

lemma compile_success_program:
  assumes "success (compile compileFn parse num g)"
  shows "compileFn (graphToLdText g) = Inr (programJson (compile compileFn parse num g))
    \<and> diagnostics (compile compileFn parse num g) = []"
  using assms
  by (auto simp: compile_def Let_def failed_def parseCompileOutput_def split: sum.split option.split json.split if_splits)

text \<open>
  A failed compilation says why, unless the compiler itself returned an empty diagnostic
  array.
\<close>

lemma compile_failure_diagnosed:
  assumes "\<not> success (compile compileFn parse num g)"
    and "\<And>raw. compileFn (graphToLdText g) = Inr raw \<Longrightarrow> parse raw \<noteq> Some (JArr [])"
  shows "diagnostics (compile compileFn parse num g) \<noteq> []"
proof (cases "valid (validate g)")
  case True
  then show ?thesis
    using assms by (cases "compileFn (graphToLdText g)")
      (auto simp: compile_def Let_def failed_def parseCompileOutput_def map_index_def enumerate_eq_zip
        split: option.split json.split if_splits)
next
  case False
  then have "errors (validate g) \<noteq> []" by (simp add: valid_iff_no_errors)
  then have "map_index f (errors (validate g)) \<noteq> []" for f :: "nat \<Rightarrow> string \<Rightarrow> diagnostic"
    by (metis length_0_conv length_map_index)
  with False show ?thesis by (simp add: compile_def Let_def failed_def)
qed

subsection \<open>Reading the ladder text back\<close>

text \<open>
  The instructions a rung stands for, and a reader of the text: lines, words, networks. With
  variable names free of white space the text determines the instructions of every rung, in
  order; what it loses is the negation of a negated coil, which \<open>mapCoilTypeToLdToken\<close>
  drops, and every node that is neither a contact nor a coil.
\<close>

datatype ld_instr = InContact string string | InCoil string string | InOr string string

definition element_instrs :: "ld_node \<Rightarrow> ld_instr list" where
  "element_instrs n = (case ndata n of
     Contact t v c \<Rightarrow> [InContact (contact_type_str t) v]
   | Coil t v c \<Rightarrow> [InCoil (mapCoilTypeToLdToken t) v]
   | _ \<Rightarrow> [])"

definition member_instrs :: "ld_graph \<Rightarrow> string \<Rightarrow> ld_instr list" where
  "member_instrs g m = (case nodeMap g m of None \<Rightarrow> []
     | Some n \<Rightarrow> (case ndata n of Contact t v c \<Rightarrow> [InOr (contact_type_str t) v] | _ \<Rightarrow> []))"

definition rung_instrs :: "ld_graph \<Rightarrow> rung \<Rightarrow> ld_instr list" where
  "rung_instrs g r = concat (map (\<lambda>i. case nodeMap g i of None \<Rightarrow> []
     | Some n \<Rightarrow> element_instrs n
         @ concat (map (\<lambda>b. if anchorId b \<noteq> i then [] else concat (map (member_instrs g) (members b)))
             (rung_branches r))) (elementIds r))"

definition words_of :: "string \<Rightarrow> string list" where
  "words_of l = filter (\<lambda>w. w \<noteq> []) (split_on (CHR '' '') l)"

definition is_contact_word :: "string \<Rightarrow> bool" where
  "is_contact_word t \<longleftrightarrow> t \<in> {''NO'', ''NC'', ''P'', ''N''}"

definition read_line :: "string \<Rightarrow> ld_instr list" where
  "read_line l = (case words_of l of
     [t, v] \<Rightarrow> if is_contact_word t then [InContact t v] else [InCoil t v]
   | [b, t, v] \<Rightarrow> [InOr t v]
   | _ \<Rightarrow> [])"

definition line_step :: "string \<Rightarrow> ld_instr list \<times> ld_instr list list \<Rightarrow> ld_instr list \<times> ld_instr list list" where
  "line_step l st = (if l = ''NETWORK'' then ([], fst st # snd st) else (read_line l @ fst st, snd st))"

definition read_networks :: "string \<Rightarrow> ld_instr list list" where
  "read_networks txt = snd (foldr line_step (split_on (CHR 0x0A) txt) ([], []))"

definition clean_name :: "string \<Rightarrow> bool" where
  "clean_name v \<longleftrightarrow> v \<noteq> [] \<and> (\<forall>c \<in> set v. \<not> js_space c)"

fun clean_data :: "node_data \<Rightarrow> bool" where
  "clean_data (Contact t v c) = clean_name v"
| "clean_data (Coil t v c) = clean_name v"
| "clean_data d = True"

definition clean_graph :: "ld_graph \<Rightarrow> bool" where
  "clean_graph g \<longleftrightarrow> (\<forall>n \<in> set (nodes g). clean_data (ndata n))"

lemma clean_name_chars: "clean_name v \<Longrightarrow> CHR '' '' \<notin> set v \<and> CHR 0x0A \<notin> set v \<and> v \<noteq> []"
  by (auto simp: clean_name_def js_space_def)

lemma words_of_two:
  assumes "CHR '' '' \<notin> set t" "t \<noteq> []" "clean_name v"
  shows "words_of (''  '' @ t @ '' '' @ v) = [t, v]"
  using assms clean_name_chars [OF assms(3)]
    split_on_sep [OF assms(1), of v] split_on_plain [of "CHR '' ''" v]
  by (simp add: words_of_def)

lemma words_of_three:
  assumes "CHR '' '' \<notin> set t" "t \<noteq> []" "clean_name v"
  shows "words_of (''  | '' @ t @ '' '' @ v) = [''|'', t, v]"
  using assms clean_name_chars [OF assms(3)]
    split_on_sep [OF assms(1), of v] split_on_plain [of "CHR '' ''" v]
  by (simp add: words_of_def)

lemma contact_word: "CHR '' '' \<notin> set (contact_type_str t)" "contact_type_str t \<noteq> []"
  "is_contact_word (contact_type_str t)" "CHR 0x0A \<notin> set (contact_type_str t)"
  by (cases t; simp add: is_contact_word_def)+

lemma coil_word: "CHR '' '' \<notin> set (mapCoilTypeToLdToken t)" "mapCoilTypeToLdToken t \<noteq> []"
  "\<not> is_contact_word (mapCoilTypeToLdToken t)" "CHR 0x0A \<notin> set (mapCoilTypeToLdToken t)"
  by (cases t; simp add: is_contact_word_def)+

text \<open>What the fold needs of the lines of a rung body.\<close>

definition body_line :: "string \<Rightarrow> bool" where
  "body_line l \<longleftrightarrow> CHR 0x0A \<notin> set l \<and> l \<noteq> ''NETWORK''"

lemma element_lines_read:
  assumes "clean_data (ndata n)"
  shows "concat (map read_line (element_lines g n)) = element_instrs n"
    and "\<forall>l \<in> set (element_lines g n). body_line l"
proof -
  show "concat (map read_line (element_lines g n)) = element_instrs n"
  proof (cases "ndata n")
    case (Contact t v c)
    then show ?thesis
      using assms words_of_two [OF contact_word(1,2), of v t] contact_word(3) [of t]
      by (simp add: element_lines_def element_instrs_def read_line_def)
  next
    case (Coil t v c)
    then show ?thesis
      using assms words_of_two [OF coil_word(1,2), of v t] coil_word(3) [of t]
      by (simp add: element_lines_def element_instrs_def read_line_def)
  qed (simp_all add: element_lines_def element_instrs_def)
  show "\<forall>l \<in> set (element_lines g n). body_line l"
    using assms contact_word(4) coil_word(4)
    by (cases "ndata n") (auto simp: element_lines_def body_line_def dest: clean_name_chars)
qed

lemma nodeMap_in: "nodeMap g i = Some n \<Longrightarrow> n \<in> set (nodes g)"
proof -
  have "foldl (\<lambda>m n. m(nid n \<mapsto> n)) m ns i = Some n \<Longrightarrow> m i = Some n \<or> n \<in> set ns"
    for m and ns :: "ld_node list"
  proof (induction ns arbitrary: m)
    case (Cons a ns)
    from Cons.IH [of "m(nid a \<mapsto> a)"] Cons.prems show ?case by (auto split: if_splits)
  qed simp
  then show "nodeMap g i = Some n \<Longrightarrow> n \<in> set (nodes g)" by (fastforce simp: nodeMap_def)
qed

lemma member_lines_read:
  assumes "clean_graph g"
  shows "concat (map read_line (member_lines g m)) = member_instrs g m"
    and "\<forall>l \<in> set (member_lines g m). body_line l"
proof -
  have clean: "clean_name v" if "nodeMap g m = Some n" "ndata n = Contact t v c" for n t v c
    using assms nodeMap_in [OF that(1)] that(2) by (force simp: clean_graph_def)
  show "concat (map read_line (member_lines g m)) = member_instrs g m"
    using words_of_three [OF contact_word(1,2)] clean
    by (auto simp: member_lines_def member_instrs_def read_line_def split: option.split node_data.split)
  have "body_line (''  | '' @ contact_type_str t @ '' '' @ v)" if "clean_name v" for t v
    using clean_name_chars [OF that] contact_word(4) [of t] by (simp add: body_line_def)
  note line = this
  show "\<forall>l \<in> set (member_lines g m). body_line l"
  proof (cases "nodeMap g m")
    case (Some n)
    with clean line show ?thesis
      by (cases "ndata n") (simp_all add: member_lines_def)
  qed (simp add: member_lines_def)
qed

lemma concat_map_read:
  "(\<And>x. x \<in> set xs \<Longrightarrow> concat (map read_line (f x)) = h x) \<Longrightarrow>
     concat (map read_line (concat (map f xs))) = concat (map h xs)"
  by (induction xs) auto

lemma rung_lines_read:
  assumes "clean_graph g"
  obtains body where "rung_lines r g = ''NETWORK'' # body" "\<forall>l \<in> set body. body_line l"
    and "concat (map read_line body) = rung_instrs g r"
proof
  let ?ms = "\<lambda>i. concat (map (\<lambda>b. if anchorId b \<noteq> i then [] else concat (map (member_lines g) (members b)))
             (rung_branches r))"
  let ?body = "concat (map (\<lambda>i. case nodeMap g i of None \<Rightarrow> []
     | Some n \<Rightarrow> element_lines g n @ ?ms i) (elementIds r))"
  show "rung_lines r g = ''NETWORK'' # ?body" by (simp only: rung_lines_def)
  have clean: "clean_data (ndata n)" if "nodeMap g i = Some n" for i n
    using assms nodeMap_in [OF that] by (simp add: clean_graph_def)
  have "\<forall>l \<in> set (?ms i). body_line l" for i
    using member_lines_read(2) [OF assms] by auto
  moreover have "\<forall>l \<in> set (element_lines g n). body_line l" if "nodeMap g i = Some n" for i n
    using element_lines_read(2) [OF clean [OF that]] .
  ultimately have "\<forall>l \<in> set (case nodeMap g i of None \<Rightarrow> []
     | Some n \<Rightarrow> element_lines g n @ ?ms i). body_line l" for i
    by (cases "nodeMap g i") (simp, simp only: option.case set_append ball_Un, blast)
  then show "\<forall>l \<in> set ?body. body_line l" by (simp only: set_concat set_map) blast
  have "concat (map read_line (?ms i))
      = concat (map (\<lambda>b. if anchorId b \<noteq> i then [] else concat (map (member_instrs g) (members b))) (rung_branches r))"
    for i
    by (rule concat_map_read) (simp add: concat_map_read member_lines_read(1) [OF assms])
  then show "concat (map read_line ?body) = rung_instrs g r"
    unfolding rung_instrs_def
    by (intro concat_map_read) (simp add: clean element_lines_read(1) split: option.split)
qed

text \<open>The blocks of the rungs with the empty line between two of them.\<close>

fun join_blocks :: "string list list \<Rightarrow> string list" where
  "join_blocks [] = []"
| "join_blocks [b] = b"
| "join_blocks (b # c # bs) = b @ [] # join_blocks (c # bs)"

lemma join_with_append:
  "xs \<noteq> [] \<Longrightarrow> ys \<noteq> [] \<Longrightarrow> join_with sep (xs @ ys) = join_with sep xs @ sep @ join_with sep ys"
proof (induction xs)
  case (Cons x xs)
  then show ?case by (cases xs; cases ys) auto
qed simp

lemma join_blocks_not_Nil: "bs \<noteq> [] \<Longrightarrow> [] \<notin> set bs \<Longrightarrow> join_blocks bs \<noteq> []"
  by (induction bs rule: join_blocks.induct) auto

lemma join_with_blocks:
  "[] \<notin> set bs \<Longrightarrow> join_with (newline @ newline) (map (join_with newline) bs) = join_with newline (join_blocks bs)"
proof (induction bs rule: join_blocks.induct)
  case (3 b c bs)
  have "join_with newline ([] # join_blocks (c # bs)) = newline @ join_with newline (join_blocks (c # bs))"
    using join_with_append [of "[[]]" "join_blocks (c # bs)" newline] join_blocks_not_Nil [of "c # bs"] 3(2)
    by simp
  moreover have "join_with newline (b @ [] # join_blocks (c # bs))
      = join_with newline b @ newline @ join_with newline ([] # join_blocks (c # bs))"
    using 3(2) by (intro join_with_append) auto
  ultimately show ?case using 3 by simp
qed auto

lemma read_body:
  "(\<And>l. l \<in> set body \<Longrightarrow> body_line l) \<Longrightarrow>
     foldr line_step body st = (concat (map read_line body) @ fst st, snd st)"
  by (induction body) (auto simp: line_step_def body_line_def)

definition network_block :: "string list \<Rightarrow> bool" where
  "network_block b \<longleftrightarrow> (\<exists>body. b = ''NETWORK'' # body \<and> (\<forall>l \<in> set body. body_line l))"

lemma read_block:
  "network_block b \<Longrightarrow> foldr line_step b ([], nets) = ([], concat (map read_line (tl b)) # nets)"
  unfolding network_block_def by (auto simp: read_body line_step_def)

lemma read_blocks:
  "(\<And>b. b \<in> set bs \<Longrightarrow> network_block b) \<Longrightarrow>
     foldr line_step (join_blocks bs) ([], []) = ([], map (\<lambda>b. concat (map read_line (tl b))) bs)"
proof (induction bs rule: join_blocks.induct)
  case (3 b c bs)
  have "line_step [] st = st" for st by (simp add: line_step_def read_line_def words_of_def)
  with 3 show ?case by (simp add: read_block)
qed (simp_all add: read_block)

lemma block_lines:
  "(\<And>b. b \<in> set bs \<Longrightarrow> network_block b) \<Longrightarrow> l \<in> set (join_blocks bs) \<Longrightarrow> CHR 0x0A \<notin> set l"
proof -
  have one: "network_block b \<Longrightarrow> l \<in> set b \<Longrightarrow> CHR 0x0A \<notin> set l" for b
    by (auto simp: network_block_def body_line_def)
  show "(\<And>b. b \<in> set bs \<Longrightarrow> network_block b) \<Longrightarrow> l \<in> set (join_blocks bs) \<Longrightarrow> CHR 0x0A \<notin> set l"
    using one by (induction bs rule: join_blocks.induct) auto
qed

lemma graphToLdText_read:
  assumes clean: "clean_graph g" and rungs: "rungs g \<noteq> []"
  shows "read_networks (graphToLdText g) = map (rung_instrs g) (rungs g)"
proof -
  let ?bs = "map (\<lambda>r. rung_lines r g) (rungs g)"
  have block: "network_block b" if b: "b \<in> set ?bs" for b
  proof -
    from b obtain r where "b = rung_lines r g" by auto
    then show ?thesis using rung_lines_read [OF clean, of r] by (metis network_block_def)
  qed
  then have ne: "[] \<notin> set ?bs" by (auto simp: rung_lines_def)
  have "graphToLdText g = join_with (newline @ newline) (map (join_with newline) ?bs)"
    using rungs by (simp add: graphToLdText_def rungToLdText_def comp_def)
  also have "\<dots> = join_with newline (join_blocks ?bs)" by (rule join_with_blocks [OF ne])
  finally have as_lines: "graphToLdText g = join_with newline (join_blocks ?bs)" .
  have "split_on (CHR 0x0A) (graphToLdText g) = join_blocks ?bs"
    unfolding as_lines using join_blocks_not_Nil [OF _ ne] rungs block_lines [of ?bs, OF block]
    by (intro split_on_join [where c = "CHR 0x0A", folded newline_def]) auto
  then have "read_networks (graphToLdText g) = map (\<lambda>b. concat (map read_line (tl b))) ?bs"
    using read_blocks [of ?bs, OF block] by (simp add: read_networks_def)
  moreover have "concat (map read_line (tl (rung_lines r g))) = rung_instrs g r" for r
    using rung_lines_read [OF clean, of r] by (metis list.sel(3))
  ultimately show ?thesis by (simp add: comp_def)
qed

end
