(* ===== verification/LdQueries.thy ===== *)
theory LdQueries
  imports LdMachine LdCompile "HOL-Library.Sorting_Algorithms"
begin

text \<open>
  The read-only queries behind the editor's panels: Find and Cross Reference
  (model/variable-utils.ts) and the mapping of validation messages to the elements to mark
  (model/validation-ui.ts). \<open>localeCompare\<close> is a parameter, a comparator as the library has
  them; \<open>Array.prototype.sort\<close> is a stable sort by it.
\<close>

subsection \<open>Find and Cross Reference\<close>

definition isVariableNode :: "ld_node \<Rightarrow> bool" where
  "isVariableNode n = (case ndata n of Contact t v c \<Rightarrow> True | Coil t v c \<Rightarrow> True | _ \<Rightarrow> False)"

definition variableName :: "ld_node \<Rightarrow> string" where
  "variableName n = (case ndata n of Contact t v c \<Rightarrow> v | Coil t v c \<Rightarrow> v | _ \<Rightarrow> [])"

definition findVariable :: "ld_graph \<Rightarrow> string \<Rightarrow> ld_node list" where
  "findVariable g name =
     (let query = toLowerCase (trim name) in
      if query = [] then []
      else filter (\<lambda>n. isVariableNode n \<and> str_includes (toLowerCase (variableName n)) query) (nodes g))"

record variable_usage =
  uname :: string
  ucount :: nat
  unodeIds :: "string list"

definition group_by_name :: "ld_node list \<Rightarrow> (string, string list) jsmap" where
  "group_by_name ns = foldl (\<lambda>m n. if \<not> isVariableNode n then m
     else js_set (variableName n) ((case map_of m (variableName n) of None \<Rightarrow> [] | Some ids \<Rightarrow> ids) @ [nid n]) m) [] ns"

definition usage_of :: "string \<times> string list \<Rightarrow> variable_usage" where
  "usage_of e = \<lparr>uname = fst e, ucount = length (snd e), unodeIds = snd e\<rparr>"

definition listVariables :: "string comparator \<Rightarrow> ld_graph \<Rightarrow> variable_usage list" where
  "listVariables localeCompare g =
     Sorting_Algorithms.sort (key uname localeCompare) (map usage_of (group_by_name (nodes g)))"

text \<open>The ids of the nodes that are bound to a name, in graph order.\<close>

definition bound_ids :: "ld_node list \<Rightarrow> string \<Rightarrow> string list" where
  "bound_ids ns v = map nid (filter (\<lambda>n. isVariableNode n \<and> variableName n = v) ns)"

lemma bound_ids_snoc: "bound_ids (ns @ [n]) v =
    bound_ids ns v @ (if isVariableNode n \<and> variableName n = v then [nid n] else [])"
  by (simp add: bound_ids_def)

lemma group_by_name_snoc: "group_by_name (ns @ [n]) = (let m = group_by_name ns in
    if \<not> isVariableNode n then m
    else js_set (variableName n) ((case map_of m (variableName n) of None \<Rightarrow> [] | Some ids \<Rightarrow> ids) @ [nid n]) m)"
  by (simp add: group_by_name_def Let_def)

lemma map_of_group: "map_of (group_by_name ns) v = (if bound_ids ns v = [] then None else Some (bound_ids ns v))"
proof (induction ns arbitrary: v rule: rev_induct)
  case (snoc n ns)
  have "(case map_of (group_by_name ns) w of None \<Rightarrow> [] | Some ids \<Rightarrow> ids) = bound_ids ns w" for w
    by (simp add: snoc.IH)
  then show ?case by (simp add: group_by_name_snoc bound_ids_snoc Let_def snoc.IH)
qed (simp add: group_by_name_def bound_ids_def)

lemma distinct_group: "distinct (map fst (group_by_name ns))"
proof (induction ns rule: rev_induct)
  case (snoc n ns)
  then show ?case by (simp add: group_by_name_snoc Let_def)
qed (simp add: group_by_name_def)

lemma group_entries: "(v, ids) \<in> set (group_by_name ns) \<longleftrightarrow> ids = bound_ids ns v \<and> ids \<noteq> []"
proof -
  have "(v, ids) \<in> set (group_by_name ns) \<longleftrightarrow> map_of (group_by_name ns) v = Some ids"
    by (rule map_of_eq_Some_iff [OF distinct_group, symmetric])
  then show ?thesis by (auto simp: map_of_group)
qed

lemma bound_ids_Nil: "bound_ids ns v = [] \<longleftrightarrow> \<not> (\<exists>n \<in> set ns. isVariableNode n \<and> variableName n = v)"
  by (auto simp: bound_ids_def filter_empty_conv)

lemma listVariables_entry:
  "u \<in> set (listVariables c g) \<longleftrightarrow>
     u = \<lparr>uname = uname u, ucount = length (bound_ids (nodes g) (uname u)), unodeIds = bound_ids (nodes g) (uname u)\<rparr>
     \<and> bound_ids (nodes g) (uname u) \<noteq> []"
proof -
  have "u \<in> set (listVariables c g) \<longleftrightarrow> (\<exists>v ids. (v, ids) \<in> set (group_by_name (nodes g)) \<and> u = usage_of (v, ids))"
    by (auto simp: listVariables_def)
  also have "\<dots> \<longleftrightarrow> (\<exists>v. bound_ids (nodes g) v \<noteq> [] \<and> u = usage_of (v, bound_ids (nodes g) v))"
    by (auto simp: group_entries)
  finally show ?thesis by (auto simp: usage_of_def)
qed

lemma listVariables_sorted: "Sorting_Algorithms.sorted (key uname c) (listVariables c g)"
  by (simp add: listVariables_def)

lemma listVariables_names_distinct: "distinct (map uname (listVariables c g))"
proof -
  have "mset (map uname (listVariables c g)) = mset (map fst (group_by_name (nodes g)))"
    by (simp add: listVariables_def mset_map comp_def usage_of_def flip: mset_map)
      (simp add: usage_of_def multiset.map_comp comp_def)
  then show ?thesis by (metis distinct_group mset_eq_imp_distinct_iff)
qed

subsection \<open>Marking the elements of validation messages\<close>

text \<open>The three regular expressions; \<open>None\<close> is no match.\<close>

definition digit_run :: "string \<Rightarrow> string \<times> string" where
  "digit_run s = (takeWhile digit_char s, dropWhile digit_char s)"

definition strip_prefix :: "string \<Rightarrow> string \<Rightarrow> string option" where
  "strip_prefix p s = (if starts_with p s then Some (drop (length p) s) else None)"

text \<open>A run of digits, not empty, followed by the given text.\<close>

definition number_then :: "string \<Rightarrow> string \<Rightarrow> nat option" where
  "number_then after s = (case digit_run s of (ds, rest) \<Rightarrow>
     if ds \<noteq> [] \<and> starts_with after rest then Some (digits_value ds) else None)"

definition rung_number_re :: "string \<Rightarrow> nat option" where
  "rung_number_re msg = Option.bind (strip_prefix ''Rung '' msg) (number_then '':'')"

text \<open>A run of characters other than the double quote, not empty, and the quote after it.\<close>

definition quoted_run :: "string \<Rightarrow> (string \<times> string) option" where
  "quoted_run s = (let q = takeWhile (\<lambda>c. c \<noteq> CHR 0x22) s; rest = dropWhile (\<lambda>c. c \<noteq> CHR 0x22) s in
     if q \<noteq> [] \<and> rest \<noteq> [] then Some (q, tl rest) else None)"

definition empty_rung_re :: "string \<Rightarrow> (string \<times> nat) option" where
  "empty_rung_re msg = do {
     s \<leftarrow> strip_prefix (''Empty rung: '' @ dq) msg;
     (i, rest) \<leftarrow> quoted_run s;
     t \<leftarrow> strip_prefix '' (rung '' rest;
     n \<leftarrow> number_then '')'' t;
     Some (i, n) }"

fun quoted_id_re :: "string \<Rightarrow> string option" where
  "quoted_id_re [] = None"
| "quoted_id_re (c # s) = (if c = CHR 0x22 \<and> quoted_run s \<noteq> None
     then map_option fst (quoted_run s) else quoted_id_re s)"

definition add_mark :: "'k \<Rightarrow> string \<Rightarrow> ('k, string list) jsmap \<Rightarrow> ('k, string list) jsmap" where
  "add_mark k msg m = js_set k ((case map_of m k of None \<Rightarrow> [] | Some l \<Rightarrow> l) @ [msg]) m"

record markup_state =
  s_rungErrors :: "(nat, string list) jsmap"
  s_rungIds :: "string list"
  s_nodeErrors :: "(string, string list) jsmap"

definition mark_error :: "string list \<Rightarrow> markup_state \<Rightarrow> string \<Rightarrow> markup_state" where
  "mark_error nodeIdSet st msg =
     (case rung_number_re msg of
        Some n \<Rightarrow> st\<lparr>s_rungErrors := add_mark n msg (s_rungErrors st)\<rparr>
      | None \<Rightarrow> (case empty_rung_re msg of
          Some (i, n) \<Rightarrow> st\<lparr>s_rungIds := js_add i (s_rungIds st),
              s_rungErrors := add_mark n msg (s_rungErrors st)\<rparr>
        | None \<Rightarrow> (case quoted_id_re msg of
            Some i \<Rightarrow> if i \<in> set nodeIdSet then st\<lparr>s_nodeErrors := add_mark i msg (s_nodeErrors st)\<rparr> else st
          | None \<Rightarrow> st)))"

definition mark_warning :: "(nat, string list) jsmap \<Rightarrow> string \<Rightarrow> (nat, string list) jsmap" where
  "mark_warning m msg = (case empty_rung_re msg of Some (i, n) \<Rightarrow> add_mark n msg m | None \<Rightarrow> m)"

record validation_markup =
  total :: nat
  messages :: "string list"
  rungNumbers :: "nat list"
  rungIds :: "string list"
  rungErrors :: "(nat, string list) jsmap"
  nodeIds :: "string list"
  nodeErrors :: "(string, string list) jsmap"
  warningRungNumbers :: "nat list"
  rungWarnings :: "(nat, string list) jsmap"
  warningTotal :: nat

definition parseValidationErrors :: "validation_result \<Rightarrow> ld_graph \<Rightarrow> validation_markup" where
  "parseValidationErrors result g =
     (let st = foldl (mark_error (node_ids g)) \<lparr>s_rungErrors = [], s_rungIds = [], s_nodeErrors = []\<rparr> (errors result);
          rw = foldl mark_warning [] (warnings result)
      in \<lparr>total = length (errors result), messages = errors result,
          rungNumbers = sort_key (\<lambda>x. x) (map fst (s_rungErrors st)), rungIds = s_rungIds st,
          rungErrors = s_rungErrors st, nodeIds = map fst (s_nodeErrors st),
          nodeErrors = s_nodeErrors st, warningRungNumbers = sort_key (\<lambda>x. x) (map fst rw),
          rungWarnings = rw, warningTotal = length (warnings result)\<rparr>)"

subsection \<open>The messages of the handler are recognised\<close>

lemma strip_prefix_append [simp]: "strip_prefix p (p @ s) = Some s"
  by (simp add: strip_prefix_def)

lemma number_then_dec:
  assumes "\<not> digit_char (hd after)" "after \<noteq> []"
  shows "number_then after (nat_to_dec n @ after @ s) = Some n"
proof -
  obtain a as where a: "after = a # as" using assms(2) by (cases after) auto
  have "takeWhile digit_char (nat_to_dec n @ after @ s) = nat_to_dec n"
    "dropWhile digit_char (nat_to_dec n @ after @ s) = after @ s"
    using assms nat_to_dec_digits [of _ n] by (simp_all add: a)
  then show ?thesis by (simp add: number_then_def digit_run_def)
qed

lemma rung_number_re_prefix: "rung_number_re (rung_prefix r @ s) = Some (rungNumber r)"
proof -
  have "rung_prefix r @ s = ''Rung '' @ nat_to_dec (rungNumber r) @ '':'' @ '' '' @ s"
    by (simp add: rung_prefix_def)
  then show ?thesis
    using number_then_dec [of "'':''" "rungNumber r" "'' '' @ s"]
    by (simp only: rung_number_re_def strip_prefix_append) (simp add: digit_char_def)
qed

lemma rung_rule_number:
  "e \<in> set (rung_rule_errors g r) \<Longrightarrow> rung_number_re e = Some (rungNumber r)"
  by (auto simp: rung_rule_errors_def Let_def multi_coil_msg_def coil_right_msg_def no_contacts_msg_def
      append_assoc [symmetric] simp del: append_assoc intro: rung_number_re_prefix split: if_splits)

lemma quoted_run_id:
  assumes "i \<noteq> []" "CHR 0x22 \<notin> set i"
  shows "quoted_run (i @ dq @ s) = Some (i, s)"
proof -
  have "\<And>c. c \<in> set i \<Longrightarrow> c \<noteq> CHR 0x22" using assms(2) by auto
  then have "takeWhile (\<lambda>c. c \<noteq> CHR 0x22) (i @ dq @ s) = i" "dropWhile (\<lambda>c. c \<noteq> CHR 0x22) (i @ dq @ s) = dq @ s"
    by (subst takeWhile_append2 dropWhile_append2; simp add: dq_def)+
  then show ?thesis using assms by (simp add: quoted_run_def dq_def)
qed

lemma empty_rung_re_msg:
  assumes "rid r \<noteq> []" "CHR 0x22 \<notin> set (rid r)"
  shows "empty_rung_re (empty_rung_msg r) = Some (rid r, rungNumber r)"
proof -
  have msg: "empty_rung_msg r = (''Empty rung: '' @ dq) @ rid r @ dq @ '' (rung '' @ nat_to_dec (rungNumber r)
      @ '')'' @ '' has no elements''"
    by (simp add: empty_rung_msg_def quoted_def)
  have "number_then '')'' (nat_to_dec (rungNumber r) @ '')'' @ '' has no elements'') = Some (rungNumber r)"
    by (rule number_then_dec) (simp_all add: digit_char_def)
  then show ?thesis
    unfolding empty_rung_re_def msg strip_prefix_append by (simp only: Option.bind.simps quoted_run_id [OF assms]
        strip_prefix_append split_conv)
qed

subsection \<open>What is marked\<close>

definition error_rung :: "string \<Rightarrow> nat option" where
  "error_rung msg = (case rung_number_re msg of Some n \<Rightarrow> Some n | None \<Rightarrow> map_option snd (empty_rung_re msg))"

definition error_node :: "string list \<Rightarrow> string \<Rightarrow> string option" where
  "error_node ids msg = (if error_rung msg \<noteq> None then None
     else case quoted_id_re msg of None \<Rightarrow> None | Some i \<Rightarrow> if i \<in> set ids then Some i else None)"

definition marked :: "('k, string list) jsmap \<Rightarrow> 'k \<Rightarrow> string list" where
  "marked m k = (case map_of m k of None \<Rightarrow> [] | Some l \<Rightarrow> l)"

definition marks_ok :: "('k, string list) jsmap \<Rightarrow> bool" where
  "marks_ok m \<longleftrightarrow> distinct (map fst m) \<and> (\<forall>k. map_of m k \<noteq> Some [])"

lemma add_mark_simps [simp]:
  "marked (add_mark k msg m) k' = marked m k' @ (if k' = k then [msg] else [])"
  "marks_ok m \<Longrightarrow> marks_ok (add_mark k msg m)"
  by (auto simp: add_mark_def marked_def marks_ok_def)

lemma marked_Nil [simp]: "marked [] k = []" "marks_ok []"
  by (simp_all add: marked_def marks_ok_def)

lemma keys_marked: "marks_ok m \<Longrightarrow> k \<in> set (map fst m) \<longleftrightarrow> marked m k \<noteq> []"
proof -
  assume "marks_ok m"
  then have "map_of m k \<noteq> Some []" by (simp add: marks_ok_def)
  moreover have "k \<in> set (map fst m) \<longleftrightarrow> map_of m k \<noteq> None" by (simp add: map_of_eq_None_iff)
  ultimately show ?thesis unfolding marked_def by (cases "map_of m k") auto
qed

lemma mark_error_simps:
  "marked (s_rungErrors (mark_error ids st msg)) n = marked (s_rungErrors st) n @ (if error_rung msg = Some n then [msg] else [])"
  "marked (s_nodeErrors (mark_error ids st msg)) i = marked (s_nodeErrors st) i @ (if error_node ids msg = Some i then [msg] else [])"
  "marks_ok (s_rungErrors st) \<Longrightarrow> marks_ok (s_rungErrors (mark_error ids st msg))"
  "marks_ok (s_nodeErrors st) \<Longrightarrow> marks_ok (s_nodeErrors (mark_error ids st msg))"
  by (auto simp: mark_error_def error_rung_def error_node_def split: option.split)

lemma mark_errors:
  "marked (s_rungErrors (foldl (mark_error ids) st msgs)) n = marked (s_rungErrors st) n @ filter (\<lambda>m. error_rung m = Some n) msgs"
  "marked (s_nodeErrors (foldl (mark_error ids) st msgs)) i = marked (s_nodeErrors st) i @ filter (\<lambda>m. error_node ids m = Some i) msgs"
  "marks_ok (s_rungErrors st) \<Longrightarrow> marks_ok (s_rungErrors (foldl (mark_error ids) st msgs))"
  "marks_ok (s_nodeErrors st) \<Longrightarrow> marks_ok (s_nodeErrors (foldl (mark_error ids) st msgs))"
  by (induction msgs arbitrary: st) (simp_all add: mark_error_simps)

lemma mark_warnings:
  "marked (foldl mark_warning m msgs) n = marked m n @ filter (\<lambda>w. map_option snd (empty_rung_re w) = Some n) msgs"
  "marks_ok m \<Longrightarrow> marks_ok (foldl mark_warning m msgs)"
  by (induction msgs arbitrary: m) (auto simp: mark_warning_def split: option.split)

text \<open>Every message is filed under exactly its rung or its node, in order.\<close>

lemma markup_errors:
  "marked (rungErrors (parseValidationErrors v g)) n = filter (\<lambda>m. error_rung m = Some n) (errors v)"
  "marked (nodeErrors (parseValidationErrors v g)) i = filter (\<lambda>m. error_node (node_ids g) m = Some i) (errors v)"
  "marked (rungWarnings (parseValidationErrors v g)) n
     = filter (\<lambda>w. map_option snd (empty_rung_re w) = Some n) (warnings v)"
  by (simp_all add: parseValidationErrors_def Let_def mark_errors mark_warnings)

lemma marks_ok_markup:
  "marks_ok (rungErrors (parseValidationErrors v g))" "marks_ok (nodeErrors (parseValidationErrors v g))"
  "marks_ok (rungWarnings (parseValidationErrors v g))"
  by (simp_all add: parseValidationErrors_def Let_def mark_errors mark_warnings)

lemma markup_rungNumbers:
  "set (rungNumbers (parseValidationErrors v g)) = {n. \<exists>m \<in> set (errors v). error_rung m = Some n}"
  "sorted_wrt (<) (rungNumbers (parseValidationErrors v g))"
proof -
  let ?p = "parseValidationErrors v g"
  have eq: "rungNumbers ?p = sort_key (\<lambda>x. x) (map fst (rungErrors ?p))"
    by (simp add: parseValidationErrors_def Let_def)
  show "set (rungNumbers ?p) = {n. \<exists>m \<in> set (errors v). error_rung m = Some n}"
    unfolding eq set_sort using keys_marked [OF marks_ok_markup(1) [of v g]] markup_errors(1) [of v g]
    by (auto simp: filter_empty_conv)
  have "distinct (map fst (rungErrors ?p))" using marks_ok_markup(1) [of v g] by (simp add: marks_ok_def)
  then show "sorted_wrt (<) (rungNumbers ?p)"
    unfolding eq by (simp add: strict_sorted_iff)
qed

lemma markup_nodeIds:
  "set (nodeIds (parseValidationErrors v g)) = {i. \<exists>m \<in> set (errors v). error_node (node_ids g) m = Some i}"
  "set (nodeIds (parseValidationErrors v g)) \<subseteq> set (node_ids g)"
proof -
  let ?p = "parseValidationErrors v g"
  have eq: "nodeIds ?p = map fst (nodeErrors ?p)" by (simp add: parseValidationErrors_def Let_def)
  show *: "set (nodeIds ?p) = {i. \<exists>m \<in> set (errors v). error_node (node_ids g) m = Some i}"
    unfolding eq using keys_marked [OF marks_ok_markup(2) [of v g]] markup_errors(2) [of v g]
    by (auto simp: filter_empty_conv)
  show "set (nodeIds ?p) \<subseteq> set (node_ids g)"
    unfolding * by (auto simp: error_node_def split: if_splits option.splits)
qed

end
