(* ===== verification/History.thy ===== *)
theory History
  imports JsPrelude
begin

text \<open>
  Undo and redo, specified without an array and a pointer: a \<open>timeline\<close> has the documents
  before the current one (newest first, at most 49 of them), the current one, those that were
  undone, and the dirty flag. \<open>history\<close> is the interface a GModel state promises with respect
  to it; the ladder and the function block editor interpret it on their own states.
\<close>

record 'g timeline =
  past :: "'g list"
  present :: 'g
  future :: "'g list"
  unsaved :: bool

definition tl_apply :: "'g \<Rightarrow> 'g timeline \<Rightarrow> 'g timeline" where
  "tl_apply g t = \<lparr>past = take 49 (present t # past t), present = g, future = [], unsaved = True\<rparr>"

definition tl_undo :: "'g timeline \<Rightarrow> 'g timeline" where
  "tl_undo t = (case past t of [] \<Rightarrow> t
     | p # ps \<Rightarrow> \<lparr>past = ps, present = p, future = present t # future t, unsaved = True\<rparr>)"

definition tl_redo :: "'g timeline \<Rightarrow> 'g timeline" where
  "tl_redo t = (case future t of [] \<Rightarrow> t
     | f # fs \<Rightarrow> \<lparr>past = present t # past t, present = f, future = fs, unsaved = True\<rparr>)"

definition tl_clean :: "'g timeline \<Rightarrow> 'g timeline" where
  "tl_clean t = t\<lparr>unsaved := False\<rparr>"

definition tl_start :: "'g \<Rightarrow> 'g timeline" where
  "tl_start g = \<lparr>past = [], present = g, future = [], unsaved = False\<rparr>"

definition tl_bounded :: "'g timeline \<Rightarrow> bool" where
  "tl_bounded t \<longleftrightarrow> length (past t) + length (future t) \<le> 49"

text \<open>What the user does with the history; a mutation may throw and draws ids.\<close>

datatype ('g, 's, 'e) action =
    Mutate "'g \<Rightarrow> 's \<Rightarrow> ('e + 'g) \<times> 's"
  | Undo
  | Redo
  | MarkClean

fun tl_act :: "('g, 's, 'e) action \<Rightarrow> 'g timeline \<times> 's \<Rightarrow> 'g timeline \<times> 's" where
  "tl_act (Mutate m) (t, s) = (case m (present t) s of
     (Inl e, s') \<Rightarrow> (t, s') | (Inr g, s') \<Rightarrow> (tl_apply g t, s'))"
| "tl_act Undo (t, s) = (tl_undo t, s)"
| "tl_act Redo (t, s) = (tl_redo t, s)"
| "tl_act MarkClean (t, s) = (tl_clean t, s)"

fun tl_run :: "('g, 's, 'e) action list \<Rightarrow> 'g timeline \<times> 's \<Rightarrow> 'g timeline \<times> 's" where
  "tl_run [] ts = ts"
| "tl_run (a # as) ts = tl_run as (tl_act a ts)"

subsection \<open>Facts of the specification\<close>

lemma tl_undo_apply: "past (tl_apply g t) \<noteq> [] \<and> present (tl_undo (tl_apply g t)) = present t"
  by (simp add: tl_apply_def tl_undo_def)

lemma tl_redo_undo: "past t \<noteq> [] \<Longrightarrow> tl_redo (tl_undo t) = t\<lparr>unsaved := True\<rparr>"
  by (cases "past t") (simp_all add: tl_redo_def tl_undo_def)

lemma tl_undo_redo: "future t \<noteq> [] \<Longrightarrow> tl_undo (tl_redo t) = t\<lparr>unsaved := True\<rparr>"
  by (cases "future t") (simp_all add: tl_redo_def tl_undo_def)

lemma tl_bounded_steps:
  "tl_bounded t \<Longrightarrow> tl_bounded (tl_apply g t)" "tl_bounded t \<Longrightarrow> tl_bounded (tl_undo t)"
  "tl_bounded t \<Longrightarrow> tl_bounded (tl_redo t)" "tl_bounded t \<Longrightarrow> tl_bounded (tl_clean t)"
  "tl_bounded (tl_start g)"
  by (auto simp: tl_bounded_def tl_apply_def tl_undo_def tl_redo_def tl_clean_def tl_start_def
      split: list.split)

lemma tl_act_bounded: "tl_bounded (fst ts) \<Longrightarrow> tl_bounded (fst (tl_act a ts))"
  by (cases ts; cases a) (auto simp: tl_bounded_steps split: prod.split sum.split)

text \<open>Several undos at once.\<close>

lemma tl_undo_Cons: "past t = p # ps \<Longrightarrow> present (tl_undo t) = p \<and> past (tl_undo t) = ps"
  by (simp add: tl_undo_def)

lemma tl_undos:
  "n \<le> length (past t) \<Longrightarrow> present ((tl_undo ^^ n) t) = (present t # past t) ! n
     \<and> past ((tl_undo ^^ n) t) = drop n (past t)"
proof (induction n)
  case (Suc n)
  then have "past ((tl_undo ^^ n) t) = past t ! n # drop (Suc n) (past t)"
    using Cons_nth_drop_Suc [of n "past t"] by simp
  from tl_undo_Cons [OF this] show ?case by simp
qed simp

text \<open>The newest 50 documents after several mutations.\<close>

definition tl_line :: "'g timeline \<Rightarrow> 'g list" where
  "tl_line t = present t # past t"

lemma tl_line_apply: "tl_line (tl_apply g t) = g # take 49 (tl_line t)"
  by (simp add: tl_line_def tl_apply_def)

lemma tl_line_applies: "take 50 (tl_line (fold tl_apply gs t)) = take 50 (rev gs @ tl_line t)"
proof (induction gs rule: rev_induct)
  case (snoc g gs)
  have "take 49 (take 50 (tl_line (fold tl_apply gs t))) = take 49 (take 50 (rev gs @ tl_line t))"
    by (simp only: snoc.IH)
  then have "take 49 (tl_line (fold tl_apply gs t)) = take 49 (rev gs @ tl_line t)"
    by (simp add: min_def del: take_append)
  then show ?case by (simp add: tl_line_apply del: take_append)
qed simp

text \<open>After \<open>n \<le> 49\<close> mutations, \<open>n\<close> undos bring the first document back.\<close>

lemma tl_undo_all:
  assumes "length gs \<le> 49"
  shows "present ((tl_undo ^^ length gs) (fold tl_apply gs t)) = present t"
proof -
  let ?T = "fold tl_apply gs t" and ?n = "length gs"
  have "take 50 (tl_line ?T) ! ?n = take 50 (rev gs @ tl_line t) ! ?n" by (simp only: tl_line_applies)
  then have nth: "tl_line ?T ! ?n = present t"
    using assms by (simp add: nth_append tl_line_def del: take_append take_Cons_numeral)
  have "length (take 50 (tl_line ?T)) = length (take 50 (rev gs @ tl_line t))"
    by (simp only: tl_line_applies)
  then have "?n \<le> length (past ?T)" using assms by (simp add: tl_line_def)
  from tl_undos [OF this] nth show ?thesis by (simp add: tl_line_def)
qed

text \<open>From a new document, undoing at least as often as mutating brings it back, whichever mutations threw.\<close>

lemma tl_run_append [simp]: "tl_run (as @ bs) ts = tl_run bs (tl_run as ts)"
  by (induction as arbitrary: ts) simp_all

lemma tl_run_mutates:
  "\<exists>gs s'. tl_run (map Mutate ms) (t, s) = (fold tl_apply gs t, s') \<and> length gs \<le> length ms"
proof (induction ms arbitrary: t s)
  case Nil
  show ?case by (rule exI [of _ "[]"]) simp
next
  case (Cons m ms)
  obtain r s1 where m: "m (present t) s = (r, s1)" by (rule prod.exhaust)
  show ?case
  proof (cases r)
    case (Inl e)
    with m Cons.IH [of t s1] show ?thesis by (auto intro: le_SucI)
  next
    case (Inr g)
    from Cons.IH [of "tl_apply g t" s1] obtain gs s' where
      "tl_run (map Mutate ms) (tl_apply g t, s1) = (fold tl_apply (g # gs) t, s')" "length (g # gs) \<le> Suc (length ms)"
      by auto
    with m Inr show ?thesis by (intro exI [of _ "g # gs"]) simp
  qed
qed

lemma tl_run_undos: "tl_run (replicate n Undo) (t, s) = ((tl_undo ^^ n) t, s)"
  by (induction n arbitrary: t) (simp_all add: funpow_swap1)

lemma tl_undo_first: "past t = [] \<Longrightarrow> (tl_undo ^^ n) t = t"
  by (induction n) (simp_all add: tl_undo_def)

lemma fold_applies_bounded: "tl_bounded t \<Longrightarrow> tl_bounded (fold tl_apply gs t)"
  by (induction gs arbitrary: t) (simp_all add: tl_bounded_steps)

lemma tl_undo_to_start:
  assumes "length gs \<le> 49" "length gs \<le> n"
  shows "present ((tl_undo ^^ n) (fold tl_apply gs (tl_start g))) = g"
proof -
  let ?T = "fold tl_apply gs (tl_start g)" and ?k = "length gs"
  have "length (take 50 (tl_line ?T)) = length (take 50 (rev gs @ tl_line (tl_start g)))"
    by (simp only: tl_line_applies)
  moreover have "tl_bounded ?T" by (rule fold_applies_bounded) (rule tl_bounded_steps)
  ultimately have len: "length (past ?T) = ?k"
    using assms(1) by (simp add: tl_line_def tl_start_def tl_bounded_def min_def split: if_splits)
  then have "past ((tl_undo ^^ ?k) ?T) = []" using tl_undos [of ?k ?T] by simp
  then have "(tl_undo ^^ (n - ?k)) ((tl_undo ^^ ?k) ?T) = (tl_undo ^^ ?k) ?T" by (rule tl_undo_first)
  moreover have "(tl_undo ^^ n) ?T = (tl_undo ^^ (n - ?k)) ((tl_undo ^^ ?k) ?T)"
    using assms(2) by (simp add: funpow_add [symmetric] flip: comp_apply [of "tl_undo ^^ (n - ?k)" "tl_undo ^^ ?k"])
  moreover have "present ((tl_undo ^^ ?k) ?T) = g"
    using tl_undo_all [OF assms(1), of "tl_start g"] by (simp add: tl_start_def)
  ultimately show ?thesis by simp
qed

lemma tl_undo_session:
  assumes "length ms \<le> 49" "length ms \<le> n"
  shows "present (fst (tl_run (map Mutate ms @ replicate n Undo) (tl_start g, s))) = g"
proof -
  obtain gs s' where gs: "tl_run (map Mutate ms) (tl_start g, s) = (fold tl_apply gs (tl_start g), s')"
    "length gs \<le> length ms" using tl_run_mutates [of ms "tl_start g" s] by blast
  then show ?thesis using assms tl_undo_to_start [of gs n g] by (simp add: tl_run_undos)
qed

subsection \<open>The interface\<close>

locale history =
  fixes rep :: "'st \<Rightarrow> 'g timeline \<Rightarrow> bool"
    and act :: "('g, 's, 'e) action \<Rightarrow> 'st \<times> 's \<Rightarrow> 'st \<times> 's"
    and shown :: "'st \<Rightarrow> 's \<Rightarrow> ('x + 'g) \<times> 's"
  assumes rep_act: "rep st t \<Longrightarrow> tl_bounded t \<Longrightarrow> tl_act a (t, s) = (t', s') \<Longrightarrow>
      \<exists>st'. act a (st, s) = (st', s') \<and> rep st' t'"
    and rep_shown: "rep st t \<Longrightarrow> shown st s = (Inr (present t), s)"
begin

lemma run_rep:
  assumes "rep st t" "tl_bounded t" "tl_run as (t, s) = (t', s')"
  shows "\<exists>st'. foldl (\<lambda>x a. act a x) (st, s) as = (st', s') \<and> rep st' t' \<and> tl_bounded t'"
  using assms
proof (induction as arbitrary: st t s)
  case (Cons a as)
  obtain t1 s1 where one: "tl_act a (t, s) = (t1, s1)" by (rule prod.exhaust)
  with Cons.prems rep_act obtain st1 where "act a (st, s) = (st1, s1)" "rep st1 t1" by blast
  moreover have "tl_bounded t1" using tl_act_bounded [of "(t, s)" a] Cons.prems(2) one by simp
  ultimately show ?case using Cons.IH [of st1 t1 s1] Cons.prems(3) one by simp
qed simp

text \<open>Any sequence of actions shows the document of the specification.\<close>

lemma run_shown:
  assumes "rep st t" "tl_bounded t"
  shows "shown (fst (foldl (\<lambda>x a. act a x) (st, s) as)) s'' = (Inr (present (fst (tl_run as (t, s)))), s'')"
proof -
  obtain t' s' where "tl_run as (t, s) = (t', s')" by (rule prod.exhaust)
  with run_rep [OF assms this] rep_shown show ?thesis by auto
qed

end

end
