(* ===== verification/LdHistory.thy ===== *)
theory LdHistory
  imports LdMachine History
begin

text \<open>
  The ladder editor's undo stack (state/ld-gmodel-state.ts): an array of JSON snapshots, a
  pointer into it and the dirty flag, at most \<open>MAX_UNDO\<close> snapshots. It interprets the
  \<open>history\<close> interface.
\<close>

definition MAX_UNDO :: nat where
  "MAX_UNDO = 50"

record ld_state =
  snapshots :: "json list"
  pointer :: int
  dirty :: bool

text \<open>What a call on the state can throw: a mutation's error, or \<open>fromJSON\<close>'s.\<close>

datatype 'e state_error = MutationError 'e | FromJsonError string

definition ld_pushSnapshot :: "ld_graph \<Rightarrow> ld_state \<Rightarrow> ld_state" where
  "ld_pushSnapshot g st =
     (let snaps = snapshots st @ [ld_toJSON g] in
      if length snaps > MAX_UNDO then st\<lparr>snapshots := tl snaps\<rparr>
      else st\<lparr>snapshots := snaps, pointer := pointer st + 1\<rparr>)"

definition ld_new_state :: "ld_graph option \<Rightarrow> idgen \<Rightarrow> ld_state \<times> idgen" where
  "ld_new_state initial s =
     (let (g, s') = (case initial of Some g \<Rightarrow> (g, s) | None \<Rightarrow> createLdGraph None s)
      in (ld_pushSnapshot g \<lparr>snapshots = [], pointer = - 1, dirty = False\<rparr>, s'))"

text \<open>
  The getter \<open>graph\<close>. A snapshot that is not a typed graph cannot be in the array; the model
  reports it as an error of \<open>fromJSON\<close>.
\<close>

definition ld_state_graph :: "ld_state \<Rightarrow> idgen \<Rightarrow> ('e state_error + ld_graph) \<times> idgen" where
  "ld_state_graph st s =
     (if pointer st < 0 then (case createLdGraph None s of (g, s') \<Rightarrow> (Inr g, s'))
      else (case ld_fromJSON (snapshots st ! nat (pointer st)) of
          Inl msg \<Rightarrow> (Inl (FromJsonError msg), s)
        | Inr j \<Rightarrow> (case ld_view j of Some g \<Rightarrow> (Inr g, s)
            | None \<Rightarrow> (Inl (FromJsonError ''not a graph''), s))))"

definition ld_applyOperation ::
  "(ld_graph \<Rightarrow> idgen \<Rightarrow> ('e + ld_graph) \<times> idgen) \<Rightarrow> ld_state \<Rightarrow> idgen \<Rightarrow>
     ('e state_error + ld_graph) \<times> ld_state \<times> idgen" where
  "ld_applyOperation mutate st s =
     (case ld_state_graph st s of
        (Inl e, s1) \<Rightarrow> (Inl e, st, s1)
      | (Inr g, s1) \<Rightarrow> (case mutate g s1 of
          (Inl e, s2) \<Rightarrow> (Inl (MutationError e), st, s2)
        | (Inr g', s2) \<Rightarrow>
            (let st1 = st\<lparr>snapshots := take (nat (pointer st + 1)) (snapshots st)\<rparr>
             in (Inr g', (ld_pushSnapshot g' st1)\<lparr>dirty := True\<rparr>, s2))))"

definition ld_undo :: "ld_state \<Rightarrow> idgen \<Rightarrow> ('e state_error + ld_graph option) \<times> ld_state \<times> idgen" where
  "ld_undo st s =
     (if pointer st \<le> 0 then (Inr None, st, s)
      else (let st1 = st\<lparr>pointer := pointer st - 1, dirty := True\<rparr>;
                (g, s1) = ld_state_graph st1 s
            in (map_sum id Some g, st1, s1)))"

definition ld_redo :: "ld_state \<Rightarrow> idgen \<Rightarrow> ('e state_error + ld_graph option) \<times> ld_state \<times> idgen" where
  "ld_redo st s =
     (if pointer st \<ge> int (length (snapshots st)) - 1 then (Inr None, st, s)
      else (let st1 = st\<lparr>pointer := pointer st + 1, dirty := True\<rparr>;
                (g, s1) = ld_state_graph st1 s
            in (map_sum id Some g, st1, s1)))"

definition ld_markClean :: "ld_state \<Rightarrow> ld_state" where
  "ld_markClean st = st\<lparr>dirty := False\<rparr>"

definition ld_undoDepth :: "ld_state \<Rightarrow> int" where
  "ld_undoDepth st = pointer st"

definition ld_redoDepth :: "ld_state \<Rightarrow> int" where
  "ld_redoDepth st = int (length (snapshots st)) - 1 - pointer st"

text \<open>One user action on the state and the id generator.\<close>

fun ld_act :: "(ld_graph, idgen, 'e) action \<Rightarrow> ld_state \<times> idgen \<Rightarrow> ld_state \<times> idgen" where
  "ld_act (Mutate m) (st, s) = snd (ld_applyOperation m st s)"
| "ld_act Undo (st, s) = snd (ld_undo st s :: ('e state_error + ld_graph option) \<times> ld_state \<times> idgen)"
| "ld_act Redo (st, s) = snd (ld_redo st s :: ('e state_error + ld_graph option) \<times> ld_state \<times> idgen)"
| "ld_act MarkClean (st, s) = (ld_markClean st, s)"

subsection \<open>The state represents a timeline\<close>

definition ld_rep :: "ld_state \<Rightarrow> ld_graph timeline \<Rightarrow> bool" where
  "ld_rep st t \<longleftrightarrow> snapshots st = map ld_toJSON (rev (past t) @ present t # future t)
     \<and> pointer st = int (length (past t)) \<and> dirty st = unsaved t"

lemma ld_rep_graph: "ld_rep st t \<Longrightarrow> ld_state_graph st s = (Inr (present t), s)"
  by (simp add: ld_rep_def ld_state_graph_def nth_append ld_view_toJSON)

lemma ld_rep_apply:
  assumes rep: "ld_rep st t" and b: "tl_bounded t" and m: "m (present t) s = (Inr g, s')"
  shows "\<exists>st'. ld_applyOperation m st s = (Inr g, st', s') \<and> ld_rep st' (tl_apply g t)"
proof -
  let ?st1 = "st\<lparr>snapshots := take (nat (pointer st + 1)) (snapshots st)\<rparr>"
  have snaps: "snapshots ?st1 = map ld_toJSON (rev (past t) @ [present t])"
    using rep by (simp add: ld_rep_def nat_add_distrib)
  have "ld_rep ((ld_pushSnapshot g ?st1)\<lparr>dirty := True\<rparr>) (tl_apply g t)"
  proof (cases "length (past t) = 49")
    case True
    then obtain p ps where p: "rev (past t) = p # ps" by (cases "rev (past t)") auto
    have len: "length ps = 48" using arg_cong [OF p, of length] True by simp
    have "past t = rev ps @ [p]" by (metis p rev.simps(2) rev_rev_ident)
    then have "rev (take 48 (past t)) = ps" using len by simp
    then show ?thesis
      using rep snaps True p len
      by (simp add: ld_rep_def ld_pushSnapshot_def MAX_UNDO_def tl_apply_def Let_def)
  next
    case False
    then have "length (past t) < 49" using b by (simp add: tl_bounded_def)
    then show ?thesis
      using rep snaps
      by (simp add: ld_rep_def ld_pushSnapshot_def MAX_UNDO_def tl_apply_def Let_def)
  qed
  then show ?thesis
    using m by (simp add: ld_applyOperation_def ld_rep_graph [OF rep] Let_def)
qed

lemma ld_rep_throw:
  "ld_rep st t \<Longrightarrow> m (present t) s = (Inl e, s') \<Longrightarrow>
     ld_applyOperation m st s = (Inl (MutationError e), st, s')"
  by (simp add: ld_applyOperation_def ld_rep_graph)

lemma ld_rep_undo:
  assumes "ld_rep st t"
  shows "\<exists>st'. ld_undo st s = (Inr (if past t = [] then None else Some (present (tl_undo t))), st', s)
    \<and> ld_rep st' (tl_undo t)"
proof (cases "past t")
  case (Cons p ps)
  then have "ld_rep (st\<lparr>pointer := pointer st - 1, dirty := True\<rparr>) (tl_undo t)"
    using assms by (simp add: ld_rep_def tl_undo_def)
  note new = this
  show ?thesis
  proof (intro exI conjI)
    show "ld_undo st s = (Inr (if past t = [] then None else Some (present (tl_undo t))),
        st\<lparr>pointer := pointer st - 1, dirty := True\<rparr>, s)"
      unfolding ld_undo_def Let_def ld_rep_graph [OF new] using assms Cons by (simp add: ld_rep_def)
  qed (rule new)
qed (use assms in \<open>simp add: ld_undo_def ld_rep_def tl_undo_def\<close>)

lemma ld_rep_redo:
  assumes "ld_rep st t"
  shows "\<exists>st'. ld_redo st s = (Inr (if future t = [] then None else Some (present (tl_redo t))), st', s)
    \<and> ld_rep st' (tl_redo t)"
proof (cases "future t")
  case (Cons f fs)
  then have "ld_rep (st\<lparr>pointer := pointer st + 1, dirty := True\<rparr>) (tl_redo t)"
    using assms by (simp add: ld_rep_def tl_redo_def)
  note new = this
  show ?thesis
  proof (intro exI conjI)
    show "ld_redo st s = (Inr (if future t = [] then None else Some (present (tl_redo t))),
        st\<lparr>pointer := pointer st + 1, dirty := True\<rparr>, s)"
      unfolding ld_redo_def Let_def ld_rep_graph [OF new] using assms Cons by (simp add: ld_rep_def)
  qed (rule new)
qed (use assms in \<open>simp add: ld_redo_def ld_rep_def tl_redo_def\<close>)

lemma ld_rep_act:
  fixes a :: "(ld_graph, idgen, 'e) action"
  assumes rep: "ld_rep st t" and b: "tl_bounded t" and act: "tl_act a (t, s) = (t', s')"
  shows "\<exists>st'. ld_act a (st, s) = (st', s') \<and> ld_rep st' t'"
proof (cases a)
  case (Mutate m)
  obtain r s1 where m: "m (present t) s = (r, s1)" by (rule prod.exhaust)
  show ?thesis
  proof (cases r)
    case (Inl e)
    then show ?thesis using act rep m Mutate ld_rep_throw [OF rep, of m s e s1] by auto
  next
    case (Inr g)
    then show ?thesis using act m Mutate ld_rep_apply [OF rep b, of m s g s1] by auto
  qed
next
  case Undo
  obtain st' where "ld_undo st s = (Inr (if past t = [] then None else Some (present (tl_undo t)))
      :: 'e state_error + ld_graph option, st', s)" "ld_rep st' (tl_undo t)"
    using ld_rep_undo [OF rep] by blast
  with Undo act show ?thesis by auto
next
  case Redo
  obtain st' where "ld_redo st s = (Inr (if future t = [] then None else Some (present (tl_redo t)))
      :: 'e state_error + ld_graph option, st', s)" "ld_rep st' (tl_redo t)"
    using ld_rep_redo [OF rep] by blast
  with Redo act show ?thesis by auto
next
  case MarkClean
  then show ?thesis using act rep by (auto simp: ld_markClean_def tl_clean_def ld_rep_def)
qed

interpretation ld_hist: history ld_rep ld_act ld_state_graph
  by unfold_locales (auto intro: ld_rep_act ld_rep_graph)

lemma ld_new_state_rep: "ld_new_state (Some g) s = (st, s') \<Longrightarrow> ld_rep st (tl_start g) \<and> s' = s"
  by (auto simp: ld_new_state_def ld_pushSnapshot_def MAX_UNDO_def tl_start_def ld_rep_def Let_def)

lemma ld_rep_depths: "ld_rep st t \<Longrightarrow> ld_undoDepth st = int (length (past t)) \<and> ld_redoDepth st = int (length (future t))"
  by (simp add: ld_rep_def ld_undoDepth_def ld_redoDepth_def)

end
