(* ===== verification/LdSpecs.thy ===== *)
theory LdSpecs
  imports LdMachine LdQueries LdHistory
begin

text \<open>
  What single operations of the ladder handler do, beyond keeping the invariant: rewiring
  touches only edges, and the updates of rungs and nodes by id are maps over the lists.
\<close>

subsection \<open>Rewiring touches only the edges\<close>

definition only_edges :: "wiring \<Rightarrow> wiring \<Rightarrow> bool" where
  "only_edges st st' \<longleftrightarrow> (\<exists>es. fst st' = (fst st)\<lparr>edges := es\<rparr>)"

lemma only_edges_refl [simp, intro]: "only_edges st st"
  unfolding only_edges_def by (intro exI [of _ "edges (fst st)"]) simp

lemma only_edges_trans [trans]: "only_edges a b \<Longrightarrow> only_edges b c \<Longrightarrow> only_edges a c"
  by (auto simp: only_edges_def)

lemma only_edges_push [simp, intro]: "only_edges st (push_wire a b sp tp st)"
  by (auto simp: only_edges_def push_wire_def Let_def split: prod.split)

lemma only_edges_filter [simp, intro]: "only_edges st (filter_edges p st)"
  by (auto simp: only_edges_def filter_edges_def)

lemma only_edges_bus: "only_edges st (bus_wires ms st)"
proof (induction ms st rule: bus_wires.induct)
  case (1 m m' ms st)
  have "only_edges st (push_wire m m' (Some ''bus-out'') (Some ''bus-in'') st)" by simp
  also note 1
  finally show ?case by simp
qed simp_all

lemma only_edges_branch: "only_edges st (wire_branch r b st)"
  unfolding wire_branch_def Let_def
  by (auto intro!: only_edges_trans [OF _ only_edges_push] only_edges_trans [OF only_edges_push only_edges_bus])

lemma only_edges_foldl: "(\<And>st x. only_edges st (f st x)) \<Longrightarrow> only_edges st (foldl f st xs)"
proof (induction xs arbitrary: st)
  case (Cons x xs)
  have "only_edges (f st x) (foldl f (f st x) xs)" by (rule Cons.IH) (rule Cons.prems)
  with Cons.prems [of st x] show ?case by (auto intro: only_edges_trans)
qed simp

lemma only_edges_branches: "only_edges st (rewireRungBranches r st)"
  unfolding rewireRungBranches_def
  by (auto intro: only_edges_foldl only_edges_branch only_edges_trans [OF only_edges_filter])

lemma only_edges_chain: "only_edges st (series_chain prev is st)"
proof (induction "is" arbitrary: prev st)
  case (Cons i "is")
  let ?st = "if truthy_id prev \<and> i \<noteq> the prev then push_wire (the prev) i None None st else st"
  have "only_edges st ?st" by simp
  also have "only_edges ?st (series_chain (Some i) is ?st)" by (rule Cons.IH)
  finally show ?case by simp
qed simp

lemma only_edges_cases:
  "only_edges st x \<Longrightarrow> only_edges st y \<Longrightarrow> only_edges st (if P then x else y)"
  by simp

lemma only_edges_series: "only_edges st (rewireRungSeries r st)"
proof -
  have "only_edges st (series_chain a b (filter_edges p st))" for a b p
    by (rule only_edges_trans [OF only_edges_filter only_edges_chain])
  then show ?thesis
    unfolding rewireRungSeries_def Let_def
    by (intro only_edges_cases only_edges_trans [OF _ only_edges_branches] only_edges_trans [OF _ only_edges_push])
qed

lemma only_edgesD:
  assumes "only_edges st st'"
  shows "nodes (fst st') = nodes (fst st)" "rungs (fst st') = rungs (fst st)" "gid (fst st') = gid (fst st)"
  using assms by (auto simp: only_edges_def)

lemma only_edges_eq: "st' = y \<Longrightarrow> only_edges st st' \<Longrightarrow> only_edges st y"
  by simp

lemma only_edges_if: "only_edges st st' \<Longrightarrow> only_edges st (if P then push_wire a b sp tp st' else st')"
  by (auto intro: only_edges_trans)

lemmas rewiring = only_edges_if only_edges_refl only_edges_trans [OF _ only_edges_branches]
  only_edges_trans [OF _ only_edges_series] only_edges_trans [OF _ only_edges_push]

subsection \<open>Updates by id\<close>

lemma update_at_map:
  assumes d: "distinct (map f xs)" and k: "findIndex (\<lambda>x. f x = i) xs = Some k"
  shows "xs[k := h (xs ! k)] = map (\<lambda>x. if f x = i then h x else x) xs"
proof (rule nth_equalityI)
  note k' = findIndex_SomeD [OF k]
  fix j assume j: "j < length (xs[k := h (xs ! k)])"
  have "f (xs ! j) = i \<longleftrightarrow> j = k"
    using d k' j nth_eq_iff_index_eq [of "map f xs" j k] by auto
  then show "xs[k := h (xs ! k)] ! j = map (\<lambda>x. if f x = i then h x else x) xs ! j"
    using j k' by simp
qed simp

lemma set_node_map:
  assumes "distinct (node_ids g)"
  shows "set_node i f g = g\<lparr>nodes := map (\<lambda>n. if nid n = i then f n else n) (nodes g)\<rparr>"
proof (cases "findIndex (\<lambda>n. nid n = i) (nodes g)")
  case None
  then have "map (\<lambda>n. if nid n = i then f n else n) (nodes g) = nodes g"
    by (intro map_idI) (simp add: findIndex_None)
  with None show ?thesis by (simp add: set_node_def)
next
  case (Some k)
  from update_at_map [OF assms [unfolded node_ids_def] Some, of f] Some show ?thesis
    by (simp add: set_node_def)
qed

lemma set_rung_map:
  assumes "distinct (map rid (rungs g))"
  shows "rungs (set_rung i r g) = map (\<lambda>q. if rid q = i then r else q) (rungs g)"
proof (cases "findIndex (\<lambda>q. rid q = i) (rungs g)")
  case None
  then have "map (\<lambda>q. if rid q = i then r else q) (rungs g) = rungs g"
    by (intro map_idI) (simp add: findIndex_None)
  with None show ?thesis by (simp add: set_rung_def)
next
  case (Some k)
  from update_at_map [OF assms Some, of "\<lambda>_. r"] Some show ?thesis by (simp add: set_rung_def)
qed

lemma findRung_InrD: "findRung g i = Inr r \<Longrightarrow> r \<in> set (rungs g) \<and> rid r = i"
  by (auto simp: findRung_def dest: find_SomeD split: option.splits)

subsection \<open>Adding a contact\<close>

lemma addContact_effect:
  assumes inv: "ld_inv (g, s)" and r: "findRung g (ac_rungId p) = Inr r"
    and run: "addContact g p s = (Inr g', s')"
  shows "\<exists>c. nodes g' = nodes g @ [c] \<and> nid c \<notin> all_ids g
    \<and> ndata c = Contact (ac_type p) (''IN'' @ nat_to_dec (count_nodes is_contact g)) None
    \<and> rungs g' = map (\<lambda>q. if rid q = ac_rungId p then r\<lparr>elementIds :=
        splice_insert (insert_slot g (elementIds r) (ac_insertIndex p) (ac_position p)) [nid c] (elementIds r)\<rparr>
        else q) (rungs g)"
proof -
  note I = ld_invD [OF inv]
  note rr = findRung_InrD [OF r]
  obtain c s1 where c: "createContact (ac_type p) (''IN'' @ nat_to_dec (count_nodes is_contact g)) None s = (c, s1)"
    by (rule prod.exhaust)
  then have data: "ndata c = Contact (ac_type p) (''IN'' @ nat_to_dec (count_nodes is_contact g)) None"
    and gen: "generateId ''contact'' s = (nid c, s1)"
    by (auto simp: createContact_def split: prod.splits)
  have fresh: "nid c \<notin> all_ids g" by (rule push_node_inv [OF inv gen]) simp_all
  from run r c have no: "\<not> contact_right_of_coil g r p" by (auto simp: addContact_def split: if_splits)
  define k where "k = insert_slot g (elementIds r) (ac_insertIndex p) (ac_position p)"
  define r1 where "r1 = r\<lparr>elementIds := splice_insert k [nid c] (elementIds r)\<rparr>"
  define g2 where "g2 = set_rung (rid r) r1 (push_node c g)"
  have "only_edges (g2, s1) (g', s')"
    using run r c no
    by (simp add: addContact_def Let_def g2_def r1_def k_def)
      (erule only_edges_eq; intro rewiring)
  note same = only_edgesD [OF this]
  have "nodes g' = nodes g @ [c]" using same(1) by (simp add: g2_def push_node_def)
  moreover have "rungs g' = map (\<lambda>q. if rid q = ac_rungId p then r1 else q) (rungs g)"
    using same(2) I(2) rr by (simp add: g2_def set_rung_map)
  ultimately show ?thesis using data fresh by (auto simp: r1_def k_def)
qed

subsection \<open>Moving an item of a list\<close>

lemma remove1_splice: "distinct xs \<Longrightarrow> k < length xs \<Longrightarrow> remove1 (xs ! k) xs = splice_remove k xs"
proof -
  assume d: "distinct xs" and k: "k < length xs"
  have xs: "xs = take k xs @ xs ! k # drop (Suc k) xs" using k by (rule id_take_nth_drop)
  then have "xs ! k \<notin> set (take k xs)" using d by (metis distinct_append disjoint_insert(2) list.simps(15))
  then have "remove1 (xs ! k) (take k xs @ xs ! k # drop (Suc k) xs) = take k xs @ drop (Suc k) xs"
    by (simp add: remove1_append)
  with xs show ?thesis by (simp add: splice_remove_def)
qed

definition moved_to :: "nat \<Rightarrow> 'a \<Rightarrow> 'a list \<Rightarrow> 'a list \<Rightarrow> bool" where
  "moved_to k x xs ys \<longleftrightarrow> mset ys = mset xs \<and> k < length ys \<and> ys ! k = x \<and> remove1 x ys = remove1 x xs"

lemma splice_moves:
  assumes d: "distinct xs" and k: "k < length xs" and t: "t \<le> length xs - 1"
  shows "moved_to t (xs ! k) xs (splice_insert t [xs ! k] (splice_remove k xs))"
proof -
  let ?r = "splice_remove k xs"
  have len: "length ?r = length xs - 1" using k by (simp add: splice_remove_def)
  have "xs ! k \<notin> set ?r" using set_splice_remove [OF d k] by simp
  then have "remove1 (xs ! k) (take t ?r @ xs ! k # drop t ?r) = ?r"
    by (auto simp: remove1_append dest: in_set_takeD)
  moreover have "mset (splice_insert t [xs ! k] ?r) = mset xs"
    using k by (simp add: mset_splice_remove)
  ultimately show ?thesis
    using t len k remove1_splice [OF d k]
    by (simp add: moved_to_def splice_insert_def nth_append)
qed

lemma moved_same: "k < length xs \<Longrightarrow> moved_to k (xs ! k) xs xs"
  by (simp add: moved_to_def)

text \<open>The slot a moved element ends in: its own removal has shifted the ones after it.\<close>

definition reorder_slot :: "nat \<Rightarrow> int \<Rightarrow> nat \<Rightarrow> nat" where
  "reorder_slot from insertIndex n =
     (let t = clamp_index insertIndex (n - 1) in if from < t then t - 1 else t)"

lemma reorderElement_effect:
  assumes inv: "ld_inv (g, s)" and run: "reorderElement g i idx s = (Inr g', s')"
  shows "\<exists>r from els. r \<in> set (rungs g) \<and> from < length (elementIds r) \<and> elementIds r ! from = i
    \<and> moved_to (reorder_slot from idx (length (elementIds r))) i (elementIds r) els
    \<and> rungs g' = map (\<lambda>q. if rid q = rid r then r\<lparr>elementIds := els\<rparr> else q) (rungs g)
    \<and> nodes g' = nodes g
    \<and> (g', s') = rewireRungBranches (r\<lparr>elementIds := els\<rparr>) (rewireRungSeries (r\<lparr>elementIds := els\<rparr>)
        (set_rung (rid r) (r\<lparr>elementIds := els\<rparr>) g, s))"
proof (cases "List.find (\<lambda>r. i \<in> set (elementIds r)) (rungs g)")
  case None
  with run show ?thesis by (simp add: reorderElement_def)
next
  case (Some r)
  note I = ld_invD [OF inv]
  from Some have r: "r \<in> set (rungs g)" "i \<in> set (elementIds r)" by (auto dest: find_SomeD)
  then obtain k where k: "indexOf (elementIds r) i = Some k" using indexOf_Some_ex by metis
  then have at: "k < length (elementIds r)" "elementIds r ! k = i" by (auto dest: indexOf_SomeD)
  have d: "distinct (elementIds r)"
    using rung_refs_distinct [OF r(1) I(3)] by (simp add: rung_refs_def)
  let ?t = "reorder_slot k idx (length (elementIds r))"
  define els where "els = splice_insert ?t [i] (splice_remove k (elementIds r))"
  have len: "length (splice_remove k (elementIds r)) = length (elementIds r) - 1"
    using at by (simp add: splice_remove_def)
  have "?t \<le> length (elementIds r) - 1"
    using clamp_index_le [of idx "length (elementIds r) - 1"] by (auto simp: reorder_slot_def Let_def intro: le_trans [OF diff_le_self])
  from splice_moves [OF d at(1) this] at(2)
  have mv: "moved_to ?t i (elementIds r) els" by (simp add: els_def)
  from run Some k have eq: "(g', s') = rewireRungBranches (r\<lparr>elementIds := els\<rparr>)
      (rewireRungSeries (r\<lparr>elementIds := els\<rparr>) (set_rung (rid r) (r\<lparr>elementIds := els\<rparr>) g, s))"
    by (simp add: reorderElement_def Let_def els_def reorder_slot_def len split: if_splits)
  have "only_edges (set_rung (rid r) (r\<lparr>elementIds := els\<rparr>) g, s) (g', s')"
    unfolding eq by (intro only_edges_trans [OF only_edges_series only_edges_branches])
  note same = only_edgesD [OF this]
  have "nodes g' = nodes g" using same(1) by simp
  moreover have "rungs g' = map (\<lambda>q. if rid q = rid r then r\<lparr>elementIds := els\<rparr> else q) (rungs g)"
    using same(2) by (simp add: set_rung_map [OF I(2)])
  ultimately show ?thesis using r at mv eq by blast
qed

lemma moveRung_effect:
  assumes inv: "ld_inv (g, s)" and run: "moveRung g i idx s = (Inr g', s')"
  shows "moved_to (clamp_index idx (length (rungs g) - 1)) i (map rid (rungs g)) (map rid (rungs g'))
    \<and> nodes g' = nodes g \<and> edges g' = edges g
    \<and> (g' = g \<or> map rungNumber (rungs g') = [1..<length (rungs g) + 1])"
proof -
  note I = ld_invD [OF inv]
  from run obtain k where k: "findIndex (\<lambda>r. rid r = i) (rungs g) = Some k"
    by (auto simp: moveRung_def split: option.splits)
  note at = findIndex_SomeD [OF k]
  let ?t = "clamp_index idx (length (rungs g) - 1)"
  have ids: "map rid (rungs g) ! k = i" "k < length (map rid (rungs g))" using at by simp_all
  show ?thesis
  proof (cases "k = ?t")
    case True
    with run k have "g' = g" by (simp add: moveRung_def)
    moreover have "moved_to ?t i (map rid (rungs g)) (map rid (rungs g))"
      using moved_same [OF ids(2)] ids(1) True by metis
    ultimately show ?thesis by simp
  next
    case False
    let ?rs = "splice_insert ?t [rungs g ! k] (splice_remove k (rungs g))"
    from run k False have g': "g' = g\<lparr>rungs := renumber ?rs\<rparr>" by (simp add: moveRung_def Let_def)
    have "map rid ?rs = splice_insert ?t [map rid (rungs g) ! k] (splice_remove k (map rid (rungs g)))"
      using at by (simp add: splice_insert_def splice_remove_def take_map drop_map)
    then have "moved_to ?t i (map rid (rungs g)) (map rid (renumber ?rs))"
      using splice_moves [OF I(2) ids(2), of ?t] ids(1) by simp
    moreover have "length ?rs = length (rungs g)" using conjunct1 [OF at] by (simp add: splice_remove_def)
    then have "map rungNumber (renumber ?rs) = [1..<length (rungs g) + 1]"
      by (intro nth_equalityI) (simp_all add: renumber_def del: upt_Suc)
    ultimately show ?thesis by (simp add: g')
  qed
qed

subsection \<open>Deleting an element\<close>

lemma map_node_key_rewires: "rewires X st st' \<Longrightarrow> map node_key (nodes (fst st')) = map node_key (nodes (fst st))"
  by (auto simp: rewires_def)

lemma deleteElement_effect:
  assumes inv: "ld_inv (g, s)" and n: "findNode g i \<noteq> None" and run: "deleteElement g i s = (Inr g', s')"
  shows "map node_key (nodes g') = map node_key (filter (\<lambda>n. nid n \<notin> set (drop_node_ids g i)) (nodes g))"
    "map rung_refs (rungs g') = map (\<lambda>r. filter (\<lambda>x. x \<notin> set (drop_node_ids g i)) (rung_refs r)) (rungs g)"
    "map rid (rungs g') = map rid (rungs g)"
proof -
  let ?D = "set (drop_node_ids g i)"
  let ?g1 = "restrict_nodes ?D (rungs g) g"
  obtain rs st where prune: "prune_rungs i (drop_node_ids g i) (drop_branch_ids g i) (rungs g) (?g1, s) = (rs, st)"
    by (rule prod.exhaust)
  have ids: "node_ids ?g1 = filter (\<lambda>x. x \<notin> ?D) (node_ids g)"
    by (simp add: restrict_nodes_def node_ids_def filter_map comp_def)
  have 1: "list_all2 (pruned ?D) (rungs g) rs" "rewires (set (node_ids ?g1)) (?g1, s) st"
    using prune_rungs_spec [OF inv _ _ prune] ids by simp_all
  have g1: "g\<lparr>edges := filter (\<lambda>e. sourceId e \<notin> ?D \<and> targetId e \<notin> ?D) (edges g),
      nodes := filter (\<lambda>n. nid n \<notin> ?D) (nodes g)\<rparr> = ?g1" "rungs ?g1 = rungs g"
    by (simp_all add: restrict_nodes_def)
  with run n prune have g': "g' = (fst st)\<lparr>rungs := rs\<rparr>" by (auto simp: deleteElement_def Let_def)
  show "map node_key (nodes g') = map node_key (filter (\<lambda>n. nid n \<notin> ?D) (nodes g))"
    using map_node_key_rewires [OF 1(2)] by (simp add: g' restrict_nodes_def)
  have "list_all2 (\<lambda>r r'. rung_refs r' = filter (\<lambda>x. x \<notin> ?D) (rung_refs r) \<and> rid r' = rid r) (rungs g) rs"
    using 1(1) by (rule list_all2_mono) (simp add: pruned_def)
  then show "map rung_refs (rungs g') = map (\<lambda>r. filter (\<lambda>x. x \<notin> ?D) (rung_refs r)) (rungs g)"
    "map rid (rungs g') = map rid (rungs g)"
    unfolding g' by (induction rule: list_all2_induct) simp_all
qed

text \<open>Deletion of an existing element never fails.\<close>

lemma deleteElement_total: "findNode g i \<noteq> None \<or> findEdge g i \<noteq> None \<Longrightarrow> \<exists>g' s'. deleteElement g i s = (Inr g', s')"
  by (auto simp: deleteElement_def Let_def ok_def split: prod.splits)

subsection \<open>Editing one element\<close>

fun edit_target :: "ld_op \<Rightarrow> string option" where
  "edit_target (ChangeCoilType i t) = Some i"
| "edit_target (ChangeContactType i t) = Some i"
| "edit_target (SetElementComment i x) = Some i"
| "edit_target (RenameVariable i x) = Some i"
| "edit_target (ReplaceElement i n) = Some i"
| "edit_target _ = None"

definition single_edit :: "string \<Rightarrow> ld_graph \<Rightarrow> ld_graph \<Rightarrow> bool" where
  "single_edit i g g' \<longleftrightarrow> (\<exists>f. g' = g\<lparr>nodes := map (\<lambda>n. if nid n = i then f n else n) (nodes g)\<rparr>
     \<and> (\<forall>n. findNode g i = Some n \<longrightarrow> nid (f n) = i \<and> npos (f n) = npos n \<and> node_type (f n) = node_type n))"

lemma single_edit_same: "single_edit i g g"
  unfolding single_edit_def by (intro exI [of _ "\<lambda>n. n"]) (auto dest: findNode_SomeD cong: if_cong)

lemma single_edit_set:
  assumes "distinct (node_ids g)"
    "\<And>n. findNode g i = Some n \<Longrightarrow> nid (f n) = i \<and> npos (f n) = npos n \<and> node_type (f n) = node_type n"
  shows "single_edit i g (set_node i f g)"
  unfolding single_edit_def using assms by (intro exI [of _ f]) (simp add: set_node_map)

lemma set_data_type [simp]:
  "type_of_data (set_coil_type t d) = type_of_data d" "type_of_data (set_contact_type t' d) = type_of_data d"
  "type_of_data (set_comment c d) = type_of_data d" "type_of_data (set_variable w d) = type_of_data d"
  by (cases d; simp)+

lemma single_edit_update:
  assumes "distinct (node_ids g)" "\<And>d. type_of_data (f d) = type_of_data d"
  shows "single_edit i g (set_node i (update_data f) g)"
  by (rule single_edit_set [OF assms(1)])
    (auto simp: update_data_def node_type_def assms(2) dest: findNode_SomeD)

lemma ok_eq: "ok st = (Inr g', s') \<longleftrightarrow> st = (g', s')" by simp

lemma single_edits:
  assumes inv: "ld_inv (g, s)" and t: "edit_target op = Some i" and run: "run_op op g s = (Inr g', s')"
  shows "single_edit i g g' \<and> s' = s"
proof -
  note d = ld_invD(1) [OF inv]
  show ?thesis
  proof (cases op)
    case (ChangeCoilType j t)
    with t run show ?thesis
      by (auto simp: changeCoilType_def single_edit_same single_edit_update [OF d]
          split: option.splits node_data.splits if_splits)
  next
    case (ChangeContactType j t)
    with t run show ?thesis
      by (auto simp: changeContactType_def single_edit_same single_edit_update [OF d]
          split: option.splits node_data.splits if_splits)
  next
    case (SetElementComment j x)
    with t run show ?thesis
      by (auto simp: setElementComment_def Let_def single_edit_same single_edit_update [OF d]
          split: option.splits node_data.splits if_splits)
  next
    case (RenameVariable j x)
    with t run show ?thesis
      by (auto simp: renameVariable_def rename_to_def single_edit_same single_edit_update [OF d]
          split: option.splits node_data.splits if_splits)
  next
    case (ReplaceElement j m)
    with t run obtain n where n: "findNode g i = Some n" "node_type m = node_type n"
      and g': "g' = set_node i (\<lambda>_. m\<lparr>nid := i, npos := npos n\<rparr>) g" "s' = s"
      by (auto simp: replaceElement_def split: option.splits if_splits)
    have "single_edit i g g'"
      unfolding g' by (rule single_edit_set [OF d]) (use n in \<open>auto simp: node_type_def\<close>)
    with g' show ?thesis by simp
  qed (use t in simp_all)
qed

lemma renameVariable_decides:
  assumes "findNode g i = Some n" "isVariableNode n"
  shows "(\<exists>g' s'. renameVariable g i txt s = (Inr g', s')) \<longleftrightarrow> trim txt \<noteq> [] \<and> (\<forall>c \<in> set (trim txt). \<not> js_space c)"
    "renameVariable g i txt s = (Inr g', s') \<Longrightarrow> distinct (node_ids g) \<Longrightarrow>
       \<exists>n'. findNode g' i = Some n' \<and> variableName n' = trim txt"
proof -
  have "renameVariable g i txt s = rename_to g i (variableName n) (trim txt) s"
    using assms by (auto simp: renameVariable_def isVariableNode_def variableName_def split: node_data.splits)
  note eq = this
  show "(\<exists>g' s'. renameVariable g i txt s = (Inr g', s')) \<longleftrightarrow> trim txt \<noteq> [] \<and> (\<forall>c \<in> set (trim txt). \<not> js_space c)"
    by (auto simp: eq rename_to_def ok_def throw_def)
  assume run: "renameVariable g i txt s = (Inr g', s')" and d: "distinct (node_ids g)"
  have find: "findNode (g\<lparr>nodes := map (\<lambda>m. if nid m = i then f m else m) (nodes g)\<rparr>) i = Some (f n)"
    if "\<And>m. nid (f m) = nid m" for f
  proof -
    have "List.find (\<lambda>m. nid m = i) (map (\<lambda>m. if nid m = i then f m else m) ns) = map_option f (List.find (\<lambda>m. nid m = i) ns)" for ns
      using that by (induction ns) auto
    with assms(1) show ?thesis by (simp add: findNode_def)
  qed
  show "\<exists>n'. findNode g' i = Some n' \<and> variableName n' = trim txt"
  proof (cases "trim txt = variableName n")
    case True
    with run eq assms(1) show ?thesis by (auto simp: rename_to_def split: if_splits)
  next
    case False
    with run eq have "g' = set_node i (update_data (set_variable (trim txt))) g"
      by (auto simp: rename_to_def split: if_splits)
    moreover have "variableName (update_data (set_variable (trim txt)) n) = trim txt"
      using assms(2) by (auto simp: isVariableNode_def variableName_def update_data_def split: node_data.splits)
    ultimately show ?thesis
      using find [of "update_data (set_variable (trim txt))"] by (auto simp: set_node_map [OF d] update_data_def)
  qed
qed

subsection \<open>The wires of a rebuilt series\<close>

definition wire_ends_of :: "ld_graph \<Rightarrow> (string \<times> string) list" where
  "wire_ends_of g = map (\<lambda>e. (sourceId e, targetId e)) (edges g)"

lemma wire_ends_push [simp]: "wire_ends_of (fst (push_wire a b sp tp st)) = wire_ends_of (fst st) @ [(a, b)]"
  by (simp add: wire_ends_of_def push_wire_def createWire_def Let_def split: prod.split)

lemma wire_ends_filter: "wire_ends_of (fst (filter_edges (\<lambda>e. P (sourceId e) (targetId e)) st))
    = filter (\<lambda>(a, b). P a b) (wire_ends_of (fst st))"
  by (simp add: wire_ends_of_def filter_edges_def filter_map comp_def)

text \<open>The pairs of neighbours, from the left rail when there is one.\<close>

fun neighbours :: "string option \<Rightarrow> string list \<Rightarrow> (string \<times> string) list" where
  "neighbours prev [] = []"
| "neighbours prev (i # is) = (case prev of None \<Rightarrow> [] | Some p \<Rightarrow> [(p, i)]) @ neighbours (Some i) is"

lemma wire_ends_chain:
  "distinct is \<Longrightarrow> [] \<notin> set is \<Longrightarrow> (case prev of None \<Rightarrow> True | Some p \<Rightarrow> p \<noteq> [] \<and> p \<notin> set is) \<Longrightarrow>
    wire_ends_of (fst (series_chain prev is st)) = wire_ends_of (fst st) @ neighbours prev is"
proof (induction prev "is" st rule: series_chain.induct)
  case (2 prev i "is" st)
  have t: "truthy_id prev = (prev \<noteq> None)"
    using 2(4) by (cases prev) (auto simp: truthy_id_def)
  have ih: "wire_ends_of (fst (series_chain (Some i) is st')) = wire_ends_of (fst st') @ neighbours (Some i) is"
    if "st' = (if truthy_id prev \<and> i \<noteq> the prev then push_wire (the prev) i None None st else st)" for st'
    unfolding that by (rule 2(1)) (use 2 in auto)
  show ?case
  proof (cases prev)
    case None
    then show ?thesis using ih t by simp
  next
    case (Some p)
    with 2(4) have "i \<noteq> p" by auto
    then show ?thesis using ih t Some by simp
  qed
qed simp

lemma rewireRungSeries_wires:
  assumes d: "distinct (elementIds r)" and ne: "[] \<notin> set (elementIds r)" "elementIds r \<noteq> []"
    and nb: "rung_branches r = []"
    and rail: "\<And>n. findLeftRailOnRung (fst st) r = Some n \<Longrightarrow> nid n \<noteq> [] \<and> nid n \<notin> set (elementIds r)"
  shows "\<exists>tail. wire_ends_of (fst (rewireRungSeries r st)) =
      filter (\<lambda>(a, b). a \<notin> set (elementIds r) \<and> b \<notin> set (elementIds r)) (wire_ends_of (fst st))
      @ neighbours (map_option nid (findLeftRailOnRung (fst st) r)) (elementIds r) @ tail
    \<and> tail = (let target = (case findCoilOnRung (fst st) r of Some c \<Rightarrow> Some (nid c)
         | None \<Rightarrow> map_option nid (findRightRailOnRung (fst st) r)) in
       if truthy_id target \<and> the target \<noteq> last (elementIds r) then [(last (elementIds r), the target)] else [])"
proof -
  let ?els = "elementIds r" and ?prev = "map_option nid (findLeftRailOnRung (fst st) r)"
  let ?st1 = "filter_edges (\<lambda>e. sourceId e \<notin> set ?els \<and> targetId e \<notin> set ?els) st"
  have "wire_ends_of (fst (series_chain ?prev ?els ?st1)) = wire_ends_of (fst ?st1) @ neighbours ?prev ?els"
    by (rule wire_ends_chain [OF d ne(1)]) (use rail in \<open>auto split: option.split\<close>)
  also have "wire_ends_of (fst ?st1) = filter (\<lambda>(a, b). a \<notin> set ?els \<and> b \<notin> set ?els) (wire_ends_of (fst st))"
    by (rule wire_ends_filter)
  finally have chain: "wire_ends_of (fst (series_chain ?prev ?els ?st1))
      = filter (\<lambda>(a, b). a \<notin> set ?els \<and> b \<notin> set ?els) (wire_ends_of (fst st)) @ neighbours ?prev ?els" .
  have "last ?els \<noteq> []" using ne by (metis last_in_set)
  then show ?thesis
    using ne(2) nb chain
    by (auto simp: rewireRungSeries_def rewireRungBranches_def Let_def)
qed

subsection \<open>Deleting a branch leaves the series connected\<close>

lemma deleteBranch_effect:
  assumes inv: "ld_inv (g, s)" and b: "findBranch g i = Inr (r, b)" and run: "deleteBranch g i s = (Inr g', s')"
  shows "nodes g' = filter (\<lambda>n. nid n \<notin> set (members b)) (nodes g)"
    "rungs g' = map (\<lambda>q. if rid q = rid r then
        r\<lparr>branches := Some (filter (\<lambda>c. bid c \<noteq> bid b) (rung_branches r))\<rparr> else q) (rungs g)"
    "seriesSuccessor r (anchorId b) = Some t \<Longrightarrow> t \<noteq> [] \<Longrightarrow>
       \<exists>e \<in> set (edges g'). sourceId e = anchorId b \<and> targetId e = t"
proof -
  let ?ms = "members b"
  let ?g1 = "g\<lparr>nodes := filter (\<lambda>n. nid n \<notin> set ?ms) (nodes g),
      edges := filter (\<lambda>e. sourceId e \<notin> set ?ms \<and> targetId e \<notin> set ?ms) (edges g)\<rparr>"
  let ?r1 = "r\<lparr>branches := Some (filter (\<lambda>c. bid c \<noteq> bid b) (rung_branches r))\<rparr>"
  define st3 where "st3 = rewireRungBranches ?r1 (set_rung (rid r) ?r1 ?g1, s)"
  let ?succ = "seriesSuccessor ?r1 (anchorId b)"
  define st4 where "st4 = (if truthy_id ?succ \<and>
      \<not> (\<exists>e \<in> set (edges (fst st3)). sourceId e = anchorId b \<and> Some (targetId e) = ?succ)
      then push_wire (anchorId b) (the ?succ) None None st3 else st3)"
  have "deleteBranch g i s = ok st4"
    by (simp only: deleteBranch_def b Let_def st3_def st4_def cloneGraph_eq result_simps prod.case)
  with run have eq: "(g', s') = st4" by simp
  have "only_edges (set_rung (rid r) ?r1 ?g1, s) st3"
    unfolding st3_def by (rule only_edges_branches)
  then have "only_edges (set_rung (rid r) ?r1 ?g1, s) st4"
    unfolding st4_def by (rule only_edges_if)
  note same = only_edgesD [OF this, unfolded eq [symmetric]]
  show "nodes g' = filter (\<lambda>n. nid n \<notin> set ?ms) (nodes g)" using same(1) by simp
  show "rungs g' = map (\<lambda>q. if rid q = rid r then ?r1 else q) (rungs g)"
    using same(2) ld_invD(2) [OF inv] by (simp add: set_rung_map)
  assume t: "seriesSuccessor r (anchorId b) = Some t" "t \<noteq> []"
  have same_series: "elementIds ?r1 = elementIds r" by simp
  have "seriesSuccessor ?r1 x = seriesSuccessor r x" for x
    unfolding seriesSuccessor_def same_series by (rule refl)
  with t have succ: "?succ = Some t" by simp
  have "\<exists>e \<in> set (edges (fst st4)). sourceId e = anchorId b \<and> targetId e = t"
  proof (cases "\<exists>e \<in> set (edges (fst st3)). sourceId e = anchorId b \<and> Some (targetId e) = ?succ")
    case True
    then show ?thesis by (auto simp: st4_def succ)
  next
    case False
    then have "st4 = push_wire (anchorId b) t None None st3"
      using t(2) by (simp add: st4_def succ truthy_id_def)
    then have "(anchorId b, t) \<in> set (wire_ends_of (fst st4))" by simp
    then show ?thesis by (auto simp: wire_ends_of_def)
  qed
  then show "\<exists>e \<in> set (edges g'). sourceId e = anchorId b \<and> targetId e = t"
    by (simp add: eq [symmetric])
qed

subsection \<open>The wires after a reordering\<close>

lemma reorder_wires:
  assumes inv: "ld_inv (g, s)" and run: "reorderElement g i idx s = (Inr g', s')"
    and nb: "\<And>r. r \<in> set (rungs g) \<Longrightarrow> i \<in> set (elementIds r) \<Longrightarrow> rung_branches r = []"
    and ids: "[] \<notin> set (node_ids g)"
    and rails: "rail_ids g \<inter> set (rung_node_ids g) = {}"
  shows "\<exists>r els. r \<in> set (rungs g) \<and> i \<in> set (elementIds r) \<and> mset els = mset (elementIds r) \<and>
    wire_ends_of g' = filter (\<lambda>(a, b). a \<notin> set els \<and> b \<notin> set els) (wire_ends_of g)
      @ neighbours (map_option nid (findLeftRailOnRung g r)) els
      @ (let target = (case first_coil g els of Some c \<Rightarrow> Some (nid c)
           | None \<Rightarrow> map_option nid (findRightRailOnRung g r)) in
         if truthy_id target \<and> the target \<noteq> last els then [(last els, the target)] else [])"
proof -
  from reorderElement_effect [OF inv run] obtain r "from" els where r: "r \<in> set (rungs g)"
    "from < length (elementIds r)" "elementIds r ! from = i"
    and mv: "moved_to (reorder_slot from idx (length (elementIds r))) i (elementIds r) els"
    and eq: "(g', s') = rewireRungBranches (r\<lparr>elementIds := els\<rparr>) (rewireRungSeries (r\<lparr>elementIds := els\<rparr>)
        (set_rung (rid r) (r\<lparr>elementIds := els\<rparr>) g, s))"
    by blast
  define q where "q = r\<lparr>elementIds := els\<rparr>"
  have q: "elementIds q = els" by (simp add: q_def)
  let ?g = "set_rung (rid r) (r\<lparr>elementIds := els\<rparr>) g"
  note I = ld_invD [OF inv]
  from r have i: "i \<in> set (elementIds r)" by (metis nth_mem)
  then have bs: "rung_branches q = []" using nb [OF r(1)] by (simp add: rung_branches_def q_def)
  from mv have m: "mset els = mset (elementIds r)" by (simp add: moved_to_def)
  have d: "distinct els"
    using rung_refs_distinct [OF r(1) I(3)] m by (metis distinct_append mset_eq_imp_distinct_iff rung_refs_def)
  have els: "set els = set (elementIds r)" using m by (rule mset_eq_setD)
  then have sub: "set els \<subseteq> set (rung_node_ids g)"
    using elementIds_in_refs rung_refs_in [OF r(1)] by blast
  have ne: "[] \<notin> set els" "els \<noteq> []" using sub I(4) ids i els by auto
  have left: "findLeftRailOnRung ?g p = findLeftRailOnRung g p'" "findRightRailOnRung ?g p = findRightRailOnRung g p'" for p p'
    by (simp_all add: findLeftRailOnRung_def findRightRailOnRung_def)
  have rail: "nid n \<noteq> [] \<and> nid n \<notin> set els" if "findLeftRailOnRung ?g q = Some n" for n
  proof -
    have n: "n \<in> set (nodes g)" "ndata n = PowerRail LeftRail"
      using that by (auto simp: findLeftRailOnRung_def dest!: find_SomeD)
    then have "nid n \<in> rail_ids g" "nid n \<in> set (node_ids g)" by (auto simp: rail_ids_def node_ids_def)
    with rails sub ids show ?thesis by auto
  qed
  have coil: "findCoilOnRung ?g q = first_coil g els"
  proof -
    have "findNode ?g = findNode g" by (auto simp: findNode_def)
    then have "first_coil ?g xs = first_coil g xs" for xs by (induction xs) (simp_all split: option.split)
    then show ?thesis by (simp add: findCoilOnRung_def q)
  qed
  have "rewireRungBranches q st = st" for st using bs by (simp add: rewireRungBranches_def)
  then have g': "(g', s') = rewireRungSeries q (?g, s)" using eq by (simp add: q_def)
  have "wire_ends_of ?g = wire_ends_of g" by (simp add: wire_ends_of_def)
  moreover note rewireRungSeries_wires [of q "(?g, s)", unfolded q fst_conv, OF d ne bs rail]
  ultimately have "wire_ends_of (fst (rewireRungSeries q (?g, s))) =
      filter (\<lambda>(a, b). a \<notin> set els \<and> b \<notin> set els) (wire_ends_of g)
      @ neighbours (map_option nid (findLeftRailOnRung g r)) els
      @ (let target = (case first_coil g els of Some c \<Rightarrow> Some (nid c)
           | None \<Rightarrow> map_option nid (findRightRailOnRung g r)) in
         if truthy_id target \<and> the target \<noteq> last els then [(last els, the target)] else [])"
    unfolding coil left [of q r] by simp
  moreover have "fst (rewireRungSeries q (?g, s)) = g'" using g' by (metis fst_conv)
  ultimately show ?thesis using r(1) m i by auto
qed

end
