(* ===== verification/LdDemo.thy ===== *)
theory LdDemo
  imports LdSpecs
begin

text \<open>
  A small ladder diagram that the witnesses of LdProps are evaluated on: two rails, a rung
  with two contacts, a coil and a branch of one contact, and a rung of two contacts.
\<close>

definition demo_node :: "string \<Rightarrow> node_data \<Rightarrow> ld_node" where
  "demo_node i d = \<lparr>nid = i, ndata = d, npos = origin, ndim = \<lparr>dwidth = 36, dheight = 36\<rparr>, ncss = None\<rparr>"

definition demo_wire :: "string \<Rightarrow> string \<Rightarrow> string \<Rightarrow> ld_edge" where
  "demo_wire i a b = \<lparr>eid = i, edata = Wire None None None, sourceId = a, targetId = b, ecss = None\<rparr>"

definition demo_branch :: branch where
  "demo_branch = \<lparr>bid = ''b1'', brungId = ''r1'', anchorId = ''c1'', members = [''m1''], bx = 40\<rparr>"

definition demo_rung1 :: rung where
  "demo_rung1 = \<lparr>rid = ''r1'', rungNumber = 1, rcomment = None, rtitle = None,
     elementIds = [''c1'', ''c2'', ''q1''], branches = Some [demo_branch]\<rparr>"

definition demo_rung2 :: rung where
  "demo_rung2 = \<lparr>rid = ''r2'', rungNumber = 2, rcomment = None, rtitle = None,
     elementIds = [''c3'', ''c4''], branches = None\<rparr>"

definition demo :: ld_graph where
  "demo = \<lparr>gid = ''g'',
     nodes = [demo_node ''L'' (PowerRail LeftRail), demo_node ''R'' (PowerRail RightRail),
       demo_node ''c1'' (Contact NO ''start'' None), demo_node ''c2'' (Contact NC ''stop'' None),
       demo_node ''q1'' (Coil Normal ''motor'' None), demo_node ''m1'' (Contact NO ''motor'' None),
       demo_node ''c3'' (Contact NO ''x'' None), demo_node ''c4'' (Contact NO ''y'' None)],
     edges = [demo_wire ''w1'' ''L'' ''c1'', demo_wire ''w2'' ''c1'' ''c2'', demo_wire ''w3'' ''L'' ''c3'',
       demo_wire ''w4'' ''c3'' ''c4''],
     rungs = [demo_rung1, demo_rung2]\<rparr>"

definition demo_gen :: idgen where
  "demo_gen = \<lparr>nextId = 0, rnd = (\<lambda>k. ''r'')\<rparr>"

lemmas demo_parts = demo_node_def demo_wire_def demo_branch_def demo_rung1_def demo_rung2_def

lemmas demo_defs = demo_def demo_parts

lemma no_dash_fresh: "(\<And>x. x \<in> X \<Longrightarrow> CHR ''-'' \<notin> set x) \<Longrightarrow> fresh_for s X"
  unfolding fresh_for_def mk_id_def by (metis append_Cons in_set_conv_decomp)

lemma demo_rung_refs: "rung_refs demo_rung1 = [''c1'', ''c2'', ''q1'', ''m1'']" "rung_refs demo_rung2 = [''c3'', ''c4'']"
  by (simp_all add: rung_refs_def demo_parts rung_branches_def)

lemma demo_ids:
  "node_ids demo = [''L'', ''R'', ''c1'', ''c2'', ''q1'', ''m1'', ''c3'', ''c4'']"
  "rung_node_ids demo = [''c1'', ''c2'', ''q1'', ''m1'', ''c3'', ''c4'']"
  "branch_ids demo = [''b1'']" "map rid (rungs demo) = [''r1'', ''r2'']"
  "map eid (edges demo) = [''w1'', ''w2'', ''w3'', ''w4'']"
proof -
  show "rung_node_ids demo = [''c1'', ''c2'', ''q1'', ''m1'', ''c3'', ''c4'']"
    by (simp add: rung_node_ids_def demo_def demo_rung_refs)
qed (simp_all add: node_ids_def branch_ids_def demo_defs rung_branches_def)

lemma demo_anchors: "\<forall>r \<in> set (rungs demo). anchors_ok r"
  by (simp add: anchors_ok_def demo_defs rung_branches_def)

lemma demo_inv: "ld_inv (demo, demo_gen)"
proof -
  have "topo_wf demo" using demo_anchors by (simp add: topo_wf_def demo_ids)
  moreover have "edges_resolve demo" by (simp add: edges_resolve_def demo_ids) (simp add: demo_defs)
  then have "edges_wf demo" by (simp add: edges_wf_def demo_ids)
  moreover have "fresh_for demo_gen (all_ids demo)"
  proof (rule no_dash_fresh)
    have ids: "all_ids demo = set (node_ids demo @ map eid (edges demo) @ map rid (rungs demo) @ branch_ids demo)"
      by (auto simp: all_ids_def)
    have "list_all (\<lambda>x. CHR ''-'' \<notin> set x)
        (node_ids demo @ map eid (edges demo) @ map rid (rungs demo) @ branch_ids demo)"
      unfolding demo_ids by simp
    then show "x \<in> all_ids demo \<Longrightarrow> CHR ''-'' \<notin> set x" for x
      unfolding ids list_all_iff by blast
  qed
  ultimately show ?thesis by (simp add: ld_inv_def)
qed

lemma demo_owned: "owned demo"
  by (simp add: owned_def demo_ids) (simp add: demo_defs)

lemma demo_good: "ld_good (demo, demo_gen)"
  by (simp add: ld_good_def demo_inv demo_owned)

lemma demo_finds:
  "findRung demo ''r1'' = Inr demo_rung1" "findRung demo ''r2'' = Inr demo_rung2"
  "findNode demo ''c1'' = Some (demo_node ''c1'' (Contact NO ''start'' None))"
  "findNode demo ''c2'' = Some (demo_node ''c2'' (Contact NC ''stop'' None))"
  "findNode demo ''q1'' = Some (demo_node ''q1'' (Coil Normal ''motor'' None))"
  "findNode demo ''m1'' = Some (demo_node ''m1'' (Contact NO ''motor'' None))"
  "findNode demo ''c3'' = Some (demo_node ''c3'' (Contact NO ''x'' None))"
  "findNode demo ''c4'' = Some (demo_node ''c4'' (Contact NO ''y'' None))"
  "findBranch demo ''b1'' = Inr (demo_rung1, demo_branch)"
  by (simp_all add: findRung_def findNode_def findBranch_def demo_defs rung_branches_def)

lemma demo_rungs [simp]:
  "rungs demo = [demo_rung1, demo_rung2]" "rid demo_rung1 = ''r1''" "rid demo_rung2 = ''r2''"
  "elementIds demo_rung1 = [''c1'', ''c2'', ''q1'']" "elementIds demo_rung2 = [''c3'', ''c4'']"
  "rung_branches demo_rung1 = [demo_branch]" "rung_branches demo_rung2 = []"
  by (simp_all add: demo_defs rung_branches_def)

lemma demo_node_simps [simp]: "nid (demo_node i d) = i" "ndata (demo_node i d) = d"
  by (simp_all add: demo_node_def)

lemma demo_coils: "findCoilOnRung demo demo_rung1 = Some (demo_node ''q1'' (Coil Normal ''motor'' None))"
  "findCoilOnRung demo demo_rung2 = None"
  by (simp_all add: findCoilOnRung_def demo_finds)

end
