(* ===== verification/LdProps.thy ===== *)
theory LdProps
  imports LdDemo
begin

text \<open>
  The properties of the ladder editor, each with a witness on the diagram of LdDemo where it
  has hypotheses.
\<close>

subsection \<open>Editing sessions\<close>

text \<open>
  C1: whatever the user does, starting from a new ladder document, with operations that may
  throw in between, the document stays well-formed: ids are distinct, every wire, rung and branch refers to
  existing elements, every element other than a rail is listed by exactly one rung, and ids still to be
  generated are unused. Excluded are the two operations that break it (pasting a comparison,
  deleting a rung that has branch members).
\<close>

theorem ld_session_good:
  assumes "script_allowed run_op edit_safe ops (createLdGraph i s)"
  shows "ld_good (run_script run_op ops (createLdGraph i s))"
proof (rule ld_ed.script_good [OF _ assms])
  show "ld_good (createLdGraph i s)"
    by (cases "createLdGraph i s") (auto dest: createLdGraph_good)
qed

definition demo_ops :: "ld_op list" where
  "demo_ops = [AddRung, AddPowerRail LeftRail, AddCoil Normal ''no such rung'', OpenBranch ''r'' ''a'',
     ReorderElement ''x'' 3, AddRung, MoveRung ''y'' 0]"

lemma ld_session_good_witness: "ld_good (run_script run_op demo_ops (createLdGraph None demo_gen))"
  by (rule ld_session_good) (simp add: demo_ops_def edit_safe_def paste_safe_def)

text \<open>
  C2: validation of a document made by any such editing session finds no structural error; its
  errors are those of the rung rules, and it passes exactly when every rung has its coil, if any, last,
  alone and after at least one contact or function block.
\<close>

theorem ld_session_validates:
  assumes "script_allowed run_op edit_safe ops (createLdGraph i s)"
    and "run_script run_op ops (createLdGraph i s) = (g, s')"
  shows "errors (validate g) = concat (map (rung_rule_errors g) (rungs g))
    \<and> (valid (validate g) \<longleftrightarrow> (\<forall>r \<in> set (rungs g). well_ordered g r))"
proof -
  have "ld_good (createLdGraph i s)"
    by (cases "createLdGraph i s") (auto dest: createLdGraph_good)
  from ld_ed.script_good [OF this assms(1)] have "ld_inv (g, s')" "owned g"
    using assms(2) by (simp_all add: ld_good_def)
  then show ?thesis using good_validate_errors good_validate_iff by blast
qed

lemma ld_session_validates_witness:
  "let g = fst (run_script run_op demo_ops (createLdGraph None demo_gen)) in
     errors (validate g) = concat (map (rung_rule_errors g) (rungs g))
     \<and> (valid (validate g) \<longleftrightarrow> (\<forall>r \<in> set (rungs g). well_ordered g r))"
proof -
  have "script_allowed run_op edit_safe demo_ops (createLdGraph None demo_gen)"
    by (simp add: demo_ops_def edit_safe_def paste_safe_def)
  from ld_session_validates [OF this, of "fst (run_script run_op demo_ops (createLdGraph None demo_gen))"
      "snd (run_script run_op demo_ops (createLdGraph None demo_gen))"]
  show ?thesis by (simp add: Let_def)
qed

text \<open>
  An operation of the ladder handler that throws leaves the document and the id generator as
  they were.
\<close>

theorem ld_throw_changes_nothing:
  assumes "run_op op g s = (Inl e, s')"
  shows "attempt run_op op (g, s) = (g, s)"
  using run_op_throw [OF assms] assms by (simp add: attempt_def)

lemma ld_throw_changes_nothing_witness: "attempt run_op (AddCoil Normal ''r3'') (demo, demo_gen) = (demo, demo_gen)"
  by (rule ld_throw_changes_nothing [of _ _ _ "ValidationError ''Rung not found: r3''" demo_gen])
    (simp add: addCoil_def findRung_def withE_def)

subsection \<open>Single operations\<close>

text \<open>
  Adding a contact appends one new element with the requested type and a numbered default
  variable name to the document, under an id used nowhere, and inserts it in the series of the addressed
  rung at the slot of the parameters; other rungs and elements stay as they are.
\<close>

theorem addContact_inserts:
  assumes "ld_inv (g, s)" "findRung g (ac_rungId p) = Inr r" "addContact g p s = (Inr g', s')"
  shows "\<exists>c. nodes g' = nodes g @ [c] \<and> nid c \<notin> all_ids g
    \<and> ndata c = Contact (ac_type p) (''IN'' @ nat_to_dec (count_nodes is_contact g)) None
    \<and> rungs g' = map (\<lambda>q. if rid q = ac_rungId p then r\<lparr>elementIds :=
        splice_insert (insert_slot g (elementIds r) (ac_insertIndex p) (ac_position p)) [nid c] (elementIds r)\<rparr>
        else q) (rungs g)"
  by (rule addContact_effect [OF assms])

definition demo_contact :: add_contact_params where
  "demo_contact = \<lparr>ac_position = None, ac_insertIndex = Some 1, ac_type = NC, ac_rungId = ''r1''\<rparr>"

lemma demo_contact_runs: "\<exists>g' s'. addContact demo demo_contact demo_gen = (Inr g', s')"
proof -
  have "\<not> contact_right_of_coil demo demo_rung1 demo_contact"
    by (simp add: contact_right_of_coil_def demo_coils demo_contact_def) (simp add: demo_node_def indexOf_def)
  then show ?thesis
    by (simp add: addContact_def demo_contact_def demo_finds ok_def Let_def split: prod.split)
qed

lemma addContact_inserts_witness:
  "\<exists>g' s' c. addContact demo demo_contact demo_gen = (Inr g', s') \<and> nodes g' = nodes demo @ [c]
     \<and> map elementIds (rungs g') = [[''c1'', nid c, ''c2'', ''q1''], [''c3'', ''c4'']]"
proof -
  obtain g' s' where run: "addContact demo demo_contact demo_gen = (Inr g', s')"
    using demo_contact_runs by blast
  have r: "findRung demo (ac_rungId demo_contact) = Inr demo_rung1"
    by (simp add: demo_contact_def demo_finds)
  from addContact_inserts [OF demo_inv r run] run show ?thesis
    by (auto simp: demo_contact_def insert_slot_def clamp_index_def splice_insert_def)
qed

text \<open>
  Reordering an element permutes the series of its rung and nothing else: the element
  ends at the requested slot, clamped to the series and counted after its own removal, the others keep their order,
  and no element and no other rung changes.
\<close>

theorem reorderElement_moves:
  assumes "ld_inv (g, s)" "reorderElement g i idx s = (Inr g', s')"
  shows "\<exists>r from els. r \<in> set (rungs g) \<and> from < length (elementIds r) \<and> elementIds r ! from = i
    \<and> moved_to (reorder_slot from idx (length (elementIds r))) i (elementIds r) els
    \<and> rungs g' = map (\<lambda>q. if rid q = rid r then r\<lparr>elementIds := els\<rparr> else q) (rungs g)
    \<and> nodes g' = nodes g"
  using reorderElement_effect [OF assms] by blast

lemma demo_reorder_runs: "\<exists>g' s'. reorderElement demo ''c4'' 0 demo_gen = (Inr g', s')"
  by (simp add: reorderElement_def demo_finds demo_coils indexOf_def ok_def Let_def)

lemma reorderElement_moves_witness:
  "\<exists>g' s' els. reorderElement demo ''c4'' 0 demo_gen = (Inr g', s') \<and> nodes g' = nodes demo
     \<and> (\<exists>r \<in> set (rungs demo). moved_to 0 ''c4'' (elementIds r) els)"
proof -
  obtain g' s' where run: "reorderElement demo ''c4'' 0 demo_gen = (Inr g', s')"
    using demo_reorder_runs by blast
  from reorderElement_moves [OF demo_inv run] run show ?thesis
    by (auto simp: reorder_slot_def clamp_index_def)
qed

text \<open>
  Reordering in a rung without branches rebuilds its wires: every wire that touched the
  rung's elements is dropped, then the left rail, the elements in their new order and the target of the last one (the
  coil, else the right rail) are joined by one wire each, and the wires of other rungs stay. When the coil is the last
  element it is its own target and gets no wire to the right rail.
\<close>

theorem reorderElement_wires:
  assumes inv: "ld_inv (g, s)" and run: "reorderElement g i idx s = (Inr g', s')"
    and nb: "\<And>r. r \<in> set (rungs g) \<Longrightarrow> i \<in> set (elementIds r) \<Longrightarrow> rung_branches r = []"
    and ids: "[] \<notin> set (node_ids g)"
    and rails: "rail_ids g \<inter> set (rung_node_ids g) = {}"
  shows "\<exists>r els. r \<in> set (rungs g) \<and> i \<in> set (elementIds r) \<and> mset els = mset (elementIds r) \<and>
    wire_ends_of g' = filter (\<lambda>(a, b). a \<notin> set els \<and> b \<notin> set els) (wire_ends_of g)
      @ neighbours (map_option nid (findLeftRailOnRung g r)) els
      @ (let target = (case first_coil g els of Some c \<Rightarrow> Some (nid c)
           | None \<Rightarrow> map_option nid (findRightRailOnRung g r)) in
         if truthy_id target \<and> the target \<noteq> last els then [(last els, the target)] else [])"
  by (rule reorder_wires [OF assms])

lemma demo_rails: "findLeftRailOnRung demo r = Some (demo_node ''L'' (PowerRail LeftRail))"
  "findRightRailOnRung demo r = Some (demo_node ''R'' (PowerRail RightRail))"
  by (simp_all add: findLeftRailOnRung_def findRightRailOnRung_def demo_defs)

lemma demo_rail_ids: "rail_ids demo = {''L'', ''R''}"
proof -
  have "rail_ids demo = nid ` set (filter (\<lambda>n. is_powerrail (ndata n)) (nodes demo))"
    by (simp add: rail_ids_def)
  then show ?thesis by (simp add: demo_defs)
qed

lemma demo_no_coil: "set xs \<subseteq> {''c3'', ''c4''} \<Longrightarrow> first_coil demo xs = None"
  by (induction xs) (auto simp: demo_finds)

lemma reorderElement_wires_witness:
  "\<exists>g' s' els. reorderElement demo ''c4'' 0 demo_gen = (Inr g', s') \<and> mset els = {#''c3'', ''c4''#}
     \<and> wire_ends_of g' = [(''L'', ''c1''), (''c1'', ''c2'')] @ neighbours (Some ''L'') els @ [(last els, ''R'')]"
proof -
  obtain g' s' where run: "reorderElement demo ''c4'' 0 demo_gen = (Inr g', s')"
    using demo_reorder_runs by blast
  have nb: "rung_branches r = []" if "r \<in> set (rungs demo)" "''c4'' \<in> set (elementIds r)" for r
    using that by auto
  have "[] \<notin> set (node_ids demo)" "rail_ids demo \<inter> set (rung_node_ids demo) = {}"
    by (simp_all add: demo_ids demo_rail_ids)
  from reorderElement_wires [OF demo_inv run nb this, unfolded demo_rails option.map(2) demo_node_simps] obtain els where els: "mset els = mset [''c3'', ''c4'']"
    and w: "wire_ends_of g' = filter (\<lambda>(a, b). a \<notin> set els \<and> b \<notin> set els) (wire_ends_of demo)
      @ neighbours (Some ''L'') els @ (let target = (case first_coil demo els of Some c \<Rightarrow> Some (nid c)
           | None \<Rightarrow> Some ''R'') in
         if truthy_id target \<and> the target \<noteq> last els then [(last els, the target)] else [])"
    by (auto simp: demo_node_def)
  have set: "set els = {''c3'', ''c4''}" using mset_eq_setD [OF els] by simp
  have c: "first_coil demo els = None" using set by (intro demo_no_coil) simp
  have "els \<noteq> []" using set by (metis empty_iff insert_iff list.set(1))
  then have "last els \<in> set els" by (rule last_in_set)
  then have "last els = ''c3'' \<or> last els = ''c4''" by (simp only: set insert_iff empty_iff simp_thms)
  then have l: "last els \<noteq> ''R''" by (elim disjE) simp_all
  have f: "filter (\<lambda>(a, b). a \<notin> set els \<and> b \<notin> set els) (wire_ends_of demo) = [(''L'', ''c1''), (''c1'', ''c2'')]"
    unfolding set by (simp add: wire_ends_of_def demo_def demo_wire_def)
  have "wire_ends_of g' = [(''L'', ''c1''), (''c1'', ''c2'')] @ neighbours (Some ''L'') els @ [(last els, ''R'')]"
    unfolding w f c using l by (simp add: truthy_id_def)
  with run els show ?thesis by auto
qed

text \<open>
  Moving a rung permutes the rungs and nothing else: the rung ends at the requested index,
  clamped to the diagram, the other rungs keep their order, elements and wires stay, and unless it was already there the
  rungs are numbered from 1 again.
\<close>

theorem moveRung_moves:
  assumes "ld_inv (g, s)" "moveRung g i idx s = (Inr g', s')"
  shows "moved_to (clamp_index idx (length (rungs g) - 1)) i (map rid (rungs g)) (map rid (rungs g'))
    \<and> nodes g' = nodes g \<and> edges g' = edges g
    \<and> (g' = g \<or> map rungNumber (rungs g') = [1..<length (rungs g) + 1])"
  by (rule moveRung_effect [OF assms])

lemma moveRung_moves_witness:
  "\<exists>g' s'. moveRung demo ''r1'' 7 demo_gen = (Inr g', s')
     \<and> moved_to 1 ''r1'' [''r1'', ''r2''] (map rid (rungs g')) \<and> nodes g' = nodes demo"
proof -
  have "\<exists>g' s'. moveRung demo ''r1'' 7 demo_gen = (Inr g', s')"
    by (simp add: moveRung_def clamp_index_def ok_def Let_def)
  then obtain g' s' where run: "moveRung demo ''r1'' 7 demo_gen = (Inr g', s')" by blast
  from moveRung_moves [OF demo_inv run] run show ?thesis by (auto simp: clamp_index_def)
qed

text \<open>
  C24: deleting an element removes it and the members of the branches anchored at it, and
  nothing else: the other elements keep their data, every rung keeps its other elements and branch members in order, and
  no wire of the result ends at a removed element.
\<close>

theorem deleteElement_removes:
  assumes inv: "ld_inv (g, s)" and n: "findNode g i \<noteq> None"
  shows "\<exists>g' s'. deleteElement g i s = (Inr g', s')
    \<and> map node_key (nodes g') = map node_key (filter (\<lambda>n. nid n \<notin> set (drop_node_ids g i)) (nodes g))
    \<and> map rung_refs (rungs g') = map (\<lambda>r. filter (\<lambda>x. x \<notin> set (drop_node_ids g i)) (rung_refs r)) (rungs g)
    \<and> (\<forall>e \<in> set (edges g'). sourceId e \<notin> set (drop_node_ids g i) \<and> targetId e \<notin> set (drop_node_ids g i))"
proof -
  obtain g' s' where run: "deleteElement g i s = (Inr g', s')" using deleteElement_total n by blast
  note eff = deleteElement_effect [OF inv n run]
  have "map fst (map node_key (nodes g')) = map fst (map node_key (filter (\<lambda>n. nid n \<notin> set (drop_node_ids g i)) (nodes g)))"
    by (simp only: eff(1))
  then have "node_ids g' = map nid (filter (\<lambda>n. nid n \<notin> set (drop_node_ids g i)) (nodes g))"
    by (simp add: node_ids_def node_key_def comp_def)
  then have ids: "set (node_ids g') \<inter> set (drop_node_ids g i) = {}" by auto
  have "ld_inv (g', s')"
    using run_op_inv [OF inv, of "DeleteElement i" g' s'] run by (simp add: paste_safe_def)
  then have "edges_resolve g'" by (rule ld_invD(7))
  with ids have "\<forall>e \<in> set (edges g'). sourceId e \<notin> set (drop_node_ids g i) \<and> targetId e \<notin> set (drop_node_ids g i)"
    by (auto simp: edges_resolve_def)
  with run eff show ?thesis by blast
qed

lemma deleteElement_removes_witness:
  "\<exists>g' s'. deleteElement demo ''c1'' demo_gen = (Inr g', s')
     \<and> map rung_refs (rungs g') = [[''c2'', ''q1''], [''c3'', ''c4'']]"
proof -
  have drop: "set (drop_node_ids demo ''c1'') = {''c1'', ''m1''}"
    by (simp add: drop_node_ids_def anchored_branches_def) (simp add: demo_branch_def)
  have "findNode demo ''c1'' \<noteq> None" by (simp add: demo_finds)
  from deleteElement_removes [OF demo_inv this] obtain g' s' where
    g': "deleteElement demo ''c1'' demo_gen = (Inr g', s')"
    "map rung_refs (rungs g') = map (\<lambda>r. filter (\<lambda>x. x \<notin> {''c1'', ''m1''}) (rung_refs r)) (rungs demo)"
    unfolding drop by blast
  have "map (\<lambda>r. filter (\<lambda>x. x \<notin> {''c1'', ''m1''}) (rung_refs r)) (rungs demo) = [[''c2'', ''q1''], [''c3'', ''c4'']]"
    by (simp add: demo_rung_refs)
  with g' show ?thesis by auto
qed

text \<open>
  Deleting a branch removes its members and the branch, leaves the series alone, and
  leaves the anchor wired to its successor in the series.
\<close>

theorem deleteBranch_bridges:
  assumes "ld_inv (g, s)" "findBranch g i = Inr (r, b)" "deleteBranch g i s = (Inr g', s')"
  shows "nodes g' = filter (\<lambda>n. nid n \<notin> set (members b)) (nodes g)
    \<and> rungs g' = map (\<lambda>q. if rid q = rid r then
        r\<lparr>branches := Some (filter (\<lambda>c. bid c \<noteq> bid b) (rung_branches r))\<rparr> else q) (rungs g)
    \<and> (\<forall>t. seriesSuccessor r (anchorId b) = Some t \<and> t \<noteq> [] \<longrightarrow>
         (\<exists>e \<in> set (edges g'). sourceId e = anchorId b \<and> targetId e = t))"
  using deleteBranch_effect [OF assms] by blast

lemma deleteBranch_bridges_witness:
  "\<exists>g' s'. deleteBranch demo ''b1'' demo_gen = (Inr g', s') \<and> length (nodes g') = 7
     \<and> (\<exists>e \<in> set (edges g'). sourceId e = ''c1'' \<and> targetId e = ''c2'')"
proof -
  have "\<exists>g' s'. deleteBranch demo ''b1'' demo_gen = (Inr g', s')"
    by (simp add: deleteBranch_def demo_finds ok_def Let_def)
  then obtain g' s' where run: "deleteBranch demo ''b1'' demo_gen = (Inr g', s')" by blast
  have s: "seriesSuccessor demo_rung1 ''c1'' = Some ''c2''" by (simp add: seriesSuccessor_def indexOf_def)
  have a: "anchorId demo_branch = ''c1''" "members demo_branch = [''m1'']" by (simp_all add: demo_branch_def)
  have n: "length (filter (\<lambda>n. nid n \<noteq> ''m1'') (nodes demo)) = 7" by (simp add: demo_def demo_node_def)
  show ?thesis
    using deleteBranch_bridges [OF demo_inv demo_finds(9) run] run s a n by auto
qed

text \<open>
  The operations that edit one element (coil type, contact type, comment, variable name,
  replacement) change that element alone and keep its id, position and node type; they draw no ids.
\<close>

theorem single_edits_local:
  assumes "ld_inv (g, s)" "edit_target op = Some i" "run_op op g s = (Inr g', s')"
  shows "single_edit i g g' \<and> s' = s"
  by (rule single_edits [OF assms])

lemma single_edits_local_witness:
  "\<exists>g'. run_op (ChangeCoilType ''q1'' CoilSet) demo demo_gen = (Inr g', demo_gen) \<and> single_edit ''q1'' demo g'"
proof -
  have "\<exists>g' s'. run_op (ChangeCoilType ''q1'' CoilSet) demo demo_gen = (Inr g', s')"
    by (simp add: changeCoilType_def demo_finds ok_def)
  then obtain g' s' where run: "run_op (ChangeCoilType ''q1'' CoilSet) demo demo_gen = (Inr g', s')" by blast
  from single_edits_local [OF demo_inv _ this] run show ?thesis by auto
qed

text \<open>
  Renaming the variable of a contact or coil succeeds exactly when the trimmed name is not
  empty and has no white space, and then the element carries the trimmed name.
\<close>

theorem renameVariable_sets:
  assumes "distinct (node_ids g)" "findNode g i = Some n" "isVariableNode n"
  shows "((\<exists>g' s'. renameVariable g i txt s = (Inr g', s'))
      \<longleftrightarrow> trim txt \<noteq> [] \<and> (\<forall>c \<in> set (trim txt). \<not> js_space c))
    \<and> (\<forall>g' s'. renameVariable g i txt s = (Inr g', s') \<longrightarrow>
      (\<exists>n'. findNode g' i = Some n' \<and> variableName n' = trim txt))"
  using renameVariable_decides [OF assms(2,3)] assms(1) by blast+

lemma renameVariable_sets_witness:
  "\<not> (\<exists>g' s'. renameVariable demo ''c1'' '' a b '' demo_gen = (Inr g', s'))"
proof -
  have "distinct (node_ids demo)" by (simp add: demo_ids)
  from renameVariable_sets [OF this demo_finds(3)] show ?thesis
    by (simp add: isVariableNode_def demo_node_def trim_def js_space_def)
qed

lemma last_remove1: "zs \<noteq> [] \<Longrightarrow> last zs \<noteq> x \<Longrightarrow> last (remove1 x zs) = last zs"
proof (induction zs)
  case (Cons a zs)
  have "zs = [x]" if "remove1 x zs = []" "zs \<noteq> []" using that by (cases zs) (auto split: if_splits)
  with Cons show ?case by (cases "zs = []"; cases "remove1 x zs = []") auto
qed simp

lemma one_rung_of: "distinct (concat (map f rs)) \<Longrightarrow> r \<in> set rs \<Longrightarrow> q \<in> set rs \<Longrightarrow> i \<in> set (f r) \<Longrightarrow> i \<in> set (f q) \<Longrightarrow> r = q"
proof (induction rs)
  case (Cons p rs)
  have "\<not> (x \<in> set rs \<and> i \<in> set (f p) \<and> i \<in> set (f x))" for x using Cons.prems(1) by auto
  with Cons show ?case by auto
qed simp

lemma moved_to_last:
  assumes d: "distinct xs" and m: "moved_to t x xs ys" and t: "t < length ys - 1" and l: "last xs \<noteq> x"
  shows "last ys = last xs"
proof -
  have ys: "mset ys = mset xs" "ys ! t = x" "remove1 x ys = remove1 x xs" using m by (simp_all add: moved_to_def)
  have "distinct ys" using d ys(1) mset_eq_imp_distinct_iff by blast
  then have "ys ! (length ys - 1) \<noteq> x" using t ys(2) by (auto simp: nth_eq_iff_index_eq)
  moreover have "ys \<noteq> []" using t by auto
  ultimately have "last (remove1 x ys) = last ys" by (simp add: last_conv_nth last_remove1)
  moreover have "xs \<noteq> []" using \<open>ys \<noteq> []\<close> ys(1) by auto
  then have "last (remove1 x xs) = last xs" using l by (rule last_remove1)
  ultimately show ?thesis using ys(3) by simp
qed

text \<open>
  Reordering never makes an element the last one of its rung, whatever slot is asked for:
  the slot is clamped after the element's removal and then decremented when it lies to the right, so a request for the
  end of the rung stops one short of it and the last element stays.
\<close>

theorem reorderElement_never_last:
  assumes inv: "ld_inv (g, s)" and run: "reorderElement g i idx s = (Inr g', s')"
    and r: "r \<in> set (rungs g)" "i \<in> set (elementIds r)" "last (elementIds r) \<noteq> i"
  shows "\<exists>q \<in> set (rungs g'). rid q = rid r \<and> last (elementIds q) = last (elementIds r)"
proof -
  obtain r' k els where e: "r' \<in> set (rungs g)" "k < length (elementIds r')" "elementIds r' ! k = i"
    "moved_to (reorder_slot k idx (length (elementIds r'))) i (elementIds r') els"
    "rungs g' = map (\<lambda>q. if rid q = rid r' then r'\<lparr>elementIds := els\<rparr> else q) (rungs g)"
    using reorderElement_effect [OF inv run] by blast
  note I = ld_invD [OF inv]
  have "i \<in> set (elementIds r')" using e(2,3) by auto
  then have same: "r' = r" 
    using one_rung_of [OF I(3) [unfolded rung_node_ids_def] e(1) r(1), of i] r(2) elementIds_in_refs by blast
  have d: "distinct (elementIds r)"
    using I(3) r(1) by (auto simp: rung_node_ids_def rung_refs_def distinct_concat_iff)
  have len: "length els = length (elementIds r)"
    using e(4) same by (metis moved_to_def mset_eq_length)
  have "elementIds r \<noteq> []" using r(2) by auto
  then have "k \<noteq> length (elementIds r) - 1" using r(3) e(3) same by (auto simp: last_conv_nth)
  then have "reorder_slot k idx (length (elementIds r)) < length els - 1"
    using e(2) len same by (auto simp: reorder_slot_def clamp_index_def Let_def)
  from moved_to_last [OF d _ this r(3)] e(4) same have "last els = last (elementIds r)" by simp
  moreover have "r\<lparr>elementIds := els\<rparr> \<in> set (rungs g')"
    unfolding e(5) same using r(1) by (force intro: rev_image_eqI)
  ultimately show ?thesis by (intro bexI [of _ "r\<lparr>elementIds := els\<rparr>"]) simp_all
qed

lemma reorderElement_never_last_witness:
  "\<exists>g' s'. reorderElement demo ''c3'' 2 demo_gen = (Inr g', s')
     \<and> (\<exists>q \<in> set (rungs g'). rid q = ''r2'' \<and> last (elementIds q) = ''c4'')"
proof -
  have "\<exists>g' s'. reorderElement demo ''c3'' 2 demo_gen = (Inr g', s')"
    by (simp add: reorderElement_def demo_finds demo_coils indexOf_def ok_def Let_def)
  then obtain g' s' where run: "reorderElement demo ''c3'' 2 demo_gen = (Inr g', s')" by blast
  from reorderElement_never_last [OF demo_inv run, of demo_rung2] run show ?thesis by auto
qed

text \<open>
  Pasting a comparison succeeds and puts a second element with the same id into the
  document: unlike contacts, coils and function blocks, the comparison itself is inserted instead of a copy.
\<close>

theorem paste_comparison_duplicates:
  assumes "findRung g rungId = Inr r" "findNode g i = Some n" "is_comparison (ndata n)"
  shows "\<exists>g' s'. pasteElements g [i] rungId k s = (Inr g', s') \<and> \<not> distinct (node_ids g')"
proof -
  obtain op a b where n: "ndata n = Comparison op a b" using assms(3) by (cases "ndata n") auto
  obtain j s1 where id: "generateId ''paste'' s = (j, s1)" by (rule prod.exhaust)
  have src: "paste_sources g [i] = [n]" using assms(2) n by (simp add: paste_sources_def)
  have copy: "paste_copies [n] s = ([n], s1)" using n id by (simp add: paste_copy_def)
  let ?r = "r\<lparr>elementIds := splice_insert (clamp_index k (length (elementIds r))) [nid n] (elementIds r)\<rparr>"
  let ?st = "rewireRungSeries ?r (set_rung (rid r) ?r (g\<lparr>nodes := nodes g @ [n]\<rparr>), s1)"
  have run: "pasteElements g [i] rungId k s = ok ?st"
    using assms(1) src copy by (simp add: pasteElements_def withE_def Let_def)
  have "only_edges (set_rung (rid r) ?r (g\<lparr>nodes := nodes g @ [n]\<rparr>), s1) ?st" by (intro rewiring only_edges_series)
  from only_edgesD(1) [OF this] have "nodes (fst ?st) = nodes g @ [n]" by (simp add: set_rung_def split: option.split)
  moreover have "n \<in> set (nodes g)" using findNode_SomeD [OF assms(2)] by simp
  ultimately have "\<not> distinct (node_ids (fst ?st))" by (force simp: node_ids_def)
  with run show ?thesis by (cases ?st) (auto simp: ok_def)
qed

definition demo_compare :: ld_graph where
  "demo_compare = demo\<lparr>nodes := nodes demo @ [demo_node ''cmp'' (Comparison OpGE ''level'' ''limit'')]\<rparr>"

lemma paste_comparison_duplicates_witness:
  "\<exists>g' s'. pasteElements demo_compare [''cmp''] ''r2'' 0 demo_gen = (Inr g', s') \<and> \<not> distinct (node_ids g')"
proof -
  have "findRung demo_compare ''r2'' = Inr demo_rung2"
    "findNode demo_compare ''cmp'' = Some (demo_node ''cmp'' (Comparison OpGE ''level'' ''limit''))"
    by (simp_all add: demo_compare_def findRung_def findNode_def) (simp add: demo_def demo_node_def)
  from paste_comparison_duplicates [OF this] show ?thesis by simp
qed

text \<open>
  Deleting a rung that has a branch with a member leaves that member in the document
  although no rung lists it any more: only the series elements of the rung are removed.
\<close>

theorem deleteRung_orphans:
  assumes inv: "ld_inv (g, s)" and r: "r \<in> set (rungs g)" and two: "length (rungs g) > 1"
    and b: "b \<in> set (rung_branches r)" "x \<in> set (members b)"
  shows "\<exists>g'. deleteRung g (rid r) s = (Inr g', s) \<and> x \<in> set (node_ids g') \<and> x \<notin> set (rung_node_ids g')"
proof -
  note I = ld_invD [OF inv]
  have refs: "distinct (concat (map rung_refs (rungs g)))" using I(3) by (simp add: rung_node_ids_def)
  obtain k where k: "findIndex (\<lambda>q. rid q = rid r) (rungs g) = Some k"
    using r findIndex_None [of "\<lambda>q. rid q = rid r" "rungs g"] by (cases "findIndex (\<lambda>q. rid q = rid r) (rungs g)") auto
  note kD = findIndex_SomeD [OF k]
  have kr: "rungs g ! k = r"
    using kD r I(2) by (metis distinct_map inj_onD nth_mem)
  have x: "x \<in> set (rung_refs r)" using b by (auto simp: rung_refs_def)
  have ser: "x \<notin> set (elementIds r)"
    using rung_refs_distinct [OF r I(3)] b by (auto simp: rung_refs_def)
  have in_nodes: "x \<in> set (node_ids g)" using I(4) x r rung_refs_in by blast
  let ?g' = "g\<lparr>nodes := filter (\<lambda>n. nid n \<notin> set (elementIds r)) (nodes g),
    edges := filter (\<lambda>e. sourceId e \<notin> set (elementIds r) \<and> targetId e \<notin> set (elementIds r)) (edges g),
    rungs := renumber (splice_remove k (rungs g))\<rparr>"
  have run: "deleteRung g (rid r) s = (Inr ?g', s)"
    using k kr two by (simp add: deleteRung_def ok_def Let_def)
  have "x \<in> set (node_ids ?g')" using in_nodes ser by (auto simp: node_ids_def)
  moreover have "x \<notin> set (rung_node_ids ?g')"
  proof
    assume "x \<in> set (rung_node_ids ?g')"
    then obtain q where q: "q \<in> set (splice_remove k (rungs g))" "x \<in> set (rung_refs q)"
      by (auto simp: rung_node_ids_def)
    have "distinct (rungs g)" using I(2) by (simp add: distinct_map)
    then have "q \<in> set (rungs g)" "q \<noteq> r"
      using q(1) kr kD set_splice_remove [of "rungs g" k] by auto
    with one_rung_of [OF refs _ r q(2) x] show False by blast
  qed
  ultimately show ?thesis using run by blast
qed

lemma deleteRung_orphans_witness:
  "\<exists>g'. deleteRung demo ''r1'' demo_gen = (Inr g', demo_gen) \<and> ''m1'' \<in> set (node_ids g') \<and> ''m1'' \<notin> set (rung_node_ids g')"
  using deleteRung_orphans [OF demo_inv, of demo_rung1 demo_branch "''m1''"] by (simp add: demo_branch_def)

end
