(* ===== verification/LdEvolve.thy ===== *)
theory LdEvolve
  imports LdMachine
begin

text \<open>
  How a document may change under the ladder handler, whatever the operation: the id generator
  only advances, a node keeps its kind for as long as it exists, and the ids of new nodes,
  branch members and rungs are drawn from the generator. \<open>evolves\<close> says so and composes;
  every operation is shown to be an instance.
\<close>

definition later :: "idgen \<Rightarrow> idgen \<Rightarrow> bool" where
  "later s s' \<longleftrightarrow> rnd s' = rnd s \<and> nextId s \<le> nextId s'"

text \<open>\<open>i\<close> was drawn with prefix \<open>p\<close> between \<open>s\<close> and \<open>s'\<close>.\<close>

definition drawn :: "idgen \<Rightarrow> idgen \<Rightarrow> string \<Rightarrow> string \<Rightarrow> bool" where
  "drawn s s' p i \<longleftrightarrow> CHR ''-'' \<notin> set p \<and>
     (\<exists>k. nextId s < k \<and> k \<le> nextId s' \<and> i = mk_id p k (rnd s k))"

definition member_set :: "ld_graph \<Rightarrow> string set" where
  "member_set g = (\<Union>r \<in> set (rungs g). \<Union>b \<in> set (rung_branches r). set (members b))"

definition same_kind :: "ld_node \<Rightarrow> ld_node \<Rightarrow> bool" where
  "same_kind n n' \<longleftrightarrow> nid n = nid n' \<and> type_of_data (ndata n) = type_of_data (ndata n')"

definition new_node :: "idgen \<Rightarrow> idgen \<Rightarrow> ld_node \<Rightarrow> bool" where
  "new_node s s' n \<longleftrightarrow> (\<exists>p. drawn s s' p (nid n) \<and> p \<noteq> ''rung'' \<and> \<not> is_comparison_data (ndata n)
     \<and> (p = ''contact'' \<longrightarrow> is_contact (ndata n)))"

definition evolves :: "wiring \<Rightarrow> wiring \<Rightarrow> bool" where
  "evolves st st' \<longleftrightarrow> later (snd st) (snd st')
     \<and> (\<forall>n' \<in> set (nodes (fst st')). (\<exists>n \<in> set (nodes (fst st)). same_kind n n') \<or> new_node (snd st) (snd st') n')
     \<and> (\<forall>m \<in> member_set (fst st'). m \<in> member_set (fst st) \<or> drawn (snd st) (snd st') ''contact'' m)
     \<and> (\<forall>r \<in> set (rungs (fst st')). rid r \<in> rid ` set (rungs (fst st)) \<or> drawn (snd st) (snd st') ''rung'' (rid r))"

subsection \<open>Composition\<close>

lemma later_refl [simp, intro]: "later s s"
  by (simp add: later_def)

lemma later_trans [trans]: "later s s' \<Longrightarrow> later s' s'' \<Longrightarrow> later s s''"
  by (simp add: later_def)

lemma drawn_widen: "drawn s1 s2 p i \<Longrightarrow> later s s1 \<Longrightarrow> later s2 s3 \<Longrightarrow> drawn s s3 p i"
  by (auto simp: drawn_def later_def intro: order_le_less_trans)

lemma new_node_widen: "new_node s1 s2 n \<Longrightarrow> later s s1 \<Longrightarrow> later s2 s3 \<Longrightarrow> new_node s s3 n"
  unfolding new_node_def using drawn_widen by blast

lemma same_kind_refl [simp]: "same_kind n n"
  by (simp add: same_kind_def)

lemma same_kind_in [intro]: "n \<in> set ns \<Longrightarrow> \<exists>m \<in> set ns. same_kind m n"
  by (rule bexI [of _ n]) simp_all

lemma same_kind_trans: "same_kind n n' \<Longrightarrow> same_kind n' n'' \<Longrightarrow> same_kind n n''"
  by (simp add: same_kind_def)

lemma new_node_same_kind: "new_node s s' n \<Longrightarrow> same_kind n n' \<Longrightarrow> new_node s s' n'"
  by (cases "ndata n"; cases "ndata n'") (auto simp: new_node_def same_kind_def)

lemma evolves_refl [simp, intro]: "evolves st st"
  by (auto simp: evolves_def)

lemma evolves_trans [trans]:
  assumes "evolves st st'" "evolves st' st''"
  shows "evolves st st''"
proof -
  have l: "later (snd st) (snd st')" "later (snd st') (snd st'')"
    using assms by (simp_all add: evolves_def)
  have w: "drawn (snd st) (snd st') p i \<Longrightarrow> drawn (snd st) (snd st'') p i"
    "drawn (snd st') (snd st'') p i \<Longrightarrow> drawn (snd st) (snd st'') p i"
    "new_node (snd st) (snd st') n \<Longrightarrow> new_node (snd st) (snd st'') n"
    "new_node (snd st') (snd st'') n \<Longrightarrow> new_node (snd st) (snd st'') n" for p i n
    using l drawn_widen new_node_widen by blast+
  show ?thesis
    unfolding evolves_def
  proof (intro conjI ballI)
    show "later (snd st) (snd st'')" using l by (rule later_trans)
    fix n'' assume "n'' \<in> set (nodes (fst st''))"
    then consider n' where "n' \<in> set (nodes (fst st'))" "same_kind n' n''" | "new_node (snd st') (snd st'') n''"
      using assms(2) by (auto simp: evolves_def)
    then show "(\<exists>n \<in> set (nodes (fst st)). same_kind n n'') \<or> new_node (snd st) (snd st'') n''"
    proof cases
      case 1
      then have "(\<exists>n \<in> set (nodes (fst st)). same_kind n n') \<or> new_node (snd st) (snd st') n'"
        using assms(1) by (auto simp: evolves_def)
      with 1(2) show ?thesis using same_kind_trans new_node_same_kind w(3) by blast
    qed (use w(4) in blast)
  next
    fix m assume "m \<in> member_set (fst st'')"
    then have "m \<in> member_set (fst st') \<or> drawn (snd st') (snd st'') ''contact'' m"
      using assms(2) by (simp add: evolves_def)
    moreover have "m \<in> member_set (fst st') \<Longrightarrow> m \<in> member_set (fst st) \<or> drawn (snd st) (snd st') ''contact'' m"
      using assms(1) by (simp add: evolves_def)
    ultimately show "m \<in> member_set (fst st) \<or> drawn (snd st) (snd st'') ''contact'' m"
      using w(1,2) by blast
  next
    fix r assume "r \<in> set (rungs (fst st''))"
    with assms(2) consider "rid r \<in> rid ` set (rungs (fst st'))" | "drawn (snd st') (snd st'') ''rung'' (rid r)"
      by (auto simp: evolves_def)
    then show "rid r \<in> rid ` set (rungs (fst st)) \<or> drawn (snd st) (snd st'') ''rung'' (rid r)"
    proof cases
      case 1
      then obtain q where "q \<in> set (rungs (fst st'))" "rid r = rid q" by auto
      moreover from this(1) have "rid q \<in> rid ` set (rungs (fst st)) \<or> drawn (snd st) (snd st') ''rung'' (rid q)"
        using assms(1) by (simp add: evolves_def)
      ultimately show ?thesis using w(1) by auto
    qed (use w(2) in blast)
  qed
qed

subsection \<open>Rewiring changes edges and draws ids\<close>

definition edges_only :: "wiring \<Rightarrow> wiring \<Rightarrow> bool" where
  "edges_only st st' \<longleftrightarrow> fst st' = (fst st)\<lparr>edges := edges (fst st')\<rparr> \<and> later (snd st) (snd st')"

lemma edges_only_refl [simp, intro]: "edges_only st st"
  by (simp add: edges_only_def)

lemma edges_only_trans [trans]: "edges_only st st' \<Longrightarrow> edges_only st' st'' \<Longrightarrow> edges_only st st''"
  unfolding edges_only_def using later_trans by (cases "fst st"; cases "fst st'"; cases "fst st''") auto

lemma edges_only_evolves: "edges_only st st' \<Longrightarrow> evolves st st'"
  by (cases "fst st"; cases "fst st'") (auto simp: edges_only_def evolves_def member_set_def)

lemma generateId_later: "generateId p s = (i, s') \<Longrightarrow> later s s'"
  by (auto simp: generateId_def later_def Let_def)

lemma generateId_drawn: "generateId p s = (i, s') \<Longrightarrow> CHR ''-'' \<notin> set p \<Longrightarrow> drawn s s' p i"
  by (auto simp: generateId_def drawn_def Let_def)

lemma edges_only_push: "edges_only st (push_wire a b sp tp st)"
  by (auto simp: push_wire_def createWire_def edges_only_def dest: generateId_later split: prod.split)

lemma edges_only_filter: "edges_only st (filter_edges p st)"
  by (simp add: filter_edges_def edges_only_def)

lemma edges_only_if: "edges_only st a \<Longrightarrow> edges_only st b \<Longrightarrow> edges_only st (if P then a else b)"
  by simp

lemma edges_only_push_if: "edges_only st st' \<Longrightarrow> edges_only st (if P then push_wire a b sp tp st' else st')"
  using edges_only_trans [OF _ edges_only_push] by simp

lemma edges_only_bus: "edges_only st (bus_wires ms st)"
proof (induction ms st rule: bus_wires.induct)
  case (1 m m' ms st)
  from edges_only_trans [OF edges_only_push 1] show ?case by simp
qed simp_all

lemma edges_only_wire_branch: "edges_only st (wire_branch r b st)"
proof -
  have "edges_only st (bus_wires (members b) (push_wire (anchorId b) (hd (members b)) None None st))"
    by (rule edges_only_trans [OF edges_only_push edges_only_bus])
  then show ?thesis
    unfolding wire_branch_def Let_def
    by (intro edges_only_if edges_only_push edges_only_refl edges_only_push_if)
qed

lemma edges_only_branches: "edges_only st (rewireRungBranches r st)"
proof -
  have "edges_only st (foldl (\<lambda>st b. wire_branch r b st) st bs)" for st bs
  proof (induction bs arbitrary: st)
    case (Cons b bs)
    show ?case by (simp, rule edges_only_trans [OF edges_only_wire_branch Cons.IH])
  qed simp
  from edges_only_trans [OF edges_only_filter this] show ?thesis
    by (simp add: rewireRungBranches_def)
qed

lemma edges_only_chain: "edges_only st (series_chain prev is st)"
proof (induction "is" arbitrary: prev st)
  case (Cons i "is")
  show ?case
    by (simp, intro conjI impI edges_only_trans [OF edges_only_push Cons.IH] Cons.IH)
qed simp

lemma edges_only_series: "edges_only st (rewireRungSeries r st)"
proof -
  let ?st2 = "series_chain (map_option nid (findLeftRailOnRung (fst st) r)) (elementIds r)
    (filter_edges (\<lambda>e. sourceId e \<notin> set (elementIds r) \<and> targetId e \<notin> set (elementIds r)) st)"
  have 2: "edges_only st ?st2" by (rule edges_only_trans [OF edges_only_filter edges_only_chain])
  then show ?thesis
    unfolding rewireRungSeries_def Let_def
    by (intro edges_only_if 2 edges_only_trans [OF edges_only_push_if edges_only_branches])
qed

lemmas edges_only_intros = edges_only_series edges_only_branches edges_only_push edges_only_filter

subsection \<open>Changes of nodes and rungs\<close>

lemma evolves_graph:
  assumes "later s s'"
    and "\<And>n'. n' \<in> set (nodes g') \<Longrightarrow> (\<exists>n \<in> set (nodes g). same_kind n n') \<or> new_node s s' n'"
    and "\<And>m. m \<in> member_set g' \<Longrightarrow> m \<in> member_set g \<or> drawn s s' ''contact'' m"
    and "\<And>r. r \<in> set (rungs g') \<Longrightarrow> rid r \<in> rid ` set (rungs g) \<or> drawn s s' ''rung'' (rid r)"
  shows "evolves (g, s) (g', s')"
  using assms by (simp add: evolves_def)

lemma findIndex_find: "findIndex p xs = Some k \<Longrightarrow> List.find p xs = Some (xs ! k)"
  by (induction xs arbitrary: k) (auto split: if_splits)

lemma evolves_set_node:
  assumes "\<And>n. findNode g i = Some n \<Longrightarrow> same_kind n (f n)"
  shows "evolves (g, s) (set_node i f g, s)"
proof (cases "findIndex (\<lambda>n. nid n = i) (nodes g)")
  case (Some k)
  then have k: "k < length (nodes g)" by (auto dest: findIndex_SomeD)
  have kind: "same_kind (nodes g ! k) (f (nodes g ! k))"
    using findIndex_find [OF Some] by (intro assms) (simp add: findNode_def)
  show ?thesis
  proof (rule evolves_graph)
    fix n' assume "n' \<in> set (nodes (set_node i f g))"
    then have "n' = f (nodes g ! k) \<or> n' \<in> set (nodes g)"
      using Some set_update_subset_insert [of "nodes g" k "f (nodes g ! k)"] by (auto simp: set_node_def)
    then show "(\<exists>n \<in> set (nodes g). same_kind n n') \<or> new_node s s n'"
      using kind nth_mem [OF k(1)] by auto
  qed (auto simp: set_node_def Some member_set_def)
qed (simp add: set_node_def)

lemma member_set_set_rung:
  "member_set (set_rung i r' g) \<subseteq> member_set g \<union> (\<Union>b \<in> set (rung_branches r'). set (members b))"
proof (cases "findIndex (\<lambda>r. rid r = i) (rungs g)")
  case (Some k)
  have "set ((rungs g)[k := r']) \<subseteq> insert r' (set (rungs g))" by (rule set_update_subset_insert)
  then show ?thesis by (auto simp: set_rung_def Some member_set_def)
qed (simp add: set_rung_def)

lemma rids_set_rung:
  assumes "r \<in> set (rungs (set_rung i r' g))"
  shows "rid r \<in> rid ` set (rungs g) \<or> r = r'"
  using assms set_update_subset_insert [of "rungs g" _ r']
  by (auto simp: set_rung_def split: option.splits)

lemma evolves_set_rung:
  assumes "r \<in> set (rungs g)" "rid r' = rid r"
    and "\<And>b m. b \<in> set (rung_branches r') \<Longrightarrow> m \<in> set (members b) \<Longrightarrow> m \<in> member_set g"
  shows "evolves (g, s) (set_rung (rid r) r' g, s)"
proof (rule evolves_graph)
  fix n' assume "n' \<in> set (nodes (set_rung (rid r) r' g))"
  then show "(\<exists>n \<in> set (nodes g). same_kind n n') \<or> new_node s s n'"
    by (auto simp: set_rung_def split: option.splits)
next
  fix m assume "m \<in> member_set (set_rung (rid r) r' g)"
  with member_set_set_rung [of "rid r" r' g] assms(3) show "m \<in> member_set g \<or> drawn s s ''contact'' m"
    by blast
next
  fix q assume "q \<in> set (rungs (set_rung (rid r) r' g))"
  from rids_set_rung [OF this] assms(1,2) show "rid q \<in> rid ` set (rungs g) \<or> drawn s s ''rung'' (rid q)"
    by auto
qed simp

lemma evolves_series:
  assumes "r \<in> set (rungs g)"
  shows "evolves (g, s) (set_rung (rid r) (r\<lparr>elementIds := els\<rparr>) g, s)"
  by (rule evolves_set_rung) (use assms in \<open>auto simp: member_set_def rung_branches_def\<close>)

lemma evolves_label:
  assumes "r \<in> set (rungs g)" "rid r' = rid r" "rung_branches r' = rung_branches r"
  shows "evolves (g, s) (set_rung (rid r) r' g, s)"
  by (rule evolves_set_rung) (use assms in \<open>auto simp: member_set_def\<close>)

lemma evolves_push_node:
  assumes "later s s'" "new_node s s' n"
  shows "evolves (g, s) (push_node n g, s')"
  by (rule evolves_graph) (use assms in \<open>auto simp: push_node_def member_set_def\<close>)

lemma evolves_drop:
  assumes "set ns \<subseteq> set (nodes g)"
  shows "evolves (g, s) (g\<lparr>nodes := ns, edges := es\<rparr>, s)"
  by (rule evolves_graph) (use assms in \<open>auto simp: member_set_def\<close>)

subsection \<open>New nodes\<close>

lemma new_node_drawn:
  "generateId p s = (i, s') \<Longrightarrow> CHR ''-'' \<notin> set p \<Longrightarrow> p \<noteq> ''rung'' \<Longrightarrow> nid n = i \<Longrightarrow> \<not> is_comparison_data (ndata n) \<Longrightarrow>
    (p = ''contact'' \<Longrightarrow> is_contact (ndata n)) \<Longrightarrow> later s s' \<and> new_node s s' n \<and> drawn s s' p (nid n)"
  using generateId_later generateId_drawn unfolding new_node_def by blast

lemma new_nodes:
  "createContact t v pos s = (n, s') \<Longrightarrow> later s s' \<and> new_node s s' n \<and> drawn s s' ''contact'' (nid n)"
  "createCoil ct v pos s = (n, s') \<Longrightarrow> later s s' \<and> new_node s s' n \<and> drawn s s' ''coil'' (nid n)"
  "createFb f ins outs pos s = (n, s') \<Longrightarrow> later s s' \<and> new_node s s' n \<and> drawn s s' ''fb'' (nid n)"
  "createPowerRail side pos h s = (n, s') \<Longrightarrow> later s s' \<and> new_node s s' n \<and> drawn s s' ''powerrail'' (nid n)"
  unfolding createContact_def createCoil_def createFb_def createPowerRail_def
  by (rule new_node_drawn; auto split: prod.splits)+

subsection \<open>Every operation\<close>

definition grows :: "wiring \<Rightarrow> ld_result \<Rightarrow> bool" where
  "grows st res \<longleftrightarrow> (\<forall>g' s'. res = (Inr g', s') \<longrightarrow> evolves st (g', s'))"

lemma grows_throw [simp]: "grows st (throw msg s)" "grows st (Inl e, s)"
  by (simp_all add: grows_def)

lemma grows_ok: "evolves st st' \<Longrightarrow> grows st (ok st')"
  by (cases st') (simp add: grows_def)

lemma grows_withE: "(\<And>a. m = Inr a \<Longrightarrow> grows st (f a)) \<Longrightarrow> grows st (withE m f s)"
  by (cases m) simp_all

lemma grows_let: "(\<And>x. x = e \<Longrightarrow> grows st (f x)) \<Longrightarrow> grows st (let x = e in f x)"
  by simp

lemma grows_pair: "(\<And>a b. p = (a, b) \<Longrightarrow> grows st (f a b)) \<Longrightarrow> grows st (case p of (a, b) \<Rightarrow> f a b)"
  by (cases p) simp

lemma grows_if: "(P \<Longrightarrow> grows st x) \<Longrightarrow> (\<not> P \<Longrightarrow> grows st y) \<Longrightarrow> grows st (if P then x else y)"
  by simp

lemma grows_option:
  "(m = None \<Longrightarrow> grows st x) \<Longrightarrow> (\<And>a. m = Some a \<Longrightarrow> grows st (f a)) \<Longrightarrow>
    grows st (case m of None \<Rightarrow> x | Some a \<Rightarrow> f a)"
  by (cases m) simp_all

lemmas grows_steps = grows_withE grows_let grows_pair grows_if grows_option

text \<open>A new series element: its node, its rung's order, then wires.\<close>

lemma evolves_inserted:
  assumes "later s s1 \<and> new_node s s1 n" "findRung g i = Inr r"
  shows "evolves (g, s) (set_rung (rid r) (r\<lparr>elementIds := els\<rparr>) (push_node n g), s1)"
proof (rule evolves_trans)
  show "evolves (g, s) (push_node n g, s1)" using assms(1) by (intro evolves_push_node) auto
  have "r \<in> set (rungs (push_node n g))" using findRung_in [OF assms(2)] by (simp add: push_node_def)
  then show "evolves (push_node n g, s1) (set_rung (rid r) (r\<lparr>elementIds := els\<rparr>) (push_node n g), s1)"
    by (rule evolves_series)
qed

lemma evolves_edges: "evolves st st1 \<Longrightarrow> edges_only st1 st2 \<Longrightarrow> evolves st st2"
  by (rule evolves_trans [OF _ edges_only_evolves])

lemma evolves_wired:
  "evolves st st' \<Longrightarrow> evolves st (rewireRungBranches r st')"
  "evolves st st' \<Longrightarrow> evolves st (rewireRungSeries r st')"
  "evolves st st' \<Longrightarrow> evolves st (push_wire a b sp tp st')"
  by (erule evolves_edges, intro edges_only_intros)+

lemma evolves_if: "evolves st a \<Longrightarrow> evolves st b \<Longrightarrow> evolves st (if P then a else b)"
  by simp

lemma evolves_option:
  "evolves st a \<Longrightarrow> (\<And>x. evolves st (f x)) \<Longrightarrow> evolves st (case m of None \<Rightarrow> a | Some x \<Rightarrow> f x)"
  by (cases m) simp_all

lemmas evolves_steps = evolves_if evolves_wired evolves_option evolves_inserted

lemma createContact_new: "createContact t v pos s = (n, s') \<Longrightarrow> later s s' \<and> new_node s s' n"
  and createCoil_new: "createCoil ct v pos s = (n, s') \<Longrightarrow> later s s' \<and> new_node s s' n"
  and createFb_new: "createFb f ins outs pos s = (n, s') \<Longrightarrow> later s s' \<and> new_node s s' (n\<lparr>ndim := d\<rparr>)"
  using new_nodes by (blast, blast, fastforce simp: new_node_def)

lemma addContact_grows: "grows (g, s) (addContact g p s)"
  unfolding addContact_def Let_def cloneGraph_eq
  by (intro grows_steps grows_throw grows_ok evolves_steps createContact_new; assumption)

lemma addCoil_grows: "grows (g, s) (addCoil g t i s)"
  unfolding addCoil_def Let_def cloneGraph_eq
  by (intro grows_steps grows_throw grows_ok evolves_steps createCoil_new; assumption)

lemma addFb_grows: "grows (g, s) (addFb g p s)"
  unfolding addFb_def Let_def cloneGraph_eq
  by (intro grows_steps grows_throw grows_ok evolves_steps createFb_new; assumption)

lemma connectWire_grows: "grows (g, s) (connectWire g a b pts s)"
proof -
  have "evolves (g, s) (g\<lparr>edges := es\<rparr>, s1)" if "createWire a b pts s = (w, s1)" for w s1 es
  proof (rule edges_only_evolves)
    show "edges_only (g, s) (g\<lparr>edges := es\<rparr>, s1)"
      using that by (auto simp: createWire_def edges_only_def dest: generateId_later split: prod.splits)
  qed
  then show ?thesis
    unfolding connectWire_def Let_def cloneGraph_eq
    by (intro grows_steps grows_throw grows_ok evolves_refl)
qed

lemma disconnectWire_grows: "grows (g, s) (disconnectWire g i s)"
  unfolding disconnectWire_def Let_def cloneGraph_eq
  by (intro grows_steps grows_throw grows_ok edges_only_evolves) (simp add: edges_only_def)

lemma set_node_grows:
  "(\<And>d. type_of_data (f d) = type_of_data d) \<Longrightarrow> evolves (g, s) (set_node i (update_data f) g, s)"
  by (rule evolves_set_node) (simp add: update_data_def same_kind_def)

lemma set_data_kind [simp]:
  "type_of_data (set_coil_type t d) = type_of_data d" "type_of_data (set_contact_type ct d) = type_of_data d"
  "type_of_data (set_comment k d) = type_of_data d" "type_of_data (set_variable w d) = type_of_data d"
  by (cases d; simp)+

lemma data_ops_grow:
  "grows (g, s) (changeCoilType g i t s)" "grows (g, s) (changeContactType g i ct s)"
  "grows (g, s) (setElementComment g i x s)" "grows (g, s) (renameVariable g i x s)"
  unfolding changeCoilType_def changeContactType_def setElementComment_def renameVariable_def rename_to_def
    Let_def cloneGraph_eq
  by (auto split: option.split node_data.split intro!: grows_ok set_node_grows)

lemma label_ops_grow: "grows (g, s) (setRungTitle g i x s)" "grows (g, s) (setRungComment g i x s)"
  unfolding setRungTitle_def setRungComment_def Let_def cloneGraph_eq
  by (auto intro!: grows_withE grows_ok evolves_label dest: findRung_in simp: rung_branches_def)

lemma findNode_nid: "findNode g i = Some n \<Longrightarrow> nid n = i"
  by (auto simp: findNode_def dest: find_SomeD)

lemma replaceElement_grows: "grows (g, s) (replaceElement g i n s)"
  unfolding replaceElement_def Let_def cloneGraph_eq
  by (intro grows_steps grows_throw grows_ok evolves_set_node)
    (auto simp: same_kind_def node_type_def dest: findNode_nid)

lemma reorderElement_grows: "grows (g, s) (reorderElement g i k s)"
  unfolding reorderElement_def Let_def cloneGraph_eq
  by (intro grows_steps grows_throw grows_ok evolves_refl evolves_wired evolves_series)
    (auto dest: find_SomeD)

lemma createRung_drawn: "createRung k els t s = (r, s') \<Longrightarrow>
    later s s' \<and> drawn s s' ''rung'' (rid r) \<and> rung_branches r = []"
  by (auto simp: createRung_def rung_branches_def split: prod.splits option.splits
      dest: generateId_later generateId_drawn)

lemma evolves_new_rung:
  "createRung k els t s = (r, s1) \<Longrightarrow> evolves (g, s) (g\<lparr>rungs := rungs g @ [r]\<rparr>, s1)"
  by (rule evolves_graph) (auto simp: member_set_def dest!: createRung_drawn)

lemma evolves_rail:
  assumes "evolves st (g, s1)" "createPowerRail side pos h s1 = (n, s2)"
  shows "evolves st (push_node n g, s2)"
  using assms(1) by (rule evolves_trans) (use new_nodes(4) [OF assms(2)] in \<open>auto intro: evolves_push_node\<close>)

lemma addRung_grows: "grows (g, s) (addRung g s)"
  unfolding addRung_def Let_def cloneGraph_eq
  by (intro grows_steps grows_ok evolves_rail evolves_new_rung; assumption)

lemma addPowerRail_grows: "grows (g, s) (addPowerRail g side s)"
  unfolding addPowerRail_def Let_def cloneGraph_eq
  by (auto intro!: grows_ok intro: evolves_rail split: prod.split)

lemma renumber_same: "r \<in> set (renumber rs) \<Longrightarrow> \<exists>q \<in> set rs. rid r = rid q \<and> rung_branches r = rung_branches q"
  by (auto simp: renumber_def map_index_def rung_branches_def in_set_enumerate_eq intro!: bexI [OF _ nth_mem])

lemma evolves_rungs:
  assumes "\<And>r. r \<in> set rs \<Longrightarrow> \<exists>q \<in> set (rungs g). rid r = rid q \<and>
      (\<Union>b \<in> set (rung_branches r). set (members b)) \<subseteq> (\<Union>b \<in> set (rung_branches q). set (members b))"
    and "set ns \<subseteq> set (nodes g)"
  shows "evolves (g, s) (g\<lparr>nodes := ns, edges := es, rungs := rs\<rparr>, s)"
proof (rule evolves_graph)
  fix m assume "m \<in> member_set (g\<lparr>nodes := ns, edges := es, rungs := rs\<rparr>)"
  then obtain r where "r \<in> set rs" "m \<in> (\<Union>b \<in> set (rung_branches r). set (members b))"
    by (auto simp: member_set_def)
  with assms(1) show "m \<in> member_set g \<or> drawn s s ''contact'' m"
    unfolding member_set_def by blast
next
  fix r assume "r \<in> set (rungs (g\<lparr>nodes := ns, edges := es, rungs := rs\<rparr>))"
  with assms(1) [of r] show "rid r \<in> rid ` set (rungs g) \<or> drawn s s ''rung'' (rid r)" by auto
qed (use assms(2) in auto)

lemma splice_remove_subset: "set (splice_remove k xs) \<subseteq> set xs"
  by (auto simp: splice_remove_def dest: in_set_takeD in_set_dropD)

lemma deleteRung_grows: "grows (g, s) (deleteRung g i s)"
  unfolding deleteRung_def Let_def cloneGraph_eq
proof (intro grows_steps grows_throw grows_ok evolves_rungs)
  fix k r assume "r \<in> set (renumber (splice_remove k (rungs g)))"
  then obtain q where q: "q \<in> set (splice_remove k (rungs g))" "rid r = rid q" "rung_branches r = rung_branches q"
    using renumber_same by blast
  then have "q \<in> set (rungs g)" using splice_remove_subset by fast
  with q(2,3) show "\<exists>q \<in> set (rungs g). rid r = rid q \<and>
      (\<Union>b \<in> set (rung_branches r). set (members b)) \<subseteq> (\<Union>b \<in> set (rung_branches q). set (members b))"
    by auto
qed auto

lemma moveRung_grows: "grows (g, s) (moveRung g i k s)"
proof -
  have "evolves (g, s) (g\<lparr>rungs := renumber (splice_insert to [rungs g ! k] (splice_remove k (rungs g)))\<rparr>, s)"
    if k: "k < length (rungs g)" for to k
  proof -
    have "\<exists>q \<in> set (rungs g). rid r = rid q \<and>
      (\<Union>b \<in> set (rung_branches r). set (members b)) \<subseteq> (\<Union>b \<in> set (rung_branches q). set (members b))"
      if "r \<in> set (renumber (splice_insert to [rungs g ! k] (splice_remove k (rungs g))))" for r
    proof -
      from renumber_same [OF that] obtain q where q: "q \<in> set (splice_insert to [rungs g ! k] (splice_remove k (rungs g)))"
        "rid r = rid q" "rung_branches r = rung_branches q" by blast
      then have "q \<in> set (rungs g)"
        using k splice_remove_subset [of k "rungs g"]
        by (auto simp: splice_insert_def dest: in_set_takeD in_set_dropD)
      with q(2,3) show ?thesis by auto
    qed
    from evolves_rungs [OF this, of _ "nodes g" s "edges g"] show ?thesis by simp
  qed
  then show ?thesis
    unfolding moveRung_def Let_def cloneGraph_eq
    by (intro grows_steps grows_throw grows_ok evolves_refl) (auto dest: findIndex_SomeD)
qed

lemma openBranch_grows: "grows (g, s) (openBranch g i a s)"
proof -
  have "evolves (g, s) (set_rung (rid r) (r\<lparr>branches := Some (rung_branches r @ [b])\<rparr>) g, s1)"
    if r: "findRung g i = Inr r" and b: "createBranch (rid r) a x s = (b, s1)" for r b s1 x
  proof -
    from b have "later s s1" "members b = []"
      by (auto simp: createBranch_def dest: generateId_later split: prod.splits)
    then have "evolves (g, s) (g, s1)" by (intro edges_only_evolves) (simp add: edges_only_def)
    also have "evolves (g, s1) (set_rung (rid r) (r\<lparr>branches := Some (rung_branches r @ [b])\<rparr>) g, s1)"
      using findRung_in [OF r] \<open>members b = []\<close> by (intro evolves_set_rung) (auto simp: member_set_def rung_branches_def)
    finally show ?thesis .
  qed
  then show ?thesis
    unfolding openBranch_def Let_def cloneGraph_eq
    by (intro grows_steps grows_throw grows_ok)
qed

lemma addBranchContact_grows: "grows (g, s) (addBranchContact g i ct s)"
proof -
  have "evolves (g, s) (set_rung (rid r) (r\<lparr>branches := Some (map (\<lambda>c. if P c then c\<lparr>members := members c @ [nid n]\<rparr> else c)
      (rung_branches r))\<rparr>) (push_node n g), s1)"
    if r: "findRung g j = Inr r" and n: "createContact t v pos s = (n, s1)" for r n s1 j t v pos P
  proof (rule evolves_graph)
    let ?r = "r\<lparr>branches := Some (map (\<lambda>c. if P c then c\<lparr>members := members c @ [nid n]\<rparr> else c) (rung_branches r))\<rparr>"
    note new = new_nodes(1) [OF n]
    have r: "r \<in> set (rungs g)" using findRung_in [OF r] by simp
    show "later s s1" using new by simp
    fix n' assume "n' \<in> set (nodes (set_rung (rid r) ?r (push_node n g)))"
    then have "n' = n \<or> n' \<in> set (nodes g)"
      by (auto simp: set_rung_def push_node_def split: option.splits)
    then show "(\<exists>m \<in> set (nodes g). same_kind m n') \<or> new_node s s1 n'" using new by auto
  next
    let ?r = "r\<lparr>branches := Some (map (\<lambda>c. if P c then c\<lparr>members := members c @ [nid n]\<rparr> else c) (rung_branches r))\<rparr>"
    note new = new_nodes(1) [OF n]
    fix m assume "m \<in> member_set (set_rung (rid r) ?r (push_node n g))"
    then have "m \<in> member_set (push_node n g) \<or> (\<exists>b \<in> set (rung_branches ?r). m \<in> set (members b))"
      using member_set_set_rung [of "rid r" ?r] by blast
    moreover have "rung_branches ?r = map (\<lambda>c. if P c then c\<lparr>members := members c @ [nid n]\<rparr> else c) (rung_branches r)"
      by (simp add: rung_branches_def)
    ultimately have "m \<in> member_set g \<or> m = nid n"
      using findRung_in [OF r] by (auto 4 4 simp: member_set_def push_node_def split: if_splits)
    then show "m \<in> member_set g \<or> drawn s s1 ''contact'' m" using new by auto
  next
    let ?r = "r\<lparr>branches := Some (map (\<lambda>c. if P c then c\<lparr>members := members c @ [nid n]\<rparr> else c) (rung_branches r))\<rparr>"
    fix q assume "q \<in> set (rungs (set_rung (rid r) ?r (push_node n g)))"
    from rids_set_rung [OF this] findRung_in [OF r]
    show "rid q \<in> rid ` set (rungs g) \<or> drawn s s1 ''rung'' (rid q)" by (auto simp: push_node_def)
  qed
  then show ?thesis
    unfolding addBranchContact_def Let_def cloneGraph_eq
    by (intro grows_steps grows_throw grows_ok evolves_wired)
qed

lemma closeBranch_grows: "grows (g, s) (closeBranch g i s)"
  unfolding closeBranch_def by (intro grows_steps grows_throw grows_ok evolves_refl)

lemma deleteBranch_grows: "grows (g, s) (deleteBranch g i s)"
proof -
  have "evolves (g, s) (set_rung (rid r) (r\<lparr>branches := Some (filter P (rung_branches r))\<rparr>)
      (g\<lparr>nodes := filter Q (nodes g), edges := es\<rparr>), s)"
    if r: "r \<in> set (rungs g)" for r P Q es
  proof (rule evolves_trans)
    show "evolves (g, s) (g\<lparr>nodes := filter Q (nodes g), edges := es\<rparr>, s)" by (rule evolves_drop) auto
    show "evolves (g\<lparr>nodes := filter Q (nodes g), edges := es\<rparr>, s)
      (set_rung (rid r) (r\<lparr>branches := Some (filter P (rung_branches r))\<rparr>) (g\<lparr>nodes := filter Q (nodes g), edges := es\<rparr>), s)"
      using r by (intro evolves_set_rung) (auto simp: member_set_def rung_branches_def)
  qed
  note base = this
  show ?thesis
    unfolding deleteBranch_def Let_def cloneGraph_eq
    by (intro grows_steps grows_throw grows_ok evolves_if evolves_wired base) (auto dest: findBranch_in)
qed

lemma paste_copy_new:
  assumes "paste_copy n s = (n', s')"
  shows "later s s' \<and> (n' = n \<or> new_node s s' n')"
proof -
  obtain i s1 where g: "generateId ''paste'' s = (i, s1)" by (rule prod.exhaust)
  have d: "drawn s s1 ''paste'' i" "later s s1" using generateId_drawn [OF g] generateId_later [OF g] by simp_all
  have n': "later s1 s' \<and> (n' = n \<or> nid n' = i \<and> \<not> is_comparison_data (ndata n'))"
    using assms g
    by (cases "ndata n")
      (auto simp: paste_copy_def createContact_def createCoil_def createFb_def Let_def split: prod.splits
        dest!: generateId_later)
  then have "later s s'" using d(2) by (blast intro: later_trans)
  moreover have "drawn s s' ''paste'' i" using drawn_widen [OF d(1) later_refl] n' by blast
  then have "nid n' = i \<Longrightarrow> \<not> is_comparison_data (ndata n') \<Longrightarrow> new_node s s' n'"
    unfolding new_node_def by (intro exI [of _ "''paste''"]) simp
  ultimately show ?thesis using n' by blast
qed

lemma paste_copies_new:
  "paste_copies ns s = (ns', s') \<Longrightarrow> later s s' \<and> (\<forall>n' \<in> set ns'. n' \<in> set ns \<or> new_node s s' n')"
proof (induction ns arbitrary: s ns' s')
  case (Cons n ns)
  obtain n1 s1 where 1: "paste_copy n s = (n1, s1)" by (rule prod.exhaust)
  obtain ns2 s2 where 2: "paste_copies ns s1 = (ns2, s2)" by (rule prod.exhaust)
  have eq: "ns' = n1 # ns2" "s' = s2" using Cons.prems 1 2 by simp_all
  note one = paste_copy_new [OF 1] and more = Cons.IH [OF 2]
  have "later s s2" using one more later_trans by blast
  moreover have "new_node s s1 n1 \<Longrightarrow> new_node s s2 n1" "\<And>m. new_node s1 s2 m \<Longrightarrow> new_node s s2 m"
    using one more new_node_widen by blast+
  ultimately show ?case unfolding eq using one more by auto
qed simp

lemma pasteElements_grows: "grows (g, s) (pasteElements g ids i k s)"
proof -
  have "evolves (g, s) (set_rung (rid r) (r\<lparr>elementIds := els\<rparr>) (g\<lparr>nodes := nodes g @ ns\<rparr>), s1)"
    if r: "findRung g i = Inr r" and ns: "paste_copies (paste_sources g ids) s = (ns, s1)" for r els ns s1
  proof (rule evolves_trans)
    have "n \<in> set (paste_sources g ids) \<Longrightarrow> n \<in> set (nodes g)" for n
      by (auto simp: paste_sources_def findNode_def List.map_filter_def dest: find_SomeD)
    then show "evolves (g, s) (g\<lparr>nodes := nodes g @ ns\<rparr>, s1)"
      using paste_copies_new [OF ns] by (intro evolves_graph) (auto simp: member_set_def)
    show "evolves (g\<lparr>nodes := nodes g @ ns\<rparr>, s1) (set_rung (rid r) (r\<lparr>elementIds := els\<rparr>) (g\<lparr>nodes := nodes g @ ns\<rparr>), s1)"
      using findRung_in [OF r] by (intro evolves_series) simp
  qed
  note base = this
  show ?thesis
    unfolding pasteElements_def Let_def cloneGraph_eq
    by (intro grows_steps grows_throw grows_ok evolves_wired base)
qed

text \<open>Deleting an element prunes every rung.\<close>

lemma evolves_restack: "evolves (g, s) (restack x ms g, s)"
proof -
  have "evolves (g, s) (foldl (\<lambda>g (k, m). set_node m (\<lambda>n. n\<lparr>npos := \<lparr>px = x, py = BRANCH_FIRST_Y + of_nat k * LD_GRID\<rparr>\<rparr>) g) g kms, s)"
    for kms
  proof (induction kms arbitrary: g)
    case (Cons km kms)
    obtain k m where km: "km = (k, m)" by (cases km)
    have "evolves (g, s) (set_node m (\<lambda>n. n\<lparr>npos := \<lparr>px = x, py = BRANCH_FIRST_Y + of_nat k * LD_GRID\<rparr>\<rparr>) g, s)"
      by (rule evolves_set_node) (simp add: same_kind_def)
    from evolves_trans [OF this Cons.IH] show ?case by (simp add: km)
  qed simp
  then show ?thesis by (simp add: restack_def)
qed

lemma evolves_prune_branches:
  "prune_branches i bs g = (bs', ch, g') \<Longrightarrow> evolves (g, s) (g', s)"
proof (induction i bs g arbitrary: bs' ch g' rule: prune_branches.induct)
  case (2 i b bs g)
  show ?case
  proof (cases "i \<in> set (members b)")
    case True
    let ?g = "restack (bx b) (filter (\<lambda>m. m \<noteq> i) (members b)) g"
    obtain bs1 ch1 g1 where r: "prune_branches i bs ?g = (bs1, ch1, g1)" by (rule prod_cases3)
    from evolves_trans [OF evolves_restack "2.IH"(2) [OF _ refl r]] "2.prems" True r
    show ?thesis by (auto simp: Let_def)
  next
    case False
    obtain bs1 ch1 g1 where r: "prune_branches i bs g = (bs1, ch1, g1)" by (rule prod_cases3)
    from "2.prems" False r "2.IH"(1) [OF False r] show ?thesis by auto
  qed
qed auto

definition rung_members :: "rung \<Rightarrow> string set" where
  "rung_members r = (\<Union>b \<in> set (rung_branches r). set (members b))"

lemma prune_rung_grows:
  assumes "prune_rung i dropN dropB r st = (r', st')"
  shows "evolves st st' \<and> rid r' = rid r \<and> rung_members r' \<subseteq> rung_members r"
proof -
  let ?bs0 = "filter (\<lambda>b. bid b \<notin> set dropB) (rung_branches r)"
  obtain bs1 ch g1 where p: "prune_branches i ?bs0 (fst st) = (bs1, ch, g1)" by (rule prod_cases3)
  have e: "evolves st (g1, snd st)" using evolves_prune_branches [OF p, of "snd st"] by simp
  from prune_branches_spec [OF p, of "snd st"] have bs1: "bs1 = map (drop_member i) ?bs0" by simp
  let ?r = "r\<lparr>elementIds := filter (\<lambda>x. x \<notin> set dropN) (elementIds r),
      branches := Some (filter (\<lambda>b. members b \<noteq> []) bs1)\<rparr>"
  have "rung_members ?r \<subseteq> rung_members r"
    by (auto simp: rung_members_def rung_branches_def bs1)
  moreover have "r' = r \<and> st' = (g1, snd st) \<or> r' = ?r \<and> st' = rewireRungBranches ?r (g1, snd st)"
    using assms unfolding prune_rung_def Let_def p prod.case by (auto split: if_splits)
  ultimately show ?thesis using e evolves_wired(1) [OF e] by auto
qed

lemma prune_rungs_grows:
  "prune_rungs i dropN dropB rs st = (rs', st') \<Longrightarrow> evolves st st' \<and>
     (\<forall>r' \<in> set rs'. \<exists>r \<in> set rs. rid r' = rid r \<and> rung_members r' \<subseteq> rung_members r)"
proof (induction rs arbitrary: st rs' st')
  case (Cons r rs)
  obtain r1 st1 where 1: "prune_rung i dropN dropB r st = (r1, st1)" by (rule prod.exhaust)
  obtain rs2 st2 where 2: "prune_rungs i dropN dropB rs st1 = (rs2, st2)" by (rule prod.exhaust)
  have eq: "rs' = r1 # rs2" "st' = st2" using Cons.prems 1 2 by simp_all
  note one = prune_rung_grows [OF 1] and more = Cons.IH [OF 2]
  have "evolves st st2" using one more evolves_trans by blast
  then show ?case unfolding eq using one more by auto
qed simp

lemma deleteElement_grows: "grows (g, s) (deleteElement g i s)"
proof -
  have "evolves (g, s) ((fst st)\<lparr>rungs := rs\<rparr>, snd st)"
    if run: "prune_rungs i dropN dropB (rungs g) (g\<lparr>edges := es, nodes := filter P (nodes g)\<rparr>, s) = (rs, st)"
    for dropN dropB P es rs st
  proof -
    let ?g1 = "g\<lparr>edges := es, nodes := filter P (nodes g)\<rparr>"
    note grown = prune_rungs_grows [OF run]
    have "evolves (g, s) (?g1, s)" by (rule evolves_graph) (auto simp: member_set_def)
    then have e: "evolves (g, s) st" using grown evolves_trans by blast
    show ?thesis
    proof (rule evolves_graph)
      show "later s (snd st)" using e by (simp add: evolves_def)
      show "n' \<in> set (nodes ((fst st)\<lparr>rungs := rs\<rparr>)) \<Longrightarrow>
          (\<exists>n \<in> set (nodes g). same_kind n n') \<or> new_node s (snd st) n'" for n'
        using e by (auto simp: evolves_def)
      show "m \<in> member_set ((fst st)\<lparr>rungs := rs\<rparr>) \<Longrightarrow> m \<in> member_set g \<or> drawn s (snd st) ''contact'' m" for m
        using grown by (fastforce simp: member_set_def rung_members_def)
      show "r \<in> set (rungs ((fst st)\<lparr>rungs := rs\<rparr>)) \<Longrightarrow>
          rid r \<in> rid ` set (rungs g) \<or> drawn s (snd st) ''rung'' (rid r)" for r
        using grown by fastforce
    qed
  qed
  note base = this
  have edge: "evolves (g, s) (g\<lparr>edges := es\<rparr>, s)" for es
    by (rule edges_only_evolves) (simp add: edges_only_def)
  show ?thesis
    unfolding deleteElement_def Let_def cloneGraph_eq
    by (intro grows_steps grows_throw grows_ok edge) (simp add: base)
qed

lemma run_op_grows: "grows (g, s) (run_op op g s)"
  by (cases op)
    (simp_all add: addContact_grows addCoil_grows addFb_grows deleteElement_grows reorderElement_grows
      connectWire_grows disconnectWire_grows data_ops_grow label_ops_grow addRung_grows deleteRung_grows
      moveRung_grows addPowerRail_grows openBranch_grows addBranchContact_grows closeBranch_grows
      deleteBranch_grows pasteElements_grows replaceElement_grows)

lemma run_op_evolves: "run_op op g s = (Inr g', s') \<Longrightarrow> evolves (g, s) (g', s')"
  using run_op_grows [of g s op] by (simp add: grows_def)

end
