(* ===== verification/LdView.thy ===== *)
theory LdView
  imports LdEvolve
begin

text \<open>
  What the ladder canvas draws (components/LdCanvas.tsx): \<open>graphToFlow\<close> turns a document into
  the nodes and edges of the diagram view, and the markers a pending tool or an open branch adds.
  Callbacks and CSS are left out of the drawn nodes. \<open>viewable\<close> says which documents are drawn
  completely, and every operation of the handler keeps it.
\<close>

subsection \<open>Drawn nodes and edges\<close>

text \<open>The \<open>data\<close> of a drawn node; the constructor stands for its React Flow type.\<close>

datatype flow_data =
    RungData nat string string
  | ContactData contact_type string string bool
  | CoilData coil_type string string
  | FbData string "pin list" "pin list"
  | RailData rail_side jsnum "(string \<times> jsnum) list"
  | SlotData string nat
  | BranchSlotData string string

datatype flow_type = RF_RUNG | RF_CONTACT | RF_COIL | RF_FB | RF_RAIL | RF_INSERT

fun flow_type_of :: "flow_data \<Rightarrow> flow_type" where
  "flow_type_of (RungData k c t) = RF_RUNG"
| "flow_type_of (ContactData ct v c h) = RF_CONTACT"
| "flow_type_of (CoilData ct v c) = RF_COIL"
| "flow_type_of (FbData f i out) = RF_FB"
| "flow_type_of (RailData sd h rows) = RF_RAIL"
| "flow_type_of (SlotData r k) = RF_INSERT"
| "flow_type_of (BranchSlotData r a) = RF_INSERT"

record flow_node =
  fid :: string
  fdata :: flow_data
  fparent :: "string option"
  fpos :: point
  fsize :: "(jsnum \<times> jsnum) option"
  fdraggable :: bool
  fdeletable :: bool

record flow_edge =
  feid :: string
  fsource :: string
  ftarget :: string
  fsourceHandle :: string
  ftargetHandle :: string

definition editableFieldsFor :: "flow_type \<Rightarrow> string list" where
  "editableFieldsFor t = (case t of
     RF_CONTACT \<Rightarrow> [''variableName''] | RF_COIL \<Rightarrow> [''variableName'']
   | RF_RUNG \<Rightarrow> [''title'', ''comment''] | _ \<Rightarrow> [])"

definition contactFlowNode :: "ld_node \<Rightarrow> contact_type \<Rightarrow> string \<Rightarrow> string option \<Rightarrow> string \<Rightarrow> point \<Rightarrow> bool \<Rightarrow> flow_node" where
  "contactFlowNode n ct v c rungId pos hasBranch =
     \<lparr>fid = nid n, fdata = ContactData ct v (opt_or c []) hasBranch, fparent = Some rungId, fpos = pos,
      fsize = None, fdraggable = True, fdeletable = True\<rparr>"

definition coilFlowNode :: "ld_node \<Rightarrow> coil_type \<Rightarrow> string \<Rightarrow> string option \<Rightarrow> string \<Rightarrow> point \<Rightarrow> flow_node" where
  "coilFlowNode n ct v c rungId pos =
     \<lparr>fid = nid n, fdata = CoilData ct v (opt_or c []), fparent = Some rungId, fpos = pos,
      fsize = None, fdraggable = True, fdeletable = True\<rparr>"

definition fbFlowNode :: "ld_node \<Rightarrow> string \<Rightarrow> pin list \<Rightarrow> pin list \<Rightarrow> string \<Rightarrow> point \<Rightarrow> flow_node" where
  "fbFlowNode n f ins outs rungId pos =
     \<lparr>fid = nid n, fdata = FbData f ins outs, fparent = Some rungId, fpos = pos,
      fsize = Some (dwidth (ndim n), dheight (ndim n)), fdraggable = True, fdeletable = True\<rparr>"

text \<open>\<open>map.get(i) ?? d\<close>\<close>

definition get_or :: "('a, 'b) jsmap \<Rightarrow> 'a \<Rightarrow> 'b \<Rightarrow> 'b" where
  "get_or m i d = (case map_of m i of Some x \<Rightarrow> x | None \<Rightarrow> d)"

definition rung_node_of :: "layout_output \<Rightarrow> rung \<Rightarrow> flow_node" where
  "rung_node_of lay r =
     \<lparr>fid = rid r, fdata = RungData (rungNumber r) (opt_or (rcomment r) []) (opt_or (rtitle r) []),
      fparent = None, fpos = \<lparr>px = 0, py = get_or (rungTops lay) (rid r) 0\<rparr>,
      fsize = Some (RUNG_GROUP_WIDTH, get_or (rungHeights lay) (rid r) RUNG_GROUP_HEIGHT),
      fdraggable = False, fdeletable = False\<rparr>"

definition toLocal :: "layout_output \<Rightarrow> rung \<Rightarrow> string \<Rightarrow> point" where
  "toLocal lay r i =
     (let p = get_or (out_positions lay) i \<lparr>px = 0, py = 40\<rparr>
      in \<lparr>px = px p, py = py p - get_or (rungTops lay) (rid r) 0\<rparr>)"

text \<open>A series element: contacts, coils and blocks are drawn, anything else is skipped.\<close>

definition series_nodes_of :: "ld_graph \<Rightarrow> layout_output \<Rightarrow> rung \<Rightarrow> string \<Rightarrow> flow_node list" where
  "series_nodes_of g lay r i = (case findNode g i of
     None \<Rightarrow> []
   | Some n \<Rightarrow> (case ndata n of
       Contact ct v c \<Rightarrow> [contactFlowNode n ct v c (rid r) (toLocal lay r (nid n))
          (\<exists>b \<in> set (rung_branches r). anchorId b = nid n)]
     | Coil ct v c \<Rightarrow> [coilFlowNode n ct v c (rid r) (toLocal lay r (nid n))]
     | FbBox f ins outs \<Rightarrow> [fbFlowNode n f ins outs (rid r) (toLocal lay r (nid n))]
     | _ \<Rightarrow> []))"

definition member_nodes_of :: "ld_graph \<Rightarrow> layout_output \<Rightarrow> rung \<Rightarrow> string \<Rightarrow> flow_node list" where
  "member_nodes_of g lay r i = (case findNode g i of
     None \<Rightarrow> []
   | Some n \<Rightarrow> (case ndata n of
       Contact ct v c \<Rightarrow> [contactFlowNode n ct v c (rid r) (toLocal lay r (nid n)) False]
     | _ \<Rightarrow> []))"

definition rung_flow :: "ld_graph \<Rightarrow> layout_output \<Rightarrow> rung \<Rightarrow> flow_node list" where
  "rung_flow g lay r = rung_node_of lay r # concat (map (series_nodes_of g lay r) (elementIds r))
     @ concat (map (\<lambda>b. concat (map (member_nodes_of g lay r) (members b))) (rung_branches r))"

definition rail_nodes_of :: "layout_output \<Rightarrow> (string \<times> jsnum) list \<Rightarrow> ld_node \<Rightarrow> flow_node list" where
  "rail_nodes_of lay rows n = (case ndata n of
     PowerRail sd \<Rightarrow> [\<lparr>fid = nid n, fdata = RailData sd (rail_height lay) rows, fparent = None,
        fpos = (if sd = LeftRail then rail_left lay else rail_right lay),
        fsize = Some (RAIL_WIDTH + 8, rail_height lay), fdraggable = False, fdeletable = False\<rparr>]
   | _ \<Rightarrow> [])"

definition railRows :: "ld_graph \<Rightarrow> layout_output \<Rightarrow> (string \<times> jsnum) list" where
  "railRows g lay = map (\<lambda>r. (rid r, get_or (rungTops lay) (rid r) 0 + ELEMENT_Y + CONTACT_SIZE / 2)) (rungs g)"

definition flow_nodes :: "ld_graph \<Rightarrow> flow_node list" where
  "flow_nodes g = (let lay = layoutGraph g in
     concat (map (rung_flow g lay) (rungs g)) @ concat (map (rail_nodes_of lay (railRows g lay)) (nodes g)))"

text \<open>The map from an element to the rung that lists it; a later rung overwrites an earlier one.\<close>

definition rungForElement :: "ld_graph \<Rightarrow> string \<Rightarrow> string option" where
  "rungForElement g = foldl (\<lambda>m r. foldl (\<lambda>m i. m(i \<mapsto> rid r)) m (rung_refs r)) Map.empty (rungs g)"

definition isRail :: "ld_graph \<Rightarrow> string set \<Rightarrow> string \<Rightarrow> bool" where
  "isRail g shown i \<longleftrightarrow> i \<in> shown \<and> (\<exists>n \<in> set (nodes g). nid n = i \<and> is_powerrail (ndata n))"

definition railHandle :: "ld_graph \<Rightarrow> string \<Rightarrow> string" where
  "railHandle g i = (if truthy_id (rungForElement g i) then ''rail:'' @ the (rungForElement g i) else ''out'')"

definition pin_handle :: "string \<Rightarrow> string option \<Rightarrow> string" where
  "pin_handle side p = (if \<not> truthy_id p then side
     else if starts_with ''bus-'' (the p) then the p else side @ '':'' @ the p)"

fun source_pin :: "edge_data \<Rightarrow> string option" where
  "source_pin (Wire pts sp tp) = sp" | "source_pin Power = None"

fun target_pin :: "edge_data \<Rightarrow> string option" where
  "target_pin (Wire pts sp tp) = tp" | "target_pin Power = None"

definition edge_flow :: "ld_graph \<Rightarrow> string set \<Rightarrow> ld_edge \<Rightarrow> flow_edge" where
  "edge_flow g shown e =
     \<lparr>feid = eid e, fsource = sourceId e, ftarget = targetId e,
      fsourceHandle = (if isRail g shown (sourceId e) then railHandle g (targetId e)
        else pin_handle ''out'' (source_pin (edata e))),
      ftargetHandle = (if isRail g shown (targetId e) then railHandle g (sourceId e)
        else pin_handle ''in'' (target_pin (edata e)))\<rparr>"

definition graphToFlow :: "ld_graph \<Rightarrow> flow_node list \<times> flow_edge list" where
  "graphToFlow g = (let ns = flow_nodes g; shown = set (map fid ns) in
     (ns, map (edge_flow g shown) (filter (\<lambda>e. sourceId e \<in> shown \<and> targetId e \<in> shown) (edges g))))"

subsection \<open>Insertion slots\<close>

text \<open>The series elements that bound a slot: those that exist and are no coils.\<close>

definition series_of :: "ld_graph \<Rightarrow> rung \<Rightarrow> string list" where
  "series_of g r = filter (\<lambda>i. case findNode g i of None \<Rightarrow> False | Some n \<Rightarrow> \<not> is_coil (ndata n)) (elementIds r)"

fun first_slot :: "jsnum \<Rightarrow> jsnum option \<Rightarrow> nat \<Rightarrow> (jsnum \<times> jsnum) list \<Rightarrow> nat" where
  "first_slot x prevRight i [] = i"
| "first_slot x prevRight i ((left, right) # es) =
     (let boundary = (case prevRight of None \<Rightarrow> left - 20 | Some p \<Rightarrow> (p + left) / 2)
      in if x < boundary then i else first_slot x (Some right) (Suc i) es)"

text \<open>
  \<open>findInsertIndex\<close>: \<open>positions.get(id)!\<close> and \<open>find(...)!\<close> cannot be undefined, because the series
  is filtered for existing nodes and the layout places every series element.
\<close>

definition slot_edges :: "ld_graph \<Rightarrow> rung \<Rightarrow> (jsnum \<times> jsnum) list" where
  "slot_edges g r = map (\<lambda>i. let p = the (map_of (layoutRung r g) i)
     in (px p, px p + dwidth (ndim (the (findNode g i))))) (series_of g r)"

definition findInsertIndex :: "ld_graph \<Rightarrow> rung \<Rightarrow> jsnum \<Rightarrow> nat" where
  "findInsertIndex g r x = (if series_of g r = [] then 0 else first_slot x None 0 (slot_edges g r))"

definition slot_x :: "jsnum list \<Rightarrow> nat \<Rightarrow> jsnum" where
  "slot_x xs i = (if i = 0 then (case xs of [] \<Rightarrow> 40 | x # _ \<Rightarrow> x) - 30
     else (if i < length xs then xs ! i else (if xs = [] then 40 else last xs) + 80) - 30)"

definition marker_node :: "string \<Rightarrow> flow_data \<Rightarrow> point \<Rightarrow> flow_node" where
  "marker_node i d p = \<lparr>fid = i, fdata = d, fparent = None, fpos = p, fsize = None,
     fdraggable = False, fdeletable = True\<rparr>"

definition rung_slots :: "ld_graph \<Rightarrow> layout_output \<Rightarrow> nat \<Rightarrow> rung \<Rightarrow> flow_node list" where
  "rung_slots g lay ri r =
     (let series = series_of g r;
          xs = map (\<lambda>i. px (get_or (out_positions lay) i \<lparr>px = 40, py = 0\<rparr>)) series;
          y = get_or (rungTops lay) (rid r) 0 + min 40 (get_or (rungHeights lay) (rid r) 76 - 20)
      in map (\<lambda>i. marker_node (''insert-'' @ nat_to_dec ri @ ''-'' @ nat_to_dec i) (SlotData (rid r) i)
           \<lparr>px = slot_x xs i, py = y\<rparr>) [0..<Suc (length series)])"

definition insert_markers :: "ld_graph \<Rightarrow> flow_node list" where
  "insert_markers g = (let lay = layoutGraph g in
     concat (map (\<lambda>(ri, r). rung_slots g lay ri r) (enumerate 0 (rungs g))))"

definition branch_markers :: "ld_graph \<Rightarrow> string \<Rightarrow> flow_node list" where
  "branch_markers g rungId = (let lay = layoutGraph g;
      els = (case List.find (\<lambda>r. rid r = rungId) (rungs g) of None \<Rightarrow> [] | Some r \<Rightarrow> elementIds r);
      contacts = filter (\<lambda>i. case findNode g i of None \<Rightarrow> False | Some n \<Rightarrow> is_contact (ndata n)) els
    in concat (map (\<lambda>(k, i). case map_of (out_positions lay) i of None \<Rightarrow> []
        | Some p \<Rightarrow> [marker_node (''branch-insert-'' @ nat_to_dec k) (BranchSlotData rungId i)
            \<lparr>px = px p - 7, py = py p + 40\<rparr>]) (enumerate 0 contacts)))"

subsection \<open>Documents that are drawn completely\<close>

definition node_rung_ids_apart :: "ld_graph \<Rightarrow> bool" where
  "node_rung_ids_apart g \<longleftrightarrow> rid ` set (rungs g) \<inter> set (node_ids g) = {}"

definition viewable :: "ld_graph \<Rightarrow> bool" where
  "viewable g \<longleftrightarrow> (\<forall>n \<in> set (nodes g). \<not> is_comparison_data (ndata n)
       \<and> (nid n \<in> member_set g \<longrightarrow> is_contact (ndata n)))
     \<and> node_rung_ids_apart g"

lemma drawn_fresh: "drawn s s' p i \<Longrightarrow> fresh_for s X \<Longrightarrow> i \<notin> X"
  by (auto simp: drawn_def fresh_for_def later_def)

lemma drawn_prefix: "drawn s s' p i \<Longrightarrow> drawn s s' q i \<Longrightarrow> p = q"
  by (auto simp: drawn_def dest: mk_id_eqD)

lemma same_kind_data:
  assumes "same_kind n n'"
  shows "is_comparison_data (ndata n') = is_comparison_data (ndata n)" "is_contact (ndata n') = is_contact (ndata n)"
    "nid n' = nid n"
  using assms by (cases "ndata n"; cases "ndata n'"; simp add: same_kind_def)+

lemma viewable_evolves:
  assumes inv: "ld_inv (g, s)" and v: "viewable g" and e: "evolves (g, s) (g', s')"
  shows "viewable g'"
proof -
  note fresh = ld_invD(9) [OF inv]
  have old: "set (node_ids g) \<subseteq> all_ids g" "rid ` set (rungs g) \<subseteq> all_ids g" "member_set g \<subseteq> all_ids g"
    using ld_invD(4) [OF inv] by (auto simp: all_ids_def member_set_def rung_node_ids_def rung_refs_def)
  have new: "nid n \<notin> set (node_ids g) \<and> nid n \<notin> rid ` set (rungs g) \<and> nid n \<notin> member_set g"
    if n: "new_node s s' n" for n
  proof -
    from n obtain p where "drawn s s' p (nid n)" unfolding new_node_def by blast
    from drawn_fresh [OF this fresh] old show ?thesis by blast
  qed
  have kind: "(\<exists>n \<in> set (nodes g). same_kind n n') \<or> new_node s s' n'" if "n' \<in> set (nodes g')" for n'
    using e that by (simp add: evolves_def)
  have node: "\<not> is_comparison_data (ndata n') \<and> (nid n' \<in> member_set g' \<longrightarrow> is_contact (ndata n'))"
    if n': "n' \<in> set (nodes g')" for n'
    using kind [OF n']
  proof (elim disjE bexE)
    fix n assume n: "n \<in> set (nodes g)" "same_kind n n'"
    have "nid n' \<in> member_set g' \<Longrightarrow> nid n' \<in> member_set g \<or> drawn s s' ''contact'' (nid n')"
      using e by (simp add: evolves_def)
    moreover have "\<not> drawn s s' ''contact'' (nid n')"
      using drawn_fresh [OF _ fresh] old(1) n same_kind_data(3) [OF n(2)] by (auto simp: node_ids_def)
    ultimately show ?thesis using v n same_kind_data [OF n(2)] by (auto simp: viewable_def)
  next
    assume n: "new_node s s' n'"
    then obtain p where p: "drawn s s' p (nid n')" "\<not> is_comparison_data (ndata n')"
      "p = ''contact'' \<longrightarrow> is_contact (ndata n')" unfolding new_node_def by blast
    have "nid n' \<in> member_set g' \<Longrightarrow> drawn s s' ''contact'' (nid n')"
      using e new [OF n] by (auto simp: evolves_def)
    with p show ?thesis using drawn_prefix by blast
  qed
  have "rid r \<noteq> nid n'" if r: "r \<in> set (rungs g')" and n': "n' \<in> set (nodes g')" for r n'
  proof -
    have r': "rid r \<in> rid ` set (rungs g) \<or> drawn s s' ''rung'' (rid r)" using e r by (simp add: evolves_def)
    from kind [OF n'] show ?thesis
    proof (elim disjE bexE)
      fix n assume n: "n \<in> set (nodes g)" "same_kind n n'"
      then have "nid n' \<in> set (node_ids g)" using same_kind_data(3) [OF n(2)] by (simp add: node_ids_def)
      with r' show ?thesis
        using v drawn_fresh [OF _ fresh] old(1) by (auto simp: viewable_def node_rung_ids_apart_def)
    next
      assume n: "new_node s s' n'"
      then obtain p where p: "drawn s s' p (nid n')" "p \<noteq> ''rung''" unfolding new_node_def by blast
      then have "\<not> drawn s s' ''rung'' (nid n')" using drawn_prefix by blast
      with r' new [OF n] show ?thesis by metis
    qed
  qed
  with node show ?thesis by (auto simp: viewable_def node_rung_ids_apart_def node_ids_def)
qed

text \<open>What an editing session keeps when no rung is deleted.\<close>

definition session_ok :: "wiring \<Rightarrow> bool" where
  "session_ok st \<longleftrightarrow> ld_good st \<and> viewable (fst st)"

definition keeps_rungs :: "ld_op \<Rightarrow> ld_graph \<Rightarrow> bool" where
  "keeps_rungs op g \<longleftrightarrow> (\<forall>i. op \<noteq> DeleteRung i)"

lemma viewable_paste_safe:
  assumes "viewable g"
  shows "paste_safe op g"
proof -
  have "n \<in> set (nodes g)" if "n \<in> set (paste_sources g ids)" for n ids
    using that by (auto simp: paste_sources_def List.map_filter_def findNode_def dest: find_SomeD)
  with assms show ?thesis by (auto simp: paste_safe_def viewable_def split: ld_op.split)
qed

interpretation ld_view_ed: edit_machine run_op keeps_rungs session_ok
proof unfold_locales
  fix g s op g' s'
  assume ok: "session_ok (g, s)" and op: "keeps_rungs op g" and run: "run_op op g s = (Inr g', s')"
  have v: "viewable g" and good: "ld_good (g, s)" using ok by (simp_all add: session_ok_def)
  have "edit_safe op g"
    using viewable_paste_safe [OF v] op by (cases op) (simp_all add: edit_safe_def keeps_rungs_def)
  with good run have "ld_good (g', s')" using ld_ed.exec_good by blast
  moreover have "viewable g'"
    using good v run_op_evolves [OF run] by (auto simp: ld_good_def intro: viewable_evolves)
  ultimately show "session_ok (g', s')" by (simp add: session_ok_def)
qed (rule run_op_throw)


subsection \<open>The view shows the document\<close>

definition nonrail :: "ld_graph \<Rightarrow> string \<Rightarrow> bool" where
  "nonrail g i \<longleftrightarrow> i \<notin> nid ` {n \<in> set (nodes g). is_powerrail (ndata n)}"

lemma layout_rungs_top:
  "distinct (map rid rs) \<Longrightarrow> k < length rs \<Longrightarrow>
     map_of (rungTops (fst (layout_rungs g rs acc t))) (rid (rs ! k)) = Some (t + rung_top rs k)"
proof (induction rs arbitrary: k acc t)
  case (Cons r rs)
  show ?case
  proof (cases k)
    case 0
    with Cons.prems show ?thesis by (simp add: Let_def layout_rungs_untouched rung_top_def)
  next
    case (Suc j)
    with Cons show ?thesis by (simp add: Let_def rung_top_def algebra_simps)
  qed
qed simp

lemma find_key: "distinct (map f xs) \<Longrightarrow> x \<in> set xs \<Longrightarrow> List.find (\<lambda>y. f y = f x) xs = Some x"
  by (induction xs) (auto simp: image_iff)

lemma findNode_unique: "distinct (node_ids g) \<Longrightarrow> n \<in> set (nodes g) \<Longrightarrow> findNode g (nid n) = Some n"
  by (simp add: findNode_def node_ids_def find_key)

lemma nonrail_node:
  assumes "distinct (node_ids g)" "n \<in> set (nodes g)"
  shows "nonrail g (nid n) \<longleftrightarrow> \<not> is_powerrail (ndata n)"
proof -
  have "m = n" if "m \<in> set (nodes g)" "nid m = nid n" for m
    using findNode_unique [OF assms(1) that(1)] findNode_unique [OF assms] unfolding that(2)
    by (metis option.inject)
  then have "nid n \<in> nid ` {m \<in> set (nodes g). is_powerrail (ndata m)} \<longleftrightarrow> is_powerrail (ndata n)"
    using assms(2) by (metis (mono_tags, lifting) imageE imageI mem_Collect_eq)
  then show ?thesis by (simp add: nonrail_def)
qed

lemma shown_elements:
  assumes d: "distinct (node_ids g)" and i: "i \<in> set (node_ids g)" and v: "viewable g"
  shows "map fid (series_nodes_of g lay r i) = (if nonrail g i then [i] else [])"
    and "i \<in> member_set g \<Longrightarrow> map fid (member_nodes_of g lay r i) = [i] \<and> nonrail g i"
proof -
  from i obtain n where n: "n \<in> set (nodes g)" "nid n = i" by (auto simp: node_ids_def)
  have find: "findNode g i = Some n" using findNode_unique [OF d n(1)] n(2) by simp
  have kind: "\<not> is_comparison_data (ndata n)" "i \<in> member_set g \<Longrightarrow> is_contact (ndata n)"
    using v n by (auto simp: viewable_def)
  have rail: "nonrail g i \<longleftrightarrow> \<not> is_powerrail (ndata n)" using nonrail_node [OF d n(1)] n(2) by simp
  show "map fid (series_nodes_of g lay r i) = (if nonrail g i then [i] else [])"
    using find n(2) kind(1) rail by (cases "ndata n")
      (simp_all add: series_nodes_of_def contactFlowNode_def coilFlowNode_def fbFlowNode_def)
  show "i \<in> member_set g \<Longrightarrow> map fid (member_nodes_of g lay r i) = [i] \<and> nonrail g i"
    using find n(2) kind rail by (cases "ndata n") (simp_all add: member_nodes_of_def contactFlowNode_def)
qed

lemma concat_single_if: "(\<And>i. i \<in> set xs \<Longrightarrow> map f (h i) = (if P i then [i] else [])) \<Longrightarrow>
    map f (concat (map h xs)) = filter P xs"
  by (induction xs) simp_all

lemma rung_flow_ids:
  assumes d: "distinct (node_ids g)" and sub: "set (rung_node_ids g) \<subseteq> set (node_ids g)"
    and v: "viewable g" and r: "r \<in> set (rungs g)"
  shows "map fid (rung_flow g lay r) = rid r # filter (nonrail g) (rung_refs r)"
proof -
  have refs: "set (rung_refs r) \<subseteq> set (node_ids g)" using sub rung_refs_in [OF r] by simp
  have els: "map fid (concat (map (series_nodes_of g lay r) (elementIds r))) = filter (nonrail g) (elementIds r)"
    using refs elementIds_in_refs by (intro concat_single_if shown_elements(1) [OF d _ v]) blast
  have mem: "map fid (concat (map (member_nodes_of g lay r) (members b))) = filter (nonrail g) (members b)"
    if b: "b \<in> set (rung_branches r)" for b
  proof (rule concat_single_if)
    fix i assume i: "i \<in> set (members b)"
    then have "i \<in> set (node_ids g)" "i \<in> member_set g"
      using refs members_in_refs [OF b] r b by (auto simp: member_set_def)
    with shown_elements(2) [OF d _ v] show "map fid (member_nodes_of g lay r i) = (if nonrail g i then [i] else [])"
      by simp
  qed
  then have "map fid (concat (map (\<lambda>b. concat (map (member_nodes_of g lay r) (members b))) (rung_branches r)))
      = concat (map (\<lambda>b. filter (nonrail g) (members b)) (rung_branches r))"
    by (simp add: map_concat comp_def cong: map_cong)
  also have "\<dots> = filter (nonrail g) (concat (map members (rung_branches r)))"
    by (simp add: filter_concat comp_def)
  finally show ?thesis
    using els by (simp add: rung_flow_def rung_node_of_def rung_refs_def)
qed

lemma distinct_headed:
  "distinct (concat (map (\<lambda>r. f r # A r) rs)) \<longleftrightarrow>
     distinct (map f rs) \<and> distinct (concat (map A rs)) \<and> f ` set rs \<inter> set (concat (map A rs)) = {}"
  by (induction rs) auto

lemma rail_flow_ids:
  "map fid (concat (map (rail_nodes_of lay rows) ns)) = map nid (filter (\<lambda>n. is_powerrail (ndata n)) ns)"
  by (induction ns) (auto simp: rail_nodes_of_def split: node_data.split)

lemma flow_ids:
  assumes inv: "ld_inv (g, s)" and v: "viewable g"
  shows "map fid (flow_nodes g) = concat (map (\<lambda>r. rid r # filter (nonrail g) (rung_refs r)) (rungs g))
     @ map nid (filter (\<lambda>n. is_powerrail (ndata n)) (nodes g))"
proof -
  note I = ld_invD [OF inv]
  have "map fid (concat (map (rung_flow g lay) rs)) = concat (map (\<lambda>r. rid r # filter (nonrail g) (rung_refs r)) rs)"
    if "set rs \<subseteq> set (rungs g)" for rs lay
    using that rung_flow_ids [OF I(1,4) v] by (induction rs) auto
  then show ?thesis by (simp add: flow_nodes_def Let_def rail_flow_ids)
qed

lemma view_complete:
  assumes ok: "session_ok (g, s)"
  shows "distinct (map fid (flow_nodes g))"
    and "set (map fid (flow_nodes g)) = rid ` set (rungs g) \<union> set (node_ids g)"
    and "map feid (snd (graphToFlow g)) = map eid (edges g)"
proof -
  have inv: "ld_inv (g, s)" and own: "owned g" and v: "viewable g"
    using ok by (simp_all add: session_ok_def ld_good_def)
  note I = ld_invD [OF inv]
  let ?rails = "map nid (filter (\<lambda>n. is_powerrail (ndata n)) (nodes g))"
  let ?refs = "concat (map (\<lambda>r. filter (nonrail g) (rung_refs r)) (rungs g))"
  have refs: "?refs = filter (nonrail g) (rung_node_ids g)"
    by (simp add: rung_node_ids_def filter_concat comp_def)
  have rails: "set ?rails = {i \<in> set (node_ids g). \<not> nonrail g i}"
    using nonrail_node [OF I(1)] by (auto simp: node_ids_def)
  have nodes: "set ?refs = {i \<in> set (node_ids g). nonrail g i}"
    using own I(4) nonrail_node [OF I(1)] unfolding refs by (auto simp: owned_def node_ids_def)
  have ids: "rid ` set (rungs g) \<inter> set (node_ids g) = {}"
    using v by (simp add: viewable_def node_rung_ids_apart_def)
  have "distinct ?rails" using I(1) by (simp add: node_ids_def distinct_map_filter)
  moreover have "distinct (concat (map (\<lambda>r. rid r # filter (nonrail g) (rung_refs r)) (rungs g)))"
    unfolding distinct_headed using I(2,3) ids nodes unfolding refs by auto
  ultimately show "distinct (map fid (flow_nodes g))"
    unfolding flow_ids [OF inv v] using ids nodes rails by auto
  have "set (map fid (flow_nodes g)) = rid ` set (rungs g) \<union> set ?refs \<union> set ?rails"
    unfolding flow_ids [OF inv v] by auto
  then show shown: "set (map fid (flow_nodes g)) = rid ` set (rungs g) \<union> set (node_ids g)"
    unfolding nodes rails by auto
  have "sourceId e \<in> set (map fid (flow_nodes g)) \<and> targetId e \<in> set (map fid (flow_nodes g))"
    if "e \<in> set (edges g)" for e
    using I(7) that unfolding shown by (auto simp: edges_resolve_def)
  then have "filter (\<lambda>e. sourceId e \<in> set (map fid (flow_nodes g)) \<and> targetId e \<in> set (map fid (flow_nodes g))) (edges g)
      = edges g" by simp
  then show "map feid (snd (graphToFlow g)) = map eid (edges g)"
    by (simp add: graphToFlow_def Let_def edge_flow_def comp_def)
qed

end
