(* ===== verification/Sessions.thy ===== *)
theory Sessions
  imports History
begin

text \<open>
  A view over an undo state. Between two user actions the view shows the present document of the
  state's timeline, and every document the user can come back to satisfies the editor's invariant.
  The interface \<open>undo_session\<close> has the laws of an undo state and of the invariant that make every
  action of a view keep this; both canvases interpret it.
\<close>

definition tl_docs :: "'g timeline \<Rightarrow> 'g set" where
  "tl_docs t = set (past t) \<union> {present t} \<union> set (future t)"

lemma tl_docs_apply: "tl_docs (tl_apply g t) \<subseteq> insert g (tl_docs t)"
proof -
  have "set (take 49 (present t # past t)) \<subseteq> set (present t # past t)" by (rule set_take_subset)
  then show ?thesis by (auto simp: tl_docs_def tl_apply_def)
qed

lemma tl_docs_undo: "tl_docs (tl_undo t) = tl_docs t" "tl_docs (tl_redo t) = tl_docs t" "tl_docs (tl_clean t) = tl_docs t"
  by (auto simp: tl_docs_def tl_undo_def tl_redo_def tl_clean_def split: list.split)

lemma tl_docs_present [simp]: "present t \<in> tl_docs t"
  by (simp add: tl_docs_def)

definition kept ::
  "('st \<Rightarrow> 'g timeline \<Rightarrow> bool) \<Rightarrow> ('g \<times> 's \<Rightarrow> bool) \<Rightarrow> 'st \<Rightarrow> 's \<Rightarrow> 'g \<Rightarrow> bool" where
  "kept rep good st s g \<longleftrightarrow> (\<exists>t. rep st t \<and> tl_bounded t \<and> g = present t \<and> (\<forall>d \<in> tl_docs t. good (d, s)))"

text \<open>A mutation keeps the invariant, and draws only new ids even when it throws.\<close>

definition safe_for ::
  "('g \<times> 's \<Rightarrow> bool) \<Rightarrow> ('s \<Rightarrow> 's \<Rightarrow> bool) \<Rightarrow> ('g \<Rightarrow> 's \<Rightarrow> ('e + 'g) \<times> 's) \<Rightarrow> bool" where
  "safe_for good later m \<longleftrightarrow> (\<forall>g s r s'. good (g, s) \<longrightarrow> m g s = (r, s') \<longrightarrow>
     later s s' \<and> (\<forall>g'. r = Inr g' \<longrightarrow> good (g', s')))"

lemma safe_forD:
  assumes "safe_for good later m" "good (g, s)" "m g s = (r, s')"
  shows "later s s'" "r = Inr g' \<Longrightarrow> good (g', s')"
  using assms unfolding safe_for_def by blast+

lemma safe_forI:
  "(\<And>g s r s'. good (g, s) \<Longrightarrow> m g s = (r, s') \<Longrightarrow> later s s') \<Longrightarrow>
   (\<And>g s g' s'. good (g, s) \<Longrightarrow> m g s = (Inr g', s') \<Longrightarrow> good (g', s')) \<Longrightarrow> safe_for good later m"
  unfolding safe_for_def by blast

text \<open>Two calls in one mutation: the second sees the result of the first, a throw ends both.\<close>

definition then_op ::
  "('g \<Rightarrow> 's \<Rightarrow> ('e + 'g) \<times> 's) \<Rightarrow> ('g \<Rightarrow> 's \<Rightarrow> ('e + 'g) \<times> 's) \<Rightarrow> 'g \<Rightarrow> 's \<Rightarrow> ('e + 'g) \<times> 's" where
  "then_op m k g s = (case m g s of (Inl e, s') \<Rightarrow> (Inl e, s') | (Inr g', s') \<Rightarrow> k g' s')"

lemma safe_for_if: "(\<And>g. P g \<Longrightarrow> safe_for good later (m g)) \<Longrightarrow> (\<And>g. \<not> P g \<Longrightarrow> safe_for good later (k g)) \<Longrightarrow>
    safe_for good later (\<lambda>g s. if P g then m g g s else k g g s)"
  unfolding safe_for_def by simp

locale undo_session =
  fixes rep :: "'st \<Rightarrow> 'g timeline \<Rightarrow> bool"
    and shown :: "'st \<Rightarrow> 's \<Rightarrow> ('x + 'g) \<times> 's"
    and app :: "('g \<Rightarrow> 's \<Rightarrow> ('e + 'g) \<times> 's) \<Rightarrow> 'st \<Rightarrow> 's \<Rightarrow> ('x + 'g) \<times> 'st \<times> 's"
    and undo redo :: "'st \<Rightarrow> 's \<Rightarrow> ('x + 'g option) \<times> 'st \<times> 's"
    and clean :: "'st \<Rightarrow> 'st"
    and wrap :: "'e \<Rightarrow> 'x"
    and good :: "'g \<times> 's \<Rightarrow> bool"
    and later :: "'s \<Rightarrow> 's \<Rightarrow> bool"
  assumes shows_present: "rep st t \<Longrightarrow> shown st s = (Inr (present t), s)"
    and app_returns: "rep st t \<Longrightarrow> tl_bounded t \<Longrightarrow> m (present t) s = (Inr g, s') \<Longrightarrow>
      \<exists>st'. app m st s = (Inr g, st', s') \<and> rep st' (tl_apply g t)"
    and app_throws: "rep st t \<Longrightarrow> m (present t) s = (Inl e, s') \<Longrightarrow> app m st s = (Inl (wrap e), st, s')"
    and undo_past: "rep st t \<Longrightarrow> \<exists>st'. undo st s = (Inr (if past t = [] then None else Some (present (tl_undo t))), st', s)
      \<and> rep st' (tl_undo t)"
    and redo_future: "rep st t \<Longrightarrow> \<exists>st'. redo st s = (Inr (if future t = [] then None else Some (present (tl_redo t))), st', s)
      \<and> rep st' (tl_redo t)"
    and clean_rep: "rep st t \<Longrightarrow> rep (clean st) (tl_clean t)"
    and good_later: "good (g, s) \<Longrightarrow> later s s' \<Longrightarrow> good (g, s')"
    and later_trans: "later s s' \<Longrightarrow> later s' s'' \<Longrightarrow> later s s''"
begin

lemma keptE:
  assumes "kept rep good st s g"
  obtains t where "rep st t" "tl_bounded t" "g = present t" "\<And>d. d \<in> tl_docs t \<Longrightarrow> good (d, s)" "good (g, s)"
  using assms tl_docs_present unfolding kept_def by blast

lemma kept_shown: "kept rep good st s g \<Longrightarrow> shown st s' = (Inr g, s')"
  by (erule keptE) (simp add: shows_present)

lemma kept_app_returns:
  assumes "kept rep good st s g" "m g s = (Inr g', s')" "safe_for good later m"
  shows "\<exists>st'. app m st s = (Inr g', st', s') \<and> kept rep good st' s' g'"
proof -
  from assms(1) obtain t where t: "rep st t" "tl_bounded t" "g = present t" "\<And>d. d \<in> tl_docs t \<Longrightarrow> good (d, s)" "good (g, s)"
    by (rule keptE) blast
  with assms(2) app_returns [of st t m s g' s'] obtain st' where
    st': "app m st s = (Inr g', st', s')" "rep st' (tl_apply g' t)" by blast
  note safe = safe_forD [OF assms(3) t(5) assms(2)]
  have "good (d, s')" if "d \<in> tl_docs (tl_apply g' t)" for d
    using that tl_docs_apply [of g' t] safe t(4) good_later [of d s s'] by blast
  then have "kept rep good st' s' g'"
    unfolding kept_def using st'(2) t(2) by (intro exI [of _ "tl_apply g' t"]) (simp add: tl_bounded_steps, simp add: tl_apply_def)
  with st' show ?thesis by blast
qed

lemma kept_app_throws:
  assumes "kept rep good st s g" "m g s = (Inl e, s')" "safe_for good later m"
  shows "app m st s = (Inl (wrap e), st, s') \<and> kept rep good st s' g"
proof -
  from assms(1) obtain t where t: "rep st t" "tl_bounded t" "g = present t" "\<And>d. d \<in> tl_docs t \<Longrightarrow> good (d, s)" "good (g, s)"
    by (rule keptE) blast
  with assms app_throws good_later safe_forD(1) [OF assms(3) t(5) assms(2)] show ?thesis
    unfolding kept_def by blast
qed

lemma kept_undo:
  assumes "kept rep good st s g"
  shows "(\<exists>st'. undo st s = (Inr None, st', s) \<and> kept rep good st' s g)
    \<or> (\<exists>g' st'. undo st s = (Inr (Some g'), st', s) \<and> kept rep good st' s g')"
proof -
  from assms obtain t where t: "rep st t" "tl_bounded t" "g = present t" "\<And>d. d \<in> tl_docs t \<Longrightarrow> good (d, s)"
    by (rule keptE) blast
  obtain st' where st': "undo st s = (Inr (if past t = [] then None else Some (present (tl_undo t))), st', s)"
    "rep st' (tl_undo t)" using undo_past [OF t(1)] by blast
  have "kept rep good st' s (present (tl_undo t))"
    unfolding kept_def using st'(2) t by (intro exI [of _ "tl_undo t"]) (simp add: tl_bounded_steps tl_docs_undo)
  with st' t(3) show ?thesis by (cases "past t") (simp_all add: tl_undo_def)
qed

lemma kept_redo:
  assumes "kept rep good st s g"
  shows "(\<exists>st'. redo st s = (Inr None, st', s) \<and> kept rep good st' s g)
    \<or> (\<exists>g' st'. redo st s = (Inr (Some g'), st', s) \<and> kept rep good st' s g')"
proof -
  from assms obtain t where t: "rep st t" "tl_bounded t" "g = present t" "\<And>d. d \<in> tl_docs t \<Longrightarrow> good (d, s)"
    by (rule keptE) blast
  obtain st' where st': "redo st s = (Inr (if future t = [] then None else Some (present (tl_redo t))), st', s)"
    "rep st' (tl_redo t)" using redo_future [OF t(1)] by blast
  have "kept rep good st' s (present (tl_redo t))"
    unfolding kept_def using st'(2) t by (intro exI [of _ "tl_redo t"]) (simp add: tl_bounded_steps tl_docs_undo)
  with st' t(3) show ?thesis by (cases "future t") (simp_all add: tl_redo_def)
qed

lemma kept_clean:
  assumes "kept rep good st s g"
  shows "kept rep good (clean st) s g"
proof -
  from assms obtain t where t: "rep st t" "tl_bounded t" "g = present t" "\<And>d. d \<in> tl_docs t \<Longrightarrow> good (d, s)"
    by (rule keptE) blast
  then show ?thesis
    unfolding kept_def using clean_rep [OF t(1)]
    by (intro exI [of _ "tl_clean t"]) (simp add: tl_bounded_steps tl_docs_undo, simp add: tl_clean_def)
qed

lemma kept_start: "rep st (tl_start g) \<Longrightarrow> good (g, s) \<Longrightarrow> kept rep good st s g"
  unfolding kept_def by (intro exI [of _ "tl_start g"]) (simp add: tl_docs_def tl_start_def tl_bounded_def)

lemma safe_then:
  assumes "safe_for good later m" "safe_for good later k"
  shows "safe_for good later (then_op m k)"
  unfolding safe_for_def
proof (intro allI impI)
  fix g s r s'
  assume ok: "good (g, s)" and run: "then_op m k g s = (r, s')"
  obtain r1 s1 where 1: "m g s = (r1, s1)" by (rule prod.exhaust)
  note m = safe_forD [OF assms(1) ok 1]
  show "later s s' \<and> (\<forall>g'. r = Inr g' \<longrightarrow> good (g', s'))"
  proof (cases r1)
    case (Inl e)
    with run 1 m show ?thesis by (auto simp: then_op_def)
  next
    case (Inr g1)
    then have "k g1 s1 = (r, s')" "good (g1, s1)" using run 1 m by (simp_all add: then_op_def)
    with assms(2) m(1) later_trans show ?thesis unfolding safe_for_def by blast
  qed
qed

end

end
