(* ===== verification/LdCanvas.thy ===== *)
theory LdCanvas
  imports LdView LdHistory Sessions
begin

text \<open>
  The ladder canvas as a machine of user actions (components/LdCanvas.tsx, LdContextMenu.tsx,
  property-view/ld-property-state.ts): its React state as a record, every handler of a click, key,
  drag, menu item or property edit as a transition. What the DOM tells a handler (the element
  under the pointer, the rendered position of a target, the answer to a prompt) comes with the
  event. The Find and Cross Reference panels are in LdQueries.
\<close>

subsection \<open>State\<close>

datatype ld_tool =
    ContactTool contact_type
  | CoilTool coil_type
  | RailTool
  | BranchTool
  | FbTool string

datatype selected_element =
    SelContact string string contact_type string point
  | SelCoil string string coil_type string point
  | SelFb string string point
  | SelRung string nat string string
  | SelWire string string string
  | SelRail string rail_side point

fun selected_id :: "selected_element \<Rightarrow> string" where
  "selected_id (SelContact i v t c p) = i"
| "selected_id (SelCoil i v t c p) = i"
| "selected_id (SelFb i f p) = i"
| "selected_id (SelRung i k c t) = i"
| "selected_id (SelWire i a b) = i"
| "selected_id (SelRail i sd p) = i"

record ld_canvas =
  cv_state :: ld_state
  cv_gen :: idgen
  cv_graph :: ld_graph
  cv_tool :: "ld_tool option"
  cv_branch :: "(string \<times> string) option" \<comment> \<open>branch id, rung id\<close>
  cv_status :: string
  cv_sel :: "(string \<times> flow_type) option"
  cv_clip :: "string list"
  cv_clipStatus :: string
  cv_edit :: "(string \<times> string \<times> nat) option" \<comment> \<open>node id, field, sequence number\<close>
  cv_editSeq :: nat
  cv_prop :: "selected_element option"

definition open_canvas :: "ld_graph \<Rightarrow> idgen \<Rightarrow> ld_canvas" where
  "open_canvas g s = (let (st, s') = ld_new_state (Some g) s in
     \<lparr>cv_state = st, cv_gen = s', cv_graph = g, cv_tool = None, cv_branch = None, cv_status = [],
      cv_sel = None, cv_clip = [], cv_clipStatus = [], cv_edit = None, cv_editSeq = 0, cv_prop = None\<rparr>)"

definition setStatus :: "string \<Rightarrow> ld_canvas \<Rightarrow> ld_canvas" where
  "setStatus msg c = c\<lparr>cv_status := msg\<rparr>"

definition setTool :: "ld_tool option \<Rightarrow> ld_canvas \<Rightarrow> ld_canvas" where
  "setTool t c = c\<lparr>cv_tool := t\<rparr>"

subsection \<open>Applying a mutation\<close>

type_synonym mutation = "ld_graph \<Rightarrow> idgen \<Rightarrow> ld_result"

fun error_message :: "ld_error state_error \<Rightarrow> string" where
  "error_message (MutationError (ValidationError msg)) = msg"
| "error_message (FromJsonError msg) = msg"

definition tryApply :: "mutation \<Rightarrow> ld_canvas \<Rightarrow> ld_graph option \<times> ld_canvas" where
  "tryApply m c = (case ld_applyOperation m (cv_state c) (cv_gen c) of
     (Inr g, st, s) \<Rightarrow> (Some g, c\<lparr>cv_state := st, cv_gen := s, cv_graph := g, cv_status := []\<rparr>)
   | (Inl e, st, s) \<Rightarrow> (None, c\<lparr>cv_state := st, cv_gen := s, cv_status := error_message e\<rparr>))"

definition apply_op :: "mutation \<Rightarrow> ld_canvas \<Rightarrow> ld_canvas" where
  "apply_op m c = snd (tryApply m c)"

definition ensure_rung :: mutation where
  "ensure_rung g s = (if rungs g = [] then addRung g s else ok (g, s))"

definition contact_type_of :: "string \<Rightarrow> contact_type" where
  "contact_type_of t = (if t = ''NC'' then NC else if t = ''P'' then CT_P else if t = ''N'' then CT_N else NO)"

definition coil_type_of :: "string \<Rightarrow> coil_type" where
  "coil_type_of t = (if t = ''Negated'' then Negated else if t = ''Set'' then CoilSet
     else if t = ''Reset'' then CoilReset else Normal)"

subsection \<open>Placing elements at insertion markers\<close>

text \<open>
  \<open>COIL_TYPE_BY_TOOL\<close> has no entry for \<open>rail-Left\<close> and \<open>branch\<close>, so those tools reach
  \<open>addCoil\<close> with the type \<open>undefined\<close> and place a coil without a type.
\<close>

definition coil_of_tool :: "ld_tool \<Rightarrow> coil_type" where
  "coil_of_tool tool = (case tool of CoilTool t \<Rightarrow> t | _ \<Rightarrow> NoCoilType)"

definition place_mutation :: "ld_tool \<Rightarrow> string \<Rightarrow> nat \<Rightarrow> mutation" where
  "place_mutation tool rungId idx = then_op ensure_rung (\<lambda>g s. case tool of
     ContactTool t \<Rightarrow> addContact g \<lparr>ac_position = None, ac_insertIndex = Some (int idx), ac_type = t, ac_rungId = rungId\<rparr> s
   | FbTool f \<Rightarrow> addFb g \<lparr>af_position = None, af_insertIndex = Some (int idx), af_fbType = f, af_rungId = rungId\<rparr> s
   | _ \<Rightarrow> addCoil g (coil_of_tool tool) rungId s)"

definition click_slot :: "string \<Rightarrow> nat \<Rightarrow> ld_canvas \<Rightarrow> ld_canvas" where
  "click_slot rungId idx c = setTool None (case cv_tool c of
     None \<Rightarrow> c
   | Some tool \<Rightarrow> if rungId = [] then c else apply_op (place_mutation tool rungId idx) c)"

subsection \<open>Parallel branches\<close>

definition branch_at :: "ld_graph \<Rightarrow> string \<Rightarrow> string \<Rightarrow> branch option" where
  "branch_at g rungId anchor = (case List.find (\<lambda>r. rid r = rungId) (rungs g) of
     None \<Rightarrow> None | Some r \<Rightarrow> List.find (\<lambda>b. anchorId b = anchor) (rung_branches r))"

definition enter_branch :: "branch \<Rightarrow> string \<Rightarrow> string \<Rightarrow> ld_canvas \<Rightarrow> ld_canvas" where
  "enter_branch b rungId msg c = setStatus msg (setTool None (c\<lparr>cv_branch := Some (bid b, rungId)\<rparr>))"

definition reopened_msg :: string where
  "reopened_msg = ''Branch reopened '' @ em_dash @ '' click a green marker below a contact, then Close/Cancel''"

definition opened_msg :: string where
  "opened_msg = ''Branch open '' @ em_dash @ '' click a green marker below a contact, then Close Branch''"

definition openBranchAt :: "string \<Rightarrow> string \<Rightarrow> ld_canvas \<Rightarrow> ld_canvas" where
  "openBranchAt anchor rungId c = (case branch_at (cv_graph c) rungId anchor of
     Some b \<Rightarrow> enter_branch b rungId reopened_msg c
   | None \<Rightarrow> (case tryApply (\<lambda>g s. openBranch g rungId anchor s) c of
       (None, c') \<Rightarrow> c'
     | (Some g, c') \<Rightarrow> (case branch_at g rungId anchor of
         None \<Rightarrow> c' | Some b \<Rightarrow> enter_branch b rungId opened_msg c')))"

text \<open>The type of the first member: the pending contact tool, else the type of the anchor.\<close>

definition first_member_type :: "ld_tool option \<Rightarrow> ld_graph \<Rightarrow> string \<Rightarrow> contact_type option" where
  "first_member_type tool g anchor = (case tool of
     Some (ContactTool t) \<Rightarrow> Some t
   | _ \<Rightarrow> (case map_option ndata (findNode g anchor) of Some (Contact t v k) \<Rightarrow> Some t | _ \<Rightarrow> None))"

definition openBranchFromMarker :: "string \<Rightarrow> string \<Rightarrow> ld_canvas \<Rightarrow> ld_canvas" where
  "openBranchFromMarker contactId rungId c = (case branch_at (cv_graph c) rungId contactId of
     Some b \<Rightarrow> enter_branch b rungId reopened_msg c
   | None \<Rightarrow> (case tryApply (\<lambda>g s. openBranch g rungId contactId s) c of
       (None, c') \<Rightarrow> c'
     | (Some g, c') \<Rightarrow> (case branch_at g rungId contactId of
         None \<Rightarrow> c'
       | Some b \<Rightarrow> enter_branch b rungId opened_msg
           (apply_op (\<lambda>g' s. addBranchContact g' (bid b) (first_member_type (cv_tool c) g contactId) s) c'))))"

definition click_branch_slot :: "string \<Rightarrow> ld_canvas \<Rightarrow> ld_canvas" where
  "click_branch_slot rungId c = (case cv_branch c of
     None \<Rightarrow> c
   | Some (b, r) \<Rightarrow> if rungId \<noteq> r then c
      else (case tryApply (\<lambda>g s. addBranchContact g b None s) c of
          (None, c') \<Rightarrow> c'
        | (Some g, c') \<Rightarrow> setStatus (''Contact added to branch '' @ em_dash @ '' add more or Close Branch'') c'))"

definition closeBranch_ui :: "ld_canvas \<Rightarrow> ld_canvas" where
  "closeBranch_ui c = (case cv_branch c of
     None \<Rightarrow> c
   | Some (b, r) \<Rightarrow> (case tryApply (\<lambda>g s. closeBranch g b s) c of
       (None, c') \<Rightarrow> c'
     | (Some g, c') \<Rightarrow> setStatus ''Branch closed (OR logic)'' (c'\<lparr>cv_branch := None\<rparr>)))"

definition cancelBranch_ui :: "ld_canvas \<Rightarrow> ld_canvas" where
  "cancelBranch_ui c = (case cv_branch c of
     None \<Rightarrow> c
   | Some (b, r) \<Rightarrow> setStatus ''Branch cancelled''
       ((apply_op (\<lambda>g s. deleteBranch g b s) c)\<lparr>cv_branch := None\<rparr>))"

subsection \<open>Undo, clipboard and rungs\<close>

definition undo_ui :: "ld_canvas \<Rightarrow> ld_canvas" where
  "undo_ui c = (case ld_undo (cv_state c) (cv_gen c) :: (ld_error state_error + ld_graph option) \<times> ld_state \<times> idgen of
     (Inr (Some g), st, s) \<Rightarrow> c\<lparr>cv_state := st, cv_gen := s, cv_graph := g\<rparr>
   | (_, st, s) \<Rightarrow> c\<lparr>cv_state := st, cv_gen := s\<rparr>)"

definition redo_ui :: "ld_canvas \<Rightarrow> ld_canvas" where
  "redo_ui c = (case ld_redo (cv_state c) (cv_gen c) :: (ld_error state_error + ld_graph option) \<times> ld_state \<times> idgen of
     (Inr (Some g), st, s) \<Rightarrow> c\<lparr>cv_state := st, cv_gen := s, cv_graph := g\<rparr>
   | (_, st, s) \<Rightarrow> c\<lparr>cv_state := st, cv_gen := s\<rparr>)"

definition copyable :: "(string \<times> flow_type) option \<Rightarrow> string option" where
  "copyable sel = (case sel of None \<Rightarrow> None
     | Some (i, t) \<Rightarrow> if t = RF_RUNG \<or> t = RF_RAIL then None else Some i)"

definition doCopy :: "ld_canvas \<Rightarrow> ld_canvas" where
  "doCopy c = (case copyable (cv_sel c) of
     None \<Rightarrow> c\<lparr>cv_clipStatus := ''Copy: select a contact, coil or FB''\<rparr>
   | Some i \<Rightarrow> c\<lparr>cv_clip := [i], cv_clipStatus := ''Copied''\<rparr>)"

text \<open>The target rung and slot of a paste; the last case is \<open>graph.rungs[0]?.id\<close>.\<close>

definition MAX_SAFE_INTEGER :: int where
  "MAX_SAFE_INTEGER = 9007199254740991"

definition paste_target :: "ld_graph \<Rightarrow> (string \<times> flow_type) option \<Rightarrow> string option \<times> int" where
  "paste_target g sel =
     (let (rungId, idx) = (case sel of
          None \<Rightarrow> (None, MAX_SAFE_INTEGER)
        | Some (i, t) \<Rightarrow>
           if t = RF_RUNG then (Some i, (case List.find (\<lambda>r. rid r = i) (rungs g) of
              None \<Rightarrow> 0 | Some r \<Rightarrow> int (length (elementIds r))))
           else (case List.find (\<lambda>r. i \<in> set (elementIds r)) (rungs g) of
              None \<Rightarrow> (None, MAX_SAFE_INTEGER)
            | Some r \<Rightarrow> (Some (rid r), (case indexOf (elementIds r) i of
                Some k \<Rightarrow> int k + 1 | None \<Rightarrow> int (length (elementIds r))))))
      in if truthy_id rungId then (rungId, idx)
         else ((case rungs g of [] \<Rightarrow> None | r # rs \<Rightarrow> Some (rid r)), 0))"

text \<open>Without any rung \<open>rungId\<close> is undefined and \<open>pasteElements\<close> throws on it.\<close>

definition doPaste :: "ld_canvas \<Rightarrow> ld_canvas" where
  "doPaste c = (if cv_clip c = [] then c\<lparr>cv_clipStatus := ''Paste: nothing copied''\<rparr>
     else (let (rungId, idx) = paste_target (cv_graph c) (cv_sel c)
           in (apply_op (\<lambda>g s. pasteElements g (cv_clip c) (opt_or rungId ''undefined'') idx s) c)
             \<lparr>cv_clipStatus := ''Pasted''\<rparr>))"

definition doCut :: "ld_canvas \<Rightarrow> ld_canvas" where
  "doCut c = (case copyable (cv_sel c) of
     None \<Rightarrow> c\<lparr>cv_clipStatus := ''Cut: select a contact, coil or FB''\<rparr>
   | Some i \<Rightarrow> (apply_op (\<lambda>g s. deleteElement g i s) (c\<lparr>cv_clip := [i]\<rparr>))\<lparr>cv_clipStatus := ''Cut''\<rparr>)"

definition addRung_ui :: "ld_canvas \<Rightarrow> ld_canvas" where
  "addRung_ui = apply_op addRung"

subsection \<open>Deleting and dragging\<close>

fun delete_nodes :: "string list \<Rightarrow> mutation" where
  "delete_nodes [] g s = ok (g, s)"
| "delete_nodes (i # is) g s = then_op (\<lambda>g s. deleteElement g i s) (delete_nodes is) g s"

fun disconnect_left :: "string list \<Rightarrow> mutation" where
  "disconnect_left [] g s = ok (g, s)"
| "disconnect_left (e # es) g s =
     (if \<exists>w \<in> set (edges g). eid w = e
      then then_op (\<lambda>g s. disconnectWire g e s) (disconnect_left es) g s
      else disconnect_left es g s)"

definition onDelete :: "string list \<Rightarrow> string list \<Rightarrow> ld_canvas \<Rightarrow> ld_canvas" where
  "onDelete ns es = apply_op (then_op (delete_nodes ns) (disconnect_left es))"

datatype drag_target = BranchMarkerTarget string string | ReplaceTarget string

definition DRAG_REPLACE_SLOT_RANGE :: jsnum where
  "DRAG_REPLACE_SLOT_RANGE = 20"

text \<open>
  The target of a drop at \<open>x\<close>: the last hovered one if the drop is within half a slot of where it
  is drawn (\<open>anchorX\<close>, \<open>None\<close> for NaN), else what is under the node, else the last frame's hit.
\<close>

definition drop_target :: "drag_target option \<Rightarrow> jsnum option \<Rightarrow> jsnum \<Rightarrow> drag_target option \<Rightarrow>
    drag_target option \<Rightarrow> drag_target option" where
  "drop_target hovered anchorX x beneath frame =
     (let t1 = (case (hovered, anchorX) of
          (Some t, Some a) \<Rightarrow> if \<bar>x - a\<bar> \<le> DRAG_REPLACE_SLOT_RANGE then Some t else None
        | _ \<Rightarrow> None);
          t2 = (if t1 = None then beneath else t1)
      in if t2 = None then frame else t2)"

definition reorder_at :: "string \<Rightarrow> string \<Rightarrow> jsnum \<Rightarrow> mutation" where
  "reorder_at i rungId x g s = (case List.find (\<lambda>r. rid r = rungId) (rungs g) of
     None \<Rightarrow> ok (g, s)
   | Some r \<Rightarrow> reorderElement g i (int (findInsertIndex g r x)) s)"

definition replace_by :: "string \<Rightarrow> ld_node \<Rightarrow> mutation" where
  "replace_by target src = then_op (\<lambda>g s. replaceElement g target src s) (\<lambda>g s. deleteElement g (nid src) s)"

definition element_type :: "flow_type \<Rightarrow> bool" where
  "element_type t \<longleftrightarrow> t = RF_CONTACT \<or> t = RF_FB \<or> t = RF_COIL"

definition onNodeDragStop ::
  "string \<Rightarrow> flow_type \<Rightarrow> string \<Rightarrow> jsnum \<Rightarrow> drag_target option \<Rightarrow> ld_canvas \<Rightarrow> ld_canvas" where
  "onNodeDragStop i t parent x target c = (case target of
     Some (BranchMarkerTarget contactId rungId) \<Rightarrow> openBranchFromMarker contactId rungId c
   | _ \<Rightarrow>
      if \<not> element_type t then c
      else (case target of
          Some (ReplaceTarget j) \<Rightarrow>
            if j \<noteq> [] \<and> j \<noteq> i then (case findNode (cv_graph c) i of
                None \<Rightarrow> c
              | Some src \<Rightarrow> setStatus ''Element replaced'' (apply_op (replace_by j src) c))
            else if parent = [] then c else apply_op (reorder_at i parent x) c
        | _ \<Rightarrow> if parent = [] then c else apply_op (reorder_at i parent x) c))"

subsection \<open>Selection and the property view\<close>

text \<open>A coil without a type is shown as a normal one.\<close>

definition shown_coil :: "coil_type \<Rightarrow> coil_type" where
  "shown_coil t = (if t = NoCoilType then Normal else t)"

definition toSelectedElement :: "ld_graph \<Rightarrow> flow_node \<Rightarrow> selected_element option" where
  "toSelectedElement g f =
     (let p = (case findNode g (fid f) of None \<Rightarrow> fpos f | Some n \<Rightarrow> npos n)
      in case fdata f of
          ContactData ct v k h \<Rightarrow> Some (SelContact (fid f) v ct k p)
        | CoilData ct v k \<Rightarrow> Some (SelCoil (fid f) v (shown_coil ct) k p)
        | FbData ft i out \<Rightarrow> Some (SelFb (fid f) ft p)
        | RungData n k ti \<Rightarrow> (case List.find (\<lambda>r. rid r = fid f) (rungs g) of
            None \<Rightarrow> None
          | Some r \<Rightarrow> Some (SelRung (rid r) (rungNumber r) (opt_or (rcomment r) []) (opt_or (rtitle r) [])))
        | RailData sd h rows \<Rightarrow> Some (SelRail (fid f) sd p)
        | _ \<Rightarrow> None)"

text \<open>\<open>LdPropertyState.selectElement\<close>: selecting what is selected changes nothing.\<close>

definition selectElement :: "selected_element \<Rightarrow> selected_element option \<Rightarrow> selected_element option" where
  "selectElement el cur = (if map_option selected_id cur = Some (selected_id el) then cur else Some el)"

definition onSelectionChange :: "flow_node list \<Rightarrow> flow_edge list \<Rightarrow> ld_canvas \<Rightarrow> ld_canvas" where
  "onSelectionChange ns es c =
     (let c1 = c\<lparr>cv_sel := (case ns of [n] \<Rightarrow> Some (fid n, flow_type_of (fdata n)) | _ \<Rightarrow> None)\<rparr>;
          el = (case ns of n # _ \<Rightarrow> toSelectedElement (cv_graph c) n
            | [] \<Rightarrow> (case es of e # _ \<Rightarrow> Some (SelWire (feid e) (fsource e) (ftarget e)) | [] \<Rightarrow> None))
      in case el of None \<Rightarrow> c1\<lparr>cv_prop := None\<rparr>
         | Some x \<Rightarrow> c1\<lparr>cv_prop := selectElement x (cv_prop c)\<rparr>)"

text \<open>
  The property edits of the view. The type of a block is patched into the node as it is; on a
  node of another kind the field is not part of the typed document.
\<close>

fun set_fbType :: "string \<Rightarrow> node_data \<Rightarrow> node_data" where
  "set_fbType f (FbBox f' i out) = FbBox f i out" | "set_fbType f d = d"

definition patch_fbType :: "string \<Rightarrow> string \<Rightarrow> mutation" where
  "patch_fbType i v g s = (case findIndex (\<lambda>n. nid n = i) (nodes g) of
     None \<Rightarrow> ok (g, s)
   | Some k \<Rightarrow> ok (set_node i (update_data (set_fbType v)) (cloneGraph g), s))"

definition property_mutation :: "string \<Rightarrow> string \<Rightarrow> string \<Rightarrow> mutation" where
  "property_mutation i property v =
     (if property = ''contactType'' then (\<lambda>g s. changeContactType g i (contact_type_of v) s)
      else if property = ''variableName'' then (\<lambda>g s. renameVariable g i v s)
      else if property = ''comment'' then
        (\<lambda>g s. if \<exists>r \<in> set (rungs g). rid r = i then setRungComment g i v s else setElementComment g i v s)
      else if property = ''title'' then (\<lambda>g s. setRungTitle g i v s)
      else if property = ''coilType'' then (\<lambda>g s. changeCoilType g i (coil_type_of v) s)
      else patch_fbType i v)"

text \<open>\<open>handlePropertyChange\<close> of the form: the edit goes to the element the form shows.\<close>

definition property_edit :: "string \<Rightarrow> string \<Rightarrow> ld_canvas \<Rightarrow> ld_canvas" where
  "property_edit property v c = (case cv_prop c of None \<Rightarrow> c
     | Some el \<Rightarrow> apply_op (property_mutation (selected_id el) property v) c)"

text \<open>The text a form's field shows.\<close>

fun shown_field :: "selected_element \<Rightarrow> string \<Rightarrow> string" where
  "shown_field (SelContact i v t k p) f = (if f = ''variableName'' then v else k)"
| "shown_field (SelCoil i v t k p) f = (if f = ''variableName'' then v else k)"
| "shown_field (SelFb i ft p) f = ft"
| "shown_field (SelRung i n k ti) f = (if f = ''title'' then ti else k)"
| "shown_field (SelWire i a b) f = []"
| "shown_field (SelRail i sd p) f = []"

definition type_char :: "string \<Rightarrow> char \<Rightarrow> ld_canvas \<Rightarrow> ld_canvas" where
  "type_char f ch c = (case cv_prop c of None \<Rightarrow> c
     | Some el \<Rightarrow> property_edit f (shown_field el f @ [ch]) c)"

subsection \<open>The context menu\<close>

datatype menu_action =
    MRename string string
  | MContactType string string
  | MCoilType string string
  | MDelete string
  | MCopy string
  | MCrossRef string
  | MOpenBranch string
  | MCloseBranch string
  | MInsertNetwork
  | MUndo
  | MRedo
  | MPaste
  | MOutcomment string
  | MAddParallelBranch string

datatype menu_item = MItem string menu_action | MSub string "menu_item list" | MSep

datatype menu =
    ContactMenu string string contact_type
  | CoilMenu string string coil_type
  | EdgeMenu string string
  | RungMenu string
  | PaneMenu

definition buildItems :: "menu \<Rightarrow> menu_item list" where
  "buildItems m = (case m of
     ContactMenu i v t \<Rightarrow>
       [MSub ''Edit'' [MItem ''Rename'' (MRename i v),
          MItem ''Negate'' (MContactType i (if t = NC then ''NO'' else ''NC'')),
          MSub ''Edge Detection'' [MItem ''Rising Edge (P)'' (MContactType i ''P''),
            MItem ''Falling Edge (N)'' (MContactType i ''N'')]],
        MSep, MItem ''Delete'' (MDelete i), MItem ''Copy'' (MCopy i),
        MSep, MItem ''Cross Reference'' (MCrossRef v)]
   | CoilMenu i v t \<Rightarrow>
       [MSub ''Edit'' [MItem ''Rename'' (MRename i v),
          MItem ''Negate'' (MCoilType i (if t = Negated then ''Normal'' else ''Negated'')),
          MItem ''Set'' (MCoilType i ''Set''), MItem ''Reset'' (MCoilType i ''Reset'')],
        MSep, MItem ''Delete'' (MDelete i), MItem ''Copy'' (MCopy i),
        MSep, MItem ''Cross Reference'' (MCrossRef v)]
   | RungMenu r \<Rightarrow>
       [MItem ''Open Branch'' (MOpenBranch r), MItem ''Close Branch'' (MCloseBranch r),
        MSep, MItem ''Insert Network'' MInsertNetwork, MItem ''Delete'' (MDelete r),
        MSep, MItem ''Outcommented'' (MOutcomment r)]
   | EdgeMenu e v \<Rightarrow>
       [MItem ''Add Parallel Branch'' (MAddParallelBranch e),
        MSep, MItem ''Delete'' (MDelete e), MSep, MItem ''Cross Reference'' (MCrossRef v)]
   | PaneMenu \<Rightarrow>
       [MItem ''Undo'' MUndo, MItem ''Redo'' MRedo, MSep, MItem ''Paste'' MPaste,
        MSep, MItem ''Insert Network'' MInsertNetwork])"

text \<open>\<open>[...rung.elementIds].reverse().find((id) => !coilIds.has(id))\<close>\<close>

definition branch_anchor :: "ld_graph \<Rightarrow> rung \<Rightarrow> string option" where
  "branch_anchor g r = List.find (\<lambda>i. i \<notin> nid ` {n \<in> set (nodes g). is_coil (ndata n)}) (rev (elementIds r))"

definition run_menu :: "menu_action \<Rightarrow> string option \<Rightarrow> ld_canvas \<Rightarrow> ld_canvas" where
  "run_menu a answer c = (case a of
     MRename i v \<Rightarrow> if truthy_id answer then apply_op (\<lambda>g s. renameVariable g i (the answer) s) c else c
   | MContactType i t \<Rightarrow> apply_op (\<lambda>g s. changeContactType g i (contact_type_of t) s) c
   | MCoilType i t \<Rightarrow> apply_op (\<lambda>g s. changeCoilType g i (coil_type_of t) s) c
   | MDelete i \<Rightarrow> apply_op (\<lambda>g s. deleteElement g i s) c
   | MCopy i \<Rightarrow> c\<lparr>cv_clip := [i], cv_clipStatus := ''Copied''\<rparr>
   | MCrossRef v \<Rightarrow> c
   | MOpenBranch rungId \<Rightarrow> (case List.find (\<lambda>r. rid r = rungId) (rungs (cv_graph c)) of
       None \<Rightarrow> c
     | Some r \<Rightarrow> if \<not> truthy_id (branch_anchor (cv_graph c) r)
         then setStatus ''Open Branch: the rung has no contact to anchor on'' c
         else openBranchFromMarker (the (branch_anchor (cv_graph c) r)) rungId c)
   | MCloseBranch rungId \<Rightarrow>
       (case List.find (\<lambda>r. rid r = rungId) (rungs (cv_graph c)) of
          None \<Rightarrow> setStatus ''Close Branch: no open branch on this rung'' c
        | Some r \<Rightarrow> (case List.find (\<lambda>b. members b \<noteq> []) (rung_branches r) of
            None \<Rightarrow> setStatus ''Close Branch: no open branch on this rung'' c
          | Some b \<Rightarrow> setStatus ''Branch closed (OR logic)'' (apply_op (\<lambda>g s. closeBranch g (bid b) s) c)))
   | MInsertNetwork \<Rightarrow> addRung_ui c
   | MUndo \<Rightarrow> undo_ui c
   | MRedo \<Rightarrow> redo_ui c
   | MPaste \<Rightarrow> doPaste c
   | MOutcomment rungId \<Rightarrow> setStatus (''Outcommented '' @ em_dash @ '' not yet in the model'') c
   | MAddParallelBranch e \<Rightarrow> (case findEdge (cv_graph c) e of
       None \<Rightarrow> c
     | Some w \<Rightarrow> (case List.find (\<lambda>r. sourceId w \<in> set (elementIds r)) (rungs (cv_graph c)) of
         None \<Rightarrow> setStatus ''Add Parallel Branch: wire source is not on a rung'' c
       | Some r \<Rightarrow> openBranchFromMarker (sourceId w) (rid r) c)))"

subsection \<open>All user actions\<close>

datatype canvas_event =
    PickTool ld_tool
  | ClickSlot string nat
  | ClickBranchSlot string
  | ClickNode string flow_type "string option"
  | ClickPane
  | ClickBranchMarker string string
  | CloseBranchButton
  | CancelBranchButton
  | UndoKey
  | RedoKey
  | AddRungButton
  | SelectionChange "flow_node list" "flow_edge list"
  | CopyKey
  | PasteKey
  | CutKey
  | FieldKey bool bool \<comment> \<open>Enter or Tab, with Shift\<close>
  | EscapeKey
  | DragStop string flow_type string jsnum "drag_target option"
  | DeleteKey "string list" "string list"
  | EditName string string
  | EditContactType string string
  | EditCoilType string string
  | EditRungTitle string string
  | EditRungComment string string
  | EditElementComment string string
  | PropertyEdit string string
  | RunMenu menu_action "string option"
  | SavedDocument

definition click_node :: "string \<Rightarrow> flow_type \<Rightarrow> string option \<Rightarrow> ld_canvas \<Rightarrow> ld_canvas" where
  "click_node i t parent c = (case cv_tool c of
     None \<Rightarrow> c
   | Some BranchTool \<Rightarrow>
       if t \<noteq> RF_CONTACT \<or> \<not> truthy_id parent then setStatus ''Open Branch: click a contact on the rung'' c
       else if cv_branch c \<noteq> None then
         setStatus (''A branch is already open '' @ em_dash @ '' Close or Cancel it before opening another'') c
       else openBranchAt i (the parent) c
   | Some _ \<Rightarrow> setStatus ''Click a diamond marker to place the element'' c)"

definition click_pane :: "ld_canvas \<Rightarrow> ld_canvas" where
  "click_pane c = (if cv_branch c \<noteq> None
     then setStatus ''Branch members are added via the green markers below the anchor'' c
     else if cv_tool c \<noteq> None then setStatus [] (setTool None c) else c)"

text \<open>Tab, Shift+Tab and Enter on the selected element.\<close>

definition next_field :: "bool \<Rightarrow> bool \<Rightarrow> string list \<Rightarrow> string option \<Rightarrow> nat" where
  "next_field enter shift flds cur =
     (let k = (case cur of None \<Rightarrow> - 1 | Some f \<Rightarrow> (case indexOf flds f of None \<Rightarrow> - 1 | Some k \<Rightarrow> int k))
      in if enter then nat (if k \<ge> 0 then k else 0)
         else nat ((k + (if shift then - 1 else 1) + int (length flds)) mod int (length flds)))"

definition field_key :: "bool \<Rightarrow> bool \<Rightarrow> ld_canvas \<Rightarrow> ld_canvas" where
  "field_key enter shift c = (case cv_sel c of
     None \<Rightarrow> c
   | Some (i, t) \<Rightarrow>
      (let flds = editableFieldsFor t;
           cur = (case cv_edit c of None \<Rightarrow> None | Some (j, f, q) \<Rightarrow> if j = i then Some f else None)
       in if flds = [] then c
          else c\<lparr>cv_editSeq := cv_editSeq c + 1,
                 cv_edit := Some (i, flds ! next_field enter shift flds cur, cv_editSeq c + 1)\<rparr>))"

fun canvas_step :: "canvas_event \<Rightarrow> ld_canvas \<Rightarrow> ld_canvas" where
  "canvas_step (PickTool t) c = setTool (if cv_tool c = Some t then None else Some t) c"
| "canvas_step (ClickSlot r k) c = click_slot r k c"
| "canvas_step (ClickBranchSlot r) c = click_branch_slot r c"
| "canvas_step (ClickNode i t p) c = click_node i t p c"
| "canvas_step ClickPane c = click_pane c"
| "canvas_step (ClickBranchMarker i r) c = openBranchFromMarker i r c"
| "canvas_step CloseBranchButton c = closeBranch_ui c"
| "canvas_step CancelBranchButton c = cancelBranch_ui c"
| "canvas_step UndoKey c = undo_ui c"
| "canvas_step RedoKey c = redo_ui c"
| "canvas_step AddRungButton c = addRung_ui c"
| "canvas_step (SelectionChange ns es) c = onSelectionChange ns es c"
| "canvas_step CopyKey c = doCopy c"
| "canvas_step PasteKey c = doPaste c"
| "canvas_step CutKey c = doCut c"
| "canvas_step (FieldKey en sh) c = field_key en sh c"
| "canvas_step EscapeKey c = c\<lparr>cv_edit := None\<rparr>"
| "canvas_step (DragStop i t p x tgt) c = onNodeDragStop i t p x tgt c"
| "canvas_step (DeleteKey ns es) c = onDelete ns es c"
| "canvas_step (EditName i v) c = apply_op (\<lambda>g s. renameVariable g i v s) c"
| "canvas_step (EditContactType i t) c = apply_op (\<lambda>g s. changeContactType g i (contact_type_of t) s) c"
| "canvas_step (EditCoilType i t) c = apply_op (\<lambda>g s. changeCoilType g i (coil_type_of t) s) c"
| "canvas_step (EditRungTitle r v) c = apply_op (\<lambda>g s. setRungTitle g r v s) c"
| "canvas_step (EditRungComment r v) c = apply_op (\<lambda>g s. setRungComment g r v s) c"
| "canvas_step (EditElementComment i v) c = apply_op (\<lambda>g s. setElementComment g i v s) c"
| "canvas_step (PropertyEdit f v) c = property_edit f v c"
| "canvas_step (RunMenu a answer) c = run_menu a answer c"
| "canvas_step SavedDocument c = c\<lparr>cv_state := ld_markClean (cv_state c)\<rparr>"

definition canvas_run :: "canvas_event list \<Rightarrow> ld_canvas \<Rightarrow> ld_canvas" where
  "canvas_run es c = fold canvas_step es c"

end
