(* ===== verification/LdSession.thy ===== *)
theory LdSession
  imports LdCanvas
begin

text \<open>
  The invariant of the canvas: it shows the current document of its undo history, and every
  document of the history is well-formed, drawn completely, and has only ids older than the id
  generator. Every user action keeps it.
\<close>

lemma session_ok_later: "session_ok (g, s) \<Longrightarrow> later s s' \<Longrightarrow> session_ok (g, s')"
  by (auto simp: session_ok_def ld_good_def ld_inv_def fresh_for_def later_def)

interpretation ld_ui: undo_session ld_rep ld_state_graph ld_applyOperation ld_undo ld_redo ld_markClean
    "MutationError :: ld_error \<Rightarrow> ld_error state_error" session_ok later
  by unfold_locales
    (auto simp: ld_rep_graph ld_rep_throw ld_rep_undo ld_rep_redo intro: ld_rep_apply session_ok_later later_trans,
     simp add: ld_rep_def ld_markClean_def tl_clean_def)

definition canvas_ok :: "ld_canvas \<Rightarrow> bool" where
  "canvas_ok c \<longleftrightarrow> kept ld_rep session_ok (cv_state c) (cv_gen c) (cv_graph c)"

lemma canvas_okE:
  assumes "canvas_ok c"
  obtains t where "ld_rep (cv_state c) t" "tl_bounded t" "cv_graph c = present t"
    "\<And>g. g \<in> tl_docs t \<Longrightarrow> session_ok (g, cv_gen c)"
  using assms unfolding canvas_ok_def kept_def by blast

lemma canvas_ok_fields [simp]:
  "canvas_ok (c\<lparr>cv_tool := a\<rparr>) = canvas_ok c" "canvas_ok (c\<lparr>cv_branch := b\<rparr>) = canvas_ok c"
  "canvas_ok (c\<lparr>cv_status := d\<rparr>) = canvas_ok c" "canvas_ok (c\<lparr>cv_sel := e\<rparr>) = canvas_ok c"
  "canvas_ok (c\<lparr>cv_clip := f\<rparr>) = canvas_ok c" "canvas_ok (c\<lparr>cv_clipStatus := h\<rparr>) = canvas_ok c"
  "canvas_ok (c\<lparr>cv_edit := i\<rparr>) = canvas_ok c" "canvas_ok (c\<lparr>cv_editSeq := j\<rparr>) = canvas_ok c"
  "canvas_ok (c\<lparr>cv_prop := k\<rparr>) = canvas_ok c"
  "canvas_ok (setStatus d c) = canvas_ok c" "canvas_ok (setTool a c) = canvas_ok c"
  "canvas_ok (enter_branch br r d c) = canvas_ok c"
  by (simp_all add: canvas_ok_def setStatus_def setTool_def enter_branch_def)

subsection \<open>Mutations that keep a session\<close>

abbreviation safe_mutation :: "mutation \<Rightarrow> bool" where
  "safe_mutation \<equiv> safe_for session_ok later"

lemma safe_run_op:
  assumes "\<And>i. op \<noteq> DeleteRung i"
  shows "safe_mutation (run_op op)"
  unfolding safe_for_def
proof (intro allI impI)
  fix g s r s'
  assume ok: "session_ok (g, s)" and run: "run_op op g s = (r, s')"
  show "later s s' \<and> (\<forall>g'. r = Inr g' \<longrightarrow> session_ok (g', s'))"
  proof (cases r)
    case (Inl e)
    with run run_op_throw show ?thesis by fastforce
  next
    case (Inr g')
    with run have "later s s'" using run_op_evolves by (fastforce simp: evolves_def)
    with Inr run ok ld_view_ed.exec_good assms show ?thesis by (fastforce simp: keeps_rungs_def)
  qed
qed

lemma safe_as:
  "(\<And>i. op \<noteq> DeleteRung i) \<Longrightarrow> (\<And>g s. run_op op g s = m g s) \<Longrightarrow> safe_mutation m"
  using safe_run_op [of op] by (metis ext)

lemma safe_handler:
  "safe_mutation (\<lambda>g s. addContact g p s)" "safe_mutation (\<lambda>g s. addCoil g ct rg s)"
  "safe_mutation (\<lambda>g s. addFb g q s)" "safe_mutation (\<lambda>g s. deleteElement g i s)"
  "safe_mutation (\<lambda>g s. reorderElement g i k s)" "safe_mutation (\<lambda>g s. disconnectWire g i s)"
  "safe_mutation (\<lambda>g s. changeCoilType g i ct s)" "safe_mutation (\<lambda>g s. changeContactType g i t s)"
  "safe_mutation (\<lambda>g s. setRungTitle g i x s)" "safe_mutation (\<lambda>g s. setRungComment g i x s)"
  "safe_mutation (\<lambda>g s. setElementComment g i x s)" "safe_mutation (\<lambda>g s. renameVariable g i x s)"
  "safe_mutation addRung" "safe_mutation (\<lambda>g s. openBranch g rg i s)"
  "safe_mutation (\<lambda>g s. addBranchContact g i mt s)" "safe_mutation (\<lambda>g s. closeBranch g i s)"
  "safe_mutation (\<lambda>g s. deleteBranch g i s)" "safe_mutation (\<lambda>g s. pasteElements g ids rg k s)"
  "safe_mutation (\<lambda>g s. replaceElement g i n s)"
  subgoal by (rule safe_as [of "AddContact p"]) simp_all
  subgoal by (rule safe_as [of "AddCoil ct rg"]) simp_all
  subgoal by (rule safe_as [of "AddFb q"]) simp_all
  subgoal by (rule safe_as [of "DeleteElement i"]) simp_all
  subgoal by (rule safe_as [of "ReorderElement i k"]) simp_all
  subgoal by (rule safe_as [of "DisconnectWire i"]) simp_all
  subgoal by (rule safe_as [of "ChangeCoilType i ct"]) simp_all
  subgoal by (rule safe_as [of "ChangeContactType i t"]) simp_all
  subgoal by (rule safe_as [of "SetRungTitle i x"]) simp_all
  subgoal by (rule safe_as [of "SetRungComment i x"]) simp_all
  subgoal by (rule safe_as [of "SetElementComment i x"]) simp_all
  subgoal by (rule safe_as [of "RenameVariable i x"]) simp_all
  subgoal by (rule safe_as [of "AddRung"]) simp_all
  subgoal by (rule safe_as [of "OpenBranch rg i"]) simp_all
  subgoal by (rule safe_as [of "AddBranchContact i mt"]) simp_all
  subgoal by (rule safe_as [of "CloseBranch i"]) simp_all
  subgoal by (rule safe_as [of "DeleteBranch i"]) simp_all
  subgoal by (rule safe_as [of "PasteElements ids rg k"]) simp_all
  subgoal by (rule safe_as [of "ReplaceElement i n"]) simp_all
  done

lemma safe_ok: "safe_mutation (\<lambda>g s. ok (g, s))"
  by (simp add: safe_for_def ok_def)

lemmas safe_then = ld_ui.safe_then

lemmas safe_if = safe_for_if [of _ session_ok later]

lemma safe_delete_nodes: "safe_mutation (delete_nodes is)"
proof (induction "is")
  case (Cons i "is")
  have "delete_nodes (i # is) = then_op (\<lambda>g s. deleteElement g i s) (delete_nodes is)"
    by (simp add: fun_eq_iff)
  then show ?case using safe_then [OF safe_handler(4) Cons.IH] by simp
qed (simp add: safe_for_def ok_def)

lemma safe_disconnect: "safe_mutation (disconnect_left es)"
proof (induction es)
  case (Cons e es)
  have "disconnect_left (e # es) = (\<lambda>g s. if \<exists>w \<in> set (edges g). eid w = e
      then then_op (\<lambda>g s. disconnectWire g e s) (disconnect_left es) g s else disconnect_left es g s)"
    by (simp add: fun_eq_iff)
  then show ?case
    using safe_if [of "\<lambda>g. \<exists>w \<in> set (edges g). eid w = e" "\<lambda>g. then_op (\<lambda>g s. disconnectWire g e s) (disconnect_left es)"
        "\<lambda>g. disconnect_left es"] safe_then [OF safe_handler(6) Cons.IH] Cons.IH by simp
qed (simp add: safe_for_def ok_def)

lemma safe_ensure: "safe_mutation ensure_rung"
proof -
  have "ensure_rung = (\<lambda>g s. if rungs g = [] then addRung g s else ok (g, s))"
    by (simp add: fun_eq_iff ensure_rung_def)
  then show ?thesis
    using safe_if [of "\<lambda>g. rungs g = []" "\<lambda>g. addRung" "\<lambda>g g s. ok (g, s)"] safe_handler(13) safe_ok by simp
qed

lemma safe_place: "safe_mutation (place_mutation tool rungId k)"
  unfolding place_mutation_def
  by (intro safe_then safe_ensure) (cases tool; simp add: safe_handler)

lemma safe_reorder_at: "safe_mutation (reorder_at i r x)"
  unfolding safe_for_def
proof (intro allI impI)
  fix g s res s'
  assume ok: "session_ok (g, s)" and run: "reorder_at i r x g s = (res, s')"
  consider "(res, s') = ok (g, s)" | k where "reorderElement g i k s = (res, s')"
    using run by (auto simp: reorder_at_def split: option.splits)
  then show "later s s' \<and> (\<forall>g'. res = Inr g' \<longrightarrow> session_ok (g', s'))"
  proof cases
    case (2 k)
    with ok safe_handler(5) [of i k] show ?thesis unfolding safe_for_def by blast
  qed (use ok in \<open>auto simp: ok_def\<close>)
qed

lemma set_fbType_kind: "same_kind n (update_data (set_fbType v) n)"
  by (cases "ndata n") (simp_all add: same_kind_def update_data_def)

lemma safe_patch: "safe_mutation (patch_fbType i v)"
  unfolding safe_for_def
proof (intro allI impI)
  fix g s r s'
  assume ok: "session_ok (g, s)" and run: "patch_fbType i v g s = (r, s')"
  have "(r, s') = (Inr g, s) \<or> (r, s') = (Inr (set_node i (update_data (set_fbType v)) g), s)"
    using run by (auto simp: patch_fbType_def ok_def split: option.splits)
  moreover have "session_ok (set_node i (update_data (set_fbType v)) g, s)"
  proof -
    have good: "ld_inv (g, s)" "owned g" "viewable g" using ok by (simp_all add: session_ok_def ld_good_def)
    have "keeps g (ok (set_node i (update_data (set_fbType v)) g, s))"
    proof (cases "findNode g i")
      case None
      then have "findIndex (\<lambda>n. nid n = i) (nodes g) = None"
        by (auto simp: findNode_def findIndex_None find_None_iff)
      then have "set_node i (update_data (set_fbType v)) g = g" by (simp add: set_node_def)
      then show ?thesis using good(1) by (simp add: keeps_def ok_def)
    next
      case (Some n)
      then show ?thesis
        by (rule set_node_keeps [OF good(1)])
          (use findNode_SomeD [OF Some] in \<open>cases "ndata n"; simp add: update_data_def\<close>)+
    qed
    then have "ld_good (set_node i (update_data (set_fbType v)) g, s)"
      using good by (auto simp: keeps_def ok_def ld_good_def)
    moreover have "evolves (g, s) (set_node i (update_data (set_fbType v)) g, s)"
      by (rule evolves_set_node) (rule set_fbType_kind)
    from viewable_evolves [OF good(1,3) this] have "viewable (set_node i (update_data (set_fbType v)) g)" .
    ultimately show ?thesis by (simp add: session_ok_def)
  qed
  ultimately show "later s s' \<and> (\<forall>g'. r = Inr g' \<longrightarrow> session_ok (g', s'))" using ok by auto
qed

subsection \<open>Every user action keeps the invariant\<close>

lemma tryApply_ok:
  assumes c: "canvas_ok c" and m: "safe_mutation m" and run: "tryApply m c = (res, c')"
  shows "canvas_ok c' \<and> (case res of Some g \<Rightarrow> cv_graph c' = g | None \<Rightarrow> cv_graph c' = cv_graph c)"
proof -
  obtain r s' where r: "m (cv_graph c) (cv_gen c) = (r, s')" by (rule prod.exhaust)
  note kept = c [unfolded canvas_ok_def]
  show ?thesis
  proof (cases r)
    case (Inl e)
    with ld_ui.kept_app_throws [OF kept _ m] r run show ?thesis by (auto simp: tryApply_def canvas_ok_def)
  next
    case (Inr g')
    with ld_ui.kept_app_returns [OF kept _ m] r run show ?thesis by (fastforce simp: tryApply_def canvas_ok_def)
  qed
qed

text \<open>What a mutation that returns or throws does to the canvas.\<close>

lemma tryApply_returns:
  assumes "canvas_ok c" "m (cv_graph c) (cv_gen c) = (Inr g', s')"
  shows "\<exists>st'. tryApply m c = (Some g', c\<lparr>cv_state := st', cv_gen := s', cv_graph := g', cv_status := []\<rparr>)"
proof -
  from assms(1) obtain t where t: "ld_rep (cv_state c) t" "tl_bounded t" "cv_graph c = present t" by (rule canvas_okE)
  then have "m (present t) (cv_gen c) = (Inr g', s')" using assms(2) by simp
  from ld_rep_apply [where m = m, OF t(1,2) this] show ?thesis by (auto simp: tryApply_def)
qed

lemma tryApply_throws:
  assumes "canvas_ok c" "m (cv_graph c) (cv_gen c) = (Inl (ValidationError msg), s')"
  shows "tryApply m c = (None, c\<lparr>cv_gen := s', cv_status := msg\<rparr>)"
proof -
  from assms(1) obtain t where t: "ld_rep (cv_state c) t" "cv_graph c = present t" by (rule canvas_okE)
  then have "m (present t) (cv_gen c) = (Inl (ValidationError msg), s')" using assms(2) by simp
  from ld_rep_throw [where m = m, OF t(1) this] show ?thesis by (simp add: tryApply_def)
qed

lemma apply_op_graph:
  assumes "canvas_ok c"
  shows "cv_graph (apply_op m c) = (case m (cv_graph c) (cv_gen c) of (Inr g, s) \<Rightarrow> g | (Inl e, s) \<Rightarrow> cv_graph c)"
proof (cases "m (cv_graph c) (cv_gen c)")
  case (Pair r s')
  show ?thesis
  proof (cases r)
    case (Inl e)
    obtain msg where "e = ValidationError msg" by (cases e)
    with Inl Pair tryApply_throws [OF assms, of m msg s'] show ?thesis by (simp add: apply_op_def)
  next
    case (Inr g)
    with Pair tryApply_returns [OF assms, of m g s'] show ?thesis by (auto simp: apply_op_def)
  qed
qed

lemma apply_op_fields [simp]:
  "cv_clip (apply_op m c) = cv_clip c" "cv_prop (apply_op m c) = cv_prop c" "cv_sel (apply_op m c) = cv_sel c"
  "cv_tool (apply_op m c) = cv_tool c" "cv_branch (apply_op m c) = cv_branch c"
  by (simp_all add: apply_op_def tryApply_def split: prod.split sum.split)

lemma apply_ok: "canvas_ok c \<Longrightarrow> safe_mutation m \<Longrightarrow> canvas_ok (apply_op m c)"
  unfolding apply_op_def using tryApply_ok by (metis prod.collapse)

lemma undo_ok:
  assumes "canvas_ok c"
  shows "canvas_ok (undo_ui c)" "canvas_ok (redo_ui c)"
  using ld_ui.kept_undo [OF assms [unfolded canvas_ok_def]] ld_ui.kept_redo [OF assms [unfolded canvas_ok_def]]
  by (auto simp: undo_ui_def redo_ui_def canvas_ok_def)

lemma markClean_ok: "canvas_ok c \<Longrightarrow> canvas_ok (c\<lparr>cv_state := ld_markClean (cv_state c)\<rparr>)"
  by (simp add: canvas_ok_def ld_ui.kept_clean)

lemma tryApply_case:
  assumes "canvas_ok c" "safe_mutation m" "\<And>c'. canvas_ok c' \<Longrightarrow> canvas_ok (f c')"
    "\<And>g c'. canvas_ok c' \<Longrightarrow> canvas_ok (h g c')"
  shows "canvas_ok (case tryApply m c of (None, c') \<Rightarrow> f c' | (Some g, c') \<Rightarrow> h g c')"
  using tryApply_ok [OF assms(1,2)] assms(3,4) by (auto split: prod.split option.split)

lemma click_slot_ok: "canvas_ok c \<Longrightarrow> canvas_ok (click_slot r k c)"
  by (auto simp: click_slot_def setTool_def split: option.split intro!: apply_ok safe_place)

lemma branch_actions_ok:
  assumes c: "canvas_ok c"
  shows "canvas_ok (openBranchAt a r c)" "canvas_ok (openBranchFromMarker a r c)"
    "canvas_ok (click_branch_slot r c)" "canvas_ok (closeBranch_ui c)" "canvas_ok (cancelBranch_ui c)"
proof -
  have "canvas_ok (case tryApply (\<lambda>g s. openBranch g r a s) c of (None, c') \<Rightarrow> c'
     | (Some g, c') \<Rightarrow> (case branch_at g r a of None \<Rightarrow> c' | Some b \<Rightarrow> enter_branch b r opened_msg c'))"
    by (rule tryApply_case [OF c safe_handler(14)]) (simp_all split: option.split)
  with c show "canvas_ok (openBranchAt a r c)"
    unfolding openBranchAt_def by (simp split: option.split)
  have "canvas_ok (case tryApply (\<lambda>g s. openBranch g r a s) c of (None, c') \<Rightarrow> c'
     | (Some g, c') \<Rightarrow> (case branch_at g r a of None \<Rightarrow> c' | Some b \<Rightarrow> enter_branch b r opened_msg
         (apply_op (\<lambda>g' s. addBranchContact g' (bid b) (first_member_type (cv_tool c) g a) s) c')))"
    by (rule tryApply_case [OF c safe_handler(14)]) (simp_all add: apply_ok safe_handler(15) split: option.split)
  with c show "canvas_ok (openBranchFromMarker a r c)"
    unfolding openBranchFromMarker_def by (simp split: option.split)
  show "canvas_ok (click_branch_slot r c)"
    unfolding click_branch_slot_def using c
    by (auto split: option.split intro!: tryApply_case safe_handler(15))
  show "canvas_ok (closeBranch_ui c)"
    unfolding closeBranch_ui_def using c
    by (auto split: option.split intro!: tryApply_case safe_handler(16))
  show "canvas_ok (cancelBranch_ui c)"
    unfolding cancelBranch_ui_def using c
    by (auto split: option.split intro!: apply_ok safe_handler(17))
qed

lemma clipboard_ok:
  assumes c: "canvas_ok c"
  shows "canvas_ok (doCopy c)" "canvas_ok (doPaste c)" "canvas_ok (doCut c)"
  using c by (auto simp: doCopy_def doPaste_def doCut_def split: option.split prod.split
      intro!: apply_ok safe_handler)

lemma delete_ok: "canvas_ok c \<Longrightarrow> canvas_ok (onDelete ns es c)"
  unfolding onDelete_def by (intro apply_ok safe_then safe_delete_nodes safe_disconnect)

lemma drag_ok: "canvas_ok c \<Longrightarrow> canvas_ok (onNodeDragStop i t p x tgt c)"
  unfolding onNodeDragStop_def replace_by_def
  by (auto split: option.split drag_target.split
      intro!: branch_actions_ok apply_ok safe_then safe_handler safe_reorder_at)

lemma safe_property: "safe_mutation (property_mutation i f v)"
proof -
  have "safe_mutation (\<lambda>g s. if \<exists>r \<in> set (rungs g). rid r = i then setRungComment g i v s else setElementComment g i v s)"
    using safe_if [of "\<lambda>g. \<exists>r \<in> set (rungs g). rid r = i" "\<lambda>g g s. setRungComment g i v s"
        "\<lambda>g g s. setElementComment g i v s"] safe_handler(10,11) by simp
  then show ?thesis
    unfolding property_mutation_def by (simp add: safe_handler safe_patch)
qed

lemma property_ok: "canvas_ok c \<Longrightarrow> canvas_ok (property_edit f v c)"
  unfolding property_edit_def by (auto split: option.split intro!: apply_ok safe_property)

lemma selection_ok: "canvas_ok c \<Longrightarrow> canvas_ok (onSelectionChange ns es c)"
  by (simp add: onSelectionChange_def Let_def split: option.split)

lemma menu_ok: "canvas_ok c \<Longrightarrow> canvas_ok (run_menu a answer c)"
  unfolding run_menu_def addRung_ui_def
  by (auto split: menu_action.split option.split
      intro!: branch_actions_ok apply_ok safe_handler undo_ok clipboard_ok)

lemma canvas_step_ok: "canvas_ok c \<Longrightarrow> canvas_ok (canvas_step e c)"
  by (cases e)
    (auto simp: click_slot_ok branch_actions_ok undo_ok clipboard_ok delete_ok drag_ok property_ok
      menu_ok selection_ok markClean_ok click_node_def click_pane_def field_key_def Let_def addRung_ui_def
      split: option.split ld_tool.split intro!: apply_ok safe_handler)

lemma canvas_run_ok: "canvas_ok c \<Longrightarrow> canvas_ok (canvas_run es c)"
  unfolding canvas_run_def by (induction es arbitrary: c) (simp_all add: canvas_step_ok)

lemma open_canvas_ok:
  assumes "session_ok (g, s)"
  shows "canvas_ok (open_canvas g s)"
proof -
  obtain st s' where new: "ld_new_state (Some g) s = (st, s')" by (rule prod.exhaust)
  with ld_new_state_rep [OF new] assms show ?thesis
    by (auto simp: canvas_ok_def open_canvas_def intro: ld_ui.kept_start)
qed

end
