(* ===== verification/LdOutput.thy ===== *)
theory LdOutput
  imports LdDemo
begin

text \<open>
  The properties of what the ladder editor derives from a document: positions, the saved file, the undo
  stack, the compiler's input and result, and the panels. Each has a witness on the diagram of LdDemo where it
  has hypotheses.
\<close>

subsection \<open>Layout\<close>

lemma inv_refs_distinct:
  assumes "ld_inv (g, s)"
  shows "distinct (concat (map rung_refs (rungs g)))" "distinct (map rid (rungs g))" "distinct (node_ids g)"
  using ld_invD [OF assms] by (simp_all add: rung_node_ids_def)

lemma inv_rung_distinct:
  assumes "ld_inv (g, s)" "r \<in> set (rungs g)"
  shows "distinct (rung_refs r)"
  using inv_refs_distinct(1) [OF assms(1)] assms(2) by (simp add: distinct_concat_iff)

lemma inv_nodeMap: "ld_inv (g, s) \<Longrightarrow> nodeMap g i = findNode g i"
  using inv_refs_distinct(3) by (simp add: nodeMap_eq_find findNode_def)

text \<open>Every element a rung lists lies below the top of its band and 36 px above the bottom.\<close>

lemma place_branches_some:
  assumes "b \<in> set bs" "k < length (members b)" "distinct (concat (map members bs))"
  shows "\<exists>x. map_of (place_branches ser bs pos) (members b ! k) = Some (member_point x k)"
  using assms(1,3)
proof (induction bs arbitrary: pos)
  case (Cons c bs)
  show ?case
  proof (cases "b = c")
    case True
    with Cons.prems assms(2) have "members b ! k \<notin> set (concat (map members bs))"
      by (metis concat.simps(2) disjoint_iff distinct_append list.simps(9) nth_mem)
    moreover have "distinct (members b)" using Cons.prems True by simp
    ultimately show ?thesis
      using True assms(2) by (auto simp: place_branches_untouched place_members_facts(2))
  next
    case False
    with Cons.prems show ?thesis by (simp add: Cons.IH)
  qed
qed simp

lemma layoutRung_band:
  assumes "distinct (rung_refs r)" "i \<in> set (rung_refs r)"
  shows "\<exists>p. map_of (layoutRung r g) i = Some p \<and> 0 \<le> py p \<and> py p + 36 \<le> rungHeight r"
proof (cases "i \<in> set (elementIds r)")
  case True
  then obtain k where "k < length (elementIds r)" "i = elementIds r ! k" by (auto simp: in_set_conv_nth)
  then show ?thesis
    using layoutRung_series [OF assms(1), of k g] rungHeight_ge [of r] by (auto simp: grid_defs)
next
  case False
  then obtain b where b: "b \<in> set (rung_branches r)" "i \<in> set (members b)"
    using assms(2) by (auto simp: rung_refs_def)
  then obtain k where k: "k < length (members b)" "i = members b ! k" by (auto simp: in_set_conv_nth)
  have "distinct (concat (map members (rung_branches r)))"
    using assms(1) by (simp add: rung_refs_def)
  from place_branches_some [OF b(1) k(1) this] k(2) obtain x where
    "map_of (layoutRung r g) i = Some (member_point x k)" unfolding layoutRung_eq by blast
  moreover have "0 \<le> py (member_point x k)" by (simp add: member_point_def grid_defs)
  ultimately show ?thesis using rungHeight_member [OF b(1) k(1), of x] by (auto simp: grid_defs)
qed

lemma coil_kind: "ld_inv (g, s) \<Longrightarrow> coil_at (nodeMap g) i \<longleftrightarrow> elem_kind g is_coil i"
  by (simp add: coil_at_def elem_kind_def inv_nodeMap split: option.split)

lemma placed:
  assumes "ld_inv (g, s)" "k < length (rungs g)" "map_of (layoutRung (rungs g ! k) g) i = Some p"
  shows "map_of (out_positions (layoutGraph g)) i = Some \<lparr>px = px p, py = rung_top (rungs g) k + py p\<rparr>"
  using layout_rungs_nth(1) [OF inv_refs_distinct(1,2) [OF assms(1)] assms(2,3), of _ 0]
  by (simp add: layoutGraph_simps)

text \<open>
  The elements of a rung's series stand in columns: a coil at the fixed coil column,
  every other element right of all elements before it by at least their footprints, all on the same line of the
  diagram, so that no two series elements other than coils overlap.
\<close>

theorem layout_series_apart:
  assumes inv: "ld_inv (g, s)" and m: "m < length (rungs g)" "es = elementIds (rungs g ! m)"
    and jk: "j < k" "k < length es"
    and nc: "\<not> elem_kind g is_coil (es ! j)" "\<not> elem_kind g is_coil (es ! k)"
  shows "\<exists>p q. map_of (out_positions (layoutGraph g)) (es ! j) = Some p
    \<and> map_of (out_positions (layoutGraph g)) (es ! k) = Some q
    \<and> px p + effectiveWidth (findNode g (es ! j)) \<le> px q \<and> py p = py q"
proof -
  have es: "distinct (rung_refs (rungs g ! m))" "j < length (elementIds (rungs g ! m))"
    "k < length (elementIds (rungs g ! m))"
    using inv_rung_distinct [OF inv] m jk by simp_all
  note pos = placed [OF inv m(1) layoutRung_series [OF es(1,2)]] placed [OF inv m(1) layoutRung_series [OF es(1,3)]]
  have "column (nodeMap g) es j + elem_width (nodeMap g) (es ! j) \<le> column (nodeMap g) es k"
    using nc by (intro column_separation [OF jk]) (simp_all add: coil_kind [OF inv])
  then show ?thesis
    using pos unfolding m(2) [symmetric] by (simp add: elem_width_def inv_nodeMap [OF inv])
qed

lemma layout_series_apart_witness:
  "\<exists>p q. map_of (out_positions (layoutGraph demo)) ''c1'' = Some p
     \<and> map_of (out_positions (layoutGraph demo)) ''c2'' = Some q \<and> px p + 40 \<le> px q"
proof -
  have "\<not> elem_kind demo is_coil ''c1''" "\<not> elem_kind demo is_coil ''c2''"
    by (simp_all add: elem_kind_def demo_finds)
  with layout_series_apart [OF demo_inv, of 0 "elementIds demo_rung1" 0 1] show ?thesis
    by (auto simp: demo_finds effectiveWidth_def grid_defs)
qed

text \<open>
  Every element a rung lists, branch members included, has a position inside the rung's
  band with room for its 36 px symbol, and the bands of the rungs lie below each other, 4 px apart, so elements of
  different rungs never overlap.
\<close>

theorem layout_bands:
  assumes inv: "ld_inv (g, s)" and k: "k < length (rungs g)" and i: "i \<in> set (rung_refs (rungs g ! k))"
  shows "\<exists>p. map_of (out_positions (layoutGraph g)) i = Some p
    \<and> rung_top (rungs g) k \<le> py p \<and> py p + 36 \<le> rung_top (rungs g) k + rungHeight (rungs g ! k)
    \<and> map_of (rungTops (layoutGraph g)) (rid (rungs g ! k)) = Some (rung_top (rungs g) k)
    \<and> (\<forall>j < k. rung_top (rungs g) j + rungHeight (rungs g ! j) + 4 \<le> rung_top (rungs g) k)"
proof -
  have "distinct (rung_refs (rungs g ! k))" using inv_rung_distinct [OF inv] k by simp
  from layoutRung_band [OF this i, of g] obtain p where p: "map_of (layoutRung (rungs g ! k) g) i = Some p"
    "0 \<le> py p" "py p + 36 \<le> rungHeight (rungs g ! k)" by blast
  note n = layout_rungs_nth [OF inv_refs_distinct(1,2) [OF inv] k p(1)]
  show ?thesis
    using placed [OF inv k p(1)] p n(2) [of _ 0] rung_top_mono [of _ k "rungs g"] k
    by (simp add: layoutGraph_simps)
qed

lemma layout_bands_witness:
  "\<exists>p. map_of (out_positions (layoutGraph demo)) ''c3'' = Some p
     \<and> rung_top (rungs demo) 0 + rungHeight demo_rung1 + 4 \<le> py p"
proof -
  from layout_bands [OF demo_inv, of 1 "''c3''"] show ?thesis by (auto simp: demo_rung_refs)
qed

subsection \<open>Saving and loading\<close>

text \<open>
  A ladder document written by toJSON is accepted by fromJSON, unchanged, and read back
  as the document it was, with every node, wire, rung and branch and every optional field; roundTrip reports
  success.
\<close>

theorem ld_json_roundtrip:
  "ld_fromJSON (ld_toJSON g) = Inr (ld_toJSON g) \<and> ld_view (ld_toJSON g) = Some g \<and> ld_roundTrip g = Inr True"
  by (simp add: ld_view_toJSON ld_roundTrip_def bindE_def)

subsection \<open>Undo and redo\<close>

text \<open>
  C8: the undo stack with its snapshots and pointer refines a timeline of documents (at most
  49 before the current one): after any sequence of mutations that may throw, undos, redos and saves the editor shows the
  document the timeline shows.
\<close>

theorem ld_history_refines:
  "ld_state_graph (fst (foldl (\<lambda>x a. ld_act a x) (ld_new_state (Some g) s) as)) s'' =
     (Inr (present (fst (tl_run as (tl_start g, s)))), s'')"
proof -
  obtain st s' where new: "ld_new_state (Some g) s = (st, s')" by (rule prod.exhaust)
  from ld_new_state_rep [OF new] show ?thesis
    unfolding new by (auto intro!: ld_hist.run_shown simp: tl_bounded_steps)
qed

text \<open>
  From a freshly opened document, at most 49 mutations, thrown or not, are undone by
  undoing as often (or more often): the editor shows the opened document again.
\<close>

theorem ld_undo_all:
  assumes "length ms \<le> 49" "length ms \<le> n"
  shows "ld_state_graph (fst (foldl (\<lambda>x a. ld_act a x) (ld_new_state (Some g) s) (map Mutate ms @ replicate n Undo))) s''
    = (Inr g, s'')"
proof -
  obtain st s' where new: "ld_new_state (Some g) s = (st, s')" by (rule prod.exhaust)
  from ld_new_state_rep [OF new] have "ld_rep st (tl_start g)" "s' = s" by simp_all
  with ld_hist.run_shown [of st "tl_start g" s "map Mutate ms @ replicate n Undo" s'']
    tl_undo_session [OF assms, of g s] show ?thesis
    unfolding new by (simp add: tl_bounded_steps del: tl_run_append)
qed

lemma ld_undo_all_witness:
  "ld_state_graph (fst (foldl (\<lambda>x a. ld_act a x) (ld_new_state (Some demo) demo_gen)
     (map Mutate [addRung, (\<lambda>g. deleteElement g ''none''), addRung] @ replicate 4 Undo))) demo_gen = (Inr demo, demo_gen)"
  by (rule ld_undo_all) simp_all

subsection \<open>The compiler's input and result\<close>

text \<open>
  C11: with variable names free of white space, the ladder text handed to the compiler
  determines, rung by rung and in order, the instructions of the contacts and coils of the rung, each followed by the
  parallel contacts of the branches anchored at it.
\<close>

theorem ld_text_reads_back:
  assumes "clean_graph g" "rungs g \<noteq> []"
  shows "read_networks (graphToLdText g) = map (rung_instrs g) (rungs g)"
  by (rule graphToLdText_read [OF assms])

lemma ld_text_reads_back_witness:
  "read_networks (graphToLdText demo) = map (rung_instrs demo) [demo_rung1, demo_rung2]"
proof -
  have "clean_graph demo"
    by (simp add: clean_graph_def clean_name_def js_space_def demo_def demo_node_def)
  from ld_text_reads_back [OF this] show ?thesis by simp
qed

text \<open>The document with every negated coil made a normal one.\<close>

fun plain_coil :: "node_data \<Rightarrow> node_data" where
  "plain_coil (Coil Negated v c) = Coil Normal v c"
| "plain_coil d = d"

definition plain_coils :: "ld_graph \<Rightarrow> ld_graph" where
  "plain_coils g = g\<lparr>nodes := map (\<lambda>n. n\<lparr>ndata := plain_coil (ndata n)\<rparr>) (nodes g)\<rparr>"

lemma nodeMap_plain: "nodeMap (plain_coils g) i = map_option (\<lambda>n. n\<lparr>ndata := plain_coil (ndata n)\<rparr>) (nodeMap g i)"
proof -
  let ?p = "\<lambda>n :: ld_node. n\<lparr>ndata := plain_coil (ndata n)\<rparr>"
  have "foldl (\<lambda>m n. m(nid n \<mapsto> n)) m' (map ?p ns) i = map_option ?p (foldl (\<lambda>m n. m(nid n \<mapsto> n)) m ns i)"
    if "\<And>i. m' i = map_option ?p (m i)" for m m' and ns :: "ld_node list"
    using that
  proof (induction ns arbitrary: m m')
    case (Cons n ns)
    show ?case
      unfolding list.map foldl_Cons by (rule Cons.IH) (simp add: Cons.prems)
  qed simp
  from this [of Map.empty Map.empty "nodes g"] show ?thesis by (simp add: nodeMap_def plain_coils_def)
qed

lemma plain_lines: "element_lines (plain_coils g) (n\<lparr>ndata := plain_coil (ndata n)\<rparr>) = element_lines g n"
  by (cases "ndata n" rule: plain_coil.cases) (simp_all add: element_lines_def)

lemma plain_members: "member_lines (plain_coils g) i = member_lines g i"
proof (cases "nodeMap g i")
  case (Some n)
  then show ?thesis
    by (cases "ndata n" rule: plain_coil.cases) (simp_all add: member_lines_def nodeMap_plain)
qed (simp add: member_lines_def nodeMap_plain)

text \<open>
  The ladder text does not tell a negated coil from a normal one: the document with every
  negated coil replaced by a normal coil has the same text, so both compile to the same program.
\<close>

theorem negated_coil_lost: "graphToLdText (plain_coils g) = graphToLdText g"
proof -
  have m: "member_lines (plain_coils g) = member_lines g" using plain_members by blast
  have "rung_lines r (plain_coils g) = rung_lines r g" for r
    unfolding rung_lines_def m nodeMap_plain
    by (intro arg_cong [where f = "\<lambda>x. ''NETWORK'' # concat x"] map_cong) (auto simp: plain_lines split: option.split)
  then show ?thesis by (simp add: graphToLdText_def rungToLdText_def plain_coils_def [THEN arg_cong [where f = rungs], simplified])
qed

text \<open>
  Compilation succeeds exactly when validation passes and the compiler returns a JSON
  object with instructions, and then the result is the compiler's text without diagnostics.
\<close>

theorem ld_compile_success:
  "success (compile compileFn parse num g) \<longleftrightarrow> valid (validate g)
     \<and> (\<exists>raw m. compileFn (graphToLdText g) = Inr raw \<and> parse raw = Some (JObj m)
          \<and> map_of m ''instructions'' \<noteq> None
          \<and> compile compileFn parse num g = \<lparr>success = True, programJson = raw, diagnostics = []\<rparr>)"
  by (auto simp: compile_def Let_def failed_def parseCompileOutput_def split: sum.split option.split json.split)

text \<open>
  A failed compilation carries a diagnostic, whatever the compiler threw or printed,
  unless it printed an empty array.
\<close>

theorem ld_compile_diagnosed:
  assumes "\<not> success (compile compileFn parse num g)"
    and "\<And>raw. compileFn (graphToLdText g) = Inr raw \<Longrightarrow> parse raw \<noteq> Some (JArr [])"
  shows "diagnostics (compile compileFn parse num g) \<noteq> []"
  by (rule compile_failure_diagnosed [OF assms])

lemma ld_compile_diagnosed_witness:
  "diagnostics (compile (\<lambda>txt. Inl ''native addon missing'') (\<lambda>raw. None) (\<lambda>x. []) demo) \<noteq> []"
proof (rule ld_compile_diagnosed)
  show "\<not> success (compile (\<lambda>txt. Inl ''native addon missing'') (\<lambda>raw. None) (\<lambda>x. []) demo)"
    by (simp add: compile_success)
qed simp

subsection \<open>Panels\<close>

text \<open>
  After any editing session, the rungs the editor marks red are the rungs that break a
  rung rule, in ascending order and without repetition, and no element is marked.
\<close>

theorem ld_marks_broken_rungs:
  assumes "ld_inv (g, s)" "owned g"
  shows "set (rungNumbers (parseValidationErrors (validate g) g))
      = rungNumber ` {r \<in> set (rungs g). \<not> well_ordered g r}
    \<and> sorted_wrt (<) (rungNumbers (parseValidationErrors (validate g) g))
    \<and> set (nodeIds (parseValidationErrors (validate g) g)) = {}"
proof -
  let ?v = "validate g"
  note errs = good_validate_errors [OF assms]
  have num: "error_rung e = Some (rungNumber r)" if "e \<in> set (rung_rule_errors g r)" for e r
    using rung_rule_number [OF that] by (simp add: error_rung_def)
  have broken: "rung_rule_errors g r = [] \<longleftrightarrow> well_ordered g r" if r: "r \<in> set (rungs g)" for r
  proof (rule rung_rules_iff)
    show "i \<in> set (elementIds r) \<Longrightarrow> findNode g i \<noteq> None" for i
      using series_in_nodes [OF assms(1) r] by (simp add: findNode_None)
  qed
  have "(\<exists>e \<in> set (errors ?v). error_rung e = Some k)
      \<longleftrightarrow> (\<exists>r \<in> set (rungs g). rung_rule_errors g r \<noteq> [] \<and> rungNumber r = k)" for k
  proof
    assume "\<exists>e \<in> set (errors ?v). error_rung e = Some k"
    then obtain e r where e: "e \<in> set (rung_rule_errors g r)" "r \<in> set (rungs g)" "error_rung e = Some k"
      unfolding errs by auto
    moreover have "rung_rule_errors g r \<noteq> []" using e(1) by force
    moreover have "rungNumber r = k" using num [OF e(1)] e(3) by simp
    ultimately show "\<exists>r \<in> set (rungs g). rung_rule_errors g r \<noteq> [] \<and> rungNumber r = k" by blast
  next
    assume "\<exists>r \<in> set (rungs g). rung_rule_errors g r \<noteq> [] \<and> rungNumber r = k"
    then obtain e r where "e \<in> set (rung_rule_errors g r)" "r \<in> set (rungs g)" "rungNumber r = k"
      by (meson list.set_sel(1))
    with num show "\<exists>e \<in> set (errors ?v). error_rung e = Some k" unfolding errs by auto
  qed
  then have "set (rungNumbers (parseValidationErrors ?v g)) = {k. \<exists>r \<in> set (rungs g). \<not> well_ordered g r \<and> rungNumber r = k}"
    unfolding markup_rungNumbers(1) using broken by auto
  moreover have "error_node ids e = None" if "e \<in> set (errors ?v)" for ids e
    using that num unfolding errs by (force simp: error_node_def)
  ultimately show ?thesis
    using markup_rungNumbers(2) [of ?v g] markup_nodeIds(1) [of ?v g] by (auto simp: image_def)
qed

lemma ld_marks_broken_rungs_witness:
  "set (rungNumbers (parseValidationErrors (validate demo) demo))
     = rungNumber ` {r \<in> {demo_rung1, demo_rung2}. \<not> well_ordered demo r}"
  using ld_marks_broken_rungs [OF demo_inv demo_owned] by simp

text \<open>
  The cross reference lists exactly the variables bound to some contact or coil, each
  once, with the ids of its elements in document order and their number, sorted by the given comparison of names.
\<close>

theorem listVariables_lists:
  "distinct (map uname (listVariables c g)) \<and> Sorting_Algorithms.sorted (key uname c) (listVariables c g)
    \<and> (\<forall>u. u \<in> set (listVariables c g) \<longleftrightarrow> unodeIds u \<noteq> [] \<and> ucount u = length (unodeIds u)
        \<and> unodeIds u = map nid (filter (\<lambda>n. isVariableNode n \<and> variableName n = uname u) (nodes g)))"
proof (intro conjI allI)
  show "u \<in> set (listVariables c g) \<longleftrightarrow> unodeIds u \<noteq> [] \<and> ucount u = length (unodeIds u)
      \<and> unodeIds u = map nid (filter (\<lambda>n. isVariableNode n \<and> variableName n = uname u) (nodes g))" for u
    unfolding listVariables_entry bound_ids_def [symmetric] by (cases u) auto
qed (rule listVariables_names_distinct listVariables_sorted)+

text \<open>
  Every pin of a known function block, EN and ENO included, lies inside the height
  reserved for the block.
\<close>

theorem fb_pins_fit:
  assumes "getFbPins t = Some (ins, outs)" "p \<in> set ins \<union> set outs"
  shows "0 \<le> py (pin_position p) \<and> py (pin_position p) + 40 \<le> getFbHeight t"
  by (rule getFbHeight_fits [OF assms])

lemma fb_pins_fit_witness:
  "py (pin_position (hd (snd (the (getFbPins ''CTU''))))) + 40 \<le> getFbHeight ''CTU''"
proof -
  have "isFbType ''CTU''" by (simp add: isFbType_def FB_TYPES_def)
  then obtain ins outs where p: "getFbPins ''CTU'' = Some (ins, outs)" using getFbPins_known by fastforce
  then have "outs \<noteq> []" by (auto simp: getFbPins_def side_pins_def split: option.splits)
  then have "hd outs \<in> set ins \<union> set outs" by simp
  from fb_pins_fit [OF p this] p show ?thesis by simp
qed

end
