(* ===== verification/LdCanvasProps.thy ===== *)
theory LdCanvasProps
  imports LdSession LdOutput
begin

text \<open>
  The properties of the ladder canvas. Witnesses act on the diagram of LdDemo.
\<close>

lemma demo_session: "session_ok (demo, demo_gen)"
proof -
  have "owned demo"
    unfolding owned_def demo_ids by (simp add: demo_defs)
  moreover have "member_set demo = {''m1''}"
    by (simp add: member_set_def demo_defs rung_branches_def)
  then have "viewable demo"
    unfolding viewable_def node_rung_ids_apart_def by (simp add: demo_ids) (simp add: demo_defs node_ids_def)
  ultimately show ?thesis by (simp add: session_ok_def ld_good_def demo_inv)
qed

lemma canvas_session_ok: "canvas_ok c \<Longrightarrow> session_ok (cv_graph c, cv_gen c)"
  by (rule canvas_okE) auto

subsection \<open>Sessions\<close>

text \<open>
  C3: whatever the user does on the ladder canvas, starting from a well-formed document that is drawn
  completely, the canvas shows the document its undo state holds, that document is
  well-formed with no element outside the rungs, every rung and node is drawn exactly once and nothing
  else is, and every wire is drawn. No guard on the actions is needed.
\<close>

theorem canvas_session:
  assumes "session_ok (g, s)" and c: "c = canvas_run es (open_canvas g s)"
  shows "ld_state_graph (cv_state c) s'' = ((Inr (cv_graph c) :: 'e state_error + ld_graph), s'')
    \<and> ld_inv (cv_graph c, cv_gen c) \<and> owned (cv_graph c)
    \<and> distinct (map fid (flow_nodes (cv_graph c)))
    \<and> set (map fid (flow_nodes (cv_graph c))) = rid ` set (rungs (cv_graph c)) \<union> set (node_ids (cv_graph c))
    \<and> map feid (snd (graphToFlow (cv_graph c))) = map eid (edges (cv_graph c))"
proof -
  have ok: "canvas_ok c" unfolding c by (rule canvas_run_ok [OF open_canvas_ok [OF assms(1)]])
  then obtain t where "ld_rep (cv_state c) t" "cv_graph c = present t" by (rule canvas_okE)
  then have "ld_state_graph (cv_state c) s'' = ((Inr (cv_graph c) :: 'e state_error + ld_graph), s'')"
    by (simp add: ld_rep_graph)
  moreover have sok: "session_ok (cv_graph c, cv_gen c)" using ok by (rule canvas_session_ok)
  ultimately show ?thesis
    using view_complete [OF sok] by (simp add: session_ok_def ld_good_def del: set_map)
qed

lemma canvas_session_witness:
  "distinct (map fid (flow_nodes (cv_graph (canvas_run [AddRungButton, PickTool RailTool, ClickSlot ''r1'' 1, UndoKey] (open_canvas demo demo_gen)))))"
  using canvas_session [OF demo_session refl] by blast

subsection \<open>The context menu of a rung\<close>

text \<open>
  The Delete item of a rung's context menu cannot delete the rung: it asks the handler to delete
  an element of the rung's id, which is the id of no node, so the document stays as it is
  and the status says that the element was not found. No rung is ever deleted from the canvas.
\<close>

theorem rung_menu_delete_fails:
  assumes "canvas_ok c" "r \<in> set (rungs (cv_graph c))" "findEdge (cv_graph c) (rid r) = None"
  shows "MItem ''Delete'' (MDelete (rid r)) \<in> set (buildItems (RungMenu (rid r)))
    \<and> cv_graph (run_menu (MDelete (rid r)) answer c) = cv_graph c
    \<and> cv_status (run_menu (MDelete (rid r)) answer c) = ''Element not found: '' @ rid r"
proof -
  have "viewable (cv_graph c)" using canvas_session_ok [OF assms(1)] by (simp add: session_ok_def)
  with assms(2) have "rid r \<notin> set (node_ids (cv_graph c))"
    by (auto simp: viewable_def node_rung_ids_apart_def)
  then have "findNode (cv_graph c) (rid r) = None" by (simp add: findNode_None)
  then have "deleteElement (cv_graph c) (rid r) (cv_gen c)
      = (Inl (ValidationError (''Element not found: '' @ rid r)), cv_gen c)"
    using assms(3) by (simp add: deleteElement_def throw_def)
  from tryApply_throws [where m = "\<lambda>g s. deleteElement g (rid r) s", OF assms(1) this]
  show ?thesis by (simp add: run_menu_def apply_op_def buildItems_def)
qed

lemma rung_menu_delete_fails_witness:
  "cv_graph (run_menu (MDelete ''r1'') None (open_canvas demo demo_gen)) = demo"
proof -
  have "demo_rung1 \<in> set (rungs (cv_graph (open_canvas demo demo_gen)))"
    by (simp add: open_canvas_def ld_new_state_def demo_def)
  moreover have "findEdge (cv_graph (open_canvas demo demo_gen)) (rid demo_rung1) = None"
    by (simp add: open_canvas_def ld_new_state_def findEdge_def demo_defs)
  ultimately have "cv_graph (run_menu (MDelete (rid demo_rung1)) None (open_canvas demo demo_gen))
      = cv_graph (open_canvas demo demo_gen)"
    using rung_menu_delete_fails [OF open_canvas_ok [OF demo_session]] by blast
  then show ?thesis by (simp add: demo_rung1_def open_canvas_def ld_new_state_def)
qed

subsection \<open>The clipboard\<close>

lemma deleted_gone:
  assumes "session_ok (g, s)" "findNode g i \<noteq> None" "deleteElement g i s = (Inr g', s')"
  shows "set (drop_node_ids g i) \<inter> set (node_ids g') = {}"
proof -
  have inv: "ld_inv (g, s)" using assms(1) by (simp add: session_ok_def ld_good_def)
  have "map fst (map node_key (nodes g')) = map fst (map node_key (filter (\<lambda>n. nid n \<notin> set (drop_node_ids g i)) (nodes g)))"
    by (simp only: deleteElement_effect(1) [OF inv assms(2,3)])
  then have "node_ids g' = map nid (filter (\<lambda>n. nid n \<notin> set (drop_node_ids g i)) (nodes g))"
    by (simp add: node_ids_def node_key_def comp_def)
  then show ?thesis by auto
qed

lemma paste_missing:
  assumes "canvas_ok c" "cv_clip c = [i]" "findNode (cv_graph c) i = None"
  shows "cv_graph (doPaste c) = cv_graph c"
proof -
  obtain r k where target: "paste_target (cv_graph c) (cv_sel c) = (r, k)" by (rule prod.exhaust)
  have "paste_sources (cv_graph c) [i] = []"
    using assms(3) by (simp add: paste_sources_def List.map_filter_def)
  then have "\<exists>e s'. pasteElements (cv_graph c) [i] (opt_or r ''undefined'') k (cv_gen c) = (Inl e, s')"
    by (cases "findRung (cv_graph c) (opt_or r ''undefined'')") (auto simp: pasteElements_def throw_def)
  then show ?thesis
    using assms(1,2) target by (auto simp: doPaste_def apply_op_graph)
qed

text \<open>
  Cutting an element and pasting it loses it. The clipboard keeps the id of the element,
  cutting deletes the node of that id, and pasting copies nodes of the document: whatever is
  selected in between, the paste finds nothing and leaves the document without the element.
\<close>

theorem cut_paste_loses:
  assumes c: "canvas_ok c" and sel: "cv_sel c = Some (i, t)" "t \<noteq> RF_RUNG" "t \<noteq> RF_RAIL"
    and n: "findNode (cv_graph c) i \<noteq> None"
  shows "findNode (cv_graph (doCut c)) i = None
    \<and> cv_graph (doPaste (onSelectionChange ns es (doCut c))) = cv_graph (doCut c)"
proof -
  let ?c0 = "c\<lparr>cv_clip := [i]\<rparr>" and ?m = "\<lambda>g s. deleteElement g i s"
  have cut: "doCut c = (apply_op ?m ?c0)\<lparr>cv_clipStatus := ''Cut''\<rparr>"
    using sel by (simp add: doCut_def copyable_def)
  obtain g' s' where run: "deleteElement (cv_graph c) i (cv_gen c) = (Inr g', s')"
    using deleteElement_total n by blast
  have c0: "canvas_ok ?c0" using c by simp
  then have graph: "cv_graph (doCut c) = g'" using run by (simp add: cut apply_op_graph)
  have "i \<notin> set (node_ids g')"
    using deleted_gone [OF canvas_session_ok [OF c] n run] by (auto simp: drop_node_ids_def)
  then have gone: "findNode g' i = None" by (simp add: findNode_None)
  let ?c1 = "onSelectionChange ns es (doCut c)"
  have "cv_graph ?c1 = g'" "cv_clip ?c1 = [i]"
    using graph by (simp_all add: onSelectionChange_def Let_def cut split: option.split)
  moreover have "canvas_ok ?c1" using c by (intro selection_ok clipboard_ok)
  ultimately show ?thesis using paste_missing [of ?c1 i] gone graph by simp
qed

lemma cut_paste_loses_witness:
  "\<exists>c. canvas_ok c \<and> findNode (cv_graph c) ''c2'' \<noteq> None
     \<and> findNode (cv_graph (doPaste (onSelectionChange [] [] (doCut c)))) ''c2'' = None"
proof -
  let ?c = "(open_canvas demo demo_gen)\<lparr>cv_sel := Some (''c2'', RF_CONTACT)\<rparr>"
  have c: "canvas_ok ?c" using open_canvas_ok [OF demo_session] by simp
  have n: "findNode (cv_graph ?c) ''c2'' \<noteq> None" by (simp add: open_canvas_def ld_new_state_def demo_finds)
  from cut_paste_loses [OF c _ _ _ n, of RF_CONTACT "[]" "[]"] have
    "findNode (cv_graph (doPaste (onSelectionChange [] [] (doCut ?c)))) ''c2'' = None" by simp
  with c n show ?thesis by blast
qed

subsection \<open>The property view\<close>

text \<open>
  The property view loses what is typed. Its field shows the variable's name at the time the element
  was selected and selecting the element again does not refresh it, so each key press
  renames the variable to the name of that time with the one character appended: after typing two
  characters the name has only the second of them.
\<close>

theorem property_typing_lost:
  assumes c: "canvas_ok c" and sel: "cv_prop c = Some (SelContact i v ty k p)"
    and n: "findNode (cv_graph c) i = Some n" "ndata n = Contact ct v cm"
    and name: "\<forall>x \<in> set v. \<not> js_space x" and ab: "\<not> js_space a" "\<not> js_space b"
  shows "\<exists>m. findNode (cv_graph (type_char ''variableName'' b (type_char ''variableName'' a c))) i = Some m
    \<and> ndata m = Contact ct (v @ [b]) cm"
proof -
  have trimmed: "trim (v @ [x]) = v @ [x]" if "\<not> js_space x" for x
    using that name by (intro trim_no_space) auto
  have rename: "\<exists>m. findNode (cv_graph (type_char ''variableName'' x d)) i = Some m \<and> ndata m = Contact ct (v @ [x]) cm"
    if d: "canvas_ok d" "cv_prop d = cv_prop c" "findNode (cv_graph d) i = Some n'" "ndata n' = Contact ct w cm"
      and x: "\<not> js_space x" for d n' w x
  proof -
    have inv: "ld_inv (cv_graph d, cv_gen d)"
      using canvas_session_ok [OF d(1)] by (simp add: session_ok_def ld_good_def)
    have char: "type_char ''variableName'' x d = apply_op (\<lambda>g s. renameVariable g i (v @ [x]) s) d"
      using d(2) sel by (simp add: type_char_def property_edit_def property_mutation_def)
    show ?thesis
    proof (cases "w = v @ [x]")
      case True
      then have "renameVariable (cv_graph d) i (v @ [x]) (cv_gen d) = ok (cv_graph d, cv_gen d)"
        using d(3,4) x name by (simp add: renameVariable_def rename_to_def trimmed [OF x])
      with d True show ?thesis by (simp add: char apply_op_graph ok_def)
    next
      case False
      let ?f = "update_data (set_variable (v @ [x]))"
      have "renameVariable (cv_graph d) i (v @ [x]) (cv_gen d) = ok (set_node i ?f (cv_graph d), cv_gen d)"
        using d(3,4) x name False by (simp add: renameVariable_def rename_to_def trimmed [OF x])
      moreover have "findNode (set_node i ?f (cv_graph d)) i = Some (?f n')"
      proof -
        have "nodes (set_node i ?f (cv_graph d)) = map (\<lambda>n. if nid n = i then ?f n else n) (nodes (cv_graph d))"
          using ld_invD(1) [OF inv] by (simp add: set_node_map)
        moreover have "List.find (\<lambda>n. nid n = i) (map (\<lambda>n. if nid n = i then ?f n else n) ns) = Some (?f n')"
          if "List.find (\<lambda>n. nid n = i) ns = Some n'" for ns
          using that by (induction ns) (auto simp: update_data_def split: if_splits)
        ultimately show ?thesis using d(3) by (simp add: findNode_def)
      qed
      ultimately show ?thesis using d by (simp add: char apply_op_graph ok_def update_data_def)
    qed
  qed
  from rename [OF c refl n ab(1)] obtain m where
    "findNode (cv_graph (type_char ''variableName'' a c)) i = Some m" "ndata m = Contact ct (v @ [a]) cm" by blast
  moreover have "canvas_ok (type_char ''variableName'' a c)"
    using c by (simp add: type_char_def property_ok split: option.split)
  moreover have "cv_prop (type_char ''variableName'' a c) = cv_prop c"
    by (simp add: type_char_def property_edit_def split: option.split)
  ultimately show ?thesis using rename ab(2) by blast
qed

lemma property_typing_lost_witness:
  "\<exists>m. findNode (cv_graph (type_char ''variableName'' (CHR ''2'') (type_char ''variableName'' (CHR ''1'')
       ((open_canvas demo demo_gen)\<lparr>cv_prop := Some (SelContact ''c1'' ''start'' NO [] origin)\<rparr>)))) ''c1'' = Some m
     \<and> ndata m = Contact NO ''start2'' None"
proof -
  let ?c = "(open_canvas demo demo_gen)\<lparr>cv_prop := Some (SelContact ''c1'' ''start'' NO [] origin)\<rparr>"
  have c: "canvas_ok ?c" using open_canvas_ok [OF demo_session] by simp
  have n: "findNode (cv_graph ?c) ''c1'' = Some (demo_node ''c1'' (Contact NO ''start'' None))"
    by (simp add: open_canvas_def ld_new_state_def demo_finds demo_node_def)
  have plain: "\<forall>x \<in> set ''start''. \<not> js_space x" "\<not> js_space (CHR ''1'')" "\<not> js_space (CHR ''2'')"
    by (simp_all add: js_space_def)
  from property_typing_lost [OF c _ n _ plain, of NO "[]" origin NO None] show ?thesis by (simp add: demo_node_def)
qed

subsection \<open>Dragging\<close>

definition slot_bound :: "jsnum option \<Rightarrow> (jsnum \<times> jsnum) list \<Rightarrow> nat \<Rightarrow> jsnum" where
  "slot_bound prev es j = (if j = 0 then (case prev of None \<Rightarrow> fst (hd es) - 20 | Some p \<Rightarrow> (p + fst (hd es)) / 2)
     else (snd (es ! (j - 1)) + fst (es ! j)) / 2)"

lemma first_slot_at:
  assumes "k < length es" "\<And>j. j \<le> k \<Longrightarrow> slot_bound prev es j \<le> x"
    and "Suc k < length es \<Longrightarrow> x < slot_bound prev es (Suc k)"
  shows "first_slot x prev i es = i + Suc k"
  using assms
proof (induction es arbitrary: prev i k)
  case (Cons e es)
  obtain l r where e: "e = (l, r)" by (cases e)
  have shift: "slot_bound prev (e # es) (Suc j) = slot_bound (Some r) es j" if "j < length es" for j
    using that by (cases es; cases j) (simp_all add: slot_bound_def e)
  have first: "\<not> x < (case prev of None \<Rightarrow> l - 20 | Some p \<Rightarrow> (p + l) / 2)"
    using Cons.prems(2) [of 0] by (auto simp: slot_bound_def e split: option.splits)
  show ?case
  proof (cases k)
    case 0
    show ?thesis
    proof (cases es)
      case (Cons e' es')
      obtain l' r' where e': "e' = (l', r')" by (cases e')
      have "x < (r + l') / 2" using Cons.prems(3) shift [of 0] 0 Cons e' by (simp add: slot_bound_def)
      with first 0 Cons show ?thesis by (simp add: e e')
    qed (use first 0 in \<open>simp add: e\<close>)
  next
    case (Suc j)
    have "first_slot x (Some r) (Suc i) es = Suc i + Suc j"
    proof (rule Cons.IH)
      show "j < length es" using Cons.prems(1) Suc by simp
      show "slot_bound (Some r) es m \<le> x" if "m \<le> j" for m
        using Cons.prems(1) Cons.prems(2) [of "Suc m"] shift [of m] that Suc by simp
      show "x < slot_bound (Some r) es (Suc j)" if "Suc j < length es"
        using Cons.prems(3) shift [of "Suc j"] that Suc by simp
    qed
    with first Suc show ?thesis by (simp add: e)
  qed
qed simp

text \<open>Symbols fit the footprint the layout gives them.\<close>

definition well_sized :: "ld_graph \<Rightarrow> bool" where
  "well_sized g \<longleftrightarrow> (\<forall>n \<in> set (nodes g). 0 \<le> dwidth (ndim n)
     \<and> (\<not> is_coil (ndata n) \<longrightarrow> dwidth (ndim n) \<le> effectiveWidth (Some n)))"

lemma moved_to_same:
  assumes "distinct xs" "k < length xs" "moved_to k (xs ! k) xs ys"
  shows "ys = xs"
proof -
  have ys: "mset ys = mset xs" "k < length ys" "ys ! k = xs ! k" "remove1 (xs ! k) ys = remove1 (xs ! k) xs"
    using assms(3) by (simp_all add: moved_to_def)
  have d: "distinct ys" using assms(1) ys(1) by (metis mset_eq_imp_distinct_iff)
  have rem: "remove1 (zs ! k) zs = take k zs @ drop (Suc k) zs" if "distinct zs" "k < length zs" for zs :: "'a list"
  proof -
    have "zs = take k zs @ zs ! k # drop (Suc k) zs" using that(2) by (rule id_take_nth_drop)
    moreover have "zs ! k \<notin> set (take k zs)"
      using that by (metis calculation distinct_append not_distinct_conv_prefix)
    ultimately show ?thesis by (metis remove1.simps(2) remove1_append)
  qed
  have "take k ys @ drop (Suc k) ys = take k xs @ drop (Suc k) xs"
    using rem [OF d ys(2)] rem [OF assms(1,2)] ys(3,4) by simp
  moreover have "length (take k ys) = length (take k xs)" using ys(2) assms(2) by simp
  ultimately have "take k ys = take k xs" "drop (Suc k) ys = drop (Suc k) xs" by simp_all
  then show ?thesis by (metis assms(2) id_take_nth_drop ys(2,3))
qed

lemma series_prefix:
  assumes k: "k < length (elementIds r)" and nc: "\<And>j. j \<le> k \<Longrightarrow> \<not> elem_kind g is_coil (elementIds r ! j)"
    and node: "\<And>j. j < length (elementIds r) \<Longrightarrow> findNode g (elementIds r ! j) \<noteq> None"
  shows "series_of g r = take (Suc k) (elementIds r) @
    filter (\<lambda>i. case findNode g i of None \<Rightarrow> False | Some n \<Rightarrow> \<not> is_coil (ndata n)) (drop (Suc k) (elementIds r))"
proof -
  let ?es = "elementIds r"
  let ?Q = "\<lambda>i. case findNode g i of None \<Rightarrow> False | Some n \<Rightarrow> \<not> is_coil (ndata n)"
  have "?Q i" if "i \<in> set (take (Suc k) ?es)" for i
  proof -
    from that obtain j where j: "j < length (take (Suc k) ?es)" "i = take (Suc k) ?es ! j"
      by (metis in_set_conv_nth)
    then have "j \<le> k" "j < length ?es" "i = ?es ! j" by simp_all
    with nc [of j] node [of j] show ?thesis by (simp add: elem_kind_def split: option.splits)
  qed
  then have "filter ?Q (take (Suc k) ?es) = take (Suc k) ?es" by simp
  then show ?thesis
    unfolding series_of_def by (metis append_take_drop_id filter_append)
qed

lemma slot_of_own_column:
  assumes inv: "ld_inv (g, s)" and r: "r \<in> set (rungs g)" and k: "k < length (elementIds r)"
    and nc: "\<And>j. j \<le> k \<Longrightarrow> \<not> elem_kind g is_coil (elementIds r ! j)" and sized: "well_sized g"
  shows "findInsertIndex g r (column (nodeMap g) (elementIds r) k) = Suc k"
proof -
  let ?es = "elementIds r" and ?m = "nodeMap g"
  let ?Q = "\<lambda>i. case findNode g i of None \<Rightarrow> False | Some n \<Rightarrow> \<not> is_coil (ndata n)"
  note I = ld_invD [OF inv]
  have refs: "distinct (rung_refs r)" using rung_refs_distinct [OF r I(3)] .
  have node: "\<exists>n. findNode g (?es ! j) = Some n \<and> n \<in> set (nodes g)" if "j < length ?es" for j
  proof -
    have "?es ! j \<in> set (node_ids g)"
      using that elementIds_in_refs rung_refs_in [OF r] I(4) by (meson nth_mem subsetD)
    then show ?thesis by (metis findNode_None findNode_SomeD not_None_eq)
  qed
  define ser where "ser = series_of g r"
  have ser: "ser = take (Suc k) ?es @ filter ?Q (drop (Suc k) ?es)"
    unfolding ser_def using series_prefix [OF k nc] node by blast
  have len: "Suc k \<le> length ser" using k by (simp add: ser)
  have at: "ser ! j = ?es ! j" if "j \<le> k" for j using that k by (simp add: ser nth_append)
  have edge: "slot_edges g r ! j = (column ?m ?es j', column ?m ?es j' + dwidth (ndim n))"
    if "j < length ser" "ser ! j = ?es ! j'" "j' < length ?es" "findNode g (?es ! j') = Some n" for j j' n
    using that layoutRung_series [OF refs that(3), of g] by (simp add: slot_edges_def ser_def Let_def)
  have col: "column ?m ?es i + elem_width ?m (?es ! i) \<le> column ?m ?es j"
    if "i < j" "j < length ?es" "\<not> elem_kind g is_coil (?es ! i)" "\<not> elem_kind g is_coil (?es ! j)" for i j
    using that by (intro column_separation) (simp_all add: coil_kind [OF inv])
  have width: "0 \<le> dwidth (ndim n) \<and> dwidth (ndim n) \<le> elem_width ?m (?es ! i) \<and> 40 \<le> elem_width ?m (?es ! i)"
    if "findNode g (?es ! i) = Some n" "n \<in> set (nodes g)" "\<not> elem_kind g is_coil (?es ! i)" for i n
  proof -
    have "\<not> is_coil (ndata n)" using that by (simp add: elem_kind_def)
    then have "0 \<le> dwidth (ndim n)" "dwidth (ndim n) \<le> effectiveWidth (Some n)" "40 \<le> effectiveWidth (Some n)"
      using sized that(2)
      by (auto simp: well_sized_def effectiveWidth_def grid_defs SERIES_GAP_def split: node_data.split)
    with that(1) show ?thesis by (simp add: elem_width_def inv_nodeMap [OF inv])
  qed
  have "first_slot (column ?m ?es k) None 0 (slot_edges g r) = 0 + Suc k"
  proof (rule first_slot_at)
    have lens: "length (slot_edges g r) = length ser" by (simp add: slot_edges_def ser_def)
    show "k < length (slot_edges g r)" using len lens by simp
    show "slot_bound None (slot_edges g r) j \<le> column ?m ?es k" if j: "j \<le> k" for j
    proof (cases j)
      case 0
      have pos: "0 < length ?es" "0 < length ser" using k len by (auto simp del: length_greater_0_conv)
      from node [OF pos(1)] obtain n where n: "findNode g (?es ! 0) = Some n" by blast
      have "fst (slot_edges g r ! 0) = column ?m ?es 0"
        using edge [OF pos(2) at [OF le0] pos(1) n] by simp
      moreover have "slot_edges g r \<noteq> []" using lens len by auto
      then have "hd (slot_edges g r) = slot_edges g r ! 0" by (rule hd_conv_nth)
      moreover have "column ?m ?es 0 \<le> column ?m ?es k"
        using col [of 0 k] nc k by (cases "k = 0") (auto intro: order_trans [rotated])
      ultimately show ?thesis using 0 by (simp add: slot_bound_def)
    next
      case (Suc i)
      have i: "i < length ?es" "j < length ?es" using j k Suc by simp_all
      obtain n n' where n: "findNode g (?es ! i) = Some n" "n \<in> set (nodes g)" "findNode g (?es ! j) = Some n'"
        using node i by metis
      have "slot_edges g r ! i = (column ?m ?es i, column ?m ?es i + dwidth (ndim n))"
        using edge [of i i n] at [of i] len i j Suc n by simp
      moreover have "fst (slot_edges g r ! j) = column ?m ?es j"
        using edge [of j j n'] at [of j] len i j n by simp
      moreover have "column ?m ?es i + elem_width ?m (?es ! i) \<le> column ?m ?es j"
        using col [of i j] nc i j Suc by simp
      moreover have "dwidth (ndim n) \<le> elem_width ?m (?es ! i)" using width [OF n(1,2)] nc j Suc by simp
      moreover have "column ?m ?es j \<le> column ?m ?es k"
        using add_increasing2 [OF elem_width_nonneg order_refl, THEN order_trans, OF col [of j k]] nc j k
        by (cases "j = k") auto
      ultimately show ?thesis using Suc by (simp add: slot_bound_def)
    qed
    show "column ?m ?es k < slot_bound None (slot_edges g r) (Suc k)" if "Suc k < length (slot_edges g r)"
    proof -
      have sk: "Suc k < length ser" using that lens by simp
      then have "filter ?Q (drop (Suc k) ?es) \<noteq> []" using k by (auto simp: ser)
      then have "filter ?Q (drop (Suc k) ?es) ! 0 \<in> set (filter ?Q (drop (Suc k) ?es))" by (intro nth_mem) simp
      moreover have "ser ! Suc k = filter ?Q (drop (Suc k) ?es) ! 0" using k by (simp add: ser nth_append)
      ultimately have "ser ! Suc k \<in> set (filter ?Q (drop (Suc k) ?es))" by simp
      then obtain d where "d < length (drop (Suc k) ?es)" "ser ! Suc k = drop (Suc k) ?es ! d" "?Q (ser ! Suc k)"
        by (auto simp: in_set_conv_nth)
      then obtain j' where j': "k < j'" "j' < length ?es" "ser ! Suc k = ?es ! j'" "?Q (?es ! j')"
        using k by (intro that [of "Suc k + d"]) auto
      obtain n n' where n: "findNode g (?es ! k) = Some n" "n \<in> set (nodes g)" "findNode g (?es ! j') = Some n'"
        using node k j' by metis
      have "slot_edges g r ! k = (column ?m ?es k, column ?m ?es k + dwidth (ndim n))"
        using edge [of k k n] at [of k] len k n by simp
      moreover have "fst (slot_edges g r ! Suc k) = column ?m ?es j'"
        using edge [of "Suc k" j' n'] sk j' n by simp
      moreover have "\<not> elem_kind g is_coil (?es ! j')" using j'(4) by (simp add: elem_kind_def split: option.splits)
      then have "column ?m ?es k + elem_width ?m (?es ! k) \<le> column ?m ?es j'" using col [of k j'] nc j' by simp
      moreover have "0 \<le> dwidth (ndim n)" "40 \<le> elem_width ?m (?es ! k)" using width [OF n(1,2)] nc by simp_all
      ultimately show ?thesis by (simp add: slot_bound_def)
    qed
  qed
  moreover have "series_of g r \<noteq> []" using len unfolding ser_def by auto
  ultimately show ?thesis by (simp add: findInsertIndex_def)
qed

text \<open>
  C26: on a canvas of a session, take an element of a rung with an id such that neither it nor any element before it is a
  coil, and let no width in the document be negative or, coils apart, more than the width the layout gives the node. Then
  the insertion slot found from the position at which the k-th element is drawn is k + 1, the slot after itself; and dropping the
  element there, on no marker and on no other element, leaves all rungs as they were, since reordering maps that
  slot back to its own place.
\<close>

theorem drop_in_place:
  assumes c: "canvas_ok c" and r: "r \<in> set (rungs (cv_graph c))" "rid r \<noteq> []" and k: "k < length (elementIds r)"
    and nc: "\<And>j. j \<le> k \<Longrightarrow> \<not> elem_kind (cv_graph c) is_coil (elementIds r ! j)"
    and sized: "well_sized (cv_graph c)" and t: "element_type t"
    and p: "map_of (out_positions (layoutGraph (cv_graph c))) (elementIds r ! k) = Some p"
  shows "findInsertIndex (cv_graph c) r (px p) = Suc k
    \<and> rungs (cv_graph (onNodeDragStop (elementIds r ! k) t (rid r) (px p) None c)) = rungs (cv_graph c)"
proof -
  let ?g = "cv_graph c" and ?i = "elementIds r ! k"
  have inv: "ld_inv (?g, cv_gen c)" using canvas_session_ok [OF c] by (simp add: session_ok_def ld_good_def)
  note I = ld_invD [OF inv]
  obtain q where q: "q < length (rungs ?g)" "rungs ?g ! q = r" using r(1) by (auto simp: in_set_conv_nth)
  have "distinct (rung_refs r)" using rung_refs_distinct [OF r(1) I(3)] .
  from layoutRung_series [OF this k, of ?g] have "px p = column (nodeMap ?g) (elementIds r) k"
    using placed [OF inv q(1), of ?i] q(2) p by simp
  then have slot: "findInsertIndex ?g r (px p) = Suc k" using slot_of_own_column [OF inv r(1) k nc sized] by simp
  have find: "List.find (\<lambda>q. rid q = rid r) (rungs ?g) = Some r"
    using find_key [OF I(2) r(1)] .
  have drop: "cv_graph (onNodeDragStop ?i t (rid r) (px p) None c)
      = (case reorderElement ?g ?i (1 + int k) (cv_gen c) of (Inr g', s') \<Rightarrow> g' | (Inl e, s') \<Rightarrow> ?g)"
    using t r(2) c slot find by (simp add: onNodeDragStop_def apply_op_graph reorder_at_def)
  have "rungs g' = rungs ?g" if run: "reorderElement ?g ?i (1 + int k) (cv_gen c) = (Inr g', s')" for g' s'
  proof -
    from reorderElement_effect [OF inv run] obtain r' pos els where e: "r' \<in> set (rungs ?g)"
      "pos < length (elementIds r')" "elementIds r' ! pos = ?i"
      "moved_to (reorder_slot pos (1 + int k) (length (elementIds r'))) ?i (elementIds r') els"
      "rungs g' = map (\<lambda>q. if rid q = rid r' then r'\<lparr>elementIds := els\<rparr> else q) (rungs ?g)" by blast
    have "?i \<in> set (rung_refs r)" "?i \<in> set (rung_refs r')"
      using k e(2,3) elementIds_in_refs by (metis nth_mem subsetD)+
    then have r': "r' = r" using rungs_share [OF inv e(1) r(1)] by blast
    have d: "distinct (elementIds r)" using rung_refs_distinct [OF r(1) I(3)] by (simp add: rung_refs_def)
    then have pos: "pos = k" using e(2,3) k nth_eq_iff_index_eq unfolding r' by blast
    obtain m where "length (elementIds r) = Suc m" "k \<le> m" using k by (cases "length (elementIds r)") auto
    then have "reorder_slot k (1 + int k) (length (elementIds r)) = k"
      by (cases "k = m") (auto simp: reorder_slot_def clamp_index_def Let_def min_def)
    then have "els = elementIds r" using e(4) moved_to_same [OF d k] unfolding r' pos by simp
    then have "r'\<lparr>elementIds := els\<rparr> = r" by (simp add: r')
    then show ?thesis using e(5) I(2) r(1) unfolding r' by (intro trans [OF e(5) [unfolded r']] map_idI)
      (auto simp: distinct_map inj_on_def)
  qed
  then show ?thesis unfolding drop using slot by (auto split: prod.split sum.split)
qed

lemma drop_in_place_witness:
  "findInsertIndex demo demo_rung1 80 = 2
    \<and> rungs (cv_graph (onNodeDragStop ''c2'' RF_CONTACT ''r1'' 80 None (open_canvas demo demo_gen))) = rungs demo"
proof -
  let ?c = "open_canvas demo demo_gen"
  have g: "cv_graph ?c = demo" by (simp add: open_canvas_def ld_new_state_def)
  have nc: "\<not> elem_kind demo is_coil (elementIds demo_rung1 ! j)" if "j \<le> 1" for j
  proof -
    from that consider "j = 0" | "j = 1" by linarith
    then show ?thesis by cases (simp_all add: elem_kind_def demo_finds demo_node_def)
  qed
  have sized: "well_sized demo"
    by (simp add: well_sized_def demo_def effectiveWidth_def grid_defs) (simp add: demo_node_def)
  have "\<not> coil_at (nodeMap demo) ''c2''"
    unfolding coil_kind [OF demo_inv] by (simp add: elem_kind_def demo_finds demo_node_def)
  moreover have "elem_width (nodeMap demo) ''c1'' = 40"
    by (simp add: elem_width_def inv_nodeMap [OF demo_inv] demo_finds effectiveWidth_def grid_defs demo_node_def)
  ultimately have "column (nodeMap demo) (elementIds demo_rung1) 1 = 80"
    by (simp add: column_def grid_defs)
  with layoutRung_series [of demo_rung1 1 demo]
  have "map_of (layoutRung demo_rung1 demo) (elementIds demo_rung1 ! 1) = Some \<lparr>px = 80, py = ELEMENT_Y\<rparr>"
    by (simp add: demo_rung_refs)
  then have "map_of (out_positions (layoutGraph demo)) (elementIds demo_rung1 ! 1)
      = Some \<lparr>px = 80, py = rung_top (rungs demo) 0 + ELEMENT_Y\<rparr>"
    using placed [OF demo_inv, of 0 "elementIds demo_rung1 ! 1"] by simp
  with drop_in_place [OF open_canvas_ok [OF demo_session], of demo_rung1 1 RF_CONTACT] nc sized show ?thesis
    by (simp add: g element_type_def)
qed

text \<open>
  Dragging the anchor of a parallel branch onto a contact of that branch, which means to replace
  the contact by the anchor, loses both: the target takes over the anchor's definition, then the anchor
  is deleted together with the members of its branches. The status still reports a replacement.
\<close>

theorem replace_member_loses:
  assumes c: "canvas_ok c" and r: "r \<in> set (rungs (cv_graph c))" and b: "b \<in> set (rung_branches r)"
    and j: "j \<in> set (members b)" "j \<noteq> []" "j \<noteq> anchorId b"
    and n: "findNode (cv_graph c) (anchorId b) = Some n" "is_contact (ndata n)"
  shows "cv_status (onNodeDragStop (anchorId b) RF_CONTACT (rid r) x (Some (ReplaceTarget j)) c) = ''Element replaced''
    \<and> {anchorId b, j} \<inter> set (node_ids (cv_graph (onNodeDragStop (anchorId b) RF_CONTACT (rid r) x (Some (ReplaceTarget j)) c))) = {}"
proof -
  let ?g = "cv_graph c" and ?i = "anchorId b"
  have ok: "session_ok (?g, cv_gen c)" using c by (rule canvas_session_ok)
  then have inv: "ld_inv (?g, cv_gen c)" and v: "viewable ?g" by (simp_all add: session_ok_def ld_good_def)
  note I = ld_invD [OF inv]
  have "j \<in> set (node_ids ?g)" using I(4) rung_refs_in [OF r] members_in_refs [OF b] j(1) by blast
  then obtain m where m: "findNode ?g j = Some m" "m \<in> set (nodes ?g)" "nid m = j"
    by (metis findNode_None findNode_SomeD not_None_eq)
  have "is_contact (ndata m)" using v m r b j(1) by (auto simp: viewable_def member_set_def)
  then have types: "node_type n = node_type m"
    using n(2) by (cases "ndata n"; cases "ndata m") (simp_all add: node_type_def)
  have i: "nid n = ?i" "n \<in> set (nodes ?g)" using findNode_SomeD [OF n(1)] by simp_all
  define g1 where "g1 = set_node j (\<lambda>_. n\<lparr>nid := j, npos := npos m\<rparr>) ?g"
  have replace: "replaceElement ?g j n (cv_gen c) = (Inr g1, cv_gen c)"
    using m(1) types by (simp add: replaceElement_def ok_def g1_def)
  then have ok1: "session_ok (g1, cv_gen c)"
    using ok safe_handler(19) unfolding safe_for_def by blast
  have g1: "nodes g1 = map (\<lambda>k. if nid k = j then n\<lparr>nid := j, npos := npos m\<rparr> else k) (nodes ?g)" "rungs g1 = rungs ?g"
    using I(1) by (simp_all add: g1_def set_node_map)
  have drop: "j \<in> set (drop_node_ids g1 ?i)" "?i \<in> set (drop_node_ids g1 ?i)"
    using r b j(1) by (auto simp: drop_node_ids_def anchored_branches_def g1(2))
  have "n \<in> set (nodes g1)" using i j(3) by (auto simp: g1(1) image_iff intro!: bexI [of _ n])
  then have some: "findNode g1 ?i \<noteq> None" unfolding findNode_None node_ids_def using i(1) by (metis imageI set_map)
  then obtain g2 s2 where del: "deleteElement g1 ?i (cv_gen c) = (Inr g2, s2)"
    using deleteElement_total by blast
  have gone: "{?i, j} \<inter> set (node_ids g2) = {}" using deleted_gone [OF ok1 some del] drop by auto
  have "replace_by j n ?g (cv_gen c) = (Inr g2, s2)"
    using replace del i(1) by (simp add: replace_by_def then_op_def)
  then show ?thesis
    using gone j(2,3) n(1) c
    by (simp add: onNodeDragStop_def element_type_def apply_op_graph setStatus_def)
qed

lemma replace_member_loses_witness:
  "''m1'' \<notin> set (node_ids (cv_graph (onNodeDragStop ''c1'' RF_CONTACT ''r1'' 80 (Some (ReplaceTarget ''m1''))
     (open_canvas demo demo_gen))))"
proof -
  have g: "cv_graph (open_canvas demo demo_gen) = demo" by (simp add: open_canvas_def ld_new_state_def)
  have r: "demo_rung1 \<in> set (rungs demo)" "demo_branch \<in> set (rung_branches demo_rung1)"
    by (simp_all add: demo_rung1_def rung_branches_def)
  have "anchorId demo_branch = ''c1''" "members demo_branch = [''m1'']"
    by (simp_all add: demo_branch_def)
  with replace_member_loses [OF open_canvas_ok [OF demo_session], unfolded g, OF r, of "''m1''" "demo_node ''c1'' (Contact NO ''start'' None)" 80] show ?thesis
    by (simp add: demo_finds demo_node_def)
qed

subsection \<open>Blocks in rungs\<close>

lemma block_height: "getFbPins f \<noteq> None \<Longrightarrow> 100 \<le> getFbHeight f"
proof -
  assume "getFbPins f \<noteq> None"
  then obtain d where d: "List.find (\<lambda>d. fb_type d = f) FB_DEFINITIONS = Some d"
    by (auto simp: getFbPins_def split: option.splits)
  have "\<forall>d \<in> set FB_DEFINITIONS. 2 \<le> length (fb_inputs d)" by (simp add: FB_DEFINITIONS_def mk_def_def)
  then have "3 \<le> length (side_pins ''EN'' 0 (fb_inputs d))"
    using find_SomeD [OF d] by (auto simp: side_pins_def)
  then have "(3 :: rat) \<le> of_nat (max (length (side_pins ''EN'' 0 (fb_inputs d))) (length (side_pins ''ENO'' FB_WIDTH (fb_outputs d))))"
    by (metis max.coboundedI1 of_nat_le_iff of_nat_numeral)
  then show ?thesis by (simp add: getFbHeight_def getFbPins_def d PIN_ROW_def)
qed

text \<open>
  A function block on a rung without branches always reaches into the next rung. The height of a rung
  does not depend on its blocks (76), a block of the catalog is at least 100 high and drawn 40 below the top
  of its rung, and the next rung starts at 80.
\<close>

theorem block_overlaps_next_rung:
  assumes inv: "ld_inv (g, s)" and k: "Suc k < length (rungs g)" and nb: "rung_branches (rungs g ! k) = []"
    and i: "i \<in> set (elementIds (rungs g ! k))" and n: "findNode g i = Some n" "ndata n = FbBox f ins outs"
    and f: "getFbPins f \<noteq> None" "dheight (ndim n) = getFbHeight f"
  shows "\<exists>p t. map_of (out_positions (layoutGraph g)) i = Some p
    \<and> map_of (rungTops (layoutGraph g)) (rid (rungs g ! Suc k)) = Some t \<and> t + 60 \<le> py p + dheight (ndim n)"
proof -
  obtain j where j: "j < length (elementIds (rungs g ! k))" "elementIds (rungs g ! k) ! j = i"
    using i by (auto simp: in_set_conv_nth)
  have k': "k < length (rungs g)" and refs: "distinct (rung_refs (rungs g ! k))"
    using inv_rung_distinct [OF inv] k by simp_all
  from placed [OF inv k' layoutRung_series [OF refs j(1)]] j(2)
  obtain p where p: "map_of (out_positions (layoutGraph g)) i = Some p" "py p = rung_top (rungs g) k + 40"
    by (auto simp: grid_defs)
  have "rung_top (rungs g) (Suc k) = rung_top (rungs g) k + 80"
    using k' nb by (simp add: rung_top_def take_Suc_conv_app_nth rungHeight_def branch_depth_def)
  moreover have "map_of (rungTops (layoutGraph g)) (rid (rungs g ! Suc k)) = Some (rung_top (rungs g) (Suc k))"
    using layout_rungs_top [OF inv_refs_distinct(2) [OF inv] k, where t = 0] by (simp add: layoutGraph_simps)
  ultimately show ?thesis using p block_height [OF f(1)] f(2) by simp
qed

definition block_demo :: ld_graph where
  "block_demo = \<lparr>gid = ''g'',
     nodes = [\<lparr>nid = ''f'', ndata = FbBox ''TON'' [] [], npos = origin,
       ndim = \<lparr>dwidth = 140, dheight = getFbHeight ''TON''\<rparr>, ncss = None\<rparr>],
     edges = [],
     rungs = [\<lparr>rid = ''r1'', rungNumber = 1, rcomment = None, rtitle = None, elementIds = [''f''], branches = None\<rparr>,
       \<lparr>rid = ''r2'', rungNumber = 2, rcomment = None, rtitle = None, elementIds = [], branches = None\<rparr>]\<rparr>"

lemma block_demo_inv: "ld_inv (block_demo, demo_gen)"
proof -
  have "topo_wf block_demo"
    by (simp add: topo_wf_def block_demo_def node_ids_def rung_node_ids_def rung_refs_def branch_ids_def
        rung_branches_def anchors_ok_def)
  moreover have "edges_wf block_demo" by (simp add: edges_wf_def edges_resolve_def block_demo_def)
  moreover have "all_ids block_demo = {''r1'', ''r2'', ''f''}"
    by (simp add: all_ids_def block_demo_def node_ids_def branch_ids_def rung_branches_def)
  then have "\<forall>x \<in> all_ids block_demo. CHR ''-'' \<notin> set x" by simp
  then have "fresh_for demo_gen (all_ids block_demo)" using no_dash_fresh by blast
  ultimately show ?thesis by (simp add: ld_inv_def)
qed

lemma block_overlaps_next_rung_witness:
  "\<exists>p t. map_of (out_positions (layoutGraph block_demo)) ''f'' = Some p
     \<and> map_of (rungTops (layoutGraph block_demo)) ''r2'' = Some t \<and> t + 60 \<le> py p + getFbHeight ''TON''"
proof -
  have "getFbPins ''TON'' \<noteq> None" by (simp add: getFbPins_def FB_DEFINITIONS_def mk_def_def)
  moreover have rs: "Suc 0 < length (rungs block_demo)" "rung_branches (rungs block_demo ! 0) = []"
    "''f'' \<in> set (elementIds (rungs block_demo ! 0))" "rid (rungs block_demo ! Suc 0) = ''r2''"
    by (simp_all add: block_demo_def rung_branches_def)
  moreover have n: "findNode block_demo ''f'' = Some (hd (nodes block_demo))"
    "ndata (hd (nodes block_demo)) = FbBox ''TON'' [] []" "dheight (ndim (hd (nodes block_demo))) = getFbHeight ''TON''"
    by (simp_all add: block_demo_def findNode_def)
  ultimately show ?thesis
    using block_overlaps_next_rung [OF block_demo_inv rs(1-3) n(1,2)] unfolding n(3) rs(4) by blast
qed

end
