(* ===== verification/LdOverlay.thy ===== *)
theory LdOverlay
  imports LdSession LdOutput
begin

text \<open>
  What lies over the diagram of the ladder canvas (components/LdCanvas.tsx): the Find bar and the Cross
  Reference panel, the marks of the validation that follows every edit, monitoring, the context menu,
  what a drag is over, and the keyboard. The machine of user actions below it is that of LdCanvas. React Flow reports
  what is under the pointer with the event; values of the runtime are a field that nothing fills, as in the code.
\<close>

subsection \<open>State\<close>

record ld_overlay =
  ov_canvas :: ld_canvas
  ov_grid :: bool
  ov_findOpen :: bool
  ov_query :: string
  ov_findIndex :: nat
  ov_xrefOpen :: bool
  ov_focus :: "(string list \<times> string) option"
  ov_monitoring :: bool
  ov_values :: "(string, jsnum) jsmap"
  ov_validation :: validation_markup
  ov_pending :: bool \<comment> \<open>the timer of the next validation runs\<close>
  ov_menu :: "menu option"
  ov_frame :: "drag_target option" \<comment> \<open>dragTargetRef\<close>
  ov_last :: "drag_target option" \<comment> \<open>lastDragTargetRef\<close>
  ov_replace :: "string option"
  ov_center :: "string option" \<comment> \<open>the node the view was last moved to\<close>

definition check_graph :: "ld_graph \<Rightarrow> validation_markup" where
  "check_graph g = parseValidationErrors (validate g) g"

definition open_overlay :: "ld_graph \<Rightarrow> idgen \<Rightarrow> ld_overlay" where
  "open_overlay g s = \<lparr>ov_canvas = open_canvas g s, ov_grid = True, ov_findOpen = False, ov_query = [],
     ov_findIndex = 0, ov_xrefOpen = False, ov_focus = None, ov_monitoring = False, ov_values = [],
     ov_validation = check_graph g, ov_pending = False, ov_menu = None, ov_frame = None, ov_last = None,
     ov_replace = None, ov_center = None\<rparr>"

abbreviation ov_graph :: "ld_overlay \<Rightarrow> ld_graph" where
  "ov_graph v \<equiv> cv_graph (ov_canvas v)"

text \<open>An action of the canvas; a changed document starts the timer again.\<close>

definition act :: "canvas_event \<Rightarrow> ld_overlay \<Rightarrow> ld_overlay" where
  "act e v = (let c = canvas_step e (ov_canvas v)
     in v\<lparr>ov_canvas := c, ov_pending := ov_pending v \<or> cv_graph c \<noteq> ov_graph v\<rparr>)"

definition validation_due :: "ld_overlay \<Rightarrow> ld_overlay" where
  "validation_due v = (if ov_pending v then v\<lparr>ov_validation := check_graph (ov_graph v), ov_pending := False\<rparr> else v)"

subsection \<open>Find and Cross Reference\<close>

definition findMatches :: "ld_overlay \<Rightarrow> string list" where
  "findMatches v = (if ov_findOpen v then map nid (findVariable (ov_graph v) (ov_query v)) else [])"

text \<open>A changed query or panel starts from the first match.\<close>

definition setFindOpen :: "bool \<Rightarrow> ld_overlay \<Rightarrow> ld_overlay" where
  "setFindOpen b v = (if b = ov_findOpen v then v else v\<lparr>ov_findOpen := b, ov_findIndex := 0\<rparr>)"

definition setFindQuery :: "string \<Rightarrow> ld_overlay \<Rightarrow> ld_overlay" where
  "setFindQuery q v = (if q = ov_query v then v else v\<lparr>ov_query := q, ov_findIndex := 0\<rparr>)"

definition highlightIds :: "ld_overlay \<Rightarrow> string list" where
  "highlightIds v = (if findMatches v \<noteq> [] then findMatches v
     else (case ov_focus v of Some (ids, cur) \<Rightarrow> ids | None \<Rightarrow> []))"

definition currentMatchId :: "ld_overlay \<Rightarrow> string option" where
  "currentMatchId v = (if findMatches v \<noteq> [] then Some (findMatches v ! min (ov_findIndex v) (length (findMatches v) - 1))
     else map_option snd (ov_focus v))"

definition find_status :: "ld_overlay \<Rightarrow> string" where
  "find_status v = (if trim (ov_query v) = [] then []
     else if findMatches v = [] then ''No matches''
     else nat_to_dec (min (ov_findIndex v) (length (findMatches v) - 1) + 1) @ ''/'' @ nat_to_dec (length (findMatches v)))"

definition rungNumberFor :: "ld_graph \<Rightarrow> string \<Rightarrow> nat" where
  "rungNumberFor g i = (case List.find (\<lambda>r. i \<in> set (elementIds r) \<or> (\<exists>b \<in> set (rung_branches r). i \<in> set (members b))) (rungs g) of
     Some r \<Rightarrow> rungNumber r | None \<Rightarrow> 0)"

definition usageLabels :: "ld_graph \<Rightarrow> string list \<Rightarrow> string" where
  "usageLabels g ids = join_with '', '' (map (\<lambda>i. ''R'' @ nat_to_dec (rungNumberFor g i)) ids)"

text \<open>A row of the panel: the variable, its number of uses and where they are.\<close>

definition xref_rows :: "string comparator \<Rightarrow> ld_graph \<Rightarrow> (string \<times> nat \<times> string) list" where
  "xref_rows localeCompare g = map (\<lambda>u. (uname u, ucount u, usageLabels g (unodeIds u))) (listVariables localeCompare g)"

text \<open>Only a node that is drawn can be moved to.\<close>

definition scrollToNode :: "string \<Rightarrow> ld_overlay \<Rightarrow> ld_overlay" where
  "scrollToNode i v = (if i \<in> set (map fid (flow_nodes (ov_graph v))) then v\<lparr>ov_center := Some i\<rparr> else v)"

definition goNextMatch :: "ld_overlay \<Rightarrow> ld_overlay" where
  "goNextMatch v = (if findMatches v = [] then v
     else (let k = (ov_findIndex v + 1) mod length (findMatches v)
           in scrollToNode (findMatches v ! k) (v\<lparr>ov_findIndex := k\<rparr>)))"

definition jumpToVariable :: "string \<Rightarrow> ld_overlay \<Rightarrow> ld_overlay" where
  "jumpToVariable name v = (case map nid (findVariable (ov_graph v) name) of
     [] \<Rightarrow> v
   | i # ids \<Rightarrow> scrollToNode i ((setFindOpen False v)\<lparr>ov_focus := Some (i # ids, i)\<rparr>))"

subsection \<open>The context menu\<close>

text \<open>The menu of a right click on a drawn node; blocks and rails have none.\<close>

definition node_menu :: "flow_node \<Rightarrow> menu option" where
  "node_menu n = (case fdata n of
     RungData k c t \<Rightarrow> Some (RungMenu (fid n))
   | ContactData ct w c h \<Rightarrow> Some (ContactMenu (fid n) w ct)
   | CoilData ct w c \<Rightarrow> Some (CoilMenu (fid n) w (shown_coil ct))
   | _ \<Rightarrow> None)"

definition edge_menu :: "ld_graph \<Rightarrow> flow_edge \<Rightarrow> menu" where
  "edge_menu g e = EdgeMenu (feid e) (case findNode g (fsource e) of Some n \<Rightarrow> variableName n | None \<Rightarrow> [])"

definition open_menu :: "menu option \<Rightarrow> ld_overlay \<Rightarrow> ld_overlay" where
  "open_menu m v = (case m of None \<Rightarrow> v | Some k \<Rightarrow> v\<lparr>ov_menu := Some k\<rparr>)"

text \<open>An item acts on the canvas or jumps to a variable, and the menu closes.\<close>

definition choose_item :: "menu_action \<Rightarrow> string option \<Rightarrow> ld_overlay \<Rightarrow> ld_overlay" where
  "choose_item a answer v =
     (case a of MCrossRef name \<Rightarrow> if name = [] then v else jumpToVariable name v | _ \<Rightarrow> act (RunMenu a answer) v)\<lparr>ov_menu := None\<rparr>"

subsection \<open>Dragging\<close>

text \<open>What lies under a point, topmost first: a branch marker with the contact it belongs to, or a drawn node.\<close>

datatype hit = MarkerHit "string option" | NodeHit flow_type "string option" | OtherHit

definition markerToTarget :: "string option \<Rightarrow> ld_graph \<Rightarrow> drag_target option" where
  "markerToTarget contactId g = (if \<not> truthy_id contactId then None
     else map_option (\<lambda>r. BranchMarkerTarget (the contactId) (rid r))
       (List.find (\<lambda>r. the contactId \<in> set (elementIds r) \<or> (\<exists>b \<in> set (rung_branches r). anchorId b = the contactId)) (rungs g)))"

definition marker_hit :: "hit \<Rightarrow> bool" where
  "marker_hit h = (case h of MarkerHit c \<Rightarrow> True | _ \<Rightarrow> False)"

definition node_hit :: "string \<Rightarrow> hit \<Rightarrow> bool" where
  "node_hit ignoreId h = (case h of NodeHit t i \<Rightarrow> \<not> (ignoreId \<noteq> [] \<and> i = Some ignoreId) \<and> element_type t | _ \<Rightarrow> False)"

definition findDragTarget :: "hit list \<Rightarrow> ld_graph \<Rightarrow> string \<Rightarrow> drag_target option" where
  "findDragTarget beneath g ignoreId = (case List.find marker_hit beneath of
     Some (MarkerHit c) \<Rightarrow> markerToTarget c g
   | _ \<Rightarrow> (case List.find (node_hit ignoreId) beneath of
       Some (NodeHit t i) \<Rightarrow> if truthy_id i then Some (ReplaceTarget (the i)) else None
     | _ \<Rightarrow> None))"

definition onNodeDragStart :: "ld_overlay \<Rightarrow> ld_overlay" where
  "onNodeDragStart v = v\<lparr>ov_frame := None, ov_last := None, ov_replace := None\<rparr>"

definition onNodeDrag :: "string \<Rightarrow> flow_type \<Rightarrow> hit list \<Rightarrow> ld_overlay \<Rightarrow> ld_overlay" where
  "onNodeDrag i t beneath v = (if \<not> element_type t then v
     else (let target = findDragTarget beneath (ov_graph v) i
           in v\<lparr>ov_frame := target, ov_last := (if target = None then ov_last v else target),
                ov_replace := (case target of Some (ReplaceTarget j) \<Rightarrow> Some j | _ \<Rightarrow> None)\<rparr>))"

text \<open>
  \<open>slotOf\<close> is where a node is drawn, \<open>None\<close> for NaN. The anchor of a hovered target is looked up only when
  its id is not empty.
\<close>

definition drop_on :: "(string \<Rightarrow> jsnum option) \<Rightarrow> string \<Rightarrow> jsnum \<Rightarrow> hit list \<Rightarrow> ld_overlay \<Rightarrow> drag_target option" where
  "drop_on slotOf i x beneath v =
     drop_target (ov_last v)
       (case ov_last v of None \<Rightarrow> None
        | Some (BranchMarkerTarget contactId r) \<Rightarrow> if contactId = [] then None else slotOf contactId
        | Some (ReplaceTarget j) \<Rightarrow> if j = [] then None else slotOf j)
       x (findDragTarget beneath (ov_graph v) i) (ov_frame v)"

definition drag_drop :: "(string \<Rightarrow> jsnum option) \<Rightarrow> string \<Rightarrow> flow_type \<Rightarrow> string \<Rightarrow> jsnum \<Rightarrow> hit list \<Rightarrow> ld_overlay \<Rightarrow> ld_overlay" where
  "drag_drop slotOf i t parent x beneath v =
     act (DragStop i t parent x (drop_on slotOf i x beneath v)) (v\<lparr>ov_frame := None, ov_last := None, ov_replace := None\<rparr>)"

subsection \<open>The keyboard\<close>

text \<open>
  A key with Ctrl (or Cmd) and Shift; \<open>inField\<close> says that an input has the focus. Escape closes the Find bar and
  the field being edited.
\<close>

definition on_key :: "bool \<Rightarrow> bool \<Rightarrow> string \<Rightarrow> bool \<Rightarrow> ld_overlay \<Rightarrow> ld_overlay" where
  "on_key ctrl shift k inField v = (let key = toLowerCase k in
     if ctrl \<and> key = ''g'' then v\<lparr>ov_grid := \<not> ov_grid v\<rparr>
     else if ctrl \<and> shift \<and> key = ''x'' then v\<lparr>ov_xrefOpen := \<not> ov_xrefOpen v\<rparr>
     else if ctrl \<and> \<not> shift \<and> key = ''f'' then setFindOpen True v
     else if k = ''Escape'' then act EscapeKey (setFindOpen False v)
     else if ctrl \<and> \<not> shift \<and> key = ''z'' \<and> \<not> inField then act UndoKey v
     else if ctrl \<and> \<not> shift \<and> key = ''y'' \<and> \<not> inField then act RedoKey v
     else if ctrl \<and> \<not> shift \<and> key = ''c'' \<and> \<not> inField then act CopyKey v
     else if ctrl \<and> \<not> shift \<and> key = ''v'' \<and> \<not> inField then act PasteKey v
     else if ctrl \<and> \<not> shift \<and> key = ''x'' \<and> \<not> inField then act CutKey v
     else if \<not> inField \<and> (k = ''Tab'' \<or> k = ''Enter'') then act (FieldKey (k = ''Enter'') shift) v
     else v)"

subsection \<open>All actions\<close>

datatype overlay_event =
    Canvas canvas_event
  | Key bool bool string bool
  | FindButton
  | TypeQuery string
  | FindEnter
  | XrefButton
  | XrefRow string
  | GridButton
  | MonitorButton
  | NodeContext flow_node
  | EdgeContext flow_edge
  | PaneContext
  | ChooseItem menu_action "string option"
  | CloseMenu
  | DragStart
  | Drag string flow_type "hit list"
  | DragDrop "string \<Rightarrow> jsnum option" string flow_type string jsnum "hit list"
  | TimerFires

fun overlay_step :: "overlay_event \<Rightarrow> ld_overlay \<Rightarrow> ld_overlay" where
  "overlay_step (Canvas e) v = act e v"
| "overlay_step (Key ctrl shift k inField) v = on_key ctrl shift k inField v"
| "overlay_step FindButton v = setFindOpen (\<not> ov_findOpen v) v"
| "overlay_step (TypeQuery q) v = setFindQuery q v"
| "overlay_step FindEnter v = goNextMatch v"
| "overlay_step XrefButton v = v\<lparr>ov_xrefOpen := \<not> ov_xrefOpen v\<rparr>"
| "overlay_step (XrefRow name) v = jumpToVariable name v"
| "overlay_step GridButton v = v\<lparr>ov_grid := \<not> ov_grid v\<rparr>"
| "overlay_step MonitorButton v = v\<lparr>ov_monitoring := \<not> ov_monitoring v\<rparr>"
| "overlay_step (NodeContext n) v = open_menu (node_menu n) v"
| "overlay_step (EdgeContext e) v = open_menu (Some (edge_menu (ov_graph v) e)) v"
| "overlay_step PaneContext v = open_menu (Some PaneMenu) v"
| "overlay_step (ChooseItem a answer) v = choose_item a answer v"
| "overlay_step CloseMenu v = v\<lparr>ov_menu := None\<rparr>"
| "overlay_step DragStart v = onNodeDragStart v"
| "overlay_step (Drag i t beneath) v = onNodeDrag i t beneath v"
| "overlay_step (DragDrop slotOf i t parent x beneath) v = drag_drop slotOf i t parent x beneath v"
| "overlay_step TimerFires v = validation_due v"

definition overlay_run :: "overlay_event list \<Rightarrow> ld_overlay \<Rightarrow> ld_overlay" where
  "overlay_run es v = fold overlay_step es v"

subsection \<open>What is drawn over the diagram\<close>

record decoration =
  dc_class :: "string option"
  dc_errorCount :: "nat option"
  dc_errorTitle :: "string option"
  dc_warnings :: "(nat \<times> string) option"
  dc_value :: "jsnum option"
  dc_edit :: "(string \<times> nat) option"

definition add_class :: "string \<Rightarrow> string option \<Rightarrow> string option" where
  "add_class new c = Some (case c of Some old \<Rightarrow> if old = [] then new else old @ '' '' @ new | None \<Rightarrow> new)"

definition flow_rung_number :: "flow_node \<Rightarrow> nat" where
  "flow_rung_number n = (case fdata n of RungData k c t \<Rightarrow> k | _ \<Rightarrow> 0)"

definition found_class :: "ld_overlay \<Rightarrow> string \<Rightarrow> string option" where
  "found_class v i = (if i \<in> set (highlightIds v)
     then Some (if currentMatchId v = Some i then ''ld-node--found ld-node--current-match'' else ''ld-node--found'') else None)"

text \<open>The messages of a rung, when it is marked: by its id or by its number.\<close>

definition rung_messages :: "validation_markup \<Rightarrow> flow_node \<Rightarrow> string list" where
  "rung_messages vm n =
     (if fid n \<in> set (rungIds vm) \<or> (flow_rung_number n > 0 \<and> flow_rung_number n \<in> set (rungNumbers vm))
      then get_or (rungErrors vm) (flow_rung_number n) [] else [])"

definition decorate :: "ld_overlay \<Rightarrow> flow_node \<Rightarrow> decoration" where
  "decorate v n =
     (let vm = ov_validation v; k = flow_rung_number n; i = fid n;
          c1 = found_class v i;
          c2 = (if ov_replace v = Some i then add_class ''ld-node--replace-target'' c1 else c1);
          rungMsgs = rung_messages vm n;
          c3 = (if rungMsgs \<noteq> [] then add_class ''ld-node--error'' c2 else c2);
          c4 = (if i \<in> set (nodeIds vm) then add_class ''ld-node--error'' c3 else c3);
          warns = (if k > 0 \<and> k \<in> set (warningRungNumbers vm) then get_or (rungWarnings vm) k [] else [])
      in \<lparr>dc_class = c4,
          dc_errorCount = (if rungMsgs \<noteq> [] then Some (length rungMsgs) else None),
          dc_errorTitle = (if i \<in> set (nodeIds vm) then Some (join_with newline (get_or (nodeErrors vm) i []))
            else if rungMsgs \<noteq> [] then Some (join_with newline rungMsgs) else None),
          dc_warnings = (if warns \<noteq> [] then Some (length warns, join_with newline warns) else None),
          dc_value = (if ov_monitoring v \<and> flow_type_of (fdata n) \<in> {RF_CONTACT, RF_COIL} then Some (get_or (ov_values v) i 0) else None),
          dc_edit = (case cv_edit (ov_canvas v) of Some (j, f, q) \<Rightarrow> if j = i then Some (f, q) else None | None \<Rightarrow> None)\<rparr>)"

text \<open>The nodes handed to React Flow: the diagram, then the insertion markers of the pending tool or the open branch.\<close>

definition shown_nodes :: "ld_overlay \<Rightarrow> (flow_node \<times> decoration option) list" where
  "shown_nodes v = (let c = ov_canvas v; g = cv_graph c in
     map (\<lambda>n. (n, Some (decorate v n))) (flow_nodes g)
     @ map (\<lambda>n. (n, None)) (if cv_tool c \<noteq> None \<and> cv_tool c \<noteq> Some BranchTool then insert_markers g
         else (case cv_branch c of Some (b, r) \<Rightarrow> branch_markers g r | None \<Rightarrow> [])))"

definition wire_active :: "ld_overlay \<Rightarrow> nat \<Rightarrow> flow_edge \<Rightarrow> bool" where
  "wire_active v k e \<longleftrightarrow> ov_monitoring v
     \<and> (if ov_values v \<noteq> [] then get_or (ov_values v) (fsource e) 0 \<noteq> 0 else k mod 2 = 0)"

definition shown_edges :: "ld_overlay \<Rightarrow> (flow_edge \<times> bool) list" where
  "shown_edges v = map (\<lambda>(k, e). (e, wire_active v k e)) (List.enumerate 0 (snd (graphToFlow (ov_graph v))))"

text \<open>The badge of the toolbar and its tooltip.\<close>

definition warning_sign :: string where
  "warning_sign = [CHR 0xE2, CHR 0x9A, CHR 0xA0]"

definition check_sign :: string where
  "check_sign = [CHR 0xE2, CHR 0x9C, CHR 0x93]"

definition plural :: "string \<Rightarrow> nat \<Rightarrow> string" where
  "plural noun k = nat_to_dec k @ '' '' @ noun @ (if k = 1 then [] else ''s'')"

definition validation_badge :: "validation_markup \<Rightarrow> string" where
  "validation_badge vm = (if total vm > 0 then warning_sign @ '' '' @ plural ''error'' (total vm)
     else if warningTotal vm > 0 then warning_sign @ '' '' @ plural ''warning'' (warningTotal vm) else check_sign)"

definition validation_title :: "validation_markup \<Rightarrow> string option" where
  "validation_title vm = (if messages vm \<noteq> [] then Some (join_with newline (messages vm))
     else (let t = join_with newline (concat (map snd (rungWarnings vm))) in if t = [] then None else Some t))"

end
