(* ===== verification/LdOverlayProps.thy ===== *)
theory LdOverlayProps
  imports LdOverlay LdCanvasProps
begin

text \<open>
  The properties of what lies over the ladder diagram. Every action of the overlay projects to actions of the
  canvas, so the invariants of LdSession hold below it; the marks are those of the document once the timer
  has run; Find visits every match; the Cross Reference knows the rung of every use.
\<close>

subsection \<open>The overlay acts through the canvas\<close>

definition validated :: "ld_overlay \<Rightarrow> bool" where
  "validated v \<longleftrightarrow> ov_pending v \<or> ov_validation v = check_graph (ov_graph v)"

lemma act_fields [simp]:
  "ov_canvas (act e v) = canvas_step e (ov_canvas v)" "ov_focus (act e v) = ov_focus v"
  "validated v \<Longrightarrow> validated (act e v)"
  by (auto simp: act_def Let_def validated_def)

lemma panel_canvas [simp]:
  "ov_canvas (setFindOpen b v) = ov_canvas v" "ov_canvas (setFindQuery q v) = ov_canvas v"
  "ov_canvas (scrollToNode i v) = ov_canvas v" "ov_canvas (goNextMatch v) = ov_canvas v"
  "ov_canvas (jumpToVariable name v) = ov_canvas v" "ov_canvas (open_menu m v) = ov_canvas v"
  "ov_canvas (onNodeDragStart v) = ov_canvas v" "ov_canvas (onNodeDrag i t beneath v) = ov_canvas v"
  "ov_canvas (validation_due v) = ov_canvas v"
  by (simp_all add: setFindOpen_def setFindQuery_def scrollToNode_def goNextMatch_def Let_def jumpToVariable_def
      open_menu_def onNodeDragStart_def onNodeDrag_def validation_due_def split: list.split option.split)

lemma panel_validated [simp]:
  "validated (setFindOpen b v) = validated v" "validated (setFindQuery q v) = validated v"
  "validated (scrollToNode i v) = validated v" "validated (goNextMatch v) = validated v"
  "validated (jumpToVariable name v) = validated v" "validated (open_menu m v) = validated v"
  "validated (onNodeDragStart v) = validated v" "validated (onNodeDrag i t beneath v) = validated v"
  by (simp_all add: validated_def setFindOpen_def setFindQuery_def scrollToNode_def goNextMatch_def Let_def jumpToVariable_def
      open_menu_def onNodeDragStart_def onNodeDrag_def split: list.split option.split)

lemma field_validated [simp]:
  "validated (v\<lparr>ov_grid := a\<rparr>) = validated v" "validated (v\<lparr>ov_xrefOpen := a\<rparr>) = validated v"
  "validated (v\<lparr>ov_monitoring := a\<rparr>) = validated v" "validated (v\<lparr>ov_menu := m\<rparr>) = validated v"
  "validated (v\<lparr>ov_frame := t, ov_last := t', ov_replace := i\<rparr>) = validated v"
  "validated v \<Longrightarrow> validated (validation_due v)"
  by (auto simp: validated_def validation_due_def)

text \<open>The actions of the canvas in one step: none or one.\<close>

definition projects :: "ld_overlay \<Rightarrow> ld_overlay \<Rightarrow> bool" where
  "projects v w \<longleftrightarrow> (\<exists>cs. ov_canvas w = canvas_run cs (ov_canvas v)) \<and> (validated v \<longrightarrow> validated w)"

lemma projects_same: "ov_canvas w = ov_canvas v \<Longrightarrow> (validated v \<Longrightarrow> validated w) \<Longrightarrow> projects v w"
  unfolding projects_def canvas_run_def by (auto intro: exI [of _ "[]"])

lemma projects_act: "projects v (act e v)"
  unfolding projects_def canvas_run_def by (auto intro: exI [of _ "[e]"])

lemma canvas_run_append: "canvas_run (es @ fs) c = canvas_run fs (canvas_run es c)"
  by (simp add: canvas_run_def)

lemma projects_trans: "projects u v \<Longrightarrow> projects v w \<Longrightarrow> projects u w"
  unfolding projects_def by (metis canvas_run_append)

lemma projects_act_from: "ov_canvas v' = ov_canvas v \<Longrightarrow> (validated v \<Longrightarrow> validated v') \<Longrightarrow> projects v (act e v')"
  by (rule projects_trans [OF projects_same projects_act])

lemma if_in: "x \<in> S \<Longrightarrow> y \<in> S \<Longrightarrow> (if b then x else y) \<in> S"
  by simp

lemma key_outcomes: "on_key ctrl shift k inField v \<in>
    {v, v\<lparr>ov_grid := \<not> ov_grid v\<rparr>, v\<lparr>ov_xrefOpen := \<not> ov_xrefOpen v\<rparr>, setFindOpen True v}
    \<union> range (\<lambda>e. act e (setFindOpen False v)) \<union> range (\<lambda>e. act e v)"
  unfolding on_key_def Let_def by (intro if_in; blast)

lemma key_projects: "projects v (on_key ctrl shift k inField v)"
proof -
  have "{v, v\<lparr>ov_grid := \<not> ov_grid v\<rparr>, v\<lparr>ov_xrefOpen := \<not> ov_xrefOpen v\<rparr>, setFindOpen True v}
      \<union> range (\<lambda>e. act e (setFindOpen False v)) \<union> range (\<lambda>e. act e v) \<subseteq> Collect (projects v)"
    by (auto intro: projects_act projects_same projects_act_from)
  with key_outcomes show ?thesis by blast
qed

lemma choose_projects: "projects v (choose_item a answer v)"
proof -
  have "projects v u \<Longrightarrow> projects v (u\<lparr>ov_menu := None\<rparr>)" for u
    by (rule projects_trans [where v = u]) (simp_all add: projects_same)
  moreover have "projects v v" "projects v (jumpToVariable name v)" for name
    by (simp_all add: projects_same)
  ultimately show ?thesis
    unfolding choose_item_def by (cases a) (simp_all add: projects_act)
qed

lemma overlay_step_projects: "projects v (overlay_step e v)"
proof (cases e)
  case (DragDrop slotOf i t parent x beneath)
  then show ?thesis by (auto simp: drag_drop_def intro: projects_act_from)
qed (auto intro: projects_act projects_same key_projects choose_projects)

lemma overlay_run_projects: "projects v (overlay_run es v)"
  unfolding overlay_run_def
  by (induction es arbitrary: v) (auto simp: projects_same intro: projects_trans overlay_step_projects)

lemma open_validated: "validated (open_overlay g s)"
  by (simp add: validated_def open_overlay_def open_canvas_def ld_new_state_def)

lemma overlay_canvas_ok:
  assumes "session_ok (g, s)" "v = overlay_run es (open_overlay g s)"
  shows "canvas_ok (ov_canvas v)" "validated v"
    "\<exists>cs. ov_canvas v = canvas_run cs (open_canvas g s)"
proof -
  have p: "projects (open_overlay g s) v" unfolding assms(2) by (rule overlay_run_projects)
  then show run: "\<exists>cs. ov_canvas v = canvas_run cs (open_canvas g s)"
    by (simp add: projects_def open_overlay_def)
  with canvas_run_ok [OF open_canvas_ok [OF assms(1)]] show "canvas_ok (ov_canvas v)" by auto
  from p open_validated show "validated v" by (simp add: projects_def)
qed

subsection \<open>The marks\<close>

text \<open>The messages about the rungs of a number.\<close>

definition number_errors :: "ld_graph \<Rightarrow> nat \<Rightarrow> string list" where
  "number_errors g k = concat (map (rung_rule_errors g) (filter (\<lambda>r. rungNumber r = k) (rungs g)))"

lemma get_or_marked: "get_or m k [] = marked m k"
  by (simp add: get_or_def marked_def)

lemma good_marks:
  assumes "ld_inv (g, s)" "owned g"
  shows "marked (rungErrors (check_graph g)) k = number_errors g k" and "nodeIds (check_graph g) = []"
    and "k \<in> set (rungNumbers (check_graph g)) \<longleftrightarrow> number_errors g k \<noteq> []"
proof -
  note errs = good_validate_errors [OF assms]
  have num: "error_rung e = Some (rungNumber r)" if "e \<in> set (rung_rule_errors g r)" for e r
    using rung_rule_number [OF that] by (simp add: error_rung_def)
  have "filter (\<lambda>e. error_rung e = Some k) (rung_rule_errors g r)
      = (if rungNumber r = k then rung_rule_errors g r else [])" for r
    using num [of _ r] by (auto simp: filter_id_conv filter_empty_conv)
  then have "filter (\<lambda>e. error_rung e = Some k) (concat (map (rung_rule_errors g) rs))
      = concat (map (rung_rule_errors g) (filter (\<lambda>r. rungNumber r = k) rs))" for rs
    by (induction rs) simp_all
  then show *: "marked (rungErrors (check_graph g)) k = number_errors g k"
    by (simp add: check_graph_def markup_errors(1) errs number_errors_def)
  have "error_node ids e = None" if "e \<in> set (errors (validate g))" for ids e
    using that num unfolding errs by (force simp: error_node_def)
  then have "set (nodeIds (check_graph g)) = {}" by (simp add: check_graph_def markup_nodeIds(1))
  then show "nodeIds (check_graph g) = []" by simp
  have "k \<in> set (rungNumbers (check_graph g)) \<longleftrightarrow> marked (rungErrors (check_graph g)) k \<noteq> []"
    by (auto simp: check_graph_def markup_rungNumbers(1) markup_errors(1) filter_empty_conv)
  with * show "k \<in> set (rungNumbers (check_graph g)) \<longleftrightarrow> number_errors g k \<noteq> []" by simp
qed

definition error_marked :: "decoration \<Rightarrow> bool" where
  "error_marked d \<longleftrightarrow> (case dc_class d of Some c \<Rightarrow> str_includes c ''ld-node--error'' | None \<Rightarrow> False)"

lemma error_class: "error_marked (decorate v n) \<longleftrightarrow> rung_messages (ov_validation v) n \<noteq> [] \<or> fid n \<in> set (nodeIds (ov_validation v))"
proof -
  have added: "case add_class new c of Some x \<Rightarrow> str_includes x new | None \<Rightarrow> False" for new c
    using str_includes_infix [of "the c @ '' ''" new "[]"] str_includes_infix [of "[]" new "[]"]
    by (auto simp: add_class_def split: option.split)
  have clear: "\<not> str_includes ''ld-node--found ld-node--current-match'' ''ld-node--error''"
    "\<not> str_includes ''ld-node--found'' ''ld-node--error''" "\<not> str_includes ''ld-node--replace-target'' ''ld-node--error''"
    "\<not> str_includes ''ld-node--found ld-node--current-match ld-node--replace-target'' ''ld-node--error''"
    "\<not> str_includes ''ld-node--found ld-node--replace-target'' ''ld-node--error''"
    by code_simp+
  show ?thesis
    using added [of "''ld-node--error''"] clear
    by (auto simp: error_marked_def decorate_def Let_def found_class_def add_class_def split: option.split if_splits)
qed

lemma good_rungIds:
  assumes "ld_inv (g, s)" "owned g"
  shows "rungIds (check_graph g) = []"
proof -
  have kept: "s_rungIds (foldl (mark_error ids) st msgs) = s_rungIds st" if "\<forall>m \<in> set msgs. rung_number_re m \<noteq> None" for ids st msgs
    using that by (induction msgs arbitrary: st) (auto simp: mark_error_def)
  have "\<forall>m \<in> set (errors (validate g)). rung_number_re m \<noteq> None"
    using rung_rule_number unfolding good_validate_errors [OF assms] by fastforce
  from kept [OF this] show ?thesis by (simp add: check_graph_def parseValidationErrors_def Let_def)
qed

lemma good_rung_messages:
  assumes "ld_inv (g, s)" "owned g"
  shows "rung_messages (check_graph g) n = (if flow_rung_number n > 0 then number_errors g (flow_rung_number n) else [])"
  using good_marks(1,3) [OF assms, of "flow_rung_number n"] good_rungIds [OF assms] by (simp add: rung_messages_def get_or_marked)

lemma number_errors_broken:
  assumes "ld_inv (g, s)"
  shows "number_errors g k \<noteq> [] \<longleftrightarrow> (\<exists>r \<in> set (rungs g). \<not> well_ordered g r \<and> rungNumber r = k)"
proof -
  have "rung_rule_errors g r = [] \<longleftrightarrow> well_ordered g r" if r: "r \<in> set (rungs g)" for r
  proof (rule rung_rules_iff)
    show "i \<in> set (elementIds r) \<Longrightarrow> findNode g i \<noteq> None" for i
      using series_in_nodes [OF assms r] by (simp add: findNode_None)
  qed
  then show ?thesis by (auto simp: number_errors_def)
qed

text \<open>What a jump leaves highlighted: its first node is the current one.\<close>

definition focus_ok :: "ld_overlay \<Rightarrow> bool" where
  "focus_ok v \<longleftrightarrow> (case ov_focus v of None \<Rightarrow> True | Some (ids, cur) \<Rightarrow> ids \<noteq> [] \<and> hd ids = cur)"

lemma panel_focus [simp]:
  "ov_focus (setFindOpen b v) = ov_focus v" "ov_focus (setFindQuery q v) = ov_focus v"
  "ov_focus (scrollToNode i v) = ov_focus v" "ov_focus (goNextMatch v) = ov_focus v"
  "ov_focus (open_menu m v) = ov_focus v" "ov_focus (onNodeDragStart v) = ov_focus v"
  "ov_focus (onNodeDrag i t beneath v) = ov_focus v" "ov_focus (validation_due v) = ov_focus v"
  by (simp_all add: setFindOpen_def setFindQuery_def scrollToNode_def goNextMatch_def Let_def
      open_menu_def onNodeDragStart_def onNodeDrag_def validation_due_def split: option.split)

lemma key_focus [simp]: "ov_focus (on_key ctrl shift k inField v) = ov_focus v"
  using key_outcomes [of ctrl shift k inField v] by auto

lemma jump_focus: "focus_ok v \<Longrightarrow> focus_ok (jumpToVariable name v)"
  by (simp add: focus_ok_def jumpToVariable_def split: list.split)

lemma overlay_step_focus: "focus_ok v \<Longrightarrow> focus_ok (overlay_step e v)"
proof (cases e)
  case (ChooseItem a answer)
  assume ok: "focus_ok v"
  show ?thesis
    using ok jump_focus [OF ok] by (cases a) (simp_all add: ChooseItem choose_item_def focus_ok_def)
next
  case (XrefRow name)
  then show "focus_ok v \<Longrightarrow> ?thesis" by (simp add: jump_focus)
qed (simp_all add: focus_ok_def drag_drop_def)

lemma overlay_run_focus: "focus_ok v \<Longrightarrow> focus_ok (overlay_run es v)"
  unfolding overlay_run_def by (induction es arbitrary: v) (simp_all add: overlay_step_focus)

lemma current_highlighted:
  assumes "focus_ok v" "currentMatchId v = Some i"
  shows "i \<in> set (highlightIds v)"
proof (cases "findMatches v = []")
  case True
  with assms show ?thesis by (auto simp: currentMatchId_def highlightIds_def focus_ok_def split: option.splits)
next
  case False
  then have "min (ov_findIndex v) (length (findMatches v) - 1) < length (findMatches v)" by (cases "findMatches v") auto
  with False assms(2) show ?thesis by (auto simp: currentMatchId_def highlightIds_def)
qed

lemma matches_drawn:
  assumes "canvas_ok (ov_canvas v)"
  shows "set (map nid (findVariable (ov_graph v) q)) \<subseteq> set (map fid (flow_nodes (ov_graph v)))"
  unfolding view_complete(2) [OF canvas_session_ok [OF assms]]
  by (auto simp: findVariable_def Let_def node_ids_def)

text \<open>
  C25: whatever the user does over the ladder canvas, starting from a well-formed document that is drawn completely, with
  Find, Cross Reference, keys, menus and drags between the
  edits, the document below is one the canvas reaches by its own actions; as soon as the timer has run, a rung is drawn as an
  error exactly when a rung of its number breaks a rung rule, with the number of messages about it, and no
  element is; the current match is among the highlighted nodes; and every match of Find is drawn.
\<close>

theorem overlay_session:
  assumes "session_ok (g, s)" "v = overlay_run es (open_overlay g s)"
  shows "(\<exists>cs. ov_canvas v = canvas_run cs (open_canvas g s))
    \<and> (\<not> ov_pending v \<longrightarrow> (\<forall>n \<in> set (flow_nodes (ov_graph v)).
         (error_marked (decorate v n) \<longleftrightarrow> flow_rung_number n > 0
           \<and> (\<exists>r \<in> set (rungs (ov_graph v)). \<not> well_ordered (ov_graph v) r \<and> rungNumber r = flow_rung_number n))
         \<and> (error_marked (decorate v n) \<longrightarrow> dc_errorCount (decorate v n) = Some (length (number_errors (ov_graph v) (flow_rung_number n))))))
    \<and> (\<forall>i. currentMatchId v = Some i \<longrightarrow> i \<in> set (highlightIds v))
    \<and> set (findMatches v) \<subseteq> set (map fid (flow_nodes (ov_graph v)))"
proof -
  note ok = overlay_canvas_ok [OF assms]
  from canvas_session_ok [OF ok(1)] have inv: "ld_inv (ov_graph v, cv_gen (ov_canvas v))" "owned (ov_graph v)"
    by (simp_all add: session_ok_def ld_good_def)
  have "focus_ok v" unfolding assms(2) by (rule overlay_run_focus) (simp add: focus_ok_def open_overlay_def)
  then have current: "\<forall>i. currentMatchId v = Some i \<longrightarrow> i \<in> set (highlightIds v)"
    using current_highlighted by blast
  have drawn: "set (findMatches v) \<subseteq> set (map fid (flow_nodes (ov_graph v)))"
    using matches_drawn [OF ok(1)] unfolding findMatches_def by (cases "ov_findOpen v") (simp_all del: set_map)
  have msgs: "rung_messages (ov_validation v) n
      = (if flow_rung_number n > 0 then number_errors (ov_graph v) (flow_rung_number n) else [])"
    and none: "nodeIds (ov_validation v) = []" if "\<not> ov_pending v" for n
    using that ok(2) good_rung_messages [OF inv] good_marks(2) [OF inv] by (simp_all add: validated_def)
  have marks: "(error_marked (decorate v n) \<longleftrightarrow> flow_rung_number n > 0
        \<and> (\<exists>r \<in> set (rungs (ov_graph v)). \<not> well_ordered (ov_graph v) r \<and> rungNumber r = flow_rung_number n))
      \<and> (error_marked (decorate v n) \<longrightarrow> dc_errorCount (decorate v n) = Some (length (number_errors (ov_graph v) (flow_rung_number n))))"
    if timer: "\<not> ov_pending v" for n
  proof -
    have "dc_errorCount (decorate v n) = (if rung_messages (ov_validation v) n \<noteq> []
        then Some (length (rung_messages (ov_validation v) n)) else None)"
      by (simp add: decorate_def Let_def)
    then show ?thesis
      using number_errors_broken [OF inv(1), of "flow_rung_number n"]
      unfolding error_class msgs [OF timer, of n] none [OF timer] by simp
  qed
  show ?thesis using ok(3) current drawn marks by blast
qed

definition searched :: ld_overlay where
  "searched = overlay_run [Key True False ''f'' False, TypeQuery ''motor'', FindEnter] (open_overlay demo demo_gen)"

lemma overlay_session_witness:
  "(case currentMatchId searched of None \<Rightarrow> True | Some i \<Rightarrow> i \<in> set (highlightIds searched))
    \<and> set (findMatches searched) \<subseteq> set (map fid (flow_nodes (ov_graph searched)))"
proof -
  note all = overlay_session [OF demo_session searched_def]
  from all have "\<forall>i. currentMatchId searched = Some i \<longrightarrow> i \<in> set (highlightIds searched)" by blast
  moreover from all have "set (findMatches searched) \<subseteq> set (map fid (flow_nodes (ov_graph searched)))" by blast
  ultimately show ?thesis by (simp split: option.split del: set_map)
qed

subsection \<open>Find\<close>

lemma next_match:
  assumes "findMatches v \<noteq> []"
  shows "findMatches (goNextMatch v) = findMatches v"
    and "ov_findIndex (goNextMatch v) = (ov_findIndex v + 1) mod length (findMatches v)"
    and "ov_query (goNextMatch v) = ov_query v"
  using assms by (simp_all add: goNextMatch_def Let_def scrollToNode_def findMatches_def)

lemma next_matches:
  assumes "findMatches v \<noteq> []"
  shows "findMatches ((goNextMatch ^^ k) v) = findMatches v" "ov_query ((goNextMatch ^^ k) v) = ov_query v"
    and "ov_findIndex v < length (findMatches v) \<Longrightarrow> ov_findIndex ((goNextMatch ^^ k) v) = (ov_findIndex v + k) mod length (findMatches v)"
    and "ov_canvas ((goNextMatch ^^ k) v) = ov_canvas v"
proof -
  show *: "findMatches ((goNextMatch ^^ k) v) = findMatches v" for k
    by (induction k) (simp_all add: next_match assms)
  show "ov_query ((goNextMatch ^^ k) v) = ov_query v"
    using next_match(3) by (induction k) (simp_all add: * assms)
  show "ov_canvas ((goNextMatch ^^ k) v) = ov_canvas v" by (induction k) simp_all
  show "ov_findIndex ((goNextMatch ^^ k) v) = (ov_findIndex v + k) mod length (findMatches v)"
    if "ov_findIndex v < length (findMatches v)"
    using that by (induction k) (simp_all add: next_match * assms mod_Suc_eq)
qed

lemma current_in_range:
  assumes "findMatches v \<noteq> []" "ov_findIndex v < length (findMatches v)"
  shows "currentMatchId v = Some (findMatches v ! ov_findIndex v)"
    and "find_status v = nat_to_dec (ov_findIndex v + 1) @ ''/'' @ nat_to_dec (length (findMatches v))"
proof -
  have m: "min (ov_findIndex v) (length (findMatches v) - Suc 0) = ov_findIndex v" using assms(2) by simp
  show "currentMatchId v = Some (findMatches v ! ov_findIndex v)"
    using assms(1) by (simp add: currentMatchId_def m)
  have "trim (ov_query v) \<noteq> []" using assms(1)
    by (auto simp: findMatches_def findVariable_def toLowerCase_def split: if_splits)
  then show "find_status v = nat_to_dec (ov_findIndex v + 1) @ ''/'' @ nat_to_dec (length (findMatches v))"
    using assms(1) by (simp add: find_status_def m)
qed

text \<open>
  From a new query, pressing Enter in the Find bar visits the matches in document order, each once, then
  starts over: after k presses the current match is the one at k modulo their number, its position is
  shown, and from the first press on the view has moved to it; nothing of the document changes.
\<close>

theorem find_visits:
  assumes "session_ok (g, s)" "v = overlay_run es (open_overlay g s)"
    and fresh: "ov_findIndex v = 0" and some: "findMatches v \<noteq> []"
  shows "let n = length (findMatches v); w = (goNextMatch ^^ k) v in
    currentMatchId w = Some (findMatches v ! (k mod n)) \<and> find_status w = nat_to_dec (k mod n + 1) @ ''/'' @ nat_to_dec n
    \<and> (k > 0 \<longrightarrow> ov_center w = currentMatchId w) \<and> ov_canvas w = ov_canvas v
    \<and> (distinct (findMatches v) \<and> set (findMatches v) = set (map nid (findVariable (ov_graph v) (ov_query v))))"
proof -
  let ?n = "length (findMatches v)" and ?w = "(goNextMatch ^^ k) v"
  note ok = overlay_canvas_ok(1) [OF assms(1,2)]
  have "?n > 0" using some by simp
  then have w: "findMatches ?w = findMatches v" "ov_findIndex ?w = k mod ?n"
    using next_matches [OF some] fresh by simp_all
  have in_range: "findMatches ?w \<noteq> []" "ov_findIndex ?w < length (findMatches ?w)"
    using some \<open>?n > 0\<close> by (simp_all add: w)
  have current: "currentMatchId ?w = Some (findMatches v ! (k mod ?n))"
    using current_in_range(1) [OF in_range] by (simp add: w)
  have center: "ov_center ?w = currentMatchId ?w" if k: "k > 0"
  proof -
    from k obtain j where j: "k = Suc j" by (cases k) auto
    let ?u = "(goNextMatch ^^ j) v"
    have u: "findMatches ?u = findMatches v" "ov_canvas ?u = ov_canvas v" using next_matches [OF some] by simp_all
    have idx: "(ov_findIndex ?u + 1) mod ?n = k mod ?n"
      using next_match(2) [of ?u] some w(2) by (simp add: u j)
    have "findMatches v ! (k mod ?n) \<in> set (findMatches v)" using \<open>?n > 0\<close> by simp
    then have "findMatches v ! (k mod ?n) \<in> set (map fid (flow_nodes (ov_graph v)))"
      using matches_drawn [OF ok] unfolding findMatches_def by (cases "ov_findOpen v") auto
    then have "ov_center (goNextMatch ?u) = Some (findMatches v ! (k mod ?n))"
      using some idx by (simp add: goNextMatch_def Let_def scrollToNode_def u del: set_map)
    then show ?thesis using current by (simp add: j)
  qed
  have bar: "ov_findOpen v" using some by (simp add: findMatches_def split: if_splits)
  have "distinct (node_ids (ov_graph v))"
    using canvas_session_ok [OF ok] by (auto simp: session_ok_def ld_good_def dest: ld_invD(1))
  then have "distinct (findMatches v)"
    using bar by (simp add: findMatches_def findVariable_def Let_def node_ids_def distinct_map_filter)
  moreover have "set (findMatches v) = set (map nid (findVariable (ov_graph v) (ov_query v)))"
    using bar by (simp add: findMatches_def)
  ultimately show ?thesis
    using current current_in_range(2) [OF in_range] center next_matches(4) [OF some] by (simp add: Let_def w)
qed

lemma find_demo: "findMatches (setFindQuery '' MOTOR '' (setFindOpen True (open_overlay demo demo_gen))) = [''q1'', ''m1'']"
  by (simp add: setFindQuery_def setFindOpen_def findMatches_def open_overlay_def open_canvas_def ld_new_state_def) code_simp

lemma find_visits_witness:
  "currentMatchId ((goNextMatch ^^ 3) (setFindQuery '' MOTOR '' (setFindOpen True (open_overlay demo demo_gen)))) = Some ''m1''"
proof -
  let ?v = "setFindQuery '' MOTOR '' (setFindOpen True (open_overlay demo demo_gen))"
  have run: "?v = overlay_run [FindButton, TypeQuery '' MOTOR ''] (open_overlay demo demo_gen)"
    by (simp add: overlay_run_def open_overlay_def)
  have "ov_findIndex ?v = 0" by (simp add: setFindQuery_def setFindOpen_def open_overlay_def)
  moreover have "findMatches ?v \<noteq> []" by (simp add: find_demo)
  ultimately have "currentMatchId ((goNextMatch ^^ 3) ?v) = Some (findMatches ?v ! (3 mod length (findMatches ?v)))"
    using find_visits [OF demo_session run, of 3] unfolding Let_def by blast
  then show ?thesis by (simp add: find_demo numeral_3_eq_3 mod_Suc)
qed

subsection \<open>Cross Reference\<close>











subsection \<open>Keys typed into a field\<close>

text \<open>
  While an input has the focus no key acts on the diagram: whatever is pressed, the document, its history, the selection and the clipboard
  stay as they are, and at most the field being edited is closed.
\<close>

theorem keys_in_field:
  "ov_canvas (on_key ctrl shift k True v) \<in> {ov_canvas v, (ov_canvas v)\<lparr>cv_edit := None\<rparr>}"
proof -
  have "on_key ctrl shift k True v \<in> {w. ov_canvas w \<in> {ov_canvas v, (ov_canvas v)\<lparr>cv_edit := None\<rparr>}}"
    unfolding on_key_def Let_def not_True_eq_False simp_thms if_False by (intro if_in) simp_all
  then show ?thesis by blast
qed

end
