(* ===== verification/LdWidget.thy ===== *)
theory LdWidget
  imports LdSession LdCompile
begin

text \<open>
  The editor widget around the canvas (client/ld-editor-widget.tsx): opening a file, saving, which
  takes the document first and marks it clean when the write has ended, and compiling. The file service
  and the compile server are outside: a file is empty, not JSON, or the value its text denotes.
\<close>

datatype ld_file = BlankFile | BrokenFile | JsonFile json

record ld_widget =
  wd_canvas :: ld_canvas
  wd_file :: ld_file
  wd_saving :: "json list" \<comment> \<open>texts being written, oldest first\<close>
  wd_loadError :: bool

definition newDocument :: "idgen \<Rightarrow> ld_result" where
  "newDocument s = (case createLdGraph None s of (g, s') \<Rightarrow> addRung g s')"

text \<open>
  \<open>parseInitialGraph\<close>. A value that has the four top fields but is no typed document is returned as it is;
  the model has no result for it.
\<close>

definition parseInitialGraph :: "ld_file \<Rightarrow> idgen \<Rightarrow> (ld_graph \<times> bool \<times> idgen) option" where
  "parseInitialGraph f s =
     (let fresh = (case newDocument s of (Inr g, s') \<Rightarrow> Some (g, f \<noteq> BlankFile, s') | (Inl e, s') \<Rightarrow> None)
      in case f of
          JsonFile j \<Rightarrow> (case ld_fromJSON j of
              Inr j' \<Rightarrow> (case ld_view j' of Some g \<Rightarrow> Some (g, False, s) | None \<Rightarrow> None)
            | Inl msg \<Rightarrow> fresh)
        | _ \<Rightarrow> fresh)"

definition open_widget :: "ld_file \<Rightarrow> idgen \<Rightarrow> ld_widget option" where
  "open_widget f s = map_option (\<lambda>(g, err, s').
     \<lparr>wd_canvas = open_canvas g s', wd_file = f, wd_saving = [], wd_loadError = err\<rparr>) (parseInitialGraph f s)"

text \<open>\<open>save\<close> up to its \<open>await\<close>, and from there; the getter \<open>state.graph\<close> may draw an id.\<close>

definition save_begin :: "ld_widget \<Rightarrow> ld_widget" where
  "save_begin w = (let c = wd_canvas w in
     case ld_state_graph (cv_state c) (cv_gen c) :: (ld_error state_error + ld_graph) \<times> idgen of
       (Inr g, s) \<Rightarrow> w\<lparr>wd_canvas := c\<lparr>cv_gen := s\<rparr>, wd_saving := wd_saving w @ [ld_toJSON g]\<rparr>
     | (Inl e, s) \<Rightarrow> w\<lparr>wd_canvas := c\<lparr>cv_gen := s\<rparr>\<rparr>)"

definition save_end :: "ld_widget \<Rightarrow> ld_widget" where
  "save_end w = (case wd_saving w of
     [] \<Rightarrow> w
   | j # js \<Rightarrow> w\<lparr>wd_file := JsonFile j, wd_saving := js,
       wd_canvas := (wd_canvas w)\<lparr>cv_state := ld_markClean (cv_state (wd_canvas w))\<rparr>\<rparr>)"

text \<open>\<open>compileGraph\<close>: a server that throws rejects the promise.\<close>

definition compileGraph ::
  "(string \<Rightarrow> string + string) \<Rightarrow> (string \<Rightarrow> json option) \<Rightarrow> (jsnum \<Rightarrow> string) \<Rightarrow> ld_graph \<Rightarrow> string + compile_result"
where
  "compileGraph server parse num g =
     (let v = validate g in
      if \<not> valid v then
        Inr (failed (map_index (\<lambda>i msg. simple_diag msg (''V'' @ padStart3 (nat_to_dec (i + 1)))) (errors v)))
      else (case server (graphToLdText g) of
          Inr raw \<Rightarrow> Inr (parseCompileOutput parse num raw)
        | Inl msg \<Rightarrow> Inl msg))"

text \<open>The status line of the canvas after \<open>runCompile\<close>.\<close>

definition count_severity :: "string \<Rightarrow> diagnostic list \<Rightarrow> nat" where
  "count_severity sev ds = length (filter (\<lambda>d. dseverity d = JStr sev) ds)"

definition compile_status :: "string + compile_result \<Rightarrow> string" where
  "compile_status r = (case r of
     Inl msg \<Rightarrow> ''Compile failed: '' @ msg
   | Inr res \<Rightarrow> if success res then ''Compile OK''
       else ''Compile: '' @ nat_to_dec (count_severity ''error'' (diagnostics res)) @ '' errors, ''
         @ nat_to_dec (count_severity ''warning'' (diagnostics res)) @ '' warnings'')"

datatype widget_event = WEdit canvas_event | WSaveBegin | WSaveEnd

fun widget_step :: "widget_event \<Rightarrow> ld_widget \<Rightarrow> ld_widget" where
  "widget_step (WEdit e) w = w\<lparr>wd_canvas := canvas_step e (wd_canvas w)\<rparr>"
| "widget_step WSaveBegin w = save_begin w"
| "widget_step WSaveEnd w = save_end w"

definition widget_run :: "widget_event list \<Rightarrow> ld_widget \<Rightarrow> ld_widget" where
  "widget_run es w = fold widget_step es w"

lemma widget_run_edits: "fold widget_step (map WEdit es) w = w\<lparr>wd_canvas := canvas_run es (wd_canvas w)\<rparr>"
  unfolding canvas_run_def by (induction es arbitrary: w) simp_all

lemma addRung_returns: "\<exists>g' s'. addRung g s = (Inr g', s') \<and> length (rungs g') = Suc (length (rungs g))"
  by (auto simp: addRung_def Let_def ok_def push_node_def split: prod.split)

lemma newDocument_returns: "\<exists>g s'. newDocument s = (Inr g, s') \<and> session_ok (g, s')"
proof -
  obtain g0 s0 where g0: "createLdGraph None s = (g0, s0)" by (rule prod.exhaust)
  have "nodes g0 = []" "rungs g0 = []" using g0 by (auto simp: createLdGraph_def split: prod.splits option.splits)
  then have "viewable g0" by (simp add: viewable_def node_rung_ids_apart_def)
  then have ok: "session_ok (g0, s0)" using createLdGraph_good [OF g0] by (simp add: session_ok_def)
  obtain g s' where run: "addRung g0 s0 = (Inr g, s')" using addRung_returns by blast
  with ok safe_handler(13) have "session_ok (g, s')" unfolding safe_for_def by blast
  with run g0 show ?thesis by (simp add: newDocument_def)
qed

subsection \<open>Properties\<close>

text \<open>
  Compiling from the widget mirrors the handler's compile: the result is the same for every document
  and every compile server, except that a throwing server rejects the promise, which the
  canvas reports as a failed compilation, where the handler returns the diagnostic E999.
\<close>

theorem compileGraph_mirrors:
  "compileGraph server parse num g = (case server (graphToLdText g) of
     Inl msg \<Rightarrow> if valid (validate g) then Inl msg else Inr (compile server parse num g)
   | Inr raw \<Rightarrow> Inr (compile server parse num g))"
  by (simp add: compileGraph_def compile_def Let_def split: sum.split)

text \<open>
  C27: on a canvas of a session with no other save under way, a save writes the document as it was when the save began, and opening the file again shows exactly
  that document. What the user edits while the file is written is not in the file, yet the
  editor is marked clean when the write ends, so closing it then loses those edits without a warning.
\<close>

theorem save_during_edits:
  assumes c: "canvas_ok (wd_canvas w)" and idle: "wd_saving w = []"
    and w': "w' = widget_run (WSaveBegin # map WEdit es @ [WSaveEnd]) w"
  shows "wd_file w' = JsonFile (ld_toJSON (cv_graph (wd_canvas w)))
    \<and> \<not> dirty (cv_state (wd_canvas w')) \<and> cv_graph (wd_canvas w') = cv_graph (canvas_run es (wd_canvas w))
    \<and> (\<exists>w''. open_widget (wd_file w') s = Some w''
         \<and> cv_graph (wd_canvas w'') = cv_graph (wd_canvas w) \<and> \<not> wd_loadError w'')"
proof -
  let ?c = "wd_canvas w" and ?j = "ld_toJSON (cv_graph (wd_canvas w))" and ?c' = "canvas_run es (wd_canvas w)"
  from c obtain t where t: "ld_rep (cv_state ?c) t" "cv_graph ?c = present t" by (rule canvas_okE)
  have "ld_state_graph (cv_state ?c) (cv_gen ?c) = ((Inr (cv_graph ?c) :: ld_error state_error + ld_graph), cv_gen ?c)"
    using ld_rep_graph [OF t(1)] t(2) by simp
  then have begin_eq: "save_begin w = w\<lparr>wd_saving := [?j]\<rparr>"
    unfolding save_begin_def Let_def using idle by (cases w) simp
  have run: "w' = w\<lparr>wd_file := JsonFile ?j, wd_saving := [], wd_canvas := ?c'\<lparr>cv_state := ld_markClean (cv_state ?c')\<rparr>\<rparr>"
    by (simp add: w' widget_run_def begin_eq widget_run_edits save_end_def)
  have "open_widget (JsonFile ?j) s = Some \<lparr>wd_canvas = open_canvas (cv_graph ?c) s,
      wd_file = JsonFile ?j, wd_saving = [], wd_loadError = False\<rparr>"
    by (simp add: open_widget_def parseInitialGraph_def ld_view_toJSON)
  moreover have "cv_graph (open_canvas g s) = g" for g by (simp add: open_canvas_def split: prod.split)
  ultimately show ?thesis by (simp add: run ld_markClean_def)
qed

lemma save_during_edits_witness:
  "\<forall>s. \<exists>w w'. open_widget BlankFile s = Some w \<and> w' = widget_run [WSaveBegin, WEdit AddRungButton, WSaveEnd] w
    \<and> \<not> dirty (cv_state (wd_canvas w')) \<and> wd_file w' \<noteq> JsonFile (ld_toJSON (cv_graph (wd_canvas w')))"
proof
  fix s
  obtain g s' where new: "newDocument s = (Inr g, s')" "session_ok (g, s')"
    using newDocument_returns by blast
  define w where "w = \<lparr>wd_canvas = open_canvas g s', wd_file = BlankFile, wd_saving = [], wd_loadError = False\<rparr>"
  have w: "open_widget BlankFile s = Some w" by (simp add: open_widget_def parseInitialGraph_def new w_def)
  have c: "canvas_ok (wd_canvas w)" "cv_graph (wd_canvas w) = g"
    using open_canvas_ok [OF new(2)] by (simp_all add: w_def open_canvas_def split: prod.split)
  let ?c' = "addRung_ui (wd_canvas w)"
  obtain g1 s1 where add: "addRung g (cv_gen (wd_canvas w)) = (Inr g1, s1)" "length (rungs g1) = Suc (length (rungs g))"
    using addRung_returns by blast
  have c': "cv_graph ?c' = g1" using apply_op_graph [OF c(1), of addRung] add c(2) by (simp add: addRung_ui_def)
  let ?w' = "widget_run [WSaveBegin, WEdit AddRungButton, WSaveEnd] w"
  have "?w' = widget_run (WSaveBegin # map WEdit [AddRungButton] @ [WSaveEnd]) w" by simp
  from save_during_edits [OF c(1) _ this] have
    "wd_file ?w' = JsonFile (ld_toJSON g)" "\<not> dirty (cv_state (wd_canvas ?w'))" "cv_graph (wd_canvas ?w') = g1"
    using c(2) c' by (simp_all add: w_def canvas_run_def)
  moreover have "ld_toJSON g1 \<noteq> ld_toJSON g"
  proof
    assume "ld_toJSON g1 = ld_toJSON g"
    then have "Some g1 = Some g" using ld_view_toJSON by metis
    with add(2) show False by simp
  qed
  ultimately show "\<exists>w w'. open_widget BlankFile s = Some w \<and> w' = widget_run [WSaveBegin, WEdit AddRungButton, WSaveEnd] w
    \<and> \<not> dirty (cv_state (wd_canvas w')) \<and> wd_file w' \<noteq> JsonFile (ld_toJSON (cv_graph (wd_canvas w')))"
    using w by force
qed

end
