(* ===== verification/FbdModel.thy ===== *)
theory FbdModel
  imports LdJson
begin

text \<open>
  The function block diagram model (weftik-fbd-editor/src/model: nodes.ts, edges.ts,
  model.ts and the serialization half of serialization.ts). Points and dimensions are the
  records of the ladder model, whose TypeScript declarations are the same. The id generator
  is the module's counter alone: unlike the ladder editor's, its ids carry no random suffix.
\<close>

subsection \<open>Nodes and edges\<close>

datatype pin_direction = Output | Input | Bidi

record fbd_pin =
  pname :: string
  ptype :: string
  pdir :: pin_direction
  ppos :: point

datatype gate_type = AND_gate | OR_gate | XOR_gate | NOT_gate | MUX_gate

datatype fbd_data =
    GateNode gate_type "fbd_pin list" "fbd_pin list"
  | FunctionBlockNode string "fbd_pin list" "fbd_pin list"

record fbd_node =
  fnid :: string
  fdata :: fbd_data
  fpos :: point
  fdim :: dimension
  fcss :: "string list option"

record fbd_edge =
  feid :: string
  fsrc :: string
  fsrcPort :: string
  ftgt :: string
  ftgtPort :: string
  fpoints :: "point list option"
  fecss :: "string list option"

record fbd_graph =
  fgid :: string
  fnodes :: "fbd_node list"
  fedges :: "fbd_edge list"

definition isGateNode :: "fbd_node \<Rightarrow> bool" where
  "isGateNode n = (case fdata n of GateNode t i k \<Rightarrow> True | FunctionBlockNode t i k \<Rightarrow> False)"

definition isFunctionBlockNode :: "fbd_node \<Rightarrow> bool" where
  "isFunctionBlockNode n = (case fdata n of GateNode t i k \<Rightarrow> False | FunctionBlockNode t i k \<Rightarrow> True)"

fun data_inputs :: "fbd_data \<Rightarrow> fbd_pin list" where
  "data_inputs (GateNode t i k) = i" | "data_inputs (FunctionBlockNode t i k) = i"

fun data_outputs :: "fbd_data \<Rightarrow> fbd_pin list" where
  "data_outputs (GateNode t i k) = k" | "data_outputs (FunctionBlockNode t i k) = k"

definition getInputPorts :: "fbd_node \<Rightarrow> fbd_pin list" where
  "getInputPorts n = data_inputs (fdata n)"

definition getOutputPorts :: "fbd_node \<Rightarrow> fbd_pin list" where
  "getOutputPorts n = data_outputs (fdata n)"

definition findPin :: "fbd_node \<Rightarrow> string \<Rightarrow> fbd_pin option" where
  "findPin n name = List.find (\<lambda>p. pname p = name) (getInputPorts n @ getOutputPorts n)"

fun fbd_type_str :: "fbd_data \<Rightarrow> string" where
  "fbd_type_str (GateNode t i k) = ''node:gate''"
| "fbd_type_str (FunctionBlockNode t i k) = ''node:fb''"

fun GATE_DEFAULT_SIZES :: "gate_type \<Rightarrow> dimension" where
  "GATE_DEFAULT_SIZES AND_gate = \<lparr>dwidth = 60, dheight = 60\<rparr>"
| "GATE_DEFAULT_SIZES OR_gate = \<lparr>dwidth = 60, dheight = 60\<rparr>"
| "GATE_DEFAULT_SIZES XOR_gate = \<lparr>dwidth = 60, dheight = 60\<rparr>"
| "GATE_DEFAULT_SIZES NOT_gate = \<lparr>dwidth = 50, dheight = 50\<rparr>"
| "GATE_DEFAULT_SIZES MUX_gate = \<lparr>dwidth = 70, dheight = 70\<rparr>"

subsection \<open>Ids\<close>

definition fbd_mk_id :: "string \<Rightarrow> nat \<Rightarrow> string" where
  "fbd_mk_id prefix k = prefix @ ''-'' @ nat_to_dec k"

definition fbd_generateId :: "string \<Rightarrow> nat \<Rightarrow> string \<times> nat" where
  "fbd_generateId prefix k = (fbd_mk_id prefix (Suc k), Suc k)"

definition resetIdCounter :: "nat \<Rightarrow> nat" where
  "resetIdCounter k = 0"

text \<open>No id the counter is still going to give is in \<open>X\<close>.\<close>

definition fbd_fresh :: "nat \<Rightarrow> string set \<Rightarrow> bool" where
  "fbd_fresh k X \<longleftrightarrow> (\<forall>p j. CHR ''-'' \<notin> set p \<longrightarrow> k < j \<longrightarrow> fbd_mk_id p j \<notin> X)"

lemma fbd_mk_id_eqD:
  assumes "CHR ''-'' \<notin> set p" "CHR ''-'' \<notin> set q" "fbd_mk_id p k = fbd_mk_id q j"
  shows "p = q \<and> k = j"
  using split_at_dash [OF assms(1,2), of "nat_to_dec k" "nat_to_dec j"] assms(3)
  by (simp add: fbd_mk_id_def)

lemma fbd_fresh_subset: "fbd_fresh k X \<Longrightarrow> Y \<subseteq> X \<Longrightarrow> fbd_fresh k Y"
  by (auto simp: fbd_fresh_def)

lemma fbd_fresh_generate:
  assumes "fbd_generateId p k = (i, k')" "CHR ''-'' \<notin> set p" "fbd_fresh k X"
  shows "i \<notin> X" "fbd_fresh k' (insert i X)" "k' = Suc k"
proof -
  from assms(1) have i: "i = fbd_mk_id p (Suc k)" "k' = Suc k" by (auto simp: fbd_generateId_def)
  show "k' = Suc k" by (rule i(2))
  show "i \<notin> X" using assms(2,3) i by (simp add: fbd_fresh_def)
  show "fbd_fresh k' (insert i X)"
    unfolding fbd_fresh_def
  proof (intro allI impI)
    fix q j assume q: "CHR ''-'' \<notin> set q" and j: "k' < j"
    with assms(3) i have "fbd_mk_id q j \<notin> X" by (simp add: fbd_fresh_def)
    moreover have "fbd_mk_id q j \<noteq> i" using fbd_mk_id_eqD [OF q assms(2)] j i by auto
    ultimately show "fbd_mk_id q j \<notin> insert i X" by simp
  qed
qed

subsection \<open>Factories\<close>

definition createInputPin :: "string \<Rightarrow> string \<Rightarrow> nat \<Rightarrow> nat \<Rightarrow> fbd_pin" where
  "createInputPin name t index totalPins =
     \<lparr>pname = name, ptype = t, pdir = Input,
      ppos = \<lparr>px = 0, py = of_nat index * 24 - 24 * (of_nat totalPins - 1) / 2\<rparr>\<rparr>"

definition createOutputPin :: "string \<Rightarrow> string \<Rightarrow> jsnum \<Rightarrow> nat \<Rightarrow> nat \<Rightarrow> fbd_pin" where
  "createOutputPin name t blockWidth index totalPins =
     \<lparr>pname = name, ptype = t, pdir = Output,
      ppos = \<lparr>px = blockWidth, py = of_nat index * 24 - 24 * (of_nat totalPins - 1) / 2\<rparr>\<rparr>"

fun getDefaultInputPinNames :: "gate_type \<Rightarrow> string list" where
  "getDefaultInputPinNames NOT_gate = [''IN'']"
| "getDefaultInputPinNames MUX_gate = [''SEL'', ''IN0'', ''IN1'']"
| "getDefaultInputPinNames AND_gate = [''IN1'', ''IN2'']"
| "getDefaultInputPinNames OR_gate = [''IN1'', ''IN2'']"
| "getDefaultInputPinNames XOR_gate = [''IN1'', ''IN2'']"

definition gate_inputs :: "gate_type \<Rightarrow> fbd_pin list" where
  "gate_inputs t = (let names = getDefaultInputPinNames t in
     map_index (\<lambda>i name. createInputPin name ''BOOL'' i (length names)) names)"

definition gate_outputs :: "gate_type \<Rightarrow> fbd_pin list" where
  "gate_outputs t = [createOutputPin ''OUT'' ''BOOL'' (dwidth (GATE_DEFAULT_SIZES t)) 0 1]"

definition fbd_createGate :: "gate_type \<Rightarrow> point option \<Rightarrow> nat \<Rightarrow> fbd_node \<times> nat" where
  "fbd_createGate t pos k =
     (let (i, k') = fbd_generateId ''gate'' k in
      (\<lparr>fnid = i, fdata = GateNode t (gate_inputs t) (gate_outputs t), fpos = opt_or pos origin,
        fdim = GATE_DEFAULT_SIZES t, fcss = None\<rparr>, k'))"

definition fbd_createFB ::
  "string \<Rightarrow> fbd_pin list \<Rightarrow> fbd_pin list \<Rightarrow> point option \<Rightarrow> nat \<Rightarrow> fbd_node \<times> nat" where
  "fbd_createFB t ins outs pos k =
     (let pinCount = max (length ins) (length outs);
          h = max 60 (of_nat pinCount * 28 + 16);
          (i, k') = fbd_generateId ''fb'' k in
      (\<lparr>fnid = i, fdata = FunctionBlockNode t ins outs, fpos = opt_or pos origin,
        fdim = \<lparr>dwidth = 120, dheight = h\<rparr>, fcss = None\<rparr>, k'))"

definition createSignalEdge ::
  "string \<Rightarrow> string \<Rightarrow> string \<Rightarrow> string \<Rightarrow> point list option \<Rightarrow> nat \<Rightarrow> fbd_edge \<times> nat" where
  "createSignalEdge src sp tgt tp pts k =
     (let (i, k') = fbd_generateId ''signal'' k in
      (\<lparr>feid = i, fsrc = src, fsrcPort = sp, ftgt = tgt, ftgtPort = tp, fpoints = pts, fecss = None\<rparr>, k'))"

definition createFbdGraph :: "string option \<Rightarrow> nat \<Rightarrow> fbd_graph \<times> nat" where
  "createFbdGraph i k =
     (let (i', k') = (case i of Some j \<Rightarrow> (j, k) | None \<Rightarrow> fbd_generateId ''fbdgraph'' k) in
      (\<lparr>fgid = i', fnodes = [], fedges = []\<rparr>, k'))"

subsection \<open>Serialization\<close>

fun direction_str :: "pin_direction \<Rightarrow> string" where
  "direction_str Output = ''Output''" | "direction_str Input = ''Input''" | "direction_str Bidi = ''Bidi''"

definition directions :: "(pin_direction \<times> string) list" where
  "directions = [(Output, ''Output''), (Input, ''Input''), (Bidi, ''Bidi'')]"

fun gate_type_str :: "gate_type \<Rightarrow> string" where
  "gate_type_str AND_gate = ''AND''" | "gate_type_str OR_gate = ''OR''"
| "gate_type_str XOR_gate = ''XOR''" | "gate_type_str NOT_gate = ''NOT''"
| "gate_type_str MUX_gate = ''MUX''"

definition gate_types :: "(gate_type \<times> string) list" where
  "gate_types = [(AND_gate, ''AND''), (OR_gate, ''OR''), (XOR_gate, ''XOR''), (NOT_gate, ''NOT''),
     (MUX_gate, ''MUX'')]"

definition enc_fpin :: "fbd_pin \<Rightarrow> json" where
  "enc_fpin p = JObj [(''name'', JStr (pname p)), (''dataType'', JStr (ptype p)),
     (''direction'', JStr (direction_str (pdir p))), (''position'', enc_point (ppos p))]"

fun enc_fdata :: "fbd_data \<Rightarrow> (string \<times> json) list" where
  "enc_fdata (GateNode t ins outs) = [(''gateType'', JStr (gate_type_str t)),
     (''inputPorts'', enc_list enc_fpin ins), (''outputPorts'', enc_list enc_fpin outs)]"
| "enc_fdata (FunctionBlockNode t ins outs) = [(''fbType'', JStr t),
     (''inputPorts'', enc_list enc_fpin ins), (''outputPorts'', enc_list enc_fpin outs)]"

definition enc_fnode :: "fbd_node \<Rightarrow> json" where
  "enc_fnode n = JObj ([(''id'', JStr (fnid n)), (''type'', JStr (fbd_type_str (fdata n)))]
     @ enc_fdata (fdata n)
     @ [(''position'', enc_point (fpos n)), (''size'', enc_dim (fdim n))]
     @ enc_opt ''cssClasses'' (enc_list JStr) (fcss n))"

definition enc_fedge :: "fbd_edge \<Rightarrow> json" where
  "enc_fedge e = JObj ([(''id'', JStr (feid e)), (''type'', JStr ''edge:signal''),
     (''sourceId'', JStr (fsrc e)), (''sourcePortName'', JStr (fsrcPort e)),
     (''targetId'', JStr (ftgt e)), (''targetPortName'', JStr (ftgtPort e))]
     @ enc_opt ''routingPoints'' (enc_list enc_point) (fpoints e)
     @ enc_opt ''cssClasses'' (enc_list JStr) (fecss e))"

definition fbd_toJSON :: "fbd_graph \<Rightarrow> json" where
  "fbd_toJSON g = JObj [(''id'', JStr (fgid g)), (''nodes'', enc_list enc_fnode (fnodes g)),
     (''edges'', enc_list enc_fedge (fedges g))]"

definition dec_fpin :: "json \<Rightarrow> fbd_pin option" where
  "dec_fpin j = do { n \<leftarrow> dec_field ''name'' dec_str j; t \<leftarrow> dec_field ''dataType'' dec_str j;
     d \<leftarrow> dec_field ''direction'' (dec_enum directions) j;
     p \<leftarrow> dec_field ''position'' dec_point j;
     Some \<lparr>pname = n, ptype = t, pdir = d, ppos = p\<rparr> }"

definition dec_fdata :: "string \<Rightarrow> json \<Rightarrow> fbd_data option" where
  "dec_fdata t j = do { ins \<leftarrow> dec_field ''inputPorts'' (dec_list dec_fpin) j;
     outs \<leftarrow> dec_field ''outputPorts'' (dec_list dec_fpin) j;
     if t = ''node:gate'' then do { gt \<leftarrow> dec_field ''gateType'' (dec_enum gate_types) j; Some (GateNode gt ins outs) }
     else if t = ''node:fb'' then do { ft \<leftarrow> dec_field ''fbType'' dec_str j; Some (FunctionBlockNode ft ins outs) }
     else None }"

definition dec_fnode :: "json \<Rightarrow> fbd_node option" where
  "dec_fnode j = do { i \<leftarrow> dec_field ''id'' dec_str j; t \<leftarrow> dec_field ''type'' dec_str j;
     p \<leftarrow> dec_field ''position'' dec_point j; s \<leftarrow> dec_field ''size'' dec_dim j;
     c \<leftarrow> dec_opt ''cssClasses'' (dec_list dec_str) j; d \<leftarrow> dec_fdata t j;
     Some \<lparr>fnid = i, fdata = d, fpos = p, fdim = s, fcss = c\<rparr> }"

definition dec_fedge :: "json \<Rightarrow> fbd_edge option" where
  "dec_fedge j = do { i \<leftarrow> dec_field ''id'' dec_str j; a \<leftarrow> dec_field ''sourceId'' dec_str j;
     ap \<leftarrow> dec_field ''sourcePortName'' dec_str j; b \<leftarrow> dec_field ''targetId'' dec_str j;
     bp \<leftarrow> dec_field ''targetPortName'' dec_str j;
     r \<leftarrow> dec_opt ''routingPoints'' (dec_list dec_point) j;
     c \<leftarrow> dec_opt ''cssClasses'' (dec_list dec_str) j;
     Some \<lparr>feid = i, fsrc = a, fsrcPort = ap, ftgt = b, ftgtPort = bp, fpoints = r, fecss = c\<rparr> }"

definition fbd_view :: "json \<Rightarrow> fbd_graph option" where
  "fbd_view j = do { i \<leftarrow> dec_field ''id'' dec_str j;
     ns \<leftarrow> dec_field ''nodes'' (dec_list dec_fnode) j;
     es \<leftarrow> dec_field ''edges'' (dec_list dec_fedge) j;
     Some \<lparr>fgid = i, fnodes = ns, fedges = es\<rparr> }"

definition isFbdGraph :: "json \<Rightarrow> bool" where
  "isFbdGraph j \<longleftrightarrow> is_object j \<and> has_field is_JStr ''id'' j \<and> has_field is_JArr ''nodes'' j
     \<and> has_field is_JArr ''edges'' j"

definition fbd_fromJSON :: "json \<Rightarrow> string + json" where
  "fbd_fromJSON j =
     (if \<not> isFbdGraph j then Inl ''Invalid FbdGraph: missing required fields (id, nodes, edges)''
      else Inr j)"

definition fbd_cloneGraph :: "fbd_graph \<Rightarrow> fbd_graph" where
  "fbd_cloneGraph g = (case fbd_view (fbd_toJSON g) of Some g' \<Rightarrow> g' | None \<Rightarrow> g)"

definition fbd_roundTrip :: "fbd_graph \<Rightarrow> string + bool" where
  "fbd_roundTrip g = bindE (fbd_fromJSON (fbd_toJSON g)) (\<lambda>j. Inr
     (case fbd_view j of None \<Rightarrow> False | Some r \<Rightarrow>
        length (fnodes r) = length (fnodes g) \<and> length (fedges r) = length (fedges g)
        \<and> fgid r = fgid g))"

lemma dec_direction [codec]: "dec_enum directions (JStr (direction_str d)) = Some d"
  by (cases d) (simp_all add: dec_enum_def directions_def)

lemma dec_gate_type [codec]: "dec_enum gate_types (JStr (gate_type_str t)) = Some t"
  by (cases t) (simp_all add: dec_enum_def gate_types_def)

lemma dec_fpin_enc [codec]: "dec_fpin (enc_fpin p) = Some p"
  by (simp add: dec_fpin_def enc_fpin_def dec_field_def codec)

lemma dec_fpins_enc [codec]: "dec_list dec_fpin (enc_list enc_fpin ps) = Some ps"
  by (rule dec_list_enc) (rule dec_fpin_enc)

lemma dec_fnode_enc [codec]: "dec_fnode (enc_fnode n) = Some n"
proof (cases n)
  case (fields i d p s c)
  then show ?thesis
    by (cases d; cases c; simp add: dec_fnode_def enc_fnode_def dec_field_def dec_opt_def dec_fdata_def codec)
qed

lemma dec_fedge_enc [codec]: "dec_fedge (enc_fedge e) = Some e"
proof (cases e)
  case (fields i a ap b bp r c)
  then show ?thesis
    by (cases r; cases c; simp add: dec_fedge_def enc_fedge_def dec_field_def dec_opt_def codec)
qed

lemma dec_fparts_enc [codec]:
  "dec_list dec_fnode (enc_list enc_fnode ns) = Some ns"
  "dec_list dec_fedge (enc_list enc_fedge es) = Some es"
  by (rule dec_list_enc, rule codec)+

lemma fbd_view_toJSON [codec]: "fbd_view (fbd_toJSON g) = Some g"
  by (simp add: fbd_view_def fbd_toJSON_def dec_field_def codec)

lemma isFbdGraph_toJSON: "isFbdGraph (fbd_toJSON g)"
  by (simp add: isFbdGraph_def fbd_toJSON_def has_field_def enc_list_def)

lemma fbd_fromJSON_toJSON [simp]: "fbd_fromJSON (fbd_toJSON g) = Inr (fbd_toJSON g)"
  by (simp add: fbd_fromJSON_def isFbdGraph_toJSON)

lemma fbd_cloneGraph_eq [simp]: "fbd_cloneGraph g = g"
  by (simp add: fbd_cloneGraph_def fbd_view_toJSON)

end
