(* ===== verification/FbdRegistry.thy ===== *)
theory FbdRegistry
  imports FbdModel
begin

text \<open>
  The pin registry of the standard function blocks (weftik-fbd-editor/src/backend/
  fbd-fb-registry.ts): raw triples, their expansion, and the lookup by upper-cased type name.
\<close>

record fb_pin_def =
  dname :: string
  ddataType :: string
  ddirection :: pin_direction

record fbd_def =
  inputs :: "fb_pin_def list"
  outputs :: "fb_pin_def list"

type_synonym raw_def = "string \<times> string \<times> pin_direction"

definition REGISTRY :: "(string \<times> raw_def list \<times> raw_def list) list" where
  "REGISTRY =
    [(''TON'', ([(''IN'', ''BOOL'', Input), (''PT'', ''TIME'', Input)],
       [(''Q'', ''BOOL'', Output), (''ET'', ''TIME'', Output)])),
     (''TOF'', ([(''IN'', ''BOOL'', Input), (''PT'', ''TIME'', Input)],
       [(''Q'', ''BOOL'', Output), (''ET'', ''TIME'', Output)])),
     (''TP'', ([(''IN'', ''BOOL'', Input), (''PT'', ''TIME'', Input)],
       [(''Q'', ''BOOL'', Output), (''ET'', ''TIME'', Output)])),
     (''CTU'', ([(''CU'', ''BOOL'', Input), (''R'', ''BOOL'', Input), (''PV'', ''INT'', Input)],
       [(''Q'', ''BOOL'', Output), (''CV'', ''INT'', Output)])),
     (''CTD'', ([(''CD'', ''BOOL'', Input), (''LD'', ''BOOL'', Input), (''PV'', ''INT'', Input)],
       [(''Q'', ''BOOL'', Output), (''CV'', ''INT'', Output)])),
     (''CTUD'', ([(''CU'', ''BOOL'', Input), (''CD'', ''BOOL'', Input), (''R'', ''BOOL'', Input), (''LD'', ''BOOL'', Input), (''PV'', ''INT'', Input)],
       [(''QU'', ''BOOL'', Output), (''QD'', ''BOOL'', Output), (''CV'', ''INT'', Output)])),
     (''SR'', ([(''S1'', ''BOOL'', Input), (''R'', ''BOOL'', Input)],
       [(''Q1'', ''BOOL'', Output)])),
     (''RS'', ([(''S'', ''BOOL'', Input), (''R1'', ''BOOL'', Input)],
       [(''Q1'', ''BOOL'', Output)])),
     (''R_TRIG'', ([(''CLK'', ''BOOL'', Input)],
       [(''Q'', ''BOOL'', Output)])),
     (''F_TRIG'', ([(''CLK'', ''BOOL'', Input)],
       [(''Q'', ''BOOL'', Output)])),
     (''ADD'', ([(''IN1'', ''INT'', Input), (''IN2'', ''INT'', Input)],
       [(''OUT'', ''INT'', Output)])),
     (''SUB'', ([(''IN1'', ''INT'', Input), (''IN2'', ''INT'', Input)],
       [(''OUT'', ''INT'', Output)])),
     (''MUL'', ([(''IN1'', ''INT'', Input), (''IN2'', ''INT'', Input)],
       [(''OUT'', ''INT'', Output)])),
     (''DIV'', ([(''IN1'', ''INT'', Input), (''IN2'', ''INT'', Input)],
       [(''OUT'', ''INT'', Output)])),
     (''MOVE'', ([(''IN'', ''INT'', Input)],
       [(''OUT'', ''INT'', Output)])),
     (''EQ'', ([(''IN1'', ''INT'', Input), (''IN2'', ''INT'', Input)],
       [(''OUT'', ''BOOL'', Output)])),
     (''GT'', ([(''IN1'', ''INT'', Input), (''IN2'', ''INT'', Input)],
       [(''OUT'', ''BOOL'', Output)])),
     (''LT'', ([(''IN1'', ''INT'', Input), (''IN2'', ''INT'', Input)],
       [(''OUT'', ''BOOL'', Output)])),
     (''GE'', ([(''IN1'', ''INT'', Input), (''IN2'', ''INT'', Input)],
       [(''OUT'', ''BOOL'', Output)])),
     (''LE'', ([(''IN1'', ''INT'', Input), (''IN2'', ''INT'', Input)],
       [(''OUT'', ''BOOL'', Output)])),
     (''SEL'', ([(''G'', ''BOOL'', Input), (''IN0'', ''INT'', Input), (''IN1'', ''INT'', Input)],
       [(''OUT'', ''INT'', Output)]))]"

definition expand_pin :: "raw_def \<Rightarrow> fb_pin_def" where
  "expand_pin d = (case d of (n, t, dir) \<Rightarrow> \<lparr>dname = n, ddataType = t, ddirection = dir\<rparr>)"

definition expand :: "raw_def list \<times> raw_def list \<Rightarrow> fbd_def" where
  "expand raw = \<lparr>inputs = map expand_pin (fst raw), outputs = map expand_pin (snd raw)\<rparr>"

definition getFbDef :: "string \<Rightarrow> fbd_def option" where
  "getFbDef fbType = map_option expand (map_of REGISTRY (toUpperCase fbType))"

subsection \<open>What the table guarantees\<close>

definition pin_names :: "fbd_def \<Rightarrow> string list" where
  "pin_names d = map dname (inputs d @ outputs d)"

definition input_names :: "string set" where
  "input_names = (\<Union>(k, i, out) \<in> set REGISTRY. fst ` set i)"

definition output_names :: "string set" where
  "output_names = (\<Union>(k, i, out) \<in> set REGISTRY. fst ` set out)"

lemma getFbDef_case: "toUpperCase s = toUpperCase t \<Longrightarrow> getFbDef s = getFbDef t"
  by (simp add: getFbDef_def)

lemma registry_row:
  assumes "getFbDef t = Some d"
  obtains k i out where "(k, i, out) \<in> set REGISTRY" "d = expand (i, out)"
proof -
  from assms obtain r where "map_of REGISTRY (toUpperCase t) = Some r" "d = expand r"
    by (auto simp: getFbDef_def)
  then have "(toUpperCase t, fst r, snd r) \<in> set REGISTRY" "d = expand (fst r, snd r)"
    by (auto dest: map_of_SomeD)
  then show thesis by (rule that)
qed

definition row_ok :: "string \<times> raw_def list \<times> raw_def list \<Rightarrow> bool" where
  "row_ok row = (case row of (k, i, out) \<Rightarrow>
     distinct (map fst (i @ out)) \<and> out \<noteq> []
     \<and> (\<forall>x \<in> set i. snd (snd x) = Input) \<and> (\<forall>x \<in> set out. snd (snd x) = Output))"

lemma registry_rows_ok: "\<forall>row \<in> set REGISTRY. row_ok row"
  by (simp add: REGISTRY_def row_ok_def)

lemma map_dname_expand [simp]: "map (dname \<circ> expand_pin) xs = map fst xs"
  by (induction xs) (auto simp: expand_pin_def)

lemma registry_def_ok:
  assumes "getFbDef t = Some d"
  shows "distinct (pin_names d)" "outputs d \<noteq> []"
    "\<forall>p \<in> set (inputs d). ddirection p = Input" "\<forall>p \<in> set (outputs d). ddirection p = Output"
proof -
  obtain k i out where row: "(k, i, out) \<in> set REGISTRY" and d: "d = expand (i, out)"
    using registry_row [OF assms] .
  from row registry_rows_ok have ok: "row_ok (k, i, out)" by blast
  show "distinct (pin_names d)" using ok by (simp add: d pin_names_def expand_def row_ok_def)
  show "outputs d \<noteq> []" using ok by (simp add: d expand_def row_ok_def)
  show "\<forall>p \<in> set (inputs d). ddirection p = Input"
    using ok by (auto simp: d expand_def row_ok_def expand_pin_def)
  show "\<forall>p \<in> set (outputs d). ddirection p = Output"
    using ok by (auto simp: d expand_def row_ok_def expand_pin_def)
qed

text \<open>A pin name is an input everywhere or an output everywhere.\<close>

lemma names_separate: "input_names \<inter> output_names = {}"
  by (simp add: input_names_def output_names_def REGISTRY_def)

lemma registry_names:
  assumes "getFbDef t = Some d"
  shows "dname ` set (inputs d) \<subseteq> input_names" "dname ` set (outputs d) \<subseteq> output_names"
proof -
  obtain k i out where row: "(k, i, out) \<in> set REGISTRY" and d: "d = expand (i, out)"
    using registry_row [OF assms] .
  have "dname ` set (map expand_pin xs) = fst ` set xs" for xs
    by (force simp: expand_pin_def)
  then show "dname ` set (inputs d) \<subseteq> input_names" "dname ` set (outputs d) \<subseteq> output_names"
    using row by (auto simp: d expand_def input_names_def output_names_def)
qed

end
