(* ===== verification/FbdValidate.thy ===== *)
theory FbdValidate
  imports FbdModel LdSerialization
begin

text \<open>
  Structural validation of function block diagrams (weftik-fbd-editor/src/model/
  serialization.ts): the findings of the six checks in order, and the search for feedback
  loops by iterative depth-first search with colours, an explicit stack and parent pointers.
  The \<open>while\<close> loop that follows the parents is a partial function: \<open>None\<close> is a loop that
  does not end. FbdCycles shows that it always ends and what the search finds.
\<close>

subsection \<open>Feedback loops\<close>

datatype colour = White | Grey | Black

type_synonym adjacency = "(string, string list) jsmap"

text \<open>\<open>adj\<close>: the nodes first, then the target of every edge whose source is a node.\<close>

definition init_adj :: "fbd_graph \<Rightarrow> adjacency" where
  "init_adj g = foldl (\<lambda>m n. js_set (fnid n) [] m) [] (fnodes g)"

definition add_succ :: "adjacency \<Rightarrow> fbd_edge \<Rightarrow> adjacency" where
  "add_succ m e = (case map_of m (fsrc e) of None \<Rightarrow> m | Some s \<Rightarrow> js_set (fsrc e) (s @ [ftgt e]) m)"

definition adjacency_of :: "fbd_graph \<Rightarrow> adjacency" where
  "adjacency_of g = foldl add_succ (init_adj g) (fedges g)"

text \<open>\<open>adj.get(n) ?? []\<close>\<close>

definition succs :: "adjacency \<Rightarrow> string \<Rightarrow> string list" where
  "succs adj n = (case map_of adj n of None \<Rightarrow> [] | Some s \<Rightarrow> s)"

record dfs_state =
  col :: "string \<Rightarrow> colour option"
  par :: "string \<Rightarrow> string option"
  found :: "string list list"

text \<open>\<open>colour.get(n) ?? WHITE\<close>\<close>

definition colour_of :: "dfs_state \<Rightarrow> string \<Rightarrow> colour" where
  "colour_of s n = (case col s n of None \<Rightarrow> White | Some c \<Rightarrow> c)"

text \<open>The loop that collects \<open>current\<close>, its parent and so on, up to \<open>neighbour\<close>.\<close>

partial_function (option) parent_chain ::
  "(string \<Rightarrow> string option) \<Rightarrow> string \<Rightarrow> string option \<Rightarrow> string list option" where
  "parent_chain p neighbour current = (case current of
     None \<Rightarrow> Some []
   | Some c \<Rightarrow> if c = neighbour then Some []
       else Option.bind (parent_chain p neighbour (p c)) (\<lambda>cs. Some (c # cs)))"

type_synonym frame = "string \<times> nat"

text \<open>
  One turn of the \<open>while\<close> loop on the stack (top frame first): the new stack and state;
  \<open>None\<close> when the parent chain does not end.
\<close>

definition dfs_turn :: "adjacency \<Rightarrow> string \<Rightarrow> nat \<Rightarrow> frame list \<Rightarrow> dfs_state \<Rightarrow> (frame list \<times> dfs_state) option" where
  "dfs_turn adj v i rest s =
     (if i < length (succs adj v) then
        (let w = succs adj v ! i; rest' = (v, i + 1) # rest in
         case colour_of s w of
           Grey \<Rightarrow> Option.bind (parent_chain (par s) w (Some v))
              (\<lambda>cs. Some (rest', s\<lparr>found := found s @ [rev (w # cs @ [w])]\<rparr>))
         | White \<Rightarrow> Some ((w, 0) # rest', s\<lparr>par := (par s)(w \<mapsto> v), col := (col s)(w \<mapsto> Grey)\<rparr>)
         | Black \<Rightarrow> Some (rest', s))
      else Some (rest, s\<lparr>col := (col s)(v \<mapsto> Black)\<rparr>))"

definition white_targets :: "adjacency \<Rightarrow> dfs_state \<Rightarrow> nat" where
  "white_targets adj s = card {w \<in> set (concat (map snd adj)). colour_of s w = White}"

definition frames_left :: "adjacency \<Rightarrow> frame list \<Rightarrow> nat" where
  "frames_left adj st = sum_list (map (\<lambda>(v, i). Suc (length (succs adj v) - i)) st)"

lemma succs_in_targets: "w \<in> set (succs adj v) \<Longrightarrow> w \<in> set (concat (map snd adj))"
  (is "_ \<Longrightarrow> ?thesis")
proof -
  assume w: "w \<in> set (succs adj v)"
  then obtain s where "map_of adj v = Some s" "w \<in> set s"
    by (cases "map_of adj v") (auto simp: succs_def)
  then have "(v, s) \<in> set adj" "w \<in> set s" by (auto dest: map_of_SomeD)
  then show ?thesis by force
qed

lemma colour_of_upd [simp]:
  "colour_of (s\<lparr>par := p, col := (col s)(w \<mapsto> c)\<rparr>) x = (if x = w then c else colour_of s x)"
  "colour_of (s\<lparr>col := (col s)(w \<mapsto> c)\<rparr>) x = (if x = w then c else colour_of s x)"
  "colour_of (s\<lparr>found := f\<rparr>) x = colour_of s x"
  by (simp_all add: colour_of_def)

text \<open>Every turn colours a white target, or leaves them and uses up a step of a frame.\<close>

lemma dfs_turn_measure:
  assumes "dfs_turn adj v i rest s = Some (st', s')"
  shows "white_targets adj s' < white_targets adj s
    \<or> white_targets adj s' \<le> white_targets adj s \<and> frames_left adj st' < frames_left adj ((v, i) # rest)"
proof (cases "i < length (succs adj v)")
  case True
  let ?w = "succs adj v ! i" and ?U = "set (concat (map snd adj))"
  have w: "?w \<in> ?U" using True by (intro succs_in_targets [of _ adj v]) simp
  show ?thesis
  proof (cases "colour_of s ?w")
    case White
    then have s': "s' = s\<lparr>par := (par s)(?w \<mapsto> v), col := (col s)(?w \<mapsto> Grey)\<rparr>"
      using assms True by (simp add: dfs_turn_def Let_def)
    have "{x \<in> ?U. colour_of s' x = White} \<subset> {x \<in> ?U. colour_of s x = White}"
      using w White by (auto simp: s')
    then have "white_targets adj s' < white_targets adj s"
      unfolding white_targets_def by (intro psubset_card_mono) auto
    then show ?thesis ..
  next
    case Grey
    then obtain cs where "s' = s\<lparr>found := found s @ [rev (?w # cs @ [?w])]\<rparr>" "st' = (v, i + 1) # rest"
      using assms True by (auto simp: dfs_turn_def Let_def bind_eq_Some_conv)
    then show ?thesis using True by (simp add: white_targets_def frames_left_def)
  next
    case Black
    then show ?thesis
      using assms True by (auto simp: dfs_turn_def Let_def white_targets_def frames_left_def)
  qed
next
  case False
  then have s': "s' = s\<lparr>col := (col s)(v \<mapsto> Black)\<rparr>" "st' = rest"
    using assms by (simp_all add: dfs_turn_def)
  have "white_targets adj s' \<le> white_targets adj s"
    unfolding white_targets_def by (intro card_mono) (auto simp: s')
  then show ?thesis by (simp add: s' frames_left_def)
qed

function dfs_loop :: "adjacency \<Rightarrow> frame list \<Rightarrow> dfs_state \<Rightarrow> dfs_state option" where
  "dfs_loop adj [] s = Some s"
| "dfs_loop adj ((v, i) # rest) s = (case dfs_turn adj v i rest s of
     None \<Rightarrow> None | Some (st', s') \<Rightarrow> dfs_loop adj st' s')"
  by pat_completeness auto
termination
proof (relation "measures [\<lambda>(adj, st, s). white_targets adj s, \<lambda>(adj, st, s). frames_left adj st]")
  fix adj v i rest s x2 x y
  assume "dfs_turn adj v i rest s = Some x2" "(x, y) = x2"
  then have "dfs_turn adj v i rest s = Some (x, y)" by simp
  from dfs_turn_measure [OF this]
  show "((adj, x, y), (adj, (v, i) # rest, s))
      \<in> measures [\<lambda>(adj, st, s). white_targets adj s, \<lambda>(adj, st, s). frames_left adj st]"
    by auto
qed simp

definition dfs :: "adjacency \<Rightarrow> string \<Rightarrow> dfs_state \<Rightarrow> dfs_state option" where
  "dfs adj start s = dfs_loop adj [(start, 0)] (s\<lparr>col := (col s)(start \<mapsto> Grey)\<rparr>)"

fun dfs_all :: "adjacency \<Rightarrow> string list \<Rightarrow> dfs_state \<Rightarrow> dfs_state option" where
  "dfs_all adj [] s = Some s"
| "dfs_all adj (n # ns) s =
     (if col s n = Some White then Option.bind (dfs adj n s) (dfs_all adj ns) else dfs_all adj ns s)"

definition init_dfs :: "fbd_graph \<Rightarrow> dfs_state" where
  "init_dfs g = \<lparr>col = foldl (\<lambda>m n. m(fnid n \<mapsto> White)) Map.empty (fnodes g),
     par = Map.empty, found = []\<rparr>"

definition detectCycles :: "fbd_graph \<Rightarrow> string list list option" where
  "detectCycles g = map_option found (dfs_all (adjacency_of g) (map fnid (fnodes g)) (init_dfs g))"

subsection \<open>The other checks\<close>

datatype severity = SevError | SevWarning

record finding =
  fseverity :: severity
  fmessage :: string

record fbd_validation =
  fvalid :: bool
  findings :: "finding list"

definition err :: "string \<Rightarrow> finding" where
  "err msg = \<lparr>fseverity = SevError, fmessage = msg\<rparr>"

definition warn :: "string \<Rightarrow> finding" where
  "warn msg = \<lparr>fseverity = SevWarning, fmessage = msg\<rparr>"

definition nodeById :: "fbd_graph \<Rightarrow> string \<Rightarrow> fbd_node option" where
  "nodeById g = foldl (\<lambda>m n. m(fnid n \<mapsto> n)) Map.empty (fnodes g)"

definition node_type_str :: "fbd_node \<Rightarrow> string" where
  "node_type_str n = fbd_type_str (fdata n)"

definition dangling_edges :: "fbd_graph \<Rightarrow> fbd_edge \<Rightarrow> finding list" where
  "dangling_edges g e =
     (if nodeById g (fsrc e) = None
      then [err (''Dangling edge source: '' @ quoted (feid e)
        @ '' references non-existent source node '' @ quoted (fsrc e))] else [])
     @ (if nodeById g (ftgt e) = None
      then [err (''Dangling edge target: '' @ quoted (feid e)
        @ '' references non-existent target node '' @ quoted (ftgt e))] else [])"

definition source_port :: "fbd_edge \<Rightarrow> fbd_node \<Rightarrow> finding list" where
  "source_port e n = (case findPin n (fsrcPort e) of
     None \<Rightarrow> [err (''Dangling source port: edge '' @ quoted (feid e)
        @ '' references non-existent port '' @ quoted (fsrcPort e) @ '' on node '' @ quoted (fnid n)
        @ '' (type: '' @ node_type_str n @ '')'')]
   | Some p \<Rightarrow> if pdir p \<noteq> Output \<and> pdir p \<noteq> Bidi
       then [err (''Invalid source pin direction: edge '' @ quoted (feid e) @ '' sources from ''
        @ quoted (fsrcPort e) @ '' on '' @ quoted (fnid n)
        @ '' which is an Input pin (must be Output or Bidi)'')] else [])"

definition target_port :: "fbd_edge \<Rightarrow> fbd_node \<Rightarrow> finding list" where
  "target_port e n = (case findPin n (ftgtPort e) of
     None \<Rightarrow> [err (''Dangling target port: edge '' @ quoted (feid e)
        @ '' references non-existent port '' @ quoted (ftgtPort e) @ '' on node '' @ quoted (fnid n)
        @ '' (type: '' @ node_type_str n @ '')'')]
   | Some p \<Rightarrow> if pdir p \<noteq> Input \<and> pdir p \<noteq> Bidi
       then [err (''Invalid target pin direction: edge '' @ quoted (feid e) @ '' targets ''
        @ quoted (ftgtPort e) @ '' on '' @ quoted (fnid n)
        @ '' which is an Output pin (must be Input or Bidi)'')] else [])"

definition type_mismatch :: "fbd_edge \<Rightarrow> fbd_node \<Rightarrow> fbd_node \<Rightarrow> finding list" where
  "type_mismatch e a b = (case (findPin a (fsrcPort e), findPin b (ftgtPort e)) of
     (Some p, Some q) \<Rightarrow> if ptype p \<noteq> ptype q
       then [warn (''Type mismatch: edge '' @ quoted (feid e) @ '' connects '' @ ptype p @ '' (''
        @ quoted (fsrcPort e) @ '' on '' @ quoted (fnid a) @ '') to '' @ ptype q @ '' (''
        @ quoted (ftgtPort e) @ '' on '' @ quoted (fnid b) @ '')'')] else []
   | _ \<Rightarrow> [])"

definition port_findings :: "fbd_graph \<Rightarrow> fbd_edge \<Rightarrow> finding list" where
  "port_findings g e =
     (case nodeById g (fsrc e) of None \<Rightarrow> [] | Some a \<Rightarrow> source_port e a)
     @ (case nodeById g (ftgt e) of None \<Rightarrow> [] | Some b \<Rightarrow> target_port e b)
     @ (case (nodeById g (fsrc e), nodeById g (ftgt e)) of
          (Some a, Some b) \<Rightarrow> type_mismatch e a b | _ \<Rightarrow> [])"

definition loop_finding :: "string list \<Rightarrow> finding" where
  "loop_finding c = err (''Feedback loop detected: '' @ join_with ('' '' @ right_arrow @ '' '') c)"

definition disconnected :: "fbd_graph \<Rightarrow> finding list" where
  "disconnected g = map (\<lambda>n. warn (''Disconnected node: '' @ quoted (fnid n) @ '' (type: ''
       @ node_type_str n @ '') has no connections''))
     (filter (\<lambda>n. \<not> (\<exists>e \<in> set (fedges g). fsrc e = fnid n \<or> ftgt e = fnid n)) (fnodes g))"

text \<open>\<open>None\<close>: the search for feedback loops does not return.\<close>

definition fbd_validateGraph :: "fbd_graph \<Rightarrow> fbd_validation option" where
  "fbd_validateGraph g = map_option (\<lambda>cycles.
     let fs = concat (map (dangling_edges g) (fedges g)) @ concat (map (port_findings g) (fedges g))
           @ map loop_finding cycles @ disconnected g
     in \<lparr>fvalid = (\<not> (\<exists>f \<in> set fs. fseverity f = SevError)), findings = fs\<rparr>) (detectCycles g)"

definition fbd_isValid :: "fbd_graph \<Rightarrow> bool option" where
  "fbd_isValid g = map_option fvalid (fbd_validateGraph g)"

end
