(* ===== verification/FbdCycles.thy ===== *)
theory FbdCycles
  imports FbdValidate
begin

text \<open>
  Correctness of the search for feedback loops: it ends, every loop it reports is a directed
  cycle of the diagram, and it reports one whenever there is one. The invariant follows the
  white-grey-black argument on the explicit stack.
\<close>

subsection \<open>The relation that is searched\<close>

definition adj_rel :: "adjacency \<Rightarrow> (string \<times> string) set" where
  "adj_rel adj = {(u, w). w \<in> set (succs adj u)}"

text \<open>A reported loop: the first node again at the end, and edges in between.\<close>

definition real_loop :: "adjacency \<Rightarrow> string list \<Rightarrow> bool" where
  "real_loop adj c \<longleftrightarrow> length c \<ge> 2 \<and> hd c = last c \<and> successively (\<lambda>a b. b \<in> set (succs adj a)) c"

lemma successively_trancl:
  "successively (\<lambda>a b. (a, b) \<in> r) xs \<Longrightarrow> length xs \<ge> 2 \<Longrightarrow> (hd xs, last xs) \<in> r\<^sup>+"
proof (induction xs rule: induct_list012)
  case (3 x y zs)
  show ?case
  proof (cases zs)
    case (Cons z zs')
    then have "(y, last (y # zs)) \<in> r\<^sup>+" using 3 by auto
    then show ?thesis using 3 by (auto intro: trancl_into_trancl2)
  qed (use 3 in auto)
qed auto

lemma real_loop_cyclic: "real_loop adj c \<Longrightarrow> (hd c, hd c) \<in> (adj_rel adj)\<^sup>+"
  using successively_trancl [of "adj_rel adj" c] by (auto simp: real_loop_def adj_rel_def)

subsection \<open>The invariant of the loop\<close>

fun linked :: "adjacency \<Rightarrow> (string \<Rightarrow> string option) \<Rightarrow> frame list \<Rightarrow> bool" where
  "linked adj p ((a, i) # (b, j) # st) \<longleftrightarrow> p a = Some b \<and> j > 0 \<and> j \<le> length (succs adj b)
     \<and> succs adj b ! (j - 1) = a \<and> linked adj p ((b, j) # st)"
| "linked adj p st \<longleftrightarrow> True"

definition top_ok :: "adjacency \<Rightarrow> dfs_state \<Rightarrow> frame \<Rightarrow> bool" where
  "top_ok adj s f \<longleftrightarrow> (\<forall>k < snd f. k < length (succs adj (fst f)) \<longrightarrow>
     colour_of s (succs adj (fst f) ! k) = Black)"

definition inner_ok :: "adjacency \<Rightarrow> dfs_state \<Rightarrow> frame \<Rightarrow> bool" where
  "inner_ok adj s f \<longleftrightarrow> (\<forall>k. k + 1 < snd f \<longrightarrow> k < length (succs adj (fst f)) \<longrightarrow>
     colour_of s (succs adj (fst f) ! k) = Black)"

definition black_closed :: "adjacency \<Rightarrow> dfs_state \<Rightarrow> bool" where
  "black_closed adj s \<longleftrightarrow> (\<forall>x y. colour_of s x = Black \<longrightarrow> y \<in> set (succs adj x) \<longrightarrow> colour_of s y = Black)
     \<and> (\<forall>x. colour_of s x = Black \<longrightarrow> (x, x) \<notin> (adj_rel adj)\<^sup>+)"

definition dfs_inv :: "adjacency \<Rightarrow> frame list \<Rightarrow> dfs_state \<Rightarrow> bool" where
  "dfs_inv adj st s \<longleftrightarrow> distinct (map fst st)
     \<and> (\<forall>x. colour_of s x = Grey \<longleftrightarrow> x \<in> set (map fst st))
     \<and> linked adj (par s) st
     \<and> (\<forall>c \<in> set (found s). real_loop adj c)
     \<and> (found s = [] \<longrightarrow> black_closed adj s
          \<and> (case st of [] \<Rightarrow> True | f # fs \<Rightarrow> top_ok adj s f \<and> (\<forall>h \<in> set fs. inner_ok adj s h)))"

lemma dfs_invD:
  assumes "dfs_inv adj st s"
  shows "distinct (map fst st)" "colour_of s x = Grey \<longleftrightarrow> x \<in> set (map fst st)"
    "linked adj (par s) st" "c \<in> set (found s) \<Longrightarrow> real_loop adj c"
    "found s = [] \<Longrightarrow> black_closed adj s"
  using assms by (auto simp: dfs_inv_def)

lemma linked_cong: "(\<And>x. x \<in> set (map fst st) \<Longrightarrow> p x = q x) \<Longrightarrow> linked adj p st = linked adj q st"
  by (induction adj p st rule: linked.induct) auto

lemma linked_tl: "linked adj p (f # st) \<Longrightarrow> linked adj p st"
  by (cases f; cases st) auto

text \<open>The parent pointers of the stack lead down to every grey node.\<close>

lemma parent_chain_stack:
  "linked adj p ((v, i) # st) \<Longrightarrow> w \<in> set (map fst ((v, i) # st)) \<Longrightarrow>
     parent_chain p w (Some v) = Some (takeWhile (\<lambda>x. x \<noteq> w) (map fst ((v, i) # st)))"
proof (induction st arbitrary: v i)
  case Nil
  then show ?case by (simp add: parent_chain.simps)
next
  case (Cons f st)
  obtain u j where f: "f = (u, j)" by (cases f)
  show ?case
  proof (cases "v = w")
    case False
    then have "parent_chain p w (Some u) = Some (takeWhile (\<lambda>x. x \<noteq> w) (map fst ((u, j) # st)))"
      using Cons f by (intro Cons.IH) auto
    moreover have "p v = Some u" using Cons.prems(1) f by simp
    ultimately show ?thesis using False f by (simp add: parent_chain.simps [of p w "Some v"])
  qed (simp add: parent_chain.simps)
qed

lemma linked_successively:
  "linked adj p st \<Longrightarrow> successively (\<lambda>a b. a \<in> set (succs adj b)) (map fst st)"
proof (induction adj p st rule: linked.induct)
  case (1 adj p a i b j st)
  then have "a \<in> set (succs adj b)" by (auto simp: in_set_conv_nth intro!: exI [of _ "j - 1"])
  with 1 show ?case by simp
qed auto

lemma grey_loop:
  assumes l: "linked adj p ((v, i) # st)" and w: "w \<in> set (map fst ((v, i) # st))" "w \<in> set (succs adj v)"
    and cs: "cs = takeWhile (\<lambda>x. x \<noteq> w) (map fst ((v, i) # st))"
  shows "real_loop adj (rev (w # cs @ [w]))"
proof -
  let ?R = "\<lambda>a b. a \<in> set (succs adj b)" and ?ids = "map fst ((v, i) # st)"
  have "?ids = cs @ dropWhile (\<lambda>x. x \<noteq> w) ?ids" unfolding cs by (rule takeWhile_dropWhile_id [symmetric])
  moreover obtain ys where ys: "dropWhile (\<lambda>x. x \<noteq> w) ?ids = w # ys"
    using w(1) by (metis (mono_tags, lifting) dropWhile_eq_Nil_conv hd_dropWhile list.collapse)
  ultimately have ids: "?ids = cs @ w # ys" by simp
  then have "successively ?R (cs @ w # ys)" using linked_successively [OF l] by simp
  then have cw: "successively ?R (cs @ [w])" by (auto simp: successively_append_iff)
  have "hd (cs @ [w]) = v" using arg_cong [OF ids, of hd] by (cases cs) auto
  then have "successively ?R (w # cs @ [w])" using cw w(2) by (cases "cs @ [w]") auto
  then have "successively (\<lambda>a b. b \<in> set (succs adj a)) (rev (w # cs @ [w]))"
    by (simp only: successively_rev)
  then show ?thesis by (simp add: real_loop_def)
qed

lemma closed_trancl:
  assumes "black_closed adj s" "(x, y) \<in> (adj_rel adj)\<^sup>*" "colour_of s x = Black"
  shows "colour_of s y = Black"
  using assms(2,3) assms(1) by (induction rule: rtrancl_induct) (auto simp: adj_rel_def black_closed_def)

lemma black_add:
  assumes closed: "black_closed adj s" and v: "colour_of s v \<noteq> Black"
    and succ: "\<And>y. y \<in> set (succs adj v) \<Longrightarrow> colour_of s y = Black"
    and s': "\<And>x. colour_of s' x = (if x = v then Black else colour_of s x)"
  shows "black_closed adj s'"
proof -
  have "(v, v) \<notin> (adj_rel adj)\<^sup>+"
  proof
    assume "(v, v) \<in> (adj_rel adj)\<^sup>+"
    then obtain y where y: "(v, y) \<in> adj_rel adj" "(y, v) \<in> (adj_rel adj)\<^sup>*"
      by (meson tranclD)
    then have "colour_of s y = Black" using succ by (simp add: adj_rel_def)
    with closed_trancl [OF closed y(2)] v show False by simp
  qed
  with closed succ show ?thesis by (auto simp: black_closed_def s')
qed

lemma inner_ok_mono:
  "(\<And>x. colour_of s x = Black \<Longrightarrow> colour_of s' x = Black) \<Longrightarrow> inner_ok adj s h \<Longrightarrow> inner_ok adj s' h"
  by (simp add: inner_ok_def)

lemma top_ok_inner: "top_ok adj s (v, i) \<Longrightarrow> inner_ok adj s (v, i + 1)"
  by (simp add: inner_ok_def top_ok_def)

subsection \<open>Every turn keeps it\<close>

lemma dfs_turn_inv:
  assumes inv: "dfs_inv adj ((v, i) # rest) s"
  obtains st' s' where "dfs_turn adj v i rest s = Some (st', s')" "dfs_inv adj st' s'"
    and "\<And>x. colour_of s x = Black \<Longrightarrow> colour_of s' x = Black"
    and "\<And>x. col s x \<noteq> None \<Longrightarrow> col s' x \<noteq> None"
    and "\<And>x. colour_of s x = Grey \<Longrightarrow> colour_of s' x \<noteq> White"
proof -
  note I = dfs_invD [OF inv]
  have ok: "found s = [] \<Longrightarrow> top_ok adj s (v, i) \<and> (\<forall>h \<in> set rest. inner_ok adj s h)"
    using inv by (simp add: dfs_inv_def)
  show thesis
  proof (cases "i < length (succs adj v)")
    case True
    let ?w = "succs adj v ! i"
    show thesis
    proof (cases "colour_of s ?w")
      case White
      let ?s = "s\<lparr>par := (par s)(?w \<mapsto> v), col := (col s)(?w \<mapsto> Grey)\<rparr>"
      have turn: "dfs_turn adj v i rest s = Some ((?w, 0) # (v, i + 1) # rest, ?s)"
        using True White by (simp add: dfs_turn_def Let_def)
      have w: "?w \<notin> set (map fst ((v, i) # rest))" using White I(2) [of ?w] by auto
      have "linked adj (par ?s) ((v, i + 1) # rest)"
      proof -
        have "linked adj (par s) ((v, i + 1) # rest)" using I(3) by (cases rest) auto
        then show ?thesis using w by (subst linked_cong [of _ _ "par s"]) auto
      qed
      then have l: "linked adj (par ?s) ((?w, 0) # (v, i + 1) # rest)" using True by simp
      have closed: "black_closed adj ?s" if "found s = []"
        using I(5) [OF that] White by (auto simp: black_closed_def)
      have black: "colour_of s x = Black \<Longrightarrow> colour_of ?s x = Black" for x using White by auto
      have "inner_ok adj ?s (v, i + 1) \<and> (\<forall>h \<in> set rest. inner_ok adj ?s h)" if "found s = []"
        using ok [OF that] inner_ok_mono [OF black] top_ok_inner by blast
      moreover have "top_ok adj ?s (?w, 0)" by (simp add: top_ok_def)
      ultimately have "dfs_inv adj ((?w, 0) # (v, i + 1) # rest) ?s"
        unfolding dfs_inv_def using I(1,2,4) w l closed by auto
      then show thesis by (rule that [OF turn]) (use White in \<open>auto simp: colour_of_def\<close>)
    next
      case Grey
      let ?cs = "takeWhile (\<lambda>x. x \<noteq> ?w) (map fst ((v, i) # rest))"
      let ?s = "s\<lparr>found := found s @ [rev (?w # ?cs @ [?w])]\<rparr>"
      have w: "?w \<in> set (map fst ((v, i) # rest))" using Grey I(2) by blast
      have turn: "dfs_turn adj v i rest s = Some ((v, i + 1) # rest, ?s)"
        using True Grey parent_chain_stack [OF I(3) w] by (simp add: dfs_turn_def Let_def)
      have "real_loop adj (rev (?w # ?cs @ [?w]))"
        using grey_loop [OF I(3) w _ refl] True by simp
      moreover have "linked adj (par s) ((v, i + 1) # rest)" using I(3) by (cases rest) auto
      ultimately have "dfs_inv adj ((v, i + 1) # rest) ?s"
        unfolding dfs_inv_def using I(1,2,4) by auto
      then show thesis by (rule that [OF turn]) auto
    next
      case Black
      have turn: "dfs_turn adj v i rest s = Some ((v, i + 1) # rest, s)"
        using True Black by (simp add: dfs_turn_def Let_def)
      have "linked adj (par s) ((v, i + 1) # rest)" using I(3) by (cases rest) auto
      moreover have "top_ok adj s (v, i + 1)" if "found s = []"
        using ok [OF that] Black by (auto simp: top_ok_def less_Suc_eq)
      ultimately have "dfs_inv adj ((v, i + 1) # rest) s"
        unfolding dfs_inv_def using I(1,2,4,5) ok by auto
      then show thesis by (rule that [OF turn]) auto
    qed
  next
    case False
    let ?s = "s\<lparr>col := (col s)(v \<mapsto> Black)\<rparr>"
    have turn: "dfs_turn adj v i rest s = Some (rest, ?s)" using False by (simp add: dfs_turn_def)
    have grey: "colour_of s v = Grey" using I(2) [of v] by simp
    have black: "colour_of s x = Black \<Longrightarrow> colour_of ?s x = Black" for x by auto
    have "black_closed adj ?s \<and> (case rest of [] \<Rightarrow> True
        | f # fs \<Rightarrow> top_ok adj ?s f \<and> (\<forall>h \<in> set fs. inner_ok adj ?s h))" if none: "found s = []"
    proof
      have "colour_of s y = Black" if "y \<in> set (succs adj v)" for y
        using ok [OF none] that False by (auto simp: top_ok_def in_set_conv_nth)
      then show "black_closed adj ?s"
        using black_add [OF I(5) [OF none], of v ?s] grey by simp
      show "case rest of [] \<Rightarrow> True | f # fs \<Rightarrow> top_ok adj ?s f \<and> (\<forall>h \<in> set fs. inner_ok adj ?s h)"
      proof (cases rest)
        case (Cons f fs)
        obtain b j where f: "f = (b, j)" by (cases f)
        have link: "j > 0" "succs adj b ! (j - 1) = v" using I(3) Cons f by auto
        have inner: "inner_ok adj s f" "\<forall>h \<in> set fs. inner_ok adj s h" using ok [OF none] Cons by auto
        have "colour_of ?s (succs adj b ! k) = Black" if "k < j" "k < length (succs adj b)" for k
        proof (cases "k + 1 = j")
          case True
          then have "succs adj b ! k = v" using link(2) by auto
          then show ?thesis by simp
        next
          case False
          then show ?thesis using inner(1) that f by (auto simp: inner_ok_def)
        qed
        then have "top_ok adj ?s f" by (simp add: top_ok_def f)
        moreover have "\<forall>h \<in> set fs. inner_ok adj ?s h" using inner(2) inner_ok_mono [OF black] by blast
        ultimately show ?thesis by (simp add: Cons)
      qed simp
    qed
    then have "dfs_inv adj rest ?s"
      unfolding dfs_inv_def using I(1,2,4) linked_tl [OF I(3)] by auto
    then show thesis by (rule that [OF turn]) auto
  qed
qed


lemma dfs_loop_inv:
  "dfs_inv adj st s \<Longrightarrow> \<exists>s'. dfs_loop adj st s = Some s' \<and> dfs_inv adj [] s'
     \<and> (\<forall>x. colour_of s x = Black \<longrightarrow> colour_of s' x = Black)
     \<and> (\<forall>x. col s x \<noteq> None \<longrightarrow> col s' x \<noteq> None)
     \<and> (\<forall>x. colour_of s x = Grey \<longrightarrow> colour_of s' x = Black)"
proof (induction adj st s rule: dfs_loop.induct)
  case (1 adj s)
  then have "colour_of s x \<noteq> Grey" for x using dfs_invD(2) by fastforce
  with 1 show ?case by simp
next
  case (2 adj v i rest s)
  obtain st1 s1 where turn: "dfs_turn adj v i rest s = Some (st1, s1)" and inv: "dfs_inv adj st1 s1"
    and mono: "\<And>x. colour_of s x = Black \<Longrightarrow> colour_of s1 x = Black"
      "\<And>x. col s x \<noteq> None \<Longrightarrow> col s1 x \<noteq> None" "\<And>x. colour_of s x = Grey \<Longrightarrow> colour_of s1 x \<noteq> White"
    using dfs_turn_inv [OF "2.prems"] by metis
  from "2.IH" [OF turn refl inv] obtain s' where s': "dfs_loop adj st1 s1 = Some s'" "dfs_inv adj [] s'"
    "\<And>x. colour_of s1 x = Black \<Longrightarrow> colour_of s' x = Black"
    "\<And>x. col s1 x \<noteq> None \<Longrightarrow> col s' x \<noteq> None" "\<And>x. colour_of s1 x = Grey \<Longrightarrow> colour_of s' x = Black"
    by blast
  have "colour_of s' x = Black" if "colour_of s x = Grey" for x
    using mono(3) [OF that] s'(3,5) by (cases "colour_of s1 x") auto
  with s' mono turn show ?case by auto
qed

lemma dfs_start:
  assumes "dfs_inv adj [] s" "colour_of s n = White"
  shows "dfs_inv adj [(n, 0)] (s\<lparr>col := (col s)(n \<mapsto> Grey)\<rparr>)"
proof -
  note I = dfs_invD [OF assms(1)]
  have "black_closed adj (s\<lparr>col := (col s)(n \<mapsto> Grey)\<rparr>)" if "found s = []"
    using I(5) [OF that] assms(2) by (auto simp: black_closed_def)
  then show ?thesis
    unfolding dfs_inv_def using I(2,4) by (auto simp: top_ok_def)
qed

lemma dfs_all_inv:
  "dfs_inv adj [] s \<Longrightarrow> (\<And>n. n \<in> set ns \<Longrightarrow> col s n \<noteq> None) \<Longrightarrow>
     \<exists>s'. dfs_all adj ns s = Some s' \<and> dfs_inv adj [] s'
       \<and> (\<forall>x. colour_of s x = Black \<longrightarrow> colour_of s' x = Black)
       \<and> (\<forall>n \<in> set ns. colour_of s' n = Black)"
proof (induction ns arbitrary: s)
  case (Cons n ns)
  note inv = Cons.prems(1)
  show ?case
  proof (cases "col s n = Some White")
    case True
    let ?s = "s\<lparr>col := (col s)(n \<mapsto> Grey)\<rparr>"
    have white: "colour_of s n = White" using True by (simp add: colour_of_def)
    from dfs_loop_inv [OF dfs_start [OF inv white]]
    obtain s1 where s1: "dfs_loop adj [(n, 0)] ?s = Some s1" "dfs_inv adj [] s1"
      "\<And>x. colour_of ?s x = Black \<Longrightarrow> colour_of s1 x = Black"
      "\<And>x. col ?s x \<noteq> None \<Longrightarrow> col s1 x \<noteq> None"
      "\<And>x. colour_of ?s x = Grey \<Longrightarrow> colour_of s1 x = Black" by blast
    have "\<And>m. m \<in> set ns \<Longrightarrow> col s1 m \<noteq> None" using s1(4) Cons.prems(2) by auto
    from Cons.IH [OF s1(2) this] obtain s' where s': "dfs_all adj ns s1 = Some s'" "dfs_inv adj [] s'"
      "\<And>x. colour_of s1 x = Black \<Longrightarrow> colour_of s' x = Black" "\<And>m. m \<in> set ns \<Longrightarrow> colour_of s' m = Black"
      by blast
    have "colour_of s' n = Black" using s'(3) s1(5) [of n] by simp
    moreover have "colour_of s' x = Black" if "colour_of s x = Black" for x
      using that s'(3) s1(3) [of x] white by (cases "x = n") auto
    ultimately show ?thesis using s' s1(1) True by (simp add: dfs_def)
  next
    case False
    then have "colour_of s n \<noteq> White" using Cons.prems(2) [of n] by (auto simp: colour_of_def)
    moreover have "colour_of s n \<noteq> Grey" using dfs_invD(2) [OF inv, of n] by simp
    ultimately have "colour_of s n = Black" by (cases "colour_of s n") auto
    moreover obtain s' where s': "dfs_all adj ns s = Some s'" "dfs_inv adj [] s'"
      "\<And>x. colour_of s x = Black \<Longrightarrow> colour_of s' x = Black" "\<And>m. m \<in> set ns \<Longrightarrow> colour_of s' m = Black"
      using Cons.IH [OF inv] Cons.prems(2) by auto
    ultimately show ?thesis using False by auto
  qed
qed simp

subsection \<open>The adjacency of a diagram\<close>

definition fnode_ids :: "fbd_graph \<Rightarrow> string list" where
  "fnode_ids g = map fnid (fnodes g)"

text \<open>A signal flows from one node to another.\<close>

definition signal_rel :: "fbd_graph \<Rightarrow> (string \<times> string) set" where
  "signal_rel g = {(fsrc e, ftgt e) | e. e \<in> set (fedges g) \<and> fsrc e \<in> set (fnode_ids g)}"

lemma init_adj_of: "map_of (init_adj g) x = (if x \<in> set (fnode_ids g) then Some [] else None)"
proof -
  have "map_of (foldl (\<lambda>m n. js_set (fnid n) [] m) m ns) x
      = (if x \<in> set (map fnid ns) then Some [] else map_of m x)" for m :: adjacency and ns :: "fbd_node list"
    by (induction ns arbitrary: m) auto
  then show ?thesis by (simp add: init_adj_def fnode_ids_def)
qed

lemma adjacency_of_succs:
  "succs (adjacency_of g) u
     = (if u \<in> set (fnode_ids g) then map ftgt (filter (\<lambda>e. fsrc e = u) (fedges g)) else [])"
proof -
  have "map_of (foldl add_succ m es) u = (case map_of m u of None \<Rightarrow> None
      | Some s \<Rightarrow> Some (s @ map ftgt (filter (\<lambda>e. fsrc e = u) es)))" for m es
    by (induction es arbitrary: m) (auto simp: add_succ_def split: option.split)
  then show ?thesis by (simp add: succs_def adjacency_of_def init_adj_of)
qed

lemma adj_rel_signal: "adj_rel (adjacency_of g) = signal_rel g"
  by (auto simp: adj_rel_def signal_rel_def adjacency_of_succs)

lemma init_dfs_col: "col (init_dfs g) x = (if x \<in> set (fnode_ids g) then Some White else None)"
proof -
  have "foldl (\<lambda>m n. m(fnid n \<mapsto> White)) m ns x = (if x \<in> set (map fnid ns) then Some White else m x)" for m and ns :: "fbd_node list"
    by (induction ns arbitrary: m) auto
  then show ?thesis by (simp add: init_dfs_def fnode_ids_def)
qed

text \<open>A loop as the code reports it: its nodes in order of the signal, the first one twice.\<close>

definition feedback_loop :: "fbd_graph \<Rightarrow> string list \<Rightarrow> bool" where
  "feedback_loop g c \<longleftrightarrow> length c \<ge> 2 \<and> hd c = last c \<and> successively (\<lambda>a b. (a, b) \<in> signal_rel g) c"

lemma detectCycles_spec:
  "\<exists>cs. detectCycles g = Some cs \<and> (\<forall>c \<in> set cs. feedback_loop g c) \<and> (cs = [] \<longleftrightarrow> acyclic (signal_rel g))"
proof -
  let ?adj = "adjacency_of g"
  have white: "colour_of (init_dfs g) x = White" for x by (simp add: colour_of_def init_dfs_col)
  then have "dfs_inv ?adj [] (init_dfs g)"
    by (simp add: dfs_inv_def black_closed_def) (simp add: init_dfs_def)
  from dfs_all_inv [OF this, of "fnode_ids g"]
  obtain s where s: "dfs_all ?adj (fnode_ids g) (init_dfs g) = Some s" "dfs_inv ?adj [] s"
    "\<And>n. n \<in> set (fnode_ids g) \<Longrightarrow> colour_of s n = Black"
    by (auto simp: init_dfs_col)
  have loops: "\<forall>c \<in> set (found s). feedback_loop g c"
    using dfs_invD(4) [OF s(2)] adj_rel_signal [of g, symmetric]
    by (simp add: real_loop_def feedback_loop_def adj_rel_def)
  have "found s = [] \<longleftrightarrow> acyclic (signal_rel g)"
  proof
    assume none: "found s = []"
    show "acyclic (signal_rel g)"
      unfolding acyclic_def
    proof
      fix x
      show "(x, x) \<notin> (signal_rel g)\<^sup>+"
      proof
        assume x: "(x, x) \<in> (signal_rel g)\<^sup>+"
        then obtain y where "(x, y) \<in> signal_rel g" by (meson tranclD)
        then have "x \<in> set (fnode_ids g)" by (auto simp: signal_rel_def)
        with s(3) dfs_invD(5) [OF s(2) none] x show False
          by (simp add: black_closed_def adj_rel_signal)
      qed
    qed
  next
    assume acyc: "acyclic (signal_rel g)"
    have "c \<notin> set (found s)" for c
    proof
      assume "c \<in> set (found s)"
      then have "(hd c, hd c) \<in> (signal_rel g)\<^sup>+"
        using real_loop_cyclic [OF dfs_invD(4) [OF s(2)]] by (simp add: adj_rel_signal)
      with acyc show False by (simp add: acyclic_def)
    qed
    then show "found s = []" by (metis list.set_intros(1) neq_Nil_conv)
  qed
  with s(1) loops show ?thesis by (simp add: detectCycles_def fnode_ids_def)
qed

end
