(* ===== verification/FbdCompile.thy ===== *)
theory FbdCompile
  imports FbdCycles
begin

text \<open>
  Translation of a function block diagram to instruction list text (weftik-fbd-editor/src/
  backend/fbd-compile.ts): Kahn's topological sort on in-degrees, a label per wire, and the
  emission of every gate and function block. A line is a value of \<open>il_line\<close> that \<open>il_text\<close>
  prints exactly as the template literals of the code do, so that FbdIl can also run it.
\<close>

subsection \<open>Incoming edges and in-degrees\<close>

definition init_incoming :: "fbd_graph \<Rightarrow> (string, fbd_edge list) jsmap" where
  "init_incoming g = foldl (\<lambda>m n. js_set (fnid n) [] m) [] (fnodes g)"

definition add_incoming :: "(string, fbd_edge list) jsmap \<Rightarrow> fbd_edge \<Rightarrow> (string, fbd_edge list) jsmap" where
  "add_incoming m e = (case map_of m (ftgt e) of None \<Rightarrow> m | Some l \<Rightarrow> js_set (ftgt e) (l @ [e]) m)"

definition incomingEdges :: "fbd_graph \<Rightarrow> (string, fbd_edge list) jsmap" where
  "incomingEdges g = foldl add_incoming (init_incoming g) (fedges g)"

definition incoming_at :: "fbd_graph \<Rightarrow> string \<Rightarrow> fbd_edge list" where
  "incoming_at g i = (case map_of (incomingEdges g) i of None \<Rightarrow> [] | Some l \<Rightarrow> l)"

definition inDegree :: "fbd_graph \<Rightarrow> (string, int) jsmap" where
  "inDegree g = foldl (\<lambda>m n. js_set (fnid n) (int (length (incoming_at g (fnid n)))) m) [] (fnodes g)"

definition initial_queue :: "fbd_graph \<Rightarrow> string list" where
  "initial_queue g = map fnid (filter (\<lambda>n. map_of (inDegree g) (fnid n) = Some 0) (fnodes g))"

subsection \<open>Kahn's sort\<close>

text \<open>\<open>inDegree.get(x) ?? 1\<close>\<close>

definition degree_of :: "(string, int) jsmap \<Rightarrow> string \<Rightarrow> int" where
  "degree_of deg x = (case map_of deg x of None \<Rightarrow> 1 | Some d \<Rightarrow> d)"

definition relax :: "string \<Rightarrow> (string, int) jsmap \<times> string list \<Rightarrow> fbd_edge \<Rightarrow> (string, int) jsmap \<times> string list" where
  "relax i st e =
     (if fsrc e = i then
        (let d = degree_of (fst st) (ftgt e) in
         (js_set (ftgt e) (d - 1) (fst st), if d - 1 = 0 then snd st @ [ftgt e] else snd st))
      else st)"

definition kahn_measure :: "fbd_edge list \<Rightarrow> (string, int) jsmap \<times> string list \<Rightarrow> nat" where
  "kahn_measure es st = card {x \<in> ftgt ` set es. degree_of (fst st) x > 0} + length (snd st)"

lemma degree_of_js_set [simp]: "degree_of (js_set k d m) x = (if x = k then d else degree_of m x)"
  by (simp add: degree_of_def)

lemma relax_measure:
  assumes "e \<in> set es"
  shows "kahn_measure es (relax i st e) \<le> kahn_measure es st"
proof (cases "fsrc e = i")
  case True
  let ?d = "degree_of (fst st) (ftgt e)" and ?m = "\<lambda>deg. {x \<in> ftgt ` set es. degree_of deg x > 0}"
  let ?deg = "js_set (ftgt e) (?d - 1) (fst st)"
  show ?thesis
  proof (cases "?d = 1")
    case one: True
    have "?m (fst st) = insert (ftgt e) (?m ?deg)" using assms one by auto
    moreover have "ftgt e \<notin> ?m ?deg" using one by simp
    ultimately have "card (?m (fst st)) = Suc (card (?m ?deg))" by simp
    with True one show ?thesis by (simp add: relax_def kahn_measure_def Let_def)
  next
    case False
    have "?m ?deg \<subseteq> ?m (fst st)" by (auto split: if_splits)
    then have "card (?m ?deg) \<le> card (?m (fst st))" by (intro card_mono) auto
    with True False show ?thesis by (simp add: relax_def kahn_measure_def Let_def)
  qed
qed (simp add: relax_def)

lemma relax_all_measure:
  "set ds \<subseteq> set es \<Longrightarrow> kahn_measure es (foldl (relax i) st ds) \<le> kahn_measure es st"
proof (induction ds arbitrary: st)
  case (Cons d ds)
  then have "kahn_measure es (foldl (relax i) (relax i st d) ds) \<le> kahn_measure es (relax i st d)" by simp
  also have "\<dots> \<le> kahn_measure es st" using Cons.prems by (intro relax_measure) simp
  finally show ?case by simp
qed simp

function kahn ::
  "fbd_graph \<Rightarrow> string list \<Rightarrow> (string, int) jsmap \<Rightarrow> fbd_node list \<Rightarrow> fbd_node list" where
  "kahn g [] deg acc = acc"
| "kahn g (i # queue) deg acc =
     (let (deg', queue') = foldl (relax i) (deg, queue) (fedges g)
      in kahn g queue' deg' (case nodeById g i of None \<Rightarrow> acc | Some n \<Rightarrow> acc @ [n]))"
  by pat_completeness auto
termination
proof (relation "measure (\<lambda>(g, queue, deg, acc). kahn_measure (fedges g) (deg, queue))")
  fix g :: fbd_graph and i queue and deg and acc :: "fbd_node list" and x xa y
  assume x: "x = foldl (relax i) (deg, queue) (fedges g)" "(xa, y) = x"
  then have "kahn_measure (fedges g) (xa, y) \<le> kahn_measure (fedges g) (deg, queue)"
    using relax_all_measure [of "fedges g" "fedges g" i "(deg, queue)"] by simp
  then show "((g, y, xa, case nodeById g i of None \<Rightarrow> acc | Some n \<Rightarrow> acc @ [n]), g, i # queue, deg, acc)
      \<in> measure (\<lambda>(g, queue, deg, acc). kahn_measure (fedges g) (deg, queue))"
    by (simp add: kahn_measure_def)
qed simp

definition topo_sort :: "fbd_graph \<Rightarrow> fbd_node list" where
  "topo_sort g = kahn g (initial_queue g) (inDegree g) []"

subsection \<open>Wire labels\<close>

definition wire_label :: "fbd_graph \<Rightarrow> nat \<Rightarrow> fbd_edge \<Rightarrow> string" where
  "wire_label g k e =
     (case Option.bind (nodeById g (fsrc e)) (\<lambda>n. findPin n (fsrcPort e)) of
        Some p \<Rightarrow> ''tmp_'' @ pname p @ ''_'' @ nat_to_dec k
      | None \<Rightarrow> ''tmp_'' @ nat_to_dec k)"

definition wireLabels :: "fbd_graph \<Rightarrow> (string, string) jsmap" where
  "wireLabels g = foldl (\<lambda>m (k, e). js_set (feid e) (wire_label g k e) m) [] (enumerate 0 (fedges g))"

subsection \<open>Instructions\<close>

datatype il_line =
    IlLd string string
  | IlLdn string string
  | IlAnd string
  | IlOr string
  | IlXor string
  | IlJmpc string
  | IlJmp string
  | IlLabel string
  | IlSt string
  | IlCal string "string list" string

definition il_comment :: "string \<Rightarrow> string \<Rightarrow> string" where
  "il_comment what i = ''  (* '' @ what @ '' '' @ i @ '' *)''"

fun il_text :: "il_line \<Rightarrow> string" where
  "il_text (IlLd x c) = ''LD  '' @ x @ c"
| "il_text (IlLdn x c) = ''LDN '' @ x @ c"
| "il_text (IlAnd x) = ''AND '' @ x"
| "il_text (IlOr x) = ''OR  '' @ x"
| "il_text (IlXor x) = ''XOR '' @ x"
| "il_text (IlJmpc l) = ''JMPC '' @ l"
| "il_text (IlJmp l) = ''JMP  '' @ l"
| "il_text (IlLabel l) = l @ '':''"
| "il_text (IlSt x) = ''ST  '' @ x"
| "il_text (IlCal f ps c) = ''CAL '' @ f @ ''('' @ join_with '', '' ps @ '')'' @ c"

text \<open>\<open>inputValues[i]\<close> in a template literal.\<close>

definition value_at :: "string list \<Rightarrow> nat \<Rightarrow> string" where
  "value_at vs i = (if i < length vs then vs ! i else ''undefined'')"

definition mux_label :: "string \<Rightarrow> string \<Rightarrow> string" where
  "mux_label i suffix = ''mux_'' @ i @ suffix"

definition gate_lines :: "gate_type \<Rightarrow> string \<Rightarrow> string list \<Rightarrow> il_line list" where
  "gate_lines t i vs = (case t of
     NOT_gate \<Rightarrow> [IlLdn (value_at vs 0) (il_comment ''NOT'' i)]
   | AND_gate \<Rightarrow> (if length vs = 2 then [IlLd (value_at vs 0) (il_comment ''AND'' i), IlAnd (value_at vs 1)]
       else IlLd (value_at vs 0) [] # map IlAnd (tl vs))
   | OR_gate \<Rightarrow> (if length vs = 2 then [IlLd (value_at vs 0) (il_comment ''OR'' i), IlOr (value_at vs 1)]
       else IlLd (value_at vs 0) [] # map IlOr (tl vs))
   | XOR_gate \<Rightarrow> [IlLd (value_at vs 0) (il_comment ''XOR'' i), IlXor (value_at vs 1)]
   | MUX_gate \<Rightarrow> [IlLd (value_at vs 0) (il_comment ''MUX SEL'' i), IlJmpc (mux_label i ''_sel0''),
       IlLd (value_at vs 1) [], IlJmp (mux_label i ''_end''), IlLabel (mux_label i ''_sel0''),
       IlLd (value_at vs 2) [], IlLabel (mux_label i ''_end'')])"

definition label_or :: "(string, string) jsmap \<Rightarrow> fbd_edge option \<Rightarrow> string \<Rightarrow> string" where
  "label_or labels e d = (case e of None \<Rightarrow> d
     | Some e \<Rightarrow> (case map_of labels (feid e) of None \<Rightarrow> d | Some l \<Rightarrow> l))"

definition input_value :: "fbd_graph \<Rightarrow> (string, string) jsmap \<Rightarrow> string \<Rightarrow> string \<Rightarrow> fbd_pin \<Rightarrow> string" where
  "input_value g labels d i pin =
     label_or labels (List.find (\<lambda>e. ftgtPort e = pname pin) (incoming_at g i)) d"

definition findOutgoingEdge :: "string \<Rightarrow> fbd_graph \<Rightarrow> fbd_edge option" where
  "findOutgoingEdge i g = List.find (\<lambda>e. fsrc e = i) (fedges g)"

definition gate_out_label :: "fbd_graph \<Rightarrow> (string, string) jsmap \<Rightarrow> string \<Rightarrow> string" where
  "gate_out_label g labels i = label_or labels (findOutgoingEdge i g) (''gate_out_'' @ i)"

definition emitGateNode ::
  "fbd_graph \<Rightarrow> (string, string) jsmap \<Rightarrow> string \<Rightarrow> gate_type \<Rightarrow> fbd_pin list \<Rightarrow> il_line list \<times> string list" where
  "emitGateNode g labels i t ins =
     (gate_lines t i (map (input_value g labels ''FALSE'' i) ins) @ [IlSt (gate_out_label g labels i)],
      if findOutgoingEdge i g = None then [gate_out_label g labels i] else [])"

definition fb_out_edge :: "fbd_graph \<Rightarrow> string \<Rightarrow> fbd_pin \<Rightarrow> fbd_edge option" where
  "fb_out_edge g i pin = List.find (\<lambda>e. fsrc e = i \<and> fsrcPort e = pname pin) (fedges g)"

definition fb_out_label :: "fbd_graph \<Rightarrow> (string, string) jsmap \<Rightarrow> string \<Rightarrow> fbd_pin \<Rightarrow> string" where
  "fb_out_label g labels i pin =
     label_or labels (fb_out_edge g i pin) (''fb_'' @ i @ ''_'' @ pname pin)"

definition emitFbNode ::
  "fbd_graph \<Rightarrow> (string, string) jsmap \<Rightarrow> string \<Rightarrow> string \<Rightarrow> fbd_pin list \<Rightarrow> fbd_pin list \<Rightarrow> il_line list \<times> string list"
where
  "emitFbNode g labels i f ins outs =
     (IlCal f (map (\<lambda>p. pname p @ '':='' @ input_value g labels ''0'' i p) ins) (il_comment ''FB'' i)
        # map (\<lambda>p. IlSt (fb_out_label g labels i p)) outs,
      map (fb_out_label g labels i) (filter (\<lambda>p. fb_out_edge g i p = None) outs))"

definition emit_node :: "fbd_graph \<Rightarrow> fbd_node \<Rightarrow> il_line list \<times> string list" where
  "emit_node g n = (case fdata n of
     GateNode t ins outs \<Rightarrow> emitGateNode g (wireLabels g) (fnid n) t ins
   | FunctionBlockNode f ins outs \<Rightarrow> emitFbNode g (wireLabels g) (fnid n) f ins outs)"

definition il_lines :: "fbd_graph \<Rightarrow> il_line list" where
  "il_lines g = concat (map (\<lambda>n. fst (emit_node g n)) (topo_sort g))"

record il_generation_result =
  ilText :: string
  variables :: "string list"

definition convertGraphToIl :: "fbd_graph \<Rightarrow> il_generation_result" where
  "convertGraphToIl g =
     \<lparr>ilText = join_with newline (map il_text (il_lines g)),
      variables = concat (map (\<lambda>n. snd (emit_node g n)) (topo_sort g))\<rparr>"

end
