(* ===== verification/FbdHandler.thy ===== *)
theory FbdHandler
  imports FbdRegistry FbdCompile LdCompile
begin

text \<open>
  The operation handler of the function block editor (weftik-fbd-editor/src/backend/
  fbd-operation-handler.ts): one definition per operation, with the id counter as state, then
  validation and compilation. The result records and the reading of the compiler's output are
  those of LdCompile, whose TypeScript is the same up to one message.
\<close>

datatype fbd_error = FbdValidationError string

type_synonym fbd_result = "(fbd_error + fbd_graph) \<times> nat"

definition fbd_throw :: "string \<Rightarrow> nat \<Rightarrow> fbd_result" where
  "fbd_throw msg k = (Inl (FbdValidationError msg), k)"

lemma fbd_throw_simps [simp]: "fbd_throw msg k = (Inr g, k') \<longleftrightarrow> False"
  by (simp add: fbd_throw_def)

subsection \<open>Snapping and the function block factory\<close>

definition fbd_snapToGrid :: "point \<Rightarrow> point" where
  "fbd_snapToGrid p = \<lparr>px = of_int (js_round (px p / 20)) * 20, py = of_int (js_round (py p / 20)) * 20\<rparr>"

text \<open>The width the output pins are placed at; the block itself is always 120 wide.\<close>

definition pin_width :: "string \<Rightarrow> jsnum" where
  "pin_width fbType = max 120 (of_nat (length fbType) * 8 + 40)"

definition typed_inputs :: "string \<Rightarrow> fbd_pin list" where
  "typed_inputs fbType = (case getFbDef fbType of
     Some d \<Rightarrow> map_index (\<lambda>i p. createInputPin (dname p) (ddataType p) i (length (inputs d))) (inputs d)
   | None \<Rightarrow> [createInputPin ''IN1'' ''BOOL'' 0 2, createInputPin ''IN2'' ''BOOL'' 1 2])"

definition typed_outputs :: "string \<Rightarrow> fbd_pin list" where
  "typed_outputs fbType = (case getFbDef fbType of
     Some d \<Rightarrow> map_index (\<lambda>i p. createOutputPin (dname p) (ddataType p) (pin_width fbType) i
       (length (outputs d))) (outputs d)
   | None \<Rightarrow> [createOutputPin ''Q1'' ''BOOL'' 120 0 2, createOutputPin ''Q2'' ''BOOL'' 120 1 2])"

definition createFbWithPins :: "string \<Rightarrow> point \<Rightarrow> nat \<Rightarrow> fbd_node \<times> nat" where
  "createFbWithPins fbType pos k = fbd_createFB fbType (typed_inputs fbType) (typed_outputs fbType) (Some pos) k"

subsection \<open>Lookups\<close>

definition fbd_findNode :: "fbd_graph \<Rightarrow> string \<Rightarrow> fbd_node option" where
  "fbd_findNode g i = List.find (\<lambda>n. fnid n = i) (fnodes g)"

definition validatePin :: "fbd_graph \<Rightarrow> string \<Rightarrow> string \<Rightarrow> string \<Rightarrow> fbd_error + fbd_node" where
  "validatePin g i port role = (case fbd_findNode g i of
     None \<Rightarrow> Inl (FbdValidationError (role @ '' node not found: '' @ i))
   | Some n \<Rightarrow> (case findPin n port of
       None \<Rightarrow> Inl (FbdValidationError (role @ '' port '' @ quoted port @ '' not found on ''
         @ node_type_str n @ '' '' @ quoted i))
     | Some p \<Rightarrow> Inr n))"

text \<open>\<open>next.nodes[idx] = f(next.nodes[idx])\<close> at the first node with the id, if there is one.\<close>

definition set_fnode :: "string \<Rightarrow> (fbd_node \<Rightarrow> fbd_node) \<Rightarrow> fbd_graph \<Rightarrow> fbd_graph" where
  "set_fnode i f g = (case findIndex (\<lambda>n. fnid n = i) (fnodes g) of
     Some k \<Rightarrow> g\<lparr>fnodes := (fnodes g)[k := f (fnodes g ! k)]\<rparr> | None \<Rightarrow> g)"

subsection \<open>Operations\<close>

definition createGate :: "fbd_graph \<Rightarrow> gate_type \<Rightarrow> point \<Rightarrow> nat \<Rightarrow> fbd_result" where
  "createGate g t pos k =
     (let (gate, k') = fbd_createGate t (Some (fbd_snapToGrid pos)) k; next = fbd_cloneGraph g
      in (Inr (next\<lparr>fnodes := fnodes next @ [gate]\<rparr>), k'))"

definition createFunctionBlock :: "fbd_graph \<Rightarrow> string \<Rightarrow> point \<Rightarrow> nat \<Rightarrow> fbd_result" where
  "createFunctionBlock g fbType pos k =
     (let (fb, k') = createFbWithPins fbType (fbd_snapToGrid pos) k; next = fbd_cloneGraph g
      in (Inr (next\<lparr>fnodes := fnodes next @ [fb]\<rparr>), k'))"

definition fbd_deleteElement :: "fbd_graph \<Rightarrow> string \<Rightarrow> nat \<Rightarrow> fbd_result" where
  "fbd_deleteElement g i k =
     (if fbd_findNode g i = None then fbd_throw (''Element not found: '' @ i) k
      else (let next = fbd_cloneGraph g in
        (Inr (next\<lparr>fnodes := filter (\<lambda>n. fnid n \<noteq> i) (fnodes next),
                   fedges := filter (\<lambda>e. fsrc e \<noteq> i \<and> ftgt e \<noteq> i) (fedges next)\<rparr>), k)))"

record connect_pins_params =
  sourceNodeId :: string
  sourcePortName :: string
  targetNodeId :: string
  targetPortName :: string

definition same_wire :: "connect_pins_params \<Rightarrow> fbd_edge \<Rightarrow> bool" where
  "same_wire p e \<longleftrightarrow> fsrc e = sourceNodeId p \<and> fsrcPort e = sourcePortName p
     \<and> ftgt e = targetNodeId p \<and> ftgtPort e = targetPortName p"

definition connect_pin_error :: "connect_pins_params \<Rightarrow> fbd_pin \<Rightarrow> fbd_pin \<Rightarrow> string option" where
  "connect_pin_error p a b =
     (if pdir a \<noteq> Output \<and> pdir a \<noteq> Bidi then
        Some (''Source pin '' @ quoted (sourcePortName p) @ '' is '' @ direction_str (pdir a)
          @ '', must be Output/Bidi'')
      else if pdir b \<noteq> Input \<and> pdir b \<noteq> Bidi then
        Some (''Target pin '' @ quoted (targetPortName p) @ '' is '' @ direction_str (pdir b)
          @ '', must be Input/Bidi'')
      else if ptype a \<noteq> ptype b \<and> \<not> (ptype a = ''INT'' \<and> ptype b = ''REAL'') then
        Some (''Type mismatch: '' @ ptype a @ '' '' @ right_arrow @ '' '' @ ptype b)
      else None)"

text \<open>
  \<open>findPin(...)!\<close> finds the pin that \<open>validatePin\<close> has just found; the remaining case below
  is the code reading \<open>undefined\<close>.
\<close>

definition connectPins :: "fbd_graph \<Rightarrow> connect_pins_params \<Rightarrow> nat \<Rightarrow> fbd_result" where
  "connectPins g p k =
     (case validatePin g (sourceNodeId p) (sourcePortName p) ''source'' of
        Inl e \<Rightarrow> (Inl e, k)
      | Inr a \<Rightarrow> (case validatePin g (targetNodeId p) (targetPortName p) ''target'' of
          Inl e \<Rightarrow> (Inl e, k)
        | Inr b \<Rightarrow> (case (findPin a (sourcePortName p), findPin b (targetPortName p)) of
            (Some pa, Some pb) \<Rightarrow>
              (case connect_pin_error p pa pb of
                 Some msg \<Rightarrow> fbd_throw msg k
               | None \<Rightarrow>
                   if List.find (same_wire p) (fedges g) \<noteq> None then (Inr g, k)
                   else (let (e, k') = createSignalEdge (sourceNodeId p) (sourcePortName p)
                              (targetNodeId p) (targetPortName p) None k;
                            next = fbd_cloneGraph g
                         in (Inr (next\<lparr>fedges := fedges next @ [e]\<rparr>), k')))
          | _ \<Rightarrow> fbd_throw ''Cannot read properties of undefined'' k)))"

definition touches_pin :: "string \<Rightarrow> string \<Rightarrow> fbd_edge \<Rightarrow> bool" where
  "touches_pin i port e \<longleftrightarrow> fsrc e = i \<and> fsrcPort e = port \<or> ftgt e = i \<and> ftgtPort e = port"

definition disconnectPin :: "fbd_graph \<Rightarrow> string \<Rightarrow> string \<Rightarrow> nat \<Rightarrow> fbd_result" where
  "disconnectPin g i port k =
     (if fbd_findNode g i = None then fbd_throw (''Node not found: '' @ i) k
      else (let next = fbd_cloneGraph g in
        (Inr (next\<lparr>fedges := filter (\<lambda>e. \<not> touches_pin i port e) (fedges next)\<rparr>), k)))"

definition moveElement :: "fbd_graph \<Rightarrow> string \<Rightarrow> point \<Rightarrow> nat \<Rightarrow> fbd_result" where
  "moveElement g i pos k =
     (if fbd_findNode g i = None then fbd_throw (''Element not found: '' @ i) k
      else (Inr (set_fnode i (\<lambda>n. n\<lparr>fpos := fbd_snapToGrid pos\<rparr>) (fbd_cloneGraph g)), k))"

definition changeGateType :: "fbd_graph \<Rightarrow> string \<Rightarrow> gate_type \<Rightarrow> nat \<Rightarrow> fbd_result" where
  "changeGateType g i t k = (case fbd_findNode g i of
     None \<Rightarrow> fbd_throw (''Not a gate: '' @ i) k
   | Some n \<Rightarrow> (case fdata n of
       FunctionBlockNode f ins outs \<Rightarrow> fbd_throw (''Not a gate: '' @ i) k
     | GateNode t0 ins outs \<Rightarrow>
         if t0 = t then (Inr g, k)
         else (let (gate, k') = fbd_createGate t (Some (fpos n)) k
               in (Inr (set_fnode i (\<lambda>_. gate\<lparr>fnid := i\<rparr>) (fbd_cloneGraph g)), k'))))"

definition changeFbType :: "fbd_graph \<Rightarrow> string \<Rightarrow> string \<Rightarrow> nat \<Rightarrow> fbd_result" where
  "changeFbType g i t k = (case fbd_findNode g i of
     None \<Rightarrow> fbd_throw (''Not an FB: '' @ i) k
   | Some n \<Rightarrow> (case fdata n of
       GateNode t0 ins outs \<Rightarrow> fbd_throw (''Not an FB: '' @ i) k
     | FunctionBlockNode t0 ins outs \<Rightarrow>
         if t0 = t then (Inr g, k)
         else (let (fb, k') = createFbWithPins t (fpos n) k;
                   next = set_fnode i (\<lambda>_. fb\<lparr>fnid := i\<rparr>) (fbd_cloneGraph g);
                   validPins = map pname (getInputPorts fb @ getOutputPorts fb)
               in (Inr (next\<lparr>fedges := filter (\<lambda>e.
                     \<not> (fsrc e = i \<and> fsrcPort e \<notin> set validPins)
                     \<and> \<not> (ftgt e = i \<and> ftgtPort e \<notin> set validPins)) (fedges next)\<rparr>), k'))))"

subsection \<open>Validation and compilation\<close>

definition unconnected :: "fbd_graph \<Rightarrow> fbd_node \<Rightarrow> finding list" where
  "unconnected g n = map (\<lambda>p. warn (''Unconnected output: '' @ quoted (pname p) @ '' on ''
       @ node_type_str n @ '' '' @ quoted (fnid n)))
     (filter (\<lambda>p. \<not> (\<exists>e \<in> set (fedges g). fsrc e = fnid n \<and> fsrcPort e = pname p)) (getOutputPorts n))"

definition fbd_validate :: "fbd_graph \<Rightarrow> fbd_validation option" where
  "fbd_validate g = map_option (\<lambda>v. v\<lparr>findings := findings v @ concat (map (unconnected g) (fnodes g))\<rparr>)
     (fbd_validateGraph g)"

definition fbd_parseCompileOutput ::
  "(string \<Rightarrow> json option) \<Rightarrow> (jsnum \<Rightarrow> string) \<Rightarrow> string \<Rightarrow> compile_result" where
  "fbd_parseCompileOutput parse num raw = (case parse raw of
     None \<Rightarrow> failed [simple_diag raw ''E998'']
   | Some (JArr ds) \<Rightarrow> if JNull \<in> set ds then failed [simple_diag raw ''E998'']
       else failed (map_index (diag_of num) ds)
   | Some (JObj m) \<Rightarrow> if map_of m ''instructions'' \<noteq> None
       then \<lparr>success = True, programJson = raw, diagnostics = []\<rparr>
       else failed [simple_diag ''Unknown compile output'' ''E999'']
   | Some _ \<Rightarrow> failed [simple_diag ''Unknown compile output'' ''E999''])"

definition fbd_compile ::
  "(string \<Rightarrow> string + string) \<Rightarrow> (string \<Rightarrow> json option) \<Rightarrow> (jsnum \<Rightarrow> string) \<Rightarrow> fbd_graph
     \<Rightarrow> compile_result option" where
  "fbd_compile compileFn parse num g = map_option (\<lambda>v.
     if \<not> fvalid v then
       failed (map_index (\<lambda>i f. simple_diag (fmessage f) (''V'' @ padStart3 (nat_to_dec (i + 1))))
         (filter (\<lambda>f. fseverity f = SevError) (findings v)))
     else (case compileFn (ilText (convertGraphToIl g)) of
         Inr raw \<Rightarrow> fbd_parseCompileOutput parse num raw
       | Inl msg \<Rightarrow> failed [simple_diag msg ''E999''])) (fbd_validate g)"

end
