(* ===== verification/FbdSort.thy ===== *)
theory FbdSort
  imports FbdCompile "HOL-Library.Multiset"
begin

text \<open>
  Kahn's sort puts every node of a loop-free diagram in an order that follows the signals:
  each node exactly once, after all nodes that feed it.
\<close>

definition fbd_wf :: "fbd_graph \<Rightarrow> bool" where
  "fbd_wf g \<longleftrightarrow> distinct (fnode_ids g)
     \<and> (\<forall>e \<in> set (fedges g). fsrc e \<in> set (fnode_ids g) \<and> ftgt e \<in> set (fnode_ids g))"

subsection \<open>The tables\<close>

lemma nodeById_eq_find:
  assumes "distinct (fnode_ids g)"
  shows "nodeById g i = List.find (\<lambda>n. fnid n = i) (fnodes g)"
proof -
  have "distinct (map fnid ns) \<Longrightarrow> (\<forall>n \<in> set ns. m (fnid n) = None) \<Longrightarrow>
      foldl (\<lambda>m n. m(fnid n \<mapsto> n)) m ns i
        = (case List.find (\<lambda>n. fnid n = i) ns of None \<Rightarrow> m i | Some n \<Rightarrow> Some n)" for m and ns :: "fbd_node list"
  proof (induction ns arbitrary: m)
    case (Cons n ns)
    have "foldl (\<lambda>m n. m(fnid n \<mapsto> n)) (m(fnid n \<mapsto> n)) ns i
        = (case List.find (\<lambda>n. fnid n = i) ns of None \<Rightarrow> (m(fnid n \<mapsto> n)) i | Some k \<Rightarrow> Some k)"
      using Cons.prems by (intro Cons.IH) (auto, metis image_eqI)
    moreover have "fnid n = i \<Longrightarrow> List.find (\<lambda>n. fnid n = i) ns = None"
      using Cons.prems(1) by (simp add: find_None_iff) (metis image_eqI)
    ultimately show ?case
      by (cases "fnid n = i") (auto simp del: fun_upd_apply simp: fun_upd_same fun_upd_other split: option.split)
  qed simp
  from this [of "fnodes g" Map.empty] assms show ?thesis
    by (simp add: nodeById_def fnode_ids_def split: option.split)
qed

lemma nodeById_Some: "distinct (fnode_ids g) \<Longrightarrow> n \<in> set (fnodes g) \<Longrightarrow> nodeById g (fnid n) = Some n"
proof -
  assume d: "distinct (fnode_ids g)" and n: "n \<in> set (fnodes g)"
  have "List.find (\<lambda>m. fnid m = fnid n) (fnodes g) \<noteq> None" using n by (auto simp: find_None_iff)
  then obtain m where m: "List.find (\<lambda>m. fnid m = fnid n) (fnodes g) = Some m" by auto
  then have "m \<in> set (fnodes g)" "fnid m = fnid n" by (auto dest: find_SomeD)
  with d n have "m = n" by (auto simp: fnode_ids_def distinct_map dest: inj_onD)
  with m d show ?thesis by (simp add: nodeById_eq_find)
qed

lemma nodeById_None: "distinct (fnode_ids g) \<Longrightarrow> nodeById g i = None \<longleftrightarrow> i \<notin> set (fnode_ids g)"
  by (auto simp: nodeById_eq_find find_None_iff fnode_ids_def)

lemma nodeById_SomeD:
  "distinct (fnode_ids g) \<Longrightarrow> nodeById g i = Some n \<Longrightarrow> n \<in> set (fnodes g) \<and> fnid n = i"
  by (auto simp: nodeById_eq_find dest: find_SomeD)

lemma incoming_at_eq:
  "incoming_at g i = (if i \<in> set (fnode_ids g) then filter (\<lambda>e. ftgt e = i) (fedges g) else [])"
proof -
  have "map_of (foldl add_incoming m es) i = (case map_of m i of None \<Rightarrow> None
      | Some l \<Rightarrow> Some (l @ filter (\<lambda>e. ftgt e = i) es))" for m es
    by (induction es arbitrary: m) (auto simp: add_incoming_def split: option.split)
  moreover have "map_of (foldl (\<lambda>m n. js_set (fnid n) [] m) m ns) i
      = (if i \<in> set (map fnid ns) then Some [] else map_of m i)"
    for m :: "(string, fbd_edge list) jsmap" and ns :: "fbd_node list"
    by (induction ns arbitrary: m) auto
  ultimately show ?thesis
    by (simp add: incoming_at_def incomingEdges_def init_incoming_def fnode_ids_def)
qed

lemma inDegree_eq:
  "map_of (inDegree g) i = (if i \<in> set (fnode_ids g) then Some (int (length (incoming_at g i))) else None)"
proof -
  have "map_of (foldl (\<lambda>m n. js_set (fnid n) (int (length (incoming_at g (fnid n)))) m) m ns) i
      = (if i \<in> set (map fnid ns) then Some (int (length (incoming_at g i))) else map_of m i)"
    for m :: "(string, int) jsmap" and ns :: "fbd_node list"
    by (induction ns arbitrary: m) auto
  then show ?thesis by (simp add: inDegree_def fnode_ids_def)
qed

subsection \<open>One pop\<close>

definition out_count :: "string \<Rightarrow> fbd_edge list \<Rightarrow> string \<Rightarrow> int" where
  "out_count i es x = int (length (filter (\<lambda>e. fsrc e = i \<and> ftgt e = x) es))"

lemma relax_all:
  "\<exists>deg' new. foldl (relax i) (deg, q) es = (deg', q @ new) \<and> distinct new
     \<and> (\<forall>x. degree_of deg' x = degree_of deg x - out_count i es x)
     \<and> set new = {x. 0 < degree_of deg x \<and> degree_of deg x \<le> out_count i es x}"
proof (induction es rule: rev_induct)
  case Nil
  then show ?case by (auto simp: out_count_def intro!: exI [of _ deg] exI [of _ "[]"])
next
  case (snoc e es)
  then obtain deg' new where IH: "foldl (relax i) (deg, q) es = (deg', q @ new)" "distinct new"
    "\<And>x. degree_of deg' x = degree_of deg x - out_count i es x"
    "set new = {x. 0 < degree_of deg x \<and> degree_of deg x \<le> out_count i es x}" by auto
  show ?case
  proof (cases "fsrc e = i")
    case False
    then have "out_count i (es @ [e]) x = out_count i es x" for x by (simp add: out_count_def)
    moreover have "foldl (relax i) (deg, q) (es @ [e]) = (deg', q @ new)"
      using False IH(1) by (simp add: relax_def)
    ultimately show ?thesis using IH(2-4) by auto
  next
    case True
    let ?t = "ftgt e" and ?d = "degree_of deg' (ftgt e)"
    have oc: "out_count i (es @ [e]) x = out_count i es x + (if x = ?t then 1 else 0)" for x
      using True by (simp add: out_count_def)
    let ?new = "if ?d - 1 = 0 then new @ [?t] else new"
    have run: "foldl (relax i) (deg, q) (es @ [e]) = (js_set ?t (?d - 1) deg', q @ ?new)"
      using IH(1) True by (simp add: relax_def Let_def)
    have "out_count i es x \<ge> 0" for x by (simp add: out_count_def)
    then have pos: "degree_of deg ?t - out_count i es ?t = 1 \<Longrightarrow> 0 < degree_of deg ?t"
      by (smt (verit))
    have "distinct ?new" using IH(2-4) by auto
    moreover have "degree_of (js_set ?t (?d - 1) deg') x = degree_of deg x - out_count i (es @ [e]) x" for x
      using IH(3) by (simp add: oc)
    moreover have "set ?new = {x. 0 < degree_of deg x \<and> degree_of deg x \<le> out_count i (es @ [e]) x}"
      using IH(3,4) pos by (auto simp: oc)
    ultimately show ?thesis using run by blast
  qed
qed

text \<open>Incoming edges of \<open>x\<close> whose source has not been popped.\<close>

definition pending :: "fbd_graph \<Rightarrow> string list \<Rightarrow> string \<Rightarrow> int" where
  "pending g P x = int (length (filter (\<lambda>e. ftgt e = x \<and> fsrc e \<notin> set P) (fedges g)))"

lemma pending_snoc:
  assumes "i \<notin> set P"
  shows "pending g (P @ [i]) x = pending g P x - out_count i (fedges g) x"
proof -
  have "length (filter (\<lambda>e. ftgt e = x \<and> fsrc e \<notin> set P) es)
      = length (filter (\<lambda>e. ftgt e = x \<and> fsrc e \<notin> set (P @ [i])) es)
        + length (filter (\<lambda>e. fsrc e = i \<and> ftgt e = x) es)" for es :: "fbd_edge list"
    using assms by (induction es) auto
  from this [of "fedges g"] show ?thesis by (simp add: pending_def out_count_def)
qed

lemma pending_zero: "pending g P x = 0 \<longleftrightarrow> (\<forall>e \<in> set (fedges g). ftgt e = x \<longrightarrow> fsrc e \<in> set P)"
  by (auto simp: pending_def filter_empty_conv)

lemma pending_nonneg: "pending g P x \<ge> 0"
  by (simp add: pending_def)

subsection \<open>The loop\<close>

definition follows_signals :: "fbd_graph \<Rightarrow> string list \<Rightarrow> bool" where
  "follows_signals g P \<longleftrightarrow> (\<forall>k < length P. \<forall>e \<in> set (fedges g). ftgt e = P ! k \<longrightarrow> fsrc e \<in> set (take k P))"

definition kahn_inv :: "fbd_graph \<Rightarrow> string list \<Rightarrow> string list \<Rightarrow> (string, int) jsmap \<Rightarrow> bool" where
  "kahn_inv g P queue deg \<longleftrightarrow> distinct (P @ queue)
     \<and> set (P @ queue) = {x \<in> set (fnode_ids g). pending g P x = 0}
     \<and> (\<forall>x \<in> set (fnode_ids g). degree_of deg x = pending g P x)
     \<and> follows_signals g P"

lemma kahn_inv_pop:
  assumes wf: "fbd_wf g" and inv: "kahn_inv g P (i # queue) deg"
    and run: "foldl (relax i) (deg, queue) (fedges g) = (deg', queue')"
  shows "kahn_inv g (P @ [i]) queue' deg'"
proof -
  from relax_all [of i deg queue "fedges g"] run obtain new where new: "queue' = queue @ new" "distinct new"
    "\<And>x. degree_of deg' x = degree_of deg x - out_count i (fedges g) x"
    "set new = {x. 0 < degree_of deg x \<and> degree_of deg x \<le> out_count i (fedges g) x}" by auto
  have I: "distinct (P @ i # queue)" "set (P @ i # queue) = {x \<in> set (fnode_ids g). pending g P x = 0}"
    "\<And>x. x \<in> set (fnode_ids g) \<Longrightarrow> degree_of deg x = pending g P x" "follows_signals g P"
    using inv by (auto simp: kahn_inv_def)
  have i: "i \<notin> set P" using I(1) by simp
  note snoc = pending_snoc [OF i, of g]
  have outside: "out_count i (fedges g) x = 0" if "x \<notin> set (fnode_ids g)" for x
    using wf that by (auto simp: out_count_def fbd_wf_def filter_empty_conv)
  have new_set: "set new = {x \<in> set (fnode_ids g). pending g P x > 0 \<and> pending g (P @ [i]) x = 0}"
  proof -
    have "0 < degree_of deg x \<and> degree_of deg x \<le> out_count i (fedges g) x
        \<longleftrightarrow> x \<in> set (fnode_ids g) \<and> pending g P x > 0 \<and> pending g (P @ [i]) x = 0" for x
    proof (cases "x \<in> set (fnode_ids g)")
      case True
      then show ?thesis using I(3) [OF True] snoc [of x] pending_nonneg [of g "P @ [i]" x] by auto
    qed (use outside [of x] in auto)
    then show ?thesis unfolding new(4) by blast
  qed
  have mono: "pending g P x = 0 \<Longrightarrow> pending g (P @ [i]) x = 0" for x
    by (auto simp: pending_zero)
  have "distinct ((P @ [i]) @ queue')" using I(1,2) new(2) new_set by (auto simp: new(1))
  moreover have "set ((P @ [i]) @ queue') = {x \<in> set (fnode_ids g). pending g (P @ [i]) x = 0}"
    using I(2) new_set mono pending_nonneg [of g P] by (auto simp: new(1) order.order_iff_strict)
  moreover have "degree_of deg' x = pending g (P @ [i]) x" if "x \<in> set (fnode_ids g)" for x
    using new(3) I(3) [OF that] snoc by simp
  moreover have "follows_signals g (P @ [i])"
  proof -
    have "pending g P i = 0" using I(2) by auto
    then show ?thesis using I(4) by (auto simp: follows_signals_def nth_append pending_zero less_Suc_eq)
  qed
  ultimately show ?thesis by (simp add: kahn_inv_def)
qed

lemma kahn_run:
  "fbd_wf g \<Longrightarrow> kahn_inv g P queue deg \<Longrightarrow> acc = map (the \<circ> nodeById g) P \<Longrightarrow>
    \<exists>P' deg'. kahn g queue deg acc = map (the \<circ> nodeById g) P' \<and> kahn_inv g P' [] deg'"
proof (induction g queue deg acc arbitrary: P rule: kahn.induct)
  case (2 g i queue deg acc)
  obtain deg' queue' where run: "foldl (relax i) (deg, queue) (fedges g) = (deg', queue')"
    by (rule prod.exhaust)
  have inv: "kahn_inv g (P @ [i]) queue' deg'" by (rule kahn_inv_pop [OF "2.prems"(1,2) run])
  have "i \<in> set (fnode_ids g)" using "2.prems"(2) by (auto simp: kahn_inv_def)
  then obtain n where n: "nodeById g i = Some n"
    using "2.prems"(1) nodeById_None [of g i] by (auto simp: fbd_wf_def)
  then have acc: "(case nodeById g i of None \<Rightarrow> acc | Some n \<Rightarrow> acc @ [n]) = map (the \<circ> nodeById g) (P @ [i])"
    using "2.prems"(3) by simp
  from "2.IH" [OF run [symmetric] refl "2.prems"(1) inv acc] run show ?case by simp
qed auto

lemma kahn_start: "kahn_inv g [] (initial_queue g) (inDegree g)" if wf: "fbd_wf g"
proof -
  have deg: "degree_of (inDegree g) x = pending g [] x" if "x \<in> set (fnode_ids g)" for x
    using that by (simp add: degree_of_def inDegree_eq incoming_at_eq pending_def)
  have q: "initial_queue g = filter (\<lambda>i. map_of (inDegree g) i = Some 0) (fnode_ids g)"
    by (simp add: initial_queue_def fnode_ids_def filter_map comp_def)
  have "set (initial_queue g) = {x \<in> set (fnode_ids g). pending g [] x = 0}"
    unfolding q by (auto simp: inDegree_eq incoming_at_eq pending_def)
  moreover have "distinct (initial_queue g)" using wf by (simp add: q fbd_wf_def)
  ultimately show ?thesis using deg by (simp add: kahn_inv_def follows_signals_def)
qed

text \<open>When no loop holds anything back, everything has been popped.\<close>

lemma signal_rel_wf:
  assumes "fbd_wf g"
  shows "signal_rel g = (\<lambda>e. (fsrc e, ftgt e)) ` set (fedges g)"
  using assms by (auto simp: signal_rel_def fbd_wf_def)

lemma all_popped:
  assumes wf: "fbd_wf g" and acyc: "acyclic (signal_rel g)" and inv: "kahn_inv g P [] deg"
  shows "set P = set (fnode_ids g)"
proof (rule ccontr)
  have P: "set P = {x \<in> set (fnode_ids g). pending g P x = 0}" using inv by (simp add: kahn_inv_def)
  assume "set P \<noteq> set (fnode_ids g)"
  then obtain x where x: "x \<in> set (fnode_ids g) - set P" using P by auto
  have "finite (signal_rel g)" by (simp add: signal_rel_wf [OF wf])
  with acyc have "wf (signal_rel g)" by (intro finite_acyclic_wf)
  from wfE_min [OF this x] obtain z where z: "z \<in> set (fnode_ids g) - set P"
    "\<And>y. (y, z) \<in> signal_rel g \<Longrightarrow> y \<notin> set (fnode_ids g) - set P" by blast
  have "fsrc e \<in> set P" if e: "e \<in> set (fedges g)" "ftgt e = z" for e
  proof -
    have "fsrc e \<in> set (fnode_ids g)" using wf e by (simp add: fbd_wf_def)
    moreover have "(fsrc e, z) \<in> signal_rel g" using e by (auto simp: signal_rel_wf [OF wf])
    ultimately show ?thesis using z(2) by blast
  qed
  then have "pending g P z = 0" by (simp add: pending_zero)
  with z(1) P show False by auto
qed

text \<open>The sort as ids.\<close>

definition sorted_ids :: "fbd_graph \<Rightarrow> string list" where
  "sorted_ids g = map fnid (topo_sort g)"

lemma topo_sort_ids:
  assumes wf: "fbd_wf g"
  obtains deg where "kahn_inv g (sorted_ids g) [] deg"
    and "topo_sort g = map (the \<circ> nodeById g) (sorted_ids g)"
proof -
  from kahn_run [OF wf kahn_start [OF wf], of "[]"] obtain P deg where
    P: "topo_sort g = map (the \<circ> nodeById g) P" "kahn_inv g P [] deg"
    by (auto simp: topo_sort_def)
  have "fnid (the (nodeById g i)) = i" if "i \<in> set P" for i
  proof -
    have "i \<in> set (fnode_ids g)" using that P(2) by (auto simp: kahn_inv_def)
    then obtain n where "nodeById g i = Some n" using wf nodeById_None [of g i] by (auto simp: fbd_wf_def)
    then show ?thesis using nodeById_SomeD [of g i n] wf by (simp add: fbd_wf_def)
  qed
  then have "sorted_ids g = P" by (simp add: sorted_ids_def P(1) map_idI)
  with P that show thesis by simp
qed

lemma topo_sort_order:
  assumes wf: "fbd_wf g"
  shows "distinct (sorted_ids g)" "set (topo_sort g) \<subseteq> set (fnodes g)" "follows_signals g (sorted_ids g)"
proof -
  from topo_sort_ids [OF wf] obtain deg where P: "kahn_inv g (sorted_ids g) [] deg"
    "topo_sort g = map (the \<circ> nodeById g) (sorted_ids g)" by blast
  then show "distinct (sorted_ids g)" "follows_signals g (sorted_ids g)" by (simp_all add: kahn_inv_def)
  show "set (topo_sort g) \<subseteq> set (fnodes g)"
  proof
    fix n assume "n \<in> set (topo_sort g)"
    then obtain i where i: "i \<in> set (sorted_ids g)" "n = the (nodeById g i)" by (subst (asm) P(2)) auto
    then have "i \<in> set (fnode_ids g)" using P(1) by (auto simp: kahn_inv_def)
    with i wf show "n \<in> set (fnodes g)"
      using nodeById_None [of g i] nodeById_SomeD [of g i] by (auto simp: fbd_wf_def)
  qed
qed

lemma topo_sort_all:
  assumes wf: "fbd_wf g" and acyc: "acyclic (signal_rel g)"
  shows "mset (topo_sort g) = mset (fnodes g)"
proof -
  from topo_sort_ids [OF wf] obtain deg where P: "kahn_inv g (sorted_ids g) [] deg" by blast
  have ids: "set (sorted_ids g) = set (fnode_ids g)" by (rule all_popped [OF wf acyc P])
  have d: "distinct (topo_sort g)"
    using topo_sort_order(1) [OF wf] by (simp add: sorted_ids_def distinct_map)
  have "n \<in> set (topo_sort g)" if n: "n \<in> set (fnodes g)" for n
  proof -
    have "fnid n \<in> set (sorted_ids g)" using n ids by (simp add: fnode_ids_def)
    then obtain m where m: "m \<in> set (topo_sort g)" "fnid m = fnid n" by (auto simp: sorted_ids_def)
    then have "m \<in> set (fnodes g)" using topo_sort_order(2) [OF wf] by blast
    with m n wf have "m = n" by (auto simp: fbd_wf_def fnode_ids_def distinct_map dest: inj_onD)
    with m show ?thesis by simp
  qed
  then have "set (topo_sort g) = set (fnodes g)" using topo_sort_order(2) [OF wf] by blast
  moreover have "distinct (fnodes g)" using wf by (simp add: fbd_wf_def fnode_ids_def distinct_map)
  ultimately show ?thesis using d by (simp add: set_eq_iff_mset_eq_distinct [symmetric])
qed

end
