(* ===== verification/FbdMachine.thy ===== *)
theory FbdMachine
  imports FbdHandler FbdSort EditMachine
begin

text \<open>
  The function block handler as one machine, the invariant of the diagrams it makes, and its
  preservation by every operation; it interprets the \<open>edit_machine\<close> interface. A diagram in
  the invariant has no error finding but feedback loops.
\<close>

datatype fbd_op =
    CreateGate gate_type point
  | CreateFunctionBlock string point
  | FbdDelete string
  | ConnectPins connect_pins_params
  | DisconnectPin string string
  | MoveNode string point
  | ChangeGateType string gate_type
  | ChangeFbType string string

fun run_fbd_op :: "fbd_op \<Rightarrow> fbd_graph \<Rightarrow> nat \<Rightarrow> fbd_result" where
  "run_fbd_op (CreateGate t p) g k = createGate g t p k"
| "run_fbd_op (CreateFunctionBlock t p) g k = createFunctionBlock g t p k"
| "run_fbd_op (FbdDelete i) g k = fbd_deleteElement g i k"
| "run_fbd_op (ConnectPins p) g k = connectPins g p k"
| "run_fbd_op (DisconnectPin i port) g k = disconnectPin g i port k"
| "run_fbd_op (MoveNode i p) g k = moveElement g i p k"
| "run_fbd_op (ChangeGateType i t) g k = changeGateType g i t k"
| "run_fbd_op (ChangeFbType i t) g k = changeFbType g i t k"

subsection \<open>Pins of the editor's nodes\<close>

definition canonical_pins :: "fbd_node \<Rightarrow> bool" where
  "canonical_pins n = (case fdata n of
     GateNode t i k \<Rightarrow> i = gate_inputs t \<and> k = gate_outputs t
   | FunctionBlockNode t i k \<Rightarrow> i = typed_inputs t \<and> k = typed_outputs t)"

definition in_names :: "fbd_node \<Rightarrow> string list" where
  "in_names n = map pname (getInputPorts n)"

definition out_names :: "fbd_node \<Rightarrow> string list" where
  "out_names n = map pname (getOutputPorts n)"

definition side_inputs :: "string set" where
  "side_inputs = input_names \<union> {''IN'', ''SEL'', ''IN0'', ''IN1'', ''IN2''}"

definition side_outputs :: "string set" where
  "side_outputs = output_names \<union> {''OUT'', ''Q1'', ''Q2''}"

lemma sides_disjoint: "side_inputs \<inter> side_outputs = {}"
  by (simp add: side_inputs_def side_outputs_def input_names_def output_names_def REGISTRY_def)

lemma pname_pins [simp]:
  "pname (createInputPin nm t i k) = nm" "pname (createOutputPin nm t w i k) = nm"
  "pdir (createInputPin nm t i k) = Input" "pdir (createOutputPin nm t w i k) = Output"
  "ptype (createInputPin nm t i k) = t" "ptype (createOutputPin nm t w i k) = t"
  by (simp_all add: createInputPin_def createOutputPin_def)

lemma fb_input_names: "map pname (typed_inputs t) = (case getFbDef t of Some d \<Rightarrow> map dname (inputs d) | None \<Rightarrow> [''IN1'', ''IN2''])"
  by (simp add: typed_inputs_def map_map_index split: option.split)

lemma fb_output_names: "map pname (typed_outputs t) = (case getFbDef t of Some d \<Rightarrow> map dname (outputs d) | None \<Rightarrow> [''Q1'', ''Q2''])"
  by (simp add: typed_outputs_def map_map_index split: option.split)

lemma gate_input_names: "map pname (gate_inputs t) = getDefaultInputPinNames t"
  by (simp add: gate_inputs_def map_map_index Let_def)

lemma gate_output_names: "map pname (gate_outputs t) = [''OUT'']"
  by (simp add: gate_outputs_def)

lemma in_map_index: "x \<in> set (map_index h xs) \<Longrightarrow> \<exists>i y. x = h i y"
  by (auto simp: map_index_def)

lemma pin_dirs:
  assumes "canonical_pins n"
  shows "\<forall>p \<in> set (getInputPorts n). pdir p = Input" "\<forall>p \<in> set (getOutputPorts n). pdir p = Output"
  using assms
  by (auto simp: canonical_pins_def getInputPorts_def getOutputPorts_def gate_inputs_def
      gate_outputs_def typed_inputs_def typed_outputs_def Let_def
      dest!: in_map_index split: fbd_data.splits option.splits)

lemma pin_sides:
  assumes "canonical_pins n"
  shows "set (in_names n) \<subseteq> side_inputs" "set (out_names n) \<subseteq> side_outputs"
proof -
  have i: "set (getDefaultInputPinNames t) \<subseteq> side_inputs" for t
    by (cases t) (simp_all add: side_inputs_def)
  have fi: "set (map pname (typed_inputs t)) \<subseteq> side_inputs" for t
    using registry_names(1) [of t]
    by (auto simp only: fb_input_names side_inputs_def set_map split: option.split) auto
  have fo: "set (map pname (typed_outputs t)) \<subseteq> side_outputs" for t
    using registry_names(2) [of t]
    by (auto simp only: fb_output_names side_outputs_def set_map split: option.split) auto
  show "set (in_names n) \<subseteq> side_inputs"
    using assms i fi by (cases "fdata n")
      (simp_all only: canonical_pins_def in_names_def getInputPorts_def data_inputs.simps
        gate_input_names fbd_data.case)
  show "set (out_names n) \<subseteq> side_outputs"
    using assms fo by (cases "fdata n")
      (simp_all only: canonical_pins_def out_names_def getOutputPorts_def data_outputs.simps
        gate_output_names fbd_data.case side_outputs_def, auto)
qed

lemma findPin_None: "findPin n q = None \<longleftrightarrow> q \<notin> set (in_names n) \<and> q \<notin> set (out_names n)"
  by (auto simp: findPin_def find_NoneD in_names_def out_names_def)

lemma findPin_side:
  assumes "canonical_pins n" "findPin n q = Some p"
  shows "pdir p = Output \<Longrightarrow> q \<in> set (out_names n)" "pdir p = Input \<Longrightarrow> q \<in> set (in_names n)"
    "pdir p \<noteq> Bidi" "q \<in> set (out_names n) \<Longrightarrow> pdir p = Output" "q \<in> set (in_names n) \<Longrightarrow> pdir p = Input"
proof -
  have p: "p \<in> set (getInputPorts n) \<union> set (getOutputPorts n)" "pname p = q"
    using assms(2) by (auto simp: findPin_def dest!: find_SomeD)
  note d = pin_dirs [OF assms(1)] and s = pin_sides [OF assms(1)] sides_disjoint
  show "pdir p = Output \<Longrightarrow> q \<in> set (out_names n)" "pdir p = Input \<Longrightarrow> q \<in> set (in_names n)"
      "pdir p \<noteq> Bidi"
    using p d by (auto simp: in_names_def out_names_def)
  show "q \<in> set (out_names n) \<Longrightarrow> pdir p = Output" "q \<in> set (in_names n) \<Longrightarrow> pdir p = Input"
    using p d s unfolding in_names_def out_names_def set_map by (metis Un_iff disjoint_iff imageI in_mono)+
qed


subsection \<open>The invariant\<close>

definition fedge_ids :: "fbd_graph \<Rightarrow> string list" where
  "fedge_ids g = map feid (fedges g)"

definition wired_out :: "fbd_node list \<Rightarrow> fbd_edge \<Rightarrow> bool" where
  "wired_out ns e \<longleftrightarrow> (\<exists>n \<in> set ns. fnid n = fsrc e \<and> fsrcPort e \<in> set (out_names n))"

definition wired_in :: "fbd_node list \<Rightarrow> fbd_edge \<Rightarrow> bool" where
  "wired_in ns e \<longleftrightarrow> (\<exists>n \<in> set ns. fnid n = ftgt e \<and> ftgtPort e \<in> set (in_names n))"

definition wire_key :: "fbd_edge \<Rightarrow> (string \<times> string) \<times> string \<times> string" where
  "wire_key e = ((fsrc e, fsrcPort e), ftgt e, ftgtPort e)"

definition fbd_inv :: "fbd_graph \<times> nat \<Rightarrow> bool" where
  "fbd_inv st \<longleftrightarrow> (let g = fst st in
     distinct (fnode_ids g) \<and> distinct (fedge_ids g) \<and> distinct (map wire_key (fedges g))
     \<and> (\<forall>n \<in> set (fnodes g). canonical_pins n)
     \<and> (\<forall>e \<in> set (fedges g). wired_out (fnodes g) e \<and> wired_in (fnodes g) e)
     \<and> fbd_fresh (snd st) (set (fnode_ids g) \<union> set (fedge_ids g)))"

lemma fbd_invI:
  assumes "distinct (fnode_ids g)" "distinct (fedge_ids g)" "distinct (map wire_key (fedges g))"
    "\<And>n. n \<in> set (fnodes g) \<Longrightarrow> canonical_pins n"
    "\<And>e. e \<in> set (fedges g) \<Longrightarrow> wired_out (fnodes g) e"
    "\<And>e. e \<in> set (fedges g) \<Longrightarrow> wired_in (fnodes g) e"
    "fbd_fresh k (set (fnode_ids g) \<union> set (fedge_ids g))"
  shows "fbd_inv (g, k)"
  using assms by (simp add: fbd_inv_def Let_def)

lemma fbd_invD:
  assumes "fbd_inv (g, k)"
  shows "distinct (fnode_ids g)" "distinct (fedge_ids g)" "distinct (map wire_key (fedges g))"
    "\<And>n. n \<in> set (fnodes g) \<Longrightarrow> canonical_pins n"
    "\<And>e. e \<in> set (fedges g) \<Longrightarrow> wired_out (fnodes g) e"
    "\<And>e. e \<in> set (fedges g) \<Longrightarrow> wired_in (fnodes g) e"
    "fbd_fresh k (set (fnode_ids g) \<union> set (fedge_ids g))"
  using assms by (simp_all add: fbd_inv_def Let_def)

lemma wired_mono: "set ns \<subseteq> set ns' \<Longrightarrow> wired_out ns e \<Longrightarrow> wired_out ns' e"
  "set ns \<subseteq> set ns' \<Longrightarrow> wired_in ns e \<Longrightarrow> wired_in ns' e"
  by (auto simp: wired_out_def wired_in_def)

lemma fbd_findNode_SomeD: "fbd_findNode g i = Some n \<Longrightarrow> n \<in> set (fnodes g) \<and> fnid n = i"
  by (auto simp: fbd_findNode_def dest: find_SomeD)

text \<open>With distinct ids, a node is replaced where it is and nowhere else.\<close>

lemma set_fnode_map:
  assumes "distinct (fnode_ids g)"
  shows "set_fnode i f g = g\<lparr>fnodes := map (\<lambda>n. if fnid n = i then f n else n) (fnodes g)\<rparr>"
proof (cases "findIndex (\<lambda>n. fnid n = i) (fnodes g)")
  case None
  then have "map (\<lambda>n. if fnid n = i then f n else n) (fnodes g) = fnodes g"
    by (intro map_idI) (simp add: findIndex_None)
  with None show ?thesis by (simp add: set_fnode_def)
next
  case (Some k)
  note k = findIndex_SomeD [OF Some]
  have "(fnodes g)[k := f (fnodes g ! k)] = map (\<lambda>n. if fnid n = i then f n else n) (fnodes g)"
  proof (rule nth_equalityI)
    fix j assume j: "j < length ((fnodes g)[k := f (fnodes g ! k)])"
    have "fnid (fnodes g ! j) = i \<longleftrightarrow> j = k"
      using assms k j nth_eq_iff_index_eq [of "map fnid (fnodes g)" j k] by (auto simp: fnode_ids_def)
    then show "(fnodes g)[k := f (fnodes g ! k)] ! j
        = map (\<lambda>n. if fnid n = i then f n else n) (fnodes g) ! j"
      using j k by simp
  qed simp
  with Some show ?thesis by (simp add: set_fnode_def)
qed

subsection \<open>Preservation\<close>

lemma add_node_inv:
  assumes inv: "fbd_inv (g, k)" and i: "fbd_generateId p k = (fnid n, k')" "CHR ''-'' \<notin> set p"
    and n: "canonical_pins n"
  shows "fbd_inv (g\<lparr>fnodes := fnodes g @ [n]\<rparr>, k')"
proof -
  note d = fbd_invD [OF inv]
  note new = fbd_fresh_generate [OF i d(7)]
  show ?thesis
    by (rule fbd_invI) (use d n new in \<open>auto simp: fnode_ids_def fedge_ids_def intro: wired_mono\<close>)
qed

lemma createGate_inv:
  assumes "fbd_inv (g, k)" "createGate g t p k = (Inr g', k')"
  shows "fbd_inv (g', k')"
proof -
  obtain n where n: "fbd_createGate t (Some (fbd_snapToGrid p)) k = (n, k')"
    and g': "g' = g\<lparr>fnodes := fnodes g @ [n]\<rparr>"
    using assms(2) by (auto simp: createGate_def split: prod.splits)
  then have "fbd_generateId ''gate'' k = (fnid n, k')" "canonical_pins n"
    by (auto simp: fbd_createGate_def canonical_pins_def split: prod.splits)
  with assms(1) show ?thesis unfolding g' by (intro add_node_inv) auto
qed

lemma createFbWithPins_facts:
  "createFbWithPins t p k = (n, k') \<Longrightarrow> fbd_generateId ''fb'' k = (fnid n, k') \<and> canonical_pins n
     \<and> fdata n = FunctionBlockNode t (typed_inputs t) (typed_outputs t)"
  by (auto simp: createFbWithPins_def fbd_createFB_def canonical_pins_def Let_def split: prod.splits)

lemma createFunctionBlock_inv:
  assumes "fbd_inv (g, k)" "createFunctionBlock g t p k = (Inr g', k')"
  shows "fbd_inv (g', k')"
proof -
  obtain n where n: "createFbWithPins t (fbd_snapToGrid p) k = (n, k')"
    and g': "g' = g\<lparr>fnodes := fnodes g @ [n]\<rparr>"
    using assms(2) by (auto simp: createFunctionBlock_def split: prod.splits)
  from createFbWithPins_facts [OF n] assms(1) show ?thesis
    unfolding g' by (intro add_node_inv) auto
qed

text \<open>Fewer edges and nodes, as long as no edge loses an end.\<close>

lemma shrink_inv:
  assumes inv: "fbd_inv (g, k)"
    and keep: "\<And>e n. e \<in> set (fedges g) \<Longrightarrow> Q e \<Longrightarrow> n \<in> set (fnodes g) \<Longrightarrow> fnid n = fsrc e \<or> fnid n = ftgt e \<Longrightarrow> P n"
  shows "fbd_inv (g\<lparr>fnodes := filter P (fnodes g), fedges := filter Q (fedges g)\<rparr>, k)"
proof -
  note d = fbd_invD [OF inv]
  show ?thesis
  proof (rule fbd_invI)
    show "fbd_fresh k (set (fnode_ids (g\<lparr>fnodes := filter P (fnodes g), fedges := filter Q (fedges g)\<rparr>))
        \<union> set (fedge_ids (g\<lparr>fnodes := filter P (fnodes g), fedges := filter Q (fedges g)\<rparr>)))"
      by (rule fbd_fresh_subset [OF d(7)]) (auto simp: fnode_ids_def fedge_ids_def)
    fix e assume e: "e \<in> set (fedges (g\<lparr>fnodes := filter P (fnodes g), fedges := filter Q (fedges g)\<rparr>))"
    then have "wired_out (fnodes g) e" "wired_in (fnodes g) e" using d(5,6) by auto
    with e keep [of e] show
      "wired_out (fnodes (g\<lparr>fnodes := filter P (fnodes g), fedges := filter Q (fedges g)\<rparr>)) e"
      "wired_in (fnodes (g\<lparr>fnodes := filter P (fnodes g), fedges := filter Q (fedges g)\<rparr>)) e"
      by (auto simp: wired_out_def wired_in_def)
  qed (use d in \<open>auto simp: fnode_ids_def fedge_ids_def distinct_map_filter\<close>)
qed

lemma fbd_deleteElement_inv:
  assumes "fbd_inv (g, k)" "fbd_deleteElement g i k = (Inr g', k')"
  shows "fbd_inv (g', k')"
proof -
  have "fbd_inv (g\<lparr>fnodes := filter (\<lambda>n. fnid n \<noteq> i) (fnodes g),
      fedges := filter (\<lambda>e. fsrc e \<noteq> i \<and> ftgt e \<noteq> i) (fedges g)\<rparr>, k)"
    by (rule shrink_inv [OF assms(1)]) auto
  with assms(2) show ?thesis by (auto simp: fbd_deleteElement_def Let_def split: if_splits)
qed

lemma disconnectPin_inv:
  assumes "fbd_inv (g, k)" "disconnectPin g i port k = (Inr g', k')"
  shows "fbd_inv (g', k')"
  using assms shrink_inv [OF assms(1), of "\<lambda>e. \<not> touches_pin i port e" "\<lambda>n. True"]
  by (auto simp: disconnectPin_def Let_def split: if_splits)

lemma validatePin_InrD:
  "validatePin g i port role = Inr n \<Longrightarrow> n \<in> set (fnodes g) \<and> fnid n = i \<and> findPin n port \<noteq> None"
  by (auto simp: validatePin_def dest!: fbd_findNode_SomeD split: option.splits)

lemma connectPins_cases:
  assumes "connectPins g p k = (Inr g', k')"
  obtains "g' = g" "k' = k" "\<exists>e \<in> set (fedges g). same_wire p e"
  | a b pa pb e where "validatePin g (sourceNodeId p) (sourcePortName p) ''source'' = Inr a"
      "validatePin g (targetNodeId p) (targetPortName p) ''target'' = Inr b"
      "findPin a (sourcePortName p) = Some pa" "findPin b (targetPortName p) = Some pb"
      "connect_pin_error p pa pb = None" "\<not> (\<exists>e \<in> set (fedges g). same_wire p e)"
      "createSignalEdge (sourceNodeId p) (sourcePortName p) (targetNodeId p) (targetPortName p) None k = (e, k')"
      "g' = g\<lparr>fedges := fedges g @ [e]\<rparr>"
proof -
  from assms obtain a b where ab: "validatePin g (sourceNodeId p) (sourcePortName p) ''source'' = Inr a"
      "validatePin g (targetNodeId p) (targetPortName p) ''target'' = Inr b"
    by (auto simp: connectPins_def split: sum.splits)
  with assms obtain pa pb where pp: "findPin a (sourcePortName p) = Some pa"
      "findPin b (targetPortName p) = Some pb" "connect_pin_error p pa pb = None"
    by (auto simp: connectPins_def split: option.splits)
  show thesis
  proof (cases "List.find (same_wire p) (fedges g)")
    case None
    then have none: "\<not> (\<exists>e \<in> set (fedges g). same_wire p e)" by (simp add: find_NoneD)
    obtain e k1 where e: "createSignalEdge (sourceNodeId p) (sourcePortName p) (targetNodeId p) (targetPortName p) None k = (e, k1)"
      by (rule prod.exhaust)
    with assms ab pp None have "g' = g\<lparr>fedges := fedges g @ [e]\<rparr>" "k1 = k'"
      by (auto simp: connectPins_def)
    with that(2) [OF ab pp none] e show thesis by blast
  next
    case (Some e)
    with assms ab pp have "g' = g" "k' = k" by (auto simp: connectPins_def)
    with Some that(1) show thesis by (auto dest: find_SomeD)
  qed
qed


lemma add_edge_inv:
  assumes inv: "fbd_inv (g, k)" and i: "fbd_generateId ''signal'' k = (feid e, k')"
    and key: "wire_key e \<notin> wire_key ` set (fedges g)"
    and wired: "wired_out (fnodes g) e" "wired_in (fnodes g) e"
  shows "fbd_inv (g\<lparr>fedges := fedges g @ [e]\<rparr>, k')"
proof -
  note d = fbd_invD [OF inv]
  have "CHR ''-'' \<notin> set ''signal''" by simp
  note new = fbd_fresh_generate [OF i this d(7)]
  show ?thesis
  proof (rule fbd_invI)
    show "distinct (fedge_ids (g\<lparr>fedges := fedges g @ [e]\<rparr>))"
      using d(2) new(1) by (simp add: fedge_ids_def)
    show "distinct (map wire_key (fedges (g\<lparr>fedges := fedges g @ [e]\<rparr>)))"
      using d(3) key by simp
    show "fbd_fresh k' (set (fnode_ids (g\<lparr>fedges := fedges g @ [e]\<rparr>))
        \<union> set (fedge_ids (g\<lparr>fedges := fedges g @ [e]\<rparr>)))"
      using new(2) by (simp add: fnode_ids_def fedge_ids_def)
  next
    fix x assume "x \<in> set (fedges (g\<lparr>fedges := fedges g @ [e]\<rparr>))"
    then show "wired_out (fnodes (g\<lparr>fedges := fedges g @ [e]\<rparr>)) x"
        "wired_in (fnodes (g\<lparr>fedges := fedges g @ [e]\<rparr>)) x"
      using d(5,6) wired by auto
  qed (use d(1,4) in \<open>simp_all add: fnode_ids_def\<close>)
qed

lemma connectPins_inv:
  assumes inv: "fbd_inv (g, k)" and run: "connectPins g p k = (Inr g', k')"
  shows "fbd_inv (g', k')"
  using run
proof (cases rule: connectPins_cases)
  case 1
  with inv show ?thesis by simp
next
  case (2 a b pa pb e)
  note d = fbd_invD [OF inv]
  note a = validatePin_InrD [OF 2(1)] and b = validatePin_InrD [OF 2(2)]
  from 2(7) have e: "fsrc e = sourceNodeId p" "fsrcPort e = sourcePortName p" "ftgt e = targetNodeId p"
      "ftgtPort e = targetPortName p" and i: "fbd_generateId ''signal'' k = (feid e, k')"
    by (auto simp: createSignalEdge_def split: prod.splits)
  from 2(5) have dirs: "pdir pa = Output \<or> pdir pa = Bidi" "pdir pb = Input \<or> pdir pb = Bidi"
    by (auto simp: connect_pin_error_def split: if_splits)
  have can: "canonical_pins a" "canonical_pins b" using d(4) a b by blast+
  have out: "sourcePortName p \<in> set (out_names a)"
    using findPin_side(1,3) [OF can(1) 2(3)] dirs(1) by blast
  have inn: "targetPortName p \<in> set (in_names b)"
    using findPin_side(2,3) [OF can(2) 2(4)] dirs(2) by blast
  have "wire_key e \<notin> wire_key ` set (fedges g)"
    using 2(6) e by (auto simp: wire_key_def same_wire_def)
  moreover have "wired_out (fnodes g) e" "wired_in (fnodes g) e"
    using a b out inn e by (auto simp: wired_out_def wired_in_def)
  ultimately show ?thesis unfolding 2(8) by (intro add_edge_inv [OF inv i])
qed

lemma replace_inv:
  assumes inv: "fbd_inv (g, k)" and k: "k \<le> k'" and ids: "\<And>n. fnid (h n) = fnid n"
    and can: "\<And>n. n \<in> set (fnodes g) \<Longrightarrow> canonical_pins (h n)"
    and out: "\<And>e n. e \<in> set (fedges g) \<Longrightarrow> Q e \<Longrightarrow> n \<in> set (fnodes g) \<Longrightarrow> fnid n = fsrc e \<Longrightarrow>
      fsrcPort e \<in> set (out_names n) \<Longrightarrow> fsrcPort e \<in> set (out_names (h n))"
    and inn: "\<And>e n. e \<in> set (fedges g) \<Longrightarrow> Q e \<Longrightarrow> n \<in> set (fnodes g) \<Longrightarrow> fnid n = ftgt e \<Longrightarrow>
      ftgtPort e \<in> set (in_names n) \<Longrightarrow> ftgtPort e \<in> set (in_names (h n))"
  shows "fbd_inv (g\<lparr>fnodes := map h (fnodes g), fedges := filter Q (fedges g)\<rparr>, k')"
proof -
  let ?g = "g\<lparr>fnodes := map h (fnodes g), fedges := filter Q (fedges g)\<rparr>"
  note d = fbd_invD [OF inv]
  have "map (\<lambda>n. fnid (h n)) (fnodes g) = map fnid (fnodes g)" by (simp add: ids)
  then have fn: "fnode_ids ?g = fnode_ids g" by (simp add: fnode_ids_def comp_def)
  have "fbd_fresh k (set (fnode_ids ?g) \<union> set (fedge_ids ?g))"
    unfolding fn by (rule fbd_fresh_subset [OF d(7)]) (auto simp: fedge_ids_def)
  with k have fresh: "fbd_fresh k' (set (fnode_ids ?g) \<union> set (fedge_ids ?g))"
    by (auto simp: fbd_fresh_def)
  show ?thesis
  proof (rule fbd_invI)
    fix e assume "e \<in> set (fedges ?g)"
    then have e: "e \<in> set (fedges g)" "Q e" by auto
    from d(5) [OF e(1)] out [OF e] ids show "wired_out (fnodes ?g) e" by (auto simp: wired_out_def)
    from d(6) [OF e(1)] inn [OF e] ids show "wired_in (fnodes ?g) e" by (auto simp: wired_in_def)
  qed (use d fn fresh can in \<open>auto simp: fedge_ids_def distinct_map_filter\<close>)
qed

lemma replace_all_inv:
  assumes "fbd_inv (g, k)" "k \<le> k'" "\<And>n. fnid (h n) = fnid n"
    and "\<And>n. n \<in> set (fnodes g) \<Longrightarrow> canonical_pins (h n)"
    and "\<And>e n. e \<in> set (fedges g) \<Longrightarrow> n \<in> set (fnodes g) \<Longrightarrow> fnid n = fsrc e \<Longrightarrow>
      fsrcPort e \<in> set (out_names n) \<Longrightarrow> fsrcPort e \<in> set (out_names (h n))"
    and "\<And>e n. e \<in> set (fedges g) \<Longrightarrow> n \<in> set (fnodes g) \<Longrightarrow> fnid n = ftgt e \<Longrightarrow>
      ftgtPort e \<in> set (in_names n) \<Longrightarrow> ftgtPort e \<in> set (in_names (h n))"
  shows "fbd_inv (g\<lparr>fnodes := map h (fnodes g)\<rparr>, k')"
  using replace_inv [OF assms(1-4), of "\<lambda>_. True"] assms(5,6) by simp

lemma moveElement_inv:
  assumes inv: "fbd_inv (g, k)" and run: "moveElement g i p k = (Inr g', k')"
  shows "fbd_inv (g', k')"
proof -
  let ?h = "\<lambda>n. if fnid n = i then n\<lparr>fpos := fbd_snapToGrid p\<rparr> else n"
  note d = fbd_invD [OF inv]
  have "fbd_inv (g\<lparr>fnodes := map ?h (fnodes g)\<rparr>, k)"
    by (rule replace_all_inv [OF inv]) (use d in \<open>auto simp: canonical_pins_def in_names_def
        out_names_def getInputPorts_def getOutputPorts_def\<close>)
  with run show ?thesis
    by (auto simp: moveElement_def set_fnode_map [OF d(1)] split: if_splits)
qed

subsection \<open>Changing a node's type\<close>

text \<open>
  A gate's edges must use pins of the new type: unlike \<open>changeFbType\<close>, the code leaves the
  edges of obsolete gate pins in place.
\<close>

definition fbd_safe :: "fbd_op \<Rightarrow> fbd_graph \<Rightarrow> bool" where
  "fbd_safe op g = (case op of
     ChangeGateType i t \<Rightarrow>
       (\<forall>e \<in> set (fedges g). ftgt e = i \<longrightarrow> ftgtPort e \<in> set (getDefaultInputPinNames t))
   | _ \<Rightarrow> True)"

lemma same_id_same_node:
  "distinct (fnode_ids g) \<Longrightarrow> n \<in> set (fnodes g) \<Longrightarrow> m \<in> set (fnodes g) \<Longrightarrow> fnid n = fnid m \<Longrightarrow> n = m"
  by (auto simp: fnode_ids_def distinct_map dest: inj_onD)

lemma changeGateType_inv:
  assumes inv: "fbd_inv (g, k)" and safe: "fbd_safe (ChangeGateType i t) g"
    and run: "changeGateType g i t k = (Inr g', k')"
  shows "fbd_inv (g', k')"
proof -
  note d = fbd_invD [OF inv]
  from run obtain n t0 ins outs where n: "fbd_findNode g i = Some n" "fdata n = GateNode t0 ins outs"
    by (auto simp: changeGateType_def split: option.splits fbd_data.splits)
  show ?thesis
  proof (cases "t0 = t")
    case True
    with run n inv show ?thesis by (simp add: changeGateType_def)
  next
    case False
    obtain gate k1 where gate: "fbd_createGate t (Some (fpos n)) k = (gate, k1)" by (rule prod.exhaust)
    let ?h = "\<lambda>m. if fnid m = i then gate\<lparr>fnid := i\<rparr> else m"
    from run n False gate have g': "g' = g\<lparr>fnodes := map ?h (fnodes g)\<rparr>" "k' = k1"
      by (auto simp: changeGateType_def set_fnode_map [OF d(1)])
    have data: "fdata gate = GateNode t (gate_inputs t) (gate_outputs t)" and k1: "k \<le> k1"
      using gate by (auto simp: fbd_createGate_def fbd_generateId_def)
    have names: "out_names (gate\<lparr>fnid := i\<rparr>) = [''OUT'']"
        "in_names (gate\<lparr>fnid := i\<rparr>) = getDefaultInputPinNames t"
      using data by (simp_all add: out_names_def in_names_def getOutputPorts_def getInputPorts_def
          gate_output_names gate_input_names)
    have old: "out_names m = [''OUT'']" if "m \<in> set (fnodes g)" "fnid m = i" for m
    proof -
      have "m = n" using that n same_id_same_node [OF d(1)] by (auto dest: fbd_findNode_SomeD)
      moreover have "outs = gate_outputs t0" using d(4) [OF that(1)] n \<open>m = n\<close> by (simp add: canonical_pins_def)
      ultimately show ?thesis using n by (simp add: out_names_def getOutputPorts_def gate_output_names)
    qed
    show ?thesis
      unfolding g'
    proof (rule replace_all_inv [OF inv k1])
      fix e m assume em: "e \<in> set (fedges g)" "m \<in> set (fnodes g)"
      { assume "fnid m = fsrc e" "fsrcPort e \<in> set (out_names m)"
        with em old names show "fsrcPort e \<in> set (out_names (?h m))" by auto }
      { assume "fnid m = ftgt e" "ftgtPort e \<in> set (in_names m)"
        with em safe names show "ftgtPort e \<in> set (in_names (?h m))" by (auto simp: fbd_safe_def) }
    qed (use d data in \<open>auto simp: canonical_pins_def\<close>)
  qed
qed

lemma changeFbType_inv:
  assumes inv: "fbd_inv (g, k)" and run: "changeFbType g i t k = (Inr g', k')"
  shows "fbd_inv (g', k')"
proof -
  note d = fbd_invD [OF inv]
  from run obtain n t0 ins outs where n: "fbd_findNode g i = Some n" "fdata n = FunctionBlockNode t0 ins outs"
    by (auto simp: changeFbType_def split: option.splits fbd_data.splits)
  show ?thesis
  proof (cases "t0 = t")
    case True
    with run n inv show ?thesis by (simp add: changeFbType_def)
  next
    case False
    obtain fb k1 where fb: "createFbWithPins t (fpos n) k = (fb, k1)" by (rule prod.exhaust)
    let ?h = "\<lambda>m. if fnid m = i then fb\<lparr>fnid := i\<rparr> else m"
    let ?Q = "\<lambda>e. \<not> (fsrc e = i \<and> fsrcPort e \<notin> set (map pname (getInputPorts fb @ getOutputPorts fb)))
        \<and> \<not> (ftgt e = i \<and> ftgtPort e \<notin> set (map pname (getInputPorts fb @ getOutputPorts fb)))"
    from run n False fb have g': "g' = g\<lparr>fnodes := map ?h (fnodes g), fedges := filter ?Q (fedges g)\<rparr>" "k' = k1"
      by (auto simp: changeFbType_def set_fnode_map [OF d(1)] Let_def)
    note fbf = createFbWithPins_facts [OF fb]
    then have k1: "k \<le> k1" by (auto simp: fbd_generateId_def)
    from fbf have can: "canonical_pins (fb\<lparr>fnid := i\<rparr>)" by (simp add: canonical_pins_def)
    have pins: "set (map pname (getInputPorts fb @ getOutputPorts fb))
        = set (in_names (fb\<lparr>fnid := i\<rparr>)) \<union> set (out_names (fb\<lparr>fnid := i\<rparr>))"
      by (auto simp: in_names_def out_names_def getInputPorts_def getOutputPorts_def)
    note side = pin_sides [OF can] sides_disjoint
    show ?thesis
      unfolding g'
    proof (rule replace_inv [OF inv k1])
      fix e m assume em: "e \<in> set (fedges g)" "?Q e" "m \<in> set (fnodes g)"
      { assume "fnid m = fsrc e" "fsrcPort e \<in> set (out_names m)"
        then show "fsrcPort e \<in> set (out_names (?h m))"
          using em(2) pin_sides(2) [OF d(4) [OF em(3)]] side unfolding pins by auto }
      { assume "fnid m = ftgt e" "ftgtPort e \<in> set (in_names m)"
        then show "ftgtPort e \<in> set (in_names (?h m))"
          using em(2) pin_sides(1) [OF d(4) [OF em(3)]] side unfolding pins by auto }
    qed (use d can in auto)
  qed
qed

subsection \<open>The machine\<close>

lemmas fbd_op_invs = createGate_inv createFunctionBlock_inv fbd_deleteElement_inv connectPins_inv
  disconnectPin_inv moveElement_inv changeFbType_inv

lemma run_fbd_op_inv:
  assumes "fbd_inv (g, k)" "fbd_safe op g" "run_fbd_op op g k = (Inr g', k')"
  shows "fbd_inv (g', k')"
proof (cases op)
  case (ChangeGateType i t)
  with assms show ?thesis by (auto intro: changeGateType_inv)
qed (use assms in \<open>auto intro: fbd_op_invs\<close>)

lemma run_fbd_op_throw: "run_fbd_op op g k = (Inl e, k') \<Longrightarrow> k' = k"
  by (cases op) (auto simp: createGate_def createFunctionBlock_def fbd_deleteElement_def connectPins_def
    disconnectPin_def moveElement_def changeGateType_def changeFbType_def fbd_throw_def Let_def
    split: prod.splits if_splits option.splits sum.splits fbd_data.splits)

interpretation fbd_ed: edit_machine run_fbd_op fbd_safe fbd_inv
  by unfold_locales (auto intro: run_fbd_op_inv run_fbd_op_throw)

lemma createFbdGraph_inv: "createFbdGraph i k = (g, k') \<Longrightarrow> fbd_inv (g, k')"
  by (auto simp: createFbdGraph_def fbd_inv_def fnode_ids_def fedge_ids_def fbd_fresh_def
      split: prod.splits option.splits)

subsection \<open>Validation of an edited diagram\<close>

lemma fbd_inv_wf: "fbd_inv (g, k) \<Longrightarrow> fbd_wf g"
  using fbd_invD [of g k] by (force simp: fbd_wf_def fnode_ids_def wired_out_def wired_in_def)

lemma wired_nodes:
  assumes "fbd_inv (g, k)" "e \<in> set (fedges g)"
  obtains a b pa pb where "nodeById g (fsrc e) = Some a" "nodeById g (ftgt e) = Some b"
    "findPin a (fsrcPort e) = Some pa" "pdir pa = Output" "findPin b (ftgtPort e) = Some pb" "pdir pb = Input"
proof -
  note d = fbd_invD [OF assms(1)]
  from d(5,6) [OF assms(2)] obtain a b where
    a: "a \<in> set (fnodes g)" "fnid a = fsrc e" "fsrcPort e \<in> set (out_names a)" and
    b: "b \<in> set (fnodes g)" "fnid b = ftgt e" "ftgtPort e \<in> set (in_names b)"
    by (auto simp: wired_out_def wired_in_def)
  then have nodes: "nodeById g (fsrc e) = Some a" "nodeById g (ftgt e) = Some b"
    using nodeById_Some [OF d(1)] by metis+
  from a(3) b(3) obtain pa pb where p: "findPin a (fsrcPort e) = Some pa" "findPin b (ftgtPort e) = Some pb"
    using findPin_None [of a "fsrcPort e"] findPin_None [of b "ftgtPort e"] by auto
  show thesis
    using that [OF nodes p(1) _ p(2)] findPin_side(4) [OF d(4) p(1)] findPin_side(5) [OF d(4) p(2)] a b
    by blast
qed

definition is_error :: "finding \<Rightarrow> bool" where
  "is_error f \<longleftrightarrow> fseverity f = SevError"

lemma no_structural_errors:
  assumes "fbd_inv (g, k)" "e \<in> set (fedges g)"
  shows "dangling_edges g e = []" "\<forall>f \<in> set (port_findings g e). \<not> is_error f"
proof -
  obtain a b pa pb where w: "nodeById g (fsrc e) = Some a" "nodeById g (ftgt e) = Some b"
    "findPin a (fsrcPort e) = Some pa" "pdir pa = Output" "findPin b (ftgtPort e) = Some pb" "pdir pb = Input"
    using wired_nodes [OF assms] .
  then show "dangling_edges g e = []" by (simp add: dangling_edges_def)
  from w show "\<forall>f \<in> set (port_findings g e). \<not> is_error f"
    by (auto simp: port_findings_def source_port_def target_port_def type_mismatch_def is_error_def warn_def)
qed

lemma not_errors: "\<forall>f \<in> set (disconnected g). \<not> is_error f" "\<forall>f \<in> set (unconnected g n). \<not> is_error f"
  by (auto simp: disconnected_def unconnected_def is_error_def warn_def)

lemma validate_errors_are_loops:
  assumes "fbd_inv (g, k)" "detectCycles g = Some cs"
  shows "\<exists>v. fbd_validate g = Some v \<and> filter is_error (findings v) = map loop_finding cs \<and> fvalid v = (cs = [])"
proof -
  let ?fs = "concat (map (dangling_edges g) (fedges g)) @ concat (map (port_findings g) (fedges g))
      @ map loop_finding cs @ disconnected g"
  have d: "concat (map (dangling_edges g) (fedges g)) = []"
    using no_structural_errors(1) [OF assms(1)] by simp
  have p: "filter is_error (concat (map (port_findings g) (fedges g))) = []"
    using no_structural_errors(2) [OF assms(1)] by (auto simp: filter_empty_conv)
  have l: "filter is_error (map loop_finding cs) = map loop_finding cs"
    by (rule filter_True) (auto simp: is_error_def loop_finding_def err_def)
  have e: "filter is_error (disconnected g) = []" "filter is_error (concat (map (unconnected g) (fnodes g))) = []"
    using not_errors by (auto simp: filter_empty_conv)
  have fs: "filter is_error ?fs = map loop_finding cs"
    by (simp only: filter_append d p l e) simp
  have "(\<not> (\<exists>f \<in> set ?fs. fseverity f = SevError)) \<longleftrightarrow> filter is_error ?fs = []"
    unfolding filter_empty_conv is_error_def by blast
  then have valid: "(\<not> (\<exists>f \<in> set ?fs. fseverity f = SevError)) = (cs = [])"
    unfolding fs by simp
  have "fbd_validateGraph g = Some \<lparr>fvalid = (cs = []), findings = ?fs\<rparr>"
    unfolding fbd_validateGraph_def assms(2) Let_def using valid by simp
  then have "fbd_validate g = Some \<lparr>fvalid = (cs = []), findings = ?fs @ concat (map (unconnected g) (fnodes g))\<rparr>"
    by (simp add: fbd_validate_def)
  moreover have "filter is_error (?fs @ concat (map (unconnected g) (fnodes g))) = map loop_finding cs"
    by (simp only: filter_append [of _ ?fs] fs e) simp
  ultimately show ?thesis by simp
qed

lemma inv_valid_iff:
  assumes "fbd_inv (g, k)"
  shows "\<exists>v. fbd_validate g = Some v \<and> fvalid v = acyclic (signal_rel g)"
proof -
  obtain cs where cs: "detectCycles g = Some cs" "cs = [] \<longleftrightarrow> acyclic (signal_rel g)"
    using detectCycles_spec [of g] by blast
  with validate_errors_are_loops [OF assms cs(1)] show ?thesis by auto
qed

end
