(* ===== verification/FbdIl.thy ===== *)
theory FbdIl
  imports FbdMachine
begin

text \<open>
  What the emitted instruction list computes. A machine for the emitted instructions: the
  current result, the variables, and jumps to a later label (every emitted jump has its label
  further down, and the labels are distinct). For diagrams of gates whose outputs feed at most
  one wire, the program leaves in every wire's variable the value the diagram assigns to it.
  The call of a function block is a parameter of the machine: its body is the runtime's.
\<close>

subsection \<open>The machine\<close>

type_synonym il_env = "string \<Rightarrow> bool"
type_synonym fb_call = "string \<Rightarrow> string list \<Rightarrow> bool \<Rightarrow> il_env \<Rightarrow> bool \<times> il_env"

fun skip_to :: "string \<Rightarrow> il_line list \<Rightarrow> il_line list" where
  "skip_to l [] = []"
| "skip_to l (IlLabel x # ls) = (if x = l then ls else skip_to l ls)"
| "skip_to l (_ # ls) = skip_to l ls"

lemma skip_to_length: "length (skip_to l ls) \<le> length ls"
  by (induction l ls rule: skip_to.induct) (auto intro: le_SucI)

function il_exec :: "fb_call \<Rightarrow> il_line list \<Rightarrow> bool \<Rightarrow> il_env \<Rightarrow> bool \<times> il_env" where
  "il_exec cal [] acc env = (acc, env)"
| "il_exec cal (IlLd x c # ls) acc env = il_exec cal ls (env x) env"
| "il_exec cal (IlLdn x c # ls) acc env = il_exec cal ls (\<not> env x) env"
| "il_exec cal (IlAnd x # ls) acc env = il_exec cal ls (acc \<and> env x) env"
| "il_exec cal (IlOr x # ls) acc env = il_exec cal ls (acc \<or> env x) env"
| "il_exec cal (IlXor x # ls) acc env = il_exec cal ls (acc \<noteq> env x) env"
| "il_exec cal (IlJmpc l # ls) acc env = il_exec cal (if acc then skip_to l ls else ls) acc env"
| "il_exec cal (IlJmp l # ls) acc env = il_exec cal (skip_to l ls) acc env"
| "il_exec cal (IlLabel l # ls) acc env = il_exec cal ls acc env"
| "il_exec cal (IlSt x # ls) acc env = il_exec cal ls acc (env(x := acc))"
| "il_exec cal (IlCal f ps c # ls) acc env =
     (let (acc', env') = cal f ps acc env in il_exec cal ls acc' env')"
  by pat_completeness auto
termination
  by (relation "measure (\<lambda>(cal, ls, acc, env). length ls)") (auto simp: skip_to_length le_imp_less_Suc)

subsection \<open>Gates\<close>

fun gate_value :: "gate_type \<Rightarrow> bool list \<Rightarrow> bool" where
  "gate_value NOT_gate bs = (\<not> bs ! 0)"
| "gate_value AND_gate bs = (\<forall>b \<in> set bs. b)"
| "gate_value OR_gate bs = (\<exists>b \<in> set bs. b)"
| "gate_value XOR_gate bs = (bs ! 0 \<noteq> bs ! 1)"
| "gate_value MUX_gate bs = (if bs ! 0 then bs ! 2 else bs ! 1)"

lemma length_gate_inputs: "length (gate_inputs t) = (case t of NOT_gate \<Rightarrow> 1 | MUX_gate \<Rightarrow> 3 | _ \<Rightarrow> 2)"
  by (cases t) (simp_all add: gate_inputs_def Let_def)

lemma mux_labels_differ: "mux_label i ''_sel0'' \<noteq> mux_label j ''_end''"
proof
  assume "mux_label i ''_sel0'' = mux_label j ''_end''"
  then have "last (mux_label i ''_sel0'') = last (mux_label j ''_end'')" by simp
  then show False by (simp add: mux_label_def)
qed

lemma gate_block_exec:
  assumes "length vs = length (gate_inputs t)"
  shows "il_exec cal (gate_lines t i vs @ IlSt out # rest) acc env
    = il_exec cal rest (gate_value t (map env vs)) (env(out := gate_value t (map env vs)))"
proof (cases t)
  case AND_gate
  with assms obtain a b where "vs = [a, b]" by (auto simp: length_gate_inputs length_Suc_conv numeral_2_eq_2)
  with AND_gate show ?thesis by (simp add: gate_lines_def value_at_def)
next
  case OR_gate
  with assms obtain a b where "vs = [a, b]" by (auto simp: length_gate_inputs length_Suc_conv numeral_2_eq_2)
  with OR_gate show ?thesis by (simp add: gate_lines_def value_at_def)
next
  case XOR_gate
  with assms obtain a b where "vs = [a, b]" by (auto simp: length_gate_inputs length_Suc_conv numeral_2_eq_2)
  with XOR_gate show ?thesis by (simp add: gate_lines_def value_at_def)
next
  case NOT_gate
  with assms obtain a where "vs = [a]" by (auto simp: length_gate_inputs length_Suc_conv)
  with NOT_gate show ?thesis by (simp add: gate_lines_def value_at_def)
next
  case MUX_gate
  with assms obtain a b c where "vs = [a, b, c]"
    by (auto simp: length_gate_inputs length_Suc_conv numeral_3_eq_3)
  with MUX_gate mux_labels_differ [of i i] show ?thesis by (simp add: gate_lines_def value_at_def)
qed

text \<open>Labels in the program are distinct, so a jump can only mean the one it skips to.\<close>

fun label_of :: "il_line \<Rightarrow> string list" where
  "label_of (IlLabel l) = [l]" | "label_of _ = []"

definition program_labels :: "il_line list \<Rightarrow> string list" where
  "program_labels ls = concat (map label_of ls)"

lemma program_labels_simps [simp]:
  "program_labels [] = []" "program_labels (l # ls) = label_of l @ program_labels ls"
  "program_labels (xs @ ys) = program_labels xs @ program_labels ys"
  by (simp_all add: program_labels_def)

lemma no_labels_map [simp]:
  "program_labels (map IlAnd xs) = []" "program_labels (map IlOr xs) = []"
  "program_labels (map (\<lambda>p. IlSt (f p)) ys) = []"
  by (simp_all add: program_labels_def comp_def)

lemma node_labels:
  "program_labels (fst (emit_node g n)) =
     (case fdata n of GateNode MUX_gate a b \<Rightarrow> [mux_label (fnid n) ''_sel0'', mux_label (fnid n) ''_end'']
      | _ \<Rightarrow> [])"
  by (auto simp: emit_node_def emitGateNode_def emitFbNode_def gate_lines_def
      split: fbd_data.splits gate_type.splits)

lemma il_labels_distinct:
  assumes "fbd_wf g"
  shows "distinct (program_labels (il_lines g))"
proof -
  let ?L = "\<lambda>n. program_labels (fst (emit_node g n))"
  have "distinct (map fnid ns) \<Longrightarrow> distinct (concat (map ?L ns))" for ns
  proof (induction ns)
    case (Cons n ns)
    have "set (?L n) \<inter> set (?L m) = {}" if "m \<in> set ns" for m
    proof -
      have "fnid n \<noteq> fnid m" using Cons.prems that by auto
      then show ?thesis using mux_labels_differ mux_labels_differ [symmetric]
        by (auto simp: node_labels mux_label_def split: fbd_data.splits gate_type.splits)
    qed
    moreover have "distinct (?L n)"
      using mux_labels_differ by (auto simp: node_labels split: fbd_data.splits gate_type.splits)
    ultimately show ?case using Cons by auto
  qed simp
  moreover have "program_labels (concat (map f ns)) = concat (map (\<lambda>n. program_labels (f n)) ns)"
    for f :: "fbd_node \<Rightarrow> il_line list" and ns
    by (induction ns) auto
  ultimately show ?thesis
    using topo_sort_order(1) [OF assms] by (simp add: il_lines_def sorted_ids_def)
qed

subsection \<open>Wire variables\<close>

lemma wireLabels_nth:
  assumes "distinct (fedge_ids g)" "k < length (fedges g)"
  shows "map_of (wireLabels g) (feid (fedges g ! k)) = Some (wire_label g k (fedges g ! k))"
proof -
  have "distinct (map feid es) \<Longrightarrow> k < length es \<Longrightarrow>
      map_of (foldl (\<lambda>m (k, e). js_set (feid e) (f k e) m) [] (enumerate 0 es)) (feid (es ! k)) = Some (f k (es ! k))"
    for es :: "fbd_edge list" and f :: "nat \<Rightarrow> fbd_edge \<Rightarrow> string"
  proof (induction es rule: rev_induct)
    case (snoc x es)
    show ?case
    proof (cases "k = length es")
      case True
      then show ?thesis by (simp add: enumerate_append_eq)
    next
      case False
      with snoc have k: "k < length es" by simp
      then have "feid (es ! k) \<in> feid ` set es" by (intro imageI nth_mem)
      then have "feid (es ! k) \<noteq> feid x" using snoc.prems(1) by auto
      with snoc k show ?thesis by (simp add: enumerate_append_eq nth_append)
    qed
  qed simp
  from this [OF assms(1) [unfolded fedge_ids_def] assms(2)] show ?thesis by (simp add: wireLabels_def)
qed

text \<open>The variable of a wire ends in its position; so two wires never share one.\<close>

lemma wire_label_suffix: "\<exists>p. wire_label g k e = p @ ''_'' @ nat_to_dec k \<and> starts_with ''tmp'' (wire_label g k e)"
proof (cases "Option.bind (nodeById g (fsrc e)) (\<lambda>n. findPin n (fsrcPort e))")
  case None
  then have "wire_label g k e = ''tmp'' @ ''_'' @ nat_to_dec k" by (simp add: wire_label_def)
  then show ?thesis by (metis starts_with_append)
next
  case (Some p)
  then have "wire_label g k e = (''tmp_'' @ pname p) @ ''_'' @ nat_to_dec k" by (simp add: wire_label_def)
  moreover have "wire_label g k e = ''tmp'' @ (''_'' @ pname p @ ''_'' @ nat_to_dec k)"
    using Some by (simp add: wire_label_def)
  ultimately show ?thesis by (metis starts_with_append)
qed

lemma digit_no_underscore: "CHR ''_'' \<notin> set (nat_to_dec k)"
  using nat_to_dec_digits [of "CHR ''_''" k] by (auto simp: digit_char_def)

lemma wire_label_inject: "wire_label g k e = wire_label g j e' \<Longrightarrow> k = j"
proof -
  assume eq: "wire_label g k e = wire_label g j e'"
  have cut: "takeWhile (\<lambda>c. c \<noteq> CHR ''_'') (rev (p @ ''_'' @ nat_to_dec n)) = rev (nat_to_dec n)" for p n
    using digit_no_underscore [of n] by (subst rev_append, subst rev_append, subst append_assoc, subst takeWhile_append2) auto
  obtain p q where "wire_label g k e = p @ ''_'' @ nat_to_dec k" "wire_label g j e' = q @ ''_'' @ nat_to_dec j"
    using wire_label_suffix by meson
  with eq cut [of p k] cut [of q j] have "rev (nat_to_dec k) = rev (nat_to_dec j)" by metis
  then show ?thesis by simp
qed

definition wire_var :: "fbd_graph \<Rightarrow> fbd_edge \<Rightarrow> string" where
  "wire_var g e = (case map_of (wireLabels g) (feid e) of None \<Rightarrow> [] | Some l \<Rightarrow> l)"

lemma wire_var_nth:
  "distinct (fedge_ids g) \<Longrightarrow> k < length (fedges g) \<Longrightarrow> wire_var g (fedges g ! k) = wire_label g k (fedges g ! k)"
  by (simp add: wire_var_def wireLabels_nth)

lemma wire_var_inject:
  assumes "distinct (fedge_ids g)" "e \<in> set (fedges g)" "e' \<in> set (fedges g)" "wire_var g e = wire_var g e'"
  shows "e = e'"
proof -
  obtain k j where kj: "k < length (fedges g)" "e = fedges g ! k" "j < length (fedges g)" "e' = fedges g ! j"
    using assms(2,3) by (auto simp: in_set_conv_nth)
  with assms(1,4) have "k = j" using wire_label_inject by (auto simp: wire_var_nth)
  with kj show ?thesis by simp
qed

lemma wire_var_starts: "distinct (fedge_ids g) \<Longrightarrow> e \<in> set (fedges g) \<Longrightarrow> starts_with ''tmp'' (wire_var g e)"
  using wire_label_suffix by (auto simp: in_set_conv_nth wire_var_nth)

lemma label_or_wire:
  assumes "distinct (fedge_ids g)" "e \<in> set (fedges g)"
  shows "label_or (wireLabels g) (Some e) d = wire_var g e"
proof -
  obtain k where "k < length (fedges g)" "e = fedges g ! k" using assms(2) by (auto simp: in_set_conv_nth)
  with assms(1) show ?thesis by (simp add: label_or_def wire_var_def wireLabels_nth)
qed

subsection \<open>The program of a diagram of gates\<close>

definition gates_only :: "fbd_graph \<Rightarrow> bool" where
  "gates_only g \<longleftrightarrow> (\<forall>n \<in> set (fnodes g). isGateNode n)"

definition single_fanout :: "fbd_graph \<Rightarrow> bool" where
  "single_fanout g \<longleftrightarrow> distinct (map fsrc (fedges g))"

fun gate_of :: "fbd_data \<Rightarrow> gate_type" where
  "gate_of (GateNode t i k) = t" | "gate_of (FunctionBlockNode f i k) = NOT_gate"

definition out_var :: "fbd_graph \<Rightarrow> fbd_node \<Rightarrow> string" where
  "out_var g n = gate_out_label g (wireLabels g) (fnid n)"

definition in_vars :: "fbd_graph \<Rightarrow> fbd_node \<Rightarrow> string list" where
  "in_vars g n = map (input_value g (wireLabels g) ''FALSE'' (fnid n)) (getInputPorts n)"

definition node_result :: "fbd_graph \<Rightarrow> il_env \<Rightarrow> fbd_node \<Rightarrow> bool" where
  "node_result g env n = gate_value (gate_of (fdata n)) (map env (in_vars g n))"

definition node_store :: "fbd_graph \<Rightarrow> il_env \<Rightarrow> fbd_node \<Rightarrow> il_env" where
  "node_store g env n = env(out_var g n := node_result g env n)"

lemma gate_block_node:
  assumes "isGateNode n" "canonical_pins n"
  shows "il_exec cal (fst (emit_node g n) @ rest) acc env
    = il_exec cal rest (node_result g env n) (node_store g env n)"
proof -
  obtain t i k where n: "fdata n = GateNode t i k" using assms(1)
    by (cases "fdata n") (auto simp: isGateNode_def)
  with assms(2) have i: "i = gate_inputs t" by (simp add: canonical_pins_def)
  have "fst (emit_node g n) @ rest = gate_lines t (fnid n) (in_vars g n) @ IlSt (out_var g n) # rest"
    using n by (simp add: emit_node_def emitGateNode_def in_vars_def out_var_def getInputPorts_def)
  moreover have "length (in_vars g n) = length (gate_inputs t)"
    using n i by (simp add: in_vars_def getInputPorts_def)
  ultimately show ?thesis using n by (simp add: gate_block_exec node_result_def node_store_def)
qed

lemma program_exec:
  "\<forall>n \<in> set ns. isGateNode n \<and> canonical_pins n \<Longrightarrow>
     snd (il_exec cal (concat (map (\<lambda>n. fst (emit_node g n)) ns)) acc env) = foldl (node_store g) env ns"
  by (induction ns arbitrary: acc env) (simp_all add: gate_block_node)

text \<open>When nothing is read before it is written, the stores settle to a solution.\<close>

lemma stores_outside: "x \<notin> out_var g ` set ns \<Longrightarrow> foldl (node_store g) env ns x = env x"
  by (induction ns arbitrary: env) (auto simp: node_store_def)

lemma node_result_cong: "(\<And>x. x \<in> set (in_vars g n) \<Longrightarrow> env x = env' x) \<Longrightarrow> node_result g env n = node_result g env' n"
  unfolding node_result_def by (simp cong: map_cong)

fun reads_settled :: "fbd_graph \<Rightarrow> fbd_node list \<Rightarrow> bool" where
  "reads_settled g [] = True"
| "reads_settled g (n # ns) \<longleftrightarrow> set (in_vars g n) \<inter> out_var g ` set (n # ns) = {} \<and> reads_settled g ns"

lemma stores_settle:
  assumes "distinct (map (out_var g) ns)" "reads_settled g ns" "n \<in> set ns"
  shows "foldl (node_store g) env ns (out_var g n) = node_result g (foldl (node_store g) env ns) n"
  using assms
proof (induction ns arbitrary: env)
  case (Cons m ns)
  let ?env = "foldl (node_store g) (node_store g env m) ns"
  show ?case
  proof (cases "n = m")
    case True
    have "?env (out_var g n) = node_result g env n"
      using Cons.prems True by (subst stores_outside) (auto simp: node_store_def)
    also have "\<dots> = node_result g ?env n"
    proof (rule node_result_cong)
      fix x assume "x \<in> set (in_vars g n)"
      then have "x \<notin> out_var g ` set (m # ns)" using Cons.prems(2) True by auto
      then show "env x = ?env x" using stores_outside [of x g "m # ns" env] by simp
    qed
    finally show ?thesis by simp
  next
    case False
    with Cons show ?thesis by simp
  qed
qed simp

subsection \<open>The diagram's own meaning\<close>

text \<open>The value on an input pin: the source of its first wire, or false when it has none.\<close>

definition pin_value :: "fbd_graph \<Rightarrow> (string \<Rightarrow> bool) \<Rightarrow> string \<Rightarrow> fbd_pin \<Rightarrow> bool" where
  "pin_value g v i p = (case List.find (\<lambda>e. ftgt e = i \<and> ftgtPort e = pname p) (fedges g) of
     None \<Rightarrow> False | Some e \<Rightarrow> v (fsrc e))"

text \<open>A valuation of the nodes that satisfies every gate.\<close>

definition solves :: "fbd_graph \<Rightarrow> (string \<Rightarrow> bool) \<Rightarrow> bool" where
  "solves g v \<longleftrightarrow> (\<forall>n \<in> set (fnodes g).
     v (fnid n) = gate_value (gate_of (fdata n)) (map (pin_value g v (fnid n)) (getInputPorts n)))"

lemma solution_unique:
  assumes wf: "fbd_wf g" and acyc: "acyclic (signal_rel g)" and v: "solves g v" and w: "solves g w"
  shows "i \<in> set (fnode_ids g) \<Longrightarrow> v i = w i"
proof -
  have "finite (signal_rel g)" by (simp add: signal_rel_wf [OF wf])
  with acyc have wfs: "wf (signal_rel g)" by (intro finite_acyclic_wf)
  show "i \<in> set (fnode_ids g) \<Longrightarrow> v i = w i"
    using wfs
  proof (induction i rule: wf_induct_rule)
    case (less i)
    then obtain n where n: "n \<in> set (fnodes g)" "fnid n = i" by (auto simp: fnode_ids_def)
    have "pin_value g v i p = pin_value g w i p" for p
    proof (cases "List.find (\<lambda>e. ftgt e = i \<and> ftgtPort e = pname p) (fedges g)")
      case (Some e)
      then have e: "e \<in> set (fedges g)" "ftgt e = i" by (auto dest: find_SomeD)
      then have "(fsrc e, i) \<in> signal_rel g" by (auto simp: signal_rel_wf [OF wf])
      moreover have "fsrc e \<in> set (fnode_ids g)" using wf e by (auto simp: fbd_wf_def)
      ultimately show ?thesis using less.IH Some by (simp add: pin_value_def)
    qed (simp add: pin_value_def)
    then have "map (pin_value g v i) ps = map (pin_value g w i) ps" for ps by simp
    with n v w show ?case unfolding solves_def by metis
  qed
qed

subsection \<open>The compiled program computes the diagram\<close>

definition compilable :: "fbd_graph \<Rightarrow> nat \<Rightarrow> bool" where
  "compilable g k \<longleftrightarrow> fbd_inv (g, k) \<and> acyclic (signal_rel g) \<and> gates_only g \<and> single_fanout g"

lemma compilableD:
  assumes "compilable g k"
  shows "fbd_inv (g, k)" "acyclic (signal_rel g)" "fbd_wf g" "distinct (fedge_ids g)"
    "distinct (fnode_ids g)" "\<And>n. n \<in> set (fnodes g) \<Longrightarrow> isGateNode n \<and> canonical_pins n"
    "distinct (map fsrc (fedges g))"
  using assms fbd_inv_wf fbd_invD by (auto simp: compilable_def gates_only_def single_fanout_def)

lemma out_var_cases:
  assumes c: "compilable g k" and n: "n \<in> set (fnodes g)"
  shows "(\<exists>e \<in> set (fedges g). fsrc e = fnid n \<and> out_var g n = wire_var g e)
    \<or> (\<forall>e \<in> set (fedges g). fsrc e \<noteq> fnid n) \<and> out_var g n = ''gate_out_'' @ fnid n"
proof (cases "findOutgoingEdge (fnid n) g")
  case None
  then have "out_var g n = ''gate_out_'' @ fnid n"
    by (simp add: out_var_def gate_out_label_def label_or_def)
  moreover have "\<forall>e \<in> set (fedges g). fsrc e \<noteq> fnid n"
    using None by (auto simp: findOutgoingEdge_def find_NoneD)
  ultimately show ?thesis by blast
next
  case (Some e)
  then have e: "e \<in> set (fedges g)" "fsrc e = fnid n" by (auto simp: findOutgoingEdge_def dest: find_SomeD)
  then have "out_var g n = wire_var g e"
    using Some label_or_wire [OF compilableD(4) [OF c]] by (simp add: out_var_def gate_out_label_def)
  with e show ?thesis by blast
qed

lemma source_out_var:
  assumes c: "compilable g k" and n: "n \<in> set (fnodes g)" and e: "e \<in> set (fedges g)" "fsrc e = fnid n"
  shows "out_var g n = wire_var g e"
proof -
  from out_var_cases [OF c n] e obtain e' where e': "e' \<in> set (fedges g)" "fsrc e' = fnid n"
    "out_var g n = wire_var g e'" by auto
  have "inj_on fsrc (set (fedges g))" using compilableD(7) [OF c] by (simp add: distinct_map)
  then have "e' = e" by (rule inj_onD) (use e e' in auto)
  with e' show ?thesis by simp
qed

lemma gate_out_not_tmp: "starts_with ''tmp'' x \<Longrightarrow> x \<noteq> ''gate_out_'' @ y"
  by (auto simp: starts_with_iff)

lemma out_var_wire:
  assumes c: "compilable g k" and n: "n \<in> set (fnodes g)" and e: "e \<in> set (fedges g)"
    and eq: "out_var g n = wire_var g e"
  shows "fsrc e = fnid n"
proof -
  note d = compilableD(4) [OF c]
  have "out_var g n \<noteq> ''gate_out_'' @ fnid n"
    using eq wire_var_starts [OF d e] gate_out_not_tmp by metis
  with out_var_cases [OF c n] obtain e' where "e' \<in> set (fedges g)" "fsrc e' = fnid n" "out_var g n = wire_var g e'"
    by auto
  with eq e wire_var_inject [OF d] show ?thesis by metis
qed

lemma out_var_inject:
  assumes c: "compilable g k" and n: "n \<in> set (fnodes g)" and m: "m \<in> set (fnodes g)"
    and eq: "out_var g n = out_var g m"
  shows "n = m"
proof -
  have "fnid n = fnid m"
    using out_var_cases [OF c m]
  proof
    assume "\<exists>e \<in> set (fedges g). fsrc e = fnid m \<and> out_var g m = wire_var g e"
    then show ?thesis using out_var_wire [OF c n] eq by auto
  next
    assume none: "(\<forall>e \<in> set (fedges g). fsrc e \<noteq> fnid m) \<and> out_var g m = ''gate_out_'' @ fnid m"
    have "\<not> (\<exists>e \<in> set (fedges g). fsrc e = fnid n \<and> out_var g n = wire_var g e)"
      using none eq wire_var_starts [OF compilableD(4) [OF c]] gate_out_not_tmp by metis
    with out_var_cases [OF c n] none eq show ?thesis by auto
  qed
  with n m same_id_same_node [OF compilableD(5) [OF c]] show ?thesis by blast
qed

text \<open>What a gate reads: the constant, or the variable of its first wire into the pin.\<close>

lemma find_filter: "List.find P (filter Q xs) = List.find (\<lambda>x. Q x \<and> P x) xs"
  by (induction xs) auto

lemma input_value_eq:
  assumes c: "compilable g k" and n: "n \<in> set (fnodes g)"
  shows "input_value g (wireLabels g) ''FALSE'' (fnid n) p =
    (case List.find (\<lambda>e. ftgt e = fnid n \<and> ftgtPort e = pname p) (fedges g) of
       None \<Rightarrow> ''FALSE'' | Some e \<Rightarrow> wire_var g e)"
proof -
  have "incoming_at g (fnid n) = filter (\<lambda>e. ftgt e = fnid n) (fedges g)"
    using n by (simp add: incoming_at_eq fnode_ids_def)
  then have "input_value g (wireLabels g) ''FALSE'' (fnid n) p = label_or (wireLabels g)
      (List.find (\<lambda>e. ftgt e = fnid n \<and> ftgtPort e = pname p) (fedges g)) ''FALSE''"
    by (simp add: input_value_def find_filter)
  then show ?thesis using label_or_wire [OF compilableD(4) [OF c]]
    by (cases "List.find (\<lambda>e. ftgt e = fnid n \<and> ftgtPort e = pname p) (fedges g)")
      (auto simp: label_or_def dest: find_SomeD)
qed

lemma in_var_cases:
  assumes c: "compilable g k" and n: "n \<in> set (fnodes g)" and x: "x \<in> set (in_vars g n)"
  shows "x = ''FALSE'' \<or> (\<exists>e \<in> set (fedges g). ftgt e = fnid n \<and> x = wire_var g e)"
proof -
  from x obtain p where p: "x = input_value g (wireLabels g) ''FALSE'' (fnid n) p"
    by (auto simp: in_vars_def)
  show ?thesis
  proof (cases "List.find (\<lambda>e. ftgt e = fnid n \<and> ftgtPort e = pname p) (fedges g)")
    case None
    with p show ?thesis by (simp add: input_value_eq [OF c n])
  next
    case (Some e)
    with p have "x = wire_var g e" by (simp add: input_value_eq [OF c n])
    moreover have "e \<in> set (fedges g)" "ftgt e = fnid n" using Some by (auto dest: find_SomeD)
    ultimately show ?thesis by blast
  qed
qed

lemma out_var_not_FALSE: "compilable g k \<Longrightarrow> n \<in> set (fnodes g) \<Longrightarrow> out_var g n \<noteq> ''FALSE''"
proof
  assume c: "compilable g k" and n: "n \<in> set (fnodes g)" and f: "out_var g n = ''FALSE''"
  from out_var_cases [OF c n] f obtain e where "e \<in> set (fedges g)" "wire_var g e = ''FALSE''" by auto
  with wire_var_starts [OF compilableD(4) [OF c]] have "starts_with ''tmp'' ''FALSE''" by metis
  then show False by simp
qed

lemma order_settled:
  assumes c: "compilable g k" and ns: "set ns \<subseteq> set (fnodes g)" "distinct (map fnid ns)"
    and order: "\<And>j e. j < length ns \<Longrightarrow> e \<in> set (fedges g) \<Longrightarrow> ftgt e = fnid (ns ! j) \<Longrightarrow>
      fsrc e \<notin> fnid ` set (drop j ns)"
  shows "reads_settled g ns"
  using ns order
proof (induction ns)
  case (Cons n ns)
  have n: "n \<in> set (fnodes g)" using Cons.prems(1) by simp
  have "x \<notin> out_var g ` set (n # ns)" if x: "x \<in> set (in_vars g n)" for x
  proof
    assume "x \<in> out_var g ` set (n # ns)"
    then obtain m where m: "m \<in> set (n # ns)" "x = out_var g m" by auto
    with Cons.prems(1) have mg: "m \<in> set (fnodes g)" by auto
    from in_var_cases [OF c n x] out_var_not_FALSE [OF c mg] m obtain e where
      e: "e \<in> set (fedges g)" "ftgt e = fnid n" "out_var g m = wire_var g e" by auto
    from out_var_wire [OF c mg e(1,3)] m(1) have "fsrc e \<in> fnid ` set (drop 0 (n # ns))"
      by (metis drop0 imageI)
    with Cons.prems(3) [of 0 e] e show False by simp
  qed
  moreover have "reads_settled g ns"
  proof (rule Cons.IH)
    fix j e assume "j < length ns" "e \<in> set (fedges g)" "ftgt e = fnid (ns ! j)"
    with Cons.prems(3) [of "Suc j" e] show "fsrc e \<notin> fnid ` set (drop j ns)" by simp
  qed (use Cons.prems in auto)
  ultimately show ?case by auto
qed simp

lemma topo_settled:
  assumes c: "compilable g k"
  shows "reads_settled g (topo_sort g)"
proof (rule order_settled [OF c])
  note wf = compilableD(3) [OF c]
  note top = topo_sort_order [OF wf]
  show "set (topo_sort g) \<subseteq> set (fnodes g)" "distinct (map fnid (topo_sort g))"
    using top by (simp_all add: sorted_ids_def)
  fix j e assume j: "j < length (topo_sort g)" and e: "e \<in> set (fedges g)" "ftgt e = fnid (topo_sort g ! j)"
  let ?P = "sorted_ids g"
  from j e top(3) have "fsrc e \<in> set (take j ?P)"
    by (simp add: follows_signals_def sorted_ids_def)
  moreover have "set (take j ?P) \<inter> set (drop j ?P) = {}"
    by (rule set_take_disj_set_drop_if_distinct [OF top(1)]) simp
  moreover have "fnid ` set (drop j (topo_sort g)) = set (drop j ?P)"
    by (simp add: sorted_ids_def drop_map)
  ultimately show "fsrc e \<notin> fnid ` set (drop j (topo_sort g))" by auto
qed

text \<open>
  The values the program leaves: every gate's output variable, hence every wire's variable,
  holds the value of the one solution of the diagram.
\<close>

theorem il_computes:
  assumes c: "compilable g k" and false: "\<not> env ''FALSE''"
  shows "\<exists>v. solves g v \<and>
    (\<forall>n \<in> set (fnodes g). snd (il_exec cal (il_lines g) acc env) (out_var g n) = v (fnid n)) \<and>
    (\<forall>e \<in> set (fedges g). snd (il_exec cal (il_lines g) acc env) (wire_var g e) = v (fsrc e))"
proof -
  let ?ns = "topo_sort g"
  note wf = compilableD(3) [OF c]
  have "mset ?ns = mset (fnodes g)" by (rule topo_sort_all [OF wf compilableD(2) [OF c]])
  then have nodes: "set ?ns = set (fnodes g)" by (metis set_mset_mset)
  define env' where "env' = snd (il_exec cal (il_lines g) acc env)"
  have env': "env' = foldl (node_store g) env ?ns"
    unfolding env'_def il_lines_def by (rule program_exec) (use compilableD(6) [OF c] nodes in auto)
  have "distinct ?ns" using topo_sort_order(1) [OF wf] by (simp add: sorted_ids_def distinct_map)
  then have d: "distinct (map (out_var g) ?ns)"
    using out_var_inject [OF c] nodes by (auto simp: distinct_map inj_on_def)
  have settled: "env' (out_var g n) = node_result g env' n" if "n \<in> set (fnodes g)" for n
    using stores_settle [OF d topo_settled [OF c], of n env] that nodes by (simp add: env')
  define v where "v i = env' (out_var g (the (nodeById g i)))" for i
  have v: "v (fnid n) = env' (out_var g n)" if "n \<in> set (fnodes g)" for n
    using nodeById_Some [OF compilableD(5) [OF c] that] by (simp add: v_def)
  have wires: "env' (wire_var g e) = v (fsrc e)" if e: "e \<in> set (fedges g)" for e
  proof -
    have "fsrc e \<in> set (fnode_ids g)" using wf e by (simp add: fbd_wf_def)
    then obtain n where n: "n \<in> set (fnodes g)" "fsrc e = fnid n" by (auto simp: fnode_ids_def)
    then have "env' (out_var g n) = v (fsrc e)" by (simp add: v)
    then show ?thesis using source_out_var [OF c n(1) e n(2)] by simp
  qed
  have "''FALSE'' \<notin> out_var g ` set ?ns" using out_var_not_FALSE [OF c] nodes by (metis imageE)
  then have f: "\<not> env' ''FALSE''" using false by (simp add: env' stores_outside)
  have pin: "env' (input_value g (wireLabels g) ''FALSE'' (fnid n) p) = pin_value g v (fnid n) p"
    if "n \<in> set (fnodes g)" for n p
    using f wires by (auto simp: input_value_eq [OF c that] pin_value_def dest: find_SomeD split: option.splits)
  have "solves g v"
    unfolding solves_def
  proof
    fix n assume n: "n \<in> set (fnodes g)"
    have "map env' (in_vars g n) = map (pin_value g v (fnid n)) (getInputPorts n)"
      using pin [OF n] by (simp add: in_vars_def)
    then show "v (fnid n) = gate_value (gate_of (fdata n)) (map (pin_value g v (fnid n)) (getInputPorts n))"
      using v [OF n] settled [OF n] by (simp add: node_result_def)
  qed
  with v wires show ?thesis unfolding env'_def by auto
qed

text \<open>The declared variables are the outputs of the gates without an outgoing wire.\<close>

lemma gates_variables:
  assumes c: "compilable g k"
  shows "variables (convertGraphToIl g) =
    map (out_var g) (filter (\<lambda>n. findOutgoingEdge (fnid n) g = None) (topo_sort g))"
proof -
  have "snd (emit_node g n) = (if findOutgoingEdge (fnid n) g = None then [out_var g n] else [])"
    if "n \<in> set (topo_sort g)" for n
  proof -
    have "isGateNode n" using that topo_sort_order(2) [OF compilableD(3) [OF c]] compilableD(6) [OF c] by auto
    then show ?thesis
      by (auto simp: isGateNode_def emit_node_def emitGateNode_def out_var_def split: fbd_data.splits)
  qed
  then have "variables (convertGraphToIl g) =
      concat (map (\<lambda>n. if findOutgoingEdge (fnid n) g = None then [out_var g n] else []) (topo_sort g))"
    by (auto simp: convertGraphToIl_def intro!: arg_cong [where f = concat] map_cong)
  also have "\<dots> = map (out_var g) (filter (\<lambda>n. findOutgoingEdge (fnid n) g = None) (topo_sort g))"
    by (rule concat_if)
  finally show ?thesis .
qed

end
