(* ===== verification/FbdHistory.thy ===== *)
theory FbdHistory
  imports FbdMachine LdHistory
begin

text \<open>
  The undo stack of the function block editor (weftik-fbd-editor/src/backend/
  fbd-gmodel-state.ts). It was copied from the ladder editor's and then changed: the array is
  cut again in \<open>pushSnapshot\<close>, the oldest snapshot goes before the push and the pointer is set
  from the length. It interprets the same \<open>history\<close> interface, so the two stacks agree.
\<close>

record fbd_state =
  fsnapshots :: "json list"
  fpointer :: int
  fdirty :: bool

definition fbd_cut :: "fbd_state \<Rightarrow> fbd_state" where
  "fbd_cut st = st\<lparr>fsnapshots := take (nat (fpointer st + 1)) (fsnapshots st)\<rparr>"

definition fbd_pushSnapshot :: "fbd_graph \<Rightarrow> fbd_state \<Rightarrow> fbd_state" where
  "fbd_pushSnapshot g st =
     (let cut = fsnapshots (fbd_cut st);
          room = (if length cut \<ge> MAX_UNDO then tl cut else cut);
          snaps = room @ [fbd_toJSON g]
      in st\<lparr>fsnapshots := snaps, fpointer := int (length snaps) - 1\<rparr>)"

definition fbd_new_state :: "fbd_graph option \<Rightarrow> nat \<Rightarrow> fbd_state \<times> nat" where
  "fbd_new_state initial k =
     (let (g, k') = (case initial of Some g \<Rightarrow> (g, k) | None \<Rightarrow> createFbdGraph None k)
      in (fbd_pushSnapshot g \<lparr>fsnapshots = [], fpointer = - 1, fdirty = False\<rparr>, k'))"

definition fbd_state_graph :: "fbd_state \<Rightarrow> nat \<Rightarrow> ('e state_error + fbd_graph) \<times> nat" where
  "fbd_state_graph st k =
     (if fpointer st < 0 \<or> fpointer st \<ge> int (length (fsnapshots st))
      then (case createFbdGraph None k of (g, k') \<Rightarrow> (Inr g, k'))
      else (case fbd_fromJSON (fsnapshots st ! nat (fpointer st)) of
          Inl msg \<Rightarrow> (Inl (FromJsonError msg), k)
        | Inr j \<Rightarrow> (case fbd_view j of Some g \<Rightarrow> (Inr g, k)
            | None \<Rightarrow> (Inl (FromJsonError ''not a graph''), k))))"

definition fbd_applyOperation ::
  "(fbd_graph \<Rightarrow> nat \<Rightarrow> ('e + fbd_graph) \<times> nat) \<Rightarrow> fbd_state \<Rightarrow> nat \<Rightarrow>
     ('e state_error + fbd_graph) \<times> fbd_state \<times> nat" where
  "fbd_applyOperation mutate st k =
     (case fbd_state_graph st k of
        (Inl e, k1) \<Rightarrow> (Inl e, st, k1)
      | (Inr g, k1) \<Rightarrow> (case mutate g k1 of
          (Inl e, k2) \<Rightarrow> (Inl (MutationError e), st, k2)
        | (Inr g', k2) \<Rightarrow> (Inr g', (fbd_pushSnapshot g' (fbd_cut st))\<lparr>fdirty := True\<rparr>, k2)))"

definition fbd_canUndo :: "fbd_state \<Rightarrow> bool" where
  "fbd_canUndo st \<longleftrightarrow> fpointer st > 0"

definition fbd_canRedo :: "fbd_state \<Rightarrow> bool" where
  "fbd_canRedo st \<longleftrightarrow> fpointer st < int (length (fsnapshots st)) - 1"

definition fbd_undo :: "fbd_state \<Rightarrow> nat \<Rightarrow> ('e state_error + fbd_graph option) \<times> fbd_state \<times> nat" where
  "fbd_undo st k =
     (if \<not> fbd_canUndo st then (Inr None, st, k)
      else (let st1 = st\<lparr>fpointer := fpointer st - 1, fdirty := True\<rparr>;
                (g, k1) = fbd_state_graph st1 k
            in (map_sum id Some g, st1, k1)))"

definition fbd_redo :: "fbd_state \<Rightarrow> nat \<Rightarrow> ('e state_error + fbd_graph option) \<times> fbd_state \<times> nat" where
  "fbd_redo st k =
     (if \<not> fbd_canRedo st then (Inr None, st, k)
      else (let st1 = st\<lparr>fpointer := fpointer st + 1, fdirty := True\<rparr>;
                (g, k1) = fbd_state_graph st1 k
            in (map_sum id Some g, st1, k1)))"

definition fbd_markClean :: "fbd_state \<Rightarrow> fbd_state" where
  "fbd_markClean st = st\<lparr>fdirty := False\<rparr>"

fun fbd_act :: "(fbd_graph, nat, 'e) action \<Rightarrow> fbd_state \<times> nat \<Rightarrow> fbd_state \<times> nat" where
  "fbd_act (Mutate m) (st, k) = snd (fbd_applyOperation m st k)"
| "fbd_act Undo (st, k) = snd (fbd_undo st k :: ('e state_error + fbd_graph option) \<times> fbd_state \<times> nat)"
| "fbd_act Redo (st, k) = snd (fbd_redo st k :: ('e state_error + fbd_graph option) \<times> fbd_state \<times> nat)"
| "fbd_act MarkClean (st, k) = (fbd_markClean st, k)"

subsection \<open>The state represents a timeline\<close>

definition fbd_rep :: "fbd_state \<Rightarrow> fbd_graph timeline \<Rightarrow> bool" where
  "fbd_rep st t \<longleftrightarrow> fsnapshots st = map fbd_toJSON (rev (past t) @ present t # future t)
     \<and> fpointer st = int (length (past t)) \<and> fdirty st = unsaved t"

lemma fbd_rep_graph: "fbd_rep st t \<Longrightarrow> fbd_state_graph st k = (Inr (present t), k)"
  by (simp add: fbd_rep_def fbd_state_graph_def nth_append fbd_view_toJSON)

lemma fbd_rep_can: "fbd_rep st t \<Longrightarrow> fbd_canUndo st = (past t \<noteq> []) \<and> fbd_canRedo st = (future t \<noteq> [])"
  by (simp add: fbd_rep_def fbd_canUndo_def fbd_canRedo_def)

lemma fbd_rep_apply:
  assumes rep: "fbd_rep st t" and b: "tl_bounded t" and m: "m (present t) k = (Inr g, k')"
  shows "\<exists>st'. fbd_applyOperation m st k = (Inr g, st', k') \<and> fbd_rep st' (tl_apply g t)"
proof -
  have snaps: "fsnapshots (fbd_cut st) = map fbd_toJSON (rev (past t) @ [present t])"
      "fpointer (fbd_cut st) = int (length (past t))"
    using rep by (simp_all add: fbd_rep_def fbd_cut_def nat_add_distrib)
  have cut: "fsnapshots (fbd_cut (fbd_cut st)) = map fbd_toJSON (rev (past t) @ [present t])"
    unfolding fbd_cut_def [of "fbd_cut st"] by (simp add: snaps nat_add_distrib)
  have "fbd_rep ((fbd_pushSnapshot g (fbd_cut st))\<lparr>fdirty := True\<rparr>) (tl_apply g t)"
  proof (cases "length (past t) = 49")
    case True
    then obtain p ps where p: "rev (past t) = p # ps" by (cases "rev (past t)") auto
    have len: "length ps = 48" using arg_cong [OF p, of length] True by simp
    have "past t = rev ps @ [p]" by (metis p rev.simps(2) rev_rev_ident)
    then have "rev (take 48 (past t)) = ps" using len by simp
    then show ?thesis
      using rep cut True p len
      by (simp add: fbd_rep_def fbd_pushSnapshot_def MAX_UNDO_def tl_apply_def Let_def)
  next
    case False
    then have "length (past t) < 49" using b by (simp add: tl_bounded_def)
    then show ?thesis
      using rep cut
      by (simp add: fbd_rep_def fbd_pushSnapshot_def MAX_UNDO_def tl_apply_def Let_def)
  qed
  then show ?thesis
    using m by (simp add: fbd_applyOperation_def fbd_rep_graph [OF rep])
qed

lemma fbd_rep_throw:
  "fbd_rep st t \<Longrightarrow> m (present t) k = (Inl e, k') \<Longrightarrow>
     fbd_applyOperation m st k = (Inl (MutationError e), st, k')"
  by (simp add: fbd_applyOperation_def fbd_rep_graph)

lemma fbd_rep_undo:
  assumes "fbd_rep st t"
  shows "\<exists>st'. fbd_undo st k = (Inr (if past t = [] then None else Some (present (tl_undo t))), st', k)
    \<and> fbd_rep st' (tl_undo t)"
proof (cases "past t")
  case (Cons p ps)
  then have new: "fbd_rep (st\<lparr>fpointer := fpointer st - 1, fdirty := True\<rparr>) (tl_undo t)"
    using assms by (simp add: fbd_rep_def tl_undo_def)
  show ?thesis
  proof (intro exI conjI)
    show "fbd_undo st k = (Inr (if past t = [] then None else Some (present (tl_undo t))),
        st\<lparr>fpointer := fpointer st - 1, fdirty := True\<rparr>, k)"
      unfolding fbd_undo_def Let_def fbd_rep_graph [OF new] using fbd_rep_can [OF assms] Cons by simp
  qed (rule new)
qed (use assms fbd_rep_can [OF assms] in \<open>simp add: fbd_undo_def tl_undo_def\<close>)

lemma fbd_rep_redo:
  assumes "fbd_rep st t"
  shows "\<exists>st'. fbd_redo st k = (Inr (if future t = [] then None else Some (present (tl_redo t))), st', k)
    \<and> fbd_rep st' (tl_redo t)"
proof (cases "future t")
  case (Cons f fs)
  then have new: "fbd_rep (st\<lparr>fpointer := fpointer st + 1, fdirty := True\<rparr>) (tl_redo t)"
    using assms by (simp add: fbd_rep_def tl_redo_def)
  show ?thesis
  proof (intro exI conjI)
    show "fbd_redo st k = (Inr (if future t = [] then None else Some (present (tl_redo t))),
        st\<lparr>fpointer := fpointer st + 1, fdirty := True\<rparr>, k)"
      unfolding fbd_redo_def Let_def fbd_rep_graph [OF new] using fbd_rep_can [OF assms] Cons by simp
  qed (rule new)
qed (use assms fbd_rep_can [OF assms] in \<open>simp add: fbd_redo_def tl_redo_def\<close>)

lemma fbd_rep_act:
  fixes a :: "(fbd_graph, nat, 'e) action"
  assumes rep: "fbd_rep st t" and b: "tl_bounded t" and act: "tl_act a (t, k) = (t', k')"
  shows "\<exists>st'. fbd_act a (st, k) = (st', k') \<and> fbd_rep st' t'"
proof (cases a)
  case (Mutate m)
  obtain r k1 where m: "m (present t) k = (r, k1)" by (rule prod.exhaust)
  show ?thesis
  proof (cases r)
    case (Inl e)
    then show ?thesis using act rep m Mutate fbd_rep_throw [OF rep, of m k e k1] by auto
  next
    case (Inr g)
    then show ?thesis using act m Mutate fbd_rep_apply [OF rep b, of m k g k1] by auto
  qed
next
  case Undo
  obtain st' where "fbd_undo st k = (Inr (if past t = [] then None else Some (present (tl_undo t)))
      :: 'e state_error + fbd_graph option, st', k)" "fbd_rep st' (tl_undo t)"
    using fbd_rep_undo [OF rep] by blast
  with Undo act show ?thesis by auto
next
  case Redo
  obtain st' where "fbd_redo st k = (Inr (if future t = [] then None else Some (present (tl_redo t)))
      :: 'e state_error + fbd_graph option, st', k)" "fbd_rep st' (tl_redo t)"
    using fbd_rep_redo [OF rep] by blast
  with Redo act show ?thesis by auto
next
  case MarkClean
  then show ?thesis using act rep by (auto simp: fbd_markClean_def tl_clean_def fbd_rep_def)
qed

interpretation fbd_hist: history fbd_rep fbd_act fbd_state_graph
  by unfold_locales (auto intro: fbd_rep_act fbd_rep_graph)

lemma fbd_new_state_rep: "fbd_new_state (Some g) k = (st, k') \<Longrightarrow> fbd_rep st (tl_start g) \<and> k' = k"
  by (auto simp: fbd_new_state_def fbd_pushSnapshot_def fbd_cut_def MAX_UNDO_def tl_start_def
      fbd_rep_def Let_def)

end
