(* ===== verification/FbdProps.thy ===== *)
theory FbdProps
  imports FbdIl FbdHistory
begin

text \<open>
  The properties of the function block editor, with witnesses on a small diagram: an AND gate
  whose output feeds a NOT gate, and the same diagram with a second NOT gate on that output.
\<close>

subsection \<open>Two diagrams\<close>

definition fdemo_gate :: "string \<Rightarrow> gate_type \<Rightarrow> fbd_node" where
  "fdemo_gate i t = \<lparr>fnid = i, fdata = GateNode t (gate_inputs t) (gate_outputs t), fpos = origin,
     fdim = GATE_DEFAULT_SIZES t, fcss = None\<rparr>"

definition fdemo_wire :: "string \<Rightarrow> string \<Rightarrow> string \<Rightarrow> string \<Rightarrow> fbd_edge" where
  "fdemo_wire i a b port = \<lparr>feid = i, fsrc = a, fsrcPort = ''OUT'', ftgt = b, ftgtPort = port, fpoints = None, fecss = None\<rparr>"

definition fdemo :: fbd_graph where
  "fdemo = \<lparr>fgid = ''d'', fnodes = [fdemo_gate ''a'' AND_gate, fdemo_gate ''n'' NOT_gate],
     fedges = [fdemo_wire ''w1'' ''a'' ''n'' ''IN'']\<rparr>"

definition fdemo_fan :: fbd_graph where
  "fdemo_fan = \<lparr>fgid = ''d'', fnodes = [fdemo_gate ''a'' AND_gate, fdemo_gate ''n'' NOT_gate, fdemo_gate ''m'' NOT_gate],
     fedges = [fdemo_wire ''w1'' ''a'' ''n'' ''IN'', fdemo_wire ''w2'' ''a'' ''m'' ''IN'']\<rparr>"

lemmas fdemo_defs = fdemo_def fdemo_fan_def fdemo_gate_def fdemo_wire_def

lemma fbd_no_dash_fresh: "(\<And>x. x \<in> X \<Longrightarrow> CHR ''-'' \<notin> set x) \<Longrightarrow> fbd_fresh k X"
  unfolding fbd_fresh_def fbd_mk_id_def by (metis append_Cons in_set_conv_decomp)

lemma fdemo_ids:
  "fnode_ids fdemo = [''a'', ''n'']" "fnode_ids fdemo_fan = [''a'', ''n'', ''m'']"
  "fedge_ids fdemo = [''w1'']" "fedge_ids fdemo_fan = [''w1'', ''w2'']"
  by (simp_all add: fnode_ids_def fedge_ids_def fdemo_defs)

lemma fdemo_parts [simp]:
  "fnodes fdemo = [fdemo_gate ''a'' AND_gate, fdemo_gate ''n'' NOT_gate]"
  "fnodes fdemo_fan = [fdemo_gate ''a'' AND_gate, fdemo_gate ''n'' NOT_gate, fdemo_gate ''m'' NOT_gate]"
  "fedges fdemo = [fdemo_wire ''w1'' ''a'' ''n'' ''IN'']"
  "fedges fdemo_fan = [fdemo_wire ''w1'' ''a'' ''n'' ''IN'', fdemo_wire ''w2'' ''a'' ''m'' ''IN'']"
  "feid (fdemo_wire i a b port) = i" "fsrc (fdemo_wire i a b port) = a" "ftgt (fdemo_wire i a b port) = b"
  "fsrcPort (fdemo_wire i a b port) = ''OUT''" "ftgtPort (fdemo_wire i a b port) = port"
  by (simp_all add: fdemo_def fdemo_fan_def fdemo_wire_def)

lemma fdemo_gate_names [simp]:
  "fnid (fdemo_gate i t) = i" "in_names (fdemo_gate i t) = getDefaultInputPinNames t"
  "out_names (fdemo_gate i t) = [''OUT'']" "canonical_pins (fdemo_gate i t)" "isGateNode (fdemo_gate i t)"
  by (simp_all add: fdemo_gate_def in_names_def out_names_def getInputPorts_def getOutputPorts_def
      gate_input_names gate_output_names canonical_pins_def isGateNode_def)

lemma fdemo_invs: "fbd_inv (fdemo, 0)" "fbd_inv (fdemo_fan, 0)"
proof -
  have fresh: "fbd_fresh 0 (set (fnode_ids g) \<union> set (fedge_ids g))" if "g \<in> {fdemo, fdemo_fan}" for g
    by (rule fbd_no_dash_fresh) (use that in \<open>auto simp: fdemo_ids\<close>)
  show "fbd_inv (fdemo, 0)" "fbd_inv (fdemo_fan, 0)"
    by (rule fbd_invI; (rule fresh)?; auto simp: fdemo_ids wire_key_def wired_out_def wired_in_def)+
qed

lemma fdemo_signals: "signal_rel fdemo = {(''a'', ''n'')}"
  by (auto simp: signal_rel_def fdemo_ids)

lemma fdemo_acyclic: "acyclic (signal_rel fdemo)"
  by (simp add: fdemo_signals) (simp add: acyclic_def)

lemma fdemo_compilable: "compilable fdemo 0"
  by (simp add: compilable_def fdemo_invs fdemo_acyclic) (simp add: gates_only_def single_fanout_def)

subsection \<open>Editing sessions\<close>

text \<open>
  C9: whatever the user does, starting from a new diagram, with operations that may throw in
  between: ids stay distinct, every node keeps the pins of its type, every wire runs from an output pin that its source
  has to an input pin that its target has, and no wire is doubled. Excluded is changing a gate to a type that lacks a
  wired pin.
\<close>

theorem fbd_session_inv:
  assumes "script_allowed run_fbd_op fbd_safe ops (createFbdGraph i k)"
  shows "fbd_inv (run_script run_fbd_op ops (createFbdGraph i k))"
proof (rule fbd_ed.script_good [OF _ assms])
  show "fbd_inv (createFbdGraph i k)"
    by (cases "createFbdGraph i k") (auto dest: createFbdGraph_inv)
qed

definition fdemo_ops :: "fbd_op list" where
  "fdemo_ops = [CreateGate AND_gate origin, CreateFunctionBlock ''TON'' origin,
     ConnectPins \<lparr>sourceNodeId = ''gate-1'', sourcePortName = ''OUT'', targetNodeId = ''fb-2'', targetPortName = ''IN''\<rparr>,
     FbdDelete ''nothing'', ChangeFbType ''fb-2'' ''CTU'', MoveNode ''gate-1'' origin]"

lemma fbd_session_inv_witness: "fbd_inv (run_script run_fbd_op fdemo_ops (createFbdGraph None 0))"
  by (rule fbd_session_inv) (simp add: fdemo_ops_def fbd_safe_def)

text \<open>
  Validation of a diagram made by such a session terminates, and the diagram is valid
  exactly when its signal flow has no feedback loop.
\<close>

theorem fbd_session_valid:
  assumes "script_allowed run_fbd_op fbd_safe ops (createFbdGraph i k)"
    and "run_script run_fbd_op ops (createFbdGraph i k) = (g, k')"
  shows "\<exists>v. fbd_validate g = Some v \<and> (fvalid v \<longleftrightarrow> acyclic (signal_rel g))"
proof -
  have "fbd_inv (createFbdGraph i k)"
    by (cases "createFbdGraph i k") (auto dest: createFbdGraph_inv)
  from fbd_ed.script_good [OF this assms(1)] assms(2) have "fbd_inv (g, k')" by simp
  from inv_valid_iff [OF this] show ?thesis .
qed

lemma fbd_session_valid_witness:
  "let g = fst (run_script run_fbd_op fdemo_ops (createFbdGraph None 0)) in
     \<exists>v. fbd_validate g = Some v \<and> (fvalid v \<longleftrightarrow> acyclic (signal_rel g))"
proof -
  have "script_allowed run_fbd_op fbd_safe fdemo_ops (createFbdGraph None 0)" by (simp add: fdemo_ops_def fbd_safe_def)
  from fbd_session_valid [OF this prod.collapse [symmetric]] show ?thesis by (simp only: Let_def)
qed

subsection \<open>Wiring\<close>

lemma validatePin_cong: "fnodes g' = fnodes g \<Longrightarrow> validatePin g' i port role = validatePin g i port role"
  by (simp add: validatePin_def fbd_findNode_def)

lemma createSignalEdge_same:
  "createSignalEdge (sourceNodeId p) (sourcePortName p) (targetNodeId p) (targetPortName p) pts k = (e, k') \<Longrightarrow>
     same_wire p e \<and> fbd_generateId ''signal'' k = (feid e, k')"
  by (auto simp: createSignalEdge_def same_wire_def split: prod.splits)

text \<open>
  Connecting two pins either finds the wire already there and changes nothing, or adds one
  wire between exactly these pins, from an output of its source to an input of its target, under a new id.
\<close>

theorem connectPins_adds:
  assumes inv: "fbd_inv (g, k)" and run: "connectPins g p k = (Inr g', k')"
  shows "(g' = g \<and> (\<exists>e \<in> set (fedges g). same_wire p e)) \<or>
    (\<exists>e. g' = g\<lparr>fedges := fedges g @ [e]\<rparr> \<and> same_wire p e \<and> wired_out (fnodes g) e \<and> wired_in (fnodes g) e
       \<and> feid e \<notin> set (fnode_ids g) \<union> set (fedge_ids g) \<and> (\<forall>d \<in> set (fedges g). \<not> same_wire p d))"
  using run
proof (cases rule: connectPins_cases)
  case (2 a b pa pb e)
  note e = createSignalEdge_same [OF 2(7)]
  have "fbd_inv (g', k')" using run_fbd_op_inv [OF inv, of "ConnectPins p"] run by (simp add: fbd_safe_def)
  then have "wired_out (fnodes g) e" "wired_in (fnodes g) e" using fbd_invD(5,6) [of g' k' e] 2(8) by simp_all
  moreover have "feid e \<notin> set (fnode_ids g) \<union> set (fedge_ids g)"
    using fbd_fresh_generate(1) [of "''signal''" k "feid e" k' "set (fnode_ids g) \<union> set (fedge_ids g)"] e fbd_invD(7) [OF inv] by simp
  ultimately show ?thesis using e 2(6,8) by blast
qed simp

definition fdemo_connect :: connect_pins_params where
  "fdemo_connect = \<lparr>sourceNodeId = ''n'', sourcePortName = ''OUT'', targetNodeId = ''a'', targetPortName = ''IN2''\<rparr>"

lemma fdemo_findPin:
  "findPin (fdemo_gate ''n'' NOT_gate) ''OUT'' = Some (hd (gate_outputs NOT_gate))"
  "findPin (fdemo_gate ''a'' AND_gate) ''IN2'' = Some (gate_inputs AND_gate ! 1)"
  by (simp_all add: findPin_def fdemo_gate_def getInputPorts_def getOutputPorts_def gate_inputs_def gate_outputs_def
      map_index_def Let_def)

lemma fdemo_connects: "\<exists>g' k'. connectPins fdemo fdemo_connect 0 = (Inr g', k')"
  by (simp add: connectPins_def validatePin_def fbd_findNode_def fdemo_connect_def fdemo_findPin
      same_wire_def connect_pin_error_def gate_inputs_def gate_outputs_def Let_def split: prod.split)

lemma connectPins_adds_witness:
  "\<exists>g' k' e. connectPins fdemo fdemo_connect 0 = (Inr g', k') \<and> fedges g' = fedges fdemo @ [e] \<and> ftgtPort e = ''IN2''"
proof -
  obtain g' k' where run: "connectPins fdemo fdemo_connect 0 = (Inr g', k')" using fdemo_connects by blast
  from connectPins_adds [OF fdemo_invs(1) run] run show ?thesis
    by (auto simp: same_wire_def fdemo_connect_def)
qed

text \<open>
  Connecting the same pins again succeeds, changes nothing and draws no id.\<close>

theorem connectPins_idempotent:
  assumes "connectPins g p k = (Inr g', k')"
  shows "connectPins g' p k' = (Inr g', k')"
  using assms
proof (cases rule: connectPins_cases)
  case 1
  with assms show ?thesis by simp
next
  case (2 a b pa pb e)
  have "same_wire p e" using createSignalEdge_same [OF 2(7)] by simp
  then have there: "List.find (same_wire p) (fedges g') \<noteq> None" using 2(8) by (auto simp: find_None_iff)
  have "fnodes g' = fnodes g" using 2(8) by simp
  note same = validatePin_cong [OF this]
  show ?thesis
    unfolding connectPins_def same 2(1,2) sum.case 2(3,4) prod.case option.case 2(5) if_P [OF there] ..
qed

lemma connectPins_idempotent_witness:
  "\<exists>g' k'. connectPins fdemo fdemo_connect 0 = (Inr g', k') \<and> connectPins g' fdemo_connect k' = (Inr g', k')"
  using fdemo_connects connectPins_idempotent by blast

subsection \<open>Feedback loops and evaluation order\<close>

text \<open>
  C5: loop detection terminates; every loop it reports is one (its nodes in signal order, the
  first one repeated at the end), and it reports none exactly when the signal flow has no cycle.
\<close>

theorem detectCycles_finds:
  "\<exists>cs. detectCycles g = Some cs \<and> (\<forall>c \<in> set cs. feedback_loop g c) \<and> (cs = [] \<longleftrightarrow> acyclic (signal_rel g))"
  by (rule detectCycles_spec)

lemma detectCycles_finds_witness:
  "\<exists>cs. detectCycles fdemo = Some cs \<and> (\<forall>c \<in> set cs. feedback_loop fdemo c) \<and> cs = []"
  using detectCycles_finds [of fdemo] fdemo_acyclic by simp

text \<open>
  C13: the evaluation order of a diagram without feedback is a permutation of its nodes in
  which every node comes after all the nodes that feed it.
\<close>

theorem topo_sort_orders:
  assumes "fbd_wf g" "acyclic (signal_rel g)"
  shows "mset (topo_sort g) = mset (fnodes g) \<and> follows_signals g (map fnid (topo_sort g))"
  using topo_sort_all [OF assms] topo_sort_order(3) [OF assms(1)] by (simp add: sorted_ids_def)

lemma topo_sort_orders_witness:
  "mset (topo_sort fdemo) = {#fdemo_gate ''a'' AND_gate, fdemo_gate ''n'' NOT_gate#}
     \<and> follows_signals fdemo (map fnid (topo_sort fdemo))"
  using topo_sort_orders [OF fbd_inv_wf [OF fdemo_invs(1)] fdemo_acyclic] by simp

subsection \<open>The compiled program\<close>

text \<open>
  C4: for a diagram of gates without feedback whose outputs each feed at most one wire, the
  emitted instruction list computes the diagram: the nodes have exactly one consistent assignment of values, and after
  the program has run every output variable and every wire variable holds it.
\<close>

theorem fbd_program_computes:
  assumes c: "compilable g k" and false: "\<not> env ''FALSE''"
  shows "\<exists>v. solves g v \<and> (\<forall>w. solves g w \<longrightarrow> (\<forall>i \<in> set (fnode_ids g). w i = v i))
    \<and> (\<forall>n \<in> set (fnodes g). snd (il_exec cal (il_lines g) acc env) (out_var g n) = v (fnid n))
    \<and> (\<forall>e \<in> set (fedges g). snd (il_exec cal (il_lines g) acc env) (wire_var g e) = v (fsrc e))"
proof -
  obtain v where "solves g v"
    "\<forall>n \<in> set (fnodes g). snd (il_exec cal (il_lines g) acc env) (out_var g n) = v (fnid n)"
    "\<forall>e \<in> set (fedges g). snd (il_exec cal (il_lines g) acc env) (wire_var g e) = v (fsrc e)"
    using il_computes [where env = env and cal = cal and acc = acc, OF c false] by blast
  with solution_unique [OF compilableD(3,2) [OF c]] show ?thesis by blast
qed

lemma fdemo_value:
  assumes "solves fdemo v"
  shows "\<not> v ''a''" "v ''n''"
proof -
  have a: "getInputPorts (fdemo_gate ''a'' AND_gate) = gate_inputs AND_gate"
    "getInputPorts (fdemo_gate ''n'' NOT_gate) = gate_inputs NOT_gate"
    "gate_of (fdata (fdemo_gate ''a'' AND_gate)) = AND_gate" "gate_of (fdata (fdemo_gate ''n'' NOT_gate)) = NOT_gate"
    by (simp_all add: fdemo_gate_def getInputPorts_def)
  show "\<not> v ''a''" "v ''n''"
    using assms by (simp_all add: solves_def a gate_inputs_def pin_value_def map_index_def Let_def)
qed

lemma fbd_program_computes_witness:
  "snd (il_exec (\<lambda>f ps a e. (a, e)) (il_lines fdemo) False (\<lambda>x. False)) (out_var fdemo (fdemo_gate ''n'' NOT_gate))"
proof -
  from fbd_program_computes [OF fdemo_compilable, of "\<lambda>x. False" "\<lambda>f ps a e. (a, e)" False] fdemo_value
  show ?thesis by auto
qed

text \<open>
  No two jump targets of an emitted program share a name.\<close>

theorem il_jump_targets_distinct:
  assumes "fbd_wf g"
  shows "distinct (program_labels (il_lines g))"
  by (rule il_labels_distinct [OF assms])

lemma il_jump_targets_distinct_witness: "distinct (program_labels (il_lines fdemo))"
  by (rule il_jump_targets_distinct) (rule fbd_inv_wf [OF fdemo_invs(1)])

text \<open>
  When a gate's output feeds more than one wire, the emitted program writes the variable of
  the first of them only: the variable of any other wire, which its target reads, keeps the value it had before the run.
\<close>

theorem fanout_unwritten:
  assumes inv: "fbd_inv (g, k)" and gates: "gates_only g" and e: "e \<in> set (fedges g)"
    and later: "findOutgoingEdge (fsrc e) g \<noteq> Some e"
  shows "snd (il_exec cal (il_lines g) acc env) (wire_var g e) = env (wire_var g e)"
proof -
  note d = fbd_invD [OF inv]
  have sub: "set (topo_sort g) \<subseteq> set (fnodes g)" by (rule topo_sort_order(2) [OF fbd_inv_wf [OF inv]])
  have "wire_var g e \<noteq> out_var g n" for n
  proof (cases "findOutgoingEdge (fnid n) g")
    case None
    then show ?thesis
      using gate_out_not_tmp wire_var_starts [OF d(2) e] by (simp add: out_var_def gate_out_label_def label_or_def)
  next
    case (Some f)
    then have f: "f \<in> set (fedges g)" "fsrc f = fnid n" by (auto simp: findOutgoingEdge_def dest: find_SomeD)
    then have "out_var g n = wire_var g f"
      using Some label_or_wire [OF d(2)] by (simp add: out_var_def gate_out_label_def)
    with later Some f wire_var_inject [OF d(2) e f(1)] show ?thesis by auto
  qed
  then have "foldl (node_store g) env (topo_sort g) (wire_var g e) = env (wire_var g e)"
    by (intro stores_outside) auto
  moreover have "snd (il_exec cal (il_lines g) acc env) = foldl (node_store g) env (topo_sort g)"
    unfolding il_lines_def by (rule program_exec) (use sub gates d(4) in \<open>auto simp: gates_only_def\<close>)
  ultimately show ?thesis by simp
qed

lemma fanout_unwritten_witness:
  "snd (il_exec (\<lambda>f ps a e. (a, e)) (il_lines fdemo_fan) True (\<lambda>x. True)) (wire_var fdemo_fan (fdemo_wire ''w2'' ''a'' ''m'' ''IN''))"
proof -
  have "gates_only fdemo_fan" by (simp add: gates_only_def)
  moreover have "findOutgoingEdge ''a'' fdemo_fan \<noteq> Some (fdemo_wire ''w2'' ''a'' ''m'' ''IN'')"
    by (simp add: findOutgoingEdge_def fdemo_wire_def)
  ultimately show ?thesis using fanout_unwritten [OF fdemo_invs(2)] by simp
qed

subsection \<open>Changing a type, saving, undo, compiling\<close>

text \<open>
  Changing the type of a function block keeps its id and place, gives it the pins of the new
  type, and removes exactly the wires at pins the new type does not have; everything else stays.
\<close>

theorem changeFbType_effect:
  assumes inv: "fbd_inv (g, k)" and n: "n \<in> set (fnodes g)" "fnid n = i" "fdata n = FunctionBlockNode t0 ins outs"
    and t: "t0 \<noteq> t"
  shows "\<exists>g' n' k'. changeFbType g i t k = (Inr g', k') \<and> fnid n' = i \<and> fpos n' = fpos n
    \<and> fdata n' = FunctionBlockNode t (typed_inputs t) (typed_outputs t)
    \<and> fnodes g' = map (\<lambda>m. if fnid m = i then n' else m) (fnodes g)
    \<and> fedges g' = filter (\<lambda>e. (fsrc e = i \<longrightarrow> fsrcPort e \<in> set (in_names n') \<union> set (out_names n'))
        \<and> (ftgt e = i \<longrightarrow> ftgtPort e \<in> set (in_names n') \<union> set (out_names n'))) (fedges g)"
proof -
  have d: "distinct (fnode_ids g)" by (rule fbd_invD(1) [OF inv])
  then have find: "fbd_findNode g i = Some n"
    using n nodeById_Some [OF d n(1)] nodeById_eq_find [OF d] by (simp add: fbd_findNode_def)
  obtain fb k' where fb: "createFbWithPins t (fpos n) k = (fb, k')" by (rule prod.exhaust)
  note facts = createFbWithPins_facts [OF fb]
  have pos: "fpos fb = fpos n" using fb by (auto simp: createFbWithPins_def fbd_createFB_def split: prod.splits)
  let ?n' = "fb\<lparr>fnid := i\<rparr>"
  have names: "in_names ?n' = map pname (getInputPorts fb)" "out_names ?n' = map pname (getOutputPorts fb)"
    by (simp_all add: in_names_def out_names_def getInputPorts_def getOutputPorts_def)
  have run: "changeFbType g i t k = (Inr (g\<lparr>fnodes := map (\<lambda>m. if fnid m = i then ?n' else m) (fnodes g),
      fedges := filter (\<lambda>e. \<not> (fsrc e = i \<and> fsrcPort e \<notin> set (in_names ?n') \<union> set (out_names ?n'))
        \<and> \<not> (ftgt e = i \<and> ftgtPort e \<notin> set (in_names ?n') \<union> set (out_names ?n'))) (fedges g)\<rparr>), k')"
    using find n(3) t fb by (simp add: changeFbType_def set_fnode_map [OF d] names Let_def)
  show ?thesis
    by (rule exI, rule exI [of _ ?n'], rule exI, intro conjI, rule run) (use facts pos in simp_all)
qed

definition fdemo_block :: fbd_node where
  "fdemo_block = \<lparr>fnid = ''f'', fdata = FunctionBlockNode ''TON'' (typed_inputs ''TON'') (typed_outputs ''TON''),
     fpos = origin, fdim = \<lparr>dwidth = 120, dheight = 80\<rparr>, fcss = None\<rparr>"

definition fdemo_timer :: fbd_graph where
  "fdemo_timer = \<lparr>fgid = ''d'', fnodes = [fdemo_gate ''n'' NOT_gate, fdemo_block],
     fedges = [fdemo_wire ''w1'' ''n'' ''f'' ''IN'']\<rparr>"

lemma fdemo_upper: "toUpperCase ''TON'' = ''TON''" "toUpperCase ''CTU'' = ''CTU''"
  by code_simp+

lemma fdemo_fb_defs:
  "map_option (\<lambda>d. (map dname (inputs d), map dname (outputs d))) (getFbDef ''TON'') = Some ([''IN'', ''PT''], [''Q'', ''ET''])"
  "map_option (\<lambda>d. (map dname (inputs d), map dname (outputs d))) (getFbDef ''CTU'') = Some ([''CU'', ''R'', ''PV''], [''Q'', ''CV''])"
  by (simp_all add: getFbDef_def fdemo_upper REGISTRY_def expand_def expand_pin_def)

lemma fdemo_block_names:
  "in_names fdemo_block = [''IN'', ''PT'']" "out_names fdemo_block = [''Q'', ''ET'']"
  "map pname (typed_inputs ''CTU'') = [''CU'', ''R'', ''PV'']" "map pname (typed_outputs ''CTU'') = [''Q'', ''CV'']"
  using fdemo_fb_defs
  by (auto simp: in_names_def out_names_def getInputPorts_def getOutputPorts_def fdemo_block_def
      fb_input_names fb_output_names split: option.splits)

lemma fdemo_timer_parts [simp]:
  "fnodes fdemo_timer = [fdemo_gate ''n'' NOT_gate, fdemo_block]" "fnid fdemo_block = ''f''"
  "fedges fdemo_timer = [fdemo_wire ''w1'' ''n'' ''f'' ''IN'']"
  "fdata fdemo_block = FunctionBlockNode ''TON'' (typed_inputs ''TON'') (typed_outputs ''TON'')"
  by (simp_all add: fdemo_timer_def fdemo_block_def)

lemma fdemo_timer_inv: "fbd_inv (fdemo_timer, 0)"
proof (rule fbd_invI)
  have ids: "fnode_ids fdemo_timer = [''n'', ''f'']" "fedge_ids fdemo_timer = [''w1'']"
    by (simp_all add: fnode_ids_def fedge_ids_def)
  show "fbd_fresh 0 (set (fnode_ids fdemo_timer) \<union> set (fedge_ids fdemo_timer))"
    by (rule fbd_no_dash_fresh) (auto simp: ids)
  show "canonical_pins n" if "n \<in> set (fnodes fdemo_timer)" for n
    using that by (auto simp: canonical_pins_def [of fdemo_block])
qed (auto simp: fnode_ids_def fedge_ids_def wired_out_def wired_in_def fdemo_block_names)

lemma changeFbType_effect_witness:
  "\<exists>g' k'. changeFbType fdemo_timer ''f'' ''CTU'' 0 = (Inr g', k') \<and> fedges g' = []"
proof -
  have "fdemo_block \<in> set (fnodes fdemo_timer)" by simp
  from changeFbType_effect [OF fdemo_timer_inv this, of "''f''" "''TON''" "typed_inputs ''TON''" "typed_outputs ''TON''" "''CTU''"]
  obtain g' n' k' where g': "changeFbType fdemo_timer ''f'' ''CTU'' 0 = (Inr g', k')"
    "fdata n' = FunctionBlockNode ''CTU'' (typed_inputs ''CTU'') (typed_outputs ''CTU'')"
    "fedges g' = filter (\<lambda>e. (fsrc e = ''f'' \<longrightarrow> fsrcPort e \<in> set (in_names n') \<union> set (out_names n'))
        \<and> (ftgt e = ''f'' \<longrightarrow> ftgtPort e \<in> set (in_names n') \<union> set (out_names n'))) (fedges fdemo_timer)"
    by auto
  then have "in_names n' = [''CU'', ''R'', ''PV'']" "out_names n' = [''Q'', ''CV'']"
    using fdemo_block_names by (simp_all add: in_names_def out_names_def getInputPorts_def getOutputPorts_def)
  with g' show ?thesis by simp
qed

text \<open>
  A diagram written by toJSON is accepted by fromJSON and read back as it was.\<close>

theorem fbd_json_roundtrip:
  "fbd_fromJSON (fbd_toJSON g) = Inr (fbd_toJSON g) \<and> fbd_view (fbd_toJSON g) = Some g"
  by (simp add: fbd_view_toJSON)

text \<open>
  The undo stack of the diagram editor refines the same timeline as the ladder editor's:
  after any sequence of mutations that may throw, undos, redos and saves it shows the document the timeline shows.
\<close>

theorem fbd_history_refines:
  "fbd_state_graph (fst (foldl (\<lambda>x a. fbd_act a x) (fbd_new_state (Some g) k) as)) k'' =
     (Inr (present (fst (tl_run as (tl_start g, k)))), k'')"
proof -
  obtain st k' where new: "fbd_new_state (Some g) k = (st, k')" by (rule prod.exhaust)
  from fbd_new_state_rep [OF new] show ?thesis
    unfolding new by (auto intro!: fbd_hist.run_shown simp: tl_bounded_steps)
qed

text \<open>
  Compilation terminates. It succeeds exactly when the diagram validates and the compiler
  returns a JSON object with instructions for its instruction list text.
\<close>

theorem fbd_compile_success:
  "\<exists>r. fbd_compile compileFn parse num g = Some r \<and>
     (success r \<longleftrightarrow> (\<exists>v raw m. fbd_validate g = Some v \<and> fvalid v
        \<and> compileFn (ilText (convertGraphToIl g)) = Inr raw \<and> parse raw = Some (JObj m)
        \<and> map_of m ''instructions'' \<noteq> None \<and> programJson r = raw \<and> diagnostics r = []))"
proof -
  obtain v where v: "fbd_validate g = Some v"
    using detectCycles_spec [of g] by (auto simp: fbd_validate_def fbd_validateGraph_def Let_def)
  then show ?thesis
    by (auto simp: fbd_compile_def failed_def fbd_parseCompileOutput_def split: sum.split option.split json.split)
qed

text \<open>
  C40: every block of the pin registry has an output, its pin names are distinct, its inputs are
  inputs and its outputs are outputs, and the lookup does not depend on the case of the type name.
\<close>

theorem registry_sound:
  assumes "getFbDef t = Some d" "toUpperCase t' = toUpperCase t"
  shows "distinct (pin_names d) \<and> outputs d \<noteq> [] \<and> (\<forall>p \<in> set (inputs d). ddirection p = Input)
    \<and> (\<forall>p \<in> set (outputs d). ddirection p = Output) \<and> getFbDef t' = Some d"
  using registry_def_ok [OF assms(1)] getFbDef_case [OF assms(2)] assms(1) by simp

lemma registry_sound_witness: "\<exists>d. getFbDef ''ton'' = Some d \<and> distinct (pin_names d)"
proof -
  obtain d where "getFbDef ''TON'' = Some d" using fdemo_fb_defs(1) by (cases "getFbDef ''TON''") auto
  moreover have "toUpperCase ''ton'' = toUpperCase ''TON''" by code_simp
  ultimately show ?thesis using registry_sound by blast
qed

end
