(* ===== verification/FbdCanvas.thy ===== *)
theory FbdCanvas
  imports FbdHistory Sessions
begin

text \<open>
  The canvas of the function block editor (weftik-fbd-editor/src/components/FbdCanvas.tsx with the
  pins of nodes/GateNode.tsx and FbNode.tsx) and the widget around it (client/fbd-editor-widget.tsx):
  the nodes and wires shown for a diagram, the handlers of a click, a connection, a drag and
  a deletion as transitions of the canvas, opening and saving a file. What React Flow tells a handler
  (the position under the pointer, the connection, the deleted elements) comes with the event.
\<close>

subsection \<open>The nodes and wires shown\<close>

definition RF_TYPE_GATE :: string where
  "RF_TYPE_GATE = ''fb-gate''"

definition RF_TYPE_FB :: string where
  "RF_TYPE_FB = ''fb-block''"

definition RF_TYPE_WIRE :: string where
  "RF_TYPE_WIRE = ''fbd-wire''"

record fbd_node_data =
  fd_kind :: string
  fd_gateType :: "gate_type option"
  fd_fbType :: "string option"
  fd_inputPins :: "fbd_pin list"
  fd_outputPins :: "fbd_pin list"
  fd_size :: dimension

record fbd_rf_node =
  rf_id :: string
  rf_type :: string
  rf_position :: point
  rf_data :: fbd_node_data

record fbd_rf_edge =
  rfe_id :: string
  rfe_source :: string
  rfe_sourceHandle :: string
  rfe_target :: string
  rfe_targetHandle :: string
  rfe_type :: string

definition flow_of_node :: "fbd_node \<Rightarrow> fbd_rf_node" where
  "flow_of_node n = \<lparr>rf_id = fnid n,
     rf_type = (if isGateNode n then RF_TYPE_GATE else RF_TYPE_FB),
     rf_position = fpos n,
     rf_data = \<lparr>fd_kind = (if isGateNode n then ''gate'' else ''fb''),
       fd_gateType = (case fdata n of GateNode t i k \<Rightarrow> Some t | FunctionBlockNode t i k \<Rightarrow> None),
       fd_fbType = (case fdata n of GateNode t i k \<Rightarrow> None | FunctionBlockNode t i k \<Rightarrow> Some t),
       fd_inputPins = getInputPorts n, fd_outputPins = getOutputPorts n, fd_size = fdim n\<rparr>\<rparr>"

definition flow_of_edge :: "fbd_edge \<Rightarrow> fbd_rf_edge" where
  "flow_of_edge e = \<lparr>rfe_id = feid e, rfe_source = fsrc e, rfe_sourceHandle = fsrcPort e,
     rfe_target = ftgt e, rfe_targetHandle = ftgtPort e, rfe_type = RF_TYPE_WIRE\<rparr>"

definition fbd_graphToFlow :: "fbd_graph \<Rightarrow> fbd_rf_node list \<times> fbd_rf_edge list" where
  "fbd_graphToFlow g = (map flow_of_node (fnodes g), map flow_of_edge (fedges g))"

text \<open>Where the handle of a pin is on its side of the body; handle ids are pin names.\<close>

definition pinTop :: "nat \<Rightarrow> nat \<Rightarrow> jsnum \<Rightarrow> jsnum" where
  "pinTop index n height =
     (if n \<le> 1 then height / 2 else (of_nat index + 1) / (of_nat n + 1) * height)"

definition target_handles :: "fbd_rf_node \<Rightarrow> (string \<times> jsnum) list" where
  "target_handles n = (let pins = fd_inputPins (rf_data n) in
     map_index (\<lambda>i p. (pname p, pinTop i (length pins) (dheight (fd_size (rf_data n))))) pins)"

definition source_handles :: "fbd_rf_node \<Rightarrow> (string \<times> jsnum) list" where
  "source_handles n = (let pins = fd_outputPins (rf_data n) in
     map_index (\<lambda>i p. (pname p, pinTop i (length pins) (dheight (fd_size (rf_data n))))) pins)"

subsection \<open>The canvas\<close>

datatype fbd_tool = GateTool gate_type | FbdFbTool string

definition GATE_TOOLS :: "gate_type list" where
  "GATE_TOOLS = [AND_gate, OR_gate, XOR_gate, NOT_gate, MUX_gate]"

definition FBD_FB_TYPES :: "string list" where
  "FBD_FB_TYPES = [''TON'', ''TOF'', ''TP'', ''CTU'', ''CTD'', ''CTUD'', ''SR'', ''RS'', ''R_TRIG'', ''F_TRIG'',
     ''ADD'', ''SUB'', ''MUL'', ''DIV'', ''MOVE'', ''EQ'', ''GT'', ''LT'', ''GE'', ''LE'', ''SEL'']"

record fbd_canvas =
  fc_state :: fbd_state
  fc_gen :: nat
  fc_graph :: fbd_graph
  fc_tool :: "fbd_tool option"
  fc_status :: string

type_synonym fbd_mutation = "fbd_graph \<Rightarrow> nat \<Rightarrow> fbd_result"

definition open_fbd_canvas :: "fbd_graph \<Rightarrow> nat \<Rightarrow> fbd_canvas" where
  "open_fbd_canvas g k = (case fbd_new_state (Some g) k of (st, k') \<Rightarrow>
     \<lparr>fc_state = st, fc_gen = k', fc_graph = g, fc_tool = None, fc_status = []\<rparr>)"

fun fbd_error_message :: "fbd_error state_error \<Rightarrow> string" where
  "fbd_error_message (MutationError (FbdValidationError msg)) = msg"
| "fbd_error_message (FromJsonError msg) = msg"

definition fbd_tryApply :: "fbd_mutation \<Rightarrow> fbd_canvas \<Rightarrow> fbd_canvas" where
  "fbd_tryApply m c = (case fbd_applyOperation m (fc_state c) (fc_gen c) of
     (Inr g, st, k) \<Rightarrow> c\<lparr>fc_state := st, fc_gen := k, fc_graph := g, fc_status := []\<rparr>
   | (Inl e, st, k) \<Rightarrow> c\<lparr>fc_state := st, fc_gen := k, fc_status := fbd_error_message e\<rparr>)"

definition fbd_undo_ui :: "fbd_canvas \<Rightarrow> fbd_canvas" where
  "fbd_undo_ui c = (case fbd_undo (fc_state c) (fc_gen c) :: (fbd_error state_error + fbd_graph option) \<times> fbd_state \<times> nat of
     (Inr (Some g), st, k) \<Rightarrow> c\<lparr>fc_state := st, fc_gen := k, fc_graph := g\<rparr>
   | (_, st, k) \<Rightarrow> c\<lparr>fc_state := st, fc_gen := k\<rparr>)"

definition fbd_redo_ui :: "fbd_canvas \<Rightarrow> fbd_canvas" where
  "fbd_redo_ui c = (case fbd_redo (fc_state c) (fc_gen c) :: (fbd_error state_error + fbd_graph option) \<times> fbd_state \<times> nat of
     (Inr (Some g), st, k) \<Rightarrow> c\<lparr>fc_state := st, fc_gen := k, fc_graph := g\<rparr>
   | (_, st, k) \<Rightarrow> c\<lparr>fc_state := st, fc_gen := k\<rparr>)"

subsection \<open>Handlers\<close>

definition create_mutation :: "fbd_tool \<Rightarrow> point \<Rightarrow> fbd_mutation" where
  "create_mutation tool pos g k = (case tool of
     GateTool t \<Rightarrow> createGate g t pos k | FbdFbTool f \<Rightarrow> createFunctionBlock g f pos k)"

definition createWithTool :: "fbd_tool \<Rightarrow> point \<Rightarrow> fbd_canvas \<Rightarrow> fbd_canvas" where
  "createWithTool tool pos = fbd_tryApply (create_mutation tool pos)"

definition onPaneClick :: "point \<Rightarrow> fbd_canvas \<Rightarrow> fbd_canvas" where
  "onPaneClick pos c = (case fc_tool c of None \<Rightarrow> c
     | Some tool \<Rightarrow> (createWithTool tool pos c)\<lparr>fc_tool := None\<rparr>)"

record fbd_connection =
  cn_source :: string
  cn_sourceHandle :: "string option"
  cn_target :: string
  cn_targetHandle :: "string option"

definition onConnect :: "fbd_connection \<Rightarrow> fbd_canvas \<Rightarrow> fbd_canvas" where
  "onConnect cn c = (let sh = opt_or (cn_sourceHandle cn) []; th = opt_or (cn_targetHandle cn) [] in
     if cn_source cn = [] \<or> cn_target cn = [] \<or> sh = [] \<or> th = [] then c
     else fbd_tryApply (\<lambda>g. connectPins g \<lparr>sourceNodeId = cn_source cn, sourcePortName = sh,
       targetNodeId = cn_target cn, targetPortName = th\<rparr>) c)"

text \<open>React Flow passes the node under the pointer; the others of a dragged selection come in an argument the code ignores.\<close>

definition fbd_onNodeDragStop :: "string \<Rightarrow> point \<Rightarrow> fbd_canvas \<Rightarrow> fbd_canvas" where
  "fbd_onNodeDragStop i pos = fbd_tryApply (\<lambda>g. moveElement g i pos)"

fun fbd_delete_nodes :: "string list \<Rightarrow> fbd_mutation" where
  "fbd_delete_nodes [] g k = (Inr g, k)"
| "fbd_delete_nodes (i # is) g k = then_op (\<lambda>g. fbd_deleteElement g i) (fbd_delete_nodes is) g k"

fun disconnect_edges :: "fbd_rf_edge list \<Rightarrow> fbd_mutation" where
  "disconnect_edges [] g k = (Inr g, k)"
| "disconnect_edges (e # es) g k =
     (if \<exists>w \<in> set (fedges g). feid w = rfe_id e
      then then_op (\<lambda>g. disconnectPin g (rfe_source e) (rfe_sourceHandle e)) (disconnect_edges es) g k
      else disconnect_edges es g k)"

definition delete_mutation :: "string list \<Rightarrow> fbd_rf_edge list \<Rightarrow> fbd_mutation" where
  "delete_mutation ns es = then_op (fbd_delete_nodes ns) (disconnect_edges es)"

definition fbd_onDelete :: "string list \<Rightarrow> fbd_rf_edge list \<Rightarrow> fbd_canvas \<Rightarrow> fbd_canvas" where
  "fbd_onDelete ns es = fbd_tryApply (delete_mutation ns es)"

datatype fbd_event =
    FPickTool fbd_tool
  | FPaneClick point
  | FConnect fbd_connection
  | FDragStop string point
  | FDelete "string list" "fbd_rf_edge list"
  | FUndo
  | FRedo
  | FSaved

fun fbd_canvas_step :: "fbd_event \<Rightarrow> fbd_canvas \<Rightarrow> fbd_canvas" where
  "fbd_canvas_step (FPickTool t) c = c\<lparr>fc_tool := (if fc_tool c = Some t then None else Some t)\<rparr>"
| "fbd_canvas_step (FPaneClick pos) c = onPaneClick pos c"
| "fbd_canvas_step (FConnect cn) c = onConnect cn c"
| "fbd_canvas_step (FDragStop i pos) c = fbd_onNodeDragStop i pos c"
| "fbd_canvas_step (FDelete ns es) c = fbd_onDelete ns es c"
| "fbd_canvas_step FUndo c = fbd_undo_ui c"
| "fbd_canvas_step FRedo c = fbd_redo_ui c"
| "fbd_canvas_step FSaved c = c\<lparr>fc_state := fbd_markClean (fc_state c)\<rparr>"

definition fbd_canvas_run :: "fbd_event list \<Rightarrow> fbd_canvas \<Rightarrow> fbd_canvas" where
  "fbd_canvas_run es c = fold fbd_canvas_step es c"

subsection \<open>The widget\<close>

datatype fbd_file = FbdBlank | FbdBroken | FbdJson json

record fbd_widget =
  fw_canvas :: fbd_canvas
  fw_file :: fbd_file
  fw_saving :: "json list"
  fw_loadError :: bool

text \<open>
  \<open>parseInitialGraph\<close>. A value with the top fields that is no typed diagram is returned as
  it is by the code; the model has no result for it.
\<close>

definition fbd_parseInitialGraph :: "fbd_file \<Rightarrow> nat \<Rightarrow> (fbd_graph \<times> bool \<times> nat) option" where
  "fbd_parseInitialGraph f k =
     (let fresh = (case createFbdGraph None k of (g, k') \<Rightarrow> Some (g, f \<noteq> FbdBlank, k'))
      in case f of
          FbdJson j \<Rightarrow> (case fbd_fromJSON j of
              Inr j' \<Rightarrow> (case fbd_view j' of Some g \<Rightarrow> Some (g, False, k) | None \<Rightarrow> None)
            | Inl msg \<Rightarrow> fresh)
        | _ \<Rightarrow> fresh)"

definition open_fbd_widget :: "fbd_file \<Rightarrow> nat \<Rightarrow> fbd_widget option" where
  "open_fbd_widget f k = map_option (\<lambda>(g, err, k').
     \<lparr>fw_canvas = open_fbd_canvas g k', fw_file = f, fw_saving = [], fw_loadError = err\<rparr>) (fbd_parseInitialGraph f k)"

definition fbd_save_begin :: "fbd_widget \<Rightarrow> fbd_widget" where
  "fbd_save_begin w = (let c = fw_canvas w in
     case fbd_state_graph (fc_state c) (fc_gen c) :: (fbd_error state_error + fbd_graph) \<times> nat of
       (Inr g, k) \<Rightarrow> w\<lparr>fw_canvas := c\<lparr>fc_gen := k\<rparr>, fw_saving := fw_saving w @ [fbd_toJSON g]\<rparr>
     | (Inl e, k) \<Rightarrow> w\<lparr>fw_canvas := c\<lparr>fc_gen := k\<rparr>\<rparr>)"

definition fbd_save_end :: "fbd_widget \<Rightarrow> fbd_widget" where
  "fbd_save_end w = (case fw_saving w of
     [] \<Rightarrow> w
   | j # js \<Rightarrow> w\<lparr>fw_file := FbdJson j, fw_saving := js,
       fw_canvas := (fw_canvas w)\<lparr>fc_state := fbd_markClean (fc_state (fw_canvas w))\<rparr>\<rparr>)"

datatype fbd_widget_event = FEdit fbd_event | FSaveBegin | FSaveEnd

fun fbd_widget_step :: "fbd_widget_event \<Rightarrow> fbd_widget \<Rightarrow> fbd_widget" where
  "fbd_widget_step (FEdit e) w = w\<lparr>fw_canvas := fbd_canvas_step e (fw_canvas w)\<rparr>"
| "fbd_widget_step FSaveBegin w = fbd_save_begin w"
| "fbd_widget_step FSaveEnd w = fbd_save_end w"

definition fbd_widget_run :: "fbd_widget_event list \<Rightarrow> fbd_widget \<Rightarrow> fbd_widget" where
  "fbd_widget_run es w = fold fbd_widget_step es w"

subsection \<open>What keeps an invariant of diagrams\<close>

text \<open>
  An invariant that the operations behind the canvas keep, as far as the tools that are used are
  admitted, holds of every diagram the canvas can show. Two invariants are used: well-formed diagrams
  on the grid, and diagrams whose names are plain words.
\<close>

locale diagram_session =
  fixes good :: "fbd_graph \<times> nat \<Rightarrow> bool"
    and tool_ok :: "fbd_tool \<Rightarrow> bool"
  assumes good_mono: "good (g, k) \<Longrightarrow> k \<le> k' \<Longrightarrow> good (g, k')"
    and create_good: "tool_ok t \<Longrightarrow> safe_for good (\<le>) (create_mutation t p)"
    and delete_good: "safe_for good (\<le>) (\<lambda>g. fbd_deleteElement g i)"
    and connect_good: "safe_for good (\<le>) (\<lambda>g. connectPins g q)"
    and disconnect_good: "safe_for good (\<le>) (\<lambda>g. disconnectPin g i port)"
    and move_good: "safe_for good (\<le>) (\<lambda>g. moveElement g i p)"

sublocale diagram_session \<subseteq> undo_session fbd_rep fbd_state_graph fbd_applyOperation fbd_undo fbd_redo fbd_markClean
    "MutationError :: fbd_error \<Rightarrow> fbd_error state_error" good "(\<le>)"
  by unfold_locales
    (auto simp: fbd_rep_graph fbd_rep_throw fbd_rep_undo fbd_rep_redo intro: fbd_rep_apply good_mono,
     simp add: fbd_rep_def fbd_markClean_def tl_clean_def)

definition canvas_within :: "(fbd_graph \<times> nat \<Rightarrow> bool) \<Rightarrow> (fbd_tool \<Rightarrow> bool) \<Rightarrow> fbd_canvas \<Rightarrow> bool" where
  "canvas_within good tool_ok c \<longleftrightarrow> kept fbd_rep good (fc_state c) (fc_gen c) (fc_graph c)
     \<and> (\<forall>t. fc_tool c = Some t \<longrightarrow> tool_ok t)"

definition admitted :: "(fbd_tool \<Rightarrow> bool) \<Rightarrow> fbd_event \<Rightarrow> bool" where
  "admitted tool_ok e = (case e of FPickTool t \<Rightarrow> tool_ok t | _ \<Rightarrow> True)"

lemma fbd_tryApply_tool [simp]: "fc_tool (fbd_tryApply m c) = fc_tool c"
  by (simp add: fbd_tryApply_def split: prod.split sum.split)

lemma fbd_undo_tool [simp]: "fc_tool (fbd_undo_ui c) = fc_tool c" "fc_tool (fbd_redo_ui c) = fc_tool c"
  by (simp_all add: fbd_undo_ui_def fbd_redo_ui_def split: prod.split sum.split option.split)

context diagram_session
begin

lemma nodes_good: "safe_for good (\<le>) (fbd_delete_nodes is)"
proof (induction "is")
  case (Cons i "is")
  have "fbd_delete_nodes (i # is) = then_op (\<lambda>g. fbd_deleteElement g i) (fbd_delete_nodes is)"
    by (simp add: fun_eq_iff)
  then show ?case using safe_then [OF delete_good Cons.IH] by simp
qed (simp add: safe_for_def)

lemma edges_good: "safe_for good (\<le>) (disconnect_edges es)"
proof (induction es)
  case (Cons e es)
  have "disconnect_edges (e # es) = (\<lambda>g k. if \<exists>w \<in> set (fedges g). feid w = rfe_id e
      then then_op (\<lambda>g. disconnectPin g (rfe_source e) (rfe_sourceHandle e)) (disconnect_edges es) g k
      else disconnect_edges es g k)"
    by (simp add: fun_eq_iff)
  then show ?case
    using safe_for_if [of "\<lambda>g. \<exists>w \<in> set (fedges g). feid w = rfe_id e" good "(\<le>)"
      "\<lambda>g. then_op (\<lambda>g. disconnectPin g (rfe_source e) (rfe_sourceHandle e)) (disconnect_edges es)"
      "\<lambda>g. disconnect_edges es"] safe_then [OF disconnect_good Cons.IH] Cons.IH by simp
qed (simp add: safe_for_def)

lemma selection_good: "safe_for good (\<le>) (delete_mutation ns es)"
  unfolding delete_mutation_def by (intro safe_then nodes_good edges_good)

lemma apply_within:
  assumes c: "canvas_within good tool_ok c" and m: "safe_for good (\<le>) m"
  shows "canvas_within good tool_ok (fbd_tryApply m c)"
proof -
  obtain r k' where r: "m (fc_graph c) (fc_gen c) = (r, k')" by (rule prod.exhaust)
  from c have kept: "kept fbd_rep good (fc_state c) (fc_gen c) (fc_graph c)" by (simp add: canvas_within_def)
  show ?thesis
  proof (cases r)
    case (Inl e)
    with kept_app_throws [OF kept _ m] r c show ?thesis by (auto simp: fbd_tryApply_def canvas_within_def)
  next
    case (Inr g')
    with kept_app_returns [OF kept _ m] r c show ?thesis by (fastforce simp: fbd_tryApply_def canvas_within_def)
  qed
qed

lemma undo_within:
  assumes "canvas_within good tool_ok c"
  shows "canvas_within good tool_ok (fbd_undo_ui c)" "canvas_within good tool_ok (fbd_redo_ui c)"
  using kept_undo [of "fc_state c" "fc_gen c" "fc_graph c"] kept_redo [of "fc_state c" "fc_gen c" "fc_graph c"] assms
  by (auto simp: fbd_undo_ui_def fbd_redo_ui_def canvas_within_def)

lemma step_within:
  assumes "canvas_within good tool_ok c" "admitted tool_ok e"
  shows "canvas_within good tool_ok (fbd_canvas_step e c)"
proof (cases e)
  case (FPickTool t)
  with assms show ?thesis by (auto simp: canvas_within_def admitted_def)
next
  case (FPaneClick p)
  show ?thesis
  proof (cases "fc_tool c")
    case (Some t)
    then have "tool_ok t" using assms(1) by (simp add: canvas_within_def)
    from apply_within [OF assms(1) create_good [OF this]] Some FPaneClick show ?thesis
      by (simp add: onPaneClick_def createWithTool_def canvas_within_def)
  qed (use FPaneClick assms in \<open>simp add: onPaneClick_def\<close>)
next
  case FSaved
  with assms(1) show ?thesis by (simp add: canvas_within_def kept_clean)
qed (use assms(1) in \<open>auto simp: onConnect_def fbd_onNodeDragStop_def fbd_onDelete_def Let_def undo_within
    intro!: apply_within connect_good move_good selection_good\<close>)

lemma run_within:
  "canvas_within good tool_ok c \<Longrightarrow> list_all (admitted tool_ok) es \<Longrightarrow> canvas_within good tool_ok (fbd_canvas_run es c)"
  unfolding fbd_canvas_run_def by (induction es arbitrary: c) (simp_all add: step_within)

lemma open_within:
  assumes "good (g, k)"
  shows "canvas_within good tool_ok (open_fbd_canvas g k)"
proof -
  obtain st k' where new: "fbd_new_state (Some g) k = (st, k')" by (rule prod.exhaust)
  with fbd_new_state_rep [OF new] assms show ?thesis
    by (auto simp: canvas_within_def open_fbd_canvas_def intro: kept_start)
qed

end

subsection \<open>The invariant of the canvas\<close>

definition on_grid :: "fbd_graph \<Rightarrow> bool" where
  "on_grid g \<longleftrightarrow> (\<forall>n \<in> set (fnodes g). fbd_snapToGrid (fpos n) = fpos n)"

definition diagram_ok :: "fbd_graph \<times> nat \<Rightarrow> bool" where
  "diagram_ok st \<longleftrightarrow> fbd_inv st \<and> on_grid (fst st)"

lemma fbd_inv_later: "fbd_inv (g, k) \<Longrightarrow> k \<le> k' \<Longrightarrow> fbd_inv (g, k')"
  by (auto simp: fbd_inv_def fbd_fresh_def Let_def)

text \<open>Snapping is idempotent.\<close>

lemma snap_snap [simp]: "fbd_snapToGrid (fbd_snapToGrid p) = fbd_snapToGrid p"
  by (simp add: fbd_snapToGrid_def)

lemma snap_origin [simp]: "fbd_snapToGrid origin = origin"
  using js_round_of_int [of 0] by (simp add: fbd_snapToGrid_def origin_def)

lemma fbd_op_later: "run_fbd_op op g k = (r, k') \<Longrightarrow> k \<le> k'"
  by (cases op) (auto simp: createGate_def createFunctionBlock_def fbd_deleteElement_def connectPins_def
    disconnectPin_def moveElement_def changeGateType_def changeFbType_def fbd_throw_def Let_def
    fbd_createGate_def createFbWithPins_def fbd_createFB_def createSignalEdge_def fbd_generateId_def
    split: prod.splits if_splits option.splits sum.splits fbd_data.splits)

lemma on_grid_ops:
  "on_grid g \<Longrightarrow> createGate g t p k = (Inr g', k') \<Longrightarrow> on_grid g'"
  "on_grid g \<Longrightarrow> createFunctionBlock g f p k = (Inr g', k') \<Longrightarrow> on_grid g'"
  "on_grid g \<Longrightarrow> fbd_deleteElement g i k = (Inr g', k') \<Longrightarrow> on_grid g'"
  "on_grid g \<Longrightarrow> connectPins g q k = (Inr g', k') \<Longrightarrow> on_grid g'"
  "on_grid g \<Longrightarrow> disconnectPin g i port k = (Inr g', k') \<Longrightarrow> on_grid g'"
  by (auto simp: on_grid_def createGate_def createFunctionBlock_def fbd_deleteElement_def connectPins_def
    disconnectPin_def fbd_throw_def Let_def fbd_createGate_def createFbWithPins_def fbd_createFB_def
    split: prod.splits if_splits option.splits sum.splits)

lemma on_grid_move:
  assumes "on_grid g" "moveElement g i p k = (Inr g', k')"
  shows "on_grid g'"
proof (cases "findIndex (\<lambda>n. fnid n = i) (fnodes g)")
  case (Some j)
  then have "g' = g\<lparr>fnodes := (fnodes g)[j := (fnodes g ! j)\<lparr>fpos := fbd_snapToGrid p\<rparr>]\<rparr>"
    using assms(2) by (auto simp: moveElement_def set_fnode_def split: if_splits)
  then show ?thesis using assms(1) by (auto simp: on_grid_def dest!: set_update_subset_insert [THEN subsetD])
qed (use assms in \<open>auto simp: moveElement_def set_fnode_def split: if_splits\<close>)

text \<open>An operation that the canvas uses, as a mutation.\<close>

abbreviation safe_diagram :: "fbd_mutation \<Rightarrow> bool" where
  "safe_diagram \<equiv> safe_for diagram_ok (\<le>)"

lemma safe_diagram_op:
  assumes "\<And>g. fbd_safe op g" "\<And>g k. run_fbd_op op g k = m g k"
    "\<And>g k g' k'. on_grid g \<Longrightarrow> m g k = (Inr g', k') \<Longrightarrow> on_grid g'"
  shows "safe_diagram m"
proof (rule safe_forI)
  fix g k g' k'
  assume "diagram_ok (g, k)" "m g k = (Inr g', k')"
  then show "diagram_ok (g', k')"
    using run_fbd_op_inv [OF _ assms(1), of g k g' k'] assms(2,3) by (auto simp: diagram_ok_def)
next
  fix g k r k'
  assume "m g k = (r, k')"
  then have "run_fbd_op op g k = (r, k')" by (simp only: assms(2))
  then show "k \<le> k'" by (rule fbd_op_later)
qed

lemma safe_diagram_handler:
  "safe_diagram (\<lambda>g. createGate g t p)" "safe_diagram (\<lambda>g. createFunctionBlock g f p)"
  "safe_diagram (\<lambda>g. fbd_deleteElement g i)" "safe_diagram (\<lambda>g. connectPins g q)"
  "safe_diagram (\<lambda>g. disconnectPin g i port)" "safe_diagram (\<lambda>g. moveElement g i p)"
  subgoal by (rule safe_diagram_op [of "CreateGate t p"], simp add: fbd_safe_def, simp, erule (1) on_grid_ops(1))
  subgoal by (rule safe_diagram_op [of "CreateFunctionBlock f p"], simp add: fbd_safe_def, simp, erule (1) on_grid_ops(2))
  subgoal by (rule safe_diagram_op [of "FbdDelete i"], simp add: fbd_safe_def, simp, erule (1) on_grid_ops(3))
  subgoal by (rule safe_diagram_op [of "ConnectPins q"], simp add: fbd_safe_def, simp, erule (1) on_grid_ops(4))
  subgoal by (rule safe_diagram_op [of "DisconnectPin i port"], simp add: fbd_safe_def, simp, erule (1) on_grid_ops(5))
  subgoal by (rule safe_diagram_op [of "MoveNode i p"], simp add: fbd_safe_def, simp, erule (1) on_grid_move)
  done

lemma safe_create: "safe_diagram (create_mutation tool pos)"
  using safe_diagram_handler(1,2) by (cases tool) (simp_all add: create_mutation_def [abs_def])

text \<open>Well-formed diagrams on the grid need no condition on the tools.\<close>

interpretation fbd_ui: diagram_session diagram_ok "\<lambda>_. True"
  by unfold_locales (auto simp: diagram_ok_def intro: fbd_inv_later safe_create safe_diagram_handler)

definition fbd_canvas_ok :: "fbd_canvas \<Rightarrow> bool" where
  "fbd_canvas_ok c \<longleftrightarrow> kept fbd_rep diagram_ok (fc_state c) (fc_gen c) (fc_graph c)"

lemma fbd_canvas_ok_fields [simp]:
  "fbd_canvas_ok (c\<lparr>fc_tool := t\<rparr>) = fbd_canvas_ok c" "fbd_canvas_ok (c\<lparr>fc_status := s\<rparr>) = fbd_canvas_ok c"
  by (simp_all add: fbd_canvas_ok_def)

lemma fbd_canvas_okD:
  "fbd_canvas_ok c \<Longrightarrow> diagram_ok (fc_graph c, fc_gen c)"
  "fbd_canvas_ok c \<Longrightarrow> fbd_state_graph (fc_state c) k = ((Inr (fc_graph c) :: 'e state_error + fbd_graph), k)"
  by (auto simp: fbd_canvas_ok_def kept_def fbd_rep_graph)

lemma fbd_canvas_ok_within: "fbd_canvas_ok c \<longleftrightarrow> canvas_within diagram_ok (\<lambda>_. True) c"
  by (simp add: fbd_canvas_ok_def canvas_within_def)

lemma fbd_canvas_run_ok: "fbd_canvas_ok c \<Longrightarrow> fbd_canvas_ok (fbd_canvas_run es c)"
  by (simp add: fbd_canvas_ok_within fbd_ui.run_within list_all_iff admitted_def split: fbd_event.split)

lemma open_fbd_canvas_ok: "diagram_ok (g, k) \<Longrightarrow> fbd_canvas_ok (open_fbd_canvas g k)"
  by (simp add: fbd_canvas_ok_within fbd_ui.open_within)

end
