(* ===== verification/FbdCanvasProps.thy ===== *)
theory FbdCanvasProps
  imports FbdCanvas FbdProps
begin

text \<open>
  The properties of the function block canvas: what it shows after any user actions, what a deletion
  removes, and what happens to ids when a saved diagram is opened in a new session.
\<close>

subsection \<open>Handles\<close>

lemma pinTop_bounds:
  assumes "i < n" "0 < h"
  shows "0 < pinTop i n h" "pinTop i n h < h"
proof -
  have "(of_nat i + 1 :: jsnum) < of_nat n + 1" using assms(1) by simp
  then show "pinTop i n h < h"
    using assms(2) by (simp add: pinTop_def divide_less_eq)
qed (use assms(2) in \<open>simp add: pinTop_def add_pos_nonneg\<close>)

lemma pinTop_mono: "i < j \<Longrightarrow> j < n \<Longrightarrow> 0 < h \<Longrightarrow> pinTop i n h < pinTop j n h"
  by (simp add: pinTop_def divide_strict_right_mono)

lemma fst_handles [simp]:
  "map fst (source_handles (flow_of_node n)) = out_names n"
  "map fst (target_handles (flow_of_node n)) = in_names n"
  by (simp_all add: source_handles_def target_handles_def flow_of_node_def Let_def out_names_def in_names_def
      map_map_index)

lemma handle_names [simp]:
  "fst ` set (source_handles (flow_of_node n)) = set (out_names n)"
  "fst ` set (target_handles (flow_of_node n)) = set (in_names n)"
  by (simp_all flip: set_map)

lemma flow_parts [simp]:
  "rf_id (flow_of_node n) = fnid n" "rf_position (flow_of_node n) = fpos n"
  "rfe_id (flow_of_edge e) = feid e" "rfe_source (flow_of_edge e) = fsrc e"
  "rfe_sourceHandle (flow_of_edge e) = fsrcPort e" "rfe_target (flow_of_edge e) = ftgt e"
  "rfe_targetHandle (flow_of_edge e) = ftgtPort e"
  by (simp_all add: flow_of_node_def flow_of_edge_def)

subsection \<open>Sessions\<close>

text \<open>
  C10: whatever the user does on the diagram canvas, starting from a well-formed diagram on the grid, the
  canvas shows the diagram its undo state holds; every node and wire is drawn once, all nodes lie on the grid, and every
  wire joins a source handle to a target handle of nodes that are drawn. No guard on the actions is
  needed, because the canvas never changes a gate's type.
\<close>

theorem fbd_canvas_session:
  assumes "fbd_inv (g, k)" "on_grid g" and c: "c = fbd_canvas_run es (open_fbd_canvas g k)"
    and flow: "fbd_graphToFlow (fc_graph c) = (ns, ws)"
  shows "fbd_state_graph (fc_state c) (fc_gen c) = ((Inr (fc_graph c) :: fbd_error state_error + fbd_graph), fc_gen c)
    \<and> fbd_inv (fc_graph c, fc_gen c)
    \<and> map rf_id ns = map fnid (fnodes (fc_graph c)) \<and> distinct (map rf_id ns)
    \<and> map rfe_id ws = map feid (fedges (fc_graph c)) \<and> distinct (map rfe_id ws)
    \<and> (\<forall>n \<in> set ns. fbd_snapToGrid (rf_position n) = rf_position n)
    \<and> (\<forall>w \<in> set ws. (\<exists>n \<in> set ns. rf_id n = rfe_source w \<and> rfe_sourceHandle w \<in> set (map fst (source_handles n)))
       \<and> (\<exists>n \<in> set ns. rf_id n = rfe_target w \<and> rfe_targetHandle w \<in> set (map fst (target_handles n))))"
proof -
  have "diagram_ok (g, k)" using assms by (simp add: diagram_ok_def)
  then have ok: "fbd_canvas_ok c" unfolding c by (intro fbd_canvas_run_ok open_fbd_canvas_ok)
  note shown = fbd_canvas_okD(2) [OF ok, where 'e = fbd_error]
  have inv: "fbd_inv (fc_graph c, fc_gen c)" and grid: "on_grid (fc_graph c)"
    using fbd_canvas_okD(1) [OF ok] by (simp_all add: diagram_ok_def)
  note d = fbd_invD [OF inv]
  have ns: "ns = map flow_of_node (fnodes (fc_graph c))" and ws: "ws = map flow_of_edge (fedges (fc_graph c))"
    using flow by (auto simp: fbd_graphToFlow_def)
  have ids: "map rf_id ns = map fnid (fnodes (fc_graph c))" "map rfe_id ws = map feid (fedges (fc_graph c))"
    by (simp_all add: ns ws comp_def)
  have "\<exists>n \<in> set ns. rf_id n = rfe_source w \<and> rfe_sourceHandle w \<in> set (map fst (source_handles n))"
    "\<exists>n \<in> set ns. rf_id n = rfe_target w \<and> rfe_targetHandle w \<in> set (map fst (target_handles n))"
    if w: "w \<in> set ws" for w
  proof -
    from w obtain e where e: "e \<in> set (fedges (fc_graph c))" "w = flow_of_edge e" by (auto simp: ws)
    from d(5,6) [OF e(1)] show
      "\<exists>n \<in> set ns. rf_id n = rfe_source w \<and> rfe_sourceHandle w \<in> set (map fst (source_handles n))"
      "\<exists>n \<in> set ns. rf_id n = rfe_target w \<and> rfe_targetHandle w \<in> set (map fst (target_handles n))"
      by (auto simp: ns e(2) wired_out_def wired_in_def)
  qed
  moreover have "\<forall>n \<in> set ns. fbd_snapToGrid (rf_position n) = rf_position n"
    using grid by (simp add: ns on_grid_def)
  ultimately show ?thesis
    using shown inv d(1,2) ids by (simp add: fnode_ids_def fedge_ids_def)
qed

lemma fbd_canvas_session_witness:
  "let c = fbd_canvas_run [FPickTool (GateTool OR_gate), FPaneClick origin, FDelete [''n''] [], FUndo] (open_fbd_canvas fdemo 0)
   in distinct (map rf_id (fst (fbd_graphToFlow (fc_graph c))))"
proof -
  have "on_grid fdemo" by (simp add: on_grid_def fdemo_gate_def)
  from fbd_canvas_session [OF fdemo_invs(1) this refl prod.collapse [symmetric]] show ?thesis
    unfolding Let_def by blast
qed

subsection \<open>Deleting a selection\<close>

text \<open>Deleting nodes removes them and their wires.\<close>

definition without_nodes :: "string list \<Rightarrow> fbd_graph \<Rightarrow> fbd_graph" where
  "without_nodes is g = g\<lparr>fnodes := filter (\<lambda>n. fnid n \<notin> set is) (fnodes g),
     fedges := filter (\<lambda>e. fsrc e \<notin> set is \<and> ftgt e \<notin> set is) (fedges g)\<rparr>"

lemma delete_nodes_result:
  "distinct is \<Longrightarrow> set is \<subseteq> set (fnode_ids g) \<Longrightarrow> fbd_delete_nodes is g k = (Inr (without_nodes is g), k)"
proof (induction "is" arbitrary: g)
  case (Cons i "is")
  let ?g = "without_nodes [i] g"
  have "fbd_findNode g i \<noteq> None"
    using Cons.prems(2) by (auto simp: fbd_findNode_def find_None_iff fnode_ids_def)
  then have del: "fbd_deleteElement g i k = (Inr ?g, k)"
    by (simp add: fbd_deleteElement_def without_nodes_def)
  have "fbd_delete_nodes is ?g k = (Inr (without_nodes is ?g), k)"
    proof (rule Cons.IH)
    show "set is \<subseteq> set (fnode_ids ?g)"
      using Cons.prems by (force simp: without_nodes_def fnode_ids_def)
  qed (use Cons.prems in simp)
  moreover have "without_nodes is ?g = without_nodes (i # is) g"
    by (simp add: without_nodes_def conj_comms)
  ultimately show ?case by (simp add: then_op_def del)
qed (simp add: without_nodes_def)

text \<open>The wires that go with the selected ones: those of the same output pin.\<close>

definition same_output :: "fbd_rf_edge \<Rightarrow> fbd_edge \<Rightarrow> bool" where
  "same_output e w \<longleftrightarrow> fsrc w = rfe_source e \<and> fsrcPort w = rfe_sourceHandle e"

lemma disconnect_one:
  assumes inv: "fbd_inv (g, k)" and w: "w \<in> set (fedges g)"
  shows "disconnectPin g (fsrc w) (fsrcPort w) k
    = (Inr (g\<lparr>fedges := filter (\<lambda>v. \<not> same_output (flow_of_edge w) v) (fedges g)\<rparr>), k)"
proof -
  note d = fbd_invD [OF inv]
  from d(5) [OF w] obtain n where n: "n \<in> set (fnodes g)" "fnid n = fsrc w" "fsrcPort w \<in> set (out_names n)"
    by (auto simp: wired_out_def)
  have "touches_pin (fsrc w) (fsrcPort w) v \<longleftrightarrow> same_output (flow_of_edge w) v" if v: "v \<in> set (fedges g)" for v
  proof -
    have "\<not> (ftgt v = fsrc w \<and> ftgtPort v = fsrcPort w)"
    proof
      assume a: "ftgt v = fsrc w \<and> ftgtPort v = fsrcPort w"
      from d(6) [OF v] obtain m where m: "m \<in> set (fnodes g)" "fnid m = ftgt v" "ftgtPort v \<in> set (in_names m)"
        by (auto simp: wired_in_def)
      have "fsrcPort w \<in> side_inputs" using pin_sides(1) [OF d(4) [OF m(1)]] m(3) a by auto
      moreover have "fsrcPort w \<in> side_outputs" using pin_sides(2) [OF d(4) [OF n(1)]] n(3) by auto
      ultimately show False using sides_disjoint by blast
    qed
    then show ?thesis by (auto simp: touches_pin_def same_output_def)
  qed
  then have "filter (\<lambda>v. \<not> touches_pin (fsrc w) (fsrcPort w) v) (fedges g)
      = filter (\<lambda>v. \<not> same_output (flow_of_edge w) v) (fedges g)" by (intro filter_cong) auto
  moreover have "fbd_findNode g (fsrc w) \<noteq> None"
    using n by (auto simp: fbd_findNode_def find_None_iff)
  ultimately show ?thesis by (simp add: disconnectPin_def)
qed

definition wire_shown :: "fbd_graph \<Rightarrow> fbd_rf_edge \<Rightarrow> bool" where
  "wire_shown g e \<longleftrightarrow> (\<exists>w \<in> set (fedges g). feid w = rfe_id e)"

lemma disconnect_result:
  assumes "fbd_inv (g, k)" "\<And>e w. e \<in> set es \<Longrightarrow> w \<in> set (fedges g) \<Longrightarrow> feid w = rfe_id e \<Longrightarrow> e = flow_of_edge w"
  shows "disconnect_edges es g k = (Inr (g\<lparr>fedges := filter (\<lambda>v. \<not> (\<exists>e \<in> set es. wire_shown g e \<and> same_output e v)) (fedges g)\<rparr>), k)"
  using assms
proof (induction es arbitrary: g)
  case (Cons e es)
  show ?case
  proof (cases "wire_shown g e")
    case False
    then have "disconnect_edges (e # es) g k = disconnect_edges es g k" by (auto simp: wire_shown_def)
    with False Cons.IH [OF Cons.prems(1)] Cons.prems(2) show ?thesis by simp
  next
    case True
    then obtain w where w: "w \<in> set (fedges g)" "feid w = rfe_id e" by (auto simp: wire_shown_def)
    with Cons.prems(2) have e: "e = flow_of_edge w" by simp
    let ?g = "g\<lparr>fedges := filter (\<lambda>v. \<not> same_output e v) (fedges g)\<rparr>"
    have one: "disconnectPin g (rfe_source e) (rfe_sourceHandle e) k = (Inr ?g, k)"
      using disconnect_one [OF Cons.prems(1) w(1)] by (simp add: e)
    have "disconnect_edges es ?g k
        = (Inr (?g\<lparr>fedges := filter (\<lambda>v. \<not> (\<exists>e \<in> set es. wire_shown ?g e \<and> same_output e v)) (fedges ?g)\<rparr>), k)"
    proof (rule Cons.IH)
      show "fbd_inv (?g, k)" using disconnectPin_inv [OF Cons.prems(1) one] .
    qed (use Cons.prems(2) in auto)
    moreover have "\<not> same_output e v \<and> \<not> (\<exists>e \<in> set es. wire_shown ?g e \<and> same_output e v)
        \<longleftrightarrow> \<not> (\<exists>e \<in> set (e # es). wire_shown g e \<and> same_output e v)" if "v \<in> set (fedges g)" for v
    proof -
      have "wire_shown ?g d \<or> same_output e v" if d: "d \<in> set es" "wire_shown g d" "same_output d v" for d
      proof -
        from d(2) obtain u where u: "u \<in> set (fedges g)" "feid u = rfe_id d" by (auto simp: wire_shown_def)
        then have "d = flow_of_edge u" using Cons.prems(2) d(1) by simp
        with u d(3) show ?thesis by (auto simp: wire_shown_def same_output_def)
      qed
      moreover have "wire_shown ?g d \<Longrightarrow> wire_shown g d" for d by (auto simp: wire_shown_def)
      ultimately show ?thesis using True by auto
    qed
    then have "filter (\<lambda>v. \<not> same_output e v \<and> \<not> (\<exists>e \<in> set es. wire_shown ?g e \<and> same_output e v)) (fedges g)
        = filter (\<lambda>v. \<not> (\<exists>e \<in> set (e # es). wire_shown g e \<and> same_output e v)) (fedges g)"
      by (intro filter_cong) auto
    moreover have "disconnect_edges (e # es) g k = disconnect_edges es ?g k"
      using True by (simp add: wire_shown_def then_op_def one)
    ultimately show ?thesis by simp
  qed
qed simp

lemma fbd_tryApply_returns:
  assumes "fbd_canvas_ok c" "m (fc_graph c) (fc_gen c) = (Inr g', k')" "safe_diagram m"
  shows "\<exists>st'. fbd_tryApply m c = c\<lparr>fc_state := st', fc_gen := k', fc_graph := g', fc_status := []\<rparr>"
  using fbd_ui.kept_app_returns [OF assms(1) [unfolded fbd_canvas_ok_def] assms(2,3)]
  by (auto simp: fbd_tryApply_def)

text \<open>
  C28: deleting a selection never fails. It removes the selected nodes and their wires, but of the selected
  wires between remaining nodes it removes more than was selected: all wires of the same output
  pin, because a wire is deleted by disconnecting its source pin.
\<close>

theorem fbd_delete_exact:
  assumes c: "fbd_canvas_ok c" and ns: "distinct ns" "set ns \<subseteq> set (map fnid (fnodes (fc_graph c)))"
    and es: "set es \<subseteq> set (snd (fbd_graphToFlow (fc_graph c)))"
  shows "fc_status (fbd_onDelete ns es c) = []
    \<and> fc_graph (fbd_onDelete ns es c) = (fc_graph c)\<lparr>
        fnodes := filter (\<lambda>n. fnid n \<notin> set ns) (fnodes (fc_graph c)),
        fedges := filter (\<lambda>w. fsrc w \<notin> set ns \<and> ftgt w \<notin> set ns
          \<and> \<not> (\<exists>e \<in> set es. rfe_source e \<notin> set ns \<and> rfe_target e \<notin> set ns
                \<and> rfe_source e = fsrc w \<and> rfe_sourceHandle e = fsrcPort w)) (fedges (fc_graph c))\<rparr>"
proof -
  let ?g = "fc_graph c" and ?k = "fc_gen c"
  have inv: "fbd_inv (?g, ?k)" using fbd_canvas_okD(1) [OF c] by (simp add: diagram_ok_def)
  note d = fbd_invD [OF inv]
  let ?h = "without_nodes ns ?g"
  have del: "fbd_delete_nodes ns ?g ?k = (Inr ?h, ?k)"
    using delete_nodes_result ns by (simp add: fnode_ids_def)
  have inv': "fbd_inv (?h, ?k)"
    unfolding without_nodes_def by (rule shrink_inv [OF inv]) auto
  have from_g: "\<exists>w \<in> set (fedges ?g). e = flow_of_edge w" if "e \<in> set es" for e
    using es that by (auto simp: fbd_graphToFlow_def)
  have same: "v = w" if "v \<in> set (fedges ?g)" "w \<in> set (fedges ?g)" "feid v = feid w" for v w
    using d(2) that by (auto simp: fedge_ids_def distinct_map dest: inj_onD)
  have "disconnect_edges es ?h ?k = (Inr (?h\<lparr>fedges := filter (\<lambda>v. \<not> (\<exists>e \<in> set es. wire_shown ?h e \<and> same_output e v)) (fedges ?h)\<rparr>), ?k)"
  proof (rule disconnect_result [OF inv'])
    fix e w assume e: "e \<in> set es" and w: "w \<in> set (fedges ?h)" "feid w = rfe_id e"
    from from_g [OF e] same [of w] w show "e = flow_of_edge w" by (auto simp: without_nodes_def)
  qed
  moreover have "wire_shown ?h e \<longleftrightarrow> rfe_source e \<notin> set ns \<and> rfe_target e \<notin> set ns" if e: "e \<in> set es" for e
  proof -
    obtain w where w: "w \<in> set (fedges ?g)" "e = flow_of_edge w" using from_g [OF e] by blast
    then show ?thesis using same [OF _ w(1)] by (auto simp: wire_shown_def without_nodes_def)
  qed
  then have "filter (\<lambda>v. \<not> (\<exists>e \<in> set es. wire_shown ?h e \<and> same_output e v)) (fedges ?h)
    = filter (\<lambda>w. fsrc w \<notin> set ns \<and> ftgt w \<notin> set ns \<and> \<not> (\<exists>e \<in> set es. rfe_source e \<notin> set ns \<and> rfe_target e \<notin> set ns
        \<and> rfe_source e = fsrc w \<and> rfe_sourceHandle e = fsrcPort w)) (fedges ?g)"
    by (auto simp: without_nodes_def same_output_def intro!: filter_cong)
  ultimately have "delete_mutation ns es ?g ?k = (Inr (?g\<lparr>
        fnodes := filter (\<lambda>n. fnid n \<notin> set ns) (fnodes ?g),
        fedges := filter (\<lambda>w. fsrc w \<notin> set ns \<and> ftgt w \<notin> set ns
          \<and> \<not> (\<exists>e \<in> set es. rfe_source e \<notin> set ns \<and> rfe_target e \<notin> set ns
                \<and> rfe_source e = fsrc w \<and> rfe_sourceHandle e = fsrcPort w)) (fedges ?g)\<rparr>), ?k)"
    by (simp add: delete_mutation_def then_op_def del) (simp add: without_nodes_def)
  from fbd_tryApply_returns [where m = "delete_mutation ns es", OF c this fbd_ui.selection_good] show ?thesis
    by (auto simp: fbd_onDelete_def)
qed

lemma fdemo_fan_open: "fbd_canvas_ok (open_fbd_canvas fdemo_fan 0)" "fc_graph (open_fbd_canvas fdemo_fan 0) = fdemo_fan"
proof -
  have "on_grid fdemo_fan" by (simp add: on_grid_def fdemo_gate_def)
  with fdemo_invs(2) show "fbd_canvas_ok (open_fbd_canvas fdemo_fan 0)"
    by (intro open_fbd_canvas_ok) (simp add: diagram_ok_def)
qed (simp add: open_fbd_canvas_def split: prod.split)

text \<open>Deleting one of the two wires of the gate deletes both.\<close>

lemma fbd_delete_exact_witness:
  "fedges (fc_graph (fbd_onDelete [] [flow_of_edge (fdemo_wire ''w1'' ''a'' ''n'' ''IN'')] (open_fbd_canvas fdemo_fan 0))) = []"
  using fbd_delete_exact [OF fdemo_fan_open(1), of "[]" "[flow_of_edge (fdemo_wire ''w1'' ''a'' ''n'' ''IN'')]"]
  by (simp add: fdemo_fan_open(2) fbd_graphToFlow_def)

subsection \<open>Opening a saved diagram in a new session\<close>

text \<open>What holds of the undo state of any canvas, well-formed or not.\<close>

interpretation fbd_any: undo_session fbd_rep fbd_state_graph fbd_applyOperation fbd_undo fbd_redo fbd_markClean
    "MutationError :: fbd_error \<Rightarrow> fbd_error state_error" "\<lambda>_. True" "\<lambda>_ _. True"
  by unfold_locales
    (auto simp: fbd_rep_graph fbd_rep_throw fbd_rep_undo fbd_rep_redo intro: fbd_rep_apply,
     simp add: fbd_rep_def fbd_markClean_def tl_clean_def)

definition place_gate :: "gate_type \<Rightarrow> point \<Rightarrow> fbd_event list" where
  "place_gate t p = [FPickTool (GateTool t), FPaneClick p]"

definition canvas_live :: "fbd_canvas \<Rightarrow> bool" where
  "canvas_live c \<longleftrightarrow> kept fbd_rep (\<lambda>_. True) (fc_state c) (fc_gen c) (fc_graph c) \<and> fc_tool c = None"

lemma open_live:
  "canvas_live (open_fbd_canvas g k)" "fc_gen (open_fbd_canvas g k) = k" "fc_graph (open_fbd_canvas g k) = g"
proof -
  obtain st k' where new: "fbd_new_state (Some g) k = (st, k')" by (rule prod.exhaust)
  from fbd_new_state_rep [OF new] show
    "canvas_live (open_fbd_canvas g k)" "fc_gen (open_fbd_canvas g k) = k" "fc_graph (open_fbd_canvas g k) = g"
    by (auto simp: canvas_live_def open_fbd_canvas_def new intro: fbd_any.kept_start)
qed

lemma fbd_canvas_run_append: "fbd_canvas_run (es @ fs) c = fbd_canvas_run fs (fbd_canvas_run es c)"
  by (simp add: fbd_canvas_run_def)

lemma place_gate_run:
  assumes "canvas_live c"
  shows "canvas_live (fbd_canvas_run (place_gate t p) c)"
    "fc_gen (fbd_canvas_run (place_gate t p) c) = Suc (fc_gen c)"
    "map fnid (fnodes (fc_graph (fbd_canvas_run (place_gate t p) c)))
       = map fnid (fnodes (fc_graph c)) @ [fbd_mk_id ''gate'' (Suc (fc_gen c))]"
proof -
  let ?c = "c\<lparr>fc_tool := Some (GateTool t)\<rparr>"
  have run: "fbd_canvas_run (place_gate t p) c = (fbd_tryApply (create_mutation (GateTool t) p) ?c)\<lparr>fc_tool := None\<rparr>"
    using assms by (simp add: fbd_canvas_run_def place_gate_def onPaneClick_def createWithTool_def canvas_live_def)
  obtain g' where g': "create_mutation (GateTool t) p (fc_graph ?c) (fc_gen ?c) = (Inr g', Suc (fc_gen c))"
    "map fnid (fnodes g') = map fnid (fnodes (fc_graph c)) @ [fbd_mk_id ''gate'' (Suc (fc_gen c))]"
    by (simp add: create_mutation_def createGate_def fbd_createGate_def fbd_generateId_def Let_def)
  have "kept fbd_rep (\<lambda>_. True) (fc_state ?c) (fc_gen ?c) (fc_graph ?c)" using assms by (simp add: canvas_live_def)
  from fbd_any.kept_app_returns [where m = "create_mutation (GateTool t) p", OF this g'(1)] obtain st' where
    st': "fbd_applyOperation (create_mutation (GateTool t) p) (fc_state ?c) (fc_gen ?c) = ((Inr g', st', Suc (fc_gen c)) :: (fbd_error state_error + fbd_graph) \<times> _)"
    "kept fbd_rep (\<lambda>_. True) st' (Suc (fc_gen c)) g'"
    by (auto simp: safe_for_def)
  with g' show "canvas_live (fbd_canvas_run (place_gate t p) c)"
    "fc_gen (fbd_canvas_run (place_gate t p) c) = Suc (fc_gen c)"
    "map fnid (fnodes (fc_graph (fbd_canvas_run (place_gate t p) c)))
       = map fnid (fnodes (fc_graph c)) @ [fbd_mk_id ''gate'' (Suc (fc_gen c))]"
    by (simp_all add: run fbd_tryApply_def canvas_live_def)
qed

lemma place_gates_run:
  assumes "canvas_live c"
  shows "canvas_live (fbd_canvas_run (concat (replicate m (place_gate t p))) c)
    \<and> map fnid (fnodes (fc_graph (fbd_canvas_run (concat (replicate m (place_gate t p))) c)))
      = map fnid (fnodes (fc_graph c)) @ map (\<lambda>j. fbd_mk_id ''gate'' (Suc (fc_gen c + j))) [0..<m]"
  using assms
proof (induction m arbitrary: c)
  case (Suc m)
  note one = place_gate_run [OF Suc.prems, of t p]
  have "map (\<lambda>j. fbd_mk_id ''gate'' (Suc (fc_gen c + j))) [0..<Suc m]
      = fbd_mk_id ''gate'' (Suc (fc_gen c)) # map (\<lambda>j. fbd_mk_id ''gate'' (Suc (Suc (fc_gen c) + j))) [0..<m]"
    by (simp add: map_upt_Suc del: upt_Suc)
  with Suc.IH [OF one(1)] one(2,3) show ?case by (simp add: fbd_canvas_run_append del: upt_Suc)
qed (simp add: fbd_canvas_run_def)

lemma saved_reopened:
  assumes c: "fbd_canvas_ok (fw_canvas w)" and idle: "fw_saving w = []"
  shows "open_fbd_widget (fw_file (fbd_widget_run [FSaveBegin, FSaveEnd] w)) k = Some
    \<lparr>fw_canvas = open_fbd_canvas (fc_graph (fw_canvas w)) k, fw_file = FbdJson (fbd_toJSON (fc_graph (fw_canvas w))),
     fw_saving = [], fw_loadError = False\<rparr>"
  using fbd_canvas_okD(2) [OF c, where 'e = fbd_error] idle
  by (simp add: fbd_widget_run_def fbd_save_begin_def fbd_save_end_def open_fbd_widget_def
      fbd_parseInitialGraph_def fbd_view_toJSON Let_def)

text \<open>
  C35: saving and opening gives the same diagram back, but in a new session the id counter
  starts at 0 again: if the diagram has the gate with id number m, placing m gates gives a diagram
  with two nodes of that id.
\<close>

theorem fbd_reopen_duplicates:
  assumes "fbd_canvas_ok (fw_canvas w)" "fw_saving w = []"
    and old: "fbd_mk_id ''gate'' (Suc m) \<in> set (map fnid (fnodes (fc_graph (fw_canvas w))))"
  shows "\<exists>w'. open_fbd_widget (fw_file (fbd_widget_run [FSaveBegin, FSaveEnd] w)) 0 = Some w'
    \<and> fc_graph (fw_canvas w') = fc_graph (fw_canvas w)
    \<and> \<not> distinct (map fnid (fnodes (fc_graph (fbd_canvas_run (concat (replicate (Suc m) (place_gate t p))) (fw_canvas w')))))"
proof -
  let ?g = "fc_graph (fw_canvas w)"
  have "\<not> distinct (map fnid (fnodes (fc_graph (fbd_canvas_run (concat (replicate (Suc m) (place_gate t p))) (open_fbd_canvas ?g 0)))))"
    using place_gates_run [where m = "Suc m" and t = t and p = p, OF open_live(1) [of ?g 0]] old by (auto simp: open_live)
  with saved_reopened [OF assms(1,2), of 0] show ?thesis by (simp add: open_live)
qed

lemma fbd_reopen_duplicates_witness:
  "\<exists>w w'. open_fbd_widget FbdBlank 0 = Some w
    \<and> open_fbd_widget (fw_file (fbd_widget_run (map FEdit (place_gate AND_gate origin) @ [FSaveBegin, FSaveEnd]) w)) 0 = Some w'
    \<and> \<not> distinct (map fnid (fnodes (fc_graph (fbd_canvas_run (concat (replicate 2 (place_gate OR_gate origin))) (fw_canvas w')))))"
proof -
  let ?g = "\<lparr>fgid = fbd_mk_id ''fbdgraph'' 1, fnodes = [], fedges = []\<rparr>"
  let ?w = "\<lparr>fw_canvas = open_fbd_canvas ?g 1, fw_file = FbdBlank, fw_saving = [], fw_loadError = False\<rparr>"
  have w: "open_fbd_widget FbdBlank 0 = Some ?w"
    by (simp add: open_fbd_widget_def fbd_parseInitialGraph_def createFbdGraph_def fbd_generateId_def)
  have "createFbdGraph None 0 = (?g, 1)"
    by (simp add: createFbdGraph_def fbd_generateId_def)
  from createFbdGraph_inv [OF this] have ok: "fbd_canvas_ok (open_fbd_canvas ?g 1)"
    by (intro open_fbd_canvas_ok) (simp add: diagram_ok_def on_grid_def)
  let ?c = "fbd_canvas_run (place_gate AND_gate origin) (open_fbd_canvas ?g 1)"
  have c: "fbd_canvas_ok ?c" by (rule fbd_canvas_run_ok) (rule ok)
  have ids: "fbd_mk_id ''gate'' (Suc 1) \<in> set (map fnid (fnodes (fc_graph ?c)))"
    using place_gate_run(3) [where t = AND_gate and p = origin, OF open_live(1) [of ?g 1]] by (simp add: open_live(2))
  let ?w1 = "?w\<lparr>fw_canvas := ?c\<rparr>"
  have "fbd_widget_run (map FEdit (place_gate AND_gate origin) @ [FSaveBegin, FSaveEnd]) ?w
      = fbd_widget_run [FSaveBegin, FSaveEnd] ?w1"
    by (simp add: fbd_widget_run_def place_gate_def fbd_canvas_run_def)
  with fbd_reopen_duplicates [of ?w1 1 OR_gate origin] c ids w show ?thesis
    by (auto simp: numeral_2_eq_2)
qed

end
