(* ===== verification/Signals.thy ===== *)
theory Signals
  imports JsPrelude "HOL-Library.Sorting_Algorithms"
begin

text \<open>
  The signal browser (weftik-core/src/browser/signal-browser): the tree of signals by name space
  (signal-tree-model.ts), its filter, whose pattern becomes a regular expression, and the panel
  (signal-browser-widget.tsx), which polls the bridge. \<open>localeCompare\<close> is a comparator, as in LdQueries. Names
  are ASCII. The interval timers of the browser are shared with the scope.
\<close>

subsection \<open>Interval timers\<close>

text \<open>\<open>setInterval\<close> returns a positive number that no timer had before.\<close>

record timers =
  next_timer :: nat
  live_timers :: "nat list"

definition no_timers :: timers where
  "no_timers = \<lparr>next_timer = 1, live_timers = []\<rparr>"

definition setInterval :: "timers \<Rightarrow> nat \<times> timers" where
  "setInterval ts = (next_timer ts, ts\<lparr>next_timer := next_timer ts + 1, live_timers := next_timer ts # live_timers ts\<rparr>)"

definition clearInterval :: "nat \<Rightarrow> timers \<Rightarrow> timers" where
  "clearInterval i ts = ts\<lparr>live_timers := filter (\<lambda>j. j \<noteq> i) (live_timers ts)\<rparr>"

text \<open>The panel polls, it has a timer, and this is the only one that runs.\<close>

definition one_timer :: "bool \<Rightarrow> nat option \<Rightarrow> timers \<Rightarrow> bool" where
  "one_timer polling timer ts \<longleftrightarrow> 0 < next_timer ts \<and> polling = (timer \<noteq> None)
     \<and> live_timers ts = (case timer of None \<Rightarrow> [] | Some i \<Rightarrow> [i]) \<and> timer \<noteq> Some 0"

definition stop_timer :: "nat option \<Rightarrow> timers \<Rightarrow> timers" where
  "stop_timer timer ts = (case timer of None \<Rightarrow> ts | Some i \<Rightarrow> if i = 0 then ts else clearInterval i ts)"

lemma one_timer_start:
  "one_timer False timer ts \<Longrightarrow> setInterval ts = (i, ts') \<Longrightarrow> one_timer True (Some i) ts'"
  by (auto simp: one_timer_def setInterval_def)

lemma one_timer_stop: "one_timer polling timer ts \<Longrightarrow> one_timer False None (stop_timer timer ts)"
  by (auto simp: one_timer_def stop_timer_def clearInterval_def split: option.splits)

lemma one_timer_none: "one_timer False None no_timers"
  by (simp add: one_timer_def no_timers_def)

text \<open>A panel that polls: an invariant every event keeps and that covers its timer.\<close>

locale polling_panel =
  fixes step :: "'e \<Rightarrow> 's \<Rightarrow> 's"
    and good :: "'s \<Rightarrow> bool"
    and polling :: "'s \<Rightarrow> bool"
    and timer :: "'s \<Rightarrow> nat option"
    and timers :: "'s \<Rightarrow> timers"
  assumes step_good: "good s \<Longrightarrow> good (step e s)"
    and good_timer: "good s \<Longrightarrow> one_timer (polling s) (timer s) (timers s)"
begin

lemma run_good: "good s \<Longrightarrow> good (fold step es s)"
  by (induction es arbitrary: s) (simp_all add: step_good)

lemma run_timers:
  "good s \<Longrightarrow> live_timers (timers (fold step es s)) = (case timer (fold step es s) of None \<Rightarrow> [] | Some i \<Rightarrow> [i])
     \<and> polling (fold step es s) = (timer (fold step es s) \<noteq> None)"
  using good_timer [OF run_good] by (simp add: one_timer_def)

end

subsection \<open>The tree\<close>

record signal_entry =
  sig_name :: string
  sig_value :: string

record signal_group =
  gr_namespace :: string
  gr_signals :: "signal_entry list"
  gr_expanded :: bool

definition namespace_of :: "string \<Rightarrow> string" where
  "namespace_of name = (case indexOf name (CHR ''.'') of
     None \<Rightarrow> ''ungrouped'' | Some dot \<Rightarrow> if 0 < dot then take dot name else ''ungrouped'')"

definition group_map :: "signal_entry list \<Rightarrow> (string, signal_entry list) jsmap" where
  "group_map signals = fold (\<lambda>s m. let ns = namespace_of (sig_name s) in
     js_set ns ((case map_of m ns of None \<Rightarrow> [] | Some arr \<Rightarrow> arr) @ [s]) m) signals []"

definition prev_expanded :: "signal_group list \<Rightarrow> string list" where
  "prev_expanded groups = map gr_namespace (filter gr_expanded groups)"

definition tree_update ::
  "string comparator \<Rightarrow> signal_entry list \<Rightarrow> string list option \<Rightarrow> signal_group list \<Rightarrow> signal_group list" where
  "tree_update localeCompare signals expandedNamespaces groups =
     (let fresh = map_index (\<lambda>i (ns, sigs). \<lparr>gr_namespace = ns,
            gr_signals = Sorting_Algorithms.sort (key sig_name localeCompare) sigs,
            gr_expanded = (case expandedNamespaces of
                Some shown \<Rightarrow> ns \<in> set shown
              | None \<Rightarrow> ns \<in> set (prev_expanded groups) \<or> i = 0)\<rparr>) (group_map signals)
      in Sorting_Algorithms.sort (key gr_namespace localeCompare) fresh)"

definition tree_toggle :: "string \<Rightarrow> signal_group list \<Rightarrow> bool \<times> signal_group list" where
  "tree_toggle ns groups = (case findIndex (\<lambda>g. gr_namespace g = ns) groups of
     None \<Rightarrow> (False, groups)
   | Some i \<Rightarrow> (\<not> gr_expanded (groups ! i), groups[i := (groups ! i)\<lparr>gr_expanded := \<not> gr_expanded (groups ! i)\<rparr>]))"

subsection \<open>The filter\<close>

definition glob_special :: "char \<Rightarrow> bool" where
  "glob_special c \<longleftrightarrow> c \<in> set ''.+^${}()|[]'' \<or> c = CHR 0x5C"

definition escape_regex :: "string \<Rightarrow> string" where
  "escape_regex p = concat (map (\<lambda>c. if glob_special c then [CHR 0x5C, c] else [c]) p)"

definition glob_to_regex :: "string \<Rightarrow> string" where
  "glob_to_regex p =
     (let escaped = escape_regex p;
          stars = concat (map (\<lambda>c. if c = CHR ''*'' then ''.*'' else [c]) escaped);
          marks = concat (map (\<lambda>c. if c = CHR ''?'' then ''.'' else [c]) stars)
      in ''^'' @ marks @ ''$'')"

text \<open>
  The regular expressions that arise: between \<open>^\<close> and \<open>$\<close>, characters, escaped characters
  and dots, each with or without a star. \<open>None\<close> is an expression outside this fragment.
\<close>

datatype rx_atom = RxChar char | RxAny

fun rx_item :: "rx_atom \<Rightarrow> string \<Rightarrow> (rx_atom \<times> bool) \<times> string" where
  "rx_item a (c # s) = (if c = CHR ''*'' then ((a, True), s) else ((a, False), c # s))"
| "rx_item a [] = ((a, False), [])"

lemma rx_item_length: "rx_item a s = (it, r) \<Longrightarrow> length r \<le> length s"
  by (cases s) (auto split: if_splits)

function rx_parse :: "string \<Rightarrow> (rx_atom \<times> bool) list option" where
  "rx_parse [] = None"
| "rx_parse [c] = (if c = CHR ''$'' then Some [] else None)"
| "rx_parse (c # d # s) =
     (if c = CHR 0x5C then (case rx_item (RxChar d) s of (it, r) \<Rightarrow> map_option (Cons it) (rx_parse r))
      else if c = CHR ''.'' then (case rx_item RxAny (d # s) of (it, r) \<Rightarrow> map_option (Cons it) (rx_parse r))
      else if glob_special c \<or> c = CHR ''*'' \<or> c = CHR ''?'' then None
      else (case rx_item (RxChar c) (d # s) of (it, r) \<Rightarrow> map_option (Cons it) (rx_parse r)))"
  by pat_completeness auto

termination rx_parse
  by (relation "measure length")
    (auto simp del: rx_item.simps dest!: rx_item_length [OF sym])

definition line_break :: "char \<Rightarrow> bool" where
  "line_break c \<longleftrightarrow> c = CHR 0x0A \<or> c = CHR 0x0D"

text \<open>The flag \<open>i\<close> compares upper-cased characters.\<close>

fun rx_atom_ok :: "rx_atom \<Rightarrow> char \<Rightarrow> bool" where
  "rx_atom_ok (RxChar d) c = (upper_char c = upper_char d)"
| "rx_atom_ok RxAny c = (\<not> line_break c)"

fun rx_match :: "(rx_atom \<times> bool) list \<Rightarrow> string \<Rightarrow> bool" where
  "rx_match [] s = (s = [])"
| "rx_match ((a, True) # its) s = (rx_match its s \<or> (case s of [] \<Rightarrow> False
     | c # cs \<Rightarrow> rx_atom_ok a c \<and> rx_match ((a, True) # its) cs))"
| "rx_match ((a, False) # its) s = (case s of [] \<Rightarrow> False | c # cs \<Rightarrow> rx_atom_ok a c \<and> rx_match its cs)"

definition rx_test :: "string \<Rightarrow> string \<Rightarrow> bool option" where
  "rx_test regex s = (case regex of
     c # r \<Rightarrow> if c = CHR ''^'' then map_option (\<lambda>its. rx_match its s) (rx_parse r) else None
   | [] \<Rightarrow> None)"

text \<open>An expression outside the fragment would give no result.\<close>

definition signal_filter :: "signal_entry list \<Rightarrow> string \<Rightarrow> signal_entry list option" where
  "signal_filter signals pattern =
     (if pattern = ''*'' \<or> pattern = [] then Some signals
      else (let regex = glob_to_regex pattern in
        if list_all (\<lambda>s. rx_test regex (sig_name s) \<noteq> None) signals
        then Some (filter (\<lambda>s. rx_test regex (sig_name s) = Some True) signals) else None))"

subsection \<open>The panel\<close>

text \<open>
  \<open>update()\<close> schedules a render, which rebuilds the tree from the signals and the pattern; rendering
  twice is rendering once. Requests to the bridge are answered in any order.
\<close>

record signal_browser =
  br_bridge :: bool
  br_groups :: "signal_group list"
  br_signals :: "signal_entry list"
  br_pattern :: string
  br_polling :: bool
  br_timer :: "nat option"
  br_timers :: timers
  br_count :: nat
  br_error :: "string option"
  br_requests :: "string list" \<comment> \<open>patterns of the requests in flight\<close>

definition new_browser :: "bool \<Rightarrow> signal_browser" where
  "new_browser bridge = \<lparr>br_bridge = bridge, br_groups = [], br_signals = [], br_pattern = ''*'', br_polling = False,
     br_timer = None, br_timers = no_timers, br_count = 0, br_error = None, br_requests = []\<rparr>"

definition br_render :: "string comparator \<Rightarrow> signal_browser \<Rightarrow> signal_browser" where
  "br_render cmp b = (case signal_filter (br_signals b) (br_pattern b) of
     None \<Rightarrow> b | Some fs \<Rightarrow> b\<lparr>br_groups := tree_update cmp fs None (br_groups b)\<rparr>)"

definition fetchSignals :: "signal_browser \<Rightarrow> signal_browser" where
  "fetchSignals b = (if br_bridge b then b\<lparr>br_requests := br_requests b @ [br_pattern b]\<rparr> else b)"

definition unreachable_msg :: string where
  "unreachable_msg = ''Controller unreachable. Check connection.''"

definition br_reply :: "string comparator \<Rightarrow> nat \<Rightarrow> signal_entry list option \<Rightarrow> signal_browser \<Rightarrow> signal_browser" where
  "br_reply cmp k answer b =
     (if k < length (br_requests b) then
        (let b1 = b\<lparr>br_requests := splice_remove k (br_requests b)\<rparr>
         in case answer of
              Some sigs \<Rightarrow> br_render cmp (b1\<lparr>br_signals := sigs, br_count := br_count b1 + 1, br_error := None\<rparr>)
            | None \<Rightarrow> if br_error b1 = None then br_render cmp (b1\<lparr>br_error := Some unreachable_msg\<rparr>) else b1)
      else b)"

definition startPolling :: "string comparator \<Rightarrow> signal_browser \<Rightarrow> signal_browser" where
  "startPolling cmp b =
     (if br_polling b then b
      else (let b1 = fetchSignals (br_render cmp (b\<lparr>br_polling := True\<rparr>));
                (i, ts) = setInterval (br_timers b1)
            in b1\<lparr>br_timer := Some i, br_timers := ts\<rparr>))"

definition stopPolling :: "string comparator \<Rightarrow> signal_browser \<Rightarrow> signal_browser" where
  "stopPolling cmp b = (let b1 = br_render cmp (b\<lparr>br_polling := False\<rparr>)
     in b1\<lparr>br_timers := stop_timer (br_timer b1) (br_timers b1),
          br_timer := (if br_timer b1 = Some 0 then Some 0 else None)\<rparr>)"

definition toggleGroup :: "string comparator \<Rightarrow> string \<Rightarrow> signal_browser \<Rightarrow> signal_browser" where
  "toggleGroup cmp ns b = br_render cmp (b\<lparr>br_groups := snd (tree_toggle ns (br_groups b))\<rparr>)"

datatype browser_event =
    BAttach
  | BDetach
  | BHide
  | BStart
  | BStop
  | BPattern string
  | BTick nat
  | BReply nat "signal_entry list option"
  | BToggle string

fun browser_step :: "string comparator \<Rightarrow> browser_event \<Rightarrow> signal_browser \<Rightarrow> signal_browser" where
  "browser_step cmp BAttach b = startPolling cmp b"
| "browser_step cmp BDetach b = stopPolling cmp b"
| "browser_step cmp BHide b = stopPolling cmp b"
| "browser_step cmp BStart b = startPolling cmp b"
| "browser_step cmp BStop b = stopPolling cmp b"
| "browser_step cmp (BPattern p) b = br_render cmp (b\<lparr>br_pattern := p\<rparr>)"
| "browser_step cmp (BTick i) b = (if i \<in> set (live_timers (br_timers b)) then fetchSignals b else b)"
| "browser_step cmp (BReply k answer) b = br_reply cmp k answer b"
| "browser_step cmp (BToggle ns) b = toggleGroup cmp ns b"

definition browser_run :: "string comparator \<Rightarrow> browser_event list \<Rightarrow> signal_browser \<Rightarrow> signal_browser" where
  "browser_run cmp es b = fold (browser_step cmp) es b"

subsection \<open>The reference for the filter\<close>

text \<open>
  What the pattern means: \<open>*\<close> stands for any text without a line break, \<open>?\<close> for one character,
  everything else for itself, upper or lower case.
\<close>

fun glob :: "string \<Rightarrow> string \<Rightarrow> bool" where
  "glob [] s = (s = [])"
| "glob (c # p) s =
     (if c = CHR ''*'' then list_ex (\<lambda>k. list_all (\<lambda>d. \<not> line_break d) (take k s) \<and> glob p (drop k s)) [0..<Suc (length s)]
      else if c = CHR ''?'' then s \<noteq> [] \<and> \<not> line_break (hd s) \<and> glob p (tl s)
      else s \<noteq> [] \<and> upper_char (hd s) = upper_char c \<and> glob p (tl s))"

fun glob_items :: "string \<Rightarrow> (rx_atom \<times> bool) list" where
  "glob_items [] = []"
| "glob_items (c # p) =
     (if c = CHR ''*'' then (RxAny, True) else if c = CHR ''?'' then (RxAny, False) else (RxChar c, False)) # glob_items p"

text \<open>The three replacements at once.\<close>

definition glob_char :: "char \<Rightarrow> string" where
  "glob_char c = (if c = CHR ''*'' then ''.*'' else if c = CHR ''?'' then ''.''
     else if glob_special c then [CHR 0x5C, c] else [c])"

lemma glob_special_simps [simp]:
  "\<not> glob_special (CHR ''*'')" "\<not> glob_special (CHR ''?'')" "glob_special (CHR ''.'')" "glob_special (CHR ''$'')"
  "glob_special (CHR 0x5C)"
  by (simp_all add: glob_special_def)

lemma not_special: "\<not> glob_special c \<Longrightarrow> c \<noteq> CHR 0x5C \<and> c \<noteq> CHR ''.''"
  by (auto simp: glob_special_def)

lemma glob_to_regex_chars: "glob_to_regex p = ''^'' @ concat (map glob_char p) @ ''$''"
proof -
  have "concat (map (\<lambda>c. if c = CHR ''?'' then ''.'' else [c])
      (concat (map (\<lambda>c. if c = CHR ''*'' then ''.*'' else [c]) (escape_regex p)))) = concat (map glob_char p)"
    by (induction p) (auto simp: escape_regex_def glob_char_def glob_special_def)
  then show ?thesis by (simp add: glob_to_regex_def)
qed

text \<open>No expression begins with a star, so a dot or a character before it is not starred.\<close>

lemma glob_text_hd: "\<exists>c r. concat (map glob_char p) @ ''$'' = c # r \<and> c \<noteq> CHR ''*''"
  by (cases p) (auto simp: glob_char_def glob_special_def)

lemma rx_parse_glob: "rx_parse (concat (map glob_char p) @ ''$'') = Some (glob_items p)"
proof (induction p)
  case (Cons c p)
  obtain d r where rest: "concat (map glob_char p) @ ''$'' = d # r" "d \<noteq> CHR ''*''" using glob_text_hd by blast
  have item: "rx_item a (d # r) = ((a, False), d # r)" "rx_item a (CHR ''*'' # d # r) = ((a, True), d # r)" for a
    using rest(2) by simp_all
  have IH: "rx_parse (d # r) = Some (glob_items p)" using Cons.IH rest(1) by simp
  have "rx_parse (glob_char c @ d # r) = Some (glob_items (c # p))"
    using not_special [of c] by (auto simp: glob_char_def item IH simp del: rx_item.simps)
  moreover have "concat (map glob_char (c # p)) @ ''$'' = glob_char c @ d # r" by (simp add: rest(1))
  ultimately show ?case by (simp only:)
qed simp

lemma ex_le_Suc: "(\<exists>k \<le> Suc n. P k) \<longleftrightarrow> P 0 \<or> (\<exists>k \<le> n. P (Suc k))"
  by (metis Suc_le_mono le0 not0_implies_Suc)

lemma rx_star: "rx_match ((RxAny, True) # its) s \<longleftrightarrow>
    (\<exists>k \<le> length s. list_all (\<lambda>d. \<not> line_break d) (take k s) \<and> rx_match its (drop k s))"
proof (induction s)
  case (Cons c s)
  then show ?case by (auto simp: ex_le_Suc)
qed simp

lemma list_ex_upt: "list_ex P [0..<Suc n] \<longleftrightarrow> (\<exists>k \<le> n. P k)"
  by (auto simp: list_ex_iff simp del: upt_Suc) (metis less_Suc_eq_le)

lemma rx_match_glob: "rx_match (glob_items p) s = glob p s"
proof (induction p arbitrary: s)
  case (Cons c p)
  show ?case
  proof (cases "c = CHR ''*''")
    case True
    then show ?thesis
      by (simp only: glob_items.simps glob.simps if_True rx_star list_ex_upt Cons.IH simp_thms)
  next
    case False
    then show ?thesis by (cases s) (simp_all add: Cons.IH)
  qed
qed simp

lemma rx_test_glob: "rx_test (glob_to_regex p) s = Some (glob p s)"
  by (simp add: rx_test_def glob_to_regex_chars rx_parse_glob rx_match_glob)

end
