(* ===== verification/Scope.thy ===== *)
theory Scope
  imports Signals
begin

text \<open>
  The scope (weftik-core/src/browser/scope-view): the buffer of samples (time-series-buffer.ts), the
  drawing surface without its pixels (scope-canvas.ts: the curves it strokes, pan and zoom, the CSV
  export) and the panel (scope-panel-widget.tsx), which polls the bridge. A number that is read
  from text or printed goes through a parameter: \<open>Number\<close> on a string (\<open>None\<close> is not finite), \<open>toString\<close> on a number.
\<close>

subsection \<open>The buffer\<close>

record data_point =
  dp_timestamp :: jsnum
  dp_values :: "(string, jsnum) jsmap"

record ts_buffer =
  ts_max :: nat
  ts_points :: "data_point list"
  ts_channels :: "string list"

definition new_buffer :: "nat \<Rightarrow> ts_buffer" where
  "new_buffer maxPoints = \<lparr>ts_max = maxPoints, ts_points = [], ts_channels = []\<rparr>"

definition ts_push :: "jsnum \<Rightarrow> (string, jsnum) jsmap \<Rightarrow> ts_buffer \<Rightarrow> ts_buffer" where
  "ts_push timestamp vals b =
     (let room = (if length (ts_points b) \<ge> ts_max b then tl (ts_points b) else ts_points b)
      in b\<lparr>ts_points := room @ [\<lparr>dp_timestamp = timestamp, dp_values = vals\<rparr>],
           ts_channels := fold js_add (map fst vals) (ts_channels b)\<rparr>)"

definition ts_clear :: "ts_buffer \<Rightarrow> ts_buffer" where
  "ts_clear b = b\<lparr>ts_points := []\<rparr>"

definition sample :: "string \<Rightarrow> data_point \<Rightarrow> jsnum" where
  "sample ch p = (case map_of (dp_values p) ch of None \<Rightarrow> 0 | Some v \<Rightarrow> v)"

definition getData :: "string \<Rightarrow> ts_buffer \<Rightarrow> jsnum list" where
  "getData ch b = map (sample ch) (ts_points b)"

definition getTimestamps :: "ts_buffer \<Rightarrow> jsnum list" where
  "getTimestamps b = map dp_timestamp (ts_points b)"

subsection \<open>Curves\<close>

type_synonym pos = "jsnum \<times> jsnum"

record view_transform =
  offsetX :: jsnum
  offsetY :: jsnum
  scaleX :: jsnum
  scaleY :: jsnum

definition default_view :: view_transform where
  "default_view = \<lparr>offsetX = 0, offsetY = 0, scaleX = 1, scaleY = 1\<rparr>"

record scope_canvas =
  sc_active :: "string list"
  sc_buffer :: ts_buffer
  sc_window :: jsnum
  sc_view :: view_transform
  sc_drag :: "(pos \<times> pos) option" \<comment> \<open>pointer and offsets when the drag began\<close>

definition padL :: jsnum where "padL = 50"
definition padR :: jsnum where "padR = 12"
definition padT :: jsnum where "padT = 12"
definition padB :: jsnum where "padB = 24"

definition set_timeWindowSec :: "jsnum \<Rightarrow> scope_canvas \<Rightarrow> scope_canvas" where
  "set_timeWindowSec v c = c\<lparr>sc_window := max 1 v\<rparr>"

definition new_scope_canvas :: scope_canvas where
  "new_scope_canvas = \<lparr>sc_active = [], sc_buffer = new_buffer 1000, sc_window = 10, sc_view = default_view, sc_drag = None\<rparr>"

text \<open>The samples a curve is made of: those not before the visible range.\<close>

definition visible :: "scope_canvas \<Rightarrow> data_point list" where
  "visible c = (let ts = getTimestamps (sc_buffer c); rangeStart = last ts - sc_window c * 1000
     in filter (\<lambda>p. \<not> dp_timestamp p < rangeStart) (ts_points (sc_buffer c)))"

text \<open>\<open>yMin\<close> and \<open>yMax\<close> with a tenth of the span, or 1, on either side; \<open>Infinity\<close> is the empty list.\<close>

definition y_range :: "jsnum list \<Rightarrow> jsnum \<times> jsnum" where
  "y_range vs = (case vs of
     [] \<Rightarrow> (0 - 1 / 10, 1 + 1 / 10)
   | v # ws \<Rightarrow> (let lo = fold min ws v; hi = fold max ws v;
         pad = (if (hi - lo) / 10 = 0 then 1 else (hi - lo) / 10)
       in (lo - pad, hi + pad)))"

definition timeToX :: "scope_canvas \<Rightarrow> jsnum \<Rightarrow> jsnum \<Rightarrow> jsnum" where
  "timeToX c plotW t =
     (let rangeStart = last (getTimestamps (sc_buffer c)) - sc_window c * 1000;
          ratio = (t - rangeStart) / (sc_window c * 1000)
      in padL + (ratio * scaleX (sc_view c) + offsetX (sc_view c)) * plotW)"

definition valToY :: "scope_canvas \<Rightarrow> jsnum \<times> jsnum \<Rightarrow> jsnum \<Rightarrow> jsnum \<Rightarrow> jsnum" where
  "valToY c yr plotH v =
     (let ratio = (v - fst yr) / (snd yr - fst yr)
      in padT + (1 - ratio * scaleY (sc_view c) + offsetY (sc_view c)) * plotH)"

definition curve :: "scope_canvas \<Rightarrow> jsnum \<Rightarrow> jsnum \<Rightarrow> string \<Rightarrow> pos list" where
  "curve c plotW plotH ch =
     (let yr = y_range (map (sample ch) (visible c))
      in map (\<lambda>p. (timeToX c plotW (dp_timestamp p), valToY c yr plotH (sample ch p))) (visible c))"

text \<open>The curves \<open>draw\<close> strokes on a surface of the given size, with their channels.\<close>

definition draw_curves :: "jsnum \<Rightarrow> jsnum \<Rightarrow> scope_canvas \<Rightarrow> (string \<times> pos list) list" where
  "draw_curves w h c =
     (let plotW = w - padL - padR; plotH = h - padT - padB in
      if plotW \<le> 0 \<or> plotH \<le> 0 then []
      else if length (ts_points (sc_buffer c)) < 2 \<or> sc_active c = [] then []
      else map (\<lambda>ch. (ch, curve c plotW plotH ch)) (sc_active c))"

subsection \<open>Pan and zoom\<close>

definition clamp_scale :: "jsnum \<Rightarrow> jsnum" where
  "clamp_scale s = max (1 / 2) (min 10 s)"

definition onWheel :: "jsnum \<Rightarrow> scope_canvas \<Rightarrow> scope_canvas" where
  "onWheel deltaY c = (let zoom = (if deltaY < 0 then 11 / 10 else 9 / 10); v = sc_view c
     in c\<lparr>sc_view := v\<lparr>scaleX := clamp_scale (scaleX v * zoom), scaleY := clamp_scale (scaleY v * zoom)\<rparr>\<rparr>)"

definition onMouseDown :: "pos \<Rightarrow> scope_canvas \<Rightarrow> scope_canvas" where
  "onMouseDown p c = c\<lparr>sc_drag := Some (p, offsetX (sc_view c), offsetY (sc_view c))\<rparr>"

definition onMouseMove :: "jsnum \<Rightarrow> jsnum \<Rightarrow> pos \<Rightarrow> scope_canvas \<Rightarrow> scope_canvas" where
  "onMouseMove w h p c = (case sc_drag c of None \<Rightarrow> c
     | Some (start, offs) \<Rightarrow> c\<lparr>sc_view := (sc_view c)\<lparr>
         offsetX := fst offs + (fst p - fst start) / w, offsetY := snd offs + (snd p - snd start) / h\<rparr>\<rparr>)"

definition onMouseUp :: "scope_canvas \<Rightarrow> scope_canvas" where
  "onMouseUp c = c\<lparr>sc_drag := None\<rparr>"

definition sc_resetView :: "scope_canvas \<Rightarrow> scope_canvas" where
  "sc_resetView c = c\<lparr>sc_view := default_view\<rparr>"

subsection \<open>CSV export\<close>

definition csv_row :: "(jsnum \<Rightarrow> string) \<Rightarrow> string list \<Rightarrow> data_point \<Rightarrow> string" where
  "csv_row num channels p = join_with '','' (num (dp_timestamp p) # map (\<lambda>ch. num (sample ch p)) channels)"

definition sc_exportCSV :: "(jsnum \<Rightarrow> string) \<Rightarrow> scope_canvas \<Rightarrow> string" where
  "sc_exportCSV num c =
     (if ts_points (sc_buffer c) = [] then ''timestamp'' @ newline
      else join_with newline (join_with '','' (''timestamp'' # sc_active c)
        # map (csv_row num (sc_active c)) (ts_points (sc_buffer c))))"

subsection \<open>The panel\<close>

definition MAX_POINTS :: nat where
  "MAX_POINTS = 3000"

record scope_panel =
  sp_bridge :: bool
  sp_channels :: "string list"
  sp_active :: "string list"
  sp_polling :: bool
  sp_window :: jsnum
  sp_error :: "string option"
  sp_timer :: "nat option"
  sp_timers :: timers
  sp_buffer :: ts_buffer
  sp_canvas :: "scope_canvas option"
  sp_requests :: nat

definition new_scope :: "bool \<Rightarrow> scope_panel" where
  "new_scope bridge = \<lparr>sp_bridge = bridge, sp_channels = [], sp_active = [], sp_polling = False, sp_window = 10,
     sp_error = None, sp_timer = None, sp_timers = no_timers, sp_buffer = new_buffer MAX_POINTS,
     sp_canvas = None, sp_requests = 0\<rparr>"

text \<open>The canvas holds the panel's own buffer object, so the two are the same at all times.\<close>

definition syncCanvasChannels :: "scope_panel \<Rightarrow> scope_panel" where
  "syncCanvasChannels s = s\<lparr>sp_canvas := map_option (\<lambda>c. c\<lparr>sc_buffer := sp_buffer s, sc_active := sp_active s\<rparr>) (sp_canvas s)\<rparr>"

definition sp_fetch :: "scope_panel \<Rightarrow> scope_panel" where
  "sp_fetch s = (if sp_bridge s then s\<lparr>sp_requests := sp_requests s + 1\<rparr> else s)"

text \<open>\<open>values[s.name] = n\<close> for the finite numbers.\<close>

definition numeric_values :: "(string \<Rightarrow> jsnum option) \<Rightarrow> signal_entry list \<Rightarrow> (string, jsnum) jsmap" where
  "numeric_values number sigs = fold (\<lambda>s m. case number (sig_value s) of
     None \<Rightarrow> m | Some n \<Rightarrow> js_set (sig_name s) n m) sigs []"

definition sp_reply ::
  "(string \<Rightarrow> jsnum option) \<Rightarrow> jsnum \<Rightarrow> signal_entry list option \<Rightarrow> scope_panel \<Rightarrow> scope_panel" where
  "sp_reply number now answer s =
     (if sp_requests s = 0 then s
      else (let s1 = s\<lparr>sp_requests := sp_requests s - 1\<rparr> in
        case answer of
          Some sigs \<Rightarrow>
            (let s2 = s1\<lparr>sp_error := None, sp_channels := map sig_name sigs\<rparr>
             in syncCanvasChannels (s2\<lparr>sp_buffer := ts_push now (numeric_values number sigs) (sp_buffer s2)\<rparr>))
        | None \<Rightarrow> if sp_error s1 = None then s1\<lparr>sp_error := Some unreachable_msg\<rparr> else s1))"

definition toggleChannel :: "string \<Rightarrow> scope_panel \<Rightarrow> scope_panel" where
  "toggleChannel name s = syncCanvasChannels (s\<lparr>sp_active :=
     (if name \<in> set (sp_active s) then filter (\<lambda>c. c \<noteq> name) (sp_active s) else sp_active s @ [name])\<rparr>)"

definition sp_stopPolling :: "scope_panel \<Rightarrow> scope_panel" where
  "sp_stopPolling s = s\<lparr>sp_polling := False, sp_timers := stop_timer (sp_timer s) (sp_timers s),
     sp_timer := (if sp_timer s = Some 0 then Some 0 else None)\<rparr>"

definition togglePolling :: "scope_panel \<Rightarrow> scope_panel" where
  "togglePolling s =
     (if sp_polling s then sp_stopPolling s
      else (let s1 = sp_fetch (s\<lparr>sp_polling := True\<rparr>); (i, ts) = setInterval (sp_timers s1)
            in s1\<lparr>sp_timer := Some i, sp_timers := ts\<rparr>))"

definition setTimeWindow :: "jsnum \<Rightarrow> scope_panel \<Rightarrow> scope_panel" where
  "setTimeWindow sec s = s\<lparr>sp_window := sec, sp_canvas := map_option (set_timeWindowSec sec) (sp_canvas s)\<rparr>"

text \<open>\<open>mountCanvas\<close> once React has rendered the container; \<open>None\<close> before.\<close>

definition mountCanvas :: "bool \<Rightarrow> scope_panel \<Rightarrow> scope_panel" where
  "mountCanvas container s = (if container
     then syncCanvasChannels (s\<lparr>sp_canvas := Some (set_timeWindowSec (sp_window s) new_scope_canvas)\<rparr>) else s)"

definition sp_exportCSV :: "(jsnum \<Rightarrow> string) \<Rightarrow> scope_panel \<Rightarrow> string option" where
  "sp_exportCSV num s = (if \<not> sp_polling s \<or> ts_points (sp_buffer s) = [] then None
     else map_option (sc_exportCSV num) (sp_canvas s))"

datatype scope_event =
    SAttach bool
  | SDetach
  | SHide
  | SToggle
  | STick nat
  | SReply jsnum "signal_entry list option"
  | SChannel string
  | SWindow jsnum
  | SReset
  | SWheel jsnum
  | SMouseDown pos
  | SMouseMove jsnum jsnum pos
  | SMouseUp

definition on_canvas :: "(scope_canvas \<Rightarrow> scope_canvas) \<Rightarrow> scope_panel \<Rightarrow> scope_panel" where
  "on_canvas f s = s\<lparr>sp_canvas := map_option f (sp_canvas s)\<rparr>"

fun scope_step :: "(string \<Rightarrow> jsnum option) \<Rightarrow> scope_event \<Rightarrow> scope_panel \<Rightarrow> scope_panel" where
  "scope_step number (SAttach container) s = mountCanvas container s"
| "scope_step number SDetach s = (sp_stopPolling s)\<lparr>sp_canvas := None\<rparr>"
| "scope_step number SHide s = sp_stopPolling s"
| "scope_step number SToggle s = togglePolling s"
| "scope_step number (STick i) s = (if i \<in> set (live_timers (sp_timers s)) then sp_fetch s else s)"
| "scope_step number (SReply now answer) s = sp_reply number now answer s"
| "scope_step number (SChannel name) s = toggleChannel name s"
| "scope_step number (SWindow sec) s = setTimeWindow sec s"
| "scope_step number SReset s = on_canvas sc_resetView s"
| "scope_step number (SWheel d) s = on_canvas (onWheel d) s"
| "scope_step number (SMouseDown p) s = on_canvas (onMouseDown p) s"
| "scope_step number (SMouseMove w h p) s = on_canvas (onMouseMove w h p) s"
| "scope_step number SMouseUp s = on_canvas onMouseUp s"

definition scope_run :: "(string \<Rightarrow> jsnum option) \<Rightarrow> scope_event list \<Rightarrow> scope_panel \<Rightarrow> scope_panel" where
  "scope_run number es s = fold (scope_step number) es s"

end
