(* ===== verification/SignalProps.thy ===== *)
theory SignalProps
  imports Signals
begin

text \<open>
  The properties of the signal browser: what the filter lets through, how the tree is made of the
  signals, the timers of the panel, and the group that cannot be closed.
\<close>

text \<open>
  C23: with a pattern that is not empty, the filter shows exactly the signals whose name matches the pattern as a
  glob, ignoring case, where a star and a question mark match no line break; the empty pattern and the single star
  show all signals. The regular expression built from the pattern is always well-formed, whatever characters the user types.
\<close>

theorem signal_filter_globs:
  "signal_filter signals pattern = Some (if pattern = ''*'' \<or> pattern = [] then signals
     else filter (\<lambda>s. glob pattern (sig_name s)) signals)"
  by (simp add: signal_filter_def rx_test_glob list_all_iff)

subsection \<open>The tree\<close>

definition in_namespace :: "string \<Rightarrow> signal_entry list \<Rightarrow> signal_entry list" where
  "in_namespace ns sigs = filter (\<lambda>s. namespace_of (sig_name s) = ns) sigs"

lemma group_map_snoc: "group_map (sigs @ [s]) = (let ns = namespace_of (sig_name s); m = group_map sigs in
    js_set ns ((case map_of m ns of None \<Rightarrow> [] | Some arr \<Rightarrow> arr) @ [s]) m)"
  by (simp add: group_map_def Let_def)

lemma map_of_group_map: "map_of (group_map sigs) ns = (if in_namespace ns sigs = [] then None else Some (in_namespace ns sigs))"
proof (induction sigs arbitrary: ns rule: rev_induct)
  case (snoc s sigs)
  have "(case map_of (group_map sigs) n of None \<Rightarrow> [] | Some arr \<Rightarrow> arr) = in_namespace n sigs" for n
    by (simp add: snoc.IH)
  then show ?case by (simp add: group_map_snoc Let_def snoc.IH) (simp add: in_namespace_def)
qed (simp add: group_map_def in_namespace_def)

lemma distinct_group_map: "distinct (map fst (group_map sigs))"
proof (induction sigs rule: rev_induct)
  case (snoc s sigs)
  then show ?case by (simp add: group_map_snoc Let_def)
qed (simp add: group_map_def)

lemma group_map_entry: "(ns, arr) \<in> set (group_map sigs) \<longleftrightarrow> arr = in_namespace ns sigs \<and> arr \<noteq> []"
proof -
  have "(ns, arr) \<in> set (group_map sigs) \<longleftrightarrow> map_of (group_map sigs) ns = Some arr"
    by (rule map_of_eq_Some_iff [OF distinct_group_map, symmetric])
  then show ?thesis by (auto simp: map_of_group_map)
qed

text \<open>The first group is the one of the first signal.\<close>

lemma hd_js_set: "map fst m \<noteq> [] \<Longrightarrow> hd (map fst (js_set k v m)) = hd (map fst m) \<and> js_set k v m \<noteq> []"
  by (cases m; cases "hd m") auto

lemma group_map_hd: "group_map (s # sigs) \<noteq> [] \<and> fst (hd (group_map (s # sigs))) = namespace_of (sig_name s)"
proof (induction sigs rule: rev_induct)
  case (snoc x sigs)
  have "group_map (s # sigs @ [x]) = group_map ((s # sigs) @ [x])" by simp
  then show ?case
    using snoc by (cases "group_map (s # sigs)") (auto simp: group_map_snoc Let_def simp del: append_Cons)
qed (simp add: group_map_def)

definition fresh_groups ::
  "string comparator \<Rightarrow> signal_entry list \<Rightarrow> string list option \<Rightarrow> signal_group list \<Rightarrow> signal_group list" where
  "fresh_groups cmp sigs shown groups = map_index (\<lambda>i (ns, arr). \<lparr>gr_namespace = ns,
     gr_signals = Sorting_Algorithms.sort (key sig_name cmp) arr,
     gr_expanded = (case shown of Some S \<Rightarrow> ns \<in> set S | None \<Rightarrow> ns \<in> set (prev_expanded groups) \<or> i = 0)\<rparr>) (group_map sigs)"

lemma tree_update_fresh: "tree_update cmp sigs shown groups = Sorting_Algorithms.sort (key gr_namespace cmp) (fresh_groups cmp sigs shown groups)"
  by (simp add: tree_update_def fresh_groups_def)

lemma set_tree_update: "set (tree_update cmp sigs shown groups) = set (fresh_groups cmp sigs shown groups)"
  by (simp add: tree_update_fresh)

lemma fresh_namespaces: "map gr_namespace (fresh_groups cmp sigs shown groups) = map fst (group_map sigs)"
  by (simp add: fresh_groups_def map_map_index case_prod_beta)

text \<open>
  The tree has one group for each name space that occurs, sorted by name, and the group has
  exactly the signals of the name space, sorted by name.
\<close>

theorem tree_groups:
  "distinct (map gr_namespace (tree_update cmp sigs shown groups))
   \<and> set (map gr_namespace (tree_update cmp sigs shown groups)) = namespace_of ` sig_name ` set sigs
   \<and> Sorting_Algorithms.sorted (key gr_namespace cmp) (tree_update cmp sigs shown groups)
   \<and> list_all (\<lambda>gr. gr_signals gr = Sorting_Algorithms.sort (key sig_name cmp) (in_namespace (gr_namespace gr) sigs))
       (tree_update cmp sigs shown groups)"
proof (intro conjI)
  have "mset (map gr_namespace (tree_update cmp sigs shown groups)) = mset (map fst (group_map sigs))"
    by (metis (no_types) fresh_namespaces mset_map mset_sort tree_update_fresh)
  then show "distinct (map gr_namespace (tree_update cmp sigs shown groups))"
    using distinct_group_map mset_eq_imp_distinct_iff by blast
  have "set (map gr_namespace (tree_update cmp sigs shown groups)) = fst ` set (group_map sigs)"
    using arg_cong [OF fresh_namespaces [of cmp sigs shown groups], of set] by (simp add: set_tree_update)
  also have "\<dots> = namespace_of ` sig_name ` set sigs"
    by (auto simp: image_iff Bex_def group_map_entry in_namespace_def filter_empty_conv) blast
  finally show "set (map gr_namespace (tree_update cmp sigs shown groups)) = namespace_of ` sig_name ` set sigs" .
  have "gr_signals gr = Sorting_Algorithms.sort (key sig_name cmp) (in_namespace (gr_namespace gr) sigs)"
    if gr: "gr \<in> set (fresh_groups cmp sigs shown groups)" for gr
  proof -
    from gr obtain i where i: "i < length (group_map sigs)" "gr = fresh_groups cmp sigs shown groups ! i"
      by (auto simp: in_set_conv_nth fresh_groups_def)
    obtain ns arr where e: "group_map sigs ! i = (ns, arr)" by (rule prod.exhaust)
    then have "arr = in_namespace ns sigs" using i(1) group_map_entry [of ns arr sigs] nth_mem by fastforce
    with i e show ?thesis by (simp add: fresh_groups_def)
  qed
  then show "list_all (\<lambda>gr. gr_signals gr = Sorting_Algorithms.sort (key sig_name cmp) (in_namespace (gr_namespace gr) sigs))
       (tree_update cmp sigs shown groups)"
    by (simp add: list_all_iff set_tree_update)
qed (simp add: tree_update_fresh)

lemma first_shown:
  "\<exists>gr \<in> set (tree_update cmp (s # sigs) None groups). gr_namespace gr = namespace_of (sig_name s) \<and> gr_expanded gr"
proof -
  have "0 < length (group_map (s # sigs))" "fst (group_map (s # sigs) ! 0) = namespace_of (sig_name s)"
    using group_map_hd [of s sigs] by (cases "group_map (s # sigs)"; simp)+
  then have "gr_namespace (fresh_groups cmp (s # sigs) None groups ! 0) = namespace_of (sig_name s)"
    "gr_expanded (fresh_groups cmp (s # sigs) None groups ! 0)"
    "0 < length (fresh_groups cmp (s # sigs) None groups)"
    by (auto simp: fresh_groups_def case_prod_beta)
  then have "fresh_groups cmp (s # sigs) None groups ! 0 \<in> set (fresh_groups cmp (s # sigs) None groups)"
    "gr_namespace (fresh_groups cmp (s # sigs) None groups ! 0) = namespace_of (sig_name s)"
    "gr_expanded (fresh_groups cmp (s # sigs) None groups ! 0)"
    by (auto intro: nth_mem)
  then show ?thesis unfolding set_tree_update by blast
qed

subsection \<open>The panel\<close>

definition browser_inv :: "signal_browser \<Rightarrow> bool" where
  "browser_inv b \<longleftrightarrow> one_timer (br_polling b) (br_timer b) (br_timers b)
     \<and> (\<forall>s fs. signal_filter (br_signals b) (br_pattern b) = Some (s # fs) \<longrightarrow>
          (\<exists>gr \<in> set (br_groups b). gr_namespace gr = namespace_of (sig_name s) \<and> gr_expanded gr))"

lemma br_render_fields [simp]:
  "br_polling (br_render cmp b) = br_polling b" "br_timer (br_render cmp b) = br_timer b"
  "br_timers (br_render cmp b) = br_timers b" "br_signals (br_render cmp b) = br_signals b"
  "br_pattern (br_render cmp b) = br_pattern b" "br_requests (br_render cmp b) = br_requests b"
  "br_bridge (br_render cmp b) = br_bridge b" "br_error (br_render cmp b) = br_error b"
  by (simp_all add: br_render_def split: option.split)

lemma fetch_fields [simp]:
  "br_polling (fetchSignals b) = br_polling b" "br_timer (fetchSignals b) = br_timer b"
  "br_timers (fetchSignals b) = br_timers b" "br_signals (fetchSignals b) = br_signals b"
  "br_pattern (fetchSignals b) = br_pattern b" "br_groups (fetchSignals b) = br_groups b"
  by (simp_all add: fetchSignals_def)

lemma render_shows:
  "signal_filter (br_signals b) (br_pattern b) = Some (s # fs) \<Longrightarrow>
     \<exists>gr \<in> set (br_groups (br_render cmp b)). gr_namespace gr = namespace_of (sig_name s) \<and> gr_expanded gr"
  using first_shown by (simp add: br_render_def)

lemma render_inv: "one_timer (br_polling b) (br_timer b) (br_timers b) \<Longrightarrow> browser_inv (br_render cmp b)"
  using render_shows by (simp add: browser_inv_def)

lemma inv_timer: "browser_inv b \<Longrightarrow> one_timer (br_polling b) (br_timer b) (br_timers b)"
  by (simp add: browser_inv_def)

lemma start_inv:
  assumes "browser_inv b"
  shows "browser_inv (startPolling cmp b)"
proof (cases "br_polling b")
  case False
  obtain i ts where t: "setInterval (br_timers b) = (i, ts)" by (rule prod.exhaust)
  have "one_timer True (Some i) ts" using inv_timer [OF assms] False t by (auto intro: one_timer_start)
  then show ?thesis
    using render_shows [of "b\<lparr>br_polling := True\<rparr>" _ _ cmp] t False
    by (simp add: startPolling_def browser_inv_def)
qed (use assms in \<open>simp add: startPolling_def\<close>)

lemma stop_inv:
  assumes "browser_inv b"
  shows "browser_inv (stopPolling cmp b)"
proof -
  note timer = inv_timer [OF assms]
  from timer have "br_timer b \<noteq> Some 0" by (simp add: one_timer_def)
  with one_timer_stop [OF timer] show ?thesis
    using render_shows [of "b\<lparr>br_polling := False\<rparr>" _ _ cmp]
    by (simp add: stopPolling_def browser_inv_def Let_def)
qed

lemma browser_step_inv: "browser_inv b \<Longrightarrow> browser_inv (browser_step cmp e b)"
proof (cases e)
  case (BTick i)
  then show "browser_inv b \<Longrightarrow> ?thesis" by (simp add: browser_inv_def)
next
  case (BReply k answer)
  assume b: "browser_inv b"
  then have "browser_inv (b\<lparr>br_requests := r\<rparr>)" for r by (simp add: browser_inv_def)
  with b BReply inv_timer [OF b] show ?thesis
    by (auto simp: br_reply_def Let_def split: option.split intro!: render_inv)
qed (auto simp: start_inv stop_inv toggleGroup_def dest: inv_timer intro!: render_inv)

interpretation browser_polls: polling_panel "browser_step cmp" browser_inv br_polling br_timer br_timers for cmp
  by unfold_locales (auto intro: browser_step_inv inv_timer)

lemma browser_run_inv: "browser_inv b \<Longrightarrow> browser_inv (browser_run cmp es b)"
  unfolding browser_run_def by (rule browser_polls.run_good)

lemma new_browser_inv: "browser_inv (new_browser bridge)"
  by (simp add: browser_inv_def new_browser_def one_timer_none signal_filter_globs)

text \<open>
  The panel never leaks a timer: after any attaching, hiding, starting, stopping and
  detaching, an interval runs exactly when the panel says it is polling, and then it is one.
\<close>

theorem browser_timers:
  "let b = browser_run cmp es (new_browser bridge) in
     live_timers (br_timers b) = (case br_timer b of None \<Rightarrow> [] | Some i \<Rightarrow> [i])
     \<and> br_polling b = (br_timer b \<noteq> None)"
  using browser_polls.run_timers [OF new_browser_inv, of cmp es bridge] by (simp add: Let_def browser_run_def)

text \<open>
  The group of the first signal cannot be closed: whatever the user does, also right after a
  click on its header, the panel shows it open, because every render rebuilds the tree and opens the
  first group of the map again.
\<close>

theorem first_group_open:
  assumes "b = browser_run cmp es (new_browser bridge)"
    and "signal_filter (br_signals b) (br_pattern b) = Some (s # fs)"
  shows "\<exists>gr \<in> set (br_groups (toggleGroup cmp (namespace_of (sig_name s)) b)).
    gr_namespace gr = namespace_of (sig_name s) \<and> gr_expanded gr"
proof -
  have "browser_inv (toggleGroup cmp (namespace_of (sig_name s)) b)"
    using browser_step_inv [OF browser_run_inv [OF new_browser_inv], of cmp "BToggle (namespace_of (sig_name s))" cmp es bridge]
    by (simp add: assms(1))
  then show ?thesis using assms(2) by (simp add: browser_inv_def toggleGroup_def)
qed

definition demo_signals :: "signal_entry list" where
  "demo_signals = [\<lparr>sig_name = ''axis.x'', sig_value = ''1''\<rparr>, \<lparr>sig_name = ''lamp'', sig_value = ''0''\<rparr>]"

lemma first_group_open_witness:
  "\<forall>cmp. \<exists>gr \<in> set (br_groups (toggleGroup cmp ''axis'' (browser_run cmp [BStart, BReply 0 (Some demo_signals)] (new_browser True)))).
     gr_namespace gr = ''axis'' \<and> gr_expanded gr"
proof
  fix cmp
  let ?b = "browser_run cmp [BStart, BReply 0 (Some demo_signals)] (new_browser True)"
  have "br_signals ?b = demo_signals" "br_pattern ?b = ''*''"
    by (simp_all add: browser_run_def startPolling_def fetchSignals_def br_reply_def new_browser_def Let_def split: prod.split)
  then have "signal_filter (br_signals ?b) (br_pattern ?b)
      = Some (\<lparr>sig_name = ''axis.x'', sig_value = ''1''\<rparr> # [\<lparr>sig_name = ''lamp'', sig_value = ''0''\<rparr>])"
    by (simp add: signal_filter_def demo_signals_def)
  moreover have "namespace_of ''axis.x'' = ''axis''" by (simp add: namespace_of_def indexOf_def)
  ultimately show "\<exists>gr \<in> set (br_groups (toggleGroup cmp ''axis'' ?b)). gr_namespace gr = ''axis'' \<and> gr_expanded gr"
    using first_group_open [OF refl, of cmp "[BStart, BReply 0 (Some demo_signals)]" True] by simp
qed

end
