(* ===== verification/ScopeProps.thy ===== *)
theory ScopeProps
  imports Scope SignalProps
begin

text \<open>
  The properties of the scope: the buffer holds the newest samples, what is true in every session of the panel,
  curves stay inside the plot, and the exported table can be read back.
\<close>

subsection \<open>The buffer\<close>

text \<open>A use of the buffer: a sample pushed, or \<open>None\<close> for clearing it.\<close>

type_synonym buffer_use = "(jsnum \<times> (string, jsnum) jsmap) option"

fun use_buffer :: "buffer_use \<Rightarrow> ts_buffer \<Rightarrow> ts_buffer" where
  "use_buffer None b = ts_clear b"
| "use_buffer (Some (t, vals)) b = ts_push t vals b"

text \<open>The samples since the last clearing, all of them.\<close>

definition since_clear :: "buffer_use list \<Rightarrow> data_point list" where
  "since_clear us = map (\<lambda>u. \<lparr>dp_timestamp = fst (the u), dp_values = snd (the u)\<rparr>)
     (rev (takeWhile (\<lambda>u. u \<noteq> None) (rev us)))"

definition newest :: "nat \<Rightarrow> 'a list \<Rightarrow> 'a list" where
  "newest k xs = drop (length xs - k) xs"

lemma newest_snoc:
  assumes "0 < k"
  shows "(if length (newest k xs) \<ge> k then tl (newest k xs) else newest k xs) @ [x] = newest k (xs @ [x])"
proof (cases "k \<le> length xs")
  case True
  then show ?thesis using assms by (simp add: newest_def drop_Suc [symmetric] tl_drop Suc_diff_le)
next
  case False
  then show ?thesis by (simp add: newest_def)
qed

text \<open>
  The buffer is a sliding window: after any pushing and clearing it holds the newest samples since the
  last clearing, in order, as many as its capacity (and one when the capacity is 0).
\<close>

theorem buffer_window:
  "ts_points (fold use_buffer us (new_buffer m)) = newest (max 1 m) (since_clear us)"
proof -
  have "ts_points (fold use_buffer us (new_buffer m)) = newest (max 1 m) (since_clear us)
      \<and> ts_max (fold use_buffer us (new_buffer m)) = m"
  proof (induction us rule: rev_induct)
    case (snoc u us)
    show ?case
    proof (cases u)
      case None
      with snoc show ?thesis by (simp add: ts_clear_def since_clear_def newest_def)
    next
      case (Some p)
      obtain t vals where p: "p = (t, vals)" by (rule prod.exhaust)
      let ?b = "fold use_buffer us (new_buffer m)" and ?x = "\<lparr>dp_timestamp = t, dp_values = vals\<rparr>"
      have since: "since_clear (us @ [Some (t, vals)]) = since_clear us @ [?x]" by (simp add: since_clear_def)
      have "(if length (ts_points ?b) \<ge> m then tl (ts_points ?b) else ts_points ?b)
          = (if length (newest (max 1 m) (since_clear us)) \<ge> max 1 m then tl (newest (max 1 m) (since_clear us))
             else newest (max 1 m) (since_clear us))"
        using snoc by (cases "m = 0"; cases "since_clear us") (auto simp: newest_def)
      with snoc newest_snoc [of "max 1 m" "since_clear us" ?x] show ?thesis
        by (simp add: Some p since ts_push_def [abs_def] Let_def)
    qed
  qed (simp add: new_buffer_def since_clear_def newest_def)
  then show ?thesis ..
qed

subsection \<open>Sessions\<close>

definition canvas_fits :: "scope_panel \<Rightarrow> scope_canvas \<Rightarrow> bool" where
  "canvas_fits s c \<longleftrightarrow> sc_buffer c = sp_buffer s \<and> sc_active c = sp_active s \<and> 1 \<le> sc_window c
     \<and> 1 / 2 \<le> scaleX (sc_view c) \<and> scaleX (sc_view c) \<le> 10 \<and> 1 / 2 \<le> scaleY (sc_view c) \<and> scaleY (sc_view c) \<le> 10"

definition scope_inv :: "scope_panel \<Rightarrow> bool" where
  "scope_inv s \<longleftrightarrow> one_timer (sp_polling s) (sp_timer s) (sp_timers s)
     \<and> ts_max (sp_buffer s) = MAX_POINTS \<and> length (ts_points (sp_buffer s)) \<le> MAX_POINTS
     \<and> distinct (sp_active s)
     \<and> pred_option (canvas_fits s) (sp_canvas s)"

lemma clamp_scale_bounds: "1 \<le> clamp_scale x * 2" "clamp_scale x \<le> 10"
  by (auto simp: clamp_scale_def max_def)

lemma push_length:
  "length (ts_points b) \<le> ts_max b \<Longrightarrow> 0 < ts_max b \<Longrightarrow> length (ts_points (ts_push t v b)) \<le> ts_max (ts_push t v b)"
  by (auto simp: ts_push_def Let_def)

lemma ts_push_max [simp]: "ts_max (ts_push t v b) = ts_max b"
  by (simp add: ts_push_def Let_def)

lemma stop_scope: "scope_inv s \<Longrightarrow> scope_inv (sp_stopPolling s)"
  using one_timer_stop [of "sp_polling s" "sp_timer s" "sp_timers s"]
  by (auto simp: scope_inv_def sp_stopPolling_def canvas_fits_def one_timer_def pred_option_def)

lemma toggle_scope:
  assumes "scope_inv s"
  shows "scope_inv (togglePolling s)"
proof (cases "sp_polling s")
  case False
  obtain i ts where t: "setInterval (sp_timers s) = (i, ts)" by (rule prod.exhaust)
  have "one_timer True (Some i) ts" using assms False t by (auto simp: scope_inv_def intro: one_timer_start)
  with assms False t show ?thesis
    by (auto simp: togglePolling_def sp_fetch_def scope_inv_def canvas_fits_def pred_option_def)
qed (use assms stop_scope in \<open>simp add: togglePolling_def\<close>)

lemma sync_fits:
  "pred_option (\<lambda>c. 1 \<le> sc_window c \<and> 1 / 2 \<le> scaleX (sc_view c) \<and> scaleX (sc_view c) \<le> 10
      \<and> 1 / 2 \<le> scaleY (sc_view c) \<and> scaleY (sc_view c) \<le> 10) (sp_canvas s)
    \<Longrightarrow> pred_option (canvas_fits (syncCanvasChannels s)) (sp_canvas (syncCanvasChannels s))"
  by (cases "sp_canvas s") (simp_all add: syncCanvasChannels_def canvas_fits_def)

lemma sync_fields [simp]:
  "sp_polling (syncCanvasChannels s) = sp_polling s" "sp_timer (syncCanvasChannels s) = sp_timer s"
  "sp_timers (syncCanvasChannels s) = sp_timers s" "sp_buffer (syncCanvasChannels s) = sp_buffer s"
  "sp_active (syncCanvasChannels s) = sp_active s"
  by (simp_all add: syncCanvasChannels_def)

lemma reply_scope:
  assumes s: "scope_inv s"
  shows "scope_inv (sp_reply number now answer s)"
proof (cases answer)
  case (Some sigs)
  show ?thesis
  proof (cases "sp_requests s = 0")
    case False
    let ?b = "ts_push now (numeric_values number sigs) (sp_buffer s)"
    have "length (ts_points ?b) \<le> MAX_POINTS"
      using s push_length [of "sp_buffer s" now "numeric_values number sigs"] by (simp add: scope_inv_def MAX_POINTS_def)
    with s False Some show ?thesis
      by (auto simp: sp_reply_def Let_def scope_inv_def intro!: sync_fits)
        (auto simp: pred_option_def canvas_fits_def)
  qed (use s in \<open>simp add: sp_reply_def\<close>)
next
  case None
  with s show ?thesis by (auto simp: sp_reply_def Let_def scope_inv_def canvas_fits_def pred_option_def)
qed

lemma on_canvas_scope:
  assumes "scope_inv s" "\<And>c. canvas_fits s c \<Longrightarrow> canvas_fits s (f c)"
  shows "scope_inv (on_canvas f s)"
proof -
  have "canvas_fits (on_canvas f s) = canvas_fits s" by (simp add: fun_eq_iff canvas_fits_def on_canvas_def)
  then show ?thesis using assms by (auto simp: scope_inv_def on_canvas_def pred_option_def)
qed

lemma scope_step_inv: "scope_inv s \<Longrightarrow> scope_inv (scope_step number e s)"
proof (cases e)
  case (SAttach b)
  assume "scope_inv s"
  with SAttach show ?thesis
    by (auto simp: mountCanvas_def scope_inv_def set_timeWindowSec_def new_scope_canvas_def default_view_def intro!: sync_fits)
next
  case SDetach
  assume "scope_inv s"
  from stop_scope [OF this] SDetach show ?thesis by (simp add: scope_inv_def)
next
  case (STick i)
  assume "scope_inv s"
  with STick show ?thesis by (auto simp: sp_fetch_def scope_inv_def canvas_fits_def pred_option_def)
next
  case (SChannel name)
  assume "scope_inv s"
  with SChannel show ?thesis
    by (auto simp: toggleChannel_def scope_inv_def intro!: sync_fits) (auto simp: pred_option_def canvas_fits_def)
next
  case (SWindow sec)
  assume "scope_inv s"
  with SWindow show ?thesis
    by (auto simp: setTimeWindow_def set_timeWindowSec_def scope_inv_def canvas_fits_def pred_option_def)
next
  case SReset
  assume "scope_inv s"
  with SReset show ?thesis
    by (auto simp: sc_resetView_def canvas_fits_def default_view_def intro!: on_canvas_scope)
next
  case (SWheel d)
  assume "scope_inv s"
  with SWheel show ?thesis
    by (auto simp: onWheel_def canvas_fits_def Let_def clamp_scale_bounds intro!: on_canvas_scope)
next
  case (SMouseDown p)
  assume "scope_inv s"
  with SMouseDown show ?thesis by (auto simp: onMouseDown_def canvas_fits_def intro!: on_canvas_scope)
next
  case (SMouseMove w h p)
  assume "scope_inv s"
  with SMouseMove show ?thesis
    by (auto simp: onMouseMove_def canvas_fits_def intro!: on_canvas_scope split: option.split)
next
  case SMouseUp
  assume "scope_inv s"
  with SMouseUp show ?thesis by (auto simp: onMouseUp_def canvas_fits_def intro!: on_canvas_scope)
qed (simp_all add: stop_scope toggle_scope reply_scope)

interpretation scope_polls: polling_panel "scope_step number" scope_inv sp_polling sp_timer sp_timers for number
  by unfold_locales (erule scope_step_inv, simp add: scope_inv_def)

lemma scope_run_inv: "scope_inv s \<Longrightarrow> scope_inv (scope_run number es s)"
  unfolding scope_run_def by (rule scope_polls.run_good)

lemma new_scope_inv: "scope_inv (new_scope bridge)"
  by (simp add: scope_inv_def new_scope_def new_buffer_def one_timer_none MAX_POINTS_def)

text \<open>
  C21: in every session of the scope an interval runs exactly while the panel polls, the buffer has at most
  3000 samples, and a mounted canvas shows the panel's buffer and channels with a window of at least a
  second and a zoom between a half and ten.
\<close>

theorem scope_session:
  "let s = scope_run number es (new_scope bridge) in
     live_timers (sp_timers s) = (case sp_timer s of None \<Rightarrow> [] | Some i \<Rightarrow> [i])
     \<and> sp_polling s = (sp_timer s \<noteq> None)
     \<and> length (ts_points (sp_buffer s)) \<le> 3000 \<and> distinct (sp_active s)
     \<and> pred_option (\<lambda>c. sc_buffer c = sp_buffer s \<and> sc_active c = sp_active s \<and> 1 \<le> sc_window c
          \<and> 1 / 2 \<le> scaleX (sc_view c) \<and> scaleX (sc_view c) \<le> 10
          \<and> 1 / 2 \<le> scaleY (sc_view c) \<and> scaleY (sc_view c) \<le> 10) (sp_canvas s)"
  using scope_run_inv [OF new_scope_inv, of number es bridge] scope_polls.run_timers [OF new_scope_inv, of number es bridge]
  by (simp add: Let_def scope_inv_def canvas_fits_def [abs_def] MAX_POINTS_def scope_run_def)

subsection \<open>Curves\<close>

text \<open>\<open>sorted\<close> of Sorting-Algorithms takes a comparator.\<close>

abbreviation ascending :: "jsnum list \<Rightarrow> bool" where
  "ascending \<equiv> linorder_class.sorted"

text \<open>The times at which answers arrive; the clock is read when the answer is there.\<close>

fun reply_times :: "scope_event list \<Rightarrow> jsnum list" where
  "reply_times [] = []"
| "reply_times (SReply now answer # es) = now # reply_times es"
| "reply_times (e # es) = reply_times es"

lemma step_buffer: "(\<And>now answer. e \<noteq> SReply now answer) \<Longrightarrow> sp_buffer (scope_step number e s) = sp_buffer s"
  by (cases e) (auto simp: mountCanvas_def sp_stopPolling_def togglePolling_def sp_fetch_def toggleChannel_def
      setTimeWindow_def on_canvas_def split: prod.split)

lemma reply_times_other: "(\<And>now answer. e \<noteq> SReply now answer) \<Longrightarrow> reply_times (e # es) = reply_times es"
  by (cases e) auto

lemma reply_buffer:
  "sp_buffer (sp_reply number now answer s) = sp_buffer s
   \<or> (\<exists>vals. sp_buffer (sp_reply number now answer s) = ts_push now vals (sp_buffer s))"
  by (auto simp: sp_reply_def Let_def split: option.split)

definition clocked :: "ts_buffer \<Rightarrow> jsnum \<Rightarrow> bool" where
  "clocked b t \<longleftrightarrow> ascending (getTimestamps b) \<and> (\<forall>x \<in> set (getTimestamps b). x \<le> t)"

lemma timestamps_push: "getTimestamps (ts_push now vals b)
    = (if length (ts_points b) \<ge> ts_max b then tl (getTimestamps b) else getTimestamps b) @ [now]"
  by (simp add: getTimestamps_def ts_push_def Let_def map_tl)

lemma clocked_push:
  assumes b: "clocked b t" and now: "t \<le> now"
  shows "clocked (ts_push now vals b) now"
proof -
  have "ascending (tl (getTimestamps b))" "\<forall>x \<in> set (tl (getTimestamps b)). x \<le> t"
    using b by (cases "getTimestamps b"; auto simp: clocked_def)+
  with b now show ?thesis
    by (auto simp: clocked_def timestamps_push sorted_append dest: order_trans)
qed

lemma run_clocked:
  "clocked (sp_buffer s) t \<Longrightarrow> ascending (t # reply_times es) \<Longrightarrow> ascending (getTimestamps (sp_buffer (scope_run number es s)))"
proof (induction es arbitrary: s t)
  case Nil
  then show ?case by (simp add: scope_run_def clocked_def)
next
  case (Cons e es)
  have run: "scope_run number (e # es) s = scope_run number es (scope_step number e s)" by (simp add: scope_run_def)
  show ?case
  proof (cases "\<exists>now answer. e = SReply now answer")
    case True
    then obtain now answer where e: "e = SReply now answer" by blast
    with Cons.prems(2) have now: "t \<le> now" "ascending (now # reply_times es)" by auto
    have "clocked (sp_buffer s) now" using Cons.prems(1) now(1) by (auto simp: clocked_def)
    then have "clocked (sp_buffer (scope_step number e s)) now"
      using reply_buffer [of number now answer s] clocked_push [of "sp_buffer s" now now] by (auto simp: e)
    then show ?thesis unfolding run using now(2) by (rule Cons.IH)
  next
    case False
    then have "clocked (sp_buffer (scope_step number e s)) t" "ascending (t # reply_times es)"
      using Cons.prems step_buffer [of e number s] reply_times_other [of e es] by auto
    then show ?thesis unfolding run by (rule Cons.IH)
  qed
qed

lemma y_range_contains:
  assumes "v \<in> set vs"
  shows "fst (y_range vs) < v" "v < snd (y_range vs)"
proof -
  obtain u us where vs: "vs = u # us" using assms by (cases vs) auto
  have lo: "fold min us u = Min (set vs)" and hi: "fold max us u = Max (set vs)"
    unfolding vs by (rule Min.set_eq_fold [symmetric], rule Max.set_eq_fold [symmetric])
  let ?pad = "if (Max (set vs) - Min (set vs)) / 10 = 0 then 1 else (Max (set vs) - Min (set vs)) / 10"
  have b: "Min (set vs) \<le> v" "v \<le> Max (set vs)" using assms by simp_all
  then have "Min (set vs) \<le> Max (set vs)" by simp
  then have pad: "0 < ?pad" by auto
  have "y_range vs = (Min (set vs) - ?pad, Max (set vs) + ?pad)"
    by (simp only: y_range_def vs list.case Let_def lo [unfolded vs] hi [unfolded vs])
  then show "fst (y_range vs) < v" "v < snd (y_range vs)" using b pad by simp_all
qed

lemma scaled_between:
  "0 \<le> r \<Longrightarrow> r \<le> 1 \<Longrightarrow> 0 < p \<Longrightarrow> 0 \<le> r * p \<and> r * p \<le> (p :: jsnum)"
  "0 < r \<Longrightarrow> r < 1 \<Longrightarrow> 0 < p \<Longrightarrow> 0 < (1 - r) * p \<and> (1 - r) * p < (p :: jsnum)"
  by (simp_all add: mult_left_le_one_le)

lemma curve_in_plot:
  assumes pts: "(x, y) \<in> set (curve c plotW plotH ch)"
    and plot: "0 < plotW" "0 < plotH" and view: "sc_view c = default_view" and win: "1 \<le> sc_window c"
    and sorted: "ascending (getTimestamps (sc_buffer c))"
  shows "padL \<le> x \<and> x \<le> padL + plotW \<and> padT < y \<and> y < padT + plotH"
proof -
  from pts obtain p where p: "p \<in> set (visible c)" "x = timeToX c plotW (dp_timestamp p)"
    "y = valToY c (y_range (map (sample ch) (visible c))) plotH (sample ch p)"
    by (auto simp: curve_def Let_def)
  let ?last = "last (getTimestamps (sc_buffer c))" and ?w = "sc_window c * 1000"
  let ?r = "(dp_timestamp p - (?last - ?w)) / ?w"
  have "dp_timestamp p \<in> set (getTimestamps (sc_buffer c))" and lo: "?last - ?w \<le> dp_timestamp p"
    using p(1) by (auto simp: visible_def getTimestamps_def Let_def)
  then have hi: "dp_timestamp p \<le> ?last"
    using sorted by (metis (no_types) append_butlast_last_id last_in_set list.distinct(1)
        set_ConsD sorted_append UnE set_append order_refl empty_iff empty_set)
  have r: "0 \<le> ?r" "?r \<le> 1" using lo hi win by (simp_all add: divide_le_eq)
  have x: "x = padL + ?r * plotW" using view by (simp add: p(2) timeToX_def default_view_def Let_def)
  let ?yr = "y_range (map (sample ch) (visible c))"
  have v: "fst ?yr < sample ch p" "sample ch p < snd ?yr" using y_range_contains [of "sample ch p"] p(1) by simp_all
  let ?q = "(sample ch p - fst ?yr) / (snd ?yr - fst ?yr)"
  have q: "0 < ?q" "?q < 1" using v by (simp_all add: divide_less_eq)
  have y: "y = padT + (1 - ?q) * plotH" using view by (simp add: p(3) valToY_def default_view_def Let_def)
  show ?thesis using scaled_between(1) [OF r plot(1)] scaled_between(2) [OF q plot(2)] unfolding x y by linarith
qed

text \<open>
  C22: in every session whose clock does not go back, the scope in its default view draws every curve
  inside the plot area: no sample is cut off at the sides, and none touches the upper or lower border.
\<close>

theorem scope_curves_inside:
  assumes "s = scope_run number es (new_scope bridge)" "ascending (reply_times es)"
    and "sp_canvas s = Some c" "sc_view c = default_view"
    and "(ch, pts) \<in> set (draw_curves w h c)" "(x, y) \<in> set pts"
  shows "padL \<le> x \<and> x \<le> w - padR \<and> padT < y \<and> y < h - padB"
proof -
  have inv: "scope_inv s" unfolding assms(1) by (intro scope_run_inv new_scope_inv)
  with assms(3) have fits: "canvas_fits s c" by (simp add: scope_inv_def)
  have "ascending (getTimestamps (sp_buffer s))"
  proof (cases "reply_times es")
    case Nil
    then have "ascending (0 # reply_times es)" by simp
    moreover have "clocked (sp_buffer (new_scope bridge)) 0" by (simp add: clocked_def new_scope_def new_buffer_def getTimestamps_def)
    ultimately show ?thesis unfolding assms(1) by (intro run_clocked)
  next
    case (Cons t ts)
    then have "ascending (t # reply_times es)" using assms(2) by simp
    moreover have "clocked (sp_buffer (new_scope bridge)) t" by (simp add: clocked_def new_scope_def new_buffer_def getTimestamps_def)
    ultimately show ?thesis unfolding assms(1) by (intro run_clocked)
  qed
  then have sorted: "ascending (getTimestamps (sc_buffer c))" and win: "1 \<le> sc_window c"
    using fits by (simp_all add: canvas_fits_def)
  from assms(5) have plot: "0 < w - padL - padR" "0 < h - padT - padB" "pts = curve c (w - padL - padR) (h - padT - padB) ch"
    by (auto simp: draw_curves_def Let_def split: if_splits)
  from curve_in_plot [OF _ plot(1,2) assms(4) win sorted, of x y ch] assms(6) plot(3) show ?thesis by simp
qed

definition scope_demo :: scope_panel where
  "scope_demo = scope_run (\<lambda>t. Some (if t = ''1'' then 1 else 0))
     [SAttach True, SChannel ''a'', SToggle, SReply 0 (Some [\<lparr>sig_name = ''a'', sig_value = ''1''\<rparr>]), STick 1,
      SReply 100 (Some [\<lparr>sig_name = ''a'', sig_value = ''0''\<rparr>])] (new_scope True)"

definition scope_demo_canvas :: scope_canvas where
  "scope_demo_canvas = \<lparr>sc_active = [''a''],
     sc_buffer = \<lparr>ts_max = MAX_POINTS, ts_points = [\<lparr>dp_timestamp = 0, dp_values = [(''a'', 1)]\<rparr>,
       \<lparr>dp_timestamp = 100, dp_values = [(''a'', 0)]\<rparr>], ts_channels = [''a'']\<rparr>,
     sc_window = 10, sc_view = default_view, sc_drag = None\<rparr>"

lemma scope_demo_canvas: "sp_canvas scope_demo = Some scope_demo_canvas"
  by (simp add: scope_demo_def scope_run_def new_scope_def mountCanvas_def new_scope_canvas_def set_timeWindowSec_def
      syncCanvasChannels_def toggleChannel_def togglePolling_def sp_fetch_def setInterval_def no_timers_def
      sp_reply_def numeric_values_def ts_push_def new_buffer_def js_add_def scope_demo_canvas_def MAX_POINTS_def Let_def)

lemma scope_demo_curve: "draw_curves 200 200 scope_demo_canvas
    = [(''a'', [(padL + 99 / 100 * 138, padT + (1 - 11 / 12) * 164), (padL + 138, padT + (1 - 1 / 12) * 164)])]"
  by (simp add: draw_curves_def scope_demo_canvas_def padL_def padR_def padT_def padB_def curve_def visible_def
      getTimestamps_def y_range_def sample_def timeToX_def valToY_def default_view_def Let_def)

lemma scope_curves_inside_witness:
  "padL \<le> padL + 99 / 100 * 138 \<and> padL + 99 / 100 * 138 \<le> 200 - padR
   \<and> padT < padT + (1 - 11 / 12) * 164 \<and> padT + (1 - 11 / 12) * 164 < 200 - padB"
proof -
  have view: "sc_view scope_demo_canvas = default_view" by (simp add: scope_demo_canvas_def)
  have pts: "(''a'', [(padL + 99 / 100 * 138, padT + (1 - 11 / 12) * 164), (padL + 138, padT + (1 - 1 / 12) * 164)])
      \<in> set (draw_curves 200 200 scope_demo_canvas)"
    unfolding scope_demo_curve by simp
  show ?thesis
    by (rule scope_curves_inside [OF scope_demo_def _ scope_demo_canvas view pts]) simp_all
qed

subsection \<open>CSV\<close>

text \<open>
  The exported CSV text is the table of the samples: read back by lines and commas it has a header
  with the active channels and one row per sample with its time and the value of each active channel, 0
  where the sample has none. This needs names and printed numbers without commas and line breaks.
\<close>

theorem csv_reads_back:
  assumes "ts_points (sc_buffer c) \<noteq> []"
    and names: "\<forall>ch \<in> set (sc_active c). CHR '','' \<notin> set ch \<and> CHR 0x0A \<notin> set ch"
    and nums: "\<forall>v. CHR '','' \<notin> set (num v) \<and> CHR 0x0A \<notin> set (num v)"
  shows "map (split_on (CHR '','')) (split_on (CHR 0x0A) (sc_exportCSV num c))
    = (''timestamp'' # sc_active c) # map (\<lambda>p. num (dp_timestamp p) # map (\<lambda>ch. num (sample ch p)) (sc_active c)) (ts_points (sc_buffer c))"
proof -
  let ?header = "''timestamp'' # sc_active c"
  let ?row = "\<lambda>p. num (dp_timestamp p) # map (\<lambda>ch. num (sample ch p)) (sc_active c)"
  have join_set: "set (join_with '','' xs) \<subseteq> insert (CHR '','') (\<Union>x \<in> set xs. set x)" for xs
    by (induction "'',''" xs rule: join_with.induct) auto
  have "CHR 0x0A \<notin> set (join_with '','' ?header)" "CHR 0x0A \<notin> set (csv_row num (sc_active c) p)" for p
    using join_set [of ?header] join_set [of "?row p"] names nums by (auto simp: csv_row_def subset_iff)
  then have "split_on (CHR 0x0A) (join_with [CHR 0x0A] (join_with '','' ?header # map (csv_row num (sc_active c)) (ts_points (sc_buffer c))))
      = join_with '','' ?header # map (csv_row num (sc_active c)) (ts_points (sc_buffer c))"
    by (intro split_on_join) auto
  then have "split_on (CHR 0x0A) (sc_exportCSV num c)
      = join_with '','' ?header # map (csv_row num (sc_active c)) (ts_points (sc_buffer c))"
    unfolding sc_exportCSV_def newline_def using assms(1) by (simp only: if_False)
  moreover have "split_on (CHR '','') (join_with '','' ?header) = ?header"
    by (rule split_on_join) (use names in auto)
  moreover have "split_on (CHR '','') (csv_row num (sc_active c) p) = ?row p" for p
    unfolding csv_row_def by (rule split_on_join) (use nums in auto)
  ultimately show ?thesis by simp
qed

lemma csv_reads_back_witness:
  "map (split_on (CHR '','')) (split_on (CHR 0x0A) (sc_exportCSV (\<lambda>v. if v = 0 then ''0'' else ''1'') scope_demo_canvas))
    = [[''timestamp'', ''a''], [''0'', ''1''], [''1'', ''0'']]"
  by (subst csv_reads_back) (simp_all add: scope_demo_canvas_def sample_def)

end
