(* ===== verification/VarTables.thy ===== *)
theory VarTables
  imports JsPrelude
begin

text \<open>
  The variable tables of weftik-core/src/browser: initial values (iec-types.ts), the global
  variable list (gvl-model.ts) and the local variable block of a program (local-var-model.ts).
  The regular expressions are written as the scanners they amount to: each of their loops
  stops at a character the rest of the pattern needs, so none of them backtracks to a
  different split. White space is the ASCII part of \<open>\s\<close>.
\<close>

subsection \<open>Initial values\<close>

definition IEC_TYPES :: "string list" where
  "IEC_TYPES = [''BOOL'', ''INT'', ''REAL'', ''TIME'', ''STRING'']"

definition isIecType :: "string \<Rightarrow> bool" where
  "isIecType type \<longleftrightarrow> type \<in> set IEC_TYPES"

definition all_digits :: "string \<Rightarrow> bool" where
  "all_digits s \<longleftrightarrow> s \<noteq> [] \<and> list_all digit_char s"

definition drop_sign :: "string \<Rightarrow> string" where
  "drop_sign s = (case s of c # cs \<Rightarrow> if c = CHR ''+'' \<or> c = CHR ''-'' then cs else s | [] \<Rightarrow> [])"

text \<open>\<open>([eE][+-]?\d+)?$\<close>.\<close>

definition exponent_end :: "string \<Rightarrow> bool" where
  "exponent_end s = (case s of [] \<Rightarrow> True
     | c # cs \<Rightarrow> (c = CHR ''e'' \<or> c = CHR ''E'') \<and> all_digits (drop_sign cs))"

definition real_text :: "string \<Rightarrow> bool" where
  "real_text s =
     (let s = drop_sign s; whole = takeWhile digit_char s; rest = dropWhile digit_char s in
      case rest of
        c # cs \<Rightarrow>
          if c = CHR ''.'' then
            (whole \<noteq> [] \<or> takeWhile digit_char cs \<noteq> []) \<and> exponent_end (dropWhile digit_char cs)
          else whole \<noteq> [] \<and> exponent_end rest
      | [] \<Rightarrow> whole \<noteq> [])"

definition quoted_by :: "char \<Rightarrow> string \<Rightarrow> bool" where
  "quoted_by q s \<longleftrightarrow> 2 \<le> length s \<and> hd s = q \<and> last s = q"

definition got :: "string \<Rightarrow> string" where
  "got t = '' (got '' @ dq @ t @ dq @ '')''"

definition validateInit :: "string \<Rightarrow> string \<Rightarrow> string option" where
  "validateInit type init =
     (let t = trim init in
      if t = [] then None
      else if type = ''BOOL'' then
        (if toUpperCase t \<in> set [''TRUE'', ''FALSE'', ''0'', ''1''] then None
         else Some (''BOOL value must be TRUE, FALSE, 0, or 1'' @ got t))
      else if type = ''INT'' then
        (if all_digits (drop_sign t) then None else Some (''INT value must be an integer'' @ got t))
      else if type = ''REAL'' then
        (if real_text t then None else Some (''REAL value must be a number'' @ got t))
      else if type = ''TIME'' then
        (if starts_with ''T#'' t \<or> all_digits t then None
         else Some (''TIME value must start with T# or be a plain integer in seconds'' @ got t))
      else if type = ''STRING'' then
        (if quoted_by (CHR 0x27) t \<or> quoted_by (CHR 0x22) t then None
         else Some (''STRING value must be wrapped in single or double quotes'' @ got t))
      else Some (''Unknown IEC type '' @ dq @ type @ dq))"

subsection \<open>Declaration lines\<close>

record gvl_variable =
  v_name :: string
  v_type :: string
  v_init :: string
  v_comment :: string

definition ident_start :: "char \<Rightarrow> bool" where
  "ident_start c \<longleftrightarrow> (let n = of_char c :: nat in 65 \<le> n \<and> n \<le> 90 \<or> 97 \<le> n \<and> n \<le> 122) \<or> c = CHR ''_''"

definition ident_char :: "char \<Rightarrow> bool" where
  "ident_char c \<longleftrightarrow> ident_start c \<or> digit_char c"

definition iec_identifier :: "string \<Rightarrow> bool" where
  "iec_identifier s \<longleftrightarrow> s \<noteq> [] \<and> ident_start (hd s) \<and> list_all ident_char s"

definition skip_spaces :: "string \<Rightarrow> string" where
  "skip_spaces s = dropWhile js_space s"

text \<open>An identifier and the rest of the line, and one expected character.\<close>

definition scan_ident :: "string \<Rightarrow> (string \<times> string) option" where
  "scan_ident s = (case s of [] \<Rightarrow> None
     | c # cs \<Rightarrow> if ident_start c then Some (takeWhile ident_char s, dropWhile ident_char s) else None)"

definition scan_char :: "char \<Rightarrow> string \<Rightarrow> string option" where
  "scan_char x s = (case s of [] \<Rightarrow> None | c # cs \<Rightarrow> if c = x then Some cs else None)"

text \<open>\<open>(?::=\s*([^;]*?))?\s*;\<close>: the initial value reaches to the first semicolon.\<close>

definition scan_init :: "string \<Rightarrow> (string \<times> string) option" where
  "scan_init s =
     (if starts_with '':='' s then
        (let r = drop 2 s in
         map_option (\<lambda>rest. (takeWhile (\<lambda>c. c \<noteq> CHR '';'') r, rest))
           (scan_char (CHR '';'') (dropWhile (\<lambda>c. c \<noteq> CHR '';'') r)))
      else map_option (\<lambda>rest. ([], rest)) (scan_char (CHR '';'') s))"

text \<open>\<open>(?:\(\*\s*([\s\S]*?)\s*\*\))?\s*$\<close>: a comment reaches to the end of the line.\<close>

definition right_trim :: "string \<Rightarrow> string" where
  "right_trim s = rev (dropWhile js_space (rev s))"

definition scan_comment :: "string \<Rightarrow> string option" where
  "scan_comment s =
     (if s = [] then Some []
      else if starts_with ''(*'' s \<and> starts_with '')*'' (rev (right_trim (drop 2 s)))
      then Some (rev (drop 2 (rev (right_trim (drop 2 s)))))
      else None)"

definition GVL_VAR_LINE :: "string \<Rightarrow> gvl_variable option" where
  "GVL_VAR_LINE line =
     Option.bind (scan_ident (skip_spaces line)) (\<lambda>(name, r).
     Option.bind (scan_char (CHR '':'') (skip_spaces r)) (\<lambda>r.
     Option.bind (scan_ident (skip_spaces r)) (\<lambda>(type, r).
     Option.bind (scan_init (skip_spaces r)) (\<lambda>(init, r).
     Option.bind (scan_comment (skip_spaces r)) (\<lambda>comment.
       Some \<lparr>v_name = name, v_type = type, v_init = trim init, v_comment = trim comment\<rparr>)))))"

subsection \<open>Lines of a text\<close>

fun split_nl :: "string \<Rightarrow> string list" where
  "split_nl [] = [[]]"
| "split_nl (c # cs) = (if c = CHR 0x0A then [] # split_nl cs
     else (case split_nl cs of l # ls \<Rightarrow> (c # l) # ls | [] \<Rightarrow> [[c]]))"

definition strip_cr :: "string \<Rightarrow> string" where
  "strip_cr l = (if l \<noteq> [] \<and> last l = CHR 0x0D then butlast l else l)"

text \<open>\<open>text.split(/\r?\n/)\<close>: the carriage return belongs to the separator.\<close>

definition split_lines :: "string \<Rightarrow> string list" where
  "split_lines text = (let ls = split_nl text in map strip_cr (butlast ls) @ [last ls])"

subsection \<open>The global variable list\<close>

fun gvl_lines :: "bool \<Rightarrow> string list \<Rightarrow> gvl_variable list" where
  "gvl_lines inBlock [] = []"
| "gvl_lines inBlock (raw # ls) =
     (let line = trim raw in
      if starts_with ''VAR_GLOBAL'' line then gvl_lines True ls
      else if starts_with ''END_VAR'' line then gvl_lines False ls
      else if \<not> inBlock \<or> line = [] \<or> starts_with ''(*'' line then gvl_lines inBlock ls
      else (case GVL_VAR_LINE line of
          Some v \<Rightarrow> v # gvl_lines inBlock ls
        | None \<Rightarrow> gvl_lines inBlock ls))"

definition parseGvl :: "string \<Rightarrow> gvl_variable list" where
  "parseGvl text = gvl_lines False (split_lines text)"

definition var_row :: "gvl_variable \<Rightarrow> string" where
  "var_row v = ''    '' @ v_name v @ '' : '' @ v_type v @
     (if v_init v \<noteq> [] then '' := '' @ v_init v else []) @ '';'' @
     (if v_comment v \<noteq> [] then '' (* '' @ v_comment v @ '' *)'' else [])"

definition serializeGvl :: "gvl_variable list \<Rightarrow> string" where
  "serializeGvl vars = join_with newline ([''VAR_GLOBAL''] @ map var_row vars @ [''END_VAR'', []])"

subsection \<open>The local variable block\<close>

definition findFirstLocalVarBlock :: "string \<Rightarrow> (nat \<times> nat) option" where
  "findFirstLocalVarBlock text =
     (let lines = split_lines text in
      case findIndex (\<lambda>l. trim l = ''VAR'') lines of
        None \<Rightarrow> None
      | Some start \<Rightarrow>
          map_option (\<lambda>k. (start, start + 1 + k))
            (findIndex (\<lambda>l. trim l = ''END_VAR'') (drop (start + 1) lines)))"

fun local_lines :: "string list \<Rightarrow> gvl_variable list" where
  "local_lines [] = []"
| "local_lines (raw # ls) =
     (let line = trim raw in
      if line = [] \<or> starts_with ''(*'' line then local_lines ls
      else (case GVL_VAR_LINE line of Some v \<Rightarrow> v # local_lines ls | None \<Rightarrow> local_lines ls))"

definition parseLocalVars :: "string \<Rightarrow> gvl_variable list" where
  "parseLocalVars text = (case findFirstLocalVarBlock text of
     None \<Rightarrow> []
   | Some (startLine, endLine) \<Rightarrow>
       local_lines (take (endLine - (startLine + 1)) (drop (startLine + 1) (split_lines text))))"

definition eol_of :: "string \<Rightarrow> string" where
  "eol_of text = (if str_includes text [CHR 0x0D, CHR 0x0A] then [CHR 0x0D, CHR 0x0A] else newline)"

definition serializeLocalVars :: "string \<Rightarrow> gvl_variable list \<Rightarrow> string" where
  "serializeLocalVars originalText vars = (case findFirstLocalVarBlock originalText of
     None \<Rightarrow> originalText
   | Some (startLine, endLine) \<Rightarrow>
       (let lines = split_lines originalText in
        join_with (eol_of originalText)
          (take (startLine + 1) lines @ map var_row vars @ drop endLine lines)))"

end
