(* ===== verification/VarRefs.thy ===== *)
theory VarRefs
  imports VarTables
begin

text \<open>
  The names a program body refers to (weftik-core/src/browser/var-reference-model.ts), with the
  regular expressions as scanners: a string literal ends where backtracking lets it end, a
  comment at the first closing bracket, a time literal before white space or a semicolon.
\<close>

definition KEYWORDS :: "string list" where
  "KEYWORDS = [''PROGRAM'', ''END_PROGRAM'', ''FUNCTION'', ''END_FUNCTION'', ''FUNCTION_BLOCK'',
    ''END_FUNCTION_BLOCK'', ''METHOD'', ''END_METHOD'', ''VAR'', ''END_VAR'',
    ''VAR_INPUT'', ''VAR_OUTPUT'', ''VAR_IN_OUT'', ''VAR_TEMP'', ''VAR_GLOBAL'',
    ''VAR_EXTERNAL'', ''VAR_ACCESS'', ''VAR_CONFIG'', ''IF'', ''THEN'', ''ELSE'',
    ''ELSIF'', ''ELSEIF'', ''END_IF'', ''CASE'', ''OF'', ''END_CASE'', ''FOR'', ''TO'',
    ''BY'', ''DO'', ''END_FOR'', ''WHILE'', ''END_WHILE'', ''REPEAT'', ''UNTIL'',
    ''END_REPEAT'', ''RETURN'', ''EXIT'', ''NOT'', ''AND'', ''OR'', ''XOR'', ''MOD'',
    ''AND_THEN'', ''OR_ELSE'', ''TRUE'', ''FALSE'', ''GOTO'', ''TYPE'', ''END_TYPE'',
    ''STRUCT'', ''END_STRUCT'', ''ARRAY'', ''UNION'', ''END_UNION'', ''INTERFACE'',
    ''END_INTERFACE'', ''IMPLEMENTS'', ''EXTENDS'', ''CONSTANT'', ''RETAIN'',
    ''NON_RETAIN'', ''AT'', ''BY_REF'', ''BY_VALUE'', ''REF'', ''REFERENCE'', ''THIS'',
    ''SUPER'', ''SELF'', ''NULL'', ''STEP'', ''END_STEP'', ''TRANSITION'',
    ''END_TRANSITION'', ''INITIAL_STEP'', ''ACTION'', ''END_ACTION'',
    ''BOOL'', ''BYTE'', ''WORD'', ''DWORD'', ''LWORD'', ''SINT'', ''INT'', ''DINT'', ''LINT'',
    ''USINT'', ''UINT'', ''UDINT'', ''ULINT'', ''REAL'', ''LREAL'', ''TIME'', ''DATE'',
    ''TOD'', ''DT'', ''TIME_OF_DAY'', ''DATE_AND_TIME'', ''STRING'', ''WSTRING'',
    ''CHAR'', ''WCHAR'', ''ENUM'', ''TIME_ADAPT'']"

subsection \<open>The body of a program\<close>

text \<open>\<open>/^\s*WORD\b/i\<close> on a trimmed line.\<close>

definition begins_with_word :: "string \<Rightarrow> string \<Rightarrow> bool" where
  "begins_with_word w line =
     (let l = skip_spaces (trim line) in
      starts_with w (toUpperCase l) \<and> (case drop (length w) l of [] \<Rightarrow> True | c # cs \<Rightarrow> \<not> ident_char c))"

definition body_start :: "string \<Rightarrow> nat" where
  "body_start t = (case findFirstLocalVarBlock t of
     Some (startLine, endLine) \<Rightarrow> endLine + 1
   | None \<Rightarrow> (case findIndex (begins_with_word ''PROGRAM'') (split_lines t) of
       Some k \<Rightarrow> k + 1 | None \<Rightarrow> 0))"

definition body_lines :: "string \<Rightarrow> string list" where
  "body_lines t =
     (let lines = split_lines t; start = body_start t;
          end_line = (case findIndex (begins_with_word ''END_PROGRAM'') (drop start lines) of
              Some k \<Rightarrow> start + k | None \<Rightarrow> length lines)
      in take (end_line - start) (drop start lines))"

definition extractProgramBody :: "string \<Rightarrow> string" where
  "extractProgramBody t = join_with newline (body_lines t)"

subsection \<open>Removing literals and comments\<close>

abbreviation quote_char :: char where
  "quote_char \<equiv> CHR 0x27"

text \<open>
  \<open>(?:[^']|'')*'\<close> after the opening quote: a doubled quote is taken as one character if
  the literal ends later, otherwise its first half ends the literal.
\<close>

fun close_quote :: "string \<Rightarrow> string option" where
  "close_quote [] = None"
| "close_quote (c # s) =
     (if c \<noteq> quote_char then close_quote s
      else (case s of
          d # r \<Rightarrow> if d = quote_char then (case close_quote r of Some t \<Rightarrow> Some t | None \<Rightarrow> Some s) else Some s
        | [] \<Rightarrow> Some []))"

lemma close_quote_length: "close_quote s = Some r \<Longrightarrow> length r < length s"
proof (induction s arbitrary: r rule: close_quote.induct)
  case (2 c s)
  show ?case
  proof (cases "c \<noteq> quote_char")
    case True
    with 2 show ?thesis by fastforce
  next
    case q: False
    show ?thesis
    proof (cases s)
      case (Cons d t)
      with q 2 show ?thesis by (cases "close_quote t") (fastforce split: if_splits)+
    qed (use q 2(3) in simp)
  qed
qed simp

function strip_strings :: "string \<Rightarrow> string" where
  "strip_strings [] = []"
| "strip_strings (c # s) =
     (if c = quote_char then (case close_quote s of Some r \<Rightarrow> strip_strings r | None \<Rightarrow> c # strip_strings s)
      else c # strip_strings s)"
  by pat_completeness auto

termination
  by (relation "measure length") (auto dest: close_quote_length)

fun after_comment :: "string \<Rightarrow> string option" where
  "after_comment [] = None"
| "after_comment (c # s) = (if c = CHR ''*'' \<and> s \<noteq> [] \<and> hd s = CHR '')'' then Some (tl s) else after_comment s)"

lemma after_comment_length: "after_comment s = Some r \<Longrightarrow> length r < length s"
  by (induction s) (auto split: if_splits)

function strip_comments :: "string \<Rightarrow> string" where
  "strip_comments [] = []"
| "strip_comments (c # s) =
     (if c = CHR ''('' \<and> s \<noteq> [] \<and> hd s = CHR ''*'' then
        (case after_comment (tl s) of Some r \<Rightarrow> strip_comments r | None \<Rightarrow> c # strip_comments s)
      else c # strip_comments s)"
  by pat_completeness auto

termination
  by (relation "measure length") (auto dest!: after_comment_length)

definition TIME_PREFIXES :: "string list" where
  "TIME_PREFIXES = [''T#'', ''TIME#'', ''D#'', ''DATE#'', ''TOD#'', ''DT#'', ''DATE_AND_TIME#'']"

lemma time_prefix_pos: "p \<in> set TIME_PREFIXES \<Longrightarrow> 0 < length p"
  by (auto simp: TIME_PREFIXES_def)

text \<open>The flag says that the character before is part of a word, so that \<open>\b\<close> fails.\<close>

function strip_times :: "bool \<Rightarrow> string \<Rightarrow> string" where
  "strip_times in_word [] = []"
| "strip_times in_word (c # s) =
     (case List.find (\<lambda>p. starts_with p (c # s)) TIME_PREFIXES of
        Some p \<Rightarrow> if in_word then c # strip_times (ident_char c) s
          else strip_times False (dropWhile (\<lambda>d. \<not> js_space d \<and> d \<noteq> CHR '';'') (drop (length p) (c # s)))
      | None \<Rightarrow> c # strip_times (ident_char c) s)"
  by pat_completeness auto

termination
proof (relation "measure (\<lambda>(b, s). length s)")
  fix b :: bool and c s p
  assume "List.find (\<lambda>p. starts_with p (c # s)) TIME_PREFIXES = Some p"
  then have "0 < length p" by (intro time_prefix_pos) (auto dest: find_SomeD)
  then show "((False, dropWhile (\<lambda>d. \<not> js_space d \<and> d \<noteq> CHR '';'') (drop (length p) (c # s))), b, c # s)
      \<in> measure (\<lambda>(b, s). length s)"
    using length_dropWhile_le [of "\<lambda>d. \<not> js_space d \<and> d \<noteq> CHR '';''" "drop (length p) (c # s)"]
    by (cases p) auto
qed simp_all

definition cleaned :: "string \<Rightarrow> string" where
  "cleaned code = strip_times False (strip_comments (strip_strings code))"

subsection \<open>Names\<close>

text \<open>The matches of \<open>[A-Za-z_][A-Za-z0-9_]*\<close>, in order.\<close>

function identifiers :: "string \<Rightarrow> string list" where
  "identifiers [] = []"
| "identifiers (c # s) =
     (if ident_start c then takeWhile ident_char (c # s) # identifiers (dropWhile ident_char s) else identifiers s)"
  by pat_completeness auto

termination
proof (relation "measure length")
  fix c :: char and s
  show "(dropWhile ident_char s, c # s) \<in> measure length"
    using length_dropWhile_le [of ident_char s] by simp
qed simp_all

definition collect_refs :: "string list \<Rightarrow> string list" where
  "collect_refs names = fold (\<lambda>n refs. if n \<in> set KEYWORDS then refs else js_add n refs) names []"

definition extractVarReferences :: "string \<Rightarrow> string list" where
  "extractVarReferences code = collect_refs (identifiers (cleaned code))"

definition findUndeclaredRefs :: "string \<Rightarrow> string list \<Rightarrow> string list" where
  "findUndeclaredRefs code declaredVarNames =
     fold (\<lambda>r out. if r \<notin> set declaredVarNames \<and> r \<notin> set out then out @ [r] else out) (extractVarReferences code) []"

subsection \<open>What is found\<close>

lemma collect_refs_snoc:
  "collect_refs (names @ [n]) = (if n \<in> set KEYWORDS then collect_refs names else js_add n (collect_refs names))"
  by (simp add: collect_refs_def)

lemma collect_refs_facts:
  "distinct (collect_refs names) \<and> set (collect_refs names) = set names - set KEYWORDS"
proof (induction names rule: rev_induct)
  case (snoc n names)
  then show ?case by (auto simp: collect_refs_snoc)
qed (simp add: collect_refs_def)

lemma undeclared_fold:
  "distinct refs \<Longrightarrow> fold (\<lambda>r out. if r \<notin> set ds \<and> r \<notin> set out then out @ [r] else out) refs []
     = filter (\<lambda>r. r \<notin> set ds) refs"
proof (induction refs rule: rev_induct)
  case (snoc r refs)
  then show ?case by auto
qed simp

lemma findUndeclaredRefs_filter:
  "findUndeclaredRefs code ds = filter (\<lambda>r. r \<notin> set ds) (extractVarReferences code)"
  unfolding findUndeclaredRefs_def extractVarReferences_def
  by (rule undeclared_fold) (simp add: collect_refs_facts)

lemma set_undeclared:
  "set (findUndeclaredRefs code ds) = set (identifiers (cleaned code)) - set KEYWORDS - set ds"
  using collect_refs_facts by (auto simp: findUndeclaredRefs_filter extractVarReferences_def)

lemma distinct_undeclared: "distinct (findUndeclaredRefs code ds)"
  using collect_refs_facts by (simp add: findUndeclaredRefs_filter extractVarReferences_def)

lemma identifiers_iec: "x \<in> set (identifiers s) \<Longrightarrow> iec_identifier x"
proof (induction s rule: identifiers.induct)
  case (2 c s)
  have "iec_identifier (takeWhile ident_char (c # s))" if "ident_start c"
    using that by (auto simp: iec_identifier_def ident_char_def list_all_iff dest: set_takeWhileD)
  with 2 show ?case by (auto split: if_splits)
qed simp

end
