(* ===== verification/VarPanels.thy ===== *)
theory VarPanels
  imports VarRefs
begin

text \<open>
  The tables of local and global variables (weftik-core/src/browser: local-var-view and gvl-view):
  panels that follow the active editor. Reading and writing the file are awaited, so the events
  of the user come between a request and its answer; the files are a map from URIs to texts. Error
  messages leave out the reason the file service gives.
\<close>

type_synonym files = "(string, string) jsmap"

subsection \<open>Local variables\<close>

record local_panel =
  lp_uri :: "string option"
  lp_text :: string
  lp_vars :: "gvl_variable list"
  lp_error :: "string option"
  lp_loading :: bool
  lp_dirty :: bool

definition EMPTY_STATE :: local_panel where
  "EMPTY_STATE = \<lparr>lp_uri = None, lp_text = [], lp_vars = [], lp_error = None, lp_loading = False, lp_dirty = False\<rparr>"

text \<open>The panel with the files, the reads in flight and the writes in flight (file, text, rows).\<close>

record local_world =
  lw_panel :: local_panel
  lw_files :: files
  lw_reads :: "string list"
  lw_writes :: "(string \<times> string \<times> gvl_variable list) list"

definition LOCAL_VAR_EXTS :: "string list" where
  "LOCAL_VAR_EXTS = [''.st'', ''.il'']"

text \<open>\<open>handleActiveEditor\<close>; no editor has the URI \<open>''''\<close>.\<close>

definition lp_activeEditor :: "string \<Rightarrow> local_world \<Rightarrow> local_world" where
  "lp_activeEditor uri w =
     (let p = lw_panel w in
      if \<not> list_ex (\<lambda>ext. ends_with ext (toLowerCase uri)) LOCAL_VAR_EXTS then
        (if lp_uri p \<noteq> None then w\<lparr>lw_panel := EMPTY_STATE\<rparr> else w)
      else if Some uri = lp_uri p then w
      else w\<lparr>lw_panel := p\<lparr>lp_uri := Some uri, lp_loading := True, lp_error := None\<rparr>,
             lw_reads := lw_reads w @ [uri]\<rparr>)"

text \<open>A read ends: the file's text, or a failure.\<close>

definition lp_loaded :: "nat \<Rightarrow> local_world \<Rightarrow> local_world" where
  "lp_loaded k w = (if k < length (lw_reads w) then
     (let uri = lw_reads w ! k; w1 = w\<lparr>lw_reads := splice_remove k (lw_reads w)\<rparr>; p = lw_panel w in
      case map_of (lw_files w) uri of
        Some t \<Rightarrow> w1\<lparr>lw_panel := p\<lparr>lp_text := t, lp_vars := parseLocalVars t, lp_loading := False, lp_dirty := False\<rparr>\<rparr>
      | None \<Rightarrow> w1\<lparr>lw_panel := p\<lparr>lp_vars := [], lp_loading := False, lp_error := Some ''Failed to read file''\<rparr>\<rparr>)
     else w)"

definition named_rows :: "gvl_variable list \<Rightarrow> gvl_variable list" where
  "named_rows vars = filter (\<lambda>v. trim (v_name v) \<noteq> []) vars"

definition lp_save :: "local_world \<Rightarrow> local_world" where
  "lp_save w = (let p = lw_panel w in case lp_uri p of
     None \<Rightarrow> w
   | Some uri \<Rightarrow> (let valid = named_rows (lp_vars p)
       in w\<lparr>lw_writes := lw_writes w @ [(uri, serializeLocalVars (lp_text p) valid, valid)]\<rparr>))"

text \<open>A write ends; the continuation of \<open>save\<close> sets the state, whatever file is shown now.\<close>

definition lp_saved :: "nat \<Rightarrow> bool \<Rightarrow> local_world \<Rightarrow> local_world" where
  "lp_saved k written w = (if k < length (lw_writes w) then
     (let (uri, text', valid) = lw_writes w ! k; w1 = w\<lparr>lw_writes := splice_remove k (lw_writes w)\<rparr>; p = lw_panel w in
      if written then w1\<lparr>lw_files := js_set uri text' (lw_files w),
          lw_panel := p\<lparr>lp_text := text', lp_vars := valid, lp_dirty := False, lp_error := None\<rparr>\<rparr>
      else w1\<lparr>lw_panel := p\<lparr>lp_error := Some ''Failed to save''\<rparr>\<rparr>)
     else w)"

definition update_row :: "nat \<Rightarrow> (gvl_variable \<Rightarrow> gvl_variable) \<Rightarrow> gvl_variable list \<Rightarrow> gvl_variable list" where
  "update_row index patch vars = map_index (\<lambda>i v. if i = index then patch v else v) vars"

definition new_row :: gvl_variable where
  "new_row = \<lparr>v_name = [], v_type = ''BOOL'', v_init = [], v_comment = []\<rparr>"

definition remove_row :: "nat \<Rightarrow> gvl_variable list \<Rightarrow> gvl_variable list" where
  "remove_row index vars = map snd (filter (\<lambda>(i, v). i \<noteq> index) (enumerate 0 vars))"

definition edit_rows :: "(gvl_variable list \<Rightarrow> gvl_variable list) \<Rightarrow> local_world \<Rightarrow> local_world" where
  "edit_rows f w = w\<lparr>lw_panel := (lw_panel w)\<lparr>lp_vars := f (lp_vars (lw_panel w)), lp_dirty := True\<rparr>\<rparr>"

text \<open>The hint below the table.\<close>

definition undeclared_hint :: "local_panel \<Rightarrow> string list" where
  "undeclared_hint p = (if lp_uri p = None \<or> lp_text p = [] then []
     else findUndeclaredRefs (extractProgramBody (lp_text p))
       (filter (\<lambda>n. n \<noteq> []) (map (\<lambda>v. trim (v_name v)) (lp_vars p))))"

datatype table_event =
    TActive string
  | TLoaded nat
  | TUpdate nat "gvl_variable \<Rightarrow> gvl_variable"
  | TAdd
  | TRemove nat
  | TSave
  | TSaved nat bool
  | TFileChanged string string \<comment> \<open>another program writes the file\<close>

text \<open>The Add button needs a file, the Save button unsaved rows.\<close>

fun local_step :: "table_event \<Rightarrow> local_world \<Rightarrow> local_world" where
  "local_step (TActive uri) w = lp_activeEditor uri w"
| "local_step (TLoaded k) w = lp_loaded k w"
| "local_step (TUpdate i patch) w = edit_rows (update_row i patch) w"
| "local_step TAdd w = (if lp_uri (lw_panel w) = None then w else edit_rows (\<lambda>vs. vs @ [new_row]) w)"
| "local_step (TRemove i) w = edit_rows (remove_row i) w"
| "local_step TSave w = (if lp_dirty (lw_panel w) then lp_save w else w)"
| "local_step (TSaved k written) w = lp_saved k written w"
| "local_step (TFileChanged uri t) w = w\<lparr>lw_files := js_set uri t (lw_files w)\<rparr>"

definition local_run :: "table_event list \<Rightarrow> local_world \<Rightarrow> local_world" where
  "local_run es w = fold local_step es w"

definition new_local :: "files \<Rightarrow> local_world" where
  "new_local fs = \<lparr>lw_panel = EMPTY_STATE, lw_files = fs, lw_reads = [], lw_writes = []\<rparr>"

subsection \<open>Global variables\<close>

record gvl_panel =
  gp_uri :: "string option"
  gp_vars :: "gvl_variable list"
  gp_error :: "string option"
  gp_loading :: bool
  gp_dirty :: bool

definition EMPTY_GVL_STATE :: gvl_panel where
  "EMPTY_GVL_STATE = \<lparr>gp_uri = None, gp_vars = [], gp_error = None, gp_loading = False, gp_dirty = False\<rparr>"

record gvl_world =
  gw_panel :: gvl_panel
  gw_files :: files
  gw_reads :: "string list"
  gw_writes :: "(string \<times> string \<times> gvl_variable list) list"

definition gp_activeEditor :: "string \<Rightarrow> gvl_world \<Rightarrow> gvl_world" where
  "gp_activeEditor uri w =
     (let p = gw_panel w in
      if \<not> ends_with ''.gvl'' (toLowerCase uri) then (if gp_uri p \<noteq> None then w\<lparr>gw_panel := EMPTY_GVL_STATE\<rparr> else w)
      else if Some uri = gp_uri p then w
      else w\<lparr>gw_panel := p\<lparr>gp_uri := Some uri, gp_loading := True, gp_error := None\<rparr>,
             gw_reads := gw_reads w @ [uri]\<rparr>)"

definition gp_loaded :: "nat \<Rightarrow> gvl_world \<Rightarrow> gvl_world" where
  "gp_loaded k w = (if k < length (gw_reads w) then
     (let uri = gw_reads w ! k; w1 = w\<lparr>gw_reads := splice_remove k (gw_reads w)\<rparr>; p = gw_panel w in
      case map_of (gw_files w) uri of
        Some t \<Rightarrow> w1\<lparr>gw_panel := p\<lparr>gp_vars := parseGvl t, gp_loading := False, gp_dirty := False\<rparr>\<rparr>
      | None \<Rightarrow> w1\<lparr>gw_panel := p\<lparr>gp_vars := [], gp_loading := False, gp_error := Some ''Failed to read GVL''\<rparr>\<rparr>)
     else w)"

definition gp_save :: "gvl_world \<Rightarrow> gvl_world" where
  "gp_save w = (let p = gw_panel w in case gp_uri p of
     None \<Rightarrow> w
   | Some uri \<Rightarrow> (let valid = named_rows (gp_vars p)
       in w\<lparr>gw_writes := gw_writes w @ [(uri, serializeGvl valid, valid)]\<rparr>))"

definition gp_saved :: "nat \<Rightarrow> bool \<Rightarrow> gvl_world \<Rightarrow> gvl_world" where
  "gp_saved k written w = (if k < length (gw_writes w) then
     (let (uri, text', valid) = gw_writes w ! k; w1 = w\<lparr>gw_writes := splice_remove k (gw_writes w)\<rparr>; p = gw_panel w in
      if written then w1\<lparr>gw_files := js_set uri text' (gw_files w),
          gw_panel := p\<lparr>gp_vars := valid, gp_dirty := False, gp_error := None\<rparr>\<rparr>
      else w1\<lparr>gw_panel := p\<lparr>gp_error := Some ''Failed to save GVL''\<rparr>\<rparr>)
     else w)"

definition edit_gvl :: "(gvl_variable list \<Rightarrow> gvl_variable list) \<Rightarrow> gvl_world \<Rightarrow> gvl_world" where
  "edit_gvl f w = w\<lparr>gw_panel := (gw_panel w)\<lparr>gp_vars := f (gp_vars (gw_panel w)), gp_dirty := True\<rparr>\<rparr>"

fun gvl_step :: "table_event \<Rightarrow> gvl_world \<Rightarrow> gvl_world" where
  "gvl_step (TActive uri) w = gp_activeEditor uri w"
| "gvl_step (TLoaded k) w = gp_loaded k w"
| "gvl_step (TUpdate i patch) w = edit_gvl (update_row i patch) w"
| "gvl_step TAdd w = (if gp_uri (gw_panel w) = None then w else edit_gvl (\<lambda>vs. vs @ [new_row]) w)"
| "gvl_step (TRemove i) w = edit_gvl (remove_row i) w"
| "gvl_step TSave w = (if gp_dirty (gw_panel w) then gp_save w else w)"
| "gvl_step (TSaved k written) w = gp_saved k written w"
| "gvl_step (TFileChanged uri t) w = w\<lparr>gw_files := js_set uri t (gw_files w)\<rparr>"

definition gvl_run :: "table_event list \<Rightarrow> gvl_world \<Rightarrow> gvl_world" where
  "gvl_run es w = fold gvl_step es w"

definition new_gvl :: "files \<Rightarrow> gvl_world" where
  "new_gvl fs = \<lparr>gw_panel = EMPTY_GVL_STATE, gw_files = fs, gw_reads = [], gw_writes = []\<rparr>"

end
