(* ===== verification/VarProps.thy ===== *)
theory VarProps
  imports VarTables
begin

text \<open>
  Properties of the variable tables: what is saved is read back, in the global list and in
  the local block, the rest of the program is kept, and which initial values are lost.
\<close>

subsection \<open>Trimming\<close>

lemma trim_fixed: "s = [] \<or> \<not> js_space (hd s) \<and> \<not> js_space (last s) \<Longrightarrow> trim s = s"
  by (cases "s = []") (simp_all add: trim_def dropWhile_eq_self_iff [THEN iffD2] hd_rev)

lemma trim_fixedD:
  assumes "trim s = s" "s \<noteq> []"
  shows "\<not> js_space (hd s) \<and> \<not> js_space (last s)"
proof -
  let ?d = "dropWhile js_space s"
  have "length s \<le> length ?d"
    using length_dropWhile_le [of js_space "rev ?d"] assms(1) by (metis length_rev trim_def)
  then have d: "?d = s" using length_dropWhile_le [of js_space s]
    by (metis append_self_conv2 le_antisym length_append length_greater_0_conv
        less_add_same_cancel2 takeWhile_dropWhile_id)
  have "rev (dropWhile js_space (rev s)) = s" using assms(1) by (simp add: trim_def d)
  then have "dropWhile js_space (rev s) = rev s" by (metis rev_rev_ident)
  with d assms(2) show ?thesis by (auto simp: dropWhile_eq_self_iff hd_rev)
qed

lemma trim_Cons_space [simp]: "js_space c \<Longrightarrow> trim (c # s) = trim s"
  by (simp add: trim_def)

lemma trim_spaces: "list_all js_space w \<Longrightarrow> trim (w @ s) = trim s"
  by (induction w) simp_all

lemma trim_snoc_space:
  assumes "js_space c"
  shows "trim (s @ [c]) = trim s"
proof (cases "\<forall>x \<in> set s. js_space x")
  case True
  then have "dropWhile js_space s = []" "dropWhile js_space (s @ [c]) = []"
    using assms by auto
  then show ?thesis unfolding trim_def by (simp only:)
next
  case False
  then have "dropWhile js_space (s @ [c]) = dropWhile js_space s @ [c]"
    by (auto simp: dropWhile_append)
  with assms show ?thesis by (simp add: trim_def)
qed

lemma trim_padded: "trim s = s \<Longrightarrow> trim (CHR '' '' # s) = s \<and> trim (CHR '' '' # s @ '' '') = s"
proof -
  have "js_space (CHR '' '')" by (simp add: js_space_def)
  then show "trim s = s \<Longrightarrow> ?thesis" by (simp add: trim_snoc_space)
qed

lemma right_trim_fixed: "s = [] \<or> \<not> js_space (last s) \<Longrightarrow> right_trim s = s"
  by (cases "s = []") (simp_all add: right_trim_def dropWhile_eq_self_iff [THEN iffD2] hd_rev)

subsection \<open>One declaration\<close>

definition wf_variable :: "gvl_variable \<Rightarrow> bool" where
  "wf_variable v \<longleftrightarrow> iec_identifier (v_name v) \<and> iec_identifier (v_type v) \<and>
     trim (v_init v) = v_init v \<and> CHR 0x0A \<notin> set (v_init v) \<and>
     trim (v_comment v) = v_comment v \<and> CHR 0x0A \<notin> set (v_comment v)"

lemma ident_char_not_space: "ident_char c \<Longrightarrow> \<not> js_space c"
  by (auto simp: ident_char_def ident_start_def js_space_def digit_char_def Let_def)

lemma ident_not_punct:
  "\<not> ident_char (CHR '' '')" "\<not> ident_char (CHR '':'')" "\<not> ident_char (CHR '';'')"
  "\<not> ident_char (CHR 0x0A)"
  by (simp_all add: ident_char_def ident_start_def digit_char_def Let_def)

lemma iec_identifierE:
  assumes "iec_identifier s"
  obtains c cs where "s = c # cs" "ident_start c" "ident_char c" "\<not> js_space c" "\<forall>x \<in> set s. ident_char x"
  using assms ident_char_not_space
  by (cases s) (auto simp: iec_identifier_def list_all_iff)

lemma scan_ident_append:
  assumes "iec_identifier s" "r \<noteq> []" "\<not> ident_char (hd r)"
  shows "scan_ident (s @ r) = Some (s, r)"
proof -
  obtain c cs where s: "s = c # cs" "ident_start c" "\<forall>x \<in> set s. ident_char x"
    using assms(1) by (rule iec_identifierE)
  have "takeWhile ident_char (s @ r) = s" "dropWhile ident_char (s @ r) = r"
    using s(3) assms(2,3) by (cases r; simp)+
  with s show ?thesis by (simp add: scan_ident_def)
qed

definition init_part :: "gvl_variable \<Rightarrow> string" where
  "init_part v = (if v_init v \<noteq> [] then '' := '' @ v_init v else [])"

definition comment_part :: "gvl_variable \<Rightarrow> string" where
  "comment_part v = (if v_comment v \<noteq> [] then '' (* '' @ v_comment v @ '' *)'' else [])"

lemma var_row_parts:
  "var_row v = ''    '' @ v_name v @ '' : '' @ v_type v @ init_part v @ '';'' @ comment_part v"
  by (simp add: var_row_def init_part_def comment_part_def)

lemma skip_spaces_simps [simp]:
  "skip_spaces [] = []" "skip_spaces (CHR '' '' # s) = skip_spaces s"
  "\<not> js_space c \<Longrightarrow> skip_spaces (c # s) = c # s"
  by (simp_all add: skip_spaces_def js_space_def)

lemma not_space_punct [simp]:
  "\<not> js_space (CHR '':'')" "\<not> js_space (CHR '';'')" "\<not> js_space (CHR ''('')" "\<not> js_space (CHR '')'')"
  "js_space (CHR '' '')"
  by (simp_all add: js_space_def)

lemma iec_identifier_skip: "iec_identifier s \<Longrightarrow> skip_spaces (s @ r) = s @ r"
  by (elim iec_identifierE) simp

lemma trim_var_row:
  assumes "iec_identifier (v_name v)"
  shows "trim (var_row v) = v_name v @ '' : '' @ v_type v @ init_part v @ '';'' @ comment_part v"
    (is "_ = ?r")
proof -
  have "last ?r = (if v_comment v \<noteq> [] then CHR '')'' else CHR '';'')" by (simp add: comment_part_def)
  then have l: "\<not> js_space (last ?r)" by simp
  obtain c cs where "v_name v = c # cs" "\<not> js_space c" using assms by (rule iec_identifierE)
  then have h: "\<not> js_space (hd ?r)" "?r \<noteq> []" by simp_all
  have "trim (''    '' @ ?r) = trim ?r" by (rule trim_spaces) simp
  also have "\<dots> = ?r" using h l by (intro trim_fixed) blast
  finally show ?thesis by (simp only: var_row_parts)
qed

lemma scan_comment_part:
  assumes "trim (v_comment v) = v_comment v"
  shows "\<exists>c. scan_comment (skip_spaces (comment_part v)) = Some c \<and> trim c = v_comment v"
proof (cases "v_comment v = []")
  case True
  then show ?thesis by (simp add: comment_part_def scan_comment_def trim_def)
next
  case False
  let ?c = "'' '' @ v_comment v @ '' ''"
  have s: "skip_spaces (comment_part v) = ''(*'' @ ?c @ ''*)''" using False by (simp add: comment_part_def)
  have "right_trim (?c @ ''*)'') = ?c @ ''*)''" by (rule right_trim_fixed) simp
  then have "scan_comment (''(*'' @ ?c @ ''*)'') = Some ?c" by (simp add: scan_comment_def)
  with s show ?thesis using trim_padded [OF assms] by simp
qed

lemma scan_init_part:
  assumes "trim (v_init v) = v_init v" "CHR '';'' \<notin> set (v_init v)"
  shows "\<exists>i. scan_init (skip_spaces (init_part v @ '';'' @ r)) = Some (i, r) \<and> trim i = v_init v"
proof (cases "v_init v = []")
  case True
  then show ?thesis by (simp add: init_part_def scan_init_def scan_char_def trim_def)
next
  case False
  have "takeWhile (\<lambda>c. c \<noteq> CHR '';'') (v_init v @ '';'' @ r) = v_init v"
    and "dropWhile (\<lambda>c. c \<noteq> CHR '';'') (v_init v @ '';'' @ r) = '';'' @ r"
    using assms(2) by (subst takeWhile_append2, auto, subst dropWhile_append2, auto)
  with False show ?thesis
    using trim_padded [OF assms(1)] by (simp add: init_part_def scan_init_def scan_char_def)
qed

lemma GVL_VAR_LINE_row:
  assumes "wf_variable v"
  shows "GVL_VAR_LINE (trim (var_row v)) =
    Option.bind (scan_init (skip_spaces (init_part v @ '';'' @ comment_part v))) (\<lambda>(init, r).
    Option.bind (scan_comment (skip_spaces r)) (\<lambda>comment.
      Some \<lparr>v_name = v_name v, v_type = v_type v, v_init = trim init, v_comment = trim comment\<rparr>))"
proof -
  have n: "iec_identifier (v_name v)" "iec_identifier (v_type v)" using assms by (simp_all add: wf_variable_def)
  have "\<not> ident_char (hd (init_part v @ '';'' @ comment_part v))"
    by (simp add: init_part_def ident_not_punct)
  then have t: "scan_ident (v_type v @ init_part v @ '';'' @ comment_part v)
      = Some (v_type v, init_part v @ '';'' @ comment_part v)"
    using n(2) by (intro scan_ident_append) simp_all
  have i: "scan_ident (v_name v @ '' : '' @ r) = Some (v_name v, '' : '' @ r)" for r
    using n(1) by (intro scan_ident_append) (simp_all add: ident_not_punct)
  show ?thesis
    unfolding trim_var_row [OF n(1)] GVL_VAR_LINE_def iec_identifier_skip [OF n(1)] i
    using t by (simp add: scan_char_def iec_identifier_skip [OF n(2)])
qed

lemma GVL_VAR_LINE_reads:
  assumes "wf_variable v" "CHR '';'' \<notin> set (v_init v)"
  shows "GVL_VAR_LINE (trim (var_row v)) = Some v"
proof -
  have w: "trim (v_init v) = v_init v" "trim (v_comment v) = v_comment v"
    using assms(1) by (simp_all add: wf_variable_def)
  obtain i where "scan_init (skip_spaces (init_part v @ '';'' @ comment_part v)) = Some (i, comment_part v)"
      "trim i = v_init v"
    using scan_init_part [OF w(1) assms(2)] by blast
  moreover obtain c where "scan_comment (skip_spaces (comment_part v)) = Some c" "trim c = v_comment v"
    using scan_comment_part [OF w(2)] by blast
  ultimately show ?thesis by (simp add: GVL_VAR_LINE_row [OF assms(1)])
qed

subsection \<open>Lines\<close>

abbreviation (input) no_newline :: "string \<Rightarrow> bool" where
  "no_newline l \<equiv> CHR 0x0A \<notin> set l"

lemma split_nl_single: "no_newline l \<Longrightarrow> split_nl l = [l]"
  by (induction l) auto

lemma split_nl_line: "no_newline l \<Longrightarrow> split_nl (l @ CHR 0x0A # r) = l # split_nl r"
  by (induction l) auto

lemma split_nl_not_Nil [simp]: "split_nl s \<noteq> []"
  by (induction s) (auto split: list.split)

lemma split_nl_no_newline: "l \<in> set (split_nl s) \<Longrightarrow> no_newline l"
  by (induction s arbitrary: l) (auto split: if_splits list.splits)

text \<open>Joining lines with \<open>e\<close> before each newline.\<close>

lemma split_nl_join:
  assumes "no_newline e" "ls \<noteq> []" "\<forall>l \<in> set ls. no_newline l"
  shows "split_nl (join_with (e @ newline) ls) = map (\<lambda>l. l @ e) (butlast ls) @ [last ls]"
  using assms(2,3)
proof (induction ls rule: induct_list012)
  case (2 l)
  then show ?case by (simp add: split_nl_single)
next
  case (3 l m ls)
  have "split_nl (join_with (e @ newline) (l # m # ls))
      = split_nl ((l @ e) @ CHR 0x0A # join_with (e @ newline) (m # ls))"
    by (simp add: newline_def)
  also have "\<dots> = (l @ e) # split_nl (join_with (e @ newline) (m # ls))"
    using assms(1) 3(3,4) by (intro split_nl_line) simp
  finally show ?case using 3 by simp
qed simp

lemma strip_cr_snoc [simp]: "strip_cr (l @ [CHR 0x0D]) = l"
  by (simp add: strip_cr_def)

lemma split_lines_join_crlf:
  assumes "ls \<noteq> []" "\<forall>l \<in> set ls. no_newline l"
  shows "split_lines (join_with [CHR 0x0D, CHR 0x0A] ls) = ls"
  using split_nl_join [OF _ assms, of "[CHR 0x0D]"] assms(1)
  by (simp add: split_lines_def newline_def o_def)

lemma split_lines_join_nl:
  assumes "ls \<noteq> []" "\<forall>l \<in> set ls. no_newline l" "\<forall>l \<in> set (butlast ls). strip_cr l = l"
  shows "split_lines (join_with newline ls) = ls"
  using split_nl_join [OF _ assms(1,2), of "[]"] assms(1,3)
  by (simp add: split_lines_def map_idI)

subsection \<open>Rows\<close>

definition savable :: "gvl_variable \<Rightarrow> bool" where
  "savable v \<longleftrightarrow> wf_variable v \<and> CHR '';'' \<notin> set (v_init v)"

lemma iec_identifier_no_newline: "iec_identifier s \<Longrightarrow> no_newline s"
  using ident_not_punct(4) by (elim iec_identifierE) blast

lemma var_row_no_newline: "wf_variable v \<Longrightarrow> no_newline (var_row v)"
  by (auto simp: wf_variable_def var_row_def dest!: iec_identifier_no_newline)

lemma var_row_strip: "strip_cr (var_row v) = var_row v"
  by (simp add: strip_cr_def var_row_def)

lemma starts_with_word:
  "CHR '' '' \<notin> set p \<Longrightarrow> starts_with p (n @ CHR '' '' # r) \<longleftrightarrow> starts_with p n"
  by (induction p n rule: starts_with.induct) auto

lemma trim_var_row_starts:
  "iec_identifier (v_name v) \<Longrightarrow> CHR '' '' \<notin> set p \<Longrightarrow>
    starts_with p (trim (var_row v)) \<longleftrightarrow> starts_with p (v_name v)"
  by (simp add: trim_var_row starts_with_word)

lemma iec_identifier_starts: "iec_identifier s \<Longrightarrow> \<not> starts_with ''(*'' s \<and> s \<noteq> []"
  by (elim iec_identifierE) (auto simp: ident_start_def)

lemma row_not_comment:
  assumes "iec_identifier (v_name v)"
  shows "\<not> starts_with ''(*'' (trim (var_row v))" "trim (var_row v) \<noteq> []"
proof -
  show "\<not> starts_with ''(*'' (trim (var_row v))"
    using trim_var_row_starts [OF assms, of "''(*''"] iec_identifier_starts [OF assms] by simp
  show "trim (var_row v) \<noteq> []"
    using iec_identifier_starts [OF assms] by (simp add: trim_var_row [OF assms])
qed

lemma savable_reads: "savable v \<Longrightarrow> GVL_VAR_LINE (trim (var_row v)) = Some v"
  by (simp add: savable_def GVL_VAR_LINE_reads)

subsection \<open>The global list\<close>

definition no_block_word :: "gvl_variable \<Rightarrow> bool" where
  "no_block_word v \<longleftrightarrow> \<not> starts_with ''VAR_GLOBAL'' (v_name v) \<and> \<not> starts_with ''END_VAR'' (v_name v)"

lemma strip_words: "strip_cr ''VAR_GLOBAL'' = ''VAR_GLOBAL''" "strip_cr ''END_VAR'' = ''END_VAR''"
  by (simp_all add: strip_cr_def)

lemma serializeGvl_lines:
  assumes "\<forall>v \<in> set vars. wf_variable v"
  shows "split_lines (serializeGvl vars) = [''VAR_GLOBAL''] @ map var_row vars @ [''END_VAR'', []]"
  unfolding serializeGvl_def
  by (rule split_lines_join_nl)
    (use assms strip_words in \<open>auto simp: var_row_no_newline var_row_strip butlast_append\<close>)

lemma gvl_lines_row:
  assumes "wf_variable v" "no_block_word v"
  shows "gvl_lines True (var_row v # ls) =
    (case GVL_VAR_LINE (trim (var_row v)) of Some w \<Rightarrow> w # gvl_lines True ls | None \<Rightarrow> gvl_lines True ls)"
proof -
  have n: "iec_identifier (v_name v)" using assms(1) by (simp add: wf_variable_def)
  show ?thesis
    using assms(2) row_not_comment [OF n]
    by (simp add: no_block_word_def Let_def trim_var_row_starts [OF n])
qed

lemma gvl_header: "gvl_lines b (''VAR_GLOBAL'' # ls) = gvl_lines True ls"
  "gvl_lines True [''END_VAR'', []] = []"
proof -
  have "trim ''VAR_GLOBAL'' = ''VAR_GLOBAL''" "trim ''END_VAR'' = ''END_VAR''" "trim [] = []"
    by (rule trim_fixed, simp add: js_space_def)+
  then show "gvl_lines b (''VAR_GLOBAL'' # ls) = gvl_lines True ls" "gvl_lines True [''END_VAR'', []] = []"
    by simp_all
qed

text \<open>
  C19: a global variable list is read back exactly as it was saved if each name and each type is an identifier
  (a letter or underscore, then letters, digits and underscores), no name begins with a word that opens or closes the block, no
  initial value has a semicolon, and no initial value or comment has a line feed or outer white space. Otherwise
  comments and initial values can contain anything.
\<close>

theorem gvl_roundtrip:
  assumes "\<forall>v \<in> set vars. savable v \<and> no_block_word v"
  shows "parseGvl (serializeGvl vars) = vars"
proof -
  have "gvl_lines True (map var_row vars @ [''END_VAR'', []]) = vars"
    using assms
  proof (induction vars)
    case Nil
    show ?case by (simp only: list.map append_Nil gvl_header)
  next
    case (Cons v vars)
    then have "gvl_lines True (var_row v # map var_row vars @ [''END_VAR'', []])
        = v # gvl_lines True (map var_row vars @ [''END_VAR'', []])"
      by (subst gvl_lines_row) (simp_all add: savable_def GVL_VAR_LINE_reads)
    with Cons show ?case by simp
  qed
  moreover have "split_lines (serializeGvl vars) = [''VAR_GLOBAL''] @ map var_row vars @ [''END_VAR'', []]"
    using assms by (intro serializeGvl_lines) (simp add: savable_def)
  ultimately show ?thesis by (simp add: parseGvl_def gvl_header del: gvl_lines.simps)
qed

definition speed :: gvl_variable where
  "speed = \<lparr>v_name = ''speed'', v_type = ''REAL'', v_init = ''1.5e3'', v_comment = ''rpm *) max''\<rparr>"

lemma speed_ok: "savable speed \<and> no_block_word speed"
  by (simp add: savable_def wf_variable_def no_block_word_def speed_def iec_identifier_def ident_char_def
      ident_start_def digit_char_def trim_def js_space_def)

lemma gvl_roundtrip_witness: "parseGvl (serializeGvl [speed, speed]) = [speed, speed]"
  by (rule gvl_roundtrip) (simp add: speed_ok)

text \<open>
  A variable whose initial value has a semicolon, as the literal \<open>'a;b'\<close> that passes the
  check of a STRING, is not in the list that is read back after saving, unless what follows
  the semicolon begins like a comment.
\<close>

theorem gvl_semicolon_lost:
  assumes "wf_variable v" "no_block_word v" "v_init v = a @ CHR '';'' # b"
    and "CHR '';'' \<notin> set a" "\<not> starts_with ''('' (skip_spaces b)"
  shows "parseGvl (serializeGvl [v]) = []"
proof -
  let ?r = "b @ '';'' @ comment_part v"
  have tr: "takeWhile (\<lambda>c. c \<noteq> CHR '';'') ('' '' @ a @ CHR '';'' # ?r) = '' '' @ a"
    "dropWhile (\<lambda>c. c \<noteq> CHR '';'') ('' '' @ a @ CHR '';'' # ?r) = CHR '';'' # ?r"
    using assms(4) by (auto simp: takeWhile_tail dropWhile_append)
  have "scan_init (skip_spaces (init_part v @ '';'' @ comment_part v)) = Some ('' '' @ a, ?r)"
    using tr assms(3) by (simp add: init_part_def scan_init_def scan_char_def)
  moreover have "scan_comment (skip_spaces ?r) = None"
  proof (cases "skip_spaces b")
    case Nil
    then have "skip_spaces ?r = '';'' @ comment_part v"
      by (simp add: skip_spaces_def dropWhile_append)
    then show ?thesis by (simp add: scan_comment_def)
  next
    case (Cons c d)
    have "\<not> (\<forall>x \<in> set b. js_space x)"
    proof
      assume "\<forall>x \<in> set b. js_space x"
      then have "skip_spaces b = []" by (simp add: skip_spaces_def)
      with Cons show False by simp
    qed
    with Cons have "skip_spaces ?r = c # d @ '';'' @ comment_part v"
      unfolding skip_spaces_def by (auto simp: dropWhile_append)
    with assms(5) Cons show ?thesis by (simp add: scan_comment_def)
  qed
  ultimately have "GVL_VAR_LINE (trim (var_row v)) = None" by (simp add: GVL_VAR_LINE_row [OF assms(1)])
  then have "gvl_lines True (var_row v # [''END_VAR'', []]) = []"
    using gvl_lines_row [OF assms(1,2), of "[''END_VAR'', []]"] by (simp only: gvl_header option.case)
  then show ?thesis
    using serializeGvl_lines [of "[v]"] assms(1) by (simp add: parseGvl_def gvl_header del: gvl_lines.simps)
qed

definition list_text :: gvl_variable where
  "list_text = \<lparr>v_name = ''sep'', v_type = ''STRING'', v_init = [CHR 0x27] @ ''a;b'' @ [CHR 0x27], v_comment = []\<rparr>"

lemma gvl_semicolon_lost_witness:
  "validateInit (v_type list_text) (v_init list_text) = None \<and> parseGvl (serializeGvl [list_text]) = []"
proof
  show "validateInit (v_type list_text) (v_init list_text) = None"
    by (simp add: list_text_def validateInit_def trim_def js_space_def quoted_by_def Let_def)
  have "wf_variable list_text" "no_block_word list_text"
    by (simp_all add: wf_variable_def no_block_word_def list_text_def iec_identifier_def ident_char_def
      ident_start_def digit_char_def trim_def js_space_def)
  then show "parseGvl (serializeGvl [list_text]) = []"
    by (rule gvl_semicolon_lost [of _ "[CHR 0x27] @ ''a''" "''b'' @ [CHR 0x27]"])
      (simp_all add: list_text_def skip_spaces_def js_space_def)
qed

subsection \<open>The local block\<close>

lemma split_nl_head:
  "split_nl s = l # m # ls \<Longrightarrow> \<exists>r. s = l @ CHR 0x0A # r \<and> split_nl r = m # ls"
proof (induction s arbitrary: l)
  case (Cons c s)
  show ?case
  proof (cases "c = CHR 0x0A")
    case False
    then obtain l' where l': "l = c # l'" "split_nl s = l' # m # ls"
      using Cons.prems by (auto split: list.splits)
    from Cons.IH [OF l'(2)] l'(1) show ?thesis by auto
  qed (use Cons.prems in auto)
qed simp

lemma split_nl_infix: "l \<in> set (butlast (split_nl s)) \<Longrightarrow> \<exists>a r. s = a @ l @ CHR 0x0A # r"
proof (induction "split_nl s" arbitrary: s rule: induct_list012)
  case (2 x)
  then show ?case by (simp flip: 2(1))
next
  case (3 x y zs)
  obtain r where r: "s = x @ CHR 0x0A # r" "split_nl r = y # zs"
    using split_nl_head 3(3) [symmetric] by blast
  show ?case
  proof (cases "l = x")
    case True
    with r(1) show ?thesis by (metis append_Nil)
  next
    case False
    then have "l \<in> set (butlast (split_nl r))" using 3(3,4) r(2) by (auto simp flip: 3(3))
    with 3(2) r(2) obtain a r' where "r = a @ l @ CHR 0x0A # r'" by metis
    with r(1) have "s = (x @ CHR 0x0A # a) @ l @ CHR 0x0A # r'" by simp
    then show ?thesis by blast
  qed
qed simp

lemma split_lines_no_newline: "l \<in> set (split_lines s) \<Longrightarrow> no_newline l"
proof -
  have "no_newline (strip_cr m)" if "m \<in> set (split_nl s)" for m
    using split_nl_no_newline [OF that] in_set_butlastD [of "CHR 0x0A" m] by (auto simp: strip_cr_def)
  then show "l \<in> set (split_lines s) \<Longrightarrow> no_newline l"
    using split_nl_no_newline [of "last (split_nl s)" s] last_in_set [OF split_nl_not_Nil]
    by (auto simp: split_lines_def Let_def dest: in_set_butlastD)
qed

lemma split_lines_no_cr:
  assumes "\<not> str_includes s [CHR 0x0D, CHR 0x0A]" "l \<in> set (butlast (split_lines s))"
  shows "strip_cr l = l"
proof -
  obtain m where m: "m \<in> set (butlast (split_nl s))" "l = strip_cr m"
    using assms(2) by (auto simp: split_lines_def Let_def)
  obtain a r where s: "s = a @ m @ CHR 0x0A # r" using split_nl_infix [OF m(1)] by blast
  have "m = [] \<or> last m \<noteq> CHR 0x0D"
  proof (rule ccontr)
    assume "\<not> (m = [] \<or> last m \<noteq> CHR 0x0D)"
    then have "m = butlast m @ [CHR 0x0D]" by (metis append_butlast_last_id)
    with s have "s = (a @ butlast m) @ [CHR 0x0D, CHR 0x0A] @ r" by simp
    with assms(1) show False by (metis str_includes_infix)
  qed
  with m(2) show ?thesis by (auto simp: strip_cr_def)
qed

lemma findIndex_append:
  "findIndex p (xs @ ys) = (case findIndex p xs of Some i \<Rightarrow> Some i
     | None \<Rightarrow> map_option ((+) (length xs)) (findIndex p ys))"
  by (cases "findIndex p ys"; induction xs) (auto split: option.split)

lemma row_not_end: "iec_identifier (v_name v) \<Longrightarrow> trim (var_row v) \<noteq> ''END_VAR''"
proof
  assume n: "iec_identifier (v_name v)" and e: "trim (var_row v) = ''END_VAR''"
  have "CHR '':'' \<in> set (trim (var_row v))" by (simp add: trim_var_row [OF n])
  with e show False by simp
qed

lemma local_lines_rows: "\<forall>v \<in> set vars. savable v \<Longrightarrow> local_lines (map var_row vars) = vars"
proof (induction vars)
  case (Cons v vars)
  then have "iec_identifier (v_name v)" by (simp add: savable_def wf_variable_def)
  from row_not_comment [OF this] Cons show ?case by (simp add: Let_def savable_reads)
qed simp

lemma local_vars_saved_gen:
  assumes b: "findFirstLocalVarBlock text = Some (s, e)" and v: "\<forall>v \<in> set vars. savable v"
  shows "split_lines (serializeLocalVars text vars)
      = take (s + 1) (split_lines text) @ map var_row vars @ drop e (split_lines text) \<and>
    findFirstLocalVarBlock (serializeLocalVars text vars) = Some (s, s + 1 + length vars) \<and>
    parseLocalVars (serializeLocalVars text vars) = vars"
proof -
  let ?ls = "split_lines text"
  let ?new = "take (s + 1) ?ls @ map var_row vars @ drop e ?ls"
  obtain k where fs: "findIndex (\<lambda>l. trim l = ''VAR'') ?ls = Some s"
    and fe: "findIndex (\<lambda>l. trim l = ''END_VAR'') (drop (s + 1) ?ls) = Some k" and e: "e = s + 1 + k"
    using b by (auto simp: findFirstLocalVarBlock_def Let_def split: option.splits)
  from findIndex_SomeD [OF fs] have s: "s < length ?ls" "trim (?ls ! s) = ''VAR''"
      "\<forall>j < s. trim (?ls ! j) \<noteq> ''VAR''" by auto
  from findIndex_SomeD [OF fe] e have el: "e < length ?ls" "trim (?ls ! e) = ''END_VAR''"
    by (auto simp: add.assoc)
  then obtain tl where tl: "drop e ?ls = ?ls ! e # tl" by (metis Cons_nth_drop_Suc)
  have w: "\<forall>v \<in> set vars. wf_variable v" using v by (simp add: savable_def)
  have ne: "?new \<noteq> []" by (simp add: tl)
  have nn: "\<forall>l \<in> set ?new. no_newline l"
    using w split_lines_no_newline [of _ "text"]
    by (auto simp: var_row_no_newline dest: in_set_takeD in_set_dropD)
  have new: "split_lines (serializeLocalVars text vars) = ?new"
  proof (cases "str_includes text [CHR 0x0D, CHR 0x0A]")
    case True
    then show ?thesis
      using b split_lines_join_crlf [OF ne nn] by (simp add: serializeLocalVars_def eol_of_def Let_def)
  next
    case False
    have "\<forall>l \<in> set (butlast ?new). strip_cr l = l"
    proof
      fix l
      assume "l \<in> set (butlast ?new)"
      then have "l \<in> set (take (s + 1) ?ls) \<or> l \<in> var_row ` set vars \<or> l \<in> set (butlast (drop e ?ls))"
        using tl by (auto simp: butlast_append split: if_splits)
      moreover have "set (take (s + 1) ?ls) \<subseteq> set (butlast ?ls)"
        using el(1) e by (simp add: butlast_conv_take set_take_subset_set_take)
      moreover have "set (butlast (drop e ?ls)) \<subseteq> set (butlast ?ls)"
        by (metis butlast_drop in_set_dropD subsetI)
      ultimately show "strip_cr l = l"
        using split_lines_no_cr [OF False] var_row_strip by blast
    qed
    from split_lines_join_nl [OF ne nn this] False b show ?thesis
      by (simp add: serializeLocalVars_def eol_of_def Let_def)
  qed
  have f1: "findIndex (\<lambda>l. trim l = ''VAR'') ?new = Some s"
  proof -
    have "take (s + 1) ?ls = take s ?ls @ [?ls ! s]" using s(1) by (simp add: take_Suc_conv_app_nth)
    moreover have "findIndex (\<lambda>l. trim l = ''VAR'') (take s ?ls) = None"
      using s(1,3) by (auto simp: findIndex_None in_set_conv_nth)
    ultimately show ?thesis using s(1,2) by (simp add: findIndex_append)
  qed
  have d: "drop (s + 1) ?new = map var_row vars @ drop e ?ls" using s(1) by simp
  have "findIndex (\<lambda>l. trim l = ''END_VAR'') (map var_row vars) = None"
    using w row_not_end by (auto simp: findIndex_None wf_variable_def)
  then have f2: "findIndex (\<lambda>l. trim l = ''END_VAR'') (drop (s + 1) ?new) = Some (length vars)"
    unfolding d by (simp add: findIndex_append tl el(2))
  have block: "findFirstLocalVarBlock (serializeLocalVars text vars) = Some (s, s + 1 + length vars)"
    unfolding findFirstLocalVarBlock_def new Let_def f1 using f2 by simp
  have "parseLocalVars (serializeLocalVars text vars) = local_lines (take (length vars) (drop (s + 1) ?new))"
    unfolding parseLocalVars_def block new by simp
  also have "\<dots> = vars" unfolding d using local_lines_rows [OF v] by simp
  finally show ?thesis using new block by simp
qed

text \<open>
  Saving the local variables of a program replaces the lines between the first VAR and
  its END_VAR by one line per variable and keeps every other line, whichever line ending the
  file has; the variables read back are the ones saved, and the block begins where it did.
\<close>

theorem local_vars_saved:
  assumes b: "findFirstLocalVarBlock text = Some (s, e)" and v: "\<forall>v \<in> set vars. savable v"
  shows "split_lines (serializeLocalVars text vars)
      = take (s + 1) (split_lines text) @ map var_row vars @ drop e (split_lines text) \<and>
    findFirstLocalVarBlock (serializeLocalVars text vars) = Some (s, s + 1 + length vars) \<and>
    parseLocalVars (serializeLocalVars text vars) = vars"
  using assms by (rule local_vars_saved_gen)

definition main_text :: string where
  "main_text = join_with [CHR 0x0D, CHR 0x0A]
     [''PROGRAM Main'', ''VAR'', ''  a : INT;'', ''END_VAR'', ''a := 1;'', ''END_PROGRAM'']"

lemma local_vars_saved_witness:
  "parseLocalVars (serializeLocalVars main_text [speed]) = [speed]"
proof -
  have l: "split_lines main_text = [''PROGRAM Main'', ''VAR'', ''  a : INT;'', ''END_VAR'', ''a := 1;'', ''END_PROGRAM'']"
    unfolding main_text_def by (rule split_lines_join_crlf) simp_all
  have "findFirstLocalVarBlock main_text = Some (1, 3)"
    unfolding findFirstLocalVarBlock_def l by (simp add: trim_def js_space_def)
  then show ?thesis using local_vars_saved [of main_text 1 3 "[speed]"] speed_ok by simp
qed

end
