(* ===== verification/VarPieces.thy ===== *)
theory VarPieces
  imports VarRefs
begin

text \<open>
  What the cleaning of VarRefs should do, said of texts that are put together from pieces: statements,
  string literals, comments and time literals, each followed by a character that separates it from the
  next. The names of such a text are those of its statements, whatever the other pieces contain.
\<close>

datatype piece = Statement string | Literal string | Comment string | TimeLit string string

fun doubled :: "string \<Rightarrow> string" where
  "doubled [] = []"
| "doubled (c # s) = (if c = quote_char then [c, c] else [c]) @ doubled s"

fun piece_text :: "piece \<Rightarrow> string" where
  "piece_text (Statement s) = s"
| "piece_text (Literal s) = quote_char # doubled s @ [quote_char]"
| "piece_text (Comment s) = ''(*'' @ s @ ''*)''"
| "piece_text (TimeLit p s) = p @ s"

definition program_text :: "(piece \<times> char) list \<Rightarrow> string" where
  "program_text ps = concat (map (\<lambda>(p, c). piece_text p @ [c]) ps)"

text \<open>A separator; after a time literal only a blank or a semicolon is one.\<close>

fun separates :: "piece \<Rightarrow> char \<Rightarrow> bool" where
  "separates (TimeLit p s) c \<longleftrightarrow> js_space c \<or> c = CHR '';''"
| "separates q c \<longleftrightarrow> \<not> ident_char c \<and> c \<noteq> quote_char \<and> c \<noteq> CHR ''*'' \<and> c \<noteq> CHR ''#''"

fun plain_piece :: "piece \<Rightarrow> bool" where
  "plain_piece (Statement s) \<longleftrightarrow> quote_char \<notin> set s \<and> CHR ''#'' \<notin> set s \<and> \<not> str_includes s ''(*'' \<and> \<not> starts_with ''*'' s"
| "plain_piece (Literal s) \<longleftrightarrow> True"
| "plain_piece (Comment s) \<longleftrightarrow> quote_char \<notin> set s \<and> \<not> str_includes s ''*)''"
| "plain_piece (TimeLit p s) \<longleftrightarrow> p \<in> set TIME_PREFIXES \<and> (\<forall>c \<in> set s. \<not> js_space c \<and> c \<noteq> CHR '';'' \<and> c \<noteq> quote_char)
     \<and> \<not> str_includes s ''(*''"

definition plain_text :: "(piece \<times> char) list \<Rightarrow> bool" where
  "plain_text ps \<longleftrightarrow> list_all (\<lambda>(p, c). plain_piece p \<and> separates p c) ps"

text \<open>
  The names of a statement: its runs of letters, digits and underscores, each from its first letter or underscore on.
\<close>

fun runs :: "string \<Rightarrow> string list" where
  "runs [] = [[]]"
| "runs (c # s) = (if ident_char c then (c # hd (runs s)) # tl (runs s) else [] # runs s)"

definition names_in :: "string \<Rightarrow> string list" where
  "names_in s = filter (\<lambda>w. w \<noteq> []) (map (dropWhile (\<lambda>c. \<not> ident_start c)) (runs s))"

fun piece_names :: "piece \<Rightarrow> string list" where
  "piece_names (Statement s) = names_in s"
| "piece_names q = []"

subsection \<open>One pass after the other\<close>

text \<open>The text with what a pass removes left out.\<close>

definition text_without :: "(piece \<Rightarrow> bool) \<Rightarrow> (piece \<times> char) list \<Rightarrow> string" where
  "text_without gone ps = concat (map (\<lambda>(p, c). (if gone p then [] else piece_text p) @ [c]) ps)"

lemma text_without_Cons [simp]:
  "text_without gone [] = []"
  "text_without gone ((p, c) # ps) = (if gone p then [] else piece_text p) @ c # text_without gone ps"
  by (simp_all add: text_without_def)

fun is_literal :: "piece \<Rightarrow> bool" where
  "is_literal (Literal s) = True" | "is_literal p = False"

fun is_comment :: "piece \<Rightarrow> bool" where
  "is_comment (Comment s) = True" | "is_comment p = False"

fun is_time :: "piece \<Rightarrow> bool" where
  "is_time (TimeLit p s) = True" | "is_time q = False"

lemma plain_text_Cons: "plain_text ((p, c) # ps) \<longleftrightarrow> plain_piece p \<and> separates p c \<and> plain_text ps"
  by (simp add: plain_text_def)

lemma separator_plain: "separates p c \<Longrightarrow> \<not> ident_char c \<and> c \<noteq> quote_char \<and> c \<noteq> CHR ''*'' \<and> c \<noteq> CHR ''#''"
  by (cases p) (auto simp: js_space_def ident_char_def ident_start_def digit_char_def)

lemma program_text_all: "program_text ps = text_without (\<lambda>p. False) ps"
  by (simp add: program_text_def text_without_def)

text \<open>String literals.\<close>

lemma close_quote_doubled: "r = [] \<or> hd r \<noteq> quote_char \<Longrightarrow> close_quote (doubled s @ quote_char # r) = Some r"
proof (induction s)
  case Nil
  then show ?case by (cases r) auto
qed auto

lemma strip_strings_skip: "quote_char \<notin> set s \<Longrightarrow> strip_strings (s @ r) = s @ strip_strings r"
  by (induction s) auto

lemma time_prefix_no_quote: "p \<in> set TIME_PREFIXES \<Longrightarrow> quote_char \<notin> set p"
  by (auto simp: TIME_PREFIXES_def)

lemma strings_pass: "plain_text ps \<Longrightarrow> strip_strings (program_text ps) = text_without is_literal ps"
  unfolding program_text_all
proof (induction ps)
  case (Cons pc ps)
  obtain p c where pc: "pc = (p, c)" by (rule prod.exhaust)
  with Cons.prems have p: "plain_piece p" "c \<noteq> quote_char" "plain_text ps"
    by (auto simp: plain_text_Cons dest: separator_plain)
  note IH = Cons.IH [OF p(3)]
  show ?case
  proof (cases p)
    case (Literal s)
    then show ?thesis using p(2) IH by (simp add: pc close_quote_doubled)
  qed (use p IH time_prefix_no_quote in \<open>force simp: pc strip_strings_skip\<close>)+
qed simp

text \<open>Comments.\<close>

lemma after_comment_at: "\<not> str_includes s ''*)'' \<Longrightarrow> after_comment (s @ ''*)'' @ r) = Some r"
proof (induction s)
  case (Cons a s)
  then have "\<not> (a = CHR ''*'' \<and> s \<noteq> [] \<and> hd s = CHR '')'')" by (cases s) auto
  moreover have "s @ ''*)'' @ r \<noteq> []" "s = [] \<Longrightarrow> hd (s @ ''*)'' @ r) \<noteq> CHR '')''" by simp_all
  ultimately show ?case using Cons by (cases s) auto
qed simp

lemma strip_comments_skip:
  "\<not> str_includes s ''(*'' \<Longrightarrow> c \<noteq> CHR ''*'' \<Longrightarrow> strip_comments (s @ c # r) = s @ strip_comments (c # r)"
proof (induction s)
  case (Cons a s)
  then have "\<not> (a = CHR ''('' \<and> s @ c # r \<noteq> [] \<and> hd (s @ c # r) = CHR ''*'')" by (cases s) auto
  with Cons show ?case by auto
qed simp

lemma strip_comments_sep: "\<not> starts_with ''*'' r \<Longrightarrow> strip_comments (c # r) = c # strip_comments r"
  by (cases r) auto

lemma time_prefix_start: "p \<in> set TIME_PREFIXES \<Longrightarrow> \<not> starts_with ''*'' (p @ s)"
  by (auto simp: TIME_PREFIXES_def)

lemma no_star_next:
  assumes "plain_text ps"
  shows "\<not> starts_with ''*'' (text_without is_literal ps)"
proof (cases ps)
  case (Cons pc qs)
  obtain p c where pc: "pc = (p, c)" by (rule prod.exhaust)
  with Cons assms have p: "plain_piece p" "c \<noteq> CHR ''*''" by (auto simp: plain_text_Cons dest: separator_plain)
  show ?thesis
  proof (cases p)
    case (Statement s)
    then show ?thesis using p by (cases s) (simp_all add: Cons pc)
  next
    case (TimeLit q s)
    then show ?thesis using p time_prefix_start [of q "s @ c # text_without is_literal qs"] by (simp add: Cons pc)
  qed (use p in \<open>simp_all add: Cons pc\<close>)
qed simp

lemma time_no_comment:
  assumes "p \<in> set TIME_PREFIXES" "\<not> str_includes s ''(*''"
  shows "\<not> str_includes (p @ s) ''(*''"
  using assms by (auto simp: TIME_PREFIXES_def)

lemma comments_pass:
  "plain_text ps \<Longrightarrow> strip_comments (text_without is_literal ps) = text_without (\<lambda>p. is_literal p \<or> is_comment p) ps"
proof (induction ps)
  case (Cons pc ps)
  obtain p c where pc: "pc = (p, c)" by (rule prod.exhaust)
  with Cons.prems have p: "plain_piece p" "c \<noteq> CHR ''*''" "plain_text ps"
    by (auto simp: plain_text_Cons dest: separator_plain)
  have rest: "strip_comments (c # text_without is_literal ps) = c # text_without (\<lambda>p. is_literal p \<or> is_comment p) ps"
    using strip_comments_sep [OF no_star_next [OF p(3)]] Cons.IH [OF p(3)] by simp
  show ?case
  proof (cases p)
    case (Statement s)
    then show ?thesis using p strip_comments_skip [of s c] rest by (simp add: pc del: strip_comments.simps)
  next
    case (Comment s)
    then show ?thesis using p after_comment_at [of s "c # text_without is_literal ps"] rest by (simp add: pc)
  next
    case (TimeLit q s)
    then show ?thesis
      using p strip_comments_skip [OF time_no_comment [of q s], of c] rest by (simp add: pc del: strip_comments.simps)
  qed (use rest in \<open>simp add: pc\<close>)
qed simp


text \<open>Time literals.\<close>

lemma time_prefix_shape: "p \<in> set TIME_PREFIXES \<Longrightarrow> \<exists>w. p = w @ ''#'' \<and> (\<forall>c \<in> set w. ident_char c)"
  by (rule exI [of _ "butlast p"]) (auto simp: TIME_PREFIXES_def ident_char_def ident_start_def)

lemma until_hash: "CHR ''#'' \<notin> set w \<Longrightarrow> takeWhile (\<lambda>d. d \<noteq> CHR ''#'') (w @ CHR ''#'' # x) = w"
  by (induction w) auto

lemma no_time_prefix:
  assumes "CHR ''#'' \<notin> set s" "\<not> ident_char c" "c \<noteq> CHR ''#''"
  shows "List.find (\<lambda>p. starts_with p (s @ c # r)) TIME_PREFIXES = None"
proof -
  have False if pre: "p \<in> set TIME_PREFIXES" and eq: "s @ c # r = p @ t" for p t
  proof -
    obtain w where w: "p = w @ ''#''" "\<forall>d \<in> set w. ident_char d" using time_prefix_shape [OF pre] by blast
    then have "s @ c # r = w @ CHR ''#'' # t" using eq by simp
    then show False using assms w(2) by (auto simp: append_eq_append_conv2 Cons_eq_append_conv append_eq_Cons_conv)
  qed
  then show ?thesis by (auto simp: find_None_iff starts_with_iff)
qed

lemma strip_times_skip:
  "CHR ''#'' \<notin> set s \<Longrightarrow> \<not> ident_char c \<Longrightarrow> c \<noteq> CHR ''#'' \<Longrightarrow>
    strip_times b (s @ c # r) = s @ c # strip_times False r"
proof (induction s arbitrary: b)
  case Nil
  then show ?case using no_time_prefix [of "[]" c r] by simp
next
  case (Cons a s)
  then show ?case using no_time_prefix [of "a # s" c r] by simp
qed

lemma strip_times_at:
  assumes "p \<in> set TIME_PREFIXES" "\<forall>c \<in> set s. \<not> js_space c \<and> c \<noteq> CHR '';''" "js_space c \<or> c = CHR '';''"
  shows "strip_times False (p @ s @ c # r) = strip_times False (c # r)"
proof -
  obtain a t where p: "p = a # t" using time_prefix_pos [OF assms(1)] by (cases p) auto
  have unique: "q = p" if q: "q \<in> set TIME_PREFIXES" "starts_with q (p @ x)" for q x
  proof -
    obtain v w where v: "q = v @ ''#''" "\<forall>d \<in> set v. ident_char d" and w: "p = w @ ''#''" "\<forall>d \<in> set w. ident_char d"
      using time_prefix_shape [OF q(1)] time_prefix_shape [OF assms(1)] by blast
    from q(2) obtain y where "p @ x = q @ y" by (auto simp: starts_with_iff)
    then have "w @ CHR ''#'' # x = v @ CHR ''#'' # y" by (simp add: v w)
    moreover have "CHR ''#'' \<notin> set v" "CHR ''#'' \<notin> set w"
      using v(2) w(2) by (auto simp: ident_char_def ident_start_def digit_char_def)
    ultimately have "v = w" using until_hash by metis
    then show ?thesis by (simp add: v(1) w(1))
  qed
  have "starts_with p (p @ s @ c # r)" by simp
  then have "List.find (\<lambda>q. starts_with q (p @ s @ c # r)) TIME_PREFIXES = Some p"
    using assms(1) unique by (cases "List.find (\<lambda>q. starts_with q (p @ s @ c # r)) TIME_PREFIXES")
      (auto simp: find_None_iff dest: find_SomeD)
  moreover have "dropWhile (\<lambda>d. \<not> js_space d \<and> d \<noteq> CHR '';'') (s @ c # r) = c # r"
    using assms(2,3) by (subst dropWhile_append2) auto
  ultimately show ?thesis by (simp add: p)
qed

lemma times_pass:
  "plain_text ps \<Longrightarrow> strip_times False (text_without (\<lambda>p. is_literal p \<or> is_comment p) ps)
     = text_without (\<lambda>p. is_literal p \<or> is_comment p \<or> is_time p) ps"
proof (induction ps)
  case (Cons pc ps)
  obtain p c where pc: "pc = (p, c)" by (rule prod.exhaust)
  with Cons.prems have p: "plain_piece p" "separates p c" "plain_text ps" by (auto simp: plain_text_Cons)
  note c = separator_plain [OF p(2)]
  have rest: "strip_times False (c # text_without (\<lambda>p. is_literal p \<or> is_comment p) ps)
      = c # text_without (\<lambda>p. is_literal p \<or> is_comment p \<or> is_time p) ps"
    using strip_times_skip [of "[]" c] c Cons.IH [OF p(3)] by simp
  show ?case
  proof (cases p)
    case (Statement s)
    then show ?thesis using p strip_times_skip [of s c] c Cons.IH [OF p(3)] by (simp add: pc)
  next
    case (TimeLit q s)
    then show ?thesis using p strip_times_at [of q s c] rest by (simp add: pc del: strip_times.simps)
  qed (use rest in \<open>simp_all add: pc del: strip_times.simps\<close>)
qed simp

subsection \<open>The names\<close>

lemma while_append: "\<not> P c \<Longrightarrow> takeWhile P (s @ c # r) = takeWhile P s \<and> dropWhile P (s @ c # r) = dropWhile P s @ c # r"
  by (induction s) auto

lemma identifiers_append: "\<not> ident_char c \<Longrightarrow> identifiers (s @ c # r) = identifiers s @ identifiers r"
proof (induction s rule: identifiers.induct)
  case 1
  then show ?case by (auto simp: ident_char_def)
next
  case (2 a s)
  have "takeWhile ident_char (s @ c # r) = takeWhile ident_char s"
    "dropWhile ident_char (s @ c # r) = dropWhile ident_char s @ c # r"
    using 2(3) by (simp_all add: while_append)
  with 2 show ?case by auto
qed

lemma ident_start_char: "ident_start c \<Longrightarrow> ident_char c"
  by (simp add: ident_char_def)

lemma runs_some: "runs s \<noteq> []"
  by (cases s) auto

lemma names_in_Cons: "\<not> ident_start c \<Longrightarrow> names_in (c # s) = names_in s"
  using runs_some [of s] by (cases "runs s") (auto simp: names_in_def)

lemma runs_hd: "hd (runs s) = takeWhile ident_char s"
  by (induction s) auto

lemma names_in_start: "ident_start c \<Longrightarrow> names_in (c # s) = (c # hd (runs s)) # names_in (dropWhile ident_char s)"
proof -
  assume c: "ident_start c"
  have "names_in (dropWhile ident_char s) = filter (\<lambda>w. w \<noteq> []) (map (dropWhile (\<lambda>c. \<not> ident_start c)) (tl (runs s)))"
    by (induction s) (auto simp: names_in_def)
  then show ?thesis using c ident_start_char [OF c] by (simp add: names_in_def)
qed

lemma identifiers_names: "identifiers s = names_in s"
proof (induction s rule: identifiers.induct)
  case 1
  show ?case by (simp add: names_in_def)
next
  case (2 c s)
  then show ?case
    by (cases "ident_start c") (simp_all add: names_in_Cons names_in_start runs_hd ident_start_char)
qed

lemma text_names:
  "plain_text ps \<Longrightarrow> identifiers (cleaned (program_text ps)) = concat (map (\<lambda>(p, c). piece_names p) ps)"
proof -
  assume plain: "plain_text ps"
  have "identifiers (text_without (\<lambda>p. is_literal p \<or> is_comment p \<or> is_time p) ps) = concat (map (\<lambda>(p, c). piece_names p) ps)"
    using plain
  proof (induction ps)
    case (Cons pc ps)
    obtain p c where pc: "pc = (p, c)" by (rule prod.exhaust)
    with Cons.prems have "\<not> ident_char c" "plain_text ps" by (auto simp: plain_text_Cons dest: separator_plain)
    with Cons.IH identifiers_append [of c "[]"] identifiers_append [of c] show ?case
      by (cases p) (simp_all add: pc identifiers_names [symmetric] del: identifiers.simps(2))
  qed simp
  then show ?thesis
    by (simp add: cleaned_def strings_pass [OF plain] comments_pass [OF plain] times_pass [OF plain])
qed

text \<open>Each element where it occurs first.\<close>

definition first_uses :: "'a list \<Rightarrow> 'a list" where
  "first_uses xs = rev (remdups (rev xs))"

lemma first_uses_snoc: "first_uses (xs @ [x]) = (if x \<in> set xs then first_uses xs else first_uses xs @ [x])"
  by (simp add: first_uses_def)

lemma set_first_uses [simp]: "set (first_uses xs) = set xs" "distinct (first_uses xs)"
  by (simp_all add: first_uses_def)

lemma collect_refs_first: "collect_refs names = first_uses (filter (\<lambda>n. n \<notin> set KEYWORDS) names)"
proof (induction names rule: rev_induct)
  case (snoc n names)
  then show ?case by (simp add: collect_refs_snoc first_uses_snoc js_add_def)
qed (simp add: collect_refs_def first_uses_def)

lemma filter_first_uses: "filter P (first_uses xs) = first_uses (filter P xs)"
  by (induction xs rule: rev_induct) (auto simp: first_uses_snoc)

end
