(* ===== verification/VarPanelProps.thy ===== *)
theory VarPanelProps
  imports VarPanels VarProps VarPieces
begin

text \<open>
  The properties of the variable panels: what the hint of undeclared names lists, what saving a table does
  to the program, and how a file can be overwritten with another one.
\<close>

subsection \<open>The hint\<close>

text \<open>
  C36: in a program put together from pieces with a separator after each, the hint lists exactly the names of the
  statements that are neither keywords nor declared, each once, in the order of their first use: what string literals,
  comments and time literals contain does not count. All of them can be declared, and declaring them empties the hint.
  The pieces are: a statement, any text without apostrophe, number sign and comment bracket that does not begin with a
  star, whose names are its runs of letters, digits and underscores, each from its first letter or underscore on; a string
  literal with any content, its apostrophes doubled; a comment whose content has no apostrophe and no closing bracket;
  and a time literal, one of the seven prefixes and a rest without white space, semicolon, apostrophe and opening
  comment bracket. A separator is white space or a semicolon after a time literal, and otherwise any character but a letter, a digit, an
  underscore, an apostrophe, a star and a number sign.
\<close>

theorem hint_exact:
  assumes "plain_text ps"
  shows "findUndeclaredRefs (program_text ps) declared
     = first_uses (filter (\<lambda>n. n \<notin> set KEYWORDS \<and> n \<notin> set declared) (concat (map (\<lambda>(p, c). piece_names p) ps)))
   \<and> list_all iec_identifier (findUndeclaredRefs (program_text ps) declared)
   \<and> findUndeclaredRefs (program_text ps) (declared @ findUndeclaredRefs (program_text ps) declared) = []"
proof -
  let ?code = "program_text ps"
  have "findUndeclaredRefs ?code declared
      = first_uses (filter (\<lambda>n. n \<notin> set declared) (filter (\<lambda>n. n \<notin> set KEYWORDS) (concat (map (\<lambda>(p, c). piece_names p) ps))))"
    by (simp add: findUndeclaredRefs_filter extractVarReferences_def collect_refs_first filter_first_uses text_names [OF assms])
  moreover have "set (findUndeclaredRefs ?code (declared @ findUndeclaredRefs ?code declared)) = {}"
    by (auto simp: set_undeclared)
  then have "findUndeclaredRefs ?code (declared @ findUndeclaredRefs ?code declared) = []"
    by (simp only: set_empty)
  moreover have "list_all iec_identifier (findUndeclaredRefs ?code declared)"
    by (auto simp: list_all_iff set_undeclared dest: identifiers_iec)
  ultimately show ?thesis by (simp add: filter_filter conj_commute)
qed

definition hint_pieces :: "(piece \<times> char) list" where
  "hint_pieces = [(Statement ''IF go THEN'', CHR '' ''), (Comment '' until stop '', CHR '' ''), (Statement ''t :='', CHR '' ''),
     (TimeLit ''T#'' ''5s'', CHR '';''), (Statement '' say :='', CHR '' ''),
     (Literal (''it'' @ [quote_char] @ ''s on''), CHR '';''), (Statement '' END_IF'', CHR '';'')]"

lemma hint_exact_witness:
  "program_text hint_pieces = ''IF go THEN (* until stop *) t := T#5s; say := '' @ [quote_char] @ ''it'' @ [quote_char, quote_char]
      @ ''s on'' @ [quote_char] @ ''; END_IF;''
    \<and> findUndeclaredRefs (program_text hint_pieces) [''go''] = [''t'', ''say'']"
proof -
  have plain: "plain_text hint_pieces" by code_simp
  have "program_text hint_pieces = ''IF go THEN (* until stop *) t := T#5s; say := '' @ [quote_char] @ ''it'' @ [quote_char, quote_char]
      @ ''s on'' @ [quote_char] @ ''; END_IF;''"
    by code_simp
  moreover have "first_uses (filter (\<lambda>n. n \<notin> set KEYWORDS \<and> n \<notin> set [''go'']) (concat (map (\<lambda>(p, c). piece_names p) hint_pieces)))
      = [''t'', ''say'']"
    by code_simp
  ultimately show ?thesis using hint_exact [OF plain, of "[''go'']"] by simp
qed

lemma close_quote_plain: "quote_char \<notin> set s \<Longrightarrow> close_quote s = None"
  by (induction s) auto

lemma close_quote_at:
  "quote_char \<notin> set s \<Longrightarrow> quote_char \<notin> set r \<Longrightarrow> close_quote (s @ quote_char # r) = Some r"
proof (induction s)
  case Nil
  then show ?case by (cases r) auto
next
  case (Cons a s)
  then have "a \<noteq> quote_char" by auto
  with Cons show ?case by simp
qed

lemma strip_strings_plain: "quote_char \<notin> set s \<Longrightarrow> strip_strings s = s"
  by (induction s) auto

lemma strip_strings_append: "quote_char \<notin> set s \<Longrightarrow> strip_strings (s @ r) = s @ strip_strings r"
  by (induction s) auto

text \<open>
  An apostrophe in a comment hides code from the hint: literals are removed before comments, so
  everything from the apostrophe to the next one is dropped, whatever statements are in between, and
  the rest of the comment counts as code.
\<close>

theorem apostrophe_hides:
  assumes "\<forall>s \<in> {a, b, hidden, rest}. quote_char \<notin> set s"
  shows "extractVarReferences (''(*'' @ a @ quote_char # b @ ''*)'' @ hidden @ quote_char # rest)
    = extractVarReferences (''(*'' @ a @ rest)"
proof -
  have "strip_strings (''(*'' @ a @ quote_char # b @ ''*)'' @ hidden @ quote_char # rest) = ''(*'' @ a @ rest"
  proof -
    have "close_quote ((b @ ''*)'' @ hidden) @ quote_char # rest) = Some rest"
      by (rule close_quote_at) (use assms in auto)
    then have "strip_strings (quote_char # b @ ''*)'' @ hidden @ quote_char # rest) = rest"
      using assms by (simp add: strip_strings_plain)
    then show ?thesis
      using strip_strings_append [of "''(*'' @ a" "quote_char # b @ ''*)'' @ hidden @ quote_char # rest"] assms by simp
  qed
  moreover have "strip_strings (''(*'' @ a @ rest) = ''(*'' @ a @ rest"
    using assms by (intro strip_strings_plain) auto
  ultimately show ?thesis by (simp add: extractVarReferences_def cleaned_def)
qed

lemma apostrophe_hides_witness:
  "extractVarReferences (''(*don'' @ quote_char # ''t*)'' @ ''lost:=1;'' @ quote_char # ''x;'') = [''donx'']"
proof -
  have "extractVarReferences (''(*'' @ ''don'' @ quote_char # ''t'' @ ''*)'' @ ''lost:=1;'' @ quote_char # ''x;'')
      = extractVarReferences (''(*'' @ ''don'' @ ''x;'')"
    by (rule apostrophe_hides) simp
  moreover have "extractVarReferences (''(*'' @ ''don'' @ ''x;'') = [''donx'']"
    by (simp add: extractVarReferences_def cleaned_def TIME_PREFIXES_def ident_char_def ident_start_def
        digit_char_def collect_refs_def KEYWORDS_def js_add_def)
  ultimately show ?thesis by simp
qed

subsection \<open>Saving a table\<close>




definition row_edit :: "table_event \<Rightarrow> bool" where
  "row_edit e = (case e of TUpdate i f \<Rightarrow> True | TAdd \<Rightarrow> True | TRemove i \<Rightarrow> True | _ \<Rightarrow> False)"

text \<open>Editing rows changes the rows only.\<close>

lemma row_edits:
  assumes "list_all row_edit es" "es \<noteq> []" "lp_uri (lw_panel w) = Some u"
  shows "\<exists>vs. local_run es w = w\<lparr>lw_panel := (lw_panel w)\<lparr>lp_vars := vs, lp_dirty := True\<rparr>\<rparr>"
  using assms
proof (induction es arbitrary: w)
  case (Cons e es)
  have one: "\<exists>vs. local_step e w = w\<lparr>lw_panel := (lw_panel w)\<lparr>lp_vars := vs, lp_dirty := True\<rparr>\<rparr>"
    using Cons.prems by (cases e) (auto simp: row_edit_def edit_rows_def)
  then obtain vs where vs: "local_step e w = w\<lparr>lw_panel := (lw_panel w)\<lparr>lp_vars := vs, lp_dirty := True\<rparr>\<rparr>" by blast
  show ?case
  proof (cases "es = []")
    case True
    with vs show ?thesis by (auto simp: local_run_def)
  next
    case False
    from Cons.IH [of "local_step e w"] Cons.prems False vs obtain vs' where
      "local_run es (local_step e w) = (local_step e w)\<lparr>lw_panel := (lw_panel (local_step e w))\<lparr>lp_vars := vs', lp_dirty := True\<rparr>\<rparr>"
      by auto
    with vs show ?thesis by (auto simp: local_run_def)
  qed
qed simp

lemma local_run_append: "local_run (es @ fs) w = local_run fs (local_run es w)"
  by (simp add: local_run_def)

lemma save_click:
  assumes "lp_uri (lw_panel w) = Some u" "lp_dirty (lw_panel w)" "lw_writes w = []"
  shows "local_run [TSave, TSaved 0 True] w = w\<lparr>lw_files := js_set u (serializeLocalVars (lp_text (lw_panel w)) (named_rows (lp_vars (lw_panel w)))) (lw_files w),
    lw_panel := (lw_panel w)\<lparr>lp_text := serializeLocalVars (lp_text (lw_panel w)) (named_rows (lp_vars (lw_panel w))),
      lp_vars := named_rows (lp_vars (lw_panel w)), lp_dirty := False, lp_error := None\<rparr>\<rparr>"
  using assms by (simp add: local_run_def lp_save_def lp_saved_def Let_def splice_remove_def)




text \<open>
  When the active editor changes twice before the files are read, and the second file is read first, the
  table of the second file shows the first one: the next save overwrites the second file with the text of the
  first one.
\<close>

theorem stale_load_overwrites:
  assumes files: "map_of fs a = Some ta" "map_of fs b = Some tb" "a \<noteq> b"
    and exts: "list_ex (\<lambda>ext. ends_with ext (toLowerCase a)) LOCAL_VAR_EXTS"
      "list_ex (\<lambda>ext. ends_with ext (toLowerCase b)) LOCAL_VAR_EXTS"
    and edits: "list_all row_edit es" "es \<noteq> []"
  shows "\<exists>vars. map_of (lw_files (local_run ([TActive a, TActive b, TLoaded 1, TLoaded 0] @ es @ [TSave, TSaved 0 True])
      (new_local fs))) b = Some (serializeLocalVars ta vars)"
proof -
  define w where "w = local_run [TActive a, TActive b, TLoaded 1, TLoaded 0] (new_local fs)"
  have w: "lp_uri (lw_panel w) = Some b" "lp_text (lw_panel w) = ta" "lw_writes w = []"
    using files exts
    by (auto simp: w_def local_run_def new_local_def lp_activeEditor_def lp_loaded_def EMPTY_STATE_def Let_def
        splice_remove_def)
  from row_edits [OF edits w(1)] obtain vs where
    "local_run es w = w\<lparr>lw_panel := (lw_panel w)\<lparr>lp_vars := vs, lp_dirty := True\<rparr>\<rparr>" by blast
  with w save_click [of "local_run es w" b]
  have "map_of (lw_files (local_run [TSave, TSaved 0 True] (local_run es w))) b = Some (serializeLocalVars ta (named_rows vs))"
    by simp
  then show ?thesis unfolding local_run_append w_def by blast
qed

lemma stale_load_overwrites_witness:
  "\<exists>vars. map_of (lw_files (local_run ([TActive ''a.st'', TActive ''b.il'', TLoaded 1, TLoaded 0] @ [TAdd] @ [TSave, TSaved 0 True])
      (new_local [(''a.st'', ''text a''), (''b.il'', ''text b'')]))) ''b.il'' = Some (serializeLocalVars ''text a'' vars)"
  by (rule stale_load_overwrites)
    (simp_all add: LOCAL_VAR_EXTS_def ends_with_def toLowerCase_def lower_char_def row_edit_def)

end
