(* ===== verification/RateLimit.thy ===== *)
theory RateLimit
  imports JsPrelude
begin

text \<open>
  The token buckets of weftik-backend/src/node/rate-limiter.ts. \<open>BUCKETS\<close> is a map from a
  session and limit class to a bucket; \<open>Date.now()\<close> (milliseconds) is the argument \<open>now\<close>.
  \<open>quota\<close> is the interface of any limiter whose grants are paid from a credit that only its
  own requests use; the token buckets interpret it, which bounds the requests granted in
  every window of time.
\<close>

subsection \<open>The limiter\<close>

record bucket =
  tokens :: int
  lastRefill :: int

type_synonym buckets = "string \<Rightarrow> bucket option"

datatype rate_class = Compile_class | Signal_class | Default_class

fun LIMITS :: "rate_class \<Rightarrow> int" where
  "LIMITS Compile_class = 10"
| "LIMITS Signal_class = 1000"
| "LIMITS Default_class = 100"

definition getLimitForMethod :: "string \<Rightarrow> int" where
  "getLimitForMethod method =
     (if starts_with ''compile'' method then LIMITS Compile_class
      else if method = ''readSignal'' \<or> method = ''signalSnapshot'' then LIMITS Signal_class
      else LIMITS Default_class)"

text \<open>The template literal of the bucket key.\<close>

definition bucket_key :: "string \<Rightarrow> string \<Rightarrow> string" where
  "bucket_key sessionId method =
     (let limit = getLimitForMethod method in
      sessionId @ '':'' @
        (if limit = LIMITS Compile_class then ''compile''
         else if limit = LIMITS Signal_class then ''signal'' else ''default''))"

definition intervalMs :: int where
  "intervalMs = 60000"

definition refill_bucket :: "int \<Rightarrow> int \<Rightarrow> bucket \<Rightarrow> bucket" where
  "refill_bucket limit now b =
     (let refill = ((now - lastRefill b) div intervalMs) * limit in
      if refill > 0 then \<lparr>tokens = min limit (tokens b + refill), lastRefill = now\<rparr> else b)"

definition checkRateLimit :: "int \<Rightarrow> string \<Rightarrow> string \<Rightarrow> buckets \<Rightarrow> bool \<times> buckets" where
  "checkRateLimit now sessionId method B =
     (let limit = getLimitForMethod method; key = bucket_key sessionId method in
      case B key of
        None \<Rightarrow> (True, B(key \<mapsto> \<lparr>tokens = limit - 1, lastRefill = now\<rparr>))
      | Some b0 \<Rightarrow>
          let b = refill_bucket limit now b0 in
          if tokens b > 0 then (True, B(key \<mapsto> b\<lparr>tokens := tokens b - 1\<rparr>))
          else (False, B(key \<mapsto> b)))"

definition removeRateLimitSession :: "string \<Rightarrow> buckets \<Rightarrow> buckets" where
  "removeRateLimitSession sessionId B = (\<lambda>key. if starts_with sessionId key then None else B key)"

subsection \<open>Classes and keys\<close>

definition class_of :: "string \<Rightarrow> rate_class" where
  "class_of method =
     (if starts_with ''compile'' method then Compile_class
      else if method = ''readSignal'' \<or> method = ''signalSnapshot'' then Signal_class
      else Default_class)"

fun class_name :: "rate_class \<Rightarrow> string" where
  "class_name Compile_class = ''compile''"
| "class_name Signal_class = ''signal''"
| "class_name Default_class = ''default''"

definition key_of :: "string \<Rightarrow> rate_class \<Rightarrow> string" where
  "key_of sid c = sid @ CHR '':'' # class_name c"

lemma getLimitForMethod_class: "getLimitForMethod m = LIMITS (class_of m)"
  by (simp add: getLimitForMethod_def class_of_def)

lemma bucket_key_class: "bucket_key sid m = key_of sid (class_of m)"
  by (cases "class_of m") (simp_all add: bucket_key_def getLimitForMethod_class key_of_def Let_def)

lemma LIMITS_pos: "0 < LIMITS c"
  by (cases c) simp_all

lemma class_name_no_colon: "CHR '':'' \<notin> set (class_name c)"
  by (cases c) simp_all

lemma class_name_inject: "class_name c = class_name d \<longleftrightarrow> c = d"
  by (cases c; cases d) simp_all

lemma last_separator_unique:
  assumes "a @ x # u = b @ x # v" "x \<notin> set u" "x \<notin> set v"
  shows "a = b \<and> u = v"
proof -
  have tw: "takeWhile (\<lambda>y. y \<noteq> x) (rev w @ x # rev c) = rev w" if "x \<notin> set w" for w c
    using that by (subst takeWhile_append2) auto
  have "takeWhile (\<lambda>y. y \<noteq> x) (rev u @ x # rev a) = rev u"
       "takeWhile (\<lambda>y. y \<noteq> x) (rev v @ x # rev b) = rev v"
    by (rule tw [OF assms(2)], rule tw [OF assms(3)])
  moreover have "rev u @ x # rev a = rev v @ x # rev b"
    using arg_cong [OF assms(1), of rev] by simp
  ultimately have "rev u = rev v" by metis
  with assms(1) show ?thesis by simp
qed

text \<open>A bucket belongs to one session and one class, whatever characters the session id has.\<close>

lemma key_of_inject [simp]: "key_of s c = key_of t d \<longleftrightarrow> s = t \<and> c = d"
proof
  assume "key_of s c = key_of t d"
  then show "s = t \<and> c = d"
    using last_separator_unique [of s "CHR '':''" "class_name c" t "class_name d"]
    by (simp add: key_of_def class_name_no_colon class_name_inject)
qed simp

lemma checkRateLimit_other:
  "key \<noteq> bucket_key sid m \<Longrightarrow> snd (checkRateLimit now sid m B) key = B key"
  by (simp add: checkRateLimit_def Let_def split: option.split)

lemma checkRateLimit_None: "B (bucket_key sid m) = None \<Longrightarrow> fst (checkRateLimit now sid m B)"
  by (simp add: checkRateLimit_def Let_def)

lemma checkRateLimit_Some:
  "B (bucket_key sid m) = Some b \<Longrightarrow>
    fst (checkRateLimit now sid m B) \<longleftrightarrow> 0 < tokens (refill_bucket (getLimitForMethod m) now b)"
  by (simp add: checkRateLimit_def Let_def)

lemma checkRateLimit_own:
  "checkRateLimit now sid m B =
     (case B (key_of sid (class_of m)) of
        None \<Rightarrow> (True, B(key_of sid (class_of m) \<mapsto> \<lparr>tokens = LIMITS (class_of m) - 1, lastRefill = now\<rparr>))
      | Some b0 \<Rightarrow>
          let b = refill_bucket (LIMITS (class_of m)) now b0 in
          (tokens b > 0,
           B(key_of sid (class_of m) \<mapsto> if tokens b > 0 then b\<lparr>tokens := tokens b - 1\<rparr> else b)))"
  by (simp add: checkRateLimit_def Let_def getLimitForMethod_class bucket_key_class split: option.split)

subsection \<open>Well-formed buckets\<close>

text \<open>Every bucket holds between 0 and its limit tokens.\<close>

definition bucket_ok :: "int \<Rightarrow> bucket \<Rightarrow> bool" where
  "bucket_ok limit b \<longleftrightarrow> 0 \<le> tokens b \<and> tokens b \<le> limit"

definition buckets_ok :: "buckets \<Rightarrow> bool" where
  "buckets_ok B \<longleftrightarrow> (\<forall>sid c b. B (key_of sid c) = Some b \<longrightarrow> bucket_ok (LIMITS c) b)"

lemma buckets_okD: "buckets_ok B \<Longrightarrow> B (key_of sid c) = Some b \<Longrightarrow> bucket_ok (LIMITS c) b"
  by (auto simp: buckets_ok_def)

lemma buckets_ok_empty [simp]: "buckets_ok Map.empty"
  by (simp add: buckets_ok_def)

lemma refill_bucket_ok: "bucket_ok limit b \<Longrightarrow> 0 < limit \<Longrightarrow> bucket_ok limit (refill_bucket limit now b)"
  by (auto simp: bucket_ok_def refill_bucket_def Let_def)

lemma buckets_ok_upd:
  "buckets_ok B \<Longrightarrow> bucket_ok (LIMITS c) b \<Longrightarrow> buckets_ok (B(key_of sid c \<mapsto> b))"
  by (auto simp: buckets_ok_def)

lemma checkRateLimit_ok:
  assumes "buckets_ok B"
  shows "buckets_ok (snd (checkRateLimit now sid m B))"
proof (cases "B (key_of sid (class_of m))")
  case None
  with assms show ?thesis
    using LIMITS_pos [of "class_of m"]
    by (auto simp: checkRateLimit_own bucket_ok_def intro!: buckets_ok_upd)
next
  case (Some b0)
  define b where "b = refill_bucket (LIMITS (class_of m)) now b0"
  have "bucket_ok (LIMITS (class_of m)) b"
    unfolding b_def using assms Some by (intro refill_bucket_ok LIMITS_pos) (rule buckets_okD)
  then have "bucket_ok (LIMITS (class_of m)) (if tokens b > 0 then b\<lparr>tokens := tokens b - 1\<rparr> else b)"
    by (auto simp: bucket_ok_def)
  with assms Some show ?thesis
    by (auto simp: checkRateLimit_own Let_def b_def [symmetric] intro!: buckets_ok_upd)
qed

lemma removeRateLimitSession_ok: "buckets_ok B \<Longrightarrow> buckets_ok (removeRateLimitSession sid B)"
  by (auto simp: buckets_ok_def removeRateLimitSession_def)

text \<open>A minute after the last refill a request is granted, whatever was spent.\<close>

lemma checkRateLimit_refills:
  assumes ok: "buckets_ok B"
    and b: "\<And>b. B (bucket_key sid m) = Some b \<Longrightarrow> intervalMs \<le> now - lastRefill b"
  shows "fst (checkRateLimit now sid m B)"
proof (cases "B (key_of sid (class_of m))")
  case (Some b0)
  let ?L = "LIMITS (class_of m)"
  have L: "0 < ?L" by (rule LIMITS_pos)
  have "1 \<le> (now - lastRefill b0) div intervalMs"
    using b [of b0] Some unfolding bucket_key_class intervalMs_def by simp
  define q where "q = ((now - lastRefill b0) div intervalMs) * ?L"
  have r: "?L \<le> q" unfolding q_def using L \<open>1 \<le> (now - lastRefill b0) div intervalMs\<close> by simp
  have "0 \<le> tokens b0" using buckets_okD [OF ok Some] by (simp add: bucket_ok_def)
  with r L have "0 < tokens (refill_bucket ?L now b0)"
    by (simp add: refill_bucket_def Let_def q_def [symmetric])
  with Some show ?thesis by (simp add: checkRateLimit_own Let_def)
qed (simp add: checkRateLimit_own)

subsection \<open>Requests paid from a credit\<close>

text \<open>The requests of one owner that are granted in a sequence of requests.\<close>

fun granted :: "('r \<Rightarrow> 's \<Rightarrow> bool \<times> 's) \<Rightarrow> ('r \<Rightarrow> 'k) \<Rightarrow> 'k \<Rightarrow> 'r list \<Rightarrow> 's \<Rightarrow> nat" where
  "granted ask owner k [] s = 0"
| "granted ask owner k (r # rs) s =
     (if owner r = k \<and> fst (ask r s) then 1 else 0) + granted ask owner k rs (snd (ask r s))"

locale quota =
  fixes ask :: "'r \<Rightarrow> 's \<Rightarrow> bool \<times> 's"
    and owner :: "'r \<Rightarrow> 'k"
    and credit :: "'k \<Rightarrow> 's \<Rightarrow> int"
    and valid :: "'s \<Rightarrow> bool"
    and due :: "'r \<Rightarrow> bool"
  assumes valid_ask: "valid s \<Longrightarrow> valid (snd (ask r s))"
    and pays: "valid s \<Longrightarrow> due r \<Longrightarrow>
      credit (owner r) (snd (ask r s)) + (if fst (ask r s) then 1 else 0) \<le> credit (owner r) s"
    and others_kept: "k \<noteq> owner r \<Longrightarrow> credit k (snd (ask r s)) = credit k s"
    and credit_nonneg: "valid s \<Longrightarrow> 0 \<le> credit k s"
begin

lemma granted_le_credit:
  "valid s \<Longrightarrow> \<forall>r \<in> set rs. due r \<Longrightarrow> int (granted ask owner k rs s) \<le> credit k s"
proof (induction rs arbitrary: s)
  case Nil
  then show ?case by (simp add: credit_nonneg)
next
  case (Cons r rs)
  then have IH: "int (granted ask owner k rs (snd (ask r s))) \<le> credit k (snd (ask r s))"
    by (simp add: valid_ask)
  show ?case
  proof (cases "owner r = k")
    case True
    with pays [of s r] Cons.prems IH show ?thesis by auto
  next
    case False
    with IH others_kept [of k r s] show ?thesis by simp
  qed
qed

end

text \<open>
  The credit of a session in the window from \<open>t0\<close> to \<open>T\<close>: its tokens and one limit for
  every refill that can still happen there.
\<close>

definition window_credit :: "int \<Rightarrow> int \<Rightarrow> string \<times> rate_class \<Rightarrow> buckets \<Rightarrow> int" where
  "window_credit t0 T k B = (case B (key_of (fst k) (snd k)) of
     None \<Rightarrow> LIMITS (snd k) * (1 + max 0 ((T - t0) div intervalMs))
   | Some b \<Rightarrow> tokens b +
       LIMITS (snd k) * max 0 (min ((T - lastRefill b) div intervalMs) (1 + (T - t0) div intervalMs)))"

fun ask_limiter :: "int \<times> string \<times> string \<Rightarrow> buckets \<Rightarrow> bool \<times> buckets" where
  "ask_limiter (now, sid, m) B = checkRateLimit now sid m B"

fun asker :: "int \<times> string \<times> string \<Rightarrow> string \<times> rate_class" where
  "asker (now, sid, m) = (sid, class_of m)"

definition in_window :: "int \<Rightarrow> int \<Rightarrow> int \<times> string \<times> string \<Rightarrow> bool" where
  "in_window t0 T r \<longleftrightarrow> t0 \<le> fst r \<and> fst r \<le> T"

lemma div_add_le: "(a :: int) div intervalMs + b div intervalMs \<le> (a + b) div intervalMs"
  unfolding intervalMs_def by linarith

lemma refill_credit:
  fixes L now T t0 :: int
  assumes L: "0 < L" and b: "bucket_ok L b" and w: "t0 \<le> now" "now \<le> T"
  defines "m l \<equiv> max 0 (min ((T - l) div intervalMs) (1 + (T - t0) div intervalMs))"
  shows "tokens (refill_bucket L now b) + L * m (lastRefill (refill_bucket L now b))
       \<le> tokens b + L * m (lastRefill b)"
proof (cases "0 < ((now - lastRefill b) div intervalMs) * L")
  case False
  then show ?thesis by (simp add: refill_bucket_def Let_def)
next
  case True
  let ?d = "(now - lastRefill b) div intervalMs" and ?e = "(T - now) div intervalMs"
    and ?w = "(T - t0) div intervalMs"
  have d: "1 \<le> ?d" using True L by (simp add: zero_less_mult_iff)
  have e: "0 \<le> ?e" "?e \<le> ?w" using w unfolding intervalMs_def by (auto intro: zdiv_mono1)
  have "?d + ?e \<le> (T - lastRefill b) div intervalMs"
    using div_add_le [of "now - lastRefill b" "T - now"] by simp
  then have mb: "min (?d + ?e) (1 + ?w) \<le> m (lastRefill b)" unfolding m_def by simp
  have mn: "m now = ?e" unfolding m_def using e by simp
  have t: "0 \<le> tokens b" "tokens b \<le> L" using b by (simp_all add: bucket_ok_def)
  have "min L (tokens b + ?d * L) + L * ?e \<le> tokens b + L * min (?d + ?e) (1 + ?w)"
  proof (cases "?d + ?e \<le> 1 + ?w")
    case True
    then show ?thesis by (simp add: algebra_simps)
  next
    case False
    have "L * ?e \<le> L * ?w" using e L by simp
    with False t show ?thesis by (simp add: algebra_simps)
  qed
  also have "\<dots> \<le> tokens b + L * m (lastRefill b)"
    using mb L by simp
  finally show ?thesis using True mn by (simp add: refill_bucket_def Let_def)
qed

lemma limiter_pays:
  assumes ok: "buckets_ok B" and w: "t0 \<le> now" "now \<le> T"
  shows "window_credit t0 T (sid, class_of m) (snd (checkRateLimit now sid m B))
      + (if fst (checkRateLimit now sid m B) then 1 else 0)
     \<le> window_credit t0 T (sid, class_of m) B"
proof (cases "B (key_of sid (class_of m))")
  case None
  have e: "(T - now) div intervalMs \<le> (T - t0) div intervalMs" "0 \<le> (T - now) div intervalMs"
    using w unfolding intervalMs_def by (auto intro: zdiv_mono1)
  with LIMITS_pos [of "class_of m"]
  have "LIMITS (class_of m) * ((T - now) div intervalMs) \<le> LIMITS (class_of m) * ((T - t0) div intervalMs)"
    by simp
  with None e show ?thesis
    by (simp add: checkRateLimit_own window_credit_def algebra_simps)
next
  case (Some b0)
  have "bucket_ok (LIMITS (class_of m)) b0" using ok Some by (rule buckets_okD)
  from refill_credit [OF LIMITS_pos this w] Some show ?thesis
    by (auto simp: checkRateLimit_own window_credit_def Let_def)
qed

interpretation window: quota ask_limiter asker "window_credit t0 T" buckets_ok "in_window t0 T" for t0 T
proof
  fix B r k
  show "buckets_ok B \<Longrightarrow> buckets_ok (snd (ask_limiter r B))"
    by (cases r) (simp add: checkRateLimit_ok)
  show "window_credit t0 T (asker r) (snd (ask_limiter r B)) + (if fst (ask_limiter r B) then 1 else 0)
      \<le> window_credit t0 T (asker r) B" if "buckets_ok B" "in_window t0 T r"
    using that by (cases r) (simp add: limiter_pays in_window_def)
  show "window_credit t0 T k (snd (ask_limiter r B)) = window_credit t0 T k B" if "k \<noteq> asker r"
  proof -
    obtain now sid m where r: "r = (now, sid, m)" by (cases r)
    have "key_of (fst k) (snd k) \<noteq> bucket_key sid m"
      using that r by (cases k) (auto simp: bucket_key_class)
    then show ?thesis by (simp add: r window_credit_def checkRateLimit_other)
  qed
  show "buckets_ok B \<Longrightarrow> 0 \<le> window_credit t0 T k B"
    using LIMITS_pos [of "snd k"]
    by (auto simp: window_credit_def bucket_ok_def dest!: buckets_okD [of B "fst k" "snd k"]
        split: option.split intro!: add_nonneg_nonneg mult_nonneg_nonneg)
qed

lemma window_credit_le:
  assumes "buckets_ok B" "t0 \<le> T"
  shows "window_credit t0 T (sid, c) B \<le> LIMITS c * (2 + (T - t0) div intervalMs)"
proof -
  have w: "0 \<le> (T - t0) div intervalMs" using assms(2) by (simp add: intervalMs_def)
  show ?thesis
  proof (cases "B (key_of sid c)")
    case None
    with w LIMITS_pos [of c] show ?thesis by (simp add: window_credit_def algebra_simps)
  next
    case (Some b)
    let ?m = "max 0 (min ((T - lastRefill b) div intervalMs) (1 + (T - t0) div intervalMs))"
    have "?m \<le> 1 + (T - t0) div intervalMs" using w by simp
    then have "LIMITS c * ?m \<le> LIMITS c * (1 + (T - t0) div intervalMs)"
      using LIMITS_pos [of c] by (intro mult_left_mono) simp_all
    moreover have "tokens b \<le> LIMITS c" using buckets_okD [OF assms(1) Some] by (simp add: bucket_ok_def)
    ultimately show ?thesis using Some by (simp add: window_credit_def algebra_simps)
  qed
qed

end
