(* ===== verification/Backend.thy ===== *)
theory Backend
  imports RateLimit
begin

text \<open>
  The backend service of weftik-backend/src/node: role check (rbac-middleware.ts), parameter
  validation (schema-validator.ts), sessions, dispatch, error mapping and audit entries
  (weftik-backend-service.ts). The native bridge is code outside the service: \<open>bridge m\<close> is
  \<open>None\<close> when the loaded module has no function \<open>m\<close>, and a function otherwise that takes the
  parameters and the state of the world, and throws a message or returns a value.
\<close>

subsection \<open>Values and errors\<close>

text \<open>
  A parameter received over RPC. A number carries the text \<open>String(n)\<close> gives, another object
  its \<open>String\<close> text.
\<close>

datatype js_param =
    PString string
  | PNumber string
  | PBool bool
  | PNull
  | PUndefined
  | PObject string

fun typeof :: "js_param \<Rightarrow> string" where
  "typeof (PString s) = ''string''"
| "typeof (PNumber t) = ''number''"
| "typeof (PBool b) = ''boolean''"
| "typeof PNull = ''object''"
| "typeof PUndefined = ''undefined''"
| "typeof (PObject t) = ''object''"

fun String_of :: "js_param \<Rightarrow> string" where
  "String_of (PString s) = s"
| "String_of (PNumber t) = t"
| "String_of (PBool b) = (if b then ''true'' else ''false'')"
| "String_of PNull = ''null''"
| "String_of PUndefined = ''undefined''"
| "String_of (PObject t) = t"

text \<open>\<open>params[i]\<close>.\<close>

definition param :: "js_param list \<Rightarrow> nat \<Rightarrow> js_param" where
  "param ps i = (if i < length ps then ps ! i else PUndefined)"

text \<open>\<open>s.length\<close> in UTF-16 units, from the UTF-8 bytes of \<open>s\<close>.\<close>

definition utf16_length :: "string \<Rightarrow> nat" where
  "utf16_length s = sum_list (map (\<lambda>c. let n = of_char c :: nat in
     if 128 \<le> n \<and> n < 192 then 0 else if 240 \<le> n then 2 else 1) s)"

datatype exn = ValidationError string | RbacError string | OtherError string

fun message_of :: "exn \<Rightarrow> string" where
  "message_of (ValidationError m) = m"
| "message_of (RbacError m) = m"
| "message_of (OtherError m) = m"

subsection \<open>Roles\<close>

datatype role = Engineer | Operator | HMI | Viewer | Auditor | Admin

fun role_text :: "role \<Rightarrow> string" where
  "role_text Engineer = ''Engineer''"
| "role_text Operator = ''Operator''"
| "role_text HMI = ''HMI''"
| "role_text Viewer = ''Viewer''"
| "role_text Auditor = ''Auditor''"
| "role_text Admin = ''Admin''"

definition all_roles :: "role list" where
  "all_roles = [Engineer, Operator, HMI, Viewer, Auditor, Admin]"

definition WRITE_METHODS :: "string list" where
  "WRITE_METHODS =
     [''compileFbd'', ''compileGcode'', ''compileIl'', ''compileLd'', ''compileSfc'', ''compileSt'',
      ''debugAddBreakpoint'', ''debugConnect'', ''debugDisconnect'', ''debugPause'',
      ''debugRemoveBreakpoint'', ''debugResume'', ''debugStep'', ''deployProgram'',
      ''loadHalConfig'', ''simCreate'', ''simDestroy'', ''simStep'']"

definition WRITE_ROLES :: "role list" where
  "WRITE_ROLES = [Engineer, Admin]"

definition READ_ROLES :: "role list" where
  "READ_ROLES = [Engineer, Admin, Operator, HMI, Viewer, Auditor]"

definition resolve_role :: "string \<Rightarrow> role" where
  "resolve_role r = (case List.find (\<lambda>x. role_text x = r) all_roles of Some x \<Rightarrow> x | None \<Rightarrow> Viewer)"

definition rbac_error :: "role \<Rightarrow> string \<Rightarrow> exn" where
  "rbac_error role method = RbacError
     (''RBAC denied: role '' @ dq @ role_text role @ dq @ '' is not authorized to call '' @ dq @ method @ dq)"

definition checkRbac :: "string \<Rightarrow> string \<Rightarrow> exn + unit" where
  "checkRbac role method =
     (let resolvedRole = resolve_role role in
      if method \<in> set WRITE_METHODS then
        if resolvedRole \<notin> set WRITE_ROLES then Inl (rbac_error resolvedRole method) else Inr ()
      else
        if resolvedRole \<notin> set READ_ROLES then Inl (rbac_error resolvedRole method) else Inr ())"

subsection \<open>Parameter validation\<close>

definition SOURCE_MAX_BYTES :: nat where
  "SOURCE_MAX_BYTES = 1048576"

definition expected_string :: "string \<Rightarrow> js_param \<Rightarrow> exn" where
  "expected_string paramName v =
     ValidationError (paramName @ '': expected string, got '' @ typeof v)"

definition must_not_be_empty :: "string \<Rightarrow> exn" where
  "must_not_be_empty paramName = ValidationError (paramName @ '': must not be empty'')"

fun validateString :: "js_param \<Rightarrow> string \<Rightarrow> exn + unit" where
  "validateString (PString s) paramName = Inr ()"
| "validateString v paramName = Inl (expected_string paramName v)"

fun validateSource :: "js_param \<Rightarrow> string \<Rightarrow> exn + unit" where
  "validateSource (PString s) paramName =
     (if s = [] then Inl (must_not_be_empty paramName)
      else if length s > SOURCE_MAX_BYTES then Inl (ValidationError (paramName @ '': exceeds 1MB limit''))
      else Inr ())"
| "validateSource v paramName = Inl (expected_string paramName v)"

definition validateNonEmptyString :: "js_param \<Rightarrow> string \<Rightarrow> exn + unit" where
  "validateNonEmptyString v paramName =
     bindE (validateString v paramName)
       (\<lambda>_. if v = PString [] then Inl (must_not_be_empty paramName) else Inr ())"

definition validateNumber :: "js_param \<Rightarrow> string \<Rightarrow> exn + unit" where
  "validateNumber v paramName =
     (case v of
        PNumber t \<Rightarrow>
          if t = ''NaN'' \<or> t = ''Infinity'' \<or> t = ''-Infinity''
          then Inl (ValidationError (paramName @ '': expected finite number, got '' @ typeof v)) else Inr ()
      | _ \<Rightarrow> Inl (ValidationError (paramName @ '': expected finite number, got '' @ typeof v)))"

text \<open>
  \<open>SIGNAL_NAME_PATTERN\<close>: three segments with dots between them. The dot is in none of the
  character classes, so the pattern matches without backtracking.
\<close>

definition lower_letter :: "char \<Rightarrow> bool" where
  "lower_letter c \<longleftrightarrow> 97 \<le> (of_char c :: nat) \<and> (of_char c :: nat) \<le> 122"

definition name_char :: "char \<Rightarrow> bool" where
  "name_char c \<longleftrightarrow> lower_letter c \<or> digit_char c"

definition match_segment :: "(char \<Rightarrow> bool) \<Rightarrow> string \<Rightarrow> string option" where
  "match_segment allowed s = (case s of [] \<Rightarrow> None
     | c # cs \<Rightarrow> if lower_letter c then Some (dropWhile allowed cs) else None)"

definition match_dot :: "string \<Rightarrow> string option" where
  "match_dot s = (case s of c # cs \<Rightarrow> if c = CHR ''.'' then Some cs else None | [] \<Rightarrow> None)"

definition SIGNAL_NAME_PATTERN :: "string \<Rightarrow> bool" where
  "SIGNAL_NAME_PATTERN s =
     (Option.bind (match_segment name_char s) (\<lambda>s. Option.bind (match_dot s) (\<lambda>s.
      Option.bind (match_segment name_char s) (\<lambda>s. Option.bind (match_dot s)
        (match_segment (\<lambda>c. name_char c \<or> c = CHR ''_''))))) = Some [])"

fun validateSignalName :: "js_param \<Rightarrow> string \<Rightarrow> exn + unit" where
  "validateSignalName (PString s) paramName =
     (if \<not> SIGNAL_NAME_PATTERN s then Inl (ValidationError
        (paramName @ '': must match pattern '' @ dq @ ''component.interface.name'' @ dq @
         '' (e.g. '' @ dq @ ''axis.0.pos'' @ dq @ ''), got '' @ dq @ s @ dq))
      else Inr ())"
| "validateSignalName v paramName = Inl (expected_string paramName v)"

subsection \<open>The service\<close>

record session =
  sessionId :: string
  socketPath :: string
  secret :: string
  connected :: bool
  heartbeatTimer :: bool
  reconnectAttempt :: nat

datatype outcome = success | error

record audit_entry =
  operation :: string
  auditRole :: string
  paramSummary :: string
  auditOutcome :: outcome
  errorMessage :: "string option"

record 'w service =
  sessions :: "string \<Rightarrow> session option"
  buckets :: buckets
  audit :: "audit_entry list"
  world :: 'w

datatype error_data = CompileErrorData string | IpcErrorData string

datatype 'v rpc_result =
    Succeeded "'v option"
  | Connected string
  | Failed int string "error_data option"

type_synonym ('w, 'v) bridge = "string \<Rightarrow> (js_param list \<Rightarrow> 'w \<Rightarrow> (string + 'v) \<times> 'w) option"

definition auditLog :: "audit_entry \<Rightarrow> 'w service \<Rightarrow> 'w service" where
  "auditLog e s = s\<lparr>audit := audit s @ [e]\<rparr>"

definition error_code :: "exn \<Rightarrow> int \<times> error_data option" where
  "error_code err = (let message = message_of err in
     case err of
       ValidationError m \<Rightarrow> (-32602, None)
     | _ \<Rightarrow>
         (let code = (case err of RbacError m \<Rightarrow> -32000 | _ \<Rightarrow> -32001) in
          if str_includes message ''CompileError'' \<or> str_includes message ''compilation''
          then (-32002, Some (CompileErrorData message))
          else if str_includes message ''IpcError'' \<or> str_includes message ''IPC''
          then (-32003, Some (IpcErrorData message))
          else (code, None)))"

definition handleError :: "exn \<Rightarrow> string \<Rightarrow> string \<Rightarrow> 'w service \<Rightarrow> 'v rpc_result \<times> 'w service" where
  "handleError err op role s =
     (Failed (fst (error_code err)) (message_of err) (snd (error_code err)),
      auditLog \<lparr>operation = op, auditRole = role, paramSummary = ''error'', auditOutcome = error,
        errorMessage = Some (message_of err)\<rparr> s)"

definition connect :: "string \<Rightarrow> js_param \<Rightarrow> js_param \<Rightarrow> string \<Rightarrow> 'w service \<Rightarrow> 'v rpc_result \<times> 'w service" where
  "connect sid path key role s =
     (case bindE (validateNonEmptyString path ''socketPath'')
             (\<lambda>_. validateNonEmptyString key ''secret'') of
        Inl e \<Rightarrow> handleError e ''session:connect'' role s
      | Inr _ \<Rightarrow>
          if sessions s sid \<noteq> None then (Failed (-32000) ''Session already exists'' None, s)
          else
            (Connected sid,
             auditLog \<lparr>operation = ''session:connect'', auditRole = role,
                paramSummary = ''session='' @ sid @ '' path='' @ String_of path,
                auditOutcome = success, errorMessage = None\<rparr>
              (s\<lparr>sessions := (sessions s)(sid \<mapsto>
                 \<lparr>sessionId = sid, socketPath = String_of path, secret = String_of key,
                  connected = True, heartbeatTimer = True, reconnectAttempt = 0\<rparr>)\<rparr>)))"

definition disconnect :: "string \<Rightarrow> string \<Rightarrow> 'w service \<Rightarrow> 'v rpc_result \<times> 'w service" where
  "disconnect sid role s =
     (let s1 = (case sessions s sid of None \<Rightarrow> s
         | Some x \<Rightarrow> s\<lparr>sessions := (sessions s)(sid := None),
                       buckets := removeRateLimitSession sid (buckets s)\<rparr>) in
      (Succeeded None,
       auditLog \<lparr>operation = ''session:disconnect'', auditRole = role,
         paramSummary = ''session='' @ sid, auditOutcome = success, errorMessage = None\<rparr> s1))"

text \<open>
  The \<open>switch\<close> of \<open>executeNapiCall\<close>: the parameters the method is called with once they
  validate; \<open>None\<close> is the default branch.
\<close>

definition two_strings :: "js_param list \<Rightarrow> (exn + unit) \<Rightarrow> exn + unit" where
  "two_strings ps k =
     bindE (validateNonEmptyString (param ps 0) ''socketPath'')
       (\<lambda>_. bindE (validateNonEmptyString (param ps 1) ''secret'') (\<lambda>_. k))"

definition COMPILE_CASES :: "string list" where
  "COMPILE_CASES =
     [''compileSt'', ''compileIl'', ''compileLd'', ''compileFbd'', ''compileSfc'', ''compileGcode'']"

definition napi_args :: "string \<Rightarrow> js_param list \<Rightarrow> (exn + js_param list) option" where
  "napi_args method ps =
     (let p = param ps; ret = (\<lambda>m as. Some (bindE m (\<lambda>_. Inr as))) in
      if method \<in> set COMPILE_CASES
      then ret (validateSource (p 0) ''source'') [p 0]
      else if method = ''deployProgram''
      then ret (two_strings ps (validateNonEmptyString (p 2) ''programJson'')) [p 0, p 1, p 2]
      else if method = ''loadHalConfig''
      then ret (two_strings ps (validateNonEmptyString (p 2) ''yaml'')) [p 0, p 1, p 2]
      else if method = ''healthQuery'' then ret (two_strings ps (Inr ())) [p 0, p 1]
      else if method = ''readSignal''
      then ret (two_strings ps (validateSignalName (p 2) ''signalName'')) [p 0, p 1, p 2]
      else if method = ''signalSnapshot''
      then ret (two_strings ps (validateString (p 2) ''pattern'')) [p 0, p 1, p 2]
      else if method = ''debugConnect'' then ret (two_strings ps (Inr ())) [p 0, p 1]
      else if method = ''debugAddBreakpoint'' \<or> method = ''debugRemoveBreakpoint''
      then ret (validateNumber (p 0) ''ip'') [p 0]
      else if method \<in> set [''debugGetBreakpoints'', ''debugGetRegisters'', ''debugGetState'',
          ''debugDisconnect'', ''debugPause'', ''debugResume'', ''debugStep'']
      then ret (Inr ()) []
      else if method = ''openProject'' then ret (validateNonEmptyString (p 0) ''projectPath'') [p 0]
      else if method = ''readProjectFile'' then ret (validateNonEmptyString (p 0) ''filePath'') [p 0]
      else if method = ''simCreate'' then ret (validateNumber (p 0) ''cycleMs'') [p 0]
      else if method = ''simDestroy'' \<or> method = ''simStep'' then ret (Inr ()) []
      else None)"

definition call_bridge :: "(js_param list \<Rightarrow> 'w \<Rightarrow> (string + 'v) \<times> 'w) \<Rightarrow> js_param list \<Rightarrow> 'w service
    \<Rightarrow> (exn + 'v) \<times> 'w service" where
  "call_bridge fn as s = (case fn as (world s) of
     (Inl m, w) \<Rightarrow> (Inl (OtherError m), s\<lparr>world := w\<rparr>)
   | (Inr v, w) \<Rightarrow> (Inr v, s\<lparr>world := w\<rparr>))"

definition executeNapiCall :: "('w, 'v) bridge \<Rightarrow> string \<Rightarrow> js_param list \<Rightarrow> 'w service
    \<Rightarrow> (exn + 'v) \<times> 'w service" where
  "executeNapiCall bridge method ps s = (case bridge method of
     None \<Rightarrow> (Inl (OtherError (''Unknown method: '' @ method)), s)
   | Some fn \<Rightarrow> (case napi_args method ps of
       Some (Inl e) \<Rightarrow> (Inl e, s)
     | Some (Inr as) \<Rightarrow> call_bridge fn as s
     | None \<Rightarrow> call_bridge fn ps
         (auditLog \<lparr>operation = ''dispatch:unknown'', auditRole = ''system'', paramSummary = method,
            auditOutcome = error,
            errorMessage = Some (''Method '' @ method @ '' dispatched without explicit validation'')\<rparr> s)))"

definition param_summary :: "string \<Rightarrow> js_param list \<Rightarrow> string" where
  "param_summary method ps =
     (if ps = [] then ''(no params)''
      else if method \<in> set COMPILE_CASES
      then ''source='' @ nat_to_dec (utf16_length (String_of (param ps 0))) @ '' chars''
      else if method = ''readSignal'' then ''signal='' @ dq @ String_of (param ps 2) @ dq
      else if method = ''signalSnapshot'' then ''pattern='' @ dq @ String_of (param ps 2) @ dq
      else if method = ''deployProgram''
      then ''path='' @ dq @ String_of (param ps 0) @ dq @ '' payload='' @
             nat_to_dec (utf16_length (String_of (param ps 2))) @ '' chars''
      else if method = ''debugAddBreakpoint'' \<or> method = ''debugRemoveBreakpoint''
      then ''ip='' @ String_of (param ps 0)
      else nat_to_dec (length ps) @ '' param(s)'')"

definition dispatch :: "('w, 'v) bridge \<Rightarrow> int \<Rightarrow> string \<Rightarrow> js_param list \<Rightarrow> string \<Rightarrow> string \<Rightarrow> 'w service
    \<Rightarrow> 'v rpc_result \<times> 'w service" where
  "dispatch bridge now method ps sid role s =
     (let (granted, B) = checkRateLimit now sid method (buckets s); s1 = s\<lparr>buckets := B\<rparr> in
      if \<not> granted then (Failed (-32000) (''Rate limited: '' @ method) None, s1)
      else case checkRbac role method of
        Inl e \<Rightarrow> handleError e method role s1
      | Inr _ \<Rightarrow> (case executeNapiCall bridge method ps s1 of
          (Inl e, s2) \<Rightarrow> handleError e method role s2
        | (Inr v, s2) \<Rightarrow> (Succeeded (Some v),
            auditLog \<lparr>operation = method, auditRole = role, paramSummary = param_summary method ps,
              auditOutcome = success, errorMessage = None\<rparr> s2)))"

end
