(* ===== verification/BackendProps.thy ===== *)
theory BackendProps
  imports Backend
begin

text \<open>
  Properties of the backend service: what its state keeps, which calls reach the native
  bridge, what a refused call returns, what the audit log reveals, how many requests the
  limiter grants in a window, and where a disconnect reaches into another session.
\<close>

subsection \<open>The state of the service\<close>

definition service_ok :: "'w service \<Rightarrow> bool" where
  "service_ok s \<longleftrightarrow> buckets_ok (buckets s) \<and>
     (\<forall>sid x. sessions s sid = Some x \<longrightarrow>
        sessionId x = sid \<and> socketPath x \<noteq> [] \<and> secret x \<noteq> [] \<and> connected x \<and> heartbeatTimer x)"

datatype service_call =
    Connect string js_param js_param string
  | Disconnect string string
  | Dispatch int string "js_param list" string string

fun serve :: "('w, 'v) bridge \<Rightarrow> service_call \<Rightarrow> 'w service \<Rightarrow> 'v rpc_result \<times> 'w service" where
  "serve bridge (Connect sid path key role) s = connect sid path key role s"
| "serve bridge (Disconnect sid role) s = disconnect sid role s"
| "serve bridge (Dispatch now method ps sid role) s = dispatch bridge now method ps sid role s"

fun serve_all :: "('w, 'v) bridge \<Rightarrow> service_call list \<Rightarrow> 'w service \<Rightarrow> 'w service" where
  "serve_all bridge [] s = s"
| "serve_all bridge (r # rs) s = serve_all bridge rs (snd (serve bridge r s))"

definition started :: "'w \<Rightarrow> 'w service" where
  "started w = \<lparr>sessions = Map.empty, buckets = Map.empty, audit = [], world = w\<rparr>"

named_theorems service_simps \<open>which fields an operation leaves alone\<close>

lemma auditLog_fields [service_simps, simp]:
  "sessions (auditLog e s) = sessions s" "buckets (auditLog e s) = buckets s"
  "world (auditLog e s) = world s" "audit (auditLog e s) = audit s @ [e]"
  by (simp_all add: auditLog_def)

lemma handleError_fields [service_simps, simp]:
  "sessions (snd (handleError e m r s)) = sessions s" "buckets (snd (handleError e m r s)) = buckets s"
  "world (snd (handleError e m r s)) = world s"
  by (simp_all add: handleError_def)

lemma call_bridge_fields [service_simps, simp]:
  "sessions (snd (call_bridge f as s)) = sessions s" "buckets (snd (call_bridge f as s)) = buckets s"
  "world (snd (call_bridge f as s)) = snd (f as (world s))" "audit (snd (call_bridge f as s)) = audit s"
  by (auto simp: call_bridge_def split: prod.split sum.split)

lemma executeNapiCall_fields [service_simps, simp]:
  "sessions (snd (executeNapiCall br m ps s)) = sessions s"
  "buckets (snd (executeNapiCall br m ps s)) = buckets s"
  by (auto simp: executeNapiCall_def split: option.split sum.split)

text \<open>The operations without pattern matching on pairs.\<close>

lemma dispatch_unfold:
  "dispatch br now m ps sid role s =
     (let g = checkRateLimit now sid m (buckets s); s1 = s\<lparr>buckets := snd g\<rparr>;
          x = executeNapiCall br m ps s1 in
      if \<not> fst g then (Failed (-32000) (''Rate limited: '' @ m) None, s1)
      else case checkRbac role m of
        Inl e \<Rightarrow> handleError e m role s1
      | Inr _ \<Rightarrow> (case fst x of
          Inl e \<Rightarrow> handleError e m role (snd x)
        | Inr v \<Rightarrow> (Succeeded (Some v),
            auditLog \<lparr>operation = m, auditRole = role, paramSummary = param_summary m ps,
              auditOutcome = success, errorMessage = None\<rparr> (snd x))))"
  by (simp add: dispatch_def split_beta Let_def split: sum.split)

lemma dispatch_fields [service_simps, simp]:
  "sessions (snd (dispatch br now m ps sid role s)) = sessions s"
  "buckets (snd (dispatch br now m ps sid role s)) = snd (checkRateLimit now sid m (buckets s))"
  by (simp_all add: dispatch_unfold Let_def split: sum.split)

lemma validateNonEmptyString_ok:
  "validateNonEmptyString v n = Inr () \<longleftrightarrow> (\<exists>t. v = PString t \<and> t \<noteq> [])"
  by (cases v) (auto simp: validateNonEmptyString_def)

lemma connect_ok:
  assumes "service_ok s"
  shows "service_ok (snd (connect sid path key role s))"
proof (cases "bindE (validateNonEmptyString path ''socketPath'') (\<lambda>_. validateNonEmptyString key ''secret'')")
  case (Inl e)
  with assms show ?thesis by (simp add: connect_def service_ok_def)
next
  case (Inr u)
  then have "validateNonEmptyString path ''socketPath'' = Inr ()" "validateNonEmptyString key ''secret'' = Inr ()"
    by (auto elim: bindE_InrE)
  then obtain p k where "path = PString p" "p \<noteq> []" "key = PString k" "k \<noteq> []"
    by (auto simp: validateNonEmptyString_ok)
  with Inr assms show ?thesis by (auto simp: connect_def service_ok_def)
qed

lemma disconnect_ok: "service_ok s \<Longrightarrow> service_ok (snd (disconnect sid role s))"
  by (auto simp: disconnect_def service_ok_def removeRateLimitSession_ok Let_def split: option.split)

lemma dispatch_ok: "service_ok s \<Longrightarrow> service_ok (snd (dispatch br now m ps sid role s))"
  by (simp add: service_ok_def checkRateLimit_ok)

lemma serve_ok: "service_ok s \<Longrightarrow> service_ok (snd (serve br r s))"
  by (cases r) (simp_all add: connect_ok disconnect_ok dispatch_ok)

lemma serve_all_ok: "service_ok s \<Longrightarrow> service_ok (serve_all br rs s)"
  by (induction rs arbitrary: s) (simp_all add: serve_ok)

lemma started_ok [simp]: "service_ok (started w)"
  by (simp add: service_ok_def started_def)

subsection \<open>Which calls reach the bridge\<close>

lemma resolve_role_writes:
  "resolve_role r \<in> set WRITE_ROLES \<longleftrightarrow> r = ''Engineer'' \<or> r = ''Admin''"
  by (auto simp: resolve_role_def WRITE_ROLES_def all_roles_def)

lemma READ_ROLES_all: "r \<in> set READ_ROLES"
  by (cases r) (simp_all add: READ_ROLES_def)

lemma checkRbac_iff:
  "checkRbac role m = Inr () \<longleftrightarrow> (m \<in> set WRITE_METHODS \<longrightarrow> role = ''Engineer'' \<or> role = ''Admin'')"
  using resolve_role_writes [of role] by (auto simp: checkRbac_def Let_def READ_ROLES_all)

lemma executeNapiCall_world:
  "world (snd (executeNapiCall br m ps s)) = world s \<or>
   (\<exists>fn as. br m = Some fn \<and> (napi_args m ps = Some (Inr as) \<or> napi_args m ps = None \<and> as = ps) \<and>
      world (snd (executeNapiCall br m ps s)) = snd (fn as (world s)))"
  by (auto simp: executeNapiCall_def split: option.split sum.split)

text \<open>The compile methods are exactly the write methods with that prefix.\<close>

lemma compile_write_methods:
  "m \<in> set WRITE_METHODS \<Longrightarrow> starts_with ''compile'' m \<Longrightarrow> m \<in> set COMPILE_CASES"
proof -
  have "\<forall>m \<in> set WRITE_METHODS. starts_with ''compile'' m \<longrightarrow> m \<in> set COMPILE_CASES"
    by code_simp
  then show "m \<in> set WRITE_METHODS \<Longrightarrow> starts_with ''compile'' m \<Longrightarrow> m \<in> set COMPILE_CASES"
    by blast
qed

lemma napi_args_compile:
  "m \<in> set COMPILE_CASES \<Longrightarrow>
    napi_args m ps = Some (bindE (validateSource (param ps 0) ''source'') (\<lambda>_. Inr [param ps 0]))"
  by (simp add: napi_args_def Let_def)

lemma napi_args_compileE:
  assumes "m \<in> set COMPILE_CASES" "napi_args m ps = Some (Inr as)"
  obtains src where "as = [PString src]" "src \<noteq> []" "length src \<le> SOURCE_MAX_BYTES"
proof -
  from assms obtain u where "validateSource (param ps 0) ''source'' = Inr u" "as = [param ps 0]"
    by (auto simp: napi_args_compile elim: bindE_InrE)
  then show thesis
    by (cases "param ps 0") (auto split: if_splits intro: that)
qed

text \<open>
  C6: whatever a request asks, the world behind the native bridge changes only by one call of
  the bridge function of that name, and only when the request was within its rate limit, its
  role is Engineer or Admin if the method is a write method, and its parameters passed the
  method's validation (a method without a case of its own is passed its parameters as they
  are); a compile function sees one non-empty source of at most 1 MB.
\<close>

theorem dispatch_guarded:
  assumes changed: "world (snd (dispatch br now m ps sid role s)) \<noteq> world s"
  shows "fst (checkRateLimit now sid m (buckets s)) \<and>
    (m \<in> set WRITE_METHODS \<longrightarrow> role = ''Engineer'' \<or> role = ''Admin'') \<and>
    (\<exists>fn as. br m = Some fn \<and>
       (napi_args m ps = Some (Inr as) \<or> napi_args m ps = None \<and> as = ps) \<and>
       world (snd (dispatch br now m ps sid role s)) = snd (fn as (world s)) \<and>
       (starts_with ''compile'' m \<and> m \<in> set WRITE_METHODS \<longrightarrow>
          (\<exists>src. as = [PString src] \<and> src \<noteq> [] \<and> length src \<le> SOURCE_MAX_BYTES)))"
proof -
  let ?g = "checkRateLimit now sid m (buckets s)"
  let ?x = "executeNapiCall br m ps (s\<lparr>buckets := snd ?g\<rparr>)"
  from changed have g: "fst ?g" by (auto simp: dispatch_unfold Let_def split: if_splits)
  from changed g have r: "checkRbac role m = Inr ()"
    by (cases "checkRbac role m") (auto simp: dispatch_unfold Let_def)
  from g r have w: "world (snd (dispatch br now m ps sid role s)) = world (snd ?x)"
    by (simp add: dispatch_unfold Let_def split: sum.split)
  with changed obtain fn as where fn: "br m = Some fn"
      "napi_args m ps = Some (Inr as) \<or> napi_args m ps = None \<and> as = ps"
      "world (snd ?x) = snd (fn as (world s))"
    using executeNapiCall_world [of br m ps "s\<lparr>buckets := snd ?g\<rparr>"] by auto
  have "\<exists>src. as = [PString src] \<and> src \<noteq> [] \<and> length src \<le> SOURCE_MAX_BYTES"
    if m: "starts_with ''compile'' m" "m \<in> set WRITE_METHODS"
  proof -
    have c: "m \<in> set COMPILE_CASES" using m by (intro compile_write_methods)
    with fn(2) have "napi_args m ps = Some (Inr as)" by (auto simp: napi_args_compile)
    with c show ?thesis by (blast elim: napi_args_compileE)
  qed
  with g r fn w show ?thesis by (auto simp: checkRbac_iff)
qed

text \<open>A bridge whose world counts its calls.\<close>

definition counting :: "(nat, string) bridge" where
  "counting m = (if m \<in> set [''compileSt'', ''controllerStart''] then Some (\<lambda>as n. (Inr m, Suc n)) else None)"

lemma dispatch_guarded_witness:
  "world (snd (dispatch counting 5 ''compileSt'' [PString ''x := 1;''] ''1'' ''Engineer'' (started 0))) = 1 \<and>
   fst (checkRateLimit 5 ''1'' ''compileSt'' Map.empty)"
proof -
  have w: "world (snd (dispatch counting 5 ''compileSt'' [PString ''x := 1;''] ''1'' ''Engineer'' (started 0))) = 1"
    using checkRbac_iff [of "''Engineer''" "''compileSt''"]
    by (simp add: dispatch_unfold executeNapiCall_def napi_args_compile COMPILE_CASES_def counting_def
        checkRateLimit_def started_def param_def SOURCE_MAX_BYTES_def call_bridge_def Let_def)
  then show ?thesis
    using dispatch_guarded [of counting 5 "''compileSt''" "[PString ''x := 1;'']" "''1''" "''Engineer''" "started 0"]
    by (simp add: started_def)
qed

lemma controller_methods:
  "''controllerStart'' \<notin> set WRITE_METHODS" "''controllerStop'' \<notin> set WRITE_METHODS"
  "napi_args ''controllerStart'' ps = None" "napi_args ''controllerStop'' ps = None"
  by (simp_all add: WRITE_METHODS_def napi_args_def COMPILE_CASES_def Let_def)

text \<open>
  The bridge functions that start and stop the controller process are in no list of
  write methods, so a request of any role, a viewer's included, runs them with its own
  parameters (the binary to start among them) unvalidated.
\<close>

theorem controller_unguarded:
  assumes "m = ''controllerStart'' \<or> m = ''controllerStop''" "br m = Some fn"
    and "fst (checkRateLimit now sid m (buckets s))"
  shows "world (snd (dispatch br now m ps sid role s)) = snd (fn ps (world s))"
proof -
  have "m \<notin> set WRITE_METHODS" using assms(1) controller_methods(1,2) by blast
  then have "checkRbac role m = Inr ()" by (simp add: checkRbac_iff)
  moreover have "napi_args m ps = None"
    using assms(1) by (elim disjE) (simp_all add: controller_methods)
  ultimately show ?thesis
    using assms(2,3) by (simp add: dispatch_unfold executeNapiCall_def Let_def split: sum.split)
qed

lemma controller_unguarded_witness:
  "world (snd (dispatch counting 5 ''controllerStart'' [PString ''/tmp/s'', PString ''/bin/sh''] ''1'' ''Viewer'' (started 0))) = 1"
  using controller_unguarded [of "''controllerStart''" counting "\<lambda>as n. (Inr ''controllerStart'', Suc n)"
      5 "''1''" "started 0" "[PString ''/tmp/s'', PString ''/bin/sh'']" "''Viewer''"]
  by (simp add: counting_def started_def checkRateLimit_def)

subsection \<open>Refusals\<close>

lemma resolve_role_denied:
  "role \<noteq> ''Engineer'' \<Longrightarrow> role \<noteq> ''Admin'' \<Longrightarrow> resolve_role role \<in> {Operator, HMI, Viewer, Auditor}"
  using resolve_role_writes [of role] by (cases "resolve_role role") (auto simp: WRITE_ROLES_def)

text \<open>No denial message of a write method reads like a compiler or controller error.\<close>

lemma rbac_error_code:
  assumes "m \<in> set WRITE_METHODS" "r \<in> {Operator, HMI, Viewer, Auditor}"
  shows "error_code (rbac_error r m) = (-32000, None)"
proof -
  have "\<forall>m \<in> set WRITE_METHODS. \<forall>r \<in> set [Operator, HMI, Viewer, Auditor].
      error_code (rbac_error r m) = (-32000, None)"
    by code_simp
  with assms show ?thesis by auto
qed

text \<open>
  A write method asked for with any role but Engineer and Admin, unknown role names
  included, is refused with the permission code -32000 and leaves the sessions and the world
  as they are; only the rate limiter's bucket and an audit entry record it. Parameters that
  do not validate are refused with -32602, and a throttled request with -32000, which is not
  audited at all.
\<close>

theorem dispatch_refusals:
  "(\<not> fst (checkRateLimit now sid m (buckets s)) \<longrightarrow>
      dispatch br now m ps sid role s =
        (Failed (-32000) (''Rate limited: '' @ m) None,
         s\<lparr>buckets := snd (checkRateLimit now sid m (buckets s))\<rparr>)) \<and>
   (fst (checkRateLimit now sid m (buckets s)) \<and> m \<in> set WRITE_METHODS \<and>
      role \<noteq> ''Engineer'' \<and> role \<noteq> ''Admin'' \<longrightarrow>
      fst (dispatch br now m ps sid role s) =
        Failed (-32000) (message_of (rbac_error (resolve_role role) m)) None \<and>
      world (snd (dispatch br now m ps sid role s)) = world s \<and>
      sessions (snd (dispatch br now m ps sid role s)) = sessions s \<and>
      map auditOutcome (audit (snd (dispatch br now m ps sid role s))) = map auditOutcome (audit s) @ [error]) \<and>
   (fst (checkRateLimit now sid m (buckets s)) \<and> checkRbac role m = Inr () \<and> br m \<noteq> None \<and>
      napi_args m ps = Some (Inl (ValidationError msg)) \<longrightarrow>
      fst (dispatch br now m ps sid role s) = Failed (-32602) msg None \<and>
      world (snd (dispatch br now m ps sid role s)) = world s)"
    (is "(?A \<longrightarrow> ?A') \<and> (?B \<longrightarrow> ?B') \<and> (?C \<longrightarrow> ?C')")
proof (rule conjI [OF impI conjI [OF impI impI]])
  assume ?A
  then show ?A' by (simp add: dispatch_unfold Let_def)
next
  assume B: ?B
  then have d: "resolve_role role \<in> {Operator, HMI, Viewer, Auditor}"
    by (intro resolve_role_denied) simp_all
  with B have "checkRbac role m = Inl (rbac_error (resolve_role role) m)"
    by (auto simp: checkRbac_def WRITE_ROLES_def Let_def)
  with B rbac_error_code [of m, OF _ d] show ?B'
    by (simp add: dispatch_unfold handleError_def Let_def)
next
  assume ?C
  then show ?C'
    by (auto simp: dispatch_unfold executeNapiCall_def handleError_def error_code_def Let_def)
qed

lemma dispatch_refusals_witness:
  "fst (dispatch counting 5 ''compileSt'' [PString ''x''] ''1'' ''Viewer'' (started 0)) =
     Failed (-32000) (message_of (rbac_error Viewer ''compileSt'')) None"
proof -
  have "fst (checkRateLimit 5 ''1'' ''compileSt'' (buckets (started (0 :: nat))))"
    by (simp add: checkRateLimit_def started_def)
  moreover have "''compileSt'' \<in> set WRITE_METHODS" "resolve_role ''Viewer'' = Viewer"
    by (simp_all add: WRITE_METHODS_def resolve_role_def all_roles_def)
  ultimately show ?thesis
    using dispatch_refusals [of 5 "''1''" "''compileSt''" "started 0" counting "[PString ''x'']" "''Viewer''"]
    by simp
qed

subsection \<open>The audit log\<close>

text \<open>
  What the audit log records of a call that succeeds does not depend on the second
  parameter, where a method takes its secret, and of a compile call it records only how many
  characters the source has; connecting records nothing of the session's secret either.
\<close>

theorem audit_keeps_secrets:
  "param_summary m (ps[1 := x]) = param_summary m ps \<and>
   (c \<in> set COMPILE_CASES \<and> utf16_length src = utf16_length src' \<longrightarrow>
     param_summary c [PString src] = param_summary c [PString src']) \<and>
   (key \<noteq> [] \<and> key' \<noteq> [] \<longrightarrow>
     audit (snd (connect sid path (PString key) role s)) = audit (snd (connect sid path (PString key') role s)))"
proof (intro conjI impI)
  have "param (ps[1 := x]) 0 = param ps 0" "param (ps[1 := x]) 2 = param ps 2" "ps[1 := x] = [] \<longleftrightarrow> ps = []"
    by (simp_all add: param_def)
  then show "param_summary m (ps[1 := x]) = param_summary m ps"
    unfolding param_summary_def by simp
next
  show "c \<in> set COMPILE_CASES \<and> utf16_length src = utf16_length src' \<Longrightarrow>
     param_summary c [PString src] = param_summary c [PString src']"
    by (simp add: param_summary_def param_def)
next
  have "validateNonEmptyString (PString key) n = Inr ()" if "key \<noteq> []" for key n
    using that by (simp add: validateNonEmptyString_ok)
  then show "key \<noteq> [] \<and> key' \<noteq> [] \<Longrightarrow>
     audit (snd (connect sid path (PString key) role s)) = audit (snd (connect sid path (PString key') role s))"
    by (cases "validateNonEmptyString path ''socketPath''")
      (simp_all add: connect_def handleError_def auditLog_def)
qed

lemma audit_keeps_secrets_witness:
  "param_summary ''compileSt'' [PString ''a := 1;''] = param_summary ''compileSt'' [PString ''b := 2;'']"
proof -
  have "''compileSt'' \<in> set COMPILE_CASES" "utf16_length ''a := 1;'' = utf16_length ''b := 2;''"
    by (simp_all add: COMPILE_CASES_def utf16_length_def Let_def)
  then show ?thesis
    using audit_keeps_secrets [where m = "''compileSt''" and ps = "[]" and x = PNull and c = "''compileSt''"
      and src = "''a := 1;''" and src' = "''b := 2;''" and key = "''k''" and key' = "''l''"
      and path = PNull and sid = "''1''" and role = "''Admin''" and s = "started (0 :: nat)"]
    by blast
qed

subsection \<open>Signal names\<close>

lemma dropWhile_Cons_split:
  "dropWhile P s = x # r \<longleftrightarrow> (\<exists>a. s = a @ x # r \<and> list_all P a \<and> \<not> P x)"
proof
  assume "dropWhile P s = x # r"
  then show "\<exists>a. s = a @ x # r \<and> list_all P a \<and> \<not> P x"
    by (intro exI [of _ "takeWhile P s"])
      (metis hd_dropWhile list.sel(1) list.simps(3) list_all_iff set_takeWhileD takeWhile_dropWhile_id)
next
  assume "\<exists>a. s = a @ x # r \<and> list_all P a \<and> \<not> P x"
  then obtain a where a: "s = a @ x # r" "list_all P a" "\<not> P x" by blast
  then show "dropWhile P s = x # r" by (simp add: list_all_iff)
qed

definition segment :: "(char \<Rightarrow> bool) \<Rightarrow> string \<Rightarrow> bool" where
  "segment allowed s \<longleftrightarrow> s \<noteq> [] \<and> lower_letter (hd s) \<and> list_all allowed (tl s)"

lemma dot_no_name: "\<not> name_char (CHR ''.'')" "\<not> lower_letter (CHR ''.'')"
  by (simp_all add: name_char_def lower_letter_def digit_char_def)

lemma match_dot_Some: "match_dot s = Some r \<longleftrightarrow> s = CHR ''.'' # r"
  by (cases s) (simp_all add: match_dot_def)

lemma match_segment_dot:
  assumes "\<not> allowed (CHR ''.'')"
  shows "Option.bind (match_segment allowed s) match_dot = Some r
    \<longleftrightarrow> (\<exists>a. s = a @ ''.'' @ r \<and> segment allowed a)"
proof (cases s)
  case Nil
  then show ?thesis by (simp add: match_segment_def)
next
  case (Cons c cs)
  have "Option.bind (match_segment allowed s) match_dot = Some r
      \<longleftrightarrow> lower_letter c \<and> dropWhile allowed cs = CHR ''.'' # r"
    by (simp add: Cons match_segment_def match_dot_Some)
  also have "\<dots> \<longleftrightarrow> (\<exists>a. s = a @ ''.'' @ r \<and> segment allowed a)"
  proof
    assume "lower_letter c \<and> dropWhile allowed cs = CHR ''.'' # r"
    then obtain a where "cs = a @ CHR ''.'' # r" "list_all allowed a" "lower_letter c"
      by (auto simp: dropWhile_Cons_split)
    then have "s = (c # a) @ ''.'' @ r \<and> segment allowed (c # a)" by (simp add: Cons segment_def)
    then show "\<exists>a. s = a @ ''.'' @ r \<and> segment allowed a" by blast
  next
    assume "\<exists>a. s = a @ ''.'' @ r \<and> segment allowed a"
    then obtain a where a: "s = a @ ''.'' @ r" "segment allowed a" by blast
    then obtain a' where "a = c # a'" using Cons by (cases a) (auto simp: segment_def)
    with a Cons assms show "lower_letter c \<and> dropWhile allowed cs = CHR ''.'' # r"
      by (auto simp: dropWhile_Cons_split segment_def)
  qed
  finally show ?thesis .
qed

lemma match_segment_end: "match_segment allowed s = Some [] \<longleftrightarrow> segment allowed s"
  by (cases s) (auto simp: match_segment_def segment_def list_all_iff)

text \<open>
  The signal names accepted are exactly those of three segments with dots between them,
  each beginning with a lower-case letter, the first two continuing with lower-case letters
  and digits and the last with underscores too; the example the error message offers,
  \<open>axis.0.pos\<close>, is not one of them.
\<close>

theorem signal_names:
  "(SIGNAL_NAME_PATTERN s \<longleftrightarrow>
     (\<exists>a b c. s = a @ ''.'' @ b @ ''.'' @ c \<and> segment name_char a \<and> segment name_char b \<and>
        segment (\<lambda>x. name_char x \<or> x = CHR ''_'') c)) \<and>
   \<not> SIGNAL_NAME_PATTERN ''axis.0.pos''"
proof (rule conjI)
  let ?m = "match_segment (\<lambda>x. name_char x \<or> x = CHR ''_'')"
  have "SIGNAL_NAME_PATTERN s \<longleftrightarrow> (\<exists>r q.
      Option.bind (match_segment name_char s) match_dot = Some r \<and>
      Option.bind (match_segment name_char r) match_dot = Some q \<and> ?m q = Some [])"
    by (auto simp: SIGNAL_NAME_PATTERN_def bind_eq_Some_conv)
  then show "SIGNAL_NAME_PATTERN s \<longleftrightarrow>
    (\<exists>a b c. s = a @ ''.'' @ b @ ''.'' @ c \<and> segment name_char a \<and> segment name_char b \<and>
       segment (\<lambda>x. name_char x \<or> x = CHR ''_'') c)"
    unfolding match_segment_dot [where allowed = name_char, OF dot_no_name(1)] match_segment_end by auto
next
  show "\<not> SIGNAL_NAME_PATTERN ''axis.0.pos''"
    by (simp add: SIGNAL_NAME_PATTERN_def match_segment_def match_dot_def name_char_def
        lower_letter_def digit_char_def)
qed

subsection \<open>How many requests are granted\<close>

text \<open>
  C14: of the requests made between times \<open>t0\<close> and \<open>T\<close>, in any order and with other sessions'
  requests in between, a session is granted in one class at most its limit times the whole
  minutes of the window plus two, and plus one if the session had no bucket when the window
  began; so at most twice the limit in a window shorter than a minute, not the limit itself.
\<close>

theorem rate_window:
  assumes ok: "buckets_ok B" and w: "t0 \<le> T" "\<forall>r \<in> set rs. in_window t0 T r"
  shows "int (granted ask_limiter asker (sid, c) rs B) \<le>
    LIMITS c * ((if B (key_of sid c) = None then 1 else 2) + (T - t0) div intervalMs)"
proof (cases "B (key_of sid c)")
  case None
  have "0 \<le> (T - t0) div intervalMs" using w(1) by (simp add: intervalMs_def)
  with None window.granted_le_credit [OF ok w(2), of "(sid, c)"] show ?thesis
    by (simp add: window_credit_def)
next
  case (Some b)
  with window.granted_le_credit [OF ok w(2), of "(sid, c)"] window_credit_le [OF ok w(1), of sid c]
  show ?thesis by simp
qed

text \<open>One compile at time 0, nine just before the minute is over, ten just after: 19 within 1 ms.\<close>

definition burst :: "(int \<times> string \<times> string) list" where
  "burst = replicate 9 (59999, ''1'', ''compileSt'') @ replicate 11 (60000, ''1'', ''compileSt'')"

lemma rate_window_witness:
  "granted ask_limiter asker (''1'', Compile_class) burst
     (snd (checkRateLimit 0 ''1'' ''compileSt'' Map.empty)) = 19 \<and> 19 \<le> LIMITS Compile_class * 2"
proof -
  let ?B = "snd (checkRateLimit 0 ''1'' ''compileSt'' Map.empty)"
  have "buckets_ok ?B" by (rule checkRateLimit_ok) simp
  moreover have "\<forall>r \<in> set burst. in_window 59999 60000 r" by (simp add: burst_def in_window_def)
  ultimately have "int (granted ask_limiter asker (''1'', Compile_class) burst ?B) \<le> 20"
    using rate_window [of ?B 59999 60000 burst "''1''" Compile_class]
    by (simp add: intervalMs_def split: if_splits)
  moreover have "granted ask_limiter asker (''1'', Compile_class) burst ?B = 19"
    by code_simp
  ultimately show ?thesis by simp
qed

subsection \<open>Disconnecting\<close>

text \<open>
  The buckets a disconnect drops are those whose key merely begins with the session's id,
  so when session \<open>1\<close> disconnects, an exhausted session whose id begins with \<open>1\<close> is granted
  its next request of every kind.
\<close>

theorem disconnect_resets_others:
  assumes "sessions s sid \<noteq> None"
  shows "fst (checkRateLimit now (sid @ suffix) m (buckets (snd (disconnect sid role s))))"
proof -
  have "starts_with sid (bucket_key (sid @ suffix) m)" by (simp add: bucket_key_class key_of_def)
  with assms have "buckets (snd (disconnect sid role s)) (bucket_key (sid @ suffix) m) = None"
    by (auto simp: disconnect_def removeRateLimitSession_def Let_def)
  then show ?thesis by (rule checkRateLimit_None)
qed

text \<open>Two sessions of which one has spent its compile requests.\<close>

lemma serve_all_append: "serve_all br (rs @ qs) s = serve_all br qs (serve_all br rs s)"
  by (induction rs arbitrary: s) simp_all

lemma repeated_dispatches:
  "sessions (serve_all br (replicate n (Dispatch now m ps sid role)) s) = sessions s \<and>
   buckets (serve_all br (replicate n (Dispatch now m ps sid role)) s)
     = ((\<lambda>B. snd (checkRateLimit now sid m B)) ^^ n) (buckets s)"
  by (induction n arbitrary: s) (simp_all add: funpow_swap1 [of "\<lambda>B. snd (checkRateLimit now sid m B)"])

definition two_connects :: "service_call list" where
  "two_connects =
     [Connect ''1'' (PString ''/s'') (PString ''k'') ''Engineer'',
      Connect ''12'' (PString ''/s'') (PString ''k'') ''Engineer'']"

definition spent :: "service_call list" where
  "spent = two_connects @ replicate 10 (Dispatch 5 ''compileSt'' [PString ''x''] ''12'' ''Engineer'')"

lemma spent_state:
  "sessions (serve_all counting spent (started 0)) ''1'' \<noteq> None"
  "buckets (serve_all counting spent (started 0)) =
     ((\<lambda>B. snd (checkRateLimit 5 ''12'' ''compileSt'' B)) ^^ 10) Map.empty"
  by (simp_all add: spent_def serve_all_append repeated_dispatches two_connects_def connect_def
      validateNonEmptyString_def started_def)

lemma spending:
  "n < 10 \<Longrightarrow>
    ((\<lambda>B. snd (checkRateLimit 5 ''12'' ''compileSt'' B)) ^^ Suc n) Map.empty (bucket_key ''12'' ''compileSt'')
      = Some \<lparr>tokens = 9 - int n, lastRefill = 5\<rparr>"
proof (induction n)
  case 0
  show ?case by (simp add: checkRateLimit_def getLimitForMethod_def Let_def)
next
  case (Suc n)
  let ?B = "((\<lambda>B. snd (checkRateLimit 5 ''12'' ''compileSt'' B)) ^^ Suc n) Map.empty"
  have "?B (bucket_key ''12'' ''compileSt'') = Some \<lparr>tokens = 9 - int n, lastRefill = 5\<rparr>"
    using Suc by simp
  then have "snd (checkRateLimit 5 ''12'' ''compileSt'' ?B) (bucket_key ''12'' ''compileSt'')
      = Some \<lparr>tokens = 8 - int n, lastRefill = 5\<rparr>"
    using Suc.prems unfolding checkRateLimit_def Let_def by (simp add: refill_bucket_def)
  then show ?case by simp
qed

lemma spent_bucket:
  "((\<lambda>B. snd (checkRateLimit 5 ''12'' ''compileSt'' B)) ^^ 10) Map.empty (bucket_key ''12'' ''compileSt'')
    = Some \<lparr>tokens = 0, lastRefill = 5\<rparr>"
  using spending [of 9] by simp

lemma disconnect_resets_others_witness:
  "\<not> fst (checkRateLimit 5 ''12'' ''compileSt'' (buckets (serve_all counting spent (started 0)))) \<and>
   fst (checkRateLimit 5 (''1'' @ ''2'') ''compileSt''
     (buckets (snd (disconnect ''1'' ''Engineer'' (serve_all counting spent (started 0))))))"
proof -
  have "\<not> fst (checkRateLimit 5 ''12'' ''compileSt'' (buckets (serve_all counting spent (started 0))))"
    unfolding spent_state checkRateLimit_Some [where B = "(_ ^^ 10) _", OF spent_bucket]
    by (simp add: refill_bucket_def)
  then show ?thesis
    using disconnect_resets_others [OF spent_state(1), of 5 "''2''" "''compileSt''" "''Engineer''"]
    by blast
qed

text \<open>
  C39: whatever requests a service has answered since it started, every session it holds is
  under its own id with a socket path and a secret that are not empty and its heartbeat
  running, every bucket holds between zero and its limit of tokens, and a minute after its
  last refill a session's request is granted.
\<close>

theorem service_session_ok:
  "service_ok (serve_all br rs (started w)) \<and>
   ((\<forall>b. buckets (serve_all br rs (started w)) (bucket_key sid m) = Some b \<longrightarrow> lastRefill b + 60000 \<le> now) \<longrightarrow>
      fst (checkRateLimit now sid m (buckets (serve_all br rs (started w)))))"
proof -
  have ok: "service_ok (serve_all br rs (started w))" by (rule serve_all_ok) simp
  then have "buckets_ok (buckets (serve_all br rs (started w)))" by (simp add: service_ok_def)
  with ok show ?thesis
    by (auto intro!: checkRateLimit_refills simp: intervalMs_def)
qed

lemma service_session_ok_witness:
  "fst (checkRateLimit 60005 ''12'' ''compileSt'' (buckets (serve_all counting spent (started 0))))"
  using service_session_ok [of counting spent "0 :: nat" "''12''" "''compileSt''" 60005]
  unfolding spent_state spent_bucket by simp

end
