(* ===== verification/Deploy.thy ===== *)
theory Deploy
  imports Json
begin

text \<open>
  Project deployment: weftik-st-editor/src/browser/deploy-model.ts merges the compiled
  programs of a project into one, and the \<open>deployProject\<close> handler of
  src/backend/st-editor-backend-module.ts compiles, merges and sends them.
  A JSON text is the program it denotes, \<open>None\<close> a text \<open>JSON.parse\<close> rejects. The last part
  is the control flow of the virtual machine of crates/weftik-hal-ir/src/executor.rs,
  against which merging is stated: what an instruction does to registers and signals is a
  parameter.
\<close>

subsection \<open>Programs\<close>

datatype hal_operand =
    Register jsnum
  | Immediate "(string \<times> json) list"
  | SignalName string

record hal_instruction =
  opcode :: string
  operands :: "hal_operand list"

record hal_function =
  fn_name :: string
  entry_point :: nat
  reg_count :: nat

record hal_program =
  hal_name :: string
  signals :: "json list"
  channels :: "json list"
  instructions :: "hal_instruction list"
  function_table :: "hal_function list"

definition JUMP_OPCODES :: "string list" where
  "JUMP_OPCODES = [''Jump'', ''JumpIf'', ''Call'']"

subsection \<open>Merging\<close>

fun rebase_value :: "nat \<Rightarrow> string \<times> json \<Rightarrow> string \<times> json" where
  "rebase_value off (key, JNum v) = (key, JNum (if key = ''U32'' \<or> key = ''S32'' then v + of_nat off else v))"
| "rebase_value off (key, v) = (key, v)"

fun rebaseTarget :: "nat \<Rightarrow> hal_operand \<Rightarrow> hal_operand" where
  "rebaseTarget off (Immediate value) = Immediate (map (rebase_value off) value)"
| "rebaseTarget off x = x"

definition rebase_instruction :: "nat \<Rightarrow> hal_instruction \<Rightarrow> hal_instruction" where
  "rebase_instruction off inst =
     (if opcode inst \<in> set JUMP_OPCODES then
        inst\<lparr>operands := (case operands inst of [] \<Rightarrow> [] | x # xs \<Rightarrow> rebaseTarget off x # xs)\<rparr>
      else inst)"

definition rebase_function :: "nat \<Rightarrow> hal_function \<Rightarrow> hal_function" where
  "rebase_function off f = f\<lparr>entry_point := entry_point f + off\<rparr>"

text \<open>One turn of the loop: the merged program so far and the offset.\<close>

definition merge_step :: "hal_program \<times> nat \<Rightarrow> hal_program \<Rightarrow> hal_program \<times> nat" where
  "merge_step acc prog = (case acc of (m, off) \<Rightarrow>
     (m\<lparr>signals := signals m @ signals prog,
        channels := channels m @ channels prog,
        instructions := instructions m @ map (rebase_instruction off) (instructions prog),
        function_table := function_table m @ map (rebase_function off) (function_table prog)\<rparr>,
      off + length (instructions prog)))"

definition empty_program :: "string \<Rightarrow> hal_program" where
  "empty_program n = \<lparr>hal_name = n, signals = [], channels = [], instructions = [], function_table = []\<rparr>"

definition merge_programs :: "hal_program list \<Rightarrow> hal_program" where
  "merge_programs programs = fst (foldl merge_step (empty_program (hal_name (hd programs)), 0) programs)"

fun parse_all :: "hal_program option list \<Rightarrow> hal_program list option" where
  "parse_all [] = Some []"
| "parse_all (None # js) = None"
| "parse_all (Some p # js) = map_option (Cons p) (parse_all js)"

definition mergeHalPrograms :: "hal_program option list \<Rightarrow> string + hal_program" where
  "mergeHalPrograms programJsons =
     (if programJsons = [] then Inl ''mergeHalPrograms: no programs to deploy''
      else case parse_all programJsons of
        None \<Rightarrow> Inl ''SyntaxError''
      | Some programs \<Rightarrow> Inr (merge_programs programs))"

subsection \<open>The deploy handler\<close>

record compile_input =
  path :: string
  source_text :: string

definition compileKindForPath :: "string \<Rightarrow> string" where
  "compileKindForPath p =
     (if starts_with (rev ''.il'') (rev (toLowerCase p)) then ''il'' else ''st'')"

fun failedCompilePaths :: "(compile_input \<Rightarrow> string + 'p) \<Rightarrow> compile_input list \<Rightarrow> string list" where
  "failedCompilePaths compile [] = []"
| "failedCompilePaths compile (i # is) = (case compile i of
     Inl e \<Rightarrow> path i # failedCompilePaths compile is
   | Inr p \<Rightarrow> failedCompilePaths compile is)"

text \<open>
  The native bridge as the handler sees it: the two compilers (a message or the program's
  JSON) and the function it sends the merged program with, if the module exports one under
  the name the handler uses.
\<close>

record 'r native =
  compileSt :: "string \<Rightarrow> string + hal_program option"
  compileIl :: "string \<Rightarrow> string + hal_program option"
  deploy_program :: "(string \<Rightarrow> string \<Rightarrow> hal_program \<Rightarrow> string + 'r) option"

definition compile_one :: "'r native \<Rightarrow> compile_input \<Rightarrow> string + hal_program option" where
  "compile_one bridge i =
     (if compileKindForPath (path i) = ''il'' then compileIl bridge (source_text i)
      else compileSt bridge (source_text i))"

record file_result =
  fr_path :: string
  fr_ok :: bool
  fr_message :: string

definition compileProgram :: "'r native \<Rightarrow> compile_input \<Rightarrow> file_result" where
  "compileProgram bridge i = (case compile_one bridge i of
     Inr p \<Rightarrow> \<lparr>fr_path = path i, fr_ok = True, fr_message = []\<rparr>
   | Inl e \<Rightarrow> \<lparr>fr_path = path i, fr_ok = False, fr_message = e\<rparr>)"

definition compileProject :: "'r native \<Rightarrow> compile_input list \<Rightarrow> file_result list" where
  "compileProject bridge programs = map (compileProgram bridge) programs"

fun compile_each :: "'r native \<Rightarrow> compile_input list \<Rightarrow> string + hal_program option list" where
  "compile_each bridge [] = Inr []"
| "compile_each bridge (i # is) = (case compile_one bridge i of
     Inl e \<Rightarrow> Inl (''compile failed for '' @ path i @ '': '' @ e)
   | Inr j \<Rightarrow> bindE (compile_each bridge is) (\<lambda>js. Inr (j # js)))"

definition deployProject :: "'r native \<Rightarrow> string \<Rightarrow> string \<Rightarrow> compile_input list \<Rightarrow> string + 'r" where
  "deployProject bridge socket secret programs =
     bindE (compile_each bridge programs) (\<lambda>jsons.
     bindE (mergeHalPrograms jsons) (\<lambda>merged.
       case deploy_program bridge of
         None \<Rightarrow> Inl ''bridge.deploy_program is not a function''
       | Some f \<Rightarrow> f socket secret merged))"

subsection \<open>The virtual machine's control flow\<close>

datatype 'd vm_result = Running nat "nat list" 'd | Halted 'd | Panicked

text \<open>\<open>read_u32_operand\<close>, and the U32 immediate that a jump looks for.\<close>

fun u32_operand :: "hal_operand list \<Rightarrow> nat option" where
  "u32_operand (Immediate [(k, JNum v)] # xs) = (if k = ''U32'' then Some (nat \<lfloor>v\<rfloor>) else None)"
| "u32_operand xs = None"

fun call_target :: "hal_operand list \<Rightarrow> nat" where
  "call_target (Immediate [(k, JNum v)] # xs) = (if k = ''U32'' \<or> k = ''S32'' then nat \<lfloor>v\<rfloor> else 0)"
| "call_target xs = 0"

text \<open>
  One step at \<open>ip\<close> with the return addresses \<open>st\<close>: \<open>exec\<close> is the effect of an instruction on
  the registers and signals, \<open>zero\<close> reads the zero flag. A return continues one past the
  address that was pushed, since the step advances after it.
\<close>

definition vm_step :: "(hal_instruction \<Rightarrow> 'd \<Rightarrow> 'd) \<Rightarrow> ('d \<Rightarrow> bool) \<Rightarrow> hal_instruction list
    \<Rightarrow> nat \<Rightarrow> nat list \<Rightarrow> 'd \<Rightarrow> 'd vm_result" where
  "vm_step exec zero code ip st d =
     (if length code \<le> ip then Panicked
      else let inst = code ! ip in
        if opcode inst = ''Jump'' then
          Running (case u32_operand (operands inst) of Some t \<Rightarrow> t | None \<Rightarrow> ip) st d
        else if opcode inst = ''JumpIf'' then
          Running (if zero d then (case u32_operand (operands inst) of Some t \<Rightarrow> t | None \<Rightarrow> ip + 1)
                   else ip + 1) st d
        else if opcode inst = ''Call'' then
          Running (call_target (operands inst)) ((ip + 1) # st) d
        else if opcode inst = ''Ret'' then
          (case st of [] \<Rightarrow> Halted d | r # rs \<Rightarrow> Running (r + 1) rs (exec inst d))
        else if opcode inst = ''Halt'' then Halted d
        else Running (ip + 1) st (exec inst d))"

fun vm_run :: "(hal_instruction \<Rightarrow> 'd \<Rightarrow> 'd) \<Rightarrow> ('d \<Rightarrow> bool) \<Rightarrow> hal_instruction list
    \<Rightarrow> nat \<Rightarrow> 'd vm_result \<Rightarrow> 'd vm_result" where
  "vm_run exec zero code 0 r = r"
| "vm_run exec zero code (Suc n) (Running ip st d) =
     vm_run exec zero code n (vm_step exec zero code ip st d)"
| "vm_run exec zero code (Suc n) r = r"

end
