(* ===== verification/DeployProps.thy ===== *)
theory DeployProps
  imports Deploy
begin

text \<open>
  Properties of the deployment: what the merged program consists of, that each program runs
  in it at its offset the way it runs alone, that the machine never leaves the first of them,
  and what the handler answers when the bridge has no function of the name it uses.
\<close>

subsection \<open>The merged program\<close>

definition offset_of :: "hal_program list \<Rightarrow> nat \<Rightarrow> nat" where
  "offset_of ps k = sum_list (map (\<lambda>p. length (instructions p)) (take k ps))"

lemma offset_of_0 [simp]: "offset_of ps 0 = 0"
  by (simp add: offset_of_def)

lemma offset_of_Cons [simp]: "offset_of (p # ps) (Suc k) = length (instructions p) + offset_of ps k"
  by (simp add: offset_of_def)

text \<open>The instructions of the programs from \<open>off\<close> on.\<close>

fun rebased_from :: "nat \<Rightarrow> hal_program list \<Rightarrow> hal_instruction list" where
  "rebased_from off [] = []"
| "rebased_from off (p # ps) = map (rebase_instruction off) (instructions p) @ rebased_from (off + length (instructions p)) ps"

fun functions_from :: "nat \<Rightarrow> hal_program list \<Rightarrow> hal_function list" where
  "functions_from off [] = []"
| "functions_from off (p # ps) = map (rebase_function off) (function_table p) @ functions_from (off + length (instructions p)) ps"

lemma merge_foldl:
  "foldl merge_step (m, off) ps =
    (m\<lparr>signals := signals m @ concat (map signals ps),
       channels := channels m @ concat (map channels ps),
       instructions := instructions m @ rebased_from off ps,
       function_table := function_table m @ functions_from off ps\<rparr>,
     off + sum_list (map (\<lambda>p. length (instructions p)) ps))"
  by (induction ps arbitrary: m off) (simp_all add: merge_step_def)

lemma merge_programs_fields:
  "instructions (merge_programs ps) = rebased_from 0 ps"
  "function_table (merge_programs ps) = functions_from 0 ps"
  "signals (merge_programs ps) = concat (map signals ps)"
  "channels (merge_programs ps) = concat (map channels ps)"
  "hal_name (merge_programs ps) = hal_name (hd ps)"
  by (simp_all add: merge_programs_def merge_foldl empty_program_def)

lemma rebased_from_nth:
  "k < length ps \<Longrightarrow> i < length (instructions (ps ! k)) \<Longrightarrow>
    rebased_from off ps ! (offset_of ps k + i) = rebase_instruction (off + offset_of ps k) (instructions (ps ! k) ! i)
    \<and> offset_of ps k + i < length (rebased_from off ps)"
proof (induction ps arbitrary: off k)
  case (Cons p ps)
  then show ?case
    by (cases k) (auto simp: nth_append add.assoc)
qed simp

lemma functions_from_set:
  "set (functions_from off ps) = (\<Union>k < length ps. rebase_function (off + offset_of ps k) ` set (function_table (ps ! k)))"
proof (induction ps arbitrary: off)
  case (Cons p ps)
  have "{..<length (p # ps)} = insert 0 (Suc ` {..<length ps})"
    by (simp add: lessThan_Suc_eq_insert_0)
  then show ?case using Cons [of "off + length (instructions p)"] by (simp add: add.assoc)
qed simp

lemma parse_all_Some: "parse_all (map Some ps) = Some ps"
  by (induction ps) simp_all

lemma parse_all_None: "None \<in> set js \<Longrightarrow> parse_all js = None"
  by (induction js rule: parse_all.induct) auto

lemma parse_all_map: "parse_all js = Some ps \<Longrightarrow> js = map Some ps"
  by (induction js arbitrary: ps rule: parse_all.induct) auto

lemma merge_programs_iff:
  "mergeHalPrograms js = Inr m \<longleftrightarrow> (\<exists>ps. js = map Some ps \<and> ps \<noteq> [] \<and> m = merge_programs ps)"
proof
  assume "mergeHalPrograms js = Inr m"
  then obtain ps where ps: "parse_all js = Some ps" "m = merge_programs ps" "js \<noteq> []"
    by (auto simp: mergeHalPrograms_def split: if_splits option.splits)
  with parse_all_map [OF ps(1)] show "\<exists>ps. js = map Some ps \<and> ps \<noteq> [] \<and> m = merge_programs ps" by auto
qed (auto simp: mergeHalPrograms_def parse_all_Some)

subsection \<open>Jump targets\<close>

text \<open>
  What the compilers emit: the operand of a jump or call is one U32 immediate.
\<close>

definition jumps_ok :: "hal_instruction list \<Rightarrow> bool" where
  "jumps_ok code \<longleftrightarrow> (\<forall>inst \<in> set code. opcode inst \<in> set JUMP_OPCODES \<longrightarrow>
     (\<exists>t xs. operands inst = Immediate [(''U32'', JNum (of_nat t))] # xs))"

lemma rebase_opcode [simp]: "opcode (rebase_instruction off inst) = opcode inst"
  by (simp add: rebase_instruction_def)

lemma rebase_other: "opcode inst \<notin> set JUMP_OPCODES \<Longrightarrow> rebase_instruction off inst = inst"
  by (simp add: rebase_instruction_def)

lemma rebase_target:
  assumes "opcode inst \<in> set JUMP_OPCODES" "operands inst = Immediate [(''U32'', JNum (of_nat t))] # xs"
  shows "operands (rebase_instruction off inst) = Immediate [(''U32'', JNum (of_nat (t + off)))] # xs"
  using assms by (simp add: rebase_instruction_def)

lemma rebase_0: "rebase_instruction 0 inst = inst"
proof -
  have v: "rebase_value 0 x = x" for x by (cases x; cases "snd x") auto
  have "rebaseTarget 0 x = x" for x by (cases x) (simp_all add: v map_idI)
  then show ?thesis by (simp add: rebase_instruction_def split: list.split)
qed

subsection \<open>Running at an offset\<close>

fun shift :: "nat \<Rightarrow> 'd vm_result \<Rightarrow> 'd vm_result" where
  "shift off (Running ip st d) = Running (off + ip) (map ((+) off) st) d"
| "shift off r = r"

text \<open>The code of one program inside another, rebased to its place.\<close>

definition placed :: "nat \<Rightarrow> hal_instruction list \<Rightarrow> hal_instruction list \<Rightarrow> bool" where
  "placed off code merged \<longleftrightarrow>
     (\<forall>i < length code. off + i < length merged \<and> merged ! (off + i) = rebase_instruction off (code ! i))"

lemma step_placed:
  assumes p: "placed off code merged" and j: "jumps_ok code"
    and np: "vm_step exec zero code ip st d \<noteq> Panicked"
  shows "vm_step exec zero merged (off + ip) (map ((+) off) st) d = shift off (vm_step exec zero code ip st d)"
proof -
  let ?inst = "code ! ip"
  have ip: "ip < length code" using np by (auto simp: vm_step_def split: if_splits)
  with p have m: "off + ip < length merged" "merged ! (off + ip) = rebase_instruction off ?inst"
    by (auto simp: placed_def)
  show ?thesis
  proof (cases "opcode ?inst \<in> set JUMP_OPCODES")
    case True
    have "?inst \<in> set code" using ip by simp
    with j True obtain t xs where t: "operands ?inst = Immediate [(''U32'', JNum (of_nat t))] # xs"
      by (auto simp: jumps_ok_def)
    note rebase_target [OF True t, of off]
    with True t ip m show ?thesis
      by (auto simp: vm_step_def JUMP_OPCODES_def Let_def add.commute)
  next
    case False
    then have "rebase_instruction off ?inst = ?inst" by (rule rebase_other)
    with False ip m show ?thesis
      by (simp add: vm_step_def JUMP_OPCODES_def Let_def split: list.split)
  qed
qed

lemma run_placed:
  assumes p: "placed off code merged" and j: "jumps_ok code"
  shows "vm_run exec zero code n r \<noteq> Panicked \<Longrightarrow>
    vm_run exec zero merged n (shift off r) = shift off (vm_run exec zero code n r)"
proof (induction n arbitrary: r)
  case (Suc n)
  show ?case
  proof (cases r)
    case (Running ip st d)
    have "vm_step exec zero code ip st d \<noteq> Panicked"
    proof
      assume "vm_step exec zero code ip st d = Panicked"
      with Suc.prems Running show False by (cases n) simp_all
    qed
    from step_placed [OF p j this] Suc Running show ?thesis by simp
  qed (use Suc.prems in simp_all)
qed simp

lemma placed_merge:
  "k < length ps \<Longrightarrow> placed (offset_of ps k) (instructions (ps ! k)) (instructions (merge_programs ps))"
  using rebased_from_nth [of k ps _ 0] by (simp add: placed_def merge_programs_fields)

text \<open>
  Merging succeeds exactly when there is a program and every text parses; the result has
  the first program's name, everybody's signals and channels in order, and holds the
  instruction \<open>i\<close> of program \<open>k\<close> at the offset of the programs before it plus \<open>i\<close>, rebased by
  that offset, with the function table rebased program by program.
\<close>

theorem merge_contents:
  "(mergeHalPrograms js = Inr m \<longleftrightarrow>
      (\<exists>ps. js = map Some ps \<and> ps \<noteq> [] \<and> m = merge_programs ps)) \<and>
   hal_name (merge_programs ps) = hal_name (hd ps) \<and>
   signals (merge_programs ps) = concat (map signals ps) \<and>
   channels (merge_programs ps) = concat (map channels ps) \<and>
   length (instructions (merge_programs ps)) = offset_of ps (length ps) \<and>
   (\<forall>k < length ps. \<forall>i < length (instructions (ps ! k)).
      instructions (merge_programs ps) ! (offset_of ps k + i)
        = rebase_instruction (offset_of ps k) (instructions (ps ! k) ! i)) \<and>
   set (function_table (merge_programs ps)) =
     (\<Union>k < length ps. rebase_function (offset_of ps k) ` set (function_table (ps ! k)))"
proof -
  have "length (rebased_from off ps) = offset_of ps (length ps)" for off
    by (induction ps arbitrary: off) (simp_all add: offset_of_def)
  then show ?thesis
    by (simp add: merge_programs_iff merge_programs_fields functions_from_set rebased_from_nth)
qed

definition start_stop :: "string \<Rightarrow> nat \<Rightarrow> hal_program" where
  "start_stop n t = (empty_program n)\<lparr>instructions :=
     [\<lparr>opcode = ''Jump'', operands = [Immediate [(''U32'', JNum (of_nat t))]]\<rparr>,
      \<lparr>opcode = ''Halt'', operands = []\<rparr>]\<rparr>"

lemma merge_contents_witness:
  "instructions (merge_programs [start_stop ''a'' 1, start_stop ''b'' 1]) ! (2 + 0)
     = \<lparr>opcode = ''Jump'', operands = [Immediate [(''U32'', JNum 3)]]\<rparr>"
proof -
  let ?ps = "[start_stop ''a'' 1, start_stop ''b'' 1]"
  have "\<forall>k < length ?ps. \<forall>i < length (instructions (?ps ! k)).
      instructions (merge_programs ?ps) ! (offset_of ?ps k + i)
        = rebase_instruction (offset_of ?ps k) (instructions (?ps ! k) ! i)"
    using merge_contents [of "map Some ?ps" "merge_programs ?ps" ?ps] by blast
  then have "instructions (merge_programs ?ps) ! (offset_of ?ps 1 + 0)
        = rebase_instruction (offset_of ?ps 1) (instructions (?ps ! 1) ! 0)"
    by (auto simp: start_stop_def)
  then show ?thesis
    by (simp add: start_stop_def offset_of_def rebase_instruction_def JUMP_OPCODES_def numeral_2_eq_2)
qed

text \<open>
  C7: every program whose jumps and calls carry a U32 target runs in the merged program, from
  its offset on and with its return addresses shifted, step for step as it runs alone,
  whatever its instructions do to the registers and signals, as long as it does not run off
  its own end.
\<close>

theorem merge_runs_each:
  assumes "k < length ps" "jumps_ok (instructions (ps ! k))"
    and "vm_run exec zero (instructions (ps ! k)) n (Running ip st d) \<noteq> Panicked"
  shows "vm_run exec zero (instructions (merge_programs ps)) n
      (Running (offset_of ps k + ip) (map ((+) (offset_of ps k)) st) d)
    = shift (offset_of ps k) (vm_run exec zero (instructions (ps ! k)) n (Running ip st d))"
  using run_placed [OF placed_merge [OF assms(1)] assms(2,3)] by simp

lemma start_stop_offset: "offset_of [start_stop n t, p] 1 = 2"
  by (simp add: start_stop_def offset_of_def)

lemma start_stop_jumps: "jumps_ok (instructions (start_stop n t))"
  by (auto simp: jumps_ok_def start_stop_def JUMP_OPCODES_def empty_program_def)

lemma start_stop_halts:
  "t = 1 \<Longrightarrow> vm_run exec zero (instructions (start_stop n t)) 2 (Running 0 [] d) = Halted d"
  by (simp add: numeral_2_eq_2 start_stop_def vm_step_def)

lemma merge_runs_each_witness:
  "vm_run (\<lambda>i d. d) (\<lambda>d. False) (instructions (merge_programs [start_stop ''a'' 1, start_stop ''b'' 1])) 2
     (Running 2 [] (7 :: nat)) = Halted 7"
  using merge_runs_each [of 1 "[start_stop ''a'' 1, start_stop ''b'' 1]" "\<lambda>i d. d" "\<lambda>d. False" 2 0 "[]" "7 :: nat",
      simplified start_stop_offset]
  by (simp add: start_stop_jumps start_stop_halts start_stop_offset)

text \<open>
  Of the programs deployed together only the first is ever executed: a scan starts at
  instruction 0, and until it halts it does exactly what the first program alone does; the
  later programs lie behind that program's Halt.
\<close>

theorem deploy_runs_first:
  assumes "jumps_ok (instructions p)"
    and "vm_run exec zero (instructions p) n (Running 0 [] d) = Halted d'"
    and "mergeHalPrograms (Some p # js) = Inr m"
  shows "vm_run exec zero (instructions m) n (Running 0 [] d) = Halted d'"
proof -
  obtain ps where m: "m = merge_programs (p # ps)"
    using assms(3) by (cases "parse_all js") (auto simp: mergeHalPrograms_def)
  have "placed 0 (instructions p) (instructions m)"
    using placed_merge [of 0 "p # ps"] m by simp
  from run_placed [OF this assms(1), of exec zero n "Running 0 [] d"] assms(2)
  show ?thesis by simp
qed

lemma deploy_runs_first_witness:
  "vm_run (\<lambda>i d. Suc d) (\<lambda>d. False)
     (instructions (merge_programs [start_stop ''a'' 1, start_stop ''b'' 1])) 2 (Running 0 [] 7) = Halted 7"
  using deploy_runs_first [OF start_stop_jumps start_stop_halts [OF refl],
      of "''a''" "[Some (start_stop ''b'' 1)]" "merge_programs [start_stop ''a'' 1, start_stop ''b'' 1]"
         "\<lambda>i d. Suc d" "\<lambda>d. False" 7]
  by (simp add: mergeHalPrograms_def)

subsection \<open>The handler\<close>

lemma compile_each_iff:
  "compile_each bridge is = Inr js \<longleftrightarrow> map (compile_one bridge) is = map Inr js"
proof (induction "is" arbitrary: js)
  case (Cons i "is")
  show ?case
  proof (cases "compile_one bridge i")
    case (Inr j)
    have "compile_each bridge (i # is) = Inr js \<longleftrightarrow> (\<exists>ks. compile_each bridge is = Inr ks \<and> js = j # ks)"
      by (cases "compile_each bridge is") (auto simp: Inr)
    also have "\<dots> \<longleftrightarrow> map (compile_one bridge) (i # is) = map Inr js"
      by (cases js) (auto simp: Cons.IH Inr)
    finally show ?thesis .
  qed (cases js; simp)
qed auto

lemma compileProject_failures:
  "map fr_path (filter (\<lambda>r. \<not> fr_ok r) (compileProject bridge is)) = failedCompilePaths (compile_one bridge) is"
  by (induction "is") (auto simp: compileProject_def compileProgram_def split: sum.split)

lemma deployProject_no_function:
  "deploy_program bridge = None \<Longrightarrow> \<exists>e. deployProject bridge socket secret programs = Inl e"
  by (cases "compile_each bridge programs"; cases "mergeHalPrograms (projr (compile_each bridge programs))")
    (auto simp: deployProject_def)

text \<open>
  Deploying a project sends something only when every file compiles and there is a file,
  and then the merged program of all of them in order; otherwise nothing is sent and the
  first failing file is named. With a bridge that has no function of the name the handler
  calls, as the package's module that exports it in camel case, every deployment fails.
\<close>

theorem deployProject_outcome:
  "deployProject bridge socket secret programs = Inr r \<longleftrightarrow>
     (\<exists>f ps. deploy_program bridge = Some f \<and> programs \<noteq> [] \<and>
        failedCompilePaths (compile_one bridge) programs = [] \<and>
        map (compile_one bridge) programs = map (Inr \<circ> Some) ps \<and>
        f socket secret (merge_programs ps) = Inr r)"
proof
  assume d: "deployProject bridge socket secret programs = Inr r"
  then obtain js m where js: "compile_each bridge programs = Inr js" "mergeHalPrograms js = Inr m"
    and f: "(case deploy_program bridge of None \<Rightarrow> Inl ''bridge.deploy_program is not a function''
       | Some f \<Rightarrow> f socket secret m) = Inr r"
    unfolding deployProject_def by (elim bindE_InrE) auto
  from js(2) obtain ps where ps: "js = map Some ps" "ps \<noteq> []" "m = merge_programs ps"
    by (auto simp: merge_programs_iff)
  from js(1) ps have c: "map (compile_one bridge) programs = map (Inr \<circ> Some) ps"
    by (simp add: compile_each_iff)
  then have "failedCompilePaths (compile_one bridge) programs = []"
    by (induction programs arbitrary: ps) (auto split: sum.split)
  with c f ps show "\<exists>f ps. deploy_program bridge = Some f \<and> programs \<noteq> [] \<and>
        failedCompilePaths (compile_one bridge) programs = [] \<and>
        map (compile_one bridge) programs = map (Inr \<circ> Some) ps \<and>
        f socket secret (merge_programs ps) = Inr r"
    by (auto split: option.splits)
next
  assume "\<exists>f ps. deploy_program bridge = Some f \<and> programs \<noteq> [] \<and>
        failedCompilePaths (compile_one bridge) programs = [] \<and>
        map (compile_one bridge) programs = map (Inr \<circ> Some) ps \<and>
        f socket secret (merge_programs ps) = Inr r"
  then obtain f ps where f: "deploy_program bridge = Some f" "f socket secret (merge_programs ps) = Inr r"
    and ps: "programs \<noteq> []" "map (compile_one bridge) programs = map Inr (map Some ps)" by auto
  from ps(2) have "compile_each bridge programs = Inr (map Some ps)" by (simp add: compile_each_iff)
  moreover from ps have "ps \<noteq> []" by auto
  ultimately show "deployProject bridge socket secret programs = Inr r"
    using f by (simp add: deployProject_def mergeHalPrograms_def parse_all_Some)
qed

end
