(* ===== verification/DapFrames.thy ===== *)
theory DapFrames
  imports JsPrelude
begin

text \<open>
  The Debug Adapter Protocol framing of weftik-debug/src/browser/dap-protocol.ts. A
  JavaScript string is here the list of its UTF-16 units, since the code counts units where
  the wire counts bytes. \<open>JSON.parse\<close> and \<open>JSON.stringify\<close> are parameters. \<open>streaming\<close> is
  the interface of a decoder that returns what it could not use yet; the frame decoder
  interprets it, so the way a stream is cut into chunks does not matter.
\<close>

type_synonym units = "nat list"

definition units_of :: "string \<Rightarrow> units" where
  "units_of s = map of_char s"

subsection \<open>Lengths\<close>

text \<open>
  \<open>Buffer.byteLength(s, 'utf8')\<close>: a surrogate pair takes four bytes, a surrogate on its own is
  replaced by U+FFFD.
\<close>

definition high_surrogate :: "nat \<Rightarrow> bool" where
  "high_surrogate u \<longleftrightarrow> 55296 \<le> u \<and> u < 56320"

definition low_surrogate :: "nat \<Rightarrow> bool" where
  "low_surrogate u \<longleftrightarrow> 56320 \<le> u \<and> u < 57344"

fun byteLength :: "units \<Rightarrow> nat" where
  "byteLength [] = 0"
| "byteLength (u # v # us) =
     (if high_surrogate u \<and> low_surrogate v then 4 + byteLength us
      else (if u < 128 then 1 else if u < 2048 then 2 else 3) + byteLength (v # us))"
| "byteLength [u] = (if u < 128 then 1 else if u < 2048 then 2 else 3)"

subsection \<open>Encoding\<close>

definition CRLF2 :: units where
  "CRLF2 = [13, 10, 13, 10]"

definition frame_header :: "nat \<Rightarrow> units" where
  "frame_header n = units_of (''Content-Length: '' @ nat_to_dec n)"

definition encode_body :: "units \<Rightarrow> units" where
  "encode_body body = frame_header (byteLength body) @ CRLF2 @ body"

text \<open>A request object with its fields in the order the code writes them.\<close>

datatype 'j request_object = RequestObject nat string "'j option"

definition encodeRequest :: "('j request_object \<Rightarrow> units) \<Rightarrow> nat \<Rightarrow> string \<Rightarrow> 'j option \<Rightarrow> units" where
  "encodeRequest stringify seq command args =
     (let body = stringify (RequestObject seq command args) in encode_body body)"

subsection \<open>Decoding\<close>

fun has_prefix :: "units \<Rightarrow> units \<Rightarrow> bool" where
  "has_prefix [] s = True"
| "has_prefix (p # ps) [] = False"
| "has_prefix (p # ps) (u # us) = (p = u \<and> has_prefix ps us)"

text \<open>\<open>rest.indexOf(CRLF2)\<close>.\<close>

fun header_end :: "units \<Rightarrow> nat option" where
  "header_end [] = None"
| "header_end (u # us) = (if has_prefix CRLF2 (u # us) then Some 0 else map_option Suc (header_end us))"

definition unit_lower :: "nat \<Rightarrow> nat" where
  "unit_lower u = (if 65 \<le> u \<and> u \<le> 90 then u + 32 else u)"

text \<open>White space of \<open>\s\<close> and digits of \<open>\d\<close>.\<close>

definition unit_space :: "nat \<Rightarrow> bool" where
  "unit_space u \<longleftrightarrow> 9 \<le> u \<and> u \<le> 13 \<or> u = 32 \<or> u = 160 \<or> u = 5760 \<or> 8192 \<le> u \<and> u \<le> 8202 \<or>
     u = 8232 \<or> u = 8233 \<or> u = 8239 \<or> u = 8287 \<or> u = 12288 \<or> u = 65279"

definition unit_digit :: "nat \<Rightarrow> bool" where
  "unit_digit u \<longleftrightarrow> 48 \<le> u \<and> u \<le> 57"

definition units_value :: "units \<Rightarrow> nat" where
  "units_value us = foldl (\<lambda>v u. v * 10 + (u - 48)) 0 us"

text \<open>\<open>/Content-Length:\s*(\d+)/i\<close>: at one place, and at the first place that matches.\<close>

definition field_name :: units where
  "field_name = units_of ''content-length:''"

definition length_here :: "units \<Rightarrow> nat option" where
  "length_here s =
     (if map unit_lower (take (length field_name) s) = field_name then
        (let digits = takeWhile unit_digit (dropWhile unit_space (drop (length field_name) s)) in
         if digits = [] then None else Some (units_value digits))
      else None)"

fun content_length :: "units \<Rightarrow> nat option" where
  "content_length [] = None"
| "content_length (u # us) = (case length_here (u # us) of Some n \<Rightarrow> Some n | None \<Rightarrow> content_length us)"

function decodeFrames :: "(units \<Rightarrow> 'f option) \<Rightarrow> units \<Rightarrow> 'f list \<times> units" where
  "decodeFrames parse buf = (case header_end buf of
     None \<Rightarrow> ([], buf)
   | Some h \<Rightarrow> (case content_length (take h buf) of
       None \<Rightarrow> decodeFrames parse (drop (h + 4) buf)
     | Some n \<Rightarrow>
         if length buf < h + 4 + n then ([], buf)
         else (let (frames, rest) = decodeFrames parse (drop (h + 4 + n) buf) in
           (case parse (take n (drop (h + 4) buf)) of Some f \<Rightarrow> f # frames | None \<Rightarrow> frames, rest))))"
  by pat_completeness auto

termination
proof (relation "measure (\<lambda>(parse, buf). length buf)")
  show "wf (measure (\<lambda>(parse :: units \<Rightarrow> 'f option, buf :: units). length buf))" by simp
  fix buf :: units and h n and parse :: "units \<Rightarrow> 'f option"
  assume "header_end buf = Some h"
  then have "buf \<noteq> []" by auto
  then show "((parse, drop (h + 4) buf), (parse, buf)) \<in> measure (\<lambda>(parse, buf). length buf)"
    and "((parse, drop (h + 4 + n) buf), (parse, buf)) \<in> measure (\<lambda>(parse, buf). length buf)"
    by simp_all
qed

declare decodeFrames.simps [simp del]

subsection \<open>Streams\<close>

text \<open>A decoder fed chunk by chunk, as the bridge feeds it: what is left over is kept.\<close>

fun feed :: "('u list \<Rightarrow> 'f list \<times> 'u list) \<Rightarrow> 'u list \<Rightarrow> 'u list list \<Rightarrow> 'f list \<times> 'u list" where
  "feed decode buf [] = ([], buf)"
| "feed decode buf (c # cs) =
     (let (frames, rest) = decode (buf @ c); (more_frames, rest') = feed decode rest cs in
      (frames @ more_frames, rest'))"

locale streaming =
  fixes decode :: "'u list \<Rightarrow> 'f list \<times> 'u list"
  assumes decode_Nil: "decode [] = ([], [])"
    and decode_append: "decode (a @ b) =
      (fst (decode a) @ fst (decode (snd (decode a) @ b)), snd (decode (snd (decode a) @ b)))"
begin

lemma rest_settled: "decode (snd (decode a)) = ([], snd (decode a))"
proof -
  have "fst (decode a) = fst (decode a) @ fst (decode (snd (decode a)))"
    and "snd (decode a) = snd (decode (snd (decode a)))"
    using decode_append [of a "[]"] by (simp_all add: prod_eq_iff)
  then show ?thesis by (simp add: prod_eq_iff)
qed

lemma feed_settled: "decode buf = ([], buf) \<Longrightarrow> feed decode buf cs = decode (buf @ concat cs)"
proof (induction cs arbitrary: buf)
  case (Cons c cs)
  let ?r = "snd (decode (buf @ c))"
  have "feed decode ?r cs = decode (?r @ concat cs)" by (rule Cons.IH) (rule rest_settled)
  then show ?case
    using decode_append [of "buf @ c" "concat cs"] by (simp add: split_beta Let_def)
qed simp

lemma feed_concat: "feed decode [] cs = decode (concat cs)"
  using feed_settled [OF decode_Nil] by simp

end

lemma has_prefix_append: "has_prefix p s \<Longrightarrow> has_prefix p (s @ t)"
  by (induction p s rule: has_prefix.induct) auto

lemma has_prefix_length: "has_prefix p s \<Longrightarrow> length p \<le> length s"
  by (induction p s rule: has_prefix.induct) auto

lemma has_prefix_long: "length p \<le> length s \<Longrightarrow> has_prefix p (s @ t) \<longleftrightarrow> has_prefix p s"
  by (induction p s rule: has_prefix.induct) auto

lemma header_end_bound: "header_end a = Some h \<Longrightarrow> h + 4 \<le> length a"
proof (induction a arbitrary: h)
  case (Cons u us)
  then show ?case
    using has_prefix_length [of CRLF2 "u # us"] by (auto simp: CRLF2_def split: if_splits)
qed simp

lemma header_end_append: "header_end a = Some h \<Longrightarrow> header_end (a @ b) = Some h"
proof (induction a arbitrary: h)
  case (Cons u us)
  have "has_prefix CRLF2 ((u # us) @ b) \<longleftrightarrow> has_prefix CRLF2 (u # us)"
    using header_end_bound [OF Cons.prems] by (intro has_prefix_long) (simp add: CRLF2_def)
  with Cons show ?case by (auto split: if_splits)
qed simp

lemma decodeFrames_Nil [simp]: "decodeFrames parse [] = ([], [])"
  by (simp add: decodeFrames.simps)

lemma decodeFrames_append:
  "decodeFrames parse (a @ b) =
    (fst (decodeFrames parse a) @ fst (decodeFrames parse (snd (decodeFrames parse a) @ b)),
     snd (decodeFrames parse (snd (decodeFrames parse a) @ b)))"
proof (induction parse a rule: decodeFrames.induct)
  case (1 parse a)
  show ?case
  proof (cases "header_end a")
    case None
    then show ?thesis by (simp add: decodeFrames.simps [of parse a])
  next
    case (Some h)
    note hb = header_end_append [OF Some, of b] and bound = header_end_bound [OF Some]
    show ?thesis
    proof (cases "content_length (take h a)")
      case None
      with Some hb bound have
        "decodeFrames parse a = decodeFrames parse (drop (h + 4) a)"
        "decodeFrames parse (a @ b) = decodeFrames parse (drop (h + 4) a @ b)"
        by (simp_all add: decodeFrames.simps [of parse a] decodeFrames.simps [of parse "a @ b"])
      with 1(1) [OF Some None] show ?thesis by simp
    next
      case len: (Some n)
      show ?thesis
      proof (cases "length a < h + 4 + n")
        case True
        with Some len show ?thesis by (simp add: decodeFrames.simps [of parse a])
      next
        case False
        with Some hb len bound show ?thesis
          using 1(2) [OF Some len False]
          by (simp add: decodeFrames.simps [of parse a] decodeFrames.simps [of parse "a @ b"]
              split_beta Let_def split: option.split)
      qed
    qed
  qed
qed

interpretation dap: streaming "decodeFrames parse" for parse
  by unfold_locales (simp, rule decodeFrames_append)

end
