(* ===== verification/DapProps.thy ===== *)
theory DapProps
  imports DapFrames
begin

text \<open>
  What the framing delivers: every frame of a stream of ASCII bodies, however it is cut, and
  none for a body with a character beyond ASCII, whose length the header gives in bytes.
\<close>

subsection \<open>The header of a frame\<close>

lemma units_value_of: "list_all digit_char s \<Longrightarrow> units_value (units_of s) = digits_value s"
proof -
  have "foldl (\<lambda>v u. v * 10 + (u - 48)) v (map of_char s) = foldl (\<lambda>v c. v * 10 + (of_char c - 48)) v s" for v :: nat
    by (induction s arbitrary: v) simp_all
  then show ?thesis by (simp add: units_value_def units_of_def digits_value_def)
qed

lemma digit_unit: "digit_char c \<Longrightarrow> unit_digit (of_char c) \<and> \<not> unit_space (of_char c)"
  by (auto simp: digit_char_def unit_digit_def unit_space_def)

lemma dec_units:
  "\<forall>u \<in> set (units_of (nat_to_dec n)). unit_digit u \<and> \<not> unit_space u"
  by (auto simp: units_of_def dest!: nat_to_dec_digits digit_unit)

lemma length_here_header: "length_here (frame_header n) = Some n"
proof -
  let ?d = "units_of (nat_to_dec n)"
  have h: "frame_header n = units_of ''Content-Length:'' @ 32 # ?d"
    by (simp add: frame_header_def units_of_def)
  have ne: "?d \<noteq> []" by (simp add: units_of_def)
  have sp: "dropWhile unit_space (32 # ?d) = ?d"
    using dec_units [of n] ne by (cases ?d) (simp_all add: unit_space_def)
  have dg: "takeWhile unit_digit ?d = ?d"
    using dec_units [of n] by simp
  have "units_value ?d = n"
    using units_value_of [of "nat_to_dec n"] nat_to_dec_digits [of _ n] by (auto simp: list_all_iff)
  moreover have "take 15 (frame_header n) = units_of ''Content-Length:''"
    and "drop 15 (frame_header n) = 32 # ?d"
    by (simp_all add: h units_of_def)
  moreover have "map unit_lower (units_of ''Content-Length:'') = field_name" "length field_name = 15"
    by (simp_all add: units_of_def field_name_def unit_lower_def)
  ultimately show ?thesis using sp dg ne by (simp add: length_here_def Let_def del: dropWhile.simps takeWhile_eq_all_conv)
qed

lemma content_length_header: "content_length (frame_header n) = Some n"
proof -
  obtain u us where "frame_header n = u # us" by (auto simp: frame_header_def units_of_def)
  with length_here_header [of n] show ?thesis by simp
qed

lemma frame_header_no_cr: "13 \<notin> set (frame_header n)"
proof -
  have "13 \<notin> set (units_of (nat_to_dec n))"
    using dec_units [of n] by (auto simp: unit_digit_def)
  then show ?thesis by (auto simp: frame_header_def units_of_def)
qed

lemma header_end_first: "13 \<notin> set h \<Longrightarrow> header_end (h @ CRLF2 @ s) = Some (length h)"
proof (induction h)
  case Nil
  show ?case by (simp add: CRLF2_def)
next
  case (Cons u h)
  then show ?case by (auto simp: CRLF2_def)
qed

lemma decode_frame:
  "decodeFrames parse (frame_header n @ CRLF2 @ s) =
     (if length s < n then ([], frame_header n @ CRLF2 @ s)
      else ((case parse (take n s) of Some f \<Rightarrow> f # fst (decodeFrames parse (drop n s))
             | None \<Rightarrow> fst (decodeFrames parse (drop n s))), snd (decodeFrames parse (drop n s))))"
proof -
  let ?b = "frame_header n @ CRLF2 @ s" and ?h = "length (frame_header n)"
  have "header_end ?b = Some ?h" by (rule header_end_first [OF frame_header_no_cr])
  moreover have "content_length (take ?h ?b) = Some n" by (simp add: content_length_header)
  moreover have "length ?b < ?h + 4 + n \<longleftrightarrow> length s < n" by (simp add: CRLF2_def)
  moreover have "drop (?h + (4 + n)) ?b = drop n s" "drop (?h + 4) ?b = s"
    by (simp_all add: CRLF2_def numeral_eq_Suc)
  ultimately show ?thesis
    by (subst decodeFrames.simps) (simp add: split_beta Let_def split: option.split)
qed

subsection \<open>Bytes and units\<close>

lemma byteLength_ge: "length us \<le> byteLength us"
  by (induction us rule: byteLength.induct) auto

lemma byteLength_ascii: "\<forall>u \<in> set us. u < 128 \<Longrightarrow> byteLength us = length us"
  by (induction us rule: byteLength.induct) (auto simp: high_surrogate_def)

lemma byteLength_beyond: "u \<in> set us \<Longrightarrow> 128 \<le> u \<Longrightarrow> length us < byteLength us"
proof (induction us rule: byteLength.induct)
  case (2 a v us)
  show ?case
  proof (cases "high_surrogate a \<and> low_surrogate v")
    case True
    then show ?thesis using byteLength_ge [of us] by simp
  next
    case False
    then show ?thesis using 2 byteLength_ge [of "v # us"] by (cases "128 \<le> a") auto
  qed
qed simp_all

definition ascii :: "units \<Rightarrow> bool" where
  "ascii us \<longleftrightarrow> list_all (\<lambda>u. u < 128) us"

lemma decode_bodies:
  "\<forall>b \<in> set bodies. ascii b \<Longrightarrow>
    decodeFrames parse (concat (map encode_body bodies)) = (List.map_filter parse bodies, [])"
proof (induction bodies)
  case (Cons b bodies)
  then have "byteLength b = length b" by (simp add: ascii_def list_all_iff byteLength_ascii)
  with Cons show ?case
    by (simp add: encode_body_def decode_frame split: option.split)
qed simp

text \<open>
  C12: a stream of frames whose bodies are ASCII is decoded to the parsed bodies in order,
  those the JSON parser rejects left out, with nothing left over, however the stream is cut
  into chunks and also when a chunk ends inside a header or a body.
\<close>

theorem dap_stream:
  assumes "\<forall>b \<in> set bodies. ascii b" "concat chunks = concat (map encode_body bodies)"
  shows "feed (decodeFrames parse) [] chunks = (List.map_filter parse bodies, [])"
  using dap.feed_concat [of parse chunks] decode_bodies [OF assms(1), of parse] assms(2) by simp

text \<open>A parser that accepts the texts in braces.\<close>

definition braces :: "units \<Rightarrow> units option" where
  "braces us = (if us \<noteq> [] \<and> hd us = 123 \<and> last us = 125 then Some us else None)"

lemma dap_stream_witness:
  "feed (decodeFrames braces) [] [take 5 (encode_body [123, 125]), drop 5 (encode_body [123, 125])]
     = ([[123, 125]], [])"
proof -
  have "ascii [123, 125]" by (simp add: ascii_def)
  then show ?thesis
    using dap_stream [of "[[123, 125]]" "[take 5 (encode_body [123, 125]), drop 5 (encode_body [123, 125])]" braces]
    by (simp add: braces_def)
qed

text \<open>
  The header counts bytes but the decoder takes as many UTF-16 units, so a frame whose
  body has any character beyond ASCII is not delivered when it has arrived completely: the
  decoder keeps waiting for as many more units as the body has extra bytes.
\<close>

theorem dap_beyond_ascii_waits:
  assumes "u \<in> set body" "128 \<le> u" "length s < byteLength body - length body"
  shows "decodeFrames parse (encode_body body @ s) = ([], encode_body body @ s)"
proof -
  have "length (body @ s) < byteLength body" using byteLength_beyond [OF assms(1,2)] assms(3) by simp
  then show ?thesis unfolding encode_body_def append_assoc decode_frame by simp
qed

lemma dap_beyond_ascii_waits_witness:
  "decodeFrames braces (encode_body [123, 233, 125]) = ([], encode_body [123, 233, 125])"
  using dap_beyond_ascii_waits [of 233 "[123, 233, 125]" "[]" braces] by simp

text \<open>The frame that follows is lost with it: its header is cut short and skipped.\<close>

lemma dap_desync:
  "decodeFrames braces (encode_body [123, 233, 125] @ encode_body [123, 125]) = ([], [123, 125])"
proof -
  have e: "encode_body [123, 125] = units_of ''Content-Length: 2'' @ CRLF2 @ [123, 125]"
    by (simp add: encode_body_def frame_header_def nat_to_dec.simps high_surrogate_def units_of_def)
  have "decodeFrames braces (drop 1 (encode_body [123, 125])) = ([], [123, 125])"
    unfolding e
    by (subst decodeFrames.simps, simp add: units_of_def CRLF2_def length_here_def field_name_def unit_lower_def)
      (simp add: decodeFrames.simps CRLF2_def)
  then show ?thesis
    unfolding encode_body_def [of "[123, 233, 125]"] append_assoc decode_frame
    by (simp add: e braces_def units_of_def high_surrogate_def)
qed

end
