(* ===== verification/DapClient.thy ===== *)
theory DapClient
  imports DapProps
begin

text \<open>
  The request layer of \<open>RealDapBridge\<close> (weftik-debug/src/browser/real-dap-bridge.ts): requests
  sent to the adapter process wait in \<open>pending\<close> under their number until a response with that
  number, a write error, or the end of the process settles them. What the environment does
  (a chunk of output, a process event) is an input of the step; inputs arrive one at a time,
  as the event loop delivers them.
\<close>

record dap_frame =
  is_response :: bool
  request_seq :: nat
  frame_success :: bool
  frame_message :: "string option"

record client =
  proc :: bool
  client_seq :: nat
  pending :: "(nat, string) jsmap"
  client_buf :: units
  client_connected :: bool

datatype input =
    Spawn
  | Request string
  | WriteFailed nat string
  | Chunk units
  | Exited
  | SpawnFailed string
  | Connected_reply
  | Kill

text \<open>How a promise of a request ends; \<open>Refused\<close> is a request that was never sent.\<close>

datatype settlement =
    Resolved nat
  | Rejected nat string
  | Refused string

definition js_delete :: "'k \<Rightarrow> ('k, 'v) jsmap \<Rightarrow> ('k, 'v) jsmap" where
  "js_delete k m = filter (\<lambda>(k', v). k' \<noteq> k) m"

definition request :: "string \<Rightarrow> client \<Rightarrow> settlement list \<times> client" where
  "request command c =
     (if \<not> proc c then ([Refused (''dap-adapter not running ('' @ command @ '')'')], c)
      else ([], c\<lparr>client_seq := client_seq c + 1, pending := js_set (client_seq c) command (pending c)\<rparr>))"

text \<open>The callback of \<open>stdin.write\<close>; rejecting a promise that is settled already does nothing.\<close>

definition writeFailed :: "nat \<Rightarrow> string \<Rightarrow> client \<Rightarrow> settlement list \<times> client" where
  "writeFailed n e c =
     (if n \<in> fst ` set (pending c) then ([Rejected n e], c\<lparr>pending := js_delete n (pending c)\<rparr>)
      else ([], c))"

definition onFrame :: "dap_frame \<Rightarrow> client \<Rightarrow> settlement list \<times> client" where
  "onFrame f c =
     (if \<not> is_response f then ([], c)
      else case map_of (pending c) (request_seq f) of
        None \<Rightarrow> ([], c)
      | Some command \<Rightarrow>
          ([if frame_success f then Resolved (request_seq f)
            else Rejected (request_seq f)
              (command @ '': '' @ (case frame_message f of Some m \<Rightarrow> m | None \<Rightarrow> ''DAP error''))],
           c\<lparr>pending := js_delete (request_seq f) (pending c)\<rparr>))"

fun onFrames :: "dap_frame list \<Rightarrow> client \<Rightarrow> settlement list \<times> client" where
  "onFrames [] c = ([], c)"
| "onFrames (f # fs) c =
     (let (out, c') = onFrame f c; (out', c'') = onFrames fs c' in (out @ out', c''))"

definition onData :: "(units \<Rightarrow> dap_frame option) \<Rightarrow> units \<Rightarrow> client \<Rightarrow> settlement list \<times> client" where
  "onData parse chunk c =
     (let (frames, rest) = decodeFrames parse (client_buf c @ chunk) in
      onFrames frames (c\<lparr>client_buf := rest\<rparr>))"

definition rejectAll :: "string \<Rightarrow> client \<Rightarrow> settlement list \<times> client" where
  "rejectAll reason c = (map (\<lambda>(n, command). Rejected n reason) (pending c), c\<lparr>pending := []\<rparr>)"

definition onExit :: "client \<Rightarrow> settlement list \<times> client" where
  "onExit c = (case rejectAll ''dap-adapter process exited'' c of
     (out, c') \<Rightarrow> (out, c'\<lparr>client_connected := False, proc := False\<rparr>))"

fun client_step :: "(units \<Rightarrow> dap_frame option) \<Rightarrow> input \<Rightarrow> client \<Rightarrow> settlement list \<times> client" where
  "client_step parse Spawn c = ([], c\<lparr>proc := True\<rparr>)"
| "client_step parse (Request command) c = request command c"
| "client_step parse (WriteFailed n e) c = writeFailed n e c"
| "client_step parse (Chunk chunk) c = onData parse chunk c"
| "client_step parse Exited c = onExit c"
| "client_step parse (SpawnFailed e) c = rejectAll e c"
| "client_step parse Connected_reply c = ([], c\<lparr>client_connected := True\<rparr>)"
| "client_step parse Kill c = ([], c\<lparr>proc := False\<rparr>)"

definition new_client :: client where
  "new_client = \<lparr>proc = False, client_seq = 1, pending = [], client_buf = [], client_connected = False\<rparr>"

text \<open>The runs of the client with what they settled so far.\<close>

inductive client_run :: "(units \<Rightarrow> dap_frame option) \<Rightarrow> settlement list \<Rightarrow> client \<Rightarrow> bool"
  for parse where
  start: "client_run parse [] new_client"
| step: "client_run parse out c \<Longrightarrow> client_step parse i c = (out', c') \<Longrightarrow> client_run parse (out @ out') c'"

inductive_cases client_runE: "client_run parse out c"

subsection \<open>Every request is settled once\<close>

fun settled_number :: "settlement \<Rightarrow> nat list" where
  "settled_number (Resolved n) = [n]"
| "settled_number (Rejected n r) = [n]"
| "settled_number (Refused r) = []"

definition settled :: "settlement list \<Rightarrow> nat list" where
  "settled out = concat (map settled_number out)"

lemma settled_simps [simp]:
  "settled [] = []" "settled (s # out) = settled_number s @ settled out"
  "settled (out @ out') = settled out @ settled out'"
  by (simp_all add: settled_def)

definition keys :: "client \<Rightarrow> nat list" where
  "keys c = map fst (pending c)"

text \<open>
  The numbers settled so far and the pending ones are those given out, each once.
\<close>

definition accounted :: "nat list \<Rightarrow> client \<Rightarrow> bool" where
  "accounted ds c \<longleftrightarrow>
     distinct (ds @ keys c) \<and> set (ds @ keys c) = {1 ..< client_seq c} \<and> 1 \<le> client_seq c"

lemma accounted_fields:
  "pending c' = pending c \<Longrightarrow> client_seq c' = client_seq c \<Longrightarrow> accounted ds c' = accounted ds c"
  by (simp add: accounted_def keys_def)

lemma keys_js_delete: "map fst (js_delete n m) = filter (\<lambda>k. k \<noteq> n) (map fst m)"
  by (induction m) (auto simp: js_delete_def)

lemma accounted_request:
  assumes "accounted ds c"
  shows "accounted (ds @ settled (fst (request command c))) (snd (request command c))"
proof -
  have n: "client_seq c \<notin> set (keys c)" "client_seq c \<notin> set ds"
    using assms by (auto simp: accounted_def)
  then have "keys (snd (request command c)) = keys c @ (if proc c then [client_seq c] else [])"
    by (simp add: request_def keys_def js_add_def)
  with assms n show ?thesis
    by (auto simp: accounted_def request_def keys_def)
qed

text \<open>Settling one pending number.\<close>

lemma accounted_settle:
  assumes "accounted ds c" "n \<in> set (keys c)"
  shows "accounted (ds @ [n]) (c\<lparr>pending := js_delete n (pending c)\<rparr>)"
  using assms by (auto simp: accounted_def keys_def keys_js_delete simp del: set_map)

lemma accounted_writeFailed:
  "accounted ds c \<Longrightarrow> accounted (ds @ settled (fst (writeFailed n e c))) (snd (writeFailed n e c))"
  using accounted_settle [of ds c n] by (simp add: writeFailed_def keys_def)

lemma accounted_onFrame:
  assumes "accounted ds c"
  shows "accounted (ds @ settled (fst (onFrame f c))) (snd (onFrame f c))"
proof (cases "is_response f \<and> map_of (pending c) (request_seq f) \<noteq> None")
  case True
  then obtain command where command: "map_of (pending c) (request_seq f) = Some command" by auto
  then have "request_seq f \<in> set (keys c)" by (force simp: keys_def dest: map_of_SomeD)
  from accounted_settle [OF assms this] True command show ?thesis by (simp add: onFrame_def)
next
  case False
  with assms show ?thesis by (auto simp: onFrame_def)
qed

lemma accounted_onFrames:
  "accounted ds c \<Longrightarrow> accounted (ds @ settled (fst (onFrames fs c))) (snd (onFrames fs c))"
proof (induction fs arbitrary: c ds)
  case (Cons f fs)
  from Cons.IH [OF accounted_onFrame [OF Cons.prems, of f]] show ?case
    by (simp add: split_beta Let_def)
qed simp

lemma accounted_rejectAll:
  "accounted ds c \<Longrightarrow> accounted (ds @ settled (fst (rejectAll r c))) (snd (rejectAll r c))"
proof -
  have "settled (map (\<lambda>(n, command). Rejected n r) m) = map fst m" for m :: "(nat \<times> string) list"
    by (induction m) auto
  then show "accounted ds c \<Longrightarrow> ?thesis"
    by (simp add: accounted_def rejectAll_def keys_def)
qed

lemma accounted_step:
  assumes "accounted ds c"
  shows "accounted (ds @ settled (fst (client_step parse i c))) (snd (client_step parse i c))"
proof (cases i)
  case (Chunk chunk)
  have "accounted ds (c\<lparr>client_buf := b\<rparr>)" for b
    using assms by (subst accounted_fields [of _ c]) simp_all
  from accounted_onFrames [OF this] Chunk show ?thesis
    by (simp add: onData_def split_beta Let_def)
next
  case Exited
  from accounted_rejectAll [OF assms] Exited show ?thesis
    by (simp add: onExit_def split_beta accounted_def keys_def)
qed (use assms accounted_request [OF assms] accounted_writeFailed [OF assms] accounted_rejectAll [OF assms]
     in \<open>simp_all add: accounted_def keys_def\<close>)

lemma client_run_accounted: "client_run parse out c \<Longrightarrow> accounted (settled out) c"
proof (induction rule: client_run.induct)
  case start
  show ?case by (simp add: accounted_def new_client_def keys_def)
next
  case (step out c i out' c')
  from accounted_step [OF step.IH, of parse i] step.hyps show ?case by simp
qed

text \<open>
  C15: however the adapter's output is cut and whatever it answers, in every run of the client
  each request that was sent is settled at most once and only those, and one that is not yet
  settled is still pending, so when the process exits all of them have been settled.
\<close>

theorem dap_client_settles:
  assumes "client_run parse out c"
  shows "distinct (settled out) \<and> set (settled out) \<union> set (keys c) = {1 ..< client_seq c} \<and>
    set (settled out) \<inter> set (keys c) = {} \<and>
    set (settled out @ settled (fst (client_step parse Exited c))) = {1 ..< client_seq c}"
proof -
  have a: "accounted (settled out) c" using assms by (rule client_run_accounted)
  from accounted_step [OF a, of parse Exited]
  have "set (settled out @ settled (fst (client_step parse Exited c))) = {1 ..< client_seq c}"
    by (simp add: accounted_def onExit_def rejectAll_def keys_def split_beta)
  with a show ?thesis by (auto simp: accounted_def)
qed

definition reply_only :: "units \<Rightarrow> dap_frame option" where
  "reply_only body = Some \<lparr>is_response = True, request_seq = 2, frame_success = True, frame_message = None\<rparr>"

fun client_steps :: "(units \<Rightarrow> dap_frame option) \<Rightarrow> input list \<Rightarrow> client \<Rightarrow> settlement list \<times> client" where
  "client_steps parse [] c = ([], c)"
| "client_steps parse (i # is) c =
     (let (out, c') = client_step parse i c; (out', c'') = client_steps parse is c' in (out @ out', c''))"

lemma client_run_steps:
  "client_run parse out c \<Longrightarrow> client_run parse (out @ fst (client_steps parse is c)) (snd (client_steps parse is c))"
proof (induction "is" arbitrary: out c)
  case (Cons i "is")
  have "client_run parse (out @ fst (client_step parse i c)) (snd (client_step parse i c))"
    by (rule client_run.step [OF Cons.prems]) simp
  from Cons.IH [OF this] show ?case by (simp add: split_beta Let_def)
qed simp

definition two_requests :: "input list" where
  "two_requests = [Spawn, Request ''initialize'', Request ''attach'', Chunk (encode_body [123, 125])]"

lemma two_requests_state:
  "fst (client_steps reply_only two_requests new_client) = [Resolved 2]"
  "keys (snd (client_steps reply_only two_requests new_client)) = [1]"
proof -
  have b: "byteLength [123, 125] = 2" by (simp add: high_surrogate_def)
  have d: "decodeFrames reply_only (encode_body [123, 125]) = ([the (reply_only [])], [])"
    using decode_frame [of reply_only 2 "[123, 125]"] unfolding encode_body_def b
    by (simp add: reply_only_def)
  show "fst (client_steps reply_only two_requests new_client) = [Resolved 2]"
    "keys (snd (client_steps reply_only two_requests new_client)) = [1]"
    by (simp_all add: two_requests_def new_client_def request_def onData_def d onFrame_def reply_only_def
        js_delete_def keys_def)
qed

lemma dap_client_settles_witness:
  "set (settled [Resolved 2]) \<union> set [1] = {1 ..< client_seq (snd (client_steps reply_only two_requests new_client))}"
  using dap_client_settles [OF client_run_steps [OF client_run.start, of reply_only two_requests]]
  unfolding append_Nil two_requests_state by blast

text \<open>
  The end of a process is reported after the client may have started the next one, whose
  requests are then rejected and which the client forgets.
\<close>

lemma stale_exit:
  "Rejected (client_seq c) ''dap-adapter process exited''
     \<in> set (fst (client_steps parse [Kill, Spawn, Request command, Exited] c)) \<and>
   \<not> proc (snd (client_steps parse [Kill, Spawn, Request command, Exited] c))"
proof -
  have "(client_seq c, command) \<in> set (js_set (client_seq c) command m)" for m
    by (induction m) auto
  then show ?thesis by (force simp: request_def onExit_def rejectAll_def)
qed

end
