(* ===== verification/DebugChannel.thy ===== *)
theory DebugChannel
  imports JsPrelude
begin

text \<open>
  The debug channel of weftik-debug/src/browser/debug-channel.ts, its stub bridge, and the
  client side of real-dap-bridge.ts: the pending requests and the breakpoint list it keeps.
  An \<open>await\<close>ed bridge call is a function on the bridge's state that throws a text or returns a
  value; JSON texts exchanged with the bridge are the values they denote. Each request is
  handled to its end before the next: \<open>send\<close> does not await \<open>dispatch\<close>, and the interleaving of
  requests in flight is left out.
\<close>

subsection \<open>The bridge interface\<close>

type_synonym ('b, 'a) bridge_call = "'b \<Rightarrow> (string + 'a) \<times> 'b"

text \<open>\<open>getState\<close> returns \<open>current_ip\<close> when it is a number.\<close>

record 'b IDebugBridge =
  br_connect :: "('b, unit) bridge_call"
  br_disconnect :: "('b, unit) bridge_call"
  br_pause :: "('b, unit) bridge_call"
  br_resume :: "('b, unit) bridge_call"
  br_step :: "('b, unit) bridge_call"
  getRegisters :: "('b, (string \<times> string) list) bridge_call"
  getBreakpoints :: "('b, int list) bridge_call"
  addBreakpoint :: "int \<Rightarrow> ('b, unit) bridge_call"
  removeBreakpoint :: "int \<Rightarrow> ('b, unit) bridge_call"
  getState :: "('b, int option) bridge_call"

definition ok_call :: "('b, unit) bridge_call" where
  "ok_call b = (Inr (), b)"

text \<open>\<open>StubDebugBridge\<close>: the state is its list of breakpoints.\<close>

definition stub_registers :: "(string \<times> string) list" where
  "stub_registers = map (\<lambda>n. (''r'' @ nat_to_dec n, ''0x00000000'')) [0..<14]"

definition StubDebugBridge :: "int list IDebugBridge" where
  "StubDebugBridge = \<lparr>br_connect = ok_call, br_disconnect = ok_call, br_pause = ok_call, br_resume = ok_call, br_step = ok_call,
     getRegisters = (\<lambda>b. (Inr stub_registers, b)),
     getBreakpoints = (\<lambda>b. (Inr b, b)),
     addBreakpoint = (\<lambda>ip b. (Inr (), b @ [ip])),
     removeBreakpoint = (\<lambda>ip b. (Inr (), filter (\<lambda>x. x \<noteq> ip) b)),
     getState = (\<lambda>b. (Inr (Some 0), b))\<rparr>"

subsection \<open>Messages\<close>

record set_result =
  bp_id :: nat
  verified :: bool
  bp_line :: int
  bp_message :: "string option"

datatype body =
    Capabilities
  | EmptyBody
  | AllContinued
  | Breakpoints "set_result list"
  | Threads
  | StackTrace int
  | Scopes
  | Variables "(string \<times> string) list"

datatype message =
    Response nat nat string body
  | ErrorResponse nat nat string string
  | Event nat string string

fun message_seq :: "message \<Rightarrow> nat" where
  "message_seq (Response s r c b) = s"
| "message_seq (ErrorResponse s r c m) = s"
| "message_seq (Event s e r) = s"

text \<open>A request; \<open>req_lines\<close> is \<open>arguments?.breakpoints\<close>.\<close>

record dap_request =
  req_seq :: nat
  req_command :: string
  req_lines :: "int list option"

record 'b channel =
  ch_seq :: nat
  ch_connected :: bool
  bridge_state :: 'b
  sent :: "message list"

definition emit :: "(nat \<Rightarrow> message) \<Rightarrow> 'b channel \<Rightarrow> 'b channel" where
  "emit m ch = ch\<lparr>sent := sent ch @ [m (ch_seq ch)], ch_seq := ch_seq ch + 1\<rparr>"

definition respond :: "dap_request \<Rightarrow> body \<Rightarrow> 'b channel \<Rightarrow> 'b channel" where
  "respond req b = emit (\<lambda>s. Response s (req_seq req) (req_command req) b)"

definition dap_err :: "dap_request \<Rightarrow> string \<Rightarrow> 'b channel \<Rightarrow> 'b channel" where
  "dap_err req m = emit (\<lambda>s. ErrorResponse s (req_seq req) (req_command req) m)"

definition emit_event :: "string \<Rightarrow> string \<Rightarrow> 'b channel \<Rightarrow> 'b channel" where
  "emit_event e reason = emit (\<lambda>s. Event s e reason)"

subsection \<open>Dispatch\<close>

text \<open>\<open>await\<close>: a throw skips the rest.\<close>

type_synonym ('b, 'a) action = "'b channel \<Rightarrow> (string + 'a) \<times> 'b channel"

definition await :: "('b, 'a) bridge_call \<Rightarrow> ('b, 'a) action" where
  "await call ch = (case call (bridge_state ch) of (r, b) \<Rightarrow> (r, ch\<lparr>bridge_state := b\<rparr>))"

definition andThen :: "('b, 'a) action \<Rightarrow> ('a \<Rightarrow> ('b, 'c) action) \<Rightarrow> ('b, 'c) action" where
  "andThen m k ch = (case m ch of (Inl e, ch') \<Rightarrow> (Inl e, ch') | (Inr a, ch') \<Rightarrow> k a ch')"

definition act :: "('b channel \<Rightarrow> 'b channel) \<Rightarrow> ('b, unit) action" where
  "act f ch = (Inr (), f ch)"

fun remove_each :: "'b IDebugBridge \<Rightarrow> int list \<Rightarrow> ('b, unit) action" where
  "remove_each br [] = act (\<lambda>ch. ch)"
| "remove_each br (ip # ips) = andThen (await (removeBreakpoint br ip)) (\<lambda>_. remove_each br ips)"

text \<open>The loop over the requested lines; a failing one is reported, not thrown.\<close>

fun add_each :: "'b IDebugBridge \<Rightarrow> nat \<Rightarrow> int list \<Rightarrow> 'b channel \<Rightarrow> set_result list \<times> 'b channel" where
  "add_each br i [] ch = ([], ch)"
| "add_each br i (line # ls) ch = (case await (addBreakpoint br line) ch of (r, ch') \<Rightarrow>
     (case add_each br (i + 1) ls ch' of (results, ch'') \<Rightarrow>
       (\<lparr>bp_id = i + 1, verified = (case r of Inr _ \<Rightarrow> True | Inl _ \<Rightarrow> False), bp_line = line,
         bp_message = (case r of Inr _ \<Rightarrow> None | Inl e \<Rightarrow> Some e)\<rparr> # results, ch'')))"

definition handleSetBreakpoints :: "'b IDebugBridge \<Rightarrow> dap_request \<Rightarrow> ('b, unit) action" where
  "handleSetBreakpoints br req =
     andThen (await (getBreakpoints br)) (\<lambda>existing.
     andThen (remove_each br existing) (\<lambda>_ ch.
       case add_each br 0 (case req_lines req of Some ls \<Rightarrow> ls | None \<Rightarrow> []) ch of
         (result, ch') \<Rightarrow> act (respond req (Breakpoints result)) ch'))"

definition handleStackTrace :: "'b IDebugBridge \<Rightarrow> dap_request \<Rightarrow> ('b, unit) action" where
  "handleStackTrace br req = andThen (await (getState br)) (\<lambda>ip.
     act (respond req (StackTrace (case ip of Some n \<Rightarrow> n | None \<Rightarrow> 0))))"

definition handleVariables :: "'b IDebugBridge \<Rightarrow> dap_request \<Rightarrow> ('b, unit) action" where
  "handleVariables br req = andThen (await (getRegisters br)) (\<lambda>regs. act (respond req (Variables regs)))"

definition run_command :: "'b IDebugBridge \<Rightarrow> dap_request \<Rightarrow> ('b, unit) action" where
  "run_command br req =
     (let c = req_command req in
      if c = ''initialize'' then act (emit_event ''initialized'' '''' \<circ> respond req Capabilities)
      else if c = ''launch'' \<or> c = ''attach'' then
        andThen (await (br_connect br)) (\<lambda>_.
        andThen (act (\<lambda>ch. ch\<lparr>ch_connected := True\<rparr>)) (\<lambda>_.
        andThen (await (br_pause br)) (\<lambda>_.
          act (emit_event ''stopped'' ''entry'' \<circ> respond req EmptyBody))))
      else if c = ''setBreakpoints'' then handleSetBreakpoints br req
      else if c = ''configurationDone'' then act (respond req EmptyBody)
      else if c = ''continue'' then
        andThen (await (br_resume br)) (\<lambda>_. act (emit_event ''continued'' '''' \<circ> respond req AllContinued))
      else if c = ''next'' \<or> c = ''stepIn'' then
        andThen (await (br_step br)) (\<lambda>_. act (emit_event ''stopped'' ''step'' \<circ> respond req EmptyBody))
      else if c = ''pause'' then
        andThen (await (br_pause br)) (\<lambda>_. act (emit_event ''stopped'' ''pause'' \<circ> respond req EmptyBody))
      else if c = ''threads'' then act (respond req Threads)
      else if c = ''stackTrace'' then handleStackTrace br req
      else if c = ''scopes'' then act (respond req Scopes)
      else if c = ''variables'' then handleVariables br req
      else if c = ''disconnect'' then
        andThen (await (br_disconnect br)) (\<lambda>_.
          act (respond req EmptyBody \<circ> (\<lambda>ch. ch\<lparr>ch_connected := False\<rparr>)))
      else act (dap_err req (''unsupported: '' @ c)))"

definition dispatch_dap :: "'b IDebugBridge \<Rightarrow> dap_request \<Rightarrow> 'b channel \<Rightarrow> 'b channel" where
  "dispatch_dap br req ch = (case run_command br req ch of
     (Inr _, ch') \<Rightarrow> ch'
   | (Inl e, ch') \<Rightarrow> dap_err req (req_command req @ '': '' @ e) ch')"

text \<open>\<open>send\<close>: a text that does not parse goes to the error callback only.\<close>

definition send :: "'b IDebugBridge \<Rightarrow> dap_request option \<Rightarrow> 'b channel \<Rightarrow> 'b channel" where
  "send br content ch = (case content of None \<Rightarrow> ch | Some req \<Rightarrow> dispatch_dap br req ch)"

definition close_channel :: "'b IDebugBridge \<Rightarrow> 'b channel \<Rightarrow> 'b channel" where
  "close_channel br ch = (if ch_connected ch then (snd (await (br_disconnect br) ch))\<lparr>ch_connected := False\<rparr> else ch)"

fun send_all :: "'b IDebugBridge \<Rightarrow> dap_request option list \<Rightarrow> 'b channel \<Rightarrow> 'b channel" where
  "send_all br [] ch = ch"
| "send_all br (r # rs) ch = send_all br rs (send br r ch)"

definition opened :: "'b \<Rightarrow> 'b channel" where
  "opened b = \<lparr>ch_seq = 1, ch_connected = False, bridge_state = b, sent = []\<rparr>"

subsection \<open>The client of the adapter process\<close>

text \<open>
  \<open>RealDapBridge\<close>: \<open>adapter command lines w\<close> is what the process in state \<open>w\<close> answers to a
  request, an error text or a reply with the parts the client reads; the breakpoint list is
  the only argument that varies. A request fails at once when the process is not running.
\<close>

record dap_reply =
  reply_variables :: "(string option \<times> string option) list"
  reply_frame_lines :: "int option list"

record 'w real_bridge =
  running :: bool
  real_seq :: nat
  bps :: "int list"
  real_connected :: bool
  adapter_world :: 'w

type_synonym 'w adapter = "string \<Rightarrow> int list \<Rightarrow> 'w \<Rightarrow> (string + dap_reply) \<times> 'w"

definition real_request :: "'w adapter \<Rightarrow> string \<Rightarrow> int list \<Rightarrow> ('w real_bridge, dap_reply) bridge_call" where
  "real_request adapter command ls b =
     (if \<not> running b then (Inl (''Error: dap-adapter not running ('' @ command @ '')''), b)
      else (case adapter command ls (adapter_world b) of
        (Inl m, w) \<Rightarrow> (Inl (''Error: '' @ command @ '': '' @ m), b\<lparr>real_seq := real_seq b + 1, adapter_world := w\<rparr>)
      | (Inr r, w) \<Rightarrow> (Inr r, b\<lparr>real_seq := real_seq b + 1, adapter_world := w\<rparr>)))"

definition after_request :: "'w adapter \<Rightarrow> string \<Rightarrow> int list
    \<Rightarrow> (dap_reply \<Rightarrow> ('w real_bridge, 'a) bridge_call) \<Rightarrow> ('w real_bridge, 'a) bridge_call" where
  "after_request adapter command ls k b = (case real_request adapter command ls b of
     (Inl e, b') \<Rightarrow> (Inl e, b') | (Inr r, b') \<Rightarrow> k r b')"

definition syncBreakpoints :: "'w adapter \<Rightarrow> ('w real_bridge, unit) bridge_call" where
  "syncBreakpoints adapter b = after_request adapter ''setBreakpoints'' (bps b) (\<lambda>r. ok_call) b"

definition real_connect :: "'w adapter \<Rightarrow> ('w real_bridge, unit) bridge_call" where
  "real_connect adapter b =
     (if real_connected b then (Inr (), b)
      else after_request adapter ''initialize'' [] (\<lambda>r. after_request adapter ''attach'' []
        (\<lambda>r b. (Inr (), b\<lparr>real_connected := True\<rparr>))) (b\<lparr>running := True\<rparr>))"

definition real_disconnect :: "'w adapter \<Rightarrow> ('w real_bridge, unit) bridge_call" where
  "real_disconnect adapter b =
     (if real_connected b then
        after_request adapter ''disconnect'' []
          (\<lambda>r b. (Inr (), b\<lparr>real_connected := False, running := False\<rparr>)) b
      else (Inr (), b\<lparr>running := False\<rparr>))"

definition RealDapBridge :: "'w adapter \<Rightarrow> 'w real_bridge IDebugBridge" where
  "RealDapBridge adapter = \<lparr>br_connect = real_connect adapter, br_disconnect = real_disconnect adapter,
     br_pause = after_request adapter ''pause'' [] (\<lambda>r. ok_call),
     br_resume = after_request adapter ''continue'' [] (\<lambda>r. ok_call),
     br_step = after_request adapter ''next'' [] (\<lambda>r. ok_call),
     getRegisters = after_request adapter ''variables'' [] (\<lambda>r b.
       (Inr (map (\<lambda>(n, v). (case n of Some s \<Rightarrow> s | None \<Rightarrow> [], case v of Some s \<Rightarrow> s | None \<Rightarrow> []))
         (reply_variables r)), b)),
     getBreakpoints = (\<lambda>b. (Inr (bps b), b)),
     addBreakpoint = (\<lambda>ip b. syncBreakpoints adapter
       (if ip \<in> set (bps b) then b else b\<lparr>bps := bps b @ [ip]\<rparr>)),
     removeBreakpoint = (\<lambda>ip b. syncBreakpoints adapter (b\<lparr>bps := filter (\<lambda>x. x \<noteq> ip) (bps b)\<rparr>)),
     getState = after_request adapter ''stackTrace'' [] (\<lambda>r b.
       (Inr (Some (case reply_frame_lines r of Some n # _ \<Rightarrow> n | _ \<Rightarrow> 0)), b))\<rparr>"

end
