(* ===== verification/DebugProps.thy ===== *)
theory DebugProps
  imports DebugChannel
begin

text \<open>
  Properties of the debug channel: one reply to every request with gapless sequence numbers,
  and the breakpoints that are set after a \<open>setBreakpoints\<close> request. \<open>breakpoint_bridge\<close> is what
  the channel needs of a bridge's breakpoint calls; the stub and the client of the adapter
  process interpret it.
\<close>

subsection \<open>Replies\<close>

text \<open>Which requests a list of messages answers.\<close>

fun reply_to :: "message \<Rightarrow> (nat \<times> string) list" where
  "reply_to (Response s r c b) = [(r, c)]"
| "reply_to (ErrorResponse s r c m) = [(r, c)]"
| "reply_to (Event s e r) = []"

definition replies :: "message list \<Rightarrow> (nat \<times> string) list" where
  "replies ms = concat (map reply_to ms)"

lemma replies_append [simp]: "replies (ms @ ns) = replies ms @ replies ns"
  by (simp add: replies_def)

lemma replies_Nil [simp]: "replies [] = []"
  by (simp add: replies_def)

text \<open>The channel went on by the messages \<open>ms\<close>.\<close>

definition adds :: "'b channel \<Rightarrow> message list \<Rightarrow> 'b channel \<Rightarrow> bool" where
  "adds ch ms ch' \<longleftrightarrow> sent ch' = sent ch @ ms \<and> ch_seq ch' = ch_seq ch + length ms \<and>
     map message_seq ms = [ch_seq ch ..< ch_seq ch + length ms]"

lemma adds_Nil: "sent ch' = sent ch \<Longrightarrow> ch_seq ch' = ch_seq ch \<Longrightarrow> adds ch [] ch'"
  by (simp add: adds_def)

lemma adds_trans:
  assumes "adds ch ms ch'" "adds ch' ns ch''"
  shows "adds ch (ms @ ns) ch''"
proof -
  have "[ch_seq ch ..< ch_seq ch + (length ms + length ns)] =
      [ch_seq ch ..< ch_seq ch + length ms] @ [ch_seq ch + length ms ..< ch_seq ch + length ms + length ns]"
    using upt_add_eq_append [of "ch_seq ch" "ch_seq ch + length ms" "length ns"] by (simp add: add.assoc)
  with assms show ?thesis by (simp add: adds_def add.assoc)
qed

lemma adds_emit: "(\<And>s. message_seq (m s) = s) \<Longrightarrow> adds ch [m (ch_seq ch)] (emit m ch)"
  by (simp add: adds_def emit_def)

named_theorems replying \<open>which actions send nothing and which send the reply\<close>

definition silent :: "('b, 'a) action \<Rightarrow> bool" where
  "silent m \<longleftrightarrow> (\<forall>ch. adds ch [] (snd (m ch)))"

definition replies_once :: "dap_request \<Rightarrow> ('b, unit) action \<Rightarrow> bool" where
  "replies_once req m \<longleftrightarrow> (\<forall>ch. case m ch of
     (Inl e, ch') \<Rightarrow> adds ch [] ch'
   | (Inr _, ch') \<Rightarrow> \<exists>ms. adds ch ms ch' \<and> replies ms = [(req_seq req, req_command req)])"

lemma silent_await [replying]: "silent (await call)"
  by (auto simp: silent_def await_def adds_def split: prod.split)

lemma silentD: "silent m \<Longrightarrow> m ch = (r, ch') \<Longrightarrow> adds ch [] ch'"
  unfolding silent_def by (drule spec [of _ ch]) simp

lemma silent_andThen [replying]:
  assumes m: "silent m" and k: "\<And>a. silent (k a)"
  shows "silent (andThen m k)"
  unfolding silent_def
proof
  fix ch
  obtain r ch' where mc: "m ch = (r, ch')" by (cases "m ch")
  with m have a: "adds ch [] ch'" by (rule silentD)
  show "adds ch [] (snd (andThen m k ch))"
  proof (cases r)
    case (Inr x)
    have "adds ch' [] (snd (k x ch'))" by (rule silentD [OF k, of _ _ "fst (k x ch')"]) simp
    from adds_trans [OF a this] mc Inr show ?thesis by (simp add: andThen_def)
  qed (use mc a in \<open>simp add: andThen_def\<close>)
qed

lemma silent_connected [replying]: "silent (act (\<lambda>ch. ch\<lparr>ch_connected := c\<rparr>))" "silent (act (\<lambda>ch. ch))"
  by (simp_all add: silent_def act_def adds_def)

lemma replies_onceI:
  assumes "\<And>ch e ch'. m ch = (Inl e, ch') \<Longrightarrow> adds ch [] ch'"
    and "\<And>ch u ch'. m ch = (Inr u, ch') \<Longrightarrow> \<exists>ms. adds ch ms ch' \<and> replies ms = [(req_seq req, req_command req)]"
  shows "replies_once req m"
  using assms unfolding replies_once_def by (simp split: prod.split sum.split)

lemma replies_once_Inl: "replies_once req m \<Longrightarrow> m ch = (Inl e, ch') \<Longrightarrow> adds ch [] ch'"
  unfolding replies_once_def by (drule spec [of _ ch]) simp

lemma replies_once_Inr:
  "replies_once req m \<Longrightarrow> m ch = (Inr u, ch') \<Longrightarrow>
    \<exists>ms. adds ch ms ch' \<and> replies ms = [(req_seq req, req_command req)]"
  unfolding replies_once_def by (drule spec [of _ ch]) simp

lemma replies_andThen [replying]:
  assumes m: "silent m" and k: "\<And>a. replies_once req (k a)"
  shows "replies_once req (andThen m k)"
proof (rule replies_onceI)
  fix ch e ch'
  assume "andThen m k ch = (Inl e, ch')"
  then consider "m ch = (Inl e, ch')" | a ch1 where "m ch = (Inr a, ch1)" "k a ch1 = (Inl e, ch')"
    by (auto simp: andThen_def split: prod.splits sum.splits)
  then show "adds ch [] ch'"
  proof cases
    case 1
    with m show ?thesis by (rule silentD)
  next
    case 2
    from adds_trans [OF silentD [OF m 2(1)] replies_once_Inl [OF k 2(2)]] show ?thesis by simp
  qed
next
  fix ch u ch'
  assume "andThen m k ch = (Inr u, ch')"
  then obtain a ch1 where *: "m ch = (Inr a, ch1)" "k a ch1 = (Inr u, ch')"
    by (auto simp: andThen_def split: prod.splits sum.splits)
  obtain ms where "adds ch1 ms ch'" "replies ms = [(req_seq req, req_command req)]"
    using replies_once_Inr [OF k *(2)] by blast
  with adds_trans [OF silentD [OF m *(1)]]
  show "\<exists>ms. adds ch ms ch' \<and> replies ms = [(req_seq req, req_command req)]" by fastforce
qed

lemma replies_if [replying]:
  "(c \<Longrightarrow> replies_once req m) \<Longrightarrow> (\<not> c \<Longrightarrow> replies_once req n) \<Longrightarrow> replies_once req (if c then m else n)"
  by simp

lemma respond_adds: "adds ch [Response (ch_seq ch) (req_seq req) (req_command req) b] (respond req b ch)"
  unfolding respond_def by (rule adds_emit) simp

lemma dap_err_adds: "adds ch [ErrorResponse (ch_seq ch) (req_seq req) (req_command req) m] (dap_err req m ch)"
  unfolding dap_err_def by (rule adds_emit) simp

lemma event_adds: "adds ch [Event (ch_seq ch) e r] (emit_event e r ch)"
  unfolding emit_event_def by (rule adds_emit) simp

lemma replies_respond [replying]: "replies_once req (act (respond req b))"
  using respond_adds by (force simp: replies_once_def act_def replies_def)

lemma replies_err [replying]: "replies_once req (act (dap_err req m))"
  using dap_err_adds by (force simp: replies_once_def act_def replies_def)

lemma replies_respond_event [replying]: "replies_once req (act (emit_event e r \<circ> respond req b))"
proof -
  have "adds ch ([Response (ch_seq ch) (req_seq req) (req_command req) b] @
      [Event (ch_seq (respond req b ch)) e r]) (emit_event e r (respond req b ch))" for ch :: "'a channel"
    by (rule adds_trans [OF respond_adds event_adds])
  then show ?thesis by (force simp: replies_once_def act_def replies_def)
qed

lemma replies_disconnected [replying]:
  "replies_once req (act (respond req b \<circ> (\<lambda>ch. ch\<lparr>ch_connected := c\<rparr>)))"
proof -
  have "adds ch ([] @ [Response (ch_seq ch) (req_seq req) (req_command req) b])
      (respond req b (ch\<lparr>ch_connected := c\<rparr>))" for ch :: "'a channel"
    using adds_trans [of ch "[]" "ch\<lparr>ch_connected := c\<rparr>", OF _ respond_adds] by (simp add: adds_Nil)
  then show ?thesis by (force simp: replies_once_def act_def replies_def)
qed

lemma silent_remove_each [replying]: "silent (remove_each br ips)"
  by (induction ips) (simp_all add: replying)

lemma add_each_adds: "adds ch [] (snd (add_each br i ls ch))"
proof (induction ls arbitrary: i ch)
  case (Cons l ls)
  obtain r ch' where a: "await (addBreakpoint br l) ch = (r, ch')" by (cases "await (addBreakpoint br l) ch")
  then have "adds ch [] ch'" by (rule silentD [OF silent_await])
  from adds_trans [OF this Cons.IH [of ch' "i + 1"]] a show ?case
    by (simp add: split_beta)
qed (simp add: adds_def)

lemma replies_set_lines [replying]:
  "replies_once req (\<lambda>ch. case add_each br i ls ch of (result, ch') \<Rightarrow> act (respond req (Breakpoints result)) ch')"
proof -
  have "adds ch ([] @ [Response (ch_seq ch') (req_seq req) (req_command req) b]) (respond req b ch')"
    if "add_each br i ls ch = (result, ch')" for ch ch' :: "'a channel" and result b
    using adds_trans [OF _ respond_adds] add_each_adds [of ch br i ls] that by fastforce
  then show ?thesis by (force simp: replies_once_def act_def replies_def split: prod.split)
qed

lemma run_command_replies: "replies_once req (run_command br req)"
  unfolding run_command_def Let_def handleSetBreakpoints_def handleStackTrace_def handleVariables_def
  by (intro replying)

lemma dispatch_replies:
  "\<exists>ms. adds ch ms (dispatch_dap br req ch) \<and> replies ms = [(req_seq req, req_command req)]"
proof (cases "run_command br req ch")
  case (Pair r ch')
  show ?thesis
  proof (cases r)
    case (Inl e)
    with Pair have "adds ch [] ch'" by (intro replies_once_Inl [OF run_command_replies]) simp
    from adds_trans [OF this dap_err_adds] Pair Inl show ?thesis
      by (intro exI [of _ "[] @ _"]) (auto simp: dispatch_dap_def replies_def)
  next
    case (Inr x)
    with Pair have "\<exists>ms. adds ch ms ch' \<and> replies ms = [(req_seq req, req_command req)]"
      by (intro replies_once_Inr [OF run_command_replies]) simp
    with Pair Inr show ?thesis by (simp add: dispatch_dap_def)
  qed
qed

text \<open>
  C37: whatever the bridge answers or throws, a session sends exactly one response for every
  request that parses, with the request's number and command, and in the order of the
  requests when each is handled before the next arrives; the messages it sends, events
  included, are numbered from 1 without a gap.
\<close>

theorem debug_replies:
  "replies (sent (send_all br reqs (opened b)))
     = map (\<lambda>r. (req_seq r, req_command r)) (List.map_filter (\<lambda>r. r) reqs) \<and>
   map message_seq (sent (send_all br reqs (opened b))) = [1 ..< ch_seq (send_all br reqs (opened b))]"
proof -
  have "\<exists>ms. adds ch ms (send_all br reqs ch) \<and>
      replies ms = map (\<lambda>r. (req_seq r, req_command r)) (List.map_filter (\<lambda>r. r) reqs)" for ch
  proof (induction reqs arbitrary: ch)
    case Nil
    show ?case by (auto intro: adds_Nil)
  next
    case (Cons r reqs)
    show ?case
    proof (cases r)
      case None
      with Cons [of ch] show ?thesis by (simp add: send_def)
    next
      case (Some req)
      obtain ms where ms: "adds ch ms (dispatch_dap br req ch)" "replies ms = [(req_seq req, req_command req)]"
        using dispatch_replies by blast
      obtain ns where ns: "adds (dispatch_dap br req ch) ns (send_all br reqs (dispatch_dap br req ch))"
          "replies ns = map (\<lambda>r. (req_seq r, req_command r)) (List.map_filter (\<lambda>r. r) reqs)"
        using Cons by blast
      from adds_trans [OF ms(1) ns(1)] ms(2) ns(2) Some show ?thesis
        by (intro exI [of _ "ms @ ns"]) (simp add: send_def)
    qed
  qed
  from this [of "opened b"] show ?thesis by (auto simp: adds_def opened_def)
qed

subsection \<open>Breakpoints\<close>

locale breakpoint_bridge =
  fixes br :: "'b IDebugBridge" and held :: "'b \<Rightarrow> int set" and settled :: "'b \<Rightarrow> bool"
  assumes get_held: "getBreakpoints br b = (Inr xs, b') \<Longrightarrow> b' = b \<and> set xs = held b"
    and add_held: "settled b \<Longrightarrow> addBreakpoint br ip b = (Inr u, b') \<Longrightarrow>
      settled b' \<and> held b' = insert ip (held b)"
    and remove_held: "settled b \<Longrightarrow> removeBreakpoint br ip b = (Inr u, b') \<Longrightarrow>
      settled b' \<and> held b' = held b - {ip}"
begin

lemma remove_each_held:
  "remove_each br ips ch = (Inr u, ch') \<Longrightarrow> settled (bridge_state ch) \<Longrightarrow>
    settled (bridge_state ch') \<and> held (bridge_state ch') = held (bridge_state ch) - set ips"
proof (induction ips arbitrary: ch)
  case (Cons ip ips)
  then obtain u' b where *: "removeBreakpoint br ip (bridge_state ch) = (Inr u', b)"
      "remove_each br ips (ch\<lparr>bridge_state := b\<rparr>) = (Inr u, ch')"
    by (auto simp: andThen_def await_def split: prod.splits sum.splits)
  with remove_held [OF Cons.prems(2) *(1)] Cons.IH [OF *(2)] show ?case by auto
qed (simp add: act_def)

lemma add_each_held:
  "add_each br i ls ch = (result, ch') \<Longrightarrow> settled (bridge_state ch) \<Longrightarrow> list_all verified result \<Longrightarrow>
    settled (bridge_state ch') \<and> held (bridge_state ch') = held (bridge_state ch) \<union> set ls \<and>
    map bp_line result = ls"
proof (induction ls arbitrary: i ch result)
  case (Cons l ls)
  obtain r b where r: "addBreakpoint br l (bridge_state ch) = (r, b)"
    by (cases "addBreakpoint br l (bridge_state ch)")
  obtain rs where rs: "add_each br (i + 1) ls (ch\<lparr>bridge_state := b\<rparr>) = (rs, ch')"
      and res: "verified (hd result) = (case r of Inr _ \<Rightarrow> True | Inl _ \<Rightarrow> False)" "tl result = rs"
        "bp_line (hd result) = l" "result \<noteq> []"
    using Cons.prems(1) r by (auto simp: await_def split: prod.splits)
  obtain x xs where result: "result = x # xs" using res(4) by (cases result) auto
  with res Cons.prems(3) have v: "(case r of Inr _ \<Rightarrow> True | Inl _ \<Rightarrow> False)" "list_all verified rs" by auto
  then obtain u where "r = Inr u" by (cases r) auto
  with add_held [OF Cons.prems(2)] r have "settled b" "held b = insert l (held (bridge_state ch))" by auto
  with Cons.IH [OF rs _ v(2)] result res show ?case by auto
qed simp

lemma set_breakpoints_held:
  assumes "settled (bridge_state ch)" "handleSetBreakpoints br req ch = (Inr u, ch')"
  shows "\<exists>result. last (sent ch') = Response (ch_seq ch' - 1) (req_seq req) (req_command req) (Breakpoints result) \<and>
     (list_all verified result \<longrightarrow> settled (bridge_state ch') \<and>
        held (bridge_state ch') = set (case req_lines req of Some ls \<Rightarrow> ls | None \<Rightarrow> []))"
proof -
  let ?ls = "case req_lines req of Some ls \<Rightarrow> ls | None \<Rightarrow> []"
  obtain xs b where g: "getBreakpoints br (bridge_state ch) = (Inr xs, b)"
    and s: "andThen (remove_each br xs) (\<lambda>_ ch. case add_each br 0 ?ls ch of
         (result, ch') \<Rightarrow> act (respond req (Breakpoints result)) ch') (ch\<lparr>bridge_state := b\<rparr>) = (Inr u, ch')"
    using assms(2) by (auto simp: handleSetBreakpoints_def andThen_def [of "await _"] await_def split: prod.splits sum.splits)
  from get_held [OF g] have b: "b = bridge_state ch" "set xs = held (bridge_state ch)" by auto
  from s obtain u1 ch1 where r: "remove_each br xs (ch\<lparr>bridge_state := b\<rparr>) = (Inr u1, ch1)"
    and a: "(case add_each br 0 ?ls ch1 of (result, ch') \<Rightarrow> act (respond req (Breakpoints result)) ch') = (Inr u, ch')"
    by (auto simp: andThen_def split: prod.splits sum.splits)
  from remove_each_held [OF r] assms(1) b have c1: "settled (bridge_state ch1)" "held (bridge_state ch1) = {}" by auto
  obtain result ch2 where ar: "add_each br 0 ?ls ch1 = (result, ch2)" by (cases "add_each br 0 ?ls ch1")
  with a have ch': "ch' = respond req (Breakpoints result) ch2" by (simp add: act_def)
  then have "last (sent ch') = Response (ch_seq ch' - 1) (req_seq req) (req_command req) (Breakpoints result)"
    "bridge_state ch' = bridge_state ch2"
    by (simp_all add: respond_def emit_def)
  with add_each_held [OF ar c1(1)] c1(2) show ?thesis by auto
qed

end

interpretation stub: breakpoint_bridge StubDebugBridge set "\<lambda>b. True"
  by unfold_locales (auto simp: StubDebugBridge_def)

text \<open>
  The adapter process, by its documented behaviour, clears its breakpoints on every
  \<open>setBreakpoints\<close> request and sets the ones listed. The client is settled when its list and
  the adapter's breakpoints agree.
\<close>

definition sets_breakpoints :: "'w adapter \<Rightarrow> ('w \<Rightarrow> int set) \<Rightarrow> bool" where
  "sets_breakpoints adapter lines_at \<longleftrightarrow>
     (\<forall>ls w r w'. adapter ''setBreakpoints'' ls w = (Inr r, w') \<longrightarrow> lines_at w' = set ls)"

lemma syncBreakpoints_sets:
  "sets_breakpoints adapter lines_at \<Longrightarrow> syncBreakpoints adapter b = (Inr u, b') \<Longrightarrow>
    bps b' = bps b \<and> lines_at (adapter_world b') = set (bps b)"
  unfolding sets_breakpoints_def
  by (auto simp: syncBreakpoints_def after_request_def real_request_def ok_call_def
      split: if_splits prod.splits sum.splits)

lemma real_breakpoint_bridge:
  assumes "sets_breakpoints adapter lines_at"
  shows "breakpoint_bridge (RealDapBridge adapter) (\<lambda>b. set (bps b)) (\<lambda>b. lines_at (adapter_world b) = set (bps b))"
proof
  fix b b' :: "'a real_bridge" and xs ip u
  show "getBreakpoints (RealDapBridge adapter) b = (Inr xs, b') \<Longrightarrow> b' = b \<and> set xs = set (bps b)"
    by (auto simp: RealDapBridge_def)
  show "lines_at (adapter_world b') = set (bps b') \<and> set (bps b') = insert ip (set (bps b))"
    if "addBreakpoint (RealDapBridge adapter) ip b = (Inr u, b')"
  proof -
    have "syncBreakpoints adapter (if ip \<in> set (bps b) then b else b\<lparr>bps := bps b @ [ip]\<rparr>) = (Inr u, b')"
      using that by (simp add: RealDapBridge_def)
    from syncBreakpoints_sets [OF assms this] show ?thesis
      by (cases "ip \<in> set (bps b)") auto
  qed
  show "lines_at (adapter_world b') = set (bps b') \<and> set (bps b') = set (bps b) - {ip}"
    if "removeBreakpoint (RealDapBridge adapter) ip b = (Inr u, b')"
  proof -
    have "syncBreakpoints adapter (b\<lparr>bps := filter (\<lambda>x. x \<noteq> ip) (bps b)\<rparr>) = (Inr u, b')"
      using that by (simp add: RealDapBridge_def)
    from syncBreakpoints_sets [OF assms this] show ?thesis by auto
  qed
qed

text \<open>
  When a \<open>setBreakpoints\<close> request to the adapter process is answered without an exception
  and every line is reported verified, the process holds exactly the requested lines as
  breakpoints, whichever it held before, and so does the client's own list.
\<close>

theorem debug_breakpoints_set:
  assumes "sets_breakpoints adapter lines_at"
    and "lines_at (adapter_world (bridge_state ch)) = set (bps (bridge_state ch))"
    and "handleSetBreakpoints (RealDapBridge adapter) req ch = (Inr u, ch')"
    and "last (sent ch') = Response n k c (Breakpoints result)" "list_all verified result"
  shows "lines_at (adapter_world (bridge_state ch')) = set (case req_lines req of Some ls \<Rightarrow> ls | None \<Rightarrow> []) \<and>
    set (bps (bridge_state ch')) = set (case req_lines req of Some ls \<Rightarrow> ls | None \<Rightarrow> [])"
  using breakpoint_bridge.set_breakpoints_held [OF real_breakpoint_bridge [OF assms(1)] assms(2,3)] assms(4,5)
  by auto

text \<open>An adapter that only keeps the lines it is given.\<close>

definition keeping :: "int list adapter" where
  "keeping c ls w = (Inr \<lparr>reply_variables = [], reply_frame_lines = []\<rparr>, if c = ''setBreakpoints'' then ls else w)"

definition running_channel :: "int list real_bridge channel" where
  "running_channel = opened \<lparr>running = True, real_seq = 1, bps = [7], real_connected = True, adapter_world = [7]\<rparr>"

lemma debug_breakpoints_set_witness:
  "set (adapter_world (bridge_state (snd (handleSetBreakpoints (RealDapBridge keeping)
      \<lparr>req_seq = 4, req_command = ''setBreakpoints'', req_lines = Some [3, 5]\<rparr> running_channel)))) = {3, 5}"
proof -
  let ?r = "\<lparr>req_seq = 4, req_command = ''setBreakpoints'', req_lines = Some [3, 5]\<rparr>"
  let ?h = "handleSetBreakpoints (RealDapBridge keeping) ?r running_channel"
  have k: "sets_breakpoints keeping set" by (simp add: sets_breakpoints_def keeping_def)
  have h: "fst ?h = Inr ()" "sent (snd ?h) = [Response 1 4 ''setBreakpoints'' (Breakpoints
      [\<lparr>bp_id = 1, verified = True, bp_line = 3, bp_message = None\<rparr>,
       \<lparr>bp_id = 2, verified = True, bp_line = 5, bp_message = None\<rparr>])]"
    by code_simp+
  have "?h = (Inr (), snd ?h)" using h(1) by (simp add: prod_eq_iff)
  from debug_breakpoints_set [OF k _ this] h(2) show ?thesis
    by (simp add: running_channel_def opened_def)
qed

end
