(* ===== verification/DebugViews.thy ===== *)
theory DebugViews
  imports JsPrelude
begin

text \<open>
  The views of the debugger (weftik-debug/src/browser: debug-panel-widget.ts, breakpoints-view.ts,
  variables-view.ts). They build HTML text and read it back through the browser, so escaping and \<open>parseInt\<close> are part of what they
  do. Layout is left out; what the browser makes of a text or of an attribute value is the HTML standard's, for
  the references that the views write.
\<close>

subsection \<open>Text in HTML\<close>

definition replace_char :: "char \<Rightarrow> string \<Rightarrow> string \<Rightarrow> string" where
  "replace_char c r s = concat (map (\<lambda>x. if x = c then r else [x]) s)"

definition esc :: "string \<Rightarrow> string" where
  "esc s = replace_char (CHR ''>'') ''&gt;'' (replace_char (CHR ''<'') ''&lt;'' (replace_char (CHR ''&'') ''&amp;'' s))"

text \<open>What the browser shows for a text with these references, and the value of an attribute between double quotes.\<close>

fun html_text :: "string \<Rightarrow> string" where
  "html_text [] = []"
| "html_text (c # s) =
     (if c = CHR ''&'' then
        (if starts_with ''amp;'' s then CHR ''&'' # html_text (drop 4 s)
         else if starts_with ''lt;'' s then CHR ''<'' # html_text (drop 3 s)
         else if starts_with ''gt;'' s then CHR ''>'' # html_text (drop 3 s)
         else c # html_text s)
      else c # html_text s)"

definition attribute_value :: "string \<Rightarrow> string" where
  "attribute_value s = html_text (takeWhile (\<lambda>c. c \<noteq> CHR 0x22) s)"

subsection \<open>Numbers\<close>

text \<open>\<open>parseInt(s, 10)\<close>: leading white space, a sign, the digits at the beginning; \<open>NaN\<close> is \<open>None\<close>.\<close>

definition parseInt :: "string \<Rightarrow> int option" where
  "parseInt s = (let t = dropWhile js_space s;
       neg = starts_with ''-'' t;
       r = (if neg \<or> starts_with ''+'' t then drop 1 t else t);
       ds = takeWhile digit_char r
     in if ds = [] then None else Some (if neg then - int (digits_value ds) else int (digits_value ds)))"

definition int_text :: "int \<Rightarrow> string" where
  "int_text n = (if n < 0 then ''-'' @ nat_to_dec (nat (- n)) else nat_to_dec (nat n))"

lemma parseInt_text: "parseInt (int_text n) = Some n"
proof -
  obtain d ds where d: "nat_to_dec (nat \<bar>n\<bar>) = d # ds" by (cases "nat_to_dec (nat \<bar>n\<bar>)") simp_all
  then have dig: "digit_char d" "\<forall>c \<in> set (d # ds). digit_char c" using nat_to_dec_digits [of _ "nat \<bar>n\<bar>"] by auto
  then have ne: "\<not> js_space d" "d \<noteq> CHR ''-''" "d \<noteq> CHR ''+''" by (auto simp: js_space_def digit_char_def)
  have tw: "takeWhile digit_char (d # ds) = d # ds" using dig(2) by simp
  have val: "digits_value (d # ds) = nat \<bar>n\<bar>" using d by (metis digits_value_dec)
  show ?thesis
  proof (cases "n < 0")
    case True
    with d have "int_text n = CHR ''-'' # d # ds" by (simp add: int_text_def)
    then have "parseInt (int_text n) = Some (- int (digits_value (d # ds)))"
      using tw by (simp add: parseInt_def js_space_def Let_def)
    then show ?thesis unfolding val using True by simp
  next
    case False
    with d have "int_text n = d # ds" by (simp add: int_text_def)
    then have "parseInt (int_text n) = Some (int (digits_value (d # ds)))"
      using tw ne by (simp add: parseInt_def Let_def)
    then show ?thesis unfolding val using False by simp
  qed
qed

subsection \<open>The debug panel\<close>

record debug_panel =
  db_socketPath :: string
  db_secret :: string
  db_connected :: bool
  db_status :: string
  db_registers :: "(string \<times> string) list"
  db_bpList :: "int list"

definition new_debug_panel :: debug_panel where
  "new_debug_panel = \<lparr>db_socketPath = ''/tmp/weftik-controller.sock'', db_secret = ''weftik-dev-secret'',
     db_connected = False, db_status = ''idle'', db_registers = [], db_bpList = []\<rparr>"

text \<open>The values of the two input boxes when the form is shown; the user may change them.\<close>

definition connect_form :: "debug_panel \<Rightarrow> string \<times> string" where
  "connect_form p = (attribute_value (esc (db_socketPath p) @ dq), attribute_value (esc (db_secret p) @ dq))"

datatype panel_event = Connect "string \<times> string \<Rightarrow> string \<times> string" | Pause | Resume | Step | Disconnect | AddBp string | RemoveBp int

text \<open>A button is there only in its state; removing reads the address back from the attribute of the button.\<close>

fun panel_step :: "panel_event \<Rightarrow> debug_panel \<Rightarrow> debug_panel" where
  "panel_step (Connect typed) p = (if db_connected p then p
     else p\<lparr>db_socketPath := fst (typed (connect_form p)), db_secret := snd (typed (connect_form p)),
            db_connected := True, db_status := ''connected (stub)''\<rparr>)"
| "panel_step Pause p = (if db_connected p then p\<lparr>db_status := ''paused''\<rparr> else p)"
| "panel_step Resume p = (if db_connected p then p\<lparr>db_status := ''running''\<rparr> else p)"
| "panel_step Step p = (if db_connected p then p\<lparr>db_status := ''stepped''\<rparr> else p)"
| "panel_step Disconnect p = (if db_connected p
     then p\<lparr>db_connected := False, db_status := ''disconnected'', db_registers := [], db_bpList := []\<rparr> else p)"
| "panel_step (AddBp input) p = (if \<not> db_connected p then p else (case parseInt input of
     None \<Rightarrow> p
   | Some ip \<Rightarrow> if ip \<in> set (db_bpList p) then p else p\<lparr>db_bpList := db_bpList p @ [ip]\<rparr>))"
| "panel_step (RemoveBp bp) p = (if \<not> db_connected p \<or> bp \<notin> set (db_bpList p) then p
     else p\<lparr>db_bpList := filter (\<lambda>b. Some b \<noteq> parseInt (attribute_value (int_text bp @ dq))) (db_bpList p)\<rparr>)"

definition panel_run :: "panel_event list \<Rightarrow> debug_panel \<Rightarrow> debug_panel" where
  "panel_run es p = fold panel_step es p"

subsection \<open>The list of breakpoints\<close>

record bp_entry =
  bp_ip :: int
  bp_line :: "int option"
  bp_verified :: bool

definition setBreakpoints :: "bp_entry list \<Rightarrow> bp_entry list \<Rightarrow> bp_entry list" where
  "setBreakpoints bps old = bps"

definition add_breakpoint :: "string \<Rightarrow> bp_entry list \<Rightarrow> bp_entry list" where
  "add_breakpoint input bps = (case parseInt input of
     None \<Rightarrow> bps
   | Some ip \<Rightarrow> if \<exists>b \<in> set bps. bp_ip b = ip then bps else bps @ [\<lparr>bp_ip = ip, bp_line = None, bp_verified = True\<rparr>])"

definition remove_breakpoint :: "int \<Rightarrow> bp_entry list \<Rightarrow> bp_entry list" where
  "remove_breakpoint bp bps = filter (\<lambda>b. Some (bp_ip b) \<noteq> parseInt (attribute_value (int_text bp @ dq))) bps"

subsection \<open>Registers\<close>

record variables_view =
  vv_registers :: "(string \<times> string) list"
  vv_loading :: bool

definition setRegisters :: "(string \<times> string) list \<Rightarrow> variables_view \<Rightarrow> variables_view" where
  "setRegisters regs v = v\<lparr>vv_registers := regs, vv_loading := False\<rparr>"

definition setLoading :: "bool \<Rightarrow> variables_view \<Rightarrow> variables_view" where
  "setLoading b v = v\<lparr>vv_loading := b\<rparr>"

definition vv_refresh :: "variables_view \<Rightarrow> variables_view" where
  "vv_refresh v = setRegisters (map (\<lambda>i. (''r'' @ nat_to_dec i, ''0x00000000'')) [0..<14]) v"

text \<open>The cells of the table as they are written.\<close>

definition register_cells :: "variables_view \<Rightarrow> (string \<times> string) list" where
  "register_cells v = (if vv_loading v then [] else map (\<lambda>(name, value). (esc name, esc value)) (vv_registers v))"

subsection \<open>What is shown and read back\<close>

definition esc_char :: "char \<Rightarrow> string" where
  "esc_char c = (if c = CHR ''&'' then ''&amp;'' else if c = CHR ''<'' then ''&lt;'' else if c = CHR ''>'' then ''&gt;'' else [c])"

lemma esc_Nil [simp]: "esc [] = []"
  by (simp add: esc_def replace_char_def)

lemma esc_Cons [simp]: "esc (c # s) = esc_char c @ esc s"
  by (simp add: esc_def replace_char_def esc_char_def)

lemma esc_plain: "CHR ''<'' \<notin> set (esc s)" "CHR ''>'' \<notin> set (esc s)"
  by (induction s) (auto simp: esc_char_def)

lemma html_text_esc: "html_text (esc s @ t) = s @ html_text t"
  by (induction s) (auto simp: esc_char_def)

lemma attribute_esc: "attribute_value (esc s @ CHR 0x22 # t) = takeWhile (\<lambda>c. c \<noteq> CHR 0x22) s"
proof -
  have "takeWhile (\<lambda>c. c \<noteq> CHR 0x22) (esc s @ CHR 0x22 # t) = esc (takeWhile (\<lambda>c. c \<noteq> CHR 0x22) s)"
    by (induction s) (auto simp: esc_char_def)
  then show ?thesis using html_text_esc [of "takeWhile (\<lambda>c. c \<noteq> CHR 0x22) s" "[]"] by (simp add: attribute_value_def)
qed

lemma int_attribute: "attribute_value (int_text n @ dq) = int_text n"
proof -
  have plain: "c \<noteq> CHR 0x22 \<and> c \<noteq> CHR ''&''" if "c \<in> set (int_text n)" for c
    using that nat_to_dec_digits [of c] by (auto simp: int_text_def digit_char_def split: if_splits)
  then have "takeWhile (\<lambda>c. c \<noteq> CHR 0x22) (int_text n @ dq) = int_text n"
    by (simp add: dq_def)
  moreover have "html_text s = s" if "\<forall>c \<in> set s. c \<noteq> CHR ''&''" for s using that by (induction s) auto
  ultimately show ?thesis using plain by (simp add: attribute_value_def)
qed

text \<open>
  Texts of a program are shown as they are and cannot become markup: for the names and values of registers the browser shows the
  original text and no tag is written; but between the quotes of an attribute only the part before the first double quote
  survives, so connecting again without a change keeps the socket path and the secret exactly when they contain none.
\<close>

theorem views_show_text:
  "(\<forall>(name, value) \<in> set (register_cells v). CHR ''<'' \<notin> set (name @ value) \<and> CHR ''>'' \<notin> set (name @ value))
    \<and> (\<not> vv_loading v \<longrightarrow> map (\<lambda>(name, value). (html_text name, html_text value)) (register_cells v) = vv_registers v)
    \<and> (\<not> db_connected p \<longrightarrow>
        (db_socketPath (panel_step (Connect id) p) = db_socketPath p \<longleftrightarrow> CHR 0x22 \<notin> set (db_socketPath p))
        \<and> (db_secret (panel_step (Connect id) p) = db_secret p \<longleftrightarrow> CHR 0x22 \<notin> set (db_secret p)))"
proof -
  have survives: "takeWhile (\<lambda>c. c \<noteq> CHR 0x22) s = s \<longleftrightarrow> CHR 0x22 \<notin> set s" for s :: string
    by (auto simp: takeWhile_eq_all_conv)
  have "map ((\<lambda>(name, value). (html_text name, html_text value)) \<circ> (\<lambda>(name, value). (esc name, esc value))) rs = rs" for rs
    using html_text_esc [of _ "[]"] by (induction rs) auto
  then show ?thesis
    using esc_plain by (auto simp: register_cells_def connect_form_def dq_def attribute_esc survives)
qed

lemma views_show_text_witness:
  "db_secret (panel_step (Connect id) (new_debug_panel\<lparr>db_secret := [CHR ''a'', CHR 0x22]\<rparr>)) \<noteq> [CHR ''a'', CHR 0x22]"
  using views_show_text [of "\<lparr>vv_registers = [], vv_loading = False\<rparr>" "new_debug_panel\<lparr>db_secret := [CHR ''a'', CHR 0x22]\<rparr>"]
  by (simp add: new_debug_panel_def)

definition panel_inv :: "debug_panel \<Rightarrow> bool" where
  "panel_inv p \<longleftrightarrow> distinct (db_bpList p) \<and> (\<not> db_connected p \<longrightarrow> db_bpList p = [] \<and> db_registers p = [])"

lemma panel_step_inv: "panel_inv p \<Longrightarrow> panel_inv (panel_step e p)"
  by (cases e) (auto simp: panel_inv_def split: option.split)

lemma panel_run_inv: "panel_inv p \<Longrightarrow> panel_inv (panel_run es p)"
  by (induction es arbitrary: p) (auto simp: panel_run_def panel_step_inv)

text \<open>
  In every session of the debug panel no address is listed twice and nothing is listed while disconnected; an address that is added is
  listed, and the button of a listed one removes exactly it, although the address goes through the text of the page.
\<close>

theorem debug_panel_session:
  "let p = panel_run es new_debug_panel in
     distinct (db_bpList p) \<and> (\<not> db_connected p \<longrightarrow> db_bpList p = [] \<and> db_registers p = [])
     \<and> (db_connected p \<longrightarrow> (\<forall>n. set (db_bpList (panel_step (AddBp (int_text n)) p)) = insert n (set (db_bpList p))))
     \<and> (\<forall>n. set (db_bpList (panel_step (RemoveBp n) p)) = set (db_bpList p) - {n})"
proof -
  have "panel_inv (panel_run es new_debug_panel)" by (rule panel_run_inv) (simp add: panel_inv_def new_debug_panel_def)
  then show ?thesis by (auto simp: Let_def panel_inv_def parseInt_text int_attribute)
qed

text \<open>
  The list of breakpoints behaves the same from any list: adding lists an address once, and removing takes
  away every entry of the address and nothing else.
\<close>

theorem breakpoints_listed:
  "bp_ip ` set (add_breakpoint (int_text n) bps) = insert n (bp_ip ` set bps)
    \<and> length (add_breakpoint (int_text n) bps) \<le> length bps + 1
    \<and> remove_breakpoint n bps = filter (\<lambda>b. bp_ip b \<noteq> n) bps
    \<and> (n \<notin> bp_ip ` set bps \<longrightarrow> remove_breakpoint n (add_breakpoint (int_text n) bps) = bps)"
proof -
  have "filter (\<lambda>b. bp_ip b \<noteq> n) bps = bps" if "n \<notin> bp_ip ` set bps" using that by (auto intro!: filter_True)
  then show ?thesis
    by (auto simp: add_breakpoint_def remove_breakpoint_def parseInt_text int_attribute image_iff)
qed

lemma breakpoints_listed_witness:
  "remove_breakpoint 42 (add_breakpoint (int_text 42) [\<lparr>bp_ip = 7, bp_line = None, bp_verified = False\<rparr>]) = [\<lparr>bp_ip = 7, bp_line = None, bp_verified = False\<rparr>]"
  using breakpoints_listed [of 42 "[\<lparr>bp_ip = 7, bp_line = None, bp_verified = False\<rparr>]"] by simp

end
