(* ===== verification/IlDiagnostics.thy ===== *)
theory IlDiagnostics
  imports FbdCompile
begin

text \<open>
  The line-by-line check of instruction list source (weftik-il-editor/src/browser/il-diagnostics.ts).
  A marker keeps its message, its line and where it ends; every marker is an error and starts in
  column 1.
\<close>

definition IL_MNEMONICS :: "string list" where
  "IL_MNEMONICS = [''LD'', ''LDN'', ''ST'', ''S'', ''R'',
    ''AND'', ''ANDN'', ''OR'', ''ORN'', ''XOR'', ''NOT'',
    ''ADD'', ''SUB'', ''MUL'', ''DIV'', ''MOD'',
    ''GT'', ''GE'', ''EQ'', ''NE'', ''LE'', ''LT'',
    ''JMP'', ''JMPC'', ''JMPCN'',
    ''CAL'', ''RET'',
    ''TON'', ''TOF'', ''TP'',
    ''CTU'', ''CTD'',
    ''R_TRIG'', ''F_TRIG'',
    ''SR'', ''RS'']"

record il_marker =
  il_message :: string
  il_lineNumber :: nat
  il_endColumn :: nat

text \<open>\<open>line.replace(/\(\*.*?\*\)/g, '')\<close>; the dot stops at a carriage return.\<close>

fun after_inline :: "string \<Rightarrow> string option" where
  "after_inline [] = None"
| "after_inline (c # s) =
     (if c = CHR ''*'' \<and> s \<noteq> [] \<and> hd s = CHR '')'' then Some (tl s)
      else if c = CHR 0x0D \<or> c = CHR 0x0A then None else after_inline s)"

lemma after_inline_length: "after_inline s = Some r \<Longrightarrow> length r < length s"
  by (induction s) (auto split: if_splits)

function strip_inline :: "string \<Rightarrow> string" where
  "strip_inline [] = []"
| "strip_inline (c # s) =
     (if c = CHR ''('' \<and> s \<noteq> [] \<and> hd s = CHR ''*'' then
        (case after_inline (tl s) of Some r \<Rightarrow> strip_inline r | None \<Rightarrow> c # strip_inline s)
      else c # strip_inline s)"
  by pat_completeness auto

termination
  by (relation "measure length") (auto dest!: after_inline_length)

text \<open>\<open>code.split(/\s+/)\<close>\<close>

function split_spaces :: "string \<Rightarrow> string list" where
  "split_spaces s = takeWhile (\<lambda>c. \<not> js_space c) s #
     (case dropWhile (\<lambda>c. \<not> js_space c) s of [] \<Rightarrow> [] | b # r \<Rightarrow> split_spaces (dropWhile js_space r))"
  by pat_completeness simp

termination
proof (relation "measure length")
  fix s b and r :: string
  assume "dropWhile (\<lambda>c. \<not> js_space c) s = b # r"
  then have "length r < length s" using length_dropWhile_le [of "\<lambda>c. \<not> js_space c" s] by simp
  then show "(dropWhile js_space r, s) \<in> measure length"
    using length_dropWhile_le [of js_space r] by simp
qed simp

declare split_spaces.simps [simp del]

text \<open>What is wrong with a line: the message of its marker.\<close>

definition noOperand :: "string list" where
  "noOperand = [''NOT'', ''RET'']"

definition line_error :: "string \<Rightarrow> string option" where
  "line_error rawLine =
     (let line = trim rawLine in
      if line = [] \<or> starts_with ''(*'' line then None
      else (let code = trim (strip_inline line) in
        if code = [] then None
        else (let parts = split_spaces code; mnemonic = toUpperCase (hd parts) in
          if ends_with '':'' mnemonic then
            (if length parts = 1 then None
             else (let nextMnemonic = toUpperCase (parts ! 1) in
               if nextMnemonic \<notin> set IL_MNEMONICS then Some (''Unknown IL instruction: '' @ nextMnemonic) else None))
          else if mnemonic \<notin> set IL_MNEMONICS then Some (''Unknown IL instruction: '' @ mnemonic)
          else if mnemonic \<notin> set noOperand \<and> length parts < 2 then
            Some (''Missing operand for instruction: '' @ mnemonic)
          else None)))"

definition marker_of :: "nat \<Rightarrow> string \<Rightarrow> il_marker list" where
  "marker_of i rawLine = (case line_error rawLine of None \<Rightarrow> []
     | Some m \<Rightarrow> [\<lparr>il_message = m, il_lineNumber = i + 1, il_endColumn = length rawLine + 1\<rparr>])"

definition validateIlSource :: "string \<Rightarrow> il_marker list" where
  "validateIlSource txt = concat (map_index marker_of (split_on (CHR 0x0A) txt))"

subsection \<open>Lines with an operand\<close>

lemma strip_inline_plain: "CHR ''('' \<notin> set a \<Longrightarrow> strip_inline (a @ s) = a @ strip_inline s"
  by (induction a) auto

lemma split_spaces_one: "\<forall>c \<in> set w. \<not> js_space c \<Longrightarrow> split_spaces w = [w]"
  by (subst split_spaces.simps) (simp add: takeWhile_eq_all_conv [THEN iffD2] dropWhile_eq_Nil_conv [THEN iffD2])

lemma split_spaces_word:
  "\<forall>c \<in> set w. \<not> js_space c \<Longrightarrow> js_space b \<Longrightarrow> split_spaces (w @ b # s) = w # split_spaces (dropWhile js_space s)"
  by (subst split_spaces.simps) (simp add: takeWhile_append2 dropWhile_append2)

lemma split_spaces_not_Nil [simp]: "split_spaces s \<noteq> []"
  by (subst split_spaces.simps) simp

lemma trim_starts:
  assumes "\<not> js_space c"
  shows "trim (c # s) = c # rev (dropWhile js_space (rev s))"
  using assms by (simp add: trim_def dropWhile_append dropWhile_eq_Nil_conv)

text \<open>Trimming a text that begins with a word and another non-space keeps the two.\<close>

lemma trim_keeps:
  assumes "\<not> js_space c" "\<not> js_space d"
  obtains t where "trim (c # a @ d # s) = c # a @ d # t"
proof -
  have "rev (dropWhile js_space (rev (a @ d # s))) = a @ d # rev (dropWhile js_space (rev s))"
    using assms(2) by (simp add: dropWhile_append dropWhile_eq_Nil_conv)
  with assms(1) show thesis by (intro that) (simp add: trim_starts)
qed

text \<open>A word that cannot be confused with white space or a comment.\<close>

definition plain_word :: "string \<Rightarrow> bool" where
  "plain_word w \<longleftrightarrow> w \<noteq> [] \<and> list_all (\<lambda>c. \<not> js_space c \<and> c \<noteq> CHR ''('') w"

definition gap :: "string \<Rightarrow> bool" where
  "gap s \<longleftrightarrow> s = '' '' \<or> s = ''  ''"

lemma mnemonic_ok:
  assumes "m \<in> set IL_MNEMONICS"
  shows "plain_word m \<and> toUpperCase m = m \<and> \<not> ends_with '':'' m"
proof -
  have "list_all (\<lambda>m. plain_word m \<and> toUpperCase m = m \<and> \<not> ends_with '':'' m) IL_MNEMONICS"
    by code_simp
  with assms show ?thesis by (simp add: list_all_iff)
qed

text \<open>A mnemonic, a gap and a word: no marker, whatever follows.\<close>

lemma instruction_line:
  assumes m: "m \<in> set IL_MNEMONICS" and g: "gap b" and d: "\<not> js_space d" "d \<noteq> CHR ''(''"
  shows "line_error (m @ b @ d # s) = None"
proof -
  note ok = mnemonic_ok [OF m]
  then have pl: "\<forall>x \<in> set m. \<not> js_space x" "CHR ''('' \<notin> set m" and up: "toUpperCase m = m"
    and col: "\<not> ends_with '':'' m" by (auto simp: plain_word_def list_all_iff)
  from ok obtain c a where ca: "m = c # a" by (cases m) (auto simp: plain_word_def)
  with pl have c: "\<not> js_space c" "c \<noteq> CHR ''(''" by auto
  from g have b: "\<forall>x \<in> set b. js_space x" "b \<noteq> []" "CHR ''('' \<notin> set b"
    by (auto simp: gap_def js_space_def)
  obtain t where line: "trim (m @ b @ d # s) = m @ b @ d # t"
    using trim_keeps [OF c(1) d(1), of "a @ b" s] ca by auto
  obtain u where strip: "strip_inline (m @ b @ d # t) = m @ b @ d # u"
    using strip_inline_plain [of "m @ b @ [d]" t] pl b d by auto
  obtain v where code: "trim (m @ b @ d # u) = m @ b @ d # v"
    using trim_keeps [OF c(1) d(1), of "a @ b" u] ca by auto
  have "dropWhile js_space (tl b @ d # v) = d # v"
    using g d(1) by (auto simp: gap_def js_space_def)
  then have "split_spaces (m @ b @ d # v) = m # split_spaces (d # v)"
    using split_spaces_word [OF pl(1), of "hd b" "tl b @ d # v"] b by (cases b) auto
  moreover have "length (m # split_spaces (d # v)) \<ge> 2" by (cases "split_spaces (d # v)") auto
  moreover have "\<not> starts_with ''(*'' (m @ b @ d # t)" "m @ b @ d # t \<noteq> []" using ca c by auto
  ultimately show ?thesis using m
    unfolding line_error_def line strip Let_def code up by (simp add: up col code Let_def)
qed

text \<open>A label alone on its line.\<close>

lemma label_line:
  assumes "plain_word w"
  shows "line_error (w @ '':'') = None"
proof -
  obtain c a where ca: "w = c # a" "\<not> js_space c" "c \<noteq> CHR ''(''" "CHR ''('' \<notin> set a"
    and pl: "\<forall>x \<in> set (w @ '':''). \<not> js_space x"
    using assms by (cases w) (auto simp: plain_word_def list_all_iff js_space_def)
  have "strip_inline (w @ '':'') = w @ '':''"
    using strip_inline_plain [of "w @ '':''" "[]"] ca by simp
  moreover have "trim (w @ '':'') = w @ '':''" by (rule trim_no_space [OF pl])
  moreover have "\<not> starts_with ''(*'' (w @ '':'')" using ca by simp
  moreover have "upper_char CHR '':'' = CHR '':''" by (simp add: upper_char_def)
  then have "ends_with '':'' (toUpperCase (w @ '':''))" by (simp add: toUpperCase_def ends_with_def)
  ultimately show ?thesis
    unfolding line_error_def Let_def by (simp add: split_spaces_one [OF pl] del: append_is_Nil_conv)
qed

end
