(* ===== verification/IlProps.thy ===== *)
theory IlProps
  imports IlDiagnostics FbdCanvas
begin

text \<open>
  The properties of the instruction list check, and what it says of the instruction lists that the
  function block compiler writes.
\<close>

subsection \<open>Line by line\<close>

lemma split_on_append: "split_on c (a @ c # b) = split_on c a @ split_on c b"
  by (induction a) (auto split: list.split simp: split_on_not_Nil [symmetric])

lemma map_index_append:
  "map_index f (xs @ ys) = map_index f xs @ map_index (\<lambda>i. f (length xs + i)) ys"
  by (rule nth_equalityI) (auto simp: nth_append)

definition shift_marker :: "nat \<Rightarrow> il_marker \<Rightarrow> il_marker" where
  "shift_marker n m = m\<lparr>il_lineNumber := n + il_lineNumber m\<rparr>"

lemma marker_of_shift: "marker_of (n + i) = (\<lambda>l. map (shift_marker n) (marker_of i l))"
  by (simp add: fun_eq_iff marker_of_def shift_marker_def split: option.split)

text \<open>
  The check works line by line: the markers of two texts one below the other are those of the first
  and, moved down by its number of lines, those of the second; every marker names a line of the text and
  spans it, no line has two, and they come in the order of the lines.
\<close>

theorem il_check_by_lines:
  "validateIlSource (a @ newline @ b)
     = validateIlSource a @ map (shift_marker (length (split_on (CHR 0x0A) a))) (validateIlSource b)
   \<and> sorted_wrt (<) (map il_lineNumber (validateIlSource a))
   \<and> (\<forall>m \<in> set (validateIlSource a). \<exists>i < length (split_on (CHR 0x0A) a). il_lineNumber m = i + 1
        \<and> il_endColumn m = length (split_on (CHR 0x0A) a ! i) + 1
        \<and> line_error (split_on (CHR 0x0A) a ! i) = Some (il_message m))"
proof -
  have markers: "sorted_wrt (<) (map il_lineNumber (concat (map_index (\<lambda>i. marker_of (n + i)) ls)))
      \<and> (\<forall>m \<in> set (concat (map_index (\<lambda>i. marker_of (n + i)) ls)). \<exists>i < length ls. il_lineNumber m = n + i + 1
        \<and> il_endColumn m = length (ls ! i) + 1 \<and> line_error (ls ! i) = Some (il_message m))" for n ls
  proof (induction ls rule: rev_induct)
    case (snoc l ls)
    then show ?case
      by (auto simp: map_index_append marker_of_def sorted_wrt_append nth_append less_Suc_eq map_index_def [of _ "[l]"]
          split: option.split) fastforce+
  qed (simp add: map_index_def)
  have "validateIlSource (a @ newline @ b)
     = validateIlSource a @ map (shift_marker (length (split_on (CHR 0x0A) a))) (validateIlSource b)"
    by (simp add: validateIlSource_def newline_def split_on_append map_index_append marker_of_shift map_concat map_map_index comp_def)
  with markers [of 0 "split_on (CHR 0x0A) a"] show ?thesis by (simp add: validateIlSource_def)
qed

subsection \<open>Compiled diagrams\<close>

definition plain_diagram :: "fbd_graph \<times> nat \<Rightarrow> bool" where
  "plain_diagram st \<longleftrightarrow> diagram_ok st \<and> (\<forall>n \<in> set (fnodes (fst st)). plain_word (fnid n)
     \<and> (case fdata n of GateNode t i k \<Rightarrow> True | FunctionBlockNode f i k \<Rightarrow> plain_word f))"

definition plain_tool :: "fbd_tool \<Rightarrow> bool" where
  "plain_tool t = (case t of GateTool g \<Rightarrow> True | FbdFbTool f \<Rightarrow> plain_word f)"

lemma plain_word_append: "plain_word a \<Longrightarrow> plain_word (a @ b) \<longleftrightarrow> list_all (\<lambda>c. \<not> js_space c \<and> c \<noteq> CHR ''('') b"
  by (simp add: plain_word_def)

lemma plain_dec: "plain_word (nat_to_dec k)"
proof -
  have "\<not> js_space c \<and> c \<noteq> CHR ''(''" if "digit_char c" for c
    using that by (auto simp: digit_char_def js_space_def)
  with nat_to_dec_digits nat_to_dec_not_Nil [of k] show ?thesis by (auto simp: plain_word_def list_all_iff)
qed

lemma plain_ids: "plain_word (fst (fbd_generateId ''gate'' k))" "plain_word (fst (fbd_generateId ''fb'' k))"
  using plain_dec [of "Suc k"]
  by (simp_all add: fbd_generateId_def fbd_mk_id_def plain_word_def js_space_def)

lemma plain_pins:
  assumes "canonical_pins n" "p \<in> set (getInputPorts n) \<union> set (getOutputPorts n)"
  shows "plain_word (pname p)"
proof -
  have names: "\<forall>w \<in> side_inputs \<union> side_outputs. plain_word w"
    by (simp add: side_inputs_def side_outputs_def input_names_def output_names_def REGISTRY_def plain_word_def js_space_def)
  have "pname p \<in> set (in_names n) \<union> set (out_names n)" using assms(2) by (auto simp: in_names_def out_names_def)
  with pin_sides [OF assms(1)] names show ?thesis by blast
qed

lemma plain_safe:
  assumes "safe_diagram m"
    and "\<And>g k g' k' n. m g k = (Inr g', k') \<Longrightarrow> n \<in> set (fnodes g') \<Longrightarrow>
      (\<exists>n' \<in> set (fnodes g). fnid n' = fnid n \<and> fdata n' = fdata n)
      \<or> plain_word (fnid n) \<and> (case fdata n of GateNode t i k \<Rightarrow> True | FunctionBlockNode f i k \<Rightarrow> plain_word f)"
  shows "safe_for plain_diagram (\<le>) m"
proof (rule safe_forI)
  fix g k r k' assume "plain_diagram (g, k)" "m g k = (r, k')"
  with assms(1) show "k \<le> k'" unfolding plain_diagram_def by (blast dest: safe_forD(1))
next
  fix g k g' k'
  assume g: "plain_diagram (g, k)" and m: "m g k = (Inr g', k')"
  then have "diagram_ok (g', k')" using assms(1) unfolding plain_diagram_def by (blast dest: safe_forD(2))
  moreover have "plain_word (fnid n) \<and> (case fdata n of GateNode t i k \<Rightarrow> True | FunctionBlockNode f i k \<Rightarrow> plain_word f)"
    if "n \<in> set (fnodes g')" for n
    using assms(2) [OF m that] g unfolding plain_diagram_def by fastforce
  ultimately show "plain_diagram (g', k')" by (simp add: plain_diagram_def)
qed

interpretation plain_diagrams: diagram_session plain_diagram plain_tool
proof
  show "plain_diagram (g, k) \<Longrightarrow> k \<le> k' \<Longrightarrow> plain_diagram (g, k')" for g k k'
    unfolding plain_diagram_def using fbd_ui.good_mono by auto
  show "plain_tool t \<Longrightarrow> safe_for plain_diagram (\<le>) (create_mutation t p)" for t p
    using plain_ids
    by (intro plain_safe safe_create)
      (auto simp: plain_tool_def create_mutation_def createGate_def createFunctionBlock_def fbd_createGate_def
        createFbWithPins_def fbd_createFB_def Let_def fbd_generateId_def split: fbd_tool.splits prod.splits)
  show "safe_for plain_diagram (\<le>) (\<lambda>g. fbd_deleteElement g i)" for i
    by (intro plain_safe safe_diagram_handler) (auto simp: fbd_deleteElement_def Let_def split: if_splits)
  show "safe_for plain_diagram (\<le>) (\<lambda>g. connectPins g q)" for q
    by (intro plain_safe safe_diagram_handler)
      (auto simp: connectPins_def Let_def split: sum.splits option.splits prod.splits if_splits)
  show "safe_for plain_diagram (\<le>) (\<lambda>g. disconnectPin g i port)" for i port
    by (intro plain_safe safe_diagram_handler) (auto simp: disconnectPin_def Let_def split: if_splits)
  show "safe_for plain_diagram (\<le>) (\<lambda>g. moveElement g i p)" for i p
    by (intro plain_safe safe_diagram_handler)
      (fastforce simp: moveElement_def set_fnode_def dest!: set_update_subset_insert [THEN subsetD] findIndex_SomeD
        split: if_splits option.splits)
qed

text \<open>The lines the compiler writes.\<close>

fun written :: "il_line \<Rightarrow> bool" where
  "written (IlLd x c) = (plain_word x \<and> CHR 0x0A \<notin> set c)"
| "written (IlLdn x c) = (plain_word x \<and> CHR 0x0A \<notin> set c)"
| "written (IlCal f ps c) = (plain_word f \<and> list_all plain_word ps \<and> CHR 0x0A \<notin> set c)"
| "written (IlAnd x) = plain_word x"
| "written (IlOr x) = plain_word x"
| "written (IlXor x) = plain_word x"
| "written (IlJmpc x) = plain_word x"
| "written (IlJmp x) = plain_word x"
| "written (IlLabel x) = plain_word x"
| "written (IlSt x) = plain_word x"

lemma plain_word_Cons: "plain_word w \<Longrightarrow> \<exists>d r. w = d # r \<and> \<not> js_space d \<and> d \<noteq> CHR ''('' \<and> CHR 0x0A \<notin> set w"
  by (cases w) (auto simp: plain_word_def js_space_def list_all_iff)

lemma operand_line:
  assumes "m \<in> set IL_MNEMONICS" "gap b" "plain_word w"
  shows "line_error (m @ b @ w @ s) = None"
  using plain_word_Cons [OF assms(3)] instruction_line [OF assms(1,2)] by auto

lemma written_line: "written l \<Longrightarrow> line_error (il_text l) = None \<and> CHR 0x0A \<notin> set (il_text l)"
proof (induction l rule: written.induct)
  case (3 f ps c)
  have "set (join_with '', '' ps) \<subseteq> set '', '' \<union> (\<Union>p \<in> set ps. set p)"
    by (induction "'', ''" ps rule: join_with.induct) auto
  with 3 have "CHR 0x0A \<notin> set (join_with '', '' ps)" by (auto simp: list_all_iff dest!: plain_word_Cons)
  with 3 operand_line [of "''CAL''" "'' ''" f "''('' @ join_with '', '' ps @ '')'' @ c"] show ?case
    by (auto simp: IL_MNEMONICS_def gap_def dest!: plain_word_Cons)
next
  case (9 x)
  then show ?case using label_line [of x] by (auto dest!: plain_word_Cons)
qed (use operand_line [of "''LD''" "''  ''"] operand_line [of "''LDN''" "'' ''"] operand_line [of "''AND''" "'' ''" _ "[]"]
    operand_line [of "''OR''" "''  ''" _ "[]"] operand_line [of "''XOR''" "'' ''" _ "[]"] operand_line [of "''JMPC''" "'' ''" _ "[]"]
    operand_line [of "''JMP''" "''  ''" _ "[]"] operand_line [of "''ST''" "''  ''" _ "[]"] in
    \<open>auto simp: IL_MNEMONICS_def gap_def dest!: plain_word_Cons\<close>)

lemma plain_label:
  assumes g: "plain_diagram (g, k)" and l: "map_of (wireLabels g) i = Some l"
  shows "plain_word l"
proof -
  have "plain_word (wire_label g j e)" for j e
  proof (cases "Option.bind (nodeById g (fsrc e)) (\<lambda>n. findPin n (fsrcPort e))")
    case None
    then show ?thesis using plain_dec [of j] by (simp add: wire_label_def plain_word_def js_space_def)
  next
    case (Some p)
    have "distinct (fnode_ids g)" using g by (simp add: plain_diagram_def diagram_ok_def fbd_inv_def Let_def)
    with Some obtain n where n: "n \<in> set (fnodes g)" "findPin n (fsrcPort e) = Some p"
      by (auto simp: bind_eq_Some_conv nodeById_eq_find dest: find_SomeD)
    then have "canonical_pins n" "p \<in> set (getInputPorts n) \<union> set (getOutputPorts n)"
      using g by (auto simp: plain_diagram_def diagram_ok_def fbd_inv_def Let_def findPin_def dest!: find_SomeD)
    from plain_pins [OF this] Some plain_dec [of j] show ?thesis
      by (simp add: wire_label_def plain_word_def js_space_def)
  qed
  moreover have "map_of (foldl (\<lambda>m (k, e). js_set (feid e) (wire_label g k e) m) [] es) i = Some l
      \<Longrightarrow> \<exists>j e. l = wire_label g j e" for es
    by (induction es rule: rev_induct) (auto simp: map_of_js_set split: prod.splits if_splits)
  ultimately show ?thesis using l unfolding wireLabels_def by blast
qed

lemma plain_label_or:
  assumes "plain_diagram (g, k)" "plain_word d"
  shows "plain_word (label_or (wireLabels g) e d)"
  using assms plain_label [OF assms(1)] by (auto simp: label_or_def split: option.split)

lemma plain_value: "list_all plain_word vs \<Longrightarrow> plain_word (value_at vs i)"
proof -
  assume vs: "list_all plain_word vs"
  have "plain_word ''undefined''" by (simp add: plain_word_def js_space_def)
  with vs show ?thesis by (simp add: value_at_def list_all_length)
qed

lemma written_gate:
  assumes i: "plain_word i" and vs: "list_all plain_word vs"
  shows "list_all written (gate_lines t i vs)"
proof -
  have c: "CHR 0x0A \<notin> set (il_comment w i)" if "CHR 0x0A \<notin> set w" for w
    using that plain_word_Cons [OF i] by (auto simp: il_comment_def)
  have tl: "list_all plain_word (tl vs)" using vs by (cases vs) simp_all
  show ?thesis using tl plain_value [OF vs] i
    by (cases t) (auto simp: gate_lines_def c mux_label_def list.pred_map comp_def list_all_iff plain_word_append,
      auto simp: plain_word_def list_all_iff js_space_def)
qed

lemma written_node:
  assumes g: "plain_diagram (g, k)" and n: "n \<in> set (fnodes g)"
  shows "list_all written (fst (emit_node g n))"
proof -
  have i: "plain_word (fnid n)" and t: "case fdata n of GateNode t i k \<Rightarrow> True | FunctionBlockNode f i k \<Rightarrow> plain_word f"
    and can: "canonical_pins n"
    using g n by (auto simp: plain_diagram_def diagram_ok_def fbd_inv_def Let_def)
  have ins: "plain_word (input_value g (wireLabels g) d (fnid n) p)" if "plain_word d" for d p
    unfolding input_value_def by (rule plain_label_or [OF g that])
  have const: "plain_word ''FALSE''" "plain_word ''0''" by (simp_all add: plain_word_def js_space_def)
  have outs: "plain_word (pname p)" if "p \<in> set (getInputPorts n) \<union> set (getOutputPorts n)" for p
    using plain_pins [OF can that] .
  show ?thesis
  proof (cases "fdata n")
    case (GateNode t a b)
    have "plain_word (''gate_out_'' @ fnid n)" using i by (simp add: plain_word_def js_space_def)
    then have "plain_word (gate_out_label g (wireLabels g) (fnid n))"
      unfolding gate_out_label_def by (rule plain_label_or [OF g])
    moreover have "list_all plain_word (map (input_value g (wireLabels g) ''FALSE'' (fnid n)) a)"
      using ins [OF const(1)] by (simp add: list_all_iff)
    ultimately show ?thesis using written_gate [OF i]
      by (simp add: emit_node_def GateNode emitGateNode_def)
  next
    case (FunctionBlockNode f a b)
    have "plain_word (pname p @ '':='' @ input_value g (wireLabels g) ''0'' (fnid n) p)" if "p \<in> set a" for p
      using outs [of p] that ins [OF const(2), of p] FunctionBlockNode
      by (simp add: getInputPorts_def plain_word_def js_space_def)
    moreover have "plain_word (fb_out_label g (wireLabels g) (fnid n) p)" if "p \<in> set b" for p
      unfolding fb_out_label_def using outs [of p] that i FunctionBlockNode
      by (intro plain_label_or [OF g]) (simp add: getOutputPorts_def plain_word_def js_space_def)
    moreover have "CHR 0x0A \<notin> set (il_comment ''FB'' (fnid n))"
      using plain_word_Cons [OF i] by (auto simp: il_comment_def)
    ultimately show ?thesis using t
      by (simp add: emit_node_def FunctionBlockNode emitFbNode_def list_all_iff)
  qed
qed

lemma compiled_unmarked:
  assumes g: "plain_diagram (g, k)"
  shows "validateIlSource (ilText (convertGraphToIl g)) = []"
proof -
  have "fbd_inv (g, k)" using g by (simp add: plain_diagram_def diagram_ok_def)
  then have "set (topo_sort g) \<subseteq> set (fnodes g)" by (intro topo_sort_order) (rule fbd_inv_wf)
  then have "\<forall>l \<in> set (il_lines g). written l"
    using written_node [OF g] by (fastforce simp: il_lines_def list_all_iff)
  then have ok: "line_error t = None" "CHR 0x0A \<notin> set t" if "t \<in> set (map il_text (il_lines g))" for t
    using that written_line by auto
  have il: "ilText (convertGraphToIl g) = join_with [CHR 0x0A] (map il_text (il_lines g))"
    by (simp add: convertGraphToIl_def newline_def)
  have none: "concat (map_index marker_of ls) = []" if "\<forall>l \<in> set ls. line_error l = None" for ls
    using that by (auto simp: map_index_def marker_of_def in_set_enumerate_eq)
  show ?thesis
  proof (cases "il_lines g = []")
    case True
    then show ?thesis unfolding validateIlSource_def il by (intro none) (simp add: line_error_def trim_def)
  next
    case False
    then have "split_on (CHR 0x0A) (ilText (convertGraphToIl g)) = map il_text (il_lines g)"
      unfolding il using ok(2) by (intro split_on_join) auto
    then show ?thesis unfolding validateIlSource_def using ok(1) by (intro none) simp
  qed
qed

text \<open>
  C18: the instruction list compiled from a diagram passes the editor's check: whatever the user draws,
  starting from a diagram whose ids and block types are plain words (those the editor makes are) and using
  the tools of the palette, the compiled text has no marker.
\<close>

theorem fbd_text_unmarked:
  assumes "diagram_ok (g, k)"
    and "\<forall>n \<in> set (fnodes g). plain_word (fnid n)
      \<and> (case fdata n of GateNode t i k \<Rightarrow> True | FunctionBlockNode f i k \<Rightarrow> plain_word f)"
    and "\<forall>f. FPickTool (FbdFbTool f) \<in> set es \<longrightarrow> f \<in> set FBD_FB_TYPES"
    and c: "c = fbd_canvas_run es (open_fbd_canvas g k)"
  shows "validateIlSource (ilText (convertGraphToIl (fc_graph c))) = []"
proof -
  have "\<forall>f \<in> set FBD_FB_TYPES. plain_word f"
    by (simp add: FBD_FB_TYPES_def plain_word_def js_space_def)
  with assms(3) have "list_all (admitted plain_tool) es"
    by (auto simp: list_all_iff admitted_def plain_tool_def split: fbd_event.split fbd_tool.split)
  moreover have "plain_diagram (g, k)" using assms(1,2) by (simp add: plain_diagram_def)
  ultimately have "canvas_within plain_diagram plain_tool c"
    unfolding c by (intro plain_diagrams.run_within plain_diagrams.open_within)
  then have "plain_diagram (fc_graph c, fc_gen c)"
    unfolding canvas_within_def by (blast elim: plain_diagrams.keptE)
  then show ?thesis by (rule compiled_unmarked)
qed

lemma fbd_text_unmarked_witness:
  "validateIlSource (ilText (convertGraphToIl (fc_graph (fbd_canvas_run
     [FPickTool (FbdFbTool ''TON''), FPaneClick origin, FPickTool (GateTool MUX_gate), FPaneClick origin]
     (open_fbd_canvas (fst (createFbdGraph None 0)) 1))))) = []"
proof (rule fbd_text_unmarked [OF _ _ _ refl])
  have "createFbdGraph None 0 = (fst (createFbdGraph None 0), 1)"
    by (simp add: createFbdGraph_def fbd_generateId_def)
  from createFbdGraph_inv [OF this] show "diagram_ok (fst (createFbdGraph None 0), 1)"
    by (simp add: diagram_ok_def on_grid_def createFbdGraph_def fbd_generateId_def)
qed (simp_all add: createFbdGraph_def fbd_generateId_def FBD_FB_TYPES_def)

text \<open>
  A line that begins with a comment is not checked: whatever follows the comment has no marker, and
  inside a comment of several lines every line is checked as an instruction.
\<close>

theorem il_comment_lines:
  assumes w: "plain_word w" "toUpperCase w \<notin> set IL_MNEMONICS" "\<not> ends_with '':'' (toUpperCase w)"
  shows "validateIlSource (''(* note *) '' @ w) = []
    \<and> validateIlSource (''(* first'' @ newline @ w @ newline @ ''*)'')
      = [\<lparr>il_message = ''Unknown IL instruction: '' @ toUpperCase w, il_lineNumber = 2, il_endColumn = length w + 1\<rparr>,
         \<lparr>il_message = ''Unknown IL instruction: *)'', il_lineNumber = 3, il_endColumn = 3\<rparr>]"
proof -
  have pl: "\<forall>c \<in> set w. \<not> js_space c" "CHR ''('' \<notin> set w" "w \<noteq> []" "CHR 0x0A \<notin> set w"
    using w(1) by (auto simp: plain_word_def list_all_iff js_space_def)
  have word: "line_error w = Some (''Unknown IL instruction: '' @ toUpperCase w)"
  proof -
    have "strip_inline w = w" using strip_inline_plain [OF pl(2), of "[]"] by simp
    moreover have "\<not> starts_with ''(*'' w" using pl(2,3) by (cases w) auto
    ultimately show ?thesis using w(2,3) pl
      by (simp add: line_error_def trim_no_space [OF pl(1)] split_spaces_one [OF pl(1)] Let_def)
  qed
  have close: "line_error ''*)'' = Some ''Unknown IL instruction: *)''" by code_simp
  have comment: "line_error (CHR ''('' # CHR ''*'' # t) = None" for t
  proof -
    obtain u where "trim (CHR ''('' # [] @ CHR ''*'' # t) = CHR ''('' # [] @ CHR ''*'' # u"
      by (rule trim_keeps [of "CHR ''(''" "CHR ''*''" "[]" t]) (simp_all add: js_space_def)
    then show ?thesis by (simp add: line_error_def)
  qed
  have split: "split_on (CHR 0x0A) (''(* first'' @ newline @ w @ newline @ ''*)'') = [''(* first'', w, ''*)'']"
    "split_on (CHR 0x0A) (''(* note *) '' @ w) = [''(* note *) '' @ w]"
    using pl(4) split_on_append [of "CHR 0x0A" "''(* first''" "w @ CHR 0x0A # ''*)''"] split_on_append [of "CHR 0x0A" w "''*)''"]
      split_on_plain [of "CHR 0x0A" w] split_on_plain [of "CHR 0x0A" "''(* note *) '' @ w"]
    by (auto simp: newline_def)
  show ?thesis
    unfolding validateIlSource_def split by (simp add: map_index_def marker_of_def word close comment)
qed

lemma il_comment_lines_witness:
  "length (validateIlSource (''(* first'' @ newline @ ''second'' @ newline @ ''*)'')) = 2"
proof -
  have "plain_word ''second'' \<and> toUpperCase ''second'' \<notin> set IL_MNEMONICS \<and> \<not> ends_with '':'' (toUpperCase ''second'')"
    by code_simp
  then show ?thesis using il_comment_lines [of "''second''"] by simp
qed

end
