(* ===== verification/CompileWorker.thy ===== *)
theory CompileWorker
  imports Json
begin

text \<open>
  Compilation of a ladder document in a worker thread (weftik-ld-editor/src/backend: compile-bridge.ts,
  compile-worker.ts): what the worker posts back, and how the promise of each call is settled by the
  events of its worker. The events of several workers come in any order.
\<close>

subsection \<open>The worker\<close>

record worker_result =
  wr_success :: "json option"
  wr_programJson :: json
  wr_diagnostics :: json

definition worker_failure :: "string \<Rightarrow> worker_result" where
  "worker_failure msg = \<lparr>wr_success = Some (JBool False), wr_programJson = JStr [],
     wr_diagnostics = JArr [JObj [(''severity'', JStr ''error''), (''message'', JStr msg), (''code'', JStr ''COMPILE_ERROR'')]]\<rparr>"

text \<open>What \<open>main\<close> posts; the call of the bridge returns a value or throws (also when the bridge cannot be loaded).\<close>

definition worker_main :: "(string \<Rightarrow> string + json) \<Rightarrow> string \<Rightarrow> worker_result" where
  "worker_main compileLd graphJson =
     (case compileLd graphJson of
        Inl msg \<Rightarrow> worker_failure msg
      | Inr result \<Rightarrow>
          (case (get_prop result ''success'', get_prop result ''programJson'', get_prop result ''diagnostics'') of
             (Inr s, Inr p, Inr d) \<Rightarrow> \<lparr>wr_success = s, wr_programJson = nullish_or p (JStr []), wr_diagnostics = nullish_or d (JArr [])\<rparr>
           | (Inl msg, _, _) \<Rightarrow> worker_failure msg
           | (_, Inl msg, _) \<Rightarrow> worker_failure msg
           | (_, _, Inl msg) \<Rightarrow> worker_failure msg))"

subsection \<open>The promise of a call\<close>

datatype promise = Pending | Resolved worker_result | Rejected string

datatype worker_event = WMessage worker_result | WError string | WExit int

record compile_call =
  cc_promise :: promise
  cc_terminated :: bool

definition new_call :: compile_call where
  "new_call = \<lparr>cc_promise = Pending, cc_terminated = False\<rparr>"

text \<open>A settled promise ignores further calls of \<open>resolve\<close> and \<open>reject\<close>.\<close>

definition settle_with :: "promise \<Rightarrow> compile_call \<Rightarrow> compile_call" where
  "settle_with p c = (if cc_promise c = Pending then c\<lparr>cc_promise := p\<rparr> else c)"

definition exit_msg :: "(int \<Rightarrow> string) \<Rightarrow> int \<Rightarrow> string" where
  "exit_msg num code = ''Compile worker exited with code '' @ num code"

fun on_worker :: "(int \<Rightarrow> string) \<Rightarrow> worker_event \<Rightarrow> compile_call \<Rightarrow> compile_call" where
  "on_worker num (WMessage r) c = (settle_with (Resolved r) c)\<lparr>cc_terminated := True\<rparr>"
| "on_worker num (WError e) c = settle_with (Rejected e) c"
| "on_worker num (WExit code) c = (if code \<noteq> 0 then settle_with (Rejected (exit_msg num code)) c else c)"

text \<open>The calls in the order they were made; an event comes with the number of its call.\<close>

definition calls_step :: "(int \<Rightarrow> string) \<Rightarrow> nat \<times> worker_event \<Rightarrow> compile_call list \<Rightarrow> compile_call list" where
  "calls_step num ev cs = (if fst ev < length cs then cs[fst ev := on_worker num (snd ev) (cs ! fst ev)] else cs)"

definition calls_run :: "(int \<Rightarrow> string) \<Rightarrow> (nat \<times> worker_event) list \<Rightarrow> compile_call list \<Rightarrow> compile_call list" where
  "calls_run num es cs = fold (calls_step num) es cs"

text \<open>
  What a worker thread does (Node's documentation): it may report a message, then it exits, with
  code 1 when it was terminated; an uncaught error is reported before the exit. \<open>main\<close> catches
  what the bridge throws, so that without a message the worker has crashed.
\<close>

inductive worker_run :: "worker_result option \<Rightarrow> worker_event list \<Rightarrow> bool" where
  answers: "worker_run (Some r) [WMessage r, WExit code]"
| fails: "worker_run None [WError e, WExit 1]"
| crashes: "code \<noteq> 0 \<Longrightarrow> worker_run None [WExit code]"

code_pred worker_run .

inductive_cases worker_runE: "worker_run out es"

subsection \<open>Every call is settled\<close>

definition events_of :: "nat \<Rightarrow> (nat \<times> worker_event) list \<Rightarrow> worker_event list" where
  "events_of i es = map snd (filter (\<lambda>e. fst e = i) es)"

lemma calls_run_nth:
  "i < length cs \<Longrightarrow> calls_run num es cs ! i = fold (on_worker num) (events_of i es) (cs ! i)"
proof (induction es arbitrary: cs)
  case (Cons e es)
  then have "i < length (calls_step num e cs)" by (simp add: calls_step_def)
  from Cons.IH [OF this] show ?case
    using Cons.prems by (auto simp: calls_run_def calls_step_def events_of_def)
qed (simp add: calls_run_def events_of_def)

text \<open>
  C30: every compilation in a worker comes to an end, whatever the order of the events of several workers: as
  soon as its worker has exited, the promise of a call is resolved with what its own worker posted, or rejected
  if the worker failed; a call whose worker has not reported anything is still pending, and nothing that
  comes later changes a settled promise.
\<close>

theorem compile_settles:
  assumes calls: "i < n" and run: "worker_run out (events_of i es)"
  shows "(case out of
      Some r \<Rightarrow> cc_promise (calls_run num es (replicate n new_call) ! i) = Resolved r
    | None \<Rightarrow> \<exists>msg. cc_promise (calls_run num es (replicate n new_call) ! i) = Rejected msg)
    \<and> (\<forall>fs. events_of i fs = [] \<longrightarrow> cc_promise (calls_run num fs (replicate n new_call) ! i) = Pending)
    \<and> (\<forall>fs. cc_promise (calls_run num (es @ fs) (replicate n new_call) ! i)
          = cc_promise (calls_run num es (replicate n new_call) ! i))"
proof -
  have nth: "calls_run num fs (replicate n new_call) ! i = fold (on_worker num) (events_of i fs) new_call" for fs
    using calls by (simp add: calls_run_nth)
  have later: "events_of i (es @ fs) = events_of i es @ events_of i fs" for fs
    by (simp add: events_of_def)
  have stable: "cc_promise (fold (on_worker num) fs c) = cc_promise c" if "cc_promise c \<noteq> Pending" for fs c
    using that
  proof (induction fs arbitrary: c)
    case (Cons f fs)
    have "cc_promise (on_worker num f c) = cc_promise c"
      using Cons.prems by (cases f) (auto simp: settle_with_def)
    with Cons show ?case by simp
  qed simp
  have settled: "case out of Some r \<Rightarrow> cc_promise (fold (on_worker num) (events_of i es) new_call) = Resolved r
    | None \<Rightarrow> \<exists>msg. cc_promise (fold (on_worker num) (events_of i es) new_call) = Rejected msg"
    using run by cases (auto simp: settle_with_def new_call_def)
  then have "cc_promise (fold (on_worker num) (events_of i es) new_call) \<noteq> Pending" by (auto split: option.splits)
  from stable [OF this] settled show ?thesis
    by (cases out) (auto simp: nth later, simp_all add: new_call_def events_of_def)
qed

lemma compile_settles_witness:
  "cc_promise (calls_run (\<lambda>_. ''1'') [(1, WError ''out of memory''), (0, WMessage (worker_failure ''x'')), (1, WExit 1), (0, WExit 1)]
     (replicate 2 new_call) ! 0) = Resolved (worker_failure ''x'')"
proof -
  let ?es = "[(1, WError ''out of memory''), (0, WMessage (worker_failure ''x'')), (1, WExit 1), (0, WExit 1)]"
  have "worker_run (Some (worker_failure ''x'')) (events_of 0 ?es)" by (simp add: events_of_def answers)
  from compile_settles [of 0 2, OF _ this, of "\<lambda>_. ''1''"] show ?thesis by simp
qed

text \<open>
  A compilation in a worker never reports success: the bridge returns the program as a text
  (crates/weftik-theia-bridge/index.d.ts), whose properties are undefined, so the program is lost.
\<close>

theorem worker_program_lost:
  assumes "compileLd graphJson = Inr (JStr prog)"
  shows "worker_main compileLd graphJson = \<lparr>wr_success = None, wr_programJson = JStr [], wr_diagnostics = JArr []\<rparr>"
  using assms by (simp add: worker_main_def get_prop_def nullish_or_def)

lemma worker_program_lost_witness:
  "wr_programJson (worker_main (\<lambda>g. Inr (JStr ''{instructions: 3}'')) ''graph'') = JStr []"
  by (subst worker_program_lost) simp_all

end
