(* ===== verification/Project.thy ===== *)
theory Project
  imports VarTables "HOL-Library.Monad_Syntax"
begin

text \<open>
  The project of weftik-core/src/browser: the tree of program files by directory
  (pou-tree-model.ts, pou-highlight.ts), the wizards' targets and templates
  (pou-wizard-model.ts, iec-conventions.ts, the new-file command of
  iec-new-file-contribution.ts), and the manifest (project-model.ts). Which file names exist
  is a predicate on names; \<open>localeCompare\<close> is the order of a collation key.
\<close>

subsection \<open>The tree of program files\<close>

record pou_file =
  uri :: string
  file_name :: string
  ext :: string

record pou_group =
  group_id :: string
  group_label :: string
  group_files :: "pou_file list"

definition POU_GROUP_ORDER :: "(string \<times> string) list" where
  "POU_GROUP_ORDER = [(''Programs'', ''Programs''), (''FBs'', ''FBs''),
     (''Functions'', ''Functions''), (''GVL'', ''GVL'')]"

definition PROGRAM_EXTS :: "string list" where
  "PROGRAM_EXTS = [''.st'', ''.il'', ''.ld'', ''.fbd'', ''.sfc'']"

definition GVL_EXTS :: "string list" where
  "GVL_EXTS = [''.gvl'']"

text \<open>
  Reading a property of the object literal \<open>GROUP_EXTS\<close>: its own ones are sets, the ones it
  inherits from \<open>Object.prototype\<close> have no method \<open>has\<close>.
\<close>

datatype lookup = Exts "string list" | Inherited | Absent

definition OBJECT_PROTOTYPE :: "string list" where
  "OBJECT_PROTOTYPE =
     [''constructor'', ''__defineGetter__'', ''__defineSetter__'', ''hasOwnProperty'',
      ''__lookupGetter__'', ''__lookupSetter__'', ''isPrototypeOf'', ''propertyIsEnumerable'',
      ''toString'', ''valueOf'', ''__proto__'', ''toLocaleString'']"

definition GROUP_EXTS :: "string \<Rightarrow> lookup" where
  "GROUP_EXTS dir =
     (if dir \<in> set [''Programs'', ''FBs'', ''Functions''] then Exts PROGRAM_EXTS
      else if dir = ''GVL'' then Exts GVL_EXTS
      else if dir \<in> set OBJECT_PROTOTYPE then Inherited else Absent)"

definition is_letter :: "char \<Rightarrow> bool" where
  "is_letter c \<longleftrightarrow> (let n = of_char c :: nat in 65 \<le> n \<and> n \<le> 90 \<or> 97 \<le> n \<and> n \<le> 122)"

text \<open>\<open>uri.replace(/^[a-z]+:\/\//i, '')\<close> and \<open>path.split('/').filter(Boolean)\<close>.\<close>

definition strip_scheme :: "string \<Rightarrow> string" where
  "strip_scheme u =
     (if takeWhile is_letter u \<noteq> [] \<and> starts_with ''://'' (dropWhile is_letter u)
      then drop 3 (dropWhile is_letter u) else u)"

fun split_slash :: "string \<Rightarrow> string list" where
  "split_slash [] = [[]]"
| "split_slash (c # cs) = (if c = CHR ''/'' then [] # split_slash cs
     else (case split_slash cs of s # ss \<Rightarrow> (c # s) # ss | [] \<Rightarrow> [[c]]))"

definition parentDirName :: "string \<Rightarrow> string" where
  "parentDirName u =
     (let segments = filter (\<lambda>s. s \<noteq> []) (split_slash (strip_scheme u)) in
      if 2 \<le> length segments then segments ! (length segments - 2) else [])"

text \<open>From the last dot on, unless it is the first character or there is none.\<close>

definition extOf :: "string \<Rightarrow> string" where
  "extOf name =
     (let suffix = rev (takeWhile (\<lambda>c. c \<noteq> CHR ''.'') (rev name));
          before = length name - length suffix in
      if before \<le> 1 then [] else toLowerCase (CHR ''.'' # suffix))"

fun collect_groups :: "pou_file list \<Rightarrow> (string, pou_file list) jsmap \<Rightarrow> string + (string, pou_file list) jsmap" where
  "collect_groups [] m = Inr m"
| "collect_groups (f # fs) m =
     (let dir = parentDirName (uri f) in
      case GROUP_EXTS dir of
        Absent \<Rightarrow> collect_groups fs m
      | Inherited \<Rightarrow> Inl ''TypeError: allowed.has is not a function''
      | Exts allowed \<Rightarrow>
          if ext f \<notin> set allowed then collect_groups fs m
          else collect_groups fs
            (js_set dir ((case map_of m dir of Some l \<Rightarrow> l | None \<Rightarrow> []) @ [f]) m))"

fun ordered_groups :: "(string \<Rightarrow> 'o::linorder) \<Rightarrow> (string, pou_file list) jsmap \<Rightarrow> (string \<times> string) list \<Rightarrow> pou_group list" where
  "ordered_groups collation m [] = []"
| "ordered_groups collation m ((i, label) # order) = (case map_of m i of
     Some (f # fs) \<Rightarrow> \<lparr>group_id = i, group_label = label,
        group_files = sort_key (\<lambda>f. collation (file_name f)) (f # fs)\<rparr> # ordered_groups collation m order
   | _ \<Rightarrow> ordered_groups collation m order)"

definition classifyToGroups :: "(string \<Rightarrow> 'o::linorder) \<Rightarrow> pou_file list \<Rightarrow> string + pou_group list" where
  "classifyToGroups collation files =
     bindE (collect_groups files []) (\<lambda>m. Inr (ordered_groups collation m POU_GROUP_ORDER))"

fun findHighlightedFile :: "string \<Rightarrow> pou_group list \<Rightarrow> pou_file option" where
  "findHighlightedFile active [] = None"
| "findHighlightedFile active (g # gs) =
     (if active = [] then None
      else case List.find (\<lambda>f. uri f = active) (group_files g) of
        Some f \<Rightarrow> Some f | None \<Rightarrow> findHighlightedFile active gs)"

definition findPouGroupOf :: "string \<Rightarrow> pou_group list \<Rightarrow> pou_group option" where
  "findPouGroupOf active groups =
     (if active = [] then None
      else List.find (\<lambda>g. \<exists>f \<in> set (group_files g). uri f = active) groups)"

subsection \<open>The wizard\<close>

datatype pou_type = Program | FunctionBlock | Function | GVL

datatype pou_language = ST | IL | GVL_language

definition POU_TYPES :: "pou_type list" where
  "POU_TYPES = [Program, FunctionBlock, Function, GVL]"

definition languagesFor :: "pou_type \<Rightarrow> pou_language list" where
  "languagesFor type = (if type = GVL then [GVL_language] else [ST, IL])"

definition validatePouName :: "string \<Rightarrow> bool" where
  "validatePouName name \<longleftrightarrow> iec_identifier name"

definition text_lines :: "string list \<Rightarrow> string" where
  "text_lines ls = join_with newline (ls @ [[]])"

definition titled :: "string \<Rightarrow> string \<Rightarrow> string" where
  "titled n what = ''(* '' @ n @ '' '' @ em_dash @ '' '' @ what @ '' *)''"

fun templateFor :: "pou_type \<Rightarrow> pou_language \<Rightarrow> string \<Rightarrow> string" where
  "templateFor Program language n =
     (if language = ST then text_lines
        [titled n ''Structured Text Program'', [], ''PROGRAM '' @ n, ''VAR'', ''    (* variables *)'',
         ''END_VAR'', [], ''(* code *)'', [], ''END_PROGRAM'']
      else text_lines [titled n ''Instruction List Program'', [], ''LD TRUE'', ''ST result''])"
| "templateFor FunctionBlock language n =
     (if language = ST then text_lines
        [titled n ''Function Block'', [], ''FUNCTION_BLOCK '' @ n, ''VAR_INPUT'', ''    (* inputs *)'',
         ''END_VAR'', ''VAR_OUTPUT'', ''    (* outputs *)'', ''END_VAR'', ''VAR'', ''    (* variables *)'',
         ''END_VAR'', [], ''(* code *)'', [], ''END_FUNCTION_BLOCK'']
      else text_lines [titled n ''Function Block (IL)'', [], ''LD TRUE'', ''ST '' @ n @ ''_out''])"
| "templateFor Function language n =
     (if language = ST then text_lines
        [titled n ''Function'', [], ''FUNCTION '' @ n @ '' : RET'', ''VAR_INPUT'', ''    (* inputs *)'',
         ''END_VAR'', ''VAR'', ''    (* variables *)'', ''END_VAR'', [], ''(* result := 0; *)'', [],
         ''END_FUNCTION'']
      else text_lines [titled n ''Function (IL)'', [], ''LD TRUE'', ''ST '' @ n @ ''_result''])"
| "templateFor GVL language n = text_lines
     [titled n ''Global Variable List'', [], ''VAR_GLOBAL'', ''    (* global variables *)'', ''END_VAR'']"

fun dirFor :: "pou_type \<Rightarrow> string" where
  "dirFor Program = ''Programs''"
| "dirFor FunctionBlock = ''FBs''"
| "dirFor Function = ''Functions''"
| "dirFor GVL = ''GVL''"

fun extFor :: "pou_language \<Rightarrow> string" where
  "extFor ST = ''.st''"
| "extFor IL = ''.il''"
| "extFor GVL_language = ''.gvl''"

record pou_target =
  target_dir :: string
  target_ext :: string
  target_template :: "string \<Rightarrow> string"

definition pouTarget :: "pou_type \<Rightarrow> pou_language \<Rightarrow> pou_target" where
  "pouTarget type language = \<lparr>target_dir = dirFor type, target_ext = extFor language,
     target_template = templateFor type language\<rparr>"

subsection \<open>New file names\<close>

definition IEC_LANG_DIR :: "string \<Rightarrow> string option" where
  "IEC_LANG_DIR e =
     (if e \<in> set [''.st'', ''.il'', ''.ld'', ''.fbd'', ''.sfc''] then Some ''Programs''
      else if e = ''.gvl'' then Some ''GVL'' else if e = ''.hmi'' then Some ''Hmi''
      else if e = ''.gcode'' then Some ''Cnc'' else None)"

definition numbered :: "string \<Rightarrow> string \<Rightarrow> nat \<Rightarrow> string" where
  "numbered base e counter =
     (if counter = 0 then base @ e else base @ ''-'' @ nat_to_dec counter @ e)"

text \<open>\<open>for (;;)\<close>: the loop has no bound of its own.\<close>

partial_function (option) next_from :: "(string \<Rightarrow> bool) \<Rightarrow> string \<Rightarrow> string \<Rightarrow> nat \<Rightarrow> string option" where
  "next_from isTaken e base counter =
     (let name = numbered base e counter in
      if \<not> isTaken name then Some name else next_from isTaken e base (counter + 1))"

definition nextFileName :: "(string \<Rightarrow> bool) \<Rightarrow> string \<Rightarrow> string \<Rightarrow> string option" where
  "nextFileName isTaken e base = next_from isTaken e base 0"

text \<open>The loop of the new-file command, which gives up counting at 100.\<close>

function new_file_from :: "(string \<Rightarrow> bool) \<Rightarrow> string \<Rightarrow> nat \<Rightarrow> string" where
  "new_file_from exists e counter =
     (if exists (numbered ''untitled'' e counter) \<and> counter < 100
      then new_file_from exists e (counter + 1) else numbered ''untitled'' e counter)"
  by pat_completeness auto

termination
  by (relation "measure (\<lambda>(exists, e, counter). 100 - counter)") auto

declare new_file_from.simps [simp del]

definition new_file_target :: "(string \<Rightarrow> bool) \<Rightarrow> string \<Rightarrow> string" where
  "new_file_target exists e = new_file_from exists e 0"

subsection \<open>The manifest\<close>

record project_meta =
  meta_name :: string
  meta_version :: string

definition validateProjectName :: "string \<Rightarrow> bool" where
  "validateProjectName name \<longleftrightarrow> iec_identifier name"

definition projectYaml :: "string \<Rightarrow> string" where
  "projectYaml projectName = join_with newline
     [''name: '' @ projectName, ''version: '' @ dq @ ''1.0'' @ dq, ''weftik_version: '' @ dq @ ''0.1.0'' @ dq,
      ''target:'', ''  runtime: weftik-rt'', ''paths:'', ''  programs: Programs/'',
      ''  function_blocks: FBs/'', ''  functions: Functions/'', ''  global_variables: GVL/'', []]"

definition README_TPL :: "string \<Rightarrow> string" where
  "README_TPL title = text_lines [''# '' @ title, [], ''Place IEC 61131-3 '' @ toLowerCase title @ '' here.'']"

definition projectTemplateFiles :: "string \<Rightarrow> (string \<times> string) list" where
  "projectTemplateFiles projectName =
     [(''project.yaml'', projectYaml projectName),
      (''Programs/Main.st'', text_lines
        [titled ''Main'' ''Structured Text Program'', [], ''PROGRAM Main'', ''VAR'', ''    (* variables *)'',
         ''END_VAR'', [], ''(* code *)'', [], ''END_PROGRAM'']),
      (''GVL/Globals.gvl'', text_lines
        [titled ''Globals'' ''Global Variable List'', [], ''VAR_GLOBAL'', ''    (* global variables *)'', ''END_VAR'']),
      (''FBs/README.md'', README_TPL ''Function Blocks''),
      (''Functions/README.md'', README_TPL ''Functions'')]"

text \<open>
  \<open>/^key:\s*"?([A-Za-z0-9._-]+)"?\s*$/m\<close> at the start of a line, and at the first line where
  it matches. White space may run over line ends; \<open>$\<close> is the end of a line or of the text.
\<close>

definition value_char :: "char \<Rightarrow> bool" where
  "value_char c \<longleftrightarrow> is_letter c \<or> digit_char c \<or> c = CHR ''.'' \<or> c = CHR ''_'' \<or> c = CHR ''-''"

definition line_end :: "char \<Rightarrow> bool" where
  "line_end c \<longleftrightarrow> c = CHR 0x0A \<or> c = CHR 0x0D"

definition optional_quote :: "string \<Rightarrow> string" where
  "optional_quote s = (if starts_with dq s then drop 1 s else s)"

definition at_line_end :: "string \<Rightarrow> bool" where
  "at_line_end s = (case dropWhile (\<lambda>c. js_space c \<and> \<not> line_end c) s of [] \<Rightarrow> True | c # cs \<Rightarrow> line_end c)"

definition field_here :: "string \<Rightarrow> string \<Rightarrow> string option" where
  "field_here key s =
     (if starts_with (key @ '':'') s then
        (let r = optional_quote (dropWhile js_space (drop (length key + 1) s));
             v = takeWhile value_char r in
         if v \<noteq> [] \<and> at_line_end (optional_quote (dropWhile value_char r)) then Some v else None)
      else None)"

fun field_after :: "string \<Rightarrow> string \<Rightarrow> string option" where
  "field_after key [] = None"
| "field_after key (c # cs) =
     (if line_end c then
        (case field_here key cs of Some v \<Rightarrow> Some v | None \<Rightarrow> field_after key cs)
      else field_after key cs)"

definition yaml_field :: "string \<Rightarrow> string \<Rightarrow> string option" where
  "yaml_field key s = (case field_here key s of Some v \<Rightarrow> Some v | None \<Rightarrow> field_after key s)"

definition parseProjectYaml :: "string \<Rightarrow> project_meta option" where
  "parseProjectYaml yaml = (case (yaml_field ''name'' yaml, yaml_field ''version'' yaml) of
     (Some n, Some v) \<Rightarrow> Some \<lparr>meta_name = n, meta_version = v\<rparr> | _ \<Rightarrow> None)"

end
