(* ===== verification/ProjectScan.thy ===== *)
theory ProjectScan
  imports Project Deploy
begin

text \<open>
  The walk over the directories of the workspace, which the project tree
  (weftik-core/src/browser/pou-view/pou-tree-widget.tsx, \<open>collectFiles\<close>) and the project commands
  (weftik-st-editor/src/browser/st-compile-command.ts, \<open>collectPouSources\<close>) both do with a stack. What the
  file service says of a location is a function that may throw. The loop has no bound of its own:
  it is a partial function, and a directory that contains itself through a link makes it run for ever.
\<close>

subsection \<open>The loop\<close>

record file_stat =
  st_resource :: string
  st_name :: string
  st_isDirectory :: bool
  st_isFile :: bool
  st_children :: "string list option"

definition children_of :: "file_stat \<Rightarrow> string list" where
  "children_of s = (case st_children s of None \<Rightarrow> [] | Some us \<Rightarrow> us)"

text \<open>The head of the list is the top of the stack; \<open>visit\<close> is what the loop does with a file.\<close>

partial_function (option) walk :: "(string \<Rightarrow> string + file_stat) \<Rightarrow> (file_stat \<Rightarrow> string + 'a list)
    \<Rightarrow> string list \<Rightarrow> 'a list \<Rightarrow> (string + 'a list) option" where
  "walk resolve visit stack out = (case stack of
     [] \<Rightarrow> Some (Inr out)
   | u # rest \<Rightarrow> (case resolve u of
       Inl e \<Rightarrow> Some (Inl e)
     | Inr s \<Rightarrow>
         if st_isDirectory s then walk resolve visit (rev (children_of s) @ rest) out
         else if st_isFile s then
           (case visit s of Inl e \<Rightarrow> Some (Inl e) | Inr xs \<Rightarrow> walk resolve visit rest (out @ xs))
         else walk resolve visit rest out))"

definition list_file :: "file_stat \<Rightarrow> string + pou_file list" where
  "list_file s = Inr [\<lparr>uri = st_resource s, file_name = st_name s, ext = extOf (st_name s)\<rparr>]"

definition collectFiles :: "(string \<Rightarrow> string + file_stat) \<Rightarrow> string \<Rightarrow> (string + pou_file list) option" where
  "collectFiles resolve ws = walk resolve list_file [ws] []"

definition is_source :: "file_stat \<Rightarrow> bool" where
  "is_source s \<longleftrightarrow> (let n = toLowerCase (st_name s) in ends_with ''.st'' n \<or> ends_with ''.il'' n)"

definition read_source :: "(string \<Rightarrow> string + string) \<Rightarrow> file_stat \<Rightarrow> string + compile_input list" where
  "read_source readFile s =
     (if is_source s then bindE (readFile (st_resource s)) (\<lambda>content. Inr [\<lparr>path = st_resource s, source_text = content\<rparr>])
      else Inr [])"

definition collectPouSources :: "(string \<Rightarrow> string + file_stat) \<Rightarrow> (string \<Rightarrow> string + string) \<Rightarrow> (string \<Rightarrow> 'o::linorder)
    \<Rightarrow> string \<Rightarrow> (string + compile_input list) option" where
  "collectPouSources resolve readFile collation ws =
     map_option (\<lambda>r. bindE r (\<lambda>out. Inr (sort_key (\<lambda>i. collation (path i)) out)))
       (walk resolve (read_source readFile) [ws] [])"

lemma walk_Nil [simp]: "walk resolve visit [] out = Some (Inr out)"
  by (subst walk.simps) simp

lemma walk_Cons: "walk resolve visit (u # rest) out = (case resolve u of
    Inl e \<Rightarrow> Some (Inl e)
  | Inr s \<Rightarrow>
      if st_isDirectory s then walk resolve visit (rev (children_of s) @ rest) out
      else if st_isFile s then
        (case visit s of Inl e \<Rightarrow> Some (Inl e) | Inr xs \<Rightarrow> walk resolve visit rest (out @ xs))
      else walk resolve visit rest out)"
  by (subst walk.simps) simp

subsection \<open>On a tree of directories\<close>

text \<open>A file system as it should be: a finite tree of what is found at each location.\<close>

datatype dir_tree = Entry (located: string) file_stat "dir_tree list"

fun described :: "(string \<Rightarrow> string + file_stat) \<Rightarrow> dir_tree \<Rightarrow> bool" where
  "described resolve (Entry u s ts) \<longleftrightarrow> resolve u = Inr s
     \<and> (st_isDirectory s \<longrightarrow> children_of s = map located ts) \<and> list_all (described resolve) ts"

fun files_of :: "dir_tree \<Rightarrow> file_stat list" where
  "files_of (Entry u s ts) =
     (if st_isDirectory s then concat (map files_of ts) else if st_isFile s then [s] else [])"

text \<open>The visits of a list of files, one after the other, until one throws.\<close>

fun visit_all :: "(file_stat \<Rightarrow> string + 'a list) \<Rightarrow> file_stat list \<Rightarrow> 'a list \<Rightarrow> string + 'a list" where
  "visit_all visit [] out = Inr out"
| "visit_all visit (s # ss) out = bindE (visit s) (\<lambda>xs. visit_all visit ss (out @ xs))"

lemma visit_all_append:
  "visit_all visit (ss @ ts) out = bindE (visit_all visit ss out) (visit_all visit ts)"
proof (induction ss arbitrary: out)
  case (Cons s ss)
  then show ?case by (cases "visit s") simp_all
qed simp

lemma visit_all_Inr:
  "(\<And>s. s \<in> set ss \<Longrightarrow> visit s = Inr (f s)) \<Longrightarrow> visit_all visit ss out = Inr (out @ concat (map f ss))"
  by (induction ss arbitrary: out) simp_all

text \<open>A visit that throws ends all of them, with what it threw.\<close>

lemma visit_all_throws:
  "(\<exists>s \<in> set ss. \<exists>e. visit s = Inl e) \<Longrightarrow> \<exists>s \<in> set ss. \<exists>e. visit s = Inl e \<and> visit_all visit ss out = Inl e"
proof (induction ss arbitrary: out)
  case (Cons s ss)
  show ?case
  proof (cases "visit s")
    case (Inr xs)
    with Cons.prems have "\<exists>s \<in> set ss. \<exists>e. visit s = Inl e" by auto
    from Cons.IH [OF this, of "out @ xs"] Inr show ?thesis by auto
  qed auto
qed simp

definition walk_on :: "(string \<Rightarrow> string + file_stat) \<Rightarrow> (file_stat \<Rightarrow> string + 'a list) \<Rightarrow> string list
    \<Rightarrow> string + 'a list \<Rightarrow> (string + 'a list) option" where
  "walk_on resolve visit rest r = (case r of Inl e \<Rightarrow> Some (Inl e) | Inr out \<Rightarrow> walk resolve visit rest out)"

lemma walk_on_simps [simp]:
  "walk_on resolve visit rest (Inl e) = Some (Inl e)"
  "walk_on resolve visit rest (Inr out) = walk resolve visit rest out"
  "walk_on resolve visit [] r = Some r"
  by (simp_all add: walk_on_def split: sum.split)

lemma walk_tree:
  "described resolve t \<Longrightarrow>
    walk resolve visit (located t # rest) out = walk_on resolve visit rest (visit_all visit (rev (files_of t)) out)"
proof (induction t arbitrary: rest out)
  case (Entry u s ts)
  have res: "resolve u = Inr s" and sub: "\<And>t. t \<in> set ts \<Longrightarrow> described resolve t"
    using Entry.prems by (auto simp: list_all_iff)
  show ?case
  proof (cases "st_isDirectory s")
    case True
    have many: "walk resolve visit (rev (map located us) @ rest) out
        = walk_on resolve visit rest (visit_all visit (rev (concat (map files_of us))) out)"
      if "set us \<subseteq> set ts" for us rest out
      using that
    proof (induction us arbitrary: rest out rule: rev_induct)
      case (snoc t us)
      then have t: "t \<in> set ts" and us: "set us \<subseteq> set ts" by auto
      show ?case
        by (cases "visit_all visit (rev (files_of t)) out")
          (simp_all add: Entry.IH [OF t sub [OF t]] snoc.IH [OF us] visit_all_append)
    qed simp
    show ?thesis using True res Entry.prems many [of ts rest out] by (simp add: walk_Cons)
  next
    case False
    then show ?thesis using res by (cases "visit s") (auto simp: walk_Cons)
  qed
qed

lemma collectFiles_tree:
  "described resolve t \<Longrightarrow> collectFiles resolve (located t) =
    Some (Inr (map (\<lambda>s. \<lparr>uri = st_resource s, file_name = st_name s, ext = extOf (st_name s)\<rparr>) (rev (files_of t))))"
  by (simp add: collectFiles_def walk_tree visit_all_Inr [where f = "\<lambda>s. [\<lparr>uri = st_resource s, file_name = st_name s, ext = extOf (st_name s)\<rparr>]"]
      list_file_def)

definition source_of :: "(string \<Rightarrow> string) \<Rightarrow> file_stat \<Rightarrow> compile_input" where
  "source_of text s = \<lparr>path = st_resource s, source_text = text (st_resource s)\<rparr>"

definition text_at :: "(string \<Rightarrow> string + string) \<Rightarrow> string \<Rightarrow> string" where
  "text_at readFile u = (case readFile u of Inr content \<Rightarrow> content | Inl e \<Rightarrow> [])"

lemma collectPouSources_tree:
  assumes t: "described resolve t"
  shows "(\<exists>s \<in> set (filter is_source (files_of t)). \<exists>e. readFile (st_resource s) = Inl e) \<Longrightarrow>
      \<exists>s \<in> set (filter is_source (files_of t)). \<exists>e. readFile (st_resource s) = Inl e
        \<and> collectPouSources resolve readFile collation (located t) = Some (Inl e)" (is "?unreadable \<Longrightarrow> ?thrown")
    and "\<not> (\<exists>s \<in> set (filter is_source (files_of t)). \<exists>e. readFile (st_resource s) = Inl e) \<Longrightarrow>
      collectPouSources resolve readFile collation (located t) = Some (Inr (sort_key (\<lambda>i. collation (path i))
        (map (source_of (text_at readFile)) (rev (filter is_source (files_of t))))))"
proof -
  let ?visit = "read_source readFile"
  have throws: "?visit s = Inl e \<longleftrightarrow> is_source s \<and> readFile (st_resource s) = Inl e" for s e
    by (cases "readFile (st_resource s)") (simp_all add: read_source_def)
  show ?thrown if ?unreadable
  proof -
    from that have "\<exists>s \<in> set (rev (files_of t)). \<exists>e. ?visit s = Inl e" by (auto simp: throws)
    from visit_all_throws [OF this, of "[]"] obtain s e where "s \<in> set (files_of t)" "?visit s = Inl e"
      "visit_all ?visit (rev (files_of t)) [] = Inl e" by auto
    then show ?thesis by (auto simp: throws collectPouSources_def walk_tree [OF t])
  qed
  assume readable: "\<not> ?unreadable"
  have "?visit s = Inr (if is_source s then [source_of (text_at readFile) s] else [])" if "s \<in> set (rev (files_of t))" for s
    using that readable by (cases "readFile (st_resource s)") (auto simp: read_source_def source_of_def text_at_def)
  then have "visit_all ?visit (rev (files_of t)) []
      = Inr (concat (map (\<lambda>s. if is_source s then [source_of (text_at readFile) s] else []) (rev (files_of t))))"
    using visit_all_Inr [of "rev (files_of t)" ?visit] by simp
  also have "concat (map (\<lambda>s. if is_source s then [source_of (text_at readFile) s] else []) (rev (files_of t)))
      = map (source_of (text_at readFile)) (rev (filter is_source (files_of t)))"
    by (simp add: rev_filter concat_if)
  finally show "collectPouSources resolve readFile collation (located t) = Some (Inr (sort_key (\<lambda>i. collation (path i))
        (map (source_of (text_at readFile)) (rev (filter is_source (files_of t))))))"
    by (simp add: collectPouSources_def walk_tree [OF t])
qed

subsection \<open>When the walk ends\<close>

definition child_of :: "(string \<Rightarrow> string + file_stat) \<Rightarrow> string \<Rightarrow> string \<Rightarrow> bool" where
  "child_of resolve v u \<longleftrightarrow> (case resolve u of Inl e \<Rightarrow> False | Inr s \<Rightarrow> st_isDirectory s \<and> v \<in> set (children_of s))"

lemma walk_ends_if:
  assumes "Wellfounded.accp (child_of resolve) u"
  shows "\<exists>r. \<forall>rest. walk resolve visit (u # rest) out = walk_on resolve visit rest r"
  using assms
proof (induction u arbitrary: out rule: accp.induct)
  case (accI u)
  show ?case
  proof (cases "resolve u")
    case (Inl e)
    then have "\<forall>rest. walk resolve visit (u # rest) out = walk_on resolve visit rest (Inl e)"
      by (simp add: walk_Cons)
    then show ?thesis by blast
  next
    case (Inr s)
    have many: "\<exists>r. \<forall>rest. walk resolve visit (us @ rest) out = walk_on resolve visit rest r"
      if "\<forall>v \<in> set us. child_of resolve v u" for us out
      using that
    proof (induction us arbitrary: out)
      case Nil
      have "\<forall>rest. walk resolve visit ([] @ rest) out = walk_on resolve visit rest (Inr out)" by simp
      then show ?case by blast
    next
      case (Cons v us)
      then obtain r where r: "\<forall>rest. walk resolve visit (v # rest) out = walk_on resolve visit rest r"
        using accI.IH by fastforce
      show ?case
      proof (cases r)
        case (Inl e)
        with r show ?thesis by (intro exI [where x = "Inl e"]) simp
      next
        case (Inr out')
        from Cons obtain r' where "\<forall>rest. walk resolve visit (us @ rest) out' = walk_on resolve visit rest r'" by fastforce
        with r Inr show ?thesis by (intro exI [where x = r']) simp
      qed
    qed
    show ?thesis
    proof (cases "st_isDirectory s")
      case True
      with Inr many [of "rev (children_of s)"] show ?thesis by (auto simp: walk_Cons child_of_def)
    next
      case False
      then have "walk resolve visit (u # rest) out = walk_on resolve visit rest
          (if st_isFile s then bindE (visit s) (\<lambda>xs. Inr (out @ xs)) else Inr out)" for rest
        using Inr by (cases "visit s") (simp_all add: walk_Cons)
      then show ?thesis by blast
    qed
  qed
qed

lemma walk_ends_only:
  assumes "walk resolve visit stack out = Some r"
    and "\<forall>u. R u \<longrightarrow> (\<exists>s. resolve u = Inr s)" "\<forall>u v. R u \<and> child_of resolve v u \<longrightarrow> R v"
    and "\<forall>s. \<exists>xs. visit s = Inr xs" "\<forall>u \<in> set stack. R u"
  shows "\<forall>u \<in> set stack. Wellfounded.accp (child_of resolve) u"
proof -
  define fine where "fine = (\<lambda>resolve (visit :: file_stat \<Rightarrow> string + 'a list) stack. (\<forall>u. R u \<longrightarrow> (\<exists>s. resolve u = Inr s))
    \<and> (\<forall>u v. R u \<and> child_of resolve v u \<longrightarrow> R v) \<and> (\<forall>s. \<exists>xs. visit s = Inr xs) \<and> (\<forall>u \<in> set stack. R u))"
  show ?thesis
  proof (rule walk.raw_induct [where P = "\<lambda>resolve visit stack out r. fine resolve visit stack
    \<longrightarrow> (\<forall>u \<in> set stack. Wellfounded.accp (child_of resolve) u)", OF _ assms(1), THEN mp])
  fix walk' :: "(string \<Rightarrow> string + file_stat) \<Rightarrow> (file_stat \<Rightarrow> string + 'a list) \<Rightarrow> string list \<Rightarrow> 'a list \<Rightarrow> (string + 'a list) option"
    and resolve visit stack out r
  assume IH: "\<And>resolve visit stack out r. walk' resolve visit stack out = Some r
      \<Longrightarrow> fine resolve visit stack \<longrightarrow> (\<forall>u \<in> set stack. Wellfounded.accp (child_of resolve) u)"
    and eq: "(case stack of
     [] \<Rightarrow> Some (Inr out)
   | u # rest \<Rightarrow> (case resolve u of
       Inl e \<Rightarrow> Some (Inl e)
     | Inr s \<Rightarrow>
         if st_isDirectory s then walk' resolve visit (rev (children_of s) @ rest) out
         else if st_isFile s then
           (case visit s of Inl e \<Rightarrow> Some (Inl e) | Inr xs \<Rightarrow> walk' resolve visit rest (out @ xs))
         else walk' resolve visit rest out)) = Some r"
  show "fine resolve visit stack \<longrightarrow> (\<forall>u \<in> set stack. Wellfounded.accp (child_of resolve) u)"
  proof (intro impI)
    assume ok: "fine resolve visit stack"
    show "\<forall>u \<in> set stack. Wellfounded.accp (child_of resolve) u"
    proof (cases stack)
      case (Cons u rest)
      have "R u" "\<forall>v \<in> set rest. R v" using ok Cons by (simp_all add: fine_def)
      moreover obtain s xs where s: "resolve u = Inr s" "visit s = Inr xs" using ok \<open>R u\<close> unfolding fine_def by metis
      moreover have "R v" if "st_isDirectory s" "v \<in> set (children_of s)" for v
      proof -
        from that s(1) have "child_of resolve v u" by (simp add: child_of_def)
        with ok \<open>R u\<close> show ?thesis unfolding fine_def by blast
      qed
      ultimately have ok': "fine resolve visit rest" "st_isDirectory s \<Longrightarrow> fine resolve visit (rev (children_of s) @ rest)"
        using ok by (auto simp: fine_def)
      have "(\<forall>v. child_of resolve v u \<longrightarrow> Wellfounded.accp (child_of resolve) v)
          \<and> (\<forall>v \<in> set rest. Wellfounded.accp (child_of resolve) v)"
      proof (cases "st_isDirectory s")
        case True
        with Cons s eq have "walk' resolve visit (rev (children_of s) @ rest) out = Some r" by simp
        from IH [OF this] ok'(2) True s show ?thesis by (auto simp: child_of_def)
      next
        case False
        with Cons s eq obtain out' where "walk' resolve visit rest out' = Some r" by (auto split: if_splits)
        from IH [OF this] ok'(1) False s show ?thesis by (auto simp: child_of_def)
      qed
      with Cons show ?thesis by (auto intro: accp.intros)
    qed simp
  qed
qed (use assms in \<open>simp add: fine_def\<close>)
qed

text \<open>A location has only finitely deep directories below it when there is no endless chain of them.\<close>

lemma accp_chain: "Wellfounded.accp r x \<longleftrightarrow> \<not> (\<exists>f. f 0 = x \<and> (\<forall>n. r (f (Suc n)) (f n)))"
proof
  show "\<not> (\<exists>f. f 0 = x \<and> (\<forall>n. r (f (Suc n)) (f n)))" if "Wellfounded.accp r x"
    using that
  proof (induction rule: accp.induct)
    case (accI x)
    show ?case
    proof
      assume "\<exists>f. f 0 = x \<and> (\<forall>n. r (f (Suc n)) (f n))"
      then obtain f where f: "f 0 = x" "\<forall>n. r (f (Suc n)) (f n)" by blast
      then have "r (f 1) x" by (metis One_nat_def)
      from accI.IH [OF this] f(2) show False by (auto dest!: spec [of _ "\<lambda>n. f (Suc n)"])
    qed
  qed
  show "Wellfounded.accp r x" if no: "\<not> (\<exists>f. f 0 = x \<and> (\<forall>n. r (f (Suc n)) (f n)))"
  proof (rule ccontr)
    assume "\<not> Wellfounded.accp r x"
    then have "\<exists>f. \<forall>n. (\<not> Wellfounded.accp r (f n) \<and> (n = 0 \<longrightarrow> f n = x)) \<and> r (f (Suc n)) (f n)"
      by (intro dependent_nat_choice) (auto dest: not_accp_down elim: not_accp_down)
    with no show False by metis
  qed
qed

text \<open>
  C31: when the walk over the workspace does not come to an end, there is an endless chain of directories, each an entry
  of the one before; and with such a chain it does not come to an end if every location at or below the
  workspace can be resolved, since the loop keeps no record of where it has been and only a location that
  cannot be resolved stops it before.
\<close>

theorem scan_ends_iff:
  "(collectFiles resolve ws = None \<longrightarrow> (\<exists>f. f 0 = ws \<and> (\<forall>n. child_of resolve (f (Suc n)) (f n))))
   \<and> ((\<forall>u. rtranclp (\<lambda>u v. child_of resolve v u) ws u \<longrightarrow> (\<exists>s. resolve u = Inr s))
     \<longrightarrow> (\<exists>f. f 0 = ws \<and> (\<forall>n. child_of resolve (f (Suc n)) (f n))) \<longrightarrow> collectFiles resolve ws = None)"
proof -
  have "collectFiles resolve ws \<noteq> None" if "Wellfounded.accp (child_of resolve) ws"
    using walk_ends_if [OF that, of list_file "[]"] by (auto simp: collectFiles_def)
  moreover have "Wellfounded.accp (child_of resolve) ws"
    if readable: "\<forall>u. rtranclp (\<lambda>u v. child_of resolve v u) ws u \<longrightarrow> (\<exists>s. resolve u = Inr s)" and ends: "collectFiles resolve ws \<noteq> None"
  proof -
    have closed: "\<forall>u v. rtranclp (\<lambda>u v. child_of resolve v u) ws u \<and> child_of resolve v u
        \<longrightarrow> rtranclp (\<lambda>u v. child_of resolve v u) ws v"
      by (auto intro: rtranclp.rtrancl_into_rtrancl)
    obtain r where "walk resolve list_file [ws] [] = Some r" using ends by (auto simp: collectFiles_def)
    from walk_ends_only [OF this readable closed] show ?thesis by (simp add: list_file_def)
  qed
  ultimately show ?thesis using accp_chain [of "child_of resolve" ws] by blast
qed

lemma scan_ends_iff_witness:
  "collectFiles (\<lambda>u. Inr \<lparr>st_resource = u, st_name = ''loop'', st_isDirectory = True, st_isFile = False,
      st_children = Some [u @ ''/loop'']\<rparr>) ''file:///ws'' = None" (is "collectFiles ?res _ = None")
proof -
  let ?f = "\<lambda>n. ((\<lambda>u. u @ ''/loop'') ^^ n) ''file:///ws''"
  have "?f 0 = ''file:///ws'' \<and> (\<forall>n. child_of ?res (?f (Suc n)) (?f n))"
    by (simp add: child_of_def children_of_def)
  then have "\<exists>f. f 0 = ''file:///ws'' \<and> (\<forall>n. child_of ?res (f (Suc n)) (f n))" by (rule exI [of _ ?f])
  with scan_ends_iff [of ?res "''file:///ws''"] show ?thesis by blast
qed

subsection \<open>A small workspace\<close>

definition folder :: "string \<Rightarrow> string list \<Rightarrow> file_stat" where
  "folder u us = \<lparr>st_resource = u, st_name = u, st_isDirectory = True, st_isFile = False, st_children = Some us\<rparr>"

definition plain_file :: "string \<Rightarrow> string \<Rightarrow> file_stat" where
  "plain_file u n = \<lparr>st_resource = u, st_name = n, st_isDirectory = False, st_isFile = True, st_children = None\<rparr>"

definition small_workspace :: "string \<Rightarrow> string + file_stat" where
  "small_workspace u = (case map_of
     [(''ws'', folder ''ws'' [''ws/Programs'', ''ws/b.txt'']), (''ws/Programs'', folder ''ws/Programs'' [''ws/Programs/a.st'']),
      (''ws/Programs/a.st'', plain_file ''ws/Programs/a.st'' ''a.ST''), (''ws/b.txt'', plain_file ''ws/b.txt'' ''b.txt'')] u of
     Some s \<Rightarrow> Inr s | None \<Rightarrow> Inl ''not found'')"

definition small_tree :: dir_tree where
  "small_tree = Entry ''ws'' (folder ''ws'' [''ws/Programs'', ''ws/b.txt''])
     [Entry ''ws/Programs'' (folder ''ws/Programs'' [''ws/Programs/a.st'']) [Entry ''ws/Programs/a.st'' (plain_file ''ws/Programs/a.st'' ''a.ST'') []],
      Entry ''ws/b.txt'' (plain_file ''ws/b.txt'' ''b.txt'') []]"

lemma small_described: "described small_workspace small_tree"
  by (simp add: small_workspace_def small_tree_def folder_def plain_file_def children_of_def)

lemma small_files: "files_of small_tree = [plain_file ''ws/Programs/a.st'' ''a.ST'', plain_file ''ws/b.txt'' ''b.txt'']"
  by (simp add: small_tree_def folder_def plain_file_def)

lemma small_sources: "filter is_source (files_of small_tree) = [plain_file ''ws/Programs/a.st'' ''a.ST'']"
  unfolding small_files by code_simp

end
