(* ===== verification/ProjectProps.thy ===== *)
theory ProjectProps
  imports Project VarProps
begin

text \<open>
  Properties of the project components: the tree against its declarative description, the
  wizard's files in the tree and in the variable table, the manifest, and new file names.
\<close>

subsection \<open>The tree\<close>

definition in_group :: "string \<Rightarrow> pou_file \<Rightarrow> bool" where
  "in_group d f \<longleftrightarrow> parentDirName (uri f) = d \<and> (case GROUP_EXTS d of Exts es \<Rightarrow> ext f \<in> set es | _ \<Rightarrow> False)"

definition files_at :: "(string, pou_file list) jsmap \<Rightarrow> string \<Rightarrow> pou_file list" where
  "files_at m d = (case map_of m d of Some l \<Rightarrow> l | None \<Rightarrow> [])"

lemma files_at_set: "files_at (js_set d l m) d' = (if d' = d then l else files_at m d')"
  by (simp add: files_at_def)

lemma collect_groups_throws:
  "\<exists>f \<in> set fs. GROUP_EXTS (parentDirName (uri f)) = Inherited \<Longrightarrow>
    collect_groups fs m = Inl ''TypeError: allowed.has is not a function''"
proof (induction fs arbitrary: m)
  case (Cons f fs)
  then show ?case by (cases "GROUP_EXTS (parentDirName (uri f))") (auto simp: Let_def)
qed simp

lemma collect_groups_files:
  "\<forall>f \<in> set fs. GROUP_EXTS (parentDirName (uri f)) \<noteq> Inherited \<Longrightarrow>
    \<exists>m'. collect_groups fs m = Inr m' \<and> (\<forall>d. files_at m' d = files_at m d @ filter (in_group d) fs)"
proof (induction fs arbitrary: m)
  case (Cons f fs)
  let ?d = "parentDirName (uri f)"
  have rest: "\<forall>f \<in> set fs. GROUP_EXTS (parentDirName (uri f)) \<noteq> Inherited" using Cons.prems by simp
  show ?case
  proof (cases "in_group ?d f")
    case True
    then obtain es where es: "GROUP_EXTS ?d = Exts es" "ext f \<in> set es"
      by (auto simp: in_group_def split: lookup.splits)
    let ?m = "js_set ?d (files_at m ?d @ [f]) m"
    obtain m' where m': "collect_groups fs ?m = Inr m'" "\<forall>d. files_at m' d = files_at ?m d @ filter (in_group d) fs"
      using Cons.IH [OF rest] by blast
    have "collect_groups (f # fs) m = Inr m'" using es m'(1) by (simp add: files_at_def Let_def)
    moreover have "in_group d f \<longleftrightarrow> d = ?d" for d using True by (auto simp: in_group_def)
    ultimately show ?thesis using m'(2) by (auto simp: files_at_set)
  next
    case False
    then have "in_group d f \<longleftrightarrow> False" for d by (auto simp: in_group_def)
    moreover have "collect_groups (f # fs) m = collect_groups fs m"
      using False Cons.prems by (auto simp: in_group_def Let_def split: lookup.split)
    ultimately show ?thesis using Cons.IH [OF rest, of m] by simp
  qed
qed simp

lemma ordered_groups_files:
  "ordered_groups collation m order =
    map (\<lambda>(i, l). \<lparr>group_id = i, group_label = l, group_files = sort_key (\<lambda>f. collation (file_name f)) (files_at m i)\<rparr>)
      (filter (\<lambda>(i, l). files_at m i \<noteq> []) order)"
  by (induction collation m order rule: ordered_groups.induct)
    (auto simp: files_at_def split: option.split list.split)

lemma GROUP_EXTS_Inherited: "GROUP_EXTS d = Inherited \<longleftrightarrow> d \<in> set OBJECT_PROTOTYPE"
proof -
  have "\<forall>d \<in> set OBJECT_PROTOTYPE. d \<notin> set [''Programs'', ''FBs'', ''Functions''] \<and> d \<noteq> ''GVL''"
    by code_simp
  then show ?thesis unfolding GROUP_EXTS_def by auto
qed

text \<open>
  The tree has, in the fixed order and only where there are any, the files of each group's
  directory with an extension of the group, sorted by name; but a single file whose parent
  directory has the name of a property every object inherits, like \<open>constructor\<close>, makes the
  whole classification throw.
\<close>

theorem classify_groups:
  "classifyToGroups collation files =
    (if \<exists>f \<in> set files. parentDirName (uri f) \<in> set OBJECT_PROTOTYPE
     then Inl ''TypeError: allowed.has is not a function''
     else Inr (map (\<lambda>(i, l). \<lparr>group_id = i, group_label = l,
                group_files = sort_key (\<lambda>f. collation (file_name f)) (filter (in_group i) files)\<rparr>)
            (filter (\<lambda>(i, l). filter (in_group i) files \<noteq> []) POU_GROUP_ORDER)))"
proof (cases "\<exists>f \<in> set files. parentDirName (uri f) \<in> set OBJECT_PROTOTYPE")
  case True
  then show ?thesis
    using collect_groups_throws [of files "[]"] by (simp add: classifyToGroups_def GROUP_EXTS_Inherited)
next
  case False
  then obtain m where m: "collect_groups files [] = Inr m" "\<forall>d. files_at m d = filter (in_group d) files"
    using collect_groups_files [of files "[]"] by (auto simp: GROUP_EXTS_Inherited files_at_def)
  have "files_at m = (\<lambda>d. filter (in_group d) files)" using m(2) by auto
  with m(1) False show ?thesis
    by (simp add: classifyToGroups_def ordered_groups_files)
qed

subsection \<open>The wizard\<close>

lemma split_slash_not_Nil [simp]: "split_slash s \<noteq> []"
  by (induction s) (auto split: list.split)

lemma split_slash_append: "split_slash (a @ CHR ''/'' # b) = split_slash a @ split_slash b"
proof (induction a)
  case (Cons c a)
  then show ?case by (cases "split_slash a") (auto split: list.split)
qed simp

lemma split_slash_single: "CHR ''/'' \<notin> set s \<Longrightarrow> split_slash s = [s]"
  by (induction s) auto

lemma strip_scheme_uri:
  assumes "scheme \<noteq> []" "list_all is_letter scheme"
  shows "strip_scheme (scheme @ ''://'' @ p) = p"
proof -
  have "\<not> is_letter (CHR '':'')" by (simp add: is_letter_def Let_def)
  then have "takeWhile is_letter (scheme @ ''://'' @ p) = scheme" "dropWhile is_letter (scheme @ ''://'' @ p) = ''://'' @ p"
    using assms(2) by (auto simp: list_all_iff)
  with assms(1) show ?thesis by (simp add: strip_scheme_def)
qed

lemma iec_identifier_plain: "iec_identifier s \<Longrightarrow> CHR ''/'' \<notin> set s \<and> CHR ''.'' \<notin> set s"
proof -
  have "\<not> ident_char (CHR ''/'')" "\<not> ident_char (CHR ''.'')"
    by (simp_all add: ident_char_def ident_start_def digit_char_def Let_def)
  then show "iec_identifier s \<Longrightarrow> ?thesis" by (elim iec_identifierE) blast
qed

lemma extFor_facts:
  "CHR ''/'' \<notin> set (extFor l)" "\<exists>e. extFor l = CHR ''.'' # e \<and> CHR ''.'' \<notin> set e"
  "toLowerCase (extFor l) = extFor l"
  by (cases l; simp add: toLowerCase_def lower_char_def Let_def)+

lemma dirFor_facts: "CHR ''/'' \<notin> set (dirFor t)" "dirFor t \<noteq> []"
  by (cases t; simp)+

lemma extOf_target:
  assumes "iec_identifier n"
  shows "extOf (n @ extFor l) = extFor l"
proof -
  obtain e where e: "extFor l = CHR ''.'' # e" "CHR ''.'' \<notin> set e" using extFor_facts by blast
  have "n \<noteq> []" using assms by (simp add: iec_identifier_def)
  have "takeWhile (\<lambda>c. c \<noteq> CHR ''.'') (rev (n @ extFor l)) = rev e"
    using e by (simp, subst takeWhile_append2) auto
  with e \<open>n \<noteq> []\<close> show ?thesis using extFor_facts(3) [of l] by (simp add: extOf_def Let_def)
qed

lemma dirFor_ext: "l \<in> set (languagesFor t) \<Longrightarrow> \<exists>es. GROUP_EXTS (dirFor t) = Exts es \<and> extFor l \<in> set es"
  by (cases t; cases l)
    (simp_all add: languagesFor_def GROUP_EXTS_def PROGRAM_EXTS_def GVL_EXTS_def)

definition wizard_file :: "string \<Rightarrow> pou_type \<Rightarrow> pou_language \<Rightarrow> string \<Rightarrow> pou_file" where
  "wizard_file ws t l n =
     (let tg = pouTarget t l; name = n @ target_ext tg in
      \<lparr>uri = ws @ ''/'' @ target_dir tg @ ''/'' @ name, file_name = name, ext = extOf name\<rparr>)"

lemma wizard_file_parent:
  assumes "iec_identifier n" "ws = scheme @ ''://'' @ p" "scheme \<noteq> []" "list_all is_letter scheme"
  shows "parentDirName (uri (wizard_file ws t l n)) = dirFor t"
proof -
  let ?f = "n @ extFor l"
  have f: "CHR ''/'' \<notin> set ?f" "?f \<noteq> []"
    using iec_identifier_plain [OF assms(1)] extFor_facts(1) assms(1) by (simp_all add: iec_identifier_def)
  have "uri (wizard_file ws t l n) = scheme @ ''://'' @ (p @ ''/'' @ dirFor t @ ''/'' @ ?f)"
    by (simp add: wizard_file_def pouTarget_def assms(2) Let_def)
  then have "strip_scheme (uri (wizard_file ws t l n)) = p @ CHR ''/'' # dirFor t @ CHR ''/'' # ?f"
    using strip_scheme_uri [OF assms(3,4)] by simp
  moreover have "split_slash (p @ CHR ''/'' # dirFor t @ CHR ''/'' # ?f) = split_slash p @ [dirFor t, ?f]"
    using split_slash_single [OF f(1)] split_slash_single [OF dirFor_facts(1), of t]
    by (simp add: split_slash_append)
  ultimately show ?thesis using f dirFor_facts(2) [of t] by (simp add: parentDirName_def nth_append Let_def)
qed

text \<open>
  A file the wizard creates for a type, in a language offered for it and under a name it
  accepts, lies in the directory and has the extension by which the tree finds it: it is
  classified into the group of its type and into no other.
\<close>

theorem wizard_files:
  assumes n: "validatePouName n" and l: "l \<in> set (languagesFor t)"
    and ws: "ws = scheme @ ''://'' @ p" "scheme \<noteq> []" "list_all is_letter scheme"
  shows "classifyToGroups collation [wizard_file ws t l n] =
      Inr [\<lparr>group_id = dirFor t, group_label = dirFor t, group_files = [wizard_file ws t l n]\<rparr>]"
proof -
  let ?f = "wizard_file ws t l n"
  have i: "iec_identifier n" using n by (simp add: validatePouName_def)
  have d: "parentDirName (uri ?f) = dirFor t" by (rule wizard_file_parent [OF i ws])
  have e: "ext ?f = extFor l" by (simp add: wizard_file_def pouTarget_def extOf_target [OF i] Let_def)
  have g: "in_group x ?f \<longleftrightarrow> x = dirFor t" for x
    using dirFor_ext [OF l] d e by (auto simp: in_group_def)
  have "dirFor t \<notin> set OBJECT_PROTOTYPE"
    using dirFor_ext [OF l] by (metis GROUP_EXTS_Inherited lookup.distinct(1))
  then show ?thesis
    using d g by (cases t) (simp_all add: classify_groups POU_GROUP_ORDER_def)
qed

lemma wizard_files_witness:
  "classifyToGroups (\<lambda>s. length s) [wizard_file ''file:///home/p'' FunctionBlock IL ''Motor'']
    = Inr [\<lparr>group_id = ''FBs'', group_label = ''FBs'', group_files = [wizard_file ''file:///home/p'' FunctionBlock IL ''Motor'']\<rparr>]"
  using wizard_files [of "''Motor''" IL FunctionBlock "''file:///home/p''" "''file''" "''/home/p''" "\<lambda>s. length s"]
  by (simp add: validatePouName_def iec_identifier_def ident_char_def ident_start_def languagesFor_def is_letter_def)

text \<open>The templates of structured text have a local block for the variable table.\<close>

lemma text_lines_split:
  assumes "\<forall>l \<in> set ls. no_newline l \<and> strip_cr l = l"
  shows "split_lines (text_lines ls) = ls @ [[]]"
  unfolding text_lines_def
  by (rule split_lines_join_nl) (use assms in \<open>auto simp: butlast_append\<close>)

definition line_ok :: "string \<Rightarrow> bool" where
  "line_ok l \<longleftrightarrow> no_newline l \<and> (l = [] \<or> last l \<noteq> CHR 0x0D)"

lemma line_ok_strip: "line_ok l \<Longrightarrow> no_newline l \<and> strip_cr l = l"
  by (auto simp: line_ok_def strip_cr_def)

lemma titled_ok: "iec_identifier n \<Longrightarrow> no_newline w \<Longrightarrow> line_ok (titled n w)"
  using iec_identifier_no_newline [of n] by (auto simp: line_ok_def titled_def em_dash_def)

lemma identifier_line_ok: "iec_identifier n \<Longrightarrow> no_newline a \<Longrightarrow> line_ok (a @ n)"
proof -
  assume n: "iec_identifier n" and a: "no_newline a"
  have "\<not> ident_char (CHR 0x0D)" by (simp add: ident_char_def ident_start_def digit_char_def Let_def)
  moreover from n have "n \<noteq> []" "\<forall>x \<in> set n. ident_char x" by (auto elim: iec_identifierE)
  ultimately have "last (a @ n) \<noteq> CHR 0x0D" by (metis last_appendR last_in_set)
  then show "line_ok (a @ n)" using iec_identifier_no_newline [OF n] a by (simp add: line_ok_def)
qed

lemma not_var_line: "hd (trim l) \<noteq> CHR ''V'' \<Longrightarrow> trim l \<noteq> ''VAR''"
  by (cases "trim l") auto

lemma titled_trim: "trim (titled n w) = titled n w"
  by (rule trim_fixed) (simp add: titled_def)

definition program_lines :: "string \<Rightarrow> string list" where
  "program_lines n = [titled n ''Structured Text Program'', [], ''PROGRAM '' @ n, ''VAR'', ''    (* variables *)'',
     ''END_VAR'', [], ''(* code *)'', [], ''END_PROGRAM'']"

lemma program_template_lines:
  assumes "iec_identifier n"
  shows "split_lines (templateFor Program ST n) = program_lines n @ [[]]"
proof -
  have "templateFor Program ST n = text_lines (program_lines n)" by (simp add: program_lines_def)
  moreover have "\<forall>l \<in> set (program_lines n). line_ok l"
    using titled_ok [OF assms, of "''Structured Text Program''"] identifier_line_ok [OF assms, of "''PROGRAM ''"]
    by (simp add: program_lines_def) (simp add: line_ok_def)
  ultimately show ?thesis using line_ok_strip by (simp add: text_lines_split del: templateFor.simps)
qed

lemma program_template_block:
  assumes "iec_identifier n"
  shows "findFirstLocalVarBlock (templateFor Program ST n) = Some (3, 5)"
proof -
  have "trim (''PROGRAM '' @ n) \<noteq> ''VAR''"
  proof -
    obtain c cs where n: "n = c # cs" "\<not> js_space c" "\<forall>x \<in> set n. ident_char x"
      using assms by (rule iec_identifierE)
    have "last n \<in> set n" using n(1) by simp
    with n(3) have "\<not> js_space (last n)" using ident_char_not_space by blast
    with n(1) have "trim (''PROGRAM '' @ n) = ''PROGRAM '' @ n"
      by (intro trim_fixed) (simp add: js_space_def)
    then show ?thesis by simp
  qed
  moreover have "titled n w \<noteq> ''VAR''" for w by (simp add: titled_def)
  ultimately show ?thesis
    unfolding findFirstLocalVarBlock_def program_template_lines [OF assms] program_lines_def
    by (simp add: titled_trim) (simp add: trim_def js_space_def numeral_eq_Suc)
qed

text \<open>
  In a program created by the wizard the variable table finds a place to save to: the
  variables saved there are read back, and every other line of the template stays.
\<close>

theorem wizard_program_saves:
  assumes "validatePouName n" "\<forall>v \<in> set vars. savable v"
  shows "parseLocalVars (serializeLocalVars (templateFor Program ST n) vars) = vars \<and>
    split_lines (serializeLocalVars (templateFor Program ST n) vars) =
      [titled n ''Structured Text Program'', [], ''PROGRAM '' @ n, ''VAR''] @ map var_row vars @
      [''END_VAR'', [], ''(* code *)'', [], ''END_PROGRAM'', []]"
proof -
  have i: "iec_identifier n" using assms(1) by (simp add: validatePouName_def)
  from local_vars_saved_gen [OF program_template_block [OF i] assms(2)] show ?thesis
    unfolding program_template_lines [OF i] program_lines_def by (simp add: numeral_eq_Suc del: templateFor.simps)
qed

lemma wizard_program_saves_witness:
  "parseLocalVars (serializeLocalVars (templateFor Program ST ''Main'') [speed]) = [speed]"
proof -
  have "validatePouName ''Main''"
    by (simp add: validatePouName_def iec_identifier_def ident_char_def ident_start_def)
  then show ?thesis using wizard_program_saves [of "''Main''" "[speed]"] speed_ok by simp
qed

subsection \<open>New file names\<close>

lemma numbered_inject: "numbered b e m = numbered b e n \<longleftrightarrow> m = n"
proof -
  have "b @ ''-'' @ x @ e \<noteq> b @ e" for x
    by (metis append_assoc append_same_eq append_self_conv list.distinct(1) append_is_Nil_conv)
  then show ?thesis by (auto simp: numbered_def)
qed

lemma next_from_first:
  assumes "\<not> isTaken (numbered base e n)" "k \<le> n"
  shows "\<exists>m. k \<le> m \<and> m \<le> n \<and> next_from isTaken e base k = Some (numbered base e m) \<and>
    \<not> isTaken (numbered base e m) \<and> (\<forall>j. k \<le> j \<and> j < m \<longrightarrow> isTaken (numbered base e j))"
  using assms(2)
proof (induction "n - k" arbitrary: k)
  case 0
  then have "k = n" by simp
  with assms(1) show ?case by (subst next_from.simps) (auto simp: Let_def)
next
  case (Suc d)
  show ?case
  proof (cases "isTaken (numbered base e k)")
    case False
    then show ?thesis using Suc.prems by (subst next_from.simps) (auto simp: Let_def)
  next
    case True
    have "d = n - Suc k" "Suc k \<le> n" using Suc.hyps(2) by auto
    from Suc.hyps(1) [OF this]
    obtain m where m: "Suc k \<le> m" "m \<le> n" "next_from isTaken e base (Suc k) = Some (numbered base e m)"
        "\<not> isTaken (numbered base e m)" "\<forall>j. Suc k \<le> j \<and> j < m \<longrightarrow> isTaken (numbered base e j)"
      by blast
    have "next_from isTaken e base k = Some (numbered base e m)"
      using True m(3) by (subst next_from.simps) (simp add: Let_def)
    moreover have "\<forall>j. k \<le> j \<and> j < m \<longrightarrow> isTaken (numbered base e j)"
      using True m(5) by (metis Suc_leI le_neq_implies_less)
    ultimately show ?thesis using m by (intro exI [of _ m]) auto
  qed
qed

text \<open>
  The search for a file name ends whenever only finitely many names are taken, with the
  first free name of the sequence.
\<close>

theorem nextFileName_first_free:
  assumes "finite {n. isTaken n}"
  shows "\<exists>m. nextFileName isTaken e base = Some (numbered base e m) \<and> \<not> isTaken (numbered base e m) \<and>
    (\<forall>j < m. isTaken (numbered base e j))"
proof -
  have "\<not> (\<forall>n. isTaken (numbered base e n))"
  proof
    assume "\<forall>n. isTaken (numbered base e n)"
    then have "range (numbered base e) \<subseteq> {n. isTaken n}" by auto
    then have "finite (range (numbered base e))" using assms by (rule finite_subset)
    moreover have "inj (numbered base e)" by (auto simp: inj_def numbered_inject)
    ultimately show False by (simp add: finite_image_iff)
  qed
  then obtain n where "\<not> isTaken (numbered base e n)" by blast
  from next_from_first [of isTaken base e n 0, OF this] show ?thesis by (auto simp: nextFileName_def)
qed

lemma nextFileName_first_free_witness:
  "\<exists>m. nextFileName (\<lambda>n. n \<in> set [''untitled.st'', ''untitled-1.st'']) ''.st'' ''untitled'' = Some (numbered ''untitled'' ''.st'' m)"
  using nextFileName_first_free [of "\<lambda>n. n \<in> set [''untitled.st'', ''untitled-1.st'']" "''.st''" "''untitled''"]
  by auto

lemma new_file_from_taken:
  "k \<le> 100 \<Longrightarrow> exists (new_file_from exists e k) \<longleftrightarrow>
    (\<forall>n. k \<le> n \<and> n \<le> 100 \<longrightarrow> exists (numbered ''untitled'' e n))"
proof (induction "100 - k" arbitrary: k)
  case 0
  then have "k = 100" by simp
  then show ?case by (subst new_file_from.simps) auto
next
  case (Suc d)
  then have k: "k < 100" "d = 100 - Suc k" by auto
  show ?case
  proof (cases "exists (numbered ''untitled'' e k)")
    case True
    then have "new_file_from exists e k = new_file_from exists e (Suc k)"
      using k(1) by (subst new_file_from.simps) simp
    moreover have "(\<forall>n. k \<le> n \<and> n \<le> 100 \<longrightarrow> exists (numbered ''untitled'' e n))
        \<longleftrightarrow> (\<forall>n. Suc k \<le> n \<and> n \<le> 100 \<longrightarrow> exists (numbered ''untitled'' e n))"
      using True by (metis Suc_leD Suc_leI le_neq_implies_less)
    ultimately show ?thesis using Suc.hyps(1) [OF k(2)] k(1) by simp
  next
    case False
    then show ?thesis using k(1) by (subst new_file_from.simps) auto
  qed
qed

text \<open>
  The new-file command picks a name that is in use, and so overwrites that file, exactly
  when all of its 101 names are taken.
\<close>

theorem new_file_overwrites:
  "exists (new_file_target exists e) \<longleftrightarrow> (\<forall>n \<le> 100. exists (numbered ''untitled'' e n))"
  using new_file_from_taken [of 0 "exists" e] by (simp add: new_file_target_def)

lemma new_file_overwrites_witness: "(\<lambda>_. True) (new_file_target (\<lambda>_. True) ''.st'')"
  using new_file_overwrites [of "\<lambda>_. True" "''.st''"] by simp

subsection \<open>The manifest\<close>

lemma value_char_ident: "ident_char c \<Longrightarrow> value_char c"
  by (auto simp: ident_char_def ident_start_def value_char_def is_letter_def Let_def)

text \<open>
  The manifest written for a valid project name is read back with that name and version
  1.0.
\<close>

theorem manifest_roundtrip:
  assumes "validateProjectName n"
  shows "parseProjectYaml (projectYaml n) = Some \<lparr>meta_name = n, meta_version = ''1.0''\<rparr>"
proof -
  have i: "iec_identifier n" using assms by (simp add: validateProjectName_def)
  then obtain c cs where n: "n = c # cs" "\<not> js_space c" "\<forall>x \<in> set n. ident_char x"
    by (rule iec_identifierE)
  define rest where "rest = join_with newline [''weftik_version: '' @ dq @ ''0.1.0'' @ dq,
      ''target:'', ''  runtime: weftik-rt'', ''paths:'', ''  programs: Programs/'',
      ''  function_blocks: FBs/'', ''  functions: Functions/'', ''  global_variables: GVL/'', []]"
  let ?v = "''version: '' @ dq @ ''1.0'' @ dq @ newline @ rest"
  have y: "projectYaml n = ''name: '' @ n @ newline @ ?v"
    by (simp add: projectYaml_def rest_def)
  have nl: "\<not> value_char (CHR 0x0A)" "line_end (CHR 0x0A)"
    by (simp_all add: value_char_def is_letter_def digit_char_def line_end_def Let_def)
  have tw: "takeWhile value_char (n @ CHR 0x0A # s) = n" "dropWhile value_char (n @ CHR 0x0A # s) = CHR 0x0A # s" for s
    using n(3) nl(1) value_char_ident by auto
  have q: "optional_quote (n @ s) = n @ s" for s
  proof -
    have "c \<noteq> CHR 0x22" using n by (auto simp: ident_char_def ident_start_def digit_char_def Let_def)
    then show ?thesis by (simp add: n(1) optional_quote_def dq_def)
  qed
  have skip: "dropWhile js_space (CHR '' '' # n @ s) = n @ s" for s
    using n by (simp add: js_space_def)
  have name: "yaml_field ''name'' (projectYaml n) = Some n"
    unfolding y yaml_field_def field_here_def
    using tw [of ?v] q [of "CHR 0x0A # ?v"] skip [of "CHR 0x0A # ?v"] n(1) nl
    by (simp add: newline_def Let_def optional_quote_def dq_def at_line_end_def)
  have "field_after ''version'' (l @ CHR 0x0A # s) =
      (case field_here ''version'' s of Some v \<Rightarrow> Some v | None \<Rightarrow> field_after ''version'' s)"
    if "list_all (\<lambda>c. \<not> line_end c) l" for l s
    using that nl(2) by (induction l) auto
  moreover have "list_all (\<lambda>c. \<not> line_end c) (''name: '' @ n)"
    using n(3) by (auto simp: list_all_iff line_end_def ident_char_def ident_start_def digit_char_def Let_def)
  moreover have "field_here ''version'' ?v = Some ''1.0''"
    by (simp add: field_here_def optional_quote_def dq_def js_space_def value_char_def is_letter_def
        digit_char_def newline_def at_line_end_def line_end_def Let_def)
  ultimately have "field_after ''version'' ((''name: '' @ n) @ CHR 0x0A # ?v) = Some ''1.0''" by simp
  moreover have "field_here ''version'' (projectYaml n) = None"
    by (simp add: y field_here_def)
  ultimately have "yaml_field ''version'' (projectYaml n) = Some ''1.0''"
    by (simp add: y yaml_field_def newline_def)
  with name show ?thesis by (simp add: parseProjectYaml_def)
qed

lemma manifest_roundtrip_witness:
  "parseProjectYaml (projectYaml ''Plant'') = Some \<lparr>meta_name = ''Plant'', meta_version = ''1.0''\<rparr>"
  by (rule manifest_roundtrip) (simp add: validateProjectName_def iec_identifier_def ident_char_def ident_start_def)

end
