(* ===== verification/PouTree.thy ===== *)
theory PouTree
  imports ProjectScan ProjectProps
begin

text \<open>
  The project tree (weftik-core/src/browser/pou-view/pou-tree-widget.tsx) as a machine: changes of files are
  collected for a moment, then the workspace is scanned; scans take their time and several may be in
  flight. Rendering is left out except for which files are shown and which one is highlighted.
\<close>

subsection \<open>The widget\<close>

record pou_tree =
  pt_groups :: "pou_group list"
  pt_error :: "string option"
  pt_loading :: bool
  pt_activeUri :: string
  pt_meta :: "project_meta option"
  pt_expanded :: "string list"
  pt_refreshScheduled :: bool

definition new_pou_tree :: pou_tree where
  "new_pou_tree = \<lparr>pt_groups = [], pt_error = None, pt_loading = False, pt_activeUri = [], pt_meta = None,
     pt_expanded = [], pt_refreshScheduled = False\<rparr>"

definition pt_toggleGroup :: "string \<Rightarrow> pou_tree \<Rightarrow> pou_tree" where
  "pt_toggleGroup i p = p\<lparr>pt_expanded :=
     (if i \<in> set (pt_expanded p) then removeAll i (pt_expanded p) else pt_expanded p @ [i])\<rparr>"

definition expandGroupFor :: "string \<Rightarrow> pou_tree \<Rightarrow> pou_tree" where
  "expandGroupFor u p = (case findPouGroupOf u (pt_groups p) of
     None \<Rightarrow> p
   | Some g \<Rightarrow> if group_id g \<in> set (pt_expanded p) then p else p\<lparr>pt_expanded := pt_expanded p @ [group_id g]\<rparr>)"

definition handleActiveEditor :: "string option \<Rightarrow> pou_tree \<Rightarrow> pou_tree" where
  "handleActiveEditor editor p = (let u = (case editor of Some u \<Rightarrow> u | None \<Rightarrow> []) in
     if u = pt_activeUri p then p else expandGroupFor u (p\<lparr>pt_activeUri := u\<rparr>))"

definition open_failed :: "string \<Rightarrow> string \<Rightarrow> pou_tree \<Rightarrow> pou_tree" where
  "open_failed name e p = p\<lparr>pt_error := Some (''Failed to open '' @ name @ '': '' @ e)\<rparr>"

text \<open>What a refresh reads: the files, then the manifest. \<open>None\<close> is a walk that does not end.\<close>

type_synonym scan = "string + pou_file list \<times> project_meta option"

definition readProjectMeta :: "(string \<Rightarrow> string + bool) \<Rightarrow> (string \<Rightarrow> string + string) \<Rightarrow> string \<Rightarrow> string + project_meta option" where
  "readProjectMeta exists readFile ws =
     (let manifestUri = ws @ ''/project.yaml'' in
      bindE (exists manifestUri) (\<lambda>there.
        if \<not> there then Inr None
        else bindE (readFile manifestUri) (\<lambda>content. Inr (parseProjectYaml content))))"

definition scan_workspace :: "(string \<Rightarrow> string + file_stat) \<Rightarrow> (string \<Rightarrow> string + bool) \<Rightarrow> (string \<Rightarrow> string + string)
    \<Rightarrow> string \<Rightarrow> scan option" where
  "scan_workspace resolve exists readFile ws =
     map_option (\<lambda>r. bindE r (\<lambda>files. bindE (readProjectMeta exists readFile ws) (\<lambda>meta. Inr (files, meta))))
       (collectFiles resolve ws)"

text \<open>The end of a refresh, for a workspace without a root and after a scan.\<close>

definition refresh_no_root :: "pou_tree \<Rightarrow> pou_tree" where
  "refresh_no_root p = expandGroupFor (pt_activeUri p)
     (p\<lparr>pt_groups := [], pt_error := None, pt_loading := False, pt_meta := None\<rparr>)"

definition refresh_end :: "(string \<Rightarrow> 'o::linorder) \<Rightarrow> scan \<Rightarrow> pou_tree \<Rightarrow> pou_tree" where
  "refresh_end collation r p =
     (case bindE r (\<lambda>(files, meta). bindE (classifyToGroups collation files) (\<lambda>groups. Inr (groups, meta))) of
        Inr (groups, meta) \<Rightarrow> expandGroupFor (pt_activeUri p)
          (p\<lparr>pt_groups := groups, pt_error := None, pt_loading := False, pt_meta := meta\<rparr>)
      | Inl e \<Rightarrow> p\<lparr>pt_groups := [], pt_error := Some (''Failed to scan workspace: '' @ e), pt_loading := False\<rparr>)"

subsection \<open>Timers and scans\<close>

text \<open>
  The refreshes are numbered in the order they start. \<open>tw_changed\<close> is how many had started when the last
  change was reported, \<open>tw_shown\<close> the one whose result is shown.
\<close>

record tree_world =
  tw_panel :: pou_tree
  tw_timers :: nat
  tw_scans :: "nat list"
  tw_started :: nat
  tw_changed :: nat
  tw_shown :: "nat option"

definition scheduleRefresh :: "tree_world \<Rightarrow> tree_world" where
  "scheduleRefresh w =
     (if pt_refreshScheduled (tw_panel w) then w
      else w\<lparr>tw_panel := (tw_panel w)\<lparr>pt_refreshScheduled := True\<rparr>, tw_timers := tw_timers w + 1\<rparr>)"

definition refresh_begin :: "string option \<Rightarrow> tree_world \<Rightarrow> tree_world" where
  "refresh_begin ws w = (case ws of
     None \<Rightarrow> w\<lparr>tw_panel := refresh_no_root (tw_panel w), tw_shown := Some (tw_started w), tw_started := tw_started w + 1\<rparr>
   | Some u \<Rightarrow> w\<lparr>tw_panel := (tw_panel w)\<lparr>pt_loading := True\<rparr>,
                tw_scans := tw_scans w @ [tw_started w], tw_started := tw_started w + 1\<rparr>)"

datatype tree_event =
    TChanged
  | TTimer "string option"
  | TScanned nat scan
  | TActiveEditor "string option"
  | TToggle string
  | TOpenFailed string string

fun tree_step :: "(string \<Rightarrow> 'o::linorder) \<Rightarrow> tree_event \<Rightarrow> tree_world \<Rightarrow> tree_world" where
  "tree_step collation TChanged w = scheduleRefresh (w\<lparr>tw_changed := tw_started w\<rparr>)"
| "tree_step collation (TTimer ws) w =
     (if tw_timers w = 0 then w
      else refresh_begin ws (w\<lparr>tw_timers := tw_timers w - 1,
             tw_panel := (tw_panel w)\<lparr>pt_refreshScheduled := False\<rparr>\<rparr>))"
| "tree_step collation (TScanned i r) w =
     (if i \<notin> set (tw_scans w) then w
      else w\<lparr>tw_panel := refresh_end collation r (tw_panel w), tw_scans := removeAll i (tw_scans w), tw_shown := Some i\<rparr>)"
| "tree_step collation (TActiveEditor editor) w = w\<lparr>tw_panel := handleActiveEditor editor (tw_panel w)\<rparr>"
| "tree_step collation (TToggle i) w = w\<lparr>tw_panel := pt_toggleGroup i (tw_panel w)\<rparr>"
| "tree_step collation (TOpenFailed name e) w = w\<lparr>tw_panel := open_failed name e (tw_panel w)\<rparr>"

definition open_pou_tree :: "string option \<Rightarrow> tree_world" where
  "open_pou_tree ws = refresh_begin ws \<lparr>tw_panel = new_pou_tree, tw_timers = 0, tw_scans = [], tw_started = 0,
     tw_changed = 0, tw_shown = None\<rparr>"

definition tree_run :: "(string \<Rightarrow> 'o::linorder) \<Rightarrow> tree_event list \<Rightarrow> tree_world \<Rightarrow> tree_world" where
  "tree_run collation es w = fold (tree_step collation) es w"

subsection \<open>Every session\<close>

definition tree_inv :: "(string \<Rightarrow> 'o::linorder) \<Rightarrow> tree_world \<Rightarrow> bool" where
  "tree_inv collation w \<longleftrightarrow>
     tw_timers w = (if pt_refreshScheduled (tw_panel w) then 1 else 0)
     \<and> tw_changed w \<le> tw_started w \<and> (pt_refreshScheduled (tw_panel w) \<or> tw_changed w < tw_started w)
     \<and> (pt_loading (tw_panel w) \<longrightarrow> tw_scans w \<noteq> [])
     \<and> distinct (pt_expanded (tw_panel w))
     \<and> (\<exists>files. classifyToGroups collation files = Inr (pt_groups (tw_panel w)))"

lemma no_files: "classifyToGroups collation [] = Inr []"
  by (simp add: classifyToGroups_def POU_GROUP_ORDER_def)

lemma expandGroupFor_other [simp]:
  "pt_groups (expandGroupFor u p) = pt_groups p" "pt_loading (expandGroupFor u p) = pt_loading p"
  "pt_refreshScheduled (expandGroupFor u p) = pt_refreshScheduled p" "pt_activeUri (expandGroupFor u p) = pt_activeUri p"
  "pt_error (expandGroupFor u p) = pt_error p" "pt_meta (expandGroupFor u p) = pt_meta p"
  "distinct (pt_expanded (expandGroupFor u p)) \<longleftrightarrow> distinct (pt_expanded p)"
  by (auto simp: expandGroupFor_def split: option.split)

lemma refresh_end_kept [simp]:
  "\<not> pt_loading (refresh_end collation r p)"
  "pt_refreshScheduled (refresh_end collation r p) = pt_refreshScheduled p"
  "pt_activeUri (refresh_end collation r p) = pt_activeUri p"
  "distinct (pt_expanded (refresh_end collation r p)) \<longleftrightarrow> distinct (pt_expanded p)"
  by (auto simp: refresh_end_def split: sum.split)

lemma refresh_end_groups: "\<exists>files. classifyToGroups collation files = Inr (pt_groups (refresh_end collation r p))"
proof (cases "bindE r (\<lambda>(files, meta). bindE (classifyToGroups collation files) (\<lambda>groups. Inr (groups, meta)))")
  case (Inl e)
  then show ?thesis by (auto simp: refresh_end_def no_files intro: exI [where x = "[]"])
next
  case (Inr gm)
  then obtain files where "classifyToGroups collation files = Inr (fst gm)"
    by (auto elim!: bindE_InrE)
  with Inr show ?thesis by (auto simp: refresh_end_def split: prod.split)
qed

lemma begin_inv:
  assumes "tw_timers w = (if pt_refreshScheduled (tw_panel w) then 1 else 0)" "tw_changed w \<le> tw_started w"
    "distinct (pt_expanded (tw_panel w))" "\<exists>files. classifyToGroups collation files = Inr (pt_groups (tw_panel w))"
  shows "tree_inv collation (refresh_begin ws w)"
  using assms no_files by (auto simp: tree_inv_def refresh_begin_def refresh_no_root_def split: option.split)

lemma tree_step_inv:
  assumes "tree_inv collation w"
  shows "tree_inv collation (tree_step collation e w)"
proof (cases e)
  case (TTimer ws)
  have "tree_inv collation (refresh_begin ws (w\<lparr>tw_timers := tw_timers w - 1, tw_panel := (tw_panel w)\<lparr>pt_refreshScheduled := False\<rparr>\<rparr>))"
    using assms by (intro begin_inv) (auto simp: tree_inv_def)
  with TTimer assms show ?thesis by simp
qed (use assms refresh_end_groups in \<open>auto simp: tree_inv_def scheduleRefresh_def handleActiveEditor_def Let_def
    pt_toggleGroup_def open_failed_def distinct_removeAll\<close>)

lemma open_inv: "tree_inv collation (open_pou_tree ws)"
  unfolding open_pou_tree_def by (rule begin_inv) (use no_files in \<open>auto simp: new_pou_tree_def\<close>)

lemma tree_run_inv: "tree_inv collation w \<Longrightarrow> tree_inv collation (tree_run collation es w)"
  by (induction es arbitrary: w) (auto simp: tree_run_def tree_step_inv)

text \<open>
  In every session of the project tree, whatever comes in whatever order: any number of changes waits for one timer;
  after a change either that timer is running or a scan has started since; the scanning message is only there
  while a scan is in flight; and the groups are those of some list of files.
\<close>

theorem tree_session:
  "let w = tree_run collation es (open_pou_tree ws) in
     tw_timers w = (if pt_refreshScheduled (tw_panel w) then 1 else 0)
     \<and> (pt_refreshScheduled (tw_panel w) \<or> tw_changed w < tw_started w)
     \<and> (pt_loading (tw_panel w) \<longrightarrow> tw_scans w \<noteq> [])
     \<and> distinct (pt_expanded (tw_panel w))
     \<and> (\<exists>files. classifyToGroups collation files = Inr (pt_groups (tw_panel w)))"
  using tree_run_inv [OF open_inv, of collation es ws] by (simp add: tree_inv_def Let_def)

subsection \<open>Which scan is shown\<close>

text \<open>Scans that end in the order in which they started; without a root a refresh ends at once.\<close>

fun in_order :: "(string \<Rightarrow> 'o::linorder) \<Rightarrow> tree_event list \<Rightarrow> tree_world \<Rightarrow> bool" where
  "in_order collation [] w = True"
| "in_order collation (e # es) w = ((case e of
       TScanned i r \<Rightarrow> tw_scans w \<noteq> [] \<longrightarrow> i \<in> set (tw_scans w) \<longrightarrow> i = hd (tw_scans w)
     | TTimer None \<Rightarrow> tw_scans w = []
     | _ \<Rightarrow> True) \<and> in_order collation es (tree_step collation e w))"

definition queued :: "tree_world \<Rightarrow> bool" where
  "queued w \<longleftrightarrow> (\<exists>k \<le> tw_started w. tw_scans w = [k..<tw_started w] \<and> (0 < k \<longrightarrow> tw_shown w = Some (k - 1)))"

lemma queued_begin: "queued w \<Longrightarrow> ws = None \<Longrightarrow> tw_scans w = [] \<Longrightarrow> queued (refresh_begin ws w)"
  "queued w \<Longrightarrow> queued (refresh_begin (Some u) w)"
  by (auto simp: queued_def refresh_begin_def intro: exI [where x = "Suc (tw_started w)"])

lemma queued_step:
  assumes "queued w" "in_order collation [e] w"
  shows "queued (tree_step collation e w)"
proof (cases e)
  case (TTimer ws)
  let ?w = "w\<lparr>tw_timers := tw_timers w - 1, tw_panel := (tw_panel w)\<lparr>pt_refreshScheduled := False\<rparr>\<rparr>"
  have "queued ?w" using assms(1) by (simp add: queued_def)
  then have "queued (refresh_begin ws ?w)"
    using queued_begin [of ?w] assms(2) TTimer by (cases ws) auto
  with TTimer assms(1) show ?thesis by simp
next
  case (TScanned i r)
  obtain k where k: "k \<le> tw_started w" "tw_scans w = [k..<tw_started w]"
    using assms(1) by (auto simp: queued_def)
  show ?thesis
  proof (cases "i \<in> set (tw_scans w)")
    case True
    with k have lt: "k < tw_started w" by auto
    with k have l: "tw_scans w = k # [Suc k..<tw_started w]" by (simp add: upt_conv_Cons)
    with True TScanned assms(2) have "i = k" by simp
    moreover have "removeAll k [Suc k..<tw_started w] = [Suc k..<tw_started w]" by (rule removeAll_id) simp
    ultimately show ?thesis using TScanned l lt
      by (simp add: queued_def) (intro exI [where x = "Suc k"], simp)
  qed (use TScanned assms(1) in simp)
qed (use assms(1) in \<open>auto simp: queued_def scheduleRefresh_def\<close>)

lemma queued_run:
  "queued w \<Longrightarrow> in_order collation es w \<Longrightarrow> queued (tree_run collation es w)"
  by (induction es arbitrary: w) (auto simp: tree_run_def queued_step)

text \<open>
  C29: the tree is not left behind: when scans end in the order in which they started, then as soon as no timer runs and no scan is
  in flight, what is shown comes from a scan that started after the last reported change.
\<close>

theorem tree_fresh:
  assumes order: "in_order collation es (open_pou_tree ws)"
    and quiet: "tw_timers (tree_run collation es (open_pou_tree ws)) = 0" "tw_scans (tree_run collation es (open_pou_tree ws)) = []"
  shows "\<exists>i. tw_shown (tree_run collation es (open_pou_tree ws)) = Some i \<and> tw_changed (tree_run collation es (open_pou_tree ws)) \<le> i"
proof -
  let ?w = "tree_run collation es (open_pou_tree ws)"
  have "queued (open_pou_tree ws)"
    unfolding open_pou_tree_def queued_def
    by (cases ws) (auto simp: refresh_begin_def intro: exI [where x = "Suc 0"])
  then have "queued ?w" using order by (rule queued_run)
  then obtain k where k: "k \<le> tw_started ?w" "tw_scans ?w = [k..<tw_started ?w]" "0 < k \<longrightarrow> tw_shown ?w = Some (k - 1)"
    unfolding queued_def by blast
  have "tw_changed ?w < tw_started ?w"
    using tree_run_inv [OF open_inv, of collation es ws] quiet(1) by (auto simp: tree_inv_def split: if_splits)
  moreover have "k = tw_started ?w"
  proof -
    have "[k..<tw_started ?w] = []" using k(2) quiet(2) by metis
    with k(1) show ?thesis by auto
  qed
  ultimately have "tw_shown ?w = Some (k - 1)" "tw_changed ?w \<le> k - 1" using k(3) by auto
  then show ?thesis by blast
qed

lemma tree_fresh_witness:
  "\<exists>i. tw_shown (tree_run length [TScanned 0 (Inr ([], None)), TChanged, TTimer (Some ''ws''), TScanned 1 (Inl ''gone'')]
     (open_pou_tree (Some ''ws''))) = Some i \<and> 1 \<le> i"
  (is "\<exists>i. tw_shown (tree_run length ?es ?w) = _ \<and> _")
proof -
  have "in_order length ?es ?w" "tw_timers (tree_run length ?es ?w) = 0" "tw_scans (tree_run length ?es ?w) = []"
    by code_simp+
  note fresh = tree_fresh [OF this]
  moreover have "tw_changed (tree_run length ?es ?w) = 1" by code_simp
  ultimately show ?thesis by metis
qed

text \<open>
  A scan that ends late puts old files back: when a change is noticed while a scan is still in flight and the second
  scan ends first, the first one overwrites its result, and nothing is scheduled to repair it.
\<close>

theorem tree_stale:
  assumes old: "classifyToGroups collation fs0 = Inr gs0"
  shows "let w = tree_run collation [TChanged, TTimer (Some ws), TScanned 1 (Inr (fs1, meta1)), TScanned 0 (Inr (fs0, meta0))]
           (open_pou_tree (Some ws)) in
     pt_groups (tw_panel w) = gs0 \<and> pt_meta (tw_panel w) = meta0 \<and> tw_shown w = Some 0 \<and> tw_changed w = 1
     \<and> tw_timers w = 0 \<and> tw_scans w = []"
  using old
  by (simp add: tree_run_def open_pou_tree_def refresh_begin_def scheduleRefresh_def new_pou_tree_def refresh_end_def Let_def)

lemma tree_stale_witness:
  "tw_shown (tree_run length [TChanged, TTimer (Some ''ws''), TScanned 1 (Inr ([], None)), TScanned 0 (Inr ([], None))]
     (open_pou_tree (Some ''ws''))) = Some 0"
  using tree_stale [OF no_files, of length "''ws''" "[]" None None] by (simp add: Let_def)

subsection \<open>What is shown\<close>

text \<open>The highlighted file is visible: the group it is shown in is open.\<close>

definition revealed :: "pou_tree \<Rightarrow> bool" where
  "revealed p \<longleftrightarrow> (\<forall>f. findHighlightedFile (pt_activeUri p) (pt_groups p) = Some f \<longrightarrow>
     (\<exists>g \<in> set (pt_groups p). f \<in> set (group_files g) \<and> group_id g \<in> set (pt_expanded p)))"

lemma highlighted_group:
  "findHighlightedFile u gs = Some f \<Longrightarrow> \<exists>g \<in> set gs. findPouGroupOf u gs = Some g \<and> f \<in> set (group_files g)"
proof (induction gs)
  case (Cons g gs)
  then have u: "u \<noteq> []" by (auto split: if_splits)
  show ?case
  proof (cases "List.find (\<lambda>f. uri f = u) (group_files g)")
    case None
    then have "\<not> (\<exists>f \<in> set (group_files g). uri f = u)" by (auto simp: find_None_iff)
    with None Cons u show ?thesis by (auto simp: findPouGroupOf_def)
  next
    case (Some f')
    then have "\<exists>f \<in> set (group_files g). uri f = u" "f' \<in> set (group_files g)"
      by (auto simp: find_Some_iff)
    with Some Cons.prems u show ?thesis by (auto simp: findPouGroupOf_def)
  qed
qed simp

lemma expandGroupFor_reveals:
  assumes "pt_activeUri p = u"
  shows "revealed (expandGroupFor u p)"
  unfolding revealed_def
proof (intro allI impI)
  fix f
  assume "findHighlightedFile (pt_activeUri (expandGroupFor u p)) (pt_groups (expandGroupFor u p)) = Some f"
  then obtain g where "g \<in> set (pt_groups p)" "findPouGroupOf u (pt_groups p) = Some g" "f \<in> set (group_files g)"
    using highlighted_group [of u "pt_groups p" f] assms by auto
  then show "\<exists>g \<in> set (pt_groups (expandGroupFor u p)). f \<in> set (group_files g) \<and> group_id g \<in> set (pt_expanded (expandGroupFor u p))"
    by (auto simp: expandGroupFor_def intro!: bexI [where x = g])
qed

lemma editor_revealed: "u \<noteq> pt_activeUri p \<Longrightarrow> revealed (handleActiveEditor (Some u) p)"
  by (simp add: handleActiveEditor_def expandGroupFor_reveals)

text \<open>
  C17: from the directories to the tree: a scan of a workspace that is a finite tree of directories, all of them readable, ends, and
  then the tree shows, in the fixed order of the groups, the files of each group's directory with an extension
  of the group, each once and sorted by name, with the group of the active file open; but a manifest that cannot be
  read, or one file in a directory named like an inherited property, such as constructor, leaves an
  empty tree and a message.
\<close>

theorem workspace_shown:
  assumes tree: "described resolve t"
  shows "\<exists>r. scan_workspace resolve exists readFile (located t) = Some r
    \<and> (let p' = refresh_end collation r p;
           files = map (\<lambda>s. \<lparr>uri = st_resource s, file_name = st_name s, ext = extOf (st_name s)\<rparr>) (rev (files_of t))
        in case readProjectMeta exists readFile (located t) of
          Inl e \<Rightarrow> pt_groups p' = [] \<and> pt_error p' = Some (''Failed to scan workspace: '' @ e)
        | Inr meta \<Rightarrow>
           if \<exists>f \<in> set files. parentDirName (uri f) \<in> set OBJECT_PROTOTYPE
           then pt_groups p' = [] \<and> pt_error p' = Some ''Failed to scan workspace: TypeError: allowed.has is not a function''
           else pt_error p' = None \<and> pt_meta p' = meta \<and> revealed p'
             \<and> pt_groups p' = map (\<lambda>(i, l). \<lparr>group_id = i, group_label = l,
                    group_files = sort_key (\<lambda>f. collation (file_name f)) (filter (in_group i) files)\<rparr>)
                  (filter (\<lambda>(i, l). filter (in_group i) files \<noteq> []) POU_GROUP_ORDER))"
proof (cases "readProjectMeta exists readFile (located t)")
  case (Inl e)
  then have "scan_workspace resolve exists readFile (located t) = Some (Inl e)"
    using tree by (simp add: scan_workspace_def collectFiles_tree)
  with Inl show ?thesis unfolding Let_def by (intro exI [where x = "Inl e"]) (simp add: refresh_end_def)
next
  case meta: (Inr meta)
  let ?files = "map (\<lambda>s. \<lparr>uri = st_resource s, file_name = st_name s, ext = extOf (st_name s)\<rparr>) (rev (files_of t))"
  have scan: "scan_workspace resolve exists readFile (located t) = Some (Inr (?files, meta))"
    using tree meta by (simp add: scan_workspace_def collectFiles_tree)
  show ?thesis
  proof (cases "\<exists>f \<in> set ?files. parentDirName (uri f) \<in> set OBJECT_PROTOTYPE")
    case True
    then have "classifyToGroups collation ?files = Inl ''TypeError: allowed.has is not a function''"
      using classify_groups [of collation ?files] by simp
    with scan meta True show ?thesis
      unfolding Let_def by (intro exI [where x = "Inr (?files, meta)"]) (simp add: refresh_end_def)
  next
    case False
    then have "classifyToGroups collation ?files = Inr (map (\<lambda>(i, l). \<lparr>group_id = i, group_label = l,
                    group_files = sort_key (\<lambda>f. collation (file_name f)) (filter (in_group i) ?files)\<rparr>)
                  (filter (\<lambda>(i, l). filter (in_group i) ?files \<noteq> []) POU_GROUP_ORDER))"
      using classify_groups [of collation ?files] by (simp only: if_False)
    with scan meta False show ?thesis
      unfolding Let_def by (intro exI [where x = "Inr (?files, meta)"]) (simp add: refresh_end_def expandGroupFor_reveals)
  qed
qed

lemma workspace_shown_witness:
  "\<exists>r. scan_workspace small_workspace (\<lambda>u. Inr False) (\<lambda>u. Inl ''no file'') ''ws'' = Some r
    \<and> map group_id (pt_groups (refresh_end length r new_pou_tree)) = [''Programs'']"
proof -
  have meta: "readProjectMeta (\<lambda>u. Inr False) (\<lambda>u. Inl ''no file'') (located small_tree) = Inr None"
    by (simp add: readProjectMeta_def)
  let ?files = "map (\<lambda>s. \<lparr>uri = st_resource s, file_name = st_name s, ext = extOf (st_name s)\<rparr>) (rev (files_of small_tree))"
  have plain: "\<not> (\<exists>f \<in> set ?files. parentDirName (uri f) \<in> set OBJECT_PROTOTYPE)"
    and groups: "filter (\<lambda>(i, l). filter (in_group i) ?files \<noteq> []) POU_GROUP_ORDER = [(''Programs'', ''Programs'')]"
    unfolding small_files by code_simp+
  have "located small_tree = ''ws''" by (simp add: small_tree_def)
  with workspace_shown [OF small_described, of "\<lambda>u. Inr False" "\<lambda>u. Inl ''no file''" length new_pou_tree] meta plain groups show ?thesis
    unfolding Let_def by (auto simp del: map_map)
qed

end
