(* ===== verification/StCommands.thy ===== *)
theory StCommands
  imports ProjectScan
begin

text \<open>
  The commands of the structured text editor (weftik-st-editor/src/browser): compile the active file (F7),
  compile the project (F6), deploy the project (F9) of st-compile-command.ts, with the mapping of compiler
  messages to editor markers of st-project-compile.ts. The commands talk to the backend of \<open>Deploy\<close>
  and read the workspace through \<open>ProjectScan\<close>; whether a file can be opened is a parameter.
\<close>

subsection \<open>Positions in compiler messages\<close>

text \<open>
  \<open>/line\s+(\d+)(?:,\s*col\s+(\d+))?/i\<close> at the beginning of a text, and at the first place where it
  matches. No part of the expression can match a shorter text and let the rest go on.
\<close>

definition word_number :: "string \<Rightarrow> string \<Rightarrow> (nat \<times> string) option" where
  "word_number w s =
     (let r = drop (length w) s; d = dropWhile js_space r in
      if toLowerCase (take (length w) s) = w \<and> takeWhile js_space r \<noteq> [] \<and> takeWhile digit_char d \<noteq> []
      then Some (digits_value (takeWhile digit_char d), dropWhile digit_char d) else None)"

definition col_number :: "string \<Rightarrow> nat option" where
  "col_number s = (case s of [] \<Rightarrow> None
     | c # cs \<Rightarrow> if c = CHR '','' then map_option fst (word_number ''col'' (dropWhile js_space cs)) else None)"

fun parsePosition :: "string \<Rightarrow> (nat \<times> nat) option" where
  "parsePosition [] = None"
| "parsePosition (c # s) = (case word_number ''line'' (c # s) of
     Some (line, rest) \<Rightarrow> Some (line, case col_number rest of Some col \<Rightarrow> col | None \<Rightarrow> 1)
   | None \<Rightarrow> parsePosition s)"

datatype marker_severity = MarkError | MarkWarning | MarkInfo | MarkHint

record st_marker =
  mk_line :: nat
  mk_column :: nat
  mk_message :: string
  mk_severity :: marker_severity

definition message_marker :: "string \<Rightarrow> st_marker" where
  "message_marker msg = \<lparr>mk_line = (case parsePosition msg of Some p \<Rightarrow> fst p | None \<Rightarrow> 1),
     mk_column = (case parsePosition msg of Some p \<Rightarrow> snd p | None \<Rightarrow> 1),
     mk_message = msg, mk_severity = MarkError\<rparr>"

fun markers_into :: "file_result list \<Rightarrow> (string, st_marker list) jsmap \<Rightarrow> (string, st_marker list) jsmap" where
  "markers_into [] m = m"
| "markers_into (r # rs) m =
     (if fr_ok r then markers_into rs m
      else markers_into rs (js_set (fr_path r) [message_marker (fr_message r)] m))"

definition mapProjectResultToMarkers :: "file_result list \<Rightarrow> (string, st_marker list) jsmap" where
  "mapProjectResultToMarkers results = markers_into results []"

subsection \<open>The editors\<close>

text \<open>The text models that exist, with the markers of this extension, and the messages shown.\<close>

record editor_marker =
  em_startLine :: nat
  em_startColumn :: nat
  em_endLine :: nat
  em_endColumn :: nat
  em_message :: string
  em_severity :: marker_severity

record workbench =
  wb_models :: "(string, editor_marker list) jsmap"
  wb_notices :: "notice list"

definition editor_marker_of :: "st_marker \<Rightarrow> editor_marker" where
  "editor_marker_of mk = \<lparr>em_startLine = mk_line mk, em_startColumn = mk_column mk, em_endLine = mk_line mk,
     em_endColumn = 2000, em_message = mk_message mk, em_severity = mk_severity mk\<rparr>"

definition notify :: "notice \<Rightarrow> workbench \<Rightarrow> workbench" where
  "notify n w = w\<lparr>wb_notices := wb_notices w @ [n]\<rparr>"

definition setMarkers :: "string \<Rightarrow> st_marker list \<Rightarrow> workbench \<Rightarrow> workbench" where
  "setMarkers u mks w = w\<lparr>wb_models := js_set u (map editor_marker_of mks) (wb_models w)\<rparr>"

text \<open>Opening a file gives it a model, or fails with a message.\<close>

definition openAndMark :: "(string \<Rightarrow> string option) \<Rightarrow> string \<Rightarrow> st_marker list \<Rightarrow> workbench \<Rightarrow> workbench" where
  "openAndMark refuses u mks w = (case refuses u of
     None \<Rightarrow> setMarkers u mks w
   | Some e \<Rightarrow> notify (NError (''Failed to open '' @ u @ '': '' @ e)) w)"

definition clearOkMarkers :: "file_result list \<Rightarrow> workbench \<Rightarrow> workbench" where
  "clearOkMarkers results w = w\<lparr>wb_models :=
     map (\<lambda>(u, mks). (u, if \<exists>r \<in> set results. fr_ok r \<and> fr_path r = u then [] else mks)) (wb_models w)\<rparr>"

subsection \<open>The commands\<close>

text \<open>F7: the text of the active editor, if there is one.\<close>

definition compileActiveEditor :: "'r native \<Rightarrow> (string \<times> string) option \<Rightarrow> workbench \<Rightarrow> workbench" where
  "compileActiveEditor server current w = (case current of
     None \<Rightarrow> w
   | Some (u, source) \<Rightarrow> (case compileSt server source of
       Inr p \<Rightarrow> notify (NInfo ''ST compile OK'') (setMarkers u [] w)
     | Inl msg \<Rightarrow> notify (NError msg) (setMarkers u [message_marker msg] w)))"

text \<open>
  F6 on the sources that were collected, and the whole command: it may run for ever, it may be
  rejected while reading the workspace, or it returns. \<open>ws\<close> is the root of the workspace, if one is open.
\<close>

definition compile_sources :: "'r native \<Rightarrow> (string \<Rightarrow> string option) \<Rightarrow> compile_input list \<Rightarrow> workbench \<Rightarrow> workbench" where
  "compile_sources server refuses programs w =
     (if programs = [] then notify (NInfo ''No .st/.il files found in the workspace.'') w
      else let results = compileProject server programs;
               markersByPath = mapProjectResultToMarkers results;
               errors = filter (\<lambda>r. \<not> fr_ok r) results;
               w1 = foldl (\<lambda>w r. openAndMark refuses (fr_path r)
                 (case map_of markersByPath (fr_path r) of Some mks \<Rightarrow> mks | None \<Rightarrow> []) w) w errors;
               w2 = clearOkMarkers results w1
           in if errors = [] then notify (NInfo (''Compile OK: '' @ nat_to_dec (length programs) @ '' file(s)'')) w2
              else notify (NError (''Compile failed: '' @ nat_to_dec (length errors) @ ''/'' @ nat_to_dec (length programs)
                @ '' file(s) with errors'')) w2)"

definition with_sources :: "(string \<Rightarrow> string + file_stat) \<Rightarrow> (string \<Rightarrow> string + string) \<Rightarrow> (string \<Rightarrow> 'o::linorder)
    \<Rightarrow> string option \<Rightarrow> string \<Rightarrow> (compile_input list \<Rightarrow> workbench \<Rightarrow> workbench) \<Rightarrow> workbench \<Rightarrow> (string + workbench) option" where
  "with_sources resolve readFile collation ws what run w = (case ws of
     None \<Rightarrow> Some (Inr (notify (NWarn (''Open a workspace first to '' @ what @ '' the project.'')) w))
   | Some u \<Rightarrow> map_option (\<lambda>r. bindE r (\<lambda>programs. Inr (run programs w))) (collectPouSources resolve readFile collation u))"

definition compileProject_command :: "(string \<Rightarrow> string + file_stat) \<Rightarrow> (string \<Rightarrow> string + string) \<Rightarrow> (string \<Rightarrow> 'o::linorder)
    \<Rightarrow> 'r native \<Rightarrow> (string \<Rightarrow> string option) \<Rightarrow> string option \<Rightarrow> workbench \<Rightarrow> (string + workbench) option" where
  "compileProject_command resolve readFile collation server refuses ws w =
     with_sources resolve readFile collation ws ''compile'' (compile_sources server refuses) w"

definition deploy_sources :: "string native \<Rightarrow> string \<Rightarrow> string \<Rightarrow> compile_input list \<Rightarrow> workbench \<Rightarrow> workbench" where
  "deploy_sources server socket secret programs w =
     (if programs = [] then notify (NInfo ''No .st/.il files found in the workspace.'') w
      else case deployProject server socket secret programs of
        Inr result \<Rightarrow> notify (NInfo (''Deploy OK: '' @ result)) w
      | Inl msg \<Rightarrow> notify (NError (''Deploy failed: '' @ msg)) w)"

definition deployProject_command :: "(string \<Rightarrow> string + file_stat) \<Rightarrow> (string \<Rightarrow> string + string) \<Rightarrow> (string \<Rightarrow> 'o::linorder)
    \<Rightarrow> string native \<Rightarrow> string \<Rightarrow> string \<Rightarrow> string option \<Rightarrow> workbench \<Rightarrow> (string + workbench) option" where
  "deployProject_command resolve readFile collation server socket secret ws w =
     with_sources resolve readFile collation ws ''deploy'' (deploy_sources server socket secret) w"

end
