(* ===== verification/StCommandProps.thy ===== *)
theory StCommandProps
  imports StCommands "HOL-Library.Multiset"
begin

text \<open>
  Properties of the project commands: what compiling the project leaves in the editors, with the walk over
  the workspace, the backend and the mapping of messages composed, and the positions read from messages.
\<close>

subsection \<open>Positions\<close>

lemma word_number_skips:
  assumes "\<not> str_includes (toLowerCase b) w" "b \<noteq> []" "w = ''line''"
  shows "word_number w (b @ w @ s) = None"
proof -
  have "toLowerCase (take 4 (b @ w @ s)) \<noteq> w"
  proof (cases "4 \<le> length b")
    case True
    then have "toLowerCase b = toLowerCase (take 4 (b @ w @ s)) @ toLowerCase (drop 4 b)"
      by (simp add: toLowerCase_def flip: map_append)
    with assms(1) show ?thesis by (metis append_Nil str_includes_infix)
  next
    case False
    then obtain c1 c2 c3 where "b = [c1] \<or> b = [c1, c2] \<or> b = [c1, c2, c3]"
      using assms(2) by (cases b; cases "tl b"; cases "tl (tl b)"; cases "tl (tl (tl b))") auto
    then show ?thesis using assms(3) by (auto simp: toLowerCase_def lower_char_def)
  qed
  moreover have "length w = 4" using assms(3) by simp
  ultimately show ?thesis unfolding word_number_def Let_def by metis
qed

lemma word_number_here:
  assumes "toLowerCase w = w" "s = [] \<or> \<not> digit_char (hd s)"
  shows "word_number w (w @ '' '' @ nat_to_dec n @ s) = Some (n, s)"
proof -
  have sp: "takeWhile js_space ('' '' @ nat_to_dec n @ s) = '' ''"
    "dropWhile js_space ('' '' @ nat_to_dec n @ s) = nat_to_dec n @ s"
  proof -
    obtain d ds where d: "nat_to_dec n = d # ds" by (cases "nat_to_dec n") simp_all
    then have "digit_char d" using nat_to_dec_digits [of d n] by simp
    then have "\<not> js_space d" by (auto simp: js_space_def digit_char_def)
    with d show "takeWhile js_space ('' '' @ nat_to_dec n @ s) = '' ''"
      "dropWhile js_space ('' '' @ nat_to_dec n @ s) = nat_to_dec n @ s"
      by (simp_all add: js_space_def)
  qed
  have "takeWhile digit_char s = []" "dropWhile digit_char s = s" using assms(2) by (cases s; auto)+
  then have dg: "takeWhile digit_char (nat_to_dec n @ s) = nat_to_dec n" "dropWhile digit_char (nat_to_dec n @ s) = s"
    using nat_to_dec_digits by (auto simp: takeWhile_append dropWhile_append)
  show ?thesis unfolding word_number_def using assms(1) by (simp add: Let_def sp dg del: append_Cons)
qed

lemma parsePosition_skips:
  "\<not> str_includes (toLowerCase pre) ''line'' \<Longrightarrow> parsePosition (pre @ ''line'' @ s) = parsePosition (''line'' @ s)"
proof (induction pre)
  case (Cons c pre)
  then have "\<not> str_includes (toLowerCase pre) ''line''" by (auto simp: toLowerCase_def)
  moreover have "word_number ''line'' ((c # pre) @ ''line'' @ s) = None" by (rule word_number_skips) (use Cons.prems in simp_all)
  ultimately show ?case using Cons.IH by simp
qed simp

text \<open>
  The position in a compiler message is read back, in the form "... line 3, col 5 ...", whatever stands around it
  as long as the word line does not occur before; without a column the marker is put at column 1.
\<close>

theorem position_reads_back:
  assumes pre: "\<not> str_includes (toLowerCase pre) ''line''"
    and post: "post = [] \<or> \<not> digit_char (hd post)"
  shows "parsePosition (pre @ ''line '' @ nat_to_dec l @ '', col '' @ nat_to_dec c @ post) = Some (l, c)
    \<and> (post = [] \<or> hd post \<noteq> CHR '','' \<longrightarrow> parsePosition (pre @ ''line '' @ nat_to_dec l @ post) = Some (l, 1))"
proof -
  have low: "toLowerCase ''line'' = ''line''" "toLowerCase ''col'' = ''col''" by (simp_all add: toLowerCase_def lower_char_def)
  have step: "parsePosition (pre @ ''line '' @ nat_to_dec l @ s)
      = Some (l, case col_number s of Some c \<Rightarrow> c | None \<Rightarrow> 1)" if "s = [] \<or> \<not> digit_char (hd s)" for s
  proof -
    have "word_number ''line'' (''line'' @ '' '' @ nat_to_dec l @ s) = Some (l, s)"
      by (rule word_number_here) (use low that in simp_all)
    moreover have "parsePosition (pre @ ''line '' @ nat_to_dec l @ s) = parsePosition (''line'' @ '' '' @ nat_to_dec l @ s)"
      using parsePosition_skips [OF pre, of "'' '' @ nat_to_dec l @ s"] by simp
    ultimately show ?thesis by simp
  qed
  have "word_number ''col'' (''col'' @ '' '' @ nat_to_dec c @ post) = Some (c, post)"
    by (rule word_number_here) (use low post in simp_all)
  then have "col_number ('', col '' @ nat_to_dec c @ post) = Some c" by (simp add: col_number_def js_space_def)
  then have "parsePosition (pre @ ''line '' @ nat_to_dec l @ '', col '' @ nat_to_dec c @ post) = Some (l, c)"
    using step [of "'', col '' @ nat_to_dec c @ post"] by (simp add: digit_char_def)
  moreover have "parsePosition (pre @ ''line '' @ nat_to_dec l @ post) = Some (l, 1)" if "post = [] \<or> hd post \<noteq> CHR '',''"
    using step [of post] post that by (cases post) (auto simp: col_number_def)
  ultimately show ?thesis by blast
qed

lemma position_reads_back_witness:
  "parsePosition (''unexpected END_IF at '' @ ''line '' @ nat_to_dec 3 @ '', col '' @ nat_to_dec 12 @ []) = Some (3, 12)"
  using position_reads_back [of "''unexpected END_IF at ''" "[]" 3 12]
  by (simp add: toLowerCase_def lower_char_def)

subsection \<open>Markers after compiling\<close>

lemma markers_into_other: "u \<notin> fr_path ` set rs \<Longrightarrow> map_of (markers_into rs m) u = map_of m u"
  by (induction rs arbitrary: m) auto

lemma markers_of_failed:
  "distinct (map fr_path rs) \<Longrightarrow> r \<in> set rs \<Longrightarrow> \<not> fr_ok r \<Longrightarrow>
    map_of (markers_into rs m) (fr_path r) = Some [message_marker (fr_message r)]"
  by (induction rs arbitrary: m) (auto simp: markers_into_other)

text \<open>The message of an editor that does not open.\<close>

definition open_failure :: "(string \<Rightarrow> string option) \<Rightarrow> string \<Rightarrow> notice list" where
  "open_failure refuses u = (case refuses u of None \<Rightarrow> [] | Some e \<Rightarrow> [NError (''Failed to open '' @ u @ '': '' @ e)])"

lemma opened_models:
  "map_of (wb_models (foldl (\<lambda>w r. openAndMark refuses (fr_path r) (f (fr_path r)) w) w rs)) u
      = (if u \<in> fr_path ` set rs \<and> refuses u = None then Some (map editor_marker_of (f u)) else map_of (wb_models w) u)"
  "wb_notices (foldl (\<lambda>w r. openAndMark refuses (fr_path r) (f (fr_path r)) w) w rs)
      = wb_notices w @ concat (map (\<lambda>r. open_failure refuses (fr_path r)) rs)"
  by (induction rs arbitrary: w) (auto simp: openAndMark_def setMarkers_def notify_def open_failure_def split: option.split)

lemma cleared_models:
  "map_of (wb_models (clearOkMarkers rs w)) u
    = map_option (\<lambda>mks. if \<exists>r \<in> set rs. fr_ok r \<and> fr_path r = u then [] else mks) (map_of (wb_models w) u)"
proof -
  have "map_of (map (\<lambda>(u, m). (u, g u m)) xs) u = map_option (g u) (map_of xs u)" for g :: "string \<Rightarrow> 'a \<Rightarrow> 'a" and xs u
    by (induction xs) auto
  then show ?thesis by (simp add: clearOkMarkers_def)
qed

text \<open>The result of one file in the editors.\<close>

definition marked :: "'r native \<Rightarrow> (string \<Rightarrow> string option) \<Rightarrow> compile_input \<Rightarrow> editor_marker list option \<Rightarrow> editor_marker list option" where
  "marked server refuses i before = (case compile_one server i of
     Inl msg \<Rightarrow> if refuses (path i) = None then Some [editor_marker_of (message_marker msg)] else before
   | Inr p \<Rightarrow> map_option (\<lambda>mks. []) before)"

definition compile_notice :: "'r native \<Rightarrow> compile_input list \<Rightarrow> notice" where
  "compile_notice server programs =
     (let bad = length (failedCompilePaths (compile_one server) programs) in
      if bad = 0 then NInfo (''Compile OK: '' @ nat_to_dec (length programs) @ '' file(s)'')
      else NError (''Compile failed: '' @ nat_to_dec bad @ ''/'' @ nat_to_dec (length programs) @ '' file(s) with errors''))"

text \<open>The messages of a compilation: one for each rejected file whose editor does not open, then the outcome.\<close>

definition compile_notices :: "'r native \<Rightarrow> (string \<Rightarrow> string option) \<Rightarrow> compile_input list \<Rightarrow> notice list" where
  "compile_notices server refuses programs =
     (if programs = [] then [NInfo ''No .st/.il files found in the workspace.'']
      else concat (map (open_failure refuses) (failedCompilePaths (compile_one server) programs)) @ [compile_notice server programs])"

lemma failed_paths: "map fr_path (filter (\<lambda>r. \<not> fr_ok r) (compileProject server programs)) = failedCompilePaths (compile_one server) programs"
  by (induction programs) (auto simp: compileProject_def compileProgram_def split: sum.split)

lemma failed_results: "length (filter (\<lambda>r. \<not> fr_ok r) (compileProject server programs))
    = length (failedCompilePaths (compile_one server) programs)"
  by (induction programs) (auto simp: compileProject_def compileProgram_def split: sum.split)

lemma result_paths: "map fr_path (compileProject server programs) = map path programs"
  by (auto simp: compileProject_def compileProgram_def split: sum.split)

lemma compile_sources_marks:
  fixes server :: "'r native" and w :: workbench and refuses :: "string \<Rightarrow> string option"
  assumes some: "programs \<noteq> []" and dist: "distinct (map path programs)"
  defines "w' \<equiv> compile_sources server refuses programs w"
  shows "i \<in> set programs \<Longrightarrow> map_of (wb_models w') (path i) = marked server refuses i (map_of (wb_models w) (path i))"
    and "u \<notin> path ` set programs \<Longrightarrow> map_of (wb_models w') u = map_of (wb_models w) u"
    and "wb_notices w' = wb_notices w @ compile_notices server refuses programs"
proof -
  let ?rs = "compileProject server programs"
  let ?f = "\<lambda>u. case map_of (mapProjectResultToMarkers ?rs) u of Some mks \<Rightarrow> mks | None \<Rightarrow> []"
  let ?w1 = "foldl (\<lambda>w r. openAndMark refuses (fr_path r) (?f (fr_path r)) w) w (filter (\<lambda>r. \<not> fr_ok r) ?rs)"
  have w': "w' = notify (compile_notice server programs) (clearOkMarkers ?rs ?w1)"
  proof -
    have "filter (\<lambda>r. \<not> fr_ok r) ?rs = [] \<longleftrightarrow> failedCompilePaths (compile_one server) programs = []"
      using failed_results [of server programs] by (metis length_0_conv)
    then show ?thesis
      by (simp add: w'_def compile_sources_def compile_notice_def Let_def failed_results some del: filter_empty_conv)
  qed
  note opened = opened_models [where refuses = refuses and f = ?f]
  have paths: "distinct (map fr_path ?rs)" "fr_path ` set ?rs = path ` set programs"
    using dist result_paths [of server programs] by (simp_all flip: set_map)
  have "concat (map (\<lambda>r. open_failure refuses (fr_path r)) (filter (\<lambda>r. \<not> fr_ok r) ?rs))
      = concat (map (open_failure refuses) (failedCompilePaths (compile_one server) programs))"
    unfolding failed_paths [symmetric] by (simp add: comp_def)
  then show "wb_notices w' = wb_notices w @ compile_notices server refuses programs"
    by (simp add: w' notify_def clearOkMarkers_def opened compile_notices_def some)
  have models: "map_of (wb_models w') u = map_option (\<lambda>mks. if \<exists>r \<in> set ?rs. fr_ok r \<and> fr_path r = u then [] else mks)
      (if (\<exists>r \<in> set ?rs. \<not> fr_ok r \<and> fr_path r = u) \<and> refuses u = None then Some (map editor_marker_of (?f u)) else map_of (wb_models w) u)" for u
    by (simp add: w' notify_def cleared_models opened) (auto simp: image_iff)
  show "map_of (wb_models w') u = map_of (wb_models w) u" if "u \<notin> path ` set programs"
  proof -
    have none: "(\<exists>r \<in> set ?rs. P r \<and> fr_path r = u) = False" for P using that paths(2) by auto
    show ?thesis unfolding models none by (cases "map_of (wb_models w) u") simp_all
  qed
  show "map_of (wb_models w') (path i) = marked server refuses i (map_of (wb_models w) (path i))" if i: "i \<in> set programs"
  proof -
    let ?r = "compileProgram server i"
    have r: "?r \<in> set ?rs" "fr_path ?r = path i"
      using i by (auto simp: compileProject_def compileProgram_def split: sum.split)
    have only: "(\<exists>r \<in> set ?rs. P r \<and> fr_path r = path i) \<longleftrightarrow> P ?r" for P
      using r paths(1) by (metis (no_types, lifting) distinct_map inj_onD)
    show ?thesis
    proof (cases "compile_one server i")
      case (Inl msg)
      then have bad: "\<not> fr_ok ?r" "fr_message ?r = msg" by (simp_all add: compileProgram_def)
      with markers_of_failed [OF paths(1) r(1)] r(2) have "?f (path i) = [message_marker msg]"
        by (simp add: mapProjectResultToMarkers_def)
      with bad Inl show ?thesis unfolding models only
        by (cases "map_of (wb_models w) (path i)") (simp_all add: marked_def)
    next
      case (Inr p)
      then have "fr_ok ?r" by (simp add: compileProgram_def)
      with Inr show ?thesis unfolding models only
        by (cases "map_of (wb_models w) (path i)") (simp_all add: marked_def)
    qed
  qed
qed

text \<open>
  C16: compiling the project, from the directories to the editors: on a workspace that is a finite tree of readable directories
  without a location twice, the command returns. If a structured text or instruction list file cannot be
  read, the command is rejected with that error and the editors stay as they are. Otherwise every such file that
  the compiler rejects and that can be opened is open and has exactly one marker, at the position named
  in the message, every accepted one that is open has none, and all other editors are as they were; a message for each
  rejected file that cannot be opened is followed by one that counts the failures, or the message that there is no file. The order of
  the walk and of the sorting does not matter.
\<close>

theorem project_compiled:
  assumes tree: "described resolve t" and distinct: "distinct (map st_resource (filter is_source (files_of t)))"
  shows "if \<exists>s \<in> set (filter is_source (files_of t)). \<exists>e. readFile (st_resource s) = Inl e
    then \<exists>s \<in> set (filter is_source (files_of t)). \<exists>e. readFile (st_resource s) = Inl e
      \<and> compileProject_command resolve readFile collation server refuses (Some (located t)) w = Some (Inl e)
    else \<exists>w' programs. compileProject_command resolve readFile collation server refuses (Some (located t)) w = Some (Inr w')
      \<and> mset programs = mset (map (source_of (text_at readFile)) (filter is_source (files_of t)))
      \<and> (\<forall>i \<in> set programs. map_of (wb_models w') (path i) = marked server refuses i (map_of (wb_models w) (path i)))
      \<and> (\<forall>u. u \<notin> path ` set programs \<longrightarrow> map_of (wb_models w') u = map_of (wb_models w) u)
      \<and> wb_notices w' = wb_notices w @ compile_notices server refuses programs"
    (is "if ?unreadable then ?rejected else ?compiled")
proof (cases ?unreadable)
  case True
  from collectPouSources_tree(1) [OF tree True] have ?rejected
    by (fastforce simp: compileProject_command_def with_sources_def)
  with True show ?thesis by simp
next
  case False
  let ?P = "sort_key (\<lambda>i. collation (path i)) (map (source_of (text_at readFile)) (rev (filter is_source (files_of t))))"
  have ms: "mset ?P = mset (map (source_of (text_at readFile)) (filter is_source (files_of t)))"
    by (simp only: mset_sort mset_map mset_rev)
  have "map path (map (source_of (text_at readFile)) (filter is_source (files_of t))) = map st_resource (filter is_source (files_of t))"
    by (simp add: source_of_def)
  with distinct ms have dist: "distinct (map path ?P)" by (metis mset_eq_imp_distinct_iff mset_map)
  let ?w' = "compile_sources server refuses ?P w"
  have run: "compileProject_command resolve readFile collation server refuses (Some (located t)) w = Some (Inr ?w')"
    unfolding compileProject_command_def with_sources_def option.case collectPouSources_tree(2) [OF tree False] by simp
  have "(\<forall>i \<in> set ?P. map_of (wb_models ?w') (path i) = marked server refuses i (map_of (wb_models w) (path i)))
      \<and> (\<forall>u. u \<notin> path ` set ?P \<longrightarrow> map_of (wb_models ?w') u = map_of (wb_models w) u)
      \<and> wb_notices ?w' = wb_notices w @ compile_notices server refuses ?P"
  proof (cases "?P = []")
    case True
    then show ?thesis unfolding True by (simp add: compile_sources_def notify_def compile_notices_def)
  next
    case ne: False
    from compile_sources_marks [OF ne dist] show ?thesis by blast
  qed
  with run ms False show ?thesis by (intro if_not_P [THEN iffD2, OF False] exI conjI) blast+
qed

lemma project_compiled_witness:
  "\<exists>w'. compileProject_command small_workspace (\<lambda>u. Inr ''IF'') length
      \<lparr>compileSt = \<lambda>s. Inl ''unexpected end at line 2, col 3'', compileIl = \<lambda>s. Inl [], deploy_program = None\<rparr>
      (\<lambda>u. None) (Some ''ws'') \<lparr>wb_models = [(''other'', [])], wb_notices = []\<rparr> = Some (Inr w')
    \<and> map_of (wb_models w') ''ws/Programs/a.st'' = Some [editor_marker_of (message_marker ''unexpected end at line 2, col 3'')]"
  (is "\<exists>w'. compileProject_command _ _ _ ?server _ _ ?w = _ \<and> _")
proof -
  let ?t = small_tree and ?a = "source_of (text_at (\<lambda>u. Inr ''IF'')) (plain_file ''ws/Programs/a.st'' ''a.ST'')"
  have dist: "distinct (map st_resource (filter is_source (files_of ?t)))" by (simp only: small_sources) simp
  have at: "located ?t = ''ws''" by (simp add: small_tree_def)
  obtain w' programs where w': "compileProject_command small_workspace (\<lambda>u. Inr ''IF'') length ?server (\<lambda>u. None) (Some ''ws'') ?w = Some (Inr w')"
    and ps: "mset programs = mset (map (source_of (text_at (\<lambda>u. Inr ''IF''))) [plain_file ''ws/Programs/a.st'' ''a.ST''])"
    and marks: "\<forall>i \<in> set programs. map_of (wb_models w') (path i) = marked ?server (\<lambda>u. None) i (map_of (wb_models ?w) (path i))"
    using project_compiled [OF small_described dist, where readFile = "\<lambda>u. Inr ''IF''" and refuses = "\<lambda>u. None"
        and collation = length and server = ?server and w = ?w, unfolded small_sources at] by auto
  from ps have "programs = [?a]" by simp
  with marks have "map_of (wb_models w') (path ?a) = marked ?server (\<lambda>u. None) ?a None" by (simp add: source_of_def plain_file_def)
  moreover have "path ?a = ''ws/Programs/a.st''" "compileKindForPath ''ws/Programs/a.st'' = ''st''"
    by code_simp+
  ultimately show ?thesis using w' by (simp add: marked_def compile_one_def)
qed

end
