(* ===== verification/Wizards.thy ===== *)
theory Wizards
  imports Project
begin

text \<open>
  The commands that create files (weftik-core/src/browser): the project wizard
  (project-wizard-contribution.ts), the wizard for program organization units (pou-wizard-contribution.ts) and the
  new-file commands (iec-new-file-contribution.ts), on a disk whose service may refuse to create a folder or to
  write a file. What the user picks is an argument; a cancelled dialog is \<open>None\<close>.
\<close>

subsection \<open>The disk and the steps of a command\<close>

record disk =
  dk_dirs :: "string list"
  dk_files :: "(string, string) jsmap"

record wizard_world =
  wz_disk :: disk
  wz_notices :: "notice list"
  wz_opened :: "string option"

text \<open>A step may throw; what it did before stays done.\<close>

type_synonym 'a step = "wizard_world \<Rightarrow> (string + 'a) \<times> wizard_world"

definition give :: "'a \<Rightarrow> 'a step" where
  "give a w = (Inr a, w)"

definition after :: "'a step \<Rightarrow> ('a \<Rightarrow> 'b step) \<Rightarrow> 'b step" where
  "after m f w = (case m w of (Inl e, w') \<Rightarrow> (Inl e, w') | (Inr a, w') \<Rightarrow> f a w')"

definition catching :: "'a step \<Rightarrow> (string \<Rightarrow> 'a step) \<Rightarrow> 'a step" where
  "catching m h w = (case m w of (Inl e, w') \<Rightarrow> h e w' | (Inr a, w') \<Rightarrow> (Inr a, w'))"

definition say :: "notice \<Rightarrow> unit step" where
  "say n w = (Inr (), w\<lparr>wz_notices := wz_notices w @ [n]\<rparr>)"

definition there :: "string \<Rightarrow> disk \<Rightarrow> bool" where
  "there u d \<longleftrightarrow> u \<in> set (dk_dirs d) \<or> map_of (dk_files d) u \<noteq> None"

definition fs_exists :: "string \<Rightarrow> bool step" where
  "fs_exists u w = (Inr (there u (wz_disk w)), w)"

definition createFolder :: "(string \<Rightarrow> string option) \<Rightarrow> string \<Rightarrow> unit step" where
  "createFolder refuses u w = (case refuses u of
     Some e \<Rightarrow> (Inl e, w)
   | None \<Rightarrow> (Inr (), w\<lparr>wz_disk := (wz_disk w)\<lparr>dk_dirs := dk_dirs (wz_disk w) @ [u]\<rparr>\<rparr>))"

text \<open>Writing creates or replaces.\<close>

definition writeFile :: "(string \<Rightarrow> string option) \<Rightarrow> string \<Rightarrow> string \<Rightarrow> unit step" where
  "writeFile refuses u content w = (case refuses u of
     Some e \<Rightarrow> (Inl e, w)
   | None \<Rightarrow> (Inr (), w\<lparr>wz_disk := (wz_disk w)\<lparr>dk_files := js_set u content (dk_files (wz_disk w))\<rparr>\<rparr>))"

definition in_dir :: "string \<Rightarrow> string \<Rightarrow> string" where
  "in_dir u n = u @ ''/'' @ n"

definition ensure_dir :: "(string \<Rightarrow> string option) \<Rightarrow> string \<Rightarrow> unit step" where
  "ensure_dir refuses u = after (fs_exists u) (\<lambda>e. if e then give () else createFolder refuses u)"

subsection \<open>The project wizard\<close>

text \<open>The input box returns nothing, or a text whose trimmed form is valid.\<close>

definition pickName :: "(string \<Rightarrow> bool) \<Rightarrow> string option \<Rightarrow> string option" where
  "pickName valid answer = (case answer of None \<Rightarrow> None
     | Some v \<Rightarrow> if valid (trim v) \<and> trim v \<noteq> [] then Some (trim v) else None)"

fun ensure_chain :: "(string \<Rightarrow> string option) \<Rightarrow> string \<Rightarrow> string list \<Rightarrow> unit step" where
  "ensure_chain refuses current [] = give ()"
| "ensure_chain refuses current (seg # segs) =
     after (ensure_dir refuses (in_dir current seg)) (\<lambda>_. ensure_chain refuses (in_dir current seg) segs)"

definition ensureDirChain :: "(string \<Rightarrow> string option) \<Rightarrow> string \<Rightarrow> string \<Rightarrow> unit step" where
  "ensureDirChain refuses base relPath = ensure_chain refuses base (butlast (split_on (CHR ''/'') relPath))"

text \<open>The loop over the template files, with the lists of created and skipped ones.\<close>

fun create_files :: "(string \<Rightarrow> string option) \<Rightarrow> string \<Rightarrow> (string \<times> string) list
    \<Rightarrow> string list \<Rightarrow> string list \<Rightarrow> (string list \<times> string list) step" where
  "create_files refuses base [] created skipped = give (created, skipped)"
| "create_files refuses base ((p, content) # fs) created skipped =
     after (ensureDirChain refuses base p) (\<lambda>_.
     after (fs_exists (in_dir base p)) (\<lambda>e.
       if e then create_files refuses base fs created (skipped @ [p])
       else after (writeFile refuses (in_dir base p) content) (\<lambda>_.
         create_files refuses base fs (created @ [p]) skipped)))"

definition projectDirFromScratch :: "(string \<Rightarrow> string option) \<Rightarrow> string option \<Rightarrow> string option \<Rightarrow> string \<Rightarrow> string option step" where
  "projectDirFromScratch refuses parent fallback name = (case parent of
     None \<Rightarrow> give None
   | Some dir \<Rightarrow> let projectUri = in_dir dir name in
       after (fs_exists projectUri) (\<lambda>e.
         if e then after (say (NError (''A project '' @ dq @ name @ dq @ '' already exists at '' @ projectUri @ ''. Pick a different name or location.''))) (\<lambda>_. give None)
         else catching (after (createFolder refuses projectUri) (\<lambda>_. give (Some projectUri)))
           (\<lambda>err. after (say (NError (''Cannot create project directory: '' @ err))) (\<lambda>_.
             (case fallback of
                None \<Rightarrow> give None
              | Some dir' \<Rightarrow> let fallbackUri = in_dir dir' name in
                  after (fs_exists fallbackUri) (\<lambda>e'.
                    if e' then after (say (NError (''A project '' @ dq @ name @ dq @ '' already exists at '' @ fallbackUri @ ''.''))) (\<lambda>_. give None)
                    else after (createFolder refuses fallbackUri) (\<lambda>_. give (Some fallbackUri))))))))"

definition open_workspace :: "string \<Rightarrow> unit step" where
  "open_workspace u w = (Inr (), w\<lparr>wz_opened := Some u\<rparr>)"

definition write_project :: "(string \<Rightarrow> string option) \<Rightarrow> bool \<Rightarrow> string \<Rightarrow> string \<Rightarrow> unit step" where
  "write_project refuses scratch base name w =
     (case create_files refuses base (projectTemplateFiles name) [] [] w of
        (Inl e, w1) \<Rightarrow> say (NError (''Failed to create Weftik project: '' @ e)) w1
      | (Inr (created, skipped), w1) \<Rightarrow>
          after (if created \<noteq> [] then say (NInfo (''Weftik project '' @ dq @ name @ dq @ '' created: '' @ join_with '', '' created)) else give ())
            (\<lambda>_. after (if skipped \<noteq> [] then say (NWarn (''Skipped existing files (not overwritten): '' @ join_with '', '' skipped)) else give ())
              (\<lambda>_. if scratch then open_workspace base else give ())) w1)"

definition projectWizard :: "(string \<Rightarrow> string option) \<Rightarrow> string option \<Rightarrow> string option \<Rightarrow> string option \<Rightarrow> string option \<Rightarrow> unit step" where
  "projectWizard refuses existingRoot answer parent fallback = (case pickName validateProjectName answer of
     None \<Rightarrow> give ()
   | Some name \<Rightarrow> after (case existingRoot of Some u \<Rightarrow> give (Some u) | None \<Rightarrow> projectDirFromScratch refuses parent fallback name)
       (\<lambda>r. case r of None \<Rightarrow> give () | Some base \<Rightarrow> write_project refuses (existingRoot = None) base name))"

subsection \<open>The wizard for program organization units\<close>

definition children_names :: "string \<Rightarrow> disk \<Rightarrow> string list" where
  "children_names u d = filter (\<lambda>n. n \<noteq> [] \<and> CHR ''/'' \<notin> set n)
     (map (drop (length u + 1)) (filter (starts_with (u @ ''/'')) (dk_dirs d @ map fst (dk_files d))))"

definition taken_names :: "string \<Rightarrow> disk \<Rightarrow> string list" where
  "taken_names u d = (if there u d then children_names u d else [])"

definition pou_name :: "disk \<Rightarrow> string \<Rightarrow> pou_target \<Rightarrow> string option \<Rightarrow> string option" where
  "pou_name d dirUri target answer =
     pickName (\<lambda>n. validatePouName n \<and> n @ target_ext target \<notin> set (taken_names dirUri d)) answer"

fun type_label :: "pou_type \<Rightarrow> string" where
  "type_label Program = ''Program''"
| "type_label FunctionBlock = ''Function Block''"
| "type_label Function = ''Function''"
| "type_label GVL = ''Global Variable List''"

text \<open>A type with one language does not ask for it.\<close>

definition pickLanguage :: "pou_type \<Rightarrow> pou_language option \<Rightarrow> pou_language option" where
  "pickLanguage type answer = (case languagesFor type of [l] \<Rightarrow> Some l | _ \<Rightarrow> answer)"

definition write_pou :: "(string \<Rightarrow> string option) \<Rightarrow> string \<Rightarrow> pou_type \<Rightarrow> pou_target \<Rightarrow> string \<Rightarrow> unit step" where
  "write_pou refuses dirUri type target name =
     catching (after (ensure_dir refuses dirUri) (\<lambda>_.
       after (writeFile refuses (in_dir dirUri (name @ target_ext target)) (target_template target name)) (\<lambda>_.
         say (NInfo (''Created '' @ type_label type @ '' '' @ name @ target_ext target @ '' in '' @ target_dir target @ ''/'')))))
       (\<lambda>e. say (NError (''Failed to create POU: '' @ e)))"

text \<open>
  The whole wizard; \<open>picked\<close> is the disk when the names in the directory were read for the input box,
  the current one is the disk when the user has answered.
\<close>

definition pouWizard :: "(string \<Rightarrow> string option) \<Rightarrow> disk \<Rightarrow> string option \<Rightarrow> pou_type option \<Rightarrow> pou_language option
    \<Rightarrow> string option \<Rightarrow> unit step" where
  "pouWizard refuses picked ws type language answer = (case ws of
     None \<Rightarrow> say (NWarn ''No workspace folder open. Open a project first.'')
   | Some u \<Rightarrow> (case type of
       None \<Rightarrow> give ()
     | Some ty \<Rightarrow> (case pickLanguage ty language of
         None \<Rightarrow> give ()
       | Some l \<Rightarrow> let target = pouTarget ty l; dirUri = in_dir u (target_dir target) in
           (case pou_name picked dirUri target answer of
              None \<Rightarrow> give ()
            | Some name \<Rightarrow> write_pou refuses dirUri ty target name))))"

subsection \<open>New files\<close>

definition IEC_TEMPLATES :: "(string \<times> string) list" where
  "IEC_TEMPLATES =
     [(''.st'', text_lines [''(* Structured Text Program *)'', [], ''PROGRAM Main'', ''VAR'', ''    (* variables *)'', ''END_VAR'', [], ''(* code *)'', [], ''END_PROGRAM'']),
      (''.il'', text_lines [''(* Instruction List Program *)'', [], ''LD TRUE'', ''ST result'']),
      (''.ld'', ''{'' @ dq @ ''id'' @ dq @ '':'' @ dq @ ''untitled'' @ dq @ '','' @ dq @ ''nodes'' @ dq @ '':[],'' @ dq @ ''edges'' @ dq @ '':[],'' @ dq @ ''rungs'' @ dq @ '':[]}''),
      (''.fbd'', ''{'' @ dq @ ''id'' @ dq @ '':'' @ dq @ ''untitled'' @ dq @ '','' @ dq @ ''nodes'' @ dq @ '':[],'' @ dq @ ''edges'' @ dq @ '':[]}''),
      (''.sfc'', text_lines [''(* Sequential Function Chart '' @ em_dash @ '' placeholder *)'']),
      (''.gvl'', text_lines [''(* Global Variable List *)'', [], ''VAR_GLOBAL'', ''    (* global variables *)'', ''END_VAR'']),
      (''.hmi'', text_lines [''# HMI Layout'', ''widgets: []'']),
      (''.gcode'', text_lines [''; G-code CNC Program'', ''G21 ; mm units'', ''G90 ; absolute positioning'', ''G0 X0 Y0 Z0'', ''M30''])]"

definition new_file_dir :: "string \<Rightarrow> string \<Rightarrow> string" where
  "new_file_dir ws e = (case IEC_LANG_DIR e of Some n \<Rightarrow> in_dir ws n | None \<Rightarrow> ws)"

definition write_new_file :: "(string \<Rightarrow> string option) \<Rightarrow> string \<Rightarrow> string \<Rightarrow> string \<Rightarrow> unit step" where
  "write_new_file refuses ws e template w =
     (let dirUri = new_file_dir ws e in
      catching (after (ensure_dir refuses dirUri) (\<lambda>_ w1.
        let target = new_file_target (\<lambda>n. there (in_dir dirUri n) (wz_disk w1)) e in
        after (writeFile refuses (in_dir dirUri target) template) (\<lambda>_. say (NInfo (''Created: '' @ target))) w1))
        (\<lambda>err. say (NError (''Failed to create file: '' @ err))) w)"

definition newFile :: "(string \<Rightarrow> string option) \<Rightarrow> string option \<Rightarrow> string \<times> string \<Rightarrow> unit step" where
  "newFile refuses ws entry = (case ws of
     None \<Rightarrow> say (NWarn ''No workspace folder open. Open a project first.'')
   | Some u \<Rightarrow> write_new_file refuses u (fst entry) (snd entry))"

end
