(* ===== verification/WizardProps.thy ===== *)
theory WizardProps
  imports Wizards ProjectProps
begin

text \<open>
  Properties of the commands that create files. The interface \<open>careful\<close> is a relation between the disk before and
  after that is kept by creating folders and by writing files that were not there; every command built from such
  steps keeps it, also when a step throws in between.
\<close>

subsection \<open>The interface\<close>

definition steady_on :: "(disk \<Rightarrow> disk \<Rightarrow> bool) \<Rightarrow> (disk \<Rightarrow> bool) \<Rightarrow> 'a step \<Rightarrow> bool" where
  "steady_on R P m \<longleftrightarrow> (\<forall>w. P (wz_disk w) \<longrightarrow> R (wz_disk w) (wz_disk (snd (m w))))"

abbreviation steady :: "(disk \<Rightarrow> disk \<Rightarrow> bool) \<Rightarrow> 'a step \<Rightarrow> bool" where
  "steady R \<equiv> steady_on R (\<lambda>d. True)"

locale careful =
  fixes R :: "disk \<Rightarrow> disk \<Rightarrow> bool"
    and inside :: "string \<Rightarrow> bool"
  assumes same: "R d d"
    and trans: "R d d' \<Longrightarrow> R d' d'' \<Longrightarrow> R d d''"
    and folder: "inside u \<Longrightarrow> \<not> there u d \<Longrightarrow> R d (d\<lparr>dk_dirs := dk_dirs d @ [u]\<rparr>)"
    and new_text: "inside u \<Longrightarrow> \<not> there u d \<Longrightarrow> R d (d\<lparr>dk_files := js_set u c (dk_files d)\<rparr>)"
    and below: "inside u \<Longrightarrow> inside (in_dir u n)"
begin

lemma steady_quiet [simp]:
  "steady_on R P (give a)" "steady_on R P (say n)" "steady_on R P (fs_exists u)" "steady_on R P (open_workspace u)"
  by (simp_all add: steady_on_def give_def say_def fs_exists_def open_workspace_def same)

lemma steady_after: "steady_on R P m \<Longrightarrow> (\<And>a. steady R (f a)) \<Longrightarrow> steady_on R P (after m f)"
  unfolding steady_on_def
proof (intro allI impI)
  fix w :: wizard_world
  assume m: "\<forall>w. P (wz_disk w) \<longrightarrow> R (wz_disk w) (wz_disk (snd (m w)))"
    and f: "\<And>a. \<forall>w. True \<longrightarrow> R (wz_disk w) (wz_disk (snd (f a w)))" and P: "P (wz_disk w)"
  obtain r w' where r: "m w = (r, w')" by (cases "m w")
  then show "R (wz_disk w) (wz_disk (snd (after m f w)))"
    using m [THEN spec, of w] P f trans by (cases r) (auto simp: after_def)
qed

lemma steady_catching: "steady_on R P m \<Longrightarrow> (\<And>e. steady R (h e)) \<Longrightarrow> steady_on R P (catching m h)"
  unfolding steady_on_def
proof (intro allI impI)
  fix w :: wizard_world
  assume m: "\<forall>w. P (wz_disk w) \<longrightarrow> R (wz_disk w) (wz_disk (snd (m w)))"
    and h: "\<And>e. \<forall>w. True \<longrightarrow> R (wz_disk w) (wz_disk (snd (h e w)))" and P: "P (wz_disk w)"
  obtain r w' where r: "m w = (r, w')" by (cases "m w")
  then show "R (wz_disk w) (wz_disk (snd (catching m h w)))"
    using m [THEN spec, of w] P h trans by (cases r) (auto simp: catching_def)
qed

text \<open>A folder or a file is created after looking whether something is there.\<close>

lemma steady_folder: "inside u \<Longrightarrow> steady_on R (\<lambda>d. \<not> there u d) (createFolder refuses u)"
  by (auto simp: steady_on_def createFolder_def folder same split: option.split)

lemma steady_new_text: "inside u \<Longrightarrow> steady_on R (\<lambda>d. \<not> there u d) (writeFile refuses u c)"
  by (auto simp: steady_on_def writeFile_def new_text same split: option.split)

lemma steady_looked:
  "steady R yes \<Longrightarrow> steady_on R (\<lambda>d. \<not> there u d) no \<Longrightarrow> steady R (after (fs_exists u) (\<lambda>e. if e then yes else no))"
  by (auto simp: steady_on_def after_def fs_exists_def)

lemmas steady_rules = steady_after steady_catching steady_folder steady_new_text steady_looked

lemma steady_ensure_dir: "inside u \<Longrightarrow> steady R (ensure_dir refuses u)"
  unfolding ensure_dir_def by (intro steady_rules) simp_all

lemma steady_chain: "inside u \<Longrightarrow> steady R (ensure_chain refuses u segs)"
proof (induction segs arbitrary: u)
  case (Cons seg segs)
  then show ?case by (auto intro!: steady_after steady_ensure_dir simp: below)
qed simp

lemma steady_create_files: "inside base \<Longrightarrow> steady R (create_files refuses base fs created skipped)"
proof (induction fs arbitrary: created skipped)
  case (Cons f fs)
  obtain p c where f: "f = (p, c)" by (cases f)
  show ?case
    unfolding f create_files.simps ensureDirChain_def
    by (intro steady_rules steady_chain) (simp_all add: Cons below)
qed simp

lemma steady_write_project: "inside base \<Longrightarrow> steady R (write_project refuses scratch base name)"
proof -
  assume i: "inside base"
  have files: "steady R (create_files refuses base (projectTemplateFiles name) [] [])" by (rule steady_create_files [OF i])
  show ?thesis
    unfolding steady_on_def
  proof (intro allI impI)
    fix w :: wizard_world
    obtain r w1 where r: "create_files refuses base (projectTemplateFiles name) [] [] w = (r, w1)" by (cases "create_files refuses base (projectTemplateFiles name) [] [] w")
    have "R (wz_disk w) (wz_disk w1)" using files r unfolding steady_on_def by (metis snd_conv)
    moreover have "wz_disk (snd (write_project refuses scratch base name w)) = wz_disk w1"
      by (cases r) (auto simp: write_project_def r after_def say_def give_def open_workspace_def split: prod.split)
    ultimately show "R (wz_disk w) (wz_disk (snd (write_project refuses scratch base name w)))" by simp
  qed
qed

lemma steady_scratch:
  assumes "\<And>dir. parent = Some dir \<or> fallback = Some dir \<Longrightarrow> inside (in_dir dir name)"
  shows "steady R (projectDirFromScratch refuses parent fallback name)"
  unfolding projectDirFromScratch_def Let_def using assms
  by (cases parent; cases fallback) (auto intro!: steady_rules)

end

subsection \<open>What is kept\<close>

definition files_kept :: "disk \<Rightarrow> disk \<Rightarrow> bool" where
  "files_kept d d' \<longleftrightarrow> (\<forall>u content. map_of (dk_files d) u = Some content \<longrightarrow> map_of (dk_files d') u = Some content)"

definition under :: "string \<Rightarrow> string \<Rightarrow> bool" where
  "under base u \<longleftrightarrow> u = base \<or> starts_with (base @ ''/'') u"

definition only_under :: "string \<Rightarrow> disk \<Rightarrow> disk \<Rightarrow> bool" where
  "only_under base d d' \<longleftrightarrow> (\<forall>u. \<not> under base u \<longrightarrow>
     (u \<in> set (dk_dirs d') \<longleftrightarrow> u \<in> set (dk_dirs d)) \<and> map_of (dk_files d') u = map_of (dk_files d) u)"

lemma under_below [simp]: "under base base" "under base u \<Longrightarrow> under base (in_dir u n)" "under base (in_dir base n)"
  by (auto simp: under_def in_dir_def starts_with_iff)

interpretation kept: careful files_kept "\<lambda>u. True"
  by unfold_locales (auto simp: files_kept_def there_def)

interpretation confined: careful "only_under base" "under base" for base
  by unfold_locales (auto simp: only_under_def)

text \<open>
  C32: the project wizard never overwrites a file, whatever the user picks and whichever folder or file the disk refuses, also
  when it stops half way; and in an open workspace it touches nothing outside of it.
\<close>

theorem project_wizard_safe:
  "let d = wz_disk w; d' = wz_disk (snd (projectWizard refuses existingRoot answer parent fallback w)) in
     files_kept d d' \<and> (\<forall>base. existingRoot = Some base \<longrightarrow> only_under base d d')"
proof -
  have "steady files_kept (projectWizard refuses existingRoot answer parent fallback)"
    unfolding projectWizard_def
    by (auto intro!: kept.steady_rules kept.steady_scratch kept.steady_write_project split: option.split)
  moreover have "steady (only_under base) (projectWizard refuses (Some base) answer parent fallback)" for base
    unfolding projectWizard_def
    by (auto simp: after_def give_def steady_on_def split: option.split
        intro!: confined.steady_write_project [of base base, unfolded steady_on_def, rule_format] confined.same)
  ultimately show ?thesis by (auto simp: steady_on_def Let_def)
qed

lemma project_wizard_safe_witness:
  "only_under ''ws'' \<lparr>dk_dirs = [''ws''], dk_files = [(''notes'', ''x'')]\<rparr>
     (wz_disk (snd (projectWizard (\<lambda>u. if u = ''ws/GVL'' then Some ''denied'' else None) (Some ''ws'') (Some ''Plant'') None None
        \<lparr>wz_disk = \<lparr>dk_dirs = [''ws''], dk_files = [(''notes'', ''x'')]\<rparr>, wz_notices = [], wz_opened = None\<rparr>)))"
  using project_wizard_safe [of "\<lparr>wz_disk = \<lparr>dk_dirs = [''ws''], dk_files = [(''notes'', ''x'')]\<rparr>, wz_notices = [], wz_opened = None\<rparr>"
      "\<lambda>u. if u = ''ws/GVL'' then Some ''denied'' else None" "Some ''ws''" "Some ''Plant''" None None]
  by (simp add: Let_def)

subsection \<open>A new project\<close>

lemma js_set_new: "map_of m k = None \<Longrightarrow> js_set k v m = m @ [(k, v)]"
  by (induction k v m rule: js_set.induct) (auto split: if_splits)

lemma identifier_trim: "iec_identifier n \<Longrightarrow> trim n = n \<and> n \<noteq> []"
  by (elim iec_identifierE) (auto intro!: trim_no_space simp: ident_char_not_space)

definition template_files :: "string \<Rightarrow> string \<Rightarrow> (string \<times> string) list" where
  "template_files base name = map (\<lambda>(p, content). (in_dir base p, content)) (projectTemplateFiles name)"

definition template_dirs :: "string \<Rightarrow> string list" where
  "template_dirs base = map (in_dir base) [''Programs'', ''GVL'', ''FBs'', ''Functions'']"

definition project_disk :: "string \<Rightarrow> string \<Rightarrow> disk \<Rightarrow> disk" where
  "project_disk base name d =
     \<lparr>dk_dirs = dk_dirs d @ base # template_dirs base, dk_files = dk_files d @ template_files base name\<rparr>"

lemmas step_defs = after_def give_def say_def fs_exists_def createFolder_def writeFile_def catching_def
  ensure_dir_def ensureDirChain_def open_workspace_def

lemma in_dir_simps:
  "in_dir base a = in_dir base b \<longleftrightarrow> a = b" "in_dir (in_dir base a) b = in_dir base (a @ ''/'' @ b)"
  "base \<noteq> in_dir base a" "in_dir base a \<noteq> base"
  by (auto simp: in_dir_def)

lemma file_at_root:
  assumes "split_on (CHR ''/'') p = [p]" "\<not> there (in_dir base p) \<lparr>dk_dirs = D, dk_files = F\<rparr>"
  shows "create_files (\<lambda>u. None) base ((p, c) # fs) cr sk (w\<lparr>wz_disk := \<lparr>dk_dirs = D, dk_files = F\<rparr>\<rparr>)
    = create_files (\<lambda>u. None) base fs (cr @ [p]) sk (w\<lparr>wz_disk := \<lparr>dk_dirs = D, dk_files = F @ [(in_dir base p, c)]\<rparr>\<rparr>)"
  using assms by (simp add: step_defs there_def js_set_new)

lemma file_in_folder:
  assumes "split_on (CHR ''/'') p = [s, f]" "p \<noteq> s"
    and "\<not> there (in_dir base s) \<lparr>dk_dirs = D, dk_files = F\<rparr>" "\<not> there (in_dir base p) \<lparr>dk_dirs = D, dk_files = F\<rparr>"
  shows "create_files (\<lambda>u. None) base ((p, c) # fs) cr sk (w\<lparr>wz_disk := \<lparr>dk_dirs = D, dk_files = F\<rparr>\<rparr>)
    = create_files (\<lambda>u. None) base fs (cr @ [p]) sk
        (w\<lparr>wz_disk := \<lparr>dk_dirs = D @ [in_dir base s], dk_files = F @ [(in_dir base p, c)]\<rparr>\<rparr>)"
  using assms by (simp add: step_defs there_def js_set_new in_dir_simps)

lemma create_all:
  assumes "\<And>u. under base u \<Longrightarrow> \<not> there u d"
  shows "create_files (\<lambda>u. None) base (projectTemplateFiles name) [] [] (w\<lparr>wz_disk := d\<lparr>dk_dirs := dk_dirs d @ [base]\<rparr>\<rparr>)
    = (Inr (map fst (projectTemplateFiles name), []), w\<lparr>wz_disk := project_disk base name d\<rparr>)"
proof -
  obtain D F where d: "d = \<lparr>dk_dirs = D, dk_files = F\<rparr>" by (cases d)
  have no: "in_dir base n \<notin> set D" "map_of F (in_dir base n) = None" for n
    using assms [of "in_dir base n"] by (simp_all add: there_def d)
  obtain c1 c2 c3 c4 c5 where c: "projectTemplateFiles name = [(''project.yaml'', c1), (''Programs/Main.st'', c2),
      (''GVL/Globals.gvl'', c3), (''FBs/README.md'', c4), (''Functions/README.md'', c5)]"
    unfolding projectTemplateFiles_def by blast
  have steps: "create_files (\<lambda>u. None) base (projectTemplateFiles name) [] [] (w\<lparr>wz_disk := \<lparr>dk_dirs = D @ [base], dk_files = F\<rparr>\<rparr>)
      = create_files (\<lambda>u. None) base [] (map fst (projectTemplateFiles name)) []
          (w\<lparr>wz_disk := \<lparr>dk_dirs = ((((D @ [base]) @ [in_dir base ''Programs'']) @ [in_dir base ''GVL'']) @ [in_dir base ''FBs'']) @ [in_dir base ''Functions''],
             dk_files = ((((F @ [(in_dir base ''project.yaml'', c1)]) @ [(in_dir base ''Programs/Main.st'', c2)]) @ [(in_dir base ''GVL/Globals.gvl'', c3)])
               @ [(in_dir base ''FBs/README.md'', c4)]) @ [(in_dir base ''Functions/README.md'', c5)]\<rparr>\<rparr>)"
    unfolding c
    by (simp del: create_files.simps add: file_at_root there_def no in_dir_simps
        file_in_folder [where s = "''Programs''" and f = "''Main.st''"] file_in_folder [where s = "''GVL''" and f = "''Globals.gvl''"]
        file_in_folder [where s = "''FBs''" and f = "''README.md''"] file_in_folder [where s = "''Functions''" and f = "''README.md''"])
  then show ?thesis
    by (simp add: d c project_disk_def template_dirs_def template_files_def give_def)
qed

text \<open>A second run finds everything there.\<close>

lemma skip_all:
  assumes "\<forall>f \<in> set fs. there (in_dir base (fst f)) (wz_disk w) \<and> ensureDirChain refuses base (fst f) w = (Inr (), w)"
  shows "create_files refuses base fs cr sk w = (Inr (cr, sk @ map fst fs), w)"
  using assms
proof (induction fs arbitrary: sk)
  case (Cons f fs)
  then show ?case by (cases f) (simp add: after_def fs_exists_def)
qed (simp add: give_def)

lemma again_all:
  "create_files refuses base (projectTemplateFiles name) [] [] (w\<lparr>wz_disk := project_disk base name d\<rparr>)
    = (Inr ([], map fst (projectTemplateFiles name)), w\<lparr>wz_disk := project_disk base name d\<rparr>)"
proof -
  let ?w = "w\<lparr>wz_disk := project_disk base name d\<rparr>"
  have "there (in_dir base p) (wz_disk ?w)" if "(p, c) \<in> set (projectTemplateFiles name)" for p c
  proof -
    have "(in_dir base p, c) \<in> set (dk_files (wz_disk ?w))"
      using that by (force simp: project_disk_def template_files_def)
    then have "in_dir base p \<in> fst ` set (dk_files (wz_disk ?w))" by force
    then show ?thesis by (simp add: there_def map_of_eq_None_iff)
  qed
  moreover have "ensureDirChain refuses base p ?w = (Inr (), ?w)" if "(p, c) \<in> set (projectTemplateFiles name)" for p c
    using that by (auto simp: projectTemplateFiles_def step_defs there_def project_disk_def template_dirs_def)
  ultimately show ?thesis using skip_all [of "projectTemplateFiles name" base ?w refuses "[]" "[]"] by fastforce
qed

text \<open>
  C33: a project from nothing: given a valid name and a folder in which nothing is at or below that name, on a disk that
  refuses nothing the wizard creates the folder with the four
  standard directories and exactly the template files, opens it, and its manifest reads back as the
  chosen name; running the wizard again inside it, on whatever disk, changes nothing and lists all files as skipped.
  When the disk refuses the folder and the user then chooses no other one, nothing is created or opened, and the
  user is told why.
\<close>

theorem project_created:
  fixes w :: wizard_world
  assumes base: "base = in_dir dir name" and valid: "validateProjectName name"
    and vacant: "\<And>u. under base u \<Longrightarrow> \<not> there u (wz_disk w)"
  shows "\<exists>w'. projectWizard (\<lambda>u. None) None (Some name) (Some dir) fallback w = (Inr (), w')
    \<and> wz_disk w' = project_disk base name (wz_disk w) \<and> wz_opened w' = Some base
    \<and> Option.bind (map_of (dk_files (wz_disk w')) (in_dir base ''project.yaml'')) parseProjectYaml
        = Some \<lparr>meta_name = name, meta_version = ''1.0''\<rparr>
    \<and> projectWizard refuses (Some base) (Some name) parent fallback w'
        = (Inr (), w'\<lparr>wz_notices := wz_notices w' @ [NWarn (''Skipped existing files (not overwritten): ''
             @ join_with '', '' (map fst (projectTemplateFiles name)))]\<rparr>)
    \<and> (refuses base = Some err \<longrightarrow> projectWizard refuses None (Some name) (Some dir) None w
        = (Inr (), w\<lparr>wz_notices := wz_notices w @ [NError (''Cannot create project directory: '' @ err)]\<rparr>))"
proof -
  have pick: "pickName validateProjectName (Some name) = Some name"
    using valid identifier_trim [of name] by (simp add: pickName_def validateProjectName_def)
  have free: "\<not> there base (wz_disk w)" using vacant [of base] by simp
  have some: "map fst (projectTemplateFiles name) \<noteq> []" by (simp add: projectTemplateFiles_def)
  let ?n = "NInfo (''Weftik project '' @ dq @ name @ dq @ '' created: '' @ join_with '', '' (map fst (projectTemplateFiles name)))"
  let ?w1 = "w\<lparr>wz_notices := wz_notices w @ [?n], wz_opened := Some base\<rparr>"
  let ?w' = "?w1\<lparr>wz_disk := project_disk base name (wz_disk w)\<rparr>"
  have "projectDirFromScratch (\<lambda>u. None) (Some dir) fallback name w
      = (Inr (Some base), w\<lparr>wz_disk := (wz_disk w)\<lparr>dk_dirs := dk_dirs (wz_disk w) @ [base]\<rparr>\<rparr>)"
    using free unfolding base by (simp add: projectDirFromScratch_def step_defs Let_def)
  then have run: "projectWizard (\<lambda>u. None) None (Some name) (Some dir) fallback w = (Inr (), ?w')"
    using some create_all [of base "wz_disk w" name w, OF vacant]
    by (simp add: projectWizard_def pick after_def write_project_def say_def open_workspace_def give_def)
  have again: "projectWizard refuses (Some base) (Some name) parent fallback ?w'
      = (Inr (), ?w'\<lparr>wz_notices := wz_notices ?w' @ [NWarn (''Skipped existing files (not overwritten): ''
             @ join_with '', '' (map fst (projectTemplateFiles name)))]\<rparr>)"
    using some again_all [where d = "wz_disk w" and w = ?w1]
    by (simp add: projectWizard_def pick after_def write_project_def say_def give_def)
  have yaml: "map_of (template_files base name) (in_dir base ''project.yaml'') = Some (projectYaml name)"
    by (simp add: template_files_def projectTemplateFiles_def)
  have "map_of (dk_files (wz_disk w)) (in_dir base ''project.yaml'') = None"
    using vacant [of "in_dir base ''project.yaml''"] by (simp add: there_def)
  then have "map_of (dk_files (project_disk base name (wz_disk w))) (in_dir base ''project.yaml'') = Some (projectYaml name)"
    using yaml by (simp add: project_disk_def map_add_def)
  moreover have "refuses base = Some err \<longrightarrow> projectWizard refuses None (Some name) (Some dir) None w
      = (Inr (), w\<lparr>wz_notices := wz_notices w @ [NError (''Cannot create project directory: '' @ err)]\<rparr>)"
    using free unfolding base by (simp add: projectWizard_def pick projectDirFromScratch_def step_defs Let_def)
  ultimately show ?thesis
    using run again manifest_roundtrip [OF valid] by (intro exI [where x = ?w']) simp
qed

definition bare_home :: wizard_world where
  "bare_home = \<lparr>wz_disk = \<lparr>dk_dirs = [''home''], dk_files = []\<rparr>, wz_notices = [], wz_opened = None\<rparr>"

lemma project_created_witness:
  "(\<exists>w'. projectWizard (\<lambda>u. None) None (Some ''Plant'') (Some ''home'') None bare_home = (Inr (), w') \<and> wz_opened w' = Some ''home/Plant'')
    \<and> projectWizard (\<lambda>u. Some ''denied'') None (Some ''Plant'') (Some ''home'') None bare_home
        = (Inr (), bare_home\<lparr>wz_notices := [NError ''Cannot create project directory: denied'']\<rparr>)"
proof -
  have base: "''home/Plant'' = in_dir ''home'' ''Plant''" by (simp add: in_dir_def)
  have valid: "validateProjectName ''Plant''"
    by (simp add: validateProjectName_def iec_identifier_def ident_char_def ident_start_def)
  have vacant: "\<not> there u (wz_disk bare_home)" if "under ''home/Plant'' u" for u
    using that by (auto simp: bare_home_def there_def under_def)
  note created = project_created [OF base valid vacant, where refuses = "\<lambda>u. Some ''denied''" and err = "''denied''"]
  from created have "\<exists>w'. projectWizard (\<lambda>u. None) None (Some ''Plant'') (Some ''home'') None bare_home = (Inr (), w') \<and> wz_opened w' = Some ''home/Plant''"
    by blast
  moreover from created have "projectWizard (\<lambda>u. Some ''denied'') None (Some ''Plant'') (Some ''home'') None bare_home
      = (Inr (), bare_home\<lparr>wz_notices := wz_notices bare_home @ [NError (''Cannot create project directory: '' @ ''denied'')]\<rparr>)"
    by blast
  ultimately show ?thesis by (simp add: bare_home_def)
qed

subsection \<open>A new program organization unit\<close>

text \<open>Nothing is in a directory that is not there.\<close>

definition disk_ok :: "disk \<Rightarrow> bool" where
  "disk_ok d \<longleftrightarrow> (\<forall>u n. there (in_dir u n) d \<and> CHR ''/'' \<notin> set n \<longrightarrow> there u d)"

lemma taken_names_iff:
  assumes "disk_ok d" "n \<noteq> []" "CHR ''/'' \<notin> set n"
  shows "n \<in> set (taken_names u d) \<longleftrightarrow> there (in_dir u n) d"
proof -
  have "n \<in> set (children_names u d) \<longleftrightarrow> there (in_dir u n) d"
    using assms(2,3) by (force simp: children_names_def there_def in_dir_def starts_with_iff map_of_eq_None_iff image_iff)
  moreover have "there (in_dir u n) d \<Longrightarrow> there u d" using assms by (auto simp: disk_ok_def)
  ultimately show ?thesis by (auto simp: taken_names_def)
qed

lemma identifier_file_name:
  assumes "iec_identifier n"
  shows "n @ extFor l \<noteq> []" "CHR ''/'' \<notin> set (n @ extFor l)"
  using iec_identifier_plain [OF assms] extFor_facts(1) [of l] identifier_trim [OF assms] by auto

lemma target_ext_pou: "target_ext (pouTarget ty l) = extFor l"
  by (simp add: pouTarget_def)

text \<open>
  The wizard for program organization units never overwrites a file that was there when it read the names of the
  directory, whatever the user enters and whatever the disk refuses; but a file of the chosen name
  that appears while the dialog is open is replaced by the template without a question.
\<close>

theorem pou_wizard_keeps:
  assumes ok: "disk_ok picked"
  shows "(wz_disk w = picked \<longrightarrow> files_kept picked (wz_disk (snd (pouWizard refuses picked ws type language answer w))))
    \<and> (\<forall>u ty l n. iec_identifier n \<and> pickLanguage ty language = Some l \<and> \<not> there (in_dir (in_dir u (dirFor ty)) (n @ extFor l)) picked \<longrightarrow>
        map_of (dk_files (wz_disk (snd (pouWizard (\<lambda>u. None) picked (Some u) (Some ty) language (Some n) w))))
            (in_dir (in_dir u (dirFor ty)) (n @ extFor l))
          = Some (templateFor ty l n))"
proof -
  have keeps: "files_kept (wz_disk w) (wz_disk (snd (write_pou refuses dirUri ty (pouTarget ty l) n w)))"
    if "\<not> there (in_dir dirUri (n @ extFor l)) (wz_disk w)" for dirUri ty l n and w :: wizard_world
    using that unfolding write_pou_def
    by (auto simp: step_defs files_kept_def there_def target_ext_pou split: option.split)
  have "files_kept picked (wz_disk (snd (pouWizard refuses picked ws type language answer w)))" if w: "wz_disk w = picked"
  proof -
    have "\<not> there (in_dir dirUri (n @ extFor l)) picked" if "pou_name picked dirUri (pouTarget ty l) answer = Some n" for dirUri ty l n
    proof -
      have n: "iec_identifier n" "n @ extFor l \<notin> set (taken_names dirUri picked)"
        using that by (auto simp: pou_name_def pickName_def validatePouName_def target_ext_pou split: option.splits if_splits)
      then show ?thesis using taken_names_iff [OF ok] identifier_file_name [OF n(1), of l] by blast
    qed
    with keeps [where w = w] w kept.same show ?thesis
      unfolding pouWizard_def by (auto simp: Let_def say_def give_def split: option.split)
  qed
  moreover have "map_of (dk_files (wz_disk (snd (pouWizard (\<lambda>u. None) picked (Some u) (Some ty) language (Some n) w))))
        (in_dir (in_dir u (dirFor ty)) (n @ extFor l)) = Some (templateFor ty l n)"
    if n: "iec_identifier n" and l: "pickLanguage ty language = Some l"
      and new: "\<not> there (in_dir (in_dir u (dirFor ty)) (n @ extFor l)) picked" for u ty l n
  proof -
    have "n @ extFor l \<notin> set (taken_names (in_dir u (dirFor ty)) picked)"
      using taken_names_iff [OF ok identifier_file_name [OF n]] new by blast
    then have "pou_name picked (in_dir u (dirFor ty)) (pouTarget ty l) (Some n) = Some n"
      using n identifier_trim [OF n] by (simp add: pou_name_def pickName_def validatePouName_def target_ext_pou)
    moreover have "target_dir (pouTarget ty l) = dirFor ty" "target_template (pouTarget ty l) = templateFor ty l"
      by (simp_all add: pouTarget_def)
    ultimately show ?thesis using l by (simp add: pouWizard_def write_pou_def step_defs Let_def target_ext_pou)
  qed
  ultimately show ?thesis by blast
qed

lemma pou_wizard_keeps_witness:
  "map_of (dk_files (wz_disk (snd (pouWizard (\<lambda>u. None) \<lparr>dk_dirs = [], dk_files = []\<rparr> (Some ''ws'') (Some Program) (Some ST) (Some ''Main'')
      \<lparr>wz_disk = \<lparr>dk_dirs = [], dk_files = [(''ws/Programs/Main.st'', ''late'')]\<rparr>, wz_notices = [], wz_opened = None\<rparr>))))
    (in_dir (in_dir ''ws'' ''Programs'') (''Main'' @ ''.st'')) = Some (templateFor Program ST ''Main'')"
proof -
  have "disk_ok \<lparr>dk_dirs = [], dk_files = []\<rparr>" by (simp add: disk_ok_def there_def)
  note wizard = pou_wizard_keeps [OF this, where type = None and language = "Some ST" and answer = None and ws = None
      and refuses = "\<lambda>u. None", THEN conjunct2, rule_format, of "''Main''" Program ST "''ws''"]
  have "iec_identifier ''Main''" by (simp add: iec_identifier_def ident_char_def ident_start_def)
  then show ?thesis using wizard by (simp add: pickLanguage_def languagesFor_def there_def)
qed

subsection \<open>New files\<close>

text \<open>
  A new file goes into the directory of its language under the first free of 101 names, changes no other file and holds the template;
  it replaces an existing file exactly when all those names are taken.
\<close>

theorem new_file_written:
  "\<exists>n. map_of (dk_files (wz_disk (snd (newFile (\<lambda>u. None) (Some u) (e, template) w))))
        = (map_of (dk_files (wz_disk w)))(in_dir (new_file_dir u e) n \<mapsto> template)
    \<and> (there (in_dir (new_file_dir u e) n) (wz_disk w)
        \<longleftrightarrow> (\<forall>k \<le> 100. there (in_dir (new_file_dir u e) (numbered ''untitled'' e k)) (wz_disk w)))"
proof -
  let ?dir = "new_file_dir u e"
  obtain w1 where w1: "ensure_dir (\<lambda>u. None) ?dir w = (Inr (), w1)" "dk_files (wz_disk w1) = dk_files (wz_disk w)"
      "\<And>n. there (in_dir ?dir n) (wz_disk w1) \<longleftrightarrow> there (in_dir ?dir n) (wz_disk w)"
    by (cases "there ?dir (wz_disk w)") (auto simp: step_defs there_def in_dir_simps)
  let ?n = "new_file_target (\<lambda>n. there (in_dir ?dir n) (wz_disk w)) e"
  have "map_of (dk_files (wz_disk (snd (newFile (\<lambda>u. None) (Some u) (e, template) w))))
        = (map_of (dk_files (wz_disk w)))(in_dir ?dir ?n \<mapsto> template)"
    using w1 by (simp add: newFile_def write_new_file_def catching_def after_def writeFile_def say_def Let_def)
  moreover have "there (in_dir ?dir ?n) (wz_disk w) \<longleftrightarrow> (\<forall>k \<le> 100. there (in_dir ?dir (numbered ''untitled'' e k)) (wz_disk w))"
    using new_file_from_taken [of 0 "\<lambda>n. there (in_dir ?dir n) (wz_disk w)" e] by (simp add: new_file_target_def)
  ultimately show ?thesis by blast
qed

end
