(* ===== verification/ContextMenu.thy ===== *)
theory ContextMenu
  imports Json
begin

text \<open>
  The file menu of the explorer (weftik-core/src/browser/iec-context-menu.ts): which files have it, and what
  Compile, Deploy and Validate do; and the labels of files (iec-navigator-decorator.ts). The native bridge and the rendering of a value in a template string are
  parameters, and so is \<open>JSON.parse\<close>, which throws or returns a value.
\<close>

subsection \<open>File types\<close>

definition IEC_EXTS :: "string list" where
  "IEC_EXTS = [''.st'', ''.il'', ''.ld'', ''.fbd'', ''.sfc'', ''.gcode'', ''.nc'', ''.gco'', ''.hmi'']"

definition resolveExt :: "string \<Rightarrow> string" where
  "resolveExt name = (case List.find (\<lambda>e. ends_with e (toLowerCase name)) IEC_EXTS of Some e \<Rightarrow> e | None \<Rightarrow> [])"

definition isIecFileSelected :: "string option \<Rightarrow> bool" where
  "isIecFileSelected selected = (case selected of None \<Rightarrow> False | Some name \<Rightarrow> resolveExt (toLowerCase name) \<in> set IEC_EXTS)"

text \<open>The name of the bridge function for an extension.\<close>

definition getCompileFn :: "string \<Rightarrow> string option" where
  "getCompileFn e =
     (if e = ''.st'' then Some ''compileSt'' else if e = ''.il'' then Some ''compileIl''
      else if e = ''.ld'' then Some ''compileLd'' else if e = ''.fbd'' then Some ''compileFbd''
      else if e = ''.sfc'' then Some ''compileSfc''
      else if e \<in> set [''.gcode'', ''.nc'', ''.gco''] then Some ''compileGcode'' else None)"

subsection \<open>The commands\<close>

text \<open>\<open>length\<close> of a string in UTF-16 units, from its UTF-8 bytes.\<close>

definition js_length :: "string \<Rightarrow> nat" where
  "js_length s = length (filter (\<lambda>c. \<not> (128 \<le> (of_char c :: nat) \<and> of_char c < (192 :: nat))) s)
     + length (filter (\<lambda>c. 240 \<le> (of_char c :: nat)) s)"

record menu_bridge =
  mb_compile :: "string \<Rightarrow> string \<Rightarrow> string + string"
  mb_deploy :: "string \<Rightarrow> string \<Rightarrow> string \<Rightarrow> string + unit"

definition shown_or :: "(json \<Rightarrow> string) \<Rightarrow> json option \<Rightarrow> string \<Rightarrow> string" where
  "shown_or show_value x d = (case x of None \<Rightarrow> d | Some v \<Rightarrow> if truthy v then show_value v else d)"

fun error_lines :: "(json \<Rightarrow> string) \<Rightarrow> nat \<Rightarrow> json list \<Rightarrow> string + string list" where
  "error_lines show_value i [] = Inr []"
| "error_lines show_value i (d # ds) =
     bindE (get_prop d ''severity'') (\<lambda>severity. bindE (get_prop d ''message'') (\<lambda>message.
     bindE (error_lines show_value (i + 1) ds) (\<lambda>ls.
       Inr ((''['' @ shown_or show_value severity ''error'' @ ''] ''
         @ shown_or show_value message (''Error '' @ nat_to_dec (i + 1))) # ls))))"

definition failed_notice :: "string \<Rightarrow> string list \<Rightarrow> notice" where
  "failed_notice name ls = NError (''Compilation failed for '' @ name @ '':'' @ newline @ newline @ join_with newline ls)"

text \<open>What the two commands do first: the selected file, its extension and its text, or a message.\<close>

definition menu_source :: "(string \<Rightarrow> string + string) \<Rightarrow> string option \<Rightarrow> notice list + string \<times> string \<times> string" where
  "menu_source read selected = (case selected of
     None \<Rightarrow> Inl []
   | Some name \<Rightarrow> let e = resolveExt (toLowerCase name) in
       if e = [] then Inl []
       else (case read name of
           Inl err \<Rightarrow> Inl [NError (''Failed to read file: '' @ err)]
         | Inr source \<Rightarrow> if source = [] \<or> trim source = [] then Inl [NWarn (''File is empty: '' @ name)]
                       else Inr (name, e, source)))"

definition count_text :: "json \<Rightarrow> string" where
  "count_text v = (case v of JArr xs \<Rightarrow> nat_to_dec (length xs) | _ \<Rightarrow> ''?'')"

definition raw_notice :: "string \<Rightarrow> string \<Rightarrow> notice" where
  "raw_notice name raw =
     (if js_length raw < 200 then NError (''Compile error: '' @ raw)
      else NInfo (''Compilation successful '' @ em_dash @ '' '' @ name @ newline @ ''Output: '' @ nat_to_dec (js_length raw) @ '' bytes''))"

definition compile_report :: "(string \<Rightarrow> string + json) \<Rightarrow> (json \<Rightarrow> string) \<Rightarrow> string \<Rightarrow> string \<Rightarrow> notice" where
  "compile_report parse show_value name raw = (case parse raw of
     Inl err \<Rightarrow> raw_notice name raw
   | Inr (JArr ds) \<Rightarrow> (case error_lines show_value 0 ds of
       Inl err \<Rightarrow> raw_notice name raw | Inr ls \<Rightarrow> failed_notice name ls)
   | Inr (JObj m) \<Rightarrow> (case map_of m ''instructions'' of
       Some v \<Rightarrow> NInfo (''Compilation successful '' @ em_dash @ '' '' @ name @ newline @ ''Instructions: '' @ count_text v)
     | None \<Rightarrow> NError (''Unexpected compile output for '' @ name))
   | Inr v \<Rightarrow> NError (''Unexpected compile output for '' @ name))"

text \<open>Loading the bridge may throw as well.\<close>

definition onCompile :: "(string \<Rightarrow> string + json) \<Rightarrow> (json \<Rightarrow> string) \<Rightarrow> string + menu_bridge \<Rightarrow> (string \<Rightarrow> string + string)
    \<Rightarrow> string option \<Rightarrow> notice list" where
  "onCompile parse show_value bridge read selected = (case menu_source read selected of
     Inl ns \<Rightarrow> ns
   | Inr (name, e, source) \<Rightarrow> (case getCompileFn e of
       None \<Rightarrow> [NWarn (''Compile not supported for '' @ e @ '' files'')]
     | Some fn \<Rightarrow> (case bindE bridge (\<lambda>b. mb_compile b fn source) of
         Inl err \<Rightarrow> [NError (''Compile bridge error: '' @ err)]
       | Inr raw \<Rightarrow> [compile_report parse show_value name raw])))"

text \<open>What is deployed, if it parses: the errors of the compiler come as an array.\<close>

definition deploy_check :: "(string \<Rightarrow> string + json) \<Rightarrow> (json \<Rightarrow> string) \<Rightarrow> string \<Rightarrow> string \<Rightarrow> notice option" where
  "deploy_check parse show_value name programJson = (case parse programJson of
     Inl err \<Rightarrow> Some (NError (''Compilation failed for '' @ name @ '': '' @ err))
   | Inr (JArr ds) \<Rightarrow> (case error_lines show_value 0 ds of
       Inl err \<Rightarrow> Some (NError (''Compilation failed for '' @ name @ '': '' @ err))
     | Inr ls \<Rightarrow> Some (failed_notice name ls))
   | Inr v \<Rightarrow> None)"

definition deploy_notice :: "string \<Rightarrow> string \<Rightarrow> string + unit \<Rightarrow> notice" where
  "deploy_notice name socketPath r = (case r of
     Inr u \<Rightarrow> NInfo (''Deployed '' @ name @ '' to Controller at '' @ socketPath)
   | Inl msg \<Rightarrow> if str_includes msg ''ECONNREFUSED'' \<or> str_includes msg ''ENOENT''
       then NError (''Deploy failed: No Controller running at '' @ socketPath @ ''. Start the Controller first.'')
       else NError (''Deploy failed: '' @ msg))"

text \<open>The messages, and what was handed to the controller.\<close>

definition onDeploy :: "(string \<Rightarrow> string + json) \<Rightarrow> (json \<Rightarrow> string) \<Rightarrow> string + menu_bridge \<Rightarrow> (string \<Rightarrow> string + string)
    \<Rightarrow> string \<Rightarrow> string \<Rightarrow> string option \<Rightarrow> notice list \<times> string list" where
  "onDeploy parse show_value bridge read socketPath secret selected = (case menu_source read selected of
     Inl ns \<Rightarrow> (ns, [])
   | Inr (name, e, source) \<Rightarrow> (case getCompileFn e of
       None \<Rightarrow> ([NWarn (''Deploy not supported for '' @ e @ '' files'')], [])
     | Some fn \<Rightarrow> (case bindE bridge (\<lambda>b. bindE (mb_compile b fn source) (\<lambda>programJson. Inr (b, programJson))) of
         Inl err \<Rightarrow> ([NError (''Compilation failed for '' @ name @ '': '' @ err)], [])
       | Inr (b, programJson) \<Rightarrow> (case deploy_check parse show_value name programJson of
           Some n \<Rightarrow> ([n], [])
         | None \<Rightarrow> ([deploy_notice name socketPath (mb_deploy b socketPath secret programJson)], [programJson])))))"

definition onValidate :: "string option \<Rightarrow> notice" where
  "onValidate selected = NInfo (''[P1] Validate: '' @ (case selected of Some name \<Rightarrow> name | None \<Rightarrow> ''unknown'') @ '' '' @ em_dash @ '' validator TBD'')"

definition getSocketPath :: "string option \<Rightarrow> string" where
  "getSocketPath env = (case env of Some s \<Rightarrow> s | None \<Rightarrow> ''/tmp/weftik-controller.sock'')"

definition getSecret :: "string option \<Rightarrow> string" where
  "getSecret env = (case env of Some s \<Rightarrow> s | None \<Rightarrow> ''weftik-dev-secret'')"

subsection \<open>Compile against Deploy\<close>

text \<open>A program as the compilers return it: an object with instructions.\<close>

definition program_json :: "json \<Rightarrow> bool" where
  "program_json v \<longleftrightarrow> (case v of JObj m \<Rightarrow> map_of m ''instructions'' \<noteq> None | _ \<Rightarrow> False)"

definition success_notice :: "notice \<Rightarrow> bool" where
  "success_notice n \<longleftrightarrow> (case n of NInfo s \<Rightarrow> True | _ \<Rightarrow> False)"

lemma resolveExt_lower: "resolveExt (toLowerCase name) = resolveExt name"
proof -
  have "lower_char (lower_char c) = lower_char c" for c
    by (cases "65 \<le> (of_char c :: nat) \<and> of_char c \<le> (90 :: nat)") (auto simp: lower_char_def Let_def)
  then show ?thesis by (simp add: resolveExt_def toLowerCase_def comp_def)
qed

lemma menu_source_Inr:
  "menu_source read (Some name) = Inr x \<longleftrightarrow>
    (\<exists>source. x = (name, resolveExt name, source) \<and> resolveExt name \<noteq> [] \<and> read name = Inr source \<and> trim source \<noteq> [])"
  by (auto simp: menu_source_def resolveExt_lower Let_def trim_def split: sum.splits)

text \<open>
  C34: compile and Deploy of the file menu agree on programs and on lists of errors: what Compile reports as a program is what
  Deploy hands over, and for a list of errors both show the same message and nothing is handed over. They
  disagree elsewhere: any other value, even null or a text, is handed to the controller although Compile calls it
  unexpected; and an output that is no JSON at all is a success for Compile when it has 200 units or more, while
  Deploy rejects it.
\<close>

theorem context_menu_outcomes:
  assumes src_text: "read name = Inr source" "trim source \<noteq> []" and fn: "getCompileFn (resolveExt name) = Some fn"
    and out: "mb_compile b fn source = Inr raw"
  shows "let compiled = onCompile parse show_value (Inr b) read (Some name);
      deployed = onDeploy parse show_value (Inr b) read socketPath secret (Some name) in
    (case parse raw of
      Inr (JArr ds) \<Rightarrow> snd deployed = []
        \<and> (\<forall>ls. error_lines show_value 0 ds = Inr ls \<longrightarrow> compiled = [failed_notice name ls] \<and> fst deployed = compiled)
    | Inr v \<Rightarrow> snd deployed = [raw] \<and> list_all success_notice compiled = program_json v
    | Inl err \<Rightarrow> snd deployed = [] \<and> list_all success_notice compiled = (200 \<le> js_length raw))
    \<and> length compiled = 1 \<and> length (fst deployed) = 1"
proof -
  have "resolveExt name \<noteq> []" using fn by (auto simp: getCompileFn_def)
  then have src: "menu_source read (Some name) = Inr (name, resolveExt name, source)"
    using src_text by (simp add: menu_source_Inr)
  have compiled: "onCompile parse show_value (Inr b) read (Some name) = [compile_report parse show_value name raw]"
    using fn out by (simp add: onCompile_def src)
  have deployed: "onDeploy parse show_value (Inr b) read socketPath secret (Some name) = (case deploy_check parse show_value name raw of
      Some n \<Rightarrow> ([n], []) | None \<Rightarrow> ([deploy_notice name socketPath (mb_deploy b socketPath secret raw)], [raw]))"
    using fn out by (simp add: onDeploy_def src)
  show ?thesis
  proof (cases "parse raw")
    case (Inl err)
    then show ?thesis
      by (auto simp: Let_def compiled deployed compile_report_def deploy_check_def raw_notice_def success_notice_def)
  next
    case (Inr v)
    then show ?thesis
      by (cases v) (auto simp: Let_def compiled deployed compile_report_def deploy_check_def success_notice_def program_json_def
          split: sum.split option.split)
  qed
qed

lemma context_menu_outcomes_witness:
  "snd (onDeploy (\<lambda>s. Inr JNull) (\<lambda>v. []) (Inr \<lparr>mb_compile = \<lambda>f s. Inr ''null'', mb_deploy = \<lambda>a b c. Inr ()\<rparr>)
     (\<lambda>n. Inr ''LD x'') ''sock'' ''key'' (Some ''Main.IL'')) = [''null'']"
proof -
  have fn: "getCompileFn (resolveExt ''Main.IL'') = Some ''compileIl''" "trim ''LD x'' \<noteq> []" by code_simp+
  show ?thesis
    using context_menu_outcomes [of "\<lambda>n. Inr ''LD x''" "''Main.IL''" "''LD x''" "''compileIl''"
        "\<lparr>mb_compile = \<lambda>f s. Inr ''null'', mb_deploy = \<lambda>a b c. Inr ()\<rparr>" "''null''" "\<lambda>s. Inr JNull" "\<lambda>v. []" "''sock''" "''key''"] fn
    by (simp add: Let_def)
qed

subsection \<open>Labels of files\<close>

definition LABEL_MAP :: "(string \<times> string) list" where
  "LABEL_MAP = [(''.st'', ''[Program]''), (''.il'', ''[Program]''), (''.ld'', ''[Program]''), (''.fbd'', ''[Program]''),
     (''.sfc'', ''[Program]''), (''.hmi'', ''[HMI]''), (''.gcode'', ''[CNC]''), (''.nc'', ''[CNC]''), (''.gco'', ''[CNC]'')]"

text \<open>The longest extension first; a missing name has none.\<close>

definition label_ext :: "string \<Rightarrow> string option" where
  "label_ext name = (if name = [] then None
     else List.find (\<lambda>e. ends_with e (toLowerCase name)) (sort_key (\<lambda>e. - int (length e)) (map fst LABEL_MAP)))"

definition canHandle :: "string \<Rightarrow> nat" where
  "canHandle name = (if label_ext name = None then 0 else 10)"

definition label_name :: "string \<Rightarrow> string" where
  "label_name name = (case label_ext name of
     None \<Rightarrow> name
   | Some e \<Rightarrow> (case map_of LABEL_MAP e of Some suffix \<Rightarrow> name @ '' '' @ suffix | None \<Rightarrow> name))"

definition label_icon :: "string \<Rightarrow> string" where
  "label_icon name = (case label_ext name of None \<Rightarrow> [] | Some e \<Rightarrow>
     if e = ''.st'' then ''symbol-structure'' else if e = ''.il'' then ''symbol-enum''
     else if e = ''.ld'' then ''circuit-board'' else if e = ''.fbd'' then ''type-hierarchy''
     else if e = ''.sfc'' then ''symbol-event'' else if e \<in> set [''.gcode'', ''.nc'', ''.gco''] then ''symbol-numeric''
     else if e = ''.hmi'' then ''device-desktop'' else [])"

lemma label_exts: "set (map fst LABEL_MAP) = set IEC_EXTS"
  by (auto simp: LABEL_MAP_def IEC_EXTS_def)

lemma find_none_set: "List.find P xs = None \<longleftrightarrow> (\<forall>x \<in> set xs. \<not> P x)"
  by (auto simp: find_None_iff)

lemma find_some_set: "List.find P xs = Some x \<Longrightarrow> x \<in> set xs \<and> P x"
  by (auto simp: find_Some_iff)

text \<open>
  The file menu and the labels are about the same files: a file has the menu exactly when it has a label and an
  icon, and Compile is offered a compiler for all of them except screens.
\<close>

theorem menu_matches_labels:
  "(isIecFileSelected (Some name) \<longleftrightarrow> canHandle name \<noteq> 0) \<and> (canHandle name \<noteq> 0 \<longleftrightarrow> label_icon name \<noteq> [])
    \<and> (isIecFileSelected (Some name) \<longrightarrow> (getCompileFn (resolveExt name) = None \<longleftrightarrow> resolveExt name = ''.hmi''))"
proof -
  have has: "isIecFileSelected (Some name) \<longleftrightarrow> (\<exists>e \<in> set IEC_EXTS. ends_with e (toLowerCase name))"
  proof (cases "List.find (\<lambda>e. ends_with e (toLowerCase name)) IEC_EXTS")
    case None
    then have "resolveExt name = []" by (simp add: resolveExt_def)
    moreover have "\<not> (\<exists>e \<in> set IEC_EXTS. ends_with e (toLowerCase name))" using None unfolding find_none_set by blast
    ultimately show ?thesis by (simp add: isIecFileSelected_def resolveExt_lower IEC_EXTS_def)
  next
    case (Some e)
    then have "resolveExt name = e" "e \<in> set IEC_EXTS \<and> ends_with e (toLowerCase name)"
      by (simp add: resolveExt_def) (rule find_some_set [OF Some])
    then show ?thesis by (auto simp: isIecFileSelected_def resolveExt_lower)
  qed
  have "label_ext name = None \<longleftrightarrow> \<not> (\<exists>e \<in> set IEC_EXTS. ends_with e (toLowerCase name))"
  proof (cases "name = []")
    case True
    then show ?thesis by (auto simp: label_ext_def IEC_EXTS_def ends_with_def toLowerCase_def)
  next
    case False
    then show ?thesis using label_exts by (simp add: label_ext_def find_none_set del: set_map)
  qed
  moreover have "label_icon name \<noteq> []" if "label_ext name = Some e" for e
  proof -
    have "e \<in> set IEC_EXTS"
      using that find_some_set label_exts by (fastforce simp: label_ext_def split: if_splits simp del: set_map)
    with that show ?thesis by (auto simp: label_icon_def IEC_EXTS_def)
  qed
  moreover have "getCompileFn (resolveExt name) = None \<longleftrightarrow> resolveExt name = ''.hmi''" if "isIecFileSelected (Some name)"
  proof -
    have "resolveExt name \<in> set IEC_EXTS" using that by (simp add: isIecFileSelected_def resolveExt_lower)
    then show ?thesis by (auto simp: getCompileFn_def IEC_EXTS_def)
  qed
  ultimately show ?thesis using has by (auto simp: canHandle_def label_icon_def)
qed

lemma menu_matches_labels_witness: "isIecFileSelected (Some ''PART.NC'') \<and> canHandle ''PART.NC'' \<noteq> 0"
proof -
  have "isIecFileSelected (Some ''PART.NC'')" by code_simp
  then show ?thesis using menu_matches_labels [of "''PART.NC''"] by simp
qed

end
