(* ===== verification/Modes.thy ===== *)
theory Modes
  imports JsPrelude
begin

text \<open>
  The modes of the studio (apps/studio/src/browser/mode): the manager with its preference and its event
  (weftik-mode-manager.ts), the entries of the status bar (mode-status-bar-item.ts), commands that run in some modes
  only (mode-filter-command.ts) and the start of the application (mode-contribution.ts). A stored preference that
  is not a text is \<open>None\<close>; storing one may fail without a notice.
\<close>

definition STUDIO_MODES :: "string list" where
  "STUDIO_MODES = [''edit'', ''debug'', ''commissioning'']"

record mode_change =
  mc_previous :: string
  mc_current :: string

text \<open>
  The application: the mode, the stored preference, the events fired so far, and which entries of the
  status bar are drawn as active.
\<close>

record mode_app =
  ma_mode :: string
  ma_stored :: "string option"
  ma_events :: "mode_change list"
  ma_active :: "(string, bool) jsmap"

definition mode_init :: "mode_app \<Rightarrow> mode_app" where
  "mode_init a = (case ma_stored a of
     Some saved \<Rightarrow> if saved \<in> set STUDIO_MODES then a\<lparr>ma_mode := saved\<rparr> else a
   | None \<Rightarrow> a)"

definition render_entry :: "string \<Rightarrow> mode_app \<Rightarrow> mode_app" where
  "render_entry m a = a\<lparr>ma_active := js_set m (ma_mode a = m) (ma_active a)\<rparr>"

definition mode_refresh :: "mode_app \<Rightarrow> mode_app" where
  "mode_refresh a = fold render_entry STUDIO_MODES a"

text \<open>Firing the event refreshes the status bar; \<open>stores\<close> says whether the preference could be written.\<close>

definition switchMode :: "bool \<Rightarrow> string \<Rightarrow> mode_app \<Rightarrow> string + mode_app" where
  "switchMode stores newMode a =
     (if newMode \<notin> set STUDIO_MODES then
        Inl (''Invalid mode: '' @ dq @ newMode @ dq @ ''. Valid modes: edit, debug, commissioning'')
      else if newMode = ma_mode a then Inr a
      else Inr (mode_refresh (a\<lparr>ma_mode := newMode, ma_stored := (if stores then Some newMode else ma_stored a),
        ma_events := ma_events a @ [\<lparr>mc_previous = ma_mode a, mc_current = newMode\<rparr>]\<rparr>)))"

text \<open>A new application on a stored preference; \<open>get\<close> returns the default when nothing is stored.\<close>

definition start_modes :: "string option \<Rightarrow> mode_app" where
  "start_modes stored = mode_refresh (mode_init \<lparr>ma_mode = ''edit'', ma_stored = stored, ma_events = [], ma_active = []\<rparr>)"

definition filtered_execute :: "string list \<Rightarrow> (mode_app \<Rightarrow> mode_app) \<Rightarrow> mode_app \<Rightarrow> mode_app" where
  "filtered_execute allowedModes execute a = (if ma_mode a \<in> set allowedModes then execute a else a)"

definition filtered_enabled :: "string list \<Rightarrow> mode_app \<Rightarrow> bool" where
  "filtered_enabled allowedModes a \<longleftrightarrow> ma_mode a \<in> set allowedModes"

text \<open>Attempts to switch, in a sequence; a thrown error changes nothing.\<close>

fun mode_run :: "(bool \<times> string) list \<Rightarrow> mode_app \<Rightarrow> mode_app" where
  "mode_run [] a = a"
| "mode_run ((stores, m) # ms) a = mode_run ms (case switchMode stores m a of Inl e \<Rightarrow> a | Inr a' \<Rightarrow> a')"

subsection \<open>Every session\<close>

text \<open>The events form a chain from the mode at the start to the current one.\<close>

fun mode_chain :: "string \<Rightarrow> mode_change list \<Rightarrow> string option" where
  "mode_chain m [] = Some m"
| "mode_chain m (e # es) = (if mc_previous e = m \<and> mc_current e \<noteq> m then mode_chain (mc_current e) es else None)"

lemma mode_chain_append: "mode_chain m es = Some n \<Longrightarrow> n \<noteq> n' \<Longrightarrow>
    mode_chain m (es @ [\<lparr>mc_previous = n, mc_current = n'\<rparr>]) = Some n'"
  by (induction m es rule: mode_chain.induct) (auto split: if_splits)

lemma refresh_fields [simp]:
  "ma_mode (mode_refresh a) = ma_mode a" "ma_stored (mode_refresh a) = ma_stored a" "ma_events (mode_refresh a) = ma_events a"
  "m \<in> set STUDIO_MODES \<Longrightarrow> map_of (ma_active (mode_refresh a)) m = Some (ma_mode a = m)"
  by (auto simp: mode_refresh_def render_entry_def STUDIO_MODES_def)

definition mode_inv :: "string \<Rightarrow> mode_app \<Rightarrow> bool" where
  "mode_inv first a \<longleftrightarrow> ma_mode a \<in> set STUDIO_MODES \<and> mode_chain first (ma_events a) = Some (ma_mode a)
     \<and> (\<forall>m \<in> set STUDIO_MODES. map_of (ma_active a) m = Some (m = ma_mode a))"

lemma mode_inv_start: "mode_inv (ma_mode (start_modes stored)) (start_modes stored)"
proof -
  have "ma_mode (mode_init \<lparr>ma_mode = ''edit'', ma_stored = stored, ma_events = [], ma_active = []\<rparr>) \<in> set STUDIO_MODES"
    by (auto simp: mode_init_def STUDIO_MODES_def split: option.split)
  moreover have "ma_events (mode_init \<lparr>ma_mode = ''edit'', ma_stored = stored, ma_events = [], ma_active = []\<rparr>) = []"
    by (auto simp: mode_init_def split: option.split)
  ultimately show ?thesis by (auto simp: mode_inv_def start_modes_def)
qed

lemma mode_inv_switch: "mode_inv first a \<Longrightarrow> switchMode stores m a = Inr a' \<Longrightarrow> mode_inv first a' \<and> ma_mode a' = m"
  by (auto simp: switchMode_def mode_inv_def mode_chain_append split: if_splits)

lemma mode_inv_run: "mode_inv first a \<Longrightarrow> mode_inv first (mode_run ms a)"
proof (induction ms arbitrary: a)
  case (Cons m ms)
  obtain stores n where m: "m = (stores, n)" by (cases m)
  show ?case
  proof (cases "switchMode stores n a")
    case (Inr a')
    then show ?thesis using mode_inv_switch [OF Cons.prems Inr] Cons.IH by (simp add: m)
  qed (use Cons in \<open>simp add: m\<close>)
qed simp

text \<open>
  In every session, whatever is stored and whatever modes are asked for: the mode is always one of the three, exactly its entry
  of the status bar is active, and the events tell every change once, in order, from the first mode to the current one. A
  mode that was stored is the one a restart begins with.
\<close>

theorem mode_session:
  "let a = mode_run ms (start_modes stored) in
     ma_mode a \<in> set STUDIO_MODES
     \<and> (\<forall>m \<in> set STUDIO_MODES. map_of (ma_active a) m = Some (m = ma_mode a))
     \<and> mode_chain (ma_mode (start_modes stored)) (ma_events a) = Some (ma_mode a)
     \<and> (\<forall>m a'. switchMode True m a = Inr a' \<and> m \<noteq> ma_mode a \<longrightarrow> ma_mode (start_modes (ma_stored a')) = m)"
proof -
  have inv: "mode_inv (ma_mode (start_modes stored)) (mode_run ms (start_modes stored))"
    by (rule mode_inv_run [OF mode_inv_start])
  have "ma_mode (start_modes (ma_stored a')) = m" if "switchMode True m a = Inr a'" "m \<noteq> ma_mode a" for m a a'
    using that by (auto simp: switchMode_def start_modes_def mode_init_def split: if_splits)
  with inv show ?thesis unfolding mode_inv_def Let_def by blast
qed

lemma mode_session_witness:
  "ma_mode (mode_run [(True, ''debug''), (False, ''run''), (True, ''commissioning'')] (start_modes (Some ''nonsense''))) \<in> set STUDIO_MODES"
  using mode_session [of "[(True, ''debug''), (False, ''run''), (True, ''commissioning'')]" "Some ''nonsense''"]
  unfolding Let_def by (rule conjunct1)

end
