(* ===== verification/Spec2Isabelle.thy ===== *)
theory Spec2Isabelle
  imports LdProps LdCanvasProps LdOverlayProps LdWidget FbdProps FbdCanvasProps ScopeProps VarPanelProps BackendProps DeployProps DapClient DebugProps DebugViews
    IlProps CompileWorker PouTree StCommandProps WizardProps ContextMenu Modes
begin

text \<open>
  A verification library for WefTIK Studio, an IDE for IEC 61131-3 programs (TypeScript, on
  Eclipse Theia). Modelled, under src/theia-extensions unless a path says otherwise: the ladder editor
  (weftik-ld-editor/src: model/, state/, backend/ld-operation-handler.ts, the handlers of
  components/LdCanvas.tsx with the property view and the context menu, client/ld-editor-widget.tsx),
  the function block editor (weftik-fbd-editor/src: model/, backend/, the handlers of
  components/FbdCanvas.tsx, client/fbd-editor-widget.tsx); the backend service between the views and the native bridge (weftik-backend); the
  compile and deploy commands (weftik-st-editor); the check of instruction lists (weftik-il-editor); the
  debug channel, its client of the debug adapter and the debug views (weftik-debug); the variable tables and their
  panels, the signal browser and the scope, the project tree, the wizards and the file menu (weftik-core); the
  modes of the studio (src/apps/studio/src/browser/mode).

  \<^bold>\<open>How the program works.\<close> An editor keeps one document: a graph of nodes, edges and, in the
  ladder editor, rungs with parallel branches. The view calls an operation of the handler; the
  handler checks its guards, throws or returns a changed copy of the document; the state object
  wraps the call in \<open>applyOperation\<close>, which keeps a JSON snapshot for undo. Positions are not
  edited: the ladder layout derives them from the order of the rungs' elements. Compiling
  validates the document, translates it to text (ladder text, instruction list) and hands the
  text to the native compiler. A project is a directory of such documents and of texts: the wizards
  create them from templates, the tree groups them by directory, the variable tables edit their
  declaration blocks. The tree and the compile commands find the files by the same walk over the directories; the
  commands compile them through the backend and put the errors as markers into the editors. Requests for the native bridge pass the backend service: rate limit, role,
  validation of the parameters, call, audit. Deploying compiles every file, merges the programs and
  sends one. Debugging goes through a channel that answers the debug view's requests from a bridge,
  a stub or a client of an adapter process speaking a framed protocol. Two panels poll the signals of
  the controller by interval timers: a tree of values with a filter, and a scope that draws curves.

  \<^bold>\<open>Theories, bottom up.\<close>
  \<^item> JsPrelude, Json: what the code uses of JavaScript (numbers as rationals, \<open>Math.round\<close>,
    \<open>splice\<close>, \<open>Map\<close> and \<open>Set\<close> as association lists, \<open>trim\<close>, JSON values); the library lemmas and the
    \<open>codec\<close> collection.
  \<^item> LdModel, LdJson, LdCatalog, LdSerialization, LdLayout: the ladder document (model/*.ts), one
    record per interface, one datatype per enum and node kind, its factories, saving, the block
    catalog, structural validation, layout.
  \<^item> LdHandler: the 23 operations of \<open>LdOperationHandler\<close> with their helpers, every call that
    changes state in the order of the code; a thrown \<open>ValidationError\<close> is the left summand.
    LdInvariant, LdOps, LdPreserve: the invariant \<open>ld_inv\<close> and its preservation by every operation.
    LdSpecs: what single operations do beyond that. LdMachine: the operations as one machine.
    LdEvolve: what an operation leaves alone (a node keeps its id, kind and rung), from which the
    canvas invariant follows.
  \<^item> LdView, LdCanvas, LdSession, LdWidget: the ladder canvas. LdView: the nodes and edges it shows
    for a document (\<open>graphToFlow\<close>) and the slot a drop falls in (\<open>findInsertIndex\<close>). LdCanvas: its
    state (undo state, document, selection, clipboard, property drafts) and one function per handler,
    each user action an event of \<open>canvas_step\<close>. LdSession: the invariant of that state and its
    preservation by every event. LdWidget: the file, opening, and saving in two halves.
  \<^item> LdOverlay, LdOverlayProps: what lies over that canvas, as a machine above \<open>canvas_step\<close>: Find, Cross Reference,
    the validation that follows the edits with its timer and marks, monitoring, menus, drags and keys.
  \<^item> LdCompile, LdQueries: \<open>validate\<close>, \<open>compile\<close>, the ladder text, the Find and Cross Reference
    panels and the marking of broken rungs (variable-utils.ts, validation-ui.ts).
  \<^item> FbdModel, FbdRegistry, FbdHandler, FbdMachine: the same for the function block editor.
    FbdValidate, FbdCycles: its validation with the iterative depth first search for feedback.
    FbdCompile, FbdSort, FbdIl: Kahn's sort, the emitted instruction list, and a machine for it.
  \<^item> EditMachine: the interface of an editor (operations that throw or change the document, a
    safety condition, an invariant), with inductive reachability; interpreted by both editors.
    History, LdHistory, FbdHistory: undo and redo, specified as a timeline of documents and refined
    by the two state classes; the interface \<open>history\<close> is interpreted by both.
  \<^item> Sessions: what both canvases rely on, as the interface \<open>undo_session\<close>: an undo state whose
    entries, and the document shown, satisfy an invariant that safe mutations keep. Interpreted for
    the ladder canvas in LdSession and, through its extension \<open>diagram_session\<close>, for the diagram canvas in FbdCanvas.
  \<^item> FbdCanvas, FbdCanvasProps: the diagram canvas like LdCanvas and LdWidget: what is drawn, one
    function per handler, one event per user action, the file and saving in two halves.
  \<^item> Signals, SignalProps: signal-tree-model.ts and signal-browser-widget.tsx. Timers are the list of
    live intervals; the interface \<open>polling_panel\<close> (a panel owns at most one timer) is interpreted by
    the browser and by the scope. The regular expression made of a filter is parsed and matched.
  \<^item> Scope, ScopeProps: time-series-buffer.ts, scope-canvas.ts, scope-panel-widget.tsx.
  \<^item> RateLimit, Backend: rate-limiter.ts, rbac-middleware.ts, schema-validator.ts,
    weftik-backend-service.ts. The interface \<open>quota\<close> (a granted request costs credit, time gives some
    back) is interpreted by the limiter. BackendProps: the properties of the service.
  \<^item> Deploy: deploy-model.ts, the deploy handler, and the control flow of the virtual machine
    (crates/weftik-hal-ir/src/executor.rs) that runs what it sends. DeployProps: its properties.
  \<^item> DapFrames, DapProps: dap-protocol.ts on UTF-16 units; the interface \<open>streaming\<close> (decoding what is
    left over and more input is decoding all of it) is interpreted by \<open>decodeFrames\<close>.
    DapClient: the requests of real-dap-bridge.ts as a machine of its callbacks, with reachability.
  \<^item> DebugChannel, DebugProps: debug-channel.ts over any bridge; the interface \<open>breakpoint_bridge\<close> is
    interpreted by the stub and shown for the adapter client.
  \<^item> VarTables, VarProps: iec-types.ts, gvl-model.ts, local-var-model.ts; the regular expression of a
    declaration is a scanner, exact because its alternatives do not overlap where they meet.
  \<^item> VarRefs, VarPanels, VarPanelProps: var-reference-model.ts (the names a program uses, its regular
    expressions as scanners) and the two table panels, local-var-view-widget.tsx and
    gvl-view-widget.tsx, as machines whose reads and writes of files are in flight between events. VarPieces is the
    reference for the names: texts put together from statements, literals and comments.
  \<^item> Project, ProjectProps: pou-tree-model.ts, pou-highlight.ts, pou-wizard-model.ts,
    iec-conventions.ts, project-model.ts, and the file search of iec-new-file-contribution.ts.
  \<^item> ProjectScan: the walk over the workspace of pou-tree-widget.tsx and st-compile-command.ts, against a finite tree
    of directories. PouTree: the tree widget as a machine of timers and scans in flight.
    StCommands, StCommandProps: the commands of st-compile-command.ts with st-project-compile.ts.
  \<^item> Wizards, WizardProps: project-wizard-contribution.ts, pou-wizard-contribution.ts and the commands of
    iec-new-file-contribution.ts as steps on a disk that may refuse; the interface \<open>careful\<close> (a relation of disks kept by
    creating what was not there) is interpreted for "no file changes" and for "nothing outside changes".
  \<^item> ContextMenu, Modes: iec-context-menu.ts with iec-navigator-decorator.ts; the modes of the studio.
  \<^item> IlDiagnostics, IlProps: il-diagnostics.ts, and the check of what the function block compiler writes; the
    interface \<open>diagram_session\<close> of FbdCanvas is interpreted there for diagrams with plain names.
  \<^item> CompileWorker: compile-worker.ts and compile-bridge.ts, the promises of several workers.
  \<^item> DebugViews: debug-panel-widget.ts, breakpoints-view.ts, variables-view.ts, with what the browser reads back.
  \<^item> LdDemo: a small ladder diagram. LdProps, LdOutput, LdCanvasProps, FbdProps: the properties and
    their witnesses.

  \<^bold>\<open>Correspondence.\<close> Ids are drawn by \<open>generateId\<close> from a counter and, in the ladder editor, a random
  suffix; the generator is a state that every operation threads, with the random suffixes as an
  unknown sequence, and freshness of later ids is part of the invariants (it rests on the counter
  alone). \<open>cloneGraph\<close> is \<open>JSON.parse\<close> after \<open>JSON.stringify\<close>; on the document types it is the identity,
  which is proved from the JSON encoding and decoding. Aliasing between the old and the new document
  does not arise, because every operation clones before it writes. Numbers are rationals: the
  code computes coordinates from small integers, where doubles are exact.

  \<^bold>\<open>What the properties say.\<close> LdProps: any editing session keeps a ladder document well-formed and
  validation then finds rung-rule violations only; what each of the main operations changes, and that
  it changes nothing else; four properties state defects (reordering cannot reach the end of a rung,
  pasting a comparison duplicates its id, deleting a rung leaves branch members behind, and in LdOutput
  that negation is lost in the ladder text). LdOutput: no overlap in the derived layout, JSON round
  trip, undo and redo, the ladder text can be read back, when compilation succeeds, what the panels
  list. LdCanvasProps, LdWidget: whatever the user does on the canvas, its document satisfies the
  handler's invariant, agrees with the undo state and its selection, and the view shows every element
  once; an element dropped where it is drawn keeps its place; and defects (deleting a rung from the
  menu fails, cut and paste loses the element, a property field keeps only the last key typed, replacing a branch member loses it, a block overlaps the next rung, a save marks later edits
  as saved). LdOverlayProps: the marks are those of the document once the timer has run, Find visits every match, and
  a row of the Cross Reference highlights more than its variable. FbdProps: editing sessions, wiring, feedback detection, evaluation order, and that the compiled
  instruction list computes the diagram, with the case in which it does not (an output with several
  wires). BackendProps: what a request can do to the world behind the bridge, who is refused and
  how, how many requests a session gets, what sessions and buckets always satisfy, and that the
  methods that start and stop the controller are open to every role. DeployProps: every program runs
  in the merged program as it does alone, but only the first is ever reached. DapProps, DapClient,
  DebugProps: frames survive any cutting of the stream if they are ASCII, requests are settled once,
  every debug request is answered once, breakpoints are set as asked. VarProps, ProjectProps: tables
  are read back as saved, files are found where the wizard puts them. FbdCanvasProps: any use of the
  diagram canvas keeps a well-formed diagram on the grid that the view shows completely; deleting
  removes what is selected and, a defect, every wire of an output with one of its wires; reopened
  files reuse ids. SignalProps, ScopeProps: the filter is a glob, one timer runs exactly while a panel
  polls, the buffer is a window of the newest samples, curves stay inside the plot, the CSV text reads
  back. VarPanelProps: a saved table is read back and leaves the statements alone, the hint lists the
  undeclared names, and how a late answer makes one file overwrite another. PouTree: from the directories to the groups that
  are shown, and that the tree is not left behind when scans end in order. StCommandProps: from the directories to
  the markers in the editors. ProjectScan: when the walk ends. WizardProps: no wizard overwrites what it saw, a new project
  is complete. ContextMenu: where Compile and Deploy agree. IlProps: compiled diagrams pass the check.
  CompileWorker: every compilation in a worker is settled. DebugViews, Modes: their sessions.

  \<^bold>\<open>Parameters.\<close> The native compiler (\<open>compileFn\<close>), \<open>JSON.parse\<close> on its output, \<open>String\<close> of a number,
  \<open>Number\<close> of a string, \<open>localeCompare\<close>, and the effect of a function block's body in the instruction list
  machine are arguments, as are the clock, the bridge and adapter process behind the services, the effect of a
  machine instruction on registers and signals, and which files exist; no property assumes anything of
  them beyond what its statement shows. A JSON text that is only parsed again stands as the value it
  denotes, or as \<open>None\<close> where parsing fails.

  \<^bold>\<open>Loops.\<close> The depth first search is total by a measure (white nodes reached, edges left on the
  stack); where the parent chain is walked it is an option-valued partial function, and detection is
  proved to return. Kahn's sort is total by the number of positive in-degrees plus the queue length.
  The instruction list machine runs forward only. Decoding frames is total by the length of the
  buffer. The scanners of the regular expressions are total by
  the length of the rest of the text. The search for a free file name may not end, so it is option-valued, and is proved to end
  when finitely many names are taken. The walk over the directories is option-valued as well; it ends exactly when no directories are
  endlessly deep. The virtual machine runs for a number of steps that the
  statements quantify over.

  \<^bold>\<open>Not modelled.\<close> The debug channel does not await its dispatch, so requests in flight may interleave at
  the calls of the bridge; the model handles each request to its end. Of the ladder canvas: styles and the
  geometry of the hit test (what lies under the pointer comes with the event); of the scope: grid,
  labels and colours. Dependency injection, process and file I/O, and the language tables of the text editors are listed
  with their reasons in PROJECT.json; vendored tooling under src/.agents is left aside.
\<close>

end
